(* ===== verification/Prelude.thy ===== *)
theory Prelude
  imports Main "HOL-Library.Word" "HOL-Library.Log_Nat"
begin

text \<open>
  Shared material of the development: the fixed-width unsigned arithmetic of the C++ code,
  the numeric value of a vector of bits, and the fact collections the component theories
  extend.
  \<^item> \<open>u32\<close> and \<open>u64\<close> write out the wrap-around of \<^verbatim>\<open>uint32_t\<close> and
    \<^verbatim>\<open>uint64_t\<close>; \<open>u32_sub\<close> is the wrapping subtraction.
  \<^item> \<open>bval bs\<close> reads a list of bits, least significant bit first, as the code stores its
    bit vectors.
\<close>

unbundle bit_operations_syntax

named_theorems gmp_simps \<open>documented behaviour of the GMP functions, as rewrite rules\<close>
named_theorems bv_defs \<open>definitions of the BitVector operations\<close>
named_theorems bv_inv_intros \<open>preservation of the BitVector invariant\<close>

section \<open>Unsigned machine arithmetic\<close>

definition u32 :: "nat \<Rightarrow> nat" where
  "u32 n = n mod 2 ^ 32"

definition u64 :: "nat \<Rightarrow> nat" where
  "u64 n = n mod 2 ^ 64"

definition u32_sub :: "nat \<Rightarrow> nat \<Rightarrow> nat" where
  "u32_sub a b = (a + (2 ^ 32 - b mod 2 ^ 32)) mod 2 ^ 32"

lemma u32_id [simp]: "n < 2 ^ 32 \<Longrightarrow> u32 n = n"
  by (simp add: u32_def)

lemma u64_id [simp]: "n < 2 ^ 64 \<Longrightarrow> u64 n = n"
  by (simp add: u64_def)

lemma u32_less [simp]: "u32 n < 2 ^ 32"
  by (simp add: u32_def)

lemma u32_sub_ge [simp]:
  assumes "b \<le> a" "a < 2 ^ 32"
  shows "u32_sub a b = a - b"
proof -
  have "a + (2 ^ 32 - b) = (a - b) + 2 ^ 32"
    using assms by linarith
  moreover have "((a - b) + 2 ^ 32) mod 2 ^ 32 = (a - b :: nat)"
    using assms by (subst mod_add_self2) simp
  ultimately have "(a + (2 ^ 32 - b)) mod 2 ^ 32 = a - b"
    by (rule trans [OF arg_cong])
  moreover have "b mod 2 ^ 32 = b"
    using assms by simp
  ultimately show ?thesis
    by (simp only: u32_sub_def)
qed

lemma u32_sub_1_add_1: "u32 (u32_sub (u32 n) 1 + 1) = u32 n"
proof -
  have "u32 (u32_sub (u32 n) 1 + 1) = (u32 n + (2 ^ 32 - 1) + 1) mod 2 ^ 32"
    by (simp only: u32_sub_def u32_def [of "_ + 1"]) (simp add: mod_simps)
  also have "\<dots> = u32 n mod 2 ^ 32"
    by simp
  finally show ?thesis
    by (simp add: u32_def)
qed

section \<open>The value of a bit vector\<close>

definition bval :: "bool list \<Rightarrow> int" where
  "bval bs = horner_sum of_bool 2 bs"

lemma bval_Nil [simp]: "bval [] = 0"
  by (simp add: bval_def)

lemma bval_Cons [simp]: "bval (b # bs) = of_bool b + 2 * bval bs"
  by (simp add: bval_def)

lemma bval_append: "bval (xs @ ys) = bval xs + 2 ^ length xs * bval ys"
  by (induction xs) (simp_all add: algebra_simps)

lemma bval_nonneg [simp]: "0 \<le> bval bs"
  by (induction bs) auto

lemma bval_less [simp]: "bval bs < 2 ^ length bs"
  by (induction bs) auto

lemma bval_mod [simp]: "bval bs mod 2 ^ length bs = bval bs"
  by simp

lemma bval_replicate_False [simp]: "bval (replicate n False) = 0"
  by (induction n) auto

lemma bval_replicate_True: "bval (replicate n True) = 2 ^ n - 1"
  by (induction n) auto

lemma bval_map_Not: "bval (map Not bs) = 2 ^ length bs - 1 - bval bs"
  by (induction bs) auto

lemma bit_bval_iff: "bit (bval bs) i \<longleftrightarrow> i < length bs \<and> bs ! i"
  by (simp add: bval_def bit_horner_sum_bit_iff)

lemma bval_inj: "length xs = length ys \<Longrightarrow> bval xs = bval ys \<longleftrightarrow> xs = ys"
proof (induction xs ys rule: list_induct2)
  case Nil
  show ?case by simp
next
  case (Cons x xs y ys)
  have "(of_bool x + 2 * bval xs = of_bool y + 2 * bval ys) = (x = y \<and> bval xs = bval ys)"
    by (cases x; cases y; simp; presburger)
  with Cons show ?case by simp
qed

lemma bval_take_bit: "bval (map (bit x) [0..<n]) = take_bit n x"
  by (simp add: bval_def horner_sum_bit_eq_take_bit)

lemma bval_eqI: "length bs = n \<Longrightarrow> (\<And>i. i < n \<Longrightarrow> bs ! i = bit x i) \<Longrightarrow> bval bs = take_bit n x"
  by (auto intro!: bit_eqI simp: bit_bval_iff bit_take_bit_iff)

section \<open>Facts on integers and their bits\<close>

lemma take_bit_nonneg_less:
  fixes x :: int
  shows "0 \<le> take_bit n x" "take_bit n x < 2 ^ n"
  by simp_all

lemma take_bit_id_iff_less:
  fixes x :: int
  shows "0 \<le> x \<Longrightarrow> x < 2 ^ n \<Longrightarrow> take_bit n x = x"
  by (simp add: take_bit_int_eq_self)

lemma mask_minus_nonneg:
  fixes x :: int
  shows "x < 2 ^ n \<Longrightarrow> 0 \<le> 2 ^ n - 1 - x"
  by simp

end
