(* ===== verification/Ava_Integer.thy ===== *)
theory Ava_Integer
  imports Prelude
begin

text \<open>
  The class \<^verbatim>\<open>Integer\<close> of \<^verbatim>\<open>src/src/util/integer_gmp_imp.cpp\<close>, the arbitrary precision
  integers under every arithmetic, bit-vector and string computation of the solver.

  The member \<^verbatim>\<open>d_value\<close> is an \<^verbatim>\<open>mpz_class\<close>, modelled as \<open>int\<close>; the operators of
  \<^verbatim>\<open>mpz_class\<close> used by the code (\<open>+\<close>, \<open>-\<close>, \<open>*\<close>, the comparisons) are those of
  \<open>int\<close>.  The \<^verbatim>\<open>mpz_\<close> functions are code of the GMP library: they are the fields of a record
  \<open>gmp\<close> that every definition takes as an argument, and the locale \<open>gmp_documented\<close> states
  what the GMP manual documents of them.  \<open>gmp_reference\<close> is a record of computable functions
  that satisfies the locale.
\<close>

section \<open>The GMP functions\<close>

record gmp =
  mpz_ior :: "int \<Rightarrow> int \<Rightarrow> int"
  mpz_and :: "int \<Rightarrow> int \<Rightarrow> int"
  mpz_xor :: "int \<Rightarrow> int \<Rightarrow> int"
  mpz_com :: "int \<Rightarrow> int"
  mpz_mul_2exp :: "int \<Rightarrow> nat \<Rightarrow> int"
  mpz_setbit :: "int \<Rightarrow> nat \<Rightarrow> int"
  mpz_clrbit :: "int \<Rightarrow> nat \<Rightarrow> int"
  mpz_tstbit :: "int \<Rightarrow> nat \<Rightarrow> bool"
  mpz_fdiv_r_2exp :: "int \<Rightarrow> nat \<Rightarrow> int"
  mpz_fdiv_q_2exp :: "int \<Rightarrow> nat \<Rightarrow> int"
  mpz_fdiv_q :: "int \<Rightarrow> int \<Rightarrow> int"
  mpz_fdiv_r :: "int \<Rightarrow> int \<Rightarrow> int"
  mpz_fdiv_qr :: "int \<Rightarrow> int \<Rightarrow> int \<times> int"
  mpz_cdiv_q :: "int \<Rightarrow> int \<Rightarrow> int"
  mpz_cdiv_r :: "int \<Rightarrow> int \<Rightarrow> int"
  mpz_divexact :: "int \<Rightarrow> int \<Rightarrow> int"
  mpz_mod :: "int \<Rightarrow> int \<Rightarrow> int"
  mpz_get_ui :: "int \<Rightarrow> nat"
  mpz_sgn :: "int \<Rightarrow> int"
  mpz_cmp_si :: "int \<Rightarrow> int \<Rightarrow> int"
  mpz_pow_ui :: "int \<Rightarrow> nat \<Rightarrow> int"
  mpz_gcd :: "int \<Rightarrow> int \<Rightarrow> int"
  mpz_lcm :: "int \<Rightarrow> int \<Rightarrow> int"
  mpz_invert :: "int \<Rightarrow> int \<Rightarrow> int option"
  mpz_divisible_p :: "int \<Rightarrow> int \<Rightarrow> bool"
  mpz_popcount :: "int \<Rightarrow> nat"
  mpz_scan1 :: "int \<Rightarrow> nat \<Rightarrow> nat"
  mpz_sizeinbase :: "int \<Rightarrow> nat \<Rightarrow> nat"

text \<open>
  What the GMP manual documents.  Bit operations act on two's complement; \<open>fdiv\<close> rounds
  towards minus infinity and \<open>cdiv\<close> towards plus infinity, both with a divisor that is not
  zero; \<open>mpz_get_ui\<close> returns the low 64 bits of the absolute value; \<open>mpz_invert\<close> reports
  whether an inverse exists, and then gives the one in the range of the modulus.
\<close>

locale gmp_documented =
  fixes G :: gmp
  assumes ior [gmp_simps]: "mpz_ior G a b = a OR b"
    and and_ [gmp_simps]: "mpz_and G a b = a AND b"
    and xor_ [gmp_simps]: "mpz_xor G a b = a XOR b"
    and com [gmp_simps]: "mpz_com G a = NOT a"
    and mul_2exp [gmp_simps]: "mpz_mul_2exp G a n = a * 2 ^ n"
    and setbit [gmp_simps]: "mpz_setbit G a n = set_bit n a"
    and clrbit [gmp_simps]: "mpz_clrbit G a n = unset_bit n a"
    and tstbit [gmp_simps]: "mpz_tstbit G a n = bit a n"
    and fdiv_r_2exp [gmp_simps]: "mpz_fdiv_r_2exp G a n = a mod 2 ^ n"
    and fdiv_q_2exp [gmp_simps]: "mpz_fdiv_q_2exp G a n = a div 2 ^ n"
    and fdiv_q: "d \<noteq> 0 \<Longrightarrow> mpz_fdiv_q G a d = a div d"
    and fdiv_r: "d \<noteq> 0 \<Longrightarrow> mpz_fdiv_r G a d = a mod d"
    and fdiv_qr: "d \<noteq> 0 \<Longrightarrow> mpz_fdiv_qr G a d = (a div d, a mod d)"
    and cdiv_q: "d \<noteq> 0 \<Longrightarrow> mpz_cdiv_q G a d = - ((- a) div d)"
    and cdiv_r: "d \<noteq> 0 \<Longrightarrow> mpz_cdiv_r G a d = a + d * ((- a) div d)"
    and divexact: "d dvd a \<Longrightarrow> d \<noteq> 0 \<Longrightarrow> mpz_divexact G a d = a div d"
    and mod_: "d \<noteq> 0 \<Longrightarrow> mpz_mod G a d = a mod \<bar>d\<bar>"
    and get_ui [gmp_simps]: "mpz_get_ui G a = nat (\<bar>a\<bar> mod 2 ^ 64)"
    and sgn_ [gmp_simps]: "mpz_sgn G a = sgn a"
    and cmp_si: "mpz_cmp_si G a n = 0 \<longleftrightarrow> a = n"
    and pow_ui [gmp_simps]: "mpz_pow_ui G a n = a ^ n"
    and gcd_ [gmp_simps]: "mpz_gcd G a b = gcd a b"
    and lcm_ [gmp_simps]: "mpz_lcm G a b = lcm a b"
    and invert_None: "m \<noteq> 0 \<Longrightarrow> mpz_invert G a m = None \<longleftrightarrow> \<not> coprime a m"
    and invert_Some: "m \<noteq> 0 \<Longrightarrow> mpz_invert G a m = Some r \<Longrightarrow>
      (a * r) mod m = 1 mod m \<and> 0 \<le> r \<and> r < \<bar>m\<bar>"
    and divisible_p [gmp_simps]: "mpz_divisible_p G a d = (d dvd a)"
    and popcount: "0 \<le> a \<Longrightarrow> mpz_popcount G a = card {i. bit a i}"
    and scan1: "0 \<le> a \<Longrightarrow> bit a i \<Longrightarrow> start \<le> i \<Longrightarrow> (\<And>j. start \<le> j \<Longrightarrow> j < i \<Longrightarrow> \<not> bit a j) \<Longrightarrow>
      mpz_scan1 G a start = i"
    and sizeinbase2: "a \<noteq> 0 \<Longrightarrow> mpz_sizeinbase G a 2 = nat (bitlen \<bar>a\<bar>)"

section \<open>Bitwise operations and shifts\<close>

definition bitwiseOr :: "gmp \<Rightarrow> int \<Rightarrow> int \<Rightarrow> int" where
  "bitwiseOr G x y = mpz_ior G x y"

definition bitwiseAnd :: "gmp \<Rightarrow> int \<Rightarrow> int \<Rightarrow> int" where
  "bitwiseAnd G x y = mpz_and G x y"

definition bitwiseXor :: "gmp \<Rightarrow> int \<Rightarrow> int \<Rightarrow> int" where
  "bitwiseXor G x y = mpz_xor G x y"

definition bitwiseNot :: "gmp \<Rightarrow> int \<Rightarrow> int" where
  "bitwiseNot G x = mpz_com G x"

definition multiplyByPow2 :: "gmp \<Rightarrow> int \<Rightarrow> nat \<Rightarrow> int" where
  "multiplyByPow2 G x pow = mpz_mul_2exp G x pow"

definition setBit :: "gmp \<Rightarrow> int \<Rightarrow> nat \<Rightarrow> bool \<Rightarrow> int" where
  "setBit G x i value = (if value then mpz_setbit G x i else mpz_clrbit G x i)"

text \<open>
  \<^verbatim>\<open>high\<close> and the argument \<^verbatim>\<open>high + 1\<close> of the first call are \<^verbatim>\<open>uint32_t\<close> expressions.
\<close>

definition extractBitRange :: "gmp \<Rightarrow> int \<Rightarrow> nat \<Rightarrow> nat \<Rightarrow> int" where
  "extractBitRange G x bitCount low =
     (let high = u32_sub (u32 (low + bitCount)) 1;
          rem = mpz_fdiv_r_2exp G x (u32 (high + 1))
      in mpz_fdiv_q_2exp G rem low)"

definition sgn_Integer :: "gmp \<Rightarrow> int \<Rightarrow> int" where
  "sgn_Integer G x = mpz_sgn G x"

definition strictlyPositive :: "gmp \<Rightarrow> int \<Rightarrow> bool" where
  "strictlyPositive G x = (sgn_Integer G x > 0)"

definition strictlyNegative :: "gmp \<Rightarrow> int \<Rightarrow> bool" where
  "strictlyNegative G x = (sgn_Integer G x < 0)"

definition isZero_Integer :: "gmp \<Rightarrow> int \<Rightarrow> bool" where
  "isZero_Integer G x = (sgn_Integer G x = 0)"

definition isOne :: "gmp \<Rightarrow> int \<Rightarrow> bool" where
  "isOne G x = (mpz_cmp_si G x 1 = 0)"

definition isNegativeOne :: "gmp \<Rightarrow> int \<Rightarrow> bool" where
  "isNegativeOne G x = (mpz_cmp_si G x (- 1) = 0)"

definition isBitSet :: "gmp \<Rightarrow> int \<Rightarrow> nat \<Rightarrow> bool" where
  "isBitSet G x i = (\<not> isZero_Integer G (extractBitRange G x 1 i))"

definition testBit :: "gmp \<Rightarrow> int \<Rightarrow> nat \<Rightarrow> bool" where
  "testBit G x n = mpz_tstbit G x n"

text \<open>
  The loop \<^verbatim>\<open>for (unsigned i = size; i < size + amount; ++i) mpz_setbit(res, i)\<close>; the bound
  \<^verbatim>\<open>size + amount\<close> is a \<^verbatim>\<open>uint32_t\<close> expression.
\<close>

definition oneExtend :: "gmp \<Rightarrow> int \<Rightarrow> nat \<Rightarrow> nat \<Rightarrow> int" where
  "oneExtend G x sz amount = fold (\<lambda>i res. mpz_setbit G res i) [sz..<u32 (sz + amount)] x"

definition toUnsignedInt :: "gmp \<Rightarrow> int \<Rightarrow> nat" where
  "toUnsignedInt G x = u32 (mpz_get_ui G x)"

definition modByPow2 :: "gmp \<Rightarrow> int \<Rightarrow> nat \<Rightarrow> int" where
  "modByPow2 G x e = mpz_fdiv_r_2exp G x e"

definition divByPow2 :: "gmp \<Rightarrow> int \<Rightarrow> nat \<Rightarrow> int" where
  "divByPow2 G x e = mpz_fdiv_q_2exp G x e"

section \<open>Division\<close>

definition floorDivideQuotient :: "gmp \<Rightarrow> int \<Rightarrow> int \<Rightarrow> int" where
  "floorDivideQuotient G x y = mpz_fdiv_q G x y"

definition floorDivideRemainder :: "gmp \<Rightarrow> int \<Rightarrow> int \<Rightarrow> int" where
  "floorDivideRemainder G x y = mpz_fdiv_r G x y"

definition floorQR :: "gmp \<Rightarrow> int \<Rightarrow> int \<Rightarrow> int \<times> int" where
  "floorQR G x y = mpz_fdiv_qr G x y"

definition ceilingDivideQuotient :: "gmp \<Rightarrow> int \<Rightarrow> int \<Rightarrow> int" where
  "ceilingDivideQuotient G x y = mpz_cdiv_q G x y"

definition ceilingDivideRemainder :: "gmp \<Rightarrow> int \<Rightarrow> int \<Rightarrow> int" where
  "ceilingDivideRemainder G x y = mpz_cdiv_r G x y"

definition euclidianQR :: "gmp \<Rightarrow> int \<Rightarrow> int \<Rightarrow> int \<times> int" where
  "euclidianQR G x y =
     (let (q, r) = floorQR G x y
      in if strictlyNegative G r
         then if sgn_Integer G r \<ge> 0 then (q - 1, r + y) else (q + 1, r - y)
         else (q, r))"

definition euclidianDivideQuotient :: "gmp \<Rightarrow> int \<Rightarrow> int \<Rightarrow> int" where
  "euclidianDivideQuotient G x y = fst (euclidianQR G x y)"

definition euclidianDivideRemainder :: "gmp \<Rightarrow> int \<Rightarrow> int \<Rightarrow> int" where
  "euclidianDivideRemainder G x y = snd (euclidianQR G x y)"

definition divides :: "gmp \<Rightarrow> int \<Rightarrow> int \<Rightarrow> bool" where
  "divides G x y = mpz_divisible_p G y x"

definition exactQuotient :: "gmp \<Rightarrow> int \<Rightarrow> int \<Rightarrow> int" where
  "exactQuotient G x y = mpz_divexact G x y"

section \<open>Number theory, powers and sizes\<close>

definition pow_Integer :: "gmp \<Rightarrow> int \<Rightarrow> nat \<Rightarrow> int" where
  "pow_Integer G x e = mpz_pow_ui G x e"

definition gcd_Integer :: "gmp \<Rightarrow> int \<Rightarrow> int \<Rightarrow> int" where
  "gcd_Integer G x y = mpz_gcd G x y"

definition lcm_Integer :: "gmp \<Rightarrow> int \<Rightarrow> int \<Rightarrow> int" where
  "lcm_Integer G x y = mpz_lcm G x y"

definition modAdd :: "gmp \<Rightarrow> int \<Rightarrow> int \<Rightarrow> int \<Rightarrow> int" where
  "modAdd G x y m = mpz_mod G (x + y) m"

definition modMultiply :: "gmp \<Rightarrow> int \<Rightarrow> int \<Rightarrow> int \<Rightarrow> int" where
  "modMultiply G x y m = mpz_mod G (x * y) m"

definition modInverse :: "gmp \<Rightarrow> int \<Rightarrow> int \<Rightarrow> int" where
  "modInverse G x m = (case mpz_invert G x m of None \<Rightarrow> - 1 | Some res \<Rightarrow> res)"

definition abs_Integer :: "int \<Rightarrow> int" where
  "abs_Integer x = (if x \<ge> 0 then x else - x)"

text \<open>\<^verbatim>\<open>isPow2\<close> returns \<open>k\<close> for the value \<open>2 ^ (k - 1)\<close> and \<open>0\<close> for every other value.\<close>

definition isPow2 :: "gmp \<Rightarrow> int \<Rightarrow> nat" where
  "isPow2 G x =
     (if x \<le> 0 then 0 else if mpz_popcount G x = 1 then u32 (mpz_scan1 G x 0 + 1) else 0)"

definition length_Integer :: "gmp \<Rightarrow> int \<Rightarrow> nat" where
  "length_Integer G x = (if sgn_Integer G x = 0 then 1 else mpz_sizeinbase G x 2)"

definition min_Integer :: "int \<Rightarrow> int \<Rightarrow> int" where
  "min_Integer a b = (if a \<le> b then a else b)"

definition max_Integer :: "int \<Rightarrow> int \<Rightarrow> int" where
  "max_Integer a b = (if a \<ge> b then a else b)"

section \<open>What the operations compute, for a GMP as documented\<close>

lemma fold_set_bit_bit:
  fixes x :: int
  shows "bit (fold set_bit [a..<b] x) i \<longleftrightarrow> bit x i \<or> a \<le> i \<and> i < b"
proof (induction b)
  case 0
  show ?case by simp
next
  case (Suc b)
  show ?case
  proof (cases "a \<le> b")
    case True
    then have "fold set_bit [a..<Suc b] x = set_bit b (fold set_bit [a..<b] x)"
      by simp
    with Suc True show ?thesis
      by (auto simp: bit_simps)
  qed (use Suc in auto)
qed

lemma not_bit_ge: "0 \<le> (x::int) \<Longrightarrow> x < 2 ^ n \<Longrightarrow> n \<le> i \<Longrightarrow> \<not> bit x i"
  by (metis bit_take_bit_iff linorder_not_less take_bit_int_eq_self)

lemma card_bits_1_iff:
  fixes x :: int
  assumes "0 < x"
  shows "card {i. bit x i} = 1 \<longleftrightarrow> (\<exists>k. x = 2 ^ k)"
proof
  assume "card {i. bit x i} = 1"
  then obtain k where "{i. bit x i} = {k}"
    by (auto simp: card_1_singleton_iff)
  then have "x = 2 ^ k"
    by (intro bit_eqI) (auto simp: bit_exp_iff)
  then show "\<exists>k. x = 2 ^ k" ..
next
  assume "\<exists>k. x = 2 ^ k"
  then obtain k where "x = 2 ^ k" ..
  then have "{i. bit x i} = {k}"
    by (auto simp: bit_exp_iff)
  then show "card {i. bit x i} = 1" by simp
qed

context gmp_documented
begin

lemmas Integer_defs = bitwiseOr_def bitwiseAnd_def bitwiseXor_def bitwiseNot_def
  multiplyByPow2_def setBit_def sgn_Integer_def strictlyPositive_def strictlyNegative_def
  isZero_Integer_def testBit_def modByPow2_def divByPow2_def

lemma modByPow2_eq: "modByPow2 G x n = take_bit n x"
  by (simp add: modByPow2_def fdiv_r_2exp take_bit_eq_mod)

lemma divByPow2_eq: "divByPow2 G x n = drop_bit n x"
  by (simp add: divByPow2_def fdiv_q_2exp drop_bit_eq_div)

lemma multiplyByPow2_eq: "multiplyByPow2 G x n = push_bit n x"
  by (simp add: multiplyByPow2_def mul_2exp push_bit_eq_mult)

lemma extractBitRange_eq:
  assumes "low + bitCount < 2 ^ 32"
  shows "extractBitRange G x bitCount low = take_bit bitCount (drop_bit low x)"
proof -
  have "u32 (u32_sub (u32 (low + bitCount)) 1 + 1) = low + bitCount"
    using u32_sub_1_add_1 [of "low + bitCount"] u32_id [OF assms] by argo
  then have "extractBitRange G x bitCount low = drop_bit low (take_bit (low + bitCount) x)"
    by (simp add: extractBitRange_def fdiv_r_2exp fdiv_q_2exp Let_def
        drop_bit_eq_div take_bit_eq_mod)
  then show ?thesis
    by (simp add: drop_bit_take_bit)
qed

lemma isBitSet_eq: "i + 1 < 2 ^ 32 \<Longrightarrow> isBitSet G x i = bit x i"
  by (simp add: isBitSet_def isZero_Integer_def sgn_Integer_def sgn_ extractBitRange_eq
      bit_iff_odd_drop_bit take_bit_eq_mod sgn_0_0 odd_iff_mod_2_eq_one)

lemma oneExtend_bit:
  assumes "sz + amount < 2 ^ 32"
  shows "bit (oneExtend G x sz amount) i \<longleftrightarrow> bit x i \<or> sz \<le> i \<and> i < sz + amount"
  using assms by (simp add: oneExtend_def setbit fold_set_bit_bit)

lemma oneExtend_eq:
  assumes "sz + amount < 2 ^ 32" "0 \<le> x" "x < 2 ^ sz"
  shows "oneExtend G x sz amount = x + 2 ^ sz * (2 ^ amount - 1)"
proof -
  have "oneExtend G x sz amount = x OR push_bit sz (mask amount)"
    by (rule bit_eqI)
      (auto simp: oneExtend_bit [OF assms(1)] bit_or_iff bit_push_bit_iff bit_mask_iff)
  also have "\<dots> = x + push_bit sz (mask amount)"
  proof (rule disjunctive_add [symmetric])
    show "\<not> bit x i \<or> \<not> bit (push_bit sz (mask amount :: int)) i" for i
      using not_bit_ge [OF assms(2,3), of i] by (auto simp: bit_push_bit_iff)
  qed
  finally show ?thesis
    by (simp add: push_bit_eq_mult mask_eq_exp_minus_1 mult.commute)
qed

lemma toUnsignedInt_eq: "0 \<le> x \<Longrightarrow> x < 2 ^ 32 \<Longrightarrow> toUnsignedInt G x = nat x"
  by (simp add: toUnsignedInt_def get_ui nat_less_iff)

lemma euclidianQR_eq:
  assumes "y \<noteq> 0"
  shows "euclidianQR G x y = (sgn y * (x div \<bar>y\<bar>), x mod \<bar>y\<bar>)"
proof (cases "0 < y")
  case True
  then show ?thesis
    using assms by (simp add: euclidianQR_def floorQR_def fdiv_qr strictlyNegative_def
        sgn_Integer_def sgn_ not_less)
next
  case False
  with assms have y: "y < 0" by simp
  show ?thesis
  proof (cases "x mod y = 0")
    case True
    then obtain k where k: "x = y * k" by auto
    have "x div \<bar>y\<bar> = - k"
      using y by (simp add: k div_minus_right flip: mult_minus_right)
    moreover have "x div y = k" "x mod \<bar>y\<bar> = 0"
      using y by (simp_all add: k)
    ultimately show ?thesis
      using True y by (simp add: euclidianQR_def floorQR_def fdiv_qr strictlyNegative_def
          sgn_Integer_def sgn_)
  next
    case False
    have neg: "x mod y < 0"
      using False y neg_mod_sign [of y x] by linarith
    have q: "x div (- y) = - (x div y) - 1"
      using False y by (simp add: div_minus_right zdiv_zminus1_eq_if)
    have r: "x mod (- y) = x mod y - y"
      using False y by (simp add: mod_minus_right zmod_zminus1_eq_if)
    show ?thesis
      using y neg q r
      by (simp add: euclidianQR_def floorQR_def fdiv_qr strictlyNegative_def sgn_Integer_def sgn_)
  qed
qed

lemma isPow2_pos_iff:
  assumes "x < 2 ^ n" "n < 2 ^ 32"
  shows "isPow2 G x = Suc k \<longleftrightarrow> x = 2 ^ k"
proof (cases "\<exists>j. x = 2 ^ j")
  case True
  then obtain j where j: "x = 2 ^ j" ..
  have "j < n"
    using assms j by simp
  moreover have "card {i. bit x i} = 1"
    using True card_bits_1_iff [of x] j by simp
  moreover have "mpz_scan1 G x 0 = j"
    by (rule scan1) (auto simp: j bit_exp_iff)
  ultimately have "isPow2 G x = Suc j"
    using assms(2) by (simp add: isPow2_def popcount j)
  then show ?thesis
    using j by (auto dest: power_inject_exp [THEN iffD1, rotated])
next
  case False
  then have "0 < x \<longrightarrow> card {i. bit x i} \<noteq> 1"
    using card_bits_1_iff by blast
  with False show ?thesis
    by (auto simp: isPow2_def popcount)
qed

lemma length_Integer_bounds:
  assumes "0 < x"
  shows "2 ^ (length_Integer G x - 1) \<le> x \<and> x < 2 ^ length_Integer G x"
proof -
  have "nat (bitlen x) - 1 = nat (bitlen x - 1)"
    by simp
  with assms bitlen_bounds [of x] show ?thesis
    by (simp only: length_Integer_def sgn_Integer_def sgn_ sizeinbase2) simp
qed

lemma modInverse_cases:
  assumes "0 < m"
  shows "modInverse G x m = - 1 \<longleftrightarrow> \<not> coprime x m"
    and "coprime x m \<Longrightarrow> (x * modInverse G x m) mod m = 1 mod m \<and>
      0 \<le> modInverse G x m \<and> modInverse G x m < m"
  using assms invert_None [of m x] invert_Some [of m x]
  by (fastforce simp: modInverse_def split: option.splits)+

end

section \<open>A computable GMP\<close>

text \<open>
  Computable functions with the documented behaviour, on which witnesses evaluate the model.
\<close>

definition popcount_ref :: "int \<Rightarrow> nat" where
  "popcount_ref a = length (filter (bit a) [0..<nat (bitlen a)])"

definition scan1_ref :: "int \<Rightarrow> nat \<Rightarrow> nat" where
  "scan1_ref a start = (case filter (bit a) [start..<nat (bitlen a)] of [] \<Rightarrow> 0 | i # _ \<Rightarrow> i)"

definition invert_ref :: "int \<Rightarrow> int \<Rightarrow> int option" where
  "invert_ref a m = List.find (\<lambda>r. (a * r) mod m = 1 mod m) (map int [0..<nat \<bar>m\<bar>])"

definition gmp_reference :: gmp where
  "gmp_reference = \<lparr>
     mpz_ior = (OR), mpz_and = (AND), mpz_xor = (XOR), mpz_com = NOT,
     mpz_mul_2exp = (\<lambda>a n. a * 2 ^ n),
     mpz_setbit = (\<lambda>a n. set_bit n a), mpz_clrbit = (\<lambda>a n. unset_bit n a),
     mpz_tstbit = bit,
     mpz_fdiv_r_2exp = (\<lambda>a n. a mod 2 ^ n), mpz_fdiv_q_2exp = (\<lambda>a n. a div 2 ^ n),
     mpz_fdiv_q = (div), mpz_fdiv_r = (mod), mpz_fdiv_qr = (\<lambda>a d. (a div d, a mod d)),
     mpz_cdiv_q = (\<lambda>a d. - ((- a) div d)), mpz_cdiv_r = (\<lambda>a d. a + d * ((- a) div d)),
     mpz_divexact = (div), mpz_mod = (\<lambda>a d. a mod \<bar>d\<bar>),
     mpz_get_ui = (\<lambda>a. nat (\<bar>a\<bar> mod 2 ^ 64)), mpz_sgn = sgn, mpz_cmp_si = (-),
     mpz_pow_ui = (^), mpz_gcd = gcd, mpz_lcm = lcm, mpz_invert = invert_ref,
     mpz_divisible_p = (\<lambda>a d. d dvd a), mpz_popcount = popcount_ref, mpz_scan1 = scan1_ref,
     mpz_sizeinbase = (\<lambda>a b. nat (bitlen \<bar>a\<bar>))\<rparr>"

lemma bit_less_bitlen: "0 \<le> a \<Longrightarrow> bit a i \<Longrightarrow> i < nat (bitlen a)"
proof (rule ccontr)
  assume a: "0 \<le> a" "bit a i" "\<not> i < nat (bitlen a)"
  then have "a < 2 ^ nat (bitlen a)"
    using bitlen_bounds [of a] by (cases "a = 0") auto
  with a show False
    using not_bit_ge [of a "nat (bitlen a)" i] by simp
qed

lemma popcount_ref: "0 \<le> a \<Longrightarrow> popcount_ref a = card {i. bit a i}"
proof -
  assume a: "0 \<le> a"
  have "{i. bit a i} = set (filter (bit a) [0..<nat (bitlen a)])"
    using bit_less_bitlen [OF a] by auto
  then show ?thesis
    using distinct_card [of "filter (bit a) [0..<nat (bitlen a)]"]
    by (simp add: popcount_ref_def del: set_filter)
qed

lemma scan1_ref:
  assumes "0 \<le> a" "bit a i" "start \<le> i" "\<And>j. start \<le> j \<Longrightarrow> j < i \<Longrightarrow> \<not> bit a j"
  shows "scan1_ref a start = i"
proof -
  have i: "i < nat (bitlen a)"
    using assms bit_less_bitlen by blast
  then have "[start..<nat (bitlen a)] = [start..<i] @ i # [Suc i..<nat (bitlen a)]"
    using assms(3) by (metis le_add_diff_inverse less_imp_le_nat upt_add_eq_append upt_conv_Cons)
  moreover have "filter (bit a) [start..<i] = []"
    using assms(4) by auto
  ultimately show ?thesis
    using assms(2) by (simp add: scan1_ref_def)
qed

lemma invert_ref_None:
  assumes "m \<noteq> 0"
  shows "invert_ref a m = None \<longleftrightarrow> \<not> coprime a m"
proof
  assume none: "invert_ref a m = None"
  show "\<not> coprime a m"
  proof
    assume "coprime a m"
    then obtain r where r: "(a * r) mod m = 1 mod m"
      by (metis bezout_int coprime_imp_gcd_eq_1 mod_mult_self1 mult.commute)
    have "(a * (r mod \<bar>m\<bar>)) mod m = 1 mod m"
      by (metis abs_dvd_iff mod_mod_cancel mod_mult_right_eq dvd_refl r)
    moreover have "r mod \<bar>m\<bar> \<in> set (map int [0..<nat \<bar>m\<bar>])"
      using assms by (auto simp: image_iff intro!: bexI [of _ "nat (r mod \<bar>m\<bar>)"])
    ultimately show False
      using none by (auto simp: invert_ref_def find_None_iff)
  qed
next
  assume nc: "\<not> coprime a m"
  have "(a * r) mod m \<noteq> 1 mod m" for r
  proof
    assume "(a * r) mod m = 1 mod m"
    then have "coprime (a * r) m"
      by (metis coprime_1_left coprime_mod_left_iff assms)
    with nc show False by simp
  qed
  then show "invert_ref a m = None"
    by (auto simp: invert_ref_def find_None_iff)
qed

lemma invert_ref_Some:
  "m \<noteq> 0 \<Longrightarrow> invert_ref a m = Some r \<Longrightarrow> (a * r) mod m = 1 mod m \<and> 0 \<le> r \<and> r < \<bar>m\<bar>"
  by (auto simp: invert_ref_def find_Some_iff)

interpretation gmp_ref: gmp_documented gmp_reference
  by unfold_locales
    (simp_all add: gmp_reference_def popcount_ref scan1_ref invert_ref_None invert_ref_Some)

section \<open>Properties\<close>

text \<open>C38. Euclidean division: for a divisor that is not zero, \<^verbatim>\<open>euclidianQR\<close> returns a
  quotient and a remainder that reconstruct the dividend, and the remainder is not negative and
  below the absolute value of the divisor, for every combination of signs.\<close>

theorem euclidianQR_correct:
  assumes "gmp_documented G" "y \<noteq> 0" "euclidianQR G x y = (q, r)"
  shows "x = y * q + r \<and> 0 \<le> r \<and> r < \<bar>y\<bar>"
proof -
  have q: "q = sgn y * (x div \<bar>y\<bar>)" and r: "r = x mod \<bar>y\<bar>"
    using gmp_documented.euclidianQR_eq [OF assms(1,2), of x] assms(3) by simp_all
  have "y * q = \<bar>y\<bar> * (x div \<bar>y\<bar>)"
    by (simp only: q mult.assoc [symmetric] abs_sgn)
  then have "x = y * q + r"
    by (simp only: r mult_div_mod_eq)
  moreover have "0 \<le> r \<and> r < \<bar>y\<bar>"
    using assms(2) by (simp add: r)
  ultimately show ?thesis by simp
qed

theorem euclidianQR_correct_witness:
  "euclidianQR gmp_reference (- 7) (- 2) = (4, 1)
   \<and> (- 7 :: int) = (- 2) * 4 + 1 \<and> (0 :: int) \<le> 1 \<and> (1 :: int) < \<bar>- 2\<bar>"
proof -
  have "euclidianQR gmp_reference (- 7) (- 2) = (4, 1)"
    by (simp add: euclidianQR_def floorQR_def strictlyNegative_def sgn_Integer_def gmp_reference_def)
  with euclidianQR_correct [OF gmp_ref.gmp_documented_axioms, of "- 2" "- 7" 4 1]
  show ?thesis by simp
qed

text \<open>C39. \<^verbatim>\<open>isPow2\<close> recognises the powers of two: on a value of less than \<open>2 ^ 32\<close> bits it
  returns \<open>k + 1\<close> exactly for \<open>2 ^ k\<close>, and \<open>0\<close> exactly when the value is no power of two.\<close>

theorem isPow2_correct:
  assumes "gmp_documented G" "x < 2 ^ n" "n < 2 ^ 32"
  shows "(isPow2 G x = Suc k \<longleftrightarrow> x = 2 ^ k) \<and> (isPow2 G x = 0 \<longleftrightarrow> (\<nexists>j. x = 2 ^ j))"
proof -
  note iff = gmp_documented.isPow2_pos_iff [OF assms]
  have "isPow2 G x = 0 \<longleftrightarrow> (\<nexists>j. isPow2 G x = Suc j)"
    by (cases "isPow2 G x") auto
  with iff show ?thesis by simp
qed

theorem isPow2_correct_witness:
  "(isPow2 gmp_reference 8 = Suc 3 \<longleftrightarrow> (8 :: int) = 2 ^ 3)
   \<and> (isPow2 gmp_reference 8 = 0 \<longleftrightarrow> (\<nexists>j. (8 :: int) = 2 ^ j))"
  by (rule isPow2_correct [OF gmp_ref.gmp_documented_axioms, of 8 4 3]) simp_all

end
