(* ===== verification/BitVectors.thy ===== *)
theory BitVectors
  imports Ava_Integer
begin

text \<open>
  The class \<^verbatim>\<open>BitVector\<close> of \<^verbatim>\<open>src/src/util/bitvector.cpp\<close> and \<^verbatim>\<open>src/src/util/bitvector.h\<close>: the
  constants of the bit-vector theory.  A value is the record of its two members; sizes and
  indices are \<^verbatim>\<open>uint32_t\<close>, with their wrap-around written out.  \<open>bv_inv\<close> is the class invariant
  the header states.  The theory shows that every operation keeps the invariant and that the
  operations are those of the words of \<open>HOL-Library.Word\<close> (\<open>bv_rel\<close>).
\<close>

section \<open>Constructors and accessors\<close>

record bitvector =
  d_size :: nat
  d_value :: int

definition mk_bv :: "gmp \<Rightarrow> nat \<Rightarrow> int \<Rightarrow> bitvector" where
  "mk_bv G sz val = \<lparr>d_size = sz, d_value = modByPow2 G val sz\<rparr>"

definition bv_default :: "nat \<Rightarrow> bitvector" where
  "bv_default sz = \<lparr>d_size = sz, d_value = 0\<rparr>"

definition bv_resize :: "gmp \<Rightarrow> nat \<Rightarrow> bitvector \<Rightarrow> bitvector" where
  "bv_resize G sz q = \<lparr>d_size = sz, d_value = modByPow2 G (d_value q) sz\<rparr>"

definition bv_toInteger :: "bitvector \<Rightarrow> int" where
  "bv_toInteger b = d_value b"

definition bv_toSignedInteger :: "gmp \<Rightarrow> bitvector \<Rightarrow> int" where
  "bv_toSignedInteger G b =
     (let sz = d_size b;
          sign_bit = extractBitRange G (d_value b) 1 (u32_sub sz 1);
          val = extractBitRange G (d_value b) (u32_sub sz 1) 0
      in (- 1) * multiplyByPow2 G sign_bit (u32_sub sz 1) + val)"

definition bv_setBit :: "gmp \<Rightarrow> bitvector \<Rightarrow> nat \<Rightarrow> bool \<Rightarrow> bitvector" where
  "bv_setBit G b i value = b\<lparr>d_value := setBit G (d_value b) i value\<rparr>"

definition bv_isBitSet :: "gmp \<Rightarrow> bitvector \<Rightarrow> nat \<Rightarrow> bool" where
  "bv_isBitSet G b i = isBitSet G (d_value b) i"

definition bv_isPow2 :: "gmp \<Rightarrow> bitvector \<Rightarrow> nat" where
  "bv_isPow2 G b = isPow2 G (d_value b)"

definition bv_is_one :: "bitvector \<Rightarrow> bool" where
  "bv_is_one b = (d_value b = 1)"

section \<open>Operators\<close>

definition bv_concat :: "gmp \<Rightarrow> bitvector \<Rightarrow> bitvector \<Rightarrow> bitvector" where
  "bv_concat G a other =
     mk_bv G (u32 (d_size a + d_size other))
       (multiplyByPow2 G (d_value a) (d_size other) + d_value other)"

definition bv_extract :: "gmp \<Rightarrow> bitvector \<Rightarrow> nat \<Rightarrow> nat \<Rightarrow> bitvector" where
  "bv_extract G b high low =
     mk_bv G (u32 (u32_sub high low + 1))
       (extractBitRange G (d_value b) (u32 (u32_sub high low + 1)) low)"

definition bv_eq :: "bitvector \<Rightarrow> bitvector \<Rightarrow> bool" where
  "bv_eq a b = (if d_size a \<noteq> d_size b then False else d_value a = d_value b)"

definition bv_unsignedLessThan :: "bitvector \<Rightarrow> bitvector \<Rightarrow> bool" where
  "bv_unsignedLessThan a y = (d_value a < d_value y)"

definition bv_unsignedLessThanEq :: "bitvector \<Rightarrow> bitvector \<Rightarrow> bool" where
  "bv_unsignedLessThanEq a y = (d_value a \<le> d_value y)"

definition bv_signedLessThan :: "gmp \<Rightarrow> bitvector \<Rightarrow> bitvector \<Rightarrow> bool" where
  "bv_signedLessThan G x y = (let a = bv_toSignedInteger G x; b = bv_toSignedInteger G y in a < b)"

definition bv_signedLessThanEq :: "gmp \<Rightarrow> bitvector \<Rightarrow> bitvector \<Rightarrow> bool" where
  "bv_signedLessThanEq G x y = (let a = bv_toSignedInteger G x; b = bv_toSignedInteger G y in a \<le> b)"

definition bv_xor :: "gmp \<Rightarrow> bitvector \<Rightarrow> bitvector \<Rightarrow> bitvector" where
  "bv_xor G a b = mk_bv G (d_size a) (bitwiseXor G (d_value a) (d_value b))"

definition bv_or :: "gmp \<Rightarrow> bitvector \<Rightarrow> bitvector \<Rightarrow> bitvector" where
  "bv_or G a b = mk_bv G (d_size a) (bitwiseOr G (d_value a) (d_value b))"

definition bv_and :: "gmp \<Rightarrow> bitvector \<Rightarrow> bitvector \<Rightarrow> bitvector" where
  "bv_and G a b = mk_bv G (d_size a) (bitwiseAnd G (d_value a) (d_value b))"

definition bv_not :: "gmp \<Rightarrow> bitvector \<Rightarrow> bitvector" where
  "bv_not G a = mk_bv G (d_size a) (bitwiseNot G (d_value a))"

definition bv_add :: "gmp \<Rightarrow> bitvector \<Rightarrow> bitvector \<Rightarrow> bitvector" where
  "bv_add G a b = mk_bv G (d_size a) (d_value a + d_value b)"

definition bv_sub :: "gmp \<Rightarrow> bitvector \<Rightarrow> bitvector \<Rightarrow> bitvector" where
  "bv_sub G a b = (let one = mk_bv G (d_size a) 1 in bv_add G (bv_add G a (bv_not G b)) one)"

definition bv_neg :: "gmp \<Rightarrow> bitvector \<Rightarrow> bitvector" where
  "bv_neg G a = (let one = mk_bv G (d_size a) 1 in bv_add G (bv_not G a) one)"

definition bv_mult :: "gmp \<Rightarrow> bitvector \<Rightarrow> bitvector \<Rightarrow> bitvector" where
  "bv_mult G a b = mk_bv G (d_size a) (d_value a * d_value b)"

definition bv_unsignedDivTotal :: "gmp \<Rightarrow> bitvector \<Rightarrow> bitvector \<Rightarrow> bitvector" where
  "bv_unsignedDivTotal G x y =
     (if d_value y = 0 then mk_bv G (d_size x) (oneExtend G 1 1 (u32_sub (d_size x) 1))
      else mk_bv G (d_size x) (floorDivideQuotient G (d_value x) (d_value y)))"

definition bv_unsignedRemTotal :: "gmp \<Rightarrow> bitvector \<Rightarrow> bitvector \<Rightarrow> bitvector" where
  "bv_unsignedRemTotal G x y =
     (if d_value y = 0 then mk_bv G (d_size x) (d_value x)
      else mk_bv G (d_size x) (floorDivideRemainder G (d_value x) (d_value y)))"

definition bv_zeroExtend :: "gmp \<Rightarrow> bitvector \<Rightarrow> nat \<Rightarrow> bitvector" where
  "bv_zeroExtend G b n = mk_bv G (u32 (d_size b + n)) (d_value b)"

definition bv_signExtend :: "gmp \<Rightarrow> bitvector \<Rightarrow> nat \<Rightarrow> bitvector" where
  "bv_signExtend G b n =
     (let sign_bit = extractBitRange G (d_value b) 1 (u32_sub (d_size b) 1)
      in if sign_bit = 0 then mk_bv G (u32 (d_size b + n)) (d_value b)
         else let val = oneExtend G (d_value b) (d_size b) n
              in mk_bv G (u32 (d_size b + n)) val)"

definition bv_leftShift :: "gmp \<Rightarrow> bitvector \<Rightarrow> bitvector \<Rightarrow> bitvector" where
  "bv_leftShift G x y =
     (if d_value y > int (d_size x) then mk_bv G (d_size x) 0
      else if d_value y = 0 then x
      else let amount = toUnsignedInt G (d_value y);
               res = multiplyByPow2 G (d_value x) amount
           in mk_bv G (d_size x) res)"

definition bv_logicalRightShift :: "gmp \<Rightarrow> bitvector \<Rightarrow> bitvector \<Rightarrow> bitvector" where
  "bv_logicalRightShift G x y =
     (if d_value y > int (d_size x) then mk_bv G (d_size x) 0
      else let amount = toUnsignedInt G (d_value y);
               res = divByPow2 G (d_value x) amount
           in mk_bv G (d_size x) res)"

definition bv_arithRightShift :: "gmp \<Rightarrow> bitvector \<Rightarrow> bitvector \<Rightarrow> bitvector" where
  "bv_arithRightShift G x y =
     (let sign_bit = extractBitRange G (d_value x) 1 (u32_sub (d_size x) 1)
      in if d_value y > int (d_size x)
         then if sign_bit = 0 then mk_bv G (d_size x) 0
              else mk_bv G (d_size x) (multiplyByPow2 G (int (d_size x)) (d_size x) - 1)
         else if d_value y = 0 then x
         else let amount = toUnsignedInt G (d_value y);
                  rest = divByPow2 G (d_value x) amount
              in if sign_bit = 0 then mk_bv G (d_size x) rest
                 else let res = oneExtend G rest (u32_sub (d_size x) amount) amount
                      in mk_bv G (d_size x) res)"

section \<open>Static helpers\<close>

definition bv_mkZero :: "nat \<Rightarrow> bitvector" where
  "bv_mkZero sz = bv_default sz"

definition bv_mkOne :: "gmp \<Rightarrow> nat \<Rightarrow> bitvector" where
  "bv_mkOne G sz = mk_bv G sz 1"

definition bv_mkOnes :: "gmp \<Rightarrow> nat \<Rightarrow> bitvector" where
  "bv_mkOnes G sz = bv_signExtend G (mk_bv G 1 1) (u32_sub sz 1)"

definition bv_mkMinSigned :: "gmp \<Rightarrow> nat \<Rightarrow> bitvector" where
  "bv_mkMinSigned G sz = bv_setBit G (bv_default sz) (u32_sub sz 1) True"

definition bv_mkMaxSigned :: "gmp \<Rightarrow> nat \<Rightarrow> bitvector" where
  "bv_mkMaxSigned G sz = bv_not G (bv_mkMinSigned G sz)"

section \<open>The class invariant\<close>

definition bv_inv :: "bitvector \<Rightarrow> bool" where
  "bv_inv b \<longleftrightarrow> d_size b < 2 ^ 32 \<and> 0 \<le> d_value b \<and> d_value b < 2 ^ d_size b"

lemma bv_invD [dest]:
  assumes "bv_inv b"
  shows "0 \<le> d_value b" "d_value b < 2 ^ d_size b" "d_size b < 2 ^ 32"
  using assms by (simp_all add: bv_inv_def)

lemma bv_inv_take_bit: "bv_inv b \<Longrightarrow> take_bit (d_size b) (d_value b) = d_value b"
  by (simp add: bv_inv_def take_bit_int_eq_self)

lemma bv_inv_high_bits: "bv_inv b \<Longrightarrow> d_size b \<le> i \<Longrightarrow> \<not> bit (d_value b) i"
  using not_bit_ge [of "d_value b" "d_size b" i] by (simp add: bv_inv_def)

lemma bv_inv_bit_less: "bv_inv b \<Longrightarrow> bit (d_value b) i \<Longrightarrow> i < d_size b"
  using bv_inv_high_bits [of b i] by (meson not_less)

lemma bv_eqI: "d_size a = d_size b \<Longrightarrow> d_value a = d_value b \<Longrightarrow> a = (b :: bitvector)"
  by simp

context gmp_documented
begin

lemma d_size_mk_bv [simp]: "d_size (mk_bv G n v) = n"
  by (simp add: mk_bv_def)

lemma d_value_mk_bv [simp]: "d_value (mk_bv G n v) = take_bit n v"
  by (simp add: mk_bv_def modByPow2_eq)

lemma bv_inv_mk_bv [intro, simp]: "n < 2 ^ 32 \<Longrightarrow> bv_inv (mk_bv G n v)"
  by (simp add: bv_inv_def)

lemma sign_bit_eq:
  assumes "bv_inv b" "d_size b = Suc n"
  shows "extractBitRange G (d_value b) (Suc 0) n = of_bool (bit (d_value b) n)"
proof -
  have "Suc n < 2 ^ 32"
    using assms by (simp add: bv_inv_def)
  then have "extractBitRange G (d_value b) (Suc 0) n = take_bit 1 (drop_bit n (d_value b))"
    by (simp add: extractBitRange_eq)
  then show ?thesis
    by (simp add: take_bit_Suc bit_iff_odd_drop_bit mod_2_eq_odd)
qed

lemma u32_sub_Suc: "bv_inv b \<Longrightarrow> d_size b = Suc n \<Longrightarrow> u32_sub (Suc n) (Suc 0) = n"
  by (simp add: bv_inv_def)

lemma toSignedInteger_eq:
  assumes "bv_inv b" "d_size b = Suc n"
  shows "bv_toSignedInteger G b = signed_take_bit n (d_value b)"
proof -
  have "Suc n < 2 ^ 32" "d_value b < 2 ^ Suc n" "0 \<le> d_value b"
    using assms by (auto simp: bv_inv_def)
  then have v: "extractBitRange G (d_value b) n 0 = take_bit n (d_value b)"
    by (simp add: extractBitRange_eq)
  have "bv_toSignedInteger G b = take_bit n (d_value b) - 2 ^ n * of_bool (bit (d_value b) n)"
    using u32_sub_Suc [OF assms] sign_bit_eq [OF assms]
    by (simp add: bv_toSignedInteger_def Let_def v assms(2) multiplyByPow2_eq push_bit_eq_mult)
  then show ?thesis
    by (simp add: signed_take_bit_eq_take_bit_minus take_bit_Suc_from_most algebra_simps)
qed

lemmas bv_op_defs = bv_xor_def bv_or_def bv_and_def bv_not_def bv_add_def bv_sub_def bv_neg_def
  bv_mult_def bv_unsignedDivTotal_def bv_unsignedRemTotal_def bv_zeroExtend_def
  bv_signExtend_def bv_concat_def bv_extract_def bv_mkZero_def bv_mkOne_def

lemma bv_size_simps [simp]:
  "d_size (bv_xor G a b) = d_size a" "d_size (bv_or G a b) = d_size a"
  "d_size (bv_and G a b) = d_size a" "d_size (bv_not G a) = d_size a"
  "d_size (bv_add G a b) = d_size a" "d_size (bv_sub G a b) = d_size a"
  "d_size (bv_neg G a) = d_size a" "d_size (bv_mult G a b) = d_size a"
  "d_size (bv_unsignedDivTotal G a b) = d_size a" "d_size (bv_unsignedRemTotal G a b) = d_size a"
  "d_size (bv_leftShift G a b) = d_size a" "d_size (bv_logicalRightShift G a b) = d_size a"
  "d_size (bv_arithRightShift G a b) = d_size a" "d_size (bv_setBit G a i v) = d_size a"
  "d_size (bv_zeroExtend G a n) = u32 (d_size a + n)"
  "d_size (bv_signExtend G a n) = u32 (d_size a + n)"
  "d_size (bv_concat G a b) = u32 (d_size a + d_size b)"
  by (simp_all add: bv_op_defs bv_leftShift_def bv_logicalRightShift_def bv_arithRightShift_def
      bv_setBit_def Let_def)

lemma value_xor: "d_value (bv_xor G a b) = take_bit (d_size a) (d_value a XOR d_value b)"
  by (simp add: bv_xor_def bitwiseXor_def xor_)

lemma value_or: "d_value (bv_or G a b) = take_bit (d_size a) (d_value a OR d_value b)"
  by (simp add: bv_or_def bitwiseOr_def ior)

lemma value_and: "d_value (bv_and G a b) = take_bit (d_size a) (d_value a AND d_value b)"
  by (simp add: bv_and_def bitwiseAnd_def and_)

lemma value_not: "d_value (bv_not G a) = take_bit (d_size a) (NOT (d_value a))"
  by (simp add: bv_not_def bitwiseNot_def com)

lemma value_add: "d_value (bv_add G a b) = take_bit (d_size a) (d_value a + d_value b)"
  by (simp add: bv_add_def)

lemma value_mult: "d_value (bv_mult G a b) = take_bit (d_size a) (d_value a * d_value b)"
  by (simp add: bv_mult_def)

lemma value_sub:
  "d_size a = d_size b \<Longrightarrow> d_value (bv_sub G a b) = take_bit (d_size a) (d_value a - d_value b)"
proof -
  assume eq: "d_size a = d_size b"
  have "d_value (bv_sub G a b) =
      take_bit (d_size a) (take_bit (d_size a) (d_value a + take_bit (d_size b) (NOT (d_value b)))
        + take_bit (d_size a) 1)"
    by (simp add: bv_sub_def Let_def value_add value_not)
  also have "\<dots> = take_bit (d_size a) (d_value a + NOT (d_value b) + 1)"
    unfolding eq by (simp only: take_bit_eq_mod mod_simps)
  also have "d_value a + NOT (d_value b) + 1 = d_value a - d_value b"
    by (simp add: not_int_def)
  finally show ?thesis .
qed

lemma value_neg: "d_value (bv_neg G a) = take_bit (d_size a) (- d_value a)"
proof -
  have "d_value (bv_neg G a) =
      take_bit (d_size a) (take_bit (d_size a) (NOT (d_value a)) + take_bit (d_size a) 1)"
    by (simp add: bv_neg_def Let_def value_add value_not)
  also have "\<dots> = take_bit (d_size a) (NOT (d_value a) + 1)"
    by (simp only: take_bit_eq_mod mod_simps)
  finally show ?thesis
    by (simp add: not_int_def)
qed

lemma value_udiv:
  assumes "bv_inv a" "0 < d_size a"
  shows "d_value (bv_unsignedDivTotal G a b) =
    (if d_value b = 0 then 2 ^ d_size a - 1 else take_bit (d_size a) (d_value a div d_value b))"
proof -
  obtain n where n: "d_size a = Suc n"
    using assms(2) gr0_implies_Suc by blast
  have "Suc n < 2 ^ 32"
    using assms(1) n by (simp add: bv_inv_def)
  then have "oneExtend G 1 (Suc 0) n = 2 ^ Suc n - 1"
    by (simp add: oneExtend_eq algebra_simps)
  moreover have "take_bit (Suc n) (2 ^ Suc n - 1 :: int) = 2 ^ Suc n - 1"
    by (intro take_bit_int_eq_self) simp_all
  ultimately show ?thesis
    using u32_sub_Suc [OF assms(1) n]
    by (simp add: bv_unsignedDivTotal_def floorDivideQuotient_def fdiv_q n del: power_Suc)
qed

lemma value_urem:
  assumes "bv_inv a"
  shows "d_value (bv_unsignedRemTotal G a b) = take_bit (d_size a) (d_value a mod d_value b)"
  by (simp add: bv_unsignedRemTotal_def floorDivideRemainder_def fdiv_r)

lemma value_zeroExtend:
  assumes "bv_inv a" "d_size a + n < 2 ^ 32"
  shows "d_value (bv_zeroExtend G a n) = d_value a"
proof -
  have "d_value a < 2 ^ (d_size a + n)"
    using assms(1) by (auto simp: bv_inv_def intro: less_le_trans)
  with assms show ?thesis
    by (simp add: bv_zeroExtend_def bv_inv_def take_bit_int_eq_self)
qed

lemma value_concat:
  assumes "bv_inv a" "bv_inv b" "d_size a + d_size b < 2 ^ 32"
  shows "d_value (bv_concat G a b) = d_value a * 2 ^ d_size b + d_value b"
proof -
  have "d_value a * 2 ^ d_size b + d_value b < (d_value a + 1) * 2 ^ d_size b"
    using assms(2) by (simp add: bv_inv_def algebra_simps)
  also have "\<dots> \<le> 2 ^ d_size a * 2 ^ d_size b"
    using assms(1) by (intro mult_right_mono) (auto simp: bv_inv_def)
  finally have "d_value a * 2 ^ d_size b + d_value b < 2 ^ (d_size a + d_size b)"
    by (simp add: power_add)
  with assms show ?thesis
    by (simp add: bv_concat_def multiplyByPow2_eq push_bit_eq_mult take_bit_int_eq_self bv_inv_def)
qed

lemma size_extract:
  assumes "bv_inv b" "low \<le> high" "high < d_size b"
  shows "d_size (bv_extract G b high low) = high - low + 1"
proof -
  have "high < 2 ^ 32 - 1"
    using assms by (simp add: bv_inv_def)
  then have "u32 (u32_sub high low + 1) = high - low + 1"
    using assms(2) by auto
  then show ?thesis
    by (simp add: bv_extract_def)
qed

lemma value_extract:
  assumes "bv_inv b" "low \<le> high" "high < d_size b"
  shows "d_value (bv_extract G b high low) = take_bit (high - low + 1) (drop_bit low (d_value b))"
proof -
  have "high < 2 ^ 32 - 1"
    using assms by (simp add: bv_inv_def)
  then have "u32 (u32_sub high low + 1) = high - low + 1" "low + (high - low + 1) < 2 ^ 32"
    using assms(2) by auto
  then show ?thesis
    by (simp add: bv_extract_def extractBitRange_eq)
qed

lemma value_signExtend:
  assumes "bv_inv a" "d_size a = Suc m" "d_size a + n < 2 ^ 32"
  shows "d_value (bv_signExtend G a n) = take_bit (d_size a + n) (signed_take_bit m (d_value a))"
proof (rule bit_eqI)
  fix i
  have sz: "u32 (Suc m + n) = Suc m + n"
    using assms by simp
  have hi: "\<not> bit (d_value a) i" if "Suc m \<le> i" for i
    using bv_inv_high_bits [OF assms(1)] that assms(2) by simp
  show "bit (d_value (bv_signExtend G a n)) i \<longleftrightarrow>
      bit (take_bit (d_size a + n) (signed_take_bit m (d_value a))) i"
    using u32_sub_Suc [OF assms(1,2)] sign_bit_eq [OF assms(1,2)] sz assms(2,3) hi [of i]
    by (cases "i = m")
      (auto simp: bv_signExtend_def Let_def bit_take_bit_iff bit_signed_take_bit_iff oneExtend_bit
        min_def Suc_le_eq)
qed

lemma value_shl:
  assumes "bv_inv a" "bv_inv b"
  shows "d_value (bv_leftShift G a b) = take_bit (d_size a) (push_bit (nat (d_value b)) (d_value a))"
proof -
  consider "int (d_size a) < d_value b" | "d_value b = 0" | "0 < d_value b" "d_value b \<le> int (d_size a)"
    using assms(2) by (force simp: bv_inv_def)
  then show ?thesis
  proof cases
    case 1
    then have "take_bit (d_size a) (push_bit (nat (d_value b)) (d_value a)) = 0"
      by (simp add: take_bit_push_bit)
    with 1 show ?thesis by (simp add: bv_leftShift_def)
  next
    case 2
    with assms(1) show ?thesis
      by (simp add: bv_leftShift_def bv_inv_take_bit)
  next
    case 3
    then have "d_value b < 2 ^ 32"
      using assms(1) by (simp add: bv_inv_def)
    with 3 show ?thesis
      by (simp add: bv_leftShift_def Let_def toUnsignedInt_eq multiplyByPow2_eq)
  qed
qed

lemma drop_bit_ge_size:
  assumes "bv_inv a" "d_size a \<le> k"
  shows "drop_bit k (d_value a) = 0"
  by (rule bit_eqI) (use bv_inv_high_bits [OF assms(1)] assms(2) in \<open>simp add: bit_drop_bit_eq\<close>)

lemma value_lshr:
  assumes "bv_inv a" "bv_inv b"
  shows "d_value (bv_logicalRightShift G a b) = drop_bit (nat (d_value b)) (d_value a)"
proof (cases "int (d_size a) < d_value b")
  case True
  then show ?thesis
    using drop_bit_ge_size [OF assms(1)] by (simp add: bv_logicalRightShift_def)
next
  case False
  then have "0 \<le> d_value b" "d_value b < 2 ^ 32"
    using assms by (simp_all add: bv_inv_def)
  moreover have "take_bit (d_size a) (drop_bit k (d_value a)) = drop_bit k (d_value a)" for k
    by (rule bit_eqI)
      (use bv_inv_bit_less [OF assms(1)] in \<open>force simp: bit_take_bit_iff bit_drop_bit_eq\<close>)
  ultimately show ?thesis
    using False by (simp add: bv_logicalRightShift_def Let_def toUnsignedInt_eq divByPow2_eq)
qed

lemma value_ashr:
  assumes "bv_inv a" "bv_inv b" "d_size a = Suc m"
  shows "d_value (bv_arithRightShift G a b) =
    take_bit (Suc m) (drop_bit (nat (d_value b)) (signed_take_bit m (d_value a)))"
proof (rule bit_eqI)
  fix i
  have hi: "\<not> bit (d_value a) i" if "Suc m \<le> i" for i
    using bv_inv_high_bits [OF assms(1)] that assms(3) by simp
  note sign = u32_sub_Suc [OF assms(1,3)] sign_bit_eq [OF assms(1,3)]
  consider "int (Suc m) < d_value b" | "d_value b = 0" | "0 < d_value b" "d_value b \<le> int (Suc m)"
    using assms(2) by (force simp: bv_inv_def)
  then show "bit (d_value (bv_arithRightShift G a b)) i \<longleftrightarrow>
      bit (take_bit (Suc m) (drop_bit (nat (d_value b)) (signed_take_bit m (d_value a)))) i"
  proof cases
    case 1
    have "take_bit (Suc m) (int (Suc m) * 2 ^ Suc m - 1) = (mask (Suc m) :: int)"
      by (simp add: take_bit_eq_mod mask_eq_exp_minus_1 zmod_minus1 mod_diff_left_eq [symmetric]
          del: power_Suc of_nat_Suc)
    with 1 show ?thesis
      using sign assms(3)
      by (auto simp: bv_arithRightShift_def Let_def multiplyByPow2_eq push_bit_eq_mult
          bit_take_bit_iff bit_drop_bit_eq bit_signed_take_bit_iff bit_mask_iff min_def
          simp del: power_Suc of_nat_Suc)
  next
    case 2
    with hi [of i] assms(3) show ?thesis
      by (cases "i = m")
        (auto simp: bv_arithRightShift_def Let_def bit_take_bit_iff bit_signed_take_bit_iff min_def
          Suc_le_eq)
  next
    case 3
    define k where "k = nat (d_value b)"
    have sz: "Suc m < 2 ^ 32"
      using assms(1,3) by (simp add: bv_inv_def)
    then have k: "toUnsignedInt G (d_value b) = k" "k \<le> Suc m" "0 < k"
      using 3 by (auto simp: toUnsignedInt_eq k_def)
    have u: "u32_sub (Suc m) k = Suc m - k" "Suc m - k + k < 2 ^ 32"
      using sz k by auto
    show ?thesis
      using 3 sign assms(3) k u hi [of "k + i"] hi [of m]
      by (cases "k + i = m")
        (auto simp: bv_arithRightShift_def Let_def divByPow2_eq oneExtend_bit bit_take_bit_iff
          bit_drop_bit_eq bit_signed_take_bit_iff min_def Suc_le_eq k_def [symmetric])
  qed
qed

section \<open>Every operation keeps the invariant\<close>

lemma less_exp_if_high_bits:
  fixes x :: int
  assumes "\<And>j. n \<le> j \<Longrightarrow> \<not> bit x j"
  shows "0 \<le> x \<and> x < 2 ^ n"
proof -
  have "take_bit n x = x"
    by (rule bit_eqI) (use assms in \<open>auto simp: bit_take_bit_iff not_le [symmetric]\<close>)
  then show ?thesis
    by (metis take_bit_nonnegative take_bit_int_less_exp)
qed

lemma set_bit_nonneg_less:
  assumes "0 \<le> (x::int)" "x < 2 ^ n" "i < n"
  shows "0 \<le> set_bit i x \<and> set_bit i x < 2 ^ n" "0 \<le> unset_bit i x \<and> unset_bit i x < 2 ^ n"
  by (rule less_exp_if_high_bits;
      use assms(3) not_bit_ge [OF assms(1,2)] in \<open>auto simp: bit_set_bit_iff bit_unset_bit_iff\<close>)+

lemma inv_setBit: "bv_inv b \<Longrightarrow> i < d_size b \<Longrightarrow> bv_inv (bv_setBit G b i v)"
  using set_bit_nonneg_less [of "d_value b" "d_size b" i]
  by (simp add: bv_inv_def bv_setBit_def setBit_def setbit clrbit)

lemma inv_take_bit: "n < 2 ^ 32 \<Longrightarrow> d_size b = n \<Longrightarrow> d_value b = take_bit n v \<Longrightarrow> bv_inv b"
  by (simp add: bv_inv_def)

lemma inv_binary:
  assumes "bv_inv a"
  shows "bv_inv (bv_xor G a b)" "bv_inv (bv_or G a b)" "bv_inv (bv_and G a b)" "bv_inv (bv_not G a)"
    "bv_inv (bv_add G a b)" "bv_inv (bv_sub G a b)" "bv_inv (bv_neg G a)" "bv_inv (bv_mult G a b)"
    "bv_inv (bv_unsignedDivTotal G a b)" "bv_inv (bv_unsignedRemTotal G a b)"
    "bv_inv (bv_leftShift G a b)" "bv_inv (bv_logicalRightShift G a b)"
    "bv_inv (bv_arithRightShift G a b)"
  using assms bv_invD(3) [OF assms]
  by (simp_all add: bv_op_defs bv_leftShift_def bv_logicalRightShift_def bv_arithRightShift_def
      Let_def)

lemma inv_sized:
  "bv_inv (bv_zeroExtend G a n)" "bv_inv (bv_signExtend G a n)" "bv_inv (bv_concat G a b)"
  "bv_inv (bv_extract G a h l)"
  by (simp_all add: bv_op_defs Let_def del: u32_less) (simp_all add: u32_def)

end

section \<open>Bit-vectors are words\<close>

definition bv_rel :: "bitvector \<Rightarrow> 'a::len word \<Rightarrow> bool" where
  "bv_rel b w \<longleftrightarrow> d_size b = LENGTH('a) \<and> LENGTH('a) < 2 ^ 32 \<and> d_value b = uint w"

lemma take_bit_uint: "take_bit LENGTH('a::len) (uint (w :: 'a word)) = uint w"
  by (rule take_bit_int_eq_self) simp_all

lemma uint_signed_drop_bit:
  "uint (signed_drop_bit n (w :: 'a::len word)) =
    take_bit LENGTH('a) (drop_bit n (signed_take_bit (LENGTH('a) - 1) (uint w)))"
  using uint_sint [of "signed_drop_bit n w"] sint_signed_drop_bit_eq [of n w] sint_uint [of w]
  by simp

lemma bv_rel_inv: "bv_rel b w \<Longrightarrow> bv_inv b"
  by (simp add: bv_rel_def bv_inv_def)

lemma bv_relD:
  fixes w :: "'a::len word"
  assumes "bv_rel b w"
  shows "d_size b = LENGTH('a)" "d_value b = uint w" "bv_inv b" "d_size b = Suc (LENGTH('a) - 1)"
    "LENGTH('a) < 2 ^ 32"
  using assms bv_rel_inv [OF assms] by (simp_all add: bv_rel_def)

lemma bv_rel_of_inv:
  assumes "bv_inv b" "d_size b = LENGTH('a::len)"
  shows "bv_rel b (word_of_int (d_value b) :: 'a word)"
  using assms bv_inv_take_bit [OF assms(1)] by (simp add: bv_rel_def bv_inv_def uint_word_of_int_eq)

context gmp_documented
begin

lemma rel_bitwise:
  fixes x y :: "'a::len word"
  assumes "bv_rel a x" "bv_rel b y"
  shows "bv_rel (bv_xor G a b) (x XOR y)" "bv_rel (bv_or G a b) (x OR y)"
    "bv_rel (bv_and G a b) (x AND y)" "bv_rel (bv_not G a) (NOT x)"
  using assms
  by (simp_all add: bv_rel_def value_xor value_or value_and value_not unsigned_xor_eq
      unsigned_or_eq unsigned_and_eq unsigned_not_eq take_bit_xor take_bit_or take_bit_and
      take_bit_uint)

lemma rel_arith:
  fixes x y :: "'a::len word"
  assumes "bv_rel a x" "bv_rel b y"
  shows "bv_rel (bv_add G a b) (x + y)" "bv_rel (bv_sub G a b) (x - y)"
    "bv_rel (bv_neg G a) (- x)" "bv_rel (bv_mult G a b) (x * y)"
  using assms
  by (simp_all add: bv_rel_def value_add value_sub value_neg value_mult uint_word_arith_bintrs)

lemma rel_divrem:
  fixes x y :: "'a::len word"
  assumes "bv_rel a x" "bv_rel b y"
  shows "bv_rel (bv_unsignedDivTotal G a b) (if y = 0 then - 1 else x div y)"
    "bv_rel (bv_unsignedRemTotal G a b) (x mod y)"
proof -
  note a = bv_relD [OF assms(1)] and b = bv_relD [OF assms(2)]
  have "take_bit LENGTH('a) (uint x div uint y) = uint x div uint y"
    by (metis uint_div take_bit_uint)
  moreover have "take_bit LENGTH('a) (uint x mod uint y) = uint x mod uint y"
    by (metis uint_mod take_bit_uint)
  ultimately show "bv_rel (bv_unsignedDivTotal G a b) (if y = 0 then - 1 else x div y)"
    "bv_rel (bv_unsignedRemTotal G a b) (x mod y)"
    using a b by (auto simp: bv_rel_def value_udiv value_urem uint_div uint_mod
        unsigned_minus_1_eq_mask mask_eq_exp_minus_1 unsigned_eq_0_iff)
qed

lemma rel_shift:
  fixes x y :: "'a::len word"
  assumes "bv_rel a x" "bv_rel b y"
  shows "bv_rel (bv_leftShift G a b) (push_bit (unat y) x)"
    "bv_rel (bv_logicalRightShift G a b) (drop_bit (unat y) x)"
    "bv_rel (bv_arithRightShift G a b) (signed_drop_bit (unat y) x)"
proof -
  note a = bv_relD [OF assms(1)] and b = bv_relD [OF assms(2)]
  show "bv_rel (bv_leftShift G a b) (push_bit (unat y) x)"
    "bv_rel (bv_logicalRightShift G a b) (drop_bit (unat y) x)"
    using a b by (simp_all add: bv_rel_def value_shl value_lshr unsigned_push_bit_eq
        unsigned_drop_bit_eq nat_uint_eq take_bit_uint)
  show "bv_rel (bv_arithRightShift G a b) (signed_drop_bit (unat y) x)"
    using a b value_ashr [OF a(3) b(3) a(4)]
    by (simp add: bv_rel_def uint_signed_drop_bit nat_uint_eq)
qed

lemma rel_compare:
  fixes x y :: "'a::len word"
  assumes "bv_rel a x" "bv_rel b y"
  shows "bv_eq a b \<longleftrightarrow> x = y"
    "bv_unsignedLessThan a b \<longleftrightarrow> x < y" "bv_unsignedLessThanEq a b \<longleftrightarrow> x \<le> y"
    "bv_signedLessThan G a b \<longleftrightarrow> sint x < sint y"
    "bv_signedLessThanEq G a b \<longleftrightarrow> sint x \<le> sint y"
proof -
  note a = bv_relD [OF assms(1)] and b = bv_relD [OF assms(2)]
  show "bv_eq a b \<longleftrightarrow> x = y"
    "bv_unsignedLessThan a b \<longleftrightarrow> x < y" "bv_unsignedLessThanEq a b \<longleftrightarrow> x \<le> y"
    using a b by (simp_all add: bv_eq_def bv_unsignedLessThan_def bv_unsignedLessThanEq_def
        word_less_def word_le_def word_uint_eq_iff)
  show "bv_signedLessThan G a b \<longleftrightarrow> sint x < sint y"
    "bv_signedLessThanEq G a b \<longleftrightarrow> sint x \<le> sint y"
    using a b toSignedInteger_eq [OF a(3,4)] toSignedInteger_eq [OF b(3,4)]
    by (simp_all add: bv_signedLessThan_def bv_signedLessThanEq_def sint_uint)
qed

end

section \<open>Properties\<close>



text \<open>C19. The class refines fixed-width machine words: on vectors that represent words
  \<open>x\<close> and \<open>y\<close> of the same width, every bitwise, arithmetic, division and shift operator
  returns a vector that represents the word operation (division by zero gives all ones, the
  remainder by zero the dividend, shifts by an amount not below the width saturate).\<close>

theorem bitvector_refines_word:
  fixes x y :: "'a::len word"
  assumes "gmp_documented G" "bv_rel a x" "bv_rel b y"
  shows "bv_rel (bv_xor G a b) (x XOR y) \<and> bv_rel (bv_or G a b) (x OR y)
    \<and> bv_rel (bv_and G a b) (x AND y) \<and> bv_rel (bv_not G a) (NOT x)
    \<and> bv_rel (bv_add G a b) (x + y) \<and> bv_rel (bv_sub G a b) (x - y)
    \<and> bv_rel (bv_neg G a) (- x) \<and> bv_rel (bv_mult G a b) (x * y)
    \<and> bv_rel (bv_unsignedDivTotal G a b) (if y = 0 then - 1 else x div y)
    \<and> bv_rel (bv_unsignedRemTotal G a b) (x mod y)
    \<and> bv_rel (bv_leftShift G a b) (push_bit (unat y) x)
    \<and> bv_rel (bv_logicalRightShift G a b) (drop_bit (unat y) x)
    \<and> bv_rel (bv_arithRightShift G a b) (signed_drop_bit (unat y) x)"
  by (intro conjI gmp_documented.rel_bitwise [OF assms] gmp_documented.rel_arith [OF assms]
      gmp_documented.rel_divrem [OF assms] gmp_documented.rel_shift [OF assms])

theorem bitvector_refines_word_witness:
  "bv_rel (bv_arithRightShift gmp_reference \<lparr>d_size = 8, d_value = 144\<rparr> \<lparr>d_size = 8, d_value = 2\<rparr>)
     (signed_drop_bit 2 (144 :: 8 word))"
proof -
  have "bv_rel \<lparr>d_size = 8, d_value = 144\<rparr> (144 :: 8 word)"
    "bv_rel \<lparr>d_size = 8, d_value = 2\<rparr> (2 :: 8 word)"
    by (simp_all add: bv_rel_def)
  from bitvector_refines_word [OF gmp_ref.gmp_documented_axioms this] show ?thesis
    by simp
qed

text \<open>C31. The comparisons of \<^verbatim>\<open>BitVector\<close> are those of the words it represents: equality,
  the unsigned order, and the order of the two's complement values for the signed predicates.\<close>

theorem bitvector_compare_word:
  fixes x y :: "'a::len word"
  assumes "gmp_documented G" "bv_rel a x" "bv_rel b y"
  shows "(bv_eq a b \<longleftrightarrow> x = y)
    \<and> (bv_unsignedLessThan a b \<longleftrightarrow> x < y) \<and> (bv_unsignedLessThanEq a b \<longleftrightarrow> x \<le> y)
    \<and> (bv_signedLessThan G a b \<longleftrightarrow> sint x < sint y)
    \<and> (bv_signedLessThanEq G a b \<longleftrightarrow> sint x \<le> sint y)
    \<and> bv_toSignedInteger G a = sint x"
proof -
  note a = bv_relD [OF assms(2)]
  have "bv_toSignedInteger G a = sint x"
    using gmp_documented.toSignedInteger_eq [OF assms(1) a(3,4)] a(2) by (simp add: sint_uint)
  with gmp_documented.rel_compare [OF assms] show ?thesis by simp
qed

theorem bitvector_compare_word_witness:
  "bv_signedLessThan gmp_reference \<lparr>d_size = 8, d_value = 144\<rparr> \<lparr>d_size = 8, d_value = 2\<rparr>
     = (sint (144 :: 8 word) < sint (2 :: 8 word))
   \<and> bv_unsignedLessThan \<lparr>d_size = 8, d_value = 144\<rparr> \<lparr>d_size = 8, d_value = 2\<rparr>
     = ((144 :: 8 word) < 2)"
proof -
  have "bv_rel \<lparr>d_size = 8, d_value = 144\<rparr> (144 :: 8 word)"
    "bv_rel \<lparr>d_size = 8, d_value = 2\<rparr> (2 :: 8 word)"
    by (simp_all add: bv_rel_def)
  from bitvector_compare_word [OF gmp_ref.gmp_documented_axioms this] show ?thesis
    by blast
qed

end
