(* ===== verification/Nodes.thy ===== *)
theory Nodes
  imports BitVectors
begin

text \<open>
  Terms: the nodes of \<^verbatim>\<open>src/src/expr\<close> over the Boolean, bit-vector and uninterpreted kinds, their
  types and their values.
  \<^item> \<open>kind\<close> has the kinds of \<^verbatim>\<open>theory/booleans/kinds.toml\<close>, \<^verbatim>\<open>theory/bv/kinds.toml\<close>,
    \<^verbatim>\<open>theory/builtin/kinds.toml\<close> and \<^verbatim>\<open>theory/uf/kinds.toml\<close> that the modelled components
    inspect.  A parameterized kind carries the payload of its operator.
  \<^item> \<open>node\<close> is a constant, a variable with its type, or a kind with its children.
  \<^item> \<open>getType\<close> runs the type rules with checking on, \<open>None\<close> being the null type; \<open>kind_arity\<close>
    is the number of children the kinds files allow.  Abstract types are left out.
  \<^item> \<open>eval\<close> is the value of a node in a model; the cases of the kinds are those of the
    evaluator (\<^verbatim>\<open>theory/evaluator.cpp\<close>) and, for the kinds it leaves to the rewriter, those of
    the constant evaluation and elimination rules of the bit-vector rewriter.
\<close>

section \<open>Kinds, types and nodes\<close>

datatype type_node =
    BOOLEAN_TYPE
  | BITVECTOR_TYPE nat
  | INTEGER_TYPE
  | SORT_TYPE nat
  | SEXPR_TYPE

datatype kind =
    K_NOT | K_AND | K_OR | K_XOR | K_IMPLIES | K_ITE | K_EQUAL | K_DISTINCT | K_SEXPR
  | K_APPLY_UF nat "type_node list" type_node
  | K_BITVECTOR_CONCAT | K_BITVECTOR_AND | K_BITVECTOR_COMP | K_BITVECTOR_OR | K_BITVECTOR_XOR
  | K_BITVECTOR_NOT | K_BITVECTOR_NAND | K_BITVECTOR_NOR | K_BITVECTOR_XNOR
  | K_BITVECTOR_MULT | K_BITVECTOR_NEG | K_BITVECTOR_ADD | K_BITVECTOR_SUB
  | K_BITVECTOR_UDIV | K_BITVECTOR_UREM | K_BITVECTOR_SDIV | K_BITVECTOR_SMOD | K_BITVECTOR_SREM
  | K_BITVECTOR_ASHR | K_BITVECTOR_LSHR | K_BITVECTOR_SHL
  | K_BITVECTOR_ULE | K_BITVECTOR_ULT | K_BITVECTOR_UGE | K_BITVECTOR_UGT
  | K_BITVECTOR_SLE | K_BITVECTOR_SLT | K_BITVECTOR_SGE | K_BITVECTOR_SGT
  | K_BITVECTOR_ULTBV | K_BITVECTOR_SLTBV | K_BITVECTOR_REDAND | K_BITVECTOR_REDOR
  | K_BITVECTOR_NEGO | K_BITVECTOR_UADDO | K_BITVECTOR_SADDO | K_BITVECTOR_UMULO | K_BITVECTOR_SMULO
  | K_BITVECTOR_USUBO | K_BITVECTOR_SSUBO | K_BITVECTOR_SDIVO | K_BITVECTOR_ITE
  | K_BITVECTOR_BIT nat
  | K_BITVECTOR_EXTRACT nat nat
  | K_BITVECTOR_REPEAT nat
  | K_BITVECTOR_ROTATE_LEFT nat | K_BITVECTOR_ROTATE_RIGHT nat
  | K_BITVECTOR_SIGN_EXTEND nat | K_BITVECTOR_ZERO_EXTEND nat

datatype node =
    CONST_BOOLEAN bool
  | CONST_BITVECTOR bitvector
  | CONST_INTEGER int
  | VARIABLE nat type_node
  | mkNode kind "node list"

fun isKind :: "kind \<Rightarrow> node \<Rightarrow> bool" where
  "isKind k (mkNode k' ns) = (k' = k)"
| "isKind k n = False"

fun children :: "node \<Rightarrow> node list" where
  "children (mkNode k ns) = ns"
| "children n = []"

definition child :: "node \<Rightarrow> nat \<Rightarrow> node" where
  "child n i = children n ! i"

fun isVar :: "node \<Rightarrow> bool" where
  "isVar (VARIABLE x t) = True"
| "isVar n = False"

definition notNode :: "node \<Rightarrow> node" where
  "notNode n = mkNode K_NOT [n]"

text \<open>\<^verbatim>\<open>Node::negate\<close> removes an outer negation instead of adding one.\<close>

definition negate :: "node \<Rightarrow> node" where
  "negate n = (if isKind K_NOT n then children n ! 0 else notNode n)"

text \<open>\<^verbatim>\<open>NodeManager::mkOr\<close>: the disjunction of a vector, which may be empty or a singleton.\<close>

definition nm_mkOr :: "node list \<Rightarrow> node" where
  "nm_mkOr cs = (if cs = [] then CONST_BOOLEAN False else if length cs = 1 then hd cs
     else mkNode K_OR cs)"

text \<open>\<^verbatim>\<open>Node::eqNode\<close>, \<^verbatim>\<open>andNode\<close>, \<^verbatim>\<open>orNode\<close> and \<^verbatim>\<open>iteNode\<close>.\<close>

definition eqNode :: "node \<Rightarrow> node \<Rightarrow> node" where
  "eqNode a b = mkNode K_EQUAL [a, b]"

definition andNode :: "node \<Rightarrow> node \<Rightarrow> node" where
  "andNode a b = mkNode K_AND [a, b]"

definition orNode :: "node \<Rightarrow> node \<Rightarrow> node" where
  "orNode a b = mkNode K_OR [a, b]"

definition iteNode :: "node \<Rightarrow> node \<Rightarrow> node \<Rightarrow> node" where
  "iteNode c a b = mkNode K_ITE [c, a, b]"

fun isConst :: "node \<Rightarrow> bool" where
  "isConst (CONST_BOOLEAN b) = True"
| "isConst (CONST_BITVECTOR b) = True"
| "isConst (CONST_INTEGER i) = True"
| "isConst (VARIABLE x t) = False"
| "isConst (mkNode k ns) = False"

text \<open>The response of a rewriter.\<close>

datatype RewriteStatus = REWRITE_DONE | REWRITE_AGAIN | REWRITE_AGAIN_FULL

type_synonym RewriteResponse = "RewriteStatus \<times> node"

section \<open>Type rules\<close>

fun isBitVector :: "type_node \<Rightarrow> bool" where
  "isBitVector (BITVECTOR_TYPE n) = True"
| "isBitVector t = False"

fun getBitVectorSize :: "type_node \<Rightarrow> nat" where
  "getBitVectorSize (BITVECTOR_TYPE n) = n"
| "getBitVectorSize t = 0"

definition checkBvResultSize :: "nat \<Rightarrow> bool" where
  "checkBvResultSize sz = (sz \<le> 2 ^ 32 - 1)"

definition BooleanTypeRule :: "type_node list \<Rightarrow> type_node option" where
  "BooleanTypeRule ts = (if list_all (\<lambda>t. t = BOOLEAN_TYPE) ts then Some BOOLEAN_TYPE else None)"

definition IteTypeRule :: "type_node list \<Rightarrow> type_node option" where
  "IteTypeRule ts =
     (if ts ! 1 \<noteq> ts ! 2 then None
      else if ts ! 0 \<noteq> BOOLEAN_TYPE then None else Some (ts ! 1))"

definition EqualityTypeRule :: "type_node list \<Rightarrow> type_node option" where
  "EqualityTypeRule ts = (if ts ! 0 \<noteq> ts ! 1 then None else Some BOOLEAN_TYPE)"

definition DistinctTypeRule :: "type_node list \<Rightarrow> type_node option" where
  "DistinctTypeRule ts = (if list_all (\<lambda>t. t = ts ! 0) ts then Some BOOLEAN_TYPE else None)"

definition UfTypeRule :: "type_node list \<Rightarrow> type_node \<Rightarrow> type_node list \<Rightarrow> type_node option" where
  "UfTypeRule argTypes rangeType ts =
     (if length argTypes \<noteq> length ts then None
      else if list_all2 (=) ts argTypes then Some rangeType else None)"

definition BitVectorConstantTypeRule :: "bitvector \<Rightarrow> type_node option" where
  "BitVectorConstantTypeRule b = (if d_size b = 0 then None else Some (BITVECTOR_TYPE (d_size b)))"

text \<open>
  The loop of \<^verbatim>\<open>BitVectorFixedWidthTypeRule\<close>: \<open>t\<close> is the join so far, the null type before the
  first child; on concrete types the join of two different types is null.
\<close>

fun fixedWidthLoop :: "type_node option \<Rightarrow> type_node list \<Rightarrow> type_node option" where
  "fixedWidthLoop t [] = t"
| "fixedWidthLoop t (tc # ts) =
     (if \<not> isBitVector tc then None
      else case t of
        None \<Rightarrow> fixedWidthLoop (Some tc) ts
      | Some t' \<Rightarrow> if t' = tc then fixedWidthLoop (Some t') ts else None)"

definition BitVectorFixedWidthTypeRule :: "type_node list \<Rightarrow> type_node option" where
  "BitVectorFixedWidthTypeRule ts = fixedWidthLoop None ts"

definition BitVectorPredicateTypeRule :: "type_node list \<Rightarrow> type_node option" where
  "BitVectorPredicateTypeRule ts =
     (if \<not> isBitVector (ts ! 0) then None
      else if length ts > 1 \<and> ts ! 0 \<noteq> ts ! 1 then None else Some BOOLEAN_TYPE)"

definition BitVectorRedTypeRule :: "type_node list \<Rightarrow> type_node option" where
  "BitVectorRedTypeRule ts = (if \<not> isBitVector (ts ! 0) then None else Some (BITVECTOR_TYPE 1))"

definition BitVectorBVPredTypeRule :: "type_node list \<Rightarrow> type_node option" where
  "BitVectorBVPredTypeRule ts =
     (if \<not> isBitVector (ts ! 0) \<or> \<not> isBitVector (ts ! 1) \<or> ts ! 0 \<noteq> ts ! 1 then None
      else Some (BITVECTOR_TYPE 1))"

fun concatLoop :: "nat \<Rightarrow> type_node list \<Rightarrow> type_node option" where
  "concatLoop sz [] = Some (BITVECTOR_TYPE sz)"
| "concatLoop sz (t # ts) =
     (if \<not> isBitVector t then None
      else let nextSize = sz + getBitVectorSize t
           in if checkBvResultSize nextSize then concatLoop nextSize ts else None)"

definition BitVectorConcatTypeRule :: "type_node list \<Rightarrow> type_node option" where
  "BitVectorConcatTypeRule ts = concatLoop 0 ts"

definition BitVectorITETypeRule :: "type_node list \<Rightarrow> type_node option" where
  "BitVectorITETypeRule ts =
     (if ts ! 0 \<noteq> BITVECTOR_TYPE 1 then None
      else if ts ! 1 = ts ! 2 then Some (ts ! 1) else None)"

definition BitVectorBitTypeRule :: "nat \<Rightarrow> type_node list \<Rightarrow> type_node option" where
  "BitVectorBitTypeRule bitIndex ts =
     (if \<not> isBitVector (ts ! 0) then None
      else if bitIndex \<ge> getBitVectorSize (ts ! 0) then None else Some BOOLEAN_TYPE)"

definition BitVectorExtractTypeRule :: "nat \<Rightarrow> nat \<Rightarrow> type_node list \<Rightarrow> type_node option" where
  "BitVectorExtractTypeRule high low ts =
     (if high < low then None
      else if \<not> isBitVector (ts ! 0) then None
      else if high \<ge> getBitVectorSize (ts ! 0) then None
      else if checkBvResultSize (high - low + 1) then Some (BITVECTOR_TYPE (high - low + 1))
      else None)"

definition BitVectorRepeatTypeRule :: "nat \<Rightarrow> type_node list \<Rightarrow> type_node option" where
  "BitVectorRepeatTypeRule repeatAmount ts =
     (if \<not> isBitVector (ts ! 0) then None
      else if repeatAmount = 0 then None
      else let sz = repeatAmount * getBitVectorSize (ts ! 0)
           in if checkBvResultSize sz then Some (BITVECTOR_TYPE sz) else None)"

definition BitVectorExtendTypeRule :: "nat \<Rightarrow> type_node list \<Rightarrow> type_node option" where
  "BitVectorExtendTypeRule extendAmount ts =
     (if \<not> isBitVector (ts ! 0) then None
      else let sz = extendAmount + getBitVectorSize (ts ! 0)
           in if checkBvResultSize sz then Some (BITVECTOR_TYPE sz) else None)"

text \<open>The number of children a kind may have.\<close>

definition kind_arity :: "kind \<Rightarrow> nat \<Rightarrow> bool" where
  "kind_arity k n = (case k of
     K_NOT \<Rightarrow> n = 1 | K_AND \<Rightarrow> n \<ge> 2 | K_OR \<Rightarrow> n \<ge> 2 | K_XOR \<Rightarrow> n = 2 | K_IMPLIES \<Rightarrow> n = 2
   | K_ITE \<Rightarrow> n = 3 | K_EQUAL \<Rightarrow> n = 2 | K_DISTINCT \<Rightarrow> n \<ge> 2 | K_SEXPR \<Rightarrow> True | K_APPLY_UF f ts t \<Rightarrow> n \<ge> 1
   | K_BITVECTOR_CONCAT \<Rightarrow> n \<ge> 2 | K_BITVECTOR_AND \<Rightarrow> n \<ge> 2 | K_BITVECTOR_OR \<Rightarrow> n \<ge> 2
   | K_BITVECTOR_XOR \<Rightarrow> n \<ge> 2 | K_BITVECTOR_MULT \<Rightarrow> n \<ge> 2 | K_BITVECTOR_ADD \<Rightarrow> n \<ge> 2
   | K_BITVECTOR_REDAND \<Rightarrow> n = 1 | K_BITVECTOR_REDOR \<Rightarrow> n = 1 | K_BITVECTOR_NEGO \<Rightarrow> n = 1
   | K_BITVECTOR_NOT \<Rightarrow> n = 1 | K_BITVECTOR_NEG \<Rightarrow> n = 1 | K_BITVECTOR_ITE \<Rightarrow> n = 3
   | K_BITVECTOR_BIT i \<Rightarrow> n = 1 | K_BITVECTOR_EXTRACT h l \<Rightarrow> n = 1 | K_BITVECTOR_REPEAT i \<Rightarrow> n = 1
   | K_BITVECTOR_ROTATE_LEFT i \<Rightarrow> n = 1 | K_BITVECTOR_ROTATE_RIGHT i \<Rightarrow> n = 1
   | K_BITVECTOR_SIGN_EXTEND i \<Rightarrow> n = 1 | K_BITVECTOR_ZERO_EXTEND i \<Rightarrow> n = 1
   | _ \<Rightarrow> n = 2)"

definition kind_type :: "kind \<Rightarrow> type_node list \<Rightarrow> type_node option" where
  "kind_type k ts = (case k of
     K_NOT \<Rightarrow> BooleanTypeRule ts | K_AND \<Rightarrow> BooleanTypeRule ts | K_OR \<Rightarrow> BooleanTypeRule ts
   | K_XOR \<Rightarrow> BooleanTypeRule ts | K_IMPLIES \<Rightarrow> BooleanTypeRule ts
   | K_ITE \<Rightarrow> IteTypeRule ts | K_EQUAL \<Rightarrow> EqualityTypeRule ts
   | K_DISTINCT \<Rightarrow> DistinctTypeRule ts | K_SEXPR \<Rightarrow> Some SEXPR_TYPE
   | K_APPLY_UF f argTypes rangeType \<Rightarrow> UfTypeRule argTypes rangeType ts
   | K_BITVECTOR_CONCAT \<Rightarrow> BitVectorConcatTypeRule ts
   | K_BITVECTOR_COMP \<Rightarrow> BitVectorBVPredTypeRule ts
   | K_BITVECTOR_ULTBV \<Rightarrow> BitVectorBVPredTypeRule ts
   | K_BITVECTOR_SLTBV \<Rightarrow> BitVectorBVPredTypeRule ts
   | K_BITVECTOR_ULE \<Rightarrow> BitVectorPredicateTypeRule ts | K_BITVECTOR_ULT \<Rightarrow> BitVectorPredicateTypeRule ts
   | K_BITVECTOR_UGE \<Rightarrow> BitVectorPredicateTypeRule ts | K_BITVECTOR_UGT \<Rightarrow> BitVectorPredicateTypeRule ts
   | K_BITVECTOR_SLE \<Rightarrow> BitVectorPredicateTypeRule ts | K_BITVECTOR_SLT \<Rightarrow> BitVectorPredicateTypeRule ts
   | K_BITVECTOR_SGE \<Rightarrow> BitVectorPredicateTypeRule ts | K_BITVECTOR_SGT \<Rightarrow> BitVectorPredicateTypeRule ts
   | K_BITVECTOR_REDAND \<Rightarrow> BitVectorRedTypeRule ts | K_BITVECTOR_REDOR \<Rightarrow> BitVectorRedTypeRule ts
   | K_BITVECTOR_NEGO \<Rightarrow> BitVectorPredicateTypeRule ts
   | K_BITVECTOR_UADDO \<Rightarrow> BitVectorPredicateTypeRule ts | K_BITVECTOR_SADDO \<Rightarrow> BitVectorPredicateTypeRule ts
   | K_BITVECTOR_UMULO \<Rightarrow> BitVectorPredicateTypeRule ts | K_BITVECTOR_SMULO \<Rightarrow> BitVectorPredicateTypeRule ts
   | K_BITVECTOR_USUBO \<Rightarrow> BitVectorPredicateTypeRule ts | K_BITVECTOR_SSUBO \<Rightarrow> BitVectorPredicateTypeRule ts
   | K_BITVECTOR_SDIVO \<Rightarrow> BitVectorPredicateTypeRule ts
   | K_BITVECTOR_ITE \<Rightarrow> BitVectorITETypeRule ts
   | K_BITVECTOR_BIT i \<Rightarrow> BitVectorBitTypeRule i ts
   | K_BITVECTOR_EXTRACT h l \<Rightarrow> BitVectorExtractTypeRule h l ts
   | K_BITVECTOR_REPEAT i \<Rightarrow> BitVectorRepeatTypeRule i ts
   | K_BITVECTOR_SIGN_EXTEND i \<Rightarrow> BitVectorExtendTypeRule i ts
   | K_BITVECTOR_ZERO_EXTEND i \<Rightarrow> BitVectorExtendTypeRule i ts
   | _ \<Rightarrow> BitVectorFixedWidthTypeRule ts)"

text \<open>
  The sorts a symbol can be declared with: a bit-vector sort has a positive 32-bit width.
\<close>

fun valid_type :: "type_node \<Rightarrow> bool" where
  "valid_type (BITVECTOR_TYPE n) = (0 < n \<and> n < 2 ^ 32)"
| "valid_type t = True"

fun getType :: "node \<Rightarrow> type_node option" where
  "getType (CONST_BOOLEAN b) = Some BOOLEAN_TYPE"
| "getType (CONST_BITVECTOR b) = (if bv_inv b then BitVectorConstantTypeRule b else None)"
| "getType (CONST_INTEGER i) = Some INTEGER_TYPE"
| "getType (VARIABLE x t) = (if valid_type t then Some t else None)"
| "getType (mkNode k ns) =
     (case those (map getType ns) of
        None \<Rightarrow> None
      | Some ts \<Rightarrow>
          if kind_arity k (length ts) then
            (case kind_type k ts of
               None \<Rightarrow> None
             | Some t \<Rightarrow> if valid_type t then Some t else None)
          else None)"

definition isBoolean :: "node \<Rightarrow> bool" where
  "isBoolean n = (getType n = Some BOOLEAN_TYPE)"

text \<open>\<^verbatim>\<open>utils::getSize\<close>: the width of a bit-vector term.\<close>

definition getSize :: "node \<Rightarrow> nat" where
  "getSize n = (case getType n of Some t \<Rightarrow> getBitVectorSize t | None \<Rightarrow> 0)"

section \<open>Values and evaluation\<close>

datatype eval_result =
    INVALID
  | BOOL bool
  | BITVECTOR bitvector
  | RATIONAL int
  | UVALUE nat int

text \<open>
  The members \<^verbatim>\<open>d_bool\<close> and \<^verbatim>\<open>d_bv\<close> of the union; reading a member that the tag does not
  select is undefined in the code, and no well-typed term does it.
\<close>

fun as_bool :: "eval_result \<Rightarrow> bool" where
  "as_bool (BOOL b) = b"
| "as_bool r = False"

fun as_bv :: "eval_result \<Rightarrow> bitvector" where
  "as_bv (BITVECTOR b) = b"
| "as_bv r = bv_default 0"

text \<open>
  A model gives the free symbols a value.  It is a function into \<open>int\<close>, read at the type of the
  symbol, so that every model is well typed.
\<close>

record model =
  var_raw :: "nat \<Rightarrow> type_node \<Rightarrow> int"
  fun_raw :: "nat \<Rightarrow> type_node \<Rightarrow> eval_result list \<Rightarrow> int"

fun value_at :: "gmp \<Rightarrow> type_node \<Rightarrow> int \<Rightarrow> eval_result" where
  "value_at G BOOLEAN_TYPE i = BOOL (i \<noteq> 0)"
| "value_at G (BITVECTOR_TYPE n) i = BITVECTOR (mk_bv G n i)"
| "value_at G INTEGER_TYPE i = RATIONAL i"
| "value_at G (SORT_TYPE s) i = UVALUE s i"
| "value_at G SEXPR_TYPE i = INVALID"

text \<open>The Boolean connectives of \<^verbatim>\<open>Evaluator::evalInternal\<close>.\<close>

definition eval_bool_kind :: "kind \<Rightarrow> eval_result list \<Rightarrow> eval_result option" where
  "eval_bool_kind k rs = (case k of
     K_NOT \<Rightarrow> Some (BOOL (\<not> as_bool (rs ! 0)))
   | K_AND \<Rightarrow> Some (BOOL (foldl (\<lambda>res r. res \<and> as_bool r) (as_bool (rs ! 0)) (tl rs)))
   | K_OR \<Rightarrow> Some (BOOL (foldl (\<lambda>res r. res \<or> as_bool r) (as_bool (rs ! 0)) (tl rs)))
   | K_IMPLIES \<Rightarrow> Some (BOOL (\<not> as_bool (rs ! 0) \<or> as_bool (rs ! 1)))
   | K_XOR \<Rightarrow> Some (BOOL (foldl (\<lambda>res r. res \<noteq> as_bool r) (as_bool (rs ! 0)) (tl rs)))
   | _ \<Rightarrow> None)"

text \<open>The bit-vector terms of \<^verbatim>\<open>Evaluator::evalInternal\<close>.\<close>

definition eval_bv_kind :: "gmp \<Rightarrow> kind \<Rightarrow> eval_result list \<Rightarrow> eval_result option" where
  "eval_bv_kind G k rs =
     (let a = as_bv (rs ! 0); b = as_bv (rs ! 1); bs = map as_bv (tl rs)
      in case k of
        K_BITVECTOR_NOT \<Rightarrow> Some (BITVECTOR (bv_not G a))
      | K_BITVECTOR_NEG \<Rightarrow> Some (BITVECTOR (bv_neg G a))
      | K_BITVECTOR_EXTRACT hi lo \<Rightarrow> Some (BITVECTOR (bv_extract G a hi lo))
      | K_BITVECTOR_CONCAT \<Rightarrow> Some (BITVECTOR (foldl (bv_concat G) a bs))
      | K_BITVECTOR_ADD \<Rightarrow> Some (BITVECTOR (foldl (bv_add G) a bs))
      | K_BITVECTOR_MULT \<Rightarrow> Some (BITVECTOR (foldl (bv_mult G) a bs))
      | K_BITVECTOR_AND \<Rightarrow> Some (BITVECTOR (foldl (bv_and G) a bs))
      | K_BITVECTOR_OR \<Rightarrow> Some (BITVECTOR (foldl (bv_or G) a bs))
      | K_BITVECTOR_XOR \<Rightarrow> Some (BITVECTOR (foldl (bv_xor G) a bs))
      | K_BITVECTOR_UDIV \<Rightarrow> Some (BITVECTOR (bv_unsignedDivTotal G a b))
      | K_BITVECTOR_UREM \<Rightarrow> Some (BITVECTOR (bv_unsignedRemTotal G a b))
      | K_BITVECTOR_SHL \<Rightarrow> Some (BITVECTOR (bv_leftShift G a b))
      | K_BITVECTOR_ASHR \<Rightarrow> Some (BITVECTOR (bv_arithRightShift G a b))
      | K_BITVECTOR_REPEAT amount \<Rightarrow>
          Some (BITVECTOR (((\<lambda>ret. bv_concat G ret a) ^^ (amount - 1)) a))
      | K_BITVECTOR_SIGN_EXTEND amount \<Rightarrow> Some (BITVECTOR (bv_signExtend G a amount))
      | K_BITVECTOR_ZERO_EXTEND amount \<Rightarrow> Some (BITVECTOR (bv_zeroExtend G a amount))
      | _ \<Rightarrow> None)"

text \<open>The bit-vector predicates of \<^verbatim>\<open>Evaluator::evalInternal\<close>.\<close>

definition eval_bv_pred :: "gmp \<Rightarrow> kind \<Rightarrow> eval_result list \<Rightarrow> eval_result option" where
  "eval_bv_pred G k rs =
     (let a = as_bv (rs ! 0); b = as_bv (rs ! 1)
      in case k of
        K_BITVECTOR_ULT \<Rightarrow> Some (BOOL (bv_unsignedLessThan a b))
      | K_BITVECTOR_SLT \<Rightarrow> Some (BOOL (bv_signedLessThan G a b))
      | K_BITVECTOR_SLE \<Rightarrow> Some (BOOL (bv_signedLessThanEq G a b))
      | K_BITVECTOR_ULE \<Rightarrow> Some (BOOL (bv_unsignedLessThanEq a b))
      | K_BITVECTOR_UGT \<Rightarrow> Some (BOOL (bv_unsignedLessThan b a))
      | K_BITVECTOR_SGT \<Rightarrow> Some (BOOL (bv_signedLessThan G b a))
      | K_BITVECTOR_SGE \<Rightarrow> Some (BOOL (bv_signedLessThanEq G b a))
      | K_BITVECTOR_UGE \<Rightarrow> Some (BOOL (bv_unsignedLessThanEq b a))
      | _ \<Rightarrow> None)"

text \<open>The cases \<^verbatim>\<open>EQUAL\<close> and \<^verbatim>\<open>ITE\<close> of \<^verbatim>\<open>Evaluator::evalInternal\<close>.\<close>

fun eval_equal :: "eval_result \<Rightarrow> eval_result \<Rightarrow> eval_result" where
  "eval_equal (BOOL b) rhs = BOOL (b = as_bool rhs)"
| "eval_equal (BITVECTOR a) rhs = BOOL (bv_eq a (as_bv rhs))"
| "eval_equal (RATIONAL q) rhs = BOOL (rhs = RATIONAL q)"
| "eval_equal (UVALUE s v) rhs = BOOL (rhs = UVALUE s v)"
| "eval_equal INVALID rhs = INVALID"

definition eval_ite :: "eval_result list \<Rightarrow> eval_result" where
  "eval_ite rs = (if as_bool (rs ! 0) then rs ! 1 else rs ! 2)"

text \<open>
  Kinds the evaluator leaves to the rewriter: the constant evaluation rules, and the
  elimination rules of the operators that are defined by other ones.
\<close>

definition getBit :: "gmp \<Rightarrow> bitvector \<Rightarrow> nat \<Rightarrow> bool" where
  "getBit G b i = (d_value (bv_extract G b i i) = 1)"

definition bv_bool :: "gmp \<Rightarrow> bool \<Rightarrow> bitvector" where
  "bv_bool G b = (if b then mk_bv G 1 1 else mk_bv G 1 0)"

definition EvalLshr :: "gmp \<Rightarrow> bitvector \<Rightarrow> bitvector \<Rightarrow> eval_result" where
  "EvalLshr G a b = BITVECTOR (bv_logicalRightShift G a b)"

definition EvalUltBv :: "gmp \<Rightarrow> bitvector \<Rightarrow> bitvector \<Rightarrow> eval_result" where
  "EvalUltBv G a b = BITVECTOR (bv_bool G (bv_unsignedLessThan a b))"

definition EvalSltBv :: "gmp \<Rightarrow> bitvector \<Rightarrow> bitvector \<Rightarrow> eval_result" where
  "EvalSltBv G a b = BITVECTOR (bv_bool G (bv_signedLessThan G a b))"

definition EvalITEBv :: "gmp \<Rightarrow> bitvector \<Rightarrow> eval_result \<Rightarrow> eval_result \<Rightarrow> eval_result" where
  "EvalITEBv G cond a b = (if bv_eq cond (mk_bv G 1 1) then a else b)"

definition EvalComp :: "gmp \<Rightarrow> bitvector \<Rightarrow> bitvector \<Rightarrow> eval_result" where
  "EvalComp G a b = BITVECTOR (bv_bool G (bv_eq a b))"

lemmas constant_evaluation_defs = EvalLshr_def EvalUltBv_def EvalSltBv_def EvalITEBv_def EvalComp_def

definition eval_bv_rewrite :: "gmp \<Rightarrow> kind \<Rightarrow> eval_result list \<Rightarrow> eval_result option" where
  "eval_bv_rewrite G k rs =
     (let a = as_bv (rs ! 0); b = as_bv (rs ! 1)
      in case k of
        K_BITVECTOR_LSHR \<Rightarrow> Some (EvalLshr G a b)
      | K_BITVECTOR_ULTBV \<Rightarrow> Some (EvalUltBv G a b)
      | K_BITVECTOR_SLTBV \<Rightarrow> Some (EvalSltBv G a b)
      | K_BITVECTOR_COMP \<Rightarrow> Some (EvalComp G a b)
      | K_BITVECTOR_ITE \<Rightarrow> Some (EvalITEBv G a (rs ! 1) (rs ! 2))
      | K_BITVECTOR_BIT pos \<Rightarrow> Some (BOOL (getBit G a pos))
      | K_BITVECTOR_SUB \<Rightarrow> Some (BITVECTOR (bv_add G a (bv_neg G b)))
      | K_BITVECTOR_NAND \<Rightarrow> Some (BITVECTOR (bv_not G (bv_and G a b)))
      | K_BITVECTOR_NOR \<Rightarrow> Some (BITVECTOR (bv_not G (bv_or G a b)))
      | K_BITVECTOR_XNOR \<Rightarrow> Some (BITVECTOR (bv_not G (bv_xor G a b)))
      | _ \<Rightarrow> None)"

text \<open>
  The remaining kinds get their SMT-LIB meaning: pairwise distinct values, division and remainder of the signed values,
  rounded towards zero (\<^verbatim>\<open>bvsdiv\<close>, \<^verbatim>\<open>bvsrem\<close>) or with the sign of the divisor (\<^verbatim>\<open>bvsmod\<close>),
  rotation, reduction, and the predicates that say that the exact result of an operation does
  not fit the width.
\<close>

definition fits_signed :: "nat \<Rightarrow> int \<Rightarrow> bool" where
  "fits_signed n i \<longleftrightarrow> - (2 ^ (n - 1)) \<le> i \<and> i < 2 ^ (n - 1)"

definition signed_quot :: "int \<Rightarrow> int \<Rightarrow> int" where
  "signed_quot x y = sgn x * sgn y * (\<bar>x\<bar> div \<bar>y\<bar>)"

definition rotate_value :: "nat \<Rightarrow> nat \<Rightarrow> int \<Rightarrow> int" where
  "rotate_value n i v = (let k = i mod n in v * 2 ^ k + v div 2 ^ (n - k))"

definition eval_smtlib :: "gmp \<Rightarrow> kind \<Rightarrow> eval_result list \<Rightarrow> eval_result" where
  "eval_smtlib G k rs =
     (let a = as_bv (rs ! 0); b = as_bv (rs ! 1); n = d_size a;
          x = bv_toSignedInteger G a; y = bv_toSignedInteger G b
      in case k of
        K_DISTINCT \<Rightarrow> BOOL (distinct rs)
      | K_BITVECTOR_SDIV \<Rightarrow>
          BITVECTOR (mk_bv G n (if y = 0 then (if x < 0 then 1 else - 1) else signed_quot x y))
      | K_BITVECTOR_SREM \<Rightarrow> BITVECTOR (mk_bv G n (if y = 0 then x else x - y * signed_quot x y))
      | K_BITVECTOR_SMOD \<Rightarrow> BITVECTOR (mk_bv G n (if y = 0 then x else x mod y))
      | K_BITVECTOR_ROTATE_LEFT i \<Rightarrow> BITVECTOR (mk_bv G n (rotate_value n i (d_value a)))
      | K_BITVECTOR_ROTATE_RIGHT i \<Rightarrow>
          BITVECTOR (mk_bv G n (rotate_value n (n - i mod n) (d_value a)))
      | K_BITVECTOR_REDAND \<Rightarrow> BITVECTOR (bv_bool G (d_value a = 2 ^ n - 1))
      | K_BITVECTOR_REDOR \<Rightarrow> BITVECTOR (bv_bool G (d_value a \<noteq> 0))
      | K_BITVECTOR_NEGO \<Rightarrow> BOOL (\<not> fits_signed n (- x))
      | K_BITVECTOR_UADDO \<Rightarrow> BOOL (d_value a + d_value b \<ge> 2 ^ n)
      | K_BITVECTOR_SADDO \<Rightarrow> BOOL (\<not> fits_signed n (x + y))
      | K_BITVECTOR_UMULO \<Rightarrow> BOOL (d_value a * d_value b \<ge> 2 ^ n)
      | K_BITVECTOR_SMULO \<Rightarrow> BOOL (\<not> fits_signed n (x * y))
      | K_BITVECTOR_USUBO \<Rightarrow> BOOL (d_value a < d_value b)
      | K_BITVECTOR_SSUBO \<Rightarrow> BOOL (\<not> fits_signed n (x - y))
      | K_BITVECTOR_SDIVO \<Rightarrow> BOOL (y \<noteq> 0 \<and> \<not> fits_signed n (signed_quot x y))
      | _ \<Rightarrow> INVALID)"

definition eval_kind :: "gmp \<Rightarrow> model \<Rightarrow> kind \<Rightarrow> eval_result list \<Rightarrow> eval_result" where
  "eval_kind G m k rs =
     (case eval_bool_kind k rs of Some r \<Rightarrow> r | None \<Rightarrow>
     (case eval_bv_kind G k rs of Some r \<Rightarrow> r | None \<Rightarrow>
     (case eval_bv_pred G k rs of Some r \<Rightarrow> r | None \<Rightarrow>
     (case eval_bv_rewrite G k rs of Some r \<Rightarrow> r | None \<Rightarrow>
     (case k of
        K_EQUAL \<Rightarrow> eval_equal (rs ! 0) (rs ! 1)
      | K_ITE \<Rightarrow> eval_ite rs
      | K_APPLY_UF f argTypes t \<Rightarrow> value_at G t (fun_raw m f t rs)
      | _ \<Rightarrow> eval_smtlib G k rs)))))"

fun eval :: "gmp \<Rightarrow> model \<Rightarrow> node \<Rightarrow> eval_result" where
  "eval G m (CONST_BOOLEAN b) = BOOL b"
| "eval G m (CONST_BITVECTOR b) = BITVECTOR b"
| "eval G m (CONST_INTEGER i) = RATIONAL i"
| "eval G m (VARIABLE x t) = value_at G t (var_raw m x t)"
| "eval G m (mkNode k ns) = eval_kind G m k (map (eval G m) ns)"

definition truth :: "gmp \<Rightarrow> model \<Rightarrow> node \<Rightarrow> bool" where
  "truth G m n = as_bool (eval G m n)"

definition bvval :: "gmp \<Rightarrow> model \<Rightarrow> node \<Rightarrow> bitvector" where
  "bvval G m n = as_bv (eval G m n)"

text \<open>Values of a type, and terms all of whose subterms are first class.\<close>

fun has_type :: "eval_result \<Rightarrow> type_node \<Rightarrow> bool" where
  "has_type (BOOL b) T = (T = BOOLEAN_TYPE)"
| "has_type (BITVECTOR b) T = (T = BITVECTOR_TYPE (d_size b) \<and> bv_inv b \<and> 0 < d_size b)"
| "has_type (RATIONAL q) T = (T = INTEGER_TYPE)"
| "has_type (UVALUE s v) T = (T = SORT_TYPE s)"
| "has_type INVALID T = False"

definition kind_range :: "kind \<Rightarrow> type_node option" where
  "kind_range k = (case k of K_APPLY_UF f ts t \<Rightarrow> Some t | K_SEXPR \<Rightarrow> Some SEXPR_TYPE | _ \<Rightarrow> None)"

fun firstClass :: "node \<Rightarrow> bool" where
  "firstClass (VARIABLE x t) = (t \<noteq> SEXPR_TYPE)"
| "firstClass (mkNode k ns) = (kind_range k \<noteq> Some SEXPR_TYPE \<and> list_all firstClass ns)"
| "firstClass n = True"

section \<open>Truth of the connectives\<close>

lemma foldl_conj: "foldl (\<lambda>res r. res \<and> f r) b rs \<longleftrightarrow> b \<and> (\<forall>r\<in>set rs. f r)"
  by (induction rs arbitrary: b) auto

lemma foldl_disj: "foldl (\<lambda>res r. res \<or> f r) b rs \<longleftrightarrow> b \<or> (\<exists>r\<in>set rs. f r)"
  by (induction rs arbitrary: b) auto

lemma truth_const [simp]: "truth G m (CONST_BOOLEAN b) = b"
  by (simp add: truth_def)

lemma truth_NOT [simp]: "truth G m (mkNode K_NOT [a]) \<longleftrightarrow> \<not> truth G m a"
  by (simp add: truth_def eval_kind_def eval_bool_kind_def)

lemma truth_notNode [simp]: "truth G m (notNode a) \<longleftrightarrow> \<not> truth G m a"
  by (simp add: notNode_def)

lemma truth_AND: "ns \<noteq> [] \<Longrightarrow> truth G m (mkNode K_AND ns) \<longleftrightarrow> (\<forall>n\<in>set ns. truth G m n)"
  by (cases ns) (auto simp: truth_def eval_kind_def eval_bool_kind_def foldl_conj)

lemma truth_OR: "ns \<noteq> [] \<Longrightarrow> truth G m (mkNode K_OR ns) \<longleftrightarrow> (\<exists>n\<in>set ns. truth G m n)"
  by (cases ns) (auto simp: truth_def eval_kind_def eval_bool_kind_def foldl_disj)

lemma truth_AND_Cons [simp]:
  "truth G m (mkNode K_AND (a # ns)) \<longleftrightarrow> truth G m a \<and> (\<forall>n\<in>set ns. truth G m n)"
  by (simp add: truth_AND)

lemma truth_OR_Cons [simp]:
  "truth G m (mkNode K_OR (a # ns)) \<longleftrightarrow> truth G m a \<or> (\<exists>n\<in>set ns. truth G m n)"
  by (simp add: truth_OR)

lemma truth_XOR [simp]: "truth G m (mkNode K_XOR [a, b]) \<longleftrightarrow> truth G m a \<noteq> truth G m b"
  by (simp add: truth_def eval_kind_def eval_bool_kind_def)

lemma truth_IMPLIES [simp]:
  "truth G m (mkNode K_IMPLIES [a, b]) \<longleftrightarrow> (truth G m a \<longrightarrow> truth G m b)"
  by (auto simp: truth_def eval_kind_def eval_bool_kind_def)

lemma eval_kind_ITE [simp]: "eval_kind G m K_ITE [c, a, b] = (if as_bool c then a else b)"
  by (simp add: eval_kind_def eval_bool_kind_def eval_bv_kind_def eval_bv_pred_def
      eval_bv_rewrite_def eval_ite_def Let_def)

lemma truth_ITE [simp]:
  "truth G m (mkNode K_ITE [c, a, b]) \<longleftrightarrow> (if truth G m c then truth G m a else truth G m b)"
  by (simp add: truth_def)

lemma eval_kind_EQUAL [simp]: "eval_kind G m K_EQUAL [a, b] = eval_equal a b"
  by (simp add: eval_kind_def eval_bool_kind_def eval_bv_kind_def eval_bv_pred_def
      eval_bv_rewrite_def Let_def)

definition boolish :: "gmp \<Rightarrow> model \<Rightarrow> node \<Rightarrow> bool" where
  "boolish G m n \<longleftrightarrow> has_type (eval G m n) BOOLEAN_TYPE"

lemma boolish_iff: "boolish G m n \<longleftrightarrow> eval G m n = BOOL (truth G m n)"
  by (cases "eval G m n") (auto simp: boolish_def truth_def)

lemma truth_EQUAL [simp]:
  "boolish G m a \<Longrightarrow> truth G m (mkNode K_EQUAL [a, b]) \<longleftrightarrow> truth G m a = truth G m b"
  by (cases "eval G m a") (simp_all add: boolish_def truth_def)

lemma boolish_connective [simp]:
  "boolish G m (CONST_BOOLEAN b)" "boolish G m (mkNode K_NOT ns)" "boolish G m (mkNode K_AND ns)"
  "boolish G m (mkNode K_OR ns)" "boolish G m (mkNode K_XOR ns)" "boolish G m (mkNode K_IMPLIES ns)"
  "boolish G m (notNode n)"
  by (simp_all add: boolish_def eval_kind_def eval_bool_kind_def notNode_def)

lemma isKindE:
  assumes "isKind k n"
  obtains ns where "n = mkNode k ns"
  using assms by (cases n) auto

lemma truth_negate:
  "isKind K_NOT n \<longrightarrow> length (children n) = 1 \<Longrightarrow> truth G m (negate n) \<longleftrightarrow> \<not> truth G m n"
  by (auto simp: negate_def length_Suc_conv elim!: isKindE)

end
