(* ===== verification/Type_Soundness.thy ===== *)
theory Type_Soundness
  imports Nodes
begin

text \<open>
  Evaluation respects the type rules: a well-typed first-class term evaluates to a value of its
  type, so that no operation of the evaluator reads a member of the union that is not set, and
  every bit-vector value satisfies the class invariant at the width of its type.
\<close>

section \<open>Type soundness of evaluation\<close>

lemma those_Some: "those xs = Some ys \<longleftrightarrow> list_all2 (\<lambda>x y. x = Some y) xs ys"
proof (induction xs arbitrary: ys)
  case Nil
  show ?case by auto
next
  case (Cons x xs)
  then show ?case
    by (cases x; cases ys) (auto simp: list_all2_Cons1 split: option.splits)
qed

lemma has_type_Boolean: "has_type r BOOLEAN_TYPE \<longleftrightarrow> (\<exists>b. r = BOOL b)"
  by (cases r) auto

lemma has_type_BitVector:
  "has_type r (BITVECTOR_TYPE n) \<longleftrightarrow> (\<exists>b. r = BITVECTOR b \<and> bv_inv b \<and> d_size b = n \<and> 0 < n)"
  by (cases r) auto

lemma isBitVectorE: "isBitVector t \<Longrightarrow> (\<And>n. t = BITVECTOR_TYPE n \<Longrightarrow> P) \<Longrightarrow> P"
  by (cases t) auto

lemma fixedWidthLoop_Some:
  "fixedWidthLoop (Some t) ts = Some T \<longleftrightarrow> T = t \<and> (\<forall>t'\<in>set ts. t' = t \<and> isBitVector t)"
  by (induction ts) (auto split: if_splits)

lemma BitVectorFixedWidthTypeRule_Some:
  assumes "BitVectorFixedWidthTypeRule ts = Some T" "ts \<noteq> []"
  shows "\<exists>n. T = BITVECTOR_TYPE n \<and> (\<forall>t\<in>set ts. t = BITVECTOR_TYPE n)"
  using assms
  by (cases ts)
    (auto simp: BitVectorFixedWidthTypeRule_def fixedWidthLoop_Some elim!: isBitVectorE
      split: if_splits)

lemma foldl_bv_sized:
  assumes "\<And>a b. bv_inv a \<Longrightarrow> bv_inv (f a b)" "\<And>a b. d_size (f a b) = d_size a" "bv_inv a"
  shows "bv_inv (foldl f a bs) \<and> d_size (foldl f a bs) = d_size a"
  using assms(3) by (induction bs arbitrary: a) (simp_all add: assms(1,2))

lemma concatLoop_Some:
  assumes "concatLoop n ts = Some T"
  shows "T = BITVECTOR_TYPE (n + sum_list (map getBitVectorSize ts)) \<and> list_all isBitVector ts
    \<and> (ts \<noteq> [] \<longrightarrow> n + sum_list (map getBitVectorSize ts) < 2 ^ 32)"
  using assms
proof (induction ts arbitrary: n)
  case Nil
  then show ?case by simp
next
  case (Cons t ts)
  have "n + getBitVectorSize t < 2 ^ 32" "isBitVector t"
    and rec: "concatLoop (n + getBitVectorSize t) ts = Some T"
    using Cons.prems by (auto simp: checkBvResultSize_def Let_def split: if_splits)
  then show ?case
    using Cons.IH [OF rec] by (cases ts) (auto simp: add.assoc)
qed

context gmp_documented
begin

lemma foldl_concat_sized:
  assumes "bv_inv a" "d_size a + sum_list (map d_size bs) < 2 ^ 32"
  shows "bv_inv (foldl (bv_concat G) a bs)
    \<and> d_size (foldl (bv_concat G) a bs) = d_size a + sum_list (map d_size bs)"
  using assms
proof (induction bs arbitrary: a)
  case (Cons b bs)
  have "u32 (d_size a + d_size b) = d_size a + d_size b"
    using Cons.prems by simp
  then show ?case
    using Cons.IH [of "bv_concat G a b"] Cons.prems inv_sized(3) [of a b] by (simp add: add.assoc)
qed simp

lemma repeat_sized:
  assumes "bv_inv a" "Suc n * d_size a < 2 ^ 32"
  shows "bv_inv (((\<lambda>ret. bv_concat G ret a) ^^ n) a)
    \<and> d_size (((\<lambda>ret. bv_concat G ret a) ^^ n) a) = Suc n * d_size a"
  using assms(2)
proof (induction n)
  case 0
  then show ?case using assms(1) by simp
next
  case (Suc n)
  then show ?case using inv_sized(3) by (simp add: algebra_simps)
qed

lemma has_type_value_at:
  "valid_type t \<Longrightarrow> t \<noteq> SEXPR_TYPE \<Longrightarrow> has_type (value_at G t i) t"
  by (cases t) auto

lemma eval_bool_kind_type:
  assumes "eval_bool_kind k rs = Some r" "kind_type k ts = Some T"
  shows "has_type r T"
  using assms
  by (cases k) (auto simp: eval_bool_kind_def kind_type_def BooleanTypeRule_def split: if_splits)

lemma eval_bv_pred_type:
  assumes "eval_bv_pred G k rs = Some r" "kind_type k ts = Some T"
  shows "has_type r T"
  using assms
  by (cases k)
    (auto simp: eval_bv_pred_def Let_def kind_type_def BitVectorPredicateTypeRule_def split: if_splits)

lemma typed_pair:
  assumes "list_all2 has_type rs ts" "length ts = 2" "\<forall>t\<in>set ts. t = BITVECTOR_TYPE n"
  shows "bv_inv (as_bv (rs ! 0)) \<and> d_size (as_bv (rs ! 0)) = n \<and> 0 < n
    \<and> bv_inv (as_bv (rs ! 1)) \<and> d_size (as_bv (rs ! 1)) = n"
  using assms by (auto simp: length_Suc_conv numeral_2_eq_2 list_all2_Cons2 has_type_BitVector)

lemma typed_hd:
  assumes "list_all2 has_type rs ts" "ts \<noteq> []" "ts ! 0 = BITVECTOR_TYPE n"
  shows "bv_inv (as_bv (rs ! 0)) \<and> d_size (as_bv (rs ! 0)) = n \<and> 0 < n"
  using assms by (cases ts) (auto simp: list_all2_Cons2 has_type_BitVector)

lemma has_type_bv: "bv_inv b \<Longrightarrow> d_size b = n \<Longrightarrow> 0 < n \<Longrightarrow> has_type (BITVECTOR b) (BITVECTOR_TYPE n)"
  by simp

lemma has_type_fixed_width:
  assumes "BitVectorFixedWidthTypeRule ts = Some T" "ts \<noteq> []" "list_all2 has_type rs ts"
    "\<And>n. bv_inv (as_bv (rs ! 0)) \<Longrightarrow> d_size (as_bv (rs ! 0)) = n \<Longrightarrow> bv_inv b \<and> d_size b = n"
  shows "has_type (BITVECTOR b) T"
proof -
  obtain n where n: "T = BITVECTOR_TYPE n" "\<forall>t\<in>set ts. t = BITVECTOR_TYPE n"
    using BitVectorFixedWidthTypeRule_Some [OF assms(1,2)] by blast
  then have "ts ! 0 = BITVECTOR_TYPE n"
    using assms(2) by (simp add: nth_mem)
  then show ?thesis
    using typed_hd [OF assms(3,2)] assms(4) n by simp
qed

lemma has_type_concat:
  assumes "concatLoop 0 ts = Some T" "ts \<noteq> []" "list_all2 has_type rs ts"
  shows "has_type (BITVECTOR (foldl (bv_concat G) (as_bv (rs ! 0)) (map as_bv (tl rs)))) T"
proof -
  obtain t0 ts' where ts: "ts = t0 # ts'"
    using assms(2) by (cases ts) auto
  then obtain r0 rs' where rs: "rs = r0 # rs'" and h: "has_type r0 t0" "list_all2 has_type rs' ts'"
    using assms(3) by (auto simp: list_all2_Cons2)
  note c = concatLoop_Some [OF assms(1)]
  have "list_all isBitVector us \<Longrightarrow> list_all2 has_type vs us \<Longrightarrow>
      map d_size (map as_bv vs) = map getBitVectorSize us" for vs us
    by (induction us arbitrary: vs)
      (auto simp: list_all2_Cons2 has_type_BitVector elim!: isBitVectorE)
  from this [OF _ h(2)] have sz: "map d_size (map as_bv rs') = map getBitVectorSize ts'"
    using c ts by simp
  have "bv_inv (as_bv r0) \<and> d_size (as_bv r0) = getBitVectorSize t0 \<and> 0 < d_size (as_bv r0)"
    using c h(1) ts by (auto simp: has_type_BitVector elim!: isBitVectorE)
  then show ?thesis
    using foldl_concat_sized [of "as_bv r0" "map as_bv rs'"] c unfolding sz
    by (simp add: ts rs)
qed

lemma has_type_extract:
  assumes "BitVectorExtractTypeRule h l ts = Some T" "ts \<noteq> []" "list_all2 has_type rs ts"
  shows "has_type (BITVECTOR (bv_extract G (as_bv (rs ! 0)) h l)) T"
proof -
  obtain n where n: "ts ! 0 = BITVECTOR_TYPE n" "l \<le> h" "h < n" "T = BITVECTOR_TYPE (h - l + 1)"
    using assms(1)
    by (auto simp: BitVectorExtractTypeRule_def elim!: isBitVectorE split: if_splits)
  then show ?thesis
    using typed_hd [OF assms(3,2) n(1)] size_extract [of "as_bv (rs ! 0)" l h] inv_sized(4) by simp
qed

lemma has_type_extend:
  assumes "BitVectorExtendTypeRule i ts = Some T" "ts \<noteq> []" "list_all2 has_type rs ts"
  shows "has_type (BITVECTOR (bv_zeroExtend G (as_bv (rs ! 0)) i)) T"
    "has_type (BITVECTOR (bv_signExtend G (as_bv (rs ! 0)) i)) T"
proof -
  obtain n where n: "ts ! 0 = BITVECTOR_TYPE n" "n + i < 2 ^ 32" "T = BITVECTOR_TYPE (n + i)"
    using assms(1)
    by (auto simp: BitVectorExtendTypeRule_def Let_def checkBvResultSize_def add.commute
        elim!: isBitVectorE split: if_splits)
  then show "has_type (BITVECTOR (bv_zeroExtend G (as_bv (rs ! 0)) i)) T"
    "has_type (BITVECTOR (bv_signExtend G (as_bv (rs ! 0)) i)) T"
    using typed_hd [OF assms(3,2) n(1)] inv_sized(1,2) by simp_all
qed

lemma has_type_repeat:
  assumes "BitVectorRepeatTypeRule i ts = Some T" "ts \<noteq> []" "list_all2 has_type rs ts"
  shows "has_type (BITVECTOR (((\<lambda>ret. bv_concat G ret (as_bv (rs ! 0))) ^^ (i - 1)) (as_bv (rs ! 0)))) T"
proof -
  obtain n where n: "ts ! 0 = BITVECTOR_TYPE n" "0 < i" "i * n < 2 ^ 32" "T = BITVECTOR_TYPE (i * n)"
    using assms(1)
    by (auto simp: BitVectorRepeatTypeRule_def Let_def checkBvResultSize_def
        elim!: isBitVectorE split: if_splits)
  then show ?thesis
    using typed_hd [OF assms(3,2) n(1)] repeat_sized [of "as_bv (rs ! 0)" "i - 1"] by simp
qed

lemmas fixed_width_folds =
  foldl_bv_sized [of "bv_add G"] foldl_bv_sized [of "bv_mult G"] foldl_bv_sized [of "bv_and G"]
  foldl_bv_sized [of "bv_or G"] foldl_bv_sized [of "bv_xor G"]

lemma eval_bv_kind_type:
  assumes "eval_bv_kind G k rs = Some r" "kind_type k ts = Some T" "valid_type T"
    "kind_arity k (length ts)" "list_all2 has_type rs ts"
  shows "has_type r T"
proof -
  have ne: "ts \<noteq> []"
    using assms(1,4) by (cases k) (auto simp: eval_bv_kind_def Let_def kind_arity_def)
  note rules = has_type_fixed_width [OF _ ne assms(5)] has_type_concat [OF _ ne assms(5)]
    has_type_extract [OF _ ne assms(5)] has_type_extend [OF _ ne assms(5)] has_type_repeat [OF _ ne assms(5)]
  show ?thesis
    using assms(1,2,3)
    by (cases k)
      (auto simp: eval_bv_kind_def Let_def kind_type_def BitVectorConcatTypeRule_def
        inv_binary fixed_width_folds simp del: has_type.simps One_nat_def intro!: rules)
qed

lemma bv_bool_typed: "has_type (BITVECTOR (bv_bool G b)) (BITVECTOR_TYPE 1)"
  by (simp add: bv_bool_def)

lemma eval_bv_rewrite_type:
  assumes "eval_bv_rewrite G k rs = Some r" "kind_type k ts = Some T"
    "kind_arity k (length ts)" "list_all2 has_type rs ts"
  shows "has_type r T"
proof -
  have ne: "ts \<noteq> []"
    using assms(1,3) by (cases k) (auto simp: eval_bv_rewrite_def Let_def kind_arity_def)
  have ite: "k = K_BITVECTOR_ITE \<Longrightarrow> has_type (rs ! 1) T \<and> has_type (rs ! 2) T"
    using assms(2,3,4) list_all2_nthD2 [OF assms(4), of 1] list_all2_nthD2 [OF assms(4), of 2]
    by (simp add: kind_type_def BitVectorITETypeRule_def kind_arity_def split: if_splits)
  show ?thesis
    using assms(1,2) ite
    by (cases k)
      (auto simp: eval_bv_rewrite_def constant_evaluation_defs Let_def kind_type_def BitVectorBVPredTypeRule_def
        BitVectorBitTypeRule_def inv_binary bv_bool_typed [unfolded One_nat_def]
        simp del: has_type.simps(2) intro: has_type_fixed_width [OF _ ne assms(4)]
        split: if_splits)
qed

lemma bv_inv_mk_bv_size: "bv_inv a \<Longrightarrow> bv_inv (mk_bv G (d_size a) v)"
  by (rule bv_inv_mk_bv) (rule bv_invD(3))

abbreviation smtlib_words :: "kind set" where
  "smtlib_words \<equiv> {K_BITVECTOR_SDIV, K_BITVECTOR_SREM, K_BITVECTOR_SMOD}
      \<union> range K_BITVECTOR_ROTATE_LEFT \<union> range K_BITVECTOR_ROTATE_RIGHT"

abbreviation smtlib_reductions :: "kind set" where
  "smtlib_reductions \<equiv> {K_BITVECTOR_REDAND, K_BITVECTOR_REDOR}"

abbreviation smtlib_overflows :: "kind set" where
  "smtlib_overflows \<equiv> {K_BITVECTOR_NEGO, K_BITVECTOR_UADDO, K_BITVECTOR_SADDO, K_BITVECTOR_UMULO,
      K_BITVECTOR_SMULO, K_BITVECTOR_USUBO, K_BITVECTOR_SSUBO, K_BITVECTOR_SDIVO}"

lemma eval_smtlib_type:
  assumes "kind_type k ts = Some T" "list_all2 has_type rs ts" "kind_arity k (length ts)"
    "k \<in> smtlib_words \<union> smtlib_reductions \<union> smtlib_overflows"
  shows "has_type (eval_smtlib G k rs) T"
proof -
  have "has_type (eval_smtlib G k rs) T" if "k \<in> smtlib_words"
  proof -
    have ne: "ts \<noteq> []"
      using assms(3) that by (auto simp: kind_arity_def)
    show ?thesis
      using assms(1) that
      by (auto simp: eval_smtlib_def Let_def kind_type_def bv_inv_mk_bv_size simp del: has_type.simps
          intro!: has_type_fixed_width [OF _ ne assms(2)])
  qed
  moreover have "has_type (eval_smtlib G k rs) T" if "k \<in> smtlib_reductions"
    using assms(1) that bv_bool_typed
    by (auto simp: eval_smtlib_def Let_def kind_type_def BitVectorRedTypeRule_def simp del: has_type.simps
        split: if_splits)
  moreover have "has_type (eval_smtlib G k rs) T" if "k \<in> smtlib_overflows"
    using assms(1) that
    by (auto simp: eval_smtlib_def Let_def kind_type_def BitVectorPredicateTypeRule_def split: if_splits)
  ultimately show ?thesis
    using assms(4) by blast
qed

lemma eval_equal_type: "has_type r t \<Longrightarrow> has_type (eval_equal r r') BOOLEAN_TYPE"
  by (cases r) auto

lemma eval_ite_type:
  assumes "IteTypeRule ts = Some T" "length ts = 3" "list_all2 has_type rs ts"
  shows "has_type (eval_ite rs) T"
  using assms list_all2_nthD2 [OF assms(3), of 1] list_all2_nthD2 [OF assms(3), of 2]
  by (auto simp: IteTypeRule_def eval_ite_def split: if_splits)

lemma eval_kind_type:
  assumes "kind_type k ts = Some T" "valid_type T" "kind_arity k (length ts)"
    "list_all2 has_type rs ts" "kind_range k \<noteq> Some SEXPR_TYPE"
  shows "has_type (eval_kind G m k rs) T"
proof -
  have other: "has_type (case k of K_EQUAL \<Rightarrow> eval_equal (rs ! 0) (rs ! 1) | K_ITE \<Rightarrow> eval_ite rs
      | K_APPLY_UF f argTypes t \<Rightarrow> value_at G t (fun_raw m f t rs) | _ \<Rightarrow> eval_smtlib G k rs) T"
    if "eval_bool_kind k rs = None" "eval_bv_kind G k rs = None" "eval_bv_pred G k rs = None"
      "eval_bv_rewrite G k rs = None"
  proof -
    have eq: "k = K_EQUAL \<Longrightarrow> T = BOOLEAN_TYPE \<and> has_type (rs ! 0) (ts ! 0)"
      using assms(1,3) list_all2_nthD2 [OF assms(4), of 0]
      by (auto simp: kind_type_def EqualityTypeRule_def kind_arity_def split: if_splits)
    have uf: "k = K_APPLY_UF f us t \<Longrightarrow> T = t \<and> t \<noteq> SEXPR_TYPE" for f us t
      using assms(1,5) by (auto simp: kind_type_def UfTypeRule_def kind_range_def split: if_splits)
    have ite: "k = K_ITE \<Longrightarrow> has_type (eval_ite rs) T"
      using assms(1,3,4) by (auto simp: kind_type_def kind_arity_def intro: eval_ite_type)
    have distinct: "k = K_DISTINCT \<Longrightarrow> has_type (eval_smtlib G K_DISTINCT rs) T"
      using assms(1) by (auto simp: kind_type_def DistinctTypeRule_def eval_smtlib_def Let_def split: if_splits)
    show ?thesis
      using that eq uf ite distinct eval_smtlib_type [OF assms(1,4,3)] assms(2,5)
      by (cases k)
        (auto simp: eval_bool_kind_def eval_bv_kind_def eval_bv_pred_def eval_bv_rewrite_def Let_def
          kind_range_def intro: eval_equal_type has_type_value_at)
  qed
  show ?thesis
    using eval_bool_kind_type [OF _ assms(1)] eval_bv_kind_type [OF _ assms(1-4)]
      eval_bv_pred_type [OF _ assms(1)] eval_bv_rewrite_type [OF _ assms(1,3,4)] other
    unfolding eval_kind_def by (auto split: option.splits)
qed

lemma eval_has_type:
  assumes "getType n = Some T" "firstClass n"
  shows "has_type (eval G m n) T"
  using assms
proof (induction n arbitrary: T)
  case (mkNode k ns)
  obtain ts where ts: "those (map getType ns) = Some ts" "kind_type k ts = Some T" "valid_type T"
    "kind_arity k (length ts)"
    using mkNode.prems(1) by (auto split: option.splits if_splits)
  have "list_all2 (\<lambda>n t. getType n = Some t) ns ts"
    using ts(1) by (simp add: those_Some list.rel_map)
  moreover have "\<forall>n\<in>set ns. firstClass n"
    using mkNode.prems(2) by (simp add: list_all_iff)
  ultimately have "list_all2 (\<lambda>n t. has_type (eval G m n) t) ns ts"
    using mkNode.IH by (auto simp: list_all2_conv_all_nth)
  then have "list_all2 has_type (map (eval G m) ns) ts"
    by (simp add: list.rel_map)
  from eval_kind_type [OF ts(2-4) this] mkNode.prems(2) show ?case by simp
qed (auto simp: BitVectorConstantTypeRule_def has_type_value_at split: if_splits)

lemma bvval_typed:
  assumes "getType n = Some (BITVECTOR_TYPE w)" "firstClass n"
  shows "eval G m n = BITVECTOR (bvval G m n)" "bv_inv (bvval G m n)" "d_size (bvval G m n) = w"
    "0 < w"
  using eval_has_type [OF assms, of m] by (auto simp: has_type_BitVector bvval_def)

lemma isBoolean_boolish: "isBoolean n \<Longrightarrow> firstClass n \<Longrightarrow> boolish G m n"
  using eval_has_type [of n BOOLEAN_TYPE m] by (simp add: boolish_def isBoolean_def)

end

section \<open>Property\<close>

text \<open>C18. Type soundness of evaluation: a first-class term to which the type rules give a
  type evaluates, in every model, to a value of that type; a bit-vector value satisfies the
  class invariant of \<^verbatim>\<open>BitVector\<close> and has the width of the type.\<close>

theorem eval_type_sound:
  assumes "gmp_documented G" "getType n = Some T" "firstClass n"
  shows "has_type (eval G m n) T"
  by (rule gmp_documented.eval_has_type [OF assms])

theorem eval_type_sound_witness:
  "\<forall>m. has_type (eval gmp_reference m
     (mkNode (K_BITVECTOR_SIGN_EXTEND 4)
       [mkNode K_BITVECTOR_ADD [VARIABLE 0 (BITVECTOR_TYPE 4), CONST_BITVECTOR \<lparr>d_size = 4, d_value = 9\<rparr>]]))
   (BITVECTOR_TYPE 8)"
  by (intro allI eval_type_sound [OF gmp_ref.gmp_documented_axioms])
    (simp_all add: bv_inv_def BitVectorConstantTypeRule_def kind_arity_def kind_type_def
      BitVectorFixedWidthTypeRule_def BitVectorExtendTypeRule_def checkBvResultSize_def
      kind_range_def)

end
