(* ===== verification/Bitblast_Utils.thy ===== *)
theory Bitblast_Utils
  imports Type_Soundness
begin

text \<open>
  The circuits of \<^verbatim>\<open>src/src/theory/bv/bitblast/bitblast_utils.h\<close> at \<^verbatim>\<open>T = Node\<close>: Boolean nodes
  built over vectors of Boolean nodes, the bit of least weight first.  \<open>bits_val G m bits\<close> is the
  number a vector of bits denotes in a model; the lemmas say which number each circuit computes.
  The asserts of the source (vectors of the same size, indices in range) are the hypotheses of
  the lemmas.
\<close>

section \<open>Gates\<close>

definition mkTrue :: node where
  "mkTrue = CONST_BOOLEAN True"

definition mkFalse :: node where
  "mkFalse = CONST_BOOLEAN False"

definition mkNot :: "node \<Rightarrow> node" where
  "mkNot a = mkNode K_NOT [a]"

definition mkOr :: "node \<Rightarrow> node \<Rightarrow> node" where
  "mkOr a b = mkNode K_OR [a, b]"

definition mkOr_array :: "node list \<Rightarrow> node" where
  "mkOr_array cs = (if length cs = 1 then cs ! 0 else mkNode K_OR cs)"

definition mkOr_vector :: "node list \<Rightarrow> node" where
  "mkOr_vector cs = (if length cs = 1 then cs ! 0 else mkNode K_OR cs)"

definition mkAnd :: "node \<Rightarrow> node \<Rightarrow> node" where
  "mkAnd a b = mkNode K_AND [a, b]"

definition mkAnd_array :: "node list \<Rightarrow> node" where
  "mkAnd_array cs = (if length cs = 1 then cs ! 0 else mkNode K_AND cs)"

definition mkAnd_vector :: "node list \<Rightarrow> node" where
  "mkAnd_vector cs = (if length cs = 1 then cs ! 0 else mkNode K_AND cs)"

definition mkXor :: "node \<Rightarrow> node \<Rightarrow> node" where
  "mkXor a b = mkNode K_XOR [a, b]"

definition mkIff :: "node \<Rightarrow> node \<Rightarrow> node" where
  "mkIff a b = mkNode K_EQUAL [a, b]"

definition mkIte :: "node \<Rightarrow> node \<Rightarrow> node \<Rightarrow> node" where
  "mkIte cond a b = mkNode K_ITE [cond, a, b]"

section \<open>Vectors\<close>

definition extractBits :: "node list \<Rightarrow> nat \<Rightarrow> nat \<Rightarrow> node list" where
  "extractBits b lo hi = map (\<lambda>i. b ! i) [lo..<hi + 1]"

definition negateBits :: "node list \<Rightarrow> node list" where
  "negateBits bits = map mkNot bits"

definition isZero :: "node list \<Rightarrow> bool" where
  "isZero bits = list_all (\<lambda>b. b = mkFalse) bits"

definition rshift :: "node list \<Rightarrow> nat \<Rightarrow> node list" where
  "rshift bits amount =
     map (\<lambda>i. if i < length bits - amount then bits ! (i + amount) else mkFalse) [0..<length bits]"

definition lshift :: "node list \<Rightarrow> nat \<Rightarrow> node list" where
  "lshift bits amount =
     map (\<lambda>i. if i \<ge> amount then bits ! (i - amount) else mkFalse) [0..<length bits]"

definition makeZero :: "nat \<Rightarrow> node list" where
  "makeZero width = map (\<lambda>i. mkFalse) [0..<width]"

section \<open>Arithmetic circuits\<close>

text \<open>The loop of the adder over both vectors; the result is the sum bits and the carry out.\<close>

fun rippleCarryAdder :: "node list \<Rightarrow> node list \<Rightarrow> node \<Rightarrow> node list \<times> node" where
  "rippleCarryAdder (a # as) (b # bs) carry =
     (let sum = mkXor (mkXor a b) carry;
          carry' = mkOr_array [mkAnd a b, mkAnd (mkXor a b) carry];
          (res, co) = rippleCarryAdder as bs carry'
      in (sum # res, co))"
| "rippleCarryAdder as bs carry = ([], carry)"

text \<open>The two loops of the multiplier update the partial sums in place, by index.\<close>

definition mult_step ::
  "nat \<Rightarrow> node list \<Rightarrow> node list \<Rightarrow> node list \<times> node \<Rightarrow> nat \<Rightarrow> node list \<times> node" where
  "mult_step k a b st j =
     (let (res, carry_in) = st;
          aj = mkAnd (b ! k) (a ! j);
          carry_out = mkOr_array [mkAnd (res ! (j + k)) aj, mkAnd (mkXor (res ! (j + k)) aj) carry_in]
      in (res[j + k := mkXor (mkXor (res ! (j + k)) aj) carry_in], carry_out))"

definition shiftAddMultiplier :: "node list \<Rightarrow> node list \<Rightarrow> node list" where
  "shiftAddMultiplier a b =
     foldl (\<lambda>res k. fst (foldl (mult_step k a b) (res, mkFalse) [0..<length res - k]))
       (map (\<lambda>ai. mkAnd (b ! 0) ai) a) [1..<length a]"

section \<open>Comparison circuits\<close>

definition uLessThanBB :: "node list \<Rightarrow> node list \<Rightarrow> bool \<Rightarrow> node" where
  "uLessThanBB a b orEqual =
     (let res0 = mkAnd (mkNot (a ! 0)) (b ! 0);
          res1 = if orEqual then mkOr res0 (mkIff (a ! 0) (b ! 0)) else res0
      in foldl (\<lambda>res i. mkOr_array [mkAnd (mkIff (a ! i) (b ! i)) res, mkAnd (mkNot (a ! i)) (b ! i)])
           res1 [1..<length a])"

definition sLessThanBB :: "node list \<Rightarrow> node list \<Rightarrow> bool \<Rightarrow> node" where
  "sLessThanBB a b orEqual =
     (if length a = 1 then
        if orEqual then mkOr_array [mkIff (a ! 0) (b ! 0), mkAnd (a ! 0) (mkNot (b ! 0))]
        else mkAnd (a ! 0) (mkNot (b ! 0))
      else
        let n = length a - 1;
            a1 = extractBits a 0 (n - 1);
            b1 = extractBits b 0 (n - 1);
            ures = uLessThanBB a1 b1 orEqual
        in mkOr_array [mkAnd (mkIff (a ! n) (b ! n)) ures, mkAnd (a ! n) (mkNot (b ! n))])"

section \<open>What the gates denote\<close>

definition bits_val :: "gmp \<Rightarrow> model \<Rightarrow> node list \<Rightarrow> int" where
  "bits_val G m bits = bval (map (truth G m) bits)"

definition bools :: "gmp \<Rightarrow> model \<Rightarrow> node list \<Rightarrow> bool" where
  "bools G m bits \<longleftrightarrow> (\<forall>b\<in>set bits. boolish G m b)"

lemma truth_gates [simp]:
  "truth G m mkTrue" "\<not> truth G m mkFalse"
  "truth G m (mkNot a) \<longleftrightarrow> \<not> truth G m a"
  "truth G m (mkOr a b) \<longleftrightarrow> truth G m a \<or> truth G m b"
  "truth G m (mkOr_array [a, b]) \<longleftrightarrow> truth G m a \<or> truth G m b"
  "truth G m (mkAnd a b) \<longleftrightarrow> truth G m a \<and> truth G m b"
  "truth G m (mkAnd_array [a, b]) \<longleftrightarrow> truth G m a \<and> truth G m b"
  "truth G m (mkXor a b) \<longleftrightarrow> truth G m a \<noteq> truth G m b"
  "truth G m (mkIte c a b) \<longleftrightarrow> (if truth G m c then truth G m a else truth G m b)"
  "boolish G m a \<Longrightarrow> truth G m (mkIff a b) \<longleftrightarrow> truth G m a = truth G m b"
  by (simp_all add: mkTrue_def mkFalse_def mkNot_def mkOr_def mkOr_array_def mkAnd_def
      mkAnd_array_def mkXor_def mkIte_def mkIff_def)

lemma truth_mkAnd_vector [simp]:
  "cs \<noteq> [] \<Longrightarrow> truth G m (mkAnd_vector cs) \<longleftrightarrow> (\<forall>c\<in>set cs. truth G m c)"
  by (auto simp: mkAnd_vector_def truth_AND length_Suc_conv)

lemma truth_mkOr_vector [simp]:
  "cs \<noteq> [] \<Longrightarrow> truth G m (mkOr_vector cs) \<longleftrightarrow> (\<exists>c\<in>set cs. truth G m c)"
  by (auto simp: mkOr_vector_def truth_OR length_Suc_conv)

lemma boolish_ITE: "boolish G m a \<Longrightarrow> boolish G m b \<Longrightarrow> boolish G m (mkNode K_ITE [c, a, b])"
  by (simp add: boolish_def)

lemma boolish_EQUAL: "boolish G m a \<Longrightarrow> boolish G m (mkNode K_EQUAL [a, b])"
  by (cases "eval G m a") (simp_all add: boolish_def)

lemma boolish_gates [simp]:
  "boolish G m mkTrue" "boolish G m mkFalse" "boolish G m (mkNot a)" "boolish G m (mkOr a b)"
  "boolish G m (mkOr_array [a, b])" "boolish G m (mkAnd a b)" "boolish G m (mkAnd_array [a, b])"
  "boolish G m (mkXor a b)"
  "boolish G m a \<Longrightarrow> boolish G m b \<Longrightarrow> boolish G m (mkIte c a b)"
  "boolish G m a \<Longrightarrow> boolish G m (mkIff a b)"
  by (simp_all add: mkTrue_def mkFalse_def mkNot_def mkOr_def mkOr_array_def mkAnd_def
      mkAnd_array_def mkXor_def boolish_ITE boolish_EQUAL mkIte_def mkIff_def)

lemma boolish_mkAnd_vector [simp]: "bools G m cs \<Longrightarrow> cs \<noteq> [] \<Longrightarrow> boolish G m (mkAnd_vector cs)"
  by (auto simp: mkAnd_vector_def bools_def length_Suc_conv)

lemma bools_simps [simp]:
  "bools G m []" "bools G m (b # bs) \<longleftrightarrow> boolish G m b \<and> bools G m bs"
  "bools G m (xs @ ys) \<longleftrightarrow> bools G m xs \<and> bools G m ys"
  by (auto simp: bools_def)

lemma bools_nth: "bools G m bs \<Longrightarrow> i < length bs \<Longrightarrow> boolish G m (bs ! i)"
  by (simp add: bools_def)

lemma bits_val_bounds: "0 \<le> bits_val G m bits" "bits_val G m bits < 2 ^ length bits"
  using bval_less [of "map (truth G m) bits"] by (simp_all add: bits_val_def)

lemma bits_val_simps [simp]:
  "bits_val G m [] = 0" "bits_val G m (b # bs) = of_bool (truth G m b) + 2 * bits_val G m bs"
  by (simp_all add: bits_val_def)

lemma bits_val_append: "bits_val G m (xs @ ys) = bits_val G m xs + 2 ^ length xs * bits_val G m ys"
  by (simp add: bits_val_def bval_append)

lemma bit_bits_val: "bit (bits_val G m bits) i \<longleftrightarrow> i < length bits \<and> truth G m (bits ! i)"
  by (auto simp: bits_val_def bit_bval_iff)

lemma bits_val_eqI:
  assumes "length bits = n" "\<And>i. i < n \<Longrightarrow> truth G m (bits ! i) \<longleftrightarrow> bit x i"
  shows "bits_val G m bits = take_bit n x"
  by (rule bit_eqI) (use assms in \<open>auto simp: bit_bits_val bit_take_bit_iff\<close>)

section \<open>What the vector operations denote\<close>

lemma length_vectors [simp]:
  "length (negateBits bs) = length bs" "length (rshift bs k) = length bs"
  "length (lshift bs k) = length bs" "length (makeZero n) = n"
  "length (extractBits bs lo hi) = hi + 1 - lo"
  by (simp_all add: negateBits_def rshift_def lshift_def makeZero_def extractBits_def del: upt_Suc)

lemma bools_vectors [simp]:
  "bools G m (negateBits bs)" "bools G m (makeZero n)"
  "bools G m bs \<Longrightarrow> bools G m (rshift bs k)" "bools G m bs \<Longrightarrow> bools G m (lshift bs k)"
  "bools G m bs \<Longrightarrow> hi < length bs \<Longrightarrow> bools G m (extractBits bs lo hi)"
  by (auto simp: negateBits_def makeZero_def rshift_def lshift_def extractBits_def bools_def)

lemma val_negateBits: "bits_val G m (negateBits bs) = 2 ^ length bs - 1 - bits_val G m bs"
  by (induction bs) (simp_all add: negateBits_def)

lemma val_makeZero [simp]: "bits_val G m (makeZero n) = 0"
  using bits_val_eqI [of "makeZero n" n G m 0] by (simp add: makeZero_def)

lemma val_isZero: "isZero bs \<Longrightarrow> bits_val G m bs = 0"
  by (induction bs) (simp_all add: isZero_def)

lemma val_rshift: "bits_val G m (rshift bs k) = drop_bit k (bits_val G m bs)"
  by (rule bit_eqI) (auto simp: bit_bits_val bit_drop_bit_eq rshift_def add.commute split: if_splits)

lemma val_lshift: "bits_val G m (lshift bs k) = take_bit (length bs) (push_bit k (bits_val G m bs))"
  by (rule bits_val_eqI) (auto simp: bit_bits_val bit_push_bit_iff lshift_def)

lemma val_extractBits:
  assumes "hi < length bs" "lo \<le> hi"
  shows "bits_val G m (extractBits bs lo hi) = take_bit (hi - lo + 1) (drop_bit lo (bits_val G m bs))"
  using assms
  by (intro bits_val_eqI) (auto simp: extractBits_def bit_bits_val bit_drop_bit_eq simp del: upt_Suc)

section \<open>The adder\<close>

lemma length_rippleCarryAdder [simp]:
  "length a = length b \<Longrightarrow> length (fst (rippleCarryAdder a b c)) = length a"
  by (induction a b c rule: rippleCarryAdder.induct) (auto simp: Let_def split: prod.splits)

lemma bools_rippleCarryAdder [simp]: "bools G m (fst (rippleCarryAdder a b c))"
  by (induction a b c rule: rippleCarryAdder.induct) (auto simp: Let_def split: prod.splits)

lemma boolish_carry:
  "boolish G m c \<Longrightarrow> boolish G m (snd (rippleCarryAdder a b c))"
  by (induction a b c rule: rippleCarryAdder.induct) (auto simp: Let_def split: prod.splits)

lemma full_adder:
  "of_bool ((x \<noteq> y) \<noteq> c) + 2 * of_bool (x \<and> y \<or> (x \<noteq> y) \<and> c) =
    (of_bool x + of_bool y + of_bool c :: int)"
  by (cases x; cases y; cases c) simp_all

lemma rippleCarryAdder_sum:
  assumes "length a = length b"
  shows "bits_val G m (fst (rippleCarryAdder a b c))
      + 2 ^ length a * of_bool (truth G m (snd (rippleCarryAdder a b c)))
    = bits_val G m a + bits_val G m b + of_bool (truth G m c)"
  using assms
proof (induction a b arbitrary: c rule: list_induct2)
  case (Cons x xs y ys)
  define c' where "c' = mkOr_array [mkAnd x y, mkAnd (mkXor x y) c]"
  obtain res co where rec: "rippleCarryAdder xs ys c' = (res, co)"
    by fastforce
  have "of_bool (truth G m (mkXor (mkXor x y) c)) + 2 * of_bool (truth G m c') =
      (of_bool (truth G m x) + of_bool (truth G m y) + of_bool (truth G m c) :: int)"
    using full_adder [of "truth G m x" "truth G m y" "truth G m c"] by (simp add: c'_def)
  moreover have "bits_val G m res + 2 ^ length xs * of_bool (truth G m co) =
      bits_val G m xs + bits_val G m ys + of_bool (truth G m c')"
    using Cons.IH [of c'] rec by simp
  moreover have "rippleCarryAdder (x # xs) (y # ys) c = (mkXor (mkXor x y) c # res, co)"
    using rec by (simp add: Let_def c'_def)
  ultimately show ?case
    by (simp del: truth_gates)
qed simp

lemma rippleCarryAdder_val:
  assumes "length a = length b"
  shows "bits_val G m (fst (rippleCarryAdder a b c)) =
      take_bit (length a) (bits_val G m a + bits_val G m b + of_bool (truth G m c))"
    "truth G m (snd (rippleCarryAdder a b c)) \<longleftrightarrow>
      2 ^ length a \<le> bits_val G m a + bits_val G m b + of_bool (truth G m c)"
proof -
  let ?s = "bits_val G m (fst (rippleCarryAdder a b c))"
  note sum = rippleCarryAdder_sum [OF assms, of G m c]
  have s: "0 \<le> ?s" "?s < 2 ^ length a"
    using bits_val_bounds [of G m "fst (rippleCarryAdder a b c)"] assms by auto
  have "take_bit (length a) (bits_val G m a + bits_val G m b + of_bool (truth G m c)) =
      take_bit (length a) ?s"
    unfolding sum [symmetric] by (simp add: take_bit_eq_mod)
  then show "?s = take_bit (length a) (bits_val G m a + bits_val G m b + of_bool (truth G m c))"
    using s by (simp add: take_bit_int_eq_self)
  show "truth G m (snd (rippleCarryAdder a b c)) \<longleftrightarrow>
      2 ^ length a \<le> bits_val G m a + bits_val G m b + of_bool (truth G m c)"
    using sum s by (cases "truth G m (snd (rippleCarryAdder a b c))") auto
qed

section \<open>The multiplier\<close>

text \<open>A row of the multiplier is the adder on the upper part of the partial sums.\<close>

lemma foldl_mult_step:
  assumes "length ps = j + k" "length as = length xs" "\<And>i. i < length xs \<Longrightarrow> a ! (j + i) = as ! i"
  shows "foldl (mult_step k a b) (ps @ xs, c) [j..<j + length xs] =
    (ps @ fst (rippleCarryAdder xs (map (mkAnd (b ! k)) as) c),
     snd (rippleCarryAdder xs (map (mkAnd (b ! k)) as) c))"
  using assms
proof (induction xs arbitrary: ps j as c)
  case Nil
  then show ?case by simp
next
  case (Cons x xs)
  obtain y ys where as: "as = y # ys" "length ys = length xs"
    using Cons.prems(2) by (cases as) auto
  have aj: "a ! j = y"
    using Cons.prems(3) [of 0] as by simp
  define s where "s = mkXor (mkXor x (mkAnd (b ! k) y)) c"
  define c' where "c' = mkOr_array [mkAnd x (mkAnd (b ! k) y), mkAnd (mkXor x (mkAnd (b ! k) y)) c]"
  have step: "mult_step k a b (ps @ x # xs, c) j = ((ps @ [s]) @ xs, c')"
    using Cons.prems(1) aj by (simp add: mult_step_def Let_def s_def c'_def nth_append list_update_append)
  have ys: "a ! (Suc j + i) = ys ! i" if "i < length xs" for i
    using Cons.prems(3) [of "Suc i"] that as by simp
  have upt: "[j..<j + length (x # xs)] = j # [Suc j..<Suc j + length xs]"
    using upt_conv_Cons [of j "Suc (j + length xs)"] by (simp del: upt_Suc)
  have "foldl (mult_step k a b) (ps @ x # xs, c) [j..<j + length (x # xs)] =
      foldl (mult_step k a b) ((ps @ [s]) @ xs, c') [Suc j..<Suc j + length xs]"
    unfolding upt by (simp only: foldl_Cons step)
  also have "\<dots> = ((ps @ [s]) @ fst (rippleCarryAdder xs (map (mkAnd (b ! k)) ys) c'),
     snd (rippleCarryAdder xs (map (mkAnd (b ! k)) ys) c'))"
    using Cons.prems(1) as(2) by (intro Cons.IH ys) simp_all
  finally show ?case
    by (simp add: as Let_def s_def c'_def split: prod.splits)
qed

definition mult_row :: "nat \<Rightarrow> node list \<Rightarrow> node list \<Rightarrow> node list \<Rightarrow> node list" where
  "mult_row k a b res =
     take k res @ fst (rippleCarryAdder (drop k res) (map (mkAnd (b ! k)) (take (length res - k) a)) mkFalse)"

lemma mult_row_eq:
  assumes "k \<le> length res" "length a = length res"
  shows "fst (foldl (mult_step k a b) (res, mkFalse) [0..<length res - k]) = mult_row k a b res"
  using foldl_mult_step [of "take k res" 0 k "take (length res - k) a" "drop k res" a b mkFalse] assms
  by (simp add: mult_row_def)

lemma val_map_mkAnd:
  "bits_val G m (map (mkAnd c) a) = of_bool (truth G m c) * bits_val G m a"
  by (induction a) auto

lemma val_take: "bits_val G m (take k a) = take_bit k (bits_val G m a)"
  by (rule bit_eqI) (auto simp: bit_bits_val bit_take_bit_iff)

lemma val_drop: "bits_val G m (drop k a) = drop_bit k (bits_val G m a)"
  by (rule bit_eqI) (auto simp: bit_bits_val bit_drop_bit_eq)

lemma take_bit_split:
  fixes l x :: int
  assumes "0 \<le> l" "l < 2 ^ k" "k \<le> n"
  shows "take_bit n (l + 2 ^ k * x) = l + 2 ^ k * take_bit (n - k) x"
proof -
  have n: "(2 ^ n :: int) = 2 ^ k * 2 ^ (n - k)"
    using assms(3) by (simp add: power_add [symmetric])
  have "(l + 2 ^ k * x) div 2 ^ k = x" "(l + 2 ^ k * x) mod 2 ^ k = l"
    using assms by simp_all
  then show ?thesis
    by (simp add: take_bit_eq_mod n zmod_zmult2_eq)
qed

lemma val_mult_row:
  assumes "k \<le> length res" "length a = length res"
  shows "bits_val G m (mult_row k a b res) =
    take_bit (length res) (bits_val G m res + of_bool (truth G m (b ! k)) * bits_val G m a * 2 ^ k)"
proof -
  define n where "n = length res"
  define R A t where "R = bits_val G m res" and "A = bits_val G m a"
    and "t = (of_bool (truth G m (b ! k)) :: int)"
  have "length (drop k res) = length (map (mkAnd (b ! k)) (take (n - k) a))"
    using assms by (simp add: n_def)
  from rippleCarryAdder_val(1) [OF this, of G m mkFalse]
  have "bits_val G m (mult_row k a b res) =
      take_bit k R + 2 ^ k * take_bit (n - k) (drop_bit k R + t * take_bit (n - k) A)"
    using assms by (simp add: mult_row_def bits_val_append val_map_mkAnd val_take
        val_drop n_def R_def A_def t_def min_def)
  also have "take_bit (n - k) (drop_bit k R + t * take_bit (n - k) A) =
      take_bit (n - k) (drop_bit k R + t * A)"
    unfolding take_bit_eq_mod by (metis mod_add_right_eq mod_mult_right_eq)
  also have "take_bit k R + 2 ^ k * \<dots> = take_bit n (take_bit k R + 2 ^ k * (drop_bit k R + t * A))"
    using assms by (subst take_bit_split) (simp_all add: n_def)
  also have "take_bit k R + 2 ^ k * (drop_bit k R + t * A) = R + t * A * 2 ^ k"
    by (simp add: algebra_simps take_bit_eq_mod drop_bit_eq_div)
  finally show ?thesis
    by (simp add: n_def R_def A_def t_def)
qed

lemma length_mult_row [simp]:
  "k \<le> length res \<Longrightarrow> length a = length res \<Longrightarrow> length (mult_row k a b res) = length res"
  by (simp add: mult_row_def)

lemma bools_mult_row: "bools G m res \<Longrightarrow> bools G m (mult_row k a b res)"
  by (auto simp: mult_row_def bools_def dest: in_set_takeD)
    (metis bools_def bools_rippleCarryAdder)

lemma foldl_mult_row:
  assumes "length a = n" "length b = n" "k \<le> n" "0 < k"
  defines "res \<equiv> foldl (\<lambda>res k. fst (foldl (mult_step k a b) (res, mkFalse) [0..<length res - k]))
    (map (\<lambda>ai. mkAnd (b ! 0) ai) a) [1..<k]"
  shows "length res = n \<and> bools G m res
    \<and> bits_val G m res = take_bit n (bits_val G m a * bits_val G m (take k b))"
  using assms(3,4) unfolding res_def
proof (induction k)
  case 0
  then show ?case by simp
next
  case (Suc k)
  show ?case
  proof (cases "k = 0")
    case True
    then have "take (Suc k) b = [b ! 0]"
      using Suc.prems assms(2) by (cases b) auto
    moreover have "bits_val G m a < 2 ^ n"
      using bits_val_bounds(2) [of G m a] assms(1) by simp
    ultimately show ?thesis
      using True assms(1) val_map_mkAnd [of G m "b ! 0" a]
      by (auto simp: bools_def take_bit_int_eq_self bits_val_bounds)
  next
    case False
    let ?row = "\<lambda>res k. fst (foldl (mult_step k a b) (res, mkFalse) [0..<length res - k])"
    define r where "r = foldl ?row (map (\<lambda>ai. mkAnd (b ! 0) ai) a) [1..<k]"
    have IH: "length r = n" "bools G m r"
      "bits_val G m r = take_bit n (bits_val G m a * bits_val G m (take k b))"
      using Suc False by (auto simp: r_def)
    have k: "k \<le> length r" "length a = length r"
      using Suc.prems IH(1) assms(1) by simp_all
    have "foldl ?row (map (\<lambda>ai. mkAnd (b ! 0) ai) a) [1..<Suc k] = ?row r k"
      using False by (simp add: upt_Suc_append r_def)
    then have step: "foldl ?row (map (\<lambda>ai. mkAnd (b ! 0) ai) a) [1..<Suc k] = mult_row k a b r"
      by (simp only: mult_row_eq [OF k])
    have tk: "take (Suc k) b = take k b @ [b ! k]" "length (take k b) = k"
      using Suc.prems assms(2) by (simp_all add: take_Suc_conv_app_nth)
    have "bits_val G m (mult_row k a b r) = take_bit n (take_bit n (bits_val G m a * bits_val G m (take k b))
        + of_bool (truth G m (b ! k)) * bits_val G m a * 2 ^ k)"
      unfolding val_mult_row [OF k] IH(1) IH(3) ..
    also have "\<dots> = take_bit n (bits_val G m a * bits_val G m (take k b)
        + of_bool (truth G m (b ! k)) * bits_val G m a * 2 ^ k)"
      by (simp only: take_bit_eq_mod mod_simps)
    also have "\<dots> = take_bit n (bits_val G m a * bits_val G m (take (Suc k) b))"
      unfolding tk(1) bits_val_append tk(2) by (simp add: distrib_left mult_ac)
    finally show ?thesis
      unfolding step using bools_mult_row [OF IH(2)] length_mult_row [OF k] IH(1) by simp
  qed
qed

lemma shiftAddMultiplier_val:
  assumes "length a = length b" "b \<noteq> []"
  shows "length (shiftAddMultiplier a b) = length a" "bools G m (shiftAddMultiplier a b)"
    "bits_val G m (shiftAddMultiplier a b) = take_bit (length a) (bits_val G m a * bits_val G m b)"
proof -
  have "0 < length a"
    using assms by simp
  note res = foldl_mult_row [OF refl assms(1) [symmetric] order_refl this, of G m,
      folded shiftAddMultiplier_def]
  show "length (shiftAddMultiplier a b) = length a" "bools G m (shiftAddMultiplier a b)"
    "bits_val G m (shiftAddMultiplier a b) = take_bit (length a) (bits_val G m a * bits_val G m b)"
    using res unfolding assms(1) by simp_all
qed

section \<open>The comparators\<close>

lemma foldl_uless:
  assumes "bools G m a" "length a = length b" "0 < k" "k \<le> length a"
    "truth G m r \<longleftrightarrow> (if e then bits_val G m (take 1 a) \<le> bits_val G m (take 1 b)
       else bits_val G m (take 1 a) < bits_val G m (take 1 b))"
  shows "truth G m (foldl (\<lambda>res i. mkOr_array [mkAnd (mkIff (a ! i) (b ! i)) res, mkAnd (mkNot (a ! i)) (b ! i)])
      r [1..<k]) \<longleftrightarrow>
    (if e then bits_val G m (take k a) \<le> bits_val G m (take k b)
     else bits_val G m (take k a) < bits_val G m (take k b))"
  using assms(3,4)
proof (induction k)
  case 0
  then show ?case by simp
next
  case (Suc k)
  show ?case
  proof (cases "k = 0")
    case True
    with assms(5) show ?thesis by simp
  next
    case False
    have tk: "take (Suc k) a = take k a @ [a ! k]" "take (Suc k) b = take k b @ [b ! k]"
      using Suc.prems assms(2) by (simp_all add: take_Suc_conv_app_nth)
    have l: "length (take k a) = k" "length (take k b) = k"
      using Suc.prems assms(2) by simp_all
    have bk: "boolish G m (a ! k)"
      using assms(1) Suc.prems by (simp add: bools_nth)
    show ?thesis
      using Suc False bk bits_val_bounds [of G m "take k a"] bits_val_bounds [of G m "take k b"]
      unfolding tk bits_val_append l
      by (auto simp: upt_Suc_append)
  qed
qed

lemma uLessThanBB_truth:
  assumes "bools G m a" "length a = length b" "a \<noteq> []"
  shows "truth G m (uLessThanBB a b e) \<longleftrightarrow>
    (if e then bits_val G m a \<le> bits_val G m b else bits_val G m a < bits_val G m b)"
proof -
  define r where "r = (let res0 = mkAnd (mkNot (a ! 0)) (b ! 0)
    in if e then mkOr res0 (mkIff (a ! 0) (b ! 0)) else res0)"
  have "truth G m r \<longleftrightarrow> (if e then bits_val G m (take 1 a) \<le> bits_val G m (take 1 b)
       else bits_val G m (take 1 a) < bits_val G m (take 1 b))"
    using assms by (cases a; cases b) (auto simp: r_def)
  moreover have "0 < length a"
    using assms(3) by simp
  ultimately show ?thesis
    using foldl_uless [OF assms(1,2) _ order_refl, of r e] assms(2)
    by (simp add: uLessThanBB_def Let_def r_def)
qed

lemma boolish_uLessThanBB: "boolish G m (uLessThanBB a b e)"
proof -
  have "boolish G m r \<Longrightarrow> boolish G m (foldl (\<lambda>res i. mkOr_array [mkAnd (mkIff (a ! i) (b ! i)) res,
      mkAnd (mkNot (a ! i)) (b ! i)]) r is)" for r "is"
    by (induction "is" arbitrary: r) simp_all
  then show ?thesis
    by (simp add: uLessThanBB_def Let_def)
qed

definition signed_val :: "gmp \<Rightarrow> model \<Rightarrow> node list \<Rightarrow> int" where
  "signed_val G m bits = signed_take_bit (length bits - 1) (bits_val G m bits)"

lemma signed_val_split:
  assumes "length a = Suc n"
  shows "signed_val G m a = bits_val G m (take n a) - 2 ^ n * of_bool (truth G m (a ! n))"
  using assms
  by (simp add: signed_val_def signed_take_bit_eq_take_bit_minus val_take bit_bits_val
      take_bit_Suc_from_most)

lemma sLessThanBB_truth:
  assumes "bools G m a" "length a = length b" "a \<noteq> []"
  shows "truth G m (sLessThanBB a b e) \<longleftrightarrow>
    (if e then signed_val G m a \<le> signed_val G m b else signed_val G m a < signed_val G m b)"
proof -
  obtain n where n: "length a = Suc n" "length b = Suc n"
    using assms(2,3) by (cases a) auto
  have an: "boolish G m (a ! n)"
    using assms(1) n by (simp add: bools_nth)
  show ?thesis
  proof (cases "n = 0")
    case True
    with n an show ?thesis
      by (auto simp: sLessThanBB_def signed_val_split [OF n(1)] signed_val_split [OF n(2)])
  next
    case False
    have ext: "extractBits a 0 (n - 1) = take n a" "extractBits b 0 (n - 1) = take n b"
      using n False by (auto simp: extractBits_def intro!: nth_equalityI)
    have "bools G m (take n a)"
      using assms(1) by (auto simp: bools_def dest: in_set_takeD)
    then have "truth G m (uLessThanBB (take n a) (take n b) e) \<longleftrightarrow>
        (if e then bits_val G m (take n a) \<le> bits_val G m (take n b)
         else bits_val G m (take n a) < bits_val G m (take n b))"
      using n False by (intro uLessThanBB_truth) auto
    with ext an n False show ?thesis
      using bits_val_bounds [of G m "take n a"] bits_val_bounds [of G m "take n b"]
      by (auto simp: sLessThanBB_def Let_def signed_val_split [OF n(1)] signed_val_split [OF n(2)])
  qed
qed

lemma boolish_sLessThanBB: "boolish G m (sLessThanBB a b e)"
  by (simp add: sLessThanBB_def Let_def)

end
