(* ===== verification/Bitblast_Division.thy ===== *)
theory Bitblast_Division
  imports Bitblast_Utils
begin

text \<open>
  The circuits of \<^verbatim>\<open>src/src/theory/bv/bitblast/bitblast_strategies_template.h\<close> that the strategies
  of division and of the shifts are built from: the recursive divider \<^verbatim>\<open>uDivModRec\<close> with the
  correction for a zero divisor, and the barrel shifters.  Each is shown to compute the number the
  operation denotes.
\<close>

section \<open>The divider\<close>

fun uDivModRec :: "node list \<Rightarrow> node list \<Rightarrow> nat \<Rightarrow> node list \<times> node list" where
  "uDivModRec a b 0 = (makeZero (length a), makeZero (length a))"
| "uDivModRec a b (Suc rec_width) =
     (if isZero a then (makeZero (length a), makeZero (length a))
      else
        let a1 = rshift a 1;
            (q', r') = uDivModRec a1 b rec_width;
            q1 = lshift q' 1;
            r1 = lshift r' 1;
            is_odd = mkIff (a ! 0) mkTrue;
            one_if_odd = mkIte is_odd mkTrue mkFalse;
            zero = makeZero (length b);
            r1_shift_add = fst (rippleCarryAdder r1 zero one_if_odd);
            not_b = negateBits b;
            (r_minus_b, co1) = rippleCarryAdder r1_shift_add not_b mkTrue;
            sign = mkNot co1;
            q2 = q1[0 := mkIte sign (q1 ! 0) mkTrue];
            r2 = map (\<lambda>i. mkIte sign (r1_shift_add ! i) (r_minus_b ! i)) [0..<length a];
            (a_minus_b, co2) = rippleCarryAdder a not_b mkTrue;
            a_lt_b = mkNot co2
        in (map (\<lambda>i. mkIte a_lt_b mkFalse (q2 ! i)) [0..<length a],
            map (\<lambda>i. mkIte a_lt_b (a ! i) (r2 ! i)) [0..<length a]))"

text \<open>The correction of \<^verbatim>\<open>UdivUremBB\<close> for a divisor that is zero.\<close>

definition udiv_urem_zero ::
  "node list \<Rightarrow> node list \<Rightarrow> node list \<times> node list \<Rightarrow> node list \<times> node list" where
  "udiv_urem_zero a b qr =
     (let (quot, rem) = qr;
          iszero = map (\<lambda>bi. mkIff bi mkFalse) b;
          b_is_0 = mkAnd_vector iszero
      in (map (\<lambda>i. mkIte b_is_0 mkTrue (quot ! i)) [0..<length quot],
          map (\<lambda>i. mkIte b_is_0 (a ! i) (rem ! i)) [0..<length quot]))"

section \<open>The barrel shifters\<close>

text \<open>One stage of each shifter: shift by \<open>2 ^ s\<close> when the bit \<open>s\<close> of the amount is set.\<close>

definition shl_stage :: "node list \<Rightarrow> node list \<Rightarrow> nat \<Rightarrow> node list" where
  "shl_stage b prev_res s =
     (let threshold = 2 ^ s
      in map (\<lambda>i. if i < threshold then mkIte (b ! s) mkFalse (prev_res ! i)
                  else mkIte (b ! s) (prev_res ! (i - threshold)) (prev_res ! i))
           [0..<length prev_res])"

definition lshr_stage :: "node list \<Rightarrow> node list \<Rightarrow> nat \<Rightarrow> node list" where
  "lshr_stage b prev_res s =
     (let threshold = 2 ^ s
      in map (\<lambda>i. if i + threshold \<ge> length prev_res then mkIte (b ! s) mkFalse (prev_res ! i)
                  else mkIte (mkNot (b ! s)) (prev_res ! i) (prev_res ! (i + threshold)))
           [0..<length prev_res])"

definition ashr_stage :: "node list \<Rightarrow> node \<Rightarrow> node list \<Rightarrow> nat \<Rightarrow> node list" where
  "ashr_stage b sign_bit prev_res s =
     (let threshold = 2 ^ s
      in map (\<lambda>i. if i + threshold \<ge> length prev_res then mkIte (b ! s) sign_bit (prev_res ! i)
                  else mkIte (mkNot (b ! s)) (prev_res ! i) (prev_res ! (i + threshold)))
           [0..<length prev_res])"

text \<open>
  The number of stages is \<^verbatim>\<open>std::ceil(log2((double)size))\<close>; a 32-bit size is exact in a
  \<^verbatim>\<open>double\<close>, and the value is the least \<open>k\<close> with \<open>size \<le> 2 ^ k\<close>.
\<close>

definition log2_size :: "nat \<Rightarrow> nat" where
  "log2_size n = ceillog2 n"

section \<open>Vectors of multiplexers\<close>

lemma mux_val:
  assumes "length x = n" "length y = n"
  shows "bits_val G m (map (\<lambda>i. mkIte c (x ! i) (y ! i)) [0..<n]) =
    (if truth G m c then bits_val G m x else bits_val G m y)"
  by (rule bit_eqI) (use assms in \<open>auto simp: bit_bits_val\<close>)

lemma mux_false_val:
  assumes "length y = n"
  shows "bits_val G m (map (\<lambda>i. mkIte c mkFalse (y ! i)) [0..<n]) =
    (if truth G m c then 0 else bits_val G m y)"
  by (rule bit_eqI) (use assms in \<open>auto simp: bit_bits_val\<close>)

lemma mux_else_false_val:
  assumes "length y = n"
  shows "bits_val G m (map (\<lambda>i. mkIte c (y ! i) mkFalse) [0..<n]) =
    (if truth G m c then bits_val G m y else 0)"
  by (rule bit_eqI) (use assms in \<open>auto simp: bit_bits_val\<close>)

lemma mux_bools:
  assumes "\<And>i. i < n \<Longrightarrow> boolish G m (f i)" "\<And>i. i < n \<Longrightarrow> boolish G m (g i)"
  shows "bools G m (map (\<lambda>i. mkIte c (f i) (g i)) [0..<n])"
  using assms by (auto simp: bools_def)

section \<open>The divider divides\<close>

lemma div_step:
  fixes a b :: int
  assumes "0 < b" "0 \<le> a"
  defines "q \<equiv> (a div 2) div b" and "r \<equiv> (a div 2) mod b"
  shows "a div b = 2 * q + of_bool (b \<le> 2 * r + a mod 2)"
    "a mod b = 2 * r + a mod 2 - b * of_bool (b \<le> 2 * r + a mod 2)"
proof -
  define k :: int where "k = of_bool (b \<le> 2 * r + a mod 2)"
  have r: "0 \<le> r" "r < b"
    using assms(1) by (simp_all add: r_def)
  have "a div 2 = b * q + r"
    by (simp add: q_def r_def)
  then have a: "a = b * (2 * q + k) + (2 * r + a mod 2 - b * k)"
    using div_mult_mod_eq [of a 2] by (simp add: algebra_simps)
  moreover have "0 \<le> 2 * r + a mod 2 - b * k" "2 * r + a mod 2 - b * k < b"
    using r by (auto simp: k_def)
  ultimately have "a div b = 2 * q + k \<and> a mod b = 2 * r + a mod 2 - b * k"
    by (metis int_div_pos_eq int_mod_pos_eq)
  then show "a div b = 2 * q + of_bool (b \<le> 2 * r + a mod 2)"
    "a mod b = 2 * r + a mod 2 - b * of_bool (b \<le> 2 * r + a mod 2)"
    by (simp_all add: k_def)
qed

lemma val_double:
  assumes "2 * bits_val G m x < 2 ^ length x"
  shows "bits_val G m (lshift x 1) = 2 * bits_val G m x"
  using assms
  by (simp add: val_lshift push_bit_eq_mult mult.commute take_bit_int_eq_self bits_val_bounds)

lemma val_set_bit0:
  assumes "x \<noteq> []" "bits_val G m (lshift x 1) = v"
  shows "bits_val G m ((lshift x 1)[0 := mkIte s ((lshift x 1) ! 0) mkTrue]) =
    v + of_bool (\<not> truth G m s)"
  using assms by (cases x) (auto simp: lshift_def upt_conv_Cons simp del: upt_Suc)

lemma adder_minus:
  assumes "length x = length b" "bits_val G m b \<le> 2 ^ length b"
  shows "truth G m (snd (rippleCarryAdder x (negateBits b) mkTrue)) \<longleftrightarrow> bits_val G m b \<le> bits_val G m x"
    "bits_val G m b \<le> bits_val G m x \<Longrightarrow>
      bits_val G m (fst (rippleCarryAdder x (negateBits b) mkTrue)) = bits_val G m x - bits_val G m b"
proof -
  have len: "length x = length (negateBits b)"
    using assms(1) by simp
  note rca = rippleCarryAdder_val [OF len, of G m mkTrue]
  show "truth G m (snd (rippleCarryAdder x (negateBits b) mkTrue)) \<longleftrightarrow> bits_val G m b \<le> bits_val G m x"
    using rca(2) assms(1) by (auto simp: val_negateBits)
  assume le: "bits_val G m b \<le> bits_val G m x"
  have "bits_val G m x < 2 ^ length b"
    using bits_val_bounds(2) [of G m x] assms(1) by simp
  moreover have "take_bit (length b) (bits_val G m x - bits_val G m b + 2 ^ length b) =
      take_bit (length b) (bits_val G m x - bits_val G m b)"
    by (simp add: take_bit_eq_mod)
  ultimately show "bits_val G m (fst (rippleCarryAdder x (negateBits b) mkTrue)) =
      bits_val G m x - bits_val G m b"
    using rca(1) assms(1) le bits_val_bounds(1) [of G m b]
    by (simp add: val_negateBits take_bit_int_eq_self algebra_simps)
qed

lemma uDivModRec_val:
  assumes "length a = n" "length b = n" "bools G m a" "0 < bits_val G m b" "bits_val G m a < 2 ^ w"
    "uDivModRec a b w = (q, r)"
  shows "length q = n \<and> length r = n \<and> bools G m q \<and> bools G m r
    \<and> bits_val G m q = bits_val G m a div bits_val G m b
    \<and> bits_val G m r = bits_val G m a mod bits_val G m b"
  using assms(1,3,5,6)
proof (induction w arbitrary: a q r)
  case 0
  then have "bits_val G m a = 0"
    using bits_val_bounds(1) [of G m a] by simp
  with 0 show ?case by auto
next
  case (Suc w)
  show ?case
  proof (cases "isZero a")
    case True
    with Suc.prems val_isZero [OF True, of G m] show ?thesis by auto
  next
    case False
    define A B where "A = bits_val G m a" and "B = bits_val G m b"
    have B: "0 < B" "B < 2 ^ n" and A: "0 \<le> A" "A < 2 ^ n"
      using assms(2,4) Suc.prems(1) bits_val_bounds [of G m b] bits_val_bounds [of G m a]
      by (simp_all add: A_def B_def)
    have npos: "0 < n" "a \<noteq> []"
      using B Suc.prems(1) by (cases n; auto)+
    obtain q' r' where rec: "uDivModRec (rshift a 1) b w = (q', r')"
      by fastforce
    have A1: "bits_val G m (rshift a 1) = A div 2"
      by (simp add: val_rshift A_def drop_bit_eq_div)
    have IH: "length q' = n" "length r' = n" "bools G m q'" "bools G m r'"
      "bits_val G m q' = (A div 2) div B" "bits_val G m r' = (A div 2) mod B"
      using Suc.IH [of "rshift a 1" q' r'] rec A1 Suc.prems(1,2,3)
      by (simp_all add: B_def A_def [symmetric])
    have small: "2 * ((A div 2) div B) < 2 ^ n" "2 * ((A div 2) mod B) + A mod 2 < 2 ^ n"
    proof -
      have "(A div 2) div B \<le> A div 2" "(A div 2) mod B \<le> A div 2"
        using A B zdiv_mono2 [of "A div 2" 1 B] by (simp_all add: zmod_le_nonneg_dividend)
      then show "2 * ((A div 2) div B) < 2 ^ n" "2 * ((A div 2) mod B) + A mod 2 < 2 ^ n"
        using A(2) div_mult_mod_eq [of A 2] pos_mod_sign [of 2 A] by linarith+
    qed
    have q1: "bits_val G m (lshift q' 1) = 2 * ((A div 2) div B)"
      using val_double [of G m q'] IH small by simp
    have "2 * ((A div 2) mod B) < 2 ^ n"
      using small(2) by (smt (verit) mod_2_eq_odd of_bool_def)
    then have r1: "bits_val G m (lshift r' 1) = 2 * ((A div 2) mod B)"
      using val_double [of G m r'] IH by simp
    define odd_bit where "odd_bit = mkIte (mkIff (a ! 0) mkTrue) mkTrue mkFalse"
    have "boolish G m (a ! 0)"
      using Suc.prems(2) npos by (simp add: bools_nth)
    then have odd: "(of_bool (truth G m odd_bit) :: int) = A mod 2"
      using npos(2) by (cases a) (simp_all add: odd_bit_def A_def mod_2_eq_odd)
    define rs where "rs = fst (rippleCarryAdder (lshift r' 1) (makeZero (length b)) odd_bit)"
    have rs: "length rs = n" "bits_val G m rs = 2 * ((A div 2) mod B) + A mod 2" "bools G m rs"
      using IH(2) assms(2) small(2) r1 odd B A
        rippleCarryAdder_val(1) [of "lshift r' 1" "makeZero (length b)" G m odd_bit]
      by (simp_all add: rs_def take_bit_int_eq_self)
    define S where "S \<longleftrightarrow> \<not> B \<le> 2 * ((A div 2) mod B) + A mod 2"
    obtain rmb co1 where d1: "rippleCarryAdder rs (negateBits b) mkTrue = (rmb, co1)"
      by fastforce
    obtain amb co2 where d2: "rippleCarryAdder a (negateBits b) mkTrue = (amb, co2)"
      by fastforce
    have rmb: "length rmb = n" "bools G m rmb"
      using d1 rs(1) assms(2) length_rippleCarryAdder [of rs "negateBits b" mkTrue]
        bools_rippleCarryAdder [of G m rs "negateBits b" mkTrue] by simp_all
    have co1: "truth G m co1 \<longleftrightarrow> \<not> S"
      and rmb_val: "\<not> S \<Longrightarrow> bits_val G m rmb = 2 * ((A div 2) mod B) + A mod 2 - B"
      using adder_minus [of rs b G m] d1 rs assms(2) B(2) by (simp_all add: S_def B_def)
    have co2: "truth G m co2 \<longleftrightarrow> B \<le> A"
      using adder_minus(1) [of a b G m] d2 Suc.prems(1) assms(2) B(2) by (simp add: A_def B_def)
    define q2 where "q2 = (lshift q' 1)[0 := mkIte (mkNot co1) (lshift q' 1 ! 0) mkTrue]"
    define r2 where "r2 = map (\<lambda>i. mkIte (mkNot co1) (rs ! i) (rmb ! i)) [0..<n]"
    have q2: "length q2 = n" "bits_val G m q2 = A div B"
      using val_set_bit0 [OF _ q1, of "mkNot co1"] IH(1) npos co1 div_step(1) [OF B(1) A(1)]
      by (auto simp: q2_def S_def)
    have r2: "length r2 = n" "bits_val G m r2 = A mod B"
      using mux_val [OF rs(1) rmb(1), of G m "mkNot co1"] co1 rmb_val rs(2)
        div_step(2) [OF B(1) A(1)] by (auto simp: r2_def S_def)
    have b2: "bools G m q2" "bools G m r2"
    proof -
      have "bools G m (lshift q' 1)"
        using IH(3) by simp
      then show "bools G m q2"
        using npos IH(1) set_update_subset_insert [of "lshift q' 1" 0]
        by (fastforce simp: q2_def bools_def bools_nth)
      show "bools G m r2"
        using rs rmb by (auto simp: r2_def bools_nth intro!: mux_bools)
    qed
    have qr: "q = map (\<lambda>i. mkIte (mkNot co2) mkFalse (q2 ! i)) [0..<n]"
      "r = map (\<lambda>i. mkIte (mkNot co2) (a ! i) (r2 ! i)) [0..<n]"
      using Suc.prems(1,4) False rec d1 [unfolded rs_def] d2
      by (simp_all add: Let_def odd_bit_def [symmetric] q2_def r2_def rs_def)
    have "\<not> B \<le> A \<Longrightarrow> A div B = 0 \<and> A mod B = A"
      using A B by simp
    then show ?thesis
      using qr mux_false_val [OF q2(1), of G m "mkNot co2"] mux_val [OF Suc.prems(1) r2(1), of G m "mkNot co2"]
        co2 q2 r2 b2 Suc.prems(1,2)
      by (auto simp: A_def [symmetric] B_def [symmetric] bools_nth intro!: mux_bools)
  qed
qed

lemma uDivModRec_shape:
  assumes "length a = n" "length b = n" "bools G m a" "uDivModRec a b w = (q, r)"
  shows "length q = n \<and> length r = n \<and> bools G m q \<and> bools G m r"
  using assms(1,3,4)
proof (induction w arbitrary: a q r)
  case (Suc w)
  obtain q' r' where rec: "uDivModRec (rshift a (Suc 0)) b w = (q', r')"
    by fastforce
  have IH: "length q' = n" "length r' = n" "bools G m q'" "bools G m r'"
    using Suc.IH [of "rshift a (Suc 0)" q' r'] rec Suc.prems by simp_all
  obtain rs c where rs: "rippleCarryAdder (lshift r' (Suc 0)) (makeZero (length b))
      (mkIte (mkIff (a ! 0) mkTrue) mkTrue mkFalse) = (rs, c)" by fastforce
  obtain rmb co1 where d1: "rippleCarryAdder rs (negateBits b) mkTrue = (rmb, co1)"
    by fastforce
  obtain amb co2 where d2: "rippleCarryAdder a (negateBits b) mkTrue = (amb, co2)"
    by fastforce
  have lb: "length rs = n" "bools G m rs" "length rmb = n" "bools G m rmb"
    using rs d1 IH(2) assms(2) length_rippleCarryAdder [of "lshift r' (Suc 0)" "makeZero (length b)"]
      length_rippleCarryAdder [of rs "negateBits b" mkTrue] bools_rippleCarryAdder
    by (metis fst_conv length_vectors(1,3,4))+
  have "bools G m (lshift q' (Suc 0))"
    using IH(3) by simp
  then have "boolish G m ((lshift q' (Suc 0))[0 := mkIte (mkNot co1) (lshift q' (Suc 0) ! 0) mkTrue] ! i)"
    if "i < n" for i
    using that IH(1) by (cases "i = 0") (simp_all add: bools_nth)
  then show ?case
    using Suc.prems rec rs d1 d2 lb by (auto simp: Let_def bools_nth intro!: mux_bools split: if_splits)
qed auto

lemma udiv_urem_val:
  assumes "length a = n" "length b = n" "0 < n" "bools G m a" "bools G m b"
    "udiv_urem_zero a b (uDivModRec a b n) = (q, r)"
  shows "length q = n" "length r = n" "bools G m q" "bools G m r"
    "bits_val G m q = (if bits_val G m b = 0 then 2 ^ n - 1 else bits_val G m a div bits_val G m b)"
    "bits_val G m r = bits_val G m a mod bits_val G m b"
proof -
  obtain q' r' where qr': "uDivModRec a b n = (q', r')"
    by fastforce
  define z where "z = mkAnd_vector (map (\<lambda>bi. mkIff bi mkFalse) b)"
  note shape = uDivModRec_shape [OF assms(1,2,4) qr']
  have qr: "q = map (\<lambda>i. mkIte z mkTrue (q' ! i)) [0..<n]" "r = map (\<lambda>i. mkIte z (a ! i) (r' ! i)) [0..<n]"
    using assms(6) shape by (auto simp: udiv_urem_zero_def qr' Let_def z_def)
  show "length q = n" "length r = n" "bools G m q" "bools G m r"
    using qr shape assms(1,4) by (auto intro!: mux_bools simp: bools_nth)
  have "truth G m z \<longleftrightarrow> (\<forall>c\<in>set b. \<not> truth G m c)"
    using assms(2,3,5) by (auto simp: z_def bools_def)
  also have "\<dots> \<longleftrightarrow> bits_val G m b = 0"
  proof
    show "\<forall>c\<in>set b. \<not> truth G m c \<Longrightarrow> bits_val G m b = 0"
      by (induction b) auto
    show "bits_val G m b = 0 \<Longrightarrow> \<forall>c\<in>set b. \<not> truth G m c"
      by (metis bit_0_eq bit_bits_val bot_apply bot_bool_def in_set_conv_nth)
  qed
  finally have z: "truth G m z \<longleftrightarrow> bits_val G m b = 0" .
  have ones: "bits_val G m (map (\<lambda>i. mkTrue) [0..<n]) = 2 ^ n - 1" for n
    by (simp add: bits_val_def comp_def map_replicate_const bval_replicate_True)
  have "q = map (\<lambda>i. mkIte z (map (\<lambda>i. mkTrue) [0..<n] ! i) (q' ! i)) [0..<n]"
    unfolding qr(1) by (rule map_cong) auto
  then have q: "bits_val G m q = (if truth G m z then 2 ^ n - 1 else bits_val G m q')"
    using mux_val [of "map (\<lambda>i. mkTrue) [0..<n]" n q' G m z] shape ones [of n] by simp
  have r: "bits_val G m r = (if truth G m z then bits_val G m a else bits_val G m r')"
    using mux_val [OF assms(1), of r' G m z] shape qr(2) by simp
  have "bits_val G m a < 2 ^ n"
    using bits_val_bounds(2) [of G m a] assms(1) by simp
  then have "bits_val G m b \<noteq> 0 \<Longrightarrow> bits_val G m q' = bits_val G m a div bits_val G m b
      \<and> bits_val G m r' = bits_val G m a mod bits_val G m b"
    using uDivModRec_val [OF assms(1,2,4) _ _ qr'] bits_val_bounds(1) [of G m b] by force
  then show "bits_val G m q = (if bits_val G m b = 0 then 2 ^ n - 1 else bits_val G m a div bits_val G m b)"
    "bits_val G m r = bits_val G m a mod bits_val G m b"
    using q r z by auto
qed

section \<open>The shifters shift\<close>

lemma length_stages [simp]:
  "length (shl_stage b a s) = length a" "length (lshr_stage b a s) = length a"
  "length (ashr_stage b c a s) = length a"
  by (simp_all add: shl_stage_def lshr_stage_def ashr_stage_def Let_def)

lemma truth_stages:
  assumes "i < length a"
  shows "truth G m (shl_stage b a s ! i) \<longleftrightarrow>
      (if truth G m (b ! s) then 2 ^ s \<le> i \<and> truth G m (a ! (i - 2 ^ s)) else truth G m (a ! i))"
    "truth G m (lshr_stage b a s ! i) \<longleftrightarrow>
      (if truth G m (b ! s) then i + 2 ^ s < length a \<and> truth G m (a ! (i + 2 ^ s)) else truth G m (a ! i))"
    "truth G m (ashr_stage b c a s ! i) \<longleftrightarrow>
      (if truth G m (b ! s) then if i + 2 ^ s < length a then truth G m (a ! (i + 2 ^ s)) else truth G m c
       else truth G m (a ! i))"
  using assms by (simp_all add: shl_stage_def lshr_stage_def ashr_stage_def Let_def)

lemma length_foldl_stages [simp]:
  "length (foldl (shl_stage b) a ss) = length a" "length (foldl (lshr_stage b) a ss) = length a"
  "length (foldl (ashr_stage b c) a ss) = length a"
  by (induction ss arbitrary: a) simp_all

lemma bools_stages:
  "bools G m a \<Longrightarrow> bools G m (shl_stage b a s)" "bools G m a \<Longrightarrow> bools G m (lshr_stage b a s)"
  "bools G m a \<Longrightarrow> boolish G m c \<Longrightarrow> bools G m (ashr_stage b c a s)"
  by (auto simp: bools_def shl_stage_def lshr_stage_def ashr_stage_def Let_def)

lemma bools_foldl_stages:
  "bools G m a \<Longrightarrow> bools G m (foldl (shl_stage b) a ss)"
  "bools G m a \<Longrightarrow> bools G m (foldl (lshr_stage b) a ss)"
  "bools G m a \<Longrightarrow> boolish G m c \<Longrightarrow> bools G m (foldl (ashr_stage b c) a ss)"
  by (induction ss arbitrary: a) (simp_all add: bools_stages)

lemma val_take_Suc:
  assumes "k < length b"
  shows "nat (bits_val G m (take (Suc k) b)) =
    nat (bits_val G m (take k b)) + (if truth G m (b ! k) then 2 ^ k else 0)"
  using assms bits_val_bounds(1) [of G m "take k b"]
  by (simp add: take_Suc_conv_app_nth bits_val_append nat_add_distrib nat_power_eq)

lemma shl_bits:
  fixes G :: gmp and m :: model
  assumes "k \<le> length b" "i < length a"
  defines "j \<equiv> nat (bits_val G m (take k b))"
  shows "truth G m (foldl (shl_stage b) a [0..<k] ! i) \<longleftrightarrow> j \<le> i \<and> truth G m (a ! (i - j))"
  using assms(1,2) unfolding j_def
proof (induction k arbitrary: i)
  case (Suc k)
  have "i - 2 ^ k < length a"
    using Suc.prems(2) by simp
  with Suc.prems Suc.IH [of i] Suc.IH [of "i - 2 ^ k"] show ?case
    by (auto simp: truth_stages val_take_Suc add.commute)
qed simp

lemma lshr_bits:
  fixes G :: gmp and m :: model
  assumes "k \<le> length b" "i < length a"
  defines "j \<equiv> nat (bits_val G m (take k b))"
  shows "truth G m (foldl (lshr_stage b) a [0..<k] ! i) \<longleftrightarrow> i + j < length a \<and> truth G m (a ! (i + j))"
  using assms(1,2) unfolding j_def
proof (induction k arbitrary: i)
  case (Suc k)
  then show ?case
    using Suc.IH [of i] Suc.IH [of "i + 2 ^ k"]
    by (auto simp: truth_stages val_take_Suc ac_simps)
qed simp

lemma ashr_bits:
  fixes G :: gmp and m :: model
  assumes "k \<le> length b" "i < length a"
  defines "j \<equiv> nat (bits_val G m (take k b))"
  shows "truth G m (foldl (ashr_stage b c) a [0..<k] ! i) \<longleftrightarrow>
    (if i + j < length a then truth G m (a ! (i + j)) else truth G m c)"
  using assms(1,2) unfolding j_def
proof (induction k arbitrary: i)
  case (Suc k)
  then show ?case
    using Suc.IH [of i] Suc.IH [of "i + 2 ^ k"]
    by (auto simp: truth_stages val_take_Suc ac_simps)
qed simp

lemma log2_size_le: "0 < n \<Longrightarrow> log2_size n \<le> n"
  by (simp add: log2_size_def ceillog2_le_iff less_imp_le)

lemma val_take_log2:
  assumes "length b = n" "bits_val G m b < int n"
  shows "bits_val G m (take (log2_size n) b) = bits_val G m b"
proof -
  have "int n \<le> 2 ^ log2_size n"
    using le_two_power_ceillog2 [of n] by (simp add: log2_size_def)
  note less_le_trans [OF assms(2) this]
  then show ?thesis
    by (simp add: val_take take_bit_int_eq_self bits_val_bounds)
qed

lemma shl_val:
  assumes len: "length a = n" "length b = n" "0 < n"
    and u: "truth G m u \<longleftrightarrow> bits_val G m b < int n"
  shows "bits_val G m (map (\<lambda>i. mkIte u (foldl (shl_stage b) a [0..<log2_size n] ! i) mkFalse) [0..<length b]) =
    take_bit n (push_bit (nat (bits_val G m b)) (bits_val G m a))"
proof (rule bits_val_eqI)
  show "truth G m (map (\<lambda>i. mkIte u (foldl (shl_stage b) a [0..<log2_size n] ! i) mkFalse)
      [0..<length b] ! i) \<longleftrightarrow> bit (push_bit (nat (bits_val G m b)) (bits_val G m a)) i" if "i < n" for i
    using that len u shl_bits [of "log2_size n" b i a G m] log2_size_le val_take_log2 [of b n G m]
    by (auto simp: bit_push_bit_iff bit_bits_val)
qed (simp add: len)

lemma lshr_val:
  assumes len: "length a = n" "length b = n" "0 < n"
    and u: "truth G m u \<longleftrightarrow> bits_val G m b < int n"
  shows "bits_val G m (map (\<lambda>i. mkIte u (foldl (lshr_stage b) a [0..<log2_size n] ! i) mkFalse) [0..<length b]) =
    drop_bit (nat (bits_val G m b)) (bits_val G m a)"
proof (rule bit_eqI)
  show "bit (bits_val G m (map (\<lambda>i. mkIte u (foldl (lshr_stage b) a [0..<log2_size n] ! i) mkFalse)
      [0..<length b])) i \<longleftrightarrow> bit (drop_bit (nat (bits_val G m b)) (bits_val G m a)) i" for i
    using len u lshr_bits [of "log2_size n" b i a G m] log2_size_le val_take_log2 [of b n G m]
    by (auto simp: bit_drop_bit_eq bit_bits_val add.commute)
qed

lemma ashr_val:
  assumes len: "length a = n" "length b = n" "0 < n"
    and u: "truth G m u \<longleftrightarrow> bits_val G m b < int n"
    and "c = last a"
  shows "bits_val G m (map (\<lambda>i. mkIte u (foldl (ashr_stage b c) a [0..<log2_size n] ! i) c) [0..<length b]) =
    take_bit n (drop_bit (nat (bits_val G m b)) (signed_take_bit (n - 1) (bits_val G m a)))"
proof (rule bits_val_eqI)
  have c: "c = a ! (n - 1)"
    using assms(5) len by (simp add: last_conv_nth flip: length_greater_0_conv)
  show "truth G m (map (\<lambda>i. mkIte u (foldl (ashr_stage b c) a [0..<log2_size n] ! i) c) [0..<length b] ! i) \<longleftrightarrow>
      bit (drop_bit (nat (bits_val G m b)) (signed_take_bit (n - 1) (bits_val G m a))) i" if "i < n" for i
    using that len u ashr_bits [of "log2_size n" b i a G m c] log2_size_le val_take_log2 [of b n G m] c
    by (cases "i + nat (bits_val G m b) = n - 1")
      (auto simp: bit_drop_bit_eq bit_bits_val bit_signed_take_bit_iff add.commute min_def)
qed (simp add: len)

section \<open>Properties\<close>

text \<open>C27. The shift-and-add multiplier computes the product: on two vectors of the same
  positive width it returns a vector of that width that denotes, in every model, the product
  modulo two to the width.\<close>

theorem shiftAddMultiplier_correct:
  assumes "length a = length b" "b \<noteq> []"
  shows "length (shiftAddMultiplier a b) = length a
    \<and> bits_val G m (shiftAddMultiplier a b) = (bits_val G m a * bits_val G m b) mod 2 ^ length a"
  using shiftAddMultiplier_val [OF assms] by (simp add: take_bit_eq_mod)

theorem shiftAddMultiplier_correct_witness:
  "bits_val gmp_reference \<lparr>var_raw = \<lambda>x t. 0, fun_raw = \<lambda>f t vs. 0\<rparr>
     (shiftAddMultiplier [mkTrue, mkTrue, mkFalse] [mkTrue, mkFalse, mkTrue]) = 7"
  using shiftAddMultiplier_correct [of "[mkTrue, mkTrue, mkFalse]" "[mkTrue, mkFalse, mkTrue]" gmp_reference
      "\<lparr>var_raw = \<lambda>x t. 0, fun_raw = \<lambda>f t vs. 0\<rparr>"] by simp

text \<open>C26. The divider computes quotient and remainder: the recursive circuit \<^verbatim>\<open>uDivModRec\<close>
  with the correction for a zero divisor denotes, in every model, the quotient (all ones when
  the divisor is zero) and the remainder (the dividend when the divisor is zero).\<close>

theorem divider_correct:
  assumes "length a = n" "length b = n" "0 < n" "bools G m a" "bools G m b"
  shows "bits_val G m (fst (udiv_urem_zero a b (uDivModRec a b n))) =
      (if bits_val G m b = 0 then 2 ^ n - 1 else bits_val G m a div bits_val G m b)
    \<and> bits_val G m (snd (udiv_urem_zero a b (uDivModRec a b n))) =
      (if bits_val G m b = 0 then bits_val G m a else bits_val G m a mod bits_val G m b)"
  using udiv_urem_val(5,6) [OF assms, of "fst (udiv_urem_zero a b (uDivModRec a b n))"
      "snd (udiv_urem_zero a b (uDivModRec a b n))"] by simp

theorem divider_correct_witness:
  "bits_val gmp_reference \<lparr>var_raw = \<lambda>x t. 0, fun_raw = \<lambda>f t vs. 0\<rparr>
     (fst (udiv_urem_zero [mkTrue, mkTrue, mkTrue] [mkFalse, mkTrue, mkFalse]
       (uDivModRec [mkTrue, mkTrue, mkTrue] [mkFalse, mkTrue, mkFalse] 3))) = 3"
  using divider_correct [of "[mkTrue, mkTrue, mkTrue]" 3 "[mkFalse, mkTrue, mkFalse]" gmp_reference
      "\<lparr>var_raw = \<lambda>x t. 0, fun_raw = \<lambda>f t vs. 0\<rparr>"] by simp

text \<open>C28. The barrel shifters shift: with a guard that holds exactly when the amount is below
  the width, the stages for the \<open>\<lceil>log2 width\<rceil>\<close> low bits of the amount followed by the guard denote
  the left, logical right and arithmetic right shift by the full amount, also when it exceeds the
  width.\<close>

theorem barrel_shifters_correct:
  assumes "length a = n" "length b = n" "0 < n" "truth G m u \<longleftrightarrow> bits_val G m b < int n"
  shows "bits_val G m (map (\<lambda>i. mkIte u (foldl (shl_stage b) a [0..<log2_size n] ! i) mkFalse) [0..<length b]) =
      take_bit n (push_bit (nat (bits_val G m b)) (bits_val G m a))
    \<and> bits_val G m (map (\<lambda>i. mkIte u (foldl (lshr_stage b) a [0..<log2_size n] ! i) mkFalse) [0..<length b]) =
      drop_bit (nat (bits_val G m b)) (bits_val G m a)
    \<and> bits_val G m (map (\<lambda>i. mkIte u (foldl (ashr_stage b (last a)) a [0..<log2_size n] ! i) (last a)) [0..<length b]) =
      take_bit n (drop_bit (nat (bits_val G m b)) (signed_take_bit (n - 1) (bits_val G m a)))"
  using shl_val [OF assms] lshr_val [OF assms] ashr_val [OF assms refl] by simp

theorem barrel_shifters_correct_witness:
  "bits_val gmp_reference \<lparr>var_raw = \<lambda>x t. 0, fun_raw = \<lambda>f t vs. 0\<rparr>
     (map (\<lambda>i. mkIte mkTrue (foldl (shl_stage [mkTrue, mkFalse]) [mkTrue, mkFalse] [0..<log2_size 2] ! i) mkFalse)
       [0..<length [mkTrue, mkFalse]]) = 2"
  using barrel_shifters_correct [of "[mkTrue, mkFalse]" 2 "[mkTrue, mkFalse]" gmp_reference
      "\<lparr>var_raw = \<lambda>x t. 0, fun_raw = \<lambda>f t vs. 0\<rparr>" mkTrue] by simp

end
