(* ===== verification/Bitblaster.thy ===== *)
theory Bitblaster
  imports Bitblast_Division "HOL-Library.Monad_Syntax"
begin

text \<open>
  The bit-blaster: the strategies of \<^verbatim>\<open>bitblast_strategies_template.h\<close>, the strategy tables and the
  term cache of \<^verbatim>\<open>bitblaster.h\<close>, and the class \<^verbatim>\<open>NodeBitblaster\<close> of \<^verbatim>\<open>node_bitblaster.cpp\<close>
  (all under \<^verbatim>\<open>src/src/theory/bv/bitblast\<close>).

  A strategy receives the virtual method \<^verbatim>\<open>bbTerm\<close> as its argument \<open>bb\<close> and threads the state of
  the bit-blaster; \<open>None\<close> is a run that ends in \<^verbatim>\<open>Unimplemented()\<close> or \<^verbatim>\<open>Unreachable()\<close>.  \<open>bbTerm\<close>
  recurses through the strategies; its fuel is a bound on the depth of the term, and a run out of
  fuel is \<open>None\<close> too.  The rewriter that \<^verbatim>\<open>bbAtom\<close> calls is the parameter \<open>rw\<close>.
\<close>

section \<open>State\<close>

record bitblaster =
  d_termCache :: "node \<Rightarrow> node list option"
  d_variables :: "node set"
  d_bbAtoms :: "node \<Rightarrow> node option"

type_synonym bb_method = "node \<Rightarrow> bitblaster \<Rightarrow> (node list \<times> bitblaster) option"

type_synonym bb_atom_result = "(node \<times> bitblaster) option"

definition init_bitblaster :: bitblaster where
  "init_bitblaster = \<lparr>d_termCache = (\<lambda>n. None), d_variables = {}, d_bbAtoms = (\<lambda>n. None)\<rparr>"

definition Unimplemented :: "'a option" where
  "Unimplemented = None"

definition Unreachable :: "'a option" where
  "Unreachable = None"

definition mkBit :: "node \<Rightarrow> nat \<Rightarrow> node" where
  "mkBit n i = mkNode (K_BITVECTOR_BIT i) [n]"

fun getConst :: "node \<Rightarrow> bitvector" where
  "getConst (CONST_BITVECTOR b) = b"
| "getConst n = bv_default 0"

definition mkConst :: "gmp \<Rightarrow> nat \<Rightarrow> int \<Rightarrow> node" where
  "mkConst G sz v = CONST_BITVECTOR (mk_bv G sz v)"

section \<open>Atom strategies\<close>

definition UndefinedAtomBBStrategy :: "node \<Rightarrow> bitblaster \<Rightarrow> bb_atom_result" where
  "UndefinedAtomBBStrategy node s = Unreachable"

definition DefaultEqBB :: "bb_method \<Rightarrow> node \<Rightarrow> bitblaster \<Rightarrow> bb_atom_result" where
  "DefaultEqBB bb node s =
     do { (lhs, s) \<leftarrow> bb (child node 0) s;
          (rhs, s) \<leftarrow> bb (child node 1) s;
          let bits_eq = map (\<lambda>i. mkIff (lhs ! i) (rhs ! i)) [0..<length lhs];
          Some (mkAnd_vector bits_eq, s) }"

definition AdderUltBB :: "bb_method \<Rightarrow> node \<Rightarrow> bitblaster \<Rightarrow> bb_atom_result" where
  "AdderUltBB bb node s =
     do { (a, s) \<leftarrow> bb (child node 0) s;
          (b, s) \<leftarrow> bb (child node 1) s;
          let not_b = negateBits b;
          let carry = foldl (\<lambda>carry i. mkOr (mkAnd (a ! i) (not_b ! i))
                              (mkAnd (mkXor (a ! i) (not_b ! i)) carry)) mkTrue [0..<length a];
          Some (mkNot carry, s) }"

definition DefaultUltBB :: "bb_method \<Rightarrow> node \<Rightarrow> bitblaster \<Rightarrow> bb_atom_result" where
  "DefaultUltBB bb node s =
     do { (a, s) \<leftarrow> bb (child node 0) s;
          (b, s) \<leftarrow> bb (child node 1) s;
          Some (uLessThanBB a b False, s) }"

definition DefaultUleBB :: "bb_method \<Rightarrow> node \<Rightarrow> bitblaster \<Rightarrow> bb_atom_result" where
  "DefaultUleBB bb node s =
     do { (a, s) \<leftarrow> bb (child node 0) s;
          (b, s) \<leftarrow> bb (child node 1) s;
          Some (uLessThanBB a b True, s) }"

definition DefaultUgtBB :: "node \<Rightarrow> bitblaster \<Rightarrow> bb_atom_result" where
  "DefaultUgtBB node s = Unimplemented"

definition DefaultUgeBB :: "node \<Rightarrow> bitblaster \<Rightarrow> bb_atom_result" where
  "DefaultUgeBB node s = Unimplemented"

definition DefaultSltBB :: "bb_method \<Rightarrow> node \<Rightarrow> bitblaster \<Rightarrow> bb_atom_result" where
  "DefaultSltBB bb node s =
     do { (a, s) \<leftarrow> bb (child node 0) s;
          (b, s) \<leftarrow> bb (child node 1) s;
          Some (sLessThanBB a b False, s) }"

definition DefaultSleBB :: "bb_method \<Rightarrow> node \<Rightarrow> bitblaster \<Rightarrow> bb_atom_result" where
  "DefaultSleBB bb node s =
     do { (a, s) \<leftarrow> bb (child node 0) s;
          (b, s) \<leftarrow> bb (child node 1) s;
          Some (sLessThanBB a b True, s) }"

definition DefaultSgtBB :: "node \<Rightarrow> bitblaster \<Rightarrow> bb_atom_result" where
  "DefaultSgtBB node s = Unimplemented"

definition DefaultSgeBB :: "node \<Rightarrow> bitblaster \<Rightarrow> bb_atom_result" where
  "DefaultSgeBB node s = Unimplemented"

section \<open>Term strategies\<close>

definition UndefinedTermBBStrategy :: "node \<Rightarrow> bitblaster \<Rightarrow> (node list \<times> bitblaster) option" where
  "UndefinedTermBBStrategy node s = Unreachable"

definition makeVariable :: "node \<Rightarrow> bitblaster \<Rightarrow> node list \<times> bitblaster" where
  "makeVariable var s =
     (map (\<lambda>i. mkBit var i) [0..<getSize var], s\<lparr>d_variables := insert var (d_variables s)\<rparr>)"

definition DefaultVarBB :: "node \<Rightarrow> bitblaster \<Rightarrow> (node list \<times> bitblaster) option" where
  "DefaultVarBB node s = Some (makeVariable node s)"

definition const_bits :: "gmp \<Rightarrow> node \<Rightarrow> node list" where
  "const_bits G node =
     map (\<lambda>i. let bit = d_value (bv_extract G (getConst node) i i)
              in if bit = 0 then mkFalse else mkTrue) [0..<getSize node]"

definition DefaultConstBB :: "gmp \<Rightarrow> node \<Rightarrow> bitblaster \<Rightarrow> (node list \<times> bitblaster) option" where
  "DefaultConstBB G node s = Some (const_bits G node, s)"

definition DefaultNotBB :: "bb_method \<Rightarrow> bb_method" where
  "DefaultNotBB bb node s =
     do { (bv, s) \<leftarrow> bb (child node 0) s;
          Some (negateBits bv, s) }"

text \<open>The loop of \<^verbatim>\<open>DefaultConcatBB\<close>, over the children from the last to the first.\<close>

fun concat_loop :: "bb_method \<Rightarrow> node list \<Rightarrow> node list \<Rightarrow> bitblaster \<Rightarrow> (node list \<times> bitblaster) option" where
  "concat_loop bb [] bits s = Some (bits, s)"
| "concat_loop bb (current # ns) bits s =
     do { (current_bits, s) \<leftarrow> bb current s;
          concat_loop bb ns (bits @ map (\<lambda>j. current_bits ! j) [0..<getSize current]) s }"

definition DefaultConcatBB :: "bb_method \<Rightarrow> bb_method" where
  "DefaultConcatBB bb node s = concat_loop bb (rev (children node)) [] s"

text \<open>The loops over the remaining children, combining the bits so far with those of a child.\<close>

fun children_loop ::
  "(node list \<Rightarrow> node list \<Rightarrow> node list) \<Rightarrow> bb_method \<Rightarrow> node list \<Rightarrow> node list \<Rightarrow> bitblaster
    \<Rightarrow> (node list \<times> bitblaster) option" where
  "children_loop f bb [] bits s = Some (bits, s)"
| "children_loop f bb (n # ns) bits s =
     do { (current, s) \<leftarrow> bb n s;
          children_loop f bb ns (f bits current) s }"

definition bitwise :: "(node \<Rightarrow> node \<Rightarrow> node) \<Rightarrow> nat \<Rightarrow> node list \<Rightarrow> node list \<Rightarrow> node list" where
  "bitwise mk sz bits current = map (\<lambda>i. mk (bits ! i) (current ! i)) [0..<sz]"

definition DefaultAndBB :: "bb_method \<Rightarrow> bb_method" where
  "DefaultAndBB bb node s =
     do { (bits, s) \<leftarrow> bb (child node 0) s;
          children_loop (bitwise mkAnd (getSize node)) bb (tl (children node)) bits s }"

definition DefaultOrBB :: "bb_method \<Rightarrow> bb_method" where
  "DefaultOrBB bb node s =
     do { (bits, s) \<leftarrow> bb (child node 0) s;
          children_loop (bitwise mkOr (getSize node)) bb (tl (children node)) bits s }"

definition DefaultXorBB :: "bb_method \<Rightarrow> bb_method" where
  "DefaultXorBB bb node s =
     do { (bits, s) \<leftarrow> bb (child node 0) s;
          children_loop (bitwise mkXor (getSize node)) bb (tl (children node)) bits s }"

definition DefaultXnorBB :: "bb_method \<Rightarrow> bb_method" where
  "DefaultXnorBB bb node s =
     do { (lhs, s) \<leftarrow> bb (child node 0) s;
          (rhs, s) \<leftarrow> bb (child node 1) s;
          Some (bitwise mkIff (length lhs) lhs rhs, s) }"

definition DefaultNandBB :: "node \<Rightarrow> bitblaster \<Rightarrow> (node list \<times> bitblaster) option" where
  "DefaultNandBB node s = Unimplemented"

definition DefaultNorBB :: "node \<Rightarrow> bitblaster \<Rightarrow> (node list \<times> bitblaster) option" where
  "DefaultNorBB node s = Unimplemented"

definition DefaultCompBB :: "bb_method \<Rightarrow> bb_method" where
  "DefaultCompBB bb node s =
     do { (a, s) \<leftarrow> bb (child node 0) s;
          (b, s) \<leftarrow> bb (child node 1) s;
          let bit_eqs = bitwise mkIff (length a) a b;
          Some ([mkAnd_vector bit_eqs], s) }"

definition DefaultMultBB :: "bb_method \<Rightarrow> bb_method" where
  "DefaultMultBB bb node s =
     do { (res, s) \<leftarrow> bb (child node 0) s;
          children_loop shiftAddMultiplier bb (tl (children node)) res s }"

definition DefaultAddBB :: "bb_method \<Rightarrow> bb_method" where
  "DefaultAddBB bb node s =
     do { (res, s) \<leftarrow> bb (child node 0) s;
          children_loop (\<lambda>res current. fst (rippleCarryAdder res current mkFalse)) bb
            (tl (children node)) res s }"

definition DefaultSubBB :: "bb_method \<Rightarrow> bb_method" where
  "DefaultSubBB bb node s =
     do { (a, s) \<leftarrow> bb (child node 0) s;
          (b, s) \<leftarrow> bb (child node 1) s;
          let not_b = negateBits b;
          Some (fst (rippleCarryAdder a not_b mkTrue), s) }"

definition DefaultNegBB :: "bb_method \<Rightarrow> bb_method" where
  "DefaultNegBB bb node s =
     do { (a, s) \<leftarrow> bb (child node 0) s;
          let not_a = negateBits a;
          let zero = makeZero (getSize node);
          Some (fst (rippleCarryAdder not_a zero mkTrue), s) }"

definition UdivUremBB :: "bb_method \<Rightarrow> node \<Rightarrow> bitblaster \<Rightarrow> ((node list \<times> node list) \<times> bitblaster) option" where
  "UdivUremBB bb node s =
     do { (a, s) \<leftarrow> bb (child node 0) s;
          (b, s) \<leftarrow> bb (child node 1) s;
          Some (udiv_urem_zero a b (uDivModRec a b (getSize node)), s) }"

definition DefaultUdivBB :: "bb_method \<Rightarrow> bb_method" where
  "DefaultUdivBB bb node s =
     do { ((quot, r), s) \<leftarrow> UdivUremBB bb node s;
          Some (quot, s) }"

definition DefaultUremBB :: "bb_method \<Rightarrow> bb_method" where
  "DefaultUremBB bb node s =
     do { ((q, rem), s) \<leftarrow> UdivUremBB bb node s;
          Some (rem, s) }"

definition DefaultShlBB :: "gmp \<Rightarrow> bb_method \<Rightarrow> bb_method" where
  "DefaultShlBB G bb node s =
     do { (a, s) \<leftarrow> bb (child node 0) s;
          (b, s) \<leftarrow> bb (child node 1) s;
          let sz = getSize node;
          let a_size_bits = const_bits G (mkConst G sz (int sz));
          let b_ult_a_size = uLessThanBB b a_size_bits False;
          let res = foldl (shl_stage b) a [0..<log2_size sz];
          Some (map (\<lambda>i. mkIte b_ult_a_size (res ! i) mkFalse) [0..<length b], s) }"

definition DefaultLshrBB :: "gmp \<Rightarrow> bb_method \<Rightarrow> bb_method" where
  "DefaultLshrBB G bb node s =
     do { (a, s) \<leftarrow> bb (child node 0) s;
          (b, s) \<leftarrow> bb (child node 1) s;
          let sz = getSize node;
          let a_size_bits = const_bits G (mkConst G sz (int sz));
          let b_ult_a_size = uLessThanBB b a_size_bits False;
          let res = foldl (lshr_stage b) a [0..<log2_size sz];
          Some (map (\<lambda>i. mkIte b_ult_a_size (res ! i) mkFalse) [0..<length b], s) }"

definition DefaultAshrBB :: "gmp \<Rightarrow> bb_method \<Rightarrow> bb_method" where
  "DefaultAshrBB G bb node s =
     do { (a, s) \<leftarrow> bb (child node 0) s;
          (b, s) \<leftarrow> bb (child node 1) s;
          let sz = getSize node;
          let a_size_bits = const_bits G (mkConst G sz (int sz));
          let b_ult_a_size = uLessThanBB b a_size_bits False;
          let sign_bit = last a;
          let res = foldl (ashr_stage b sign_bit) a [0..<log2_size sz];
          Some (map (\<lambda>i. mkIte b_ult_a_size (res ! i) sign_bit) [0..<length b], s) }"

definition DefaultUltbvBB :: "bb_method \<Rightarrow> bb_method" where
  "DefaultUltbvBB bb node s =
     do { (a, s) \<leftarrow> bb (child node 0) s;
          (b, s) \<leftarrow> bb (child node 1) s;
          Some ([uLessThanBB a b False], s) }"

definition DefaultSltbvBB :: "bb_method \<Rightarrow> bb_method" where
  "DefaultSltbvBB bb node s =
     do { (a, s) \<leftarrow> bb (child node 0) s;
          (b, s) \<leftarrow> bb (child node 1) s;
          Some ([sLessThanBB a b False], s) }"

definition DefaultIteBB :: "bb_method \<Rightarrow> bb_method" where
  "DefaultIteBB bb node s =
     do { (cond, s) \<leftarrow> bb (child node 0) s;
          (thenpart, s) \<leftarrow> bb (child node 1) s;
          (elsepart, s) \<leftarrow> bb (child node 2) s;
          Some (map (\<lambda>i. mkAnd_array [mkOr (mkNot (cond ! 0)) (thenpart ! i), mkOr (cond ! 0) (elsepart ! i)])
                 [0..<length thenpart], s) }"

definition DefaultExtractBB :: "nat \<Rightarrow> nat \<Rightarrow> bb_method \<Rightarrow> bb_method" where
  "DefaultExtractBB high low bb node s =
     do { (base_bits, s) \<leftarrow> bb (child node 0) s;
          Some (map (\<lambda>i. base_bits ! i) [low..<high + 1], s) }"

definition DefaultRepeatBB :: "node \<Rightarrow> bitblaster \<Rightarrow> (node list \<times> bitblaster) option" where
  "DefaultRepeatBB node s = Unimplemented"

definition DefaultZeroExtendBB :: "node \<Rightarrow> bitblaster \<Rightarrow> (node list \<times> bitblaster) option" where
  "DefaultZeroExtendBB node s = Unimplemented"

definition DefaultSignExtendBB :: "nat \<Rightarrow> bb_method \<Rightarrow> bb_method" where
  "DefaultSignExtendBB amount bb node s =
     do { (bits, s) \<leftarrow> bb (child node 0) s;
          let sign_bit = last bits;
          Some (bits @ map (\<lambda>i. sign_bit) [0..<amount], s) }"

definition DefaultRotateRightBB :: "node \<Rightarrow> bitblaster \<Rightarrow> (node list \<times> bitblaster) option" where
  "DefaultRotateRightBB node s = Unimplemented"

definition DefaultRotateLeftBB :: "node \<Rightarrow> bitblaster \<Rightarrow> (node list \<times> bitblaster) option" where
  "DefaultRotateLeftBB node s = Unimplemented"

section \<open>The strategy tables\<close>

definition d_atomBBStrategies :: "bb_method \<Rightarrow> node \<Rightarrow> bitblaster \<Rightarrow> bb_atom_result" where
  "d_atomBBStrategies bb node s = (case node of
     mkNode k ns \<Rightarrow> (case k of
         K_EQUAL \<Rightarrow> DefaultEqBB bb node s
       | K_BITVECTOR_ULT \<Rightarrow> DefaultUltBB bb node s
       | K_BITVECTOR_ULE \<Rightarrow> DefaultUleBB bb node s
       | K_BITVECTOR_UGT \<Rightarrow> DefaultUgtBB node s
       | K_BITVECTOR_UGE \<Rightarrow> DefaultUgeBB node s
       | K_BITVECTOR_SLT \<Rightarrow> DefaultSltBB bb node s
       | K_BITVECTOR_SLE \<Rightarrow> DefaultSleBB bb node s
       | K_BITVECTOR_SGT \<Rightarrow> DefaultSgtBB node s
       | K_BITVECTOR_SGE \<Rightarrow> DefaultSgeBB node s
       | _ \<Rightarrow> UndefinedAtomBBStrategy node s)
   | _ \<Rightarrow> UndefinedAtomBBStrategy node s)"

definition d_termBBStrategies :: "gmp \<Rightarrow> bb_method \<Rightarrow> bb_method" where
  "d_termBBStrategies G bb node s = (case node of
     CONST_BITVECTOR b \<Rightarrow> DefaultConstBB G node s
   | mkNode k ns \<Rightarrow> (case k of
         K_BITVECTOR_NOT \<Rightarrow> DefaultNotBB bb node s
       | K_BITVECTOR_CONCAT \<Rightarrow> DefaultConcatBB bb node s
       | K_BITVECTOR_AND \<Rightarrow> DefaultAndBB bb node s
       | K_BITVECTOR_OR \<Rightarrow> DefaultOrBB bb node s
       | K_BITVECTOR_XOR \<Rightarrow> DefaultXorBB bb node s
       | K_BITVECTOR_XNOR \<Rightarrow> DefaultXnorBB bb node s
       | K_BITVECTOR_NAND \<Rightarrow> DefaultNandBB node s
       | K_BITVECTOR_NOR \<Rightarrow> DefaultNorBB node s
       | K_BITVECTOR_COMP \<Rightarrow> DefaultCompBB bb node s
       | K_BITVECTOR_MULT \<Rightarrow> DefaultMultBB bb node s
       | K_BITVECTOR_ADD \<Rightarrow> DefaultAddBB bb node s
       | K_BITVECTOR_SUB \<Rightarrow> DefaultSubBB bb node s
       | K_BITVECTOR_NEG \<Rightarrow> DefaultNegBB bb node s
       | K_BITVECTOR_UDIV \<Rightarrow> DefaultUdivBB bb node s
       | K_BITVECTOR_UREM \<Rightarrow> DefaultUremBB bb node s
       | K_BITVECTOR_SDIV \<Rightarrow> UndefinedTermBBStrategy node s
       | K_BITVECTOR_SREM \<Rightarrow> UndefinedTermBBStrategy node s
       | K_BITVECTOR_SMOD \<Rightarrow> UndefinedTermBBStrategy node s
       | K_BITVECTOR_SHL \<Rightarrow> DefaultShlBB G bb node s
       | K_BITVECTOR_LSHR \<Rightarrow> DefaultLshrBB G bb node s
       | K_BITVECTOR_ASHR \<Rightarrow> DefaultAshrBB G bb node s
       | K_BITVECTOR_ULTBV \<Rightarrow> DefaultUltbvBB bb node s
       | K_BITVECTOR_SLTBV \<Rightarrow> DefaultSltbvBB bb node s
       | K_BITVECTOR_ITE \<Rightarrow> DefaultIteBB bb node s
       | K_BITVECTOR_EXTRACT high low \<Rightarrow> DefaultExtractBB high low bb node s
       | K_BITVECTOR_REPEAT i \<Rightarrow> DefaultRepeatBB node s
       | K_BITVECTOR_ZERO_EXTEND i \<Rightarrow> DefaultZeroExtendBB node s
       | K_BITVECTOR_SIGN_EXTEND amount \<Rightarrow> DefaultSignExtendBB amount bb node s
       | K_BITVECTOR_ROTATE_RIGHT i \<Rightarrow> DefaultRotateRightBB node s
       | K_BITVECTOR_ROTATE_LEFT i \<Rightarrow> DefaultRotateLeftBB node s
       | _ \<Rightarrow> DefaultVarBB node s)
   | _ \<Rightarrow> DefaultVarBB node s)"

section \<open>The node bit-blaster\<close>

definition hasBBTerm :: "node \<Rightarrow> bitblaster \<Rightarrow> bool" where
  "hasBBTerm node s = (d_termCache s node \<noteq> None)"

definition getBBTerm :: "node \<Rightarrow> bitblaster \<Rightarrow> node list" where
  "getBBTerm node s = the (d_termCache s node)"

text \<open>\<^verbatim>\<open>emplace\<close> keeps an entry that is already there.\<close>

definition storeBBTerm :: "node \<Rightarrow> node list \<Rightarrow> bitblaster \<Rightarrow> bitblaster" where
  "storeBBTerm node bits s =
     (if d_termCache s node = None then s\<lparr>d_termCache := (d_termCache s)(node \<mapsto> bits)\<rparr> else s)"

definition storeBBAtom :: "node \<Rightarrow> node \<Rightarrow> bitblaster \<Rightarrow> bitblaster" where
  "storeBBAtom atom atom_bb s =
     (if d_bbAtoms s atom = None then s\<lparr>d_bbAtoms := (d_bbAtoms s)(atom \<mapsto> atom_bb)\<rparr> else s)"

definition hasBBAtom :: "node \<Rightarrow> bitblaster \<Rightarrow> bool" where
  "hasBBAtom lit s =
     (let lit = (if isKind K_NOT lit then child lit 0 else lit) in d_bbAtoms s lit \<noteq> None)"

fun bbTerm :: "gmp \<Rightarrow> nat \<Rightarrow> bb_method" where
  "bbTerm G 0 node s = None"
| "bbTerm G (Suc d) node s =
     (if hasBBTerm node s then Some (getBBTerm node s, s)
      else do { (bits, s) \<leftarrow> d_termBBStrategies G (bbTerm G d) node s;
                Some (bits, storeBBTerm node bits s) })"

fun is_bit_or_const :: "node \<Rightarrow> bool" where
  "is_bit_or_const (CONST_BOOLEAN b) = True"
| "is_bit_or_const (mkNode k ns) = (case k of K_BITVECTOR_BIT i \<Rightarrow> True | _ \<Rightarrow> False)"
| "is_bit_or_const n = False"

definition bbAtom :: "gmp \<Rightarrow> (node \<Rightarrow> node) \<Rightarrow> nat \<Rightarrow> node \<Rightarrow> bitblaster \<Rightarrow> bitblaster option" where
  "bbAtom G rw d node s =
     (let node = (if isKind K_NOT node then child node 0 else node)
      in if hasBBAtom node s then Some s
         else let normalized = rw node
              in do { (atom_bb, s) \<leftarrow>
                        (if \<not> is_bit_or_const normalized then d_atomBBStrategies (bbTerm G d) normalized s
                         else Some (normalized, s));
                      Some (storeBBAtom node (rw atom_bb) s) })"

definition getStoredBBAtom :: "node \<Rightarrow> bitblaster \<Rightarrow> node" where
  "getStoredBBAtom node s =
     (let negated = isKind K_NOT node;
          node = (if negated then child node 0 else node);
          atom_bb = the (d_bbAtoms s node)
      in if negated then negate atom_bb else atom_bb)"

definition applyAtomBBStrategy :: "gmp \<Rightarrow> nat \<Rightarrow> node \<Rightarrow> bitblaster \<Rightarrow> bb_atom_result" where
  "applyAtomBBStrategy G d node s = d_atomBBStrategies (bbTerm G d) node s"

text \<open>
  \<^verbatim>\<open>getModelFromSatSolver\<close>: \<open>sat\<close> is \<^verbatim>\<open>TheoryState::hasSatValue\<close>, the assignment of the SAT
  solver; the loop runs from the most significant bit down.
\<close>

definition getModelFromSatSolver :: "gmp \<Rightarrow> (node \<Rightarrow> bool option) \<Rightarrow> node \<Rightarrow> bitblaster \<Rightarrow> node" where
  "getModelFromSatSolver G sat a s =
     (if \<not> hasBBTerm a s then mkConst G (getSize a) 0
      else let bits = getBBTerm a s;
               value = foldl (\<lambda>value b. value * 2 + (case sat b of Some assignment \<Rightarrow> of_bool assignment | None \<Rightarrow> 0))
                         0 (rev bits)
           in mkConst G (length bits) value)"

definition isVariable :: "node \<Rightarrow> bitblaster \<Rightarrow> bool" where
  "isVariable node s = (node \<in> d_variables s)"

definition computeRelevantTerms :: "node set \<Rightarrow> bitblaster \<Rightarrow> node set" where
  "computeRelevantTerms termSet s = termSet \<union> d_variables s"

text \<open>
  \<^verbatim>\<open>collectModelValues\<close>: the loop over the relevant terms; the theory model is the state \<open>tm\<close> of
  the parameter \<open>assertEquality\<close>, which reports a conflict by \<open>None\<close>.
\<close>

fun collectModelValues ::
  "gmp \<Rightarrow> (node \<Rightarrow> bool option) \<Rightarrow> (node \<Rightarrow> node \<Rightarrow> 'm \<Rightarrow> 'm option) \<Rightarrow> node list \<Rightarrow> bitblaster \<Rightarrow> 'm \<Rightarrow> 'm option" where
  "collectModelValues G sat assertEquality [] s tm = Some tm"
| "collectModelValues G sat assertEquality (var # vars) s tm =
     (if var \<notin> d_variables s then collectModelValues G sat assertEquality vars s tm
      else case assertEquality var (getModelFromSatSolver G sat var s) tm of
             None \<Rightarrow> None
           | Some tm \<Rightarrow> collectModelValues G sat assertEquality vars s tm)"

end
