(* ===== verification/Bitblaster_Correct.thy ===== *)
theory Bitblaster_Correct
  imports Bitblaster
begin

text \<open>
  Correctness of bit-blasting.  \<open>repr G m bits b\<close> says that a vector of Boolean nodes denotes the
  bit-vector \<open>b\<close> in the model \<open>m\<close>.  The strategies rely on the method \<^verbatim>\<open>bbTerm\<close> of the
  bit-blaster through the contract of the locale \<open>bb_provider\<close>: the bits it returns denote the value
  of the term, and the term cache stays correct.  Each strategy is shown to keep the contract for
  its own term, and \<open>bbTerm\<close> of \<^verbatim>\<open>NodeBitblaster\<close> is the provider, by induction on the depth.
\<close>

section \<open>Bits that represent a value\<close>

definition repr :: "gmp \<Rightarrow> model \<Rightarrow> node list \<Rightarrow> bitvector \<Rightarrow> bool" where
  "repr G m bits b \<longleftrightarrow> length bits = d_size b \<and> bools G m bits \<and> bits_val G m bits = d_value b"

definition bits_of :: "gmp \<Rightarrow> model \<Rightarrow> node \<Rightarrow> node list \<Rightarrow> bool" where
  "bits_of G m n bits \<longleftrightarrow> repr G m bits (bvval G m n)"

definition wf_not :: "node \<Rightarrow> bool" where
  "wf_not n \<longleftrightarrow> (isKind K_NOT n \<longrightarrow> length (children n) = 1)"

text \<open>Both caches of the bit-blaster are correct in the model.\<close>

definition cache_ok :: "gmp \<Rightarrow> model \<Rightarrow> bitblaster \<Rightarrow> bool" where
  "cache_ok G m s \<longleftrightarrow> (\<forall>n bits. d_termCache s n = Some bits \<longrightarrow> bits_of G m n bits)
     \<and> (\<forall>n b. d_bbAtoms s n = Some b \<longrightarrow> truth G m b = truth G m n \<and> wf_not b)"

definition bb_result :: "gmp \<Rightarrow> model \<Rightarrow> node \<Rightarrow> (node list \<times> bitblaster) option \<Rightarrow> bool" where
  "bb_result G m n r \<longleftrightarrow> (\<exists>bits s. r = Some (bits, s) \<and> bits_of G m n bits \<and> cache_ok G m s)"

definition atom_ok :: "gmp \<Rightarrow> model \<Rightarrow> node \<Rightarrow> (node \<times> bitblaster) option \<Rightarrow> bool" where
  "atom_ok G m n r \<longleftrightarrow> (\<exists>b s. r = Some (b, s) \<and> truth G m b = truth G m n \<and> wf_not b \<and> cache_ok G m s)"

text \<open>Well-typed first-class terms of a bit-vector type.\<close>

definition bv_term :: "node \<Rightarrow> bool" where
  "bv_term n \<longleftrightarrow> firstClass n \<and> (\<exists>w. getType n = Some (BITVECTOR_TYPE w))"

section \<open>Values of the bit-vector terms\<close>

lemmas eval_kind_defs = eval_kind_def eval_bool_kind_def eval_bv_kind_def eval_bv_pred_def
  eval_bv_rewrite_def constant_evaluation_defs Let_def

lemma bvval_unary:
  "bvval G m (mkNode K_BITVECTOR_NOT [a]) = bv_not G (bvval G m a)"
  "bvval G m (mkNode K_BITVECTOR_NEG [a]) = bv_neg G (bvval G m a)"
  "bvval G m (mkNode (K_BITVECTOR_EXTRACT h l) [a]) = bv_extract G (bvval G m a) h l"
  "bvval G m (mkNode (K_BITVECTOR_SIGN_EXTEND i) [a]) = bv_signExtend G (bvval G m a) i"
  by (simp_all add: bvval_def eval_kind_defs)

lemma bvval_binary:
  "bvval G m (mkNode K_BITVECTOR_UDIV [a, b]) = bv_unsignedDivTotal G (bvval G m a) (bvval G m b)"
  "bvval G m (mkNode K_BITVECTOR_UREM [a, b]) = bv_unsignedRemTotal G (bvval G m a) (bvval G m b)"
  "bvval G m (mkNode K_BITVECTOR_SHL [a, b]) = bv_leftShift G (bvval G m a) (bvval G m b)"
  "bvval G m (mkNode K_BITVECTOR_LSHR [a, b]) = bv_logicalRightShift G (bvval G m a) (bvval G m b)"
  "bvval G m (mkNode K_BITVECTOR_ASHR [a, b]) = bv_arithRightShift G (bvval G m a) (bvval G m b)"
  "bvval G m (mkNode K_BITVECTOR_SUB [a, b]) = bv_add G (bvval G m a) (bv_neg G (bvval G m b))"
  "bvval G m (mkNode K_BITVECTOR_XNOR [a, b]) = bv_not G (bv_xor G (bvval G m a) (bvval G m b))"
  "bvval G m (mkNode K_BITVECTOR_COMP [a, b]) = bv_bool G (bv_eq (bvval G m a) (bvval G m b))"
  "bvval G m (mkNode K_BITVECTOR_ULTBV [a, b]) = bv_bool G (bv_unsignedLessThan (bvval G m a) (bvval G m b))"
  "bvval G m (mkNode K_BITVECTOR_SLTBV [a, b]) = bv_bool G (bv_signedLessThan G (bvval G m a) (bvval G m b))"
  by (simp_all add: bvval_def eval_kind_defs)

lemma bvval_nary:
  "bvval G m (mkNode K_BITVECTOR_CONCAT (a # ns)) = foldl (bv_concat G) (bvval G m a) (map (bvval G m) ns)"
  "bvval G m (mkNode K_BITVECTOR_ADD (a # ns)) = foldl (bv_add G) (bvval G m a) (map (bvval G m) ns)"
  "bvval G m (mkNode K_BITVECTOR_MULT (a # ns)) = foldl (bv_mult G) (bvval G m a) (map (bvval G m) ns)"
  "bvval G m (mkNode K_BITVECTOR_AND (a # ns)) = foldl (bv_and G) (bvval G m a) (map (bvval G m) ns)"
  "bvval G m (mkNode K_BITVECTOR_OR (a # ns)) = foldl (bv_or G) (bvval G m a) (map (bvval G m) ns)"
  "bvval G m (mkNode K_BITVECTOR_XOR (a # ns)) = foldl (bv_xor G) (bvval G m a) (map (bvval G m) ns)"
  by (simp_all add: bvval_def [abs_def] eval_kind_defs comp_def)

lemma bvval_ite:
  "bvval G m (mkNode K_BITVECTOR_ITE [c, a, b]) =
    (if bv_eq (bvval G m c) (mk_bv G 1 1) then bvval G m a else bvval G m b)"
  by (simp add: bvval_def eval_kind_defs)

lemma bvval_const: "bvval G m (CONST_BITVECTOR b) = b"
  by (simp add: bvval_def)

lemma truth_bv_atoms:
  "truth G m (mkNode K_BITVECTOR_ULT [a, b]) = bv_unsignedLessThan (bvval G m a) (bvval G m b)"
  "truth G m (mkNode K_BITVECTOR_ULE [a, b]) = bv_unsignedLessThanEq (bvval G m a) (bvval G m b)"
  "truth G m (mkNode K_BITVECTOR_SLT [a, b]) = bv_signedLessThan G (bvval G m a) (bvval G m b)"
  "truth G m (mkNode K_BITVECTOR_SLE [a, b]) = bv_signedLessThanEq G (bvval G m a) (bvval G m b)"
  by (simp_all add: bvval_def truth_def eval_kind_defs)

lemma truth_mkBit: "truth G m (mkBit n i) = getBit G (bvval G m n) i"
  by (simp add: mkBit_def bvval_def truth_def eval_kind_defs)

lemma boolish_mkBit: "boolish G m (mkBit n i)"
  by (simp add: mkBit_def boolish_def eval_kind_defs)

section \<open>Types of the children\<close>

lemma getType_mkNode:
  assumes "getType (mkNode k ns) = Some T"
  shows "\<exists>ts. list_all2 (\<lambda>n t. getType n = Some t) ns ts \<and> kind_arity k (length ns)
    \<and> kind_type k ts = Some T \<and> valid_type T"
proof -
  obtain ts where ts: "those (map getType ns) = Some ts" "kind_type k ts = Some T" "valid_type T"
    "kind_arity k (length ts)"
    using assms by (auto split: option.splits if_splits)
  then have "list_all2 (\<lambda>n t. getType n = Some t) ns ts"
    by (simp add: those_Some list.rel_map)
  with ts list_all2_lengthD [OF this] show ?thesis by auto
qed

lemma fixed_width_children:
  assumes "getType (mkNode k ns) = Some T" "\<And>ts. kind_type k ts = BitVectorFixedWidthTypeRule ts" "ns \<noteq> []"
  shows "\<exists>w. T = BITVECTOR_TYPE w \<and> (\<forall>n\<in>set ns. getType n = Some (BITVECTOR_TYPE w))"
proof -
  obtain ts where ts: "list_all2 (\<lambda>n t. getType n = Some t) ns ts" "BitVectorFixedWidthTypeRule ts = Some T"
    using getType_mkNode [OF assms(1)] assms(2) by auto
  then have "ts \<noteq> []"
    using assms(3) by auto
  with BitVectorFixedWidthTypeRule_Some [OF ts(2)] obtain w
    where "T = BITVECTOR_TYPE w" "\<forall>t\<in>set ts. t = BITVECTOR_TYPE w" by blast
  with ts(1) show ?thesis
    by (auto simp: list_all2_conv_all_nth in_set_conv_nth) (metis nth_mem)
qed

context gmp_documented
begin

lemma bv_term_value:
  assumes "bv_term n"
  shows "bv_inv (bvval G m n)" "d_size (bvval G m n) = getSize n"
    "eval G m n = BITVECTOR (bvval G m n)"
  using assms bvval_typed [of n] by (auto simp: bv_term_def getSize_def)

lemma bv_term_size:
  assumes "bv_term n"
  shows "0 < getSize n" "getType n = Some (BITVECTOR_TYPE (getSize n))"
  using assms bvval_typed(4) [of n] by (auto simp: bv_term_def getSize_def)

section \<open>Circuits represent the operators\<close>

lemma reprI_bits:
  assumes "length bits = d_size b" "bools G m bits" "d_value b = take_bit (d_size b) x"
    "\<And>i. i < d_size b \<Longrightarrow> truth G m (bits ! i) = bit x i"
  shows "repr G m bits b"
  using assms bits_val_eqI [OF assms(1), of G m x] by (simp add: repr_def)

lemma repr_bit:
  assumes "repr G m a x" "i < d_size x"
  shows "truth G m (a ! i) = bit (d_value x) i"
  using assms bit_bits_val [of G m a i] by (simp add: repr_def)

lemma repr_bitwise:
  assumes "repr G m a x" "repr G m b y" "d_size y = d_size x"
  shows "repr G m (bitwise mkAnd (d_size x) a b) (bv_and G x y)"
    "repr G m (bitwise mkOr (d_size x) a b) (bv_or G x y)"
    "repr G m (bitwise mkXor (d_size x) a b) (bv_xor G x y)"
    "repr G m (bitwise mkIff (d_size x) a b) (bv_not G (bv_xor G x y))"
proof -
  have bo: "i < d_size x \<Longrightarrow> boolish G m (a ! i)" for i
    using assms by (simp add: repr_def bools_nth)
  note bits = repr_bit [OF assms(1)] repr_bit [OF assms(2)]
  show "repr G m (bitwise mkAnd (d_size x) a b) (bv_and G x y)"
    by (rule reprI_bits [where x = "d_value x AND d_value y"])
      (auto simp: value_and bitwise_def bools_def bits assms(3) bit_and_iff)
  show "repr G m (bitwise mkOr (d_size x) a b) (bv_or G x y)"
    by (rule reprI_bits [where x = "d_value x OR d_value y"])
      (auto simp: value_or bitwise_def bools_def bits assms(3) bit_or_iff)
  show "repr G m (bitwise mkXor (d_size x) a b) (bv_xor G x y)"
    by (rule reprI_bits [where x = "d_value x XOR d_value y"])
      (auto simp: value_xor bitwise_def bools_def bits assms(3) bit_xor_iff)
  show "repr G m (bitwise mkIff (d_size x) a b) (bv_not G (bv_xor G x y))"
    by (rule reprI_bits [where x = "NOT (d_value (bv_xor G x y))"])
      (auto simp: bitwise_def bools_def bits assms(3) bo value_xor value_not bit_simps)
qed

lemma repr_not:
  assumes "repr G m a x"
  shows "repr G m (negateBits a) (bv_not G x)"
  using assms
  by (intro reprI_bits [where x = "NOT (d_value x)"])
    (simp_all add: value_not repr_bit [OF assms] bit_not_iff negateBits_def repr_def, simp_all add: bools_def)

lemma repr_add:
  assumes "repr G m a x" "repr G m b y" "d_size y = d_size x"
  shows "repr G m (fst (rippleCarryAdder a b mkFalse)) (bv_add G x y)"
  using assms rippleCarryAdder_val(1) [of a b G m mkFalse] by (simp add: repr_def value_add)

lemma repr_sub:
  assumes "repr G m a x" "repr G m b y" "d_size y = d_size x"
  shows "repr G m (fst (rippleCarryAdder a (negateBits b) mkTrue)) (bv_add G x (bv_neg G y))"
proof -
  have "take_bit n (v + (2 ^ n - 1 - w) + 1) = take_bit n (v + take_bit n (- w))" for n and v w :: int
    by (simp add: take_bit_eq_mod mod_simps)
      (metis add.commute add_diff_eq diff_add_eq mod_add_self2 uminus_add_conv_diff)
  then show ?thesis
    using assms rippleCarryAdder_val(1) [of a "negateBits b" G m mkTrue]
    by (simp add: repr_def value_add value_neg val_negateBits)
qed

lemma repr_neg:
  assumes "repr G m a x"
  shows "repr G m (fst (rippleCarryAdder (negateBits a) (makeZero (d_size x)) mkTrue)) (bv_neg G x)"
proof -
  have "take_bit n (2 ^ n - 1 - w + 1) = take_bit n (- w)" for n and w :: int
    by (simp add: take_bit_eq_mod)
  then show ?thesis
    using assms rippleCarryAdder_val(1) [of "negateBits a" "makeZero (d_size x)" G m mkTrue]
    by (simp add: repr_def value_neg val_negateBits)
qed

lemma repr_mult:
  assumes "repr G m a x" "repr G m b y" "d_size y = d_size x" "0 < d_size x"
  shows "repr G m (shiftAddMultiplier a b) (bv_mult G x y)"
proof -
  have "length a = length b" "b \<noteq> []"
    using assms by (auto simp: repr_def)
  from shiftAddMultiplier_val [OF this] show ?thesis
    using assms by (simp add: repr_def value_mult)
qed

lemma repr_divrem:
  assumes "repr G m a x" "repr G m b y" "d_size x = w" "d_size y = w" "0 < w" "bv_inv x" "bv_inv y"
    "udiv_urem_zero a b (uDivModRec a b w) = (q, r)"
  shows "repr G m q (bv_unsignedDivTotal G x y)" "repr G m r (bv_unsignedRemTotal G x y)"
proof -
  have "d_value x div d_value y \<le> d_value x" if "d_value y \<noteq> 0"
    using that assms(6,7) zdiv_mono2 [of "d_value x" 1 "d_value y"] by (simp add: bv_inv_def)
  then have "take_bit w (d_value x div d_value y) = d_value x div d_value y" if "d_value y \<noteq> 0"
    using that assms(3,6,7)
    by (force simp: bv_inv_def intro!: take_bit_int_eq_self pos_imp_zdiv_nonneg_iff [THEN iffD2])
  moreover have "take_bit w (d_value x mod d_value y) = d_value x mod d_value y"
    using assms(3,6,7) zmod_le_nonneg_dividend [of "d_value x" "d_value y"]
    by (cases "d_value y = 0") (auto simp: bv_inv_def intro!: take_bit_int_eq_self)
  moreover have "length a = w" "length b = w" "bools G m a" "bools G m b"
    using assms(1-4) by (simp_all add: repr_def)
  note udiv_urem_val [OF this(1,2) assms(5) this(3,4) assms(8)]
  ultimately show "repr G m q (bv_unsignedDivTotal G x y)" "repr G m r (bv_unsignedRemTotal G x y)"
    using assms by (auto simp: repr_def value_udiv value_urem)
qed

section \<open>Constants, variables and comparisons\<close>

lemma extract_bit:
  assumes "bv_inv b" "i < d_size b"
  shows "d_value (bv_extract G b i i) = of_bool (bit (d_value b) i)"
  using value_extract [OF assms(1) order_refl assms(2)]
  by (simp add: take_bit_Suc bit_iff_odd_drop_bit mod_2_eq_odd)

lemma getSize_const: "bv_inv b \<Longrightarrow> 0 < d_size b \<Longrightarrow> getSize (CONST_BITVECTOR b) = d_size b"
  by (simp add: getSize_def BitVectorConstantTypeRule_def)

lemma repr_const:
  assumes "bv_inv b" "0 < d_size b"
  shows "repr G m (const_bits G (CONST_BITVECTOR b)) b"
  by (rule reprI_bits [where x = "d_value b"])
    (auto simp: const_bits_def Let_def getSize_const [OF assms] extract_bit [OF assms(1)] bools_def
      bv_inv_take_bit [OF assms(1)])

lemma size_less_exp: "int n < 2 ^ n"
  by (metis of_nat_less_numeral_power_cancel_iff less_exp)

lemma ult_size_bits:
  assumes "repr G m b y" "0 < d_size y" "d_size y < 2 ^ 32"
  shows "truth G m (uLessThanBB b (const_bits G (mkConst G (d_size y) (int (d_size y)))) False) \<longleftrightarrow>
    bits_val G m b < int (d_size y)"
proof -
  let ?c = "mk_bv G (d_size y) (int (d_size y))"
  have "d_value ?c = int (d_size y)"
    using size_less_exp [of "d_size y"] by (simp add: take_bit_int_eq_self)
  moreover have "repr G m (const_bits G (mkConst G (d_size y) (int (d_size y)))) ?c"
    unfolding mkConst_def using assms by (intro repr_const) auto
  ultimately show ?thesis
    using assms by (subst uLessThanBB_truth) (auto simp: repr_def)
qed

lemma repr_shifts:
  assumes "repr G m a x" "repr G m b y" "d_size x = w" "d_size y = w" "0 < w" "bv_inv x" "bv_inv y"
  defines "u \<equiv> uLessThanBB b (const_bits G (mkConst G w (int w))) False"
  shows "repr G m (map (\<lambda>i. mkIte u (foldl (shl_stage b) a [0..<log2_size w] ! i) mkFalse) [0..<length b])
      (bv_leftShift G x y)"
    "repr G m (map (\<lambda>i. mkIte u (foldl (lshr_stage b) a [0..<log2_size w] ! i) mkFalse) [0..<length b])
      (bv_logicalRightShift G x y)"
    "repr G m (map (\<lambda>i. mkIte u (foldl (ashr_stage b (last a)) a [0..<log2_size w] ! i) (last a)) [0..<length b])
      (bv_arithRightShift G x y)"
proof -
  have "w < 2 ^ 32"
    using bv_invD(3) [OF assms(7)] assms(4) by simp
  then have u: "truth G m u \<longleftrightarrow> bits_val G m b < int w"
    using ult_size_bits [OF assms(2)] assms(4,5) by (simp add: u_def)
  have len: "length a = w" "length b = w" and ba: "bools G m a"
    and val: "bits_val G m a = d_value x" "bits_val G m b = d_value y"
    using assms(1-4) by (simp_all add: repr_def)
  have la: "boolish G m (last a)"
    using ba len assms(5) by (cases a) (auto simp: bools_def)
  note st = bools_foldl_stages [OF ba]
  obtain k where k: "w = Suc k"
    using assms(5) gr0_implies_Suc by blast
  show "repr G m (map (\<lambda>i. mkIte u (foldl (shl_stage b) a [0..<log2_size w] ! i) mkFalse) [0..<length b])
      (bv_leftShift G x y)"
    using shl_val [OF len assms(5) u] value_shl [OF assms(6,7)] len val st(1) assms(3)
    by (auto simp: repr_def bools_nth intro!: mux_bools)
  show "repr G m (map (\<lambda>i. mkIte u (foldl (lshr_stage b) a [0..<log2_size w] ! i) mkFalse) [0..<length b])
      (bv_logicalRightShift G x y)"
    using lshr_val [OF len assms(5) u] value_lshr [OF assms(6,7)] len val st(2) assms(3)
    by (auto simp: repr_def bools_nth intro!: mux_bools)
  show "repr G m (map (\<lambda>i. mkIte u (foldl (ashr_stage b (last a)) a [0..<log2_size w] ! i) (last a)) [0..<length b])
      (bv_arithRightShift G x y)"
    using ashr_val [OF len assms(5) u refl] value_ashr [OF assms(6,7) trans [OF assms(3) k]] len val
      st(3) [OF la] la assms(3)
    by (auto simp: repr_def bools_nth k simp del: upt_Suc intro!: mux_bools)
qed

lemma signed_val_repr:
  assumes "repr G m a x" "bv_inv x" "0 < d_size x"
  shows "signed_val G m a = bv_toSignedInteger G x"
proof -
  obtain k where k: "d_size x = Suc k"
    using assms(3) gr0_implies_Suc by blast
  then show ?thesis
    using assms(1) toSignedInteger_eq [OF assms(2) k] by (simp add: signed_val_def repr_def)
qed

lemma repr_compare:
  assumes "repr G m a x" "repr G m b y" "d_size y = d_size x" "0 < d_size x" "bv_inv x" "bv_inv y"
  shows "truth G m (uLessThanBB a b False) \<longleftrightarrow> bv_unsignedLessThan x y"
    "truth G m (uLessThanBB a b True) \<longleftrightarrow> bv_unsignedLessThanEq x y"
    "truth G m (sLessThanBB a b False) \<longleftrightarrow> bv_signedLessThan G x y"
    "truth G m (sLessThanBB a b True) \<longleftrightarrow> bv_signedLessThanEq G x y"
    "truth G m (mkAnd_vector (bitwise mkIff (length a) a b)) \<longleftrightarrow> bv_eq x y"
    "boolish G m (mkAnd_vector (bitwise mkIff (length a) a b))"
proof -
  have ab: "bools G m a" "length a = length b" "a \<noteq> []" and len: "length a = d_size x"
    using assms(1-4) by (auto simp: repr_def)
  have val: "bits_val G m a = d_value x" "bits_val G m b = d_value y"
    using assms(1,2) by (simp_all add: repr_def)
  have sy: "signed_val G m b = bv_toSignedInteger G y"
    using signed_val_repr [OF assms(2,6)] assms(3,4) by simp
  show "truth G m (uLessThanBB a b False) \<longleftrightarrow> bv_unsignedLessThan x y"
    "truth G m (uLessThanBB a b True) \<longleftrightarrow> bv_unsignedLessThanEq x y"
    using uLessThanBB_truth [OF ab] val
    by (simp_all add: bv_unsignedLessThan_def bv_unsignedLessThanEq_def)
  show "truth G m (sLessThanBB a b False) \<longleftrightarrow> bv_signedLessThan G x y"
    "truth G m (sLessThanBB a b True) \<longleftrightarrow> bv_signedLessThanEq G x y"
    using sLessThanBB_truth [OF ab] signed_val_repr [OF assms(1,5,4)] sy
    by (simp_all add: bv_signedLessThan_def bv_signedLessThanEq_def)
  have eqs: "bools G m (bitwise mkIff (length a) a b)" "bitwise mkIff (length a) a b \<noteq> []"
    using ab len assms(4) by (auto simp: bitwise_def bools_def)
  then show "boolish G m (mkAnd_vector (bitwise mkIff (length a) a b))"
    by simp
  have "truth G m (mkAnd_vector (bitwise mkIff (length a) a b)) \<longleftrightarrow>
      (\<forall>i<length a. truth G m (a ! i) = truth G m (b ! i))"
    using eqs ab(1,2) by (auto simp: bitwise_def bools_nth)
  also have "\<dots> \<longleftrightarrow> map (truth G m) a = map (truth G m) b"
    using ab(2) by (auto simp: list_eq_iff_nth_eq)
  also have "\<dots> \<longleftrightarrow> bv_eq x y"
    using bval_inj [of "map (truth G m) a" "map (truth G m) b"] ab(2) val assms(3)
    by (simp add: bv_eq_def bits_val_def)
  finally show "truth G m (mkAnd_vector (bitwise mkIff (length a) a b)) \<longleftrightarrow> bv_eq x y" .
qed

lemma repr_bv_bool: "boolish G m p \<Longrightarrow> repr G m [p] (bv_bool G (truth G m p))"
  by (simp add: repr_def bv_bool_def)

lemma repr_predicates:
  assumes "repr G m a x" "repr G m b y" "d_size y = d_size x" "0 < d_size x" "bv_inv x" "bv_inv y"
  shows "repr G m [mkAnd_vector (bitwise mkIff (length a) a b)] (bv_bool G (bv_eq x y))"
    "repr G m [uLessThanBB a b False] (bv_bool G (bv_unsignedLessThan x y))"
    "repr G m [sLessThanBB a b False] (bv_bool G (bv_signedLessThan G x y))"
proof -
  note cmp = repr_compare [OF assms]
  show "repr G m [mkAnd_vector (bitwise mkIff (length a) a b)] (bv_bool G (bv_eq x y))"
    using repr_bv_bool [OF cmp(6)] by (simp only: cmp(5))
  show "repr G m [uLessThanBB a b False] (bv_bool G (bv_unsignedLessThan x y))"
    using repr_bv_bool [OF boolish_uLessThanBB] by (simp only: cmp(1) [symmetric])
  show "repr G m [sLessThanBB a b False] (bv_bool G (bv_signedLessThan G x y))"
    using repr_bv_bool [OF boolish_sLessThanBB] by (simp only: cmp(3) [symmetric])
qed

lemma bits_of_variable:
  assumes "bv_term n"
  shows "bits_of G m n (map (\<lambda>i. mkBit n i) [0..<getSize n])"
proof -
  note v = bv_term_value [OF assms, of m]
  have "getBit G (bvval G m n) i = bit (d_value (bvval G m n)) i" if "i < getSize n" for i
    using that v(2) extract_bit [OF v(1)] by (simp add: getBit_def)
  then show ?thesis
    unfolding bits_of_def using v bv_term_size(1) [OF assms] bv_inv_take_bit [OF v(1)]
    by (intro reprI_bits [where x = "d_value (bvval G m n)"])
      (auto simp: truth_mkBit bools_def boolish_mkBit)
qed

end

end
