(* ===== verification/Bitblaster_Sound.thy ===== *)
theory Bitblaster_Sound
  imports Bitblaster_Correct
begin

text \<open>
  The strategies keep the contract of \<^verbatim>\<open>bbTerm\<close>, and \<open>bbTerm\<close> satisfies it: on a well-typed term of
  the kinds that have a strategy, with fuel for its depth, it returns bits that denote the value of
  the term in every model.
\<close>

section \<open>Terms that have strategies\<close>

definition bb_operator :: "kind \<Rightarrow> bool" where
  "bb_operator k = (case k of
     K_BITVECTOR_NOT \<Rightarrow> True | K_BITVECTOR_CONCAT \<Rightarrow> True | K_BITVECTOR_AND \<Rightarrow> True
   | K_BITVECTOR_OR \<Rightarrow> True | K_BITVECTOR_XOR \<Rightarrow> True | K_BITVECTOR_XNOR \<Rightarrow> True
   | K_BITVECTOR_COMP \<Rightarrow> True | K_BITVECTOR_MULT \<Rightarrow> True | K_BITVECTOR_ADD \<Rightarrow> True
   | K_BITVECTOR_SUB \<Rightarrow> True | K_BITVECTOR_NEG \<Rightarrow> True | K_BITVECTOR_UDIV \<Rightarrow> True
   | K_BITVECTOR_UREM \<Rightarrow> True | K_BITVECTOR_SHL \<Rightarrow> True | K_BITVECTOR_LSHR \<Rightarrow> True
   | K_BITVECTOR_ASHR \<Rightarrow> True | K_BITVECTOR_ULTBV \<Rightarrow> True | K_BITVECTOR_SLTBV \<Rightarrow> True
   | K_BITVECTOR_ITE \<Rightarrow> True | K_BITVECTOR_EXTRACT h l \<Rightarrow> True | K_BITVECTOR_SIGN_EXTEND i \<Rightarrow> True
   | _ \<Rightarrow> False)"

definition bb_unimplemented :: "kind \<Rightarrow> bool" where
  "bb_unimplemented k = (case k of
     K_BITVECTOR_NAND \<Rightarrow> True | K_BITVECTOR_NOR \<Rightarrow> True | K_BITVECTOR_SDIV \<Rightarrow> True
   | K_BITVECTOR_SREM \<Rightarrow> True | K_BITVECTOR_SMOD \<Rightarrow> True | K_BITVECTOR_REPEAT i \<Rightarrow> True
   | K_BITVECTOR_ZERO_EXTEND i \<Rightarrow> True | K_BITVECTOR_ROTATE_LEFT i \<Rightarrow> True
   | K_BITVECTOR_ROTATE_RIGHT i \<Rightarrow> True | _ \<Rightarrow> False)"

fun bb_supported :: "node \<Rightarrow> bool" where
  "bb_supported (mkNode k ns) =
     (if bb_operator k then list_all bb_supported ns else \<not> bb_unimplemented k)"
| "bb_supported n = True"

fun depth :: "node \<Rightarrow> nat" where
  "depth (mkNode k ns) = Suc (foldr max (map depth ns) 0)"
| "depth n = 1"

lemma depth_child: "n \<in> set ns \<Longrightarrow> depth n < depth (mkNode k ns)"
proof -
  have "x \<in> set xs \<Longrightarrow> x \<le> foldr max xs 0" for x and xs :: "nat list"
    by (induction xs) auto
  then show "n \<in> set ns \<Longrightarrow> depth n < depth (mkNode k ns)"
    by (simp add: less_Suc_eq_le)
qed

section \<open>Types of the operands\<close>

lemma bv_term_child: "bv_term (mkNode k ns) \<Longrightarrow> n \<in> set ns \<Longrightarrow> firstClass n"
  by (simp add: bv_term_def list_all_iff)

lemma fixed_width_sizes:
  assumes "bv_term (mkNode k ns)" "\<And>ts. kind_type k ts = BitVectorFixedWidthTypeRule ts" "n \<in> set ns"
  shows "bv_term n \<and> getSize n = getSize (mkNode k ns)"
proof -
  obtain w where w: "getType (mkNode k ns) = Some (BITVECTOR_TYPE w)"
    using assms(1) by (auto simp: bv_term_def)
  have "ns \<noteq> []"
    using assms(3) by auto
  from fixed_width_children [OF w assms(2) this] assms(3)
  have "getType n = Some (BITVECTOR_TYPE w)" by simp
  with w bv_term_child [OF assms(1,3)] show ?thesis
    by (simp add: bv_term_def getSize_def del: getType.simps)
qed

lemma bv_term_arity: "bv_term (mkNode k ns) \<Longrightarrow> kind_arity k (length ns)"
  unfolding bv_term_def using getType_mkNode by blast

lemma arity_cases:
  assumes "bv_term (mkNode k ns)"
  shows "(\<And>n. kind_arity k n \<longleftrightarrow> n = 1) \<Longrightarrow> \<exists>a. ns = [a]"
    "(\<And>n. kind_arity k n \<longleftrightarrow> n = 2) \<Longrightarrow> \<exists>a b. ns = [a, b]"
    "(\<And>n. kind_arity k n \<longleftrightarrow> n = 3) \<Longrightarrow> \<exists>a b c. ns = [a, b, c]"
    "(\<And>n. kind_arity k n \<longleftrightarrow> n \<ge> 2) \<Longrightarrow> \<exists>a ns'. ns = a # ns'"
proof -
  note len = bv_term_arity [OF assms]
  show "\<exists>a. ns = [a]" if "\<And>n. kind_arity k n \<longleftrightarrow> n = 1"
    using len that by (cases ns) simp_all
  show "\<exists>a b. ns = [a, b]" if "\<And>n. kind_arity k n \<longleftrightarrow> n = 2"
    using len that by (cases ns; cases "tl ns") simp_all
  show "\<exists>a b c. ns = [a, b, c]" if "\<And>n. kind_arity k n \<longleftrightarrow> n = 3"
    using len that by (cases ns; cases "tl ns"; cases "tl (tl ns)") simp_all
  show "\<exists>a ns'. ns = a # ns'" if "\<And>n. kind_arity k n \<longleftrightarrow> n \<ge> 2"
    using len that by (cases ns) simp_all
qed

lemma bvpred_sizes:
  assumes "bv_term (mkNode k [a, b])" "\<And>ts. kind_type k ts = BitVectorBVPredTypeRule ts"
  shows "bv_term a \<and> bv_term b \<and> getSize b = getSize a \<and> getSize (mkNode k [a, b]) = 1"
proof -
  obtain w where w: "getType (mkNode k [a, b]) = Some (BITVECTOR_TYPE w)"
    using assms(1) by (auto simp: bv_term_def)
  have "bv_term a \<and> bv_term b \<and> getSize b = getSize a \<and> w = 1"
    using getType_mkNode [OF w] bv_term_child [OF assms(1)] assms(2)
    by (auto simp: BitVectorBVPredTypeRule_def bv_term_def getSize_def list_all2_Cons1
        elim!: isBitVectorE split: if_splits)
  with w show ?thesis by (simp add: getSize_def del: getType.simps)
qed

lemma ite_sizes:
  assumes "bv_term (mkNode K_BITVECTOR_ITE [c, a, b])"
  shows "bv_term c \<and> getSize c = 1 \<and> getSize a = getSize (mkNode K_BITVECTOR_ITE [c, a, b])
    \<and> getSize b = getSize a"
proof -
  obtain w where w: "getType (mkNode K_BITVECTOR_ITE [c, a, b]) = Some (BITVECTOR_TYPE w)"
    using assms(1) by (auto simp: bv_term_def)
  obtain t0 t1 t2 where ts: "getType c = Some t0" "getType a = Some t1" "getType b = Some t2"
    "BitVectorITETypeRule [t0, t1, t2] = Some (BITVECTOR_TYPE w)"
    using getType_mkNode [OF w] by (auto simp: kind_type_def list_all2_Cons1)
  have "firstClass c"
    using bv_term_child [OF assms(1), of c] by simp
  with ts have "bv_term c \<and> getSize c = 1 \<and> getSize a = w \<and> getSize b = w"
    by (simp add: BitVectorITETypeRule_def bv_term_def getSize_def split: if_splits)
  with w show ?thesis by (simp add: getSize_def del: getType.simps)
qed

lemma extract_sizes:
  assumes "bv_term (mkNode (K_BITVECTOR_EXTRACT h l) [a])"
  shows "l \<le> h \<and> h < getSize a"
proof -
  obtain w where w: "getType (mkNode (K_BITVECTOR_EXTRACT h l) [a]) = Some (BITVECTOR_TYPE w)"
    using assms(1) by (auto simp: bv_term_def)
  show ?thesis
    using getType_mkNode [OF w]
    by (auto simp: kind_type_def BitVectorExtractTypeRule_def getSize_def list_all2_Cons1
        elim!: isBitVectorE split: if_splits)
qed

lemma sign_extend_sizes:
  assumes "bv_term (mkNode (K_BITVECTOR_SIGN_EXTEND i) [a])"
  shows "getSize a + i < 2 ^ 32"
proof -
  obtain w where w: "getType (mkNode (K_BITVECTOR_SIGN_EXTEND i) [a]) = Some (BITVECTOR_TYPE w)"
    using assms(1) by (auto simp: bv_term_def)
  show ?thesis
    using getType_mkNode [OF w]
    by (auto simp: kind_type_def BitVectorExtendTypeRule_def getSize_def list_all2_Cons1
        checkBvResultSize_def Let_def elim!: isBitVectorE split: if_splits)
qed

lemma concat_sizes:
  assumes "bv_term (mkNode K_BITVECTOR_CONCAT ns)"
  shows "getSize (mkNode K_BITVECTOR_CONCAT ns) = sum_list (map getSize ns)
    \<and> sum_list (map getSize ns) < 2 ^ 32"
proof -
  obtain w where w: "getType (mkNode K_BITVECTOR_CONCAT ns) = Some (BITVECTOR_TYPE w)"
    using assms(1) by (auto simp: bv_term_def)
  obtain ts where ts: "list_all2 (\<lambda>n t. getType n = Some t) ns ts" "concatLoop 0 ts = Some (BITVECTOR_TYPE w)"
    "valid_type (BITVECTOR_TYPE w)"
    using getType_mkNode [OF w] by (auto simp: kind_type_def BitVectorConcatTypeRule_def)
  have "map getSize ns = map getBitVectorSize ts"
    using ts(1) by (induction ns ts rule: list_all2_induct) (simp_all add: getSize_def)
  with concatLoop_Some [OF ts(2)] ts(3) w show ?thesis
    by (simp add: getSize_def [of "mkNode _ _"] del: getType.simps)
qed

section \<open>The value of a concatenation\<close>

fun concat_value :: "bitvector list \<Rightarrow> int" where
  "concat_value [] = 0"
| "concat_value (b # bs) = d_value b * 2 ^ sum_list (map d_size bs) + concat_value bs"

lemma concat_loop_append:
  "concat_loop bb (xs @ ys) bits s =
    Option.bind (concat_loop bb xs bits s) (\<lambda>(bits, s). concat_loop bb ys bits s)"
  by (induction bb xs bits s rule: concat_loop.induct) (auto split: Option.bind_splits)

context gmp_documented
begin

lemma foldl_concat_value:
  assumes "bv_inv a" "list_all bv_inv bs" "d_size a + sum_list (map d_size bs) < 2 ^ 32"
  shows "d_value (foldl (bv_concat G) a bs) = concat_value (a # bs)"
  using assms
proof (induction bs arbitrary: a)
  case (Cons b bs)
  have "d_size a + d_size b < 2 ^ 32"
    using Cons.prems(3) by simp
  then have "d_size (bv_concat G a b) = d_size a + d_size b"
    "d_value (bv_concat G a b) = d_value a * 2 ^ d_size b + d_value b"
    using Cons.prems(1,2) value_concat [of a b] by simp_all
  then show ?case
    using Cons.IH [of "bv_concat G a b"] Cons.prems inv_sized(3) [of a b]
    by (simp add: algebra_simps power_add)
qed simp

end

section \<open>The contract of bbTerm\<close>

locale bb_provider = gmp_documented G for G :: gmp +
  fixes m :: model and bb :: bb_method and ok :: "node \<Rightarrow> bool"
  assumes ok_term: "ok n \<Longrightarrow> bv_term n"
    and bb_ok: "ok n \<Longrightarrow> cache_ok G m s \<Longrightarrow> bb_result G m n (bb n s)"
begin

lemma bbE:
  assumes "ok n" "cache_ok G m s"
  obtains bits s' where "bb n s = Some (bits, s')" "repr G m bits (bvval G m n)" "cache_ok G m s'"
  using bb_ok [OF assms] by (auto simp: bb_result_def bits_of_def)

lemma bb_resultI: "repr G m bits (bvval G m n) \<Longrightarrow> cache_ok G m s \<Longrightarrow> bb_result G m n (Some (bits, s))"
  by (simp add: bb_result_def bits_of_def)

lemma ok_value:
  assumes "ok n"
  shows "bv_inv (bvval G m n)" "d_size (bvval G m n) = getSize n"
  using bv_term_value [OF ok_term [OF assms]] by simp_all

lemma ok_size: "ok n \<Longrightarrow> 0 < getSize n"
  using bv_term_size [OF ok_term] by simp

section \<open>Strategies with a loop over the children\<close>

lemma children_loop_ok:
  assumes "\<And>bits x cur n. n \<in> set ns \<Longrightarrow> repr G m bits x \<Longrightarrow> bv_inv x \<Longrightarrow> d_size x = w \<Longrightarrow>
      repr G m cur (bvval G m n) \<Longrightarrow> repr G m (f bits cur) (g x (bvval G m n))"
    and "\<And>x y. bv_inv x \<Longrightarrow> bv_inv (g x y)" "\<And>x y. d_size (g x y) = d_size x"
    and "list_all ok ns" "repr G m bits x" "bv_inv x" "d_size x = w" "cache_ok G m s"
  shows "\<exists>bits' s'. children_loop f bb ns bits s = Some (bits', s') \<and> cache_ok G m s'
    \<and> repr G m bits' (foldl g x (map (bvval G m) ns))"
  using assms(1,4-)
proof (induction ns arbitrary: bits x s)
  case Nil
  then show ?case by simp
next
  case (Cons n ns)
  have "ok n" and rest: "list_all ok ns"
    using Cons.prems(2) by simp_all
  then obtain cur s' where b: "bb n s = Some (cur, s')" "repr G m cur (bvval G m n)" "cache_ok G m s'"
    using bbE [of n s] Cons.prems(6) by metis
  have "repr G m (f bits cur) (g x (bvval G m n))"
    using Cons.prems(1) [of n bits x cur] Cons.prems(3-5) b(2) by simp
  from Cons.IH [OF _ rest this, of s'] show ?case
    using Cons.prems(1,4,5) assms(2,3) b by simp
qed

lemma nary_strategy:
  assumes "bv_term (mkNode k (a # ns))" "list_all ok (a # ns)" "cache_ok G m s"
    and "\<And>ts. kind_type k ts = BitVectorFixedWidthTypeRule ts"
    and "bvval G m (mkNode k (a # ns)) = foldl g (bvval G m a) (map (bvval G m) ns)"
    and "\<And>bits x cur n. n \<in> set ns \<Longrightarrow> repr G m bits x \<Longrightarrow> bv_inv x \<Longrightarrow> d_size x = getSize (mkNode k (a # ns)) \<Longrightarrow>
      repr G m cur (bvval G m n) \<Longrightarrow> repr G m (f bits cur) (g x (bvval G m n))"
    and "\<And>x y. bv_inv x \<Longrightarrow> bv_inv (g x y)" "\<And>x y. d_size (g x y) = d_size x"
  shows "bb_result G m (mkNode k (a # ns))
    (Option.bind (bb a s) (\<lambda>(bits, s). children_loop f bb ns bits s))"
proof -
  have ok: "ok a" "list_all ok ns"
    using assms(2) by simp_all
  obtain bits s' where b: "bb a s = Some (bits, s')" "repr G m bits (bvval G m a)" "cache_ok G m s'"
    using bbE [OF ok(1) assms(3)] by metis
  have "d_size (bvval G m a) = getSize (mkNode k (a # ns))"
    using fixed_width_sizes [OF assms(1,4), of a] ok_value [OF ok(1)] by simp
  from children_loop_ok [where f = f and g = g, OF _ assms(7,8) ok(2) b(2) ok_value(1) [OF ok(1)] this b(3)] assms(6)
  show ?thesis
    using b(1) assms(5) by (auto simp: bb_result_def bits_of_def)
qed

lemma same_size:
  assumes "bv_term (mkNode k ns)" "\<And>ts. kind_type k ts = BitVectorFixedWidthTypeRule ts" "n \<in> set ns" "ok n"
  shows "d_size (bvval G m n) = getSize (mkNode k ns)" "0 < getSize (mkNode k ns)"
  using fixed_width_sizes [OF assms(1-3)] ok_value [OF assms(4)] ok_size [OF assms(4)] by simp_all

text \<open>The loops of the strategies for \<^verbatim>\<open>AND\<close>, \<^verbatim>\<open>OR\<close>, \<^verbatim>\<open>XOR\<close>, \<^verbatim>\<open>ADD\<close> and \<^verbatim>\<open>MULT\<close>.\<close>

lemma nary_strategy':
  assumes "bv_term (mkNode k ns)" "list_all ok ns" "cache_ok G m s"
    and "\<And>ts. kind_type k ts = BitVectorFixedWidthTypeRule ts" "\<And>n. kind_arity k n \<longleftrightarrow> n \<ge> 2"
    and "\<And>a ns. bvval G m (mkNode k (a # ns)) = foldl g (bvval G m a) (map (bvval G m) ns)"
    and "\<And>bits x cur y. repr G m bits x \<Longrightarrow> repr G m cur y \<Longrightarrow> d_size x = getSize (mkNode k ns) \<Longrightarrow>
      d_size y = d_size x \<Longrightarrow> 0 < d_size x \<Longrightarrow> repr G m (f bits cur) (g x y)"
    and "\<And>x y. bv_inv x \<Longrightarrow> bv_inv (g x y)" "\<And>x y. d_size (g x y) = d_size x"
  shows "bb_result G m (mkNode k ns)
    (Option.bind (bb (child (mkNode k ns) 0) s) (\<lambda>(bits, s). children_loop f bb (tl (children (mkNode k ns))) bits s))"
proof -
  obtain a ns' where ns: "ns = a # ns'"
    using arity_cases(4) [OF assms(1,5)] by blast
  have "repr G m (f bits cur) (g x (bvval G m n))"
    if "n \<in> set ns'" "repr G m bits x" "d_size x = getSize (mkNode k (a # ns'))" "repr G m cur (bvval G m n)"
    for n bits x cur
  proof -
    have n: "n \<in> set ns" "ok n"
      using that(1) assms(2) by (simp_all add: ns list_all_iff)
    note sz = same_size [OF assms(1,4) n, unfolded ns]
    show ?thesis
      by (rule assms(7) [OF that(2,4)]) (simp_all only: that(3) sz ns)
  qed
  from nary_strategy [OF assms(1) [unfolded ns] assms(2) [unfolded ns] assms(3,4,6) this assms(8,9)]
  show ?thesis
    unfolding ns child_def children.simps nth_Cons_0 list.sel .
qed

lemma nary_strategies_ok:
  assumes "bv_term (mkNode k ns)" "list_all ok ns" "cache_ok G m s"
  shows "k = K_BITVECTOR_AND \<Longrightarrow> bb_result G m (mkNode k ns) (DefaultAndBB bb (mkNode k ns) s)"
    "k = K_BITVECTOR_OR \<Longrightarrow> bb_result G m (mkNode k ns) (DefaultOrBB bb (mkNode k ns) s)"
    "k = K_BITVECTOR_XOR \<Longrightarrow> bb_result G m (mkNode k ns) (DefaultXorBB bb (mkNode k ns) s)"
    "k = K_BITVECTOR_ADD \<Longrightarrow> bb_result G m (mkNode k ns) (DefaultAddBB bb (mkNode k ns) s)"
    "k = K_BITVECTOR_MULT \<Longrightarrow> bb_result G m (mkNode k ns) (DefaultMultBB bb (mkNode k ns) s)"
proof -
  show "bb_result G m (mkNode k ns) (DefaultAndBB bb (mkNode k ns) s)" if "k = K_BITVECTOR_AND"
    unfolding DefaultAndBB_def
  proof (rule nary_strategy' [OF assms, where g = "bv_and G"])
    show "repr G m (bitwise mkAnd (getSize (mkNode k ns)) bits cur) (bv_and G x y)"
      if "repr G m bits x" "repr G m cur y" "d_size x = getSize (mkNode k ns)" "d_size y = d_size x" for bits x cur y
      using repr_bitwise(1) [OF that(1,2,4)] that(3) by simp
  qed (simp_all add: that bvval_nary inv_binary kind_type_def kind_arity_def)
  show "bb_result G m (mkNode k ns) (DefaultOrBB bb (mkNode k ns) s)" if "k = K_BITVECTOR_OR"
    unfolding DefaultOrBB_def
  proof (rule nary_strategy' [OF assms, where g = "bv_or G"])
    show "repr G m (bitwise mkOr (getSize (mkNode k ns)) bits cur) (bv_or G x y)"
      if "repr G m bits x" "repr G m cur y" "d_size x = getSize (mkNode k ns)" "d_size y = d_size x" for bits x cur y
      using repr_bitwise(2) [OF that(1,2,4)] that(3) by simp
  qed (simp_all add: that bvval_nary inv_binary kind_type_def kind_arity_def)
  show "bb_result G m (mkNode k ns) (DefaultXorBB bb (mkNode k ns) s)" if "k = K_BITVECTOR_XOR"
    unfolding DefaultXorBB_def
  proof (rule nary_strategy' [OF assms, where g = "bv_xor G"])
    show "repr G m (bitwise mkXor (getSize (mkNode k ns)) bits cur) (bv_xor G x y)"
      if "repr G m bits x" "repr G m cur y" "d_size x = getSize (mkNode k ns)" "d_size y = d_size x" for bits x cur y
      using repr_bitwise(3) [OF that(1,2,4)] that(3) by simp
  qed (simp_all add: that bvval_nary inv_binary kind_type_def kind_arity_def)
  show "bb_result G m (mkNode k ns) (DefaultAddBB bb (mkNode k ns) s)" if "k = K_BITVECTOR_ADD"
    unfolding DefaultAddBB_def
    by (rule nary_strategy' [OF assms, where g = "bv_add G"])
      (simp_all add: that bvval_nary inv_binary kind_type_def kind_arity_def repr_add)
  show "bb_result G m (mkNode k ns) (DefaultMultBB bb (mkNode k ns) s)" if "k = K_BITVECTOR_MULT"
    unfolding DefaultMultBB_def
    by (rule nary_strategy' [OF assms, where g = "bv_mult G"])
      (simp_all add: that bvval_nary inv_binary kind_type_def kind_arity_def repr_mult)
qed

section \<open>Strategies with one, two or three operands\<close>

lemma bb2E:
  assumes "ok a" "ok b" "cache_ok G m s"
  obtains as bs s1 s2 where "bb a s = Some (as, s1)" "bb b s1 = Some (bs, s2)"
    "repr G m as (bvval G m a)" "repr G m bs (bvval G m b)" "cache_ok G m s2"
  using bbE [OF assms(1,3)] bbE [OF assms(2)] by metis

lemma unary_strategies_ok:
  assumes "bv_term (mkNode k ns)" "list_all ok ns" "cache_ok G m s"
  shows "k = K_BITVECTOR_NOT \<Longrightarrow> bb_result G m (mkNode k ns) (DefaultNotBB bb (mkNode k ns) s)"
    "k = K_BITVECTOR_NEG \<Longrightarrow> bb_result G m (mkNode k ns) (DefaultNegBB bb (mkNode k ns) s)"
proof -
  have arity: "\<exists>a. ns = [a]" if "\<And>n. kind_arity k n \<longleftrightarrow> n = 1"
    by (rule arity_cases(1) [OF assms(1) that])
  show "bb_result G m (mkNode k ns) (DefaultNotBB bb (mkNode k ns) s)" if k: "k = K_BITVECTOR_NOT"
  proof -
    obtain a where ns: "ns = [a]"
      using arity by (auto simp: k kind_arity_def)
    obtain bits s' where b: "bb a s = Some (bits, s')" "repr G m bits (bvval G m a)" "cache_ok G m s'"
      using bbE [of a s] assms(2,3) by (auto simp: ns)
    show ?thesis
      using b repr_not [OF b(2)]
      by (simp add: DefaultNotBB_def ns k child_def bvval_unary bb_resultI)
  qed
  show "bb_result G m (mkNode k ns) (DefaultNegBB bb (mkNode k ns) s)" if k: "k = K_BITVECTOR_NEG"
  proof -
    obtain a where ns: "ns = [a]"
      using arity by (auto simp: k kind_arity_def)
    have ok: "ok a"
      using assms(2) by (simp add: ns)
    have "d_size (bvval G m a) = getSize (mkNode k ns)"
      by (rule same_size(1) [OF assms(1)]) (simp_all add: k kind_type_def ns ok)
    moreover obtain bits s' where b: "bb a s = Some (bits, s')" "repr G m bits (bvval G m a)" "cache_ok G m s'"
      using bbE [OF ok assms(3)] by metis
    ultimately show ?thesis
      using repr_neg [OF b(2)]
      by (simp add: DefaultNegBB_def ns k child_def bvval_unary bb_resultI Let_def)
  qed
qed

lemma binary_operands:
  assumes "bv_term (mkNode k ns)" "list_all ok ns" "cache_ok G m s"
    and "\<And>ts. kind_type k ts = BitVectorFixedWidthTypeRule ts" "\<And>n. kind_arity k n \<longleftrightarrow> n = 2"
  obtains a b as bs s1 s2 where "ns = [a, b]" "bb a s = Some (as, s1)" "bb b s1 = Some (bs, s2)"
    "repr G m as (bvval G m a)" "repr G m bs (bvval G m b)" "cache_ok G m s2"
    "d_size (bvval G m a) = getSize (mkNode k ns)" "d_size (bvval G m b) = d_size (bvval G m a)"
    "0 < d_size (bvval G m a)" "bv_inv (bvval G m a)" "bv_inv (bvval G m b)"
proof -
  obtain a b where ns: "ns = [a, b]"
    using arity_cases(2) [OF assms(1,5)] by blast
  have ok: "ok a" "ok b"
    using assms(2) by (simp_all add: ns)
  obtain as bs s1 s2 where "bb a s = Some (as, s1)" "bb b s1 = Some (bs, s2)"
    "repr G m as (bvval G m a)" "repr G m bs (bvval G m b)" "cache_ok G m s2"
    using bb2E [OF ok assms(3)] by metis
  moreover have "a \<in> set ns" "b \<in> set ns"
    by (simp_all add: ns)
  note same_size [OF assms(1,4) this(1) ok(1)] same_size(1) [OF assms(1,4) this(2) ok(2)]
  ultimately show thesis
    using that ns ok_value(1) [OF ok(1)] ok_value(1) [OF ok(2)] by metis
qed

lemma binary_strategies_ok:
  assumes "bv_term (mkNode k ns)" "list_all ok ns" "cache_ok G m s"
  shows "k = K_BITVECTOR_XNOR \<Longrightarrow> bb_result G m (mkNode k ns) (DefaultXnorBB bb (mkNode k ns) s)"
    "k = K_BITVECTOR_SUB \<Longrightarrow> bb_result G m (mkNode k ns) (DefaultSubBB bb (mkNode k ns) s)"
    "k = K_BITVECTOR_SHL \<Longrightarrow> bb_result G m (mkNode k ns) (DefaultShlBB G bb (mkNode k ns) s)"
    "k = K_BITVECTOR_LSHR \<Longrightarrow> bb_result G m (mkNode k ns) (DefaultLshrBB G bb (mkNode k ns) s)"
    "k = K_BITVECTOR_ASHR \<Longrightarrow> bb_result G m (mkNode k ns) (DefaultAshrBB G bb (mkNode k ns) s)"
proof -
  note ops = binary_operands [OF assms]
  show "bb_result G m (mkNode k ns) (DefaultXnorBB bb (mkNode k ns) s)" if k: "k = K_BITVECTOR_XNOR"
  proof (rule ops)
    fix a b as bs s1 s2
    assume h: "ns = [a, b]" "bb a s = Some (as, s1)" "bb b s1 = Some (bs, s2)"
      "repr G m as (bvval G m a)" "repr G m bs (bvval G m b)" "cache_ok G m s2"
      "d_size (bvval G m b) = d_size (bvval G m a)"
    have "length as = d_size (bvval G m a)"
      using h(4) by (simp add: repr_def)
    then show ?thesis
      using h repr_bitwise(4) [OF h(4,5,7)]
      by (simp add: DefaultXnorBB_def k child_def bvval_binary bb_resultI)
  qed (simp_all add: k kind_type_def kind_arity_def)
  show "bb_result G m (mkNode k ns) (DefaultSubBB bb (mkNode k ns) s)" if k: "k = K_BITVECTOR_SUB"
    by (rule ops)
      (auto simp: k kind_type_def kind_arity_def DefaultSubBB_def child_def bvval_binary Let_def
        intro!: bb_resultI repr_sub)
  show "bb_result G m (mkNode k ns) (DefaultShlBB G bb (mkNode k ns) s)" if k: "k = K_BITVECTOR_SHL"
    by (rule ops)
      (auto simp: k kind_type_def kind_arity_def DefaultShlBB_def child_def bvval_binary Let_def
        intro!: bb_resultI repr_shifts(1))
  show "bb_result G m (mkNode k ns) (DefaultLshrBB G bb (mkNode k ns) s)" if k: "k = K_BITVECTOR_LSHR"
    by (rule ops)
      (auto simp: k kind_type_def kind_arity_def DefaultLshrBB_def child_def bvval_binary Let_def
        intro!: bb_resultI repr_shifts(2))
  show "bb_result G m (mkNode k ns) (DefaultAshrBB G bb (mkNode k ns) s)" if k: "k = K_BITVECTOR_ASHR"
    by (rule ops)
      (auto simp: k kind_type_def kind_arity_def DefaultAshrBB_def child_def bvval_binary Let_def
        intro!: bb_resultI repr_shifts(3))
qed

lemma division_strategies_ok:
  assumes "bv_term (mkNode k ns)" "list_all ok ns" "cache_ok G m s"
  shows "k = K_BITVECTOR_UDIV \<Longrightarrow> bb_result G m (mkNode k ns) (DefaultUdivBB bb (mkNode k ns) s)"
    "k = K_BITVECTOR_UREM \<Longrightarrow> bb_result G m (mkNode k ns) (DefaultUremBB bb (mkNode k ns) s)"
proof -
  note ops = binary_operands [OF assms]
  show "bb_result G m (mkNode k ns) (DefaultUdivBB bb (mkNode k ns) s)" if k: "k = K_BITVECTOR_UDIV"
    by (rule ops)
      (auto simp: k kind_type_def kind_arity_def DefaultUdivBB_def UdivUremBB_def child_def bvval_binary
        split: prod.splits intro!: bb_resultI intro: repr_divrem(1))
  show "bb_result G m (mkNode k ns) (DefaultUremBB bb (mkNode k ns) s)" if k: "k = K_BITVECTOR_UREM"
    by (rule ops)
      (auto simp: k kind_type_def kind_arity_def DefaultUremBB_def UdivUremBB_def child_def bvval_binary
        split: prod.splits intro!: bb_resultI intro: repr_divrem(2))
qed

lemma predicate_operands:
  assumes "bv_term (mkNode k ns)" "list_all ok ns" "cache_ok G m s"
    and "\<And>ts. kind_type k ts = BitVectorBVPredTypeRule ts" "\<And>n. kind_arity k n \<longleftrightarrow> n = 2"
  obtains a b as bs s1 s2 where "ns = [a, b]" "bb a s = Some (as, s1)" "bb b s1 = Some (bs, s2)"
    "repr G m as (bvval G m a)" "repr G m bs (bvval G m b)" "cache_ok G m s2"
    "d_size (bvval G m b) = d_size (bvval G m a)" "0 < d_size (bvval G m a)"
    "bv_inv (bvval G m a)" "bv_inv (bvval G m b)"
proof -
  obtain a b where ns: "ns = [a, b]"
    using arity_cases(2) [OF assms(1,5)] by blast
  have ok: "ok a" "ok b"
    using assms(2) by (simp_all add: ns)
  have "d_size (bvval G m b) = d_size (bvval G m a)" "0 < d_size (bvval G m a)"
    using bvpred_sizes [OF assms(1) [unfolded ns] assms(4)] ok_value(2) [OF ok(1)] ok_value(2) [OF ok(2)]
      ok_size [OF ok(1)] by simp_all
  then show thesis
    using bb2E [OF ok assms(3)] that ns ok_value(1) [OF ok(1)] ok_value(1) [OF ok(2)] by metis
qed

lemma predicate_strategies_ok:
  assumes "bv_term (mkNode k ns)" "list_all ok ns" "cache_ok G m s"
  shows "k = K_BITVECTOR_COMP \<Longrightarrow> bb_result G m (mkNode k ns) (DefaultCompBB bb (mkNode k ns) s)"
    "k = K_BITVECTOR_ULTBV \<Longrightarrow> bb_result G m (mkNode k ns) (DefaultUltbvBB bb (mkNode k ns) s)"
    "k = K_BITVECTOR_SLTBV \<Longrightarrow> bb_result G m (mkNode k ns) (DefaultSltbvBB bb (mkNode k ns) s)"
proof -
  note ops = predicate_operands [OF assms]
  show "bb_result G m (mkNode k ns) (DefaultCompBB bb (mkNode k ns) s)" if k: "k = K_BITVECTOR_COMP"
    by (rule ops)
      (auto simp: k kind_type_def kind_arity_def DefaultCompBB_def child_def bvval_binary Let_def
        intro!: bb_resultI repr_predicates)
  show "bb_result G m (mkNode k ns) (DefaultUltbvBB bb (mkNode k ns) s)" if k: "k = K_BITVECTOR_ULTBV"
    by (rule ops)
      (auto simp: k kind_type_def kind_arity_def DefaultUltbvBB_def child_def bvval_binary
        intro!: bb_resultI repr_predicates)
  show "bb_result G m (mkNode k ns) (DefaultSltbvBB bb (mkNode k ns) s)" if k: "k = K_BITVECTOR_SLTBV"
    by (rule ops)
      (auto simp: k kind_type_def kind_arity_def DefaultSltbvBB_def child_def bvval_binary
        intro!: bb_resultI repr_predicates)
qed

lemma DefaultIteBB_ok:
  assumes "bv_term (mkNode K_BITVECTOR_ITE ns)" "list_all ok ns" "cache_ok G m s"
  shows "bb_result G m (mkNode K_BITVECTOR_ITE ns) (DefaultIteBB bb (mkNode K_BITVECTOR_ITE ns) s)"
proof -
  obtain c a b where ns: "ns = [c, a, b]"
    using arity_cases(3) [OF assms(1)] by (auto simp: kind_arity_def)
  have ok: "ok c" "ok a" "ok b"
    using assms(2) by (simp_all add: ns)
  obtain cs s0 where c: "bb c s = Some (cs, s0)" "repr G m cs (bvval G m c)" "cache_ok G m s0"
    using bbE [OF ok(1) assms(3)] by metis
  obtain as bs s1 s2 where h: "bb a s0 = Some (as, s1)" "bb b s1 = Some (bs, s2)"
    "repr G m as (bvval G m a)" "repr G m bs (bvval G m b)" "cache_ok G m s2"
    using bb2E [OF ok(2,3) c(3)] by metis
  note sz = ite_sizes [OF assms(1) [unfolded ns]]
  have "length cs = 1" and cv: "bits_val G m cs = d_value (bvval G m c)" "d_size (bvval G m c) = 1"
    using c(2) sz ok_value(2) [OF ok(1)] by (simp_all add: repr_def)
  then have "d_value (bvval G m c) = of_bool (truth G m (cs ! 0))"
    by (auto simp: length_Suc_conv)
  then have cond: "bv_eq (bvval G m c) (mk_bv G 1 1) \<longleftrightarrow> truth G m (cs ! 0)"
    using cv(2) by (simp add: bv_eq_def)
  have len: "length as = d_size (bvval G m a)" "length bs = d_size (bvval G m a)"
    using h(3,4) sz ok_value(2) [OF ok(2)] ok_value(2) [OF ok(3)] by (simp_all add: repr_def)
  define res where "res = map (\<lambda>i. mkAnd_array [mkOr (mkNot (cs ! 0)) (as ! i), mkOr (cs ! 0) (bs ! i)]) [0..<length as]"
  have "bits_val G m res = (if truth G m (cs ! 0) then bits_val G m as else bits_val G m bs)"
    by (rule bit_eqI) (auto simp: res_def bit_bits_val len)
  then have "repr G m res (if truth G m (cs ! 0) then bvval G m a else bvval G m b)"
    using h(3,4) len sz ok_value(2) [OF ok(2)] ok_value(2) [OF ok(3)]
    by (auto simp: repr_def res_def bools_def)
  then show ?thesis
    using c(1) h cond by (simp add: ns DefaultIteBB_def child_def bvval_ite bb_resultI res_def)
qed

lemma DefaultExtractBB_ok:
  assumes "bv_term (mkNode (K_BITVECTOR_EXTRACT h l) ns)" "list_all ok ns" "cache_ok G m s"
  shows "bb_result G m (mkNode (K_BITVECTOR_EXTRACT h l) ns)
    (DefaultExtractBB h l bb (mkNode (K_BITVECTOR_EXTRACT h l) ns) s)"
proof -
  obtain a where ns: "ns = [a]"
    using arity_cases(1) [OF assms(1)] by (auto simp: kind_arity_def)
  have ok: "ok a"
    using assms(2) by (simp add: ns)
  obtain as s' where b: "bb a s = Some (as, s')" "repr G m as (bvval G m a)" "cache_ok G m s'"
    using bbE [OF ok assms(3)] by metis
  have hl: "l \<le> h" "h < d_size (bvval G m a)"
    using extract_sizes [OF assms(1) [unfolded ns]] ok_value(2) [OF ok] by simp_all
  have ext: "map (\<lambda>i. as ! i) [l..<h + 1] = extractBits as l h"
    by (simp add: extractBits_def)
  have "repr G m (extractBits as l h) (bv_extract G (bvval G m a) h l)"
    using b(2) hl val_extractBits [of h as l G m] size_extract [OF ok_value(1) [OF ok] hl]
      value_extract [OF ok_value(1) [OF ok] hl]
    by (auto simp: repr_def)
  then show ?thesis
    using b ext by (simp add: ns DefaultExtractBB_def child_def bvval_unary bb_resultI del: upt_Suc)
qed

lemma DefaultSignExtendBB_ok:
  assumes "bv_term (mkNode (K_BITVECTOR_SIGN_EXTEND k) ns)" "list_all ok ns" "cache_ok G m s"
  shows "bb_result G m (mkNode (K_BITVECTOR_SIGN_EXTEND k) ns)
    (DefaultSignExtendBB k bb (mkNode (K_BITVECTOR_SIGN_EXTEND k) ns) s)"
proof -
  obtain a where ns: "ns = [a]"
    using arity_cases(1) [OF assms(1)] by (auto simp: kind_arity_def)
  have ok: "ok a"
    using assms(2) by (simp add: ns)
  obtain as s' where b: "bb a s = Some (as, s')" "repr G m as (bvval G m a)" "cache_ok G m s'"
    using bbE [OF ok assms(3)] by metis
  obtain j where j: "d_size (bvval G m a) = Suc j"
    using ok_size [OF ok] ok_value(2) [OF ok] gr0_implies_Suc by metis
  have len: "length as = Suc j" "as \<noteq> []" and bo: "bools G m as"
    using b(2) j by (auto simp: repr_def)
  have small: "d_size (bvval G m a) + k < 2 ^ 32"
    using sign_extend_sizes [OF assms(1) [unfolded ns]] ok_value(2) [OF ok] by simp
  have la: "last as = as ! j"
    using len by (simp add: last_conv_nth)
  have "repr G m (as @ map (\<lambda>i. last as) [0..<k]) (bv_signExtend G (bvval G m a) k)"
  proof (rule reprI_bits)
    show "d_value (bv_signExtend G (bvval G m a) k) =
        take_bit (d_size (bv_signExtend G (bvval G m a) k)) (signed_take_bit j (d_value (bvval G m a)))"
      using value_signExtend [OF ok_value(1) [OF ok] j small] small by simp
    show "bools G m (as @ map (\<lambda>i. last as) [0..<k])"
      using bo len la by (auto simp: bools_def)
    show "truth G m ((as @ map (\<lambda>i. last as) [0..<k]) ! i) = bit (signed_take_bit j (d_value (bvval G m a))) i"
      if "i < d_size (bv_signExtend G (bvval G m a) k)" for i
      using that small len la j repr_bit [OF b(2), of i] repr_bit [OF b(2), of j]
      by (cases "i = j") (auto simp: nth_append bit_signed_take_bit_iff min_def)
  qed (use small len j in simp)
  then show ?thesis
    using b by (simp add: ns DefaultSignExtendBB_def child_def bvval_unary bb_resultI Let_def)
qed

lemma concat_loop_ok:
  assumes "list_all ok ns" "cache_ok G m s"
  shows "\<exists>bits s'. concat_loop bb (rev ns) [] s = Some (bits, s') \<and> cache_ok G m s' \<and> bools G m bits
    \<and> length bits = sum_list (map getSize ns) \<and> bits_val G m bits = concat_value (map (bvval G m) ns)"
  using assms
proof (induction ns)
  case Nil
  then show ?case by simp
next
  case (Cons n ns)
  have ok: "ok n" "list_all ok ns"
    using Cons.prems(1) by simp_all
  from Cons.IH [OF ok(2) Cons.prems(2)] obtain bits s' where
    IH: "concat_loop bb (rev ns) [] s = Some (bits, s')" "cache_ok G m s'" "bools G m bits"
      "length bits = sum_list (map getSize ns)" "bits_val G m bits = concat_value (map (bvval G m) ns)"
    by blast
  obtain cur s'' where b: "bb n s' = Some (cur, s'')" "repr G m cur (bvval G m n)" "cache_ok G m s''"
    using bbE [OF ok(1) IH(2)] by metis
  have len: "length cur = getSize n"
    using b(2) ok_value(2) [OF ok(1)] by (simp add: repr_def)
  have "map d_size (map (bvval G m) ns) = map getSize ns"
    using ok(2) ok_value(2) by (auto simp: list_all_iff)
  then have "bits_val G m (bits @ cur) = concat_value (map (bvval G m) (n # ns))"
    using b(2) IH(4,5) by (simp add: bits_val_append repr_def del: map_map)
  moreover have "concat_loop bb (rev (n # ns)) [] s = Some (bits @ cur, s'')"
    using IH(1) b(1) map_nth [of cur] by (simp add: concat_loop_append len)
  ultimately show ?case
    using b IH len by (simp add: repr_def)
qed

lemma DefaultConcatBB_ok:
  assumes "bv_term (mkNode K_BITVECTOR_CONCAT ns)" "list_all ok ns" "cache_ok G m s"
  shows "bb_result G m (mkNode K_BITVECTOR_CONCAT ns) (DefaultConcatBB bb (mkNode K_BITVECTOR_CONCAT ns) s)"
proof -
  obtain a ns' where ns: "ns = a # ns'"
    using arity_cases(4) [OF assms(1)] by (auto simp: kind_arity_def)
  have ok: "ok a" "list_all ok ns'"
    using assms(2) by (simp_all add: ns)
  have sizes: "map d_size (map (bvval G m) ns') = map getSize ns'"
    using ok(2) ok_value(2) by (auto simp: list_all_iff)
  have inv: "list_all bv_inv (map (bvval G m) ns')"
    using ok(2) ok_value(1) by (auto simp: list_all_iff)
  have small: "d_size (bvval G m a) + sum_list (map d_size (map (bvval G m) ns')) < 2 ^ 32"
    unfolding sizes using concat_sizes [OF assms(1)] ok_value(2) [OF ok(1)] by (simp add: ns)
  note val = foldl_concat_value [OF ok_value(1) [OF ok(1)] inv small]
  note sz = foldl_concat_sized [OF ok_value(1) [OF ok(1)] small, THEN conjunct2, unfolded sizes]
  from concat_loop_ok [OF assms(2,3)] obtain bits s' where
    "concat_loop bb (rev ns) [] s = Some (bits, s')" "cache_ok G m s'" "bools G m bits"
      "length bits = sum_list (map getSize ns)" "bits_val G m bits = concat_value (map (bvval G m) ns)"
    by blast
  then show ?thesis
    using val sz ok_value(2) [OF ok(1)] unfolding ns
    by (simp add: DefaultConcatBB_def bb_result_def bits_of_def bvval_nary repr_def)
qed

section \<open>Every strategy of the table\<close>

lemma d_termBBStrategies_ok:
  assumes "bv_term (mkNode k ns)" "bb_operator k" "list_all ok ns" "cache_ok G m s"
  shows "bb_result G m (mkNode k ns) (d_termBBStrategies G bb (mkNode k ns) s)"
  using assms(2) unary_strategies_ok [OF assms(1,3,4)] binary_strategies_ok [OF assms(1,3,4)]
    nary_strategies_ok [OF assms(1,3,4)] division_strategies_ok [OF assms(1,3,4)]
    predicate_strategies_ok [OF assms(1,3,4)] DefaultIteBB_ok [OF _ assms(3,4)]
    DefaultExtractBB_ok [OF _ assms(3,4)] DefaultSignExtendBB_ok [OF _ assms(3,4)]
    DefaultConcatBB_ok [OF _ assms(3,4)] assms(1)
  by (cases k) (simp_all add: bb_operator_def d_termBBStrategies_def)

end

section \<open>The provider\<close>

definition bb_term :: "nat \<Rightarrow> node \<Rightarrow> bool" where
  "bb_term d n \<longleftrightarrow> bv_term n \<and> bb_supported n \<and> depth n \<le> d"

lemma operator_operand_types:
  assumes "bb_operator k" "kind_type k ts = Some (BITVECTOR_TYPE w)" "kind_arity k (length ts)" "ts \<noteq> []"
  shows "\<forall>t\<in>set ts. isBitVector t"
proof -
  have fixed: "\<forall>t\<in>set ts. isBitVector t" if "BitVectorFixedWidthTypeRule ts = Some (BITVECTOR_TYPE w)"
    using BitVectorFixedWidthTypeRule_Some [OF that assms(4)] by auto
  have conc: "\<forall>t\<in>set ts. isBitVector t" if "BitVectorConcatTypeRule ts = Some (BITVECTOR_TYPE w)"
    using concatLoop_Some [of 0 ts] that by (auto simp: BitVectorConcatTypeRule_def list_all_iff)
  have pred: "\<forall>t\<in>set ts. isBitVector t"
    if "BitVectorBVPredTypeRule ts = Some (BITVECTOR_TYPE w)" "length ts = 2"
    using that by (cases ts; cases "tl ts") (auto simp: BitVectorBVPredTypeRule_def split: if_splits)
  have ite: "\<forall>t\<in>set ts. isBitVector t"
    if "BitVectorITETypeRule ts = Some (BITVECTOR_TYPE w)" "length ts = 3"
    using that
    by (cases ts; cases "tl ts"; cases "tl (tl ts)") (auto simp: BitVectorITETypeRule_def split: if_splits)
  have ext: "\<forall>t\<in>set ts. isBitVector t" if "isBitVector (ts ! 0)" "length ts = 1"
    using that by (cases ts) auto
  show ?thesis
    using assms(1-3) fixed conc pred ite ext
    by (cases k)
      (auto simp: bb_operator_def kind_type_def kind_arity_def BitVectorExtractTypeRule_def
        BitVectorExtendTypeRule_def Let_def split: if_splits)
qed

lemma operator_children_bv_term:
  assumes "bv_term (mkNode k ns)" "bb_operator k" "n \<in> set ns"
  shows "bv_term n"
proof -
  obtain w where w: "getType (mkNode k ns) = Some (BITVECTOR_TYPE w)"
    using assms(1) by (auto simp: bv_term_def)
  obtain ts where ts: "list_all2 (\<lambda>n t. getType n = Some t) ns ts" "kind_arity k (length ns)"
    "kind_type k ts = Some (BITVECTOR_TYPE w)"
    using getType_mkNode [OF w] by blast
  obtain i where i: "n = ns ! i" "i < length ns"
    using assms(3) by (auto simp: in_set_conv_nth)
  have len: "length ts = length ns"
    using ts(1) by (simp add: list_all2_lengthD)
  then have "ts \<noteq> []" "kind_arity k (length ts)" "ts ! i \<in> set ts"
    using ts(2) i(2) by auto
  with operator_operand_types [OF assms(2) ts(3)] have "isBitVector (ts ! i)"
    by blast
  moreover have "getType n = Some (ts ! i)"
    using list_all2_nthD [OF ts(1) i(2)] i(1) by simp
  ultimately show ?thesis
    using bv_term_child [OF assms(1,3)] by (auto simp: bv_term_def elim: isBitVectorE)
qed

lemma bb_term_children:
  assumes "bb_term (Suc d) (mkNode k ns)" "bb_operator k"
  shows "list_all (bb_term d) ns"
  unfolding list_all_iff
proof
  fix n
  assume n: "n \<in> set ns"
  have "depth n \<le> d"
    using depth_child [OF n, of k] assms(1) unfolding bb_term_def by simp
  moreover have "bv_term n"
    using operator_children_bv_term [OF _ assms(2) n] assms(1) by (simp add: bb_term_def)
  ultimately show "bb_term d n"
    using assms n by (simp add: bb_term_def list_all_iff)
qed

lemma variable_strategy:
  assumes "\<not> bb_operator k" "\<not> bb_unimplemented k"
  shows "d_termBBStrategies G bb (mkNode k ns) s = DefaultVarBB (mkNode k ns) s"
  using assms by (cases k) (simp_all add: bb_operator_def bb_unimplemented_def d_termBBStrategies_def)

context gmp_documented
begin

lemma DefaultVarBB_ok:
  assumes "bv_term n" "cache_ok G m s"
  shows "bb_result G m n (DefaultVarBB n s)"
  using bits_of_variable [OF assms(1)] assms(2)
  by (simp add: bb_result_def DefaultVarBB_def makeVariable_def cache_ok_def)

lemma storeBBTerm_ok:
  "cache_ok G m s \<Longrightarrow> bits_of G m n bits \<Longrightarrow> cache_ok G m (storeBBTerm n bits s)"
  by (simp add: cache_ok_def storeBBTerm_def)

lemma strategy_ok:
  assumes provider: "bb_provider G m bb (bb_term d)" and "bb_term (Suc d) n" "cache_ok G m s"
  shows "bb_result G m n (d_termBBStrategies G bb n s)"
proof (cases n)
  case (CONST_BITVECTOR b)
  then have "bv_inv b" "0 < d_size b"
    using assms(2) by (auto simp: bb_term_def bv_term_def BitVectorConstantTypeRule_def split: if_splits)
  then show ?thesis
    using repr_const [of b m] assms(3)
    by (simp add: CONST_BITVECTOR d_termBBStrategies_def DefaultConstBB_def bb_result_def bits_of_def bvval_const)
next
  case (VARIABLE x t)
  then show ?thesis
    using DefaultVarBB_ok [of n m s] assms(2,3) by (simp add: d_termBBStrategies_def bb_term_def)
next
  case (mkNode k ns)
  have t: "bv_term (mkNode k ns)"
    using assms(2) by (simp add: mkNode bb_term_def)
  show ?thesis
  proof (cases "bb_operator k")
    case True
    then show ?thesis
      using bb_provider.d_termBBStrategies_ok [OF provider t True _ assms(3)]
        bb_term_children [OF assms(2) [unfolded mkNode] True] by (simp add: mkNode)
  next
    case False
    then have "\<not> bb_unimplemented k"
      using assms(2) by (simp add: mkNode bb_term_def)
    then show ?thesis
      using variable_strategy [OF False] DefaultVarBB_ok [OF t assms(3)] by (simp add: mkNode)
  qed
qed (use assms(2) in \<open>auto simp: bb_term_def bv_term_def\<close>)

lemma bbTerm_ok:
  assumes "bb_term d n" "cache_ok G m s"
  shows "bb_result G m n (bbTerm G d n s)"
  using assms
proof (induction d arbitrary: n s)
  case 0
  then show ?case
    by (cases n) (simp_all add: bb_term_def)
next
  case (Suc d)
  have provider: "bb_provider G m (bbTerm G d) (bb_term d)"
    by unfold_locales (simp_all add: Suc.IH, simp add: bb_term_def)
  show ?case
  proof (cases "hasBBTerm n s")
    case True
    then show ?thesis
      using Suc.prems(2) by (auto simp: hasBBTerm_def getBBTerm_def bb_result_def cache_ok_def)
  next
    case False
    obtain bits s' where "d_termBBStrategies G (bbTerm G d) n s = Some (bits, s')"
      "bits_of G m n bits" "cache_ok G m s'"
      using strategy_ok [OF provider Suc.prems] by (auto simp: bb_result_def)
    with False show ?thesis
      using storeBBTerm_ok [of m s' n bits] by (simp add: bb_result_def)
  qed
qed

lemma bbTerm_provider: "bb_provider G m (bbTerm G d) (bb_term d)"
  by unfold_locales (simp_all add: bbTerm_ok, simp add: bb_term_def)

end

interpretation node_bb: bb_provider gmp_reference m "bbTerm gmp_reference d" "bb_term d" for m d
  by (rule gmp_ref.bbTerm_provider)

end
