(* ===== verification/Bitblaster_Atoms.thy ===== *)
theory Bitblaster_Atoms
  imports Bitblaster_Sound
begin

text \<open>
  Bit-blasting of atoms, the reading of a model from the SAT solver, and the properties of the
  bit-blaster as a whole.  The rewriter is a parameter of \<^verbatim>\<open>bbAtom\<close>; \<open>rewriter_sound\<close> states
  what the code relies on: rewriting preserves the truth of a term and keeps a negation well
  formed.
\<close>

definition rewriter_sound :: "gmp \<Rightarrow> model \<Rightarrow> (node \<Rightarrow> node) \<Rightarrow> bool" where
  "rewriter_sound G m rw \<longleftrightarrow>
     (\<forall>n. truth G m (rw n) = truth G m n \<and> (wf_not n \<longrightarrow> wf_not (rw n)))"

text \<open>The atoms that have a strategy, over terms that can be bit-blasted.\<close>

definition bb_atom :: "nat \<Rightarrow> node \<Rightarrow> bool" where
  "bb_atom d n \<longleftrightarrow> isBoolean n \<and>
     (\<exists>k a b. n = mkNode k [a, b] \<and> bb_term d a \<and> bb_term d b \<and>
       k \<in> {K_EQUAL, K_BITVECTOR_ULT, K_BITVECTOR_ULE, K_BITVECTOR_SLT, K_BITVECTOR_SLE})"

section \<open>Atom strategies\<close>

lemma wf_not_gates [simp]:
  "wf_not (mkNode K_OR ns)" "wf_not (mkNode K_AND ns)" "wf_not (mkIff a b)" "wf_not (mkNot a)"
  "wf_not (CONST_BOOLEAN c)" "wf_not (mkNode (K_BITVECTOR_BIT i) ns)"
  by (simp_all add: wf_not_def mkIff_def mkNot_def)

lemma wf_not_foldl:
  "wf_not r \<Longrightarrow> (\<And>r i. wf_not (f r i)) \<Longrightarrow> wf_not (foldl f r is)"
  by (induction "is" arbitrary: r) auto

lemma wf_not_circuits:
  "wf_not (uLessThanBB a b e)" "wf_not (sLessThanBB a b e)"
  "0 < n \<Longrightarrow> wf_not (mkAnd_vector (bitwise mkIff n a b))"
  by (auto simp: uLessThanBB_def sLessThanBB_def Let_def mkOr_def mkAnd_def mkOr_array_def
      mkAnd_vector_def bitwise_def intro!: wf_not_foldl)

lemma atom_operand_sizes:
  assumes "isBoolean (mkNode k [a, b])" "bv_term a" "bv_term b"
    "k \<in> {K_EQUAL, K_BITVECTOR_ULT, K_BITVECTOR_ULE, K_BITVECTOR_SLT, K_BITVECTOR_SLE}"
  shows "getSize b = getSize a"
proof -
  obtain ts where ts: "list_all2 (\<lambda>n t. getType n = Some t) [a, b] ts" "kind_type k ts = Some BOOLEAN_TYPE"
    using getType_mkNode [of k "[a, b]"] assms(1) by (auto simp: isBoolean_def)
  then obtain t u where "ts = [t, u]" "getType a = Some t" "getType b = Some u"
    by (auto simp: list_all2_Cons1)
  with ts(2) assms(4) show ?thesis
    by (auto simp: kind_type_def EqualityTypeRule_def BitVectorPredicateTypeRule_def getSize_def
        split: if_splits)
qed

context bb_provider
begin

lemma atom_operands:
  assumes "isBoolean (mkNode k [a, b])" "ok a" "ok b" "cache_ok G m s"
    "k \<in> {K_EQUAL, K_BITVECTOR_ULT, K_BITVECTOR_ULE, K_BITVECTOR_SLT, K_BITVECTOR_SLE}"
  obtains as bs s1 s2 where "bb a s = Some (as, s1)" "bb b s1 = Some (bs, s2)"
    "repr G m as (bvval G m a)" "repr G m bs (bvval G m b)" "cache_ok G m s2"
    "d_size (bvval G m b) = d_size (bvval G m a)" "0 < d_size (bvval G m a)"
    "bv_inv (bvval G m a)" "bv_inv (bvval G m b)"
proof -
  have "d_size (bvval G m b) = d_size (bvval G m a)" "0 < d_size (bvval G m a)"
    using atom_operand_sizes [OF assms(1) ok_term [OF assms(2)] ok_term [OF assms(3)] assms(5)]
      ok_value(2) [OF assms(2)] ok_value(2) [OF assms(3)] ok_size [OF assms(2)] by simp_all
  then show thesis
    using bb2E [OF assms(2-4)] that ok_value(1) [OF assms(2)] ok_value(1) [OF assms(3)] by metis
qed

lemma truth_bv_equal:
  assumes "ok a"
  shows "truth G m (mkNode K_EQUAL [a, b]) = bv_eq (bvval G m a) (bvval G m b)"
  using bv_term_value(3) [OF ok_term [OF assms], of m]
  by (cases "eval G m a") (simp_all add: truth_def bvval_def)

lemma d_atomBBStrategies_ok:
  assumes "isBoolean (mkNode k [a, b])" "ok a" "ok b" "cache_ok G m s"
    and k: "k \<in> {K_EQUAL, K_BITVECTOR_ULT, K_BITVECTOR_ULE, K_BITVECTOR_SLT, K_BITVECTOR_SLE}"
  shows "atom_ok G m (mkNode k [a, b]) (d_atomBBStrategies bb (mkNode k [a, b]) s)"
proof (rule atom_operands [OF assms])
  fix as bs s1 s2
  assume h: "bb a s = Some (as, s1)" "bb b s1 = Some (bs, s2)"
    "repr G m as (bvval G m a)" "repr G m bs (bvval G m b)" "cache_ok G m s2"
    "d_size (bvval G m b) = d_size (bvval G m a)" "0 < d_size (bvval G m a)"
    "bv_inv (bvval G m a)" "bv_inv (bvval G m b)"
  note cmp = repr_compare [OF h(3,4,6-9)]
  have "0 < length as"
    using h(3,7) by (simp add: repr_def)
  note wf = wf_not_circuits(3) [OF this, of as bs]
  show ?thesis
    using k h(1,2,5) cmp wf wf_not_circuits(1,2) truth_bv_equal [OF assms(2), of b]
    by (auto simp: atom_ok_def d_atomBBStrategies_def DefaultEqBB_def DefaultUltBB_def DefaultUleBB_def
        DefaultSltBB_def DefaultSleBB_def child_def truth_bv_atoms Let_def
        simp flip: bitwise_def)
qed

end

section \<open>The adder comparator\<close>

lemma adder_carry_loop:
  assumes "length a = length b" "k \<le> length a"
  shows "foldl (\<lambda>carry i. mkOr (mkAnd (a ! i) (b ! i)) (mkAnd (mkXor (a ! i) (b ! i)) carry)) c [0..<k] =
    snd (rippleCarryAdder (take k a) (take k b) c)"
proof -
  have step: "snd (rippleCarryAdder (x # xs) (y # ys) c) =
      snd (rippleCarryAdder xs ys (mkOr_array [mkAnd x y, mkAnd (mkXor x y) c]))" for x xs y ys c
    by (simp add: Let_def split: prod.splits)
  have app: "length xs = length ys \<Longrightarrow> snd (rippleCarryAdder (xs @ [x]) (ys @ [y]) c) =
      mkOr (mkAnd x y) (mkAnd (mkXor x y) (snd (rippleCarryAdder xs ys c)))" for xs ys x y c
    by (induction xs ys arbitrary: c rule: list_induct2)
      (simp_all add: step mkOr_def mkOr_array_def del: rippleCarryAdder.simps(1))
  show ?thesis
    using assms(2)
  proof (induction k)
    case (Suc k)
    have "take (Suc k) a = take k a @ [a ! k]" "take (Suc k) b = take k b @ [b ! k]"
      using Suc.prems assms(1) by (simp_all add: take_Suc_conv_app_nth)
    with Suc assms(1) show ?case by (simp add: app)
  qed simp
qed

section \<open>Atoms and models\<close>

context gmp_documented
begin

lemma storeBBAtom_ok:
  assumes "cache_ok G m s" "truth G m b = truth G m n" "wf_not b"
  shows "cache_ok G m (storeBBAtom n b s) \<and> d_bbAtoms (storeBBAtom n b s) n \<noteq> None"
  using assms by (auto simp: cache_ok_def storeBBAtom_def)

lemma atom_strategy_ok:
  assumes "cache_ok G m s" "bb_atom d n \<or> is_bit_or_const n"
  shows "atom_ok G m n (if \<not> is_bit_or_const n then d_atomBBStrategies (bbTerm G d) n s else Some (n, s))"
proof (cases "is_bit_or_const n")
  case True
  then have "wf_not n"
    by (cases n) (auto split: kind.splits)
  with True show ?thesis
    using assms(1) by (simp add: atom_ok_def)
next
  case False
  then show ?thesis
    using assms(2) bb_provider.d_atomBBStrategies_ok [OF bbTerm_provider _ _ _ assms(1)]
    by (auto simp: bb_atom_def)
qed

lemma bbAtom_ok:
  assumes rw: "rewriter_sound G m rw" and "cache_ok G m s"
    and n: "n = (if isKind K_NOT l then child l 0 else l)" "\<not> isKind K_NOT n"
    and "bb_atom d (rw n) \<or> is_bit_or_const (rw n)"
  shows "\<exists>s'. bbAtom G rw d l s = Some s' \<and> cache_ok G m s' \<and> d_bbAtoms s' n \<noteq> None"
proof (cases "d_bbAtoms s n")
  case (Some b)
  then have "hasBBAtom n s"
    using n(2) by (simp add: hasBBAtom_def)
  with Some show ?thesis
    using assms(2) n(1) by (simp add: bbAtom_def)
next
  case None
  then have "\<not> hasBBAtom n s"
    using n(2) by (simp add: hasBBAtom_def)
  moreover obtain b s' where b: "(if \<not> is_bit_or_const (rw n) then d_atomBBStrategies (bbTerm G d) (rw n) s
      else Some (rw n, s)) = Some (b, s')" "truth G m b = truth G m (rw n)" "wf_not b" "cache_ok G m s'"
    using atom_strategy_ok [OF assms(2,5)] unfolding atom_ok_def by blast
  ultimately have "bbAtom G rw d l s = Some (storeBBAtom n (rw b) s')"
    using n(1) by (simp add: bbAtom_def Let_def split: if_splits)
  moreover have "truth G m (rw b) = truth G m n" "wf_not (rw b)"
    using rw b(2,3) by (simp_all add: rewriter_sound_def)
  ultimately show ?thesis
    using storeBBAtom_ok [OF b(4)] by blast
qed

lemma getStoredBBAtom_ok:
  assumes "cache_ok G m s" "n = (if isKind K_NOT l then child l 0 else l)" "d_bbAtoms s n \<noteq> None" "wf_not l"
  shows "truth G m (getStoredBBAtom l s) = truth G m l"
proof -
  obtain b where b: "d_bbAtoms s n = Some b" "truth G m b = truth G m n" "wf_not b"
    using assms(1,3) by (auto simp: cache_ok_def)
  show ?thesis
  proof (cases "isKind K_NOT l")
    case True
    then obtain x where "l = mkNode K_NOT [x]"
      using assms(4) by (auto simp: wf_not_def length_Suc_conv elim!: isKindE)
    then show ?thesis
      using b assms(2) by (simp add: getStoredBBAtom_def child_def truth_negate wf_not_def)
  next
    case False
    then show ?thesis
      using b assms(2) by (simp add: getStoredBBAtom_def)
  qed
qed

lemma sat_value_loop:
  assumes "\<forall>b\<in>set bits. sat b = Some (truth G m b)"
  shows "foldl (\<lambda>value b. value * 2 + (case sat b of Some assignment \<Rightarrow> of_bool assignment | None \<Rightarrow> 0))
    0 (rev bits) = bits_val G m bits"
  using assms by (induction bits) simp_all

lemma getModelFromSatSolver_ok:
  assumes "cache_ok G m s" "bv_term n" "d_termCache s n = Some bits"
    "\<forall>b\<in>set bits. sat b = Some (truth G m b)"
  shows "getModelFromSatSolver G sat n s = CONST_BITVECTOR (bvval G m n)"
proof -
  note v = bv_term_value [OF assms(2), of m]
  have r: "length bits = d_size (bvval G m n)" "bits_val G m bits = d_value (bvval G m n)"
    using assms(1,3) by (simp_all add: cache_ok_def bits_of_def repr_def)
  then have "mk_bv G (length bits) (bits_val G m bits) = bvval G m n"
    using bv_inv_take_bit [OF v(1)] by (intro bv_eqI) simp_all
  then show ?thesis
    using assms(3) sat_value_loop [OF assms(4)]
    by (simp add: getModelFromSatSolver_def hasBBTerm_def getBBTerm_def mkConst_def Let_def)
qed

end

section \<open>Properties\<close>

lemma bb_atomI:
  assumes "isBoolean (mkNode k [a, b])" "bb_term d a" "bb_term d b"
    "k \<in> {K_EQUAL, K_BITVECTOR_ULT, K_BITVECTOR_ULE, K_BITVECTOR_SLT, K_BITVECTOR_SLE}"
  shows "bb_atom d (mkNode k [a, b])"
  using assms unfolding bb_atom_def by blast

lemma bbTerm_cached:
  assumes "bbTerm G d n s = Some (bits, s')"
  shows "\<exists>b. d_termCache s' n = Some b"
proof -
  have store: "\<exists>b. d_termCache (storeBBTerm n bits s) n = Some b" for bits s
    by (cases "d_termCache s n") (simp_all add: storeBBTerm_def)
  show ?thesis
  proof (cases d)
    case (Suc k)
    then show ?thesis
      using assms store by (cases "hasBBTerm n s") (auto simp: hasBBTerm_def bind_eq_Some_conv)
  qed (use assms in simp)
qed

lemma cache_ok_init: "cache_ok G m init_bitblaster"
  by (simp add: cache_ok_def init_bitblaster_def)

lemmas type_eval_simps = bv_inv_def BitVectorConstantTypeRule_def kind_arity_def kind_type_def
  BitVectorFixedWidthTypeRule_def BitVectorPredicateTypeRule_def BitVectorExtendTypeRule_def
  BitVectorConcatTypeRule_def checkBvResultSize_def kind_range_def bb_operator_def bb_unimplemented_def

text \<open>C2. Bit-blasting of terms is correct and total on the supported fragment: for a
  well-typed first-class bit-vector term all of whose operators have a strategy, and fuel for its
  depth, \<^verbatim>\<open>bbTerm\<close> returns as many bits as the term is wide, and in every model the bits denote
  the value of the term.\<close>

theorem bbTerm_correct:
  assumes "gmp_documented G" "getType n = Some (BITVECTOR_TYPE w)" "firstClass n" "bb_supported n"
    "depth n \<le> d"
  shows "\<exists>bits s. bbTerm G d n init_bitblaster = Some (bits, s) \<and> length bits = w
    \<and> (\<forall>m. bval (map (truth G m) bits) = d_value (bvval G m n))"
proof -
  have n: "bv_term n" "bb_term d n"
    using assms(2-5) by (simp_all add: bv_term_def bb_term_def)
  note ok = gmp_documented.bbTerm_ok [OF assms(1) n(2) cache_ok_init]
  obtain bits s where b: "bbTerm G d n init_bitblaster = Some (bits, s)"
    using ok [of undefined] by (auto simp: bb_result_def)
  have r: "repr G m bits (bvval G m n)" for m
    using ok [of m] b by (simp add: bb_result_def bits_of_def)
  have "length bits = w"
    using r [of undefined] gmp_documented.bvval_typed(3) [OF assms(1-3), of undefined]
    by (simp add: repr_def)
  with b r show ?thesis
    by (auto simp: repr_def bits_val_def)
qed

theorem bbTerm_correct_witness:
  "\<exists>bits s. bbTerm gmp_reference 2
     (mkNode K_BITVECTOR_UDIV [VARIABLE 0 (BITVECTOR_TYPE 4), CONST_BITVECTOR \<lparr>d_size = 4, d_value = 3\<rparr>])
     init_bitblaster = Some (bits, s) \<and> length bits = 4
   \<and> (\<forall>m. bval (map (truth gmp_reference m) bits) = d_value (bvval gmp_reference m
       (mkNode K_BITVECTOR_UDIV [VARIABLE 0 (BITVECTOR_TYPE 4), CONST_BITVECTOR \<lparr>d_size = 4, d_value = 3\<rparr>])))"
  by (rule bbTerm_correct [OF gmp_ref.gmp_documented_axioms]) (simp_all add: type_eval_simps)



text \<open>C29. The comparator built from an adder and the bitwise comparator agree: on terms that
  can be bit-blasted, \<^verbatim>\<open>AdderUltBB\<close> and \<^verbatim>\<open>DefaultUltBB\<close> both return a formula, and the two
  formulas are equivalent to the unsigned order of the operands in the model.\<close>

theorem AdderUltBB_equiv:
  assumes "gmp_documented G" "bb_atom d n" "n = mkNode K_BITVECTOR_ULT [a, b]" "cache_ok G m s"
  shows "\<exists>p q s1 s2. AdderUltBB (bbTerm G d) n s = Some (p, s1) \<and> DefaultUltBB (bbTerm G d) n s = Some (q, s2)
    \<and> truth G m p = truth G m n \<and> truth G m q = truth G m n"
proof -
  have t: "isBoolean (mkNode K_BITVECTOR_ULT [a, b])" "bb_term d a" "bb_term d b"
    using assms(2,3) by (auto simp: bb_atom_def)
  obtain as bs s1 s2 where h: "bbTerm G d a s = Some (as, s1)" "bbTerm G d b s1 = Some (bs, s2)"
    "repr G m as (bvval G m a)" "repr G m bs (bvval G m b)" "d_size (bvval G m b) = d_size (bvval G m a)"
    "0 < d_size (bvval G m a)" "bv_inv (bvval G m a)" "bv_inv (bvval G m b)"
    by (rule bb_provider.atom_operands [OF gmp_documented.bbTerm_provider [OF assms(1)] t assms(4)])
      simp_all
  note ult = gmp_documented.repr_compare(1) [OF assms(1) h(3-8)]
  have len: "length as = length bs" "length as = length (negateBits bs)"
    and v: "bits_val G m as = d_value (bvval G m a)" "bits_val G m bs = d_value (bvval G m b)"
    using h(3-5) by (simp_all add: repr_def)
  define p where "p = mkNot (foldl (\<lambda>carry i. mkOr (mkAnd (as ! i) (negateBits bs ! i))
    (mkAnd (mkXor (as ! i) (negateBits bs ! i)) carry)) mkTrue [0..<length as])"
  have "p = mkNot (snd (rippleCarryAdder as (negateBits bs) mkTrue))"
    using adder_carry_loop [OF len(2) order_refl, of mkTrue] len by (simp add: p_def)
  moreover have "bits_val G m bs \<le> 2 ^ length bs"
    using bits_val_bounds(2) [of G m bs] by simp
  ultimately have "truth G m p \<longleftrightarrow> bv_unsignedLessThan (bvval G m a) (bvval G m b)"
    using adder_minus(1) [OF len(1), of G m] v by (auto simp: bv_unsignedLessThan_def)
  then show ?thesis
    using h(1,2) ult by (simp add: assms(3) AdderUltBB_def DefaultUltBB_def child_def truth_bv_atoms Let_def p_def)
qed

theorem AdderUltBB_equiv_witness:
  "\<exists>p q s1 s2. AdderUltBB (bbTerm gmp_reference 1)
       (mkNode K_BITVECTOR_ULT [VARIABLE 0 (BITVECTOR_TYPE 3), VARIABLE 1 (BITVECTOR_TYPE 3)]) init_bitblaster = Some (p, s1)
     \<and> DefaultUltBB (bbTerm gmp_reference 1)
       (mkNode K_BITVECTOR_ULT [VARIABLE 0 (BITVECTOR_TYPE 3), VARIABLE 1 (BITVECTOR_TYPE 3)]) init_bitblaster = Some (q, s2)
     \<and> truth gmp_reference \<lparr>var_raw = \<lambda>x t. int x, fun_raw = \<lambda>f t vs. 0\<rparr> p
       = truth gmp_reference \<lparr>var_raw = \<lambda>x t. int x, fun_raw = \<lambda>f t vs. 0\<rparr>
         (mkNode K_BITVECTOR_ULT [VARIABLE 0 (BITVECTOR_TYPE 3), VARIABLE 1 (BITVECTOR_TYPE 3)])
     \<and> truth gmp_reference \<lparr>var_raw = \<lambda>x t. int x, fun_raw = \<lambda>f t vs. 0\<rparr> q
       = truth gmp_reference \<lparr>var_raw = \<lambda>x t. int x, fun_raw = \<lambda>f t vs. 0\<rparr>
         (mkNode K_BITVECTOR_ULT [VARIABLE 0 (BITVECTOR_TYPE 3), VARIABLE 1 (BITVECTOR_TYPE 3)])"
  by (rule AdderUltBB_equiv [OF gmp_ref.gmp_documented_axioms _ refl cache_ok_init], rule bb_atomI)
    (simp_all add: bb_term_def bv_term_def isBoolean_def type_eval_simps)

text \<open>C24. Reading the model back: after a term has been bit-blasted, if the SAT solver assigns
  to each of its bits in the cache the truth value the bit has in a model,
  \<^verbatim>\<open>getModelFromSatSolver\<close> returns the constant that is the value of the term in that model.\<close>

theorem getModelFromSatSolver_correct:
  assumes "gmp_documented G" "bv_term n" "bb_supported n" "depth n \<le> d"
    and "bbTerm G d n init_bitblaster = Some (bits, s)"
    and "\<forall>b\<in>set (getBBTerm n s). sat b = Some (truth G m b)"
  shows "getModelFromSatSolver G sat n s = CONST_BITVECTOR (bvval G m n)"
proof -
  have "bb_term d n"
    using assms(2-4) by (simp add: bb_term_def)
  from gmp_documented.bbTerm_ok [OF assms(1) this cache_ok_init, of m]
  have "cache_ok G m s"
    using assms(5) by (auto simp: bb_result_def)
  moreover have "\<exists>bits. d_termCache s n = Some bits"
    by (rule bbTerm_cached [OF assms(5)])
  ultimately show ?thesis
    using gmp_documented.getModelFromSatSolver_ok [OF assms(1) _ assms(2)] assms(6)
    by (auto simp: getBBTerm_def)
qed

theorem getModelFromSatSolver_correct_witness:
  "\<exists>bits s. bbTerm gmp_reference 1 (VARIABLE 7 (BITVECTOR_TYPE 2)) init_bitblaster = Some (bits, s)
    \<and> getModelFromSatSolver gmp_reference
       (\<lambda>b. Some (truth gmp_reference \<lparr>var_raw = \<lambda>x t. 2, fun_raw = \<lambda>f t vs. 0\<rparr> b)) (VARIABLE 7 (BITVECTOR_TYPE 2)) s
     = CONST_BITVECTOR (bvval gmp_reference \<lparr>var_raw = \<lambda>x t. 2, fun_raw = \<lambda>f t vs. 0\<rparr> (VARIABLE 7 (BITVECTOR_TYPE 2)))"
proof -
  have t: "bv_term (VARIABLE 7 (BITVECTOR_TYPE 2))"
    by (simp add: bv_term_def)
  obtain bits s where b: "bbTerm gmp_reference 1 (VARIABLE 7 (BITVECTOR_TYPE 2)) init_bitblaster = Some (bits, s)"
    by (simp add: hasBBTerm_def init_bitblaster_def d_termBBStrategies_def DefaultVarBB_def makeVariable_def)
  from getModelFromSatSolver_correct [OF gmp_ref.gmp_documented_axioms t _ _ b] b show ?thesis
    by simp
qed



end
