(* ===== verification/Sat_Literals.thy ===== *)
theory Sat_Literals
  imports Prelude
begin

text \<open>
  Variables, literals and clauses of the SAT solver (\<^verbatim>\<open>src/src/prop/sat_solver_types.h\<close>), the
  interface \<^verbatim>\<open>SatClauseSink\<close> of \<^verbatim>\<open>src/src/prop/sat_clause_sink.h\<close>.

  A literal is its member \<^verbatim>\<open>d_value\<close>, a 64-bit word that holds twice the variable plus the sign.
  The locale \<open>clause_sink\<close> states what the clause generators rely on: \<open>models k\<close> is the set of the
  assignments that satisfy what has been added to the sink, a new variable is fresh and
  unconstrained, a clause removes exactly the assignments that falsify it, and the two constant
  variables have their values.
\<close>

section \<open>Literals\<close>

datatype SatLiteral = SatLit (lit_value: "64 word")

datatype SatValue = SAT_VALUE_UNKNOWN | SAT_VALUE_TRUE | SAT_VALUE_FALSE

type_synonym SatVariable = "64 word"

type_synonym SatClause = "SatLiteral list"

definition invertValue :: "SatValue \<Rightarrow> SatValue" where
  "invertValue v = (if v = SAT_VALUE_UNKNOWN then SAT_VALUE_UNKNOWN
     else if v = SAT_VALUE_TRUE then SAT_VALUE_FALSE else SAT_VALUE_TRUE)"

definition undefSatVariable :: SatVariable where
  "undefSatVariable = - 1"

definition mkSatLiteral :: "SatVariable \<Rightarrow> bool \<Rightarrow> SatLiteral" where
  "mkSatLiteral var negated = SatLit (var + var + of_bool negated)"

text \<open>The cast to \<^verbatim>\<open>int64_t\<close> makes the shift an arithmetic one.\<close>

definition getSatVariable :: "SatLiteral \<Rightarrow> SatVariable" where
  "getSatVariable l = signed_drop_bit 1 (lit_value l)"

definition isNegated :: "SatLiteral \<Rightarrow> bool" where
  "isNegated l \<longleftrightarrow> lit_value l AND 1 \<noteq> 0"

definition neg_lit :: "SatLiteral \<Rightarrow> SatLiteral" where
  "neg_lit l = mkSatLiteral (getSatVariable l) (\<not> isNegated l)"

definition lit_less :: "SatLiteral \<Rightarrow> SatLiteral \<Rightarrow> bool" where
  "lit_less a b =
     (if getSatVariable a = getSatVariable b then \<not> isNegated a \<and> isNegated b
      else getSatVariable a < getSatVariable b)"

definition undefSatLiteral :: SatLiteral where
  "undefSatLiteral = mkSatLiteral undefSatVariable False"

definition isNull :: "SatLiteral \<Rightarrow> bool" where
  "isNull l \<longleftrightarrow> getSatVariable l = undefSatVariable"

text \<open>The value of a literal and of a clause under an assignment of the variables.\<close>

type_synonym assignment = "SatVariable \<Rightarrow> bool"

definition lit_true :: "assignment \<Rightarrow> SatLiteral \<Rightarrow> bool" where
  "lit_true \<sigma> l \<longleftrightarrow> \<sigma> (getSatVariable l) \<noteq> isNegated l"

definition clause_true :: "assignment \<Rightarrow> SatClause \<Rightarrow> bool" where
  "clause_true \<sigma> c \<longleftrightarrow> (\<exists>l\<in>set c. lit_true \<sigma> l)"

section \<open>The interface to the solver\<close>

text \<open>
  \<^verbatim>\<open>SatClauseSink\<close>: the virtual methods, on a state \<open>'k\<close> of the solver.
\<close>

record 'k sat_clause_sink =
  addClause :: "SatClause \<Rightarrow> bool \<Rightarrow> 'k \<Rightarrow> bool \<times> 'k"
  newVar :: "bool \<Rightarrow> 'k \<Rightarrow> SatVariable \<times> 'k"
  trueVar :: "'k \<Rightarrow> SatVariable"
  falseVar :: "'k \<Rightarrow> SatVariable"

text \<open>
  What the clause generators rely on: \<open>vars k\<close> are the variables in use, \<open>models k\<close> the
  assignments that satisfy everything added so far, \<open>room k n\<close> says that \<open>n\<close> more variables can
  be numbered.
\<close>

locale clause_sink =
  fixes sink :: "'k sat_clause_sink"
    and models :: "'k \<Rightarrow> assignment set"
    and vars :: "'k \<Rightarrow> SatVariable set"
    and inv :: "'k \<Rightarrow> bool"
    and room :: "'k \<Rightarrow> nat \<Rightarrow> bool"
  assumes addClause_step:
      "inv k \<Longrightarrow> c \<noteq> [] \<Longrightarrow> getSatVariable ` set c \<subseteq> vars k \<Longrightarrow> addClause sink c removable k = (b, k') \<Longrightarrow>
       inv k' \<and> vars k' = vars k \<and> models k' = {\<sigma> \<in> models k. clause_true \<sigma> c} \<and>
       (\<forall>n. room k n \<longrightarrow> room k' n) \<and> trueVar sink k' = trueVar sink k \<and> falseVar sink k' = falseVar sink k"
    and newVar_step:
      "inv k \<Longrightarrow> room k (Suc n) \<Longrightarrow> newVar sink isTheoryAtom k = (v, k') \<Longrightarrow>
       inv k' \<and> v \<notin> vars k \<and> vars k' = insert v (vars k) \<and> unat v < 2 ^ 62 \<and> models k' = models k \<and>
       room k' n \<and> trueVar sink k' = trueVar sink k \<and> falseVar sink k' = falseVar sink k"
    and constant_vars:
      "inv k \<Longrightarrow> trueVar sink k \<in> vars k \<and> falseVar sink k \<in> vars k \<and>
       unat (trueVar sink k) < 2 ^ 62 \<and> unat (falseVar sink k) < 2 ^ 62 \<and>
       (\<forall>\<sigma>\<in>models k. \<sigma> (trueVar sink k) \<and> \<not> \<sigma> (falseVar sink k))"
    and models_cong:
      "inv k \<Longrightarrow> \<sigma> \<in> models k \<Longrightarrow> (\<And>v. v \<in> vars k \<Longrightarrow> \<tau> v = \<sigma> v) \<Longrightarrow> \<tau> \<in> models k"
    and room_mono: "room k m \<Longrightarrow> n \<le> m \<Longrightarrow> room k n"

section \<open>Facts on literals\<close>

lemma bit_mkSatLiteral:
  "bit (lit_value (mkSatLiteral v b)) i \<longleftrightarrow> (if i = 0 then b else i < 64 \<and> bit v (i - 1))"
proof -
  have low: "bit (push_bit 1 v) j \<longleftrightarrow> 0 < j \<and> j < 64 \<and> bit v (j - 1)" for j
    by (subst bit_push_bit_iff) auto
  have one: "bit (of_bool b :: 64 word) j \<longleftrightarrow> b \<and> j = 0" for j
    by (cases b) (auto simp: bit_1_iff)
  have "v + v = push_bit 1 v"
    by (simp add: push_bit_eq_mult)
  moreover have "push_bit 1 v + of_bool b = push_bit 1 v OR of_bool b"
    by (rule disjunctive_add) (simp only: low one; auto)
  ultimately show ?thesis
    by (simp only: mkSatLiteral_def SatLiteral.sel bit_or_iff low one) auto
qed

lemma isNegated_bit: "isNegated l \<longleftrightarrow> bit (lit_value l) 0"
  by (simp add: isNegated_def and_one_eq mod_2_eq_odd bit_0)

lemma bit_getSatVariable:
  "bit (getSatVariable l) i \<longleftrightarrow> i < 64 \<and> bit (lit_value l) (if 62 \<le> i then 63 else Suc i)"
proof (cases "i = 62")
  case False
  then show ?thesis
    by (auto simp: getSatVariable_def bit_signed_drop_bit_iff min_def not_le dest: bit_imp_le_length)
qed (simp add: getSatVariable_def bit_signed_drop_bit_iff)

lemma isNegated_mkSatLiteral [simp]: "isNegated (mkSatLiteral v b) \<longleftrightarrow> b"
  by (simp add: isNegated_bit bit_mkSatLiteral)

lemma getSatVariable_mk_get [simp]: "getSatVariable (mkSatLiteral (getSatVariable l) b) = getSatVariable l"
  by (rule bit_word_eqI) (auto simp: bit_getSatVariable bit_mkSatLiteral)

lemma getSatVariable_neg_lit [simp]: "getSatVariable (neg_lit l) = getSatVariable l"
  by (simp add: neg_lit_def)

lemma isNegated_neg_lit [simp]: "isNegated (neg_lit l) \<longleftrightarrow> \<not> isNegated l"
  by (simp add: neg_lit_def)

lemma mk_get [simp]: "mkSatLiteral (getSatVariable l) (isNegated l) = l"
proof -
  have "bit (lit_value (mkSatLiteral (getSatVariable l) (isNegated l))) i = bit (lit_value l) i"
    if "i < LENGTH(64)" for i
    using that by (cases "i = 63") (auto simp: bit_mkSatLiteral bit_getSatVariable isNegated_bit)
  then have "lit_value (mkSatLiteral (getSatVariable l) (isNegated l)) = lit_value l"
    by (intro bit_word_eqI)
  then show ?thesis
    by (metis SatLiteral.exhaust_sel)
qed

lemma neg_neg_lit [simp]: "neg_lit (neg_lit l) = l"
  by (simp add: neg_lit_def [of "neg_lit l"])

lemma neg_lit_inject [simp]: "neg_lit a = neg_lit b \<longleftrightarrow> a = b"
  by (metis neg_neg_lit)

lemma lit_true_neg [simp]: "lit_true \<sigma> (neg_lit l) \<longleftrightarrow> \<not> lit_true \<sigma> l"
  by (simp add: lit_true_def)

text \<open>A variable is stored faithfully when it is below \<open>2 ^ 62\<close>.\<close>

lemma getSatVariable_mk:
  assumes "unat v < 2 ^ 62"
  shows "getSatVariable (mkSatLiteral v b) = v"
proof -
  have high: "\<not> bit v j" if "62 \<le> j" for j
  proof -
    have "uint v < 2 ^ 62"
      using assms of_nat_less_iff [where 'a = int, of "unat v" "2 ^ 62"] by simp
    then have "take_bit 62 (uint v) = uint v"
      by (intro take_bit_id_iff_less) simp_all
    then have "bit (uint v) j \<longleftrightarrow> bit (take_bit 62 (uint v)) j"
      by (rule arg_cong [OF sym])
    also have "\<dots> \<longleftrightarrow> False"
      using that by (simp add: bit_take_bit_iff)
    finally show ?thesis
      using bit_imp_le_length [of v j] by (auto simp: bit_uint_iff)
  qed
  have "bit (getSatVariable (mkSatLiteral v b)) i = bit v i" if "i < LENGTH(64)" for i
    using that high by (auto simp: bit_getSatVariable bit_mkSatLiteral)
  then show ?thesis
    by (intro bit_word_eqI)
qed

lemma lit_true_mk:
  assumes "unat v < 2 ^ 62"
  shows "lit_true \<sigma> (mkSatLiteral v b) \<longleftrightarrow> \<sigma> v \<noteq> b"
  by (simp add: lit_true_def getSatVariable_mk [OF assms])

end
