(* ===== verification/Cnf_Stream.thy ===== *)
theory Cnf_Stream
  imports Nodes Sat_Literals "HOL-Library.Monad_Syntax"
begin

text \<open>
  The conversion of formulas to clauses, \<^verbatim>\<open>CnfStream\<close> of \<^verbatim>\<open>src/src/prop/cnf_stream.cpp\<close>.
  The state \<open>cnf_stream\<close> has the members of the class, with the state of the SAT solver in
  \<open>d_satSolver\<close>; the environment \<open>cnf_env\<close> has the solver's methods, the policy for the literals of
  formulas and the two queries to \<^verbatim>\<open>Env\<close>.  The calls to the registrar are recorded in order.
  Looking up a literal that is not there is an error, the value \<open>None\<close>.

  The first argument of \<^verbatim>\<open>assertClause\<close> is only traced, and left out.
\<close>

datatype FormulaLitPolicy = TRACK_AND_NOTIFY | TRACK_AND_NOTIFY_VAR | TRACK | INTERNAL

record 'k cnf_env =
  satSolver :: "'k sat_clause_sink"
  d_flitPolicy :: FormulaLitPolicy
  isBooleanTermSkolem :: "node \<Rightarrow> bool"
  theoryOf_BOOL :: "node \<Rightarrow> bool"

record 'k cnf_stream =
  d_satSolver :: 'k
  d_booleanVariables :: "node list"
  d_notifyFormulas :: "node list"
  d_nodeToLiteralMap :: "node \<Rightarrow> SatLiteral option"
  d_literalToNodeMap :: "SatLiteral \<Rightarrow> node option"
  d_registrar :: "node list"
  d_removable :: bool

definition CnfStream :: "'k \<Rightarrow> 'k cnf_stream" where
  "CnfStream k = \<lparr>d_satSolver = k, d_booleanVariables = [], d_notifyFormulas = [],
     d_nodeToLiteralMap = (\<lambda>n. None), d_literalToNodeMap = (\<lambda>l. None), d_registrar = [],
     d_removable = False\<rparr>"

text \<open>\<^verbatim>\<open>CDInsertHashMap::insert\<close> and \<^verbatim>\<open>insert_safe\<close>: a key that is mapped stays as it is.\<close>

definition map_insert :: "'a \<Rightarrow> 'b \<Rightarrow> ('a \<Rightarrow> 'b option) \<Rightarrow> 'a \<Rightarrow> 'b option" where
  "map_insert x y m = (case m x of None \<Rightarrow> m(x \<mapsto> y) | Some z \<Rightarrow> m)"

section \<open>Clauses\<close>

fun filter_duplicates :: "SatLiteral list \<Rightarrow> SatClause \<Rightarrow> SatClause" where
  "filter_duplicates cache [] = []"
| "filter_duplicates cache (lit # c) =
     (if lit \<in> set cache then filter_duplicates cache c
      else lit # filter_duplicates (lit # cache) c)"

definition assertClause :: "'k cnf_env \<Rightarrow> SatClause \<Rightarrow> 'k cnf_stream \<Rightarrow> 'k cnf_stream" where
  "assertClause e c st =
     (let (b, k) = addClause (satSolver e) (filter_duplicates [] c) (d_removable st) (d_satSolver st)
      in st\<lparr>d_satSolver := k\<rparr>)"

definition assertClauses :: "'k cnf_env \<Rightarrow> SatClause list \<Rightarrow> 'k cnf_stream \<Rightarrow> 'k cnf_stream" where
  "assertClauses e cs st = fold (assertClause e) cs st"

section \<open>Literals\<close>

definition hasLiteral :: "'k cnf_stream \<Rightarrow> node \<Rightarrow> bool" where
  "hasLiteral st n = (d_nodeToLiteralMap st n \<noteq> None)"

definition getLiteral :: "'k cnf_stream \<Rightarrow> node \<Rightarrow> SatLiteral option" where
  "getLiteral st n = d_nodeToLiteralMap st n"

definition getNode :: "'k cnf_stream \<Rightarrow> SatLiteral \<Rightarrow> node option" where
  "getNode st literal = d_literalToNodeMap st literal"

definition isNotifyFormula :: "'k cnf_stream \<Rightarrow> node \<Rightarrow> bool" where
  "isNotifyFormula st n = (n \<in> set (d_notifyFormulas st))"

definition getBooleanVariables :: "'k cnf_stream \<Rightarrow> node list \<Rightarrow> node list" where
  "getBooleanVariables st outputVariables = outputVariables @ d_booleanVariables st"

definition map_literal :: "SatLiteral \<Rightarrow> node \<Rightarrow> 'k cnf_stream \<Rightarrow> 'k cnf_stream" where
  "map_literal lit n st =
     st\<lparr>d_literalToNodeMap := map_insert (neg_lit lit) (notNode n)
          (map_insert lit n (d_literalToNodeMap st))\<rparr>"

definition ensureMappingForLiteral :: "node \<Rightarrow> 'k cnf_stream \<Rightarrow> 'k cnf_stream option" where
  "ensureMappingForLiteral n st =
     do { lit \<leftarrow> getLiteral st n;
          Some (if d_literalToNodeMap st lit = None then map_literal lit n st else st) }"

fun is_const_boolean :: "node \<Rightarrow> bool" where
  "is_const_boolean (CONST_BOOLEAN b) = True"
| "is_const_boolean n = False"

text \<open>A variable for a node that has no literal yet, and the two entries of the map.\<close>

definition freshLiteral :: "'k cnf_env \<Rightarrow> node \<Rightarrow> bool \<Rightarrow> 'k cnf_stream \<Rightarrow> SatLiteral \<times> 'k cnf_stream" where
  "freshLiteral e n isTheoryAtom st =
     (let (lit, st) =
        (if is_const_boolean n then
           (mkSatLiteral (if n = CONST_BOOLEAN True then trueVar (satSolver e) (d_satSolver st)
              else falseVar (satSolver e) (d_satSolver st)) False, st)
         else let (v, k) = newVar (satSolver e) isTheoryAtom (d_satSolver st)
              in (mkSatLiteral v False, st\<lparr>d_satSolver := k\<rparr>))
      in (lit, st\<lparr>d_nodeToLiteralMap := map_insert (notNode n) (neg_lit lit)
                    (map_insert n lit (d_nodeToLiteralMap st))\<rparr>))"

definition newLiteral ::
  "'k cnf_env \<Rightarrow> node \<Rightarrow> bool \<Rightarrow> bool \<Rightarrow> 'k cnf_stream \<Rightarrow> SatLiteral \<times> 'k cnf_stream" where
  "newLiteral e n isTheoryAtom notifyTheory st =
     (let (isTheoryAtom, st) =
            (if \<not> isTheoryAtom \<and> d_flitPolicy e = TRACK_AND_NOTIFY
             then (True, st\<lparr>d_notifyFormulas := List.insert n (d_notifyFormulas st)\<rparr>)
             else (isTheoryAtom, st));
          (lit, st) =
            (case d_nodeToLiteralMap st n of
               None \<Rightarrow> freshLiteral e n isTheoryAtom st
             | Some lit \<Rightarrow> (lit, st));
          st = (if isTheoryAtom \<or> d_flitPolicy e = TRACK \<or> d_flitPolicy e = TRACK_AND_NOTIFY_VAR
                then map_literal lit n st else st);
          st = (if notifyTheory then st\<lparr>d_registrar := d_registrar st @ [n]\<rparr> else st)
      in (lit, st))"

definition convertAtom :: "'k cnf_env \<Rightarrow> node \<Rightarrow> 'k cnf_stream \<Rightarrow> SatLiteral \<times> 'k cnf_stream" where
  "convertAtom e n st =
     (let isInternalBoolVar = (isVar n \<and> \<not> isBooleanTermSkolem e n)
      in if isInternalBoolVar
         then newLiteral e n (d_flitPolicy e = TRACK_AND_NOTIFY_VAR) False
                (st\<lparr>d_booleanVariables := d_booleanVariables st @ [n]\<rparr>)
         else newLiteral e n True True st)"

section \<open>Clauses that define a literal\<close>

definition handleXor :: "'k cnf_env \<Rightarrow> node \<Rightarrow> 'k cnf_stream \<Rightarrow> 'k cnf_stream option" where
  "handleXor e n st =
     do { a \<leftarrow> getLiteral st (children n ! 0);
          b \<leftarrow> getLiteral st (children n ! 1);
          let (xorLit, st) = newLiteral e n False False st in
          Some (assertClauses e
            [[a, b, neg_lit xorLit], [neg_lit a, neg_lit b, neg_lit xorLit],
             [a, neg_lit b, xorLit], [neg_lit a, b, xorLit]] st) }"

definition handleOr :: "'k cnf_env \<Rightarrow> node \<Rightarrow> 'k cnf_stream \<Rightarrow> 'k cnf_stream option" where
  "handleOr e n st =
     (let (orLit, st) = newLiteral e n False False st in
      do { clause \<leftarrow> those (map (getLiteral st) (children n));
           let st = assertClauses e (map (\<lambda>l. [orLit, neg_lit l]) clause) st in
           Some (assertClause e (clause @ [neg_lit orLit]) st) })"

definition handleAnd :: "'k cnf_env \<Rightarrow> node \<Rightarrow> 'k cnf_stream \<Rightarrow> 'k cnf_stream option" where
  "handleAnd e n st =
     (let (andLit, st) = newLiteral e n False False st in
      do { lits \<leftarrow> those (map (getLiteral st) (children n));
           let clause = map neg_lit lits in
           let st = assertClauses e (map (\<lambda>l. [neg_lit andLit, neg_lit l]) clause) st in
           Some (assertClause e (clause @ [andLit]) st) })"

definition handleImplies :: "'k cnf_env \<Rightarrow> node \<Rightarrow> 'k cnf_stream \<Rightarrow> 'k cnf_stream option" where
  "handleImplies e n st =
     do { a \<leftarrow> getLiteral st (children n ! 0);
          b \<leftarrow> getLiteral st (children n ! 1);
          let (impliesLit, st) = newLiteral e n False False st in
          Some (assertClauses e
            [[neg_lit impliesLit, neg_lit a, b], [a, impliesLit], [neg_lit b, impliesLit]] st) }"

definition handleIff :: "'k cnf_env \<Rightarrow> node \<Rightarrow> 'k cnf_stream \<Rightarrow> 'k cnf_stream option" where
  "handleIff e n st =
     do { a \<leftarrow> getLiteral st (children n ! 0);
          b \<leftarrow> getLiteral st (children n ! 1);
          let (iffLit, st) = newLiteral e n False False st in
          Some (assertClauses e
            [[neg_lit a, b, neg_lit iffLit], [a, neg_lit b, neg_lit iffLit],
             [neg_lit a, neg_lit b, iffLit], [a, b, iffLit]] st) }"

definition handleIte :: "'k cnf_env \<Rightarrow> node \<Rightarrow> 'k cnf_stream \<Rightarrow> 'k cnf_stream option" where
  "handleIte e n st =
     do { condLit \<leftarrow> getLiteral st (children n ! 0);
          thenLit \<leftarrow> getLiteral st (children n ! 1);
          elseLit \<leftarrow> getLiteral st (children n ! 2);
          let (iteLit, st) = newLiteral e n False False st in
          Some (assertClauses e
            [[neg_lit iteLit, thenLit, elseLit], [neg_lit iteLit, neg_lit condLit, thenLit],
             [neg_lit iteLit, condLit, elseLit], [iteLit, neg_lit thenLit, neg_lit elseLit],
             [iteLit, neg_lit condLit, neg_lit thenLit], [iteLit, condLit, neg_lit elseLit]] st) }"

section \<open>The traversal\<close>

definition is_iff :: "node \<Rightarrow> bool" where
  "is_iff n = (isKind K_EQUAL n \<and> isBoolean (children n ! 0))"

definition is_connective :: "node \<Rightarrow> bool" where
  "is_connective n = (isKind K_NOT n \<or> isKind K_XOR n \<or> isKind K_ITE n \<or> isKind K_IMPLIES n \<or>
     isKind K_OR n \<or> isKind K_AND n \<or> is_iff n)"

text \<open>The second visit of a node, after its children.\<close>

definition toCNF_visit :: "'k cnf_env \<Rightarrow> node \<Rightarrow> 'k cnf_stream \<Rightarrow> 'k cnf_stream option" where
  "toCNF_visit e n st =
     (if isKind K_NOT n then Some st
      else if isKind K_XOR n then handleXor e n st
      else if isKind K_ITE n then handleIte e n st
      else if isKind K_IMPLIES n then handleImplies e n st
      else if isKind K_OR n then handleOr e n st
      else if isKind K_AND n then handleAnd e n st
      else if is_iff n then handleIff e n st
      else Some (snd (convertAtom e n st)))"

text \<open>
  The loop of \<^verbatim>\<open>toCNF\<close>: the stack \<open>visit\<close> has its back at the head of the list.
\<close>

fun toCNF_loop ::
  "nat \<Rightarrow> 'k cnf_env \<Rightarrow> node list \<Rightarrow> (node \<Rightarrow> bool option) \<Rightarrow> 'k cnf_stream \<Rightarrow> 'k cnf_stream option" where
  "toCNF_loop fuel e [] cache st = Some st"
| "toCNF_loop 0 e (cur # visit) cache st = None"
| "toCNF_loop (Suc fuel) e (cur # visit) cache st =
     (if hasLiteral st cur then toCNF_loop fuel e visit cache st
      else case cache cur of
        None \<Rightarrow>
          toCNF_loop fuel e ((if is_connective cur then children cur else []) @ cur # visit)
            (cache(cur \<mapsto> False)) st
      | Some visited \<Rightarrow>
          if visited then toCNF_loop fuel e visit cache st
          else do { st' \<leftarrow> toCNF_visit e cur st; toCNF_loop fuel e visit (cache(cur \<mapsto> True)) st' })"

fun tree_size :: "node \<Rightarrow> nat" where
  "tree_size (mkNode k ns) = Suc (sum_list (map tree_size ns))"
| "tree_size n = 1"

definition toCNF :: "'k cnf_env \<Rightarrow> node \<Rightarrow> bool \<Rightarrow> 'k cnf_stream \<Rightarrow> (SatLiteral \<times> 'k cnf_stream) option" where
  "toCNF e n negated st =
     do { st \<leftarrow> toCNF_loop (2 * tree_size n) e [n] (\<lambda>n. None) st;
          nodeLit \<leftarrow> getLiteral st n;
          Some (if negated then neg_lit nodeLit else nodeLit, st) }"

text \<open>The literals of several formulas, from left to right.\<close>

fun toCNF_list ::
  "'k cnf_env \<Rightarrow> node list \<Rightarrow> bool \<Rightarrow> 'k cnf_stream \<Rightarrow> (SatLiteral list \<times> 'k cnf_stream) option" where
  "toCNF_list e [] negated st = Some ([], st)"
| "toCNF_list e (n # ns) negated st =
     do { (l, st) \<leftarrow> toCNF e n negated st;
          (ls, st) \<leftarrow> toCNF_list e ns negated st;
          Some (l # ls, st) }"

definition ensureLiteral :: "'k cnf_env \<Rightarrow> node \<Rightarrow> 'k cnf_stream \<Rightarrow> 'k cnf_stream option" where
  "ensureLiteral e n st =
     (if \<not> (hasLiteral st n \<or> isBoolean n) then None
      else if hasLiteral st n then ensureMappingForLiteral n st
      else let n = (if isKind K_NOT n then children n ! 0 else n)
           in if theoryOf_BOOL e n \<and> \<not> isVar n
              then do { (lit, st) \<leftarrow> toCNF e n False (st\<lparr>d_removable := False\<rparr>);
                        Some (map_literal lit n st) }
              else Some (snd (convertAtom e n st)))"

section \<open>Asserting a formula\<close>

type_synonym 'k assert_fun = "node \<Rightarrow> bool \<Rightarrow> 'k cnf_stream \<Rightarrow> 'k cnf_stream option"

fun assert_each :: "'k assert_fun \<Rightarrow> node list \<Rightarrow> bool \<Rightarrow> 'k cnf_stream \<Rightarrow> 'k cnf_stream option" where
  "assert_each conv [] negated st = Some st"
| "assert_each conv (n # ns) negated st =
     do { st \<leftarrow> conv n negated st; assert_each conv ns negated st }"

definition convertAndAssertAnd :: "'k cnf_env \<Rightarrow> 'k assert_fun \<Rightarrow> 'k assert_fun" where
  "convertAndAssertAnd e conv n negated st =
     (if \<not> negated then assert_each conv (children n) False st
      else do { (clause, st) \<leftarrow> toCNF_list e (children n) True st;
                Some (assertClause e clause st) })"

definition convertAndAssertOr :: "'k cnf_env \<Rightarrow> 'k assert_fun \<Rightarrow> 'k assert_fun" where
  "convertAndAssertOr e conv n negated st =
     (if \<not> negated
      then do { (clause, st) \<leftarrow> toCNF_list e (children n) False st;
                Some (assertClause e clause st) }
      else assert_each conv (children n) True st)"

definition convertAndAssertXor :: "'k cnf_env \<Rightarrow> 'k assert_fun" where
  "convertAndAssertXor e n negated st =
     do { (p, st) \<leftarrow> toCNF e (children n ! 0) False st;
          (q, st) \<leftarrow> toCNF e (children n ! 1) False st;
          Some (if \<not> negated then assertClauses e [[neg_lit p, neg_lit q], [p, q]] st
                else assertClauses e [[neg_lit p, q], [p, neg_lit q]] st) }"

definition convertAndAssertIff :: "'k cnf_env \<Rightarrow> 'k assert_fun" where
  "convertAndAssertIff e n negated st =
     do { (p, st) \<leftarrow> toCNF e (children n ! 0) False st;
          (q, st) \<leftarrow> toCNF e (children n ! 1) False st;
          Some (if \<not> negated then assertClauses e [[neg_lit p, q], [p, neg_lit q]] st
                else assertClauses e [[neg_lit p, neg_lit q], [p, q]] st) }"

definition convertAndAssertImplies :: "'k cnf_env \<Rightarrow> 'k assert_fun \<Rightarrow> 'k assert_fun" where
  "convertAndAssertImplies e conv n negated st =
     (if \<not> negated
      then do { (p, st) \<leftarrow> toCNF e (children n ! 0) False st;
                (q, st) \<leftarrow> toCNF e (children n ! 1) False st;
                Some (assertClause e [neg_lit p, q] st) }
      else do { st \<leftarrow> conv (children n ! 0) False st;
                conv (children n ! 1) True st })"

definition convertAndAssertIte :: "'k cnf_env \<Rightarrow> 'k assert_fun" where
  "convertAndAssertIte e n negated st =
     do { (p, st) \<leftarrow> toCNF e (children n ! 0) False st;
          (q, st) \<leftarrow> toCNF e (children n ! 1) negated st;
          (r, st) \<leftarrow> toCNF e (children n ! 2) negated st;
          Some (assertClauses e [[neg_lit p, q], [p, r]] st) }"

text \<open>
  The recursion of \<^verbatim>\<open>convertAndAssert\<close> follows the formula; the fuel is its depth.
\<close>

fun convertAndAssert_rec :: "nat \<Rightarrow> 'k cnf_env \<Rightarrow> 'k assert_fun" where
  "convertAndAssert_rec 0 e n negated st = None"
| "convertAndAssert_rec (Suc fuel) e n negated st =
     (let conv = convertAndAssert_rec fuel e
      in if isKind K_AND n then convertAndAssertAnd e conv n negated st
         else if isKind K_OR n then convertAndAssertOr e conv n negated st
         else if isKind K_XOR n then convertAndAssertXor e n negated st
         else if isKind K_IMPLIES n then convertAndAssertImplies e conv n negated st
         else if isKind K_ITE n then convertAndAssertIte e n negated st
         else if isKind K_NOT n then conv (children n ! 0) (\<not> negated) st
         else if is_iff n then convertAndAssertIff e n negated st
         else do { (l, st) \<leftarrow> toCNF e n negated st;
                   Some (assertClause e [l] st) })"

definition convertAndAssert ::
  "'k cnf_env \<Rightarrow> node \<Rightarrow> bool \<Rightarrow> bool \<Rightarrow> 'k cnf_stream \<Rightarrow> 'k cnf_stream option" where
  "convertAndAssert e n removable negated st =
     convertAndAssert_rec (tree_size n) e n negated (st\<lparr>d_removable := removable\<rparr>)"

end
