(* ===== verification/Cadical.thy ===== *)
theory Cadical
  imports Sat_Literals
begin

text \<open>
  The SAT solver behind the interface: \<^verbatim>\<open>CadicalSolver\<close> (\<^verbatim>\<open>src/src/prop/cadical/cadical.cpp\<close>) and
  \<^verbatim>\<open>CadicalPropagator\<close> (\<^verbatim>\<open>src/src/prop/cadical/cdclt_propagator.cpp\<close>), which share the state
  \<open>cadical\<close>.  The CaDiCaL library itself is the list of the clauses it has been given.

  Clauses live on user levels.  A clause of level \<open>n > 0\<close> is guarded by the activation literal of
  the level, which is assumed to be false while the level is there and made true when it is
  popped.  \<open>cadical_models\<close> are the assignments that satisfy the clauses, those still buffered
  for the search included, with the activation literals false.
\<close>

section \<open>Conversions\<close>

text \<open>
  \<^verbatim>\<open>prop/cadical/util.cpp\<close>.  A CaDiCaL literal is a 32-bit signed integer, kept as an \<open>int\<close>: the
  conversion of the 64-bit variable cuts it down to its lower 32 bits.
\<close>

type_synonym CadicalLit = int

definition to_int32 :: "64 word \<Rightarrow> int" where
  "to_int32 w = signed_take_bit 31 (uint w)"

definition toSatValue :: "int \<Rightarrow> SatValue" where
  "toSatValue result = (if result = 10 then SAT_VALUE_TRUE else if result = 20 then SAT_VALUE_FALSE
     else SAT_VALUE_UNKNOWN)"

definition toSatValueLit :: "int \<Rightarrow> SatValue" where
  "toSatValueLit v = (if v > 0 then SAT_VALUE_TRUE else SAT_VALUE_FALSE)"

definition toCadicalLit :: "SatLiteral \<Rightarrow> CadicalLit" where
  "toCadicalLit lit = to_int32 (if isNegated lit then - getSatVariable lit else getSatVariable lit)"

definition toSatLiteral :: "CadicalLit \<Rightarrow> SatLiteral" where
  "toSatLiteral lit = mkSatLiteral (word_of_int \<bar>lit\<bar>) (lit < 0)"

definition toCadicalVar :: "SatVariable \<Rightarrow> CadicalLit" where
  "toCadicalVar var = to_int32 var"

definition toSatClause :: "int set \<Rightarrow> CadicalLit list \<Rightarrow> SatClause" where
  "toSatClause activation_literals cl =
     map toSatLiteral (filter (\<lambda>lit. \<bar>lit\<bar> \<notin> activation_literals) cl)"

section \<open>State\<close>

record var_info =
  level_intro :: nat
  level_fixed :: nat
  info_assignment :: CadicalLit
  is_theory_atom :: bool
  is_fixed :: bool
  is_active :: bool
  info_phase :: int

definition VarInfo :: var_info where
  "VarInfo = \<lparr>level_intro = 0, level_fixed = 0, info_assignment = 0, is_theory_atom = False,
     is_fixed = False, is_active = True, info_phase = 0\<rparr>"

text \<open>The calls the propagator makes to the theory proxy that only pass a message.\<close>

datatype proxy_call = enqueueTheoryLiteral SatLiteral | notifyBacktrack

text \<open>
  The members of \<^verbatim>\<open>CadicalSolver\<close>, then those of \<^verbatim>\<open>CadicalPropagator\<close>; \<open>d_solver\<close> are the
  clauses handed to the library and \<open>d_proxy\<close> the messages sent to the theory proxy.
\<close>

record cadical =
  d_nextVarIdx :: SatVariable
  d_true :: SatVariable
  d_false :: SatVariable
  d_solver :: "CadicalLit list list"
  d_proxy :: "proxy_call list"
  d_var_info :: "var_info list"
  d_active_vars :: "SatVariable list"
  d_active_vars_control :: "nat list"
  d_activation_literals :: "SatLiteral list"
  d_renotify_fixed :: "SatLiteral list"
  d_assignments :: "SatLiteral list"
  d_assignment_control :: "nat list"
  d_decisions :: "SatLiteral list"
  d_propagations :: "SatLiteral list"
  d_new_clauses :: "CadicalLit list"
  d_new_clauses_forgettable :: "bool list"
  d_found_solution :: bool
  d_in_search :: bool
  d_proofProducing :: bool

definition info_of :: "cadical \<Rightarrow> SatVariable \<Rightarrow> var_info" where
  "info_of k v = d_var_info k ! unat v"

definition update_info :: "SatVariable \<Rightarrow> (var_info \<Rightarrow> var_info) \<Rightarrow> cadical \<Rightarrow> cadical" where
  "update_info v f k = k\<lparr>d_var_info := (d_var_info k)[unat v := f (info_of k v)]\<rparr>"

section \<open>Clauses and variables\<close>

definition current_user_level :: "cadical \<Rightarrow> nat" where
  "current_user_level k = length (d_active_vars_control k)"

definition current_activation_lit :: "cadical \<Rightarrow> SatLiteral" where
  "current_activation_lit k =
     (if d_activation_literals k = [] then undefSatLiteral else last (d_activation_literals k))"

definition activation_lit :: "cadical \<Rightarrow> nat \<Rightarrow> SatLiteral" where
  "activation_lit k user_level =
     (if user_level = 0 then undefSatLiteral else d_activation_literals k ! (user_level - 1))"

definition clause_user_level :: "cadical \<Rightarrow> SatClause \<Rightarrow> nat" where
  "clause_user_level k clause =
     foldl (\<lambda>m lit. max m (level_intro (info_of k (getSatVariable lit))))
       (if d_proofProducing k then current_user_level k else 0) clause"

text \<open>
  The loop of \<^verbatim>\<open>add_clause\<close>: \<open>None\<close> when a literal is fixed to true, otherwise the highest user
  level and the literals for the library.
\<close>

fun add_clause_lits ::
  "cadical \<Rightarrow> SatClause \<Rightarrow> nat \<Rightarrow> CadicalLit list \<Rightarrow> (nat \<times> CadicalLit list) option" where
  "add_clause_lits k [] max_user_level lits = Some (max_user_level, lits)"
| "add_clause_lits k (lit # clause) max_user_level lits =
     (let info = info_of k (getSatVariable lit);
          val = (if isNegated lit then - info_assignment info else info_assignment info)
      in if is_fixed info \<and> val > 0 then None
         else add_clause_lits k clause (max max_user_level (level_intro info))
                (lits @ [toCadicalLit lit]))"

definition add_clause :: "SatClause \<Rightarrow> bool \<Rightarrow> cadical \<Rightarrow> cadical" where
  "add_clause clause forgettable k =
     (let max_user_level = (if d_in_search k \<and> \<not> d_proofProducing k then 0 else current_user_level k)
      in case add_clause_lits k clause max_user_level [] of
           None \<Rightarrow> k
         | Some (max_user_level, lits) \<Rightarrow>
             if lits = [] then k
             else let alit = activation_lit k max_user_level;
                      lits = (if alit \<noteq> undefSatLiteral then toCadicalLit alit # lits else lits)
                  in if d_in_search k
                     then k\<lparr>d_new_clauses := d_new_clauses k @ lits @ [0],
                            d_new_clauses_forgettable := d_new_clauses_forgettable k @ [forgettable]\<rparr>
                     else k\<lparr>d_solver := d_solver k @ [lits]\<rparr>)"

definition add_new_var :: "SatVariable \<Rightarrow> bool \<Rightarrow> cadical \<Rightarrow> cadical" where
  "add_new_var var isTheoryAtom k =
     (let infos = d_var_info k;
          infos = (if unat var > length infos then infos @ replicate (unat var - length infos) VarInfo
                   else infos)
      in k\<lparr>d_active_vars := d_active_vars k @ [var],
           d_var_info := infos @ [VarInfo\<lparr>level_intro := current_user_level k,
             is_theory_atom := isTheoryAtom\<rparr>]\<rparr>)"

definition user_push :: "cadical \<Rightarrow> cadical" where
  "user_push k = k\<lparr>d_active_vars_control := d_active_vars_control k @ [length (d_active_vars k)]\<rparr>"

definition set_activation_lit :: "SatVariable \<Rightarrow> cadical \<Rightarrow> cadical" where
  "set_activation_lit alit k =
     k\<lparr>d_activation_literals := d_activation_literals k @ [mkSatLiteral alit False]\<rparr>"

definition cadical_phase :: "SatLiteral \<Rightarrow> cadical \<Rightarrow> cadical" where
  "cadical_phase lit k =
     update_info (getSatVariable lit) (\<lambda>i. i\<lparr>info_phase := if isNegated lit then - 1 else 1\<rparr>) k"

text \<open>
  \<^verbatim>\<open>user_pop\<close>: the loop over the active variables above \<open>pop_to\<close>, from the back, and the loop over
  the assignments that are left.
\<close>

function user_pop_vars :: "nat \<Rightarrow> nat \<Rightarrow> SatVariable list \<Rightarrow> cadical \<Rightarrow> SatVariable list \<times> cadical" where
  "user_pop_vars pop_to user_level fixed k =
     (if length (d_active_vars k) > pop_to then
        let var = last (d_active_vars k);
            info = info_of k var;
            k = k\<lparr>d_active_vars := butlast (d_active_vars k)\<rparr>
        in if is_fixed info \<and> is_theory_atom info \<and> level_intro info \<le> user_level
           then user_pop_vars pop_to user_level (fixed @ [var]) k
           else user_pop_vars pop_to user_level fixed
                  ((update_info var (\<lambda>i. i\<lparr>is_active := False\<rparr>) k)
                     \<lparr>d_solver := d_solver k @ [[toCadicalVar var]]\<rparr>)
      else (fixed, k))"
  by pat_completeness auto

termination
  by (relation "measure (\<lambda>(pop_to, user_level, fixed, k). length (d_active_vars k))")
    (auto simp: update_info_def)

declare user_pop_vars.simps [simp del]

definition user_pop :: "cadical \<Rightarrow> cadical" where
  "user_pop k =
     (let pop_to = last (d_active_vars_control k);
          k = k\<lparr>d_active_vars_control := butlast (d_active_vars_control k),
                d_activation_literals := butlast (d_activation_literals k)\<rparr>;
          user_level = current_user_level k;
          (fixed, k) = user_pop_vars pop_to user_level [] k;
          k = k\<lparr>d_active_vars := d_active_vars k @ rev fixed\<rparr>;
          active = (\<lambda>lit. is_active (info_of k (getSatVariable lit)));
          renotify = (\<lambda>lit. is_theory_atom (info_of k (getSatVariable lit)) \<and>
                        level_fixed (info_of k (getSatVariable lit)) > user_level);
          left = filter active (d_assignments k)
      in k\<lparr>d_assignments := left, d_renotify_fixed := d_renotify_fixed k @ filter renotify left\<rparr>)"

section \<open>Assignments\<close>

text \<open>
  \<^verbatim>\<open>notify_assignment\<close>: \<open>is_decision\<close> is the query to the library.
\<close>

definition notify_assignment1 :: "(CadicalLit \<Rightarrow> bool) \<Rightarrow> CadicalLit \<Rightarrow> cadical \<Rightarrow> cadical" where
  "notify_assignment1 is_decision lit k =
     (let slit = toSatLiteral lit; var = getSatVariable slit; info = info_of k var
      in if \<not> is_active info then k
         else let k = (if is_decision lit then k\<lparr>d_decisions := butlast (d_decisions k) @ [slit]\<rparr> else k)
              in if info_assignment info = 0
                 then let k = (update_info var (\<lambda>i. i\<lparr>info_assignment := lit\<rparr>) k)
                                \<lparr>d_assignments := d_assignments k @ [slit]\<rparr>
                      in if is_theory_atom info
                         then k\<lparr>d_proxy := d_proxy k @ [enqueueTheoryLiteral slit]\<rparr> else k
                 else k)"

definition notify_assignment :: "(CadicalLit \<Rightarrow> bool) \<Rightarrow> CadicalLit list \<Rightarrow> cadical \<Rightarrow> cadical" where
  "notify_assignment is_decision lits k =
     (if d_found_solution k then k else fold (notify_assignment1 is_decision) lits k)"

definition notify_fixed_assignment :: "(CadicalLit \<Rightarrow> bool) \<Rightarrow> CadicalLit \<Rightarrow> cadical \<Rightarrow> cadical" where
  "notify_fixed_assignment is_decision lit k =
     (let var = getSatVariable (toSatLiteral lit)
      in if unat var \<ge> length (d_var_info k) then k
         else if \<not> is_active (info_of k var) then k
         else notify_assignment is_decision [lit]
                (update_info var (\<lambda>i. i\<lparr>is_fixed := True, level_fixed := current_user_level k\<rparr>) k))"

definition notify_new_decision_level :: "cadical \<Rightarrow> cadical" where
  "notify_new_decision_level k =
     k\<lparr>d_assignment_control := d_assignment_control k @ [length (d_assignments k)],
       d_decisions := d_decisions k @ [undefSatLiteral]\<rparr>"

text \<open>The loop body of \<^verbatim>\<open>notify_backtrack\<close> on an assignment above the level.\<close>

definition unassign :: "SatLiteral \<Rightarrow> cadical \<Rightarrow> cadical" where
  "unassign lit k = (if is_fixed (info_of k (getSatVariable lit)) then k
     else update_info (getSatVariable lit) (\<lambda>i. i\<lparr>info_assignment := 0\<rparr>) k)"

definition notify_backtrack :: "nat \<Rightarrow> cadical \<Rightarrow> cadical" where
  "notify_backtrack level k =
     (if length (d_decisions k) \<le> level then k
      else
        let pop_to = d_assignment_control k ! level;
            undone = drop pop_to (d_assignments k);
            kept = filter (\<lambda>lit. is_fixed (info_of k (getSatVariable lit))) undone;
            renotify = filter (\<lambda>lit. is_theory_atom (info_of k (getSatVariable lit))) kept;
            k = k\<lparr>d_found_solution := False, d_decisions := take level (d_decisions k),
                  d_assignment_control := take level (d_assignment_control k),
                  d_assignments := take pop_to (d_assignments k) @ kept\<rparr>;
            k = fold unassign undone k
        in k\<lparr>d_proxy := d_proxy k @ notifyBacktrack # map enqueueTheoryLiteral renotify,
             d_propagations := []\<rparr>)"

definition renotify_fixed :: "cadical \<Rightarrow> cadical" where
  "renotify_fixed k =
     (fold (\<lambda>lit k. update_info (getSatVariable lit) (\<lambda>i. i\<lparr>level_fixed := current_user_level k\<rparr>)
               (k\<lparr>d_proxy := d_proxy k @ [enqueueTheoryLiteral lit]\<rparr>))
        (d_renotify_fixed k) k)\<lparr>d_renotify_fixed := []\<rparr>"

definition propagator_value :: "cadical \<Rightarrow> SatLiteral \<Rightarrow> SatValue" where
  "propagator_value k lit =
     (let assign = info_assignment (info_of k (getSatVariable lit))
      in if assign \<noteq> 0 then toSatValueLit (if isNegated lit then - assign else assign)
         else SAT_VALUE_UNKNOWN)"

section \<open>The solver\<close>

definition cadical_addClause :: "SatClause \<Rightarrow> bool \<Rightarrow> cadical \<Rightarrow> bool \<times> cadical" where
  "cadical_addClause clause removable k = (True, add_clause clause removable k)"

definition cadical_newVar :: "bool \<Rightarrow> cadical \<Rightarrow> SatVariable \<times> cadical" where
  "cadical_newVar isTheoryAtom k =
     (let k = add_new_var (d_nextVarIdx k) isTheoryAtom k
      in (d_nextVarIdx k, k\<lparr>d_nextVarIdx := d_nextVarIdx k + 1\<rparr>))"

definition cadical_trueVar :: "cadical \<Rightarrow> SatVariable" where
  "cadical_trueVar k = d_true k"

definition cadical_falseVar :: "cadical \<Rightarrow> SatVariable" where
  "cadical_falseVar k = d_false k"

definition cadical_initialize :: "bool \<Rightarrow> cadical \<Rightarrow> cadical" where
  "cadical_initialize proofProducing k =
     (let k = k\<lparr>d_proofProducing := proofProducing\<rparr>;
          (t, k) = cadical_newVar False k;
          k = k\<lparr>d_true := t\<rparr>;
          (f, k) = cadical_newVar False k;
          k = k\<lparr>d_false := f\<rparr>
      in k\<lparr>d_solver := d_solver k @ [[toCadicalVar (d_true k)], [- toCadicalVar (d_false k)]]\<rparr>)"

text \<open>The constructor: variables start at index one.\<close>

definition CadicalSolver :: "bool \<Rightarrow> cadical" where
  "CadicalSolver proofProducing = cadical_initialize proofProducing
     \<lparr>d_nextVarIdx = 1, d_true = undefSatVariable, d_false = undefSatVariable, d_solver = [],
      d_proxy = [], d_var_info = [], d_active_vars = [], d_active_vars_control = [],
      d_activation_literals = [], d_renotify_fixed = [], d_assignments = [],
      d_assignment_control = [], d_decisions = [], d_propagations = [], d_new_clauses = [],
      d_new_clauses_forgettable = [], d_found_solution = False, d_in_search = False,
      d_proofProducing = False\<rparr>"

definition cadical_push :: "cadical \<Rightarrow> cadical" where
  "cadical_push k =
     (let (alit, k) = cadical_newVar False (user_push k) in set_activation_lit alit k)"

definition cadical_pop :: "cadical \<Rightarrow> cadical" where
  "cadical_pop k = user_pop k"

definition resetTrail :: "cadical \<Rightarrow> cadical" where
  "resetTrail k = notify_backtrack 0 k"

definition getDecisions :: "cadical \<Rightarrow> SatLiteral list" where
  "getDecisions k = filter (\<lambda>lit. lit \<noteq> undefSatLiteral) (d_decisions k)"

definition cadical_sink :: "cadical sat_clause_sink" where
  "cadical_sink = \<lparr>addClause = cadical_addClause, newVar = cadical_newVar,
     trueVar = cadical_trueVar, falseVar = cadical_falseVar\<rparr>"

end
