(* ===== verification/Cadical_Correct.thy ===== *)
theory Cadical_Correct
  imports Cadical
begin

text \<open>
  Correctness of the solver model: \<^verbatim>\<open>addClause\<close> and \<^verbatim>\<open>newVar\<close> keep the contract of the clause sink
  on every user level and during search, and a push, any well-bracketed sequence of operations
  outside of search and a pop leave the constraints as they were.
\<close>

section \<open>Models\<close>

definition cad_vars :: "cadical \<Rightarrow> SatVariable set" where
  "cad_vars k = {v. 1 \<le> unat v \<and> unat v < unat (d_nextVarIdx k) \<and> is_active (info_of k v)}"

text \<open>The clauses in the buffer, each closed by a zero.\<close>

fun split0 :: "CadicalLit list \<Rightarrow> CadicalLit list \<Rightarrow> CadicalLit list list" where
  "split0 acc [] = []"
| "split0 acc (l # ls) = (if l = 0 then rev acc # split0 [] ls else split0 (l # acc) ls)"

definition all_clauses :: "cadical \<Rightarrow> CadicalLit list list" where
  "all_clauses k = d_solver k @ split0 [] (d_new_clauses k)"

definition cad_clause_true :: "assignment \<Rightarrow> CadicalLit list \<Rightarrow> bool" where
  "cad_clause_true \<tau> c = clause_true \<tau> (map toSatLiteral c)"

definition cad_holds :: "cadical \<Rightarrow> assignment \<Rightarrow> bool" where
  "cad_holds k \<tau> \<longleftrightarrow> (\<forall>c\<in>set (all_clauses k). cad_clause_true \<tau> c) \<and>
     (\<forall>a\<in>set (d_activation_literals k). \<not> lit_true \<tau> a)"

definition cadical_models :: "cadical \<Rightarrow> assignment set" where
  "cadical_models k = {\<sigma>. \<exists>\<tau>. (\<forall>v\<in>cad_vars k. \<tau> v = \<sigma> v) \<and> cad_holds k \<tau>}"

text \<open>The fixed variables have their value in every assignment that satisfies the clauses.\<close>

definition fixed_ok :: "cadical \<Rightarrow> SatVariable \<Rightarrow> bool" where
  "fixed_ok k v \<longleftrightarrow> (\<forall>\<tau>. (\<forall>c\<in>set (d_solver k). cad_clause_true \<tau> c) \<longrightarrow>
     (info_assignment (info_of k v) > 0 \<longrightarrow> \<tau> v) \<and> (info_assignment (info_of k v) < 0 \<longrightarrow> \<not> \<tau> v))"

definition cadical_inv :: "cadical \<Rightarrow> bool" where
  "cadical_inv k \<longleftrightarrow>
     1 \<le> unat (d_nextVarIdx k) \<and> unat (d_nextVarIdx k) \<le> 2 ^ 31 \<and>
     length (d_var_info k) = unat (d_nextVarIdx k) \<and>
     d_true k \<in> cad_vars k \<and> d_false k \<in> cad_vars k \<and>
     [toCadicalVar (d_true k)] \<in> set (d_solver k) \<and> [- toCadicalVar (d_false k)] \<in> set (d_solver k) \<and>
     length (d_activation_literals k) = current_user_level k \<and>
     (\<forall>a\<in>set (d_activation_literals k). getSatVariable a \<in> cad_vars k \<and> \<not> isNegated a) \<and>
     (\<forall>v\<in>cad_vars k. level_intro (info_of k v) \<le> current_user_level k) \<and>
     (\<forall>c\<in>set (all_clauses k). \<forall>l\<in>set c. l \<noteq> 0 \<and> nat \<bar>l\<bar> < unat (d_nextVarIdx k)) \<and>
     (d_new_clauses k = [] \<or> last (d_new_clauses k) = 0) \<and>
     (\<forall>v\<in>cad_vars k. is_fixed (info_of k v) \<longrightarrow> fixed_ok k v)"

definition cadical_room :: "cadical \<Rightarrow> nat \<Rightarrow> bool" where
  "cadical_room k n \<longleftrightarrow> unat (d_nextVarIdx k) + n \<le> 2 ^ 31"

section \<open>Literals of the library\<close>

lemma uint_less_pow: "unat v < 2 ^ n \<Longrightarrow> uint v < 2 ^ n"
  using of_nat_less_iff [where 'a = int, of "unat v" "2 ^ n"] by simp

lemma to_int32_small:
  assumes "unat v < 2 ^ 31"
  shows "to_int32 v = uint v"
  unfolding to_int32_def
proof (rule signed_take_bit_int_eq_self)
  show "- (2 ^ 31) \<le> uint v"
    by (rule order_trans [of _ 0]) simp_all
qed (rule uint_less_pow [OF assms])

lemma to_int32_neg:
  assumes "unat v < 2 ^ 31" "v \<noteq> 0"
  shows "to_int32 (- v) = - uint v"
proof -
  have "uint v mod 2 ^ 64 = uint v" "uint v \<noteq> 0"
    using assms(2) uint_lt2p [of v] by (auto intro: mod_pos_pos_trivial simp: unsigned_eq_0_iff)
  then have "uint (- v) = - uint v + 2 ^ 32 * 2 ^ 32"
    by (simp add: uint_word_ariths(4) zmod_zminus1_eq_if)
  then have "uint (- v) mod 2 ^ 32 = - uint v mod 2 ^ 32"
    by (simp only: mod_mult_self2)
  then have "to_int32 (- v) = signed_take_bit 31 (- uint v)"
    unfolding to_int32_def
    by (subst signed_take_bit_eq_iff_take_bit_eq) (simp add: take_bit_eq_mod)
  also have "\<dots> = - uint v"
  proof (rule signed_take_bit_int_eq_self)
    show "- (2 ^ 31) \<le> - uint v"
      using uint_less_pow [OF assms(1)] by (simp add: less_imp_le)
    show "- uint v < 2 ^ 31"
      by (rule le_less_trans [of _ 0]) simp_all
  qed
  finally show ?thesis .
qed

lemma toCadicalLit_small:
  assumes "1 \<le> unat (getSatVariable l)" "unat (getSatVariable l) < 2 ^ 31"
  shows "toCadicalLit l = (if isNegated l then - uint (getSatVariable l) else uint (getSatVariable l))"
proof -
  have "getSatVariable l \<noteq> 0"
    using assms(1) by auto
  then show ?thesis
    unfolding toCadicalLit_def using to_int32_small [OF assms(2)] to_int32_neg [OF assms(2)]
    by (cases "isNegated l") simp_all
qed

lemma toSatLiteral_toCadicalLit:
  assumes "1 \<le> unat (getSatVariable l)" "unat (getSatVariable l) < 2 ^ 31"
  shows "toSatLiteral (toCadicalLit l) = l"
proof -
  have pos: "0 < uint (getSatVariable l)"
    using assms(1) by (metis One_nat_def less_eq_Suc_le of_nat_0_less_iff uint_nat)
  have "mkSatLiteral (getSatVariable l) (isNegated l) = l"
    by simp
  with pos show ?thesis
    unfolding toCadicalLit_small [OF assms] toSatLiteral_def by (cases "isNegated l") simp_all
qed

lemma getSatVariable_toSatLiteral:
  assumes "nat \<bar>l\<bar> < 2 ^ 31"
  shows "getSatVariable (toSatLiteral l) = word_of_int \<bar>l\<bar>"
    and "unat (getSatVariable (toSatLiteral l)) = nat \<bar>l\<bar>"
proof -
  have small: "unat (word_of_int \<bar>l\<bar> :: 64 word) = nat \<bar>l\<bar>"
    using assms by (simp add: unsigned_of_int take_bit_int_eq_self)
  with assms show "getSatVariable (toSatLiteral l) = word_of_int \<bar>l\<bar>"
    by (simp add: toSatLiteral_def getSatVariable_mk)
  with small show "unat (getSatVariable (toSatLiteral l)) = nat \<bar>l\<bar>"
    by simp
qed

lemma lit_true_cong: "\<tau> (getSatVariable l) = \<sigma> (getSatVariable l) \<Longrightarrow> lit_true \<tau> l = lit_true \<sigma> l"
  by (simp add: lit_true_def)

lemma clause_true_cong:
  "(\<And>l. l \<in> set c \<Longrightarrow> \<tau> (getSatVariable l) = \<sigma> (getSatVariable l)) \<Longrightarrow> clause_true \<tau> c = clause_true \<sigma> c"
  unfolding clause_true_def by (metis lit_true_cong)

section \<open>Clauses\<close>

lemma split0_append:
  assumes "0 \<notin> set lits"
  shows "split0 acc (lits @ 0 # ls) = (rev acc @ lits) # split0 [] ls"
  using assms by (induction lits arbitrary: acc) auto

lemma split0_snoc:
  assumes "ns = [] \<or> last ns = 0" "0 \<notin> set lits"
  shows "split0 acc (ns @ lits @ [0]) = (if ns = [] then [rev acc @ lits] else split0 acc ns @ [lits])"
  using assms(1)
proof (induction ns arbitrary: acc)
  case Nil
  then show ?case
    using split0_append [OF assms(2), of acc "[]"] by simp
next
  case (Cons n ns)
  then show ?case
    using split0_append [OF assms(2), of "[]" "[]"] by (cases "ns = []") auto
qed

abbreviation lit_level :: "cadical \<Rightarrow> SatLiteral \<Rightarrow> nat" where
  "lit_level k l \<equiv> level_intro (info_of k (getSatVariable l))"

lemma add_clause_lits_Some:
  assumes "add_clause_lits k c m lits = Some (m', lits')"
  shows "lits' = lits @ map toCadicalLit c \<and> m \<le> m' \<and> (\<forall>l\<in>set c. lit_level k l \<le> m') \<and>
    (\<forall>N. m \<le> N \<and> (\<forall>l\<in>set c. lit_level k l \<le> N) \<longrightarrow> m' \<le> N)"
  using assms
proof (induction c arbitrary: m lits)
  case (Cons l c)
  then have "add_clause_lits k c (max m (lit_level k l)) (lits @ [toCadicalLit l]) = Some (m', lits')"
    by (simp add: Let_def split: if_splits)
  from Cons.IH [OF this] show ?case
    by simp
qed simp

definition fixed_true :: "cadical \<Rightarrow> SatLiteral \<Rightarrow> bool" where
  "fixed_true k l \<longleftrightarrow> is_fixed (info_of k (getSatVariable l)) \<and>
     (if isNegated l then info_assignment (info_of k (getSatVariable l)) < 0
      else info_assignment (info_of k (getSatVariable l)) > 0)"

lemma add_clause_lits_None:
  assumes "add_clause_lits k c m lits = None"
  shows "\<exists>l\<in>set c. fixed_true k l"
  using assms
proof (induction c arbitrary: m lits)
  case (Cons l c)
  show ?case
  proof (cases "fixed_true k l")
    case False
    then have "add_clause_lits k c (max m (lit_level k l)) (lits @ [toCadicalLit l]) = None"
      using Cons.prems by (auto simp: Let_def fixed_true_def split: if_splits)
    with Cons.IH show ?thesis
      by auto
  qed simp
qed simp

lemma fixed_true_holds:
  assumes "cadical_inv k" "getSatVariable l \<in> cad_vars k" "fixed_true k l" "cad_holds k \<tau>"
  shows "lit_true \<tau> l"
proof -
  have "fixed_ok k (getSatVariable l)"
    using assms by (simp add: cadical_inv_def fixed_true_def)
  then show ?thesis
    using assms(3,4) by (auto simp: fixed_ok_def fixed_true_def cad_holds_def all_clauses_def lit_true_def
        split: if_splits)
qed

text \<open>A literal over the variables in use survives the conversion.\<close>

lemma cad_var_small:
  assumes "cadical_inv k" "v \<in> cad_vars k"
  shows "1 \<le> unat v" "unat v < 2 ^ 31" "unat v < unat (d_nextVarIdx k)" "unat v < 2 ^ 62"
  using assms by (auto simp: cad_vars_def cadical_inv_def)

lemma toCadicalLit_var:
  assumes "cadical_inv k" "getSatVariable l \<in> cad_vars k"
  shows "toSatLiteral (toCadicalLit l) = l" "toCadicalLit l \<noteq> 0"
    "nat \<bar>toCadicalLit l\<bar> < unat (d_nextVarIdx k)"
proof -
  note small = cad_var_small [OF assms]
  show "toSatLiteral (toCadicalLit l) = l"
    by (rule toSatLiteral_toCadicalLit [OF small(1,2)])
  have "\<bar>toCadicalLit l\<bar> = uint (getSatVariable l)"
    unfolding toCadicalLit_small [OF small(1,2)] by simp
  then have abs: "nat \<bar>toCadicalLit l\<bar> = unat (getSatVariable l)"
    by simp
  then show "toCadicalLit l \<noteq> 0" "nat \<bar>toCadicalLit l\<bar> < unat (d_nextVarIdx k)"
    using small(1,3) by auto
qed

lemma undef_not_var:
  assumes "cadical_inv k" "getSatVariable a \<in> cad_vars k"
  shows "a \<noteq> undefSatLiteral"
proof
  assume "a = undefSatLiteral"
  then have "getSatVariable a = - 1"
    by (simp add: undefSatLiteral_def undefSatVariable_def mkSatLiteral_def getSatVariable_def)
  then show False
    using cad_var_small(2) [OF assms] by (simp add: unsigned_minus_1_eq_mask mask_eq_exp_minus_1)
qed

section \<open>Adding a clause\<close>

text \<open>
  Either a literal is fixed to true, or the clause goes to the library or to the buffer, guarded
  by the activation literal of a level that is at least the level of each of its literals.
\<close>

definition guard_of :: "cadical \<Rightarrow> nat \<Rightarrow> SatClause" where
  "guard_of k m = (if m = 0 then [] else [d_activation_literals k ! (m - 1)])"

lemma guard_of_active:
  assumes "cadical_inv k" "m \<le> current_user_level k"
  shows "set (guard_of k m) \<subseteq> set (d_activation_literals k)"
  using assms by (auto simp: guard_of_def cadical_inv_def)

lemma add_clause_cases:
  assumes inv: "cadical_inv k" and c: "c \<noteq> []" "getSatVariable ` set c \<subseteq> cad_vars k"
  obtains (satisfied) l where "l \<in> set c" "fixed_true k l" "add_clause c f k = k"
  | (search) m where "m \<le> current_user_level k" "d_in_search k"
      "add_clause c f k = k\<lparr>d_new_clauses := d_new_clauses k @ map toCadicalLit (guard_of k m @ c) @ [0],
         d_new_clauses_forgettable := d_new_clauses_forgettable k @ [f]\<rparr>"
  | (direct) "\<not> d_in_search k" "add_clause c f k =
         k\<lparr>d_solver := d_solver k @ [map toCadicalLit (guard_of k (current_user_level k) @ c)]\<rparr>"
proof -
  define m0 where "m0 = (if d_in_search k \<and> \<not> d_proofProducing k then 0 else current_user_level k)"
  show thesis
  proof (cases "add_clause_lits k c m0 []")
    case None
    then have "add_clause c f k = k"
      unfolding add_clause_def Let_def m0_def by simp
    with add_clause_lits_None [OF None] satisfied show thesis
      by blast
  next
    case (Some r)
    obtain m where r: "add_clause_lits k c m0 [] = Some (m, map toCadicalLit c)"
      using add_clause_lits_Some [of k c m0 "[]"] Some by (cases r) auto
    have lev: "\<forall>l\<in>set c. lit_level k l \<le> current_user_level k"
      using inv c(2) by (auto simp: cadical_inv_def)
    have m: "m0 \<le> m" "m \<le> current_user_level k"
      using add_clause_lits_Some [OF r] lev by (auto simp: m0_def)
    have guard: "(if activation_lit k m \<noteq> undefSatLiteral then toCadicalLit (activation_lit k m) # lits
        else lits) = map toCadicalLit (guard_of k m) @ lits" for lits
    proof (cases "m = 0")
      case False
      then have "set (guard_of k m) = {activation_lit k m}"
        by (simp add: guard_of_def activation_lit_def)
      with guard_of_active [OF inv m(2)] have "getSatVariable (activation_lit k m) \<in> cad_vars k"
        using inv by (auto simp: cadical_inv_def)
      with False undef_not_var [OF inv] show ?thesis
        by (simp add: guard_of_def activation_lit_def)
    qed (simp add: guard_of_def activation_lit_def)
    have result: "add_clause c f k =
       (let lits = map toCadicalLit (guard_of k m @ c)
        in if d_in_search k
           then k\<lparr>d_new_clauses := d_new_clauses k @ lits @ [0],
                  d_new_clauses_forgettable := d_new_clauses_forgettable k @ [f]\<rparr>
           else k\<lparr>d_solver := d_solver k @ [lits]\<rparr>)"
      unfolding add_clause_def Let_def m0_def [symmetric] r option.case prod.case guard map_append
      using c(1) by (simp only: map_is_Nil_conv if_False append_assoc)
    show thesis
    proof (cases "d_in_search k")
      case True
      with m(2) result show thesis
        by (intro search) (simp_all only: Let_def if_True)
    next
      case False
      with m have "m = current_user_level k"
        by (simp add: m0_def)
      with result False show thesis
        by (intro direct) (simp_all only: Let_def if_False not_False_eq_True)
    qed
  qed
qed

text \<open>A step that only adds clauses over known variables keeps the invariant.\<close>

definition clause_frame :: "cadical \<Rightarrow> cadical \<Rightarrow> CadicalLit list \<Rightarrow> bool" where
  "clause_frame k k' lits \<longleftrightarrow>
     d_nextVarIdx k' = d_nextVarIdx k \<and> d_var_info k' = d_var_info k \<and> d_true k' = d_true k \<and>
     d_false k' = d_false k \<and> d_activation_literals k' = d_activation_literals k \<and>
     d_active_vars_control k' = d_active_vars_control k \<and> set (d_solver k) \<subseteq> set (d_solver k') \<and>
     (d_new_clauses k' = [] \<or> last (d_new_clauses k') = 0) \<and>
     set (all_clauses k') = insert lits (set (all_clauses k))"

lemma frame_vars:
  assumes "clause_frame k k' lits"
  shows "cad_vars k' = cad_vars k" "info_of k' = info_of k"
  using assms by (auto simp: clause_frame_def cad_vars_def info_of_def fun_eq_iff)

lemma frame_inv:
  assumes inv: "cadical_inv k" and fr: "clause_frame k k' lits"
    and lits: "\<forall>l\<in>set lits. l \<noteq> 0 \<and> nat \<bar>l\<bar> < unat (d_nextVarIdx k)"
  shows "cadical_inv k'"
proof -
  have "set (d_solver k) \<subseteq> set (d_solver k')"
    using fr by (simp add: clause_frame_def)
  then have sub: "c \<in> set (d_solver k')" if "c \<in> set (d_solver k)" for c
    using that by blast
  then have "\<forall>c\<in>set (d_solver k'). cad_clause_true \<tau> c \<Longrightarrow> \<forall>c\<in>set (d_solver k). cad_clause_true \<tau> c" for \<tau>
    by blast
  then have fixd: "fixed_ok k' v" if "fixed_ok k v" for v
    using that unfolding fixed_ok_def frame_vars [OF fr] by blast
  have eqs: "d_nextVarIdx k' = d_nextVarIdx k" "d_var_info k' = d_var_info k" "d_true k' = d_true k"
    "d_false k' = d_false k" "d_activation_literals k' = d_activation_literals k"
    "d_active_vars_control k' = d_active_vars_control k"
    "set (all_clauses k') = insert lits (set (all_clauses k))"
    "d_new_clauses k' = [] \<or> last (d_new_clauses k') = 0"
    using fr by (simp_all only: clause_frame_def)
  show ?thesis
    using inv lits eqs(8) unfolding cadical_inv_def frame_vars [OF fr] eqs current_user_level_def
    by (elim conjE, intro conjI) (simp_all add: sub fixd)
qed

lemma cad_clause_true_vars:
  assumes "cadical_inv k" "getSatVariable ` set c \<subseteq> cad_vars k"
  shows "cad_clause_true \<tau> (map toCadicalLit c) = clause_true \<tau> c"
proof -
  have "map toSatLiteral (map toCadicalLit c) = c"
    unfolding map_map using assms(2) by (intro map_idI) (auto simp: toCadicalLit_var(1) [OF assms(1)])
  then show ?thesis
    by (simp add: cad_clause_true_def)
qed

lemma frame_models:
  assumes inv: "cadical_inv k" and fr: "clause_frame k k' (map toCadicalLit (g @ c))"
    and g: "set g \<subseteq> set (d_activation_literals k)" and c: "getSatVariable ` set c \<subseteq> cad_vars k"
  shows "cadical_models k' = {\<sigma> \<in> cadical_models k. clause_true \<sigma> c}"
proof -
  have vars: "getSatVariable ` set (g @ c) \<subseteq> cad_vars k"
    using g c inv by (auto simp: cadical_inv_def)
  have "cad_holds k' \<tau> \<longleftrightarrow> cad_holds k \<tau> \<and> clause_true \<tau> c" for \<tau>
  proof -
    have "clause_true \<tau> (g @ c) \<longleftrightarrow> clause_true \<tau> c" if "\<forall>a\<in>set (d_activation_literals k). \<not> lit_true \<tau> a"
      using that g by (auto simp: clause_true_def)
    then show ?thesis
      using fr cad_clause_true_vars [OF inv vars] by (auto simp: cad_holds_def clause_frame_def)
  qed
  moreover have "clause_true \<tau> c = clause_true \<sigma> c" if "\<forall>v\<in>cad_vars k. \<tau> v = \<sigma> v" for \<sigma> \<tau>
    using that c by (intro clause_true_cong) auto
  ultimately show ?thesis
    unfolding cadical_models_def frame_vars [OF fr] by auto
qed

lemma add_clause_frame:
  assumes inv: "cadical_inv k" and c: "c \<noteq> []" "getSatVariable ` set c \<subseteq> cad_vars k"
  obtains (satisfied) "add_clause c f k = k" "\<exists>l\<in>set c. fixed_true k l"
  | (added) m where "m \<le> current_user_level k" "d_in_search k \<or> m = current_user_level k"
      "clause_frame k (add_clause c f k) (map toCadicalLit (guard_of k m @ c))"
  using inv c
proof (cases rule: add_clause_cases [where f = f])
  case (search m)
  have "set (guard_of k m @ c) \<subseteq> {l. getSatVariable l \<in> cad_vars k}"
    using guard_of_active [OF inv search(1)] c(2) inv by (auto simp: cadical_inv_def)
  then have "0 \<notin> set (map toCadicalLit (guard_of k m @ c))"
    using toCadicalLit_var(2) [OF inv] by fastforce
  then have "split0 [] (d_new_clauses k @ map toCadicalLit (guard_of k m @ c) @ [0]) =
      split0 [] (d_new_clauses k) @ [map toCadicalLit (guard_of k m @ c)]"
    using inv by (subst split0_snoc) (auto simp: cadical_inv_def)
  with search show thesis
    by (intro added [of m]) (auto simp: clause_frame_def all_clauses_def)
next
  case direct
  then show thesis
    using inv by (intro added [of "current_user_level k"])
      (auto simp: clause_frame_def all_clauses_def cadical_inv_def)
qed (use satisfied in blast)

lemma cadical_addClause_step:
  assumes inv: "cadical_inv k" and c: "c \<noteq> []" "getSatVariable ` set c \<subseteq> cad_vars k"
  shows "cadical_inv (add_clause c f k) \<and> cad_vars (add_clause c f k) = cad_vars k \<and>
    cadical_models (add_clause c f k) = {\<sigma> \<in> cadical_models k. clause_true \<sigma> c} \<and>
    d_nextVarIdx (add_clause c f k) = d_nextVarIdx k \<and>
    d_true (add_clause c f k) = d_true k \<and> d_false (add_clause c f k) = d_false k"
  using assms
proof (cases rule: add_clause_frame [where f = f])
  case satisfied
  then obtain l where l: "l \<in> set c" "fixed_true k l"
    by blast
  have "clause_true \<sigma> c" if "\<sigma> \<in> cadical_models k" for \<sigma>
  proof -
    from that obtain \<tau> where \<tau>: "\<forall>v\<in>cad_vars k. \<tau> v = \<sigma> v" "cad_holds k \<tau>"
      by (auto simp: cadical_models_def)
    have "lit_true \<tau> l"
      using l c by (intro fixed_true_holds [OF inv _ l(2) \<tau>(2)]) auto
    moreover have "lit_true \<tau> l = lit_true \<sigma> l"
      using \<tau>(1) l c by (intro lit_true_cong) auto
    ultimately show ?thesis
      using l by (auto simp: clause_true_def)
  qed
  with satisfied(1) inv show ?thesis
    by auto
next
  case (added m)
  note g = guard_of_active [OF inv added(1)]
  have vars: "getSatVariable ` set (guard_of k m @ c) \<subseteq> cad_vars k"
    using g c inv by (auto simp: cadical_inv_def)
  have "cadical_inv (add_clause c f k)"
    using vars toCadicalLit_var(2,3) [OF inv] by (intro frame_inv [OF inv added(3)]) auto
  with frame_models [OF inv added(3) g c(2)] frame_vars [OF added(3)] added(3) show ?thesis
    by (simp add: clause_frame_def)
qed

section \<open>New variables\<close>

lemma inv_infos:
  assumes "cadical_inv k"
  shows "length (d_var_info k) = unat (d_nextVarIdx k)" "1 \<le> unat (d_nextVarIdx k)"
  using assms by (simp_all only: cadical_inv_def)

lemma add_new_var_infos:
  assumes "length (d_var_info k) = unat (d_nextVarIdx k)" "cadical_newVar t k = (v, k')"
  shows "v = d_nextVarIdx k" "d_nextVarIdx k' = d_nextVarIdx k + 1"
    "d_var_info k' = d_var_info k @ [VarInfo\<lparr>level_intro := current_user_level k, is_theory_atom := t\<rparr>]"
    "all_clauses k' = all_clauses k" "d_solver k' = d_solver k" "d_new_clauses k' = d_new_clauses k"
    "d_activation_literals k' = d_activation_literals k"
    "d_active_vars_control k' = d_active_vars_control k" "d_active_vars k' = d_active_vars k @ [v]"
    "d_true k' = d_true k" "d_false k' = d_false k" "d_in_search k' = d_in_search k"
  using assms by (auto simp: cadical_newVar_def add_new_var_def Let_def all_clauses_def)

lemma newVar_vars:
  assumes len: "length (d_var_info k) = unat (d_nextVarIdx k)" "1 \<le> unat (d_nextVarIdx k)"
    and room: "cadical_room k (Suc n)" and nv: "cadical_newVar t k = (v, k')"
  shows "unat (d_nextVarIdx k') = Suc (unat (d_nextVarIdx k))" "v \<notin> cad_vars k"
    "cad_vars k' = insert v (cad_vars k)"
    "\<And>w. unat w < unat (d_nextVarIdx k) \<Longrightarrow> info_of k' w = info_of k w"
    "info_of k' v = VarInfo\<lparr>level_intro := current_user_level k, is_theory_atom := t\<rparr>"
proof -
  note new = add_new_var_infos [OF len(1) nv]
  have small: "unat (d_nextVarIdx k) < 2 ^ 31"
    using room by (simp add: cadical_room_def)
  have "d_nextVarIdx k + 1 \<noteq> 0"
  proof
    assume "d_nextVarIdx k + 1 = 0"
    then have "d_nextVarIdx k = - 1"
      by (simp add: eq_neg_iff_add_eq_0)
    then have "unat (d_nextVarIdx k) = mask 64"
      by (simp add: unsigned_minus_1_eq_mask)
    with small show False
      by (simp add: mask_eq_exp_minus_1)
  qed
  then show suc: "unat (d_nextVarIdx k') = Suc (unat (d_nextVarIdx k))"
    using new(2) by (simp add: add.commute unatSuc)
  show "v \<notin> cad_vars k"
    using new(1) by (simp add: cad_vars_def)
  show old: "info_of k' w = info_of k w" if "unat w < unat (d_nextVarIdx k)" for w
    using that len new(3) by (simp add: info_of_def nth_append)
  show newi: "info_of k' v = VarInfo\<lparr>level_intro := current_user_level k, is_theory_atom := t\<rparr>"
    using len new(1,3) by (simp add: info_of_def nth_append)
  show "cad_vars k' = insert v (cad_vars k)"
  proof (rule set_eqI)
    fix w
    consider "unat w < unat (d_nextVarIdx k)" | "w = v" | "unat (d_nextVarIdx k) < unat w"
      using new(1) by (metis linorder_neqE_nat word_unat_eq_iff)
    then show "w \<in> cad_vars k' \<longleftrightarrow> w \<in> insert v (cad_vars k)"
      using suc old [of w] newi new(1) len(2) by cases (auto simp: cad_vars_def VarInfo_def)
  qed
qed

lemma occurs_small:
  assumes "cadical_inv k" "c \<in> set (all_clauses k)" "l \<in> set c"
  shows "1 \<le> unat (getSatVariable (toSatLiteral l))"
    "unat (getSatVariable (toSatLiteral l)) < unat (d_nextVarIdx k)"
proof -
  have "l \<noteq> 0" "nat \<bar>l\<bar> < unat (d_nextVarIdx k)" "unat (d_nextVarIdx k) \<le> 2 ^ 31"
    using assms by (auto simp: cadical_inv_def)
  then show "1 \<le> unat (getSatVariable (toSatLiteral l))"
    "unat (getSatVariable (toSatLiteral l)) < unat (d_nextVarIdx k)"
    using getSatVariable_toSatLiteral(2) [of l] by auto
qed

text \<open>Whether the constraints hold depends on the variables below the next index only.\<close>

lemma cad_clause_true_cong:
  assumes "\<And>l. l \<in> set c \<Longrightarrow> \<tau> (getSatVariable (toSatLiteral l)) = \<sigma> (getSatVariable (toSatLiteral l))"
  shows "cad_clause_true \<tau> c = cad_clause_true \<sigma> c"
  unfolding cad_clause_true_def by (rule clause_true_cong) (auto simp: assms)

lemma cad_holds_cong:
  assumes inv: "cadical_inv k" and eq: "\<And>v. unat v < unat (d_nextVarIdx k) \<Longrightarrow> \<tau> v = \<sigma> v"
  shows "cad_holds k \<tau> = cad_holds k \<sigma>"
proof -
  have "cad_clause_true \<tau> c = cad_clause_true \<sigma> c" if "c \<in> set (all_clauses k)" for c
    by (rule cad_clause_true_cong) (rule eq, rule occurs_small(2) [OF inv that])
  moreover have "lit_true \<tau> a = lit_true \<sigma> a" if "a \<in> set (d_activation_literals k)" for a
    using that inv cad_var_small(3) [OF inv] by (intro lit_true_cong eq) (auto simp: cadical_inv_def)
  ultimately show ?thesis
    by (simp add: cad_holds_def)
qed

lemma newVar_models:
  assumes inv: "cadical_inv k" and room: "cadical_room k (Suc n)" and nv: "cadical_newVar t k = (v, k')"
  shows "cadical_models k' = cadical_models k"
proof -
  note new = add_new_var_infos [OF inv_infos(1) [OF inv] nv] and vs = newVar_vars [OF inv_infos [OF inv] room nv]
  have holds: "cad_holds k' = cad_holds k"
    using new by (simp add: cad_holds_def fun_eq_iff)
  have "\<sigma> \<in> cadical_models k'" if "\<sigma> \<in> cadical_models k" for \<sigma>
  proof -
    from that obtain \<tau> where \<tau>: "\<forall>w\<in>cad_vars k. \<tau> w = \<sigma> w" "cad_holds k \<tau>"
      by (auto simp: cadical_models_def)
    have "cad_holds k (\<tau>(v := \<sigma> v)) = cad_holds k \<tau>"
      using new(1) by (intro cad_holds_cong [OF inv]) auto
    with \<tau> holds vs(2,3) show ?thesis
      unfolding cadical_models_def by (intro CollectI exI [of _ "\<tau>(v := \<sigma> v)"]) auto
  qed
  with holds vs(3) show ?thesis
    unfolding cadical_models_def by auto
qed

lemma newVar_inv:
  assumes inv: "cadical_inv k" and room: "cadical_room k (Suc n)" and nv: "cadical_newVar t k = (v, k')"
  shows "cadical_inv k'"
proof -
  note new = add_new_var_infos [OF inv_infos(1) [OF inv] nv] and vs = newVar_vars [OF inv_infos [OF inv] room nv]
  have old: "info_of k' w = info_of k w" if "w \<in> cad_vars k" for w
    using that by (intro vs(4)) (simp add: cad_vars_def)
  have lev: "current_user_level k' = current_user_level k"
    using new by (simp add: current_user_level_def)
  have fixd: "fixed_ok k' w \<longleftrightarrow> fixed_ok k w" if "w \<in> cad_vars k" for w
    by (simp only: fixed_ok_def old [OF that] new(5))
  have "unat (d_nextVarIdx k') \<le> 2 ^ 31"
    using room vs(1) by (simp add: cadical_room_def)
  with inv show ?thesis
    unfolding cadical_inv_def new(3-8,10,11) vs(1,3) lev
    by (elim conjE, intro conjI) (auto simp: old fixd vs(5) VarInfo_def intro: less_SucI)
qed

section \<open>The contract of the clause sink\<close>

lemma constant_models:
  assumes inv: "cadical_inv k" and \<sigma>: "\<sigma> \<in> cadical_models k"
  shows "\<sigma> (d_true k) \<and> \<not> \<sigma> (d_false k)"
proof -
  from \<sigma> obtain \<tau> where \<tau>: "\<forall>w\<in>cad_vars k. \<tau> w = \<sigma> w" "cad_holds k \<tau>"
    by (auto simp: cadical_models_def)
  have vars: "d_true k \<in> cad_vars k" "d_false k \<in> cad_vars k"
    and clauses: "[toCadicalVar (d_true k)] \<in> set (d_solver k)" "[- toCadicalVar (d_false k)] \<in> set (d_solver k)"
    using inv by (simp_all only: cadical_inv_def)
  have lits: "toCadicalVar v = toCadicalLit (mkSatLiteral v False)" "- toCadicalVar v = toCadicalLit (mkSatLiteral v True)"
    if "v \<in> cad_vars k" for v
  proof -
    note small = cad_var_small [OF inv that]
    have "v \<noteq> 0"
      using small(1) by auto
    then show "toCadicalVar v = toCadicalLit (mkSatLiteral v False)" "- toCadicalVar v = toCadicalLit (mkSatLiteral v True)"
      by (simp_all add: toCadicalVar_def toCadicalLit_def getSatVariable_mk [OF small(4)]
          to_int32_small [OF small(2)] to_int32_neg [OF small(2)])
  qed
  have "clause_true \<tau> [mkSatLiteral (d_true k) False]" "clause_true \<tau> [mkSatLiteral (d_false k) True]"
    using clauses(1) [unfolded lits(1) [OF vars(1)]] clauses(2) [unfolded lits(2) [OF vars(2)]]
      \<tau>(2) vars cad_var_small(4) [OF inv]
      cad_clause_true_vars [OF inv, of "[mkSatLiteral (d_true k) False]" \<tau>]
      cad_clause_true_vars [OF inv, of "[mkSatLiteral (d_false k) True]" \<tau>]
    by (auto simp: cad_holds_def all_clauses_def getSatVariable_mk)
  then show ?thesis
    using \<tau>(1) vars cad_var_small(4) [OF inv] by (simp add: clause_true_def lit_true_mk)
qed

interpretation cadical: clause_sink cadical_sink cadical_models cad_vars cadical_inv cadical_room
proof unfold_locales
  fix k c removable b k'
  assume "cadical_inv k" "c \<noteq> []" "getSatVariable ` set c \<subseteq> cad_vars k"
    "addClause cadical_sink c removable k = (b, k')"
  then show "cadical_inv k' \<and> cad_vars k' = cad_vars k \<and>
      cadical_models k' = {\<sigma> \<in> cadical_models k. clause_true \<sigma> c} \<and>
      (\<forall>n. cadical_room k n \<longrightarrow> cadical_room k' n) \<and> trueVar cadical_sink k' = trueVar cadical_sink k \<and>
      falseVar cadical_sink k' = falseVar cadical_sink k"
    using cadical_addClause_step [of k c removable]
    by (auto simp: cadical_sink_def cadical_addClause_def cadical_trueVar_def cadical_falseVar_def
        cadical_room_def)
next
  fix k n isTheoryAtom v k'
  assume k: "cadical_inv k" "cadical_room k (Suc n)" "newVar cadical_sink isTheoryAtom k = (v, k')"
  then have nv: "cadical_newVar isTheoryAtom k = (v, k')"
    by (simp add: cadical_sink_def)
  have "unat v < 2 ^ 62"
    using k(2) add_new_var_infos(1) [OF inv_infos(1) [OF k(1)] nv] by (simp add: cadical_room_def)
  then show "cadical_inv k' \<and> v \<notin> cad_vars k \<and> cad_vars k' = insert v (cad_vars k) \<and> unat v < 2 ^ 62 \<and>
      cadical_models k' = cadical_models k \<and> cadical_room k' n \<and>
      trueVar cadical_sink k' = trueVar cadical_sink k \<and> falseVar cadical_sink k' = falseVar cadical_sink k"
    using newVar_inv [OF k(1,2) nv] newVar_models [OF k(1,2) nv] newVar_vars [OF inv_infos [OF k(1)] k(2) nv]
      add_new_var_infos [OF inv_infos(1) [OF k(1)] nv] k(2)
    by (simp add: cadical_sink_def cadical_trueVar_def cadical_falseVar_def cadical_room_def)
next
  fix k
  assume inv: "cadical_inv k"
  then show "trueVar cadical_sink k \<in> cad_vars k \<and> falseVar cadical_sink k \<in> cad_vars k \<and>
      unat (trueVar cadical_sink k) < 2 ^ 62 \<and> unat (falseVar cadical_sink k) < 2 ^ 62 \<and>
      (\<forall>\<sigma>\<in>cadical_models k. \<sigma> (trueVar cadical_sink k) \<and> \<not> \<sigma> (falseVar cadical_sink k))"
    using constant_models [OF inv] cad_var_small(4) [OF inv]
    by (auto simp: cadical_sink_def cadical_trueVar_def cadical_falseVar_def cadical_inv_def)
next
  fix k \<sigma> \<tau>
  assume "cadical_inv k" "\<sigma> \<in> cadical_models k" "\<And>v. v \<in> cad_vars k \<Longrightarrow> \<tau> v = \<sigma> v"
  then show "\<tau> \<in> cadical_models k"
    unfolding cadical_models_def by auto
qed (simp add: cadical_room_def)

end
