(* ===== verification/Cnf_Correct.thy ===== *)
theory Cnf_Correct
  imports Cnf_Stream Cadical_Correct
begin

text \<open>
  Correctness of the conversion to clauses, for every solver that keeps the contract
  \<open>clause_sink\<close>.  A valuation \<open>v\<close> of the atoms gives every formula the value \<open>beval v\<close>.
  \<open>cnf_models\<close> are the valuations that some model of the clauses agrees with on all nodes that
  have a literal: making literals leaves them as they are, asserting a formula keeps those that
  make it true.
\<close>

section \<open>The Boolean structure of a formula\<close>

definition connective_value :: "kind \<Rightarrow> bool list \<Rightarrow> bool" where
  "connective_value k bs = (case k of
     K_NOT \<Rightarrow> \<not> bs ! 0
   | K_AND \<Rightarrow> list_all id bs
   | K_OR \<Rightarrow> list_ex id bs
   | K_XOR \<Rightarrow> bs ! 0 \<noteq> bs ! 1
   | K_IMPLIES \<Rightarrow> bs ! 0 \<longrightarrow> bs ! 1
   | K_ITE \<Rightarrow> if bs ! 0 then bs ! 1 else bs ! 2
   | K_EQUAL \<Rightarrow> bs ! 0 = bs ! 1
   | _ \<Rightarrow> False)"

fun beval :: "(node \<Rightarrow> bool) \<Rightarrow> node \<Rightarrow> bool" where
  "beval v (CONST_BOOLEAN b) = b"
| "beval v (mkNode k ns) =
     (if is_connective (mkNode k ns) then connective_value k (map (beval v) ns) else v (mkNode k ns))"
| "beval v n = v n"

fun atoms :: "node \<Rightarrow> node set" where
  "atoms (CONST_BOOLEAN b) = {}"
| "atoms (mkNode k ns) =
     (if is_connective (mkNode k ns) then (\<Union>n\<in>set ns. atoms n) else {mkNode k ns})"
| "atoms n = {n}"

text \<open>Formulas as the rewriter leaves them: the connectives have their arity, no double negation.\<close>

fun formula :: "node \<Rightarrow> bool" where
  "formula (mkNode k ns) =
     (is_connective (mkNode k ns) \<longrightarrow> kind_arity k (length ns) \<and>
        (k = K_NOT \<longrightarrow> \<not> isKind K_NOT (ns ! 0)) \<and> list_all formula ns)"
| "formula n = True"

lemma beval_cong: "(\<And>a. a \<in> atoms n \<Longrightarrow> v a = w a) \<Longrightarrow> beval v n = beval w n"
proof (induction n)
  case (mkNode k ns)
  show ?case
  proof (cases "is_connective (mkNode k ns)")
    case True
    then have "map (beval v) ns = map (beval w) ns"
      using mkNode by auto
    with True show ?thesis
      by (simp only: beval.simps if_True)
  qed (use mkNode in simp)
qed simp_all

lemma isKind_mkNode [simp]: "is_const_boolean (mkNode k ns) = False"
  by simp

lemma not_connective_const [simp]: "\<not> is_connective (CONST_BOOLEAN b)" "\<not> is_connective (VARIABLE x t)"
  "\<not> is_connective (CONST_INTEGER i)" "\<not> is_connective (CONST_BITVECTOR w)"
  by (simp_all add: is_connective_def is_iff_def)

lemma is_connective_NOT [simp]: "is_connective (notNode n)"
  by (simp add: is_connective_def notNode_def)

lemma beval_NOT [simp]: "beval v (notNode n) = (\<not> beval v n)"
  using is_connective_NOT [of n] by (simp add: notNode_def connective_value_def)

lemma atoms_NOT [simp]: "atoms (notNode n) = atoms n"
  using is_connective_NOT [of n] by (simp add: notNode_def)

lemma beval_atom: "\<not> is_connective n \<Longrightarrow> \<not> is_const_boolean n \<Longrightarrow> beval v n = v n"
  by (cases n) auto

lemma atoms_atom: "\<not> is_connective n \<Longrightarrow> \<not> is_const_boolean n \<Longrightarrow> atoms n = {n}"
  by (cases n) auto

lemma connectiveE:
  assumes "is_connective n" "formula n"
  obtains k ns where "n = mkNode k ns" "kind_arity k (length ns)" "list_all formula ns" "children n = ns"
    "k = K_NOT \<longrightarrow> \<not> isKind K_NOT (ns ! 0)"
  using assms by (cases n) auto

lemma notNode_inject [simp]: "notNode a = notNode b \<longleftrightarrow> a = b"
  by (simp add: notNode_def)

lemma tree_size_pos: "0 < tree_size n"
  by (cases n) auto

lemma tree_size_child: "c \<in> set ns \<Longrightarrow> tree_size c < tree_size (mkNode k ns)"
  by (simp add: less_Suc_eq_le member_le_sum_list)

lemma notNode_neq [simp]: "notNode n \<noteq> n" "n \<noteq> notNode n"
proof -
  have "tree_size n < tree_size (notNode n)"
    by (simp add: notNode_def)
  then show "notNode n \<noteq> n" "n \<noteq> notNode n"
    by auto
qed

section \<open>Valuations and models\<close>

definition agrees :: "assignment \<Rightarrow> (node \<Rightarrow> bool) \<Rightarrow> 'k cnf_stream \<Rightarrow> bool" where
  "agrees \<sigma> v st \<longleftrightarrow> (\<forall>n l. d_nodeToLiteralMap st n = Some l \<longrightarrow> lit_true \<sigma> l = beval v n)"

definition cnf_models :: "('k \<Rightarrow> assignment set) \<Rightarrow> 'k cnf_stream \<Rightarrow> (node \<Rightarrow> bool) set" where
  "cnf_models models st = {v. \<exists>\<sigma>\<in>models (d_satSolver st). agrees \<sigma> v st}"

text \<open>The map gives a node and its negation complementary literals.\<close>

definition map_paired :: "(node \<Rightarrow> SatLiteral option) \<Rightarrow> bool" where
  "map_paired m \<longleftrightarrow>
     (\<forall>n l. m n = Some l \<longrightarrow> \<not> isKind K_NOT n \<longrightarrow> m (notNode n) = Some (neg_lit l)) \<and>
     (\<forall>n l. m n = Some l \<longrightarrow> isKind K_NOT n \<longrightarrow>
        (\<exists>a. n = notNode a \<and> \<not> isKind K_NOT a \<and> m a = Some (neg_lit l)))"

definition cnf_inv ::
  "('k \<Rightarrow> assignment set) \<Rightarrow> ('k \<Rightarrow> SatVariable set) \<Rightarrow> ('k \<Rightarrow> bool) \<Rightarrow> 'k cnf_stream \<Rightarrow> bool" where
  "cnf_inv models vars kinv st \<longleftrightarrow>
     kinv (d_satSolver st) \<and>
     (\<forall>n l. d_nodeToLiteralMap st n = Some l \<longrightarrow> getSatVariable l \<in> vars (d_satSolver st)) \<and>
     map_paired (d_nodeToLiteralMap st) \<and>
     (\<forall>n\<in>dom (d_nodeToLiteralMap st). atoms n \<subseteq> dom (d_nodeToLiteralMap st)) \<and>
     (\<forall>\<sigma>\<in>models (d_satSolver st). \<exists>v. agrees \<sigma> v st)"

lemma map_paired_not:
  assumes "map_paired m" "m n = None" "\<not> isKind K_NOT n"
  shows "m (notNode n) = None"
proof (rule ccontr)
  assume "m (notNode n) \<noteq> None"
  then obtain l where "m (notNode n) = Some l"
    by auto
  moreover have "isKind K_NOT (notNode n)"
    by (simp add: notNode_def)
  ultimately obtain a where "notNode n = notNode a" "m a = Some (neg_lit l)"
    using assms(1) unfolding map_paired_def by blast
  with assms(2) show False
    by simp
qed

lemma map_insert_None: "m x = None \<Longrightarrow> map_insert x y m = m(x \<mapsto> y)"
  by (simp add: map_insert_def)

lemma map_paired_extend:
  assumes "map_paired m" "m n = None" "\<not> isKind K_NOT n"
  shows "map_paired (m(n \<mapsto> l, notNode n \<mapsto> neg_lit l))"
proof -
  have not: "isKind K_NOT (notNode a)" for a
    by (simp add: notNode_def)
  show ?thesis
    unfolding map_paired_def
  proof (intro conjI allI impI)
    fix a l'
    assume a: "(m(n \<mapsto> l, notNode n \<mapsto> neg_lit l)) a = Some l'"
    {
      assume k: "\<not> isKind K_NOT a"
      with not [of n] have "a \<noteq> notNode n"
        by auto
      with a k show "(m(n \<mapsto> l, notNode n \<mapsto> neg_lit l)) (notNode a) = Some (neg_lit l')"
        using assms not [of a] by (cases "a = n") (auto simp: map_paired_def)
    next
      assume k: "isKind K_NOT a"
      with assms(3) have "a \<noteq> n"
        by auto
      show "\<exists>b. a = notNode b \<and> \<not> isKind K_NOT b \<and> (m(n \<mapsto> l, notNode n \<mapsto> neg_lit l)) b = Some (neg_lit l')"
      proof (cases "a = notNode n")
        case True
        with a assms(3) show ?thesis
          by (intro exI [of _ n]) auto
      next
        case False
        with a \<open>a \<noteq> n\<close> have "m a = Some l'"
          by simp
        then obtain b where b: "a = notNode b" "\<not> isKind K_NOT b" "m b = Some (neg_lit l')"
          using assms(1) k unfolding map_paired_def by blast
        then have "b \<noteq> n" "b \<noteq> notNode n"
          using assms(2) not [of n] by auto
        with b show ?thesis
          by (intro exI [of _ b]) simp
      qed
    }
  qed
qed

section \<open>Clauses over the map\<close>

lemma set_filter_duplicates: "set (filter_duplicates cache c) = set c - set cache"
  by (induction cache c rule: filter_duplicates.induct) auto

lemma clause_true_filter_duplicates [simp]:
  "clause_true \<sigma> (filter_duplicates [] c) = clause_true \<sigma> c"
  by (simp add: clause_true_def set_filter_duplicates)

lemma filter_duplicates_Nil [simp]: "filter_duplicates [] c = [] \<longleftrightarrow> c = []"
  using set_filter_duplicates [of "[]" c] by (metis Diff_empty list.set(1) set_empty)

lemma clause_true_simps [simp]:
  "\<not> clause_true \<sigma> []" "clause_true \<sigma> (l # c) \<longleftrightarrow> lit_true \<sigma> l \<or> clause_true \<sigma> c"
  "clause_true \<sigma> (c @ d) \<longleftrightarrow> clause_true \<sigma> c \<or> clause_true \<sigma> d"
  by (auto simp: clause_true_def)

context clause_sink
begin

abbreviation ok :: "'k cnf_stream \<Rightarrow> bool" where
  "ok st \<equiv> cnf_inv models vars inv st"

abbreviation valuations :: "'k cnf_stream \<Rightarrow> (node \<Rightarrow> bool) set" where
  "valuations st \<equiv> cnf_models models st"

text \<open>\<open>st'\<close> is \<open>st\<close> with the constraint \<open>P\<close> on the assignments.\<close>

definition constrained :: "'k cnf_stream \<Rightarrow> (assignment \<Rightarrow> bool) \<Rightarrow> 'k cnf_stream \<Rightarrow> bool" where
  "constrained st P st' \<longleftrightarrow>
     inv (d_satSolver st') \<and> vars (d_satSolver st') = vars (d_satSolver st) \<and>
     models (d_satSolver st') = {\<sigma> \<in> models (d_satSolver st). P \<sigma>} \<and>
     (\<forall>n. room (d_satSolver st) n \<longrightarrow> room (d_satSolver st') n) \<and>
     d_nodeToLiteralMap st' = d_nodeToLiteralMap st"

lemma assertClause_constrained:
  assumes "satSolver e = sink" "inv (d_satSolver st)" "c \<noteq> []"
    "getSatVariable ` set c \<subseteq> vars (d_satSolver st)"
  shows "constrained st (\<lambda>\<sigma>. clause_true \<sigma> c) (assertClause e c st)"
proof -
  let ?c = "filter_duplicates [] c"
  obtain b k where k: "addClause sink ?c (d_removable st) (d_satSolver st) = (b, k)"
    by fastforce
  have "?c \<noteq> []" "getSatVariable ` set ?c \<subseteq> vars (d_satSolver st)"
    using assms by (auto simp: set_filter_duplicates)
  from addClause_step [OF assms(2) this k] show ?thesis
    by (simp add: constrained_def assertClause_def assms(1) k)
qed

lemma constrained_trans:
  "constrained st P st' \<Longrightarrow> constrained st' Q st'' \<Longrightarrow> constrained st (\<lambda>\<sigma>. P \<sigma> \<and> Q \<sigma>) st''"
  by (auto simp: constrained_def)

lemma assertClauses_constrained:
  assumes "satSolver e = sink" "inv (d_satSolver st)"
    "\<And>c. c \<in> set cs \<Longrightarrow> c \<noteq> [] \<and> getSatVariable ` set c \<subseteq> vars (d_satSolver st)"
  shows "constrained st (\<lambda>\<sigma>. \<forall>c\<in>set cs. clause_true \<sigma> c) (assertClauses e cs st)"
  using assms(2,3)
proof (induction cs arbitrary: st)
  case Nil
  then show ?case
    by (simp add: constrained_def assertClauses_def)
next
  case (Cons c cs)
  let ?st = "assertClause e c st"
  have c: "constrained st (\<lambda>\<sigma>. clause_true \<sigma> c) ?st"
    using Cons.prems by (intro assertClause_constrained assms(1)) auto
  then have "constrained ?st (\<lambda>\<sigma>. \<forall>c\<in>set cs. clause_true \<sigma> c) (assertClauses e cs ?st)"
    using Cons.prems by (intro Cons.IH) (auto simp: constrained_def)
  from constrained_trans [OF c this] show ?case
    by (simp add: assertClauses_def)
qed

text \<open>A constraint on the literals of the map is one on the valuations.\<close>

lemma constrained_models:
  assumes st: "ok st" and c: "constrained st P st'"
    and P: "\<And>\<sigma> v. agrees \<sigma> v st \<Longrightarrow> P \<sigma> \<longleftrightarrow> Q v"
  shows "ok st'" "valuations st' = {v \<in> valuations st. Q v}"
proof -
  have agr: "agrees \<sigma> v st' = agrees \<sigma> v st" for \<sigma> v
    using c by (simp add: agrees_def constrained_def)
  show "ok st'"
    using st c by (auto simp: cnf_inv_def constrained_def agr)
  show "valuations st' = {v \<in> valuations st. Q v}"
    using c P by (auto simp: cnf_models_def constrained_def agr)
qed

text \<open>
  A new literal: the node and its negation get their entries, the solver knows the variable, and
  nothing is constrained.
\<close>

definition extended :: "'k cnf_stream \<Rightarrow> node \<Rightarrow> SatLiteral \<Rightarrow> 'k cnf_stream \<Rightarrow> bool" where
  "extended st n l st' \<longleftrightarrow>
     inv (d_satSolver st') \<and> vars (d_satSolver st') = insert (getSatVariable l) (vars (d_satSolver st)) \<and>
     models (d_satSolver st') = models (d_satSolver st) \<and>
     (\<forall>m. room (d_satSolver st) (Suc m) \<longrightarrow> room (d_satSolver st') m) \<and>
     d_nodeToLiteralMap st' = (d_nodeToLiteralMap st)(n \<mapsto> l, notNode n \<mapsto> neg_lit l)"

lemma newLiteral_maps:
  assumes "d_nodeToLiteralMap st n = None" "newLiteral e n t r st = (l, st')"
  obtains t' st1 where "freshLiteral e n t' st = (l, st1)" "d_satSolver st' = d_satSolver st1"
    "d_nodeToLiteralMap st' = d_nodeToLiteralMap st1"
proof -
  define t' where "t' = (t \<or> d_flitPolicy e = TRACK_AND_NOTIFY)"
  obtain l1 st1 where f: "freshLiteral e n t' st = (l1, st1)"
    by (cases "freshLiteral e n t' st")
  have pre: "freshLiteral e n t' (st\<lparr>d_notifyFormulas := x\<rparr>) = (l1, st1\<lparr>d_notifyFormulas := x\<rparr>)" for x
    using f by (auto simp: freshLiteral_def Let_def split: if_splits prod.splits)
  have "l = l1 \<and> d_satSolver st' = d_satSolver st1 \<and> d_nodeToLiteralMap st' = d_nodeToLiteralMap st1"
    using assms f pre by (auto simp: newLiteral_def Let_def t'_def map_literal_def split: if_splits)
  with f that show thesis
    by blast
qed

lemma newLiteral_extended:
  assumes e: "satSolver e = sink" and st: "ok st" "room (d_satSolver st) (Suc m)"
    and n: "d_nodeToLiteralMap st n = None" "\<not> isKind K_NOT n" "\<not> is_const_boolean n"
    and new: "newLiteral e n t r st = (l, st')"
  shows "extended st n l st'" "getSatVariable l \<notin> vars (d_satSolver st)" "\<not> isNegated l"
proof -
  obtain t' st1 where f: "freshLiteral e n t' st = (l, st1)" and st': "d_satSolver st' = d_satSolver st1"
    "d_nodeToLiteralMap st' = d_nodeToLiteralMap st1"
    by (rule newLiteral_maps [OF n(1) new])
  obtain v k where k: "newVar sink t' (d_satSolver st) = (v, k)"
    by fastforce
  have kinv: "inv (d_satSolver st)" and paired: "map_paired (d_nodeToLiteralMap st)"
    using st(1) by (simp_all add: cnf_inv_def)
  have l: "l = mkSatLiteral v False" "d_satSolver st1 = k"
    "d_nodeToLiteralMap st1 = (d_nodeToLiteralMap st)(n \<mapsto> l, notNode n \<mapsto> neg_lit l)"
    using f k n map_paired_not [OF paired n(1,2)] by (auto simp: freshLiteral_def e map_insert_def)
  note step = newVar_step [OF kinv _ k]
  have v: "getSatVariable l = v"
    using step [OF st(2)] by (simp add: l getSatVariable_mk)
  show "extended st n l st'"
    using step [OF st(2)] step l(2,3) by (auto simp: extended_def st' v)
  show "getSatVariable l \<notin> vars (d_satSolver st)" "\<not> isNegated l"
    using step [OF st(2)] by (simp_all add: v) (simp add: l)
qed

text \<open>Two nodes more in the map, whose literals have the value of the nodes.\<close>

lemma agrees_extend:
  assumes "d_nodeToLiteralMap st2 = (d_nodeToLiteralMap st)(n \<mapsto> l, notNode n \<mapsto> neg_lit l)"
    "map_paired (d_nodeToLiteralMap st)" "d_nodeToLiteralMap st n = None" "\<not> isKind K_NOT n"
  shows "agrees \<sigma> v st2 \<longleftrightarrow> agrees \<sigma> v st \<and> lit_true \<sigma> l = beval v n"
  using assms(3) map_paired_not [OF assms(2-4)] unfolding agrees_def assms(1) by auto

lemma extend_models:
  assumes st: "ok st" and n: "d_nodeToLiteralMap st n = None" "\<not> isKind K_NOT n"
    and map: "d_nodeToLiteralMap st2 = (d_nodeToLiteralMap st)(n \<mapsto> l, notNode n \<mapsto> neg_lit l)"
    and kinv: "inv (d_satSolver st2)" "vars (d_satSolver st) \<subseteq> vars (d_satSolver st2)"
      "getSatVariable l \<in> vars (d_satSolver st2)" "models (d_satSolver st2) \<subseteq> models (d_satSolver st)"
    and atoms: "atoms n \<subseteq> insert n (dom (d_nodeToLiteralMap st))"
    and old: "\<And>\<sigma> v. \<sigma> \<in> models (d_satSolver st) \<Longrightarrow> agrees \<sigma> v st \<Longrightarrow>
      \<exists>\<sigma>'\<in>models (d_satSolver st2). agrees \<sigma>' v st \<and> lit_true \<sigma>' l = beval v n"
    and new: "\<And>\<sigma> v. \<sigma> \<in> models (d_satSolver st2) \<Longrightarrow> agrees \<sigma> v st \<Longrightarrow>
      \<exists>v'. agrees \<sigma> v' st \<and> lit_true \<sigma> l = beval v' n"
  shows "ok st2" "valuations st2 = valuations st"
proof -
  have paired: "map_paired (d_nodeToLiteralMap st)"
    and closed: "\<And>m. m \<in> dom (d_nodeToLiteralMap st) \<Longrightarrow> atoms m \<subseteq> dom (d_nodeToLiteralMap st)"
    and sound: "\<And>\<sigma>. \<sigma> \<in> models (d_satSolver st) \<Longrightarrow> \<exists>v. agrees \<sigma> v st"
    and lits: "\<And>m l. d_nodeToLiteralMap st m = Some l \<Longrightarrow> getSatVariable l \<in> vars (d_satSolver st)"
    using st by (auto simp: cnf_inv_def)
  note agr = agrees_extend [OF map paired n]
  have dom: "dom (d_nodeToLiteralMap st2) = {n, notNode n} \<union> dom (d_nodeToLiteralMap st)"
    unfolding map by auto
  have "atoms m \<subseteq> dom (d_nodeToLiteralMap st2)" if "m \<in> dom (d_nodeToLiteralMap st2)" for m
    using that closed [of m] atoms unfolding dom by auto
  moreover have "\<exists>v. agrees \<sigma> v st2" if "\<sigma> \<in> models (d_satSolver st2)" for \<sigma>
    using that kinv(4) sound [of \<sigma>] new [of \<sigma>] unfolding agr by blast
  moreover have "getSatVariable l' \<in> vars (d_satSolver st2)" if "d_nodeToLiteralMap st2 m = Some l'" for m l'
    using that kinv(2,3) lits [of m l'] unfolding map by (auto split: if_splits)
  ultimately show "ok st2"
    unfolding cnf_inv_def using kinv(1) map_paired_extend [OF paired n, of l] map by auto
  show "valuations st2 = valuations st"
  proof (intro equalityI subsetI)
    fix v
    assume "v \<in> valuations st"
    then show "v \<in> valuations st2"
      using old unfolding cnf_models_def agr by blast
  next
    fix v
    assume "v \<in> valuations st2"
    then show "v \<in> valuations st"
      using kinv(4) unfolding cnf_models_def agr by blast
  qed
qed

lemma agrees_fresh:
  assumes "ok st" "x \<notin> vars (d_satSolver st)" "agrees \<sigma> v st"
  shows "agrees (\<sigma>(x := b)) v st"
proof -
  have "lit_true (\<sigma>(x := b)) l = lit_true \<sigma> l" if "d_nodeToLiteralMap st m = Some l" for m l
    using that assms(1,2) by (auto simp: lit_true_def cnf_inv_def)
  with assms(3) show ?thesis
    by (simp add: agrees_def)
qed

lemma models_fresh:
  assumes "inv k" "x \<notin> vars k" "\<sigma> \<in> models k"
  shows "\<sigma>(x := b) \<in> models k"
  using assms by (intro models_cong [OF assms(1,3)]) auto

text \<open>A literal that the clauses \<open>P\<close> define.\<close>

lemma define_literal:
  assumes st: "ok st" and n: "d_nodeToLiteralMap st n = None" "\<not> isKind K_NOT n"
    and ext: "extended st n l st1" "getSatVariable l \<notin> vars (d_satSolver st)" "\<not> isNegated l"
    and c: "constrained st1 P st2" and atoms: "atoms n \<subseteq> dom (d_nodeToLiteralMap st)"
    and P: "\<And>\<sigma> v. agrees \<sigma> v st \<Longrightarrow> P \<sigma> \<longleftrightarrow> lit_true \<sigma> l = beval v n"
  shows "ok st2" "valuations st2 = valuations st"
proof -
  have kinv: "inv (d_satSolver st)"
    using st by (simp add: cnf_inv_def)
  have models: "models (d_satSolver st2) = {\<sigma> \<in> models (d_satSolver st). P \<sigma>}"
    using ext(1) c by (simp add: extended_def constrained_def)
  have "\<exists>\<sigma>'\<in>models (d_satSolver st2). agrees \<sigma>' v st \<and> lit_true \<sigma>' l = beval v n"
    if "\<sigma> \<in> models (d_satSolver st)" "agrees \<sigma> v st" for \<sigma> v
  proof (rule bexI)
    let ?\<sigma> = "\<sigma>(getSatVariable l := beval v n)"
    have agr: "agrees ?\<sigma> v st"
      by (rule agrees_fresh [OF st ext(2) that(2)])
    moreover show val: "agrees ?\<sigma> v st \<and> lit_true ?\<sigma> l = beval v n"
      using agr ext(3) by (simp add: lit_true_def)
    ultimately show "?\<sigma> \<in> models (d_satSolver st2)"
      using models_fresh [OF kinv ext(2) that(1)] P [OF agr] by (simp add: models)
  qed
  moreover have "\<exists>v'. agrees \<sigma> v' st \<and> lit_true \<sigma> l = beval v' n"
    if "\<sigma> \<in> models (d_satSolver st2)" "agrees \<sigma> v st" for \<sigma> v
    using that P [OF that(2)] by (auto simp: models)
  ultimately show "ok st2" "valuations st2 = valuations st"
    using ext(1) c atoms models
    by (intro extend_models [OF st n, of st2 l]; auto simp: extended_def constrained_def)+
qed

text \<open>A literal for an atom.\<close>

lemma atom_literal:
  assumes st: "ok st" and n: "d_nodeToLiteralMap st n = None" "\<not> is_connective n" "\<not> is_const_boolean n"
    and ext: "extended st n l st1" "getSatVariable l \<notin> vars (d_satSolver st)" "\<not> isNegated l"
  shows "ok st1" "valuations st1 = valuations st"
proof -
  have not: "\<not> isKind K_NOT n"
    using n(2) by (simp add: is_connective_def)
  have kinv: "inv (d_satSolver st)"
    and closed: "\<And>m. m \<in> dom (d_nodeToLiteralMap st) \<Longrightarrow> atoms m \<subseteq> dom (d_nodeToLiteralMap st)"
    using st by (auto simp: cnf_inv_def)
  have "\<exists>\<sigma>'\<in>models (d_satSolver st1). agrees \<sigma>' v st \<and> lit_true \<sigma>' l = beval v n"
    if "\<sigma> \<in> models (d_satSolver st)" "agrees \<sigma> v st" for \<sigma> v
    using ext models_fresh [OF kinv ext(2) that(1)] agrees_fresh [OF st ext(2) that(2)]
    by (intro bexI [of _ "\<sigma>(getSatVariable l := beval v n)"]) (auto simp: lit_true_def extended_def)
  moreover have "\<exists>v'. agrees \<sigma> v' st \<and> lit_true \<sigma> l = beval v' n" if "agrees \<sigma> v st" for \<sigma> v
  proof (intro exI conjI)
    let ?v = "v(n := lit_true \<sigma> l)"
    have "beval ?v m = beval v m" if "m \<in> dom (d_nodeToLiteralMap st)" for m
      using closed [OF that] n(1) by (intro beval_cong) auto
    with that show "agrees \<sigma> ?v st"
      by (auto simp: agrees_def)
    show "lit_true \<sigma> l = beval ?v n"
      by (simp add: beval_atom [OF n(2,3)])
  qed
  ultimately show "ok st1" "valuations st1 = valuations st"
    using ext(1) atoms_atom [OF n(2,3)]
    by (intro extend_models [OF st n(1) not, of st1 l]; auto simp: extended_def)+
qed

section \<open>One node\<close>

text \<open>The node has got a literal, with at most one variable of the room.\<close>

definition converted :: "'k cnf_stream \<Rightarrow> node \<Rightarrow> nat \<Rightarrow> 'k cnf_stream \<Rightarrow> bool" where
  "converted st n m st' \<longleftrightarrow> ok st' \<and> valuations st' = valuations st \<and>
     d_nodeToLiteralMap st \<subseteq>\<^sub>m d_nodeToLiteralMap st' \<and> d_nodeToLiteralMap st' n \<noteq> None \<and>
     room (d_satSolver st') m"

lemma map_le_extend: "m n = None \<Longrightarrow> m (notNode n) = None \<Longrightarrow> m \<subseteq>\<^sub>m m(n \<mapsto> l, notNode n \<mapsto> l')"
  by (auto simp: map_le_def)

lemma newLiteral_const:
  assumes e: "satSolver e = sink" and st: "ok st" "room (d_satSolver st) m"
    and n: "d_nodeToLiteralMap st n = None" "is_const_boolean n" and new: "newLiteral e n t r st = (l, st')"
  shows "converted st n m st'"
proof -
  obtain b where b: "n = CONST_BOOLEAN b"
    using n(2) by (cases n) auto
  then have not: "\<not> isKind K_NOT n"
    by simp
  obtain t' st1 where f: "freshLiteral e n t' st = (l, st1)" and st': "d_satSolver st' = d_satSolver st1"
    "d_nodeToLiteralMap st' = d_nodeToLiteralMap st1"
    by (rule newLiteral_maps [OF n(1) new])
  have kinv: "inv (d_satSolver st)" and paired: "map_paired (d_nodeToLiteralMap st)"
    using st(1) by (simp_all add: cnf_inv_def)
  let ?v = "if b then trueVar sink (d_satSolver st) else falseVar sink (d_satSolver st)"
  note fresh = map_paired_not [OF paired n(1) not]
  have l: "l = mkSatLiteral ?v False" "d_satSolver st' = d_satSolver st"
    "d_nodeToLiteralMap st' = (d_nodeToLiteralMap st)(n \<mapsto> l, notNode n \<mapsto> neg_lit l)"
    using f n(1) fresh st' by (auto simp: freshLiteral_def e map_insert_def b)
  note const = constant_vars [OF kinv]
  have v: "getSatVariable l \<in> vars (d_satSolver st)" "getSatVariable l = ?v"
    using const by (auto simp: l(1) getSatVariable_mk)
  have val: "lit_true \<sigma> l = beval w n" if "\<sigma> \<in> models (d_satSolver st)" for \<sigma> w
    using const that v(2) l(1) by (auto simp: lit_true_def b)
  have "ok st'" "valuations st' = valuations st"
    using v(1) l(2) kinv val
    by (intro extend_models [OF st(1) n(1) not l(3)]; auto simp: b)+
  then show ?thesis
    using l st(2) map_le_extend [OF n(1) fresh] by (simp add: converted_def)
qed

lemma convertAtom_converted:
  assumes e: "satSolver e = sink" and st: "ok st" "room (d_satSolver st) (Suc m)"
    and n: "d_nodeToLiteralMap st n = None" "\<not> is_connective n"
  shows "converted st n m (snd (convertAtom e n st))"
proof -
  define st0 where "st0 = (if isVar n \<and> \<not> isBooleanTermSkolem e n
    then st\<lparr>d_booleanVariables := d_booleanVariables st @ [n]\<rparr> else st)"
  define t where "t = (if isVar n \<and> \<not> isBooleanTermSkolem e n then d_flitPolicy e = TRACK_AND_NOTIFY_VAR else True)"
  define r where "r = (\<not> (isVar n \<and> \<not> isBooleanTermSkolem e n))"
  have "convertAtom e n st = newLiteral e n t r st0"
    by (simp add: convertAtom_def st0_def t_def r_def Let_def)
  then obtain l st' where new: "newLiteral e n t r st0 = (l, st')" "convertAtom e n st = (l, st')"
    by (cases "newLiteral e n t r st0") auto
  have st0: "ok st0" "room (d_satSolver st0) (Suc m)" "d_nodeToLiteralMap st0 n = None"
    "d_nodeToLiteralMap st0 = d_nodeToLiteralMap st" "valuations st0 = valuations st"
    using st n(1) by (auto simp: st0_def cnf_inv_def cnf_models_def agrees_def)
  have not: "\<not> isKind K_NOT n"
    using n(2) by (simp add: is_connective_def)
  have "converted st0 n m st'"
  proof (cases "is_const_boolean n")
    case True
    have "room (d_satSolver st0) m"
      by (rule room_mono [OF st0(2)]) simp
    then show ?thesis
      by (rule newLiteral_const [OF e st0(1) _ st0(3) True new(1)])
  next
    case False
    note ext = newLiteral_extended [OF e st0(1,2,3) not False new(1)]
    have "d_nodeToLiteralMap st0 (notNode n) = None"
      using map_paired_not [of "d_nodeToLiteralMap st0" n] st0(1,3) not by (simp add: cnf_inv_def)
    with ext(1) st0(2,3) atom_literal [OF st0(1,3) n(2) False ext] show ?thesis
      using map_le_extend [of "d_nodeToLiteralMap st0" n] by (simp add: converted_def extended_def)
  qed
  then show ?thesis
    by (simp add: new(2) converted_def st0)
qed

text \<open>A connective: a new literal and the clauses that define it.\<close>

lemma handle_converted:
  assumes e: "satSolver e = sink" and st: "ok st" "room (d_satSolver st) (Suc m)"
    and n: "d_nodeToLiteralMap st n = None" "\<not> isKind K_NOT n" "is_connective n"
    and kids: "\<And>c. c \<in> set (children n) \<Longrightarrow> c \<in> dom (d_nodeToLiteralMap st)"
    and new: "newLiteral e n False False st = (l, st1)"
    and cs: "\<And>c. c \<in> set cs \<Longrightarrow> c \<noteq> [] \<and>
      getSatVariable ` set c \<subseteq> insert (getSatVariable l) (vars (d_satSolver st))"
    and P: "\<And>\<sigma> v. agrees \<sigma> v st \<Longrightarrow> (\<forall>c\<in>set cs. clause_true \<sigma> c) \<longleftrightarrow> lit_true \<sigma> l = beval v n"
  shows "converted st n m (assertClauses e cs st1)"
proof -
  have const: "\<not> is_const_boolean n"
    using n(3) by (cases n) auto
  note ext = newLiteral_extended [OF e st n(1,2) const new]
  have c: "constrained st1 (\<lambda>\<sigma>. \<forall>c\<in>set cs. clause_true \<sigma> c) (assertClauses e cs st1)"
    using ext(1) cs by (intro assertClauses_constrained [OF e]) (auto simp: extended_def)
  obtain k ns where kns: "n = mkNode k ns"
    using n(3) by (cases n) auto
  have "\<And>c. c \<in> set ns \<Longrightarrow> atoms c \<subseteq> dom (d_nodeToLiteralMap st)"
    using kids st(1) unfolding kns cnf_inv_def by simp
  then have "atoms n \<subseteq> dom (d_nodeToLiteralMap st)"
    using n(3) unfolding kns by (simp only: atoms.simps if_True) blast
  note def = define_literal [OF st(1) n(1,2) ext c this P]
  have "d_nodeToLiteralMap st (notNode n) = None"
    using map_paired_not [of "d_nodeToLiteralMap st" n] st(1) n by (simp add: cnf_inv_def)
  then show ?thesis
    using def ext(1) c st(2) n(1) map_le_extend [of "d_nodeToLiteralMap st" n]
    by (auto simp: converted_def extended_def constrained_def)
qed

lemma getLiteral_agrees:
  "d_nodeToLiteralMap st a = Some l \<Longrightarrow> agrees \<sigma> v st \<Longrightarrow> lit_true \<sigma> l = beval v a"
  by (simp add: agrees_def)

lemma literal_var: "ok st \<Longrightarrow> d_nodeToLiteralMap st a = Some l \<Longrightarrow> getSatVariable l \<in> vars (d_satSolver st)"
  by (auto simp: cnf_inv_def)

lemma handle_binary:
  assumes e: "satSolver e = sink" and st: "ok st" "room (d_satSolver st) (Suc m)"
    and n: "d_nodeToLiteralMap st (mkNode k [a, b]) = None" "is_connective (mkNode k [a, b])"
    and kids: "a \<in> dom (d_nodeToLiteralMap st)" "b \<in> dom (d_nodeToLiteralMap st)"
  shows "k = K_XOR \<Longrightarrow> \<exists>st'. handleXor e (mkNode k [a, b]) st = Some st' \<and> converted st (mkNode k [a, b]) m st'"
    and "k = K_IMPLIES \<Longrightarrow> \<exists>st'. handleImplies e (mkNode k [a, b]) st = Some st' \<and> converted st (mkNode k [a, b]) m st'"
    and "k = K_EQUAL \<Longrightarrow> \<exists>st'. handleIff e (mkNode k [a, b]) st = Some st' \<and> converted st (mkNode k [a, b]) m st'"
proof -
  obtain la lb where l: "d_nodeToLiteralMap st a = Some la" "d_nodeToLiteralMap st b = Some lb"
    using kids by auto
  obtain l st1 where new: "newLiteral e (mkNode k [a, b]) False False st = (l, st1)"
    by fastforce
  note vars = literal_var [OF st(1) l(1)] literal_var [OF st(1) l(2)]
  note val = getLiteral_agrees [OF l(1)] getLiteral_agrees [OF l(2)]
  note intro = handle_converted [OF e st n(1) _ n(2) _ new]
  show "\<exists>st'. handleXor e (mkNode k [a, b]) st = Some st' \<and> converted st (mkNode k [a, b]) m st'" if k: "k = K_XOR"
  proof -
    have "converted st (mkNode k [a, b]) m (assertClauses e
       [[la, lb, neg_lit l], [neg_lit la, neg_lit lb, neg_lit l], [la, neg_lit lb, l], [neg_lit la, lb, l]] st1)"
      by (rule intro) (use vars kids n(2) k in \<open>auto simp: val connective_value_def\<close>)
    then show ?thesis
      by (simp add: handleXor_def getLiteral_def l new)
  qed
  show "\<exists>st'. handleImplies e (mkNode k [a, b]) st = Some st' \<and> converted st (mkNode k [a, b]) m st'" if k: "k = K_IMPLIES"
  proof -
    have "converted st (mkNode k [a, b]) m (assertClauses e
       [[neg_lit l, neg_lit la, lb], [la, l], [neg_lit lb, l]] st1)"
      by (rule intro) (use vars kids n(2) k in \<open>auto simp: val connective_value_def\<close>)
    then show ?thesis
      by (simp add: handleImplies_def getLiteral_def l new)
  qed
  show "\<exists>st'. handleIff e (mkNode k [a, b]) st = Some st' \<and> converted st (mkNode k [a, b]) m st'" if k: "k = K_EQUAL"
  proof -
    have "converted st (mkNode k [a, b]) m (assertClauses e
       [[neg_lit la, lb, neg_lit l], [la, neg_lit lb, neg_lit l], [neg_lit la, neg_lit lb, l], [la, lb, l]] st1)"
      by (rule intro) (use vars kids n(2) k in \<open>auto simp: val connective_value_def\<close>)
    then show ?thesis
      by (simp add: handleIff_def getLiteral_def l new)
  qed
qed

lemma handle_ite:
  assumes e: "satSolver e = sink" and st: "ok st" "room (d_satSolver st) (Suc m)"
    and n: "d_nodeToLiteralMap st (mkNode K_ITE [c, a, b]) = None"
    and kids: "c \<in> dom (d_nodeToLiteralMap st)" "a \<in> dom (d_nodeToLiteralMap st)" "b \<in> dom (d_nodeToLiteralMap st)"
  shows "\<exists>st'. handleIte e (mkNode K_ITE [c, a, b]) st = Some st' \<and> converted st (mkNode K_ITE [c, a, b]) m st'"
proof -
  obtain lc la lb where l: "d_nodeToLiteralMap st c = Some lc" "d_nodeToLiteralMap st a = Some la"
    "d_nodeToLiteralMap st b = Some lb"
    using kids by auto
  obtain l st1 where new: "newLiteral e (mkNode K_ITE [c, a, b]) False False st = (l, st1)"
    by fastforce
  note vars = literal_var [OF st(1) l(1)] literal_var [OF st(1) l(2)] literal_var [OF st(1) l(3)]
  note val = getLiteral_agrees [OF l(1)] getLiteral_agrees [OF l(2)] getLiteral_agrees [OF l(3)]
  have con: "is_connective (mkNode K_ITE [c, a, b])"
    by (simp add: is_connective_def)
  have "converted st (mkNode K_ITE [c, a, b]) m (assertClauses e
     [[neg_lit l, la, lb], [neg_lit l, neg_lit lc, la], [neg_lit l, lc, lb], [l, neg_lit la, neg_lit lb],
      [l, neg_lit lc, neg_lit la], [l, lc, neg_lit lb]] st1)"
    by (rule handle_converted [OF e st n _ con _ new])
      (use vars kids con in \<open>auto simp: val connective_value_def\<close>)
  then show ?thesis
    by (simp add: handleIte_def getLiteral_def l new)
qed

lemma literals_of:
  assumes "\<And>c. c \<in> set ns \<Longrightarrow> c \<in> dom m"
  obtains ls where "those (map m ns) = Some ls" "list_all2 (\<lambda>n l. m n = Some l) ns ls"
proof -
  have "those (map m ns) = Some (map (the \<circ> m) ns) \<and> list_all2 (\<lambda>n l. m n = Some l) ns (map (the \<circ> m) ns)"
    using assms
  proof (induction ns)
    case (Cons n ns)
    then obtain y where "m n = Some y"
      by (metis domD list.set_intros(1))
    with Cons show ?case
      by simp
  qed simp
  with that show thesis
    by blast
qed

lemma list_all2_agrees:
  assumes "list_all2 (\<lambda>n l. d_nodeToLiteralMap st n = Some l) ns ls" "agrees \<sigma> v st"
  shows "(\<forall>l\<in>set ls. lit_true \<sigma> l) \<longleftrightarrow> (\<forall>n\<in>set ns. beval v n)"
    "(\<exists>l\<in>set ls. lit_true \<sigma> l) \<longleftrightarrow> (\<exists>n\<in>set ns. beval v n)"
  using assms(1) by (induction rule: list_all2_induct) (auto dest: getLiteral_agrees [OF _ assms(2)])

lemma list_all2_vars:
  assumes "list_all2 (\<lambda>n l. d_nodeToLiteralMap st n = Some l) ns ls" "ok st"
  shows "getSatVariable ` set ls \<subseteq> vars (d_satSolver st)"
  using assms(1) by (induction rule: list_all2_induct) (auto dest: literal_var [OF assms(2)])

lemma assertClauses_snoc: "assertClause e c (assertClauses e cs st) = assertClauses e (cs @ [c]) st"
  by (simp add: assertClauses_def)

lemma handle_nary:
  assumes e: "satSolver e = sink" and st: "ok st" "room (d_satSolver st) (Suc m)"
    and n: "d_nodeToLiteralMap st (mkNode k ns) = None" and k: "k = K_AND \<or> k = K_OR"
    and kids: "\<And>c. c \<in> set ns \<Longrightarrow> c \<in> dom (d_nodeToLiteralMap st)"
  shows "\<exists>st'. (if k = K_AND then handleAnd e (mkNode k ns) st else handleOr e (mkNode k ns) st) = Some st' \<and>
    converted st (mkNode k ns) m st'"
proof -
  obtain l st1 where new: "newLiteral e (mkNode k ns) False False st = (l, st1)"
    by fastforce
  have con: "is_connective (mkNode k ns)" "\<not> isKind K_NOT (mkNode k ns)" "\<not> is_const_boolean (mkNode k ns)"
    using k by (auto simp: is_connective_def)
  have paired: "map_paired (d_nodeToLiteralMap st)"
    using st(1) by (simp add: cnf_inv_def)
  have "d_nodeToLiteralMap st1 = (d_nodeToLiteralMap st)(mkNode k ns \<mapsto> l, notNode (mkNode k ns) \<mapsto> neg_lit l)"
    using newLiteral_extended(1) [OF e st n con(2,3) new] by (simp add: extended_def)
  moreover have "c \<noteq> mkNode k ns \<and> c \<noteq> notNode (mkNode k ns)" if "c \<in> set ns" for c
    using kids [OF that] n map_paired_not [OF paired n con(2)] by auto
  ultimately have "map (getLiteral st1) ns = map (d_nodeToLiteralMap st) ns"
    by (simp add: getLiteral_def)
  moreover obtain ls where ls: "those (map (d_nodeToLiteralMap st) ns) = Some ls"
    "list_all2 (\<lambda>n l. d_nodeToLiteralMap st n = Some l) ns ls"
    by (rule literals_of [OF kids])
  ultimately have those: "those (map (getLiteral st1) ns) = Some ls"
    by (simp only:)
  note vars = list_all2_vars [OF ls(2) st(1)] and val = list_all2_agrees [OF ls(2)]
  note intro = handle_converted [OF e st n con(2,1) _ new]
  have lvars: "l' \<in> set ls \<Longrightarrow> getSatVariable l' \<in> vars (d_satSolver st)" for l'
    using vars by blast
  have "converted st (mkNode k ns) m (assertClauses e
     (map (\<lambda>l'. [neg_lit l, neg_lit l']) (map neg_lit ls) @ [map neg_lit ls @ [l]]) st1)" if "k = K_AND"
  proof (rule intro)
    fix \<sigma> v
    assume a: "agrees \<sigma> v st"
    have "beval v (mkNode k ns) \<longleftrightarrow> (\<forall>l'\<in>set ls. lit_true \<sigma> l')"
      using that con(1) by (simp add: connective_value_def list_all_iff val(1) [OF a])
    then show "(\<forall>c\<in>set (map (\<lambda>l'. [neg_lit l, neg_lit l']) (map neg_lit ls) @ [map neg_lit ls @ [l]]). clause_true \<sigma> c)
        \<longleftrightarrow> lit_true \<sigma> l = beval v (mkNode k ns)"
      by (auto simp: clause_true_def)
  qed (use lvars kids in auto)
  moreover have "converted st (mkNode k ns) m (assertClauses e
     (map (\<lambda>l'. [l, neg_lit l']) ls @ [ls @ [neg_lit l]]) st1)" if "k = K_OR"
  proof (rule intro)
    fix \<sigma> v
    assume a: "agrees \<sigma> v st"
    have "beval v (mkNode k ns) \<longleftrightarrow> (\<exists>l'\<in>set ls. lit_true \<sigma> l')"
      using that con(1) by (simp add: connective_value_def list_ex_iff val(2) [OF a])
    then show "(\<forall>c\<in>set (map (\<lambda>l'. [l, neg_lit l']) ls @ [ls @ [neg_lit l]]). clause_true \<sigma> c)
        \<longleftrightarrow> lit_true \<sigma> l = beval v (mkNode k ns)"
      by (auto simp: clause_true_def)
  qed (use lvars kids in auto)
  ultimately show ?thesis
    using k new those by (auto simp: handleAnd_def handleOr_def assertClauses_snoc)
qed

lemma toCNF_visit_converted:
  assumes e: "satSolver e = sink" and st: "ok st" "room (d_satSolver st) (Suc m)"
    and n: "d_nodeToLiteralMap st n = None" "formula n" "\<not> isKind K_NOT n"
    and kids: "\<And>c. is_connective n \<Longrightarrow> c \<in> set (children n) \<Longrightarrow> c \<in> dom (d_nodeToLiteralMap st)"
  shows "\<exists>st'. toCNF_visit e n st = Some st' \<and> converted st n m st'"
proof (cases "is_connective n")
  case False
  with convertAtom_converted [OF e st n(1) False] show ?thesis
    by (simp add: toCNF_visit_def is_connective_def)
next
  case True
  obtain k ns where kns: "n = mkNode k ns" "kind_arity k (length ns)"
    by (rule connectiveE [OF True n(2)])
  have dom: "\<And>c. c \<in> set ns \<Longrightarrow> c \<in> dom (d_nodeToLiteralMap st)"
    using kids [OF True] by (simp add: kns(1))
  consider "k = K_AND \<or> k = K_OR" | a b where "ns = [a, b]" "k = K_XOR \<or> k = K_IMPLIES \<or> k = K_EQUAL"
    | c a b where "ns = [c, a, b]" "k = K_ITE"
    using True kns n(3) by (auto simp: is_connective_def is_iff_def kind_arity_def numeral_2_eq_2
        numeral_3_eq_3 length_Suc_conv)
  then show ?thesis
  proof cases
    case 1
    from handle_nary [OF e st _ 1 dom] n(1) 1 show ?thesis
      by (auto simp: toCNF_visit_def kns(1))
  next
    case (2 a b)
    have dom2: "a \<in> dom (d_nodeToLiteralMap st)" "b \<in> dom (d_nodeToLiteralMap st)"
      using dom 2(1) by simp_all
    from handle_binary [OF e st _ _ dom2, of k] n(1) True 2 show ?thesis
      by (auto simp: toCNF_visit_def kns(1) is_connective_def)
  next
    case (3 c a b)
    have dom3: "c \<in> dom (d_nodeToLiteralMap st)" "a \<in> dom (d_nodeToLiteralMap st)" "b \<in> dom (d_nodeToLiteralMap st)"
      using dom 3(1) by simp_all
    from handle_ite [OF e st _ dom3] n(1) 3 show ?thesis
      by (simp add: toCNF_visit_def kns(1))
  qed
qed

end

end
