(* ===== verification/Cnf_Traversal.thy ===== *)
theory Cnf_Traversal
  imports Cnf_Correct
begin

text \<open>
  The traversal of \<^verbatim>\<open>CnfStream::toCNF\<close>: its stack and cache reach the literal of every formula in at
  most two rounds per node of the tree, so that the fuel of \<open>toCNF\<close> is enough, and the literal
  stands for the formula.
\<close>

context clause_sink
begin

section \<open>The traversal\<close>

text \<open>
  \<open>open_above\<close>: the nodes without a literal that wait for their children are larger than \<open>s\<close>;
  \<open>closed_ok\<close>: the finished ones have a literal.  \<open>run_to\<close>: within \<open>steps\<close> rounds the loop has taken
  the nodes off the stack and given them literals.
\<close>

definition open_above :: "(node \<Rightarrow> bool option) \<Rightarrow> 'k cnf_stream \<Rightarrow> nat \<Rightarrow> bool" where
  "open_above cache st s \<longleftrightarrow>
     (\<forall>m. cache m = Some False \<longrightarrow> d_nodeToLiteralMap st m = None \<longrightarrow> s < tree_size m)"

definition closed_ok :: "(node \<Rightarrow> bool option) \<Rightarrow> 'k cnf_stream \<Rightarrow> bool" where
  "closed_ok cache st \<longleftrightarrow> (\<forall>m. cache m = Some True \<longrightarrow> d_nodeToLiteralMap st m \<noteq> None)"

definition cache_kept :: "(node \<Rightarrow> bool option) \<Rightarrow> nat \<Rightarrow> (node \<Rightarrow> bool option) \<Rightarrow> 'k cnf_stream \<Rightarrow> bool" where
  "cache_kept cache s cache' st' \<longleftrightarrow> (\<forall>m. s < tree_size m \<longrightarrow> cache' m = cache m) \<and>
     (\<forall>m. cache' m = Some False \<longrightarrow> d_nodeToLiteralMap st' m = None \<longrightarrow> cache m = Some False)"

definition reaches ::
  "node list \<Rightarrow> (node \<Rightarrow> bool option) \<Rightarrow> 'k cnf_stream \<Rightarrow> nat \<Rightarrow> nat \<Rightarrow>
   (node \<Rightarrow> bool option) \<Rightarrow> 'k cnf_stream \<Rightarrow> bool" where
  "reaches ns cache st s m cache' st' \<longleftrightarrow>
     ok st' \<and> valuations st' = valuations st \<and> d_nodeToLiteralMap st \<subseteq>\<^sub>m d_nodeToLiteralMap st' \<and>
     (\<forall>n\<in>set ns. d_nodeToLiteralMap st' n \<noteq> None) \<and> room (d_satSolver st') m \<and>
     cache_kept cache s cache' st' \<and> closed_ok cache' st'"

definition run_to ::
  "'k cnf_env \<Rightarrow> node list \<Rightarrow> (node \<Rightarrow> bool option) \<Rightarrow> 'k cnf_stream \<Rightarrow> nat \<Rightarrow> nat \<Rightarrow> nat \<Rightarrow> bool" where
  "run_to e ns cache st steps s m \<longleftrightarrow>
     (\<exists>k cache' st'. k \<le> steps \<and> reaches ns cache st s m cache' st' \<and>
        (\<forall>fuel rest. toCNF_loop (k + fuel) e (ns @ rest) cache st = toCNF_loop fuel e rest cache' st'))"

lemma run_toI:
  "k \<le> steps \<Longrightarrow> reaches ns cache st s m cache' st' \<Longrightarrow>
   (\<And>fuel rest. toCNF_loop (k + fuel) e (ns @ rest) cache st = toCNF_loop fuel e rest cache' st') \<Longrightarrow>
   run_to e ns cache st steps s m"
  unfolding run_to_def by blast

lemma map_le_None: "m \<subseteq>\<^sub>m m' \<Longrightarrow> m' x = None \<Longrightarrow> m x = None"
  by (cases "m x") (auto simp: map_le_def dest: bspec [of _ _ x])

lemma closed_ok_mono:
  "closed_ok cache st \<Longrightarrow> d_nodeToLiteralMap st \<subseteq>\<^sub>m d_nodeToLiteralMap st' \<Longrightarrow> closed_ok cache st'"
  unfolding closed_ok_def by (metis map_le_None)

lemma run_list:
  assumes node: "\<And>n cache st m. n \<in> set ns \<Longrightarrow> ok st \<Longrightarrow> room (d_satSolver st) (tree_size n + m) \<Longrightarrow>
      open_above cache st (tree_size n) \<Longrightarrow> closed_ok cache st \<Longrightarrow>
      run_to e [n] cache st (2 * tree_size n) (tree_size n) m"
    and small: "\<And>n. n \<in> set ns \<Longrightarrow> tree_size n \<le> s"
    and st: "ok st" "room (d_satSolver st) (sum_list (map tree_size ns) + m)" "open_above cache st s" "closed_ok cache st"
  shows "run_to e ns cache st (2 * sum_list (map tree_size ns)) s m"
  using assms
proof (induction ns arbitrary: cache st)
  case Nil
  then show ?case
    by (intro run_toI [of 0 _ _ _ _ _ _ cache st]) (auto simp: reaches_def cache_kept_def)
next
  case (Cons n ns)
  have n: "open_above cache st (tree_size n)"
    using Cons.prems(2) [of n] Cons.prems(5) by (force simp: open_above_def)
  have "run_to e [n] cache st (2 * tree_size n) (tree_size n) (sum_list (map tree_size ns) + m)"
    using Cons.prems(4) by (intro Cons.prems(1) [OF _ Cons.prems(3) _ n Cons.prems(6)]) (simp_all add: add.assoc)
  then obtain k1 cache1 st1 where 1: "k1 \<le> 2 * tree_size n"
    "reaches [n] cache st (tree_size n) (sum_list (map tree_size ns) + m) cache1 st1"
    "\<And>fuel rest. toCNF_loop (k1 + fuel) e ([n] @ rest) cache st = toCNF_loop fuel e rest cache1 st1"
    unfolding run_to_def by blast
  have le: "d_nodeToLiteralMap st \<subseteq>\<^sub>m d_nodeToLiteralMap st1"
    using 1(2) by (simp add: reaches_def)
  have "open_above cache1 st1 s"
    using 1(2) Cons.prems(5) map_le_None [OF le] by (auto simp: open_above_def reaches_def cache_kept_def)
  then have "run_to e ns cache1 st1 (2 * sum_list (map tree_size ns)) s m"
    using 1(2) by (intro Cons.IH Cons.prems(1,2)) (auto simp: reaches_def)
  then obtain k2 cache2 st2 where 2: "k2 \<le> 2 * sum_list (map tree_size ns)"
    "reaches ns cache1 st1 s m cache2 st2"
    "\<And>fuel rest. toCNF_loop (k2 + fuel) e (ns @ rest) cache1 st1 = toCNF_loop fuel e rest cache2 st2"
    unfolding run_to_def by blast
  have le2: "d_nodeToLiteralMap st1 \<subseteq>\<^sub>m d_nodeToLiteralMap st2"
    using 2(2) by (simp add: reaches_def)
  show ?case
  proof (rule run_toI [of "k1 + k2"])
    have "cache_kept cache s cache2 st2"
      using 1(2) 2(2) Cons.prems(2) [of n] map_le_None [OF le2]
      by (auto simp: reaches_def cache_kept_def)
    moreover have "d_nodeToLiteralMap st2 n \<noteq> None"
      using 1(2) map_le_None [OF le2, of n] unfolding reaches_def by force
    ultimately show "reaches (n # ns) cache st s m cache2 st2"
      using 1(2) 2(2) map_le_trans [OF le le2] by (simp add: reaches_def)
    show "toCNF_loop (k1 + k2 + fuel) e ((n # ns) @ rest) cache st = toCNF_loop fuel e rest cache2 st2" for fuel rest
      using 1(3) [of "k2 + fuel" "ns @ rest"] 2(3) [of fuel rest] by (simp add: add.assoc)
  qed (use 1(1) 2(1) in simp)
qed

lemma run_visit:
  assumes e: "satSolver e = sink" and st: "ok st" "room (d_satSolver st) (Suc m)" "closed_ok cache st"
    and n: "d_nodeToLiteralMap st n = None" "formula n" "\<not> isKind K_NOT n" "cache n = Some False"
    and kids: "\<And>c. is_connective n \<Longrightarrow> c \<in> set (children n) \<Longrightarrow> c \<in> dom (d_nodeToLiteralMap st)"
  obtains cache' st' where "reaches [n] (cache(n := None)) st (tree_size n) m cache' st'"
    "\<And>fuel rest. toCNF_loop (Suc fuel) e (n # rest) cache st = toCNF_loop fuel e rest cache' st'"
proof -
  obtain st' where st': "toCNF_visit e n st = Some st'" "converted st n m st'"
    using toCNF_visit_converted [OF e st(1,2) n(1,2,3) kids] by blast
  have le: "d_nodeToLiteralMap st \<subseteq>\<^sub>m d_nodeToLiteralMap st'"
    using st'(2) by (simp add: converted_def)
  have "closed_ok (cache(n \<mapsto> True)) st'"
    using closed_ok_mono [OF st(3) le] st'(2) by (simp add: closed_ok_def converted_def)
  then have "reaches [n] (cache(n := None)) st (tree_size n) m (cache(n \<mapsto> True)) st'"
    using st'(2) by (auto simp: reaches_def converted_def cache_kept_def)
  moreover have "toCNF_loop (Suc fuel) e (n # rest) cache st = toCNF_loop fuel e rest (cache(n \<mapsto> True)) st'" for fuel rest
    using n st'(1) by (simp add: hasLiteral_def)
  ultimately show thesis
    by (rule that)
qed

lemma not_NOT:
  assumes "formula n" "ok st" "d_nodeToLiteralMap st n = None"
    "\<And>c. is_connective n \<Longrightarrow> c \<in> set (children n) \<Longrightarrow> d_nodeToLiteralMap st c \<noteq> None"
  shows "\<not> isKind K_NOT n"
proof
  assume not: "isKind K_NOT n"
  then have con: "is_connective n"
    by (simp add: is_connective_def)
  obtain c where c: "n = notNode c" "\<not> isKind K_NOT c"
    using assms(1) not con by (auto elim!: isKindE simp: kind_arity_def length_Suc_conv notNode_def)
  then have "d_nodeToLiteralMap st c \<noteq> None"
    using assms(4) [OF con, of c] by (simp add: notNode_def)
  then show False
    using assms(2,3) c by (auto simp: cnf_inv_def map_paired_def)
qed

lemma run_node:
  assumes e: "satSolver e = sink"
  shows "formula n \<Longrightarrow> ok st \<Longrightarrow> room (d_satSolver st) (tree_size n + m) \<Longrightarrow>
    open_above cache st (tree_size n) \<Longrightarrow> closed_ok cache st \<Longrightarrow>
    run_to e [n] cache st (2 * tree_size n) (tree_size n) m"
proof (induction n arbitrary: cache st m rule: measure_induct_rule [of tree_size])
  case (less n)
  show ?case
  proof (cases "d_nodeToLiteralMap st n")
    case (Some l)
    have "room (d_satSolver st) m"
      by (rule room_mono [OF less.prems(3)]) simp
    then show ?thesis
      using Some less.prems(2,5) tree_size_pos [of n]
      by (intro run_toI [of 1 _ _ _ _ _ _ cache st]) (auto simp: reaches_def cache_kept_def hasLiteral_def)
  next
    case None
    then have "cache n \<noteq> Some b" for b
      using less.prems(4,5) by (cases b) (auto simp: open_above_def closed_ok_def)
    then have cache: "cache n = None"
      by auto
    let ?ns = "if is_connective n then children n else []"
    let ?c = "cache(n \<mapsto> False)"
    have first: "toCNF_loop (Suc fuel) e (n # rest) cache st = toCNF_loop fuel e (?ns @ n # rest) ?c st" for fuel rest
      using None cache by (simp add: hasLiteral_def)
    have size: "sum_list (map tree_size ?ns) + 1 \<le> tree_size n" "\<And>c. c \<in> set ?ns \<Longrightarrow> tree_size c < tree_size n"
      using tree_size_pos [of n] tree_size_child by (cases n; auto)+
    have kids: "formula c" if "c \<in> set ?ns" for c
      using that less.prems(1) by (cases n) (auto simp: list_all_iff split: if_splits)
    have "run_to e ?ns ?c st (2 * sum_list (map tree_size ?ns)) (tree_size n - 1) (Suc m)"
    proof (rule run_list)
      show "room (d_satSolver st) (sum_list (map tree_size ?ns) + Suc m)"
        using size(1) by (intro room_mono [OF less.prems(3)]) simp
      show "open_above ?c st (tree_size n - 1)" "closed_ok ?c st"
        using less.prems(4,5) tree_size_pos [of n] by (auto simp: open_above_def closed_ok_def)
      show "tree_size c \<le> tree_size n - 1" if "c \<in> set ?ns" for c
        using size(2) [OF that] by simp
    qed (use less.IH size(2) kids less.prems(2) in blast)+
    then obtain k cache1 st1 where 1: "k \<le> 2 * sum_list (map tree_size ?ns)"
      "reaches ?ns ?c st (tree_size n - 1) (Suc m) cache1 st1"
      "\<And>fuel rest. toCNF_loop (k + fuel) e (?ns @ rest) ?c st = toCNF_loop fuel e rest cache1 st1"
      unfolding run_to_def by blast
    have cache1: "cache1 n = Some False" "ok st1" "closed_ok cache1 st1" "room (d_satSolver st1) (Suc m)"
      using 1(2) tree_size_pos [of n] by (auto simp: reaches_def cache_kept_def)
    have split: "toCNF_loop (Suc k + Suc fuel) e ([n] @ rest) cache st =
        toCNF_loop (Suc fuel) e (n # rest) cache1 st1" for fuel rest
      using first [of "k + Suc fuel" rest] 1(3) [of "Suc fuel" "n # rest"] by simp
    have kept: "cache_kept cache (tree_size n) cache' st'"
      if "cache_kept (cache1(n := None)) (tree_size n) cache' st'" "d_nodeToLiteralMap st1 \<subseteq>\<^sub>m d_nodeToLiteralMap st'"
      for cache' st'
    proof -
      have c1: "\<And>m. tree_size n - 1 < tree_size m \<Longrightarrow> cache1 m = ?c m"
        "\<And>m. cache1 m = Some False \<Longrightarrow> d_nodeToLiteralMap st1 m = None \<Longrightarrow> ?c m = Some False"
        using 1(2) by (simp_all add: reaches_def cache_kept_def)
      show ?thesis
        unfolding cache_kept_def
      proof (intro conjI allI impI)
        fix a
        assume "tree_size n < tree_size a"
        then have "a \<noteq> n" "tree_size n - 1 < tree_size a"
          by auto
        then show "cache' a = cache a"
          using that(1) c1(1) \<open>tree_size n < tree_size a\<close> by (simp add: cache_kept_def)
      next
        fix a
        assume "cache' a = Some False" "d_nodeToLiteralMap st' a = None"
        then have "a \<noteq> n" "cache1 a = Some False" "d_nodeToLiteralMap st1 a = None"
          using that(1) map_le_None [OF that(2)] by (auto simp: cache_kept_def split: if_splits)
        with c1(2) show "cache a = Some False"
          by force
      qed
    qed
    show ?thesis
    proof (cases "d_nodeToLiteralMap st1 n")
      case (Some l)
      have "room (d_satSolver st1) m"
        by (rule room_mono [OF cache1(4)]) simp
      moreover have "cache_kept (cache1(n := None)) (tree_size n) cache1 st1"
        using Some by (auto simp: cache_kept_def)
      ultimately have "reaches [n] cache st (tree_size n) m cache1 st1"
        using 1(2) Some kept [OF _ map_le_refl, of cache1] by (simp add: reaches_def)
      then show ?thesis
        using split Some 1(1) size(1)
        by (intro run_toI [of "Suc k + 1" _ _ _ _ _ _ cache1 st1]) (simp_all add: hasLiteral_def)
    next
      case None
      have not: "\<not> isKind K_NOT n"
        by (rule not_NOT [OF less.prems(1) cache1(2) None]) (use 1(2) in \<open>auto simp: reaches_def\<close>)
      have dom: "c \<in> dom (d_nodeToLiteralMap st1)" if "is_connective n" "c \<in> set (children n)" for c
        using 1(2) that by (auto simp: reaches_def)
      obtain cache2 st2 where 2: "reaches [n] (cache1(n := None)) st1 (tree_size n) m cache2 st2"
        "\<And>fuel rest. toCNF_loop (Suc fuel) e (n # rest) cache1 st1 = toCNF_loop fuel e rest cache2 st2"
        by (rule run_visit [OF e cache1(2,4,3) None less.prems(1) not cache1(1) dom]) auto
      have "reaches [n] cache st (tree_size n) m cache2 st2"
        using 1(2) 2(1) kept [of cache2 st2] map_le_trans [of _ "d_nodeToLiteralMap st1"]
        by (simp add: reaches_def)
      then show ?thesis
        using split 2(2) 1(1) size(1)
        by (intro run_toI [of "Suc k + 1" _ _ _ _ _ _ cache2 st2]) simp_all
    qed
  qed
qed

section \<open>Literals of formulas\<close>

text \<open>\<open>st'\<close> has literals for more formulas, with room for \<open>m\<close> further variables.\<close>

definition grown :: "'k cnf_stream \<Rightarrow> nat \<Rightarrow> 'k cnf_stream \<Rightarrow> bool" where
  "grown st m st' \<longleftrightarrow> ok st' \<and> valuations st' = valuations st \<and>
     d_nodeToLiteralMap st \<subseteq>\<^sub>m d_nodeToLiteralMap st' \<and> room (d_satSolver st') m"

definition stands_for :: "SatLiteral \<Rightarrow> node \<Rightarrow> bool \<Rightarrow> 'k cnf_stream \<Rightarrow> bool" where
  "stands_for l n negated st \<longleftrightarrow>
     d_nodeToLiteralMap st n = Some (if negated then neg_lit l else l)"

lemma grown_trans: "grown st m st' \<Longrightarrow> grown st' m' st'' \<Longrightarrow> grown st m' st''"
  unfolding grown_def using map_le_trans by metis

lemma stands_for_mono:
  "stands_for l n negated st \<Longrightarrow> d_nodeToLiteralMap st \<subseteq>\<^sub>m d_nodeToLiteralMap st' \<Longrightarrow> stands_for l n negated st'"
  by (force simp: stands_for_def map_le_def dom_def)

lemma stands_for_agrees:
  "stands_for l n negated st \<Longrightarrow> agrees \<sigma> v st \<Longrightarrow> lit_true \<sigma> l = (beval v n \<noteq> negated)"
  unfolding stands_for_def by (cases negated) (auto dest: getLiteral_agrees)

lemma stands_for_var:
  "stands_for l n negated st \<Longrightarrow> ok st \<Longrightarrow> getSatVariable l \<in> vars (d_satSolver st)"
  unfolding stands_for_def by (cases negated) (auto dest: literal_var)

lemma toCNF_spec:
  assumes e: "satSolver e = sink" and n: "formula n" and st: "ok st" "room (d_satSolver st) (tree_size n + m)"
  obtains l st' where "toCNF e n negated st = Some (l, st')" "grown st m st'" "stands_for l n negated st'"
proof -
  have "run_to e [n] (\<lambda>n. None) st (2 * tree_size n) (tree_size n) m"
    by (rule run_node [OF e n st]) (simp_all add: open_above_def closed_ok_def)
  then obtain k cache' st' where k: "k \<le> 2 * tree_size n" "reaches [n] (\<lambda>n. None) st (tree_size n) m cache' st'"
    "\<And>fuel rest. toCNF_loop (k + fuel) e ([n] @ rest) (\<lambda>n. None) st = toCNF_loop fuel e rest cache' st'"
    unfolding run_to_def by blast
  have loop: "toCNF_loop (2 * tree_size n) e [n] (\<lambda>n. None) st = Some st'"
    using k(3) [of "2 * tree_size n - k" "[]"] k(1) by simp
  obtain l where "d_nodeToLiteralMap st' n = Some l"
    using k(2) by (auto simp: reaches_def)
  with loop k(2) show thesis
    by (intro that [of "if negated then neg_lit l else l" st'])
      (auto simp: toCNF_def getLiteral_def grown_def stands_for_def reaches_def)
qed

lemma toCNF_list_spec:
  assumes e: "satSolver e = sink" and ns: "list_all formula ns"
    and st: "ok st" "room (d_satSolver st) (sum_list (map tree_size ns) + m)"
  shows "\<exists>ls st'. toCNF_list e ns negated st = Some (ls, st') \<and> grown st m st' \<and>
    list_all2 (\<lambda>n l. stands_for l n negated st') ns ls"
  using ns st
proof (induction ns arbitrary: st)
  case Nil
  then show ?case
    by (simp add: grown_def)
next
  case (Cons n ns)
  have "room (d_satSolver st) (tree_size n + (sum_list (map tree_size ns) + m))"
    using Cons.prems(3) by (simp add: add.assoc)
  with Cons.prems obtain l st1 where 1: "toCNF e n negated st = Some (l, st1)"
    "grown st (sum_list (map tree_size ns) + m) st1" "stands_for l n negated st1"
    by (auto elim: toCNF_spec [OF e, of n st "sum_list (map tree_size ns) + m" negated])
  then obtain ls st2 where 2: "toCNF_list e ns negated st1 = Some (ls, st2)" "grown st1 m st2"
    "list_all2 (\<lambda>n l. stands_for l n negated st2) ns ls"
    using Cons.IH [of st1] Cons.prems(1) by (auto simp: grown_def)
  moreover have "stands_for l n negated st2"
    using stands_for_mono [OF 1(3)] 2(2) by (simp add: grown_def)
  ultimately show ?case
    using 1 grown_trans [OF 1(2) 2(2)] by auto
qed

lemma stands_for_list:
  assumes "list_all2 (\<lambda>n l. stands_for l n negated st) ns ls" "ok st"
  shows "getSatVariable ` set ls \<subseteq> vars (d_satSolver st)" "length ls = length ns"
    "agrees \<sigma> v st \<Longrightarrow> clause_true \<sigma> ls \<longleftrightarrow> (\<exists>n\<in>set ns. beval v n \<noteq> negated)"
  using assms(1)
  by (induction rule: list_all2_induct) (auto dest: stands_for_var [OF _ assms(2)] stands_for_agrees)

end

end
