(* ===== verification/Cnf_Assert.thy ===== *)
theory Cnf_Assert
  imports Cnf_Traversal
begin

text \<open>
  Assertion of formulas by \<^verbatim>\<open>CnfStream::convertAndAssert\<close>: the valuations that are left are those
  under which the formula has the asserted value.
\<close>

context clause_sink
begin

section \<open>Asserting formulas\<close>

definition asserted :: "'k cnf_stream \<Rightarrow> nat \<Rightarrow> ((node \<Rightarrow> bool) \<Rightarrow> bool) \<Rightarrow> 'k cnf_stream \<Rightarrow> bool" where
  "asserted st m Q st' \<longleftrightarrow> ok st' \<and> valuations st' = {v \<in> valuations st. Q v} \<and>
     d_nodeToLiteralMap st \<subseteq>\<^sub>m d_nodeToLiteralMap st' \<and> room (d_satSolver st') m"

lemma asserted_trans:
  "asserted st m P st' \<Longrightarrow> asserted st' m' Q st'' \<Longrightarrow> asserted st m' (\<lambda>v. P v \<and> Q v) st''"
  unfolding asserted_def using map_le_trans by fastforce

lemma asserted_cong: "asserted st m P st' \<Longrightarrow> (\<And>v. P v = Q v) \<Longrightarrow> asserted st m Q st'"
  by (simp add: asserted_def)

lemma grown_asserted: "grown st m st' \<Longrightarrow> asserted st' m' Q st'' \<Longrightarrow> asserted st m' Q st''"
  unfolding asserted_def grown_def using map_le_trans by fastforce

lemma assertClauses_asserted:
  assumes e: "satSolver e = sink" and st: "ok st" "room (d_satSolver st) m"
    and cs: "\<And>c. c \<in> set cs \<Longrightarrow> c \<noteq> [] \<and> getSatVariable ` set c \<subseteq> vars (d_satSolver st)"
    and P: "\<And>\<sigma> v. agrees \<sigma> v st \<Longrightarrow> (\<forall>c\<in>set cs. clause_true \<sigma> c) \<longleftrightarrow> Q v"
  shows "asserted st m Q (assertClauses e cs st)"
proof -
  have "inv (d_satSolver st)"
    using st(1) by (simp add: cnf_inv_def)
  note c = assertClauses_constrained [OF e this cs]
  from constrained_models [OF st(1) c P] show ?thesis
    using c st(2) by (simp add: asserted_def constrained_def)
qed

lemma assertClause_asserted:
  assumes e: "satSolver e = sink" and st: "ok st" "room (d_satSolver st) m"
    and c: "c \<noteq> []" "getSatVariable ` set c \<subseteq> vars (d_satSolver st)"
    and P: "\<And>\<sigma> v. agrees \<sigma> v st \<Longrightarrow> clause_true \<sigma> c \<longleftrightarrow> Q v"
  shows "asserted st m Q (assertClause e c st)"
  using assertClauses_asserted [OF e st, of "[c]" Q] c P by (simp add: assertClauses_def)

text \<open>The contract of the recursive call.\<close>

definition converts :: "'k assert_fun \<Rightarrow> node \<Rightarrow> bool" where
  "converts conv n \<longleftrightarrow> (\<forall>negated st m. ok st \<longrightarrow> room (d_satSolver st) (tree_size n + m) \<longrightarrow>
     (\<exists>st'. conv n negated st = Some st' \<and> asserted st m (\<lambda>v. beval v n \<noteq> negated) st'))"

lemma convertsE:
  assumes "converts conv n" "ok st" "room (d_satSolver st) (tree_size n + m)"
  obtains st' where "conv n negated st = Some st'" "asserted st m (\<lambda>v. beval v n \<noteq> negated) st'"
  using assms unfolding converts_def by blast

lemma assert_each_asserted:
  assumes "\<And>n. n \<in> set ns \<Longrightarrow> converts conv n" "ok st" "room (d_satSolver st) (sum_list (map tree_size ns) + m)"
  shows "\<exists>st'. assert_each conv ns negated st = Some st' \<and>
    asserted st m (\<lambda>v. \<forall>n\<in>set ns. beval v n \<noteq> negated) st'"
  using assms
proof (induction ns arbitrary: st)
  case Nil
  then show ?case
    by (simp add: asserted_def)
next
  case (Cons n ns)
  have "room (d_satSolver st) (tree_size n + (sum_list (map tree_size ns) + m))"
    using Cons.prems(3) by (simp add: add.assoc)
  then obtain st1 where 1: "conv n negated st = Some st1"
    "asserted st (sum_list (map tree_size ns) + m) (\<lambda>v. beval v n \<noteq> negated) st1"
    by (rule convertsE [OF Cons.prems(1) [OF list.set_intros(1)] Cons.prems(2)])
  then obtain st2 where 2: "assert_each conv ns negated st1 = Some st2"
    "asserted st1 m (\<lambda>v. \<forall>n\<in>set ns. beval v n \<noteq> negated) st2"
    using Cons.IH [of st1] Cons.prems(1) by (auto simp: asserted_def)
  show ?case
    using 1(1) 2(1) asserted_trans [OF 1(2) 2(2)] by auto
qed

lemma toCNF_two:
  assumes e: "satSolver e = sink" and n: "formula a" "formula b"
    and st: "ok st" "room (d_satSolver st) (tree_size a + (tree_size b + m))"
  obtains p q st1 st' where "toCNF e a na st = Some (p, st1)" "toCNF e b nb st1 = Some (q, st')"
    "grown st m st'" "stands_for p a na st'" "stands_for q b nb st'"
proof -
  obtain p st1 where 1: "toCNF e a na st = Some (p, st1)" "grown st (tree_size b + m) st1" "stands_for p a na st1"
    by (rule toCNF_spec [OF e n(1) st])
  obtain q st' where 2: "toCNF e b nb st1 = Some (q, st')" "grown st1 m st'" "stands_for q b nb st'"
    using 1(2) by (auto simp: grown_def intro: toCNF_spec [OF e n(2), of st1 m nb])
  show thesis
    using 1 2 grown_trans [OF 1(2) 2(2)] stands_for_mono [OF 1(3)] by (intro that) (auto simp: grown_def)
qed

lemma literals_asserted:
  assumes e: "satSolver e = sink" and g: "grown st m st'"
    and cs: "\<And>c. c \<in> set cs \<Longrightarrow> c \<noteq> [] \<and> getSatVariable ` set c \<subseteq> vars (d_satSolver st')"
    and P: "\<And>\<sigma> v. agrees \<sigma> v st' \<Longrightarrow> (\<forall>c\<in>set cs. clause_true \<sigma> c) \<longleftrightarrow> Q v"
  shows "asserted st m Q (assertClauses e cs st')"
  using assertClauses_asserted [OF e _ _ cs P] g by (intro grown_asserted [OF g]) (auto simp: grown_def)

lemma binary_converts:
  assumes e: "satSolver e = sink" and n: "n = mkNode k [a, b]" "is_connective n" "formula a" "formula b"
    and st: "ok st" "room (d_satSolver st) (tree_size n + m)"
  shows "k = K_XOR \<Longrightarrow> \<exists>st'. convertAndAssertXor e n negated st = Some st' \<and> asserted st m (\<lambda>v. beval v n \<noteq> negated) st'"
    and "k = K_EQUAL \<Longrightarrow> \<exists>st'. convertAndAssertIff e n negated st = Some st' \<and> asserted st m (\<lambda>v. beval v n \<noteq> negated) st'"
    and "k = K_IMPLIES \<Longrightarrow> \<not> negated \<Longrightarrow>
      \<exists>st'. convertAndAssertImplies e conv n negated st = Some st' \<and> asserted st m (\<lambda>v. beval v n \<noteq> negated) st'"
proof -
  have "room (d_satSolver st) (tree_size a + (tree_size b + m))"
    by (rule room_mono [OF st(2)]) (simp add: n(1))
  then obtain p q st1 st' where t: "toCNF e a False st = Some (p, st1)" "toCNF e b False st1 = Some (q, st')"
    and g: "grown st m st'" and pq: "stands_for p a False st'" "stands_for q b False st'"
    by (rule toCNF_two [OF e n(3,4) st(1)])
  have ok: "ok st'"
    using g by (simp add: grown_def)
  note var = stands_for_var [OF pq(1) ok] stands_for_var [OF pq(2) ok]
  note val = stands_for_agrees [OF pq(1)] stands_for_agrees [OF pq(2)]
  show "\<exists>st'. convertAndAssertXor e n negated st = Some st' \<and> asserted st m (\<lambda>v. beval v n \<noteq> negated) st'" if "k = K_XOR"
    using that var n(1,2) t
    by (cases negated) (auto simp: convertAndAssertXor_def val connective_value_def intro!: literals_asserted [OF e g])
  show "\<exists>st'. convertAndAssertIff e n negated st = Some st' \<and> asserted st m (\<lambda>v. beval v n \<noteq> negated) st'" if "k = K_EQUAL"
    using that var n(1,2) t
    by (cases negated) (auto simp: convertAndAssertIff_def val connective_value_def intro!: literals_asserted [OF e g])
  show "\<exists>st'. convertAndAssertImplies e conv n negated st = Some st' \<and> asserted st m (\<lambda>v. beval v n \<noteq> negated) st'"
    if "k = K_IMPLIES" "\<not> negated"
  proof -
    have "asserted st m (\<lambda>v. beval v n \<noteq> negated) (assertClauses e [[neg_lit p, q]] st')"
      using that var n(1,2) by (intro literals_asserted [OF e g]) (auto simp: val connective_value_def)
    then show ?thesis
      using that(2) by (simp add: convertAndAssertImplies_def n(1) t assertClauses_def)
  qed
qed

lemma ite_converts:
  assumes e: "satSolver e = sink" and n: "n = mkNode K_ITE [c, a, b]" "formula c" "formula a" "formula b"
    and st: "ok st" "room (d_satSolver st) (tree_size n + m)"
  shows "\<exists>st'. convertAndAssertIte e n negated st = Some st' \<and> asserted st m (\<lambda>v. beval v n \<noteq> negated) st'"
proof -
  have "room (d_satSolver st) (tree_size c + (tree_size a + (tree_size b + m)))"
    by (rule room_mono [OF st(2)]) (simp add: n(1))
  then obtain p st0 where 0: "toCNF e c False st = Some (p, st0)" "grown st (tree_size a + (tree_size b + m)) st0"
    "stands_for p c False st0"
    by (rule toCNF_spec [OF e n(2) st(1)])
  have "ok st0" "room (d_satSolver st0) (tree_size a + (tree_size b + m))"
    using 0(2) by (simp_all add: grown_def)
  then obtain q r st1 st' where t: "toCNF e a negated st0 = Some (q, st1)" "toCNF e b negated st1 = Some (r, st')"
    and g': "grown st0 m st'" and qr: "stands_for q a negated st'" "stands_for r b negated st'"
    by (rule toCNF_two [OF e n(3,4)])
  have g: "grown st m st'" and p: "stands_for p c False st'" and ok: "ok st'"
    using grown_trans [OF 0(2) g'] stands_for_mono [OF 0(3)] g' by (auto simp: grown_def)
  note val = stands_for_agrees [OF p] stands_for_agrees [OF qr(1)] stands_for_agrees [OF qr(2)]
  have con: "is_connective n"
    by (simp add: n(1) is_connective_def)
  have "asserted st m (\<lambda>v. beval v n \<noteq> negated) (assertClauses e [[neg_lit p, q], [p, r]] st')"
    using stands_for_var [OF p ok] stands_for_var [OF qr(1) ok] stands_for_var [OF qr(2) ok] con unfolding n(1)
    by (intro literals_asserted [OF e g]) (auto simp: val connective_value_def)
  then show ?thesis
    by (simp add: convertAndAssertIte_def n(1) 0(1) t)
qed

lemma nary_converts:
  assumes e: "satSolver e = sink" and n: "n = mkNode k ns" "k = K_AND \<or> k = K_OR" "ns \<noteq> []" "list_all formula ns"
    and conv: "\<And>c. c \<in> set ns \<Longrightarrow> converts conv c" and st: "ok st" "room (d_satSolver st) (tree_size n + m)"
  shows "\<exists>st'. (if k = K_AND then convertAndAssertAnd e conv n negated st else convertAndAssertOr e conv n negated st) = Some st' \<and>
    asserted st m (\<lambda>v. beval v n \<noteq> negated) st'"
proof -
  have room: "room (d_satSolver st) (sum_list (map tree_size ns) + m)"
    by (rule room_mono [OF st(2)]) (simp add: n(1))
  have bv: "beval v n = (if k = K_AND then \<forall>c\<in>set ns. beval v c else \<exists>c\<in>set ns. beval v c)" for v
    using n(1,2) by (auto simp: is_connective_def connective_value_def list_all_iff list_ex_iff)
  obtain ls st' where l: "toCNF_list e ns negated st = Some (ls, st')" "grown st m st'"
    "list_all2 (\<lambda>n l. stands_for l n negated st') ns ls"
    using toCNF_list_spec [OF e n(4) st(1) room] by blast
  then have ok: "ok st'"
    by (simp add: grown_def)
  have "asserted st m (\<lambda>v. \<exists>c\<in>set ns. beval v c \<noteq> negated) (assertClauses e [ls] st')"
    using stands_for_list [OF l(3) ok] n(3) by (intro literals_asserted [OF e l(2)]) auto
  moreover have "(\<exists>c\<in>set ns. beval v c \<noteq> negated) \<longleftrightarrow> beval v n \<noteq> negated" if "(k = K_AND) = negated" for v
    by (cases negated; use that in \<open>simp add: bv\<close>)
  ultimately have clause: "asserted st m (\<lambda>v. beval v n \<noteq> negated) (assertClause e ls st')" if "(k = K_AND) = negated"
    using that asserted_cong unfolding assertClauses_def by simp
  obtain st'' where each: "assert_each conv ns negated st = Some st''"
    "asserted st m (\<lambda>v. \<forall>c\<in>set ns. beval v c \<noteq> negated) st''"
    using assert_each_asserted [OF conv st(1) room] by blast
  have "(\<forall>c\<in>set ns. beval v c \<noteq> negated) \<longleftrightarrow> beval v n \<noteq> negated" if "(k = K_AND) \<noteq> negated" for v
    by (cases negated; use that in \<open>simp add: bv\<close>)
  then have units: "asserted st m (\<lambda>v. beval v n \<noteq> negated) st''" if "(k = K_AND) \<noteq> negated"
    using that by (intro asserted_cong [OF each(2)])
  have "(if k = K_AND then convertAndAssertAnd e conv n negated st else convertAndAssertOr e conv n negated st) =
      (if (k = K_AND) = negated then Some (assertClause e ls st') else Some st'')"
    using l(1) each(1) by (cases negated) (simp_all add: convertAndAssertAnd_def convertAndAssertOr_def n(1))
  then show ?thesis
    using clause units by (cases "(k = K_AND) = negated") simp_all
qed

lemma atom_converts:
  assumes e: "satSolver e = sink" and n: "formula n" and st: "ok st" "room (d_satSolver st) (tree_size n + m)"
  shows "\<exists>st'. (do { (l, st) \<leftarrow> toCNF e n negated st; Some (assertClause e [l] st) }) = Some st' \<and>
    asserted st m (\<lambda>v. beval v n \<noteq> negated) st'"
proof -
  obtain l st' where l: "toCNF e n negated st = Some (l, st')" and g: "grown st m st'" and s: "stands_for l n negated st'"
    by (rule toCNF_spec [OF e n st])
  have "asserted st m (\<lambda>v. beval v n \<noteq> negated) (assertClauses e [[l]] st')"
    using stands_for_var [OF s] g by (intro literals_asserted [OF e g]) (auto simp: stands_for_agrees [OF s] grown_def)
  with l show ?thesis
    by (simp add: assertClauses_def)
qed

lemma not_implies_converts:
  assumes n: "n = mkNode K_IMPLIES [a, b]" and conv: "converts conv a" "converts conv b"
    and st: "ok st" "room (d_satSolver st) (tree_size n + m)"
  shows "\<exists>st'. convertAndAssertImplies e conv n True st = Some st' \<and> asserted st m (\<lambda>v. beval v n \<noteq> True) st'"
proof -
  have "room (d_satSolver st) (tree_size a + (tree_size b + m))"
    by (rule room_mono [OF st(2)]) (simp add: n)
  then obtain st1 where 1: "conv a False st = Some st1" "asserted st (tree_size b + m) (\<lambda>v. beval v a \<noteq> False) st1"
    by (rule convertsE [OF conv(1) st(1)])
  have "ok st1" "room (d_satSolver st1) (tree_size b + m)"
    using 1(2) by (simp_all add: asserted_def)
  then obtain st2 where 2: "conv b True st1 = Some st2" "asserted st1 m (\<lambda>v. beval v b \<noteq> True) st2"
    by (rule convertsE [OF conv(2)])
  have "beval v n \<longleftrightarrow> (beval v a \<longrightarrow> beval v b)" for v
    by (simp add: n is_connective_def connective_value_def)
  then have "asserted st m (\<lambda>v. beval v n \<noteq> True) st2"
    by (intro asserted_cong [OF asserted_trans [OF 1(2) 2(2)]]) auto
  with 1(1) 2(1) show ?thesis
    by (simp add: convertAndAssertImplies_def n)
qed

lemma convertAndAssert_rec_converts:
  assumes e: "satSolver e = sink"
  shows "formula n \<Longrightarrow> tree_size n \<le> fuel \<Longrightarrow> converts (convertAndAssert_rec fuel e) n"
proof (induction fuel arbitrary: n)
  case 0
  then show ?case
    using tree_size_pos [of n] by simp
next
  case (Suc fuel)
  let ?conv = "convertAndAssert_rec fuel e"
  show ?case
    unfolding converts_def
  proof (intro allI impI)
    fix negated st m
    assume st: "ok st" "room (d_satSolver st) (tree_size n + m)"
    show "\<exists>st'. convertAndAssert_rec (Suc fuel) e n negated st = Some st' \<and> asserted st m (\<lambda>v. beval v n \<noteq> negated) st'"
    proof (cases "is_connective n")
      case False
      with atom_converts [OF e Suc.prems(1) st, of negated] show ?thesis
        by (simp add: is_connective_def)
    next
      case True
      obtain k ns where kns: "n = mkNode k ns" "kind_arity k (length ns)" "list_all formula ns"
        "k = K_NOT \<longrightarrow> \<not> isKind K_NOT (ns ! 0)"
        by (rule connectiveE [OF True Suc.prems(1)])
      have conv: "converts ?conv c" if "c \<in> set ns" for c
        using that kns(1,3) Suc.prems(2) tree_size_child [OF that, of k] by (intro Suc.IH) (auto simp: list_all_iff)
      consider (nary) "k = K_AND \<or> k = K_OR" "ns \<noteq> []" | (binary) a b where "ns = [a, b]" "k = K_XOR \<or> k = K_EQUAL"
        | (implies) a b where "ns = [a, b]" "k = K_IMPLIES" | (ite) c a b where "ns = [c, a, b]" "k = K_ITE"
        | (neg) a where "ns = [a]" "k = K_NOT"
        using True kns by (cases "ns = []") (auto simp: is_connective_def is_iff_def kind_arity_def numeral_2_eq_2
            numeral_3_eq_3 length_Suc_conv)
      then show ?thesis
      proof cases
        case nary
        have "convertAndAssert_rec (Suc fuel) e n negated st =
          (if k = K_AND then convertAndAssertAnd e ?conv n negated st else convertAndAssertOr e ?conv n negated st)"
          using nary(1) by (auto simp: kns(1))
        with nary_converts [OF e kns(1) nary kns(3) conv st] show ?thesis
          by (simp only:)
      next
        case (binary a b)
        have "convertAndAssert_rec (Suc fuel) e n negated st =
          (if k = K_XOR then convertAndAssertXor e n negated st else convertAndAssertIff e n negated st)"
          using binary(2) True by (auto simp: kns(1) is_connective_def)
        moreover have "n = mkNode k [a, b]" "formula a" "formula b"
          using kns(1,3) binary(1) by simp_all
        ultimately show ?thesis
          using binary(2) binary_converts(1,2) [OF e _ True _ _ st, of k a b negated] by (cases "k = K_XOR") (simp_all only: simp_thms if_True if_False)
      next
        case (implies a b)
        have rec: "convertAndAssert_rec (Suc fuel) e n negated st = convertAndAssertImplies e ?conv n negated st"
          by (simp add: kns(1) implies(2))
        have n: "n = mkNode K_IMPLIES [a, b]" "formula a" "formula b" "converts ?conv a" "converts ?conv b"
          using kns(1,3) implies conv by simp_all
        show ?thesis
        proof (cases negated)
          case neg: True
          show ?thesis
            using not_implies_converts [OF n(1,4,5) st, of e] neg unfolding rec by simp
        next
          case False
          show ?thesis
            unfolding rec by (rule binary_converts(3) [OF e n(1) True n(2,3) st refl False])
        qed
      next
        case (ite c a b)
        have "convertAndAssert_rec (Suc fuel) e n negated st = convertAndAssertIte e n negated st"
          by (simp add: kns(1) ite(2))
        moreover have "n = mkNode K_ITE [c, a, b]" "formula c" "formula a" "formula b"
          using kns(1,3) ite by simp_all
        ultimately show ?thesis
          using ite_converts [OF e _ _ _ _ st, of c a b negated] by (simp only: simp_thms)
      next
        case (neg a)
        have "room (d_satSolver st) (tree_size a + m)"
          by (rule room_mono [OF st(2)]) (simp add: kns(1) neg(1))
        then obtain st' where st': "?conv a (\<not> negated) st = Some st'" "asserted st m (\<lambda>v. beval v a \<noteq> (\<not> negated)) st'"
          by (rule convertsE [OF conv [of a, unfolded neg(1), OF list.set_intros(1)] st(1)])
        have "beval v n = (\<not> beval v a)" for v
          using beval_NOT [of v a] by (simp add: kns(1) neg notNode_def)
        then have "asserted st m (\<lambda>v. beval v n \<noteq> negated) st'"
          by (intro asserted_cong [OF st'(2)]) auto
        moreover have "convertAndAssert_rec (Suc fuel) e n negated st = Some st'"
          using st'(1) by (simp add: kns(1) neg)
        ultimately show ?thesis
          by blast
      qed
    qed
  qed
qed

lemma convertAndAssert_spec:
  assumes e: "satSolver e = sink" and n: "formula n" and st: "ok st" "room (d_satSolver st) (tree_size n + m)"
  obtains st' where "convertAndAssert e n removable negated st = Some st'" "ok st'"
    "valuations st' = {v \<in> valuations st. beval v n \<noteq> negated}" "room (d_satSolver st') m"
    "d_nodeToLiteralMap st \<subseteq>\<^sub>m d_nodeToLiteralMap st'"
proof -
  let ?st = "st\<lparr>d_removable := removable\<rparr>"
  have st': "ok ?st" "valuations ?st = valuations st" "room (d_satSolver ?st) (tree_size n + m)"
    using st by (auto simp: cnf_inv_def cnf_models_def agrees_def)
  obtain st' where "convertAndAssert_rec (tree_size n) e n negated ?st = Some st'"
    "asserted ?st m (\<lambda>v. beval v n \<noteq> negated) st'"
    by (rule convertsE [OF convertAndAssert_rec_converts [OF e n order_refl] st'(1,3)])
  then show thesis
    using st'(2) by (intro that [of st']) (simp_all add: convertAndAssert_def asserted_def)
qed

lemma ok_initial:
  assumes "inv k"
  shows "ok (CnfStream k)" "valuations (CnfStream k) = (if models k = {} then {} else UNIV)"
  using assms by (auto simp: cnf_inv_def CnfStream_def map_paired_def agrees_def cnf_models_def)

text \<open>The clauses can be satisfied exactly when a valuation is left.\<close>

lemma satisfiable_iff: "ok st \<Longrightarrow> models (d_satSolver st) \<noteq> {} \<longleftrightarrow> valuations st \<noteq> {}"
  by (force simp: cnf_inv_def cnf_models_def)

end

end
