(* ===== verification/Cnf_Back.thy ===== *)
theory Cnf_Back
  imports Cnf_Correct
begin

text \<open>
  The map from literals back to nodes.  Whatever sequence of assertions and literal requests a
  stream has seen, with whatever solver and policy, the node that \<^verbatim>\<open>getNode\<close> returns has the value
  of the literal.
\<close>

definition back_ok :: "'k cnf_stream \<Rightarrow> bool" where
  "back_ok st \<longleftrightarrow> (\<forall>l n. d_literalToNodeMap st l = Some n \<longrightarrow>
     d_nodeToLiteralMap st n = Some l \<or>
     (\<exists>a. n = notNode a \<and> d_nodeToLiteralMap st a = Some (neg_lit l)))"

text \<open>A step that keeps the entries of both maps.\<close>

definition keeps_back :: "'k cnf_stream \<Rightarrow> 'k cnf_stream \<Rightarrow> bool" where
  "keeps_back st st' \<longleftrightarrow> d_nodeToLiteralMap st \<subseteq>\<^sub>m d_nodeToLiteralMap st' \<and> (back_ok st \<longrightarrow> back_ok st')"

lemma keeps_back_refl [simp]: "keeps_back st st"
  by (simp add: keeps_back_def)

lemma keeps_back_trans: "keeps_back a b \<Longrightarrow> keeps_back b c \<Longrightarrow> keeps_back a c"
  unfolding keeps_back_def using map_le_trans by blast

lemma map_insert_le: "m \<subseteq>\<^sub>m map_insert x y m"
  by (auto simp: map_insert_def map_le_def split: option.split)

lemma keeps_back_same:
  "d_nodeToLiteralMap st \<subseteq>\<^sub>m d_nodeToLiteralMap st' \<Longrightarrow> d_literalToNodeMap st' = d_literalToNodeMap st \<Longrightarrow>
   keeps_back st st'"
proof -
  assume le: "d_nodeToLiteralMap st \<subseteq>\<^sub>m d_nodeToLiteralMap st'" and eq: "d_literalToNodeMap st' = d_literalToNodeMap st"
  have "d_nodeToLiteralMap st' n = Some l" if "d_nodeToLiteralMap st n = Some l" for n l
    using le that by (force simp: map_le_def dom_def)
  with le eq show "keeps_back st st'"
    unfolding keeps_back_def back_ok_def by metis
qed

lemma map_literal_keeps:
  assumes "d_nodeToLiteralMap st n = Some l"
  shows "keeps_back st (map_literal l n st)"
proof -
  have "d_nodeToLiteralMap st m = Some l' \<or> (\<exists>a. m = notNode a \<and> d_nodeToLiteralMap st a = Some (neg_lit l'))"
    if "back_ok st" "d_literalToNodeMap (map_literal l n st) l' = Some m" for m l'
    using that assms by (auto simp: map_literal_def map_insert_def back_ok_def split: option.splits if_splits)
  then show ?thesis
    by (simp add: keeps_back_def back_ok_def map_literal_def)
qed

lemma assertClause_keeps [simp]: "keeps_back st (assertClause e c st)"
  by (rule keeps_back_same) (simp_all add: assertClause_def split: prod.split)

lemma assertClauses_keeps [simp]: "keeps_back st (assertClauses e cs st)"
proof (induction cs arbitrary: st)
  case (Cons c cs)
  then show ?case
    using keeps_back_trans [OF assertClause_keeps Cons.IH] by (simp add: assertClauses_def)
qed (simp add: assertClauses_def)

lemma freshLiteral_keeps:
  assumes "freshLiteral e n t st = (l, st')" "d_nodeToLiteralMap st n = None"
  shows "keeps_back st st'" "d_nodeToLiteralMap st' n = Some l"
proof -
  have map: "d_nodeToLiteralMap st' = map_insert (notNode n) (neg_lit l) (map_insert n l (d_nodeToLiteralMap st))"
    and lits: "d_literalToNodeMap st' = d_literalToNodeMap st"
    using assms(1) by (auto simp: freshLiteral_def Let_def split: if_splits prod.splits)
  show "keeps_back st st'"
    by (rule keeps_back_same) (use map_le_trans [OF map_insert_le map_insert_le] in \<open>simp_all add: map lits\<close>)
  show "d_nodeToLiteralMap st' n = Some l"
    using assms(2) by (auto simp: map map_insert_def split: option.split)
qed

lemma newLiteral_keeps:
  assumes "newLiteral e n t r st = (l, st')"
  shows "keeps_back st st'"
proof -
  define t' where "t' = (t \<or> d_flitPolicy e = TRACK_AND_NOTIFY)"
  define st0 where "st0 = (if \<not> t \<and> d_flitPolicy e = TRACK_AND_NOTIFY
    then st\<lparr>d_notifyFormulas := List.insert n (d_notifyFormulas st)\<rparr> else st)"
  obtain l1 st1 where 1: "(case d_nodeToLiteralMap st0 n of None \<Rightarrow> freshLiteral e n t' st0 | Some l \<Rightarrow> (l, st0)) = (l1, st1)"
    by fastforce
  have k1: "keeps_back st0 st1" "d_nodeToLiteralMap st1 n = Some l1"
    using 1 freshLiteral_keeps [of e n t' st0 l1 st1] by (auto split: option.splits)
  define st2 where "st2 = (if t' \<or> d_flitPolicy e = TRACK \<or> d_flitPolicy e = TRACK_AND_NOTIFY_VAR
    then map_literal l1 n st1 else st1)"
  have pre: "(if \<not> t \<and> d_flitPolicy e = TRACK_AND_NOTIFY
      then (True, st\<lparr>d_notifyFormulas := List.insert n (d_notifyFormulas st)\<rparr>) else (t, st)) = (t', st0)"
    by (simp add: t'_def st0_def)
  have "newLiteral e n t r st = (l1, if r then st2\<lparr>d_registrar := d_registrar st2 @ [n]\<rparr> else st2)"
    by (simp only: newLiteral_def pre Let_def prod.case 1 st2_def)
  with assms have "st' = (if r then st2\<lparr>d_registrar := d_registrar st2 @ [n]\<rparr> else st2)"
    by simp
  then have "keeps_back st2 st'"
    by (auto intro: keeps_back_same)
  moreover have "keeps_back st1 st2"
    using map_literal_keeps [OF k1(2)] by (simp add: st2_def)
  moreover have "keeps_back st st0"
    by (rule keeps_back_same) (simp_all add: st0_def)
  ultimately show ?thesis
    using k1(1) keeps_back_trans by blast
qed

lemma convertAtom_keeps: "keeps_back st (snd (convertAtom e n st))"
proof -
  have new: "keeps_back st' (snd (newLiteral e n t r st'))" for t r st'
    using newLiteral_keeps [of e n t r st'] by (cases "newLiteral e n t r st'") simp
  moreover have "keeps_back st (st\<lparr>d_booleanVariables := x\<rparr>)" for x
    by (rule keeps_back_same) simp_all
  ultimately have "keeps_back st (snd (newLiteral e n t r (st\<lparr>d_booleanVariables := x\<rparr>)))" for t r x
    using keeps_back_trans by blast
  with new show ?thesis
    by (simp add: convertAtom_def Let_def)
qed

lemma bind_keeps:
  "x \<bind> f = Some st' \<Longrightarrow> (\<And>y. x = Some y \<Longrightarrow> f y = Some st' \<Longrightarrow> P) \<Longrightarrow> P"
  by (cases x) auto

lemma toCNF_visit_keeps:
  assumes "toCNF_visit e n st = Some st'"
  shows "keeps_back st st'"
proof -
  obtain l st1 where new: "newLiteral e n False False st = (l, st1)"
    by fastforce
  note k = newLiteral_keeps [OF new]
  have "keeps_back st (assertClauses e cs st1)" for cs
    by (rule keeps_back_trans [OF k assertClauses_keeps])
  moreover have "keeps_back st (assertClause e c (assertClauses e cs st1))" for c cs
    by (rule keeps_back_trans [OF _ assertClause_keeps]) (rule keeps_back_trans [OF k assertClauses_keeps])
  ultimately show ?thesis
    using assms convertAtom_keeps [of st e n]
    by (auto simp: toCNF_visit_def handleXor_def handleIte_def handleImplies_def handleOr_def handleAnd_def
        handleIff_def new elim!: bind_keeps split: if_splits)
qed

lemma toCNF_loop_keeps: "toCNF_loop fuel e visit cache st = Some st' \<Longrightarrow> keeps_back st st'"
proof (induction fuel e visit cache st rule: toCNF_loop.induct)
  case (3 fuel e cur visit cache st)
  show ?case
  proof (cases "hasLiteral st cur")
    case False
    show ?thesis
    proof (cases "cache cur")
      case (Some visited)
      show ?thesis
      proof (cases visited)
        case vis: False
        with Some False "3.prems" obtain st1 where st1: "toCNF_visit e cur st = Some st1"
          "toCNF_loop fuel e visit (cache(cur \<mapsto> True)) st1 = Some st'"
          by (auto elim!: bind_keeps)
        show ?thesis
          by (rule keeps_back_trans [OF toCNF_visit_keeps [OF st1(1)] "3.IH"(4) [OF False Some vis st1]])
      qed (use "3.IH"(3) "3.prems" False Some in simp)
    next
      case None
      with "3.prems" False show ?thesis
        by (intro "3.IH"(2) [OF False None]) (simp del: fun_upd_apply)
    qed
  qed (use "3.IH"(1) "3.prems" in simp)
qed simp_all

lemma toCNF_keeps: "toCNF e n negated st = Some (l, st') \<Longrightarrow> keeps_back st st'"
  unfolding toCNF_def by (auto elim!: bind_keeps dest: toCNF_loop_keeps)

lemma toCNF_map: "toCNF e n False st = Some (l, st') \<Longrightarrow> d_nodeToLiteralMap st' n = Some l"
  unfolding toCNF_def by (auto elim!: bind_keeps simp: getLiteral_def)

lemma toCNF_list_keeps: "toCNF_list e ns negated st = Some (ls, st') \<Longrightarrow> keeps_back st st'"
proof (induction ns arbitrary: st ls)
  case (Cons n ns)
  then obtain l st1 ls' where "toCNF e n negated st = Some (l, st1)" "toCNF_list e ns negated st1 = Some (ls', st')"
    by (auto elim!: bind_keeps split: prod.splits)
  then show ?case
    using Cons.IH toCNF_keeps keeps_back_trans by blast
qed simp

lemma assert_each_keeps:
  assumes "\<And>n st st'. conv n negated st = Some st' \<Longrightarrow> keeps_back st st'"
  shows "assert_each conv ns negated st = Some st' \<Longrightarrow> keeps_back st st'"
proof (induction ns arbitrary: st)
  case (Cons n ns)
  then obtain st1 where "conv n negated st = Some st1" "assert_each conv ns negated st1 = Some st'"
    by (auto elim!: bind_keeps)
  then show ?case
    using Cons.IH assms keeps_back_trans by blast
qed simp

lemma toCNF_assert_keeps:
  assumes "toCNF e n negated st = Some (l, st1)"
  shows "keeps_back st1 st2 \<Longrightarrow> keeps_back st st2"
  using toCNF_keeps [OF assms] keeps_back_trans by blast

lemma convertAndAssert_rec_keeps: "convertAndAssert_rec fuel e n negated st = Some st' \<Longrightarrow> keeps_back st st'"
proof (induction fuel arbitrary: n negated st st')
  case (Suc fuel)
  note each = assert_each_keeps [of "convertAndAssert_rec fuel e", OF Suc.IH]
  have list: "keeps_back st (assertClause e ls st1)" if "toCNF_list e ns b st = Some (ls, st1)" for ns b ls st1
    by (rule keeps_back_trans [OF toCNF_list_keeps [OF that] assertClause_keeps])
  have imp: "keeps_back st st'" if "convertAndAssertImplies e (convertAndAssert_rec fuel e) n negated st = Some st'"
    using that keeps_back_trans [OF Suc.IH Suc.IH]
    by (auto simp: convertAndAssertImplies_def elim!: bind_keeps toCNF_assert_keeps split: if_splits)
  show ?case
    using Suc.prems
    by (auto simp: convertAndAssertAnd_def convertAndAssertOr_def convertAndAssertXor_def convertAndAssertIff_def
        convertAndAssertIte_def Let_def elim!: bind_keeps toCNF_assert_keeps split: if_splits
        intro: each list imp Suc.IH)
qed simp

lemma convertAndAssert_keeps:
  assumes "convertAndAssert e n removable negated st = Some st'"
  shows "keeps_back st st'"
proof -
  have "keeps_back st (st\<lparr>d_removable := removable\<rparr>)"
    by (rule keeps_back_same) simp_all
  with assms show ?thesis
    using keeps_back_trans convertAndAssert_rec_keeps by (fastforce simp: convertAndAssert_def)
qed

lemma ensureLiteral_keeps:
  assumes "ensureLiteral e n st = Some st'"
  shows "keeps_back st st'"
proof -
  let ?st = "st\<lparr>d_removable := False\<rparr>"
  have rem: "keeps_back st ?st"
    by (rule keeps_back_same) simp_all
  have new: "keeps_back st (map_literal l n' st1)" if "toCNF e n' False ?st = Some (l, st1)" for n' l st1
    using keeps_back_trans [OF rem keeps_back_trans [OF toCNF_keeps [OF that] map_literal_keeps [OF toCNF_map [OF that]]]] .
  show ?thesis
    using assms convertAtom_keeps new map_literal_keeps
    by (auto simp: ensureLiteral_def ensureMappingForLiteral_def getLiteral_def Let_def elim!: bind_keeps
        split: if_splits)
qed

section \<open>Reachable states\<close>

text \<open>The states of a stream: a new one, and what assertions and requests for literals make of it.\<close>

inductive cnf_reachable :: "'k cnf_env \<Rightarrow> 'k cnf_stream \<Rightarrow> bool" for e where
  new: "cnf_reachable e (CnfStream k)"
| assert: "cnf_reachable e st \<Longrightarrow> convertAndAssert e n removable negated st = Some st' \<Longrightarrow> cnf_reachable e st'"
| ensure: "cnf_reachable e st \<Longrightarrow> ensureLiteral e n st = Some st' \<Longrightarrow> cnf_reachable e st'"
| solver: "cnf_reachable e st \<Longrightarrow> cnf_reachable e (st\<lparr>d_satSolver := k\<rparr>)"

lemma reachable_back_ok: "cnf_reachable e st \<Longrightarrow> back_ok st"
proof (induction rule: cnf_reachable.induct)
  case (new k)
  then show ?case
    by (simp add: back_ok_def CnfStream_def)
next
  case (assert st n removable negated st')
  then show ?case
    using convertAndAssert_keeps [OF assert.hyps(2)] by (simp add: keeps_back_def)
next
  case (ensure st n st')
  then show ?case
    using ensureLiteral_keeps [OF ensure.hyps(2)] by (simp add: keeps_back_def)
next
  case (solver st k)
  then show ?case
    by (simp add: back_ok_def)
qed

end
