(* ===== verification/Cadical_Levels.thy ===== *)
theory Cadical_Levels
  imports Cadical_Correct
begin

text \<open>
  User levels of the solver.  A well-bracketed run adds clauses and variables, takes notice of
  literals the library has fixed, and opens and closes levels in pairs.  Closing a level gives
  back the variables and the models the solver had when it was opened.
\<close>

section \<open>Runs\<close>

text \<open>
  What the library promises of a literal it reports as fixed: it follows from the clauses, and it
  is not in conflict with an assignment that it has reported before.
\<close>

definition fixed_report :: "cadical \<Rightarrow> CadicalLit \<Rightarrow> bool" where
  "fixed_report k lit \<longleftrightarrow> lit \<noteq> 0 \<and> nat \<bar>lit\<bar> < 2 ^ 31 \<and>
     (\<forall>\<tau>. (\<forall>c\<in>set (d_solver k). cad_clause_true \<tau> c) \<longrightarrow> lit_true \<tau> (toSatLiteral lit)) \<and>
     info_assignment (info_of k (getSatVariable (toSatLiteral lit))) \<in> {0, lit}"

inductive level_run :: "cadical \<Rightarrow> cadical \<Rightarrow> bool" where
  start: "level_run k k"
| clause: "level_run k k' \<Longrightarrow> c \<noteq> [] \<Longrightarrow> getSatVariable ` set c \<subseteq> cad_vars k' \<Longrightarrow>
    level_run k (add_clause c f k')"
| var: "level_run k k' \<Longrightarrow> cadical_room k' 1 \<Longrightarrow> cadical_newVar t k' = (v, k'') \<Longrightarrow> level_run k k''"
| fixed: "level_run k k' \<Longrightarrow> fixed_report k' lit \<Longrightarrow>
    level_run k (notify_fixed_assignment is_decision lit k')"
| level: "level_run k k' \<Longrightarrow> cadical_room k' 1 \<Longrightarrow> level_run (cadical_push k') k'' \<Longrightarrow>
    level_run k (cadical_pop k'')"

section \<open>States above a level\<close>

definition newer_lit :: "cadical \<Rightarrow> CadicalLit list \<Rightarrow> bool" where
  "newer_lit k0 c \<longleftrightarrow> (\<exists>l\<in>set c. l > 0 \<and> nat l < 2 ^ 31 \<and> unat (d_nextVarIdx k0) \<le> nat l)"

definition same_info :: "var_info \<Rightarrow> var_info \<Rightarrow> bool" where
  "same_info i j \<longleftrightarrow> level_intro i = level_intro j \<and> is_theory_atom i = is_theory_atom j \<and>
     is_active i = is_active j"

text \<open>
  \<open>above k0 k\<close>: everything that \<open>k\<close> has beyond \<open>k0\<close> belongs to levels opened after \<open>k0\<close>.
\<close>

definition above :: "cadical \<Rightarrow> cadical \<Rightarrow> bool" where
  "above k0 k \<longleftrightarrow>
     unat (d_nextVarIdx k0) \<le> unat (d_nextVarIdx k) \<and> d_true k = d_true k0 \<and> d_false k = d_false k0 \<and>
     d_new_clauses k = d_new_clauses k0 \<and> d_in_search k = d_in_search k0 \<and>
     (\<exists>E. d_solver k = d_solver k0 @ E \<and> (\<forall>c\<in>set E. newer_lit k0 c)) \<and>
     (\<forall>v. unat v < unat (d_nextVarIdx k0) \<longrightarrow> same_info (info_of k v) (info_of k0 v)) \<and>
     (\<exists>rest. d_active_vars k = d_active_vars k0 @ rest \<and>
        (\<forall>v\<in>set rest. unat (d_nextVarIdx k0) \<le> unat v \<and> unat v < unat (d_nextVarIdx k)) \<and>
        (\<forall>v\<in>cad_vars k. unat (d_nextVarIdx k0) \<le> unat v \<longrightarrow> v \<in> set rest)) \<and>
     (\<forall>v. unat (d_nextVarIdx k0) \<le> unat v \<and> unat v < unat (d_nextVarIdx k) \<longrightarrow>
        current_user_level k0 < level_intro (info_of k v))"

definition one_above :: "cadical \<Rightarrow> cadical \<Rightarrow> bool" where
  "one_above k0 k \<longleftrightarrow> above k0 k \<and>
     d_active_vars_control k = d_active_vars_control k0 @ [length (d_active_vars k0)] \<and>
     d_activation_literals k = d_activation_literals k0 @ [mkSatLiteral (d_nextVarIdx k0) False]"

definition level_with :: "cadical \<Rightarrow> cadical \<Rightarrow> bool" where
  "level_with k0 k \<longleftrightarrow> above k0 k \<and> d_active_vars_control k = d_active_vars_control k0 \<and>
     d_activation_literals k = d_activation_literals k0"

lemma aboveE:
  assumes "above k0 k"
  obtains E rest where
    "unat (d_nextVarIdx k0) \<le> unat (d_nextVarIdx k)" "d_true k = d_true k0" "d_false k = d_false k0"
    "d_new_clauses k = d_new_clauses k0" "d_in_search k = d_in_search k0"
    "d_solver k = d_solver k0 @ E" "\<And>c. c \<in> set E \<Longrightarrow> newer_lit k0 c"
    "\<And>v. unat v < unat (d_nextVarIdx k0) \<Longrightarrow> same_info (info_of k v) (info_of k0 v)"
    "d_active_vars k = d_active_vars k0 @ rest"
    "\<And>v. v \<in> set rest \<Longrightarrow> unat (d_nextVarIdx k0) \<le> unat v \<and> unat v < unat (d_nextVarIdx k)"
    "\<And>v. v \<in> cad_vars k \<Longrightarrow> unat (d_nextVarIdx k0) \<le> unat v \<Longrightarrow> v \<in> set rest"
    "\<And>v. unat (d_nextVarIdx k0) \<le> unat v \<Longrightarrow> unat v < unat (d_nextVarIdx k) \<Longrightarrow>
       current_user_level k0 < level_intro (info_of k v)"
  using assms unfolding above_def by (elim conjE exE) (rule that; (assumption | blast))

lemma aboveI:
  assumes
    "unat (d_nextVarIdx k0) \<le> unat (d_nextVarIdx k)" "d_true k = d_true k0" "d_false k = d_false k0"
    "d_new_clauses k = d_new_clauses k0" "d_in_search k = d_in_search k0"
    "d_solver k = d_solver k0 @ E" "\<And>c. c \<in> set E \<Longrightarrow> newer_lit k0 c"
    "\<And>v. unat v < unat (d_nextVarIdx k0) \<Longrightarrow> same_info (info_of k v) (info_of k0 v)"
    "d_active_vars k = d_active_vars k0 @ rest"
    "\<And>v. v \<in> set rest \<Longrightarrow> unat (d_nextVarIdx k0) \<le> unat v \<and> unat v < unat (d_nextVarIdx k)"
    "\<And>v. v \<in> cad_vars k \<Longrightarrow> unat (d_nextVarIdx k0) \<le> unat v \<Longrightarrow> v \<in> set rest"
    "\<And>v. unat (d_nextVarIdx k0) \<le> unat v \<Longrightarrow> unat v < unat (d_nextVarIdx k) \<Longrightarrow>
       current_user_level k0 < level_intro (info_of k v)"
  shows "above k0 k"
  unfolding above_def using assms by (intro conjI exI [of _ E] exI [of _ rest]) simp_all

lemma newer_lit_true:
  assumes "newer_lit k0 c" "\<And>v. unat (d_nextVarIdx k0) \<le> unat v \<Longrightarrow> \<tau> v"
  shows "cad_clause_true \<tau> c"
proof -
  obtain l where l: "l \<in> set c" "l > 0" "nat l < 2 ^ 31" "unat (d_nextVarIdx k0) \<le> nat l"
    using assms(1) by (auto simp: newer_lit_def)
  then have "unat (getSatVariable (toSatLiteral l)) = nat l" "\<not> isNegated (toSatLiteral l)"
    using getSatVariable_toSatLiteral(2) [of l] by (simp_all add: toSatLiteral_def)
  then have "lit_true \<tau> (toSatLiteral l)"
    using assms(2) l by (simp add: lit_true_def)
  with l(1) show ?thesis
    by (auto simp: cad_clause_true_def clause_true_def)
qed

lemma newer_lit_mono:
  "newer_lit k1 c \<Longrightarrow> unat (d_nextVarIdx k0) \<le> unat (d_nextVarIdx k1) \<Longrightarrow> newer_lit k0 c"
  unfolding newer_lit_def by (meson order_trans)

text \<open>The models of a state of the same level are those of the state it started from.\<close>

lemma level_with_models:
  assumes inv: "cadical_inv k0" and lw: "level_with k0 k" and vars: "cad_vars k = cad_vars k0"
  shows "cadical_models k = cadical_models k0"
proof -
  have act: "d_activation_literals k = d_activation_literals k0" and ab: "above k0 k"
    using lw by (simp_all add: level_with_def)
  obtain E where E: "d_solver k = d_solver k0 @ E" "\<And>c. c \<in> set E \<Longrightarrow> newer_lit k0 c"
    and new: "d_new_clauses k = d_new_clauses k0"
    by (rule aboveE [OF ab]) (rule that; (assumption | blast))
  have holds: "cad_holds k \<tau> \<longleftrightarrow> cad_holds k0 \<tau> \<and> (\<forall>c\<in>set E. cad_clause_true \<tau> c)" for \<tau>
    by (auto simp: cad_holds_def all_clauses_def E(1) act new)
  have "\<sigma> \<in> cadical_models k" if "\<sigma> \<in> cadical_models k0" for \<sigma>
  proof -
    from that obtain \<tau> where \<tau>: "\<forall>v\<in>cad_vars k0. \<tau> v = \<sigma> v" "cad_holds k0 \<tau>"
      by (auto simp: cadical_models_def)
    let ?\<tau> = "\<lambda>v. unat v < unat (d_nextVarIdx k0) \<longrightarrow> \<tau> v"
    have "cad_holds k0 ?\<tau> = cad_holds k0 \<tau>"
      by (rule cad_holds_cong [OF inv]) simp
    moreover have "\<forall>c\<in>set E. cad_clause_true ?\<tau> c"
      by (intro ballI newer_lit_true [OF E(2)]) auto
    moreover have "\<forall>v\<in>cad_vars k0. ?\<tau> v = \<sigma> v"
      using \<tau>(1) cad_var_small(3) [OF inv] by auto
    ultimately show ?thesis
      unfolding cadical_models_def vars holds using \<tau>(2) by (intro CollectI exI [of _ ?\<tau>] conjI) simp_all
  qed
  then show ?thesis
    unfolding cadical_models_def vars holds by blast
qed

section \<open>Opening a level\<close>

lemma push_parts:
  assumes inv: "cadical_inv k0" and room: "cadical_room k0 1"
  defines "k \<equiv> cadical_push k0" and "a \<equiv> d_nextVarIdx k0"
  shows "unat (d_nextVarIdx k) = Suc (unat a)" "cad_vars k = insert a (cad_vars k0)"
    "\<And>w. unat w < unat a \<Longrightarrow> info_of k w = info_of k0 w" "level_intro (info_of k a) = Suc (current_user_level k0)"
    "\<not> is_fixed (info_of k a)" "length (d_var_info k) = unat (d_nextVarIdx k)"
    "d_solver k = d_solver k0" "d_new_clauses k = d_new_clauses k0" "d_in_search k = d_in_search k0"
    "d_true k = d_true k0" "d_false k = d_false k0" "d_active_vars k = d_active_vars k0 @ [a]"
    "d_active_vars_control k = d_active_vars_control k0 @ [length (d_active_vars k0)]"
    "d_activation_literals k = d_activation_literals k0 @ [mkSatLiteral a False]"
proof -
  obtain v k' where nv: "cadical_newVar False (user_push k0) = (v, k')"
    by (cases "cadical_newVar False (user_push k0)")
  have len: "length (d_var_info (user_push k0)) = unat (d_nextVarIdx (user_push k0))"
    "1 \<le> unat (d_nextVarIdx (user_push k0))"
    using inv_infos [OF inv] by (simp_all add: user_push_def)
  have room': "cadical_room (user_push k0) (Suc 0)"
    using room by (simp add: cadical_room_def user_push_def)
  note new = add_new_var_infos [OF len(1) nv] and vs = newVar_vars [OF len room' nv]
  have k: "k = k'\<lparr>d_activation_literals := d_activation_literals k' @ [mkSatLiteral v False]\<rparr>"
    by (simp add: k_def cadical_push_def nv set_activation_lit_def)
  have v: "v = a"
    using new(1) by (simp add: a_def user_push_def)
  have info: "info_of k = info_of k'" "info_of (user_push k0) = info_of k0"
    by (simp_all add: k info_of_def user_push_def fun_eq_iff)
  have vars: "cad_vars k = cad_vars k'" "cad_vars (user_push k0) = cad_vars k0"
    by (simp_all add: cad_vars_def info) (simp_all add: k user_push_def)
  have lev: "current_user_level (user_push k0) = Suc (current_user_level k0)"
    by (simp add: current_user_level_def user_push_def)
  show "unat (d_nextVarIdx k) = Suc (unat a)" "length (d_var_info k) = unat (d_nextVarIdx k)"
    using vs(1) new(3) len(1) by (simp_all add: k a_def user_push_def)
  show "cad_vars k = insert a (cad_vars k0)"
    using vs(3) by (simp only: vars v)
  show "info_of k w = info_of k0 w" if "unat w < unat a" for w
    using vs(4) [of w] that by (simp add: info a_def user_push_def [THEN arg_cong [of _ _ d_nextVarIdx]])
  show "level_intro (info_of k a) = Suc (current_user_level k0)" "\<not> is_fixed (info_of k a)"
    using vs(5) by (simp_all add: info v lev VarInfo_def)
  show "d_solver k = d_solver k0" "d_new_clauses k = d_new_clauses k0" "d_in_search k = d_in_search k0"
    "d_true k = d_true k0" "d_false k = d_false k0" "d_active_vars k = d_active_vars k0 @ [a]"
    "d_active_vars_control k = d_active_vars_control k0 @ [length (d_active_vars k0)]"
    "d_activation_literals k = d_activation_literals k0 @ [mkSatLiteral a False]"
    using new by (simp_all add: k v user_push_def)
qed

lemma push_one_above:
  assumes inv: "cadical_inv k0" and room: "cadical_room k0 1"
  shows "cadical_inv (cadical_push k0)" "one_above k0 (cadical_push k0)"
proof -
  note push = push_parts [OF inv room]
  let ?a = "d_nextVarIdx k0" and ?k = "cadical_push k0"
  have a: "unat ?a < 2 ^ 62" "unat ?a < 2 ^ 31" "1 \<le> unat ?a"
    using room inv_infos(2) [OF inv] by (simp_all add: cadical_room_def)
  have old: "info_of ?k w = info_of k0 w" if "w \<in> cad_vars k0" for w
    using that by (intro push(3)) (simp add: cad_vars_def)
  have lev: "current_user_level ?k = Suc (current_user_level k0)"
    by (simp add: current_user_level_def push(13))
  have fixd: "fixed_ok ?k w \<longleftrightarrow> fixed_ok k0 w" if "w \<in> cad_vars k0" for w
    by (simp only: fixed_ok_def old [OF that] push(7))
  have all: "all_clauses ?k = all_clauses k0"
    by (simp add: all_clauses_def push(7,8))
  have "unat (d_nextVarIdx ?k) \<le> 2 ^ 31"
    using a(2) push(1) by simp
  with inv push(6) show "cadical_inv ?k"
    unfolding cadical_inv_def push(1,2,7,8,10,11,14) all lev
    by (elim conjE, intro conjI)
      (auto simp: old fixd push(4,5) getSatVariable_mk [OF a(1)] intro: less_SucI le_SucI)
  have range: "v = ?a" if "unat ?a \<le> unat v" "unat v < unat (d_nextVarIdx ?k)" for v
    using that push(1) by (simp add: word_unat_eq_iff)
  have "above k0 ?k"
  proof (rule aboveI [where E = "[]" and rest = "[?a]"])
    show "v \<in> set [?a]" if "v \<in> cad_vars ?k" "unat ?a \<le> unat v" for v
      using that range [of v] by (auto simp: cad_vars_def)
    show "current_user_level k0 < level_intro (info_of ?k v)"
      if "unat ?a \<le> unat v" "unat v < unat (d_nextVarIdx ?k)" for v
      using range [OF that] push(4) by simp
  qed (use push in \<open>auto simp: same_info_def\<close>)
  then show "one_above k0 ?k"
    by (simp add: one_above_def push(13,14))
qed

section \<open>Closing a level\<close>

definition deactivate :: "var_info list \<Rightarrow> SatVariable list \<Rightarrow> var_info list" where
  "deactivate infos vs = foldr (\<lambda>v is. is[unat v := (is ! unat v)\<lparr>is_active := False\<rparr>]) vs infos"

lemma deactivate_snoc:
  "deactivate infos (vs @ [v]) = deactivate (infos[unat v := (infos ! unat v)\<lparr>is_active := False\<rparr>]) vs"
  by (simp add: deactivate_def)

lemma deactivate_length [simp]: "length (deactivate infos vs) = length infos"
  by (induction vs) (simp_all add: deactivate_def)

lemma deactivate_nth:
  assumes "\<forall>v\<in>set vs. unat v < length infos"
  shows "deactivate infos vs ! unat w =
    (if w \<in> set vs then (infos ! unat w)\<lparr>is_active := False\<rparr> else infos ! unat w)"
  using assms
proof (induction vs)
  case (Cons v vs)
  let ?d = "deactivate infos vs"
  have step: "deactivate infos (v # vs) = ?d[unat v := (?d ! unat v)\<lparr>is_active := False\<rparr>]"
    by (simp add: deactivate_def)
  show ?case
  proof (cases "w = v")
    case True
    with Cons show ?thesis
      by (simp add: step)
  next
    case False
    then have "unat v \<noteq> unat w"
      by (simp add: word_unat_eq_iff)
    with False Cons show ?thesis
      by (simp add: step)
  qed
qed (simp add: deactivate_def)

lemma user_pop_vars_spec:
  assumes "d_active_vars k = base @ rest"
    "\<forall>v\<in>set rest. level < level_intro (info_of k v) \<and> unat v < length (d_var_info k)"
  shows "user_pop_vars (length base) level fixed k =
    (fixed, k\<lparr>d_active_vars := base, d_var_info := deactivate (d_var_info k) rest,
       d_solver := d_solver k @ map (\<lambda>v. [toCadicalVar v]) (rev rest)\<rparr>)"
  using assms
proof (induction rest arbitrary: k rule: rev_induct)
  case Nil
  then show ?case
    by (subst user_pop_vars.simps) (simp add: deactivate_def)
next
  case (snoc v rest)
  let ?k = "(update_info v (\<lambda>i. i\<lparr>is_active := False\<rparr>) (k\<lparr>d_active_vars := base @ rest\<rparr>))
     \<lparr>d_solver := d_solver k @ [[toCadicalVar v]]\<rparr>"
  have last: "last (d_active_vars k) = v" "butlast (d_active_vars k) = base @ rest"
    "length base < length (d_active_vars k)"
    using snoc.prems(1) by (simp_all add: butlast_append)
  have "level_intro (info_of ?k w) = level_intro (info_of k w)" for w
    by (cases "unat v = unat w"; cases "unat w < length (d_var_info k)")
      (simp_all add: update_info_def info_of_def list_update_beyond)
  then have IH: "user_pop_vars (length base) level fixed ?k =
    (fixed, ?k\<lparr>d_active_vars := base, d_var_info := deactivate (d_var_info ?k) rest,
       d_solver := d_solver ?k @ map (\<lambda>v. [toCadicalVar v]) (rev rest)\<rparr>)"
    using snoc.prems(2) by (intro snoc.IH) (simp_all add: update_info_def)
  have "\<not> level_intro (info_of k v) \<le> level"
    using snoc.prems(2) by simp
  then have "user_pop_vars (length base) level fixed k = user_pop_vars (length base) level fixed ?k"
    by (subst user_pop_vars.simps) (simp add: Let_def last)
  then show ?case
    unfolding IH by (simp add: update_info_def info_of_def deactivate_snoc)
qed

lemma pop_parts:
  assumes inv: "cadical_inv k" and one: "one_above k0 k"
  obtains rest where "d_active_vars k = d_active_vars k0 @ rest"
    "d_nextVarIdx (cadical_pop k) = d_nextVarIdx k" "d_true (cadical_pop k) = d_true k"
    "d_false (cadical_pop k) = d_false k" "d_new_clauses (cadical_pop k) = d_new_clauses k"
    "d_in_search (cadical_pop k) = d_in_search k" "d_active_vars (cadical_pop k) = d_active_vars k0"
    "d_active_vars_control (cadical_pop k) = d_active_vars_control k0"
    "d_activation_literals (cadical_pop k) = d_activation_literals k0"
    "d_solver (cadical_pop k) = d_solver k @ map (\<lambda>v. [toCadicalVar v]) (rev rest)"
    "d_var_info (cadical_pop k) = deactivate (d_var_info k) rest"
    "\<And>v. v \<in> set rest \<Longrightarrow> unat (d_nextVarIdx k0) \<le> unat v \<and> unat v < unat (d_nextVarIdx k)"
    "\<And>v. v \<in> cad_vars k \<Longrightarrow> unat (d_nextVarIdx k0) \<le> unat v \<Longrightarrow> v \<in> set rest"
proof -
  have ab: "above k0 k" and ctl: "d_active_vars_control k = d_active_vars_control k0 @ [length (d_active_vars k0)]"
    and act: "d_activation_literals k = d_activation_literals k0 @ [mkSatLiteral (d_nextVarIdx k0) False]"
    using one by (simp_all add: one_above_def)
  obtain rest where rest: "d_active_vars k = d_active_vars k0 @ rest"
    "\<And>v. v \<in> set rest \<Longrightarrow> unat (d_nextVarIdx k0) \<le> unat v \<and> unat v < unat (d_nextVarIdx k)"
    "\<And>v. v \<in> cad_vars k \<Longrightarrow> unat (d_nextVarIdx k0) \<le> unat v \<Longrightarrow> v \<in> set rest"
    and lev: "\<And>v. unat (d_nextVarIdx k0) \<le> unat v \<Longrightarrow> unat v < unat (d_nextVarIdx k) \<Longrightarrow>
       current_user_level k0 < level_intro (info_of k v)"
    by (rule aboveE [OF ab]) (rule that; (assumption | blast))
  let ?k = "k\<lparr>d_active_vars_control := d_active_vars_control k0, d_activation_literals := d_activation_literals k0\<rparr>"
  have pop: "user_pop_vars (length (d_active_vars k0)) (current_user_level k0) [] ?k =
    ([], ?k\<lparr>d_active_vars := d_active_vars k0, d_var_info := deactivate (d_var_info k) rest,
       d_solver := d_solver k @ map (\<lambda>v. [toCadicalVar v]) (rev rest)\<rparr>)"
    using rest lev inv_infos(1) [OF inv] by (subst user_pop_vars_spec [where rest = rest]) (auto simp: info_of_def)
  have cur: "current_user_level ?k = current_user_level k0"
    by (simp add: current_user_level_def)
  show thesis
    by (rule that [OF rest(1)]; (rule rest(2,3), assumption+ | simp add: cadical_pop_def user_pop_def Let_def ctl act cur pop))
qed

lemma unit_lit:
  assumes "1 \<le> unat v" "unat v < 2 ^ 31"
  shows "toCadicalVar v > 0" "nat (toCadicalVar v) = unat v"
proof -
  have "int (unat v) > 0"
    using assms(1) by linarith
  then show "toCadicalVar v > 0" "nat (toCadicalVar v) = unat v"
    unfolding toCadicalVar_def to_int32_small [OF assms(2)] by simp_all
qed

lemma pop_level_with:
  assumes inv0: "cadical_inv k0" and inv: "cadical_inv k" and one: "one_above k0 k"
  shows "cadical_inv (cadical_pop k)" "level_with k0 (cadical_pop k)" "cad_vars (cadical_pop k) = cad_vars k0"
proof -
  let ?k = "cadical_pop k"
  obtain rest where pop: "d_active_vars k = d_active_vars k0 @ rest"
    "d_nextVarIdx ?k = d_nextVarIdx k" "d_true ?k = d_true k" "d_false ?k = d_false k"
    "d_new_clauses ?k = d_new_clauses k" "d_in_search ?k = d_in_search k"
    "d_active_vars ?k = d_active_vars k0" "d_active_vars_control ?k = d_active_vars_control k0"
    "d_activation_literals ?k = d_activation_literals k0"
    "d_solver ?k = d_solver k @ map (\<lambda>v. [toCadicalVar v]) (rev rest)"
    "d_var_info ?k = deactivate (d_var_info k) rest"
    and rest: "\<And>v. v \<in> set rest \<Longrightarrow> unat (d_nextVarIdx k0) \<le> unat v \<and> unat v < unat (d_nextVarIdx k)"
      "\<And>v. v \<in> cad_vars k \<Longrightarrow> unat (d_nextVarIdx k0) \<le> unat v \<Longrightarrow> v \<in> set rest"
    by (rule pop_parts [OF inv one]) (rule that; (assumption | blast))
  have ab: "above k0 k"
    using one by (simp add: one_above_def)
  obtain E where E: "unat (d_nextVarIdx k0) \<le> unat (d_nextVarIdx k)" "d_true k = d_true k0" "d_false k = d_false k0"
    "d_new_clauses k = d_new_clauses k0" "d_in_search k = d_in_search k0"
    "d_solver k = d_solver k0 @ E" "\<And>c. c \<in> set E \<Longrightarrow> newer_lit k0 c"
    "\<And>v. unat v < unat (d_nextVarIdx k0) \<Longrightarrow> same_info (info_of k v) (info_of k0 v)"
    "\<And>v. unat (d_nextVarIdx k0) \<le> unat v \<Longrightarrow> unat v < unat (d_nextVarIdx k) \<Longrightarrow>
       current_user_level k0 < level_intro (info_of k v)"
    by (rule aboveE [OF ab]) (rule that; (assumption | blast))
  have info: "info_of ?k v = (if v \<in> set rest then (info_of k v)\<lparr>is_active := False\<rparr> else info_of k v)" for v
    using rest(1) inv_infos(1) [OF inv] unfolding info_of_def pop(11) by (intro deactivate_nth) simp
  have "unat (d_nextVarIdx k) \<le> 2 ^ 31"
    using inv by (simp only: cadical_inv_def)
  then have unit: "unat v < 2 ^ 31" "toCadicalVar v > 0" "nat (toCadicalVar v) = unat v" if "v \<in> set rest" for v
    using unit_lit [of v] rest(1) [OF that] inv_infos(2) [OF inv0] by linarith+
  show vars: "cad_vars ?k = cad_vars k0"
  proof (rule set_eqI)
    fix v
    have "is_active (info_of ?k v) = is_active (info_of k0 v)" if "unat v < unat (d_nextVarIdx k0)"
      using E(8) [OF that] rest(1) [of v] that by (auto simp: info same_info_def)
    moreover have "\<not> is_active (info_of ?k v)"
      if "unat (d_nextVarIdx k0) \<le> unat v" "unat v < unat (d_nextVarIdx k)" "1 \<le> unat v"
      using rest(2) [of v] that by (auto simp: info cad_vars_def)
    ultimately show "v \<in> cad_vars ?k \<longleftrightarrow> v \<in> cad_vars k0"
      using E(1) unfolding cad_vars_def pop(2) mem_Collect_eq by (metis leI less_le_trans)
  qed
  have "above k0 ?k"
  proof (rule aboveI [where E = "E @ map (\<lambda>v. [toCadicalVar v]) (rev rest)" and rest = "[]"])
    have "newer_lit k0 [toCadicalVar v]" if "v \<in> set rest" for v
      using unit [OF that] rest(1) [OF that] by (simp add: newer_lit_def)
    then show "newer_lit k0 c" if "c \<in> set (E @ map (\<lambda>v. [toCadicalVar v]) (rev rest))" for c
      using that E(7) by auto
    show "same_info (info_of ?k v) (info_of k0 v)" if "unat v < unat (d_nextVarIdx k0)" for v
      using E(8) [OF that] rest(1) [of v] that by (auto simp: info)
    show "v \<in> set []" if "v \<in> cad_vars ?k" "unat (d_nextVarIdx k0) \<le> unat v" for v
      using cad_var_small(3) [OF inv0, of v] that unfolding vars by linarith
    show "current_user_level k0 < level_intro (info_of ?k v)"
      if "unat (d_nextVarIdx k0) \<le> unat v" "unat v < unat (d_nextVarIdx ?k)" for v
      using E(9) [of v] that by (simp add: info pop(2))
  qed (use E pop in simp_all)
  then show "level_with k0 ?k"
    by (simp add: level_with_def pop)
  have sub: "v \<in> cad_vars k \<and> v \<notin> set rest" if "v \<in> cad_vars k0" for v
    using that E(1) E(8) [of v] rest(1) [of v] by (auto simp: cad_vars_def same_info_def)
  have fixd: "fixed_ok ?k v" if "v \<in> cad_vars k0" "fixed_ok k v" for v
    using that sub [OF that(1)] by (auto simp: fixed_ok_def info pop(10))
  have lev: "current_user_level ?k = current_user_level k0"
    by (simp add: current_user_level_def pop(8))
  have "level_intro (info_of ?k v) \<le> current_user_level k0" if "v \<in> cad_vars k0" for v
    using that inv0 E(8) [of v] cad_var_small(3) [OF inv0 that] by (auto simp: info same_info_def cadical_inv_def)
  moreover have "l \<noteq> 0 \<and> nat \<bar>l\<bar> < unat (d_nextVarIdx k)" if "c \<in> set (all_clauses ?k)" "l \<in> set c" for c l
  proof -
    consider "c \<in> set (all_clauses k)" | v where "v \<in> set rest" "l = toCadicalVar v"
      using \<open>c \<in> set (all_clauses ?k)\<close> \<open>l \<in> set c\<close> by (auto simp: all_clauses_def pop)
    then show ?thesis
    proof cases
      case 1
      with \<open>l \<in> set c\<close> inv show ?thesis
        by (auto simp: cadical_inv_def)
    next
      case 2
      with unit [of v] rest(1) [of v] show ?thesis
        by simp
    qed
  qed
  moreover have "fixed_ok ?k v" if "v \<in> cad_vars k0" "is_fixed (info_of ?k v)" for v
    using that sub [OF that(1)] fixd [OF that(1)] inv by (auto simp: info cadical_inv_def)
  ultimately show "cadical_inv ?k"
    using inv inv0 unfolding cadical_inv_def vars lev by (auto simp: pop E(2,3))
qed

section \<open>Steps inside a level\<close>

lemma same_info_trans: "same_info i j \<Longrightarrow> same_info j l \<Longrightarrow> same_info i l"
  by (simp add: same_info_def)

lemma above_trans:
  assumes ab: "above k0 k1" "above k1 k2" and lev: "current_user_level k0 \<le> current_user_level k1"
    and pos: "1 \<le> unat (d_nextVarIdx k0)"
  shows "above k0 k2"
proof -
  obtain E rest where a: "unat (d_nextVarIdx k0) \<le> unat (d_nextVarIdx k1)" "d_true k1 = d_true k0"
    "d_false k1 = d_false k0" "d_new_clauses k1 = d_new_clauses k0" "d_in_search k1 = d_in_search k0"
    "d_solver k1 = d_solver k0 @ E" "\<And>c. c \<in> set E \<Longrightarrow> newer_lit k0 c"
    "\<And>v. unat v < unat (d_nextVarIdx k0) \<Longrightarrow> same_info (info_of k1 v) (info_of k0 v)"
    "d_active_vars k1 = d_active_vars k0 @ rest"
    "\<And>v. v \<in> set rest \<Longrightarrow> unat (d_nextVarIdx k0) \<le> unat v \<and> unat v < unat (d_nextVarIdx k1)"
    "\<And>v. v \<in> cad_vars k1 \<Longrightarrow> unat (d_nextVarIdx k0) \<le> unat v \<Longrightarrow> v \<in> set rest"
    "\<And>v. unat (d_nextVarIdx k0) \<le> unat v \<Longrightarrow> unat v < unat (d_nextVarIdx k1) \<Longrightarrow>
       current_user_level k0 < level_intro (info_of k1 v)"
    by (rule aboveE [OF ab(1)]) (rule that; (assumption | blast))
  obtain F rest' where b: "unat (d_nextVarIdx k1) \<le> unat (d_nextVarIdx k2)" "d_true k2 = d_true k1"
    "d_false k2 = d_false k1" "d_new_clauses k2 = d_new_clauses k1" "d_in_search k2 = d_in_search k1"
    "d_solver k2 = d_solver k1 @ F" "\<And>c. c \<in> set F \<Longrightarrow> newer_lit k1 c"
    "\<And>v. unat v < unat (d_nextVarIdx k1) \<Longrightarrow> same_info (info_of k2 v) (info_of k1 v)"
    "d_active_vars k2 = d_active_vars k1 @ rest'"
    "\<And>v. v \<in> set rest' \<Longrightarrow> unat (d_nextVarIdx k1) \<le> unat v \<and> unat v < unat (d_nextVarIdx k2)"
    "\<And>v. v \<in> cad_vars k2 \<Longrightarrow> unat (d_nextVarIdx k1) \<le> unat v \<Longrightarrow> v \<in> set rest'"
    "\<And>v. unat (d_nextVarIdx k1) \<le> unat v \<Longrightarrow> unat v < unat (d_nextVarIdx k2) \<Longrightarrow>
       current_user_level k1 < level_intro (info_of k2 v)"
    by (rule aboveE [OF ab(2)]) (rule that; (assumption | blast))
  show ?thesis
  proof (rule aboveI [where E = "E @ F" and rest = "rest @ rest'"])
    show "newer_lit k0 c" if "c \<in> set (E @ F)" for c
      using that a(7) newer_lit_mono [OF b(7) a(1)] by auto
    show "same_info (info_of k2 v) (info_of k0 v)" if "unat v < unat (d_nextVarIdx k0)" for v
      using that a(1) by (intro same_info_trans [OF b(8) a(8)]) auto
    show "unat (d_nextVarIdx k0) \<le> unat v \<and> unat v < unat (d_nextVarIdx k2)"
      if "v \<in> set (rest @ rest')" for v
      using that a(1) a(10) [of v] b(1) b(10) [of v] by auto
    show "v \<in> set (rest @ rest')" if "v \<in> cad_vars k2" "unat (d_nextVarIdx k0) \<le> unat v" for v
    proof (cases "unat v < unat (d_nextVarIdx k1)")
      case True
      with that b(8) [OF True] pos have "v \<in> cad_vars k1"
        by (simp add: cad_vars_def same_info_def)
      then show ?thesis
        using a(11) that by simp
    qed (use b(11) that in simp)
    show "current_user_level k0 < level_intro (info_of k2 v)"
      if "unat (d_nextVarIdx k0) \<le> unat v" "unat v < unat (d_nextVarIdx k2)" for v
    proof (cases "unat v < unat (d_nextVarIdx k1)")
      case True
      with a(12) that b(8) [OF True] show ?thesis
        by (simp add: same_info_def)
    next
      case False
      with b(12) [of v] that lev show ?thesis
        by simp
    qed
  qed (use a(1-6,9) b(1-6,9) in simp_all)
qed

lemma one_above_level_with:
  assumes "one_above k0 k" "level_with k k'" "1 \<le> unat (d_nextVarIdx k0)"
  shows "one_above k0 k'"
proof -
  have "above k0 k'"
    using assms by (intro above_trans [of k0 k k'])
      (auto simp: one_above_def level_with_def current_user_level_def)
  with assms show ?thesis
    by (simp add: one_above_def level_with_def)
qed

lemma above_frame:
  assumes ab: "above k0 k"
    and eq: "d_nextVarIdx k' = d_nextVarIdx k" "d_true k' = d_true k" "d_false k' = d_false k"
      "d_new_clauses k' = d_new_clauses k" "d_in_search k' = d_in_search k" "d_active_vars k' = d_active_vars k"
      "d_solver k' = d_solver k @ F" "\<And>c. c \<in> set F \<Longrightarrow> newer_lit k0 c"
      "\<And>v. same_info (info_of k' v) (info_of k v)"
  shows "above k0 k'"
proof -
  obtain E rest where a: "unat (d_nextVarIdx k0) \<le> unat (d_nextVarIdx k)" "d_true k = d_true k0" "d_false k = d_false k0"
    "d_new_clauses k = d_new_clauses k0" "d_in_search k = d_in_search k0"
    "d_solver k = d_solver k0 @ E" "\<And>c. c \<in> set E \<Longrightarrow> newer_lit k0 c"
    "\<And>v. unat v < unat (d_nextVarIdx k0) \<Longrightarrow> same_info (info_of k v) (info_of k0 v)"
    "d_active_vars k = d_active_vars k0 @ rest"
    "\<And>v. v \<in> set rest \<Longrightarrow> unat (d_nextVarIdx k0) \<le> unat v \<and> unat v < unat (d_nextVarIdx k)"
    "\<And>v. v \<in> cad_vars k \<Longrightarrow> unat (d_nextVarIdx k0) \<le> unat v \<Longrightarrow> v \<in> set rest"
    "\<And>v. unat (d_nextVarIdx k0) \<le> unat v \<Longrightarrow> unat v < unat (d_nextVarIdx k) \<Longrightarrow>
       current_user_level k0 < level_intro (info_of k v)"
    by (rule aboveE [OF ab]) (rule that; (assumption | blast))
  have vars: "cad_vars k' = cad_vars k"
    using eq(1,9) by (simp add: cad_vars_def same_info_def)
  show ?thesis
  proof (rule aboveI [where E = "E @ F" and rest = rest])
    show "newer_lit k0 c" if "c \<in> set (E @ F)" for c
      using that a(7) eq(8) by auto
    show "same_info (info_of k' v) (info_of k0 v)" if "unat v < unat (d_nextVarIdx k0)" for v
      by (rule same_info_trans [OF eq(9) a(8) [OF that]])
    show "v \<in> set rest" if "v \<in> cad_vars k'" "unat (d_nextVarIdx k0) \<le> unat v" for v
      using a(11) that unfolding vars by blast
    show "current_user_level k0 < level_intro (info_of k' v)"
      if "unat (d_nextVarIdx k0) \<le> unat v" "unat v < unat (d_nextVarIdx k')" for v
      using a(12) [of v] that eq(1) eq(9) [of v] by (simp add: same_info_def)
  qed (use a(1-6,9,10) eq(1-7) in auto)
qed

lemma one_above_clause:
  assumes inv: "cadical_inv k" and one: "one_above k0 k" and nosearch: "\<not> d_in_search k"
    and c: "c \<noteq> []" "getSatVariable ` set c \<subseteq> cad_vars k" and small: "unat (d_nextVarIdx k0) < 2 ^ 31" "1 \<le> unat (d_nextVarIdx k0)"
  shows "one_above k0 (add_clause c f k)"
  using inv c
proof (cases rule: add_clause_cases [where f = f])
  case (satisfied l)
  with one show ?thesis
    by simp
next
  case (search m)
  with nosearch show ?thesis
    by simp
next
  case direct
  let ?c = "map toCadicalLit (guard_of k (current_user_level k) @ c)" and ?a = "mkSatLiteral (d_nextVarIdx k0) False"
  have act: "d_activation_literals k = d_activation_literals k0 @ [?a]"
    and len: "length (d_activation_literals k) = current_user_level k"
    using one inv by (simp_all add: one_above_def cadical_inv_def)
  then have guard: "guard_of k (current_user_level k) = [?a]"
    by (simp add: guard_of_def flip: len)
  have "toCadicalLit ?a = toCadicalVar (d_nextVarIdx k0)"
    using small(1) by (simp add: toCadicalLit_def toCadicalVar_def getSatVariable_mk)
  then have new: "newer_lit k0 ?c"
    using unit_lit [OF small(2,1)] small(1) by (simp add: guard newer_lit_def)
  have "above k0 (k\<lparr>d_solver := d_solver k @ [cc]\<rparr>)" if "newer_lit k0 cc" for cc
  proof (rule above_frame [where F = "[cc]", of k0 k])
    show "above k0 k"
      using one by (simp add: one_above_def)
    show "same_info (info_of (k\<lparr>d_solver := d_solver k @ [cc]\<rparr>) v) (info_of k v)" for v
      by (simp add: info_of_def same_info_def)
  qed (use that in simp_all)
  from this [OF new] one direct(2) show ?thesis
    by (simp add: one_above_def)
qed

lemma info_of_update_info:
  "info_of (update_info v f k) w = (if w = v \<and> unat v < length (d_var_info k) then f (info_of k v) else info_of k w)"
proof (cases "w = v")
  case False
  then have "unat v \<noteq> unat w"
    by (simp add: word_unat_eq_iff)
  with False show ?thesis
    by (simp add: update_info_def info_of_def)
qed (simp add: update_info_def info_of_def list_update_beyond)

lemma info_of_fields [simp]:
  "info_of (k\<lparr>d_decisions := x\<rparr>) = info_of k" "info_of (k\<lparr>d_assignments := y\<rparr>) = info_of k"
  "info_of (k\<lparr>d_proxy := z\<rparr>) = info_of k"
  by (simp_all add: info_of_def fun_eq_iff)

lemma update_info_frame [simp]:
  "d_nextVarIdx (update_info v f k) = d_nextVarIdx k" "d_true (update_info v f k) = d_true k"
  "d_false (update_info v f k) = d_false k" "d_new_clauses (update_info v f k) = d_new_clauses k"
  "d_in_search (update_info v f k) = d_in_search k" "d_solver (update_info v f k) = d_solver k"
  "d_active_vars (update_info v f k) = d_active_vars k"
  "d_active_vars_control (update_info v f k) = d_active_vars_control k"
  "d_activation_literals (update_info v f k) = d_activation_literals k"
  "d_found_solution (update_info v f k) = d_found_solution k"
  "length (d_var_info (update_info v f k)) = length (d_var_info k)"
  by (simp_all add: update_info_def)

text \<open>A report of a fixed literal changes nothing but the record of its variable.\<close>

definition assign_frame :: "cadical \<Rightarrow> cadical \<Rightarrow> bool" where
  "assign_frame k k' \<longleftrightarrow>
     d_nextVarIdx k' = d_nextVarIdx k \<and> d_true k' = d_true k \<and> d_false k' = d_false k \<and>
     d_new_clauses k' = d_new_clauses k \<and> d_in_search k' = d_in_search k \<and> d_solver k' = d_solver k \<and>
     d_active_vars k' = d_active_vars k \<and> d_active_vars_control k' = d_active_vars_control k \<and>
     d_activation_literals k' = d_activation_literals k \<and> length (d_var_info k') = length (d_var_info k) \<and>
     (\<forall>w. same_info (info_of k' w) (info_of k w))"

lemma notify_assignment1_info:
  fixes lit k
  defines "v \<equiv> getSatVariable (toSatLiteral lit)"
  shows "info_of (notify_assignment1 d lit k) w = (if w = v \<and> is_active (info_of k v) \<and>
     info_assignment (info_of k v) = 0 \<and> unat v < length (d_var_info k)
     then (info_of k v)\<lparr>info_assignment := lit\<rparr> else info_of k w)"
  unfolding v_def by (simp add: notify_assignment1_def Let_def info_of_update_info)

lemma notify_assignment1_frame: "assign_frame k (notify_assignment1 d lit k)"
proof -
  have "same_info (info_of (notify_assignment1 d lit k) w) (info_of k w)" for w
    by (simp add: notify_assignment1_info same_info_def)
  then show ?thesis
    unfolding assign_frame_def by (intro conjI allI) (simp_all add: notify_assignment1_def Let_def)
qed

lemma assign_frame_trans: "assign_frame a b \<Longrightarrow> assign_frame b c \<Longrightarrow> assign_frame a c"
  by (simp add: assign_frame_def same_info_def)

lemma notify_fixed_frame: "assign_frame k (notify_fixed_assignment d lit k)"
proof -
  let ?v = "getSatVariable (toSatLiteral lit)"
  let ?k = "update_info ?v (\<lambda>i. i\<lparr>is_fixed := True, level_fixed := current_user_level k\<rparr>) k"
  have refl: "assign_frame k k"
    by (simp add: assign_frame_def same_info_def)
  have upd: "assign_frame k ?k"
    by (auto simp: assign_frame_def same_info_def info_of_update_info)
  then show ?thesis
    using assign_frame_trans [OF upd notify_assignment1_frame] refl
    by (simp add: notify_fixed_assignment_def notify_assignment_def Let_def)
qed

lemma one_above_fixed:
  assumes one: "one_above k0 k"
  shows "one_above k0 (notify_fixed_assignment d lit k)"
  using one notify_fixed_frame [of k d lit]
  by (auto simp: one_above_def assign_frame_def intro: above_frame [where F = "[]", of k0 k])

lemma fixed_inv:
  assumes inv: "cadical_inv k" and rep: "fixed_report k lit"
  shows "cadical_inv (notify_fixed_assignment d lit k)"
proof -
  let ?k = "notify_fixed_assignment d lit k" and ?v = "getSatVariable (toSatLiteral lit)"
  note fr = notify_fixed_frame [of k d lit, unfolded assign_frame_def]
  have vars: "cad_vars ?k = cad_vars k"
    using fr by (simp add: cad_vars_def same_info_def)
  have val: "lit_true \<tau> (toSatLiteral lit) \<longleftrightarrow> \<tau> ?v \<noteq> (lit < 0)" for \<tau>
    by (simp add: lit_true_def toSatLiteral_def)
  have "fixed_ok ?k w" if "w \<in> cad_vars k" "is_fixed (info_of ?k w)" for w
  proof (cases "info_of ?k w = info_of k w")
    case True
    with that inv have "fixed_ok k w"
      by (auto simp: cadical_inv_def)
    with True fr show ?thesis
      by (simp add: fixed_ok_def)
  next
    case False
    then have "w = ?v" "info_assignment (info_of ?k w) \<in> {0, lit}"
      using rep by (auto simp: notify_fixed_assignment_def notify_assignment_def Let_def
          notify_assignment1_info info_of_update_info fixed_report_def split: if_splits)
    with rep fr val show ?thesis
      by (auto simp: fixed_ok_def fixed_report_def)
  qed
  moreover have "all_clauses ?k = all_clauses k" "current_user_level ?k = current_user_level k"
    using fr by (simp_all add: all_clauses_def current_user_level_def)
  ultimately show ?thesis
    using inv fr unfolding cadical_inv_def vars by (simp add: same_info_def)
qed

lemma one_above_var:
  assumes inv: "cadical_inv k" and one: "one_above k0 k" and room: "cadical_room k 1"
    and nv: "cadical_newVar t k = (v, k')"
  shows "one_above k0 k'"
proof -
  note new = add_new_var_infos [OF inv_infos(1) [OF inv] nv]
    and vs = newVar_vars [OF inv_infos [OF inv] room [unfolded One_nat_def] nv]
  have ab: "above k0 k" and lev: "current_user_level k = Suc (current_user_level k0)"
    using one by (simp_all add: one_above_def current_user_level_def)
  obtain E rest where a: "unat (d_nextVarIdx k0) \<le> unat (d_nextVarIdx k)" "d_true k = d_true k0" "d_false k = d_false k0"
    "d_new_clauses k = d_new_clauses k0" "d_in_search k = d_in_search k0"
    "d_solver k = d_solver k0 @ E" "\<And>c. c \<in> set E \<Longrightarrow> newer_lit k0 c"
    "\<And>v. unat v < unat (d_nextVarIdx k0) \<Longrightarrow> same_info (info_of k v) (info_of k0 v)"
    "d_active_vars k = d_active_vars k0 @ rest"
    "\<And>v. v \<in> set rest \<Longrightarrow> unat (d_nextVarIdx k0) \<le> unat v \<and> unat v < unat (d_nextVarIdx k)"
    "\<And>v. v \<in> cad_vars k \<Longrightarrow> unat (d_nextVarIdx k0) \<le> unat v \<Longrightarrow> v \<in> set rest"
    "\<And>v. unat (d_nextVarIdx k0) \<le> unat v \<Longrightarrow> unat v < unat (d_nextVarIdx k) \<Longrightarrow>
       current_user_level k0 < level_intro (info_of k v)"
    by (rule aboveE [OF ab]) (rule that; (assumption | blast))
  have "above k0 k'"
  proof (rule aboveI [where E = E and rest = "rest @ [v]"])
    show "same_info (info_of k' w) (info_of k0 w)" if "unat w < unat (d_nextVarIdx k0)" for w
      using a(8) [OF that] vs(4) [of w] that a(1) by simp
    show "unat (d_nextVarIdx k0) \<le> unat w \<and> unat w < unat (d_nextVarIdx k')" if "w \<in> set (rest @ [v])" for w
      using that a(10) [of w] a(1) new(1) vs(1) by auto
    show "w \<in> set (rest @ [v])" if "w \<in> cad_vars k'" "unat (d_nextVarIdx k0) \<le> unat w" for w
      using that vs(3) a(11) [of w] by auto
    show "current_user_level k0 < level_intro (info_of k' w)"
      if "unat (d_nextVarIdx k0) \<le> unat w" "unat w < unat (d_nextVarIdx k')" for w
    proof (cases "unat w < unat (d_nextVarIdx k)")
      case True
      with a(12) [of w] vs(4) [of w] that show ?thesis
        by simp
    next
      case False
      then have "w = v"
        using that(2) vs(1) new(1) by (simp add: word_unat_eq_iff)
      then show ?thesis
        using vs(5) lev by (simp add: VarInfo_def)
    qed
  qed (use a(1-7,9) vs(1) new in simp_all)
  with one new show ?thesis
    by (simp add: one_above_def)
qed

section \<open>Levels are undone\<close>

lemma level_run_above:
  assumes "level_run k1 k" "k1 = cadical_push k0" "cadical_inv k0" "\<not> d_in_search k0" "cadical_room k0 1"
  shows "cadical_inv k \<and> one_above k0 k"
  using assms
proof (induction arbitrary: k0 rule: level_run.induct)
  case (start k)
  then show ?case
    using push_one_above by simp
next
  case (clause k k' c f)
  then have k': "cadical_inv k'" "one_above k0 k'"
    by auto
  moreover from k'(2) have "d_in_search k' = d_in_search k0"
    by (simp add: one_above_def above_def)
  moreover have "unat (d_nextVarIdx k0) < 2 ^ 31" "1 \<le> unat (d_nextVarIdx k0)"
    using clause.prems inv_infos(2) [of k0] by (simp_all add: cadical_room_def)
  ultimately show ?case
    using one_above_clause [of k' k0 c f] cadical_addClause_step [of k' c f] clause by simp
next
  case (var k k' t v k'')
  then have "cadical_inv k'" "one_above k0 k'"
    by auto
  with var show ?case
    using one_above_var [of k' k0 t v k''] newVar_inv [of k' 0 t v k''] by simp
next
  case (fixed k k' lit is_decision)
  then show ?case
    using one_above_fixed fixed_inv by blast
next
  case (level k k' k'')
  then have k': "cadical_inv k'" "one_above k0 k'"
    by auto
  then have "\<not> d_in_search k'"
    using level.prems by (simp add: one_above_def above_def)
  with level k' have "cadical_inv k''" "one_above k' k''"
    by auto
  with pop_level_with [OF k'(1)] have "cadical_inv (cadical_pop k'')" "level_with k' (cadical_pop k'')"
    by auto
  with one_above_level_with [OF k'(2)] inv_infos(2) [of k0] level.prems show ?case
    by simp
qed


section \<open>The initial state\<close>

lemma CadicalSolver_fields:
  "d_nextVarIdx (CadicalSolver p) = 3" "d_true (CadicalSolver p) = 1" "d_false (CadicalSolver p) = 2"
  "d_solver (CadicalSolver p) = [[1], [- 2]]" "d_var_info (CadicalSolver p) = replicate 3 VarInfo"
  "d_new_clauses (CadicalSolver p) = []" "d_activation_literals (CadicalSolver p) = []"
  "d_active_vars_control (CadicalSolver p) = []" "d_in_search (CadicalSolver p) = False"
proof -
  have one_two: "toCadicalVar 1 = 1" "toCadicalVar 2 = 2"
    by (simp_all add: toCadicalVar_def to_int32_small)
  have info: "VarInfo\<lparr>level_intro := 0, is_theory_atom := False\<rparr> = VarInfo"
    by (simp add: VarInfo_def)
  show "d_nextVarIdx (CadicalSolver p) = 3" "d_true (CadicalSolver p) = 1" "d_false (CadicalSolver p) = 2"
    "d_solver (CadicalSolver p) = [[1], [- 2]]" "d_var_info (CadicalSolver p) = replicate 3 VarInfo"
    "d_new_clauses (CadicalSolver p) = []" "d_activation_literals (CadicalSolver p) = []"
    "d_active_vars_control (CadicalSolver p) = []" "d_in_search (CadicalSolver p) = False"
    by (simp_all add: CadicalSolver_def cadical_initialize_def cadical_newVar_def add_new_var_def
        Let_def current_user_level_def one_two info numeral_3_eq_3)
qed

lemma CadicalSolver_vars: "cad_vars (CadicalSolver p) = {1, 2}"
proof (rule set_eqI)
  fix v :: "64 word"
  have "v \<in> {1, 2} \<longleftrightarrow> unat v = 1 \<or> unat v = 2"
    by (simp add: word_unat_eq_iff)
  moreover have "unat v = 1 \<or> unat v = 2 \<longleftrightarrow> 1 \<le> unat v \<and> unat v < 3"
    by linarith
  ultimately show "v \<in> cad_vars (CadicalSolver p) \<longleftrightarrow> v \<in> {1, 2}"
    by (auto simp: cad_vars_def info_of_def CadicalSolver_fields VarInfo_def)
qed

lemma cadical_inv_initial: "cadical_inv (CadicalSolver p)"
proof -
  have "toCadicalVar 1 = 1" "toCadicalVar 2 = 2"
    by (simp_all add: toCadicalVar_def to_int32_small)
  moreover have "info_of (CadicalSolver p) 1 = VarInfo" "info_of (CadicalSolver p) 2 = VarInfo"
    by (simp_all add: info_of_def CadicalSolver_fields)
  ultimately show ?thesis
    unfolding cadical_inv_def CadicalSolver_vars CadicalSolver_fields
    by (simp add: all_clauses_def CadicalSolver_fields current_user_level_def VarInfo_def)
qed

lemma CadicalSolver_models: "cadical_models (CadicalSolver p) = {\<sigma>. \<sigma> 1 \<and> \<not> \<sigma> 2}"
proof -
  have "cad_holds (CadicalSolver p) \<tau> \<longleftrightarrow> \<tau> 1 \<and> \<not> \<tau> 2" for \<tau>
    by (simp add: cad_holds_def all_clauses_def CadicalSolver_fields cad_clause_true_def clause_true_def
        toSatLiteral_def lit_true_mk)
  then show ?thesis
    by (auto simp: cadical_models_def CadicalSolver_vars)
qed


end
