(* ===== verification/Cnf_Solver.thy ===== *)
theory Cnf_Solver
  imports Cnf_Assert Cnf_Back Cadical_Levels Type_Soundness
begin

text \<open>
  The conversion to clauses together with the solver model: the statements of the clause
  generator for \<open>cadical_sink\<close>, and what they give for formulas over terms, whose atoms have the
  truth values of a model.
\<close>

abbreviation cnf_ok :: "cadical cnf_stream \<Rightarrow> bool" where
  "cnf_ok st \<equiv> cnf_inv cadical_models cad_vars cadical_inv st"

text \<open>Asserting formulas one after the other.\<close>

fun assertFormulas :: "cadical cnf_env \<Rightarrow> node list \<Rightarrow> cadical cnf_stream \<Rightarrow> cadical cnf_stream option" where
  "assertFormulas e [] st = Some st"
| "assertFormulas e (n # ns) st = do { st \<leftarrow> convertAndAssert e n False False st; assertFormulas e ns st }"

fun no_double_negation :: "node \<Rightarrow> bool" where
  "no_double_negation (mkNode k ns) =
     (is_connective (mkNode k ns) \<longrightarrow>
        (k = K_NOT \<longrightarrow> \<not> isKind K_NOT (ns ! 0)) \<and> list_all no_double_negation ns)"
| "no_double_negation n = True"

section \<open>Formulas over terms\<close>

lemma connective_children:
  assumes "isBoolean (mkNode k ns)" "is_connective (mkNode k ns)"
  shows "kind_arity k (length ns)" "\<And>c. c \<in> set ns \<Longrightarrow> isBoolean c"
proof -
  obtain ts where ts: "those (map getType ns) = Some ts" "kind_arity k (length ts)" "kind_type k ts = Some BOOLEAN_TYPE"
    using assms(1) by (auto simp: isBoolean_def split: option.splits if_splits)
  then have all2: "list_all2 (\<lambda>n t. getType n = Some t) ns ts"
    by (simp add: those_Some list_all2_map1)
  then have len: "length ts = length ns"
    by (simp add: list_all2_lengthD)
  with ts(2) show "kind_arity k (length ns)"
    by simp
  have "\<forall>t\<in>set ts. t = BOOLEAN_TYPE"
  proof -
    consider "k \<in> {K_NOT, K_AND, K_OR, K_XOR, K_IMPLIES}" | "k = K_ITE" | "k = K_EQUAL" "isBoolean (ns ! 0)"
      using assms(2) by (auto simp: is_connective_def is_iff_def)
    then show ?thesis
    proof cases
      case 1
      with ts(3) show ?thesis
        by (auto simp: kind_type_def BooleanTypeRule_def list_all_iff split: if_splits)
    next
      case 2
      with ts(2) obtain a b c where abc: "ts = [a, b, c]"
        by (auto simp: kind_arity_def numeral_3_eq_3 length_Suc_conv)
      with 2 ts(3) show ?thesis
        by (auto simp: kind_type_def IteTypeRule_def split: if_splits)
    next
      case 3
      with ts(2) obtain a b where ab: "ts = [a, b]"
        by (auto simp: kind_arity_def numeral_2_eq_2 length_Suc_conv)
      then have "getType (ns ! 0) = Some a"
        using all2 by (auto simp: list_all2_Cons2)
      with 3 ab ts(3) show ?thesis
        by (auto simp: kind_type_def EqualityTypeRule_def isBoolean_def split: if_splits)
    qed
  qed
  with all2 show "isBoolean c" if "c \<in> set ns" for c
    using that by (force simp: isBoolean_def list_all2_conv_all_nth in_set_conv_nth)
qed

lemma typed_formula: "isBoolean n \<Longrightarrow> no_double_negation n \<Longrightarrow> formula n"
proof (induction n)
  case (mkNode k ns)
  show ?case
  proof (cases "is_connective (mkNode k ns)")
    case True
    note kids = connective_children [OF mkNode.prems(1) True]
    have "formula c" if "c \<in> set ns" for c
      using that mkNode.prems(2) True kids by (intro mkNode.IH) (auto simp: list_all_iff)
    with True mkNode.prems(2) kids(1) show ?thesis
      by (simp add: list_all_iff)
  qed simp
qed simp_all

lemma beval_truth:
  assumes "gmp_documented G"
  shows "isBoolean n \<Longrightarrow> firstClass n \<Longrightarrow> beval (truth G m) n = truth G m n"
proof (induction n)
  case (mkNode k ns)
  show ?case
  proof (cases "is_connective (mkNode k ns)")
    case True
    note kids = connective_children [OF mkNode.prems(1) True]
    have fc: "firstClass c" if "c \<in> set ns" for c
      using that mkNode.prems(2) by (simp add: list_all_iff)
    have IH: "map (beval (truth G m)) ns = map (truth G m) ns"
      by (rule map_cong [OF refl mkNode.IH]) (simp_all add: kids(2) fc)
    have boolish: "boolish G m c" if "c \<in> set ns" for c
      using gmp_documented.isBoolean_boolish [OF assms kids(2) [OF that] fc [OF that]] .
    consider "k = K_AND \<or> k = K_OR" "ns \<noteq> []" | a b where "ns = [a, b]" "k = K_XOR \<or> k = K_EQUAL \<or> k = K_IMPLIES"
      | c a b where "ns = [c, a, b]" "k = K_ITE" | a where "ns = [a]" "k = K_NOT"
      using True kids(1) by (cases "ns = []") (auto simp: is_connective_def is_iff_def kind_arity_def numeral_2_eq_2
          numeral_3_eq_3 length_Suc_conv)
    then have "connective_value k (map (truth G m) ns) = truth G m (mkNode k ns)"
    proof cases
      case 1
      then show ?thesis
        by (elim disjE) (simp_all add: connective_value_def truth_AND truth_OR list_all_iff list_ex_iff)
    next
      case (2 a b)
      have "boolish G m a"
        using boolish 2(1) by simp
      with 2 show ?thesis
        by (elim disjE) (simp_all add: connective_value_def)
    next
      case (3 c a b)
      then show ?thesis
        by (simp add: connective_value_def)
    next
      case (4 a)
      then show ?thesis
        by (simp add: connective_value_def)
    qed
    with True IH show ?thesis
      by (simp only: beval.simps if_True)
  qed simp
qed simp_all

section \<open>Sequences of assertions\<close>

lemma assertFormulas_spec:
  assumes "satSolver e = cadical_sink" "\<forall>n\<in>set ns. formula n" "cnf_ok st"
    "cadical_room (d_satSolver st) (sum_list (map tree_size ns))"
  shows "\<exists>st'. assertFormulas e ns st = Some st' \<and> cnf_ok st' \<and>
    cnf_models cadical_models st' = {v \<in> cnf_models cadical_models st. \<forall>n\<in>set ns. beval v n}"
  using assms(2-)
proof (induction ns arbitrary: st)
  case (Cons n ns)
  have n: "formula n" "cadical_room (d_satSolver st) (tree_size n + sum_list (map tree_size ns))"
    using Cons.prems by simp_all
  obtain st1 where 1: "convertAndAssert e n False False st = Some st1" "cnf_ok st1"
    "cnf_models cadical_models st1 = {v \<in> cnf_models cadical_models st. beval v n \<noteq> False}"
    "cadical_room (d_satSolver st1) (sum_list (map tree_size ns))"
    by (rule cadical.convertAndAssert_spec [OF assms(1) n(1) Cons.prems(2) n(2)])
  with Cons.IH [of st1] Cons.prems(1) show ?case
    by auto
qed simp

lemma initial_ok:
  "cnf_ok (CnfStream (CadicalSolver p))" "cnf_models cadical_models (CnfStream (CadicalSolver p)) = UNIV"
proof -
  have "(\<lambda>v. v = 1) \<in> cadical_models (CadicalSolver p)"
    by (simp add: CadicalSolver_models)
  then have "cadical_models (CadicalSolver p) \<noteq> {}"
    by blast
  then show "cnf_ok (CnfStream (CadicalSolver p))" "cnf_models cadical_models (CnfStream (CadicalSolver p)) = UNIV"
    using cadical.ok_initial [OF cadical_inv_initial] by simp_all
qed

lemma initial_room:
  "n + 3 \<le> 2 ^ 31 \<Longrightarrow> cadical_room (d_satSolver (CnfStream (CadicalSolver p))) n"
  by (simp add: CnfStream_def cadical_room_def CadicalSolver_fields)

section \<open>Properties\<close>

text \<open>An environment and formulas over three Boolean variables, for the examples.\<close>

definition example_env :: "cadical cnf_env" where
  "example_env = \<lparr>satSolver = cadical_sink, d_flitPolicy = INTERNAL, isBooleanTermSkolem = (\<lambda>n. False),
     theoryOf_BOOL = (\<lambda>n. True)\<rparr>"

abbreviation example_var :: "nat \<Rightarrow> node" where
  "example_var i \<equiv> VARIABLE i BOOLEAN_TYPE"

definition example_ite :: node where
  "example_ite = mkNode K_ITE [mkNode K_XOR [example_var 0, example_var 1], notNode (example_var 2), example_var 0]"

lemma example_formula: "formula example_ite" "tree_size example_ite = 7"
  by (simp_all add: example_ite_def notNode_def is_connective_def kind_arity_def)

lemma example_sink: "satSolver example_env = cadical_sink"
  by (simp add: example_env_def)

lemma example_room: "cadical_room (d_satSolver (CnfStream (CadicalSolver p))) 7"
  by (rule initial_room) simp





text \<open>
  C11.  Equisatisfiability: after the assertion of a list of formulas to a new solver, the clauses
  are satisfiable exactly when some valuation of the atoms makes all formulas true.
\<close>

theorem assertFormulas_equisat:
  assumes "satSolver e = cadical_sink" "\<forall>n\<in>set ns. formula n" "sum_list (map tree_size ns) + 3 \<le> 2 ^ 31"
  shows "\<exists>st'. assertFormulas e ns (CnfStream (CadicalSolver p)) = Some st' \<and>
    (cadical_models (d_satSolver st') \<noteq> {} \<longleftrightarrow> (\<exists>v. \<forall>n\<in>set ns. beval v n))"
proof -
  obtain st' where "assertFormulas e ns (CnfStream (CadicalSolver p)) = Some st'" "cnf_ok st'"
    "cnf_models cadical_models st' = {v. \<forall>n\<in>set ns. beval v n}"
    using assertFormulas_spec [OF assms(1,2) initial_ok(1) [of p] initial_room [OF assms(3)]] by (auto simp: initial_ok(2))
  then show ?thesis
    using cadical.satisfiable_iff by auto
qed

theorem assertFormulas_equisat_witness:
  "\<exists>st'. assertFormulas example_env [example_ite, example_var 2, notNode (example_var 0)] (CnfStream (CadicalSolver False)) = Some st' \<and>
    cadical_models (d_satSolver st') = {}"
proof -
  have "\<exists>st'. assertFormulas example_env [example_ite, example_var 2, notNode (example_var 0)] (CnfStream (CadicalSolver False)) = Some st' \<and>
    (cadical_models (d_satSolver st') \<noteq> {} \<longleftrightarrow>
      (\<exists>v. \<forall>n\<in>set [example_ite, example_var 2, notNode (example_var 0)]. beval v n))"
    by (rule assertFormulas_equisat [OF example_sink])
      (simp_all add: example_formula, simp add: notNode_def is_connective_def kind_arity_def, simp add: notNode_def)
  moreover have "\<not> (\<exists>v. \<forall>n\<in>set [example_ite, example_var 2, notNode (example_var 0)]. beval v n)"
    by (auto simp: example_ite_def is_connective_def connective_value_def numeral_2_eq_2 split: if_splits)
  ultimately show ?thesis
    by blast
qed

text \<open>
  C3.  An unsatisfiable answer is right: when well-typed formulas over terms have been asserted and
  no assignment satisfies the clauses, no model of the terms makes all the formulas true.
\<close>

theorem unsat_sound:
  assumes "gmp_documented G" "satSolver e = cadical_sink" "sum_list (map tree_size ns) + 3 \<le> 2 ^ 31"
    "\<forall>n\<in>set ns. isBoolean n \<and> firstClass n \<and> no_double_negation n"
  shows "\<exists>st'. assertFormulas e ns (CnfStream (CadicalSolver p)) = Some st' \<and>
    (cadical_models (d_satSolver st') = {} \<longrightarrow> \<not> (\<exists>m. \<forall>n\<in>set ns. truth G m n))"
proof -
  have ns: "\<forall>n\<in>set ns. formula n"
    using assms(4) typed_formula by blast
  obtain st' where st': "assertFormulas e ns (CnfStream (CadicalSolver p)) = Some st'" "cnf_ok st'"
    "cnf_models cadical_models st' = {v. \<forall>n\<in>set ns. beval v n}"
    using assertFormulas_spec [OF assms(2) ns initial_ok(1) [of p] initial_room [OF assms(3)]] by (auto simp: initial_ok(2))
  have "truth G m \<in> cnf_models cadical_models st'" if "\<forall>n\<in>set ns. truth G m n" for m
    using that assms(4) beval_truth [OF assms(1)] by (simp add: st'(3))
  then show ?thesis
    using st'(1) cadical.satisfiable_iff [OF st'(2)] by blast
qed

theorem unsat_sound_witness:
  "\<exists>st'. assertFormulas example_env
      [mkNode K_EQUAL [mkNode K_BITVECTOR_ULT [VARIABLE 0 (BITVECTOR_TYPE 4), VARIABLE 1 (BITVECTOR_TYPE 4)], example_var 2]]
      (CnfStream (CadicalSolver True)) = Some st' \<and>
    (cadical_models (d_satSolver st') = {} \<longrightarrow> \<not> (\<exists>m. \<forall>n\<in>set
      [mkNode K_EQUAL [mkNode K_BITVECTOR_ULT [VARIABLE 0 (BITVECTOR_TYPE 4), VARIABLE 1 (BITVECTOR_TYPE 4)], example_var 2]].
        truth gmp_reference m n))"
  by (rule unsat_sound [OF gmp_ref.gmp_documented_axioms example_sink])
    (simp_all add: isBoolean_def kind_arity_def kind_type_def EqualityTypeRule_def
      BitVectorPredicateTypeRule_def kind_range_def is_connective_def is_iff_def)

text \<open>
  C25.  From literals back to formulas: in every reachable state of a stream, whatever the solver and
  the policy for the literals of formulas, the node that \<^verbatim>\<open>getNode\<close> returns for a literal has the
  value of the literal under every assignment that agrees with the map from nodes to literals.
\<close>

theorem getNode_value:
  assumes "cnf_reachable e st" "getNode st l = Some n" "agrees \<sigma> v st"
  shows "beval v n = lit_true \<sigma> l"
  using reachable_back_ok [OF assms(1)] assms(2,3)
  by (fastforce simp: back_ok_def getNode_def agrees_def)

definition track_env :: "cadical cnf_env" where
  "track_env = \<lparr>satSolver = cadical_sink, d_flitPolicy = TRACK_AND_NOTIFY_VAR, isBooleanTermSkolem = (\<lambda>n. False),
     theoryOf_BOOL = (\<lambda>n. True)\<rparr>"

theorem getNode_value_witness:
  "\<exists>st. ensureLiteral track_env (example_var 0) (CnfStream (CadicalSolver False)) = Some st \<and>
    getNode st (mkSatLiteral 3 False) = Some (example_var 0) \<and>
    (\<forall>\<sigma> v. agrees \<sigma> v st \<longrightarrow> beval v (example_var 0) = lit_true \<sigma> (mkSatLiteral 3 False))"
proof -
  let ?x = "example_var 0" and ?st = "CnfStream (CadicalSolver False)"
  define st where "st = snd (convertAtom track_env ?x ?st)"
  have ens: "ensureLiteral track_env ?x ?st = Some st"
    by (simp add: ensureLiteral_def st_def hasLiteral_def CnfStream_def isBoolean_def)
  have "getNode st (mkSatLiteral 3 False) = Some ?x"
    by (simp add: st_def convertAtom_def newLiteral_def freshLiteral_def CnfStream_def track_env_def getNode_def
        map_literal_def map_insert_def cadical_sink_def cadical_newVar_def add_new_var_def CadicalSolver_fields Let_def)
  moreover have "cnf_reachable track_env st"
    by (rule cnf_reachable.ensure [OF cnf_reachable.new ens])
  ultimately show ?thesis
    using ens getNode_value [of track_env st] by blast
qed

end
