(* ===== verification/Cadical_Trail.thy ===== *)
theory Cadical_Trail
  imports Cadical_Levels
begin

text \<open>
  The assignment trail of the propagator.  \<^verbatim>\<open>d_assignments\<close> lists the assigned literals in the order of
  the notifications, \<^verbatim>\<open>d_assignment_control\<close> its length at each decision, and the member
  \<^verbatim>\<open>assignment\<close> of the variables repeats what it says.  The notifications of the library keep the
  two in step, backtracking undoes all but the fixed assignments, and \<^verbatim>\<open>value\<close> reads the trail.
\<close>

definition trail_ok :: "cadical \<Rightarrow> bool" where
  "trail_ok k \<longleftrightarrow>
     distinct (map getSatVariable (d_assignments k)) \<and>
     (\<forall>l\<in>set (d_assignments k). unat (getSatVariable l) < length (d_var_info k) \<and>
        info_assignment (info_of k (getSatVariable l)) \<noteq> 0 \<and>
        toSatLiteral (info_assignment (info_of k (getSatVariable l))) = l) \<and>
     (\<forall>v. unat v < length (d_var_info k) \<and> is_active (info_of k v) \<and> info_assignment (info_of k v) \<noteq> 0 \<longrightarrow>
        v \<in> getSatVariable ` set (d_assignments k)) \<and>
     length (d_assignment_control k) = length (d_decisions k) \<and> sorted (d_assignment_control k) \<and>
     (\<forall>n\<in>set (d_assignment_control k). n \<le> length (d_assignments k))"

text \<open>
  What the library notifies: literals of observed variables, a decision only above level zero.
\<close>

definition observed :: "(CadicalLit \<Rightarrow> bool) \<Rightarrow> cadical \<Rightarrow> CadicalLit \<Rightarrow> bool" where
  "observed is_decision k lit \<longleftrightarrow> lit \<noteq> 0 \<and> nat \<bar>lit\<bar> < 2 ^ 31 \<and> nat \<bar>lit\<bar> < length (d_var_info k) \<and>
     (is_decision lit \<longrightarrow> d_decisions k \<noteq> [])"

inductive notification :: "cadical \<Rightarrow> cadical \<Rightarrow> bool" where
  assignment: "\<forall>lit\<in>set lits. observed is_decision k lit \<Longrightarrow> notification k (notify_assignment is_decision lits k)"
| fixed: "observed is_decision k lit \<Longrightarrow> notification k (notify_fixed_assignment is_decision lit k)"
| decision: "notification k (notify_new_decision_level k)"
| backtrack: "notification k (notify_backtrack level k)"

section \<open>Assignments\<close>

lemma observed_var:
  assumes "observed d k lit"
  shows "unat (getSatVariable (toSatLiteral lit)) < length (d_var_info k)"
  using assms getSatVariable_toSatLiteral(2) [of lit] by (simp add: observed_def)

lemma notify_assignment1_fields:
  "length (d_var_info (notify_assignment1 d lit k)) = length (d_var_info k)"
  "d_assignment_control (notify_assignment1 d lit k) = d_assignment_control k"
  "d_assignments (notify_assignment1 d lit k) =
     (let v = getSatVariable (toSatLiteral lit)
      in if is_active (info_of k v) \<and> info_assignment (info_of k v) = 0
         then d_assignments k @ [toSatLiteral lit] else d_assignments k)"
  by (simp_all add: notify_assignment1_def Let_def update_info_def)

lemma notify_assignment1_decisions:
  "(d lit \<Longrightarrow> d_decisions k \<noteq> []) \<Longrightarrow> length (d_decisions (notify_assignment1 d lit k)) = length (d_decisions k)"
  by (auto simp: notify_assignment1_def Let_def update_info_def Suc_diff_Suc)

lemma notify_assignment1_ok:
  assumes k: "trail_ok k" and lit: "observed d k lit"
  shows "trail_ok (notify_assignment1 d lit k)"
proof -
  let ?k = "notify_assignment1 d lit k" and ?v = "getSatVariable (toSatLiteral lit)"
  have dec: "length (d_decisions ?k) = length (d_decisions k)"
    using lit by (intro notify_assignment1_decisions) (simp add: observed_def)
  show ?thesis
  proof (cases "is_active (info_of k ?v) \<and> info_assignment (info_of k ?v) = 0")
    case False
    then have "info_of ?k = info_of k" "d_assignments ?k = d_assignments k"
      by (auto simp: fun_eq_iff notify_assignment1_info notify_assignment1_fields Let_def)
    with k dec show ?thesis
      by (simp add: trail_ok_def notify_assignment1_fields)
  next
    case True
    note v = observed_var [OF lit]
    have info: "info_of ?k w = (if w = ?v then (info_of k ?v)\<lparr>info_assignment := lit\<rparr> else info_of k w)" for w
      using True v by (simp add: notify_assignment1_info)
    have asg: "d_assignments ?k = d_assignments k @ [toSatLiteral lit]"
      using True by (simp add: notify_assignment1_fields)
    have "\<forall>l\<in>set (d_assignments k). getSatVariable l \<noteq> ?v"
      using k True by (auto simp: trail_ok_def)
    with k dec v lit show ?thesis
      unfolding trail_ok_def asg info notify_assignment1_fields(1,2)
      by (auto simp: observed_def)
  qed
qed

lemma observed_step:
  "observed d k lit \<Longrightarrow> (d lit' \<Longrightarrow> d_decisions k \<noteq> []) \<Longrightarrow> observed d (notify_assignment1 d lit' k) lit"
  using notify_assignment1_decisions [of d lit' k]
  by (auto simp: observed_def notify_assignment1_fields(1))

lemma notify_assignment_ok:
  assumes "trail_ok k" "\<forall>lit\<in>set lits. observed d k lit"
  shows "trail_ok (notify_assignment d lits k)"
proof -
  have "trail_ok (fold (notify_assignment1 d) lits k)"
    using assms
  proof (induction lits arbitrary: k)
    case (Cons lit lits)
    have "d lit \<Longrightarrow> d_decisions k \<noteq> []"
      using Cons.prems by (simp add: observed_def)
    then have "\<forall>l\<in>set lits. observed d (notify_assignment1 d lit k) l"
      using Cons.prems(2) observed_step [of d k _ lit] by simp
    with Cons notify_assignment1_ok show ?case
      by simp
  qed simp
  with assms(1) show ?thesis
    by (simp add: notify_assignment_def)
qed

lemma notify_fixed_ok:
  assumes k: "trail_ok k" and lit: "observed d k lit"
  shows "trail_ok (notify_fixed_assignment d lit k)"
proof -
  let ?v = "getSatVariable (toSatLiteral lit)"
  let ?k = "update_info ?v (\<lambda>i. i\<lparr>is_fixed := True, level_fixed := current_user_level k\<rparr>) k"
  have fields: "d_assignments ?k = d_assignments k" "d_assignment_control ?k = d_assignment_control k"
    "d_decisions ?k = d_decisions k"
    by (simp_all add: update_info_def)
  have info: "info_assignment (info_of ?k w) = info_assignment (info_of k w)" "is_active (info_of ?k w) = is_active (info_of k w)" for w
    by (simp_all add: info_of_update_info)
  have "trail_ok ?k" "observed d ?k lit"
    using k lit by (simp_all add: trail_ok_def observed_def fields info)
  then show ?thesis
    using notify_assignment_ok [of ?k "[lit]" d] k by (simp add: notify_fixed_assignment_def Let_def)
qed

lemma notify_new_decision_level_ok: "trail_ok k \<Longrightarrow> trail_ok (notify_new_decision_level k)"
  by (auto simp: trail_ok_def notify_new_decision_level_def info_of_def sorted_append)

section \<open>Backtracking\<close>

lemma unassign_fields [simp]:
  "length (d_var_info (unassign lit k)) = length (d_var_info k)" "d_assignments (unassign lit k) = d_assignments k"
  "d_assignment_control (unassign lit k) = d_assignment_control k" "d_decisions (unassign lit k) = d_decisions k"
  by (simp_all add: unassign_def update_info_def)

lemma fold_unassign_fields [simp]:
  "length (d_var_info (fold unassign ls k)) = length (d_var_info k)"
  "d_assignments (fold unassign ls k) = d_assignments k"
  "d_assignment_control (fold unassign ls k) = d_assignment_control k" "d_decisions (fold unassign ls k) = d_decisions k"
  by (induction ls arbitrary: k) simp_all

lemma fold_unassign_info:
  assumes "\<forall>l\<in>set ls. unat (getSatVariable l) < length (d_var_info k)"
  shows "info_of (fold unassign ls k) w =
    (if w \<in> getSatVariable ` set ls \<and> \<not> is_fixed (info_of k w)
     then (info_of k w)\<lparr>info_assignment := 0\<rparr> else info_of k w)"
  using assms
proof (induction ls arbitrary: k)
  case (Cons l ls)
  have "info_of (unassign l k) w = (if w = getSatVariable l \<and> \<not> is_fixed (info_of k w)
      then (info_of k w)\<lparr>info_assignment := 0\<rparr> else info_of k w)" for w
    using Cons.prems by (auto simp: unassign_def info_of_update_info)
  with Cons.IH [of "unassign l k"] Cons.prems show ?case
    by auto
qed simp

lemma notify_backtrack_parts:
  fixes level k
  defines "k' \<equiv> notify_backtrack level k" and "undone \<equiv> drop (d_assignment_control k ! level) (d_assignments k)"
  assumes "level < length (d_decisions k)"
  shows "d_assignments k' = take (d_assignment_control k ! level) (d_assignments k) @
      filter (\<lambda>l. is_fixed (info_of k (getSatVariable l))) undone"
    "d_decisions k' = take level (d_decisions k)" "d_assignment_control k' = take level (d_assignment_control k)"
    "info_of k' = info_of (fold unassign undone k)" "length (d_var_info k') = length (d_var_info k)"
    "d_propagations k' = []" "\<not> d_found_solution k'"
proof -
  let ?k = "k\<lparr>d_found_solution := False, d_decisions := take level (d_decisions k),
     d_assignment_control := take level (d_assignment_control k),
     d_assignments := take (d_assignment_control k ! level) (d_assignments k) @
       filter (\<lambda>l. is_fixed (info_of k (getSatVariable l))) undone\<rparr>"
  let ?re = "filter (\<lambda>l. is_theory_atom (info_of k (getSatVariable l)))
     (filter (\<lambda>l. is_fixed (info_of k (getSatVariable l))) undone)"
  have "\<not> length (d_decisions k) \<le> level"
    using assms(3) by simp
  then have k': "k' = (fold unassign undone ?k)\<lparr>d_proxy := d_proxy (fold unassign undone ?k) @
      notifyBacktrack # map enqueueTheoryLiteral ?re, d_propagations := []\<rparr>"
    unfolding k'_def notify_backtrack_def Let_def undone_def by (rule if_not_P)
  have infos: "d_var_info (fold unassign ls k1) = d_var_info (fold unassign ls k2)"
    if "d_var_info k1 = d_var_info k2" for ls k1 k2
    using that
  proof (induction ls arbitrary: k1 k2)
    case (Cons l ls)
    from Cons.prems have "d_var_info (unassign l k1) = d_var_info (unassign l k2)"
      by (simp add: unassign_def update_info_def info_of_def)
    from Cons.IH [OF this] show ?case
      by simp
  qed simp
  have "d_found_solution (fold unassign ls k1) = d_found_solution k1" for ls k1
    by (induction ls arbitrary: k1) (simp_all add: unassign_def)
  with k' infos [of ?k k undone] show "d_assignments k' = take (d_assignment_control k ! level) (d_assignments k) @
      filter (\<lambda>l. is_fixed (info_of k (getSatVariable l))) undone"
    "d_decisions k' = take level (d_decisions k)" "d_assignment_control k' = take level (d_assignment_control k)"
    "info_of k' = info_of (fold unassign undone k)" "length (d_var_info k') = length (d_var_info k)"
    "d_propagations k' = []" "\<not> d_found_solution k'"
    by (auto simp: info_of_def fun_eq_iff)
qed

lemma notify_backtrack_ok:
  assumes k: "trail_ok k"
  shows "trail_ok (notify_backtrack level k)"
proof (cases "level < length (d_decisions k)")
  case False
  with k show ?thesis
    by (simp add: notify_backtrack_def)
next
  case True
  let ?k = "notify_backtrack level k" and ?p = "d_assignment_control k ! level"
  let ?undone = "drop ?p (d_assignments k)" and ?low = "take ?p (d_assignments k)"
  let ?fix = "\<lambda>l. is_fixed (info_of k (getSatVariable l))"
  note parts = notify_backtrack_parts [OF True]
  have trail: "distinct (map getSatVariable (d_assignments k))"
    and on: "\<And>l. l \<in> set (d_assignments k) \<Longrightarrow> unat (getSatVariable l) < length (d_var_info k) \<and>
        info_assignment (info_of k (getSatVariable l)) \<noteq> 0 \<and>
        toSatLiteral (info_assignment (info_of k (getSatVariable l))) = l"
    and all: "\<And>v. unat v < length (d_var_info k) \<Longrightarrow> is_active (info_of k v) \<Longrightarrow>
        info_assignment (info_of k v) \<noteq> 0 \<Longrightarrow> v \<in> getSatVariable ` set (d_assignments k)"
    and ctl: "length (d_assignment_control k) = length (d_decisions k)" "sorted (d_assignment_control k)"
      "\<And>n. n \<in> set (d_assignment_control k) \<Longrightarrow> n \<le> length (d_assignments k)"
    using k by (auto simp: trail_ok_def)
  have app: "d_assignments k = ?low @ ?undone"
    by simp
  have split: "set (d_assignments k) = set ?low \<union> set ?undone"
    by (subst app) (rule set_append)
  have disj: "getSatVariable ` set ?low \<inter> getSatVariable ` set ?undone = {}"
    using trail by (subst (asm) app) (simp only: map_append distinct_append set_map)
  have info: "info_of ?k w = (if w \<in> getSatVariable ` set ?undone \<and> \<not> is_fixed (info_of k w)
      then (info_of k w)\<lparr>info_assignment := 0\<rparr> else info_of k w)" for w
    unfolding parts(4) by (rule fold_unassign_info) (use on split in blast)
  have parted: "distinct (map getSatVariable ?low)" "distinct (map getSatVariable ?undone)"
    using trail by (subst (asm) app, simp only: map_append distinct_append)+
  have "distinct (map getSatVariable (?low @ filter ?fix ?undone))"
    using parted disj by (auto simp: distinct_map_filter)
  moreover have "length (d_assignment_control ?k) = length (d_decisions ?k)" "sorted (d_assignment_control ?k)"
    using ctl(1,2) by (simp_all add: parts sorted_wrt_take)
  moreover have "n \<le> length (?low @ filter ?fix ?undone)" if n: "n \<in> set (take level (d_assignment_control k))" for n
  proof -
    obtain i where i: "i < level" "n = d_assignment_control k ! i"
      using n True ctl(1) by (auto simp: in_set_conv_nth)
    then have "n \<le> ?p"
      using True ctl(1,2) by (intro sorted_nth_mono [of "d_assignment_control k" i level, folded i(2)]) auto
    moreover have "?p \<le> length (d_assignments k)"
      using True ctl(1,3) by simp
    ultimately show ?thesis
      by simp
  qed
  moreover have "unat (getSatVariable l) < length (d_var_info k) \<and> info_assignment (info_of ?k (getSatVariable l)) \<noteq> 0 \<and>
      toSatLiteral (info_assignment (info_of ?k (getSatVariable l))) = l"
    if l: "l \<in> set (?low @ filter ?fix ?undone)" for l
  proof -
    have "l \<in> set (d_assignments k)" "info_of ?k (getSatVariable l) = info_of k (getSatVariable l)"
      using l disj unfolding split info by auto
    with on [of l] show ?thesis
      by simp
  qed
  moreover have "v \<in> getSatVariable ` set (?low @ filter ?fix ?undone)"
    if v: "unat v < length (d_var_info k)" "is_active (info_of ?k v)" "info_assignment (info_of ?k v) \<noteq> 0" for v
  proof -
    have "info_of ?k v = info_of k v" "v \<in> getSatVariable ` set ?undone \<Longrightarrow> is_fixed (info_of k v)"
      using v(3) by (auto simp: info split: if_splits)
    with all [of v] v split show ?thesis
      by auto
  qed
  ultimately show ?thesis
    unfolding trail_ok_def parts by (simp only: parts(3) [symmetric]) (simp add: parts)
qed

section \<open>Properties\<close>

lemma lit_eqI: "getSatVariable a = getSatVariable b \<Longrightarrow> isNegated a = isNegated b \<Longrightarrow> a = b"
  by (subst mk_get [of a, symmetric], subst mk_get [of b, symmetric]) (simp only:)

lemma trail_invariant_step: "notification k k' \<Longrightarrow> trail_ok k \<Longrightarrow> trail_ok k'"
  by (induction rule: notification.induct)
    (simp_all add: notify_assignment_ok notify_fixed_ok notify_new_decision_level_ok notify_backtrack_ok)

text \<open>
  C22.  The trail and the assignments of the variables stay in step: whatever the library notifies,
  assignments, fixed literals, decisions or backtracks, in any order, the trail lists each assigned
  variable once, with the sign that its record has, and the control stack marks positions in it.
\<close>

theorem trail_invariant:
  assumes "trail_ok k" "notification\<^sup>*\<^sup>* k k'"
  shows "trail_ok k'"
  using assms(2,1) by (induction rule: rtranclp_induct) (auto intro: trail_invariant_step)

lemma initial_trail: "trail_ok (CadicalSolver p)"
proof -
  have "d_assignments (CadicalSolver p) = []" "d_assignment_control (CadicalSolver p) = []" "d_decisions (CadicalSolver p) = []"
    by (simp_all add: CadicalSolver_def cadical_initialize_def cadical_newVar_def add_new_var_def Let_def)
  moreover have "info_assignment (info_of (CadicalSolver p) v) = 0" if "unat v < 3" for v
    using that by (simp add: info_of_def CadicalSolver_fields VarInfo_def nth_replicate)
  ultimately show ?thesis
    by (auto simp: trail_ok_def CadicalSolver_fields)
qed

definition example_trail :: cadical where
  "example_trail = notify_assignment (\<lambda>l. True) [- 2] (notify_new_decision_level (CadicalSolver False))"

lemma example_trail_reached: "notification\<^sup>*\<^sup>* (CadicalSolver False) example_trail"
proof -
  let ?k = "notify_new_decision_level (CadicalSolver False)"
  have "notification (CadicalSolver False) ?k"
    by (rule notification.decision)
  moreover have "notification ?k example_trail"
    unfolding example_trail_def
    by (rule notification.assignment) (simp add: observed_def notify_new_decision_level_def CadicalSolver_fields)
  ultimately show ?thesis
    by (meson converse_rtranclp_into_rtranclp rtranclp.rtrancl_refl)
qed

lemma example_trail_ok: "trail_ok example_trail"
  using example_trail_reached by (induction rule: rtranclp_induct) (auto intro: trail_invariant_step initial_trail)

lemma example_trail_info: "length (d_var_info example_trail) = 3" "is_active (info_of example_trail 2)"
proof -
  let ?k = "notify_new_decision_level (CadicalSolver False)"
  have k: "d_var_info ?k = replicate 3 VarInfo"
    by (simp add: notify_new_decision_level_def CadicalSolver_fields)
  have "\<not> d_found_solution ?k"
    by (simp add: notify_new_decision_level_def CadicalSolver_def cadical_initialize_def
        cadical_newVar_def add_new_var_def Let_def)
  then have e: "example_trail = notify_assignment1 (\<lambda>l. True) (- 2) ?k"
    by (simp add: example_trail_def notify_assignment_def)
  note f = notify_assignment1_frame [of ?k "\<lambda>l. True" "- 2", folded e]
  show "length (d_var_info example_trail) = 3"
    using f k by (simp add: assign_frame_def)
  have "is_active (info_of ?k 2)"
    by (simp add: info_of_def k VarInfo_def)
  with f show "is_active (info_of example_trail 2)"
    by (simp add: assign_frame_def same_info_def)
qed

theorem trail_invariant_witness: "trail_ok example_trail"
  by (rule trail_invariant [OF initial_trail example_trail_reached])

text \<open>
  C34.  \<^verbatim>\<open>value\<close> reads the trail: for a variable in use a literal is true exactly when it is on the
  trail, false exactly when its negation is, and unknown otherwise.
\<close>

theorem value_reads_trail:
  assumes "trail_ok k" "unat (getSatVariable l) < length (d_var_info k)" "is_active (info_of k (getSatVariable l))"
  shows "propagator_value k l =
    (if l \<in> set (d_assignments k) then SAT_VALUE_TRUE
     else if neg_lit l \<in> set (d_assignments k) then SAT_VALUE_FALSE else SAT_VALUE_UNKNOWN)"
proof -
  let ?v = "getSatVariable l" and ?a = "info_assignment (info_of k (getSatVariable l))"
  have on: "toSatLiteral ?a = l'" "?a \<noteq> 0" if "l' \<in> set (d_assignments k)" "getSatVariable l' = ?v" for l'
    using assms(1) that by (auto simp: trail_ok_def)
  show ?thesis
  proof (cases "?a = 0")
    case True
    then have "l \<notin> set (d_assignments k)" "neg_lit l \<notin> set (d_assignments k)"
      using on(2) [of l] on(2) [of "neg_lit l"] by auto
    with True show ?thesis
      by (simp add: propagator_value_def)
  next
    case False
    then obtain l' where l': "l' \<in> set (d_assignments k)" "getSatVariable l' = ?v"
      using assms by (auto simp: trail_ok_def)
    have sgn: "isNegated l' \<longleftrightarrow> ?a < 0"
      using on(1) [OF l'] by (auto simp: toSatLiteral_def)
    have mem: "m \<in> set (d_assignments k) \<longleftrightarrow> isNegated m = isNegated l'" if "getSatVariable m = ?v" for m
    proof
      assume "m \<in> set (d_assignments k)"
      then have "m = l'"
        using on(1) [of m] on(1) [OF l'] that by (simp only:)
      then show "isNegated m = isNegated l'"
        by (simp only:)
    next
      assume "isNegated m = isNegated l'"
      then have "m = l'"
        using that l'(2) by (intro lit_eqI) (simp_all only:)
      then show "m \<in> set (d_assignments k)"
        using l'(1) by (simp only:)
    qed
    have "l \<in> set (d_assignments k) \<longleftrightarrow> isNegated l = isNegated l'"
      by (rule mem) (rule refl)
    moreover have "neg_lit l \<in> set (d_assignments k) \<longleftrightarrow> isNegated l \<noteq> isNegated l'"
      using mem [of "neg_lit l"] by auto
    ultimately show ?thesis
      using False sgn by (auto simp: propagator_value_def toSatValueLit_def)
  qed
qed

theorem value_reads_trail_witness:
  "propagator_value example_trail (mkSatLiteral 2 True) =
    (if mkSatLiteral 2 True \<in> set (d_assignments example_trail) then SAT_VALUE_TRUE
     else if neg_lit (mkSatLiteral 2 True) \<in> set (d_assignments example_trail) then SAT_VALUE_FALSE else SAT_VALUE_UNKNOWN)"
proof (rule value_reads_trail [OF example_trail_ok])
  have v: "getSatVariable (mkSatLiteral 2 True) = 2"
    by (simp add: getSatVariable_mk)
  show "unat (getSatVariable (mkSatLiteral 2 True)) < length (d_var_info example_trail)"
    "is_active (info_of example_trail (getSatVariable (mkSatLiteral 2 True)))"
    unfolding v by (simp_all add: example_trail_info)
qed

text \<open>
  C33.  Backtracking: below a decision level that exists, the literals of a variable keep their value
  when the variable is fixed or was assigned before the level was opened, and become unknown
  otherwise; pending propagations are dropped.
\<close>

theorem backtrack_values:
  assumes "trail_ok k" "level < length (d_decisions k)" "unat (getSatVariable l) < length (d_var_info k)"
    "is_active (info_of k (getSatVariable l))"
  shows "propagator_value (notify_backtrack level k) l =
    (if is_fixed (info_of k (getSatVariable l)) \<or>
        getSatVariable l \<in> getSatVariable ` set (take (d_assignment_control k ! level) (d_assignments k))
     then propagator_value k l else SAT_VALUE_UNKNOWN) \<and>
    d_propagations (notify_backtrack level k) = []"
proof -
  let ?p = "d_assignment_control k ! level" and ?v = "getSatVariable l"
  let ?undone = "drop ?p (d_assignments k)" and ?low = "take ?p (d_assignments k)"
  note parts = notify_backtrack_parts [OF assms(2)]
  have trail: "distinct (map getSatVariable (d_assignments k))"
    and on: "\<forall>l\<in>set (d_assignments k). unat (getSatVariable l) < length (d_var_info k)"
    and all: "info_assignment (info_of k ?v) \<noteq> 0 \<Longrightarrow> ?v \<in> getSatVariable ` set (d_assignments k)"
    using assms by (auto simp: trail_ok_def)
  have app: "d_assignments k = ?low @ ?undone"
    by simp
  have split: "set (d_assignments k) = set ?low \<union> set ?undone"
    by (subst app) (rule set_append)
  have disj: "getSatVariable ` set ?low \<inter> getSatVariable ` set ?undone = {}"
    using trail by (subst (asm) app) (simp only: map_append distinct_append set_map)
  have info: "info_of (notify_backtrack level k) ?v = (if ?v \<in> getSatVariable ` set ?undone \<and> \<not> is_fixed (info_of k ?v)
      then (info_of k ?v)\<lparr>info_assignment := 0\<rparr> else info_of k ?v)"
    unfolding parts(4) by (rule fold_unassign_info) (use on split in blast)
  have "info_assignment (info_of k ?v) = 0" if "?v \<notin> getSatVariable ` set ?undone" "?v \<notin> getSatVariable ` set ?low"
    using all that unfolding split by blast
  with info disj show ?thesis
    by (auto simp: propagator_value_def parts(6))
qed

theorem backtrack_values_witness:
  "propagator_value (notify_backtrack 0 (notify_new_decision_level (CadicalSolver False))) (mkSatLiteral 2 True) =
    SAT_VALUE_UNKNOWN"
proof -
  let ?k = "notify_new_decision_level (CadicalSolver False)"
  have v: "getSatVariable (mkSatLiteral 2 True) = 2"
    by (simp add: getSatVariable_mk)
  have k: "trail_ok ?k" "0 < length (d_decisions ?k)" "unat (2 :: 64 word) < length (d_var_info ?k)"
    "info_of ?k 2 = VarInfo"
    using notify_new_decision_level_ok [OF initial_trail]
    by (simp_all add: notify_new_decision_level_def CadicalSolver_fields info_of_def)
  then have "is_active (info_of ?k 2)" "propagator_value ?k (mkSatLiteral 2 True) = SAT_VALUE_UNKNOWN"
    by (simp_all add: VarInfo_def propagator_value_def v)
  with backtrack_values [of ?k 0 "mkSatLiteral 2 True"] k show ?thesis
    by (simp add: v)
qed

end
