(* ===== verification/Sentences.thy ===== *)
theory Sentences
  imports Type_Soundness
begin

text \<open>
  Well-typed formulas: what the type rules say about the children of a connective, and the truth
  of connectives with any number of children.
\<close>

definition sentence :: "node \<Rightarrow> bool" where
  "sentence n \<longleftrightarrow> isBoolean n \<and> firstClass n"

named_theorems sentence_simps

lemma getType_mkNode_iff:
  "getType (mkNode k ns) = Some T \<longleftrightarrow>
     (\<exists>ts. list_all2 (\<lambda>n t. getType n = Some t) ns ts \<and> kind_arity k (length ns) \<and>
       kind_type k ts = Some T \<and> valid_type T)"
proof -
  have types: "list_all2 (\<lambda>n t. getType n = Some t) ns ts \<longleftrightarrow> those (map getType ns) = Some ts" for ts
    by (simp add: those_Some list_all2_map1)
  have "length ts = length ns" if "those (map getType ns) = Some ts" for ts
    using that by (auto simp: those_Some dest: list_all2_lengthD)
  then show ?thesis
    unfolding types by (cases "those (map getType ns)") (auto split: option.splits if_splits)
qed

lemma getType_valid: "getType n = Some T \<Longrightarrow> valid_type T"
  by (cases n) (auto simp: BitVectorConstantTypeRule_def bv_inv_def split: if_splits option.splits)

lemma sentence_const [sentence_simps, simp]: "sentence (CONST_BOOLEAN b)"
  by (simp add: sentence_def isBoolean_def)

lemma list_all2_const:
  "(\<exists>ys. list_all2 P xs ys \<and> (\<forall>y\<in>set ys. y = c)) \<longleftrightarrow> (\<forall>x\<in>set xs. P x c)"
proof
  assume "\<forall>x\<in>set xs. P x c"
  then show "\<exists>ys. list_all2 P xs ys \<and> (\<forall>y\<in>set ys. y = c)"
    by (intro exI [of _ "replicate (length xs) c"]) (auto simp: list_all2_conv_all_nth)
qed (fastforce simp: list_all2_conv_all_nth in_set_conv_nth)

lemma sentence_boolean_kind:
  assumes "k \<in> {K_NOT, K_AND, K_OR, K_XOR, K_IMPLIES}"
  shows "sentence (mkNode k ns) \<longleftrightarrow> kind_arity k (length ns) \<and> list_all sentence ns"
proof -
  have "kind_type k ts = Some BOOLEAN_TYPE \<longleftrightarrow> (\<forall>t\<in>set ts. t = BOOLEAN_TYPE)" for ts
    using assms by (auto simp: kind_type_def BooleanTypeRule_def list_all_iff split: if_splits)
  then have "isBoolean (mkNode k ns) \<longleftrightarrow> kind_arity k (length ns) \<and>
      (\<exists>ts. list_all2 (\<lambda>n t. getType n = Some t) ns ts \<and> (\<forall>t\<in>set ts. t = BOOLEAN_TYPE))"
    by (auto simp: isBoolean_def getType_mkNode_iff simp del: getType.simps)
  then have "isBoolean (mkNode k ns) \<longleftrightarrow> kind_arity k (length ns) \<and> list_all isBoolean ns"
    unfolding list_all2_const by (simp add: list_all_iff isBoolean_def)
  moreover have "kind_range k = None"
    using assms by (auto simp: kind_range_def)
  ultimately show ?thesis
    by (auto simp: sentence_def list_all_iff)
qed

lemma sentence_NOT [sentence_simps]: "sentence (mkNode K_NOT ns) \<longleftrightarrow> (\<exists>a. ns = [a] \<and> sentence a)"
  by (auto simp: sentence_boolean_kind kind_arity_def length_Suc_conv)

lemma sentence_notNode [sentence_simps, simp]: "sentence (notNode n) \<longleftrightarrow> sentence n"
  by (simp add: notNode_def sentence_NOT)

lemma sentence_AND_OR [sentence_simps]:
  "sentence (mkNode K_AND ns) \<longleftrightarrow> 2 \<le> length ns \<and> (\<forall>n\<in>set ns. sentence n)"
  "sentence (mkNode K_OR ns) \<longleftrightarrow> 2 \<le> length ns \<and> (\<forall>n\<in>set ns. sentence n)"
  by (auto simp: sentence_boolean_kind kind_arity_def list_all_iff)

lemma sentence_binary [sentence_simps]:
  "sentence (mkNode K_XOR ns) \<longleftrightarrow> (\<exists>a b. ns = [a, b] \<and> sentence a \<and> sentence b)"
  "sentence (mkNode K_IMPLIES ns) \<longleftrightarrow> (\<exists>a b. ns = [a, b] \<and> sentence a \<and> sentence b)"
  by (auto simp: sentence_boolean_kind kind_arity_def numeral_2_eq_2 length_Suc_conv)

lemma sentence_ITE [sentence_simps]:
  "sentence (mkNode K_ITE ns) \<longleftrightarrow> (\<exists>c a b. ns = [c, a, b] \<and> sentence c \<and> sentence a \<and> sentence b)"
proof
  assume "sentence (mkNode K_ITE ns)"
  then obtain ts where ts: "list_all2 (\<lambda>n t. getType n = Some t) ns ts" "length ns = 3"
      "kind_type K_ITE ts = Some BOOLEAN_TYPE" "list_all firstClass ns"
    by (auto simp: sentence_def isBoolean_def getType_mkNode_iff kind_arity_def simp del: getType.simps)
  then obtain c a b where "ns = [c, a, b]"
    by (auto simp: numeral_3_eq_3 length_Suc_conv)
  with ts show "\<exists>c a b. ns = [c, a, b] \<and> sentence c \<and> sentence a \<and> sentence b"
    by (auto simp: list_all2_Cons1 kind_type_def IteTypeRule_def sentence_def isBoolean_def split: if_splits)
qed (auto simp: sentence_def isBoolean_def kind_arity_def kind_type_def IteTypeRule_def kind_range_def)

lemma sentence_EQUAL [sentence_simps]:
  "sentence (mkNode K_EQUAL ns) \<longleftrightarrow>
     (\<exists>a b T. ns = [a, b] \<and> getType a = Some T \<and> getType b = Some T \<and> firstClass a \<and> firstClass b)"
proof
  assume "sentence (mkNode K_EQUAL ns)"
  then obtain ts where ts: "list_all2 (\<lambda>n t. getType n = Some t) ns ts" "length ns = 2"
      "kind_type K_EQUAL ts = Some BOOLEAN_TYPE" "list_all firstClass ns"
    by (auto simp: sentence_def isBoolean_def getType_mkNode_iff kind_arity_def simp del: getType.simps)
  then obtain a b where "ns = [a, b]"
    by (auto simp: numeral_2_eq_2 length_Suc_conv)
  with ts show "\<exists>a b T. ns = [a, b] \<and> getType a = Some T \<and> getType b = Some T \<and> firstClass a \<and> firstClass b"
    by (auto simp: list_all2_Cons1 kind_type_def EqualityTypeRule_def split: if_splits)
qed (auto simp: sentence_def isBoolean_def kind_arity_def kind_type_def EqualityTypeRule_def kind_range_def)

lemma sentence_mkOr: "sentence (nm_mkOr ns) \<longleftrightarrow> (\<forall>n\<in>set ns. sentence n)"
  by (cases ns rule: list.exhaust [case_product list.exhaust [of "tl ns"]])
    (auto simp: nm_mkOr_def sentence_simps split: if_splits)

lemma truth_mkOr: "truth G m (nm_mkOr ns) \<longleftrightarrow> (\<exists>n\<in>set ns. truth G m n)"
  by (cases ns) (auto simp: nm_mkOr_def)

lemma truth_n_ary:
  "2 \<le> length ns \<Longrightarrow> truth G m (mkNode K_AND ns) \<longleftrightarrow> (\<forall>n\<in>set ns. truth G m n)"
  "2 \<le> length ns \<Longrightarrow> truth G m (mkNode K_OR ns) \<longleftrightarrow> (\<exists>n\<in>set ns. truth G m n)"
  by (cases ns; simp)+

lemma sentenceD: "sentence n \<Longrightarrow> firstClass n" "sentence n \<Longrightarrow> getType n = Some BOOLEAN_TYPE"
  by (simp_all add: sentence_def isBoolean_def)

section \<open>Rewriting\<close>

text \<open>
  A term may replace another one when it is a term of the same type that has the same value in
  every model.
\<close>

definition rewrites_to :: "gmp \<Rightarrow> node \<Rightarrow> node \<Rightarrow> bool" where
  "rewrites_to G n n' \<longleftrightarrow>
     (\<forall>T. firstClass n \<and> getType n = Some T \<longrightarrow>
        firstClass n' \<and> getType n' = Some T \<and> (\<forall>m. eval G m n' = eval G m n))"

lemma rewrites_to_refl: "rewrites_to G n n"
  by (simp add: rewrites_to_def)

lemma rewrites_to_trans: "rewrites_to G a b \<Longrightarrow> rewrites_to G b c \<Longrightarrow> rewrites_to G a c"
  by (simp add: rewrites_to_def)

context gmp_documented
begin

lemma sentence_boolish: "sentence n \<Longrightarrow> boolish G m n"
  by (simp add: sentence_def isBoolean_boolish)

lemma truth_EQUAL_sentence: "sentence a \<Longrightarrow> truth G m (mkNode K_EQUAL [a, b]) \<longleftrightarrow> truth G m a = truth G m b"
  by (simp add: sentence_boolish)

lemma sentence_eval: "sentence n \<Longrightarrow> eval G m n = BOOL (truth G m n)"
  using isBoolean_boolish by (simp add: sentence_def flip: boolish_iff)

lemma rewrites_bool:
  assumes "sentence n" "sentence n'" "\<And>m. truth G m n' = truth G m n"
  shows "rewrites_to G n n'"
  using assms sentenceD [OF assms(1)] sentenceD [OF assms(2)] by (simp add: rewrites_to_def sentence_eval)

end

section \<open>Typed terms\<close>

definition typed :: "node \<Rightarrow> type_node \<Rightarrow> bool" where
  "typed n T \<longleftrightarrow> getType n = Some T \<and> firstClass n"

lemma typed_sentence: "typed n BOOLEAN_TYPE \<longleftrightarrow> sentence n"
  by (auto simp: typed_def sentence_def isBoolean_def)

lemma typed_ITE: "typed (mkNode K_ITE ns) T \<longleftrightarrow> (\<exists>c a b. ns = [c, a, b] \<and> sentence c \<and> typed a T \<and> typed b T)"
proof
  assume "typed (mkNode K_ITE ns) T"
  then obtain ts where ts: "list_all2 (\<lambda>n t. getType n = Some t) ns ts" "length ns = 3"
      "kind_type K_ITE ts = Some T" "list_all firstClass ns"
    by (auto simp: typed_def getType_mkNode_iff kind_arity_def simp del: getType.simps)
  then obtain c a b where "ns = [c, a, b]"
    by (auto simp: numeral_3_eq_3 length_Suc_conv)
  with ts show "\<exists>c a b. ns = [c, a, b] \<and> sentence c \<and> typed a T \<and> typed b T"
    by (auto simp: list_all2_Cons1 kind_type_def IteTypeRule_def typed_def sentence_def isBoolean_def split: if_splits)
next
  assume "\<exists>c a b. ns = [c, a, b] \<and> sentence c \<and> typed a T \<and> typed b T"
  then show "typed (mkNode K_ITE ns) T"
    using getType_valid by (auto simp: typed_def sentence_def isBoolean_def kind_arity_def kind_type_def IteTypeRule_def kind_range_def)
qed

lemma typed_EQUAL: "sentence (mkNode K_EQUAL ns) \<longleftrightarrow> (\<exists>a b T. ns = [a, b] \<and> typed a T \<and> typed b T)"
  by (auto simp: sentence_EQUAL typed_def)

lemma typed_unique: "typed n T \<Longrightarrow> typed n T' \<Longrightarrow> T = T'"
  by (simp add: typed_def)

lemma eval_ITE_node: "eval G m (mkNode K_ITE [c, a, b]) = (if truth G m c then eval G m a else eval G m b)"
  by (simp add: truth_def)

lemma rewrites_toI:
  "(\<And>T. typed n T \<Longrightarrow> typed n' T \<and> (\<forall>m. eval G m n' = eval G m n)) \<Longrightarrow> rewrites_to G n n'"
  by (auto simp: rewrites_to_def typed_def)

context gmp_documented
begin

lemma truth_EQUAL_eval:
  assumes "typed a T" "typed b T"
  shows "truth G m (mkNode K_EQUAL [a, b]) \<longleftrightarrow> eval G m a = eval G m b"
proof -
  have "has_type (eval G m a) T" "has_type (eval G m b) T"
    using assms eval_has_type by (auto simp: typed_def)
  then show ?thesis
    by (cases "eval G m a"; cases "eval G m b") (auto simp: truth_def bv_eq_def)
qed

lemma const_eval: "isConst c \<Longrightarrow> isConst d \<Longrightarrow> eval G m c = eval G m d \<Longrightarrow> c = d"
  by (cases c; cases d) auto

end

text \<open>Propositional variables and models that give them values.\<close>

abbreviation prop_var :: "nat \<Rightarrow> node" where
  "prop_var i \<equiv> VARIABLE i BOOLEAN_TYPE"

abbreviation prop_model :: "(nat \<Rightarrow> int) \<Rightarrow> model" where
  "prop_model f \<equiv> \<lparr>var_raw = (\<lambda>i t. f i), fun_raw = (\<lambda>f t rs. 0)\<rparr>"

end
