(* ===== verification/Bv_Terms.thy ===== *)
theory Bv_Terms
  imports Bitblaster_Correct Sentences
begin

text \<open>
  Well-typed terms by their width and value.  The rewrite rules of the bit-vector solver build
  terms from the arguments of the rewritten node; the collection \<open>term_simps\<close> computes, for every
  kind, that the built term is well typed, its width, and its value as an integer.
\<close>

named_theorems term_simps \<open>type, width and value of a built term\<close>

definition val :: "gmp \<Rightarrow> model \<Rightarrow> node \<Rightarrow> int" where
  "val G m n = d_value (bvval G m n)"

definition sval :: "gmp \<Rightarrow> model \<Rightarrow> node \<Rightarrow> int" where
  "sval G m n = signed_take_bit (getSize n - 1) (val G m n)"

section \<open>Types\<close>

lemma bv_term_width: "bv_term n \<Longrightarrow> 0 < getSize n" "bv_term n \<Longrightarrow> getSize n < 2 ^ 32"
  using getType_valid by (fastforce simp: bv_term_def getSize_def)+

lemma bv_termD: "bv_term n \<Longrightarrow> firstClass n" "bv_term n \<Longrightarrow> getType n = Some (BITVECTOR_TYPE (getSize n))"
  by (auto simp: bv_term_def getSize_def)

lemma bv_termI: "getType n = Some (BITVECTOR_TYPE w) \<Longrightarrow> firstClass n \<Longrightarrow> bv_term n \<and> getSize n = w"
  by (simp add: bv_term_def getSize_def)

lemma fixed_width_replicate: "isBitVector t \<Longrightarrow> ts \<noteq> [] \<Longrightarrow> (\<forall>t'\<in>set ts. t' = t) \<Longrightarrow> BitVectorFixedWidthTypeRule ts = Some t"
  by (cases ts) (auto simp: BitVectorFixedWidthTypeRule_def fixedWidthLoop_Some)

lemma those_getType:
  "\<forall>n\<in>set ns. getType n = Some (f n) \<Longrightarrow> those (map getType ns) = Some (map f ns)"
  by (induction ns) auto

lemma fixed_width_term:
  assumes "\<And>ts. kind_type k ts = BitVectorFixedWidthTypeRule ts" "kind_range k = None" "kind_arity k (length ns)"
    "ns \<noteq> []" "\<forall>n\<in>set ns. bv_term n \<and> getSize n = w"
  shows "bv_term (mkNode k ns) \<and> getSize (mkNode k ns) = w"
proof (rule bv_termI)
  have "those (map getType ns) = Some (map (\<lambda>n. BITVECTOR_TYPE w) ns)"
    using assms(5) bv_termD(2) by (intro those_getType) auto
  moreover have "valid_type (BITVECTOR_TYPE w)"
    using assms(4,5) bv_term_width [of "hd ns"] by auto
  ultimately show "getType (mkNode k ns) = Some (BITVECTOR_TYPE w)"
    using assms(1,3,4) fixed_width_replicate [of "BITVECTOR_TYPE w" "map (\<lambda>n. BITVECTOR_TYPE w) ns"]
    by simp
  show "firstClass (mkNode k ns)"
    using assms(2,5) bv_termD(1) by (auto simp: list_all_iff)
qed

abbreviation nary_kinds :: "kind set" where
  "nary_kinds \<equiv> {K_BITVECTOR_AND, K_BITVECTOR_OR, K_BITVECTOR_XOR, K_BITVECTOR_ADD, K_BITVECTOR_MULT}"

abbreviation binary_kinds :: "kind set" where
  "binary_kinds \<equiv> {K_BITVECTOR_SUB, K_BITVECTOR_UDIV, K_BITVECTOR_UREM, K_BITVECTOR_SDIV, K_BITVECTOR_SREM,
     K_BITVECTOR_SMOD, K_BITVECTOR_SHL, K_BITVECTOR_LSHR, K_BITVECTOR_ASHR, K_BITVECTOR_NAND, K_BITVECTOR_NOR,
     K_BITVECTOR_XNOR}"

lemma nary_term:
  assumes "k \<in> nary_kinds" "2 \<le> length ns" "\<forall>n\<in>set ns. bv_term n \<and> getSize n = w"
  shows "bv_term (mkNode k ns) \<and> getSize (mkNode k ns) = w"
  by (rule fixed_width_term) (use assms in \<open>auto simp: kind_type_def kind_range_def kind_arity_def\<close>)

lemma binary_term:
  assumes "k \<in> nary_kinds \<union> binary_kinds" "bv_term a" "bv_term b" "getSize a = getSize b"
  shows "bv_term (mkNode k [a, b]) \<and> getSize (mkNode k [a, b]) = getSize b"
  by (rule fixed_width_term) (use assms in \<open>auto simp: kind_type_def kind_range_def kind_arity_def\<close>)

lemma unary_term:
  assumes "bv_term a" "k \<in> {K_BITVECTOR_NOT, K_BITVECTOR_NEG} \<union> range K_BITVECTOR_ROTATE_LEFT \<union> range K_BITVECTOR_ROTATE_RIGHT"
  shows "bv_term (mkNode k [a]) \<and> getSize (mkNode k [a]) = getSize a"
  by (rule fixed_width_term) (use assms in \<open>auto simp: kind_type_def kind_range_def kind_arity_def\<close>)

lemma extract_term:
  assumes "bv_term a" "l \<le> h" "h < getSize a"
  shows "bv_term (mkNode (K_BITVECTOR_EXTRACT h l) [a]) \<and> getSize (mkNode (K_BITVECTOR_EXTRACT h l) [a]) = h - l + 1"
  using assms bv_termD [OF assms(1)] bv_term_width [OF assms(1)]
  by (intro bv_termI) (simp_all add: kind_type_def kind_range_def kind_arity_def BitVectorExtractTypeRule_def checkBvResultSize_def)

lemma sign_extend_term:
  assumes "bv_term a" "getSize a + i < 2 ^ 32"
  shows "bv_term (mkNode (K_BITVECTOR_SIGN_EXTEND i) [a]) \<and> getSize (mkNode (K_BITVECTOR_SIGN_EXTEND i) [a]) = getSize a + i"
  using assms bv_termD [OF assms(1)] bv_term_width [OF assms(1)]
  by (intro bv_termI) (auto simp: kind_type_def kind_range_def kind_arity_def BitVectorExtendTypeRule_def checkBvResultSize_def)

lemma zero_extend_term:
  assumes "bv_term a" "getSize a + i < 2 ^ 32"
  shows "bv_term (mkNode (K_BITVECTOR_ZERO_EXTEND i) [a]) \<and> getSize (mkNode (K_BITVECTOR_ZERO_EXTEND i) [a]) = getSize a + i"
  using assms bv_termD [OF assms(1)] bv_term_width [OF assms(1)]
  by (intro bv_termI) (auto simp: kind_type_def kind_range_def kind_arity_def BitVectorExtendTypeRule_def checkBvResultSize_def)

lemma concat_term:
  assumes "bv_term a" "bv_term b" "getSize a + getSize b < 2 ^ 32"
  shows "bv_term (mkNode K_BITVECTOR_CONCAT [a, b]) \<and> getSize (mkNode K_BITVECTOR_CONCAT [a, b]) = getSize a + getSize b"
  using assms bv_termD [OF assms(1)] bv_termD [OF assms(2)] bv_term_width [OF assms(1)]
  by (intro bv_termI) (auto simp: kind_type_def kind_range_def kind_arity_def BitVectorConcatTypeRule_def checkBvResultSize_def)

lemma predicate_bv_term:
  assumes "bv_term a" "bv_term b" "getSize a = getSize b" "k \<in> {K_BITVECTOR_COMP, K_BITVECTOR_ULTBV, K_BITVECTOR_SLTBV}"
  shows "bv_term (mkNode k [a, b]) \<and> getSize (mkNode k [a, b]) = 1"
  using assms bv_termD [OF assms(1)] bv_termD [OF assms(2)]
  by (intro bv_termI) (auto simp: kind_type_def kind_range_def kind_arity_def BitVectorBVPredTypeRule_def)

lemma reduction_term:
  assumes "bv_term a" "k \<in> {K_BITVECTOR_REDAND, K_BITVECTOR_REDOR}"
  shows "bv_term (mkNode k [a]) \<and> getSize (mkNode k [a]) = 1"
  using assms bv_termD [OF assms(1)]
  by (intro bv_termI) (auto simp: kind_type_def kind_range_def kind_arity_def BitVectorRedTypeRule_def)

lemma ite_term:
  assumes "sentence c" "bv_term a" "bv_term b" "getSize a = getSize b"
  shows "bv_term (mkNode K_ITE [c, a, b]) \<and> getSize (mkNode K_ITE [c, a, b]) = getSize b"
  using assms sentenceD [OF assms(1)] bv_termD [OF assms(2)] bv_termD [OF assms(3)] bv_term_width [OF assms(2)]
  by (intro bv_termI) (auto simp: kind_type_def kind_range_def kind_arity_def IteTypeRule_def)

lemma bvite_term:
  assumes "bv_term c" "getSize c = 1" "bv_term a" "bv_term b" "getSize a = getSize b"
  shows "bv_term (mkNode K_BITVECTOR_ITE [c, a, b]) \<and> getSize (mkNode K_BITVECTOR_ITE [c, a, b]) = getSize b"
  using assms bv_termD [OF assms(1)] bv_termD [OF assms(3)] bv_termD [OF assms(4)] bv_term_width [OF assms(3)]
  by (intro bv_termI) (auto simp: kind_type_def kind_range_def kind_arity_def BitVectorITETypeRule_def)

lemma const_term:
  assumes "bv_inv b" "0 < d_size b"
  shows "bv_term (CONST_BITVECTOR b) \<and> getSize (CONST_BITVECTOR b) = d_size b"
  using assms by (intro bv_termI) (simp_all add: BitVectorConstantTypeRule_def)

lemmas built_terms = binary_term unary_term extract_term sign_extend_term zero_extend_term concat_term predicate_bv_term
  reduction_term ite_term bvite_term

lemmas term_types [term_simps] = built_terms [THEN conjunct1]

lemmas term_widths [term_simps] = built_terms [THEN conjunct2]

section \<open>Boolean terms\<close>

abbreviation predicate_kinds :: "kind set" where
  "predicate_kinds \<equiv> {K_BITVECTOR_ULT, K_BITVECTOR_ULE, K_BITVECTOR_UGT, K_BITVECTOR_UGE, K_BITVECTOR_SLT,
     K_BITVECTOR_SLE, K_BITVECTOR_SGT, K_BITVECTOR_SGE, K_BITVECTOR_UADDO, K_BITVECTOR_SADDO, K_BITVECTOR_UMULO,
     K_BITVECTOR_SMULO, K_BITVECTOR_USUBO, K_BITVECTOR_SSUBO, K_BITVECTOR_SDIVO, K_EQUAL}"

lemma predicate_term [term_simps]:
  assumes "k \<in> predicate_kinds" "bv_term a" "bv_term b" "getSize a = getSize b"
  shows "sentence (mkNode k [a, b])"
  using assms bv_termD [OF assms(2)] bv_termD [OF assms(3)]
  by (auto simp: sentence_def isBoolean_def kind_type_def kind_range_def kind_arity_def BitVectorPredicateTypeRule_def
      EqualityTypeRule_def)

lemma bool_connectives [term_simps]:
  "sentence (CONST_BOOLEAN c)"
  "sentence a \<Longrightarrow> sentence (mkNode K_NOT [a])"
  "sentence a \<Longrightarrow> sentence b \<Longrightarrow> sentence (mkNode K_AND [a, b])"
  "sentence a \<Longrightarrow> sentence b \<Longrightarrow> sentence (mkNode K_OR [a, b])"
  "sentence a \<Longrightarrow> sentence b \<Longrightarrow> sentence (mkNode K_XOR [a, b])"
  by (auto simp: sentence_def isBoolean_def kind_type_def kind_range_def kind_arity_def BooleanTypeRule_def)

section \<open>Values\<close>

lemma take_bit_div_mod:
  assumes "0 \<le> x" "x < 2 ^ n" "0 \<le> y"
  shows "take_bit n (x div y) = x div (y :: int)" "take_bit n (x mod y) = x mod y"
proof -
  have "0 \<le> x div y \<and> x div y \<le> x"
    using assms zdiv_mono2 [of x 1 y] by (cases "y = 0") (auto simp: pos_imp_zdiv_nonneg_iff)
  moreover have "0 \<le> x mod y \<and> x mod y \<le> x"
    using assms zmod_le_nonneg_dividend [of x y] by (cases "y = 0") auto
  ultimately show "take_bit n (x div y) = x div (y :: int)" "take_bit n (x mod y) = x mod y"
    using assms(2) by (auto intro!: take_bit_int_eq_self)
qed

lemma bv_eq_size: "d_size a = d_size b \<Longrightarrow> bv_eq a b \<longleftrightarrow> d_value a = d_value b"
  by (simp add: bv_eq_def)

context gmp_documented
begin

lemma bvval_record:
  assumes "bv_term n"
  shows "bvval G m n = \<lparr>d_size = getSize n, d_value = val G m n\<rparr>"
  using bv_term_value(2) [OF assms, of m] by (simp add: val_def)

lemma val_bounds:
  assumes "bv_term n"
  shows "0 \<le> val G m n" "val G m n < 2 ^ getSize n" "take_bit (getSize n) (val G m n) = val G m n"
  using bv_term_value(1,2) [OF assms, of m] bv_inv_take_bit [of "bvval G m n"]
  by (auto simp: val_def)

lemma sval_toSigned:
  assumes "bv_term n"
  shows "bv_toSignedInteger G (bvval G m n) = sval G m n"
  using toSignedInteger_eq [of "bvval G m n" "getSize n - 1"] bv_term_value(1,2) [OF assms, of m] bv_term_width(1) [OF assms]
  by (simp add: sval_def val_def)

lemma val_unary [term_simps]:
  assumes "bv_term a"
  shows "val G m (mkNode K_BITVECTOR_NOT [a]) = 2 ^ getSize a - 1 - val G m a"
    "val G m (mkNode K_BITVECTOR_NEG [a]) = take_bit (getSize a) (- val G m a)"
proof -
  have "take_bit (getSize a) (NOT (val G m a)) = 2 ^ getSize a - 1 - val G m a"
    using val_bounds [OF assms, of m] by (simp add: take_bit_not_eq_mask_diff mask_eq_exp_minus_1)
  then show "val G m (mkNode K_BITVECTOR_NOT [a]) = 2 ^ getSize a - 1 - val G m a"
    using bv_term_value(2) [OF assms, of m] by (simp add: val_def bvval_unary value_not)
  show "val G m (mkNode K_BITVECTOR_NEG [a]) = take_bit (getSize a) (- val G m a)"
    using bv_term_value(2) [OF assms, of m] by (simp add: val_def bvval_unary value_neg)
qed

lemma val_nary [term_simps]:
  assumes "bv_term a" "bv_term b" "getSize a = getSize b"
  shows "val G m (mkNode K_BITVECTOR_ADD [a, b]) = take_bit (getSize b) (val G m a + val G m b)"
    "val G m (mkNode K_BITVECTOR_MULT [a, b]) = take_bit (getSize b) (val G m a * val G m b)"
    "val G m (mkNode K_BITVECTOR_AND [a, b]) = val G m a AND val G m b"
    "val G m (mkNode K_BITVECTOR_OR [a, b]) = val G m a OR val G m b"
    "val G m (mkNode K_BITVECTOR_XOR [a, b]) = val G m a XOR val G m b"
  using bv_term_value(2) [OF assms(1), of m] val_bounds(3) [OF assms(1), of m] val_bounds(3) [OF assms(2), of m] assms(3)
  by (simp_all add: val_def bvval_nary value_add value_mult value_and value_or value_xor)

lemma val_binary [term_simps]:
  assumes "bv_term a" "bv_term b" "getSize a = getSize b"
  shows "val G m (mkNode K_BITVECTOR_SUB [a, b]) = take_bit (getSize b) (val G m a - val G m b)"
    "val G m (mkNode K_BITVECTOR_UDIV [a, b]) =
      (if val G m b = 0 then 2 ^ getSize b - 1 else val G m a div val G m b)"
    "val G m (mkNode K_BITVECTOR_UREM [a, b]) = val G m a mod val G m b"
proof -
  note sz = bv_term_value(2) [OF assms(1), of m] bv_term_value(2) [OF assms(2), of m]
  note inv = bv_term_value(1) [OF assms(1), of m] bv_term_width(1) [OF assms(1)]
  have b: "0 \<le> val G m a" "val G m a < 2 ^ getSize b" "0 \<le> val G m b" "val G m b < 2 ^ getSize b"
    using val_bounds [OF assms(1), of m] val_bounds [OF assms(2), of m] assms(3) by simp_all
  note small = take_bit_div_mod [OF b(1-3)]
  show "val G m (mkNode K_BITVECTOR_UDIV [a, b]) =
      (if val G m b = 0 then 2 ^ getSize b - 1 else val G m a div val G m b)"
    using value_udiv [of "bvval G m a" "bvval G m b"] inv sz small(1) assms(3) by (simp add: val_def bvval_binary)
  show "val G m (mkNode K_BITVECTOR_UREM [a, b]) = val G m a mod val G m b"
    using value_urem [of "bvval G m a" "bvval G m b"] inv sz small(2) assms(3) by (simp add: val_def bvval_binary)
  show "val G m (mkNode K_BITVECTOR_SUB [a, b]) = take_bit (getSize b) (val G m a - val G m b)"
    using sz assms(3) by (simp add: val_def bvval_binary value_add value_neg take_bit_eq_mod mod_simps)
qed

lemma val_negated [term_simps]:
  assumes "bv_term a" "bv_term b" "getSize a = getSize b"
  shows "val G m (mkNode K_BITVECTOR_NAND [a, b]) = 2 ^ getSize b - 1 - (val G m a AND val G m b)"
    "val G m (mkNode K_BITVECTOR_NOR [a, b]) = 2 ^ getSize b - 1 - (val G m a OR val G m b)"
    "val G m (mkNode K_BITVECTOR_XNOR [a, b]) = 2 ^ getSize b - 1 - (val G m a XOR val G m b)"
proof -
  have "val G m (mkNode k [a, b]) = val G m (mkNode K_BITVECTOR_NOT [mkNode k' [a, b]])"
    if "(k, k') \<in> {(K_BITVECTOR_NAND, K_BITVECTOR_AND), (K_BITVECTOR_NOR, K_BITVECTOR_OR), (K_BITVECTOR_XNOR, K_BITVECTOR_XOR)}"
    for k k'
    using that by (auto simp: val_def bvval_def eval_kind_defs)
  then show "val G m (mkNode K_BITVECTOR_NAND [a, b]) = 2 ^ getSize b - 1 - (val G m a AND val G m b)"
    "val G m (mkNode K_BITVECTOR_NOR [a, b]) = 2 ^ getSize b - 1 - (val G m a OR val G m b)"
    "val G m (mkNode K_BITVECTOR_XNOR [a, b]) = 2 ^ getSize b - 1 - (val G m a XOR val G m b)"
    using assms by (simp_all add: val_unary val_nary term_types term_widths)
qed

lemma val_sized [term_simps]:
  assumes "bv_term a"
  shows "l \<le> h \<Longrightarrow> h < getSize a \<Longrightarrow>
      val G m (mkNode (K_BITVECTOR_EXTRACT h l) [a]) = take_bit (h - l + 1) (drop_bit l (val G m a))"
    "bv_term b \<Longrightarrow> getSize a + getSize b < 2 ^ 32 \<Longrightarrow>
      val G m (mkNode K_BITVECTOR_CONCAT [a, b]) = val G m a * 2 ^ getSize b + val G m b"
    "getSize a + i < 2 ^ 32 \<Longrightarrow> val G m (mkNode (K_BITVECTOR_ZERO_EXTEND i) [a]) = val G m a"
    "getSize a + i < 2 ^ 32 \<Longrightarrow>
      val G m (mkNode (K_BITVECTOR_SIGN_EXTEND i) [a]) = take_bit (getSize a + i) (sval G m a)"
proof -
  note a = bv_term_value(1,2) [OF assms, of m]
  show "val G m (mkNode (K_BITVECTOR_EXTRACT h l) [a]) = take_bit (h - l + 1) (drop_bit l (val G m a))"
    if "l \<le> h" "h < getSize a"
    using value_extract [of "bvval G m a" l h] a that by (simp add: val_def bvval_unary)
  show "val G m (mkNode K_BITVECTOR_CONCAT [a, b]) = val G m a * 2 ^ getSize b + val G m b"
    if "bv_term b" "getSize a + getSize b < 2 ^ 32"
    using value_concat [of "bvval G m a" "bvval G m b"] a bv_term_value(1,2) [OF that(1), of m] that(2)
    by (simp add: val_def bvval_nary)
  show "val G m (mkNode (K_BITVECTOR_ZERO_EXTEND i) [a]) = val G m a" if "getSize a + i < 2 ^ 32"
    using value_zeroExtend [of "bvval G m a" i] a that by (simp add: val_def bvval_def eval_kind_defs)
  show "val G m (mkNode (K_BITVECTOR_SIGN_EXTEND i) [a]) = take_bit (getSize a + i) (sval G m a)"
    if "getSize a + i < 2 ^ 32"
    using value_signExtend [of "bvval G m a" "getSize a - 1" i] a that bv_term_width(1) [OF assms]
    by (simp add: val_def sval_def bvval_unary)
qed

lemma drop_bit_mod_2 [term_simps]: "drop_bit i v mod 2 = of_bool (bit (v :: int) i)"
  by (simp add: bit_iff_odd_drop_bit mod_2_eq_odd)

lemma sval_val:
  assumes "bv_term a"
  shows "sval G m a = val G m a - of_bool (bit (val G m a) (getSize a - 1)) * 2 ^ getSize a"
    "bit (val G m a) (getSize a - 1) \<longleftrightarrow> 2 ^ (getSize a - 1) \<le> val G m a"
proof -
  obtain w where w: "getSize a = Suc w"
    using bv_term_width(1) [OF assms] gr0_implies_Suc by blast
  note b = val_bounds [OF assms, of m, unfolded w]
  show "sval G m a = val G m a - of_bool (bit (val G m a) (getSize a - 1)) * 2 ^ getSize a"
    using b(3) by (simp add: sval_def w signed_take_bit_eq_take_bit_minus algebra_simps)
  have "bit (val G m a) w \<longleftrightarrow> odd (val G m a div 2 ^ w)"
    by (simp add: bit_iff_odd)
  moreover have "val G m a div 2 ^ w = (if 2 ^ w \<le> val G m a then 1 else 0)"
    using b(1,2) by (auto simp: div_pos_pos_trivial div_eq_0_iff intro: int_div_pos_eq [of _ _ _ "val G m a - 2 ^ w"])
  ultimately show "bit (val G m a) (getSize a - 1) \<longleftrightarrow> 2 ^ (getSize a - 1) \<le> val G m a"
    by (simp add: w)
qed

lemma sval_bounds:
  assumes "bv_term a"
  shows "- (2 ^ (getSize a - 1)) \<le> sval G m a" "sval G m a < 2 ^ (getSize a - 1)"
    "bit (val G m a) (getSize a - 1) \<longleftrightarrow> sval G m a < 0"
    "take_bit (getSize a) (sval G m a) = val G m a"
proof -
  obtain w where w: "getSize a = Suc w"
    using bv_term_width(1) [OF assms] gr0_implies_Suc by blast
  note b = val_bounds [OF assms, of m, unfolded w] and v = sval_val [OF assms, of m, unfolded w]
  show "- (2 ^ (getSize a - 1)) \<le> sval G m a" "sval G m a < 2 ^ (getSize a - 1)"
    "bit (val G m a) (getSize a - 1) \<longleftrightarrow> sval G m a < 0"
    using b v by (auto simp: w split: if_splits)
  show "take_bit (getSize a) (sval G m a) = val G m a"
    using b(3) by (simp add: sval_def w take_bit_signed_take_bit)
qed

lemma val_bv_bool: "d_value (bv_bool G b) = of_bool b"
  by (simp add: bv_bool_def)

lemma val_predicates [term_simps]:
  assumes "bv_term a" "bv_term b" "getSize a = getSize b"
  shows "val G m (mkNode K_BITVECTOR_COMP [a, b]) = of_bool (val G m a = val G m b)"
    "truth G m (mkNode K_EQUAL [a, b]) \<longleftrightarrow> val G m a = val G m b"
    "truth G m (mkNode K_BITVECTOR_ULT [a, b]) \<longleftrightarrow> val G m a < val G m b"
    "truth G m (mkNode K_BITVECTOR_ULE [a, b]) \<longleftrightarrow> val G m a \<le> val G m b"
    "truth G m (mkNode K_BITVECTOR_UGT [a, b]) \<longleftrightarrow> val G m b < val G m a"
    "truth G m (mkNode K_BITVECTOR_UGE [a, b]) \<longleftrightarrow> val G m b \<le> val G m a"
    "truth G m (mkNode K_BITVECTOR_SLT [a, b]) \<longleftrightarrow> sval G m a < sval G m b"
    "truth G m (mkNode K_BITVECTOR_SLE [a, b]) \<longleftrightarrow> sval G m a \<le> sval G m b"
    "truth G m (mkNode K_BITVECTOR_SGT [a, b]) \<longleftrightarrow> sval G m b < sval G m a"
    "truth G m (mkNode K_BITVECTOR_SGE [a, b]) \<longleftrightarrow> sval G m b \<le> sval G m a"
proof -
  note sz = bv_term_value(2) [OF assms(1), of m] bv_term_value(2) [OF assms(2), of m]
  note sg = sval_toSigned [OF assms(1), of m] sval_toSigned [OF assms(2), of m]
  show "val G m (mkNode K_BITVECTOR_COMP [a, b]) = of_bool (val G m a = val G m b)"
    using sz assms(3) by (simp add: val_def bvval_binary val_bv_bool bv_eq_size)
  show "truth G m (mkNode K_EQUAL [a, b]) \<longleftrightarrow> val G m a = val G m b"
    using sz assms(3) bv_term_value(3) [OF assms(1), of m] bv_term_value(3) [OF assms(2), of m]
    by (simp add: truth_def val_def bv_eq_size)
  show "truth G m (mkNode K_BITVECTOR_ULT [a, b]) \<longleftrightarrow> val G m a < val G m b"
    "truth G m (mkNode K_BITVECTOR_ULE [a, b]) \<longleftrightarrow> val G m a \<le> val G m b"
    "truth G m (mkNode K_BITVECTOR_UGT [a, b]) \<longleftrightarrow> val G m b < val G m a"
    "truth G m (mkNode K_BITVECTOR_UGE [a, b]) \<longleftrightarrow> val G m b \<le> val G m a"
    by (simp_all add: truth_def eval_kind_defs bv_unsignedLessThan_def bv_unsignedLessThanEq_def val_def bvval_def)
  show "truth G m (mkNode K_BITVECTOR_SLT [a, b]) \<longleftrightarrow> sval G m a < sval G m b"
    "truth G m (mkNode K_BITVECTOR_SLE [a, b]) \<longleftrightarrow> sval G m a \<le> sval G m b"
    "truth G m (mkNode K_BITVECTOR_SGT [a, b]) \<longleftrightarrow> sval G m b < sval G m a"
    "truth G m (mkNode K_BITVECTOR_SGE [a, b]) \<longleftrightarrow> sval G m b \<le> sval G m a"
    by (simp_all add: truth_def eval_kind_defs bv_signedLessThan_def bv_signedLessThanEq_def flip: bvval_def sg)
qed

lemma val_ite [term_simps]:
  "val G m (mkNode K_ITE [c, a, b]) = (if truth G m c then val G m a else val G m b)"
  by (simp add: val_def bvval_def truth_def)

lemma val_signed [term_simps]:
  assumes "bv_term a" "bv_term b" "getSize a = getSize b"
  shows "val G m (mkNode K_BITVECTOR_SDIV [a, b]) = take_bit (getSize b)
      (if sval G m b = 0 then (if sval G m a < 0 then 1 else - 1) else signed_quot (sval G m a) (sval G m b))"
    "val G m (mkNode K_BITVECTOR_SREM [a, b]) = take_bit (getSize b)
      (if sval G m b = 0 then sval G m a else sval G m a - sval G m b * signed_quot (sval G m a) (sval G m b))"
    "val G m (mkNode K_BITVECTOR_SMOD [a, b]) = take_bit (getSize b)
      (if sval G m b = 0 then sval G m a else sval G m a mod sval G m b)"
  using bv_term_value(2) [OF assms(1), of m] assms(3) sval_toSigned [OF assms(1), of m] sval_toSigned [OF assms(2), of m]
  by (simp_all add: val_def bvval_def eval_kind_defs eval_smtlib_def)

lemma val_rotate [term_simps]:
  assumes "bv_term a"
  shows "val G m (mkNode (K_BITVECTOR_ROTATE_LEFT i) [a]) = take_bit (getSize a) (rotate_value (getSize a) i (val G m a))"
    "val G m (mkNode (K_BITVECTOR_ROTATE_RIGHT i) [a]) =
      take_bit (getSize a) (rotate_value (getSize a) (getSize a - i mod getSize a) (val G m a))"
    "val G m (mkNode K_BITVECTOR_REDAND [a]) = of_bool (val G m a = 2 ^ getSize a - 1)"
    "val G m (mkNode K_BITVECTOR_REDOR [a]) = of_bool (val G m a \<noteq> 0)"
    "truth G m (mkNode K_BITVECTOR_NEGO [a]) \<longleftrightarrow> \<not> fits_signed (getSize a) (- sval G m a)"
  using bv_term_value(2) [OF assms, of m] sval_toSigned [OF assms, of m]
  by (simp_all add: val_def bvval_def truth_def eval_kind_defs eval_smtlib_def val_bv_bool)

lemma truth_overflow [term_simps]:
  assumes "bv_term a" "bv_term b" "getSize a = getSize b"
  shows "truth G m (mkNode K_BITVECTOR_UADDO [a, b]) \<longleftrightarrow> 2 ^ getSize b \<le> val G m a + val G m b"
    "truth G m (mkNode K_BITVECTOR_SADDO [a, b]) \<longleftrightarrow> \<not> fits_signed (getSize b) (sval G m a + sval G m b)"
    "truth G m (mkNode K_BITVECTOR_UMULO [a, b]) \<longleftrightarrow> 2 ^ getSize b \<le> val G m a * val G m b"
    "truth G m (mkNode K_BITVECTOR_SMULO [a, b]) \<longleftrightarrow> \<not> fits_signed (getSize b) (sval G m a * sval G m b)"
    "truth G m (mkNode K_BITVECTOR_USUBO [a, b]) \<longleftrightarrow> val G m a < val G m b"
    "truth G m (mkNode K_BITVECTOR_SSUBO [a, b]) \<longleftrightarrow> \<not> fits_signed (getSize b) (sval G m a - sval G m b)"
    "truth G m (mkNode K_BITVECTOR_SDIVO [a, b]) \<longleftrightarrow>
      sval G m b \<noteq> 0 \<and> \<not> fits_signed (getSize b) (signed_quot (sval G m a) (sval G m b))"
  using bv_term_value(2) [OF assms(1), of m] assms(3) sval_toSigned [OF assms(1), of m] sval_toSigned [OF assms(2), of m]
  by (simp_all add: val_def bvval_def truth_def eval_kind_defs eval_smtlib_def)

lemma val_const [term_simps]: "val G m (CONST_BITVECTOR b) = d_value b"
  by (simp add: val_def bvval_const)

lemma mkConst_term [term_simps]:
  assumes "0 < w" "w < 2 ^ 32"
  shows "bv_term (mkConst G w v)" "getSize (mkConst G w v) = w" "val G m (mkConst G w v) = take_bit w v"
  using const_term [of "mk_bv G w v"] assms by (simp_all add: mkConst_def val_const)

end

section \<open>Replacing a term\<close>

lemma getType_children:
  assumes "getType (mkNode k ns) = Some T" "firstClass (mkNode k ns)"
  obtains ts where "list_all2 (\<lambda>n t. getType n = Some t) ns ts" "kind_arity k (length ns)"
    "kind_type k ts = Some T" "valid_type T" "\<forall>n\<in>set ns. firstClass n"
  using getType_mkNode [OF assms(1)] assms(2) by (auto simp: list_all_iff)

context gmp_documented
begin

lemma rewrites_bv:
  assumes "bv_term n" "bv_term n'" "getSize n' = getSize n" "\<And>m. val G m n' = val G m n"
  shows "rewrites_to G n n'"
proof -
  have "eval G m n' = eval G m n" for m
    using bv_term_value(3) [OF assms(1), of m] bv_term_value(3) [OF assms(2), of m] assms(3,4)
    by (simp add: bvval_record [OF assms(1)] bvval_record [OF assms(2)])
  then show ?thesis
    using bv_termD [OF assms(1)] bv_termD [OF assms(2)] assms(3) by (simp add: rewrites_to_def)
qed

end

end
