(* ===== verification/Bv_Elimination.thy ===== *)
theory Bv_Elimination
  imports Bv_Terms
begin

text \<open>
  The rules of \<^verbatim>\<open>theory/bv/theory_bv_rewrite_rules_operator_elimination.h\<close>, which express derived
  bit-vector operators by other ones, with the constructors of \<^verbatim>\<open>theory/bv/theory_bv_utils.cpp\<close>
  they use and the rule combinators of \<^verbatim>\<open>theory_bv_rewrite_rules.h\<close>.

  \<^verbatim>\<open>RewriteRule<X>::applies\<close> is \<open>X_applies\<close> and \<^verbatim>\<open>RewriteRule<X>::apply\<close> is \<open>X\<close>.  The subtractions
  on widths are on natural numbers: the width of a bit-vector term is positive, so that none of
  the unsigned subtractions of the code wraps.
\<close>

section \<open>Rules and strategies\<close>

type_synonym rewrite_rule = "(node \<Rightarrow> bool) \<times> (node \<Rightarrow> node)"

definition run_rule :: "bool \<Rightarrow> rewrite_rule \<Rightarrow> node \<Rightarrow> node" where
  "run_rule checkApplies rule n = (if \<not> checkApplies \<or> fst rule n then snd rule n else n)"

definition LinearRewriteStrategy :: "rewrite_rule list \<Rightarrow> node \<Rightarrow> node" where
  "LinearRewriteStrategy rules n =
     fold (\<lambda>rule current. if fst rule current then run_rule False rule current else current) rules n"

section \<open>Constructors\<close>

definition mkExtract :: "node \<Rightarrow> nat \<Rightarrow> nat \<Rightarrow> node" where
  "mkExtract n high low = mkNode (K_BITVECTOR_EXTRACT high low) [n]"

definition mkConcat :: "node \<Rightarrow> node \<Rightarrow> node" where
  "mkConcat t1 t2 = mkNode K_BITVECTOR_CONCAT [t1, t2]"

definition mkSignExtend :: "node \<Rightarrow> nat \<Rightarrow> node" where
  "mkSignExtend n amount = mkNode (K_BITVECTOR_SIGN_EXTEND amount) [n]"

definition utils_mkZero :: "gmp \<Rightarrow> nat \<Rightarrow> node" where
  "utils_mkZero G sz = mkConst G sz 0"

definition utils_mkOne :: "gmp \<Rightarrow> nat \<Rightarrow> node" where
  "utils_mkOne G sz = mkConst G sz 1"

definition utils_mkOnes :: "gmp \<Rightarrow> nat \<Rightarrow> node" where
  "utils_mkOnes G sz = CONST_BITVECTOR (bv_mkOnes G sz)"

definition utils_mkMinSigned :: "gmp \<Rightarrow> nat \<Rightarrow> node" where
  "utils_mkMinSigned G sz = CONST_BITVECTOR (bv_mkMinSigned G sz)"

section \<open>Comparisons and bitwise operators\<close>

definition UgtEliminate_applies :: "node \<Rightarrow> bool" where
  "UgtEliminate_applies n = (isKind K_BITVECTOR_UGT n)"

definition UgtEliminate :: "node \<Rightarrow> node" where
  "UgtEliminate n = (let a = child n 0; b = child n 1 in mkNode K_BITVECTOR_ULT [b, a])"

definition UgeEliminate_applies :: "node \<Rightarrow> bool" where
  "UgeEliminate_applies n = (isKind K_BITVECTOR_UGE n)"

definition UgeEliminate :: "node \<Rightarrow> node" where
  "UgeEliminate n = (let a = child n 0; b = child n 1 in mkNode K_BITVECTOR_ULE [b, a])"

definition SgtEliminate_applies :: "node \<Rightarrow> bool" where
  "SgtEliminate_applies n = (isKind K_BITVECTOR_SGT n)"

definition SgtEliminate :: "node \<Rightarrow> node" where
  "SgtEliminate n = (let a = child n 0; b = child n 1 in mkNode K_BITVECTOR_SLT [b, a])"

definition SgeEliminate_applies :: "node \<Rightarrow> bool" where
  "SgeEliminate_applies n = (isKind K_BITVECTOR_SGE n)"

definition SgeEliminate :: "node \<Rightarrow> node" where
  "SgeEliminate n = (let a = child n 0; b = child n 1 in mkNode K_BITVECTOR_SLE [b, a])"

definition SleEliminate_applies :: "node \<Rightarrow> bool" where
  "SleEliminate_applies n = (isKind K_BITVECTOR_SLE n)"

definition SleEliminate :: "node \<Rightarrow> node" where
  "SleEliminate n =
     (let a = child n 0; b = child n 1; b_slt_a = mkNode K_BITVECTOR_SLT [b, a] in mkNode K_NOT [b_slt_a])"

definition UleEliminate_applies :: "node \<Rightarrow> bool" where
  "UleEliminate_applies n = (isKind K_BITVECTOR_ULE n)"

definition UleEliminate :: "node \<Rightarrow> node" where
  "UleEliminate n =
     (let a = child n 0; b = child n 1; b_ult_a = mkNode K_BITVECTOR_ULT [b, a] in mkNode K_NOT [b_ult_a])"

definition SubEliminate_applies :: "node \<Rightarrow> bool" where
  "SubEliminate_applies n = (isKind K_BITVECTOR_SUB n)"

definition SubEliminate :: "node \<Rightarrow> node" where
  "SubEliminate n =
     (let negb = mkNode K_BITVECTOR_NEG [child n 1]; a = child n 0 in mkNode K_BITVECTOR_ADD [a, negb])"

definition NandEliminate_applies :: "node \<Rightarrow> bool" where
  "NandEliminate_applies n = (isKind K_BITVECTOR_NAND n \<and> length (children n) = 2)"

definition NandEliminate :: "node \<Rightarrow> node" where
  "NandEliminate n =
     (let a = child n 0; b = child n 1; andNode = mkNode K_BITVECTOR_AND [a, b] in mkNode K_BITVECTOR_NOT [andNode])"

definition NorEliminate_applies :: "node \<Rightarrow> bool" where
  "NorEliminate_applies n = (isKind K_BITVECTOR_NOR n \<and> length (children n) = 2)"

definition NorEliminate :: "node \<Rightarrow> node" where
  "NorEliminate n =
     (let a = child n 0; b = child n 1; orNode = mkNode K_BITVECTOR_OR [a, b] in mkNode K_BITVECTOR_NOT [orNode])"

definition XnorEliminate_applies :: "node \<Rightarrow> bool" where
  "XnorEliminate_applies n = (isKind K_BITVECTOR_XNOR n \<and> length (children n) = 2)"

definition XnorEliminate :: "node \<Rightarrow> node" where
  "XnorEliminate n =
     (let a = child n 0; b = child n 1; xorNode = mkNode K_BITVECTOR_XOR [a, b] in mkNode K_BITVECTOR_NOT [xorNode])"

section \<open>Operators with an amount\<close>

definition RepeatEliminate_applies :: "node \<Rightarrow> bool" where
  "RepeatEliminate_applies n =
     (case n of mkNode k ns \<Rightarrow> (case k of K_BITVECTOR_REPEAT i \<Rightarrow> True | _ \<Rightarrow> False) | _ \<Rightarrow> False)"

definition repeatAmount :: "node \<Rightarrow> nat" where
  "repeatAmount n =
     (case n of mkNode k ns \<Rightarrow> (case k of K_BITVECTOR_REPEAT i \<Rightarrow> i | _ \<Rightarrow> 0) | _ \<Rightarrow> 0)"

definition RotateLeftEliminate_applies :: "node \<Rightarrow> bool" where
  "RotateLeftEliminate_applies n =
     (case n of mkNode k ns \<Rightarrow> (case k of K_BITVECTOR_ROTATE_LEFT i \<Rightarrow> True | _ \<Rightarrow> False) | _ \<Rightarrow> False)"

definition rotateLeftAmount :: "node \<Rightarrow> nat" where
  "rotateLeftAmount n =
     (case n of mkNode k ns \<Rightarrow> (case k of K_BITVECTOR_ROTATE_LEFT i \<Rightarrow> i | _ \<Rightarrow> 0) | _ \<Rightarrow> 0)"

definition RotateRightEliminate_applies :: "node \<Rightarrow> bool" where
  "RotateRightEliminate_applies n =
     (case n of mkNode k ns \<Rightarrow> (case k of K_BITVECTOR_ROTATE_RIGHT i \<Rightarrow> True | _ \<Rightarrow> False) | _ \<Rightarrow> False)"

definition rotateRightAmount :: "node \<Rightarrow> nat" where
  "rotateRightAmount n =
     (case n of mkNode k ns \<Rightarrow> (case k of K_BITVECTOR_ROTATE_RIGHT i \<Rightarrow> i | _ \<Rightarrow> 0) | _ \<Rightarrow> 0)"

definition ZeroExtendEliminate_applies :: "node \<Rightarrow> bool" where
  "ZeroExtendEliminate_applies n =
     (case n of mkNode k ns \<Rightarrow> (case k of K_BITVECTOR_ZERO_EXTEND i \<Rightarrow> True | _ \<Rightarrow> False) | _ \<Rightarrow> False)"

definition zeroExtendAmount :: "node \<Rightarrow> nat" where
  "zeroExtendAmount n =
     (case n of mkNode k ns \<Rightarrow> (case k of K_BITVECTOR_ZERO_EXTEND i \<Rightarrow> i | _ \<Rightarrow> 0) | _ \<Rightarrow> 0)"

definition RepeatEliminate :: "node \<Rightarrow> node" where
  "RepeatEliminate n =
     (let a = child n 0; amount = repeatAmount n
      in if amount = 1 then a else mkNode K_BITVECTOR_CONCAT (replicate amount (child n 0)))"

definition RotateLeftEliminate :: "node \<Rightarrow> node" where
  "RotateLeftEliminate n =
     (let a = child n 0; amount = rotateLeftAmount n mod getSize a
      in if amount = 0 then a
         else let aSize = getSize a;
                  left = mkExtract a (aSize - 1 - amount) 0;
                  right = mkExtract a (aSize - 1) (aSize - amount)
              in mkConcat left right)"

definition RotateRightEliminate :: "node \<Rightarrow> node" where
  "RotateRightEliminate n =
     (let a = child n 0; amount = rotateRightAmount n mod getSize a
      in if amount = 0 then a
         else let left = mkExtract a (amount - 1) 0;
                  right = mkExtract a (getSize a - 1) amount
              in mkConcat left right)"

definition ZeroExtendEliminate :: "gmp \<Rightarrow> node \<Rightarrow> node" where
  "ZeroExtendEliminate G n =
     (let amount = zeroExtendAmount n
      in if amount = 0 then child n 0
         else let zero = mkConst G amount 0 in mkConcat zero (child n 0))"

section \<open>Signed division\<close>

definition SdivEliminate_applies :: "node \<Rightarrow> bool" where
  "SdivEliminate_applies n = (isKind K_BITVECTOR_SDIV n)"

definition SdivEliminate :: "gmp \<Rightarrow> node \<Rightarrow> node" where
  "SdivEliminate G n =
     (let a = child n 0; b = child n 1; sz = getSize a;
          one = mkConst G 1 1;
          a_lt_0 = mkNode K_EQUAL [mkExtract a (sz - 1) (sz - 1), one];
          b_lt_0 = mkNode K_EQUAL [mkExtract b (sz - 1) (sz - 1), one];
          abs_a = mkNode K_ITE [a_lt_0, mkNode K_BITVECTOR_NEG [a], a];
          abs_b = mkNode K_ITE [b_lt_0, mkNode K_BITVECTOR_NEG [b], b];
          a_udiv_b = mkNode K_BITVECTOR_UDIV [abs_a, abs_b];
          neg_result = mkNode K_BITVECTOR_NEG [a_udiv_b];
          condition = mkNode K_XOR [a_lt_0, b_lt_0]
      in mkNode K_ITE [condition, neg_result, a_udiv_b])"

definition SremEliminate_applies :: "node \<Rightarrow> bool" where
  "SremEliminate_applies n = (isKind K_BITVECTOR_SREM n)"

definition SremEliminate :: "gmp \<Rightarrow> node \<Rightarrow> node" where
  "SremEliminate G n =
     (let a = child n 0; b = child n 1; sz = getSize a;
          one = mkConst G 1 1;
          a_lt_0 = mkNode K_EQUAL [mkExtract a (sz - 1) (sz - 1), one];
          b_lt_0 = mkNode K_EQUAL [mkExtract b (sz - 1) (sz - 1), one];
          abs_a = mkNode K_ITE [a_lt_0, mkNode K_BITVECTOR_NEG [a], a];
          abs_b = mkNode K_ITE [b_lt_0, mkNode K_BITVECTOR_NEG [b], b];
          a_urem_b = mkNode K_BITVECTOR_UREM [abs_a, abs_b];
          neg_result = mkNode K_BITVECTOR_NEG [a_urem_b]
      in mkNode K_ITE [a_lt_0, neg_result, a_urem_b])"

definition SmodEliminate_applies :: "node \<Rightarrow> bool" where
  "SmodEliminate_applies n = (isKind K_BITVECTOR_SMOD n)"

definition SmodEliminate :: "gmp \<Rightarrow> node \<Rightarrow> node" where
  "SmodEliminate G n =
     (let s = child n 0; t = child n 1; sz = getSize s;
          msb_s = mkExtract s (sz - 1) (sz - 1);
          msb_t = mkExtract t (sz - 1) (sz - 1);
          bit1 = mkConst G 1 1;
          bit0 = mkConst G 1 0;
          abs_s = iteNode (eqNode msb_s bit0) s (mkNode K_BITVECTOR_NEG [s]);
          abs_t = iteNode (eqNode msb_t bit0) t (mkNode K_BITVECTOR_NEG [t]);
          u = mkNode K_BITVECTOR_UREM [abs_s, abs_t];
          neg_u = mkNode K_BITVECTOR_NEG [u];
          cond0 = eqNode u (mkConst G sz 0);
          cond1 = andNode (eqNode msb_s bit0) (eqNode msb_t bit0);
          cond2 = andNode (eqNode msb_s bit1) (eqNode msb_t bit0);
          cond3 = andNode (eqNode msb_s bit0) (eqNode msb_t bit1)
      in iteNode cond0 u
           (iteNode cond1 u
             (iteNode cond2 (mkNode K_BITVECTOR_ADD [neg_u, t])
               (iteNode cond3 (mkNode K_BITVECTOR_ADD [u, t]) neg_u))))"

section \<open>Reductions and overflow predicates\<close>

definition RedorEliminate_applies :: "node \<Rightarrow> bool" where
  "RedorEliminate_applies n = (isKind K_BITVECTOR_REDOR n)"

definition RedorEliminate :: "gmp \<Rightarrow> node \<Rightarrow> node" where
  "RedorEliminate G n =
     (let a = child n 0; sz = getSize (child n 0)
      in mkNode K_BITVECTOR_NOT [mkNode K_BITVECTOR_COMP [a, mkConst G sz 0]])"

definition RedandEliminate_applies :: "node \<Rightarrow> bool" where
  "RedandEliminate_applies n = (isKind K_BITVECTOR_REDAND n)"

definition RedandEliminate :: "gmp \<Rightarrow> node \<Rightarrow> node" where
  "RedandEliminate G n =
     (let a = child n 0; sz = getSize (child n 0) in mkNode K_BITVECTOR_COMP [a, utils_mkOnes G sz])"

definition NegoEliminate_applies :: "node \<Rightarrow> bool" where
  "NegoEliminate_applies n = (isKind K_BITVECTOR_NEGO n)"

definition NegoEliminate :: "gmp \<Rightarrow> node \<Rightarrow> node" where
  "NegoEliminate G n = mkNode K_EQUAL [child n 0, utils_mkMinSigned G (getSize (child n 0))]"

definition UaddoEliminate_applies :: "node \<Rightarrow> bool" where
  "UaddoEliminate_applies n = (isKind K_BITVECTOR_UADDO n)"

definition UaddoEliminate :: "gmp \<Rightarrow> node \<Rightarrow> node" where
  "UaddoEliminate G n =
     (let bvZero = utils_mkZero G 1; bvOne = utils_mkOne G 1;
          add = mkNode K_BITVECTOR_ADD [mkConcat bvZero (child n 0), mkConcat bvZero (child n 1)];
          sz = getSize add
      in mkNode K_EQUAL [mkExtract add (sz - 1) (sz - 1), bvOne])"

definition SaddoEliminate_applies :: "node \<Rightarrow> bool" where
  "SaddoEliminate_applies n = (isKind K_BITVECTOR_SADDO n)"

definition SaddoEliminate :: "gmp \<Rightarrow> node \<Rightarrow> node" where
  "SaddoEliminate G n =
     (let sz = getSize (child n 0);
          zero = utils_mkZero G 1; one = utils_mkOne G 1;
          sign0 = mkExtract (child n 0) (sz - 1) (sz - 1);
          sign1 = mkExtract (child n 1) (sz - 1) (sz - 1);
          add = mkNode K_BITVECTOR_ADD [child n 0, child n 1];
          signa = mkExtract add (sz - 1) (sz - 1);
          both_neg = mkNode K_AND [mkNode K_EQUAL [sign0, one], mkNode K_EQUAL [sign1, one]];
          both_pos = mkNode K_AND [mkNode K_EQUAL [sign0, zero], mkNode K_EQUAL [sign1, zero]];
          result_neg = mkNode K_EQUAL [signa, one];
          result_pos = mkNode K_EQUAL [signa, zero]
      in mkNode K_OR [mkNode K_AND [both_neg, result_pos], mkNode K_AND [both_pos, result_neg]])"

definition UmuloEliminate_applies :: "node \<Rightarrow> bool" where
  "UmuloEliminate_applies n = (isKind K_BITVECTOR_UMULO n)"

text \<open>The loop keeps the disjunction \<open>uppc\<close> of the upper bits of the first factor and collects \<open>tmp\<close>.\<close>

definition umulo_step :: "node \<Rightarrow> node \<Rightarrow> nat \<Rightarrow> nat \<Rightarrow> node \<times> node list \<Rightarrow> node \<times> node list" where
  "umulo_step a b sz i st =
     (let (uppc, tmp) = st
      in (mkNode K_BITVECTOR_OR [mkExtract a (sz - 1 - i) (sz - 1 - i), uppc],
          tmp @ [mkNode K_BITVECTOR_AND [mkExtract b i i, uppc]]))"

definition UmuloEliminate :: "gmp \<Rightarrow> node \<Rightarrow> node" where
  "UmuloEliminate G n =
     (let sz = getSize (child n 0)
      in if sz = 1 then CONST_BOOLEAN False
         else let uppc = mkExtract (child n 0) (sz - 1) (sz - 1);
                  (uppc, tmp) = fold (umulo_step (child n 0) (child n 1) sz) [1..<sz] (uppc, []);
                  bvZero = utils_mkZero G 1;
                  zext_t1 = mkConcat bvZero (child n 0);
                  zext_t2 = mkConcat bvZero (child n 1);
                  mul = mkNode K_BITVECTOR_MULT [zext_t1, zext_t2];
                  tmp = tmp @ [mkExtract mul sz sz]
              in mkNode K_EQUAL [mkNode K_BITVECTOR_OR tmp, utils_mkOne G 1])"

definition SmuloEliminate_applies :: "node \<Rightarrow> bool" where
  "SmuloEliminate_applies n = (isKind K_BITVECTOR_SMULO n)"

definition smulo_step :: "node \<Rightarrow> node \<Rightarrow> nat \<Rightarrow> nat \<Rightarrow> node \<times> node \<Rightarrow> node \<times> node" where
  "smulo_step xor0 xor1 sz i st =
     (let (ppc, res) = st;
          ppc = mkNode K_BITVECTOR_OR [ppc, mkExtract xor0 (sz - 2 - i) (sz - 2 - i)]
      in (ppc, mkNode K_BITVECTOR_OR [res, mkNode K_BITVECTOR_AND [mkExtract xor1 (i + 1) (i + 1), ppc]]))"

definition SmuloEliminate :: "gmp \<Rightarrow> node \<Rightarrow> node" where
  "SmuloEliminate G n =
     (let sz = getSize (child n 0); one = utils_mkOne G 1
      in if sz = 1 then mkNode K_EQUAL [mkNode K_BITVECTOR_AND [child n 0, child n 1], one]
         else let mul = mkNode K_BITVECTOR_MULT [mkSignExtend (child n 0) 1, mkSignExtend (child n 1) 1];
                  top = mkNode K_BITVECTOR_XOR [mkExtract mul sz sz, mkExtract mul (sz - 1) (sz - 1)]
              in if sz = 2 then mkNode K_EQUAL [top, one]
                 else let sign0 = mkExtract (child n 0) (sz - 1) (sz - 1);
                          sign1 = mkExtract (child n 1) (sz - 1) (sz - 1);
                          xor0 = mkNode K_BITVECTOR_XOR [child n 0, mkSignExtend sign0 (sz - 1)];
                          xor1 = mkNode K_BITVECTOR_XOR [child n 1, mkSignExtend sign1 (sz - 1)];
                          ppc = mkExtract xor0 (sz - 2) (sz - 2);
                          res = mkNode K_BITVECTOR_AND [mkExtract xor1 1 1, ppc];
                          (ppc, res) = fold (smulo_step xor0 xor1 sz) [1..<sz - 2] (ppc, res)
                      in mkNode K_EQUAL [mkNode K_BITVECTOR_OR [res, top], one])"

definition UsuboEliminate_applies :: "node \<Rightarrow> bool" where
  "UsuboEliminate_applies n = (isKind K_BITVECTOR_USUBO n)"

definition UsuboEliminate :: "gmp \<Rightarrow> node \<Rightarrow> node" where
  "UsuboEliminate G n =
     (let one = utils_mkOne G 1;
          sub = mkNode K_BITVECTOR_SUB
            [mkNode (K_BITVECTOR_ZERO_EXTEND 1) [child n 0], mkNode (K_BITVECTOR_ZERO_EXTEND 1) [child n 1]];
          sz = getSize sub
      in mkNode K_EQUAL [mkExtract sub (sz - 1) (sz - 1), one])"

definition SsuboEliminate_applies :: "node \<Rightarrow> bool" where
  "SsuboEliminate_applies n = (isKind K_BITVECTOR_SSUBO n)"

definition SsuboEliminate :: "gmp \<Rightarrow> node \<Rightarrow> node" where
  "SsuboEliminate G n =
     (let sz = getSize (child n 0);
          zero = utils_mkZero G 1; one = utils_mkOne G 1;
          sign0 = mkExtract (child n 0) (sz - 1) (sz - 1);
          sign1 = mkExtract (child n 1) (sz - 1) (sz - 1);
          sub = mkNode K_BITVECTOR_SUB [child n 0, child n 1];
          signs = mkExtract sub (sz - 1) (sz - 1);
          neg_pos = mkNode K_AND [mkNode K_EQUAL [sign0, one], mkNode K_EQUAL [sign1, zero]];
          pos_neg = mkNode K_AND [mkNode K_EQUAL [sign0, zero], mkNode K_EQUAL [sign1, one]];
          result_neg = mkNode K_EQUAL [signs, one];
          result_pos = mkNode K_EQUAL [signs, zero]
      in mkNode K_OR [mkNode K_AND [neg_pos, result_pos], mkNode K_AND [pos_neg, result_neg]])"

definition SdivoEliminate_applies :: "node \<Rightarrow> bool" where
  "SdivoEliminate_applies n = (isKind K_BITVECTOR_SDIVO n)"

definition SdivoEliminate :: "gmp \<Rightarrow> node \<Rightarrow> node" where
  "SdivoEliminate G n =
     (let sz = getSize (child n 0)
      in mkNode K_AND [mkNode K_EQUAL [child n 0, utils_mkMinSigned G sz],
           mkNode K_EQUAL [child n 1, utils_mkOnes G sz]])"

text \<open>\<^verbatim>\<open>TheoryBVRewriter::eliminateOverflows\<close>.\<close>

definition eliminateOverflows :: "gmp \<Rightarrow> node \<Rightarrow> node" where
  "eliminateOverflows G n =
     (if UaddoEliminate_applies n then UaddoEliminate G n
      else if SaddoEliminate_applies n then SaddoEliminate G n
      else if UmuloEliminate_applies n then UmuloEliminate G n
      else if SmuloEliminate_applies n then SmuloEliminate G n
      else if UsuboEliminate_applies n then UsuboEliminate G n
      else if SsuboEliminate_applies n then SsuboEliminate G n
      else n)"

section \<open>The entries of the rewrite table\<close>

text \<open>
  The methods of \<^verbatim>\<open>TheoryBVRewriter\<close> for the operators that are always eliminated, and the one for
  the overflow predicates, which are kept unless their arguments are constants.
\<close>

definition RewriteSgt :: "gmp \<Rightarrow> node \<Rightarrow> RewriteResponse" where
  "RewriteSgt G n = (REWRITE_AGAIN, LinearRewriteStrategy [(SgtEliminate_applies, SgtEliminate)] n)"

definition RewriteUge :: "gmp \<Rightarrow> node \<Rightarrow> RewriteResponse" where
  "RewriteUge G n = (REWRITE_AGAIN, LinearRewriteStrategy [(UgeEliminate_applies, UgeEliminate)] n)"

definition RewriteSge :: "gmp \<Rightarrow> node \<Rightarrow> RewriteResponse" where
  "RewriteSge G n = (REWRITE_AGAIN_FULL, LinearRewriteStrategy [(SgeEliminate_applies, SgeEliminate)] n)"

definition RewriteXnor :: "gmp \<Rightarrow> node \<Rightarrow> RewriteResponse" where
  "RewriteXnor G n = (REWRITE_AGAIN_FULL, LinearRewriteStrategy [(XnorEliminate_applies, XnorEliminate)] n)"

definition RewriteNand :: "gmp \<Rightarrow> node \<Rightarrow> RewriteResponse" where
  "RewriteNand G n = (REWRITE_AGAIN_FULL, LinearRewriteStrategy [(NandEliminate_applies, NandEliminate)] n)"

definition RewriteNor :: "gmp \<Rightarrow> node \<Rightarrow> RewriteResponse" where
  "RewriteNor G n = (REWRITE_AGAIN_FULL, LinearRewriteStrategy [(NorEliminate_applies, NorEliminate)] n)"

definition RewriteSub :: "gmp \<Rightarrow> node \<Rightarrow> RewriteResponse" where
  "RewriteSub G n = (REWRITE_AGAIN_FULL, LinearRewriteStrategy [(SubEliminate_applies, SubEliminate)] n)"

definition RewriteSmod :: "gmp \<Rightarrow> node \<Rightarrow> RewriteResponse" where
  "RewriteSmod G n = (REWRITE_AGAIN_FULL, LinearRewriteStrategy [(SmodEliminate_applies, SmodEliminate G)] n)"

definition RewriteSdiv :: "gmp \<Rightarrow> node \<Rightarrow> RewriteResponse" where
  "RewriteSdiv G n = (REWRITE_AGAIN_FULL, LinearRewriteStrategy [(SdivEliminate_applies, SdivEliminate G)] n)"

definition RewriteSrem :: "gmp \<Rightarrow> node \<Rightarrow> RewriteResponse" where
  "RewriteSrem G n = (REWRITE_AGAIN_FULL, LinearRewriteStrategy [(SremEliminate_applies, SremEliminate G)] n)"

definition RewriteRepeat :: "gmp \<Rightarrow> node \<Rightarrow> RewriteResponse" where
  "RewriteRepeat G n = (REWRITE_AGAIN_FULL, LinearRewriteStrategy [(RepeatEliminate_applies, RepeatEliminate)] n)"

definition RewriteZeroExtend :: "gmp \<Rightarrow> node \<Rightarrow> RewriteResponse" where
  "RewriteZeroExtend G n = (REWRITE_AGAIN, LinearRewriteStrategy [(ZeroExtendEliminate_applies, ZeroExtendEliminate G)] n)"

definition RewriteRotateRight :: "gmp \<Rightarrow> node \<Rightarrow> RewriteResponse" where
  "RewriteRotateRight G n = (REWRITE_AGAIN_FULL, LinearRewriteStrategy [(RotateRightEliminate_applies, RotateRightEliminate)] n)"

definition RewriteRotateLeft :: "gmp \<Rightarrow> node \<Rightarrow> RewriteResponse" where
  "RewriteRotateLeft G n = (REWRITE_AGAIN_FULL, LinearRewriteStrategy [(RotateLeftEliminate_applies, RotateLeftEliminate)] n)"

definition RewriteRedor :: "gmp \<Rightarrow> node \<Rightarrow> RewriteResponse" where
  "RewriteRedor G n = (REWRITE_AGAIN_FULL, LinearRewriteStrategy [(RedorEliminate_applies, RedorEliminate G)] n)"

definition RewriteRedand :: "gmp \<Rightarrow> node \<Rightarrow> RewriteResponse" where
  "RewriteRedand G n = (REWRITE_AGAIN_FULL, LinearRewriteStrategy [(RedandEliminate_applies, RedandEliminate G)] n)"

definition RewriteNego :: "gmp \<Rightarrow> node \<Rightarrow> RewriteResponse" where
  "RewriteNego G n = (REWRITE_AGAIN, LinearRewriteStrategy [(NegoEliminate_applies, NegoEliminate G)] n)"

definition RewriteSdivo :: "gmp \<Rightarrow> node \<Rightarrow> RewriteResponse" where
  "RewriteSdivo G n = (REWRITE_AGAIN, LinearRewriteStrategy [(SdivoEliminate_applies, SdivoEliminate G)] n)"

definition RewriteOverflow :: "gmp \<Rightarrow> node \<Rightarrow> RewriteResponse" where
  "RewriteOverflow G n =
     (if list_all isConst (children n) then (REWRITE_AGAIN_FULL, eliminateOverflows G n)
      else (REWRITE_DONE, n))"

definition expandDefinition :: "gmp \<Rightarrow> node \<Rightarrow> node" where
  "expandDefinition G n = eliminateOverflows G n"

end
