(* ===== verification/Bv_Elimination_Correct.thy ===== *)
theory Bv_Elimination_Correct
  imports Bv_Elimination
begin

text \<open>
  Soundness of the elimination rules: each replaces a term by a term of the same type with the
  same value in every model.  The values of signed division, rotation and the overflow
  predicates are those of the SMT-LIB standard, on integers.
\<close>

section \<open>Children of a well-typed node\<close>

lemma rewrites_typedI:
  "(\<And>T. firstClass n \<Longrightarrow> getType n = Some T \<Longrightarrow> rewrites_to G n n') \<Longrightarrow> rewrites_to G n n'"
  by (auto simp: rewrites_to_def)

lemma binary_children:
  assumes "getType (mkNode k ns) = Some T" "firstClass (mkNode k ns)" "k \<in> binary_kinds"
  obtains a b where "ns = [a, b]" "bv_term a" "bv_term b" "getSize a = getSize b"
proof -
  have "kind_arity k (length ns)" and fw: "kind_type k = BitVectorFixedWidthTypeRule" and fc: "\<forall>n\<in>set ns. firstClass n"
    using getType_mkNode [OF assms(1)] assms(2,3) by (auto simp: kind_type_def list_all_iff)
  then obtain a b where ns: "ns = [a, b]"
    using assms(3) by (auto simp: kind_arity_def length_Suc_conv numeral_2_eq_2)
  then show ?thesis
    using fixed_width_children [OF assms(1)] fw fc that [OF ns] by (auto simp: bv_term_def getSize_def)
qed

lemma unary_children:
  assumes "getType (mkNode k ns) = Some T" "firstClass (mkNode k ns)"
    "k \<in> {K_BITVECTOR_REDAND, K_BITVECTOR_REDOR, K_BITVECTOR_NEGO} \<union> range K_BITVECTOR_ROTATE_LEFT
      \<union> range K_BITVECTOR_ROTATE_RIGHT \<union> range K_BITVECTOR_ZERO_EXTEND \<union> range K_BITVECTOR_REPEAT"
  obtains a where "ns = [a]" "bv_term a"
proof -
  obtain ts where ts: "list_all2 (\<lambda>n t. getType n = Some t) ns ts" "kind_arity k (length ns)" "kind_type k ts = Some T"
    "valid_type T" "\<forall>n\<in>set ns. firstClass n"
    by (rule getType_children [OF assms(1,2)])
  then obtain a where ns: "ns = [a]"
    using assms(3) by (auto simp: kind_arity_def length_Suc_conv)
  with ts(1) obtain t where t: "ts = [t]" "getType a = Some t"
    by (auto simp: list_all2_Cons1)
  then have "isBitVector t"
    using ts(3) assms(3)
    by (auto simp: kind_type_def BitVectorRedTypeRule_def BitVectorPredicateTypeRule_def BitVectorFixedWidthTypeRule_def
        BitVectorExtendTypeRule_def BitVectorRepeatTypeRule_def split: if_splits)
  then show ?thesis
    using that [OF ns] t ts(5) ns by (auto simp: bv_term_def elim!: isBitVectorE)
qed

lemma predicate_children:
  assumes "getType (mkNode k ns) = Some T" "firstClass (mkNode k ns)" "k \<in> predicate_kinds - {K_EQUAL}"
  obtains a b where "ns = [a, b]" "bv_term a" "bv_term b" "getSize a = getSize b"
proof -
  obtain ts where ts: "list_all2 (\<lambda>n t. getType n = Some t) ns ts" "kind_arity k (length ns)" "kind_type k ts = Some T"
    "valid_type T" "\<forall>n\<in>set ns. firstClass n"
    by (rule getType_children [OF assms(1,2)])
  then obtain a b where ns: "ns = [a, b]"
    using assms(3) by (auto simp: kind_arity_def length_Suc_conv numeral_2_eq_2)
  with ts(1) obtain t u where t: "ts = [t, u]" "getType a = Some t" "getType b = Some u"
    by (auto simp: list_all2_Cons1)
  then have "isBitVector t" "t = u"
    using ts(3) assms(3) by (auto simp: kind_type_def BitVectorPredicateTypeRule_def split: if_splits)
  then show ?thesis
    using that [OF ns] t ts(5) ns by (auto simp: bv_term_def getSize_def elim!: isBitVectorE)
qed

lemma isKind_cases: "isKind k n \<Longrightarrow> (\<And>ns. n = mkNode k ns \<Longrightarrow> P) \<Longrightarrow> P"
  by (erule isKindE)

lemma rotate_split:
  fixes v :: int
  assumes "0 \<le> v" "v < 2 ^ w" "k \<le> w"
  shows "take_bit w (v * 2 ^ k + v div 2 ^ (w - k)) = take_bit (w - k) v * 2 ^ k + v div 2 ^ (w - k)"
proof -
  define q r where "q = v div 2 ^ (w - k)" and "r = v mod 2 ^ (w - k)"
  have p: "2 ^ (w - k) * 2 ^ k = (2 :: int) ^ w"
    using assms(3) by (simp flip: power_add)
  have v: "v * 2 ^ k = q * 2 ^ w + r * 2 ^ k"
    using div_mult_mod_eq [of v "2 ^ (w - k)"]
    unfolding q_def r_def p [symmetric] by (simp add: mult.assoc [symmetric] distrib_right [symmetric])
  have "q < 2 ^ k"
  proof (rule ccontr)
    assume "\<not> q < 2 ^ k"
    then have "2 ^ k * 2 ^ (w - k) \<le> q * 2 ^ (w - k)"
      by (intro mult_right_mono) simp_all
    moreover have "q * 2 ^ (w - k) \<le> v"
      using div_mult_mod_eq [of v "2 ^ (w - k)"] pos_mod_sign [OF zero_less_power, of 2 v "w - k"]
      unfolding q_def by linarith
    ultimately show False
      using assms(2) unfolding p [unfolded mult.commute [of "2 ^ (w - k)"]] by linarith
  qed
  moreover have "r + 1 \<le> 2 ^ (w - k)" "0 \<le> r" "0 \<le> q"
    using assms(1) by (simp_all add: r_def q_def zless_imp_add1_zle pos_imp_zdiv_nonneg_iff)
  moreover from this(1) have "(r + 1) * 2 ^ k \<le> 2 ^ w"
    unfolding p [symmetric] by (intro mult_right_mono) simp_all
  ultimately have "take_bit w (r * 2 ^ k + q) = r * 2 ^ k + q"
    by (intro take_bit_int_eq_self) (simp_all add: distrib_right)
  moreover have "take_bit w (v * 2 ^ k + q) = take_bit w (r * 2 ^ k + q)"
    unfolding v by (simp add: take_bit_eq_mod mod_simps add.assoc)
  ultimately show ?thesis
    by (simp add: q_def r_def take_bit_eq_mod)
qed

lemma extend_width:
  assumes "getType (mkNode (K_BITVECTOR_ZERO_EXTEND i) [a]) = Some T" "bv_term a"
  shows "getSize a + i < 2 ^ 32"
  using assms(1) bv_termD(2) [OF assms(2)]
  by (auto simp: kind_type_def BitVectorExtendTypeRule_def checkBvResultSize_def Let_def split: if_splits)

text \<open>Division of absolute values, with the sign put back, at a width.\<close>

lemma signed_division:
  fixes x y :: int
  assumes "\<bar>x\<bar> < 2 ^ w"
  shows "(if (x < 0) \<noteq> (y < 0) then take_bit w (- (if \<bar>y\<bar> = 0 then 2 ^ w - 1 else \<bar>x\<bar> div \<bar>y\<bar>))
      else if \<bar>y\<bar> = 0 then 2 ^ w - 1 else \<bar>x\<bar> div \<bar>y\<bar>) =
    take_bit w (if y = 0 then (if x < 0 then 1 else - 1) else signed_quot x y)"
proof (cases "y = 0")
  case True
  have "take_bit w (- (2 ^ w - 1)) = take_bit w (1 :: int)"
    using minus_mod_self2 [of "1 :: int" "2 ^ w"] by (simp only: take_bit_eq_mod minus_diff_eq)
  moreover have "take_bit w (- 1) = (2 ^ w - 1 :: int)"
    by (simp only: take_bit_minus_one_eq_mask mask_eq_exp_minus_1)
  ultimately show ?thesis
    using True by simp
next
  case False
  have "take_bit w (\<bar>x\<bar> div \<bar>y\<bar>) = \<bar>x\<bar> div \<bar>y\<bar>"
    using assms by (intro take_bit_div_mod) simp_all
  with False show ?thesis
    by (auto simp: signed_quot_def sgn_if)
qed

lemma signed_remainder:
  fixes x y :: int
  assumes "\<bar>x\<bar> < 2 ^ w"
  shows "(if x < 0 then take_bit w (- (\<bar>x\<bar> mod \<bar>y\<bar>)) else \<bar>x\<bar> mod \<bar>y\<bar>) =
    take_bit w (if y = 0 then x else x - y * signed_quot x y)"
proof -
  have "take_bit w (\<bar>x\<bar> mod \<bar>y\<bar>) = \<bar>x\<bar> mod \<bar>y\<bar>"
    using assms by (intro take_bit_div_mod) simp_all
  moreover have "(if y = 0 then x else x - y * signed_quot x y) = (if x < 0 then - (\<bar>x\<bar> mod \<bar>y\<bar>) else \<bar>x\<bar> mod \<bar>y\<bar>)"
  proof -
    have "y * (sgn y * q) = \<bar>y\<bar> * q" for q
      by (simp add: sgn_if)
    then have "x - y * signed_quot x y = x - sgn x * (\<bar>y\<bar> * (\<bar>x\<bar> div \<bar>y\<bar>))"
      by (simp add: signed_quot_def mult.left_commute mult.assoc)
    also have "\<dots> = sgn x * (\<bar>x\<bar> - \<bar>y\<bar> * (\<bar>x\<bar> div \<bar>y\<bar>))"
      by (simp add: right_diff_distrib sgn_mult_abs)
    also have "\<dots> = sgn x * (\<bar>x\<bar> mod \<bar>y\<bar>)"
      by (simp only: minus_mult_div_eq_mod)
    finally show ?thesis
      by (auto simp: sgn_if)
  qed
  ultimately show ?thesis
    by (simp only: if_distrib [of "take_bit w"] cong: if_cong)
qed

lemma signed_modulus:
  fixes x y :: int
  defines "u \<equiv> \<bar>x\<bar> mod \<bar>y\<bar>"
  assumes "\<bar>x\<bar> < 2 ^ w"
  shows "(if u = 0 then u
      else if 0 \<le> x \<and> 0 \<le> y then u
      else if x < 0 \<and> 0 \<le> y then take_bit w (take_bit w (- u) + take_bit w y)
      else if 0 \<le> x \<and> y < 0 then take_bit w (u + take_bit w y)
      else take_bit w (- u)) =
    take_bit w (if y = 0 then x else x mod y)"
proof -
  have u: "take_bit w u = u"
    unfolding u_def using assms(2) by (intro take_bit_div_mod) simp_all
  have neg: "(- a) mod b = (if a mod b = 0 then 0 else b - a mod b)" for a b :: int
    by (rule zmod_zminus1_eq_if)
  have neg2: "a mod (- b) = (if a mod b = 0 then 0 else a mod b - b)" for a b :: int
    by (rule zmod_zminus2_eq_if)
  have "(if y = 0 then x else x mod y) =
      (if u = 0 then u else if 0 \<le> x \<and> 0 \<le> y then u else if x < 0 \<and> 0 \<le> y then - u + y
       else if 0 \<le> x \<and> y < 0 then u + y else - u)"
    using neg [of "- x" y] neg2 [of x "- y"] neg2 [of x y] mod_minus_minus [of "- x" "- y"]
    by (auto simp: u_def abs_if)
  then show ?thesis
    using u by (simp add: take_bit_eq_mod mod_simps)
qed

text \<open>Wrapping an integer that is at most one range away.\<close>

lemma signed_wrap:
  fixes z :: int
  assumes "- (2 ^ Suc m) \<le> z" "z < 2 ^ Suc m"
  shows "signed_take_bit m z = (if 2 ^ m \<le> z then z - 2 ^ Suc m else if z < - (2 ^ m) then z + 2 ^ Suc m else z)"
proof -
  have "take_bit (Suc m) (z + 2 ^ m) = (if 2 ^ m \<le> z then z - 2 ^ m else if z < - (2 ^ m) then z + 3 * 2 ^ m else z + 2 ^ m)"
  proof -
    consider "2 ^ m \<le> z" | "z < - (2 ^ m)" | "- (2 ^ m) \<le> z" "z < 2 ^ m"
      by linarith
    then show ?thesis
    proof cases
      case 1
      have "take_bit (Suc m) (z + 2 ^ m) = take_bit (Suc m) (z - 2 ^ m + 2 ^ Suc m)"
        by (simp add: add.commute)
      also have "\<dots> = take_bit (Suc m) (z - 2 ^ m)"
        by (simp only: take_bit_eq_mod mod_add_self2)
      also have "\<dots> = z - 2 ^ m"
        using 1 assms(2) by (intro take_bit_int_eq_self) simp_all
      finally show ?thesis
        using 1 by simp
    next
      case 2
      have "take_bit (Suc m) (z + 2 ^ m) = take_bit (Suc m) (z + 2 ^ m + 2 ^ Suc m)"
        by (simp only: take_bit_eq_mod mod_add_self2)
      also have "\<dots> = z + 2 ^ m + 2 ^ Suc m"
        using 2 assms(1) by (intro take_bit_int_eq_self) simp_all
      finally have "take_bit (Suc m) (z + 2 ^ m) = z + 3 * 2 ^ m"
        by simp
      moreover have "\<not> 2 ^ m \<le> z"
        using 2 zero_less_power [of "2 :: int" m] by linarith
      ultimately show ?thesis
        using 2 by simp
    next
      case 3
      then have "take_bit (Suc m) (z + 2 ^ m) = z + 2 ^ m"
        by (intro take_bit_int_eq_self) simp_all
      with 3 show ?thesis
        by simp
    qed
  qed
  then show ?thesis
    by (simp add: signed_take_bit_eq_take_bit_shift add.commute)
qed

lemma signed_sum_overflow:
  fixes x y :: int
  assumes "\<And>z. z \<in> {x, y} \<Longrightarrow> - (2 ^ m) \<le> z \<and> z < 2 ^ m"
  shows "(x < 0 \<and> y < 0 \<and> \<not> signed_take_bit m (x + y) < 0 \<or> \<not> x < 0 \<and> \<not> y < 0 \<and> signed_take_bit m (x + y) < 0) \<longleftrightarrow>
      \<not> fits_signed (Suc m) (x + y)"
    "(x < 0 \<and> \<not> y < 0 \<and> \<not> signed_take_bit m (x - y) < 0 \<or> \<not> x < 0 \<and> y < 0 \<and> signed_take_bit m (x - y) < 0) \<longleftrightarrow>
      \<not> fits_signed (Suc m) (x - y)"
proof -
  have b: "- (2 ^ m) \<le> x" "x < 2 ^ m" "- (2 ^ m) \<le> y" "y < 2 ^ m"
    using assms by auto
  define s where "s = signed_take_bit m (x + y)"
  have "s = (if 2 ^ m \<le> x + y then x + y - 2 ^ Suc m else if x + y < - (2 ^ m) then x + y + 2 ^ Suc m else x + y)"
    unfolding s_def by (rule signed_wrap) (use b in simp_all)
  with b show "(x < 0 \<and> y < 0 \<and> \<not> signed_take_bit m (x + y) < 0 \<or> \<not> x < 0 \<and> \<not> y < 0 \<and> signed_take_bit m (x + y) < 0) \<longleftrightarrow>
      \<not> fits_signed (Suc m) (x + y)"
    unfolding s_def [symmetric] by (auto simp: fits_signed_def split: if_splits)
  define d where "d = signed_take_bit m (x - y)"
  have "d = (if 2 ^ m \<le> x - y then x - y - 2 ^ Suc m else if x - y < - (2 ^ m) then x - y + 2 ^ Suc m else x - y)"
    unfolding d_def by (rule signed_wrap) (use b in simp_all)
  with b show "(x < 0 \<and> \<not> y < 0 \<and> \<not> signed_take_bit m (x - y) < 0 \<or> \<not> x < 0 \<and> y < 0 \<and> signed_take_bit m (x - y) < 0) \<longleftrightarrow>
      \<not> fits_signed (Suc m) (x - y)"
    unfolding d_def [symmetric] by (auto simp: fits_signed_def split: if_splits)
qed

lemma signed_quot_overflow:
  fixes x y :: int
  assumes "- (2 ^ m) \<le> x" "x < 2 ^ m"
  shows "y \<noteq> 0 \<and> \<not> fits_signed (Suc m) (signed_quot x y) \<longleftrightarrow> x = - (2 ^ m) \<and> y = - 1"
proof -
  have le: "\<bar>x\<bar> div \<bar>y\<bar> \<le> \<bar>x\<bar>"
    using zdiv_mono2 [of "\<bar>x\<bar>" 1 "\<bar>y\<bar>"] by (cases "y = 0") auto
  have nonneg: "0 \<le> \<bar>x\<bar> div \<bar>y\<bar>"
    by (simp add: pos_imp_zdiv_nonneg_iff div_int_pos_iff)
  have strict: "\<bar>x\<bar> div \<bar>y\<bar> < \<bar>x\<bar>" if "1 < \<bar>y\<bar>" "x \<noteq> 0"
    using int_div_less_self [of "\<bar>x\<bar>" "\<bar>y\<bar>"] that by simp
  consider "y = 0" | "y = 1" | "y = - 1" | "1 < \<bar>y\<bar>"
    by linarith
  then show ?thesis
  proof cases
    case 4
    then show ?thesis
      using assms le nonneg strict by (cases "x = 0") (auto simp: fits_signed_def signed_quot_def sgn_if abs_if split: if_splits)
  qed (use assms in \<open>auto simp: fits_signed_def signed_quot_def sgn_if abs_if\<close>)
qed

lemma negation_overflow:
  fixes v :: int
  assumes "0 \<le> v" "v < 2 ^ Suc m"
  shows "v = 2 ^ m \<longleftrightarrow> \<not> fits_signed (Suc m) (- (v - of_bool (2 ^ m \<le> v) * 2 ^ Suc m))"
proof -
  define p :: int where "p = 2 ^ m"
  have "0 < p"
    by (simp add: p_def)
  with assms show ?thesis
    unfolding fits_signed_def power_Suc diff_Suc_1 p_def [symmetric] by auto
qed

context gmp_documented
begin

lemma rewrites_binary:
  assumes "isKind k n" "k \<in> binary_kinds"
    "\<And>a b. n = mkNode k [a, b] \<Longrightarrow> bv_term a \<Longrightarrow> bv_term b \<Longrightarrow> getSize a = getSize b \<Longrightarrow>
      bv_term n' \<and> getSize n' = getSize b \<and> (\<forall>m. val G m n' = val G m (mkNode k [a, b]))"
  shows "rewrites_to G n n'"
proof (rule rewrites_typedI)
  fix T
  assume t: "firstClass n" "getType n = Some T"
  obtain ns where n: "n = mkNode k ns"
    using assms(1) by (rule isKind_cases)
  obtain a b where ab: "ns = [a, b]" "bv_term a" "bv_term b" "getSize a = getSize b"
    by (rule binary_children [OF t(2) [unfolded n] t(1) [unfolded n] assms(2)])
  with assms(2,3) n show "rewrites_to G n n'"
    by (intro rewrites_bv) (auto simp: binary_term [THEN conjunct1] binary_term [THEN conjunct2])
qed

lemma rewrites_predicate:
  assumes "isKind k n" "k \<in> predicate_kinds - {K_EQUAL}"
    "\<And>a b. n = mkNode k [a, b] \<Longrightarrow> bv_term a \<Longrightarrow> bv_term b \<Longrightarrow> getSize a = getSize b \<Longrightarrow>
      sentence n' \<and> (\<forall>m. truth G m n' = truth G m (mkNode k [a, b]))"
  shows "rewrites_to G n n'"
proof (rule rewrites_typedI)
  fix T
  assume t: "firstClass n" "getType n = Some T"
  obtain ns where n: "n = mkNode k ns"
    using assms(1) by (rule isKind_cases)
  obtain a b where ab: "ns = [a, b]" "bv_term a" "bv_term b" "getSize a = getSize b"
    by (rule predicate_children [OF t(2) [unfolded n] t(1) [unfolded n] assms(2)])
  with assms(2,3) n show "rewrites_to G n n'"
    by (intro rewrites_bool) (auto simp: predicate_term)
qed

section \<open>Comparisons and bitwise operators\<close>

lemma comparison_rules_sound:
  "UgtEliminate_applies n \<Longrightarrow> rewrites_to G n (UgtEliminate n)"
  "UgeEliminate_applies n \<Longrightarrow> rewrites_to G n (UgeEliminate n)"
  "SgtEliminate_applies n \<Longrightarrow> rewrites_to G n (SgtEliminate n)"
  "SgeEliminate_applies n \<Longrightarrow> rewrites_to G n (SgeEliminate n)"
  "SleEliminate_applies n \<Longrightarrow> rewrites_to G n (SleEliminate n)"
  "UleEliminate_applies n \<Longrightarrow> rewrites_to G n (UleEliminate n)"
  unfolding UgtEliminate_applies_def UgeEliminate_applies_def SgtEliminate_applies_def SgeEliminate_applies_def
    SleEliminate_applies_def UleEliminate_applies_def
  by (erule rewrites_predicate, simp, simp add: UgtEliminate_def UgeEliminate_def SgtEliminate_def SgeEliminate_def
      SleEliminate_def UleEliminate_def Let_def child_def term_simps not_less)+

lemma bitwise_rules_sound:
  "SubEliminate_applies n \<Longrightarrow> rewrites_to G n (SubEliminate n)"
  "NandEliminate_applies n \<Longrightarrow> rewrites_to G n (NandEliminate n)"
  "NorEliminate_applies n \<Longrightarrow> rewrites_to G n (NorEliminate n)"
  "XnorEliminate_applies n \<Longrightarrow> rewrites_to G n (XnorEliminate n)"
  unfolding SubEliminate_applies_def NandEliminate_applies_def NorEliminate_applies_def XnorEliminate_applies_def
  by (erule rewrites_binary conjE, (erule rewrites_binary)?, simp, simp add: SubEliminate_def NandEliminate_def NorEliminate_def
      XnorEliminate_def Let_def child_def term_simps take_bit_eq_mod mod_simps)+

section \<open>Operators with an amount\<close>

lemma rewrites_rotate:
  assumes "n = mkNode k ns" "k \<in> range K_BITVECTOR_ROTATE_LEFT \<union> range K_BITVECTOR_ROTATE_RIGHT"
    "\<And>a. ns = [a] \<Longrightarrow> bv_term a \<Longrightarrow> bv_term n' \<and> getSize n' = getSize a \<and> (\<forall>m. val G m n' = val G m (mkNode k [a]))"
  shows "rewrites_to G n n'"
proof (rule rewrites_typedI)
  fix T
  assume t: "firstClass n" "getType n = Some T"
  obtain a where a: "ns = [a]" "bv_term a"
    by (rule unary_children [OF t(2) [unfolded assms(1)] t(1) [unfolded assms(1)]]) (use assms(2) in auto)
  with assms unary_term [OF a(2), of k] show "rewrites_to G n n'"
    by (intro rewrites_bv) auto
qed

lemma drop_bit_div:
  assumes "bv_term a" "k \<le> getSize a"
  shows "take_bit (getSize a - k) (drop_bit k (val G m a)) = val G m a div 2 ^ k"
proof -
  have "take_bit (getSize a - k) (drop_bit k (val G m a)) = drop_bit k (take_bit (getSize a) (val G m a))"
    using assms(2) by (simp only: take_bit_drop_bit le_add_diff_inverse2)
  then show ?thesis
    using val_bounds(3) [OF assms(1), of m] by (simp add: drop_bit_eq_div)
qed

lemma rotate_parts:
  assumes "bv_term a" "0 < k" "k < getSize a"
  shows "val G m (mkConcat (mkExtract a (k - 1) 0) (mkExtract a (getSize a - 1) k)) =
      take_bit (getSize a) (val G m a * 2 ^ (getSize a - k) + val G m a div 2 ^ k)"
    "bv_term (mkConcat (mkExtract a (k - 1) 0) (mkExtract a (getSize a - 1) k))"
    "getSize (mkConcat (mkExtract a (k - 1) 0) (mkExtract a (getSize a - 1) k)) = getSize a"
  using assms bv_term_width [OF assms(1)] drop_bit_div [OF assms(1), of k m]
    rotate_split [OF val_bounds(1,2) [OF assms(1), of m], of "getSize a - k"]
  by (simp_all add: mkExtract_def mkConcat_def term_simps Suc_diff_Suc del: power_Suc)

lemma RotateLeftEliminate_sound:
  assumes "RotateLeftEliminate_applies n"
  shows "rewrites_to G n (RotateLeftEliminate n)"
proof -
  obtain i ns where n: "n = mkNode (K_BITVECTOR_ROTATE_LEFT i) ns"
    using assms by (auto simp: RotateLeftEliminate_applies_def split: node.splits kind.splits)
  then show ?thesis
  proof (rule rewrites_rotate)
    fix a
    assume a: "ns = [a]" "bv_term a"
    define k where "k = getSize a - i mod getSize a"
    have k: "0 < k" "k \<le> getSize a" "i mod getSize a = getSize a - k"
      using bv_term_width(1) [OF a(2)] by (simp_all add: k_def)
    show "bv_term (RotateLeftEliminate n) \<and> getSize (RotateLeftEliminate n) = getSize a \<and>
        (\<forall>m. val G m (RotateLeftEliminate n) = val G m (mkNode (K_BITVECTOR_ROTATE_LEFT i) [a]))"
      using k rotate_parts [OF a(2), of k] a(2)
      by (cases "k = getSize a") (auto simp: n a RotateLeftEliminate_def rotateLeftAmount_def child_def Let_def
          term_simps rotate_value_def val_bounds div_pos_pos_trivial)
  qed simp
qed

lemma RotateRightEliminate_sound:
  assumes "RotateRightEliminate_applies n"
  shows "rewrites_to G n (RotateRightEliminate n)"
proof -
  obtain i ns where n: "n = mkNode (K_BITVECTOR_ROTATE_RIGHT i) ns"
    using assms by (auto simp: RotateRightEliminate_applies_def split: node.splits kind.splits)
  then show ?thesis
  proof (rule rewrites_rotate)
    fix a
    assume a: "ns = [a]" "bv_term a"
    let ?k = "i mod getSize a"
    have k: "?k < getSize a"
      using bv_term_width(1) [OF a(2)] by simp
    show "bv_term (RotateRightEliminate n) \<and> getSize (RotateRightEliminate n) = getSize a \<and>
        (\<forall>m. val G m (RotateRightEliminate n) = val G m (mkNode (K_BITVECTOR_ROTATE_RIGHT i) [a]))"
      using k rotate_parts [OF a(2), of ?k] a(2)
      by (cases "?k = 0") (auto simp: n a RotateRightEliminate_def rotateRightAmount_def child_def Let_def
          term_simps rotate_value_def val_bounds div_pos_pos_trivial)
  qed simp
qed

lemma ZeroExtendEliminate_sound:
  assumes "ZeroExtendEliminate_applies n"
  shows "rewrites_to G n (ZeroExtendEliminate G n)"
proof (rule rewrites_typedI)
  fix T
  assume t: "firstClass n" "getType n = Some T"
  obtain i ns where n: "n = mkNode (K_BITVECTOR_ZERO_EXTEND i) ns"
    using assms by (auto simp: ZeroExtendEliminate_applies_def split: node.splits kind.splits)
  obtain a where a: "ns = [a]" "bv_term a"
    by (rule unary_children [OF t(2) [unfolded n] t(1) [unfolded n]]) auto
  have "getSize a + i < 2 ^ 32"
    using extend_width t(2) a unfolding n by blast
  with a(2) bv_term_width [OF a(2)] show "rewrites_to G n (ZeroExtendEliminate G n)"
    by (intro rewrites_bv) (auto simp: n a ZeroExtendEliminate_def zeroExtendAmount_def child_def mkConcat_def Let_def term_simps)
qed

section \<open>Signed division\<close>

lemma sign_test:
  assumes "bv_term a" "getSize a = w"
  shows "sentence (mkNode K_EQUAL [mkExtract a (w - 1) (w - 1), mkConst G 1 1])"
    "truth G m (mkNode K_EQUAL [mkExtract a (w - 1) (w - 1), mkConst G 1 1]) \<longleftrightarrow> sval G m a < 0"
    "sentence (mkNode K_EQUAL [mkExtract a (w - 1) (w - 1), mkConst G 1 0])"
    "truth G m (mkNode K_EQUAL [mkExtract a (w - 1) (w - 1), mkConst G 1 0]) \<longleftrightarrow> \<not> sval G m a < 0"
  using assms bv_term_width(1) [OF assms(1)] sval_bounds(3) [OF assms(1), of m]
  by (simp_all add: mkExtract_def term_simps)

lemma abs_value:
  assumes "bv_term a"
  shows "sval G m a < 0 \<Longrightarrow> take_bit (getSize a) (- val G m a) = - sval G m a"
    "\<not> sval G m a < 0 \<Longrightarrow> val G m a = sval G m a"
proof -
  obtain w where w: "getSize a = Suc w"
    using bv_term_width(1) [OF assms] gr0_implies_Suc by blast
  have "take_bit (getSize a) (- val G m a) = take_bit (getSize a) (- sval G m a)"
    using sval_bounds(4) [OF assms, of m] by (metis take_bit_minus)
  moreover have "take_bit (getSize a) (- sval G m a) = - sval G m a" if "sval G m a < 0"
    using sval_bounds(1) [OF assms, of m] that by (intro take_bit_int_eq_self) (simp_all add: w)
  ultimately show "sval G m a < 0 \<Longrightarrow> take_bit (getSize a) (- val G m a) = - sval G m a"
    by simp
  show "\<not> sval G m a < 0 \<Longrightarrow> val G m a = sval G m a"
    using sval_val(1) [OF assms, of m] sval_bounds(3) [OF assms, of m] by simp
qed

text \<open>The absolute values, with the test for a set or for a clear sign bit.\<close>

lemma abs_term:
  assumes "bv_term a" "getSize a = w"
  shows "\<exists>A. mkNode K_ITE [mkNode K_EQUAL [mkExtract a (w - 1) (w - 1), mkConst G 1 1], mkNode K_BITVECTOR_NEG [a], a] = A \<and>
    bv_term A \<and> getSize A = w \<and> (\<forall>m. val G m A = \<bar>sval G m a\<bar>)"
    "\<exists>A. mkNode K_ITE [mkNode K_EQUAL [mkExtract a (w - 1) (w - 1), mkConst G 1 0], a, mkNode K_BITVECTOR_NEG [a]] = A \<and>
    bv_term A \<and> getSize A = w \<and> (\<forall>m. val G m A = \<bar>sval G m a\<bar>)"
  using assms by (auto simp add: sign_test term_simps abs_value simp del: One_nat_def)

lemma abs_sval_less: "bv_term a \<Longrightarrow> \<bar>sval G m a\<bar> < 2 ^ getSize a"
  using sval_bounds(1,2) [of a m] bv_term_width(1) [of a]
  by (cases "getSize a") (auto simp: abs_if)

lemma SdivEliminate_sound:
  assumes "SdivEliminate_applies n"
  shows "rewrites_to G n (SdivEliminate G n)"
  using assms unfolding SdivEliminate_applies_def
proof (rule rewrites_binary)
  fix a b
  assume n: "n = mkNode K_BITVECTOR_SDIV [a, b]" and ab: "bv_term a" "bv_term b" "getSize a = getSize b"
  note sign = sign_test [OF ab(1,3)] sign_test [OF ab(2) refl]
  obtain A where A: "mkNode K_ITE [mkNode K_EQUAL [mkExtract a (getSize b - 1) (getSize b - 1), mkConst G 1 1], mkNode K_BITVECTOR_NEG [a], a] = A"
    "bv_term A" "getSize A = getSize b" "\<forall>m. val G m A = \<bar>sval G m a\<bar>"
    using abs_term(1) [OF ab(1,3)] by blast
  obtain B where B: "mkNode K_ITE [mkNode K_EQUAL [mkExtract b (getSize b - 1) (getSize b - 1), mkConst G 1 1], mkNode K_BITVECTOR_NEG [b], b] = B"
    "bv_term B" "getSize B = getSize b" "\<forall>m. val G m B = \<bar>sval G m b\<bar>"
    using abs_term(1) [OF ab(2) refl] by blast
  show "bv_term (SdivEliminate G n) \<and> getSize (SdivEliminate G n) = getSize b \<and>
      (\<forall>m. val G m (SdivEliminate G n) = val G m (mkNode K_BITVECTOR_SDIV [a, b]))"
    unfolding n SdivEliminate_def Let_def child_def children.simps nth_Cons_0 nth_Cons_Suc One_nat_def [symmetric] ab(3) A(1) B(1)
    using ab abs_sval_less [OF ab(1)]
    by (simp add: term_simps sign A B signed_division [symmetric] del: One_nat_def cong: if_cong)
qed simp

lemma SremEliminate_sound:
  assumes "SremEliminate_applies n"
  shows "rewrites_to G n (SremEliminate G n)"
  using assms unfolding SremEliminate_applies_def
proof (rule rewrites_binary)
  fix a b
  assume n: "n = mkNode K_BITVECTOR_SREM [a, b]" and ab: "bv_term a" "bv_term b" "getSize a = getSize b"
  note sign = sign_test [OF ab(1,3)] sign_test [OF ab(2) refl]
  obtain A where A: "mkNode K_ITE [mkNode K_EQUAL [mkExtract a (getSize b - 1) (getSize b - 1), mkConst G 1 1], mkNode K_BITVECTOR_NEG [a], a] = A"
    "bv_term A" "getSize A = getSize b" "\<forall>m. val G m A = \<bar>sval G m a\<bar>"
    using abs_term(1) [OF ab(1,3)] by blast
  obtain B where B: "mkNode K_ITE [mkNode K_EQUAL [mkExtract b (getSize b - 1) (getSize b - 1), mkConst G 1 1], mkNode K_BITVECTOR_NEG [b], b] = B"
    "bv_term B" "getSize B = getSize b" "\<forall>m. val G m B = \<bar>sval G m b\<bar>"
    using abs_term(1) [OF ab(2) refl] by blast
  show "bv_term (SremEliminate G n) \<and> getSize (SremEliminate G n) = getSize b \<and>
      (\<forall>m. val G m (SremEliminate G n) = val G m (mkNode K_BITVECTOR_SREM [a, b]))"
    unfolding n SremEliminate_def Let_def child_def children.simps nth_Cons_0 nth_Cons_Suc One_nat_def [symmetric] ab(3) A(1) B(1)
    using ab abs_sval_less [OF ab(1)]
    by (simp add: term_simps sign A B signed_remainder [symmetric] del: One_nat_def cong: if_cong)
qed simp

lemma SmodEliminate_sound:
  assumes "SmodEliminate_applies n"
  shows "rewrites_to G n (SmodEliminate G n)"
  using assms unfolding SmodEliminate_applies_def
proof (rule rewrites_binary)
  fix a b
  assume n: "n = mkNode K_BITVECTOR_SMOD [a, b]" and ab: "bv_term a" "bv_term b" "getSize a = getSize b"
  note sign = sign_test [OF ab(1,3)] sign_test [OF ab(2) refl]
  obtain A where A: "mkNode K_ITE [mkNode K_EQUAL [mkExtract a (getSize b - 1) (getSize b - 1), mkConst G 1 0], a, mkNode K_BITVECTOR_NEG [a]] = A"
    "bv_term A" "getSize A = getSize b" "\<forall>m. val G m A = \<bar>sval G m a\<bar>"
    using abs_term(2) [OF ab(1,3)] by blast
  obtain B where B: "mkNode K_ITE [mkNode K_EQUAL [mkExtract b (getSize b - 1) (getSize b - 1), mkConst G 1 0], b, mkNode K_BITVECTOR_NEG [b]] = B"
    "bv_term B" "getSize B = getSize b" "\<forall>m. val G m B = \<bar>sval G m b\<bar>"
    using abs_term(2) [OF ab(2) refl] by blast
  have mod: "take_bit (getSize b) (if sval G m b = 0 then sval G m a else sval G m a mod sval G m b) =
     (let u = \<bar>sval G m a\<bar> mod \<bar>sval G m b\<bar>
      in if u = 0 then u else if \<not> sval G m a < 0 \<and> \<not> sval G m b < 0 then u
         else if sval G m a < 0 \<and> \<not> sval G m b < 0 then take_bit (getSize b) (take_bit (getSize b) (- u) + val G m b)
         else if \<not> sval G m a < 0 \<and> sval G m b < 0 then take_bit (getSize b) (u + val G m b)
         else take_bit (getSize b) (- u))" for m
    using signed_modulus [of "sval G m a" "getSize b" "sval G m b"] abs_sval_less [OF ab(1), of m] ab(3) sval_bounds(4) [OF ab(2), of m]
    by (simp only: Let_def not_less)
  show "bv_term (SmodEliminate G n) \<and> getSize (SmodEliminate G n) = getSize b \<and>
      (\<forall>m. val G m (SmodEliminate G n) = val G m (mkNode K_BITVECTOR_SMOD [a, b]))"
    unfolding n SmodEliminate_def eqNode_def iteNode_def andNode_def Let_def child_def children.simps nth_Cons_0
      nth_Cons_Suc One_nat_def [symmetric] ab(3) A(1) B(1)
    using ab bv_term_width [OF ab(2)] by (simp add: term_simps sign A B mod Let_def del: One_nat_def cong: if_cong)
qed simp

section \<open>Reductions and overflow of sums\<close>

lemma constant_nodes [term_simps]:
  assumes "0 < w" "w < 2 ^ 32"
  shows "bv_term (utils_mkOnes G w)" "getSize (utils_mkOnes G w) = w" "val G m (utils_mkOnes G w) = 2 ^ w - 1"
    "bv_term (utils_mkMinSigned G w)" "getSize (utils_mkMinSigned G w) = w" "val G m (utils_mkMinSigned G w) = 2 ^ (w - 1)"
proof -
  have w: "u32_sub w 1 = w - 1"
    using assms by simp
  have ones: "d_size (bv_mkOnes G w) = w" "bv_inv (bv_mkOnes G w)" "d_value (bv_mkOnes G w) = 2 ^ w - 1"
    using assms inv_sized(2) [of "mk_bv G 1 1" "w - 1"] value_signExtend [of "mk_bv G 1 1" 0 "w - 1"]
    by (simp_all add: bv_mkOnes_def w take_bit_minus_one_eq_mask mask_eq_exp_minus_1)
  then show "bv_term (utils_mkOnes G w)" "getSize (utils_mkOnes G w) = w" "val G m (utils_mkOnes G w) = 2 ^ w - 1"
    using const_term [of "bv_mkOnes G w"] assms by (simp_all add: utils_mkOnes_def val_const)
  have "bv_inv (bv_default w)"
    using assms by (simp add: bv_default_def bv_inv_def)
  then have mins: "bv_inv (bv_mkMinSigned G w)" "d_size (bv_mkMinSigned G w) = w" "d_value (bv_mkMinSigned G w) = 2 ^ (w - 1)"
    using assms inv_setBit [of "bv_default w" "w - 1" True]
    by (simp_all add: bv_mkMinSigned_def w bv_default_def bv_setBit_def setBit_def setbit set_bit_eq_or push_bit_eq_mult)
  then show "bv_term (utils_mkMinSigned G w)" "getSize (utils_mkMinSigned G w) = w" "val G m (utils_mkMinSigned G w) = 2 ^ (w - 1)"
    using const_term [of "bv_mkMinSigned G w"] assms by (simp_all add: utils_mkMinSigned_def val_const)
qed

lemma rewrites_reduction:
  assumes "isKind k n" "k \<in> {K_BITVECTOR_REDAND, K_BITVECTOR_REDOR}"
    "\<And>a. n = mkNode k [a] \<Longrightarrow> bv_term a \<Longrightarrow> bv_term n' \<and> getSize n' = 1 \<and> (\<forall>m. val G m n' = val G m (mkNode k [a]))"
  shows "rewrites_to G n n'"
proof (rule rewrites_typedI)
  fix T
  assume t: "firstClass n" "getType n = Some T"
  obtain ns where n: "n = mkNode k ns"
    using assms(1) by (rule isKind_cases)
  obtain a where a: "ns = [a]" "bv_term a"
    by (rule unary_children [OF t(2) [unfolded n] t(1) [unfolded n]]) (use assms(2) in auto)
  with assms(2,3) n reduction_term [OF a(2), of k] show "rewrites_to G n n'"
    by (intro rewrites_bv) auto
qed

lemma reduction_rules_sound:
  "RedorEliminate_applies n \<Longrightarrow> rewrites_to G n (RedorEliminate G n)"
  "RedandEliminate_applies n \<Longrightarrow> rewrites_to G n (RedandEliminate G n)"
  unfolding RedorEliminate_applies_def RedandEliminate_applies_def
  by (erule rewrites_reduction, simp, simp add: RedorEliminate_def RedandEliminate_def Let_def child_def term_simps bv_term_width [simplified])+

lemma NegoEliminate_sound:
  assumes "NegoEliminate_applies n"
  shows "rewrites_to G n (NegoEliminate G n)"
proof (rule rewrites_typedI)
  fix T
  assume t: "firstClass n" "getType n = Some T"
  obtain ns where n: "n = mkNode K_BITVECTOR_NEGO ns"
    using assms unfolding NegoEliminate_applies_def by (rule isKind_cases)
  obtain a where a: "ns = [a]" "bv_term a"
    by (rule unary_children [OF t(2) [unfolded n] t(1) [unfolded n]]) simp
  have "sentence n"
    using t bv_termD [OF a(2)] by (simp add: n a sentence_def isBoolean_def kind_type_def BitVectorPredicateTypeRule_def
        kind_arity_def kind_range_def)
  moreover have "val G m a = 2 ^ (getSize a - 1) \<longleftrightarrow> \<not> fits_signed (getSize a) (- sval G m a)" for m
    using negation_overflow [of "val G m a" "getSize a - 1"] sval_val [OF a(2), of m] bv_term_width(1) [OF a(2)]
      val_bounds(1,2) [OF a(2), of m]
    by simp
  ultimately show "rewrites_to G n (NegoEliminate G n)"
    using a(2) bv_term_width [OF a(2)]
    by (intro rewrites_bool) (simp_all add: n a NegoEliminate_def child_def term_simps)
qed

lemma sval_wrap:
  assumes "bv_term n" "val G m n = take_bit (getSize n) z"
  shows "sval G m n = signed_take_bit (getSize n - 1) z"
  using assms(2) bv_term_width(1) [OF assms(1)] by (cases "getSize n") (simp_all add: sval_def signed_take_bit_take_bit)

lemma sval_sum:
  assumes "bv_term a" "bv_term b" "getSize a = getSize b"
  shows "sval G m (mkNode K_BITVECTOR_ADD [a, b]) = signed_take_bit (getSize b - 1) (sval G m a + sval G m b)"
    "sval G m (mkNode K_BITVECTOR_SUB [a, b]) = signed_take_bit (getSize b - 1) (sval G m a - sval G m b)"
proof -
  note v = sval_bounds(4) [OF assms(1), of m, symmetric] sval_bounds(4) [OF assms(2), of m, symmetric]
  have "val G m (mkNode K_BITVECTOR_ADD [a, b]) = take_bit (getSize b) (sval G m a + sval G m b)"
    "val G m (mkNode K_BITVECTOR_SUB [a, b]) = take_bit (getSize b) (sval G m a - sval G m b)"
    using assms by (simp_all add: term_simps v take_bit_eq_mod mod_simps)
  then show "sval G m (mkNode K_BITVECTOR_ADD [a, b]) = signed_take_bit (getSize b - 1) (sval G m a + sval G m b)"
    "sval G m (mkNode K_BITVECTOR_SUB [a, b]) = signed_take_bit (getSize b - 1) (sval G m a - sval G m b)"
    using assms sval_wrap [of "mkNode K_BITVECTOR_ADD [a, b]" m] sval_wrap [of "mkNode K_BITVECTOR_SUB [a, b]" m]
    by (simp_all add: term_simps)
qed

lemma SdivoEliminate_sound:
  assumes "SdivoEliminate_applies n"
  shows "rewrites_to G n (SdivoEliminate G n)"
  using assms unfolding SdivoEliminate_applies_def
proof (rule rewrites_predicate)
  fix a b
  assume n: "n = mkNode K_BITVECTOR_SDIVO [a, b]" and ab: "bv_term a" "bv_term b" "getSize a = getSize b"
  have "(val G m a = 2 ^ (getSize b - 1) \<and> val G m b = 2 ^ getSize b - 1) \<longleftrightarrow>
      sval G m b \<noteq> 0 \<and> \<not> fits_signed (getSize b) (signed_quot (sval G m a) (sval G m b))" for m
  proof -
    obtain w where w: "getSize b = Suc w"
      using bv_term_width(1) [OF ab(2)] gr0_implies_Suc by blast
    have "val G m a = 2 ^ w \<longleftrightarrow> sval G m a = - (2 ^ w)" "val G m b = 2 ^ Suc w - 1 \<longleftrightarrow> sval G m b = - 1"
      using sval_val [OF ab(1), of m] sval_val [OF ab(2), of m] val_bounds(1,2) [OF ab(1), of m] val_bounds(1,2) [OF ab(2), of m]
      by (auto simp: w ab(3) split: if_splits)
    then show ?thesis
      using signed_quot_overflow [of w "sval G m a" "sval G m b"] sval_bounds(1,2) [OF ab(1), of m] by (simp add: w ab(3))
  qed
  then show "sentence (SdivoEliminate G n) \<and>
      (\<forall>m. truth G m (SdivoEliminate G n) = truth G m (mkNode K_BITVECTOR_SDIVO [a, b]))"
    using ab bv_term_width [OF ab(2)] by (simp add: n SdivoEliminate_def Let_def child_def term_simps)
qed simp

lemma signed_sum_rules_sound:
  "SaddoEliminate_applies n \<Longrightarrow> rewrites_to G n (SaddoEliminate G n)"
  "SsuboEliminate_applies n \<Longrightarrow> rewrites_to G n (SsuboEliminate G n)"
proof -
  have sign: "sentence (SaddoEliminate G (mkNode k [a, b])) \<and> sentence (SsuboEliminate G (mkNode k [a, b])) \<and>
    truth G m (SaddoEliminate G (mkNode k [a, b])) = (\<not> fits_signed (getSize b) (sval G m a + sval G m b)) \<and>
    truth G m (SsuboEliminate G (mkNode k [a, b])) = (\<not> fits_signed (getSize b) (sval G m a - sval G m b))"
    if ab: "bv_term a" "bv_term b" "getSize a = getSize b" for a b k m
  proof -
    obtain w where w: "getSize b = Suc w"
      using bv_term_width(1) [OF ab(2)] gr0_implies_Suc by blast
    have sums: "bv_term (mkNode K_BITVECTOR_ADD [a, b])" "getSize (mkNode K_BITVECTOR_ADD [a, b]) = getSize b"
      "bv_term (mkNode K_BITVECTOR_SUB [a, b])" "getSize (mkNode K_BITVECTOR_SUB [a, b]) = getSize b"
      using ab by (simp_all add: term_simps)
    note signs = sign_test [OF ab(1,3)] sign_test [OF ab(2) refl] sign_test [OF sums(1,2)] sign_test [OF sums(3,4)]
    have "- (2 ^ w) \<le> z \<and> z < 2 ^ w" if "z \<in> {sval G m a, sval G m b}" for z
      using that sval_bounds(1,2) [OF ab(1), of m] sval_bounds(1,2) [OF ab(2), of m] by (auto simp: w ab(3))
    from signed_sum_overflow [OF this] sval_sum [OF ab, of m]
    have "(sval G m a < 0 \<and> sval G m b < 0 \<and> \<not> sval G m (mkNode K_BITVECTOR_ADD [a, b]) < 0 \<or>
        \<not> sval G m a < 0 \<and> \<not> sval G m b < 0 \<and> sval G m (mkNode K_BITVECTOR_ADD [a, b]) < 0) =
        (\<not> fits_signed (getSize b) (sval G m a + sval G m b))"
      "(sval G m a < 0 \<and> \<not> sval G m b < 0 \<and> \<not> sval G m (mkNode K_BITVECTOR_SUB [a, b]) < 0 \<or>
        \<not> sval G m a < 0 \<and> sval G m b < 0 \<and> sval G m (mkNode K_BITVECTOR_SUB [a, b]) < 0) =
        (\<not> fits_signed (getSize b) (sval G m a - sval G m b))"
      by (simp_all only: w diff_Suc_1)
    then show ?thesis
      by (simp add: SaddoEliminate_def SsuboEliminate_def Let_def child_def utils_mkOne_def utils_mkZero_def ab(3) signs
          bool_connectives conj_assoc del: One_nat_def)
  qed
  show "SaddoEliminate_applies n \<Longrightarrow> rewrites_to G n (SaddoEliminate G n)"
    unfolding SaddoEliminate_applies_def by (erule rewrites_predicate) (simp_all add: sign term_simps)
  show "SsuboEliminate_applies n \<Longrightarrow> rewrites_to G n (SsuboEliminate G n)"
    unfolding SsuboEliminate_applies_def by (erule rewrites_predicate) (simp_all add: sign term_simps)
qed

lemma top_bit:
  fixes z :: int
  assumes "- (2 ^ w) \<le> z" "z < 2 ^ Suc w"
  shows "bit (take_bit (Suc w) z) w \<longleftrightarrow> z < 0 \<or> 2 ^ w \<le> z"
proof -
  have "bit (take_bit (Suc w) z) w \<longleftrightarrow> bit z w"
    by (simp add: bit_take_bit_iff)
  also have "\<dots> \<longleftrightarrow> odd (z div 2 ^ w)"
    by (simp add: bit_iff_odd)
  also have "z div 2 ^ w = (if z < 0 then - 1 else if 2 ^ w \<le> z then 1 else 0)"
    using assms by (auto intro: int_div_pos_eq [of _ _ _ "z + 2 ^ w"] int_div_pos_eq [of _ _ _ "z - 2 ^ w"] simp: div_pos_pos_trivial)
  finally show ?thesis
    by auto
qed

lemma unsigned_sum_rules_sound:
  assumes "\<forall>c\<in>set (children n). getSize c + 1 < 2 ^ 32"
  shows "UaddoEliminate_applies n \<Longrightarrow> rewrites_to G n (UaddoEliminate G n)"
    "UsuboEliminate_applies n \<Longrightarrow> rewrites_to G n (UsuboEliminate G n)"
proof -
  show "rewrites_to G n (UaddoEliminate G n)" if "UaddoEliminate_applies n"
    using that unfolding UaddoEliminate_applies_def
  proof (rule rewrites_predicate)
    fix a b
    assume n: "n = mkNode K_BITVECTOR_UADDO [a, b]" and ab: "bv_term a" "bv_term b" "getSize a = getSize b"
    have "bit (take_bit (Suc (getSize b)) (val G m a + val G m b)) (getSize b) \<longleftrightarrow> 2 ^ getSize b \<le> val G m a + val G m b" for m
      using top_bit [of "getSize b" "val G m a + val G m b"] val_bounds(1,2) [OF ab(1), of m] val_bounds(1,2) [OF ab(2), of m] ab(3)
      by simp
    then show "sentence (UaddoEliminate G n) \<and> (\<forall>m. truth G m (UaddoEliminate G n) = truth G m (mkNode K_BITVECTOR_UADDO [a, b]))"
      using ab assms by (simp add: n UaddoEliminate_def Let_def child_def utils_mkZero_def utils_mkOne_def mkConcat_def mkExtract_def term_simps)
  qed simp
  show "rewrites_to G n (UsuboEliminate G n)" if "UsuboEliminate_applies n"
    using that unfolding UsuboEliminate_applies_def
  proof (rule rewrites_predicate)
    fix a b
    assume n: "n = mkNode K_BITVECTOR_USUBO [a, b]" and ab: "bv_term a" "bv_term b" "getSize a = getSize b"
    have "bit (take_bit (Suc (getSize b)) (val G m a - val G m b)) (getSize b) \<longleftrightarrow> val G m a < val G m b" for m
      using top_bit [of "getSize b" "val G m a - val G m b"] val_bounds(1,2) [OF ab(1), of m] val_bounds(1,2) [OF ab(2), of m] ab(3)
      by simp
    then show "sentence (UsuboEliminate G n) \<and> (\<forall>m. truth G m (UsuboEliminate G n) = truth G m (mkNode K_BITVECTOR_USUBO [a, b]))"
      using ab assms by (simp add: n UsuboEliminate_def Let_def child_def utils_mkZero_def utils_mkOne_def mkExtract_def term_simps)
  qed simp
qed

end

end
