(* ===== verification/Bv_Constant_Rules.thy ===== *)
theory Bv_Constant_Rules
  imports Bv_Elimination_Correct
begin

text \<open>
  Constant folding in the bit-vector rewriter: the rules of
  \<^verbatim>\<open>theory/bv/theory_bv_rewrite_rules_constant_evaluation.h\<close>. \<^verbatim>\<open>RewriteRule<X>::applies\<close> is
  \<open>X_applies\<close> and \<^verbatim>\<open>RewriteRule<X>::apply\<close> is \<open>X_apply\<close>. The rules for \<^verbatim>\<open>AND\<close>, \<^verbatim>\<open>OR\<close> and \<^verbatim>\<open>XOR\<close> are
  marked unreachable in the code, and those for symbolic constants and eager atoms concern kinds
  that are not modelled.
\<close>

section \<open>Rules\<close>

definition isBvConstTerm :: "node \<Rightarrow> bool" where
  "isBvConstTerm n = (if children n = [] then isConst n else list_all isConst (children n))"

abbreviation const_child :: "node \<Rightarrow> nat \<Rightarrow> bitvector" where
  "const_child n i \<equiv> getConst (child n i)"

abbreviation mkBool :: "bool \<Rightarrow> node" where
  "mkBool b \<equiv> if b then mkTrue else mkFalse"

abbreviation mkBit1 :: "gmp \<Rightarrow> bool \<Rightarrow> node" where
  "mkBit1 G b \<equiv> if b then mkConst G 1 1 else mkConst G 1 0"

definition EvalNot_applies :: "node \<Rightarrow> bool" where
  "EvalNot_applies n = (isKind K_BITVECTOR_NOT n \<and> isBvConstTerm n)"

definition EvalNot_apply :: "gmp \<Rightarrow> node \<Rightarrow> node" where
  "EvalNot_apply G n = CONST_BITVECTOR (bv_not G (const_child n 0))"

definition EvalMult_applies :: "node \<Rightarrow> bool" where
  "EvalMult_applies n = (isKind K_BITVECTOR_MULT n \<and> isBvConstTerm n)"

definition EvalMult_apply :: "gmp \<Rightarrow> node \<Rightarrow> node" where
  "EvalMult_apply G n =
     CONST_BITVECTOR (foldl (\<lambda>res c. bv_mult G res (getConst c)) (const_child n 0) (tl (children n)))"

definition EvalAdd_applies :: "node \<Rightarrow> bool" where
  "EvalAdd_applies n = (isKind K_BITVECTOR_ADD n \<and> isBvConstTerm n)"

definition EvalAdd_apply :: "gmp \<Rightarrow> node \<Rightarrow> node" where
  "EvalAdd_apply G n =
     CONST_BITVECTOR (foldl (\<lambda>res c. bv_add G res (getConst c)) (const_child n 0) (tl (children n)))"

definition EvalNeg_applies :: "node \<Rightarrow> bool" where
  "EvalNeg_applies n = (isKind K_BITVECTOR_NEG n \<and> isBvConstTerm n)"

definition EvalNeg_apply :: "gmp \<Rightarrow> node \<Rightarrow> node" where
  "EvalNeg_apply G n = CONST_BITVECTOR (bv_neg G (const_child n 0))"

definition EvalUdiv_applies :: "node \<Rightarrow> bool" where
  "EvalUdiv_applies n = (isBvConstTerm n \<and> isKind K_BITVECTOR_UDIV n)"

definition EvalUdiv_apply :: "gmp \<Rightarrow> node \<Rightarrow> node" where
  "EvalUdiv_apply G n = CONST_BITVECTOR (bv_unsignedDivTotal G (const_child n 0) (const_child n 1))"

definition EvalUrem_applies :: "node \<Rightarrow> bool" where
  "EvalUrem_applies n = (isBvConstTerm n \<and> isKind K_BITVECTOR_UREM n)"

definition EvalUrem_apply :: "gmp \<Rightarrow> node \<Rightarrow> node" where
  "EvalUrem_apply G n = CONST_BITVECTOR (bv_unsignedRemTotal G (const_child n 0) (const_child n 1))"

definition EvalShl_applies :: "node \<Rightarrow> bool" where
  "EvalShl_applies n = (isKind K_BITVECTOR_SHL n \<and> isBvConstTerm n)"

definition EvalShl_apply :: "gmp \<Rightarrow> node \<Rightarrow> node" where
  "EvalShl_apply G n = CONST_BITVECTOR (bv_leftShift G (const_child n 0) (const_child n 1))"

definition EvalLshr_applies :: "node \<Rightarrow> bool" where
  "EvalLshr_applies n = (isKind K_BITVECTOR_LSHR n \<and> isBvConstTerm n)"

definition EvalLshr_apply :: "gmp \<Rightarrow> node \<Rightarrow> node" where
  "EvalLshr_apply G n = CONST_BITVECTOR (bv_logicalRightShift G (const_child n 0) (const_child n 1))"

definition EvalAshr_applies :: "node \<Rightarrow> bool" where
  "EvalAshr_applies n = (isKind K_BITVECTOR_ASHR n \<and> isBvConstTerm n)"

definition EvalAshr_apply :: "gmp \<Rightarrow> node \<Rightarrow> node" where
  "EvalAshr_apply G n = CONST_BITVECTOR (bv_arithRightShift G (const_child n 0) (const_child n 1))"

definition EvalUlt_applies :: "node \<Rightarrow> bool" where
  "EvalUlt_applies n = (isKind K_BITVECTOR_ULT n \<and> isBvConstTerm n)"

definition EvalUlt_apply :: "node \<Rightarrow> node" where
  "EvalUlt_apply n = mkBool (bv_unsignedLessThan (const_child n 0) (const_child n 1))"

definition EvalUltBv_applies :: "node \<Rightarrow> bool" where
  "EvalUltBv_applies n = (isKind K_BITVECTOR_ULTBV n \<and> isBvConstTerm n)"

definition EvalUltBv_apply :: "gmp \<Rightarrow> node \<Rightarrow> node" where
  "EvalUltBv_apply G n = mkBit1 G (bv_unsignedLessThan (const_child n 0) (const_child n 1))"

definition EvalSlt_applies :: "node \<Rightarrow> bool" where
  "EvalSlt_applies n = (isKind K_BITVECTOR_SLT n \<and> isBvConstTerm n)"

definition EvalSlt_apply :: "gmp \<Rightarrow> node \<Rightarrow> node" where
  "EvalSlt_apply G n = mkBool (bv_signedLessThan G (const_child n 0) (const_child n 1))"

definition EvalSltBv_applies :: "node \<Rightarrow> bool" where
  "EvalSltBv_applies n = (isKind K_BITVECTOR_SLTBV n \<and> isBvConstTerm n)"

definition EvalSltBv_apply :: "gmp \<Rightarrow> node \<Rightarrow> node" where
  "EvalSltBv_apply G n = mkBit1 G (bv_signedLessThan G (const_child n 0) (const_child n 1))"

definition EvalITEBv_applies :: "node \<Rightarrow> bool" where
  "EvalITEBv_applies n = (isKind K_BITVECTOR_ITE n \<and> isBvConstTerm n)"

definition EvalITEBv_apply :: "gmp \<Rightarrow> node \<Rightarrow> node" where
  "EvalITEBv_apply G n = (if child n 0 = mkConst G 1 1 then child n 1 else child n 2)"

definition EvalUle_applies :: "node \<Rightarrow> bool" where
  "EvalUle_applies n = (isKind K_BITVECTOR_ULE n \<and> isBvConstTerm n)"

definition EvalUle_apply :: "node \<Rightarrow> node" where
  "EvalUle_apply n = mkBool (bv_unsignedLessThanEq (const_child n 0) (const_child n 1))"

definition EvalSle_applies :: "node \<Rightarrow> bool" where
  "EvalSle_applies n = (isKind K_BITVECTOR_SLE n \<and> isBvConstTerm n)"

definition EvalSle_apply :: "gmp \<Rightarrow> node \<Rightarrow> node" where
  "EvalSle_apply G n = mkBool (bv_signedLessThanEq G (const_child n 0) (const_child n 1))"

text \<open>The payload of an operator.\<close>

definition extract_bounds :: "node \<Rightarrow> (nat \<times> nat) option" where
  "extract_bounds n =
     (case n of mkNode k ns \<Rightarrow> (case k of K_BITVECTOR_EXTRACT high low \<Rightarrow> Some (high, low) | _ \<Rightarrow> None) | _ \<Rightarrow> None)"

definition getExtractHigh :: "node \<Rightarrow> nat" where
  "getExtractHigh n = fst (the (extract_bounds n))"

definition getExtractLow :: "node \<Rightarrow> nat" where
  "getExtractLow n = snd (the (extract_bounds n))"

definition is_extract :: "node \<Rightarrow> bool" where
  "is_extract n = (extract_bounds n \<noteq> None)"

definition sign_extend_amount :: "node \<Rightarrow> nat option" where
  "sign_extend_amount n =
     (case n of mkNode k ns \<Rightarrow> (case k of K_BITVECTOR_SIGN_EXTEND amount \<Rightarrow> Some amount | _ \<Rightarrow> None) | _ \<Rightarrow> None)"

definition getSignExtendAmount :: "node \<Rightarrow> nat" where
  "getSignExtendAmount n = the (sign_extend_amount n)"

definition is_sign_extend :: "node \<Rightarrow> bool" where
  "is_sign_extend n = (sign_extend_amount n \<noteq> None)"

lemma payload_simps [simp]:
  "getExtractHigh (mkNode (K_BITVECTOR_EXTRACT high low) ns) = high"
  "getExtractLow (mkNode (K_BITVECTOR_EXTRACT high low) ns) = low"
  "is_extract (mkNode (K_BITVECTOR_EXTRACT high low) ns)"
  "getSignExtendAmount (mkNode (K_BITVECTOR_SIGN_EXTEND amount) ns) = amount"
  "is_sign_extend (mkNode (K_BITVECTOR_SIGN_EXTEND amount) ns)"
  by (simp_all add: getExtractHigh_def getExtractLow_def is_extract_def getSignExtendAmount_def is_sign_extend_def
      extract_bounds_def sign_extend_amount_def)

lemma is_extractE: "is_extract n \<Longrightarrow> (\<And>h l ns. n = mkNode (K_BITVECTOR_EXTRACT h l) ns \<Longrightarrow> P) \<Longrightarrow> P"
  by (auto simp: is_extract_def extract_bounds_def split: node.splits kind.splits)

lemma is_sign_extendE: "is_sign_extend n \<Longrightarrow> (\<And>i ns. n = mkNode (K_BITVECTOR_SIGN_EXTEND i) ns \<Longrightarrow> P) \<Longrightarrow> P"
  by (auto simp: is_sign_extend_def sign_extend_amount_def split: node.splits kind.splits)

definition EvalExtract_applies :: "node \<Rightarrow> bool" where
  "EvalExtract_applies n = (is_extract n \<and> isBvConstTerm n)"

definition EvalExtract_apply :: "gmp \<Rightarrow> node \<Rightarrow> node" where
  "EvalExtract_apply G n = CONST_BITVECTOR (bv_extract G (const_child n 0) (getExtractHigh n) (getExtractLow n))"

definition EvalConcat_applies :: "node \<Rightarrow> bool" where
  "EvalConcat_applies n = (isKind K_BITVECTOR_CONCAT n \<and> isBvConstTerm n)"

definition EvalConcat_apply :: "gmp \<Rightarrow> node \<Rightarrow> node" where
  "EvalConcat_apply G n =
     CONST_BITVECTOR (foldl (\<lambda>res c. bv_concat G res (getConst c)) (const_child n 0) (tl (children n)))"

definition EvalSignExtend_applies :: "node \<Rightarrow> bool" where
  "EvalSignExtend_applies n = (is_sign_extend n \<and> isBvConstTerm n)"

definition EvalSignExtend_apply :: "gmp \<Rightarrow> node \<Rightarrow> node" where
  "EvalSignExtend_apply G n = CONST_BITVECTOR (bv_signExtend G (const_child n 0) (getSignExtendAmount n))"

definition EvalEquals_applies :: "node \<Rightarrow> bool" where
  "EvalEquals_applies n = (isKind K_EQUAL n \<and> isBvConstTerm n)"

definition EvalEquals_apply :: "node \<Rightarrow> node" where
  "EvalEquals_apply n = mkBool (bv_eq (const_child n 0) (const_child n 1))"

definition EvalComp_applies :: "node \<Rightarrow> bool" where
  "EvalComp_applies n = (isKind K_BITVECTOR_COMP n \<and> isBvConstTerm n)"

definition EvalComp_apply :: "gmp \<Rightarrow> node \<Rightarrow> node" where
  "EvalComp_apply G n = mkBit1 G (bv_eq (const_child n 0) (const_child n 1))"

lemmas constant_rule_applies = EvalNot_applies_def EvalMult_applies_def EvalAdd_applies_def EvalNeg_applies_def
  EvalUdiv_applies_def EvalUrem_applies_def EvalShl_applies_def EvalLshr_applies_def EvalAshr_applies_def
  EvalUlt_applies_def EvalUltBv_applies_def EvalSlt_applies_def EvalSltBv_applies_def EvalUle_applies_def
  EvalSle_applies_def EvalConcat_applies_def EvalComp_applies_def EvalExtract_applies_def EvalSignExtend_applies_def

lemmas constant_rule_apply = EvalNot_apply_def EvalMult_apply_def EvalAdd_apply_def EvalNeg_apply_def
  EvalUdiv_apply_def EvalUrem_apply_def EvalShl_apply_def EvalLshr_apply_def EvalAshr_apply_def
  EvalUlt_apply_def EvalUltBv_apply_def EvalSlt_apply_def EvalSltBv_apply_def EvalUle_apply_def
  EvalSle_apply_def EvalConcat_apply_def EvalComp_apply_def EvalExtract_apply_def EvalSignExtend_apply_def

section \<open>Operands\<close>

text \<open>The kinds all of whose operands are bit-vectors.\<close>

definition bv_operands :: "kind \<Rightarrow> bool" where
  "bv_operands k = (case k of
     K_NOT \<Rightarrow> False | K_AND \<Rightarrow> False | K_OR \<Rightarrow> False | K_XOR \<Rightarrow> False | K_IMPLIES \<Rightarrow> False | K_ITE \<Rightarrow> False
   | K_EQUAL \<Rightarrow> False | K_DISTINCT \<Rightarrow> False | K_SEXPR \<Rightarrow> False | K_APPLY_UF f ts t \<Rightarrow> False | K_BITVECTOR_ITE \<Rightarrow> False
   | _ \<Rightarrow> True)"

lemma fixed_width_isBitVector: "BitVectorFixedWidthTypeRule ts = Some T \<Longrightarrow> t \<in> set ts \<Longrightarrow> isBitVector t"
  using BitVectorFixedWidthTypeRule_Some [of ts T] by (cases ts) auto

lemma concat_isBitVector: "concatLoop sz ts = Some T \<Longrightarrow> t \<in> set ts \<Longrightarrow> isBitVector t"
  by (induction ts arbitrary: sz) (auto simp: Let_def split: if_splits)

lemma kind_type_operands:
  assumes "bv_operands k" "kind_type k ts = Some T" "kind_arity k (length ts)" "t \<in> set ts"
  shows "isBitVector t"
proof -
  consider "length ts = 1" | "length ts = 2" | "kind_type k ts = BitVectorFixedWidthTypeRule ts" | "k = K_BITVECTOR_CONCAT"
    using assms(1,3) by (cases k) (auto simp: bv_operands_def kind_arity_def kind_type_def)
  then show ?thesis
  proof cases
    case 1
    with assms show ?thesis
      by (cases k) (auto simp: bv_operands_def kind_type_def length_Suc_conv kind_arity_def BitVectorRedTypeRule_def
          BitVectorPredicateTypeRule_def BitVectorBitTypeRule_def BitVectorExtractTypeRule_def BitVectorRepeatTypeRule_def
          BitVectorExtendTypeRule_def Let_def dest: fixed_width_isBitVector split: if_splits)
  next
    case 2
    with assms show ?thesis
      by (cases k) (auto simp: bv_operands_def kind_type_def length_Suc_conv numeral_2_eq_2 kind_arity_def
          BitVectorPredicateTypeRule_def BitVectorBVPredTypeRule_def BitVectorConcatTypeRule_def
          dest: fixed_width_isBitVector concat_isBitVector split: if_splits)
  next
    case 3
    with assms fixed_width_isBitVector show ?thesis
      by simp
  next
    case 4
    with assms concat_isBitVector show ?thesis
      by (simp add: kind_type_def BitVectorConcatTypeRule_def)
  qed
qed

lemma operands_bv_term:
  assumes "bv_operands k" "getType (mkNode k ns) = Some T" "firstClass (mkNode k ns)" "a \<in> set ns"
  shows "bv_term a"
proof -
  obtain ts where ts: "list_all2 (\<lambda>n t. getType n = Some t) ns ts" "kind_arity k (length ns)" "kind_type k ts = Some T"
    "\<forall>n\<in>set ns. firstClass n"
    by (rule getType_children [OF assms(2,3)])
  from assms(4) obtain i where i: "i < length ns" "a = ns ! i"
    by (auto simp: in_set_conv_nth)
  with ts(1) have "getType a = Some (ts ! i)" "ts ! i \<in> set ts"
    by (auto simp: list_all2_conv_all_nth)
  then show ?thesis
    using kind_type_operands [OF assms(1) ts(3)] ts assms(4) list_all2_lengthD [OF ts(1)]
    by (auto simp: bv_term_def elim!: isBitVectorE)
qed

lemma const_bv_term: "bv_term a \<Longrightarrow> isConst a \<Longrightarrow> \<exists>b. a = CONST_BITVECTOR b"
  by (cases a) (auto simp: bv_term_def)

lemma const_operands:
  assumes "bv_operands k" "getType (mkNode k ns) = Some T" "firstClass (mkNode k ns)" "list_all isConst ns"
  obtains bs where "ns = map CONST_BITVECTOR bs" "kind_arity k (length bs)"
proof -
  have "\<forall>a\<in>set ns. \<exists>b. a = CONST_BITVECTOR b"
    using operands_bv_term [OF assms(1-3)] const_bv_term assms(4) by (auto simp: list_all_iff)
  then have "\<exists>bs. ns = map CONST_BITVECTOR bs"
    by (induction ns) (auto, metis list.simps(9))
  then show thesis
    using that getType_mkNode [OF assms(2)] by auto
qed

section \<open>Soundness\<close>

context gmp_documented
begin

lemma rewrites_const:
  assumes "\<And>m. eval G m n = eval G m n'" "isConst n'"
  shows "rewrites_to G n n'"
  unfolding rewrites_to_def
proof (intro allI impI, elim conjE)
  fix T
  assume "firstClass n" "getType n = Some T"
  then have "has_type (eval G m n) T" for m
    using eval_has_type by blast
  then have "has_type (eval G m n') T" for m
    using assms(1) by simp
  with assms show "firstClass n' \<and> getType n' = Some T \<and> (\<forall>m. eval G m n' = eval G m n)"
    by (cases n') (auto simp: BitVectorConstantTypeRule_def)
qed

lemma rewrites_evaluated:
  assumes "isKind k n" "isBvConstTerm n" "bv_operands k"
    and "\<And>bs m. kind_arity k (length bs) \<Longrightarrow>
      isConst (f (mkNode k (map CONST_BITVECTOR bs))) \<and>
      eval G m (f (mkNode k (map CONST_BITVECTOR bs))) = eval G m (mkNode k (map CONST_BITVECTOR bs))"
  shows "rewrites_to G n (f n)"
proof (rule rewrites_typedI)
  fix T
  assume t: "firstClass n" "getType n = Some T"
  obtain ns where n: "n = mkNode k ns"
    using assms(1) isKindE by blast
  have "ns \<noteq> []"
    using assms(2) n by (auto simp: isBvConstTerm_def)
  then have "list_all isConst ns"
    using assms(2) n by (simp add: isBvConstTerm_def)
  then obtain bs where "ns = map CONST_BITVECTOR bs" "kind_arity k (length bs)"
    using const_operands [OF assms(3)] t unfolding n by blast
  with assms(4) show "rewrites_to G n (f n)"
    unfolding n by (intro rewrites_const) simp_all
qed

lemmas evaluation_simps = constant_rule_apply child_def eval_kind_defs kind_arity_def length_Suc_conv numeral_2_eq_2 mkConst_def
  mkTrue_def mkFalse_def bv_bool_def bv_operands_def

lemma constant_rules_sound:
  "EvalNot_applies n \<Longrightarrow> rewrites_to G n (EvalNot_apply G n)"
  "EvalNeg_applies n \<Longrightarrow> rewrites_to G n (EvalNeg_apply G n)"
  "EvalUdiv_applies n \<Longrightarrow> rewrites_to G n (EvalUdiv_apply G n)"
  "EvalUrem_applies n \<Longrightarrow> rewrites_to G n (EvalUrem_apply G n)"
  "EvalShl_applies n \<Longrightarrow> rewrites_to G n (EvalShl_apply G n)"
  "EvalLshr_applies n \<Longrightarrow> rewrites_to G n (EvalLshr_apply G n)"
  "EvalAshr_applies n \<Longrightarrow> rewrites_to G n (EvalAshr_apply G n)"
  unfolding constant_rule_applies
  by (erule conjE, rule rewrites_evaluated, assumption, assumption, simp add: bv_operands_def, force simp: evaluation_simps)+

lemma constant_predicates_sound:
  "EvalUlt_applies n \<Longrightarrow> rewrites_to G n (EvalUlt_apply n)"
  "EvalUltBv_applies n \<Longrightarrow> rewrites_to G n (EvalUltBv_apply G n)"
  "EvalSlt_applies n \<Longrightarrow> rewrites_to G n (EvalSlt_apply G n)"
  "EvalSltBv_applies n \<Longrightarrow> rewrites_to G n (EvalSltBv_apply G n)"
  "EvalUle_applies n \<Longrightarrow> rewrites_to G n (EvalUle_apply n)"
  "EvalSle_applies n \<Longrightarrow> rewrites_to G n (EvalSle_apply G n)"
  "EvalComp_applies n \<Longrightarrow> rewrites_to G n (EvalComp_apply G n)"
  unfolding constant_rule_applies
  by (erule conjE, rule rewrites_evaluated, assumption, assumption, simp add: bv_operands_def, force simp: evaluation_simps)+

lemma constant_folds_sound:
  "EvalMult_applies n \<Longrightarrow> rewrites_to G n (EvalMult_apply G n)"
  "EvalAdd_applies n \<Longrightarrow> rewrites_to G n (EvalAdd_apply G n)"
  "EvalConcat_applies n \<Longrightarrow> rewrites_to G n (EvalConcat_apply G n)"
  unfolding constant_rule_applies
  by (erule conjE, rule rewrites_evaluated, assumption, assumption, simp add: bv_operands_def,
      simp add: constant_rule_apply child_def eval_kind_defs kind_arity_def foldl_map comp_def
        del: length_greater_0_conv flip: map_tl)+

lemma constant_sized_sound:
  assumes "EvalExtract_applies n \<and> r = EvalExtract_apply G n \<or> EvalSignExtend_applies n \<and> r = EvalSignExtend_apply G n"
  shows "rewrites_to G n r"
  using assms
proof
  assume r: "EvalExtract_applies n \<and> r = EvalExtract_apply G n"
  then obtain h l ns where "n = mkNode (K_BITVECTOR_EXTRACT h l) ns"
    unfolding EvalExtract_applies_def by (auto elim: is_extractE)
  with r have "rewrites_to G n (EvalExtract_apply G n)"
    by (intro rewrites_evaluated [where k = "K_BITVECTOR_EXTRACT h l"])
      (force simp: evaluation_simps constant_rule_applies)+
  with r show ?thesis by simp
next
  assume r: "EvalSignExtend_applies n \<and> r = EvalSignExtend_apply G n"
  then obtain i ns where "n = mkNode (K_BITVECTOR_SIGN_EXTEND i) ns"
    unfolding EvalSignExtend_applies_def by (auto elim: is_sign_extendE)
  with r have "rewrites_to G n (EvalSignExtend_apply G n)"
    by (intro rewrites_evaluated [where k = "K_BITVECTOR_SIGN_EXTEND i"])
      (force simp: evaluation_simps constant_rule_applies)+
  with r show ?thesis by simp
qed

end

end
