(* ===== verification/Bv_Simplification.thy ===== *)
theory Bv_Simplification
  imports Bv_Constant_Rules
begin

text \<open>
  Simplification of bit-vector terms: the rules of
  \<^verbatim>\<open>theory/bv/theory_bv_rewrite_rules_simplification.h\<close> and of
  \<^verbatim>\<open>theory/bv/theory_bv_rewrite_rules_core.h\<close>, with the utilities of \<^verbatim>\<open>theory/bv/theory_bv_utils.cpp\<close>
  they use. Widths are natural numbers: every unsigned subtraction of the code is on a positive
  width, or guarded, on well-typed terms.
\<close>

section \<open>Utilities\<close>

definition utils_isOnes :: "gmp \<Rightarrow> node \<Rightarrow> bool" where
  "utils_isOnes G n = (isConst n \<and> n = utils_mkOnes G (getSize n))"

definition utils_isZero :: "gmp \<Rightarrow> node \<Rightarrow> bool" where
  "utils_isZero G n = (isConst n \<and> n = utils_mkZero G (getSize n))"

definition utils_isOne :: "gmp \<Rightarrow> node \<Rightarrow> bool" where
  "utils_isOne G n = (isConst n \<and> n = utils_mkOne G (getSize n))"

fun is_const_bv :: "node \<Rightarrow> bool" where
  "is_const_bv (CONST_BITVECTOR b) = True"
| "is_const_bv n = False"

text \<open>The exponent plus one, 0 when there is none, and whether the power is negated.\<close>

definition isPow2Const :: "gmp \<Rightarrow> node \<Rightarrow> nat \<times> bool" where
  "isPow2Const G n =
     (if \<not> is_const_bv n then (0, False)
      else let bv = getConst n; p = bv_isPow2 G bv
           in if p \<noteq> 0 then (p, False)
              else let nbv = bv_neg G bv; p = bv_isPow2 G nbv
                   in if p \<noteq> 0 then (p, True) else (0, False))"

definition mkRepeat :: "node \<Rightarrow> nat \<Rightarrow> node" where
  "mkRepeat n repeat = mkNode (K_BITVECTOR_REPEAT repeat) [n]"

definition mkNaryNode :: "kind \<Rightarrow> node list \<Rightarrow> node" where
  "mkNaryNode k ns = (if length ns = 1 then ns ! 0 else mkNode k ns)"

definition mkConcat_vector :: "node list \<Rightarrow> node" where
  "mkConcat_vector ns = (if length ns > 1 then mkNode K_BITVECTOR_CONCAT ns else ns ! 0)"

definition mkDistinct :: "node \<Rightarrow> node \<Rightarrow> node" where
  "mkDistinct a b = mkNode K_DISTINCT [a, b]"

section \<open>Bits and if-then-else\<close>

definition bit_index :: "node \<Rightarrow> nat option" where
  "bit_index n = (case n of mkNode k ns \<Rightarrow> (case k of K_BITVECTOR_BIT pos \<Rightarrow> Some pos | _ \<Rightarrow> None) | _ \<Rightarrow> None)"

definition BitConst_applies :: "node \<Rightarrow> bool" where
  "BitConst_applies n = (bit_index n \<noteq> None \<and> isConst (child n 0))"

definition BitConst :: "gmp \<Rightarrow> node \<Rightarrow> node" where
  "BitConst G n = mkBool (getBit G (const_child n 0) (the (bit_index n)))"

definition BvIteConstCond_applies :: "node \<Rightarrow> bool" where
  "BvIteConstCond_applies n = (isKind K_BITVECTOR_ITE n \<and> isConst (child n 0))"

definition BvIteConstCond :: "gmp \<Rightarrow> node \<Rightarrow> node" where
  "BvIteConstCond G n = (if utils_isZero G (child n 0) then child n 2 else child n 1)"

definition BvIteEqualChildren_applies :: "node \<Rightarrow> bool" where
  "BvIteEqualChildren_applies n = (isKind K_BITVECTOR_ITE n \<and> child n 1 = child n 2)"

definition BvIteEqualChildren :: "node \<Rightarrow> node" where
  "BvIteEqualChildren n = child n 1"

definition BvIteConstChildren_applies :: "node \<Rightarrow> bool" where
  "BvIteConstChildren_applies n =
     (isKind K_BITVECTOR_ITE n \<and> getSize (child n 1) = 1 \<and> isConst (child n 1) \<and> isConst (child n 2))"

definition BvIteConstChildren :: "gmp \<Rightarrow> node \<Rightarrow> node" where
  "BvIteConstChildren G n =
     (if utils_isOne G (child n 1) \<and> utils_isZero G (child n 2) then child n 0
      else mkNode K_BITVECTOR_NOT [child n 0])"

definition BvIteEqualCond_applies :: "node \<Rightarrow> bool" where
  "BvIteEqualCond_applies n =
     (isKind K_BITVECTOR_ITE n \<and>
      (isKind K_BITVECTOR_ITE (child n 1) \<and> child n 0 = child (child n 1) 0 \<or>
       isKind K_BITVECTOR_ITE (child n 2) \<and> child n 0 = child (child n 2) 0))"

definition BvIteEqualCond :: "node \<Rightarrow> node" where
  "BvIteEqualCond n =
     (let t0 = if isKind K_BITVECTOR_ITE (child n 1) \<and> child n 0 = child (child n 1) 0 then child (child n 1) 1 else child n 1;
          e1 = if isKind K_BITVECTOR_ITE (child n 2) \<and> child n 0 = child (child n 2) 0 then child (child n 2) 2 else child n 2
      in mkNode K_BITVECTOR_ITE [child n 0, t0, e1])"

definition BvIteMergeThenIf_applies :: "node \<Rightarrow> bool" where
  "BvIteMergeThenIf_applies n =
     (isKind K_BITVECTOR_ITE n \<and> isKind K_BITVECTOR_ITE (child n 1) \<and> child (child n 1) 1 = child n 2)"

definition BvIteMergeThenIf :: "node \<Rightarrow> node" where
  "BvIteMergeThenIf n =
     (let cond = mkNode K_BITVECTOR_AND [child n 0, mkNode K_BITVECTOR_NOT [child (child n 1) 0]]
      in mkNode K_BITVECTOR_ITE [cond, child (child n 1) 2, child n 2])"

definition BvIteMergeElseIf_applies :: "node \<Rightarrow> bool" where
  "BvIteMergeElseIf_applies n =
     (isKind K_BITVECTOR_ITE n \<and> isKind K_BITVECTOR_ITE (child n 1) \<and> child (child n 1) 2 = child n 2)"

definition BvIteMergeElseIf :: "node \<Rightarrow> node" where
  "BvIteMergeElseIf n =
     (let cond = mkNode K_BITVECTOR_AND [child n 0, child (child n 1) 0]
      in mkNode K_BITVECTOR_ITE [cond, child (child n 1) 1, child n 2])"

definition BvIteMergeThenElse_applies :: "node \<Rightarrow> bool" where
  "BvIteMergeThenElse_applies n =
     (isKind K_BITVECTOR_ITE n \<and> isKind K_BITVECTOR_ITE (child n 2) \<and> child n 1 = child (child n 2) 1)"

definition BvIteMergeThenElse :: "node \<Rightarrow> node" where
  "BvIteMergeThenElse n =
     (let cond = mkNode K_BITVECTOR_AND [mkNode K_BITVECTOR_NOT [child n 0], mkNode K_BITVECTOR_NOT [child (child n 2) 0]]
      in mkNode K_BITVECTOR_ITE [cond, child (child n 2) 2, child n 1])"

definition BvIteMergeElseElse_applies :: "node \<Rightarrow> bool" where
  "BvIteMergeElseElse_applies n =
     (isKind K_BITVECTOR_ITE n \<and> isKind K_BITVECTOR_ITE (child n 2) \<and> child n 1 = child (child n 2) 2)"

definition BvIteMergeElseElse :: "node \<Rightarrow> node" where
  "BvIteMergeElseElse n =
     (let cond = mkNode K_BITVECTOR_AND [mkNode K_BITVECTOR_NOT [child n 0], child (child n 2) 0]
      in mkNode K_BITVECTOR_ITE [cond, child (child n 2) 1, child n 1])"

definition BvComp_applies :: "node \<Rightarrow> bool" where
  "BvComp_applies n =
     (isKind K_BITVECTOR_COMP n \<and> getSize (child n 0) = 1 \<and> (isConst (child n 0) \<or> isConst (child n 1)))"

definition BvComp :: "gmp \<Rightarrow> node \<Rightarrow> node" where
  "BvComp G n =
     (if isConst (child n 0)
      then (if utils_isZero G (child n 0) then mkNode K_BITVECTOR_NOT [child n 1] else child n 1)
      else (if utils_isZero G (child n 1) then mkNode K_BITVECTOR_NOT [child n 0] else child n 0))"

section \<open>Shifts by a constant\<close>

definition ShlByConst_applies :: "node \<Rightarrow> bool" where
  "ShlByConst_applies n = (isKind K_BITVECTOR_SHL n \<and> is_const_bv (child n 1))"

definition ShlByConst :: "gmp \<Rightarrow> node \<Rightarrow> node" where
  "ShlByConst G n =
     (let amount = bv_toInteger (const_child n 1); a = child n 0; sz = getSize a
      in if amount = 0 then child n 0
         else if amount \<ge> int sz then utils_mkZero G sz
         else let uint32_amount = nat amount;
                  left = mkExtract a (sz - 1 - uint32_amount) 0; right = utils_mkZero G uint32_amount
              in mkConcat left right)"

definition LshrByConst_applies :: "node \<Rightarrow> bool" where
  "LshrByConst_applies n = (isKind K_BITVECTOR_LSHR n \<and> is_const_bv (child n 1))"

definition LshrByConst :: "gmp \<Rightarrow> node \<Rightarrow> node" where
  "LshrByConst G n =
     (let amount = bv_toInteger (const_child n 1); a = child n 0; sz = getSize a
      in if amount = 0 then child n 0
         else if amount \<ge> int sz then utils_mkZero G sz
         else let uint32_amount = nat amount;
                  right = mkExtract a (sz - 1) uint32_amount; left = utils_mkZero G uint32_amount
              in mkConcat left right)"

definition AshrByConst_applies :: "node \<Rightarrow> bool" where
  "AshrByConst_applies n = (isKind K_BITVECTOR_ASHR n \<and> is_const_bv (child n 1))"

definition AshrByConst :: "node \<Rightarrow> node" where
  "AshrByConst n =
     (let amount = bv_toInteger (const_child n 1); a = child n 0; sz = getSize a;
          sign_bit = mkExtract a (sz - 1) (sz - 1)
      in if amount = 0 then child n 0
         else if amount \<ge> int sz then mkRepeat sign_bit sz
         else let uint32_amount = nat amount
              in if uint32_amount = 0 then a
                 else let left = mkRepeat sign_bit uint32_amount; right = mkExtract a (sz - 1) uint32_amount
                      in mkConcat left right)"

section \<open>Exclusive or and negation\<close>

definition XorOnes_applies :: "gmp \<Rightarrow> node \<Rightarrow> bool" where
  "XorOnes_applies G n =
     (isKind K_BITVECTOR_XOR n \<and> list_ex (\<lambda>c. c = utils_mkOnes G (getSize n)) (children n))"

definition XorOnes :: "gmp \<Rightarrow> node \<Rightarrow> node" where
  "XorOnes G n =
     (let ones = utils_mkOnes G (getSize n);
          found_ones = foldl (\<lambda>found c. if c = ones then \<not> found else found) False (children n);
          cs = filter (\<lambda>c. c \<noteq> ones) (children n);
          result = mkNaryNode K_BITVECTOR_XOR cs
      in if found_ones then mkNode K_BITVECTOR_NOT [result] else result)"

definition XorZero_applies :: "gmp \<Rightarrow> node \<Rightarrow> bool" where
  "XorZero_applies G n =
     (isKind K_BITVECTOR_XOR n \<and> list_ex (\<lambda>c. c = mkConst G (getSize n) 0) (children n))"

definition XorZero :: "gmp \<Rightarrow> node \<Rightarrow> node" where
  "XorZero G n = mkNaryNode K_BITVECTOR_XOR (filter (\<lambda>c. c \<noteq> mkConst G (getSize n) 0) (children n))"

definition NotIdemp_applies :: "node \<Rightarrow> bool" where
  "NotIdemp_applies n = (isKind K_BITVECTOR_NOT n \<and> isKind K_BITVECTOR_NOT (child n 0))"

fun strip_double_not :: "node \<Rightarrow> node" where
  "strip_double_not (mkNode k [mkNode k' [a]]) =
     (if k = K_BITVECTOR_NOT \<and> k' = K_BITVECTOR_NOT then strip_double_not a else mkNode k [mkNode k' [a]])"
| "strip_double_not n = n"

definition NotIdemp :: "node \<Rightarrow> node" where
  "NotIdemp n = strip_double_not (child (child n 0) 0)"

definition NegIdemp_applies :: "node \<Rightarrow> bool" where
  "NegIdemp_applies n = (isKind K_BITVECTOR_NEG n \<and> isKind K_BITVECTOR_NEG (child n 0))"

definition NegIdemp :: "node \<Rightarrow> node" where
  "NegIdemp n = child (child n 0) 0"

section \<open>Comparisons\<close>

definition UltZero_applies :: "gmp \<Rightarrow> node \<Rightarrow> bool" where
  "UltZero_applies G n = (isKind K_BITVECTOR_ULT n \<and> (utils_isZero G (child n 0) \<or> utils_isZero G (child n 1)))"

definition UltZero :: "gmp \<Rightarrow> node \<Rightarrow> node" where
  "UltZero G n =
     (if utils_isZero G (child n 1) then mkFalse
      else mkDistinct (utils_mkZero G (getSize (child n 0))) (child n 1))"

definition UltOne_applies :: "gmp \<Rightarrow> node \<Rightarrow> bool" where
  "UltOne_applies G n = (isKind K_BITVECTOR_ULT n \<and> utils_isOne G (child n 1))"

definition UltOne :: "gmp \<Rightarrow> node \<Rightarrow> node" where
  "UltOne G n = mkNode K_EQUAL [child n 0, utils_mkZero G (getSize (child n 0))]"

definition UltOnes_applies :: "gmp \<Rightarrow> node \<Rightarrow> bool" where
  "UltOnes_applies G n = (isKind K_BITVECTOR_ULT n \<and> (utils_isOnes G (child n 0) \<or> utils_isOnes G (child n 1)))"

definition UltOnes :: "gmp \<Rightarrow> node \<Rightarrow> node" where
  "UltOnes G n =
     (if utils_isOnes G (child n 1) then mkDistinct (child n 0) (utils_mkOnes G (getSize (child n 1)))
      else CONST_BOOLEAN False)"

definition UltSelf_applies :: "node \<Rightarrow> bool" where
  "UltSelf_applies n = (isKind K_BITVECTOR_ULT n \<and> child n 1 = child n 0)"

definition UltSelf :: "node \<Rightarrow> node" where
  "UltSelf n = mkFalse"

definition UleZero_applies :: "gmp \<Rightarrow> node \<Rightarrow> bool" where
  "UleZero_applies G n = (isKind K_BITVECTOR_ULE n \<and> child n 1 = utils_mkZero G (getSize (child n 0)))"

definition UleZero :: "node \<Rightarrow> node" where
  "UleZero n = mkNode K_EQUAL [child n 0, child n 1]"

definition UleSelf_applies :: "node \<Rightarrow> bool" where
  "UleSelf_applies n = (isKind K_BITVECTOR_ULE n \<and> child n 1 = child n 0)"

definition UleSelf :: "node \<Rightarrow> node" where
  "UleSelf n = mkTrue"

definition ZeroUle_applies :: "gmp \<Rightarrow> node \<Rightarrow> bool" where
  "ZeroUle_applies G n = (isKind K_BITVECTOR_ULE n \<and> child n 0 = utils_mkZero G (getSize (child n 0)))"

definition ZeroUle :: "node \<Rightarrow> node" where
  "ZeroUle n = mkTrue"

definition UleMax_applies :: "gmp \<Rightarrow> node \<Rightarrow> bool" where
  "UleMax_applies G n = (isKind K_BITVECTOR_ULE n \<and> child n 1 = utils_mkOnes G (getSize (child n 0)))"

definition UleMax :: "node \<Rightarrow> node" where
  "UleMax n = mkTrue"

definition SltSelf_applies :: "node \<Rightarrow> bool" where
  "SltSelf_applies n = (isKind K_BITVECTOR_SLT n \<and> child n 1 = child n 0)"

definition SltSelf :: "node \<Rightarrow> node" where
  "SltSelf n = mkFalse"

definition UgtUrem_applies :: "node \<Rightarrow> bool" where
  "UgtUrem_applies n =
     (isKind K_BITVECTOR_UGT n \<and> isKind K_BITVECTOR_UREM (child n 0) \<and> child (child n 0) 1 = child n 1)"

definition UgtUrem :: "gmp \<Rightarrow> node \<Rightarrow> node" where
  "UgtUrem G n =
     (let T = child (child n 0) 0; x = child n 1; zero = mkConst G (getSize x) 0
      in mkNode K_AND [mkNode K_EQUAL [x, zero], mkNode K_BITVECTOR_UGT [T, zero]])"

definition UltAddOne_applies :: "gmp \<Rightarrow> node \<Rightarrow> bool" where
  "UltAddOne_applies G n =
     (isKind K_BITVECTOR_ULT n \<and>
      (let y1 = child n 1
       in isKind K_BITVECTOR_ADD y1 \<and>
          (is_const_bv (child y1 0) \<or> is_const_bv (child y1 1)) \<and>
          \<not> (is_const_bv (child y1 0) \<and> is_const_bv (child y1 1)) \<and>
          length (children y1) = 2 \<and>
          (let one = if is_const_bv (child y1 0) then child y1 0 else child y1 1
           in one = mkConst G (getSize one) 1)))"

definition UltAddOne :: "gmp \<Rightarrow> node \<Rightarrow> node" where
  "UltAddOne G n =
     (let x = child n 0; y1 = child n 1; y = if \<not> is_const_bv (child y1 0) then child y1 0 else child y1 1;
          sz = getSize x;
          not_y_eq_1 = mkNode K_NOT [mkNode K_EQUAL [y, utils_mkOnes G sz]];
          not_y_lt_x = mkNode K_NOT [mkNode K_BITVECTOR_ULT [y, x]]
      in mkNode K_AND [not_y_eq_1, not_y_lt_x])"

section \<open>Multiplication, division and remainder\<close>

definition MultPow2_applies :: "gmp \<Rightarrow> node \<Rightarrow> bool" where
  "MultPow2_applies G n = (isKind K_BITVECTOR_MULT n \<and> list_ex (\<lambda>cn. fst (isPow2Const G cn) \<noteq> 0) (children n))"

definition mult_pow2_step :: "gmp \<Rightarrow> nat \<times> bool \<times> node list \<Rightarrow> node \<Rightarrow> nat \<times> bool \<times> node list" where
  "mult_pow2_step G s cn =
     (case s of (exponent, isNeg, cs) \<Rightarrow>
        case isPow2Const G cn of (expo, cIsNeg) \<Rightarrow>
          if expo \<noteq> 0 then (u32 (exponent + (expo - 1)), if cIsNeg then \<not> isNeg else isNeg, cs)
          else (exponent, isNeg, cs @ [cn]))"

definition MultPow2 :: "gmp \<Rightarrow> node \<Rightarrow> node" where
  "MultPow2 G n =
     (let sz = getSize n
      in case foldl (mult_pow2_step G) (0, False, []) (children n) of (exponent, isNeg, cs) \<Rightarrow>
        if exponent \<ge> sz then utils_mkZero G sz
        else let a = if cs = [] then utils_mkOne G sz else mkNaryNode K_BITVECTOR_MULT cs;
                 a = if isNeg \<and> sz > 1 then mkNode K_BITVECTOR_NEG [a] else a
             in if exponent = 0 then a
                else mkConcat (mkExtract a (sz - exponent - 1) 0) (mkConst G exponent 0))"

definition leading_zeroes :: "gmp \<Rightarrow> node \<Rightarrow> nat" where
  "leading_zeroes G c =
     (let i = bv_toInteger (getConst c); sz = getSize c in if i = 0 then sz else sz - length_Integer G i)"

definition ExtractMultLeadingBit_applies :: "gmp \<Rightarrow> node \<Rightarrow> bool" where
  "ExtractMultLeadingBit_applies G n =
     (is_extract n \<and>
      (let low = getExtractLow n; mult = child n 0
       in isKind K_BITVECTOR_MULT mult \<and> length (children mult) = 2 \<and> getSize mult > 64 \<and>
          isKind K_BITVECTOR_CONCAT (child mult 0) \<and> isKind K_BITVECTOR_CONCAT (child mult 1) \<and>
          isConst (child (child mult 0) 0) \<and> isConst (child (child mult 1) 0) \<and>
          (let zeroes1 = leading_zeroes G (child (child mult 0) 0); zeroes2 = leading_zeroes G (child (child mult 1) 0);
               k = u32_sub (u32 (2 * getSize mult)) (u32 (zeroes1 + zeroes2))
           in \<not> k > low)))"

definition ExtractMultLeadingBit :: "gmp \<Rightarrow> node \<Rightarrow> node" where
  "ExtractMultLeadingBit G n = mkConst G (getSize n) 0"

definition UdivPow2_applies :: "gmp \<Rightarrow> node \<Rightarrow> bool" where
  "UdivPow2_applies G n =
     (isKind K_BITVECTOR_UDIV n \<and> (case isPow2Const G (child n 1) of (p, isNeg) \<Rightarrow> p \<noteq> 0 \<and> \<not> isNeg))"

definition UdivPow2 :: "gmp \<Rightarrow> node \<Rightarrow> node" where
  "UdivPow2 G n =
     (let sz = getSize n; a = child n 0
      in case isPow2Const G (child n 1) of (p, isNeg) \<Rightarrow>
        let power = p - 1;
            ret = if power = 0 then a
                  else mkNode K_BITVECTOR_CONCAT [mkConst G power 0, mkExtract a (sz - 1) power]
        in if isNeg \<and> sz > 1 then mkNode K_BITVECTOR_NEG [ret] else ret)"

definition UdivZero_applies :: "gmp \<Rightarrow> node \<Rightarrow> bool" where
  "UdivZero_applies G n = (isKind K_BITVECTOR_UDIV n \<and> child n 1 = mkConst G (getSize n) 0)"

definition UdivZero :: "gmp \<Rightarrow> node \<Rightarrow> node" where
  "UdivZero G n = utils_mkOnes G (getSize n)"

definition UdivOne_applies :: "gmp \<Rightarrow> node \<Rightarrow> bool" where
  "UdivOne_applies G n = (isKind K_BITVECTOR_UDIV n \<and> child n 1 = mkConst G (getSize n) 1)"

definition UdivOne :: "node \<Rightarrow> node" where
  "UdivOne n = child n 0"

definition UremPow2_applies :: "gmp \<Rightarrow> node \<Rightarrow> bool" where
  "UremPow2_applies G n =
     (isKind K_BITVECTOR_UREM n \<and> (case isPow2Const G (child n 1) of (p, isNeg) \<Rightarrow> p \<noteq> 0 \<and> \<not> isNeg))"

definition UremPow2 :: "gmp \<Rightarrow> node \<Rightarrow> node" where
  "UremPow2 G n =
     (let a = child n 0; power = fst (isPow2Const G (child n 1)) - 1
      in if power = 0 then utils_mkZero G (getSize n)
         else mkNode K_BITVECTOR_CONCAT [utils_mkZero G (getSize n - power), mkExtract a (power - 1) 0])"

definition UremOne_applies :: "gmp \<Rightarrow> node \<Rightarrow> bool" where
  "UremOne_applies G n = (isKind K_BITVECTOR_UREM n \<and> child n 1 = mkConst G (getSize n) 1)"

definition UremOne :: "gmp \<Rightarrow> node \<Rightarrow> node" where
  "UremOne G n = mkConst G (getSize n) 0"

definition UremSelf_applies :: "node \<Rightarrow> bool" where
  "UremSelf_applies n = (isKind K_BITVECTOR_UREM n \<and> child n 0 = child n 1)"

definition UremSelf :: "gmp \<Rightarrow> node \<Rightarrow> node" where
  "UremSelf G n = mkConst G (getSize n) 0"

definition ShiftZero_applies :: "gmp \<Rightarrow> node \<Rightarrow> bool" where
  "ShiftZero_applies G n =
     ((isKind K_BITVECTOR_SHL n \<or> isKind K_BITVECTOR_LSHR n \<or> isKind K_BITVECTOR_ASHR n) \<and>
      child n 0 = mkConst G (getSize n) 0)"

definition ShiftZero :: "node \<Rightarrow> node" where
  "ShiftZero n = child n 0"

definition MultSlice_applies :: "node \<Rightarrow> bool" where
  "MultSlice_applies n =
     (isKind K_BITVECTOR_MULT n \<and> length (children n) = 2 \<and> getSize (child n 0) mod 2 = 0)"

definition MultSlice :: "gmp \<Rightarrow> node \<Rightarrow> node" where
  "MultSlice G n =
     (let bitwidth = getSize (child n 0); zeros = mkConst G (bitwidth div 2) 0;
          a = child n 0; bottom_a = mkExtract a (bitwidth div 2 - 1) 0; top_a = mkExtract a (bitwidth - 1) (bitwidth div 2);
          b = child n 1; bottom_b = mkExtract b (bitwidth div 2 - 1) 0; top_b = mkExtract b (bitwidth - 1) (bitwidth div 2);
          term1 = mkNode K_BITVECTOR_MULT [mkNode K_BITVECTOR_CONCAT [zeros, bottom_a], mkNode K_BITVECTOR_CONCAT [zeros, bottom_b]];
          term2 = mkNode K_BITVECTOR_CONCAT [mkNode K_BITVECTOR_MULT [top_b, bottom_a], zeros];
          term3 = mkNode K_BITVECTOR_CONCAT [mkNode K_BITVECTOR_MULT [top_a, bottom_b], zeros]
      in mkNode K_BITVECTOR_ADD [term1, term2, term3])"

section \<open>Extensions\<close>

definition zero_extend_amount :: "node \<Rightarrow> nat option" where
  "zero_extend_amount n =
     (case n of mkNode k ns \<Rightarrow> (case k of K_BITVECTOR_ZERO_EXTEND amount \<Rightarrow> Some amount | _ \<Rightarrow> None) | _ \<Rightarrow> None)"

definition is_zero_extend :: "node \<Rightarrow> bool" where
  "is_zero_extend n = (zero_extend_amount n \<noteq> None)"

definition MergeSignExtend_applies :: "node \<Rightarrow> bool" where
  "MergeSignExtend_applies n = (is_sign_extend n \<and> (is_sign_extend (child n 0) \<or> is_zero_extend (child n 0)))"

definition MergeSignExtend :: "node \<Rightarrow> node" where
  "MergeSignExtend n =
     (let amount1 = getSignExtendAmount n
      in if is_zero_extend (child n 0)
         then let amount2 = the (zero_extend_amount (child n 0))
              in if amount2 = 0 then mkNode (K_BITVECTOR_SIGN_EXTEND amount1) [child (child n 0) 0]
                 else mkNode (K_BITVECTOR_ZERO_EXTEND (amount1 + amount2)) [child (child n 0) 0]
         else mkSignExtend (child (child n 0) 0) (amount1 + getSignExtendAmount (child n 0)))"

definition ZeroExtendEqConst_applies :: "node \<Rightarrow> bool" where
  "ZeroExtendEqConst_applies n =
     (isKind K_EQUAL n \<and>
      (is_zero_extend (child n 0) \<and> isConst (child n 1) \<or> is_zero_extend (child n 1) \<and> isConst (child n 0)))"

definition ZeroExtendEqConst :: "gmp \<Rightarrow> node \<Rightarrow> node" where
  "ZeroExtendEqConst G n =
     (case (if is_zero_extend (child n 0) then (child (child n 0) 0, child n 1) else (child (child n 1) 0, child n 0)) of (t, c) \<Rightarrow>
        let cSize = getSize c; tSize = getSize t;
            c_hi = bv_extract G (getConst c) (cSize - 1) tSize; c_lo = bv_extract G (getConst c) (tSize - 1) 0;
            zero = mk_bv G (d_size c_hi) 0
        in if bv_eq c_hi zero then mkNode K_EQUAL [t, CONST_BITVECTOR c_lo] else mkFalse)"

definition SignExtendEqConst_applies :: "node \<Rightarrow> bool" where
  "SignExtendEqConst_applies n =
     (isKind K_EQUAL n \<and>
      (is_sign_extend (child n 0) \<and> isConst (child n 1) \<or> is_sign_extend (child n 1) \<and> isConst (child n 0)))"

definition SignExtendEqConst :: "gmp \<Rightarrow> node \<Rightarrow> node" where
  "SignExtendEqConst G n =
     (case (if is_sign_extend (child n 0) then (child (child n 0) 0, child n 1) else (child (child n 1) 0, child n 0)) of (t, c) \<Rightarrow>
        let pos_msb_t = getSize t - 1;
            c_hi = bv_extract G (getConst c) (getSize c - 1) pos_msb_t; c_lo = bv_extract G (getConst c) pos_msb_t 0;
            zero = mk_bv G (d_size c_hi) 0
        in if bv_eq c_hi zero \<or> bv_eq c_hi (bv_not G zero) then mkNode K_EQUAL [t, CONST_BITVECTOR c_lo] else mkFalse)"

definition ZeroExtendUltConst_applies :: "gmp \<Rightarrow> node \<Rightarrow> bool" where
  "ZeroExtendUltConst_applies G n =
     (isKind K_BITVECTOR_ULT n \<and>
      (is_zero_extend (child n 0) \<and> isConst (child n 1) \<or> is_zero_extend (child n 1) \<and> isConst (child n 0)) \<and>
      (case (if is_zero_extend (child n 0) then (child (child n 0) 0, child n 1) else (child (child n 1) 0, child n 0)) of (t, c) \<Rightarrow>
         let tSize = getSize t; cSize = getSize c
         in tSize \<noteq> cSize \<and>
            (let c_hi = bv_extract G (getConst c) (cSize - 1) tSize; zero = mk_bv G (d_size c_hi) 0 in bv_eq c_hi zero)))"

definition ZeroExtendUltConst :: "gmp \<Rightarrow> node \<Rightarrow> node" where
  "ZeroExtendUltConst G n =
     (let is_lhs = is_zero_extend (child n 0)
      in case (if is_lhs then (child (child n 0) 0, child n 1) else (child (child n 1) 0, child n 0)) of (t, c) \<Rightarrow>
        let c_lo = CONST_BITVECTOR (bv_extract G (getConst c) (getSize t - 1) 0)
        in if is_lhs then mkNode K_BITVECTOR_ULT [t, c_lo] else mkNode K_BITVECTOR_ULT [c_lo, t])"

text \<open>The comparison operators of \<^verbatim>\<open>BitVector\<close>.\<close>

definition bv_less :: "bitvector \<Rightarrow> bitvector \<Rightarrow> bool" where
  "bv_less a b = (d_value a < d_value b)"

definition bv_less_eq :: "bitvector \<Rightarrow> bitvector \<Rightarrow> bool" where
  "bv_less_eq a b = (d_value a \<le> d_value b)"

definition bv_greater_eq :: "bitvector \<Rightarrow> bitvector \<Rightarrow> bool" where
  "bv_greater_eq a b = (d_value a \<ge> d_value b)"

definition sign_bounds :: "gmp \<Rightarrow> nat \<Rightarrow> nat \<Rightarrow> bitvector \<times> bitvector" where
  "sign_bounds G size_c msb_x_pos =
     (bv_setBit G (bv_default size_c) msb_x_pos True,
      bv_leftShift G (bv_not G (bv_default size_c)) (mk_bv G size_c (int msb_x_pos)))"

definition SignExtendUltConst_applies :: "gmp \<Rightarrow> node \<Rightarrow> bool" where
  "SignExtendUltConst_applies G n =
     (isKind K_BITVECTOR_ULT n \<and>
      (is_sign_extend (child n 0) \<and> isConst (child n 1) \<or> is_sign_extend (child n 1) \<and> isConst (child n 0)) \<and>
      (let is_lhs = is_sign_extend (child n 0)
       in case (if is_lhs then (child (child n 0) 0, child n 1) else (child (child n 1) 0, child n 0)) of (x, c) \<Rightarrow>
         let bv_c = getConst c
         in case sign_bounds G (getSize c) (getSize x - 1) of (bv_msb_x, bv_upper_bits) \<Rightarrow>
           is_lhs \<and> (bv_less_eq bv_c bv_msb_x \<or> bv_greater_eq bv_c bv_upper_bits \<or>
             bv_less bv_msb_x bv_c \<and> bv_less_eq bv_c bv_upper_bits) \<or>
           \<not> is_lhs \<and> (bv_less bv_c bv_msb_x \<or> bv_greater_eq bv_c (bv_not G bv_msb_x) \<or>
             bv_less_eq (bv_not G bv_upper_bits) bv_c \<and> bv_less_eq bv_c (bv_not G bv_msb_x))))"

definition SignExtendUltConst :: "gmp \<Rightarrow> node \<Rightarrow> node" where
  "SignExtendUltConst G n =
     (let is_lhs = is_sign_extend (child n 0)
      in case (if is_lhs then (child (child n 0) 0, child n 1) else (child (child n 1) 0, child n 0)) of (x, c) \<Rightarrow>
        let bv_c = getConst c; msb_x_pos = getSize x - 1; c_lo = CONST_BITVECTOR (bv_extract G bv_c msb_x_pos 0)
        in case sign_bounds G (getSize c) msb_x_pos of (bv_msb_x, bv_upper_bits) \<Rightarrow>
          if is_lhs
          then if bv_less bv_msb_x bv_c \<and> bv_less_eq bv_c bv_upper_bits
               then mkNode K_EQUAL [mkExtract x msb_x_pos msb_x_pos, utils_mkZero G 1]
               else mkNode K_BITVECTOR_ULT [x, c_lo]
          else if bv_less_eq (bv_not G bv_upper_bits) bv_c \<and> bv_less_eq bv_c (bv_not G bv_msb_x)
               then mkNode K_EQUAL [mkExtract x msb_x_pos msb_x_pos, utils_mkOne G 1]
               else mkNode K_BITVECTOR_ULT [c_lo, x])"

section \<open>Comparison of extended products\<close>

text \<open>One pass of the loop of \<^verbatim>\<open>extract_ext_tuple\<close>, \<open>first\<close> being its first iteration.\<close>

definition extract_ext_pass :: "gmp \<Rightarrow> bool \<Rightarrow> node \<Rightarrow> node \<Rightarrow> (node \<times> node \<times> bool) option" where
  "extract_ext_pass G first a b =
     (if isKind K_BITVECTOR_CONCAT a \<and> is_sign_extend b \<and> child a 0 = utils_mkZero G (getSize (child a 0)) \<and>
         getSize (child a 1) \<le> getSize (child a 0) \<and> getSize (child b 0) \<le> getSignExtendAmount b
      then Some (child a 1, child b 0, False)
      else if first \<and> is_sign_extend a \<and> is_sign_extend b \<and> getSize (child a 0) \<le> getSignExtendAmount a \<and>
              getSize (child b 0) \<le> getSignExtendAmount b
      then Some (child a 0, child b 0, True)
      else None)"

definition extract_ext_tuple :: "gmp \<Rightarrow> node \<Rightarrow> (node \<times> node \<times> bool) option" where
  "extract_ext_tuple G n =
     (case extract_ext_pass G True (child n 0) (child n 1) of
        Some r \<Rightarrow> Some r
      | None \<Rightarrow> extract_ext_pass G False (child n 1) (child n 0))"

definition MultSltMult_applies :: "gmp \<Rightarrow> node \<Rightarrow> bool" where
  "MultSltMult_applies G n =
     (isKind K_BITVECTOR_SLT n \<and> isKind K_BITVECTOR_MULT (child n 0) \<and> isKind K_BITVECTOR_MULT (child n 1) \<and>
      \<not> length (children (child n 0)) > 2 \<and> \<not> length (children (child n 1)) > 2 \<and>
      (case extract_ext_tuple G (child n 0) of
         None \<Rightarrow> False
       | Some (ml0, ml1, is_sext_l) \<Rightarrow>
           (case extract_ext_tuple G (child n 1) of
              None \<Rightarrow> False
            | Some (mr0, mr1, is_sext_r) \<Rightarrow>
                is_sext_l = is_sext_r \<and>
                (case (if isKind K_BITVECTOR_ADD ml0 then Some (ml0, ml1)
                       else if isKind K_BITVECTOR_ADD ml1 then Some (ml1, ml0) else None) of
                   None \<Rightarrow> False
                 | Some (addxt, a) \<Rightarrow>
                     \<not> length (children addxt) > 2 \<and>
                     (case (if mr0 = a then Some mr1 else if mr1 = a then Some mr0 else None) of
                        None \<Rightarrow> False
                      | Some x \<Rightarrow> child addxt 0 = x \<or> child addxt 1 = x)))))"

definition MultSltMult :: "gmp \<Rightarrow> node \<Rightarrow> node" where
  "MultSltMult G n =
     (case (extract_ext_tuple G (child n 0), extract_ext_tuple G (child n 1)) of
        (Some (ml0, ml1, is_sext), Some (mr0, mr1, _)) \<Rightarrow>
          (case (if isKind K_BITVECTOR_ADD ml0 then (ml0, ml1) else (ml1, ml0)) of (addxt, a) \<Rightarrow>
             let x = if mr0 = a then mr1 else mr0;
                 t = mkNode K_BITVECTOR_SUB [addxt, x];
                 zero_t = utils_mkZero G (getSize t); zero_a = utils_mkZero G (getSize a);
                 k = if is_sext then K_BITVECTOR_SLT else K_BITVECTOR_ULT
             in mkNode K_AND [notNode (eqNode t zero_t), notNode (eqNode a zero_a),
                  eqNode (mkNode k [addxt, x]) (mkNode K_BITVECTOR_SGT [a, zero_a])])
      | _ \<Rightarrow> n)"

end
