(* ===== verification/Bv_Simplification_Correct.thy ===== *)
theory Bv_Simplification_Correct
  imports Bv_Simplification
begin

text \<open>
  Soundness of the simplification rules: each replaces a well-typed term by a term of the same type
  with the same value in every model.
\<close>

section \<open>Children of a well-typed node\<close>

lemma list_all2_two: "list_all2 P [a, b] ts \<longleftrightarrow> (\<exists>t u. ts = [t, u] \<and> P a t \<and> P b u)"
  by (auto simp: list_all2_Cons1)

lemma negation_children:
  assumes "getType (mkNode k ns) = Some T" "firstClass (mkNode k ns)" "k \<in> {K_BITVECTOR_NOT, K_BITVECTOR_NEG}"
  obtains a where "ns = [a]" "bv_term a"
proof -
  have "kind_arity k (length ns)"
    using getType_mkNode [OF assms(1)] by blast
  then obtain a where ns: "ns = [a]"
    using assms(3) by (auto simp: kind_arity_def length_Suc_conv)
  moreover have "bv_operands k"
    using assms(3) by (auto simp: bv_operands_def)
  ultimately show thesis
    using operands_bv_term [OF _ assms(1,2), of a] that by simp
qed

lemma bvpred_children:
  assumes "getType (mkNode k ns) = Some T" "firstClass (mkNode k ns)" "k \<in> {K_BITVECTOR_COMP, K_BITVECTOR_ULTBV, K_BITVECTOR_SLTBV}"
  obtains a b where "ns = [a, b]" "bv_term a" "bv_term b" "getSize a = getSize b"
proof -
  obtain ts where ts: "list_all2 (\<lambda>n t. getType n = Some t) ns ts" "kind_arity k (length ns)" "kind_type k ts = Some T"
    "valid_type T" "\<forall>n\<in>set ns. firstClass n"
    by (rule getType_children [OF assms(1,2)])
  then obtain a b where ns: "ns = [a, b]"
    using assms(3) by (auto simp: kind_arity_def length_Suc_conv numeral_2_eq_2)
  with ts(1) obtain t u where t: "ts = [t, u]" "getType a = Some t" "getType b = Some u"
    by (auto simp: list_all2_two)
  then have "isBitVector t" "t = u"
    using ts(3) assms(3) by (auto simp: kind_type_def BitVectorBVPredTypeRule_def split: if_splits)
  then show ?thesis
    using that [OF ns] t ts(5) ns by (auto simp: bv_term_def getSize_def elim!: isBitVectorE)
qed

lemma nary_children:
  assumes "getType (mkNode k ns) = Some T" "firstClass (mkNode k ns)" "k \<in> nary_kinds"
  shows "2 \<le> length ns" "\<forall>a\<in>set ns. bv_term a \<and> getSize a = getSize (mkNode k ns)" "bv_term (mkNode k ns)"
proof -
  show len: "2 \<le> length ns"
    using getType_mkNode [OF assms(1)] assms(3) by (auto simp: kind_arity_def)
  have "kind_type k = BitVectorFixedWidthTypeRule"
    using assms(3) by (auto simp: kind_type_def)
  then obtain w where w: "T = BITVECTOR_TYPE w" "\<forall>a\<in>set ns. getType a = Some (BITVECTOR_TYPE w)"
    using fixed_width_children [OF assms(1)] len by fastforce
  then have "getSize (mkNode k ns) = w"
    using assms(1) by (simp add: getSize_def del: getType.simps)
  with w assms(1,2) show "\<forall>a\<in>set ns. bv_term a \<and> getSize a = getSize (mkNode k ns)" "bv_term (mkNode k ns)"
    by (auto simp: bv_term_def getSize_def list_all_iff)
qed

text \<open>The branches of \<^verbatim>\<open>BITVECTOR_ITE\<close> have the type of the node, whatever it is.\<close>

lemma bvite_children:
  assumes "getType (mkNode K_BITVECTOR_ITE ns) = Some T" "firstClass (mkNode K_BITVECTOR_ITE ns)"
  obtains c a b where "ns = [c, a, b]" "bv_term c" "getSize c = 1" "getType a = Some T" "getType b = Some T" "firstClass a" "firstClass b"
proof -
  obtain ts where ts: "list_all2 (\<lambda>n t. getType n = Some t) ns ts" "kind_arity K_BITVECTOR_ITE (length ns)"
    "kind_type K_BITVECTOR_ITE ts = Some T" "valid_type T" "\<forall>n\<in>set ns. firstClass n"
    by (rule getType_children [OF assms])
  then obtain c a b where ns: "ns = [c, a, b]"
    by (auto simp: kind_arity_def length_Suc_conv numeral_3_eq_3)
  with ts(1) obtain t u v where t: "ts = [t, u, v]" "getType c = Some t" "getType a = Some u" "getType b = Some v"
    by (auto simp: list_all2_Cons1)
  then have "t = BITVECTOR_TYPE 1" "u = v" "T = u"
    using ts(3) by (auto simp: kind_type_def BitVectorITETypeRule_def split: if_splits)
  then show ?thesis
    using that [OF ns] t ts(5) ns by (simp add: bv_term_def getSize_def)
qed

lemma bvite_type:
  assumes "bv_term c" "getSize c = 1" "getType a = Some T" "getType b = Some T" "firstClass a" "firstClass b"
  shows "getType (mkNode K_BITVECTOR_ITE [c, a, b]) = Some T" "firstClass (mkNode K_BITVECTOR_ITE [c, a, b])"
  using assms bv_termD [OF assms(1)] getType_valid [OF assms(3)]
  by (simp_all add: kind_type_def kind_arity_def kind_range_def BitVectorITETypeRule_def)

lemma eval_bvite: "eval G m (mkNode K_BITVECTOR_ITE [c, a, b]) = (if bv_eq (bvval G m c) (mk_bv G 1 1) then eval G m a else eval G m b)"
  by (simp add: eval_kind_defs bvval_def)

section \<open>Rules by the kind they match\<close>

context gmp_documented
begin

lemma rewrites_negation:
  assumes "isKind k n" "k \<in> {K_BITVECTOR_NOT, K_BITVECTOR_NEG}"
    "\<And>a. n = mkNode k [a] \<Longrightarrow> bv_term a \<Longrightarrow> bv_term n' \<and> getSize n' = getSize a \<and> (\<forall>m. val G m n' = val G m (mkNode k [a]))"
  shows "rewrites_to G n n'"
proof (rule rewrites_typedI)
  fix T
  assume t: "firstClass n" "getType n = Some T"
  obtain ns where n: "n = mkNode k ns"
    using assms(1) by (rule isKind_cases)
  obtain a where a: "ns = [a]" "bv_term a"
    by (rule negation_children [OF t(2) [unfolded n] t(1) [unfolded n] assms(2)])
  with assms(2,3) n show "rewrites_to G n n'"
    by (intro rewrites_bv) (auto simp: unary_term [THEN conjunct1] unary_term [THEN conjunct2])
qed

lemma rewrites_bvpred:
  assumes "isKind k n" "k \<in> {K_BITVECTOR_COMP, K_BITVECTOR_ULTBV, K_BITVECTOR_SLTBV}"
    "\<And>a b. n = mkNode k [a, b] \<Longrightarrow> bv_term a \<Longrightarrow> bv_term b \<Longrightarrow> getSize a = getSize b \<Longrightarrow>
      bv_term n' \<and> getSize n' = 1 \<and> (\<forall>m. val G m n' = val G m (mkNode k [a, b]))"
  shows "rewrites_to G n n'"
proof (rule rewrites_typedI)
  fix T
  assume t: "firstClass n" "getType n = Some T"
  obtain ns where n: "n = mkNode k ns"
    using assms(1) by (rule isKind_cases)
  obtain a b where ab: "ns = [a, b]" "bv_term a" "bv_term b" "getSize a = getSize b"
    by (rule bvpred_children [OF t(2) [unfolded n] t(1) [unfolded n] assms(2)])
  with assms(2,3) n show "rewrites_to G n n'"
    by (intro rewrites_bv) (auto simp: predicate_bv_term [THEN conjunct1] predicate_bv_term [THEN conjunct2])
qed

lemma rewrites_nary:
  assumes "isKind k n" "k \<in> nary_kinds"
    "\<And>ns. n = mkNode k ns \<Longrightarrow> 2 \<le> length ns \<Longrightarrow> \<forall>a\<in>set ns. bv_term a \<and> getSize a = getSize n \<Longrightarrow> bv_term n \<Longrightarrow>
      bv_term n' \<and> getSize n' = getSize n \<and> (\<forall>m. val G m n' = val G m n)"
  shows "rewrites_to G n n'"
proof (rule rewrites_typedI)
  fix T
  assume t: "firstClass n" "getType n = Some T"
  obtain ns where n: "n = mkNode k ns"
    using assms(1) by (rule isKind_cases)
  note c = nary_children [OF t(2) [unfolded n] t(1) [unfolded n] assms(2)]
  show "rewrites_to G n n'"
    using assms(3) [OF n c(1)] c(2,3) unfolding n by (intro rewrites_bv) simp_all
qed

text \<open>The condition of \<^verbatim>\<open>BITVECTOR_ITE\<close> as a truth value.\<close>

lemma cond_one:
  assumes "bv_term c" "getSize c = 1"
  shows "bv_eq (bvval G m c) (mk_bv G 1 1) \<longleftrightarrow> val G m c = 1" "val G m c = 0 \<or> val G m c = 1"
proof -
  show "bv_eq (bvval G m c) (mk_bv G 1 1) \<longleftrightarrow> val G m c = 1"
    using bv_term_value(2) [OF assms(1), of m] assms(2) by (simp add: bv_eq_def val_def)
  show "val G m c = 0 \<or> val G m c = 1"
    using val_bounds(1,2) [OF assms(1), of m] assms(2) by auto
qed

lemma rewrites_bvite:
  assumes "isKind K_BITVECTOR_ITE n"
    "\<And>c a b T. n = mkNode K_BITVECTOR_ITE [c, a, b] \<Longrightarrow> bv_term c \<Longrightarrow> getSize c = 1 \<Longrightarrow> getType a = Some T \<Longrightarrow>
      getType b = Some T \<Longrightarrow> firstClass a \<Longrightarrow> firstClass b \<Longrightarrow>
      getType n' = Some T \<and> firstClass n' \<and> (\<forall>m. eval G m n' = (if val G m c = 1 then eval G m a else eval G m b))"
  shows "rewrites_to G n n'"
  unfolding rewrites_to_def
proof (intro allI impI, elim conjE)
  fix T
  assume t: "firstClass n" "getType n = Some T"
  obtain ns where n: "n = mkNode K_BITVECTOR_ITE ns"
    using assms(1) by (rule isKind_cases)
  obtain c a b where c: "ns = [c, a, b]" "bv_term c" "getSize c = 1" "getType a = Some T" "getType b = Some T" "firstClass a" "firstClass b"
    by (rule bvite_children [OF t(2) [unfolded n] t(1) [unfolded n]])
  show "firstClass n' \<and> getType n' = Some T \<and> (\<forall>m. eval G m n' = eval G m n)"
    using assms(2) [of c a b T] n c cond_one [OF c(2,3)] by (simp add: eval_bvite del: getType.simps eval.simps)
qed

section \<open>Constants\<close>

lemma const_test:
  assumes "bv_term c" "isConst c"
  shows "utils_isZero G c \<longleftrightarrow> val G m c = 0" "utils_isOne G c \<longleftrightarrow> val G m c = take_bit (getSize c) 1"
    "utils_isOnes G c \<longleftrightarrow> val G m c = 2 ^ getSize c - 1" "c = mkConst G w v \<longleftrightarrow> getSize c = w \<and> val G m c = take_bit w v"
    "c = utils_mkOnes G (getSize c) \<longleftrightarrow> val G m c = 2 ^ getSize c - 1"
proof -
  obtain b where c: "c = CONST_BITVECTOR b"
    using const_bv_term assms by blast
  have sz: "getSize c = d_size b" and v: "val G m c = d_value b"
    using assms(1) bv_termD(2) [OF assms(1)] by (auto simp: c term_simps BitVectorConstantTypeRule_def split: if_splits)
  have w: "0 < getSize c" "getSize c < 2 ^ 32"
    using bv_term_width [OF assms(1)] by auto
  show "c = mkConst G w v \<longleftrightarrow> getSize c = w \<and> val G m c = take_bit w v" for w v
    using sz by (auto simp: c term_simps mkConst_def intro: bitvector.equality)
  then show "utils_isZero G c \<longleftrightarrow> val G m c = 0" "utils_isOne G c \<longleftrightarrow> val G m c = take_bit (getSize c) 1"
    using assms(2) by (simp_all add: utils_isZero_def utils_mkZero_def utils_isOne_def utils_mkOne_def)
  obtain u where u: "utils_mkOnes G (getSize c) = CONST_BITVECTOR u"
    by (simp add: utils_mkOnes_def)
  have "d_size u = getSize c" "d_value u = 2 ^ getSize c - 1"
    using constant_nodes(1-3) [OF w] unfolding u
    by (auto simp: term_simps bv_term_def getSize_def BitVectorConstantTypeRule_def split: if_splits)
  then show "c = utils_mkOnes G (getSize c) \<longleftrightarrow> val G m c = 2 ^ getSize c - 1"
    using v sz unfolding u by (auto simp: c intro: bitvector.equality)
  then show "utils_isOnes G c \<longleftrightarrow> val G m c = 2 ^ getSize c - 1"
    using assms(2) by (simp add: utils_isOnes_def)
qed

lemma isConst_of_tests:
  "utils_isZero G c \<Longrightarrow> isConst c" "utils_isOne G c \<Longrightarrow> isConst c" "utils_isOnes G c \<Longrightarrow> isConst c"
  by (simp_all add: utils_isZero_def utils_isOne_def utils_isOnes_def)

section \<open>If-then-else\<close>

lemma eval_bvite_val:
  assumes "bv_term c" "getSize c = 1"
  shows "eval G m (mkNode K_BITVECTOR_ITE [c, a, b]) = (if val G m c = 1 then eval G m a else eval G m b)"
  using cond_one(1) [OF assms, of m] unfolding eval_bvite by simp

lemmas bvite_simps = child_def eval_bvite_val bvite_type term_simps Let_def

lemma BvIteConstCond_sound: "BvIteConstCond_applies n \<Longrightarrow> rewrites_to G n (BvIteConstCond G n)"
  unfolding BvIteConstCond_applies_def
proof (elim conjE, erule rewrites_bvite)
  fix c a b T
  assume n: "n = mkNode K_BITVECTOR_ITE [c, a, b]" and "isConst (child n 0)" and c: "bv_term c" "getSize c = 1"
    and ab: "getType a = Some T" "getType b = Some T" "firstClass a" "firstClass b"
  then have "utils_isZero G c \<longleftrightarrow> val G m c \<noteq> 1" for m
    using const_test(1) [of c m] cond_one [of c m] by (auto simp: child_def)
  then show "getType (BvIteConstCond G n) = Some T \<and> firstClass (BvIteConstCond G n) \<and>
      (\<forall>m. eval G m (BvIteConstCond G n) = (if val G m c = 1 then eval G m a else eval G m b))"
    using ab by (auto simp: n BvIteConstCond_def child_def)
qed

lemma BvIteEqualChildren_sound: "BvIteEqualChildren_applies n \<Longrightarrow> rewrites_to G n (BvIteEqualChildren n)"
  unfolding BvIteEqualChildren_applies_def
  by (elim conjE, erule rewrites_bvite) (simp add: BvIteEqualChildren_def child_def)

text \<open>The rule is sound when the branches differ, which the rewriter ensures by an earlier rule.\<close>

lemma BvIteConstChildren_sound:
  assumes "BvIteConstChildren_applies n" "\<not> BvIteEqualChildren_applies n"
  shows "rewrites_to G n (BvIteConstChildren G n)"
proof -
  have k: "isKind K_BITVECTOR_ITE n"
    using assms(1) by (simp add: BvIteConstChildren_applies_def)
  show ?thesis
  proof (rule rewrites_typedI)
    fix T
    assume t: "firstClass n" "getType n = Some T"
    obtain ns where "n = mkNode K_BITVECTOR_ITE ns"
      using k by (rule isKind_cases)
    then obtain c a b where n: "n = mkNode K_BITVECTOR_ITE [c, a, b]" and c: "bv_term c" "getSize c = 1"
      and ab: "getType a = Some T" "getType b = Some T" "firstClass a" "firstClass b"
      using bvite_children t by metis
    have sz: "getSize a = 1" "isConst a" "isConst b" "a \<noteq> b"
      using assms k by (auto simp: BvIteConstChildren_applies_def BvIteEqualChildren_applies_def n child_def)
    then have T: "T = BITVECTOR_TYPE 1"
      using ab(1) by (cases T) (auto simp: getSize_def)
    then have bv: "bv_term a" "bv_term b" "getSize b = 1"
      using ab by (auto simp: bv_term_def getSize_def)
    obtain x y where xy: "a = mkConst G 1 x" "b = mkConst G 1 y"
      using const_test(4) [OF bv(1) sz(2)] const_test(4) [OF bv(2) sz(3)] sz(1) bv(3) val_bounds(3) [OF bv(1)] val_bounds(3) [OF bv(2)]
      by metis
    have ne: "val G m a \<noteq> val G m b" for m
      using sz(4) const_test(4) [OF bv(1) sz(2), of 1 y m] sz(1) xy(2) by (auto simp: term_simps)
    note one = cond_one [OF bv(1) sz(1)] cond_one [OF bv(2,3)] cond_one [OF c]
    have "utils_isOne G a \<and> utils_isZero G b \<longleftrightarrow> val G m a = 1" for m
      using const_test(2) [OF bv(1) sz(2), of m] const_test(1) [OF bv(2) sz(3), of m] ne [of m] one(2,4) [of m] sz(1) by auto
    moreover have "val G m (mkNode K_BITVECTOR_ITE [c, a, b]) = (if val G m c = 1 then val G m a else val G m b)" for m
      using one(5) [of m] by (simp add: val_def bvval_ite)
    moreover have "bv_term n" "getSize n = 1"
      using bvite_term [OF c bv(1,2)] sz(1) bv(3) by (simp_all add: n)
    moreover have "val G m c = 0" if "val G m c \<noteq> 1" for m
      using one(6) [of m] that by simp
    ultimately show "rewrites_to G n (BvIteConstChildren G n)"
      using c ne one(2,4) by (intro rewrites_bv) (auto simp: n BvIteConstChildren_def child_def term_simps split: if_splits)
  qed
qed

lemma bvite_nested:
  assumes "isKind K_BITVECTOR_ITE n" "getType n = Some T" "firstClass n"
  obtains c a b where "n = mkNode K_BITVECTOR_ITE [c, a, b]" "bv_term c" "getSize c = 1" "getType a = Some T" "getType b = Some T" "firstClass a" "firstClass b"
proof -
  obtain ns where "n = mkNode K_BITVECTOR_ITE ns"
    using assms(1) by (rule isKind_cases)
  with that bvite_children assms(2,3) show thesis
    by metis
qed

lemma val_and_one:
  assumes "bv_term c" "getSize c = 1" "bv_term d" "getSize d = 1"
  shows "val G m c AND val G m d = (if val G m c = 1 \<and> val G m d = 1 then 1 else 0)"
    "(val G m c AND (1 - val G m d)) = (if val G m c = 1 \<and> val G m d = 0 then 1 else 0)"
    "((1 - val G m c) AND val G m d) = (if val G m c = 0 \<and> val G m d = 1 then 1 else 0)"
    "((1 - val G m c) AND (1 - val G m d)) = (if val G m c = 0 \<and> val G m d = 0 then 1 else 0)"
  using cond_one(2) [OF assms(1,2), of m] cond_one(2) [OF assms(3,4), of m] by auto

lemma then_nested_sound:
  assumes "isKind K_BITVECTOR_ITE n" "isKind K_BITVECTOR_ITE (child n 1)"
  shows "child (child n 1) 1 = child n 2 \<Longrightarrow> rewrites_to G n (BvIteMergeThenIf n)"
    "child (child n 1) 2 = child n 2 \<Longrightarrow> rewrites_to G n (BvIteMergeElseIf n)"
proof -
  have nested: "rewrites_to G n r"
    if "\<And>c c1 a1 b1 b T. \<lbrakk>n = mkNode K_BITVECTOR_ITE [c, mkNode K_BITVECTOR_ITE [c1, a1, b1], b]; bv_term c; getSize c = 1;
        getType b = Some T; firstClass b; bv_term c1; getSize c1 = 1; getType a1 = Some T; getType b1 = Some T; firstClass a1; firstClass b1\<rbrakk>
      \<Longrightarrow> getType r = Some T \<and> firstClass r \<and>
        (\<forall>m. eval G m r = (if val G m c = 1 then if val G m c1 = 1 then eval G m a1 else eval G m b1 else eval G m b))" for r
    using assms(1)
  proof (rule rewrites_bvite)
    fix c a b T
    assume n: "n = mkNode K_BITVECTOR_ITE [c, a, b]" and c: "bv_term c" "getSize c = 1"
      and ab: "getType a = Some T" "getType b = Some T" "firstClass a" "firstClass b"
    have "isKind K_BITVECTOR_ITE a"
      using assms(2) by (simp add: n child_def)
    from bvite_nested [OF this ab(1,3)] obtain c1 a1 b1 where a: "a = mkNode K_BITVECTOR_ITE [c1, a1, b1]" "bv_term c1" "getSize c1 = 1"
      "getType a1 = Some T" "getType b1 = Some T" "firstClass a1" "firstClass b1" .
    with that [of c c1 a1 b1 b T] n c ab show "getType r = Some T \<and> firstClass r \<and> (\<forall>m. eval G m r = (if val G m c = 1 then eval G m a else eval G m b))"
      by (simp add: eval_bvite_val del: getType.simps eval.simps firstClass.simps)
  qed
  show "rewrites_to G n (BvIteMergeThenIf n)" if "child (child n 1) 1 = child n 2"
  proof (rule nested)
    fix c c1 a1 b1 b T
    assume n: "n = mkNode K_BITVECTOR_ITE [c, mkNode K_BITVECTOR_ITE [c1, a1, b1], b]" and c: "bv_term c" "getSize c = 1" "bv_term c1" "getSize c1 = 1"
      and t: "getType b = Some T" "firstClass b" "getType a1 = Some T" "getType b1 = Some T" "firstClass a1" "firstClass b1"
    show "getType (BvIteMergeThenIf n) = Some T \<and> firstClass (BvIteMergeThenIf n) \<and>
        (\<forall>m. eval G m (BvIteMergeThenIf n) = (if val G m c = 1 then if val G m c1 = 1 then eval G m a1 else eval G m b1 else eval G m b))"
      using that c t cond_one(2) [OF c(3,4)]
      by (auto simp: n BvIteMergeThenIf_def bvite_simps val_and_one [OF c] simp del: getType.simps eval.simps firstClass.simps)
  qed
  show "rewrites_to G n (BvIteMergeElseIf n)" if "child (child n 1) 2 = child n 2"
  proof (rule nested)
    fix c c1 a1 b1 b T
    assume n: "n = mkNode K_BITVECTOR_ITE [c, mkNode K_BITVECTOR_ITE [c1, a1, b1], b]" and c: "bv_term c" "getSize c = 1" "bv_term c1" "getSize c1 = 1"
      and t: "getType b = Some T" "firstClass b" "getType a1 = Some T" "getType b1 = Some T" "firstClass a1" "firstClass b1"
    show "getType (BvIteMergeElseIf n) = Some T \<and> firstClass (BvIteMergeElseIf n) \<and>
        (\<forall>m. eval G m (BvIteMergeElseIf n) = (if val G m c = 1 then if val G m c1 = 1 then eval G m a1 else eval G m b1 else eval G m b))"
      using that c t cond_one(2) [OF c(3,4)]
      by (auto simp: n BvIteMergeElseIf_def bvite_simps val_and_one [OF c] simp del: getType.simps eval.simps firstClass.simps)
  qed
qed

lemma else_nested_sound:
  assumes "isKind K_BITVECTOR_ITE n" "isKind K_BITVECTOR_ITE (child n 2)"
  shows "child n 1 = child (child n 2) 1 \<Longrightarrow> rewrites_to G n (BvIteMergeThenElse n)"
    "child n 1 = child (child n 2) 2 \<Longrightarrow> rewrites_to G n (BvIteMergeElseElse n)"
proof -
  have nested: "rewrites_to G n r"
    if "\<And>c c1 a a1 b1 T. \<lbrakk>n = mkNode K_BITVECTOR_ITE [c, a, mkNode K_BITVECTOR_ITE [c1, a1, b1]]; bv_term c; getSize c = 1;
        getType a = Some T; firstClass a; bv_term c1; getSize c1 = 1; getType a1 = Some T; getType b1 = Some T; firstClass a1; firstClass b1\<rbrakk>
      \<Longrightarrow> getType r = Some T \<and> firstClass r \<and>
        (\<forall>m. eval G m r = (if val G m c = 1 then eval G m a else if val G m c1 = 1 then eval G m a1 else eval G m b1))" for r
    using assms(1)
  proof (rule rewrites_bvite)
    fix c a b T
    assume n: "n = mkNode K_BITVECTOR_ITE [c, a, b]" and c: "bv_term c" "getSize c = 1"
      and ab: "getType a = Some T" "getType b = Some T" "firstClass a" "firstClass b"
    have "isKind K_BITVECTOR_ITE b"
      using assms(2) by (simp add: n child_def)
    from bvite_nested [OF this ab(2,4)] obtain c1 a1 b1 where b: "b = mkNode K_BITVECTOR_ITE [c1, a1, b1]" "bv_term c1" "getSize c1 = 1"
      "getType a1 = Some T" "getType b1 = Some T" "firstClass a1" "firstClass b1" .
    with that [of c a c1 a1 b1 T] n c ab show "getType r = Some T \<and> firstClass r \<and> (\<forall>m. eval G m r = (if val G m c = 1 then eval G m a else eval G m b))"
      by (simp add: eval_bvite_val del: getType.simps eval.simps firstClass.simps)
  qed
  show "rewrites_to G n (BvIteMergeThenElse n)" if "child n 1 = child (child n 2) 1"
  proof (rule nested)
    fix c c1 a a1 b1 T
    assume n: "n = mkNode K_BITVECTOR_ITE [c, a, mkNode K_BITVECTOR_ITE [c1, a1, b1]]" and c: "bv_term c" "getSize c = 1" "bv_term c1" "getSize c1 = 1"
      and t: "getType a = Some T" "firstClass a" "getType a1 = Some T" "getType b1 = Some T" "firstClass a1" "firstClass b1"
    show "getType (BvIteMergeThenElse n) = Some T \<and> firstClass (BvIteMergeThenElse n) \<and>
        (\<forall>m. eval G m (BvIteMergeThenElse n) = (if val G m c = 1 then eval G m a else if val G m c1 = 1 then eval G m a1 else eval G m b1))"
      using that c t cond_one(2) [OF c(1,2)] cond_one(2) [OF c(3,4)]
      by (auto simp: n BvIteMergeThenElse_def bvite_simps val_and_one [OF c] simp del: getType.simps eval.simps firstClass.simps)
  qed
  show "rewrites_to G n (BvIteMergeElseElse n)" if "child n 1 = child (child n 2) 2"
  proof (rule nested)
    fix c c1 a a1 b1 T
    assume n: "n = mkNode K_BITVECTOR_ITE [c, a, mkNode K_BITVECTOR_ITE [c1, a1, b1]]" and c: "bv_term c" "getSize c = 1" "bv_term c1" "getSize c1 = 1"
      and t: "getType a = Some T" "firstClass a" "getType a1 = Some T" "getType b1 = Some T" "firstClass a1" "firstClass b1"
    show "getType (BvIteMergeElseElse n) = Some T \<and> firstClass (BvIteMergeElseElse n) \<and>
        (\<forall>m. eval G m (BvIteMergeElseElse n) = (if val G m c = 1 then eval G m a else if val G m c1 = 1 then eval G m a1 else eval G m b1))"
      using that c t cond_one(2) [OF c(1,2)]
      by (auto simp: n BvIteMergeElseElse_def bvite_simps val_and_one [OF c] simp del: getType.simps eval.simps firstClass.simps)
  qed
qed

lemma BvIteEqualCond_sound: "BvIteEqualCond_applies n \<Longrightarrow> rewrites_to G n (BvIteEqualCond n)"
  unfolding BvIteEqualCond_applies_def
proof (elim conjE, erule rewrites_bvite)
  fix c a b T
  assume n: "n = mkNode K_BITVECTOR_ITE [c, a, b]" and c: "bv_term c" "getSize c = 1"
    and ab: "getType a = Some T" "getType b = Some T" "firstClass a" "firstClass b"
  define t0 where "t0 = (if isKind K_BITVECTOR_ITE a \<and> c = child a 0 then child a 1 else a)"
  define e1 where "e1 = (if isKind K_BITVECTOR_ITE b \<and> c = child b 0 then child b 2 else b)"
  have branch: "getType (child d 1) = Some T \<and> firstClass (child d 1) \<and> getType (child d 2) = Some T \<and> firstClass (child d 2) \<and>
      (\<forall>m. eval G m d = (if val G m (child d 0) = 1 then eval G m (child d 1) else eval G m (child d 2)))"
    if d: "isKind K_BITVECTOR_ITE d" "getType d = Some T" "firstClass d" for d
  proof (rule bvite_nested [OF d])
    fix c a b
    assume "d = mkNode K_BITVECTOR_ITE [c, a, b]" "bv_term c" "getSize c = 1" "getType a = Some T" "getType b = Some T" "firstClass a" "firstClass b"
    then show ?thesis
      by (simp add: child_def eval_bvite_val del: eval.simps)
  qed
  have t0: "getType t0 = Some T" "firstClass t0" "val G m c = 1 \<Longrightarrow> eval G m t0 = eval G m a" for m
    using branch [of a] ab by (auto simp: t0_def)
  have e1: "getType e1 = Some T" "firstClass e1" "val G m c \<noteq> 1 \<Longrightarrow> eval G m e1 = eval G m b" for m
    using branch [of b] ab by (auto simp: e1_def)
  have r: "BvIteEqualCond n = mkNode K_BITVECTOR_ITE [c, t0, e1]"
    by (simp add: n BvIteEqualCond_def child_def t0_def e1_def Let_def)
  show "getType (BvIteEqualCond n) = Some T \<and> firstClass (BvIteEqualCond n) \<and>
      (\<forall>m. eval G m (BvIteEqualCond n) = (if val G m c = 1 then eval G m a else eval G m b))"
    unfolding r using bvite_type [OF c t0(1) e1(1) t0(2) e1(2)] t0(3) e1(3) eval_bvite_val [OF c] by simp
qed

lemma BitConst_sound: "BitConst_applies n \<Longrightarrow> rewrites_to G n (BitConst G n)"
proof (rule rewrites_typedI)
  fix T
  assume a: "BitConst_applies n" and t: "firstClass n" "getType n = Some T"
  obtain i ns where n: "n = mkNode (K_BITVECTOR_BIT i) ns"
    using a by (auto simp: BitConst_applies_def bit_index_def split: node.splits kind.splits)
  then obtain b where ns: "ns = [b]"
    using t getType_mkNode [of "K_BITVECTOR_BIT i" ns T] by (auto simp: kind_arity_def length_Suc_conv)
  have "bv_term b"
    using operands_bv_term [of "K_BITVECTOR_BIT i" ns T b] t n ns by (simp add: bv_operands_def)
  then obtain v where b: "b = CONST_BITVECTOR v"
    using const_bv_term a by (auto simp: BitConst_applies_def n ns child_def)
  show "rewrites_to G n (BitConst G n)"
    by (rule rewrites_const) (auto simp: n ns b BitConst_def bit_index_def child_def eval_kind_defs mkTrue_def mkFalse_def)
qed

section \<open>Comparisons with constants\<close>

lemma mkDistinct_bv:
  assumes "bv_term a" "bv_term b" "getSize a = getSize b"
  shows "sentence (mkDistinct a b)" "truth G m (mkDistinct a b) \<longleftrightarrow> val G m a \<noteq> val G m b"
proof -
  show "sentence (mkDistinct a b)"
    using assms bv_termD [OF assms(1)] bv_termD [OF assms(2)]
    by (simp add: mkDistinct_def sentence_def isBoolean_def kind_type_def kind_range_def kind_arity_def DistinctTypeRule_def)
  have "eval G m a = eval G m b \<longleftrightarrow> val G m a = val G m b"
    using bv_term_value(3) [OF assms(1), of m] bv_term_value(3) [OF assms(2), of m]
      bvval_record [OF assms(1), of m] bvval_record [OF assms(2), of m] assms(3)
    by (metis bitvector.simps(2) eval_result.inject(2))
  then show "truth G m (mkDistinct a b) \<longleftrightarrow> val G m a \<noteq> val G m b"
    by (simp add: mkDistinct_def truth_def eval_kind_defs eval_smtlib_def)
qed

lemmas constant_terms = mkTrue_def mkFalse_def utils_mkZero_def utils_mkOne_def child_def Let_def

lemma ult_rules_sound:
  "UltZero_applies G n \<Longrightarrow> rewrites_to G n (UltZero G n)"
  "UltOne_applies G n \<Longrightarrow> rewrites_to G n (UltOne G n)"
  "UltOnes_applies G n \<Longrightarrow> rewrites_to G n (UltOnes G n)"
  "UltSelf_applies n \<Longrightarrow> rewrites_to G n (UltSelf n)"
proof -
  have w: "0 < getSize a" "getSize a < 2 ^ 32" "take_bit (getSize a) 1 = (1 :: int)" if "bv_term a" for a
    using bv_term_width [OF that] by (auto simp: take_bit_eq_mod)
  show "rewrites_to G n (UltSelf n)" if "UltSelf_applies n"
    using that unfolding UltSelf_applies_def
    by (elim conjE, elim rewrites_predicate) (auto simp: UltSelf_def constant_terms term_simps)
  show "rewrites_to G n (UltOne G n)" if "UltOne_applies G n"
    using that unfolding UltOne_applies_def
  proof (elim conjE, elim rewrites_predicate)
    fix a b
    assume n: "n = mkNode K_BITVECTOR_ULT [a, b]" and ab: "bv_term a" "bv_term b" "getSize a = getSize b" and one: "utils_isOne G (child n 1)"
    have "val G m b = 1" for m
      using const_test(2) [OF ab(2) isConst_of_tests(2), of m] one w [OF ab(2)] by (simp add: n child_def)
    moreover have "val G m a < 1 \<longleftrightarrow> val G m a = 0" for m
      using val_bounds(1) [OF ab(1), of m] by auto
    ultimately show "sentence (UltOne G n) \<and> (\<forall>m. truth G m (UltOne G n) = truth G m (mkNode K_BITVECTOR_ULT [a, b]))"
      using ab w [OF ab(1)] by (simp add: n UltOne_def constant_terms term_simps)
  qed simp
  show "rewrites_to G n (UltZero G n)" if "UltZero_applies G n"
    using that unfolding UltZero_applies_def
  proof (elim conjE, elim rewrites_predicate)
    fix a b
    assume n: "n = mkNode K_BITVECTOR_ULT [a, b]" and ab: "bv_term a" "bv_term b" "getSize a = getSize b"
      and z: "utils_isZero G (child n 0) \<or> utils_isZero G (child n 1)"
    have z0: "val G m c = 0" if "bv_term c" "utils_isZero G c" for c m
      using const_test(1) [OF that(1) isConst_of_tests(1) [OF that(2)], of m] that(2) by simp
    have zero: "bv_term (mkConst G (getSize a) 0)" "getSize (mkConst G (getSize a) 0) = getSize b" "val G m (mkConst G (getSize a) 0) = 0" for m
      using w [OF ab(1)] ab(3) by (simp_all add: term_simps)
    show "sentence (UltZero G n) \<and> (\<forall>m. truth G m (UltZero G n) = truth G m (mkNode K_BITVECTOR_ULT [a, b]))"
    proof (cases "utils_isZero G b")
      case True
      then show ?thesis
        using z0 [OF ab(2) True] val_bounds(1) [OF ab(1)] ab by (auto simp: n UltZero_def constant_terms term_simps not_less)
    next
      case False
      then have "utils_isZero G a"
        using z by (simp add: n child_def)
      then have "truth G m (mkNode K_BITVECTOR_ULT [a, b]) \<longleftrightarrow> 0 \<noteq> val G m b" for m
        using z0 [OF ab(1), of m] val_bounds(1) [OF ab(2), of m] ab by (auto simp: term_simps)
      then show ?thesis
        using False mkDistinct_bv [OF zero(1) ab(2) zero(2)] zero(3) by (simp add: n UltZero_def constant_terms)
    qed
  qed simp
  show "rewrites_to G n (UltOnes G n)" if "UltOnes_applies G n"
    using that unfolding UltOnes_applies_def
  proof (elim conjE, elim rewrites_predicate)
    fix a b
    assume n: "n = mkNode K_BITVECTOR_ULT [a, b]" and ab: "bv_term a" "bv_term b" "getSize a = getSize b"
      and z: "utils_isOnes G (child n 0) \<or> utils_isOnes G (child n 1)"
    have z1: "val G m c = 2 ^ getSize c - 1" if "bv_term c" "utils_isOnes G c" for c m
      using const_test(3) [OF that(1) isConst_of_tests(3) [OF that(2)], of m] that(2) by simp
    note ones = constant_nodes(1-3) [OF w(1,2) [OF ab(2)]]
    have le: "val G m a \<le> 2 ^ getSize b - 1" "val G m b \<le> 2 ^ getSize b - 1" for m
      using val_bounds(2) [OF ab(1), of m] val_bounds(2) [OF ab(2), of m] ab(3) by simp_all
    show "sentence (UltOnes G n) \<and> (\<forall>m. truth G m (UltOnes G n) = truth G m (mkNode K_BITVECTOR_ULT [a, b]))"
    proof (cases "utils_isOnes G b")
      case True
      then have "truth G m (mkNode K_BITVECTOR_ULT [a, b]) \<longleftrightarrow> val G m a \<noteq> 2 ^ getSize b - 1" for m
        using z1 [OF ab(2) True, of m] le(1) [of m] ab by (auto simp: term_simps)
      then show ?thesis
        using True mkDistinct_bv [OF ab(1) ones(1)] ones(2,3) ab(3) by (simp add: n UltOnes_def constant_terms)
    next
      case False
      then have "utils_isOnes G a"
        using z by (simp add: n child_def)
      then show ?thesis
        using z1 [OF ab(1)] le ab False by (auto simp: n UltOnes_def constant_terms term_simps not_less)
    qed
  qed simp
qed

lemma ule_rules_sound:
  "UleZero_applies G n \<Longrightarrow> rewrites_to G n (UleZero n)"
  "UleSelf_applies n \<Longrightarrow> rewrites_to G n (UleSelf n)"
  "ZeroUle_applies G n \<Longrightarrow> rewrites_to G n (ZeroUle n)"
  "UleMax_applies G n \<Longrightarrow> rewrites_to G n (UleMax n)"
  "SltSelf_applies n \<Longrightarrow> rewrites_to G n (SltSelf n)"
proof -
  have zero: "val G m (utils_mkZero G (getSize a)) = 0" if "bv_term a" for a m
    using bv_term_width [OF that] by (simp add: utils_mkZero_def term_simps)
  show "rewrites_to G n (SltSelf n)" if "SltSelf_applies n"
    using that unfolding SltSelf_applies_def
    by (elim conjE, elim rewrites_predicate) (auto simp: SltSelf_def constant_terms term_simps)
  show "rewrites_to G n (UleSelf n)" if "UleSelf_applies n"
    using that unfolding UleSelf_applies_def
    by (elim conjE, elim rewrites_predicate) (auto simp: UleSelf_def constant_terms term_simps)
  show "rewrites_to G n (ZeroUle n)" if "ZeroUle_applies G n"
    using that unfolding ZeroUle_applies_def
  proof (elim conjE, elim rewrites_predicate)
    fix a b
    assume n: "n = mkNode K_BITVECTOR_ULE [a, b]" and ab: "bv_term a" "bv_term b" "getSize a = getSize b"
      and "child n 0 = utils_mkZero G (getSize (child n 0))"
    then have "val G m a = 0" for m
      using zero [OF ab(1), of m] by (simp add: child_def)
    then show "sentence (ZeroUle n) \<and> (\<forall>m. truth G m (ZeroUle n) = truth G m (mkNode K_BITVECTOR_ULE [a, b]))"
      using val_bounds(1) [OF ab(2)] ab by (simp add: ZeroUle_def mkTrue_def term_simps)
  qed simp
  show "rewrites_to G n (UleMax n)" if "UleMax_applies G n"
    using that unfolding UleMax_applies_def
  proof (elim conjE, elim rewrites_predicate)
    fix a b
    assume n: "n = mkNode K_BITVECTOR_ULE [a, b]" and ab: "bv_term a" "bv_term b" "getSize a = getSize b"
      and b: "child n 1 = utils_mkOnes G (getSize (child n 0))"
    have "val G m b = 2 ^ getSize b - 1" for m
      using constant_nodes(3) [OF bv_term_width [OF ab(2)], of m] b ab(3) by (simp add: n child_def)
    then have "truth G m (mkNode K_BITVECTOR_ULE [a, b])" for m
      using val_bounds(2) [OF ab(1), of m] ab by (simp add: term_simps)
    then show "sentence (UleMax n) \<and> (\<forall>m. truth G m (UleMax n) = truth G m (mkNode K_BITVECTOR_ULE [a, b]))"
      by (simp add: UleMax_def mkTrue_def)
  qed simp
  show "rewrites_to G n (UleZero n)" if "UleZero_applies G n"
    using that unfolding UleZero_applies_def
  proof (elim conjE, elim rewrites_predicate)
    fix a b
    assume n: "n = mkNode K_BITVECTOR_ULE [a, b]" and ab: "bv_term a" "bv_term b" "getSize a = getSize b"
      and b: "child n 1 = utils_mkZero G (getSize (child n 0))"
    have "val G m b = 0" for m
      using zero [OF ab(2), of m] b ab(3) by (simp add: n child_def)
    moreover have "val G m a \<le> 0 \<longleftrightarrow> val G m a = 0" for m
      using val_bounds(1) [OF ab(1), of m] by auto
    ultimately show "sentence (UleZero n) \<and> (\<forall>m. truth G m (UleZero n) = truth G m (mkNode K_BITVECTOR_ULE [a, b]))"
      using ab by (simp add: n UleZero_def child_def term_simps)
  qed simp
qed

lemma isKind_binary:
  assumes "isKind k n" "bv_term n" "k \<in> binary_kinds"
  obtains a b where "n = mkNode k [a, b]" "bv_term a" "bv_term b" "getSize a = getSize b"
proof -
  obtain ns where n: "n = mkNode k ns"
    using assms(1) by (rule isKind_cases)
  from binary_children [OF _ _ assms(3)] that show thesis
    using assms(2) n by (auto simp: bv_term_def simp del: getType.simps firstClass.simps)
qed

lemma UgtUrem_sound: "UgtUrem_applies n \<Longrightarrow> rewrites_to G n (UgtUrem G n)"
  unfolding UgtUrem_applies_def
proof (elim conjE, erule rewrites_predicate)
  fix a b
  assume n: "n = mkNode K_BITVECTOR_UGT [a, b]" and ab: "bv_term a" "bv_term b" "getSize a = getSize b"
    and k: "isKind K_BITVECTOR_UREM (child n 0)" "child (child n 0) 1 = child n 1"
  have "isKind K_BITVECTOR_UREM a"
    using k by (simp add: n child_def)
  then obtain t x where a: "a = mkNode K_BITVECTOR_UREM [t, x]" "bv_term t" "bv_term x" "getSize t = getSize x"
    by (rule isKind_binary) (use ab in auto)
  have x: "x = b"
    using k(2) by (simp add: n a child_def)
  have z: "bv_term (mkConst G (getSize b) 0)" "getSize (mkConst G (getSize b) 0) = getSize b" "val G m (mkConst G (getSize b) 0) = 0" for m
    using bv_term_width [OF ab(2)] by (simp_all add: term_simps)
  have "val G m b < val G m t mod val G m b \<longleftrightarrow> val G m b = 0 \<and> 0 < val G m t" for m
  proof (cases "val G m b = 0")
    case False
    then have "0 < val G m b"
      using val_bounds(1) [OF ab(2), of m] by simp
    then show ?thesis
      using pos_mod_bound [of "val G m b" "val G m t"] by (simp add: not_less less_imp_le)
  qed simp
  then show "sentence (UgtUrem G n) \<and> (\<forall>m. truth G m (UgtUrem G n) = truth G m (mkNode K_BITVECTOR_UGT [a, b]))"
    using ab a z by (simp add: n x UgtUrem_def child_def Let_def term_simps)
qed simp

lemma UltAddOne_sound: "UltAddOne_applies G n \<Longrightarrow> rewrites_to G n (UltAddOne G n)"
  unfolding UltAddOne_applies_def
proof (elim conjE, erule rewrites_predicate)
  fix x b
  assume n: "n = mkNode K_BITVECTOR_ULT [x, b]" and ab: "bv_term x" "bv_term b" "getSize x = getSize b"
    and "let y1 = child n 1
       in isKind K_BITVECTOR_ADD y1 \<and>
          (is_const_bv (child y1 0) \<or> is_const_bv (child y1 1)) \<and>
          \<not> (is_const_bv (child y1 0) \<and> is_const_bv (child y1 1)) \<and>
          length (children y1) = 2 \<and>
          (let one = if is_const_bv (child y1 0) then child y1 0 else child y1 1
           in one = mkConst G (getSize one) 1)"
  then obtain u v where b: "b = mkNode K_BITVECTOR_ADD [u, v]"
    and c: "is_const_bv u \<noteq> is_const_bv v"
      "(if is_const_bv u then u else v) = mkConst G (getSize (if is_const_bv u then u else v)) 1"
    by (auto simp: child_def Let_def length_Suc_conv numeral_2_eq_2 elim!: isKindE)
  have uv: "bv_term u" "bv_term v" "getSize u = getSize b" "getSize v = getSize b"
    using nary_children(2) [of K_BITVECTOR_ADD "[u, v]"] ab(2) unfolding b by (auto simp: bv_term_def)
  note w = bv_term_width [OF ab(2)]
  obtain y where y: "y = (if \<not> is_const_bv u then u else v)" "bv_term y" "getSize y = getSize b"
    and sum: "\<And>m. val G m b = take_bit (getSize b) (val G m y + 1)"
  proof
    show "bv_term (if \<not> is_const_bv u then u else v)" "getSize (if \<not> is_const_bv u then u else v) = getSize b"
      using uv by auto
    have one: "val G m (mkConst G (getSize b) 1) = 1" for m
      using w by (simp add: term_simps take_bit_eq_mod)
    have plus: "val G m b = take_bit (getSize b) (val G m u + val G m v)" for m
      using val_nary(1) [of u v m] uv by (simp add: b [symmetric])
    show "val G m b = take_bit (getSize b) (val G m (if \<not> is_const_bv u then u else v) + 1)" for m
    proof (cases "is_const_bv u")
      case True
      then have "u = mkConst G (getSize b) 1"
        using c(2) uv(3) by simp
      then have "val G m u = 1"
        using one by simp
      then show ?thesis
        using True plus [of m] by (simp add: add.commute)
    next
      case False
      then have "v = mkConst G (getSize b) 1"
        using c uv(4) by simp
      then have "val G m v = 1"
        using one by simp
      then show ?thesis
        using False plus [of m] by simp
    qed
  qed simp
  have "val G m x < val G m b \<longleftrightarrow> val G m y \<noteq> 2 ^ getSize b - 1 \<and> \<not> val G m y < val G m x" for m
  proof (cases "val G m y = 2 ^ getSize b - 1")
    case True
    then show ?thesis
      using sum [of m] val_bounds(1) [OF ab(1), of m] by simp
  next
    case False
    then have "val G m y + 1 < 2 ^ getSize b"
      using val_bounds(2) [OF y(2), of m] y(3) by simp
    then have "val G m b = val G m y + 1"
      using sum [of m] val_bounds(1) [OF y(2), of m] by (simp add: take_bit_int_eq_self)
    with False show ?thesis
      by auto
  qed
  moreover have "UltAddOne G n = mkNode K_AND [mkNode K_NOT [mkNode K_EQUAL [y, utils_mkOnes G (getSize x)]],
      mkNode K_NOT [mkNode K_BITVECTOR_ULT [y, x]]]"
    by (simp add: UltAddOne_def n b y(1) child_def Let_def)
  ultimately show "sentence (UltAddOne G n) \<and> (\<forall>m. truth G m (UltAddOne G n) = truth G m (mkNode K_BITVECTOR_ULT [x, b]))"
    using ab y(2,3) constant_nodes(1-3) [OF w] by (simp add: term_simps)
qed simp

end

end
