(* ===== verification/Bv_Shift_Rules.thy ===== *)
theory Bv_Shift_Rules
  imports Bv_Simplification_Correct
begin

text \<open>
  Soundness of the rules on comparisons to a bit, negations, shifts by constants and division by
  powers of two.
\<close>

section \<open>Values\<close>

context gmp_documented
begin

lemma val_shift [term_simps]:
  assumes "bv_term a" "bv_term b"
  shows "val G m (mkNode K_BITVECTOR_SHL [a, b]) = take_bit (getSize a) (push_bit (nat (val G m b)) (val G m a))"
    "val G m (mkNode K_BITVECTOR_LSHR [a, b]) = drop_bit (nat (val G m b)) (val G m a)"
    "val G m (mkNode K_BITVECTOR_ASHR [a, b]) = take_bit (getSize a) (drop_bit (nat (val G m b)) (sval G m a))"
proof -
  note a = bv_term_value(1,2) [OF assms(1), of m] and b = bv_term_value(1,2) [OF assms(2), of m]
  show "val G m (mkNode K_BITVECTOR_SHL [a, b]) = take_bit (getSize a) (push_bit (nat (val G m b)) (val G m a))"
    using value_shl [OF a(1) b(1)] a by (simp add: val_def bvval_binary)
  show "val G m (mkNode K_BITVECTOR_LSHR [a, b]) = drop_bit (nat (val G m b)) (val G m a)"
    using value_lshr [OF a(1) b(1)] a by (simp add: val_def bvval_binary)
  show "val G m (mkNode K_BITVECTOR_ASHR [a, b]) = take_bit (getSize a) (drop_bit (nat (val G m b)) (sval G m a))"
    using value_ashr [OF a(1) b(1), of "getSize a - 1"] a bv_term_width(1) [OF assms(1)]
    by (simp add: val_def sval_def bvval_binary)
qed

lemma val_inverse:
  assumes "bv_term a"
  shows "val G m (mkNode K_BITVECTOR_NOT [mkNode K_BITVECTOR_NOT [a]]) = val G m a"
    "val G m (mkNode K_BITVECTOR_NEG [mkNode K_BITVECTOR_NEG [a]]) = val G m a"
  using assms val_bounds(3) [OF assms, of m]
  by (simp_all add: term_simps) (simp add: take_bit_eq_mod mod_simps)

section \<open>Comparison with a bit, double negation\<close>

lemma BvComp_sound: "BvComp_applies n \<Longrightarrow> rewrites_to G n (BvComp G n)"
  unfolding BvComp_applies_def
proof (elim conjE, erule rewrites_bvpred)
  fix a b
  assume n: "n = mkNode K_BITVECTOR_COMP [a, b]" and ab: "bv_term a" "bv_term b" "getSize a = getSize b"
    and c: "isConst (child n 0) \<or> isConst (child n 1)" "getSize (child n 0) = 1"
  have sz: "getSize a = 1" "getSize b = 1"
    using c(2) ab(3) by (simp_all add: n child_def)
  note bit = cond_one(2) [OF ab(1) sz(1)] cond_one(2) [OF ab(2) sz(2)]
  have z: "utils_isZero G c \<longleftrightarrow> val G m c = 0" if "bv_term c" "isConst c" for c m
    using const_test(1) [OF that] .
  show "bv_term (BvComp G n) \<and> getSize (BvComp G n) = 1 \<and>
      (\<forall>m. val G m (BvComp G n) = val G m (mkNode K_BITVECTOR_COMP [a, b]))"
  proof (cases "isConst a")
    case True
    have "val G m (BvComp G n) = val G m (mkNode K_BITVECTOR_COMP [a, b])" for m
      using True bit [of m] z [OF ab(1) True, of m] ab sz by (auto simp: n BvComp_def child_def term_simps)
    then show ?thesis
      using ab sz True by (simp add: n BvComp_def child_def term_simps)
  next
    case False
    then have b: "isConst b"
      using c(1) by (simp add: n child_def)
    have "val G m (BvComp G n) = val G m (mkNode K_BITVECTOR_COMP [a, b])" for m
      using False bit [of m] z [OF ab(2) b, of m] ab sz by (auto simp: n BvComp_def child_def term_simps)
    then show ?thesis
      using ab sz False by (simp add: n BvComp_def child_def term_simps)
  qed
qed simp

lemma isKind_negation:
  assumes "isKind k n" "bv_term n" "k \<in> {K_BITVECTOR_NOT, K_BITVECTOR_NEG}"
  obtains a where "n = mkNode k [a]" "bv_term a"
proof -
  obtain ns where n: "n = mkNode k ns"
    using assms(1) by (rule isKind_cases)
  from negation_children [OF _ _ assms(3)] that show thesis
    using assms(2) n by (auto simp: bv_term_def simp del: getType.simps firstClass.simps)
qed

lemma NegIdemp_sound: "NegIdemp_applies n \<Longrightarrow> rewrites_to G n (NegIdemp n)"
  unfolding NegIdemp_applies_def
proof (elim conjE, erule rewrites_negation)
  fix a
  assume n: "n = mkNode K_BITVECTOR_NEG [a]" and a: "bv_term a" "isKind K_BITVECTOR_NEG (child n 0)"
  have "isKind K_BITVECTOR_NEG a"
    using a(2) by (simp add: n child_def)
  then obtain b where b: "a = mkNode K_BITVECTOR_NEG [b]" "bv_term b"
    by (rule isKind_negation) (use a in auto)
  then show "bv_term (NegIdemp n) \<and> getSize (NegIdemp n) = getSize a \<and> (\<forall>m. val G m (NegIdemp n) = val G m (mkNode K_BITVECTOR_NEG [a]))"
    using val_inverse(2) [OF b(2)] by (simp add: n NegIdemp_def child_def term_simps)
qed simp

lemma strip_double_not:
  assumes "bv_term n"
  shows "bv_term (strip_double_not n) \<and> getSize (strip_double_not n) = getSize n \<and> val G m (strip_double_not n) = val G m n"
  using assms
proof (induction n rule: strip_double_not.induct)
  case (1 k k' a)
  show ?case
  proof (cases "k = K_BITVECTOR_NOT \<and> k' = K_BITVECTOR_NOT")
    case True
    then obtain b where b: "mkNode k' [a] = mkNode K_BITVECTOR_NOT [b]" "bv_term b"
      using isKind_negation [of K_BITVECTOR_NOT "mkNode k' [a]"] isKind_negation [of K_BITVECTOR_NOT "mkNode k [mkNode k' [a]]"] 1(2)
      by (metis insertI1 isKind.simps(1) list.inject node.inject(5))
    then show ?thesis
      using 1(1) [OF True] True val_inverse(1) [OF b(2)] by (simp add: term_simps)
  qed (use 1 in auto)
qed auto

lemma NotIdemp_sound: "NotIdemp_applies n \<Longrightarrow> rewrites_to G n (NotIdemp n)"
  unfolding NotIdemp_applies_def
proof (elim conjE, erule rewrites_negation)
  fix a
  assume n: "n = mkNode K_BITVECTOR_NOT [a]" and a: "bv_term a" "isKind K_BITVECTOR_NOT (child n 0)"
  have "isKind K_BITVECTOR_NOT a"
    using a(2) by (simp add: n child_def)
  then obtain b where b: "a = mkNode K_BITVECTOR_NOT [b]" "bv_term b"
    by (rule isKind_negation) (use a in auto)
  then show "bv_term (NotIdemp n) \<and> getSize (NotIdemp n) = getSize a \<and> (\<forall>m. val G m (NotIdemp n) = val G m (mkNode K_BITVECTOR_NOT [a]))"
    using val_inverse(1) [OF b(2)] strip_double_not [OF b(2)] by (simp add: n NotIdemp_def child_def term_simps)
qed simp

section \<open>Shifts\<close>

lemma is_const_bv_eq: "is_const_bv n \<Longrightarrow> \<exists>c. n = CONST_BITVECTOR c"
  by (cases n) auto

lemma const_value: "is_const_bv n \<Longrightarrow> val G m n = d_value (getConst n)"
  by (auto dest!: is_const_bv_eq simp: term_simps)

lemma shift_parts:
  assumes "bv_term a" "0 < k" "k < getSize a"
  shows "bv_term (mkConcat (mkExtract a (getSize a - 1 - k) 0) (utils_mkZero G k))"
    "getSize (mkConcat (mkExtract a (getSize a - 1 - k) 0) (utils_mkZero G k)) = getSize a"
    "val G m (mkConcat (mkExtract a (getSize a - 1 - k) 0) (utils_mkZero G k)) = take_bit (getSize a) (push_bit k (val G m a))"
    "bv_term (mkConcat (utils_mkZero G k) (mkExtract a (getSize a - 1) k))"
    "getSize (mkConcat (utils_mkZero G k) (mkExtract a (getSize a - 1) k)) = getSize a"
    "val G m (mkConcat (utils_mkZero G k) (mkExtract a (getSize a - 1) k)) = drop_bit k (val G m a)"
proof -
  note w = bv_term_width [OF assms(1)]
  have z: "bv_term (utils_mkZero G k)" "getSize (utils_mkZero G k) = k" "val G m (utils_mkZero G k) = 0"
    using assms(2,3) w by (simp_all add: utils_mkZero_def term_simps)
  have l: "bv_term (mkExtract a (getSize a - 1 - k) 0)" "getSize (mkExtract a (getSize a - 1 - k) 0) = getSize a - k"
    "val G m (mkExtract a (getSize a - 1 - k) 0) = take_bit (getSize a - k) (val G m a)"
    using assms by (simp_all add: mkExtract_def term_simps Suc_diff_Suc)
  have h: "bv_term (mkExtract a (getSize a - 1) k)" "getSize (mkExtract a (getSize a - 1) k) = getSize a - k"
    "val G m (mkExtract a (getSize a - 1) k) = take_bit (getSize a - k) (drop_bit k (val G m a))"
    using assms by (simp_all add: mkExtract_def term_simps Suc_diff_Suc)
  show "bv_term (mkConcat (mkExtract a (getSize a - 1 - k) 0) (utils_mkZero G k))"
    "getSize (mkConcat (mkExtract a (getSize a - 1 - k) 0) (utils_mkZero G k)) = getSize a"
    "bv_term (mkConcat (utils_mkZero G k) (mkExtract a (getSize a - 1) k))"
    "getSize (mkConcat (utils_mkZero G k) (mkExtract a (getSize a - 1) k)) = getSize a"
    using z l h w assms(3) by (simp_all add: mkConcat_def term_simps)
  show "val G m (mkConcat (mkExtract a (getSize a - 1 - k) 0) (utils_mkZero G k)) = take_bit (getSize a) (push_bit k (val G m a))"
    using z l w assms(3) by (simp add: mkConcat_def val_sized(2) take_bit_push_bit) (simp add: push_bit_eq_mult)
  show "val G m (mkConcat (utils_mkZero G k) (mkExtract a (getSize a - 1) k)) = drop_bit k (val G m a)"
    using z h w assms(3) drop_bit_div [OF assms(1), of k m] by (simp add: mkConcat_def val_sized(2) drop_bit_eq_div)
qed

lemma shift_out:
  assumes "bv_term a" "int (getSize a) \<le> v"
  shows "take_bit (getSize a) (push_bit (nat v) (val G m a)) = 0" "drop_bit (nat v) (val G m a) = 0"
proof -
  have k: "getSize a \<le> nat v"
    using assms(2) by simp
  then show "take_bit (getSize a) (push_bit (nat v) (val G m a)) = 0"
    by (simp add: take_bit_push_bit)
  have "val G m a < 2 ^ nat v"
    using val_bounds(2) [OF assms(1), of m] power_increasing [OF k, of "2 :: int"] by (rule order_less_le_trans) simp
  then show "drop_bit (nat v) (val G m a) = 0"
    using val_bounds(1) [OF assms(1), of m] by (simp add: drop_bit_eq_div)
qed

lemma const_shift_sound:
  "ShlByConst_applies n \<Longrightarrow> rewrites_to G n (ShlByConst G n)"
  "LshrByConst_applies n \<Longrightarrow> rewrites_to G n (LshrByConst G n)"
proof -
  show "rewrites_to G n (ShlByConst G n)" if "ShlByConst_applies n"
    using that unfolding ShlByConst_applies_def
  proof (elim conjE, elim rewrites_binary)
    fix a b
    assume n: "n = mkNode K_BITVECTOR_SHL [a, b]" and ab: "bv_term a" "bv_term b" "getSize a = getSize b"
      and c: "is_const_bv (child n 1)"
    define v where "v = d_value (getConst b)"
    have v: "val G m b = v" for m
      using const_value c by (simp add: n v_def child_def)
    have v0: "0 \<le> v"
      using val_bounds(1) [OF ab(2)] v by simp
    note w = bv_term_width [OF ab(1)]
    have eq: "ShlByConst G n = (if v = 0 then a else if int (getSize a) \<le> v then utils_mkZero G (getSize a)
        else mkConcat (mkExtract a (getSize a - 1 - nat v) 0) (utils_mkZero G (nat v)))"
      by (simp add: ShlByConst_def n child_def v_def bv_toInteger_def Let_def)
    consider "v = 0" | "int (getSize a) \<le> v" | "0 < v" "v < int (getSize a)"
      using v0 by linarith
    then show "bv_term (ShlByConst G n) \<and> getSize (ShlByConst G n) = getSize b \<and>
        (\<forall>m. val G m (ShlByConst G n) = val G m (mkNode K_BITVECTOR_SHL [a, b]))"
    proof cases
      case 3
      then show ?thesis
        using shift_parts(1-3) [OF ab(1), of "nat v"] ab unfolding eq by (simp add: term_simps v)
    qed (use ab w shift_out(1) [OF ab(1), of v] val_bounds(3) [OF ab(1)] in \<open>auto simp: eq term_simps v utils_mkZero_def\<close>)
  qed simp
  show "rewrites_to G n (LshrByConst G n)" if "LshrByConst_applies n"
    using that unfolding LshrByConst_applies_def
  proof (elim conjE, elim rewrites_binary)
    fix a b
    assume n: "n = mkNode K_BITVECTOR_LSHR [a, b]" and ab: "bv_term a" "bv_term b" "getSize a = getSize b"
      and c: "is_const_bv (child n 1)"
    define v where "v = d_value (getConst b)"
    have v: "val G m b = v" for m
      using const_value c by (simp add: n v_def child_def)
    have v0: "0 \<le> v"
      using val_bounds(1) [OF ab(2)] v by simp
    note w = bv_term_width [OF ab(1)]
    have eq: "LshrByConst G n = (if v = 0 then a else if int (getSize a) \<le> v then utils_mkZero G (getSize a)
        else mkConcat (utils_mkZero G (nat v)) (mkExtract a (getSize a - 1) (nat v)))"
      by (simp add: LshrByConst_def n child_def v_def bv_toInteger_def Let_def)
    consider "v = 0" | "int (getSize a) \<le> v" | "0 < v" "v < int (getSize a)"
      using v0 by linarith
    then show "bv_term (LshrByConst G n) \<and> getSize (LshrByConst G n) = getSize b \<and>
        (\<forall>m. val G m (LshrByConst G n) = val G m (mkNode K_BITVECTOR_LSHR [a, b]))"
    proof cases
      case 3
      then show ?thesis
        using shift_parts(4-6) [OF ab(1), of "nat v"] ab unfolding eq by (simp add: term_simps v)
    qed (use ab w shift_out(2) [OF ab(1), of v] in \<open>auto simp: eq term_simps v utils_mkZero_def\<close>)
  qed simp
qed

lemma ShiftZero_sound: "ShiftZero_applies G n \<Longrightarrow> rewrites_to G n (ShiftZero n)"
  unfolding ShiftZero_applies_def
proof (elim conjE)
  assume z: "child n 0 = mkConst G (getSize n) 0" and k: "isKind K_BITVECTOR_SHL n \<or> isKind K_BITVECTOR_LSHR n \<or> isKind K_BITVECTOR_ASHR n"
  have "rewrites_to G n (ShiftZero n)" if "isKind k n" "k \<in> {K_BITVECTOR_SHL, K_BITVECTOR_LSHR, K_BITVECTOR_ASHR}" for k
    using that(1)
  proof (rule rewrites_binary)
    fix a b
    assume n: "n = mkNode k [a, b]" and ab: "bv_term a" "bv_term b" "getSize a = getSize b"
    have sz: "getSize n = getSize a"
      using that(2) ab by (auto simp: n term_simps)
    have a: "a = mkConst G (getSize a) 0"
      using z sz by (simp add: n child_def)
    have "val G m a = 0" for m
      using bv_term_width [OF ab(1)] by (subst a) (simp add: mkConst_term)
    moreover from this have "sval G m a = 0" for m
      by (simp add: sval_def)
    ultimately show "bv_term (ShiftZero n) \<and> getSize (ShiftZero n) = getSize b \<and> (\<forall>m. val G m (ShiftZero n) = val G m (mkNode k [a, b]))"
      using that(2) ab by (auto simp: n ShiftZero_def child_def term_simps)
  qed (use that in auto)
  with k show ?thesis
    by blast
qed

text \<open>Repetition of a bit.\<close>

lemma repeat_bit:
  assumes "bv_inv s" "d_size s = 1" "k + 1 < 2 ^ 32"
  shows "((\<lambda>ret. bv_concat G ret s) ^^ k) s = \<lparr>d_size = k + 1, d_value = d_value s * (2 ^ (k + 1) - 1)\<rparr> \<and>
    bv_inv (((\<lambda>ret. bv_concat G ret s) ^^ k) s)"
  using assms(3)
proof (induction k)
  case 0
  then show ?case
    using assms by (auto intro: bitvector.equality)
next
  case (Suc k)
  define r where "r = ((\<lambda>ret. bv_concat G ret s) ^^ k) s"
  have r: "d_size r = k + 1" "d_value r = d_value s * (2 ^ (k + 1) - 1)" "bv_inv r"
    using Suc by (auto simp: r_def)
  have "d_value (bv_concat G r s) = d_value r * 2 + d_value s"
    using value_concat [of r s] r assms Suc.prems by simp
  then have "d_value (bv_concat G r s) = d_value s * (2 ^ (Suc k + 1) - 1)"
    unfolding r(2) by (simp add: algebra_simps)
  moreover have "bv_inv (bv_concat G r s)" "d_size (bv_concat G r s) = Suc k + 1"
    using r assms Suc.prems inv_sized [of r] by (simp_all add: bv_concat_def)
  ultimately show ?case
    by (simp add: r_def [symmetric] del: power_Suc)
qed

lemma mkRepeat_bit:
  assumes "bv_term s" "getSize s = 1" "0 < k" "k < 2 ^ 32"
  shows "bv_term (mkRepeat s k)" "getSize (mkRepeat s k) = k" "val G m (mkRepeat s k) = val G m s * (2 ^ k - 1)"
proof -
  show "bv_term (mkRepeat s k)" "getSize (mkRepeat s k) = k"
    using bv_termI [of "mkRepeat s k" k] bv_termD [OF assms(1)] assms(2-)
    by (auto simp: mkRepeat_def kind_type_def kind_arity_def kind_range_def BitVectorRepeatTypeRule_def checkBvResultSize_def)
  show "val G m (mkRepeat s k) = val G m s * (2 ^ k - 1)"
    using repeat_bit [of "bvval G m s" "k - 1"] bv_term_value(1,2) [OF assms(1), of m] assms(2-)
    by (simp add: mkRepeat_def val_def bvval_def eval_kind_defs)
qed

lemma sign_split:
  assumes "bv_term a" "k \<le> getSize a"
  shows "take_bit (getSize a) (drop_bit k (sval G m a)) =
    of_bool (sval G m a < 0) * (2 ^ k - 1) * 2 ^ (getSize a - k) + drop_bit k (val G m a)"
proof -
  have bound: "0 \<le> s * (K - 1) * P + D \<and> s * (K - 1) * P + D < P * K" if "0 \<le> D" "D < P" "0 < K" "s = 0 \<or> s = 1" for D P K s :: int
  proof -
    have "0 \<le> (K - 1) * P"
      using that by simp
    moreover have "P * K = (K - 1) * P + P"
      by (simp add: algebra_simps)
    ultimately show ?thesis
      using that(1,2,4) by (elim disjE) simp_all
  qed
  let ?w = "getSize a"
  define \<sigma> where "\<sigma> = (of_bool (sval G m a < 0) :: int)"
  have s: "sval G m a = val G m a - \<sigma> * 2 ^ ?w"
    using sval_val(1) [OF assms(1), of m] sval_bounds(3) [OF assms(1), of m] by (simp add: \<sigma>_def)
  have p: "(2 :: int) ^ ?w = 2 ^ (?w - k) * 2 ^ k"
    using assms(2) by (simp flip: power_add)
  have "drop_bit k (sval G m a) = drop_bit k (val G m a) - \<sigma> * 2 ^ (?w - k)"
    using div_mult_self1 [of "2 ^ k" "val G m a" "- (\<sigma> * 2 ^ (?w - k))"] unfolding s drop_bit_eq_div p by (simp add: mult.assoc)
  also have "\<dots> = (\<sigma> * (2 ^ k - 1) * 2 ^ (?w - k) + drop_bit k (val G m a)) + 2 ^ ?w * (- \<sigma>)"
    unfolding p by (simp add: algebra_simps)
  finally have t: "take_bit ?w (drop_bit k (sval G m a)) = take_bit ?w (\<sigma> * (2 ^ k - 1) * 2 ^ (?w - k) + drop_bit k (val G m a))"
    unfolding take_bit_eq_mod by (simp only: mod_mult_self2)
  have "drop_bit k (val G m a) < 2 ^ (?w - k)" "0 \<le> drop_bit k (val G m a)"
    using drop_bit_div [OF assms, of m] val_bounds(1) [OF assms(1), of m] take_bit_int_less_exp [of "?w - k" "drop_bit k (val G m a)"]
    by (simp_all add: drop_bit_eq_div pos_imp_zdiv_nonneg_iff)
  then have "0 \<le> \<sigma> * (2 ^ k - 1) * 2 ^ (?w - k) + drop_bit k (val G m a)" "\<sigma> * (2 ^ k - 1) * 2 ^ (?w - k) + drop_bit k (val G m a) < 2 ^ ?w"
    using bound [of "drop_bit k (val G m a)" "2 ^ (?w - k)" "2 ^ k" \<sigma>] unfolding p by (simp_all add: \<sigma>_def)
  then show ?thesis
    unfolding t \<sigma>_def [symmetric] by (simp add: take_bit_int_eq_self)
qed

lemma drop_sign:
  assumes "bv_term a" "getSize a \<le> k"
  shows "drop_bit k (sval G m a) = - of_bool (sval G m a < 0)"
proof -
  have "(2 :: int) ^ (getSize a - 1) \<le> 2 ^ k"
    using assms(2) by (intro power_increasing) auto
  then have "- (2 ^ k) \<le> sval G m a" "sval G m a < 2 ^ k"
    using sval_bounds(1,2) [OF assms(1), of m] by linarith+
  then show ?thesis
    by (auto simp: drop_bit_eq_div div_eq_minus1 zdiv_eq_0_iff intro: int_div_pos_eq [of _ _ _ "sval G m a + 2 ^ k"])
qed

lemma AshrByConst_sound: "AshrByConst_applies n \<Longrightarrow> rewrites_to G n (AshrByConst n)"
  unfolding AshrByConst_applies_def
proof (elim conjE, erule rewrites_binary)
  fix a b
  assume n: "n = mkNode K_BITVECTOR_ASHR [a, b]" and ab: "bv_term a" "bv_term b" "getSize a = getSize b"
    and c: "is_const_bv (child n 1)"
  define v where "v = d_value (getConst b)"
  have v: "val G m b = v" for m
    using const_value c by (simp add: n v_def child_def)
  have v0: "0 \<le> v"
    using val_bounds(1) [OF ab(2)] v by simp
  note w = bv_term_width [OF ab(1)]
  define s where "s = mkExtract a (getSize a - 1) (getSize a - 1)"
  have s: "bv_term s" "getSize s = 1" "val G m s = of_bool (sval G m a < 0)" for m
    using ab(1) w sval_bounds(3) [OF ab(1), of m] by (simp_all add: s_def mkExtract_def term_simps)
  have eq: "AshrByConst n = (if v = 0 then a else if int (getSize a) \<le> v then mkRepeat s (getSize a)
      else mkConcat (mkRepeat s (nat v)) (mkExtract a (getSize a - 1) (nat v)))"
    using v0 by (simp add: AshrByConst_def n child_def v_def bv_toInteger_def Let_def s_def)
  consider "v = 0" | "int (getSize a) \<le> v" | "0 < v" "v < int (getSize a)"
    using v0 by linarith
  then show "bv_term (AshrByConst n) \<and> getSize (AshrByConst n) = getSize b \<and>
      (\<forall>m. val G m (AshrByConst n) = val G m (mkNode K_BITVECTOR_ASHR [a, b]))"
  proof cases
    case 1
    then show ?thesis
      using ab sval_bounds(4) [OF ab(1)] by (simp add: eq term_simps v)
  next
    case 2
    then have "drop_bit (nat v) (sval G m a) = - of_bool (sval G m a < 0)" for m
      using v0 by (intro drop_sign ab(1)) auto
    moreover note 2
    ultimately show ?thesis
      using v0 w ab mkRepeat_bit [OF s(1,2) w] s(3)
      by (auto simp: eq term_simps v take_bit_minus_one_eq_mask mask_eq_exp_minus_1)
  next
    case 3
    then have k: "0 < nat v" "nat v < getSize a" "nat v < 2 ^ 32" "nat v \<le> getSize a"
      using w by auto
    have h: "bv_term (mkExtract a (getSize a - 1) (nat v))" "getSize (mkExtract a (getSize a - 1) (nat v)) = getSize a - nat v"
      "val G m (mkExtract a (getSize a - 1) (nat v)) = drop_bit (nat v) (val G m a)" for m
      using ab k drop_bit_div [OF ab(1) k(4), of m] by (simp_all add: mkExtract_def term_simps Suc_diff_Suc drop_bit_eq_div)
    from 3 show ?thesis
      using ab w h mkRepeat_bit [OF s(1,2) k(1,3)] sign_split [OF ab(1) k(4)] k s(3) unfolding eq by (simp add: mkConcat_def term_simps v)
  qed
qed simp

section \<open>Division\<close>

lemma isPow2Const_Some:
  assumes "bv_term c" "isPow2Const G c = (p, False)" "p \<noteq> 0"
  shows "val G m c = 2 ^ (p - 1)" "p - 1 < getSize c"
proof -
  have k: "is_const_bv c" and p: "p = isPow2 G (d_value (getConst c))"
    using assms(2,3) by (auto simp: isPow2Const_def Let_def bv_isPow2_def split: if_splits)
  note v = const_value [OF k, of m]
  show val: "val G m c = 2 ^ (p - 1)"
    using isPow2_pos_iff [OF val_bounds(2) [OF assms(1)] bv_term_width(2) [OF assms(1)], of m "p - 1"] assms(3) v p by simp
  then have "(2 :: int) ^ (p - 1) < 2 ^ getSize c"
    using val_bounds(2) [OF assms(1), of m] by simp
  then show "p - 1 < getSize c"
    by simp
qed

lemma pow2_split:
  assumes "bv_term a" "0 < k" "k < getSize a"
  shows "bv_term (mkNode K_BITVECTOR_CONCAT [mkConst G (getSize a - k) 0, mkExtract a (k - 1) 0])"
    "getSize (mkNode K_BITVECTOR_CONCAT [mkConst G (getSize a - k) 0, mkExtract a (k - 1) 0]) = getSize a"
    "val G m (mkNode K_BITVECTOR_CONCAT [mkConst G (getSize a - k) 0, mkExtract a (k - 1) 0]) = val G m a mod 2 ^ k"
proof -
  note w = bv_term_width [OF assms(1)]
  have l: "bv_term (mkExtract a (k - 1) 0)" "getSize (mkExtract a (k - 1) 0) = k" "val G m (mkExtract a (k - 1) 0) = take_bit k (val G m a)"
    using assms by (simp_all add: mkExtract_def term_simps)
  have z: "bv_term (mkConst G (getSize a - k) 0)" "getSize (mkConst G (getSize a - k) 0) = getSize a - k"
    "val G m (mkConst G (getSize a - k) 0) = 0"
    using assms(2,3) w by (simp_all add: term_simps)
  show "bv_term (mkNode K_BITVECTOR_CONCAT [mkConst G (getSize a - k) 0, mkExtract a (k - 1) 0])"
    "getSize (mkNode K_BITVECTOR_CONCAT [mkConst G (getSize a - k) 0, mkExtract a (k - 1) 0]) = getSize a"
    "val G m (mkNode K_BITVECTOR_CONCAT [mkConst G (getSize a - k) 0, mkExtract a (k - 1) 0]) = val G m a mod 2 ^ k"
    using z l w assms(3) by (simp_all add: term_simps) (simp add: take_bit_eq_mod)
qed

lemma UdivPow2_sound: "UdivPow2_applies G n \<Longrightarrow> rewrites_to G n (UdivPow2 G n)"
  unfolding UdivPow2_applies_def
proof (elim conjE, erule rewrites_binary)
  fix a b
  assume n: "n = mkNode K_BITVECTOR_UDIV [a, b]" and ab: "bv_term a" "bv_term b" "getSize a = getSize b"
    and "case isPow2Const G (child n 1) of (p, isNeg) \<Rightarrow> p \<noteq> 0 \<and> \<not> isNeg"
  then obtain p where p: "isPow2Const G b = (p, False)" "p \<noteq> 0"
    by (auto simp: n child_def split: prod.splits)
  note v = isPow2Const_Some [OF ab(2) p]
  have sz: "getSize n = getSize a"
    using ab by (simp add: n term_simps)
  have eq: "UdivPow2 G n = (if p - 1 = 0 then a else mkNode K_BITVECTOR_CONCAT [mkConst G (p - 1) 0, mkExtract a (getSize a - 1) (p - 1)])"
    unfolding UdivPow2_def sz Let_def using p by (simp add: n child_def)
  show "bv_term (UdivPow2 G n) \<and> getSize (UdivPow2 G n) = getSize b \<and>
      (\<forall>m. val G m (UdivPow2 G n) = val G m (mkNode K_BITVECTOR_UDIV [a, b]))"
  proof (cases "p - 1 = 0")
    case True
    then show ?thesis
      using ab v(1) unfolding eq by (simp add: term_simps)
  next
    case False
    then show ?thesis
      using shift_parts(4-6) [OF ab(1), of "p - 1"] v ab unfolding eq
      by (simp add: mkConcat_def utils_mkZero_def val_binary drop_bit_eq_div)
  qed
qed simp

lemma UremPow2_sound: "UremPow2_applies G n \<Longrightarrow> rewrites_to G n (UremPow2 G n)"
  unfolding UremPow2_applies_def
proof (elim conjE, erule rewrites_binary)
  fix a b
  assume n: "n = mkNode K_BITVECTOR_UREM [a, b]" and ab: "bv_term a" "bv_term b" "getSize a = getSize b"
    and "case isPow2Const G (child n 1) of (p, isNeg) \<Rightarrow> p \<noteq> 0 \<and> \<not> isNeg"
  then obtain p where p: "isPow2Const G b = (p, False)" "p \<noteq> 0"
    by (auto simp: n child_def split: prod.splits)
  note v = isPow2Const_Some [OF ab(2) p] and w = bv_term_width [OF ab(1)]
  have sz: "getSize n = getSize a"
    using ab by (simp add: n term_simps)
  have eq: "UremPow2 G n = (if p - 1 = 0 then mkConst G (getSize a) 0
      else mkNode K_BITVECTOR_CONCAT [mkConst G (getSize a - (p - 1)) 0, mkExtract a (p - 1 - 1) 0])"
    unfolding UremPow2_def sz Let_def utils_mkZero_def using p by (simp add: n child_def)
  show "bv_term (UremPow2 G n) \<and> getSize (UremPow2 G n) = getSize b \<and>
      (\<forall>m. val G m (UremPow2 G n) = val G m (mkNode K_BITVECTOR_UREM [a, b]))"
  proof (cases "p - 1 = 0")
    case True
    then show ?thesis
      using ab v(1) w unfolding eq by (simp add: term_simps)
  next
    case False
    then show ?thesis
      using pow2_split [OF ab(1), of "p - 1"] v ab unfolding eq by (simp add: val_binary)
  qed
qed simp

lemma division_identities_sound:
  "UdivZero_applies G n \<Longrightarrow> rewrites_to G n (UdivZero G n)"
  "UdivOne_applies G n \<Longrightarrow> rewrites_to G n (UdivOne n)"
  "UremOne_applies G n \<Longrightarrow> rewrites_to G n (UremOne G n)"
  "UremSelf_applies n \<Longrightarrow> rewrites_to G n (UremSelf G n)"
proof -
  have c: "val G m b = take_bit (getSize b) v" if "child n 1 = mkConst G (getSize n) v" "n = mkNode k [a, b]"
    "bv_term a" "bv_term b" "getSize a = getSize b" "k \<in> {K_BITVECTOR_UDIV, K_BITVECTOR_UREM}" for a b k v m
  proof -
    have "getSize n = getSize b"
      using that by (auto simp: term_simps)
    then have b: "b = mkConst G (getSize b) v"
      using that(1,2) by (simp add: child_def)
    show ?thesis
      using bv_term_width [OF that(4)] by (subst b) (simp add: mkConst_term)
  qed
  have one: "take_bit (getSize b) (1 :: int) = 1" if "bv_term b" for b
    using bv_term_width [OF that] by (simp add: take_bit_eq_mod)
  show "rewrites_to G n (UdivZero G n)" if "UdivZero_applies G n"
    using that unfolding UdivZero_applies_def
    by (elim conjE, elim rewrites_binary) (auto simp: UdivZero_def c term_simps bv_term_width [simplified])
  show "rewrites_to G n (UdivOne n)" if "UdivOne_applies G n"
    using that unfolding UdivOne_applies_def
  proof (elim conjE, elim rewrites_binary)
    fix a b
    assume n: "n = mkNode K_BITVECTOR_UDIV [a, b]" and ab: "bv_term a" "bv_term b" "getSize a = getSize b"
      and o: "child n 1 = mkConst G (getSize n) 1"
    have "val G m b = 1" for m
      using c [OF o n ab] one [OF ab(2)] by simp
    then show "bv_term (UdivOne n) \<and> getSize (UdivOne n) = getSize b \<and> (\<forall>m. val G m (UdivOne n) = val G m (mkNode K_BITVECTOR_UDIV [a, b]))"
      using ab by (simp add: n UdivOne_def child_def term_simps)
  qed simp
  show "rewrites_to G n (UremOne G n)" if "UremOne_applies G n"
    using that unfolding UremOne_applies_def
    by (elim conjE, elim rewrites_binary) (auto simp: UremOne_def c one term_simps bv_term_width [simplified])
  show "rewrites_to G n (UremSelf G n)" if "UremSelf_applies n"
    using that unfolding UremSelf_applies_def
    by (elim conjE, elim rewrites_binary) (auto simp: UremSelf_def child_def term_simps bv_term_width [simplified])
qed

end

end
