(* ===== verification/Bv_Nary_Rules.thy ===== *)
theory Bv_Nary_Rules
  imports Bv_Shift_Rules
begin

text \<open>
  Values of the n-ary operators, and soundness of the rules on products, exclusive ors and
  concatenations.
\<close>

section \<open>Values of n-ary operators\<close>

lemma foldl_size:
  assumes "\<And>a b. d_size (f a b) = d_size a"
  shows "d_size (foldl f a bs) = d_size a"
  using assms by (induction bs arbitrary: a) auto

lemma take_bit_xor_eq: "take_bit w (x XOR y) = x XOR y" if "take_bit w x = x" "take_bit w y = y" for x y :: int
  using that by (metis take_bit_xor)

abbreviation xor_list :: "int list \<Rightarrow> int" where
  "xor_list vs \<equiv> foldr (XOR) vs 0"

lemma foldl_xor: "foldl (XOR) a vs = a XOR xor_list vs"
  by (induction vs arbitrary: a) (simp_all add: xor.assoc)

lemma xor_list_bounds: "\<forall>v\<in>set vs. take_bit w v = v \<Longrightarrow> take_bit w (xor_list vs) = xor_list vs"
  by (induction vs) (simp_all add: take_bit_xor_eq)

lemma xor_list_filter: "xor_list (map f (filter (\<lambda>x. \<not> P x) xs)) = xor_list (map f xs)" if "\<forall>x\<in>set xs. P x \<longrightarrow> f x = 0"
  using that by (induction xs) auto

lemma xor_list_ones:
  assumes "f u = c" "\<And>b x. F b x = (if x = u then \<not> b else b)"
  shows "xor_list (map f cs) = xor_list (map f (filter (\<lambda>c. c \<noteq> u) cs)) XOR (if foldl F b cs = b then 0 else c)"
proof (induction cs arbitrary: b)
  case (Cons x cs)
  have "c XOR (y XOR c) = y" "c XOR y = y XOR c" for y
    by (simp_all add: ac_simps)
  with Cons [of "F b x"] assms(1) show ?case
    by (cases "x = u") (auto simp: xor.assoc assms(2))
qed simp

lemma xor_with_mask:
  assumes "take_bit w x = x"
  shows "x XOR mask w = 2 ^ w - 1 - (x :: int)"
proof -
  have "x XOR mask w = take_bit w (NOT x)"
    using assms by (intro bit_eqI) (metis bit_take_bit_iff bit_xor_iff bit_mask_iff bit_not_iff)
  then show ?thesis
    using assms by (simp add: take_bit_not_eq_mask_diff mask_eq_exp_minus_1)
qed

lemma prod_list_filter: "prod_list (map f (filter P xs)) * prod_list (map f (filter (\<lambda>x. \<not> P x) xs)) = prod_list (map (f :: _ \<Rightarrow> int) xs)"
  by (induction xs) (auto simp: ac_simps)

context gmp_documented
begin

lemma value_folds:
  assumes "bv_inv a" "\<forall>b\<in>set bs. bv_inv b \<and> d_size b = d_size a"
  shows "d_value (foldl (bv_mult G) a bs) = take_bit (d_size a) (d_value a * prod_list (map d_value bs))"
    "d_value (foldl (bv_add G) a bs) = take_bit (d_size a) (d_value a + sum_list (map d_value bs))"
    "d_value (foldl (bv_xor G) a bs) = d_value a XOR xor_list (map d_value bs)"
proof -
  show "d_value (foldl (bv_mult G) a bs) = take_bit (d_size a) (d_value a * prod_list (map d_value bs))"
    using assms
  proof (induction bs arbitrary: a)
    case (Cons b bs)
    have inner: "\<forall>c\<in>set bs. bv_inv c \<and> d_size c = d_size (bv_mult G a b)"
      using Cons.prems(2) by simp
    have "d_value (foldl (bv_mult G) a (b # bs)) =
        take_bit (d_size a) (take_bit (d_size a) (d_value a * d_value b) * prod_list (map d_value bs))"
      by (simp only: foldl_Cons Cons.IH [OF inv_binary(8) [OF Cons.prems(1)] inner] value_mult bv_size_simps)
    then show ?case
      by (simp only: take_bit_eq_mod mod_mult_left_eq list.map prod_list.Cons mult.assoc)
  qed (simp add: bv_inv_take_bit)
  show "d_value (foldl (bv_add G) a bs) = take_bit (d_size a) (d_value a + sum_list (map d_value bs))"
    using assms
  proof (induction bs arbitrary: a)
    case (Cons b bs)
    have inner: "\<forall>c\<in>set bs. bv_inv c \<and> d_size c = d_size (bv_add G a b)"
      using Cons.prems(2) by simp
    have "d_value (foldl (bv_add G) a (b # bs)) =
        take_bit (d_size a) (take_bit (d_size a) (d_value a + d_value b) + sum_list (map d_value bs))"
      by (simp only: foldl_Cons Cons.IH [OF inv_binary(5) [OF Cons.prems(1)] inner] value_add bv_size_simps)
    then show ?case
      by (simp only: take_bit_eq_mod mod_add_left_eq list.map sum_list.Cons add.assoc)
  qed (simp add: bv_inv_take_bit)
  show "d_value (foldl (bv_xor G) a bs) = d_value a XOR xor_list (map d_value bs)"
    using assms
  proof (induction bs arbitrary: a)
    case (Cons b bs)
    have inner: "\<forall>c\<in>set bs. bv_inv c \<and> d_size c = d_size (bv_xor G a b)"
      using Cons.prems(2) by simp
    have "d_value (bv_xor G a b) = d_value a XOR d_value b"
      unfolding value_xor using Cons.prems(2) bv_inv_take_bit [OF Cons.prems(1)] bv_inv_take_bit [of b]
      by (intro take_bit_xor_eq) auto
    then show ?case
      by (simp only: foldl_Cons Cons.IH [OF inv_binary(1) [OF Cons.prems(1)] inner] list.map foldr_Cons comp_apply xor.assoc)
  qed simp
qed

lemma val_lists:
  assumes "ns \<noteq> []" "\<forall>a\<in>set ns. bv_term a \<and> getSize a = w"
  shows "val G m (mkNode K_BITVECTOR_MULT ns) = take_bit w (prod_list (map (val G m) ns))"
    "val G m (mkNode K_BITVECTOR_ADD ns) = take_bit w (sum_list (map (val G m) ns))"
    "val G m (mkNode K_BITVECTOR_XOR ns) = xor_list (map (val G m) ns)"
proof -
  obtain a bs where ns: "ns = a # bs"
    using assms(1) by (cases ns) auto
  have "bv_inv (bvval G m a)" "\<forall>b\<in>set (map (bvval G m) bs). bv_inv b \<and> d_size b = d_size (bvval G m a)" "d_size (bvval G m a) = w"
    using assms(2) bv_term_value(1,2) unfolding ns by auto
  from value_folds [OF this(1,2)] this(3)
  show "val G m (mkNode K_BITVECTOR_MULT ns) = take_bit w (prod_list (map (val G m) ns))"
    "val G m (mkNode K_BITVECTOR_ADD ns) = take_bit w (sum_list (map (val G m) ns))"
    "val G m (mkNode K_BITVECTOR_XOR ns) = xor_list (map (val G m) ns)"
    by (simp_all add: ns val_def [abs_def] bvval_nary comp_def)
qed

text \<open>A list of operands, of which there may be only one.\<close>

lemma mkNaryNode_xor:
  assumes "ns \<noteq> []" "\<forall>a\<in>set ns. bv_term a \<and> getSize a = w"
  shows "bv_term (mkNaryNode K_BITVECTOR_XOR ns)" "getSize (mkNaryNode K_BITVECTOR_XOR ns) = w"
    "val G m (mkNaryNode K_BITVECTOR_XOR ns) = xor_list (map (val G m) ns)"
proof -
  have "bv_term (mkNaryNode K_BITVECTOR_XOR ns) \<and> getSize (mkNaryNode K_BITVECTOR_XOR ns) = w \<and>
    val G m (mkNaryNode K_BITVECTOR_XOR ns) = xor_list (map (val G m) ns)"
  proof (cases "length ns = 1")
    case True
    then obtain a where "ns = [a]"
      by (auto simp: length_Suc_conv)
    then show ?thesis
      using assms by (simp add: mkNaryNode_def)
  next
    case False
    then have "2 \<le> length ns"
      using assms(1) by (cases ns) (auto simp: Suc_le_eq)
    then show ?thesis
      using False nary_term [OF _ _ assms(2), of K_BITVECTOR_XOR] val_lists(3) [OF assms] by (simp add: mkNaryNode_def)
  qed
  then show "bv_term (mkNaryNode K_BITVECTOR_XOR ns)" "getSize (mkNaryNode K_BITVECTOR_XOR ns) = w"
    "val G m (mkNaryNode K_BITVECTOR_XOR ns) = xor_list (map (val G m) ns)"
    by auto
qed

lemma mkNaryNode_mult:
  assumes "ns \<noteq> []" "\<forall>a\<in>set ns. bv_term a \<and> getSize a = w"
  shows "bv_term (mkNaryNode K_BITVECTOR_MULT ns)" "getSize (mkNaryNode K_BITVECTOR_MULT ns) = w"
    "val G m (mkNaryNode K_BITVECTOR_MULT ns) = take_bit w (prod_list (map (val G m) ns))"
proof -
  have "bv_term (mkNaryNode K_BITVECTOR_MULT ns) \<and> getSize (mkNaryNode K_BITVECTOR_MULT ns) = w \<and>
    val G m (mkNaryNode K_BITVECTOR_MULT ns) = take_bit w (prod_list (map (val G m) ns))"
  proof (cases "length ns = 1")
    case True
    then obtain a where "ns = [a]"
      by (auto simp: length_Suc_conv)
    then show ?thesis
      using assms val_bounds(3) [of a m] by (auto simp: mkNaryNode_def)
  next
    case False
    then have "2 \<le> length ns"
      using assms(1) by (cases ns) (auto simp: Suc_le_eq)
    then show ?thesis
      using False nary_term [OF _ _ assms(2), of K_BITVECTOR_MULT] val_lists(1) [OF assms] by (simp add: mkNaryNode_def)
  qed
  then show "bv_term (mkNaryNode K_BITVECTOR_MULT ns)" "getSize (mkNaryNode K_BITVECTOR_MULT ns) = w"
    "val G m (mkNaryNode K_BITVECTOR_MULT ns) = take_bit w (prod_list (map (val G m) ns))"
    by auto
qed

section \<open>Exclusive or\<close>

lemma XorZero_sound:
  assumes "XorZero_applies G n" "\<exists>c\<in>set (children n). c \<noteq> mkConst G (getSize n) 0"
  shows "rewrites_to G n (XorZero G n)"
proof -
  have "isKind K_BITVECTOR_XOR n"
    using assms(1) by (simp add: XorZero_applies_def)
  then show ?thesis
  proof (rule rewrites_nary)
    fix ns
    assume n: "n = mkNode K_BITVECTOR_XOR ns" and ns: "\<forall>a\<in>set ns. bv_term a \<and> getSize a = getSize n" "bv_term n"
    let ?z = "mkConst G (getSize n) 0"
    let ?cs = "filter (\<lambda>c. c \<noteq> ?z) ns"
    have ne: "ns \<noteq> []" "?cs \<noteq> []"
      using assms(2) by (auto simp: n filter_empty_conv)
    have cs: "\<forall>a\<in>set ?cs. bv_term a \<and> getSize a = getSize n"
      using ns(1) by auto
    have "val G m ?z = 0" for m
      using bv_term_width [OF ns(2)] by (simp add: mkConst_term)
    then have "xor_list (map (val G m) ?cs) = xor_list (map (val G m) ns)" for m
      by (intro xor_list_filter) simp
    moreover have "XorZero G n = mkNaryNode K_BITVECTOR_XOR ?cs"
      by (simp add: XorZero_def n)
    ultimately show "bv_term (XorZero G n) \<and> getSize (XorZero G n) = getSize n \<and> (\<forall>m. val G m (XorZero G n) = val G m n)"
      using mkNaryNode_xor [OF ne(2) cs] val_lists(3) [OF ne(1) ns(1)] by (simp add: n [symmetric])
  qed simp
qed

lemma XorOnes_sound:
  assumes "XorOnes_applies G n" "\<exists>c\<in>set (children n). c \<noteq> utils_mkOnes G (getSize n)"
  shows "rewrites_to G n (XorOnes G n)"
proof -
  have "isKind K_BITVECTOR_XOR n"
    using assms(1) by (simp add: XorOnes_applies_def)
  then show ?thesis
  proof (rule rewrites_nary)
    fix ns
    assume n: "n = mkNode K_BITVECTOR_XOR ns" and ns: "\<forall>a\<in>set ns. bv_term a \<and> getSize a = getSize n" "bv_term n"
    let ?o = "utils_mkOnes G (getSize n)"
    let ?cs = "filter (\<lambda>c. c \<noteq> ?o) ns" and ?odd = "foldl (\<lambda>found c. if c = ?o then \<not> found else found) False ns"
    define r where "r = mkNaryNode K_BITVECTOR_XOR ?cs"
    have ne: "ns \<noteq> []" "?cs \<noteq> []"
      using assms(2) by (auto simp: n filter_empty_conv)
    have cs: "\<forall>a\<in>set ?cs. bv_term a \<and> getSize a = getSize n"
      using ns(1) by auto
    have o: "val G m ?o = mask (getSize n)" for m
      using bv_term_width [OF ns(2)] by (simp add: constant_nodes mask_eq_exp_minus_1)
    note r = mkNaryNode_xor [OF ne(2) cs, folded r_def]
    have v: "val G m n = (if ?odd then 2 ^ getSize n - 1 - val G m r else val G m r)" for m
      using xor_list_ones [of "val G m" ?o, OF o [of m], where b = False and cs = ns and F = "\<lambda>found c. if c = ?o then \<not> found else found"] val_lists(3) [OF ne(1) ns(1), of m] r
        xor_with_mask [of "getSize n" "val G m r"] val_bounds(3) [OF r(1), of m] by (simp add: n [symmetric])
    have "XorOnes G n = (if ?odd then mkNode K_BITVECTOR_NOT [r] else r)"
      by (simp add: XorOnes_def n r_def Let_def)
    with r(1,2) v show "bv_term (XorOnes G n) \<and> getSize (XorOnes G n) = getSize n \<and> (\<forall>m. val G m (XorOnes G n) = val G m n)"
      by (simp add: term_simps)
  qed simp
qed

section \<open>Products\<close>

lemma const_size: "bv_term c \<Longrightarrow> is_const_bv c \<Longrightarrow> d_size (getConst c) = getSize c"
  by (auto dest!: is_const_bv_eq simp: bv_term_def getSize_def BitVectorConstantTypeRule_def split: if_splits)

lemma isPow2Const_neg:
  assumes "bv_term c" "isPow2Const G c = (p, True)" "p \<noteq> 0"
  shows "val G m c mod 2 ^ getSize c = (- (2 ^ (p - 1))) mod 2 ^ getSize c" "p - 1 < getSize c" "1 < getSize c"
proof -
  let ?b = "getConst c" and ?w = "getSize c"
  have k: "is_const_bv c" "isPow2 G (d_value ?b) = 0" and p: "p = isPow2 G (d_value (bv_neg G ?b))"
    using assms(2,3) by (auto simp: isPow2Const_def Let_def bv_isPow2_def split: if_splits)
  have v: "val G m c = d_value ?b"
    using const_value [OF k(1)] .
  have neg: "d_value (bv_neg G ?b) = (- val G m c) mod 2 ^ ?w"
    using const_size [OF assms(1) k(1)] v by (simp add: value_neg take_bit_eq_mod)
  then have "d_value (bv_neg G ?b) < 2 ^ ?w"
    by simp
  from isPow2_pos_iff [OF this bv_term_width(2) [OF assms(1)], of "p - 1"] have P: "(- val G m c) mod 2 ^ ?w = 2 ^ (p - 1)"
    using assms(3) p neg by simp
  then have "(2 :: int) ^ (p - 1) < 2 ^ ?w"
    by (metis pos_mod_bound zero_less_numeral zero_less_power)
  then show "p - 1 < ?w"
    by simp
  have "(- (2 ^ (p - 1))) mod 2 ^ ?w = (- ((- val G m c) mod 2 ^ ?w)) mod 2 ^ ?w"
    unfolding P ..
  then show "val G m c mod 2 ^ ?w = (- (2 ^ (p - 1))) mod 2 ^ ?w"
    by (simp add: mod_simps)
  show "1 < ?w"
  proof (rule ccontr)
    assume "\<not> 1 < ?w"
    then have w: "?w = 1"
      using bv_term_width(1) [OF assms(1)] by simp
    consider "val G m c = 0" | "val G m c = 1"
      using cond_one(2) [OF assms(1) w] by blast
    then show False
    proof cases
      case 1
      then show ?thesis
        using P by simp
    next
      case 2
      then show ?thesis
        using isPow2_pos_iff [OF val_bounds(2) [OF assms(1)] bv_term_width(2) [OF assms(1)], of m 0] k(2) v by simp
    qed
  qed
qed

abbreviation sign :: "bool \<Rightarrow> int" where
  "sign b \<equiv> if b then - 1 else 1"

lemma mult_pow2_step:
  assumes "bv_term c" "getSize c = w" "mult_pow2_step G (e, neg, cs) c = (e', neg', cs')" "e + w < 2 ^ 32" "neg \<longrightarrow> 1 < w"
  shows "e' \<le> e + w" "set cs' \<subseteq> insert c (set cs)" "neg' \<longrightarrow> 1 < w"
    "(sign neg * 2 ^ e * prod_list (map (val G m) cs) * val G m c) mod 2 ^ w = (sign neg' * 2 ^ e' * prod_list (map (val G m) cs')) mod 2 ^ w"
proof -
  obtain p cneg where p: "isPow2Const G c = (p, cneg)"
    by (cases "isPow2Const G c")
  have "e' \<le> e + w \<and> set cs' \<subseteq> insert c (set cs) \<and> (neg' \<longrightarrow> 1 < w) \<and>
    (sign neg * 2 ^ e * prod_list (map (val G m) cs) * val G m c) mod 2 ^ w = (sign neg' * 2 ^ e' * prod_list (map (val G m) cs')) mod 2 ^ w"
  proof (cases "p = 0")
    case True
    then show ?thesis
      using assms(3,5) p by (auto simp: mult_pow2_step_def ac_simps)
  next
    case False
    have small: "p - 1 < w" and cneg: "cneg \<longrightarrow> 1 < w"
      and c: "val G m c mod 2 ^ w = (sign cneg * 2 ^ (p - 1)) mod 2 ^ w"
      using isPow2Const_Some(1) [OF assms(1), of p m] isPow2Const_Some(2) [OF assms(1), of p]
        isPow2Const_neg(1) [OF assms(1), of p m] isPow2Const_neg(2,3) [OF assms(1), of p] p False assms(2) by (cases cneg; simp)+
    then have e': "e' = e + (p - 1)" and rest: "cs' = cs" "neg' = (if cneg then \<not> neg else neg)"
      using assms(3,4) p False by (auto simp: mult_pow2_step_def)
    let ?x = "sign neg * 2 ^ e * prod_list (map (val G m) cs)"
    have "(?x * val G m c) mod 2 ^ w = (?x * (sign cneg * 2 ^ (p - 1))) mod 2 ^ w"
      using c by (metis mod_mult_right_eq)
    moreover have "?x * (sign cneg * 2 ^ (p - 1)) = sign neg' * 2 ^ e' * prod_list (map (val G m) cs')"
      by (simp add: e' rest power_add ac_simps)
    ultimately have "(?x * val G m c) mod 2 ^ w = (sign neg' * 2 ^ e' * prod_list (map (val G m) cs')) mod 2 ^ w"
      by simp
    moreover have "e' \<le> e + w" "set cs' \<subseteq> insert c (set cs)" "neg' \<longrightarrow> 1 < w"
      using small cneg assms(5) e' rest by auto
    ultimately show ?thesis
      by blast
  qed
  then show "e' \<le> e + w" "set cs' \<subseteq> insert c (set cs)" "neg' \<longrightarrow> 1 < w"
    "(sign neg * 2 ^ e * prod_list (map (val G m) cs) * val G m c) mod 2 ^ w = (sign neg' * 2 ^ e' * prod_list (map (val G m) cs')) mod 2 ^ w"
    by auto
qed

lemma mult_pow2_fold:
  assumes "\<forall>c\<in>set ns. bv_term c \<and> getSize c = w" "foldl (mult_pow2_step G) (e, neg, cs) ns = (e', neg', cs')"
    "e + length ns * w < 2 ^ 32" "neg \<longrightarrow> 1 < w"
  shows "set cs' \<subseteq> set ns \<union> set cs \<and> (neg' \<longrightarrow> 1 < w) \<and> e' < 2 ^ 32 \<and>
    (sign neg * 2 ^ e * prod_list (map (val G m) cs) * prod_list (map (val G m) ns)) mod 2 ^ w =
    (sign neg' * 2 ^ e' * prod_list (map (val G m) cs')) mod 2 ^ w"
  using assms
proof (induction ns arbitrary: e neg cs)
  case (Cons c ns)
  obtain e1 neg1 cs1 where s: "mult_pow2_step G (e, neg, cs) c = (e1, neg1, cs1)"
    by (cases "mult_pow2_step G (e, neg, cs) c") auto
  have "e + w < 2 ^ 32" "bv_term c" "getSize c = w"
    using Cons.prems by auto
  note step = mult_pow2_step [OF this(2,3) s this(1) Cons.prems(4)]
  have rest: "set cs' \<subseteq> set ns \<union> set cs1 \<and> (neg' \<longrightarrow> 1 < w) \<and> e' < 2 ^ 32 \<and>
    (sign neg1 * 2 ^ e1 * prod_list (map (val G m) cs1) * prod_list (map (val G m) ns)) mod 2 ^ w =
    (sign neg' * 2 ^ e' * prod_list (map (val G m) cs')) mod 2 ^ w"
    using Cons.prems s step(1,3) by (intro Cons.IH) auto
  have "(sign neg * 2 ^ e * prod_list (map (val G m) cs) * prod_list (map (val G m) (c # ns))) mod 2 ^ w =
      ((sign neg * 2 ^ e * prod_list (map (val G m) cs) * val G m c) mod 2 ^ w * prod_list (map (val G m) ns)) mod 2 ^ w"
    by (simp only: mod_mult_left_eq list.map prod_list.Cons mult.assoc)
  also have "\<dots> = (sign neg1 * 2 ^ e1 * prod_list (map (val G m) cs1) * prod_list (map (val G m) ns)) mod 2 ^ w"
    by (simp only: step(4) mod_mult_left_eq)
  finally show ?case
    using rest step(2) by auto
qed auto

lemma MultPow2_sound:
  assumes "MultPow2_applies G n" "length (children n) * getSize n < 2 ^ 32"
  shows "rewrites_to G n (MultPow2 G n)"
proof -
  have "isKind K_BITVECTOR_MULT n"
    using assms(1) by (simp add: MultPow2_applies_def)
  then show ?thesis
  proof (rule rewrites_nary)
    fix ns
    assume n: "n = mkNode K_BITVECTOR_MULT ns" and len: "2 \<le> length ns"
      and ns: "\<forall>a\<in>set ns. bv_term a \<and> getSize a = getSize n" "bv_term n"
    define w where "w = getSize n"
    have w: "0 < w" "w < 2 ^ 32"
      using bv_term_width [OF ns(2)] by (auto simp: w_def)
    have lim: "0 + length ns * w < 2 ^ 32"
      using assms(2) by (simp add: n w_def)
    obtain e neg cs where f: "foldl (mult_pow2_step G) (0, False, []) ns = (e, neg, cs)"
      by (cases "foldl (mult_pow2_step G) (0, False, []) ns") auto
    have fold: "set cs \<subseteq> set ns" "neg \<longrightarrow> 1 < w"
      "prod_list (map (val G m) ns) mod 2 ^ w = (sign neg * 2 ^ e * prod_list (map (val G m) cs)) mod 2 ^ w" for m
      using mult_pow2_fold [of ns w 0 False "[]" e neg cs m] f ns(1) lim by (simp_all only: w_def) simp_all
    have "ns \<noteq> []"
      using len by auto
    from val_lists(1) [OF this ns(1)] have v: "val G m n = (sign neg * 2 ^ e * prod_list (map (val G m) cs)) mod 2 ^ w" for m
      using fold(3) by (simp add: n [symmetric] take_bit_eq_mod w_def)
    define a where "a = (if cs = [] then utils_mkOne G w else mkNaryNode K_BITVECTOR_MULT cs)"
    have a: "bv_term a" "getSize a = w" "val G m a = prod_list (map (val G m) cs) mod 2 ^ w" for m
    proof -
      have c: "\<forall>a\<in>set cs. bv_term a \<and> getSize a = w"
        using fold(1) ns(1) by (auto simp: w_def)
      show "bv_term a" "getSize a = w" "val G m a = prod_list (map (val G m) cs) mod 2 ^ w"
        using mkNaryNode_mult [OF _ c] w by (auto simp: a_def utils_mkOne_def mkConst_term take_bit_eq_mod)
    qed
    define b where "b = (if neg \<and> w > 1 then mkNode K_BITVECTOR_NEG [a] else a)"
    have b: "bv_term b" "getSize b = w" "val G m b = (sign neg * prod_list (map (val G m) cs)) mod 2 ^ w" for m
      using a fold(2) by (auto simp: b_def term_simps take_bit_eq_mod mod_simps)
    have eq: "MultPow2 G n = (if w \<le> e then utils_mkZero G w else if e = 0 then b
        else mkConcat (mkExtract b (w - 1 - e) 0) (utils_mkZero G e))"
      unfolding MultPow2_def by (simp add: n w_def [unfolded n, symmetric] f a_def b_def Let_def utils_mkZero_def diff_commute)
    have shifted: "val G m n = take_bit w (push_bit e (val G m b))" for m
      unfolding v b(3) push_bit_eq_mult take_bit_eq_mod by (simp add: mod_simps ac_simps)
    show "bv_term (MultPow2 G n) \<and> getSize (MultPow2 G n) = getSize n \<and> (\<forall>m. val G m (MultPow2 G n) = val G m n)"
    proof (cases "w \<le> e")
      case True
      then show ?thesis
        unfolding eq shifted w_def [symmetric] using w by (simp add: utils_mkZero_def mkConst_term take_bit_push_bit)
    next
      case False
      then show ?thesis
        unfolding eq shifted w_def [symmetric] using b shift_parts(1-3) [OF b(1), of e] val_bounds(3) [OF b(1)] by simp
    qed
  qed simp
qed

lemma slice_product:
  assumes "0 \<le> a" "0 \<le> b"
  shows "take_bit (h + h) (a * b) = take_bit (h + h) ((a mod 2 ^ h) * (b mod 2 ^ h) +
    (b div 2 ^ h * (a mod 2 ^ h)) mod 2 ^ h * 2 ^ h + (a div 2 ^ h * (b mod 2 ^ h)) mod 2 ^ h * (2 :: int) ^ h)"
proof -
  define A B C D where "A = a div 2 ^ h" "B = a mod 2 ^ h" "C = b div 2 ^ h" "D = b mod 2 ^ h"
  note defs = this
  have ab: "a = A * 2 ^ h + B" "b = C * 2 ^ h + D"
    by (simp_all add: defs mult.commute)
  have shift: "(x mod 2 ^ h * 2 ^ h) mod 2 ^ (h + h) = (x * 2 ^ h) mod 2 ^ (h + h)" for x :: int
    by (simp add: power_add mod_mult_mult2)
  have "(B * D + (C * B) mod 2 ^ h * 2 ^ h + (A * D) mod 2 ^ h * 2 ^ h) mod 2 ^ (h + h) =
      (B * D + (C * B) * 2 ^ h + (A * D) * 2 ^ h) mod 2 ^ (h + h)"
    using shift [of "C * B"] shift [of "A * D"] by (metis mod_add_cong)
  also have "\<dots> = (B * D + (C * B) * 2 ^ h + (A * D) * 2 ^ h + A * C * 2 ^ (h + h)) mod 2 ^ (h + h)"
    by (simp only: mod_mult_self1)
  also have "B * D + (C * B) * 2 ^ h + (A * D) * 2 ^ h + A * C * 2 ^ (h + h) = a * b"
    unfolding ab by (simp add: algebra_simps power_add)
  finally show ?thesis
    by (simp add: take_bit_eq_mod defs)
qed

lemma MultSlice_sound: "MultSlice_applies n \<Longrightarrow> rewrites_to G n (MultSlice G n)"
  unfolding MultSlice_applies_def
proof (elim conjE, erule rewrites_nary)
  fix ns
  assume n: "n = mkNode K_BITVECTOR_MULT ns" and len: "length (children n) = 2" "getSize (child n 0) mod 2 = 0"
    and ns: "\<forall>a\<in>set ns. bv_term a \<and> getSize a = getSize n" "bv_term n"
  obtain a b where ab: "ns = [a, b]"
    using len(1) by (auto simp: n length_Suc_conv numeral_2_eq_2)
  then have bv: "bv_term a" "bv_term b" "getSize a = getSize n" "getSize b = getSize n"
    using ns(1) by auto
  obtain h where h: "getSize n = h + h"
    using len(2) bv(3) by (metis ab child_def children.simps(1) evenE mod2_eq_if mult_2 n nth_Cons_0 zero_neq_one)
  have w: "0 < h" "h + h < 2 ^ 32"
    using bv_term_width [OF ns(2)] h by auto
  have sz: "getSize a = h + h" "getSize b = h + h"
    using bv(3,4) h by simp_all
  let ?z = "mkConst G h 0"
  have z: "bv_term ?z" "getSize ?z = h" "val G m ?z = 0" for m
    using w by (simp_all add: mkConst_term)
  have part: "bv_term (mkExtract x (h - 1) 0)" "getSize (mkExtract x (h - 1) 0) = h" "val G m (mkExtract x (h - 1) 0) = val G m x mod 2 ^ h"
    "bv_term (mkExtract x (h + h - 1) h)" "getSize (mkExtract x (h + h - 1) h) = h" "val G m (mkExtract x (h + h - 1) h) = val G m x div 2 ^ h"
    if "bv_term x" "getSize x = h + h" for x m
    using that w drop_bit_div [OF that(1), of h m] by (simp_all add: mkExtract_def term_simps) (simp_all add: take_bit_eq_mod)
  note pa = part [OF bv(1) bv(3) [unfolded h]] and pb = part [OF bv(2) bv(4) [unfolded h]]
  let ?t1 = "mkNode K_BITVECTOR_MULT [mkNode K_BITVECTOR_CONCAT [?z, mkExtract a (h - 1) 0], mkNode K_BITVECTOR_CONCAT [?z, mkExtract b (h - 1) 0]]"
  let ?t2 = "mkNode K_BITVECTOR_CONCAT [mkNode K_BITVECTOR_MULT [mkExtract b (h + h - 1) h, mkExtract a (h - 1) 0], ?z]"
  let ?t3 = "mkNode K_BITVECTOR_CONCAT [mkNode K_BITVECTOR_MULT [mkExtract a (h + h - 1) h, mkExtract b (h - 1) 0], ?z]"
  have t1: "bv_term ?t1" "getSize ?t1 = h + h" "val G m ?t1 = take_bit (h + h) ((val G m a mod 2 ^ h) * (val G m b mod 2 ^ h))" for m
    using z pa(1-3) pb(1-3) w by (simp_all add: term_simps)
  have t2: "bv_term ?t2" "getSize ?t2 = h + h" "val G m ?t2 = (val G m b div 2 ^ h * (val G m a mod 2 ^ h)) mod 2 ^ h * 2 ^ h" for m
    using z pa pb w by (simp_all add: term_simps) (simp add: take_bit_eq_mod)
  have t3: "bv_term ?t3" "getSize ?t3 = h + h" "val G m ?t3 = (val G m a div 2 ^ h * (val G m b mod 2 ^ h)) mod 2 ^ h * 2 ^ h" for m
    using z pa pb w by (simp_all add: term_simps) (simp add: take_bit_eq_mod)
  have ts: "\<forall>a\<in>set [?t1, ?t2, ?t3]. bv_term a \<and> getSize a = h + h"
    using t1 t2 t3 by simp
  have "val G m (mkNode K_BITVECTOR_ADD [?t1, ?t2, ?t3]) = take_bit (h + h) (val G m a * val G m b)" for m
    using val_lists(2) [OF _ ts, of m]
    unfolding list.map sum_list.Cons sum_list.Nil t1(3) t2(3) t3(3) slice_product [OF val_bounds(1) [OF bv(1)] val_bounds(1) [OF bv(2)]]
    by (simp only: take_bit_eq_mod mod_add_left_eq add.assoc add_0_right list.distinct simp_thms)
  moreover have "val G m n = take_bit (h + h) (val G m a * val G m b)" for m
    using val_nary(2) [OF bv(1,2), of m] sz unfolding n ab by simp
  moreover have "MultSlice G n = mkNode K_BITVECTOR_ADD [?t1, ?t2, ?t3]"
    by (simp add: MultSlice_def Let_def n ab child_def sz(1))
  ultimately show "bv_term (MultSlice G n) \<and> getSize (MultSlice G n) = getSize n \<and> (\<forall>m. val G m (MultSlice G n) = val G m n)"
    using nary_term [OF _ _ ts, of K_BITVECTOR_ADD] h by simp
qed simp

end

end
