(* ===== verification/Bv_Core_Rules.thy ===== *)
theory Bv_Core_Rules
  imports Bv_Nary_Rules
begin

text \<open>
  Concatenation, extraction and equality: the rules of
  \<^verbatim>\<open>theory/bv/theory_bv_rewrite_rules_core.h\<close>, with \<^verbatim>\<open>ExtractNot\<close> and \<^verbatim>\<open>ExtractSignExtend\<close> of
  \<^verbatim>\<open>theory_bv_rewrite_rules_normalization.h\<close>.  A stack of nodes is a list with its top first.
\<close>

section \<open>Concatenation\<close>

definition ConcatFlatten_applies :: "node \<Rightarrow> bool" where
  "ConcatFlatten_applies n = isKind K_BITVECTOR_CONCAT n"

fun flatten_stack :: "node list \<Rightarrow> node list" where
  "flatten_stack [] = []"
| "flatten_stack (mkNode k ns # processing_stack) =
     (if k = K_BITVECTOR_CONCAT then flatten_stack (ns @ processing_stack) else mkNode k ns # flatten_stack processing_stack)"
| "flatten_stack (current # processing_stack) = current # flatten_stack processing_stack"

definition ConcatFlatten :: "node \<Rightarrow> node" where
  "ConcatFlatten n = mkNode K_BITVECTOR_CONCAT (flatten_stack [n])"

definition ConcatExtractMerge_applies :: "node \<Rightarrow> bool" where
  "ConcatExtractMerge_applies n = isKind K_BITVECTOR_CONCAT n"

text \<open>The variables of the loop: \<^verbatim>\<open>mergedExtracts\<close>, \<^verbatim>\<open>current\<close>, \<^verbatim>\<open>mergeStarted\<close>, \<^verbatim>\<open>currentHigh\<close> and \<^verbatim>\<open>currentLow\<close>.\<close>

type_synonym merge_state = "node list \<times> node \<times> bool \<times> nat \<times> nat"

definition merged_extract :: "node \<Rightarrow> bool \<Rightarrow> nat \<Rightarrow> nat \<Rightarrow> node" where
  "merged_extract current mergeStarted currentHigh currentLow =
     (if \<not> mergeStarted then current else mkExtract (child current 0) currentHigh currentLow)"

definition merge_extract_step :: "merge_state \<Rightarrow> node \<Rightarrow> merge_state" where
  "merge_extract_step s next_node =
     (case s of (mergedExtracts, current, mergeStarted, currentHigh, currentLow) \<Rightarrow>
        if \<not> is_extract current then (mergedExtracts @ [current], next_node, mergeStarted, currentHigh, currentLow)
        else let (currentHigh, currentLow) =
                   if \<not> mergeStarted then (getExtractHigh current, getExtractLow current) else (currentHigh, currentLow)
             in if is_extract next_node \<and> child current 0 = child next_node 0 \<and> u32 (getExtractHigh next_node + 1) = currentLow
                then (mergedExtracts, current, True, currentHigh, getExtractLow next_node)
                else (mergedExtracts @ [merged_extract current mergeStarted currentHigh currentLow], next_node, False, currentHigh, currentLow))"

definition ConcatExtractMerge :: "node \<Rightarrow> node" where
  "ConcatExtractMerge n =
     (case foldl merge_extract_step ([], child n 0, False, 0, 0) (tl (children n)) of
        (mergedExtracts, current, mergeStarted, currentHigh, currentLow) \<Rightarrow>
          mkConcat_vector (mergedExtracts @ [merged_extract current mergeStarted currentHigh currentLow]))"

definition ConcatConstantMerge_applies :: "node \<Rightarrow> bool" where
  "ConcatConstantMerge_applies n = isKind K_BITVECTOR_CONCAT n"

function merge_constants :: "gmp \<Rightarrow> node list \<Rightarrow> node list" where
  "merge_constants G [] = []"
| "merge_constants G (n # ns) =
     (if \<not> is_const_bv n then n # merge_constants G ns
      else CONST_BITVECTOR (foldl (bv_concat G) (getConst n) (map getConst (takeWhile is_const_bv ns)))
             # merge_constants G (dropWhile is_const_bv ns))"
  by pat_completeness auto

termination
  by (relation "measure (length \<circ> snd)") (auto simp: length_dropWhile_le less_Suc_eq_le)

definition ConcatConstantMerge :: "gmp \<Rightarrow> node \<Rightarrow> node" where
  "ConcatConstantMerge G n = mkConcat_vector (merge_constants G (children n))"

section \<open>Extraction\<close>

definition ExtractWhole_applies :: "node \<Rightarrow> bool" where
  "ExtractWhole_applies n =
     (is_extract n \<and> getExtractHigh n = u32_sub (getSize (child n 0)) 1 \<and> getExtractLow n = 0)"

definition ExtractWhole :: "node \<Rightarrow> node" where
  "ExtractWhole n = child n 0"

definition ExtractConstant_applies :: "node \<Rightarrow> bool" where
  "ExtractConstant_applies n = (is_extract n \<and> is_const_bv (child n 0))"

definition ExtractConstant :: "gmp \<Rightarrow> node \<Rightarrow> node" where
  "ExtractConstant G n = CONST_BITVECTOR (bv_extract G (const_child n 0) (getExtractHigh n) (getExtractLow n))"

definition ExtractConcat_applies :: "node \<Rightarrow> bool" where
  "ExtractConcat_applies n = (is_extract n \<and> isKind K_BITVECTOR_CONCAT (child n 0))"

text \<open>
  The loop runs over the children from the last to the first; \<^verbatim>\<open>extract_high\<close> and
  \<^verbatim>\<open>extract_low\<close> are signed, and the unsigned widths are converted.
\<close>

definition s32 :: "nat \<Rightarrow> int" where
  "s32 n = signed_take_bit 31 (int n)"

fun extract_concat_loop :: "node list \<Rightarrow> int \<Rightarrow> int \<Rightarrow> node list" where
  "extract_concat_loop [] extract_high extract_low = []"
| "extract_concat_loop (concatChild # rest) extract_high extract_low =
     (if \<not> extract_high \<ge> 0 then []
      else let concatChildSize = s32 (getSize concatChild);
               tail = extract_concat_loop rest (extract_high - concatChildSize) (extract_low - concatChildSize)
           in if extract_low < concatChildSize
              then let extract_start = if extract_low < 0 then 0 else extract_low;
                       extract_end = if extract_high < concatChildSize then extract_high else concatChildSize - 1
                   in mkExtract concatChild (nat extract_end) (nat extract_start) # tail
              else tail)"

definition ExtractConcat :: "node \<Rightarrow> node" where
  "ExtractConcat n =
     mkConcat_vector (rev (extract_concat_loop (rev (children (child n 0))) (s32 (getExtractHigh n)) (s32 (getExtractLow n))))"

definition ExtractExtract_applies :: "node \<Rightarrow> bool" where
  "ExtractExtract_applies n = (is_extract n \<and> is_extract (child n 0))"

fun extract_base :: "nat \<Rightarrow> node \<Rightarrow> nat \<times> node" where
  "extract_base j (mkNode k [c]) =
     (case extract_bounds (mkNode k [c]) of Some (h, l) \<Rightarrow> extract_base (u32 (j + l)) c | None \<Rightarrow> (j, mkNode k [c]))"
| "extract_base j n = (j, n)"

definition ExtractExtract :: "node \<Rightarrow> node" where
  "ExtractExtract n =
     (case extract_base 0 (child n 0) of (j, c) \<Rightarrow> mkExtract c (u32 (getExtractHigh n + j)) (u32 (getExtractLow n + j)))"

definition ExtractNot_applies :: "node \<Rightarrow> bool" where
  "ExtractNot_applies n = (is_extract n \<and> isKind K_BITVECTOR_NOT (child n 0))"

definition ExtractNot :: "node \<Rightarrow> node" where
  "ExtractNot n = mkNode K_BITVECTOR_NOT [mkExtract (child (child n 0) 0) (getExtractHigh n) (getExtractLow n)]"

definition ExtractSignExtend_applies :: "node \<Rightarrow> bool" where
  "ExtractSignExtend_applies n = (is_extract n \<and> is_sign_extend (child n 0))"

definition ExtractSignExtend :: "node \<Rightarrow> node" where
  "ExtractSignExtend n =
     (let extendee = child (child n 0) 0; extendee_size = getSize extendee; high = getExtractHigh n; low = getExtractLow n
      in if high < extendee_size then mkExtract extendee high low
         else if low < extendee_size \<and> high \<ge> extendee_size
         then mkSignExtend (mkExtract extendee (extendee_size - 1) low) (u32 (u32_sub high extendee_size + 1))
         else let top = extendee_size - 1 in mkRepeat (mkExtract extendee top top) (u32 (u32_sub high low + 1)))"

section \<open>Equality\<close>

definition FailEq_applies :: "node \<Rightarrow> bool" where
  "FailEq_applies n =
     (isKind K_EQUAL n \<and> is_const_bv (child n 0) \<and> is_const_bv (child n 1) \<and> child n 0 \<noteq> child n 1)"

definition FailEq :: "node \<Rightarrow> node" where
  "FailEq n = mkFalse"

definition SimplifyEq_applies :: "node \<Rightarrow> bool" where
  "SimplifyEq_applies n = (isKind K_EQUAL n \<and> child n 0 = child n 1)"

definition SimplifyEq :: "node \<Rightarrow> node" where
  "SimplifyEq n = mkTrue"

text \<open>Nodes are ordered by their identifiers, a function of the node manager.\<close>

definition ReflexivityEq_applies :: "(node \<Rightarrow> nat) \<Rightarrow> node \<Rightarrow> bool" where
  "ReflexivityEq_applies getId n = (isKind K_EQUAL n \<and> getId (child n 0) > getId (child n 1))"

definition ReflexivityEq :: "node \<Rightarrow> node" where
  "ReflexivityEq n = eqNode (child n 1) (child n 0)"

section \<open>Values of concatenations\<close>

definition cat_val :: "gmp \<Rightarrow> model \<Rightarrow> node list \<Rightarrow> int" where
  "cat_val G m ns = foldl (\<lambda>v n. v * 2 ^ getSize n + val G m n) 0 ns"

abbreviation cat_size :: "node list \<Rightarrow> nat" where
  "cat_size ns \<equiv> sum_list (map getSize ns)"

lemma cat_val_foldl: "foldl (\<lambda>v n. v * 2 ^ getSize n + val G m n) a ns = a * 2 ^ cat_size ns + cat_val G m ns"
proof (induction ns arbitrary: a)
  case (Cons n ns)
  have "foldl (\<lambda>v n. v * 2 ^ getSize n + val G m n) a (n # ns) = (a * 2 ^ getSize n + val G m n) * 2 ^ cat_size ns + cat_val G m ns"
    using Cons [of "a * 2 ^ getSize n + val G m n"] by simp
  moreover have "cat_val G m (n # ns) = val G m n * 2 ^ cat_size ns + cat_val G m ns"
    using Cons [of "val G m n"] by (simp add: cat_val_def)
  ultimately show ?case
    by (simp add: algebra_simps power_add)
qed (simp add: cat_val_def)

lemma cat_val_simps [simp]:
  "cat_val G m [] = 0" "cat_val G m (n # ns) = val G m n * 2 ^ cat_size ns + cat_val G m ns"
  "cat_val G m (xs @ ys) = cat_val G m xs * 2 ^ cat_size ys + cat_val G m ys"
proof -
  show "cat_val G m (n # ns) = val G m n * 2 ^ cat_size ns + cat_val G m ns"
    using cat_val_foldl [of G m "val G m n" ns] by (simp add: cat_val_def)
  show "cat_val G m (xs @ ys) = cat_val G m xs * 2 ^ cat_size ys + cat_val G m ys"
    using cat_val_foldl [of G m "cat_val G m xs" ys] by (simp add: cat_val_def)
qed (simp add: cat_val_def)

lemma concatLoop_sum:
  "concatLoop sz ts = Some T \<longleftrightarrow> (\<forall>t\<in>set ts. isBitVector t) \<and> T = BITVECTOR_TYPE (sz + sum_list (map getBitVectorSize ts)) \<and>
    (ts = [] \<or> sz + sum_list (map getBitVectorSize ts) < 2 ^ 32)"
  by (induction ts arbitrary: sz) (auto simp: checkBvResultSize_def Let_def add.assoc)

lemma concat_children:
  assumes "getType (mkNode K_BITVECTOR_CONCAT ns) = Some T" "firstClass (mkNode K_BITVECTOR_CONCAT ns)"
  shows "2 \<le> length ns" "\<forall>a\<in>set ns. bv_term a" "T = BITVECTOR_TYPE (cat_size ns)" "cat_size ns < 2 ^ 32"
proof -
  obtain ts where ts: "list_all2 (\<lambda>n t. getType n = Some t) ns ts" "kind_arity K_BITVECTOR_CONCAT (length ns)"
    "kind_type K_BITVECTOR_CONCAT ts = Some T" "valid_type T" "\<forall>n\<in>set ns. firstClass n"
    by (rule getType_children [OF assms])
  then show "2 \<le> length ns"
    by (simp add: kind_arity_def)
  have bv: "\<forall>t\<in>set ts. isBitVector t" "T = BITVECTOR_TYPE (sum_list (map getBitVectorSize ts))"
    using ts(3) by (auto simp: kind_type_def BitVectorConcatTypeRule_def concatLoop_sum)
  show "\<forall>a\<in>set ns. bv_term a"
  proof
    fix a
    assume a: "a \<in> set ns"
    obtain i where i: "i < length ns" "a = ns ! i"
      using a by (auto simp: in_set_conv_nth)
    then have "ts ! i \<in> set ts" "getType a = Some (ts ! i)"
      using ts(1) by (simp_all add: list_all2_conv_all_nth)
    then show "bv_term a"
      using bv(1) ts(5) a by (auto simp: bv_term_def elim!: isBitVectorE)
  qed
  have "map getSize ns = map getBitVectorSize ts"
    using ts(1) by (auto simp: getSize_def list_all2_conv_all_nth intro: nth_equalityI)
  then show "T = BITVECTOR_TYPE (cat_size ns)"
    using bv(2) by simp
  then show "cat_size ns < 2 ^ 32"
    using ts(4) by simp
qed

lemma concat_list_term:
  assumes "2 \<le> length ns" "\<forall>a\<in>set ns. bv_term a" "cat_size ns < 2 ^ 32"
  shows "bv_term (mkNode K_BITVECTOR_CONCAT ns)" "getSize (mkNode K_BITVECTOR_CONCAT ns) = cat_size ns"
proof -
  have ty: "those (map getType ns) = Some (map (\<lambda>n. BITVECTOR_TYPE (getSize n)) ns)"
    using assms(2) bv_termD(2) by (intro those_getType) auto
  have "0 < cat_size ns"
    using assms(1,2) bv_term_width(1) by (cases ns) auto
  moreover have "concatLoop 0 (map (\<lambda>n. BITVECTOR_TYPE (getSize n)) ns) = Some (BITVECTOR_TYPE (cat_size ns))"
    using assms(3) by (simp add: concatLoop_sum comp_def)
  ultimately have "getType (mkNode K_BITVECTOR_CONCAT ns) = Some (BITVECTOR_TYPE (cat_size ns))"
    using ty assms(1,3) by (simp add: kind_type_def kind_arity_def BitVectorConcatTypeRule_def)
  moreover have "firstClass (mkNode K_BITVECTOR_CONCAT ns)"
    using assms(2) bv_termD(1) by (auto simp: kind_range_def list_all_iff)
  ultimately show "bv_term (mkNode K_BITVECTOR_CONCAT ns)" "getSize (mkNode K_BITVECTOR_CONCAT ns) = cat_size ns"
    using bv_termI by blast+
qed

text \<open>
  The loop of \<^verbatim>\<open>ConcatExtractMerge\<close>: the terms already emitted, the term being merged and the
  terms left denote the original concatenation.
\<close>

definition pending :: "merge_state \<Rightarrow> node list" where
  "pending s = (case s of (merged, current, started, high, low) \<Rightarrow> merged @ [merged_extract current started high low])"

definition merge_inv :: "merge_state \<Rightarrow> bool" where
  "merge_inv s \<longleftrightarrow> (\<forall>a\<in>set (pending s). bv_term a) \<and>
     (case s of (merged, current, started, high, low) \<Rightarrow>
        bv_term current \<and> (started \<longrightarrow> is_extract current \<and> low \<le> high \<and> high < getSize (child current 0) \<and> bv_term (child current 0)))"

context gmp_documented
begin

lemma value_concat_fold:
  assumes "bv_inv a" "\<forall>b\<in>set bs. bv_inv b" "d_size a + sum_list (map d_size bs) < 2 ^ 32"
  shows "d_size (foldl (bv_concat G) a bs) = d_size a + sum_list (map d_size bs) \<and>
    d_value (foldl (bv_concat G) a bs) = foldl (\<lambda>v b. v * 2 ^ d_size b + d_value b) (d_value a) bs \<and>
    bv_inv (foldl (bv_concat G) a bs)"
  using assms
proof (induction bs arbitrary: a)
  case (Cons b bs)
  have sz: "d_size (bv_concat G a b) = d_size a + d_size b"
    using Cons.prems(3) by simp
  have v: "d_value (bv_concat G a b) = d_value a * 2 ^ d_size b + d_value b"
    using value_concat [of a b] Cons.prems by simp
  have lim: "d_size (bv_concat G a b) + sum_list (map d_size bs) < 2 ^ 32"
    using Cons.prems(3) sz by simp
  show ?case
    using Cons.IH [OF inv_sized(3) _ lim] Cons.prems(2) sz v by simp
qed auto

lemma val_concat_list:
  assumes "ns \<noteq> []" "\<forall>a\<in>set ns. bv_term a" "cat_size ns < 2 ^ 32"
  shows "val G m (mkNode K_BITVECTOR_CONCAT ns) = cat_val G m ns"
proof -
  obtain a bs where ns: "ns = a # bs"
    using assms(1) by (cases ns) auto
  have b: "map (\<lambda>n. d_size (bvval G m n)) bs = map getSize bs" "bv_inv (bvval G m a)" "d_size (bvval G m a) = getSize a"
    "\<forall>b\<in>set (map (bvval G m) bs). bv_inv b"
    using assms(2) bv_term_value(1,2) [of _ m] by (auto simp: ns)
  have "foldl (\<lambda>v b. v * 2 ^ d_size b + d_value b) x (map (bvval G m) bs) = foldl (\<lambda>v n. v * 2 ^ getSize n + val G m n) x bs" for x
    using assms(2) bv_term_value(2) [of _ m] unfolding ns by (induction bs arbitrary: x) (auto simp: val_def)
  then show ?thesis
    using value_concat_fold [OF b(2,4)] b assms(3) cat_val_foldl [of G m "val G m a" bs]
    by (simp add: ns val_def [of G m "mkNode _ _"] bvval_nary comp_def) (simp add: val_def)
qed

lemma cat_val_bounds:
  assumes "\<forall>a\<in>set ns. bv_term a"
  shows "0 \<le> cat_val G m ns \<and> cat_val G m ns < 2 ^ cat_size ns"
  using assms
proof (induction ns)
  case (Cons n ns)
  have b: "0 \<le> val G m n" "val G m n \<le> 2 ^ getSize n - 1"
    using Cons.prems val_bounds(1,2) [of n m] by auto
  have "val G m n * 2 ^ cat_size ns \<le> (2 ^ getSize n - 1) * 2 ^ cat_size ns"
    using b(2) by (intro mult_right_mono) auto
  moreover have "0 \<le> cat_val G m ns" "cat_val G m ns < 2 ^ cat_size ns"
    using Cons by simp_all
  ultimately show ?case
    using b(1) by (simp add: power_add algebra_simps)
qed auto

text \<open>The concatenation of a list of at least one term.\<close>

lemma mkConcat_list:
  assumes "ns \<noteq> []" "\<forall>a\<in>set ns. bv_term a" "cat_size ns < 2 ^ 32"
  shows "bv_term (mkConcat_vector ns)" "getSize (mkConcat_vector ns) = cat_size ns" "val G m (mkConcat_vector ns) = cat_val G m ns"
proof -
  have "bv_term (mkConcat_vector ns) \<and> getSize (mkConcat_vector ns) = cat_size ns \<and> val G m (mkConcat_vector ns) = cat_val G m ns"
  proof (cases "1 < length ns")
    case True
    then show ?thesis
      using concat_list_term [OF _ assms(2,3)] val_concat_list [OF assms, of m] by (simp add: mkConcat_vector_def)
  next
    case False
    then obtain a where "ns = [a]"
      using assms(1) by (cases ns) auto
    then show ?thesis
      using assms(2) by (simp add: mkConcat_vector_def)
  qed
  then show "bv_term (mkConcat_vector ns)" "getSize (mkConcat_vector ns) = cat_size ns" "val G m (mkConcat_vector ns) = cat_val G m ns"
    by auto
qed

lemma rewrites_concat:
  assumes "isKind K_BITVECTOR_CONCAT n"
    "\<And>ns. n = mkNode K_BITVECTOR_CONCAT ns \<Longrightarrow> 2 \<le> length ns \<Longrightarrow> \<forall>a\<in>set ns. bv_term a \<Longrightarrow> cat_size ns < 2 ^ 32 \<Longrightarrow>
      bv_term n' \<and> getSize n' = cat_size ns \<and> (\<forall>m. val G m n' = cat_val G m ns)"
  shows "rewrites_to G n n'"
proof (rule rewrites_typedI)
  fix T
  assume t: "firstClass n" "getType n = Some T"
  obtain ns where n: "n = mkNode K_BITVECTOR_CONCAT ns"
    using assms(1) by (rule isKind_cases)
  note c = concat_children [OF t(2) [unfolded n] t(1) [unfolded n]]
  have "ns \<noteq> []"
    using c(1) by auto
  then show "rewrites_to G n n'"
    using assms(2) [OF n c(1,2,4)] concat_list_term [OF c(1,2,4)] val_concat_list [OF _ c(2,4)] unfolding n
    by (intro rewrites_bv) auto
qed

section \<open>Concatenation rules\<close>

lemma flatten_stack:
  assumes "\<forall>a\<in>set st. bv_term a" "cat_size st < 2 ^ 32"
  shows "(\<forall>a\<in>set (flatten_stack st). bv_term a) \<and> cat_size (flatten_stack st) = cat_size st \<and>
    cat_val G m (flatten_stack st) = cat_val G m st \<and> length st \<le> length (flatten_stack st)"
  using assms
proof (induction st rule: flatten_stack.induct)
  case (2 k ns st)
  show ?case
  proof (cases "k = K_BITVECTOR_CONCAT")
    case True
    then have bv: "bv_term (mkNode K_BITVECTOR_CONCAT ns)"
      using 2(3) by simp
    note c = concat_children [OF bv_termD(2,1) [OF bv]]
    have sz: "getSize (mkNode K_BITVECTOR_CONCAT ns) = cat_size ns"
      using c by (intro concat_list_term(2))
    have v: "val G m (mkNode K_BITVECTOR_CONCAT ns) = cat_val G m ns"
      using c by (intro val_concat_list) auto
    have "(\<forall>a\<in>set (flatten_stack (ns @ st)). bv_term a) \<and> cat_size (flatten_stack (ns @ st)) = cat_size (ns @ st) \<and>
      cat_val G m (flatten_stack (ns @ st)) = cat_val G m (ns @ st) \<and> length (ns @ st) \<le> length (flatten_stack (ns @ st))"
      using 2(3,4) c(2) sz True by (intro 2(1) [OF True]) auto
    then show ?thesis
      using True c(1) sz v by simp
  next
    case False
    with 2(2) [OF False] 2(3,4) show ?thesis
      by auto
  qed
qed auto

lemma ConcatFlatten_sound: "ConcatFlatten_applies n \<Longrightarrow> rewrites_to G n (ConcatFlatten n)"
  unfolding ConcatFlatten_applies_def
proof (erule rewrites_concat)
  fix ns
  assume n: "n = mkNode K_BITVECTOR_CONCAT ns" and ns: "2 \<le> length ns" "\<forall>a\<in>set ns. bv_term a" "cat_size ns < 2 ^ 32"
  have f: "ConcatFlatten n = mkNode K_BITVECTOR_CONCAT (flatten_stack ns)"
    by (simp add: ConcatFlatten_def n)
  have c: "2 \<le> length (flatten_stack ns)" "\<forall>a\<in>set (flatten_stack ns). bv_term a" "cat_size (flatten_stack ns) < 2 ^ 32"
    "cat_size (flatten_stack ns) = cat_size ns" "cat_val G m (flatten_stack ns) = cat_val G m ns" for m
    using flatten_stack [OF ns(2,3), of m] ns by auto
  have "flatten_stack ns \<noteq> []"
    using c(1) by auto
  then show "bv_term (ConcatFlatten n) \<and> getSize (ConcatFlatten n) = cat_size ns \<and> (\<forall>m. val G m (ConcatFlatten n) = cat_val G m ns)"
    using concat_list_term [OF c(1-3)] val_concat_list [OF _ c(2,3)] c(4,5) unfolding f by simp
qed

lemma take_bit_halves: "take_bit (a + b) x = take_bit a x + 2 ^ a * take_bit b (drop_bit a (x :: int))"
  by (simp add: take_bit_eq_mod drop_bit_eq_div power_add zmod_zmult2_eq)

lemma extract_term_simps:
  assumes "bv_term x" "l \<le> h" "h < getSize x"
  shows "bv_term (mkExtract x h l)" "getSize (mkExtract x h l) = h - l + 1" "val G m (mkExtract x h l) = take_bit (h - l + 1) (drop_bit l (val G m x))"
  using assms by (simp_all add: mkExtract_def term_simps)

lemma merge_extracts:
  assumes "bv_term x" "l \<le> h" "h < getSize x" "k < l"
  shows "cat_val G m [mkExtract x h l, mkExtract x (l - 1) k] = val G m (mkExtract x h k)"
    "cat_size [mkExtract x h l, mkExtract x (l - 1) k] = getSize (mkExtract x h k)"
proof -
  note h = extract_term_simps [OF assms(1-3)] and l = extract_term_simps [OF assms(1), of k "l - 1"]
    and k = extract_term_simps [OF assms(1) _ assms(3), of k]
  have lk: "l - 1 - k + 1 = l - k"
    using assms(4) by simp
  have "h - k + 1 = (l - k) + (h - l + 1)" "drop_bit (l - k) (drop_bit k (val G m x)) = drop_bit l (val G m x)"
    using assms by (simp_all add: drop_bit_drop_bit)
  then show "cat_val G m [mkExtract x h l, mkExtract x (l - 1) k] = val G m (mkExtract x h k)"
    using h(3) [of m] l(2) [unfolded lk] l(3) [unfolded lk, of m] k(3) [of m] assms take_bit_halves [of "l - k" "h - l + 1" "drop_bit k (val G m x)"]
    by (simp add: mult.commute)
  show "cat_size [mkExtract x h l, mkExtract x (l - 1) k] = getSize (mkExtract x h k)"
    using h l k assms by simp
qed

lemma is_extract_term:
  assumes "is_extract n" "bv_term n"
  obtains x h l where "n = mkExtract x h l" "bv_term x" "l \<le> h" "h < getSize x"
proof -
  obtain h l ns where n: "n = mkNode (K_BITVECTOR_EXTRACT h l) ns"
    using assms(1) by (rule is_extractE)
  note t = bv_termD [OF assms(2), unfolded n]
  obtain x where x: "ns = [x]"
    using getType_mkNode [OF t(2)] by (auto simp: kind_arity_def length_Suc_conv)
  have bx: "bv_term x"
    using operands_bv_term [OF _ t(2,1), of x] by (simp add: x bv_operands_def)
  have "l \<le> h" "h < getSize x"
    using t(2) bv_termD(2) [OF bx] by (auto simp: x kind_type_def BitVectorExtractTypeRule_def split: if_splits)
  then show thesis
    using that bx by (simp add: n x mkExtract_def)
qed

lemma merge_extract_step:
  assumes "merge_inv s" "bv_term b"
  shows "merge_inv (merge_extract_step s b)"
    "cat_val G m (pending (merge_extract_step s b)) = cat_val G m (pending s @ [b])"
    "cat_size (pending (merge_extract_step s b)) = cat_size (pending s @ [b])"
proof -
  obtain merged current started high low where s: "s = (merged, current, started, high, low)"
    by (cases s) auto
  note inv = assms(1) [unfolded s merge_inv_def pending_def, simplified]
  have "merge_inv (merge_extract_step s b) \<and> cat_val G m (pending (merge_extract_step s b)) = cat_val G m (pending s @ [b]) \<and>
    cat_size (pending (merge_extract_step s b)) = cat_size (pending s @ [b])"
  proof (cases "is_extract current")
    case False
    then have "\<not> started"
      using inv by auto
    with False inv assms(2) show ?thesis
      by (auto simp: s merge_extract_step_def merge_inv_def pending_def merged_extract_def)
  next
    case True
    obtain x h l where c: "current = mkExtract x h l" "bv_term x" "l \<le> h" "h < getSize x"
      using True inv by (auto elim: is_extract_term)
    define h' l' where "h' = (if started then high else h)" and "l' = (if started then low else l)"
    have x: "child current 0 = x" "getExtractHigh current = h" "getExtractLow current = l"
      by (simp_all add: c(1) mkExtract_def child_def)
    have b': "l' \<le> h'" "h' < getSize x" and cur: "merged_extract current started high low = mkExtract x h' l'"
      using inv c x by (auto simp: h'_def l'_def merged_extract_def)
    show ?thesis
    proof (cases "is_extract b \<and> x = child b 0 \<and> u32 (getExtractHigh b + 1) = l'")
      case True
      then obtain y k j where y: "b = mkExtract y k j" "bv_term y" "j \<le> k" "k < getSize y"
        using assms(2) by (auto elim: is_extract_term)
      have "y = x" "getExtractHigh b = k" "getExtractLow b = j"
        using True by (simp_all add: y(1) mkExtract_def child_def)
      moreover have "k + 1 < 2 ^ 32"
        using y(4) bv_term_width(2) [OF y(2)] by simp
      ultimately have b: "b = mkExtract x (l' - 1) j" "getExtractLow b = j" "j < l'"
        using True y by auto
      have step: "merge_extract_step s b = (merged, current, True, h', j)"
        using True \<open>is_extract current\<close> b(2) by (simp add: s merge_extract_step_def x h'_def l'_def Let_def)
      show ?thesis
        unfolding step using merge_extracts(1) [OF c(2) b' b(3), of m] merge_extracts(2) [OF c(2) b' b(3)] extract_term_simps(1) [OF c(2) _ b'(2), of j] inv \<open>is_extract current\<close> b' b(3) c(2)
        by (simp add: s pending_def merge_inv_def cur b(1)) (simp add: merged_extract_def x)
    next
      case False
      have "merge_extract_step s b = (merged @ [mkExtract x h' l'], b, False, h', l')"
        using False \<open>is_extract current\<close> cur
        by (auto simp: s merge_extract_step_def x h'_def l'_def Let_def merged_extract_def split: if_splits)
      then show ?thesis
        using inv assms(2) by (simp add: s pending_def merge_inv_def cur) (simp add: merged_extract_def)
    qed
  qed
  then show "merge_inv (merge_extract_step s b)"
    "cat_val G m (pending (merge_extract_step s b)) = cat_val G m (pending s @ [b])"
    "cat_size (pending (merge_extract_step s b)) = cat_size (pending s @ [b])"
    by auto
qed

lemma merge_extract_fold:
  assumes "merge_inv s" "\<forall>b\<in>set bs. bv_term b"
  shows "merge_inv (foldl merge_extract_step s bs)"
    "cat_size (pending (foldl merge_extract_step s bs)) = cat_size (pending s @ bs)"
    "cat_val G m (pending (foldl merge_extract_step s bs)) = cat_val G m (pending s @ bs)"
proof -
  have "merge_inv (foldl merge_extract_step s bs) \<and> cat_size (pending (foldl merge_extract_step s bs)) = cat_size (pending s @ bs) \<and>
    cat_val G m (pending (foldl merge_extract_step s bs)) = cat_val G m (pending s @ bs)"
    using assms
  proof (induction bs arbitrary: s)
    case (Cons b bs)
    then show ?case
      using merge_extract_step(1,3) [of s b] merge_extract_step(2) [of s b m] by (simp add: power_add algebra_simps)
  qed simp
  then show "merge_inv (foldl merge_extract_step s bs)"
    "cat_size (pending (foldl merge_extract_step s bs)) = cat_size (pending s @ bs)"
    "cat_val G m (pending (foldl merge_extract_step s bs)) = cat_val G m (pending s @ bs)"
    by auto
qed

lemma ConcatExtractMerge_sound: "ConcatExtractMerge_applies n \<Longrightarrow> rewrites_to G n (ConcatExtractMerge n)"
  unfolding ConcatExtractMerge_applies_def
proof (erule rewrites_concat)
  fix ns
  assume n: "n = mkNode K_BITVECTOR_CONCAT ns" and ns: "2 \<le> length ns" "\<forall>a\<in>set ns. bv_term a" "cat_size ns < 2 ^ 32"
  obtain a bs where ab: "ns = a # bs"
    using ns(1) by (cases ns) auto
  define s where "s = foldl merge_extract_step ([], a, False, 0, 0) bs"
  have start: "pending ([], a, False, 0, 0) = [a]" "merge_inv ([], a, False, 0, 0)"
    using ns(2) by (simp_all add: pending_def merge_inv_def merged_extract_def ab)
  note fold = merge_extract_fold [OF start(2), of bs, folded s_def, unfolded start(1)]
  have eq: "ConcatExtractMerge n = mkConcat_vector (pending s)"
    by (simp add: ConcatExtractMerge_def n ab child_def s_def pending_def split: prod.splits)
  have p: "pending s \<noteq> []" "\<forall>a\<in>set (pending s). bv_term a" "cat_size (pending s) < 2 ^ 32"
    using fold(1,2) ns(2,3) by (auto simp: ab merge_inv_def pending_def split: prod.splits)
  show "bv_term (ConcatExtractMerge n) \<and> getSize (ConcatExtractMerge n) = cat_size ns \<and> (\<forall>m. val G m (ConcatExtractMerge n) = cat_val G m ns)"
    unfolding eq using mkConcat_list [OF p] fold(2,3) ns(2) by (simp add: ab)
qed

end

end
