(* ===== verification/Bv_Extract_Rules.thy ===== *)
theory Bv_Extract_Rules
  imports Bv_Core_Rules
begin

text \<open>
  Soundness of the rules on constants in concatenations, on extraction and on equality.
\<close>

lemma child_Cons: "child (mkNode k (a # ns)) 0 = a" "child (mkNode k (a # b # ns)) 1 = b"
  by (simp_all add: child_def)

context gmp_documented
begin

section \<open>Constants in a concatenation\<close>

lemma const_concat:
  assumes "\<forall>a\<in>set (c # cs). bv_term a \<and> is_const_bv a" "cat_size (c # cs) < 2 ^ 32"
  defines "b \<equiv> foldl (bv_concat G) (getConst c) (map getConst cs)"
  shows "bv_term (CONST_BITVECTOR b)" "getSize (CONST_BITVECTOR b) = cat_size (c # cs)"
    "val G m (CONST_BITVECTOR b) = cat_val G m (c # cs)"
proof -
  have v: "bvval G m n = getConst n" if "is_const_bv n" for n
    using is_const_bv_eq [OF that] by (auto simp: bvval_const)
  have inv: "bv_inv (getConst n)" "d_size (getConst n) = getSize n" if "bv_term n" "is_const_bv n" for n
    using bv_term_value(1,2) [OF that(1), of m] v [OF that(2)] by simp_all
  have sum: "sum_list (map d_size (map getConst cs)) = cat_size cs"
    using assms(1) inv(2) by (auto intro!: arg_cong [where f = sum_list])
  have head: "bv_inv (getConst c)" "\<forall>b\<in>set (map getConst cs). bv_inv b" "d_size (getConst c) = getSize c"
    using assms(1) inv by auto
  have b: "d_size b = cat_size (c # cs)" "bv_inv b"
    using value_concat_fold [OF head(1,2)] assms(2) unfolding sum head(3) b_def by simp_all
  have "0 < d_size b"
    using b(1) assms(1) bv_term_width(1) [of c] by simp
  then show "bv_term (CONST_BITVECTOR b)" "getSize (CONST_BITVECTOR b) = cat_size (c # cs)"
    using const_term [OF b(2)] b(1) by simp_all
  have "map (bvval G m) cs = map getConst cs" "bvval G m c = getConst c"
    using assms(1) v by auto
  then have "bvval G m (mkNode K_BITVECTOR_CONCAT (c # cs)) = b"
    by (simp only: bvval_nary b_def)
  then show "val G m (CONST_BITVECTOR b) = cat_val G m (c # cs)"
    using val_concat_list [of "c # cs" m] assms(1,2) by (simp add: val_def bvval_const)
qed

lemma merge_constants:
  assumes "\<forall>a\<in>set ns. bv_term a" "cat_size ns < 2 ^ 32"
  shows "(\<forall>a\<in>set (merge_constants G ns). bv_term a) \<and> cat_size (merge_constants G ns) = cat_size ns \<and>
    cat_val G m (merge_constants G ns) = cat_val G m ns \<and> (ns \<noteq> [] \<longrightarrow> merge_constants G ns \<noteq> [])"
  using assms
proof (induction ns rule: measure_induct_rule [where f = length])
  case (less ms)
  show ?case
  proof (cases ms)
    case (Cons n ns)
    note IH = less(1) [unfolded Cons] and prem = less(2,3) [unfolded Cons]
    show ?thesis
    proof (cases "is_const_bv n")
      case False
      then show ?thesis
        using IH [of ns] prem by (simp add: Cons)
    next
      case True
      let ?cs = "takeWhile is_const_bv ns" and ?rest = "dropWhile is_const_bv ns"
      define c where "c = CONST_BITVECTOR (foldl (bv_concat G) (getConst n) (map getConst ?cs))"
      have app: "n # ns = (n # ?cs) @ ?rest"
        by simp
      have cs: "\<forall>a\<in>set (n # ?cs). bv_term a \<and> is_const_bv a"
        using True prem(1) by (auto dest: set_takeWhileD)
      have rest: "\<forall>a\<in>set ?rest. bv_term a"
        using prem(1) by (auto dest: set_dropWhileD)
      have sz: "cat_size (n # ns) = cat_size (n # ?cs) + cat_size ?rest"
        by (subst app) (simp only: map_append sum_list_append)
      have v: "cat_val G m (n # ns) = cat_val G m (n # ?cs) * 2 ^ cat_size ?rest + cat_val G m ?rest"
        by (subst app) (rule cat_val_simps(3))
      have "cat_size (n # ?cs) < 2 ^ 32" "cat_size ?rest < 2 ^ 32"
        using sz prem(2) by simp_all
      note c = const_concat(1,2) [OF cs this(1), folded c_def] const_concat(3) [OF cs this(1), of m, folded c_def]
        and rec = IH [OF _ rest this(2)]
      have "length ?rest < length (n # ns)"
        using length_dropWhile_le [of is_const_bv ns] by simp
      moreover have "merge_constants G (n # ns) = c # merge_constants G ?rest"
        using True by (simp add: c_def)
      ultimately show ?thesis
        unfolding Cons using c rec sz v by simp
    qed
  qed simp
qed

lemma ConcatConstantMerge_sound: "ConcatConstantMerge_applies n \<Longrightarrow> rewrites_to G n (ConcatConstantMerge G n)"
  unfolding ConcatConstantMerge_applies_def
proof (erule rewrites_concat)
  fix ns
  assume n: "n = mkNode K_BITVECTOR_CONCAT ns" and ns: "2 \<le> length ns" "\<forall>a\<in>set ns. bv_term a" "cat_size ns < 2 ^ 32"
  have "ns \<noteq> []"
    using ns(1) by auto
  then have m: "merge_constants G ns \<noteq> []" "\<forall>a\<in>set (merge_constants G ns). bv_term a" "cat_size (merge_constants G ns) < 2 ^ 32"
    "cat_size (merge_constants G ns) = cat_size ns" "cat_val G m (merge_constants G ns) = cat_val G m ns" for m
    using merge_constants [OF ns(2,3), of m] ns(3) by auto
  show "bv_term (ConcatConstantMerge G n) \<and> getSize (ConcatConstantMerge G n) = cat_size ns \<and>
      (\<forall>m. val G m (ConcatConstantMerge G n) = cat_val G m ns)"
    using mkConcat_list [OF m(1-3)] m(4,5) by (simp add: ConcatConstantMerge_def n)
qed

section \<open>Extraction\<close>

lemma rewrites_extract:
  assumes "is_extract n"
    "\<And>x h l. n = mkExtract x h l \<Longrightarrow> bv_term x \<Longrightarrow> l \<le> h \<Longrightarrow> h < getSize x \<Longrightarrow>
      bv_term n' \<and> getSize n' = h - l + 1 \<and> (\<forall>m. val G m n' = take_bit (h - l + 1) (drop_bit l (val G m x)))"
  shows "rewrites_to G n n'"
proof (rule rewrites_typedI)
  fix T
  assume t: "firstClass n" "getType n = Some T"
  obtain h l ns where n: "n = mkNode (K_BITVECTOR_EXTRACT h l) ns"
    using assms(1) by (rule is_extractE)
  have "isBitVector T"
    using t(2) unfolding n by (auto simp: kind_type_def BitVectorExtractTypeRule_def split: if_splits option.splits)
  then have "bv_term n"
    using t by (auto simp: bv_term_def elim!: isBitVectorE)
  then obtain x h l where x: "n = mkExtract x h l" "bv_term x" "l \<le> h" "h < getSize x"
    by (rule is_extract_term [OF assms(1)])
  from assms(2) [OF x] show "rewrites_to G n n'"
    unfolding x(1) using extract_term_simps [OF x(2-4)] by (intro rewrites_bv) simp_all
qed

lemma extract_payload [simp]:
  "child (mkExtract x h l) 0 = x" "getExtractHigh (mkExtract x h l) = h" "getExtractLow (mkExtract x h l) = l" "is_extract (mkExtract x h l)"
  by (simp_all add: mkExtract_def child_def)

lemma simple_extract_sound:
  "ExtractWhole_applies n \<Longrightarrow> rewrites_to G n (ExtractWhole n)"
  "ExtractConstant_applies n \<Longrightarrow> rewrites_to G n (ExtractConstant G n)"
  "ExtractNot_applies n \<Longrightarrow> rewrites_to G n (ExtractNot n)"
proof -
  show "rewrites_to G n (ExtractWhole n)" if a: "ExtractWhole_applies n"
  proof (rule rewrites_extract)
    fix x h l
    assume n: "n = mkExtract x h l" and x: "bv_term x"
    have "h = getSize x - 1" "l = 0"
      using a bv_term_width [OF x] by (simp_all add: n ExtractWhole_applies_def)
    then show "bv_term (ExtractWhole n) \<and> getSize (ExtractWhole n) = h - l + 1 \<and>
        (\<forall>m. val G m (ExtractWhole n) = take_bit (h - l + 1) (drop_bit l (val G m x)))"
      using x bv_term_width(1) [OF x] val_bounds(3) [OF x] by (simp add: n ExtractWhole_def)
  qed (use a in \<open>simp add: ExtractWhole_applies_def\<close>)
  show "rewrites_to G n (ExtractConstant G n)" if a: "ExtractConstant_applies n"
  proof (rule rewrites_extract)
    fix x h l
    assume n: "n = mkExtract x h l" and x: "bv_term x" and b: "l \<le> h" "h < getSize x"
    have c: "is_const_bv x"
      using a by (simp add: n ExtractConstant_applies_def)
    have "bvval G m x = getConst x" for m
      using is_const_bv_eq [OF c] by (auto simp: bvval_const)
    then have inv: "bv_inv (getConst x)" "d_size (getConst x) = getSize x"
      using bv_term_value(1,2) [OF x] by metis+
    let ?b = "bv_extract G (getConst x) h l"
    have v: "d_value ?b = take_bit (h - l + 1) (drop_bit l (d_value (getConst x)))"
      using value_extract [OF inv(1) b(1)] b(2) inv(2) by simp
    have s: "d_size ?b = h - l + 1"
      using b bv_term_width [OF x] inv(2) by (simp add: bv_extract_def)
    show "bv_term (ExtractConstant G n) \<and> getSize (ExtractConstant G n) = h - l + 1 \<and>
        (\<forall>m. val G m (ExtractConstant G n) = take_bit (h - l + 1) (drop_bit l (val G m x)))"
      using const_term [OF inv_sized(4), of "getConst x" h l] s v const_value [OF c] by (simp add: n ExtractConstant_def term_simps)
  qed (use a in \<open>simp add: ExtractConstant_applies_def\<close>)
  show "rewrites_to G n (ExtractNot n)" if a: "ExtractNot_applies n"
  proof (rule rewrites_extract)
    fix x h l
    assume n: "n = mkExtract x h l" and x: "bv_term x" and b: "l \<le> h" "h < getSize x"
    obtain y where y: "x = mkNode K_BITVECTOR_NOT [y]" "bv_term y"
      using a x by (auto simp: n ExtractNot_applies_def elim: isKind_negation)
    have sz: "getSize x = getSize y"
      using y by (simp add: term_simps)
    have e: "bv_term (mkExtract y h l)" "getSize (mkExtract y h l) = h - l + 1"
      "val G m (mkExtract y h l) = take_bit (h - l + 1) (drop_bit l (val G m y))" for m
      using extract_term_simps [OF y(2) b(1)] b(2) sz by simp_all
    have "2 ^ (h - l + 1) - 1 - take_bit (h - l + 1) (drop_bit l (val G m y)) = take_bit (h - l + 1) (drop_bit l (val G m x))" for m
    proof -
      have "val G m x = take_bit (getSize y) (NOT (val G m y))"
        using y val_bounds(3) [OF y(2), of m] by (simp add: term_simps take_bit_not_eq_mask_diff mask_eq_exp_minus_1)
      then have "take_bit (h - l + 1) (drop_bit l (val G m x)) = take_bit (h - l + 1) (NOT (drop_bit l (val G m y)))"
        using b sz by (intro bit_eqI) (auto simp: bit_simps)
      then show ?thesis
        by (simp add: take_bit_not_eq_mask_diff mask_eq_exp_minus_1 del: power_Suc)
    qed
    then show "bv_term (ExtractNot n) \<and> getSize (ExtractNot n) = h - l + 1 \<and>
        (\<forall>m. val G m (ExtractNot n) = take_bit (h - l + 1) (drop_bit l (val G m x)))"
      using e by (simp add: n ExtractNot_def y(1) child_Cons term_simps del: power_Suc)
  qed (use a in \<open>simp add: ExtractNot_applies_def\<close>)
qed

text \<open>Nested extractions: the accumulated offset.\<close>

lemma u32_add: "u32 (u32 a + b) = u32 (a + b)"
  by (simp add: u32_def mod_simps)

lemma take_drop_nested:
  assumes "l + w \<le> W"
  shows "take_bit w (drop_bit l (take_bit W (drop_bit d v))) = take_bit w (drop_bit (l + d) (v :: int))"
  using assms by (intro bit_eqI) (auto simp: bit_simps ac_simps)

lemma extract_base:
  assumes "bv_term n" "j < 2 ^ 32" "extract_base j n = (j', c)"
  shows "\<exists>d. j' = u32 (j + d) \<and> bv_term c \<and> d + getSize n \<le> getSize c \<and>
    (\<forall>m. val G m n = take_bit (getSize n) (drop_bit d (val G m c)))"
  using assms
proof (induction j n rule: extract_base.induct)
  case (1 j k x)
  show ?case
  proof (cases "extract_bounds (mkNode k [x])")
    case None
    then show ?thesis
      using 1(2-4) val_bounds(3) [OF 1(2)] by (intro exI [of _ 0]) auto
  next
    case (Some hl)
    then have "is_extract (mkNode k [x])"
      by (simp add: is_extract_def)
    then obtain y h l where y: "mkNode k [x] = mkExtract y h l" "bv_term y" "l \<le> h" "h < getSize y"
      using 1(2) by (rule is_extract_term)
    then have x: "y = x" "k = K_BITVECTOR_EXTRACT h l"
      by (simp_all add: mkExtract_def)
    have b: "extract_bounds (mkNode k [x]) = Some (h, l)"
      by (simp add: x(2) extract_bounds_def)
    note e = extract_term_simps [OF y(2-4), folded y(1)]
    have "\<exists>d. j' = u32 (u32 (j + l) + d) \<and> bv_term c \<and> d + getSize x \<le> getSize c \<and>
        (\<forall>m. val G m x = take_bit (getSize x) (drop_bit d (val G m c)))"
      using y(2) x(1) 1(4) b u32_less [of "j + l"] by (intro 1(1) [OF b refl]) simp_all
    then obtain d where d: "j' = u32 (j + l + d)" "bv_term c" "d + getSize x \<le> getSize c"
      "val G m x = take_bit (getSize x) (drop_bit d (val G m c))" for m
      by (auto simp: u32_add)
    have "val G m (mkNode k [x]) = take_bit (h - l + 1) (drop_bit (l + d) (val G m c))" for m
      unfolding e(3) x(1) d(4) using y(3,4) x(1) by (intro take_drop_nested) simp
    then show ?thesis
      using d e(2) y(3,4) x(1) by (intro exI [of _ "l + d"]) (simp add: add.assoc)
  qed
next
  case "2_1"
  then show ?case
    using val_bounds(3) [OF "2_1"(1)] by (intro exI [of _ 0]) auto
next
  case "2_2"
  then show ?case
    using val_bounds(3) [OF "2_2"(1)] by (intro exI [of _ 0]) auto
next
  case "2_3"
  then show ?case
    using val_bounds(3) [OF "2_3"(1)] by (intro exI [of _ 0]) auto
next
  case "2_4"
  then show ?case
    using val_bounds(3) [OF "2_4"(1)] by (intro exI [of _ 0]) auto
next
  case "2_5"
  then show ?case
    using val_bounds(3) [OF "2_5"(1)] by (intro exI [of _ 0]) auto
next
  case "2_6"
  then show ?case
    using val_bounds(3) [OF "2_6"(1)] by (intro exI [of _ 0]) auto
qed

lemma ExtractExtract_sound: "ExtractExtract_applies n \<Longrightarrow> rewrites_to G n (ExtractExtract n)"
  unfolding ExtractExtract_applies_def
proof (elim conjE, erule rewrites_extract)
  fix x h l
  assume n: "n = mkExtract x h l" and x: "bv_term x" and b: "l \<le> h" "h < getSize x"
  obtain j c where jc: "extract_base 0 x = (j, c)"
    by (cases "extract_base 0 x")
  obtain d where d: "j = u32 (0 + d)" "bv_term c" "d + getSize x \<le> getSize c"
    "val G m x = take_bit (getSize x) (drop_bit d (val G m c))" for m
    using extract_base [OF x _ jc] by auto
  have j: "j = d" "u32 (h + d) = h + d" "u32 (l + d) = l + d"
    using d bv_term_width(2) [OF d(2)] b by simp_all
  have eq: "ExtractExtract n = mkExtract c (h + d) (l + d)"
    using jc j by (simp add: ExtractExtract_def n)
  have "take_bit (h - l + 1) (drop_bit l (val G m x)) = take_bit (h - l + 1) (drop_bit (l + d) (val G m c))" for m
    unfolding d(4) using b by (intro take_drop_nested) simp
  then show "bv_term (ExtractExtract n) \<and> getSize (ExtractExtract n) = h - l + 1 \<and>
      (\<forall>m. val G m (ExtractExtract n) = take_bit (h - l + 1) (drop_bit l (val G m x)))"
    unfolding eq using extract_term_simps [OF d(2), of "l + d" "h + d"] b d(3) by simp
qed

text \<open>Extraction from a sign extension.\<close>

lemma is_sign_extend_term:
  assumes "is_sign_extend n" "bv_term n"
  obtains x i where "n = mkNode (K_BITVECTOR_SIGN_EXTEND i) [x]" "bv_term x" "getSize x + i < 2 ^ 32"
proof -
  obtain i ns where n: "n = mkNode (K_BITVECTOR_SIGN_EXTEND i) ns"
    using assms(1) by (rule is_sign_extendE)
  note t = bv_termD [OF assms(2), unfolded n]
  obtain x where x: "ns = [x]"
    using getType_mkNode [OF t(2)] by (auto simp: kind_arity_def length_Suc_conv)
  have bx: "bv_term x"
    using operands_bv_term [OF _ t(2,1), of x] by (simp add: x bv_operands_def)
  have "getSize x + i < 2 ^ 32"
    using t(2) bv_termD(2) [OF bx]
    by (auto simp: x kind_type_def BitVectorExtendTypeRule_def checkBvResultSize_def Let_def split: if_splits)
  then show thesis
    using that bx by (simp add: n x)
qed

lemma sval_extract_top:
  assumes "bv_term x" "l < getSize x"
  shows "sval G m (mkExtract x (getSize x - 1) l) = drop_bit l (sval G m x)"
proof -
  note e = extract_term_simps [OF assms(1), of l "getSize x - 1"]
  have "drop_bit l (signed_take_bit (getSize x - 1) v) = signed_take_bit (getSize x - 1 - l) (take_bit (getSize x - l) (drop_bit l v))" for v :: int
    using assms(2) by (intro bit_eqI) (auto simp: bit_simps min_def)
  moreover have "getSize x - 1 - l + 1 = getSize x - l"
    using assms(2) by simp
  ultimately show ?thesis
    using e assms(2) by (simp add: sval_def)
qed

lemma ExtractSignExtend_sound: "ExtractSignExtend_applies n \<Longrightarrow> rewrites_to G n (ExtractSignExtend n)"
  unfolding ExtractSignExtend_applies_def
proof (elim conjE, erule rewrites_extract)
  fix y h l
  assume n: "n = mkExtract y h l" and y: "bv_term y" and b: "l \<le> h" "h < getSize y" and s: "is_sign_extend (child n 0)"
  have "is_sign_extend y"
    using s by (simp add: n)
  then obtain x i where x: "y = mkNode (K_BITVECTOR_SIGN_EXTEND i) [x]" "bv_term x" "getSize x + i < 2 ^ 32"
    using y by (rule is_sign_extend_term)
  define w where "w = getSize x"
  note W = bv_term_width [OF x(2), folded w_def]
  have sz: "getSize y = w + i" and v: "val G m y = take_bit (w + i) (sval G m x)" for m
    using x by (simp_all add: term_simps w_def)
  have top: "take_bit (h - l + 1) (drop_bit l (val G m y)) = take_bit (h - l + 1) (drop_bit l (sval G m x))" for m
    unfolding v using b sz by (intro bit_eqI) (auto simp: bit_simps)
  have u: "u32 (u32_sub h w + 1) = h - w + 1" if "w \<le> h" for w
    using that b sz x(3) w_def by simp
  have eq: "ExtractSignExtend n = (if h < w then mkExtract x h l
      else if l < w then mkSignExtend (mkExtract x (w - 1) l) (h - w + 1)
      else mkRepeat (mkExtract x (w - 1) (w - 1)) (h - l + 1))"
    using u [of w] u [of l] b(1) by (auto simp: ExtractSignExtend_def n x(1) child_Cons w_def Let_def)
  consider "h < w" | "l < w" "w \<le> h" | "w \<le> l"
    by linarith
  then show "bv_term (ExtractSignExtend n) \<and> getSize (ExtractSignExtend n) = h - l + 1 \<and>
      (\<forall>m. val G m (ExtractSignExtend n) = take_bit (h - l + 1) (drop_bit l (val G m y)))"
  proof cases
    case 1
    have "take_bit (h - l + 1) (drop_bit l (val G m x)) = take_bit (h - l + 1) (drop_bit l (sval G m x))" for m
    proof -
      have "take_bit (h - l + 1) (drop_bit l (take_bit w (sval G m x))) = take_bit (h - l + 1) (drop_bit l (sval G m x))"
        using 1 b(1) by (intro bit_eqI) (auto simp: bit_simps)
      then show ?thesis
        using sval_bounds(4) [OF x(2), of m] by (simp add: w_def)
    qed
    then show ?thesis
      using 1 extract_term_simps [OF x(2) b(1)] unfolding eq top by (simp add: w_def)
  next
    case 2
    have e: "bv_term (mkExtract x (w - 1) l)" "getSize (mkExtract x (w - 1) l) = w - l"
      using extract_term_simps(1,2) [OF x(2), of l "w - 1"] 2(1) by (simp_all add: w_def)
    have "w - l + (h - w + 1) = h - l + 1"
      using 2 by simp
    moreover have "h - l + 1 < 2 ^ 32"
      using b sz x(3) by (simp add: w_def)
    ultimately show ?thesis
      using 2 e sval_extract_top [OF x(2), of l, folded w_def] unfolding eq top
      by (simp add: mkSignExtend_def term_simps del: add_Suc_right)
  next
    case 3
    have s: "bv_term (mkExtract x (w - 1) (w - 1))" "getSize (mkExtract x (w - 1) (w - 1)) = 1"
      using extract_term_simps(1,2) [OF x(2), of "w - 1" "w - 1"] W by (simp_all add: w_def)
    have sv: "val G m (mkExtract x (w - 1) (w - 1)) = of_bool (sval G m x < 0)" for m
      using extract_term_simps(3) [OF x(2), of "w - 1" "w - 1" m] W sval_bounds(3) [OF x(2), of m]
      by (simp add: w_def take_bit_Suc drop_bit_mod_2)
    have lim: "0 < h - l + 1" "h - l + 1 < 2 ^ 32"
      using b sz x(3) by (simp_all add: w_def)
    have "take_bit (h - l + 1) (- of_bool p) = of_bool p * (2 ^ (h - l + 1) - (1 :: int))" for p
      by (cases p) (simp_all add: take_bit_minus_one_eq_mask mask_eq_exp_minus_1 del: power_Suc)
    then show ?thesis
      using 3 b(1) mkRepeat_bit [OF s lim] sv drop_sign [OF x(2), of l] unfolding eq top by (simp add: w_def del: power_Suc)
  qed
qed

text \<open>Extraction from a concatenation; the widths are below \<open>2 ^ 31\<close>, where the signed conversions are exact.\<close>

lemma s32_id: "n < 2 ^ 31 \<Longrightarrow> s32 n = int n"
  by (simp add: s32_def signed_take_bit_int_eq_self)

lemma split_low:
  assumes "0 \<le> c" "c < 2 ^ w"
  shows "drop_bit w (r * 2 ^ w + c) = r" "take_bit w (r * 2 ^ w + c) = (c :: int)"
  using assms by (simp_all add: drop_bit_eq_div take_bit_eq_mod)

lemma low_part:
  assumes "take_bit w V = c" "s + k \<le> w"
  shows "take_bit k (drop_bit s V) = take_bit k (drop_bit s (c :: int))"
  using assms by (metis take_bit_drop_bit take_bit_take_bit min.absorb1 add.commute)

lemma extract_concat_loop:
  assumes "\<forall>a\<in>set rs. bv_term a" "int (cat_size rs) < 2 ^ 31" "low \<le> high" "high < int (cat_size rs)"
  defines "res \<equiv> extract_concat_loop rs high low" and "start \<equiv> nat low"
  shows "(\<forall>a\<in>set res. bv_term a) \<and>
    (0 \<le> high \<longrightarrow> res \<noteq> [] \<and> cat_size (rev res) = nat high - start + 1 \<and>
      cat_val G m (rev res) = take_bit (nat high - start + 1) (drop_bit start (cat_val G m (rev rs))))"
  using assms(1-4) unfolding res_def start_def
proof (induction rs arbitrary: high low)
  case (Cons c rest)
  define w where "w = getSize c"
  have c: "bv_term c" "s32 (getSize c) = int w"
    using Cons.prems by (auto simp: w_def intro: s32_id)
  let ?V = "cat_val G m (rev (c # rest))" and ?R = "cat_val G m (rev rest)"
  have V: "?V = ?R * 2 ^ w + val G m c"
    by (simp add: w_def)
  have sp: "drop_bit w ?V = ?R" "take_bit w ?V = val G m c"
    unfolding V using val_bounds(1,2) [OF c(1), of m] by (intro split_low; simp add: w_def)+
  define tail where "tail = extract_concat_loop rest (high - int w) (low - int w)"
  have IH: "(\<forall>a\<in>set tail. bv_term a) \<and>
    (0 \<le> high - int w \<longrightarrow> tail \<noteq> [] \<and> cat_size (rev tail) = nat (high - int w) - nat (low - int w) + 1 \<and>
      cat_val G m (rev tail) = take_bit (nat (high - int w) - nat (low - int w) + 1) (drop_bit (nat (low - int w)) ?R))"
    unfolding tail_def using Cons.prems by (intro Cons.IH) (auto simp: w_def)
  show ?case
  proof (cases "0 \<le> high")
    case False
    then show ?thesis
      by simp
  next
    case True
    consider (skip) "int w \<le> low" | (inner) "low < int w" "high < int w" | (across) "low < int w" "int w \<le> high"
      by linarith
    then show ?thesis
    proof cases
      case skip
      then have "extract_concat_loop (c # rest) high low = tail"
        using True c(2) by (simp add: tail_def Let_def)
      moreover have "drop_bit (nat (low - int w)) ?R = drop_bit (nat low) ?V"
        unfolding sp(1) [symmetric] using skip by (simp add: nat_diff_distrib)
      moreover have "nat (high - int w) - nat (low - int w) = nat high - nat low"
        using skip Cons.prems(3) by simp
      ultimately show ?thesis
        using IH skip Cons.prems(3) by simp
    next
      case inner
      then have "tail = []"
        unfolding tail_def by (cases rest) auto
      then have res: "extract_concat_loop (c # rest) high low = [mkExtract c (nat high) (nat low)]"
        using True inner c(2) by (auto simp: tail_def Let_def)
      have b: "nat low \<le> nat high" "nat high < getSize c"
        using inner Cons.prems(3) True by (auto simp: w_def)
      have "take_bit (nat high - nat low + 1) (drop_bit (nat low) ?V) = take_bit (nat high - nat low + 1) (drop_bit (nat low) (val G m c))"
        using b by (intro low_part [OF sp(2)]) (simp add: w_def)
      then show ?thesis
        unfolding res using extract_term_simps [OF c(1) b] by simp
    next
      case across
      have res: "extract_concat_loop (c # rest) high low = mkExtract c (w - 1) (nat low) # tail"
        using True across c(2) by (auto simp: tail_def Let_def nat_minus_as_int)
      have b: "nat low \<le> w - 1" "w - 1 < getSize c" "nat low < w"
        using across bv_term_width(1) [OF c(1)] by (auto simp: w_def)
      note e = extract_term_simps [OF c(1) b(1,2)]
      have k: "w - 1 - nat low + 1 = w - nat low" "nat high - nat low + 1 = (w - nat low) + (nat (high - int w) + 1)"
        using b(3) across by simp_all
      have "take_bit (nat high - nat low + 1) (drop_bit (nat low) ?V) =
          take_bit (w - nat low) (drop_bit (nat low) ?V) + 2 ^ (w - nat low) * take_bit (nat (high - int w) + 1) (drop_bit (w - nat low) (drop_bit (nat low) ?V))"
        unfolding k(2) by (rule take_bit_halves)
      moreover have "drop_bit (w - nat low) (drop_bit (nat low) ?V) = ?R"
        using b(3) sp(1) by (simp add: drop_bit_drop_bit)
      moreover have "take_bit (w - nat low) (drop_bit (nat low) ?V) = take_bit (w - nat low) (drop_bit (nat low) (val G m c))"
        using b(3) by (intro low_part [OF sp(2)]) simp
      ultimately show ?thesis
        unfolding res using IH across e k by (simp add: mult.commute)
    qed
  qed
qed simp

lemma ExtractConcat_sound:
  assumes "ExtractConcat_applies n" "getSize (child n 0) < 2 ^ 31"
  shows "rewrites_to G n (ExtractConcat n)"
proof (rule rewrites_extract)
  fix x h l
  assume n: "n = mkExtract x h l" and x: "bv_term x" and b: "l \<le> h" "h < getSize x"
  obtain ns where ns: "x = mkNode K_BITVECTOR_CONCAT ns"
    using assms(1) by (auto simp: n ExtractConcat_applies_def elim: isKind_cases)
  note c = concat_children [OF bv_termD(2,1) [OF x, unfolded ns]]
  have sz: "getSize x = cat_size ns" "val G m x = cat_val G m ns" for m
    using c unfolding ns by (auto intro: concat_list_term(2) val_concat_list)
  have lim: "cat_size ns < 2 ^ 31"
    using assms(2) sz(1) by (simp add: n)
  let ?res = "extract_concat_loop (rev ns) (int h) (int l)"
  have "(\<forall>a\<in>set ?res. bv_term a) \<and>
    (0 \<le> int h \<longrightarrow> ?res \<noteq> [] \<and> cat_size (rev ?res) = nat (int h) - nat (int l) + 1 \<and>
      cat_val G m (rev ?res) = take_bit (nat (int h) - nat (int l) + 1) (drop_bit (nat (int l)) (cat_val G m (rev (rev ns)))))" for m
    using c(2) b sz(1) lim by (intro extract_concat_loop) (simp_all flip: rev_map)
  then have r: "?res \<noteq> []" "\<forall>a\<in>set (rev ?res). bv_term a" "cat_size (rev ?res) = h - l + 1"
    "cat_val G m (rev ?res) = take_bit (h - l + 1) (drop_bit l (cat_val G m ns))" for m
    by simp_all
  have eq: "ExtractConcat n = mkConcat_vector (rev ?res)"
    using b sz(1) lim by (simp add: ExtractConcat_def n ns s32_id)
  have "rev ?res \<noteq> []" "cat_size (rev ?res) < 2 ^ 32"
    using r(1,3) b sz(1) lim by simp_all
  note m = mkConcat_list [OF this(1) r(2) this(2)]
  show "bv_term (ExtractConcat n) \<and> getSize (ExtractConcat n) = h - l + 1 \<and>
      (\<forall>m. val G m (ExtractConcat n) = take_bit (h - l + 1) (drop_bit l (val G m x)))"
    unfolding eq sz(2) using m r(3,4) by simp
qed (use assms(1) in \<open>simp add: ExtractConcat_applies_def\<close>)

end

end
