(* ===== verification/Bv_Extend_Rules.thy ===== *)
theory Bv_Extend_Rules
  imports Bv_Extract_Rules
begin

text \<open>
  Soundness of the rules on wide products, equalities and extensions.
\<close>

context gmp_documented
begin

section \<open>Wide products\<close>

lemma leading_zeroes_bound:
  assumes "bv_term (mkNode K_BITVECTOR_CONCAT ns)" "isConst (ns ! 0)"
  shows "val G m (mkNode K_BITVECTOR_CONCAT ns) < 2 ^ (getSize (mkNode K_BITVECTOR_CONCAT ns) - leading_zeroes G (ns ! 0))"
    "leading_zeroes G (ns ! 0) \<le> getSize (mkNode K_BITVECTOR_CONCAT ns)"
proof -
  note c = concat_children [OF bv_termD(2,1) [OF assms(1)]]
  obtain d r where ns: "ns = d # r"
    using c(1) by (cases ns) auto
  have d: "bv_term d" "\<forall>a\<in>set r. bv_term a"
    using c(2) by (simp_all add: ns)
  have sz: "getSize (mkNode K_BITVECTOR_CONCAT ns) = getSize d + cat_size r"
    using concat_list_term(2) [OF c(1,2,4)] by (simp add: ns)
  have v: "val G m (mkNode K_BITVECTOR_CONCAT ns) = val G m d * 2 ^ cat_size r + cat_val G m r"
    using val_concat_list [of ns m] c(2,4) by (simp add: ns)
  have r: "cat_val G m r < 2 ^ cat_size r"
    using cat_val_bounds [OF d(2), of m] by simp
  obtain b where b: "d = CONST_BITVECTOR b"
    using const_bv_term [OF d(1)] assms(2) by (auto simp: ns)
  define i where "i = val G m d"
  have i: "bv_toInteger (getConst (ns ! 0)) = i" "0 \<le> i" "i < 2 ^ getSize d"
    using val_bounds(1,2) [OF d(1), of m] by (simp_all add: i_def ns b term_simps bv_toInteger_def)
  have "val G m (mkNode K_BITVECTOR_CONCAT ns) < 2 ^ (getSize d + cat_size r - leading_zeroes G d) \<and> leading_zeroes G d \<le> getSize d"
  proof (cases "i = 0")
    case True
    then show ?thesis
      using r i(1) v by (simp add: leading_zeroes_def ns i_def)
  next
    case False
    let ?len = "length_Integer G i"
    have len: "2 ^ (?len - 1) \<le> i" "i < 2 ^ ?len"
      using length_Integer_bounds [of i] False i(2) by auto
    have "(2 :: int) ^ (?len - 1) < 2 ^ getSize d"
      using len(1) i(3) by (rule order_le_less_trans)
    then have l: "?len \<le> getSize d"
      by simp
    have z: "leading_zeroes G d = getSize d - ?len"
      using False i(1) by (simp add: leading_zeroes_def ns Let_def)
    have "(i + 1) * 2 ^ cat_size r \<le> 2 ^ ?len * 2 ^ cat_size r"
      using len(2) by (intro mult_right_mono) auto
    then have "val G m (mkNode K_BITVECTOR_CONCAT ns) < 2 ^ (?len + cat_size r)"
      using r v by (simp add: i_def power_add algebra_simps)
    moreover have "getSize d + cat_size r - (getSize d - ?len) = ?len + cat_size r"
      using l by simp
    ultimately show ?thesis
      by (simp add: z)
  qed
  then show "val G m (mkNode K_BITVECTOR_CONCAT ns) < 2 ^ (getSize (mkNode K_BITVECTOR_CONCAT ns) - leading_zeroes G (ns ! 0))"
    "leading_zeroes G (ns ! 0) \<le> getSize (mkNode K_BITVECTOR_CONCAT ns)"
    unfolding sz by (simp_all add: ns)
qed

lemma ExtractMultLeadingBit_sound:
  assumes "ExtractMultLeadingBit_applies G n" "getSize (child n 0) < 2 ^ 31"
  shows "rewrites_to G n (ExtractMultLeadingBit G n)"
proof (rule rewrites_extract)
  fix x h l
  assume n: "n = mkExtract x h l" and x: "bv_term x" and b: "l \<le> h" "h < getSize x"
  note a = assms(1) [unfolded ExtractMultLeadingBit_applies_def n, simplified, unfolded Let_def]
  obtain p q where pq: "x = mkNode K_BITVECTOR_MULT [p, q]"
    using a by (auto simp: length_Suc_conv numeral_2_eq_2 elim!: isKindE)
  obtain ps qs where p: "p = mkNode K_BITVECTOR_CONCAT ps" and q: "q = mkNode K_BITVECTOR_CONCAT qs"
    using a by (auto simp: pq child_def elim!: isKindE)
  define w where "w = getSize x"
  have t: "bv_term p" "bv_term q" "getSize p = w" "getSize q = w"
    using nary_children(2) [OF bv_termD(2,1) [OF x, unfolded pq]] by (auto simp: w_def pq)
  have c: "isConst (ps ! 0)" "isConst (qs ! 0)"
    using a by (simp_all add: pq p q child_def)
  define y z where "y = leading_zeroes G (ps ! 0)" and "z = leading_zeroes G (qs ! 0)"
  have yz: "val G m p < 2 ^ (w - y)" "val G m q < 2 ^ (w - z)" "y \<le> w" "z \<le> w" for m
    using leading_zeroes_bound(1) [OF t(1) [unfolded p] c(1), of m] leading_zeroes_bound(1) [OF t(2) [unfolded q] c(2), of m]
      leading_zeroes_bound(2) [OF t(1) [unfolded p] c(1)] leading_zeroes_bound(2) [OF t(2) [unfolded q] c(2)] t(3,4)
    by (simp_all add: p q y_def z_def)
  have "w < 2 ^ 31"
    using assms(2) by (simp add: n w_def)
  then have "u32_sub (u32 (2 * w)) (u32 (y + z)) = 2 * w - (y + z)"
    using yz(3,4) by simp
  moreover have "\<not> u32_sub (u32 (2 * w)) (u32 (y + z)) > l"
    using a by (simp add: pq p q child_def w_def y_def z_def)
  ultimately have "(w - y) + (w - z) \<le> l"
    using yz(3,4) by simp
  then have small: "val G m p * val G m q < 2 ^ l" for m
  proof -
    assume le: "(w - y) + (w - z) \<le> l"
    have "val G m p * val G m q < 2 ^ (w - y) * 2 ^ (w - z)"
      using yz(1,2) [of m] val_bounds(1) [OF t(1), of m] val_bounds(1) [OF t(2), of m] by (intro mult_strict_mono) auto
    also have "\<dots> \<le> 2 ^ l"
      using le power_increasing [OF le, of "2 :: int"] by (simp add: power_add)
    finally show ?thesis .
  qed
  have "drop_bit l (val G m x) = 0" for m
  proof -
    have "val G m x = take_bit w (val G m p * val G m q)"
      using val_nary(2) [OF t(1,2)] t(3,4) by (simp add: pq)
    moreover have "0 \<le> val G m p * val G m q"
      using val_bounds(1) [OF t(1), of m] val_bounds(1) [OF t(2), of m] by simp
    ultimately have "0 \<le> val G m x" "val G m x < 2 ^ l"
      using small [of m] take_bit_int_less_eq_self_iff [of w "val G m p * val G m q"] by auto
    then show ?thesis
      by (simp add: drop_bit_eq_div)
  qed
  then show "bv_term (ExtractMultLeadingBit G n) \<and> getSize (ExtractMultLeadingBit G n) = h - l + 1 \<and>
      (\<forall>m. val G m (ExtractMultLeadingBit G n) = take_bit (h - l + 1) (drop_bit l (val G m x)))"
    using extract_term_simps(2) [OF x b] mkConst_term [of "h - l + 1"] b bv_term_width(2) [OF x]
    by (simp add: ExtractMultLeadingBit_def n)
qed (use assms(1) in \<open>simp add: ExtractMultLeadingBit_applies_def\<close>)

section \<open>Equality\<close>

lemma rewrites_equal:
  assumes "isKind K_EQUAL n"
    "\<And>a b T. n = mkNode K_EQUAL [a, b] \<Longrightarrow> typed a T \<Longrightarrow> typed b T \<Longrightarrow>
      sentence n' \<and> (\<forall>m. truth G m n' \<longleftrightarrow> eval G m a = eval G m b)"
  shows "rewrites_to G n n'"
proof (rule rewrites_typedI)
  fix T
  assume t: "firstClass n" "getType n = Some T"
  obtain ns where n: "n = mkNode K_EQUAL ns"
    using assms(1) by (rule isKind_cases)
  have "T = BOOLEAN_TYPE"
    using t(2) unfolding n by (auto simp: kind_type_def EqualityTypeRule_def split: if_splits option.splits)
  then have s: "sentence (mkNode K_EQUAL ns)"
    using t unfolding n by (simp add: sentence_def isBoolean_def)
  then obtain a b S where ab: "ns = [a, b]" "typed a S" "typed b S"
    by (auto simp: typed_EQUAL)
  with s assms(2) n truth_EQUAL_eval [OF ab(2,3)] show "rewrites_to G n n'"
    by (intro rewrites_bool) auto
qed

lemma equality_rules_sound:
  "FailEq_applies n \<Longrightarrow> rewrites_to G n (FailEq n)"
  "SimplifyEq_applies n \<Longrightarrow> rewrites_to G n (SimplifyEq n)"
  "ReflexivityEq_applies getId n \<Longrightarrow> rewrites_to G n (ReflexivityEq n)"
proof -
  show "rewrites_to G n (FailEq n)" if "FailEq_applies n"
    using that unfolding FailEq_applies_def
    by (elim conjE, elim rewrites_equal) (auto simp: FailEq_def mkFalse_def child_def dest!: is_const_bv_eq)
  show "rewrites_to G n (SimplifyEq n)" if "SimplifyEq_applies n"
    using that unfolding SimplifyEq_applies_def
    by (elim conjE, elim rewrites_equal) (auto simp: SimplifyEq_def mkTrue_def child_def)
  show "rewrites_to G n (ReflexivityEq n)" if "ReflexivityEq_applies getId n"
    using that unfolding ReflexivityEq_applies_def
    by (elim conjE, elim rewrites_equal) (auto simp: ReflexivityEq_def eqNode_def child_def typed_EQUAL truth_EQUAL_eval)
qed

section \<open>Sign extension\<close>

lemma sval_sign_extend:
  assumes "bv_term x" "getSize x + i < 2 ^ 32"
  shows "sval G m (mkNode (K_BITVECTOR_SIGN_EXTEND i) [x]) = sval G m x"
proof -
  have "signed_take_bit (getSize x + i - 1) (sval G m x) = sval G m x"
    using bv_term_width(1) [OF assms(1)] unfolding sval_def by (cases "i = 0") (simp_all add: signed_take_bit_signed_take_bit min_def)
  then show ?thesis
    using assms bv_term_width(1) [OF assms(1)]
    by (auto simp: sval_def [of G m "mkNode _ _"] term_simps signed_take_bit_take_bit)
qed

lemma sval_zero_extend:
  assumes "bv_term x" "getSize x + i < 2 ^ 32" "0 < i"
  shows "sval G m (mkNode (K_BITVECTOR_ZERO_EXTEND i) [x]) = val G m x"
proof -
  have "(2 :: int) ^ getSize x \<le> 2 ^ (getSize x + i - 1)"
    using assms(3) by (intro power_increasing) auto
  then have "val G m x < 2 ^ (getSize x + i - 1)"
    using val_bounds(2) [OF assms(1), of m] by linarith
  then show ?thesis
    using assms val_bounds(1) [OF assms(1), of m] by (simp add: sval_def term_simps signed_take_bit_int_eq_self)
qed

lemma is_zero_extend_term:
  assumes "is_zero_extend n" "bv_term n"
  obtains x i where "n = mkNode (K_BITVECTOR_ZERO_EXTEND i) [x]" "bv_term x" "getSize x + i < 2 ^ 32"
proof -
  obtain i ns where n: "n = mkNode (K_BITVECTOR_ZERO_EXTEND i) ns"
    using assms(1) by (auto simp: is_zero_extend_def zero_extend_amount_def split: node.splits kind.splits)
  note t = bv_termD [OF assms(2), unfolded n]
  obtain x where x: "ns = [x]" "bv_term x"
    by (rule unary_children [OF t(2,1)]) auto
  have "getSize x + i < 2 ^ 32"
    using t(2) bv_termD(2) [OF x(2)]
    by (auto simp: x(1) kind_type_def BitVectorExtendTypeRule_def checkBvResultSize_def Let_def split: if_splits)
  then show thesis
    using that x by (simp add: n)
qed

lemma zero_extend_payload [simp]:
  "zero_extend_amount (mkNode (K_BITVECTOR_ZERO_EXTEND i) ns) = Some i" "is_zero_extend (mkNode (K_BITVECTOR_ZERO_EXTEND i) ns)"
  "\<not> is_zero_extend (mkNode (K_BITVECTOR_SIGN_EXTEND i) ns)" "\<not> isConst (mkNode k ns)"
  by (simp_all add: is_zero_extend_def zero_extend_amount_def)

lemma extend_not_const: "is_zero_extend n \<Longrightarrow> \<not> isConst n" "is_sign_extend n \<Longrightarrow> \<not> isConst n"
  by (cases n; simp add: is_zero_extend_def zero_extend_amount_def is_sign_extend_def sign_extend_amount_def)+

lemma rewrites_sign_extend:
  assumes "is_sign_extend n"
    "\<And>x i. n = mkNode (K_BITVECTOR_SIGN_EXTEND i) [x] \<Longrightarrow> bv_term x \<Longrightarrow> getSize x + i < 2 ^ 32 \<Longrightarrow>
      bv_term n' \<and> getSize n' = getSize x + i \<and> (\<forall>m. val G m n' = take_bit (getSize x + i) (sval G m x))"
  shows "rewrites_to G n n'"
proof (rule rewrites_typedI)
  fix T
  assume t: "firstClass n" "getType n = Some T"
  obtain i ns where n: "n = mkNode (K_BITVECTOR_SIGN_EXTEND i) ns"
    using assms(1) by (rule is_sign_extendE)
  have "isBitVector T"
    using t(2) unfolding n by (auto simp: kind_type_def BitVectorExtendTypeRule_def Let_def split: if_splits option.splits)
  then have "bv_term n"
    using t by (auto simp: bv_term_def elim!: isBitVectorE)
  then obtain x i where x: "n = mkNode (K_BITVECTOR_SIGN_EXTEND i) [x]" "bv_term x" "getSize x + i < 2 ^ 32"
    by (rule is_sign_extend_term [OF assms(1)])
  from assms(2) [OF x] show "rewrites_to G n n'"
    unfolding x(1) using x(2,3) by (intro rewrites_bv) (simp_all add: term_simps)
qed

lemma MergeSignExtend_sound: "MergeSignExtend_applies n \<Longrightarrow> rewrites_to G n (MergeSignExtend n)"
  unfolding MergeSignExtend_applies_def
proof (elim conjE, erule rewrites_sign_extend)
  fix y i
  assume n: "n = mkNode (K_BITVECTOR_SIGN_EXTEND i) [y]" and y: "bv_term y" "getSize y + i < 2 ^ 32"
    and e: "is_sign_extend (child n 0) \<or> is_zero_extend (child n 0)"
  show "bv_term (MergeSignExtend n) \<and> getSize (MergeSignExtend n) = getSize y + i \<and>
      (\<forall>m. val G m (MergeSignExtend n) = take_bit (getSize y + i) (sval G m y))"
  proof (cases "is_zero_extend y")
    case False
    then have "is_sign_extend y"
      using e by (simp add: n child_def)
    then obtain x j where x: "y = mkNode (K_BITVECTOR_SIGN_EXTEND j) [x]" "bv_term x" "getSize x + j < 2 ^ 32"
      using y(1) by (rule is_sign_extend_term)
    have sz: "getSize y = getSize x + j"
      using x by (simp add: term_simps)
    have "MergeSignExtend n = mkNode (K_BITVECTOR_SIGN_EXTEND (i + j)) [x]"
      by (simp add: MergeSignExtend_def n x(1) child_def mkSignExtend_def)
    then show ?thesis
      using x y(2) sval_sign_extend [OF x(2,3)] unfolding sz by (simp add: x(1) term_simps ac_simps)
  next
    case True
    then obtain x j where x: "y = mkNode (K_BITVECTOR_ZERO_EXTEND j) [x]" "bv_term x" "getSize x + j < 2 ^ 32"
      using y(1) by (rule is_zero_extend_term)
    have sz: "getSize y = getSize x + j"
      using x by (simp add: term_simps)
    show ?thesis
    proof (cases "j = 0")
      case True
      have "sval G m y = sval G m x" for m
        using x True by (simp add: sval_def term_simps)
      moreover have "MergeSignExtend n = mkNode (K_BITVECTOR_SIGN_EXTEND i) [x]"
        using True by (simp add: MergeSignExtend_def n x(1) child_def Let_def)
      ultimately show ?thesis
        using x(2) y(2) sz True by (simp add: term_simps)
    next
      case False
      have "take_bit (getSize x + j + i) (val G m x) = val G m x" for m
      proof (rule take_bit_int_eq_self)
        have "val G m x < 2 ^ getSize x"
          using val_bounds(2) [OF x(2)] .
        also have "(2 :: int) ^ getSize x \<le> 2 ^ (getSize x + j + i)"
          by (intro power_increasing) auto
        finally show "val G m x < 2 ^ (getSize x + j + i)" .
      qed (rule val_bounds(1) [OF x(2)])
      moreover have "MergeSignExtend n = mkNode (K_BITVECTOR_ZERO_EXTEND (i + j)) [x]"
        using False by (simp add: MergeSignExtend_def n x(1) child_def Let_def)
      ultimately show ?thesis
        using x y(2) sval_zero_extend [OF x(2,3)] False unfolding sz by (simp add: x(1) term_simps ac_simps)
    qed
  qed
qed

section \<open>Extensions compared with constants\<close>

lemma const_extract:
  assumes "bv_term c" "isConst c" "l \<le> h" "h < getSize c"
  shows "d_size (bv_extract G (getConst c) h l) = h - l + 1" "bv_term (CONST_BITVECTOR (bv_extract G (getConst c) h l))"
    "getSize (CONST_BITVECTOR (bv_extract G (getConst c) h l)) = h - l + 1"
    "d_value (bv_extract G (getConst c) h l) = take_bit (h - l + 1) (drop_bit l (val G m c))"
    "val G m (CONST_BITVECTOR (bv_extract G (getConst c) h l)) = take_bit (h - l + 1) (drop_bit l (val G m c))"
proof -
  obtain b where c: "c = CONST_BITVECTOR b"
    using const_bv_term [OF assms(1,2)] by blast
  have b: "bv_inv b" "d_size b = getSize c" "val G m c = d_value b"
    using bv_term_value(1,2) [OF assms(1), of m] by (simp_all add: c bvval_const term_simps)
  show s: "d_size (bv_extract G (getConst c) h l) = h - l + 1"
    using assms(3,4) bv_term_width [OF assms(1)] by (simp add: c bv_extract_def)
  show v: "d_value (bv_extract G (getConst c) h l) = take_bit (h - l + 1) (drop_bit l (val G m c))"
    using value_extract [OF b(1) assms(3)] assms(4) b(2,3) by (simp add: c)
  show "bv_term (CONST_BITVECTOR (bv_extract G (getConst c) h l))"
    "getSize (CONST_BITVECTOR (bv_extract G (getConst c) h l)) = h - l + 1"
    using const_term [OF inv_sized(4), of "getConst c" h l] s by simp_all
  show "val G m (CONST_BITVECTOR (bv_extract G (getConst c) h l)) = take_bit (h - l + 1) (drop_bit l (val G m c))"
    using v by (simp add: term_simps)
qed

text \<open>The high and the low part of a constant that is wider than the extended term.\<close>

lemma const_split:
  assumes "bv_term c" "isConst c" "0 < w" "w < getSize c"
  shows "bv_eq (bv_extract G (getConst c) (getSize c - 1) w) (mk_bv G (d_size (bv_extract G (getConst c) (getSize c - 1) w)) 0) \<longleftrightarrow> val G m c < 2 ^ w"
    "val G m c < 2 ^ w \<Longrightarrow> val G m (CONST_BITVECTOR (bv_extract G (getConst c) (w - 1) 0)) = val G m c"
proof -
  have hi: "w \<le> getSize c - 1" "getSize c - 1 < getSize c" "getSize c - 1 - w + 1 = getSize c - w"
    using assms(3,4) by auto
  note h = const_extract [OF assms(1,2) hi(1,2), unfolded hi(3)]
  have "take_bit (getSize c - w) (drop_bit w (val G m c)) = val G m c div 2 ^ w"
    using drop_bit_div [OF assms(1), of w m] assms(4) by simp
  then have "d_value (bv_extract G (getConst c) (getSize c - 1) w) = 0 \<longleftrightarrow> val G m c < 2 ^ w"
    using h(4) [of m] val_bounds(1) [OF assms(1), of m] by (auto simp: zdiv_eq_0_iff)
  then show "bv_eq (bv_extract G (getConst c) (getSize c - 1) w) (mk_bv G (d_size (bv_extract G (getConst c) (getSize c - 1) w)) 0) \<longleftrightarrow> val G m c < 2 ^ w"
    by (simp add: bv_eq_def)
  show "val G m (CONST_BITVECTOR (bv_extract G (getConst c) (w - 1) 0)) = val G m c" if "val G m c < 2 ^ w"
    using const_extract(5) [OF assms(1,2), of 0 "w - 1" m] that assms(3,4) val_bounds(1) [OF assms(1), of m]
    by (simp add: take_bit_int_eq_self)
qed

lemma zero_extend_const:
  assumes "bv_term (mkNode (K_BITVECTOR_ZERO_EXTEND i) [t])" "bv_term c" "isConst c" "getSize c = getSize (mkNode (K_BITVECTOR_ZERO_EXTEND i) [t])"
    "getSize t \<noteq> getSize c"
  shows "bv_term t" "0 < getSize t" "getSize t < getSize c" "val G m (mkNode (K_BITVECTOR_ZERO_EXTEND i) [t]) = val G m t"
    "bv_term (CONST_BITVECTOR (bv_extract G (getConst c) (getSize t - 1) 0))"
    "getSize (CONST_BITVECTOR (bv_extract G (getConst c) (getSize t - 1) 0)) = getSize t"
proof -
  obtain x j where "mkNode (K_BITVECTOR_ZERO_EXTEND i) [t] = mkNode (K_BITVECTOR_ZERO_EXTEND j) [x]" "bv_term x" "getSize x + j < 2 ^ 32"
    by (rule is_zero_extend_term [OF zero_extend_payload(2) assms(1)])
  then have x: "bv_term t" "getSize t + i < 2 ^ 32"
    by simp_all
  have sz: "getSize c = getSize t + i"
    using assms(4) x by (simp add: term_simps)
  show "bv_term t" "0 < getSize t" "getSize t < getSize c" "val G m (mkNode (K_BITVECTOR_ZERO_EXTEND i) [t]) = val G m t"
    using x sz assms(5) bv_term_width(1) [OF x(1)] by (simp_all add: term_simps)
  then show "bv_term (CONST_BITVECTOR (bv_extract G (getConst c) (getSize t - 1) 0))"
    "getSize (CONST_BITVECTOR (bv_extract G (getConst c) (getSize t - 1) 0)) = getSize t"
    using const_extract(2,3) [OF assms(2,3), of 0 "getSize t - 1"] by simp_all
qed

lemma zero_extendE:
  assumes "is_zero_extend p" "bv_term p"
  obtains t i where "p = mkNode (K_BITVECTOR_ZERO_EXTEND i) [t]"
  using assms by (rule is_zero_extend_term)

lemma ZeroExtendUltConst_sound: "ZeroExtendUltConst_applies G n \<Longrightarrow> rewrites_to G n (ZeroExtendUltConst G n)"
  unfolding ZeroExtendUltConst_applies_def
proof (elim conjE, erule rewrites_predicate)
  fix p q
  assume n: "n = mkNode K_BITVECTOR_ULT [p, q]" and pq: "bv_term p" "bv_term q" "getSize p = getSize q"
    and k: "is_zero_extend (child n 0) \<and> isConst (child n 1) \<or> is_zero_extend (child n 1) \<and> isConst (child n 0)"
    and c: "case (if is_zero_extend (child n 0) then (child (child n 0) 0, child n 1) else (child (child n 1) 0, child n 0)) of (t, c) \<Rightarrow>
         let tSize = getSize t; cSize = getSize c
         in tSize \<noteq> cSize \<and>
            (let c_hi = bv_extract G (getConst c) (cSize - 1) tSize; zero = mk_bv G (d_size c_hi) 0 in bv_eq c_hi zero)"
  have ch: "child n 0 = p" "child n 1 = q"
    by (simp_all add: n child_def)
  note k = k [unfolded ch] and c = c [unfolded ch Let_def]
  show "sentence (ZeroExtendUltConst G n) \<and> (\<forall>m. truth G m (ZeroExtendUltConst G n) = truth G m (mkNode K_BITVECTOR_ULT [p, q]))"
  proof (cases "is_zero_extend p")
    case True
    then obtain t i where p: "p = mkNode (K_BITVECTOR_ZERO_EXTEND i) [t]"
      using pq(1) by (rule zero_extendE)
    have q: "isConst q" "getSize t \<noteq> getSize q"
      using k c True p by (auto simp: child_Cons)
    note z = zero_extend_const [OF pq(1) [unfolded p] pq(2) q(1) pq(3) [symmetric, unfolded p] q(2)]
    have "val G m q < 2 ^ getSize t" for m
      using c True const_split(1) [OF pq(2) q(1) z(2,3), of m] p by (simp add: child_Cons)
    note v = const_split(2) [OF pq(2) q(1) z(2,3) this]
    show ?thesis
      using z v pq True unfolding ZeroExtendUltConst_def ch Let_def by (simp add: child_Cons p term_simps)
  next
    case False
    then have "is_zero_extend q"
      using k by simp
    then obtain t i where q: "q = mkNode (K_BITVECTOR_ZERO_EXTEND i) [t]"
      using pq(2) by (rule zero_extendE)
    have p: "isConst p" "getSize t \<noteq> getSize p"
      using k c False q by (auto simp: child_Cons)
    note z = zero_extend_const [OF pq(2) [unfolded q] pq(1) p(1) pq(3) [unfolded q] p(2)]
    have "val G m p < 2 ^ getSize t" for m
      using c False const_split(1) [OF pq(1) p(1) z(2,3), of m] q by (simp add: child_Cons)
    note v = const_split(2) [OF pq(1) p(1) z(2,3) this]
    show ?thesis
      using z v pq False unfolding ZeroExtendUltConst_def ch Let_def by (simp add: child_Cons q term_simps)
  qed
qed simp

lemma typed_bv_term: "bv_term a \<Longrightarrow> typed a T \<Longrightarrow> typed b T \<Longrightarrow> bv_term b \<and> getSize b = getSize a"
  by (auto simp: bv_term_def typed_def getSize_def)

lemma eval_eq_val:
  assumes "bv_term a" "bv_term b" "getSize a = getSize b"
  shows "eval G m a = eval G m b \<longleftrightarrow> val G m a = val G m b"
  using bv_term_value(2,3) [OF assms(1), of m] bv_term_value(2,3) [OF assms(2), of m] assms(3)
  by (auto simp: val_def intro: bitvector.equality)

text \<open>The code has no guard against an extension by zero bits.\<close>

lemma ZeroExtendEqConst_sound:
  assumes "ZeroExtendEqConst_applies n" "zero_extend_amount (child n 0) \<noteq> Some 0" "zero_extend_amount (child n 1) \<noteq> Some 0"
  shows "rewrites_to G n (ZeroExtendEqConst G n)"
proof (rule rewrites_equal)
  show "isKind K_EQUAL n"
    using assms(1) by (simp add: ZeroExtendEqConst_applies_def)
  fix p q T
  assume n: "n = mkNode K_EQUAL [p, q]" and pq: "typed p T" "typed q T"
  have ch: "child n 0 = p" "child n 1 = q"
    by (simp_all add: n child_def)
  obtain z c where zc: "is_zero_extend z" "isConst c" "typed z T" "typed c T" "zero_extend_amount z \<noteq> Some 0"
    and eq: "eval G m p = eval G m q \<longleftrightarrow> eval G m z = eval G m c"
    and r: "(if is_zero_extend p then (child p 0, q) else (child q 0, p)) = (child z 0, c)" for m
  proof (cases "is_zero_extend p")
    case True
    then show ?thesis
      using assms pq extend_not_const unfolding ZeroExtendEqConst_applies_def ch by (intro that [of p q]) auto
  next
    case False
    then show ?thesis
      using assms pq unfolding ZeroExtendEqConst_applies_def ch by (intro that [of q p]) auto
  qed
  have "isBitVector T"
    using zc(1,3) by (auto simp: is_zero_extend_def zero_extend_amount_def typed_def kind_type_def BitVectorExtendTypeRule_def Let_def
        split: node.splits kind.splits if_splits option.splits)
  then have z: "bv_term z"
    using zc(3) by (auto simp: bv_term_def typed_def elim!: isBitVectorE)
  note c = typed_bv_term [OF z zc(3,4)]
  obtain t i where t: "z = mkNode (K_BITVECTOR_ZERO_EXTEND i) [t]" "bv_term t" "getSize t + i < 2 ^ 32"
    by (rule is_zero_extend_term [OF zc(1) z])
  have ne: "getSize t \<noteq> getSize c"
    using zc(5) c t by (simp add: term_simps)
  note e = zero_extend_const [OF z [unfolded t(1)] c [THEN conjunct1] zc(2) c [THEN conjunct2, unfolded t(1)] ne]
  note sp = const_split [OF c [THEN conjunct1] zc(2) e(2,3)]
  have v: "eval G m z = eval G m c \<longleftrightarrow> val G m t = val G m c" for m
    using eval_eq_val [OF z, of c m] c e(4) [of m] by (simp add: t(1))
  let ?hi = "bv_extract G (getConst c) (getSize c - 1) (getSize t)"
  have res: "ZeroExtendEqConst G n = (if bv_eq ?hi (mk_bv G (d_size ?hi) 0)
      then mkNode K_EQUAL [t, CONST_BITVECTOR (bv_extract G (getConst c) (getSize t - 1) 0)] else mkFalse)"
    unfolding ZeroExtendEqConst_def ch r by (simp add: t(1) child_Cons Let_def)
  show "sentence (ZeroExtendEqConst G n) \<and> (\<forall>m. truth G m (ZeroExtendEqConst G n) \<longleftrightarrow> eval G m p = eval G m q)"
  proof (cases "bv_eq ?hi (mk_bv G (d_size ?hi) 0)")
    case True
    have "val G m c < 2 ^ getSize t" for m
      using sp(1) [of m] True by simp
    note lo = sp(2) [OF this]
    show ?thesis
      using True e(1,5,6) lo unfolding res eq v by (simp add: term_simps)
  next
    case False
    have "val G m t \<noteq> val G m c" for m
      using sp(1) [of m] False val_bounds(2) [OF e(1), of m] by auto
    then show ?thesis
      using False unfolding res eq v by (simp add: mkFalse_def)
  qed
qed

end

end
