(* ===== verification/Bv_Signed_Rules.thy ===== *)
theory Bv_Signed_Rules
  imports Bv_Extend_Rules
begin

text \<open>
  Soundness of the rules on sign extensions compared with constants and on the comparison of
  extended products.  The last rule is sound on the terms it is meant for; it also matches terms
  whose two sides extend their factors differently, where it is not.
\<close>

section \<open>Sign extensions as integers\<close>

text \<open>
  \<open>X\<close> is the extended value, \<open>P\<close> its sign bit, \<open>Q\<close> the modulus of the wide type and \<open>v\<close> the constant.
\<close>

lemma sign_extend_compare:
  fixes X P Q v S :: int
  assumes "0 \<le> X" "X < 2 * P" "0 < P" "2 * P \<le> Q" "(2 * P) dvd Q" "0 \<le> v" "v < Q" "S = (if X < P then X else X + Q - 2 * P)"
  shows "P < v \<Longrightarrow> v \<le> Q - P \<Longrightarrow> S < v \<longleftrightarrow> X < P"
    "\<not> (P < v \<and> v \<le> Q - P) \<Longrightarrow> S < v \<longleftrightarrow> X < v mod (2 * P)"
    "P - 1 \<le> v \<Longrightarrow> v \<le> Q - 1 - P \<Longrightarrow> v < S \<longleftrightarrow> P \<le> X"
    "\<not> (P - 1 \<le> v \<and> v \<le> Q - 1 - P) \<Longrightarrow> v < S \<longleftrightarrow> v mod (2 * P) < X"
proof -
  have hi: "v mod (2 * P) = v - (Q - 2 * P)" if "Q - 2 * P \<le> v"
  proof -
    obtain k where Q: "Q = 2 * P * k"
      using assms(5) by (elim dvdE)
    have "v = (v - (Q - 2 * P)) + 2 * P * (k - 1)"
      unfolding Q by (simp add: algebra_simps)
    then have "v mod (2 * P) = (v - (Q - 2 * P)) mod (2 * P)"
      by (metis mod_mult_self2)
    also have "\<dots> = v - (Q - 2 * P)"
      using that assms(3,7) by (intro mod_pos_pos_trivial) auto
    finally show ?thesis .
  qed
  have lo: "v mod (2 * P) = v" if "v < 2 * P"
    using that assms(6) by (simp add: mod_pos_pos_trivial)
  show "S < v \<longleftrightarrow> X < P" if "P < v" "v \<le> Q - P"
    using that assms by auto
  show "v < S \<longleftrightarrow> P \<le> X" if "P - 1 \<le> v" "v \<le> Q - 1 - P"
    using that assms by auto
  show "S < v \<longleftrightarrow> X < v mod (2 * P)" if a: "\<not> (P < v \<and> v \<le> Q - P)"
  proof (cases "v \<le> P")
    case True
    then have "v mod (2 * P) = v"
      using assms(3) by (intro lo) auto
    then show ?thesis
      using True assms by auto
  next
    case False
    then have "v mod (2 * P) = v - (Q - 2 * P)"
      using a assms(3) by (intro hi) auto
    then show ?thesis
      using False a assms by auto
  qed
  show "v < S \<longleftrightarrow> v mod (2 * P) < X" if a: "\<not> (P - 1 \<le> v \<and> v \<le> Q - 1 - P)"
  proof (cases "v < P - 1")
    case True
    then have "v mod (2 * P) = v"
      using assms(3) by (intro lo) auto
    then show ?thesis
      using True assms by auto
  next
    case False
    then have "v mod (2 * P) = v - (Q - 2 * P)"
      using a assms(3) by (intro hi) auto
    then show ?thesis
      using False a assms by auto
  qed
qed

text \<open>The terms the rule builds from \<open>x\<close> and the constant \<open>c\<close>, and the comparisons they stand for.\<close>

abbreviation top_bit_node :: "node \<Rightarrow> node" where
  "top_bit_node x \<equiv> mkExtract x (getSize x - 1) (getSize x - 1)"

abbreviation low_const :: "gmp \<Rightarrow> node \<Rightarrow> node \<Rightarrow> node" where
  "low_const G x c \<equiv> CONST_BITVECTOR (bv_extract G (getConst c) (getSize x - 1) 0)"

context gmp_documented
begin

lemma sign_extend_value:
  assumes "bv_term x" "getSize x + i < 2 ^ 32"
  shows "val G m (mkNode (K_BITVECTOR_SIGN_EXTEND i) [x]) =
    (if val G m x < 2 ^ (getSize x - 1) then val G m x else val G m x + 2 ^ (getSize x + i) - 2 * 2 ^ (getSize x - 1))"
proof -
  let ?w = "getSize x"
  have w: "(2 :: int) * 2 ^ (?w - 1) = 2 ^ ?w"
    using bv_term_width(1) [OF assms(1)] by (simp add: power_eq_if)
  have le: "(2 :: int) ^ ?w \<le> 2 ^ (?w + i)"
    by (intro power_increasing) auto
  note b = val_bounds(1,2) [OF assms(1), of m] and s = sval_val [OF assms(1), of m]
  have v: "val G m (mkNode (K_BITVECTOR_SIGN_EXTEND i) [x]) = sval G m x mod 2 ^ (?w + i)"
    using assms by (simp add: term_simps take_bit_eq_mod)
  show ?thesis
  proof (cases "val G m x < 2 ^ (?w - 1)")
    case True
    then have "sval G m x = val G m x"
      using s by simp
    moreover have "val G m x mod 2 ^ (?w + i) = val G m x"
      using b le by (intro mod_pos_pos_trivial) linarith+
    ultimately show ?thesis
      using True by (simp add: v)
  next
    case False
    then have "sval G m x = val G m x - 2 ^ ?w"
      using s by simp
    moreover have "(val G m x - 2 ^ ?w + 2 ^ (?w + i)) mod 2 ^ (?w + i) = val G m x - 2 ^ ?w + 2 ^ (?w + i)"
      using b le by (intro mod_pos_pos_trivial) linarith+
    ultimately show ?thesis
      using False w by (simp add: v)
  qed
qed

lemma sign_bounds:
  assumes "0 < w" "w \<le> W" "W < 2 ^ 32"
  shows "sign_bounds G W (w - 1) = (u, l) \<Longrightarrow> d_value u = 2 ^ (w - 1) \<and> d_value l = 2 ^ W - 2 ^ (w - 1) \<and>
    d_value (bv_not G u) = 2 ^ W - 1 - 2 ^ (w - 1) \<and> d_value (bv_not G l) = 2 ^ (w - 1) - 1"
proof -
  have lt: "(2 :: int) ^ (w - 1) < 2 ^ W"
    using assms by (intro power_strict_increasing) auto
  let ?z = "bv_default W"
  have z: "bv_inv ?z" "d_size ?z = W" "d_value ?z = 0"
    using assms by (simp_all add: bv_default_def bv_inv_def)
  let ?u = "bv_setBit G ?z (w - 1) True" and ?l = "bv_leftShift G (bv_not G ?z) (mk_bv G W (int (w - 1)))"
  have u: "d_value ?u = 2 ^ (w - 1)" "d_size ?u = W"
    using z by (simp_all add: bv_setBit_def setBit_def setbit set_bit_eq_or push_bit_eq_mult)
  have ones: "d_value (bv_not G ?z) = 2 ^ W - 1" "bv_inv (bv_not G ?z)"
    using z inv_binary(4) [OF z(1)] by (simp_all add: value_not take_bit_not_eq_mask_diff mask_eq_exp_minus_1 take_bit_minus_one_eq_mask)
  have "int (w - 1) < 2 ^ W"
    using assms(1,2) less_exp [of W] by (metis diff_less less_le_trans less_trans of_nat_less_iff of_nat_numeral of_nat_power zero_less_one)
  then have amt: "d_value (mk_bv G W (int (w - 1))) = int (w - 1)" "bv_inv (mk_bv G W (int (w - 1)))"
    using assms(3) by (simp_all add: take_bit_int_eq_self)
  have "d_value ?l = take_bit W (push_bit (w - 1) (2 ^ W - 1))"
    using value_shl [OF ones(2) amt(2)] ones(1) amt(1) z(2) by simp
  also have "\<dots> = (2 ^ (w - 1) * (2 ^ W - 1)) mod 2 ^ W"
    by (simp add: take_bit_eq_mod push_bit_eq_mult mult.commute)
  also have "\<dots> = (2 ^ W - 2 ^ (w - 1)) mod 2 ^ W"
  proof -
    have "2 ^ (w - 1) * (2 ^ W - 1) = (2 ^ W - 2 ^ (w - 1)) + (2 ^ (w - 1) - 1) * (2 :: int) ^ W"
      by (simp add: algebra_simps)
    then show ?thesis
      by (simp only: mod_mult_self1)
  qed
  also have "\<dots> = 2 ^ W - 2 ^ (w - 1)"
    using lt by (intro mod_pos_pos_trivial) auto
  finally have l: "d_value ?l = 2 ^ W - 2 ^ (w - 1)" "d_size ?l = W"
    using z(2) by simp_all
  have neg: "d_value (bv_not G b) = 2 ^ W - 1 - d_value b" if "0 \<le> d_value b" "d_value b < 2 ^ W" "d_size b = W" for b
    using that by (simp add: value_not take_bit_not_eq_mask_diff mask_eq_exp_minus_1 take_bit_int_eq_self)
  have "d_value (bv_not G ?u) = 2 ^ W - 1 - 2 ^ (w - 1)" "d_value (bv_not G ?l) = 2 ^ (w - 1) - 1"
    using neg [of ?u] neg [of ?l] u l lt by simp_all
  then show "sign_bounds G W (w - 1) = (u, l) \<Longrightarrow> d_value u = 2 ^ (w - 1) \<and> d_value l = 2 ^ W - 2 ^ (w - 1) \<and>
    d_value (bv_not G u) = 2 ^ W - 1 - 2 ^ (w - 1) \<and> d_value (bv_not G l) = 2 ^ (w - 1) - 1"
    using u l by (auto simp: sign_bounds_def)
qed

lemma sign_extendE:
  assumes "is_sign_extend p" "bv_term p"
  obtains x i where "p = mkNode (K_BITVECTOR_SIGN_EXTEND i) [x]" "bv_term x" "getSize x + i < 2 ^ 32" "getSize p = getSize x + i"
proof -
  obtain x i where x: "p = mkNode (K_BITVECTOR_SIGN_EXTEND i) [x]" "bv_term x" "getSize x + i < 2 ^ 32"
    by (rule is_sign_extend_term [OF assms])
  then show thesis
    using that sign_extend_term [OF x(2,3)] by simp
qed

lemma top_bit_node:
  assumes "bv_term x"
  shows "bv_term (top_bit_node x)" "getSize (top_bit_node x) = 1" "val G m (top_bit_node x) = of_bool (2 ^ (getSize x - 1) \<le> val G m x)"
proof -
  have w: "getSize x - 1 \<le> getSize x - 1" "getSize x - 1 < getSize x"
    using bv_term_width(1) [OF assms] by auto
  note e = extract_term_simps [OF assms w]
  show "bv_term (top_bit_node x)" "getSize (top_bit_node x) = 1"
    using e(1,2) by simp_all
  have "val G m (top_bit_node x) = drop_bit (getSize x - 1) (val G m x) mod 2"
    unfolding e(3) by (simp add: take_bit_eq_mod)
  then show "val G m (top_bit_node x) = of_bool (2 ^ (getSize x - 1) \<le> val G m x)"
    using sval_val(2) [OF assms, of m] by (simp add: drop_bit_mod_2)
qed

lemma sign_const:
  assumes "bv_term x" "getSize x + i < 2 ^ 32" "bv_term c" "isConst c" "getSize c = getSize x + i"
  defines "p \<equiv> 2 ^ (getSize x - 1)" and "q \<equiv> 2 ^ getSize c" and "S \<equiv> mkNode (K_BITVECTOR_SIGN_EXTEND i) [x]"
  shows "bv_term (low_const G x c)" "getSize (low_const G x c) = getSize x"
    "p < val G m c \<Longrightarrow> val G m c \<le> q - p \<Longrightarrow> val G m S < val G m c \<longleftrightarrow> val G m x < p"
    "\<not> (p < val G m c \<and> val G m c \<le> q - p) \<Longrightarrow> val G m S < val G m c \<longleftrightarrow> val G m x < val G m (low_const G x c)"
    "p - 1 \<le> val G m c \<Longrightarrow> val G m c \<le> q - 1 - p \<Longrightarrow> val G m c < val G m S \<longleftrightarrow> p \<le> val G m x"
    "\<not> (p - 1 \<le> val G m c \<and> val G m c \<le> q - 1 - p) \<Longrightarrow> val G m c < val G m S \<longleftrightarrow> val G m (low_const G x c) < val G m x"
proof -
  let ?w = "getSize x"
  have w: "0 < ?w" "?w \<le> getSize c"
    using bv_term_width [OF assms(1)] assms(5) by auto
  have p: "2 * p = 2 ^ ?w"
    using w(1) unfolding p_def by (cases ?w) simp_all
  have P: "0 < p" "2 * p = 2 ^ ?w" "2 * p \<le> q" "2 * p dvd q"
    unfolding p using w(2) by (simp_all add: p_def q_def le_imp_power_dvd)
  note b = val_bounds(1,2) [OF assms(1), of m, folded P(2)] and c = val_bounds(1,2) [OF assms(3), of m, folded q_def]
  have S: "val G m S = (if val G m x < p then val G m x else val G m x + q - 2 * p)"
    using sign_extend_value [OF assms(1,2), of m] assms(5) by (simp add: S_def p_def q_def)
  show "bv_term (low_const G x c)" "getSize (low_const G x c) = ?w"
    using const_extract(2,3) [OF assms(3,4), of 0 "?w - 1"] w by simp_all
  have lo: "val G m (low_const G x c) = val G m c mod (2 * p)"
    using const_extract(5) [OF assms(3,4), of 0 "?w - 1" m] w P(2) by (simp add: take_bit_eq_mod)
  note cmp = sign_extend_compare [OF b P(1,3,4) c S, folded lo]
  show "p < val G m c \<Longrightarrow> val G m c \<le> q - p \<Longrightarrow> val G m S < val G m c \<longleftrightarrow> val G m x < p"
    "\<not> (p < val G m c \<and> val G m c \<le> q - p) \<Longrightarrow> val G m S < val G m c \<longleftrightarrow> val G m x < val G m (low_const G x c)"
    "p - 1 \<le> val G m c \<Longrightarrow> val G m c \<le> q - 1 - p \<Longrightarrow> val G m c < val G m S \<longleftrightarrow> p \<le> val G m x"
    "\<not> (p - 1 \<le> val G m c \<and> val G m c \<le> q - 1 - p) \<Longrightarrow> val G m c < val G m S \<longleftrightarrow> val G m (low_const G x c) < val G m x"
    by (fact cmp)+
qed

lemma sign_bounds_const:
  assumes "bv_term x" "getSize x \<le> getSize c" "bv_term c" "isConst c"
  obtains u l where "sign_bounds G (getSize c) (getSize x - 1) = (u, l)"
    "\<And>m. bv_less u (getConst c) \<longleftrightarrow> 2 ^ (getSize x - 1) < val G m c"
    "\<And>m. bv_less_eq (getConst c) l \<longleftrightarrow> val G m c \<le> 2 ^ getSize c - 2 ^ (getSize x - 1)"
    "\<And>m. bv_less_eq (bv_not G l) (getConst c) \<longleftrightarrow> 2 ^ (getSize x - 1) - 1 \<le> val G m c"
    "\<And>m. bv_less_eq (getConst c) (bv_not G u) \<longleftrightarrow> val G m c \<le> 2 ^ getSize c - 1 - 2 ^ (getSize x - 1)"
proof -
  obtain u l where ul: "sign_bounds G (getSize c) (getSize x - 1) = (u, l)"
    by (cases "sign_bounds G (getSize c) (getSize x - 1)")
  obtain k where k: "c = CONST_BITVECTOR k"
    using const_bv_term [OF assms(3,4)] by blast
  have "val G m c = d_value (getConst c)" for m
    by (simp add: k term_simps)
  then show thesis
    using that [OF ul] sign_bounds [OF bv_term_width(1) [OF assms(1)] assms(2) bv_term_width(2) [OF assms(3)] ul]
    by (simp add: bv_less_def bv_less_eq_def)
qed

lemma bit_constants:
  "bv_term (utils_mkZero G 1)" "getSize (utils_mkZero G 1) = 1" "val G m (utils_mkZero G 1) = 0"
  "bv_term (utils_mkOne G 1)" "getSize (utils_mkOne G 1) = 1" "val G m (utils_mkOne G 1) = 1"
  by (simp_all add: utils_mkZero_def utils_mkOne_def mkConst_term)

lemma SignExtendUltConst_sound: "SignExtendUltConst_applies G n \<Longrightarrow> rewrites_to G n (SignExtendUltConst G n)"
  unfolding SignExtendUltConst_applies_def
proof (elim conjE, erule rewrites_predicate)
  fix p q
  assume n: "n = mkNode K_BITVECTOR_ULT [p, q]" and pq: "bv_term p" "bv_term q" "getSize p = getSize q"
    and "is_sign_extend (child n 0) \<and> isConst (child n 1) \<or> is_sign_extend (child n 1) \<and> isConst (child n 0)"
  moreover have ch: "child n 0 = p" "child n 1 = q"
    by (simp_all add: n child_def)
  ultimately have k: "is_sign_extend p \<and> isConst q \<or> is_sign_extend q \<and> isConst p"
    by (simp only: ch)
  show "sentence (SignExtendUltConst G n) \<and> (\<forall>m. truth G m (SignExtendUltConst G n) = truth G m (mkNode K_BITVECTOR_ULT [p, q]))"
  proof (cases "is_sign_extend p")
    case True
    then have q: "isConst q"
      using k extend_not_const by auto
    obtain x i where x: "p = mkNode (K_BITVECTOR_SIGN_EXTEND i) [x]" "bv_term x" "getSize x + i < 2 ^ 32" "getSize p = getSize x + i"
      using True pq(1) by (rule sign_extendE)
    have sz: "getSize q = getSize x + i" "getSize x \<le> getSize q"
      using x(4) pq(3) by simp_all
    note s = sign_const [OF x(2,3) pq(2) q sz(1)]
    obtain u l where ul: "sign_bounds G (getSize q) (getSize x - 1) = (u, l)"
      "\<And>m. bv_less u (getConst q) \<longleftrightarrow> 2 ^ (getSize x - 1) < val G m q"
      "\<And>m. bv_less_eq (getConst q) l \<longleftrightarrow> val G m q \<le> 2 ^ getSize q - 2 ^ (getSize x - 1)"
      by (rule sign_bounds_const [OF x(2) sz(2) pq(2) q], rule that)
    have res: "SignExtendUltConst G n = (if bv_less u (getConst q) \<and> bv_less_eq (getConst q) l
        then mkNode K_EQUAL [top_bit_node x, utils_mkZero G 1] else mkNode K_BITVECTOR_ULT [x, low_const G x q])"
      unfolding SignExtendUltConst_def ch Let_def using True ul(1) by (simp add: x(1) child_Cons del: One_nat_def)
    show ?thesis
    proof (cases "bv_less u (getConst q) \<and> bv_less_eq (getConst q) l")
      case True
      have "val G m p < val G m q \<longleftrightarrow> val G m x < 2 ^ (getSize x - 1)" for m
        using s(3) [of m] True ul(2,3) [of m] by (simp add: x(1))
      then show ?thesis
        using True top_bit_node [OF x(2)] bit_constants pq unfolding res by (simp add: term_simps not_le del: One_nat_def)
    next
      case False
      have "val G m p < val G m q \<longleftrightarrow> val G m x < val G m (low_const G x q)" for m
        using s(4) [of m] False ul(2,3) [of m] by (simp add: x(1))
      then show ?thesis
        using False s(1,2) x(2) pq unfolding res if_not_P [OF False] by (simp add: val_predicates predicate_term)
    qed
  next
    case False
    then have p: "isConst p" and "is_sign_extend q"
      using k by auto
    then obtain x i where x: "q = mkNode (K_BITVECTOR_SIGN_EXTEND i) [x]" "bv_term x" "getSize x + i < 2 ^ 32" "getSize q = getSize x + i"
      using pq(2) by (auto elim: sign_extendE)
    have sz: "getSize p = getSize x + i" "getSize x \<le> getSize p"
      using x(4) pq(3) by simp_all
    note s = sign_const [OF x(2,3) pq(1) p sz(1)]
    obtain u l where ul: "sign_bounds G (getSize p) (getSize x - 1) = (u, l)"
      "\<And>m. bv_less_eq (bv_not G l) (getConst p) \<longleftrightarrow> 2 ^ (getSize x - 1) - 1 \<le> val G m p"
      "\<And>m. bv_less_eq (getConst p) (bv_not G u) \<longleftrightarrow> val G m p \<le> 2 ^ getSize p - 1 - 2 ^ (getSize x - 1)"
      by (rule sign_bounds_const [OF x(2) sz(2) pq(1) p], rule that)
    have res: "SignExtendUltConst G n = (if bv_less_eq (bv_not G l) (getConst p) \<and> bv_less_eq (getConst p) (bv_not G u)
        then mkNode K_EQUAL [top_bit_node x, utils_mkOne G 1] else mkNode K_BITVECTOR_ULT [low_const G x p, x])"
      unfolding SignExtendUltConst_def ch Let_def using False ul(1) by (simp add: x(1) child_Cons del: One_nat_def)
    show ?thesis
    proof (cases "bv_less_eq (bv_not G l) (getConst p) \<and> bv_less_eq (getConst p) (bv_not G u)")
      case True
      have "val G m p < val G m q \<longleftrightarrow> 2 ^ (getSize x - 1) \<le> val G m x" for m
        using s(5) [of m] True ul(2,3) [of m] by (simp add: x(1))
      then show ?thesis
        using True top_bit_node [OF x(2)] bit_constants pq unfolding res by (simp add: term_simps del: One_nat_def)
    next
      case False
      have "val G m p < val G m q \<longleftrightarrow> val G m (low_const G x p) < val G m x" for m
        using s(6) [of m] False ul(2,3) [of m] by (simp add: x(1))
      then show ?thesis
        using False s(1,2) x(2) pq unfolding res if_not_P [OF False] by (simp add: val_predicates predicate_term)
    qed
  qed
qed simp

lemma sign_const_equal:
  assumes "bv_term x" "getSize x + i < 2 ^ 32" "bv_term c" "isConst c" "getSize c = getSize x + i"
  defines "p \<equiv> 2 ^ (getSize x - 1)" and "q \<equiv> 2 ^ getSize c" and "S \<equiv> mkNode (K_BITVECTOR_SIGN_EXTEND i) [x]"
    and "hi \<equiv> bv_extract G (getConst c) (getSize c - 1) (getSize x - 1)"
  shows "bv_eq hi (mk_bv G (d_size hi) 0) \<or> bv_eq hi (bv_not G (mk_bv G (d_size hi) 0)) \<longleftrightarrow> val G m c < p \<or> q - p \<le> val G m c"
    "val G m c < p \<or> q - p \<le> val G m c \<Longrightarrow> val G m S = val G m c \<longleftrightarrow> val G m x = val G m (low_const G x c)"
    "\<not> (val G m c < p \<or> q - p \<le> val G m c) \<Longrightarrow> val G m S \<noteq> val G m c"
proof -
  let ?w = "getSize x" and ?v = "val G m c"
  define k where "k = getSize c - (?w - 1)"
  have w: "0 < ?w" "?w \<le> getSize c" "?w - 1 \<le> getSize c - 1" "getSize c - 1 < getSize c" "getSize c - 1 - (?w - 1) + 1 = k"
    using bv_term_width [OF assms(1)] assms(5) by (auto simp: k_def)
  have p1: "2 * p = 2 ^ ?w"
    using w(1) unfolding p_def by (cases ?w) simp_all
  have "?w - 1 + k = getSize c"
    using w(1,2) by (simp add: k_def)
  then have p: "2 * p = 2 ^ ?w" "0 < p" "2 * p \<le> q" "q = p * 2 ^ k"
    unfolding p1 using w(2) by (simp_all add: p_def q_def flip: power_add)
  note h = const_extract(1) [OF assms(3,4) w(3,4), folded hi_def, unfolded w(5)]
    const_extract(4) [OF assms(3,4) w(3,4), of m, folded hi_def, unfolded w(5)]
  have v: "0 \<le> ?v" "?v < q"
    using val_bounds(1,2) [OF assms(3), of m] by (simp_all add: q_def)
  have hi: "d_value hi = ?v div p"
    using h(2) drop_bit_div [OF assms(3), of "?w - 1" m] w(1,2) by (simp add: k_def p_def)
  have ones: "d_value (bv_not G (mk_bv G k 0)) = 2 ^ k - 1"
    by (simp add: value_not take_bit_not_eq_mask_diff mask_eq_exp_minus_1 take_bit_minus_one_eq_mask)
  have "?v div p = 0 \<longleftrightarrow> ?v < p"
    using v p(2) by (auto simp: zdiv_eq_0_iff)
  moreover have "?v div p = 2 ^ k - 1 \<longleftrightarrow> q - p \<le> ?v"
  proof -
    have qp: "p * (2 ^ k - 1) = q - p"
      unfolding p(4) by (simp add: algebra_simps)
    have "q - p \<le> ?v" if "?v div p = 2 ^ k - 1"
      using mult_div_mod_eq [of p ?v] pos_mod_sign [OF p(2), of ?v] qp unfolding that by simp
    moreover have "?v div p = 2 ^ k - 1" if "q - p \<le> ?v"
      using that v(2) qp by (intro int_div_pos_eq [of _ _ _ "?v - (q - p)"]) auto
    ultimately show ?thesis
      by blast
  qed
  ultimately show "bv_eq hi (mk_bv G (d_size hi) 0) \<or> bv_eq hi (bv_not G (mk_bv G (d_size hi) 0)) \<longleftrightarrow> ?v < p \<or> q - p \<le> ?v"
    using hi h(1) ones by (simp add: bv_eq_def)
  have S: "val G m S = (if val G m x < p then val G m x else val G m x + q - 2 * p)"
    using sign_extend_value [OF assms(1,2), of m] assms(5) by (simp add: S_def p_def q_def)
  have X: "0 \<le> val G m x" "val G m x < 2 * p"
    using val_bounds(1,2) [OF assms(1), of m] p(1) by simp_all
  have lo: "val G m (low_const G x c) = ?v mod (2 * p)"
    using const_extract(5) [OF assms(3,4), of 0 "?w - 1" m] w(1,2) p(1) by (simp add: take_bit_eq_mod)
  show "val G m S \<noteq> ?v" if "\<not> (?v < p \<or> q - p \<le> ?v)"
    using that S X by auto
  show "val G m S = ?v \<longleftrightarrow> val G m x = val G m (low_const G x c)" if "?v < p \<or> q - p \<le> ?v"
    using that
  proof
    assume "?v < p"
    then show ?thesis
      using S X v p unfolding lo by (auto simp: mod_pos_pos_trivial)
  next
    assume a: "q - p \<le> ?v"
    have "q = 2 * p * 2 ^ (k - 1)"
      using p(4) w(1,2) by (cases k) (simp_all add: k_def)
    then have "?v = (?v - (q - 2 * p)) + 2 * p * (2 ^ (k - 1) - 1)"
      by (simp add: algebra_simps)
    then have "?v mod (2 * p) = (?v - (q - 2 * p)) mod (2 * p)"
      by (metis mod_mult_self2)
    also have "\<dots> = ?v - (q - 2 * p)"
      using a p(2) v(2) by (intro mod_pos_pos_trivial) auto
    finally show ?thesis
      using a S X v p unfolding lo by auto
  qed
qed

lemma SignExtendEqConst_sound: "SignExtendEqConst_applies n \<Longrightarrow> rewrites_to G n (SignExtendEqConst G n)"
proof (rule rewrites_equal)
  assume a: "SignExtendEqConst_applies n"
  show "isKind K_EQUAL n"
    using a by (simp add: SignExtendEqConst_applies_def)
  fix p q T
  assume n: "n = mkNode K_EQUAL [p, q]" and pq: "typed p T" "typed q T"
  have ch: "child n 0 = p" "child n 1 = q"
    by (simp_all add: n child_def)
  obtain z c where zc: "is_sign_extend z" "isConst c" "typed z T" "typed c T"
    and eq: "eval G m p = eval G m q \<longleftrightarrow> eval G m z = eval G m c"
    and r: "(if is_sign_extend p then (child p 0, q) else (child q 0, p)) = (child z 0, c)" for m
  proof (cases "is_sign_extend p")
    case True
    then show ?thesis
      using a pq extend_not_const unfolding SignExtendEqConst_applies_def ch by (intro that [of p q]) auto
  next
    case False
    then show ?thesis
      using a pq unfolding SignExtendEqConst_applies_def ch by (intro that [of q p]) auto
  qed
  have "isBitVector T"
    using zc(1,3) by (auto simp: typed_def kind_type_def BitVectorExtendTypeRule_def Let_def
        elim!: is_sign_extendE split: if_splits option.splits)
  then have z: "bv_term z"
    using zc(3) by (auto simp: bv_term_def typed_def elim!: isBitVectorE)
  note c = typed_bv_term [OF z zc(3,4)]
  obtain t i where t: "z = mkNode (K_BITVECTOR_SIGN_EXTEND i) [t]" "bv_term t" "getSize t + i < 2 ^ 32" "getSize z = getSize t + i"
    by (rule sign_extendE [OF zc(1) z])
  have sz: "getSize c = getSize t + i"
    using c t(4) by simp
  note e = sign_const_equal [OF t(2,3) c [THEN conjunct1] zc(2) sz] and lo = sign_const(1,2) [OF t(2,3) c [THEN conjunct1] zc(2) sz]
  have v: "eval G m z = eval G m c \<longleftrightarrow> val G m z = val G m c" for m
    using eval_eq_val [OF z, of c m] c by simp
  let ?hi = "bv_extract G (getConst c) (getSize c - 1) (getSize t - 1)"
  let ?test = "bv_eq ?hi (mk_bv G (d_size ?hi) 0) \<or> bv_eq ?hi (bv_not G (mk_bv G (d_size ?hi) 0))"
  have res: "SignExtendEqConst G n = (if ?test then mkNode K_EQUAL [t, low_const G t c] else mkFalse)"
    unfolding SignExtendEqConst_def ch r by (simp add: t(1) child_Cons Let_def)
  show "sentence (SignExtendEqConst G n) \<and> (\<forall>m. truth G m (SignExtendEqConst G n) \<longleftrightarrow> eval G m p = eval G m q)"
  proof (cases ?test)
    case True
    have "val G m z = val G m c \<longleftrightarrow> val G m t = val G m (low_const G t c)" for m
      using e(1) [of m] e(2) [of m] True by (simp add: t(1))
    then show ?thesis
      using True t(2) lo unfolding res eq v if_P [OF True] by (simp add: val_predicates predicate_term)
  next
    case False
    have "val G m z \<noteq> val G m c" for m
      using e(1) [of m] e(3) [of m] False by (simp add: t(1))
    then show ?thesis
      unfolding res eq v if_not_P [OF False] by (simp add: mkFalse_def)
  qed
qed

section \<open>Comparison of extended products\<close>

text \<open>
  The terms the rule is meant for: both products extend the common factor the same way, and the
  sum is extended the way the other factor of the right product is.
\<close>

lemma int_mult_less:
  fixes A X a :: int
  shows "A * a < X * a \<longleftrightarrow> A \<noteq> X \<and> a \<noteq> 0 \<and> (A < X \<longleftrightarrow> 0 < a)"
  by (cases a "0 :: int" rule: linorder_cases) (auto simp: mult_less_cancel_right)

end

definition MultSltMult_intended :: "gmp \<Rightarrow> node \<Rightarrow> bool" where
  "MultSltMult_intended G n =
     (list_all (\<lambda>c. isKind K_BITVECTOR_CONCAT c \<longrightarrow> length (children c) = 2) (children (child n 0) @ children (child n 1)) \<and>
      (case (extract_ext_tuple G (child n 0), extract_ext_tuple G (child n 1)) of
         (Some (ml0, ml1, is_sext), Some (mr0, mr1, _)) \<Rightarrow> is_sext \<or> isKind K_BITVECTOR_ADD ml0 \<and> mr0 \<noteq> ml1
       | _ \<Rightarrow> True))"

context gmp_documented
begin

lemma product_exact:
  assumes "bv_term (mkNode K_BITVECTOR_MULT [u, v])" "getSize (mkNode K_BITVECTOR_MULT [u, v]) = w"
    "val G m u mod 2 ^ w = U mod 2 ^ w" "val G m v mod 2 ^ w = V mod 2 ^ w" "\<bar>U\<bar> \<le> A" "\<bar>V\<bar> \<le> B" "A * B < 2 ^ (w - 1)"
  shows "sval G m (mkNode K_BITVECTOR_MULT [u, v]) = U * V"
proof -
  have uv: "bv_term u" "bv_term v" "getSize u = w" "getSize v = w"
    using nary_children(2) [OF bv_termD(2,1) [OF assms(1)]] assms(2) by auto
  have "val G m (mkNode K_BITVECTOR_MULT [u, v]) = (val G m u * val G m v) mod 2 ^ w"
    using val_nary(2) [OF uv(1,2), of m] uv(3,4) by (simp add: take_bit_eq_mod)
  also have "\<dots> = (U * V) mod 2 ^ w"
    using assms(3,4) by (metis mod_mult_eq)
  finally have "sval G m (mkNode K_BITVECTOR_MULT [u, v]) = signed_take_bit (w - 1) (U * V)"
    using sval_wrap [OF assms(1), of m "U * V"] assms(2) by (simp add: take_bit_eq_mod)
  moreover have "\<bar>U * V\<bar> < 2 ^ (w - 1)"
  proof -
    have "\<bar>U\<bar> * \<bar>V\<bar> \<le> A * B"
      using assms(5,6) by (intro mult_mono) auto
    then show ?thesis
      using assms(7) by (simp add: abs_mult)
  qed
  ultimately show ?thesis
    by (simp add: signed_take_bit_int_eq_self)
qed

lemma sign_factor:
  assumes "is_sign_extend b" "bv_term b" "getSize (child b 0) \<le> getSignExtendAmount b"
  shows "bv_term (child b 0)" "2 * getSize (child b 0) \<le> getSize b"
    "val G m b mod 2 ^ getSize b = sval G m (child b 0) mod 2 ^ getSize b"
proof -
  obtain x i where x: "b = mkNode (K_BITVECTOR_SIGN_EXTEND i) [x]" "bv_term x" "getSize x + i < 2 ^ 32" "getSize b = getSize x + i"
    using assms(1,2) by (rule sign_extendE)
  then show "bv_term (child b 0)" "2 * getSize (child b 0) \<le> getSize b"
    "val G m b mod 2 ^ getSize b = sval G m (child b 0) mod 2 ^ getSize b"
    using assms(3) by (simp_all add: child_Cons term_simps take_bit_eq_mod)
qed

lemma zero_factor:
  assumes "isKind K_BITVECTOR_CONCAT a" "bv_term a" "length (children a) = 2" "child a 0 = utils_mkZero G (getSize (child a 0))"
    "getSize (child a 1) \<le> getSize (child a 0)"
  shows "bv_term (child a 1)" "2 * getSize (child a 1) \<le> getSize a" "val G m a = val G m (child a 1)"
proof -
  obtain z y where a: "a = mkNode K_BITVECTOR_CONCAT [z, y]"
    using assms(1,3) by (auto simp: length_Suc_conv numeral_2_eq_2 elim!: isKindE)
  note c = concat_children [OF bv_termD(2,1) [OF assms(2), unfolded a]]
  have zy: "bv_term z" "bv_term y" "getSize z + getSize y < 2 ^ 32" "getSize a = getSize z + getSize y"
    using c concat_list_term(2) [OF c(1,2,4)] by (simp_all add: a)
  have z: "z = utils_mkZero G (getSize z)"
    using assms(4) by (simp add: a child_def)
  have "val G m z = 0"
    using bv_term_width [OF zy(1)] by (subst z) (simp add: utils_mkZero_def mkConst_term)
  then show "bv_term (child a 1)" "2 * getSize (child a 1) \<le> getSize a" "val G m a = val G m (child a 1)"
    using zy assms(5) by (simp_all add: a child_def val_sized)
qed

lemma factor_bounds:
  assumes "bv_term x"
  shows "\<bar>sval G m x\<bar> \<le> 2 ^ (getSize x - 1)" "\<bar>sval G m x\<bar> \<le> 2 ^ getSize x - 1" "\<bar>val G m x\<bar> \<le> 2 ^ getSize x - 1"
proof -
  have w: "(2 :: int) ^ getSize x = 2 * 2 ^ (getSize x - 1)"
    using bv_term_width(1) [OF assms] by (cases "getSize x") simp_all
  show a: "\<bar>sval G m x\<bar> \<le> 2 ^ (getSize x - 1)"
    using sval_bounds(1,2) [OF assms, of m] by simp
  show "\<bar>val G m x\<bar> \<le> 2 ^ getSize x - 1"
    using val_bounds(1,2) [OF assms, of m] by simp
  have "(1 :: int) \<le> 2 ^ (getSize x - 1)"
    by simp
  with a w show "\<bar>sval G m x\<bar> \<le> 2 ^ getSize x - 1"
    by linarith
qed

lemma bound_product:
  assumes "2 * p \<le> w" "2 * q \<le> w" "0 < q"
  shows "(2 ^ p - 1) * 2 ^ (q - 1) < (2 :: int) ^ (w - 1)"
proof -
  have "(2 ^ p - 1) * 2 ^ (q - 1) < (2 :: int) ^ p * 2 ^ (q - 1)"
    by simp
  also have "\<dots> = 2 ^ (p + (q - 1))"
    by (simp add: power_add)
  also have "\<dots> \<le> 2 ^ (w - 1)"
    using assms by (intro power_increasing) auto
  finally show ?thesis .
qed

abbreviation factor :: "model \<Rightarrow> bool \<Rightarrow> node \<Rightarrow> int" where
  "factor m is_sext x \<equiv> if is_sext then sval G m x else val G m x"

lemma product_factors:
  assumes "isKind K_BITVECTOR_MULT M" "bv_term M" "\<not> length (children M) > 2"
    "list_all (\<lambda>c. isKind K_BITVECTOR_CONCAT c \<longrightarrow> length (children c) = 2) (children M)" "extract_ext_tuple G M = Some (p, q, is_sext)"
  shows "bv_term p" "bv_term q" "sval G m M = factor m is_sext p * sval G m q"
proof -
  obtain ns where ns: "M = mkNode K_BITVECTOR_MULT ns"
    using assms(1) by (rule isKind_cases)
  have "length ns = 2"
    using assms(3) nary_children(1) [OF bv_termD(2,1) [OF assms(2), unfolded ns]] by (simp add: ns)
  then obtain u v where M: "M = mkNode K_BITVECTOR_MULT [u, v]"
    by (auto simp: ns length_Suc_conv numeral_2_eq_2)
  define w where "w = getSize M"
  have uv: "bv_term u" "bv_term v" "getSize u = w" "getSize v = w"
    using nary_children(2) [OF bv_termD(2,1) [OF assms(2), unfolded M]] by (auto simp: w_def M)
  have pass: "bv_term p \<and> bv_term q \<and> 2 * getSize p \<le> w \<and> 2 * getSize q \<le> w \<and>
      val G m a mod 2 ^ w = factor m is_sext p mod 2 ^ w \<and> val G m b mod 2 ^ w = sval G m q mod 2 ^ w"
    if "extract_ext_pass G first a b = Some (p, q, is_sext)" "{a, b} = {u, v}" for first a b
  proof -
    have ab: "bv_term a" "bv_term b" "getSize a = w" "getSize b = w" "isKind K_BITVECTOR_CONCAT a \<longrightarrow> length (children a) = 2"
      using that(2) uv assms(4) by (auto simp: M doubleton_eq_iff)
    show ?thesis
    proof (cases "isKind K_BITVECTOR_CONCAT a \<and> is_sign_extend b \<and> child a 0 = utils_mkZero G (getSize (child a 0)) \<and>
         getSize (child a 1) \<le> getSize (child a 0) \<and> getSize (child b 0) \<le> getSignExtendAmount b")
      case True
      then have "p = child a 1" "q = child b 0" "\<not> is_sext"
        using that(1) by (simp_all add: extract_ext_pass_def)
      then show ?thesis
        using True zero_factor [of a] sign_factor [of b] ab by simp
    next
      case False
      then have "p = child a 0" "q = child b 0" "is_sext" "is_sign_extend a" "is_sign_extend b"
        "getSize (child a 0) \<le> getSignExtendAmount a" "getSize (child b 0) \<le> getSignExtendAmount b"
        using that(1) by (auto simp: extract_ext_pass_def split: if_splits)
      then show ?thesis
        using sign_factor [of a] sign_factor [of b] ab by simp
    qed
  qed
  have ch: "child M 0 = u" "child M 1 = v"
    by (simp_all add: M child_def)
  obtain first a b where ab: "extract_ext_pass G first a b = Some (p, q, is_sext)" "a = u \<and> b = v \<or> a = v \<and> b = u"
    using assms(5) unfolding extract_ext_tuple_def ch by (auto split: option.splits)
  have f: "bv_term p" "bv_term q" "2 * getSize p \<le> w" "2 * getSize q \<le> w"
    "val G m a mod 2 ^ w = factor m is_sext p mod 2 ^ w" "val G m b mod 2 ^ w = sval G m q mod 2 ^ w"
    using pass [OF ab(1)] ab(2) by (auto simp: insert_commute)
  show "bv_term p" "bv_term q"
    by (fact f)+
  have P: "\<bar>factor m is_sext p\<bar> \<le> 2 ^ getSize p - 1" and Q: "\<bar>sval G m q\<bar> \<le> 2 ^ (getSize q - 1)"
    and PQ: "(2 ^ getSize p - 1) * 2 ^ (getSize q - 1) < (2 :: int) ^ (w - 1)"
    using factor_bounds [OF f(1), of m] factor_bounds(1) [OF f(2), of m] bound_product [OF f(3,4)] bv_term_width(1) [OF f(2)] by auto
  note M' = assms(2) [unfolded M] w_def [symmetric, unfolded M]
  show "sval G m M = factor m is_sext p * sval G m q"
    using ab(2)
  proof
    assume "a = u \<and> b = v"
    then show ?thesis
      using product_exact [OF M' _ _ P Q PQ] f(5,6) by (simp add: M)
  next
    assume "a = v \<and> b = u"
    then show ?thesis
      using product_exact [OF M' _ _ Q P] f(5,6) PQ by (simp add: M mult.commute)
  qed
qed

lemma difference_zero:
  assumes "bv_term a" "bv_term b" "getSize a = getSize b"
  shows "val G m (mkNode K_BITVECTOR_SUB [a, b]) = 0 \<longleftrightarrow> val G m a = val G m b"
proof -
  have "val G m (mkNode K_BITVECTOR_SUB [a, b]) = 0 \<longleftrightarrow> 2 ^ getSize b dvd val G m a - val G m b"
    using assms by (simp add: val_binary take_bit_eq_mod mod_0_imp_dvd dvd_imp_mod_0 dvd_eq_mod_eq_0)
  also have "\<dots> \<longleftrightarrow> val G m a mod 2 ^ getSize b = val G m b mod 2 ^ getSize b"
    by (simp add: mod_eq_dvd_iff)
  also have "\<dots> \<longleftrightarrow> val G m a = val G m b"
    using val_bounds(3) [OF assms(1), of m] val_bounds(3) [OF assms(2), of m] assms(3) by (simp add: take_bit_eq_mod)
  finally show ?thesis .
qed

lemma sval_inject:
  assumes "bv_term a" "bv_term b" "getSize a = getSize b"
  shows "sval G m a = sval G m b \<longleftrightarrow> val G m a = val G m b"
proof
  assume "sval G m a = sval G m b"
  then show "val G m a = val G m b"
    using sval_bounds(4) [OF assms(1), of m] sval_bounds(4) [OF assms(2), of m] assms(3) by simp
qed (simp add: sval_def assms(3))

text \<open>The term the rule builds.\<close>

lemma product_comparison:
  fixes is_sext :: bool
  assumes "bv_term A" "bv_term X" "getSize A = getSize X" "bv_term a"
  defines "k \<equiv> if is_sext then K_BITVECTOR_SLT else K_BITVECTOR_ULT"
    and "t \<equiv> mkNode K_BITVECTOR_SUB [A, X]"
  defines "r \<equiv> mkNode K_AND [notNode (eqNode t (utils_mkZero G (getSize t))), notNode (eqNode a (utils_mkZero G (getSize a))),
      eqNode (mkNode k [A, X]) (mkNode K_BITVECTOR_SGT [a, utils_mkZero G (getSize a)])]"
  shows "sentence r" "truth G m r \<longleftrightarrow> factor m is_sext A * sval G m a < factor m is_sext X * sval G m a"
proof -
  have t: "bv_term t" "getSize t = getSize X" "val G m t = 0 \<longleftrightarrow> val G m A = val G m X"
    using assms(1-3) difference_zero [OF assms(1-3)] by (simp_all add: t_def term_simps)
  have z: "bv_term (utils_mkZero G w)" "getSize (utils_mkZero G w) = w" "val G m (utils_mkZero G w) = 0" "sval G m (utils_mkZero G w) = 0"
    if "0 < w" "w < 2 ^ 32" for w
    using that by (simp_all add: utils_mkZero_def mkConst_term sval_def)
  note zt = z [OF bv_term_width [OF t(1)]] and za = z [OF bv_term_width [OF assms(4)]]
  have k: "sentence (mkNode k [A, X])" "truth G m (mkNode k [A, X]) \<longleftrightarrow> factor m is_sext A < factor m is_sext X"
    using assms(1-3) by (simp_all add: k_def term_simps)
  have e: "sentence (eqNode t (utils_mkZero G (getSize t)))" "truth G m (eqNode t (utils_mkZero G (getSize t))) \<longleftrightarrow> val G m A = val G m X"
    "sentence (eqNode a (utils_mkZero G (getSize a)))" "truth G m (eqNode a (utils_mkZero G (getSize a))) \<longleftrightarrow> sval G m a = 0"
    using t zt za assms(4) sval_inject [OF assms(4) za(1), of m] by (simp_all add: eqNode_def predicate_term val_predicates)
  have g: "sentence (mkNode K_BITVECTOR_SGT [a, utils_mkZero G (getSize a)])"
    "truth G m (mkNode K_BITVECTOR_SGT [a, utils_mkZero G (getSize a)]) \<longleftrightarrow> 0 < sval G m a"
    using za assms(4) by (simp_all add: predicate_term val_predicates)
  have "sentence (eqNode (mkNode k [A, X]) (mkNode K_BITVECTOR_SGT [a, utils_mkZero G (getSize a)]))"
    using k(1) g(1) unfolding eqNode_def typed_EQUAL typed_sentence [symmetric, of "mkNode k [A, X]"]
      typed_sentence [symmetric, of "mkNode K_BITVECTOR_SGT _"] by blast
  then show "sentence r"
    using e(1,3) by (simp add: r_def sentence_AND_OR)
  have "factor m is_sext A = factor m is_sext X \<longleftrightarrow> val G m A = val G m X"
    using sval_inject [OF assms(1-3), of m] by simp
  then show "truth G m r \<longleftrightarrow> factor m is_sext A * sval G m a < factor m is_sext X * sval G m a"
    unfolding int_mult_less using e(2,4) k g by (simp add: r_def eqNode_def truth_EQUAL_sentence)
qed

lemma MultSltMult_sound:
  assumes "MultSltMult_applies G n" "MultSltMult_intended G n"
  shows "rewrites_to G n (MultSltMult G n)"
proof (rule rewrites_predicate)
  note a = assms(1) [unfolded MultSltMult_applies_def]
  show "isKind K_BITVECTOR_SLT n"
    using a by simp
  fix L R
  assume n: "n = mkNode K_BITVECTOR_SLT [L, R]" and LR: "bv_term L" "bv_term R" "getSize L = getSize R"
  have ch: "child n 0 = L" "child n 1 = R"
    by (simp_all add: n child_def)
  note a = a [unfolded ch] and i = assms(2) [unfolded MultSltMult_intended_def ch]
  obtain ml0 ml1 is_sext where ml: "extract_ext_tuple G L = Some (ml0, ml1, is_sext)"
    using a by (cases "extract_ext_tuple G L") auto
  obtain mr0 mr1 sext_r where mr': "extract_ext_tuple G R = Some (mr0, mr1, sext_r)"
    using a ml by (cases "extract_ext_tuple G R") auto
  have core: "is_sext = sext_r \<and>
      (case (if isKind K_BITVECTOR_ADD ml0 then Some (ml0, ml1) else if isKind K_BITVECTOR_ADD ml1 then Some (ml1, ml0) else None) of
         None \<Rightarrow> False
       | Some (addxt, a) \<Rightarrow> \<not> length (children addxt) > 2 \<and>
           (case (if mr0 = a then Some mr1 else if mr1 = a then Some mr0 else None) of
              None \<Rightarrow> False | Some x \<Rightarrow> child addxt 0 = x \<or> child addxt 1 = x))"
    using a unfolding ml mr' by simp
  then have mr: "extract_ext_tuple G R = Some (mr0, mr1, is_sext)"
    using mr' by simp
  have k: "isKind K_BITVECTOR_MULT L" "isKind K_BITVECTOR_MULT R" "\<not> length (children L) > 2" "\<not> length (children R) > 2"
    "list_all (\<lambda>c. isKind K_BITVECTOR_CONCAT c \<longrightarrow> length (children c) = 2) (children L)"
    "list_all (\<lambda>c. isKind K_BITVECTOR_CONCAT c \<longrightarrow> length (children c) = 2) (children R)"
    using a i by auto
  note l = product_factors [OF k(1) LR(1) k(3,5) ml] and r = product_factors [OF k(2) LR(2) k(4,6) mr]
  obtain A b X where A: "(if isKind K_BITVECTOR_ADD ml0 then (ml0, ml1) else (ml1, ml0)) = (A, b)" "isKind K_BITVECTOR_ADD A"
    and X: "X = (if mr0 = b then mr1 else mr0)" "mr0 = b \<or> mr1 = b" "child A 0 = X \<or> child A 1 = X" "\<not> length (children A) > 2"
    using core by (auto split: if_splits)
  have bv: "bv_term A" "bv_term b" "bv_term X"
    using l(1,2) r(1,2) A(1) X(1) by (auto split: if_splits)
  have "getSize A = getSize X"
  proof -
    obtain ns where ns: "A = mkNode K_BITVECTOR_ADD ns"
      using A(2) by (rule isKind_cases)
    have "2 \<le> length ns" "\<forall>c\<in>set ns. getSize c = getSize A"
      using nary_children(1,2) [OF bv_termD(2,1) [OF bv(1), unfolded ns]] by (auto simp: ns)
    moreover from this(1) have "0 < length ns" "1 < length ns"
      by auto
    then have "ns ! 0 \<in> set ns" "ns ! 1 \<in> set ns"
      using nth_mem by blast+
    ultimately show ?thesis
      using X(3) by (auto simp: ns child_def simp del: One_nat_def)
  qed
  note c = product_comparison [OF bv(1,3) this bv(2), where is_sext = is_sext]
  have "factor m is_sext A * sval G m b = sval G m L \<and> factor m is_sext X * sval G m b = sval G m R" for m
    using l(3) [of m] r(3) [of m] A(1) X(1,2) i ml mr by (auto split: if_splits)
  moreover have "MultSltMult G n = mkNode K_AND [notNode (eqNode (mkNode K_BITVECTOR_SUB [A, X]) (utils_mkZero G (getSize (mkNode K_BITVECTOR_SUB [A, X])))),
      notNode (eqNode b (utils_mkZero G (getSize b))),
      eqNode (mkNode (if is_sext then K_BITVECTOR_SLT else K_BITVECTOR_ULT) [A, X]) (mkNode K_BITVECTOR_SGT [b, utils_mkZero G (getSize b)])]"
    unfolding MultSltMult_def ch ml mr using A(1) X(1) by (simp add: Let_def)
  ultimately show "sentence (MultSltMult G n) \<and> (\<forall>m. truth G m (MultSltMult G n) = truth G m (mkNode K_BITVECTOR_SLT [L, R]))"
    using c LR by (simp add: val_predicates)
qed simp

end

text \<open>
  With the sum in the sign-extended position and the common factor zero-extended the rule compares
  unsigned where the product is signed: for the values 1, 0 and 3 of width 2 the comparison is true
  and the term the rule builds is false.
\<close>

definition slt_example :: "gmp \<Rightarrow> node" where
  "slt_example G =
     (let a = VARIABLE 0 (BITVECTOR_TYPE 2); x = VARIABLE 1 (BITVECTOR_TYPE 2); t = VARIABLE 2 (BITVECTOR_TYPE 2);
          wide_a = mkNode K_BITVECTOR_CONCAT [utils_mkZero G 2, a]
      in mkNode K_BITVECTOR_SLT
           [mkNode K_BITVECTOR_MULT [wide_a, mkNode (K_BITVECTOR_SIGN_EXTEND 2) [mkNode K_BITVECTOR_ADD [x, t]]],
            mkNode K_BITVECTOR_MULT [wide_a, mkNode (K_BITVECTOR_SIGN_EXTEND 2) [x]]])"

definition slt_model :: model where
  "slt_model = prop_model (\<lambda>i. if i = 0 then 1 else if i = 1 then 0 else 3)"

context gmp_documented
begin

lemma variable_term:
  assumes "0 < w" "w < 2 ^ 32"
  shows "bv_term (VARIABLE i (BITVECTOR_TYPE w))" "getSize (VARIABLE i (BITVECTOR_TYPE w)) = w"
    "val G slt_model (VARIABLE i (BITVECTOR_TYPE w)) = take_bit w (if i = 0 then 1 else if i = 1 then 0 else 3)"
  using assms by (simp_all add: bv_term_def getSize_def val_def bvval_def slt_model_def)

lemma slt_example:
  "MultSltMult_applies G (slt_example G)" "sentence (slt_example G)" "truth G slt_model (slt_example G)"
  "\<not> truth G slt_model (MultSltMult G (slt_example G))"
proof -
  let ?a = "VARIABLE 0 (BITVECTOR_TYPE 2)" and ?x = "VARIABLE 1 (BITVECTOR_TYPE 2)" and ?t = "VARIABLE 2 (BITVECTOR_TYPE 2)"
  let ?A = "mkNode K_BITVECTOR_ADD [?x, ?t]" and ?w = "mkNode K_BITVECTOR_CONCAT [utils_mkZero G 2, ?a]"
  let ?L = "mkNode K_BITVECTOR_MULT [?w, mkNode (K_BITVECTOR_SIGN_EXTEND 2) [?A]]"
  let ?R = "mkNode K_BITVECTOR_MULT [?w, mkNode (K_BITVECTOR_SIGN_EXTEND 2) [?x]]"
  have n: "slt_example G = mkNode K_BITVECTOR_SLT [?L, ?R]"
    by (simp add: slt_example_def Let_def)
  have v: "bv_term ?a" "getSize ?a = 2" "val G slt_model ?a = 1" "bv_term ?x" "getSize ?x = 2" "val G slt_model ?x = 0"
    "bv_term ?t" "getSize ?t = 2" "val G slt_model ?t = 3"
    by (simp_all add: variable_term take_bit_eq_mod)
  have z: "bv_term (utils_mkZero G 2)" "getSize (utils_mkZero G 2) = 2"
    by (simp_all add: utils_mkZero_def mkConst_term)
  have A: "bv_term ?A" "getSize ?A = 2" "val G slt_model ?A = 3"
    using v by (simp_all add: term_simps take_bit_eq_mod)
  have w: "bv_term ?w" "getSize ?w = 4"
    using v z by (simp_all add: term_simps)
  have LR: "bv_term ?L" "getSize ?L = 4" "bv_term ?R" "getSize ?R = 4"
    using v A w by (simp_all add: term_simps)
  have ext: "extract_ext_tuple G ?L = Some (?a, ?A, False)" "extract_ext_tuple G ?R = Some (?a, ?x, False)"
    using v z A by (simp_all add: extract_ext_tuple_def extract_ext_pass_def child_def)
  have ch: "child (mkNode K_BITVECTOR_SLT [?L, ?R]) 0 = ?L" "child (mkNode K_BITVECTOR_SLT [?L, ?R]) 1 = ?R"
    by (rule child_Cons)+
  have x: "child ?A 0 = ?x"
    by (rule child_Cons)
  show "MultSltMult_applies G (slt_example G)"
    unfolding MultSltMult_applies_def n ch ext by (simp add: x del: One_nat_def)
  show s: "sentence (slt_example G)"
    using LR by (simp add: n predicate_term)
  have "sval G slt_model ?L = val G slt_model ?a * sval G slt_model ?A" "sval G slt_model ?R = val G slt_model ?a * sval G slt_model ?x"
    using product_factors(3) [OF _ LR(1) _ _ ext(1), of slt_model] product_factors(3) [OF _ LR(3) _ _ ext(2), of slt_model] by simp_all
  moreover have "sval G slt_model ?A = - 1" "sval G slt_model ?x = 0"
    using v A by (simp_all add: sval_def signed_take_bit_Suc)
  ultimately show "truth G slt_model (slt_example G)"
    using LR v(3) by (simp add: n val_predicates)
  have "sval G slt_model ?a = 1"
    using v by (simp add: sval_def signed_take_bit_Suc)
  moreover have "MultSltMult G (slt_example G) = mkNode K_AND [notNode (eqNode (mkNode K_BITVECTOR_SUB [?A, ?x]) (utils_mkZero G (getSize (mkNode K_BITVECTOR_SUB [?A, ?x])))),
      notNode (eqNode ?a (utils_mkZero G (getSize ?a))),
      eqNode (mkNode (if False then K_BITVECTOR_SLT else K_BITVECTOR_ULT) [?A, ?x]) (mkNode K_BITVECTOR_SGT [?a, utils_mkZero G (getSize ?a)])]"
    unfolding MultSltMult_def n ch ext by (simp add: Let_def del: One_nat_def)
  ultimately show "\<not> truth G slt_model (MultSltMult G (slt_example G))"
    using product_comparison(2) [OF A(1) v(4) _ v(1), where is_sext = False and m = slt_model] v A by (simp del: val_predicates)
qed

end

text \<open>
  C40.  The rule \<^verbatim>\<open>MultSltMult\<close> is not sound on every term it applies to: on \<open>slt_example\<close>, where the sum is
  sign-extended and the common factor zero-extended, it replaces a comparison that is true in a model by a
  formula that is false in it.
\<close>

theorem MultSltMult_unsound:
  "MultSltMult_applies gmp_reference (slt_example gmp_reference) \<and>
   \<not> rewrites_to gmp_reference (slt_example gmp_reference) (MultSltMult gmp_reference (slt_example gmp_reference))"
  using gmp_ref.slt_example sentenceD [OF gmp_ref.slt_example(2)] by (metis rewrites_to_def truth_def)

end
