(* ===== verification/Bool_Rewriter.thy ===== *)
theory Bool_Rewriter
  imports Sentences
begin

text \<open>
  The rewriter of the Boolean theory, \<^verbatim>\<open>TheoryBoolRewriter\<close> of
  \<^verbatim>\<open>theory/booleans/theory_bool_rewriter.cpp\<close>: \<^verbatim>\<open>preRewrite\<close>, one definition per kind, with
  \<^verbatim>\<open>flattenNode\<close>, and the negation normal form \<^verbatim>\<open>computeNnfNorm\<close>.

  The identifiers that the node manager gives to nodes are the argument \<open>getId\<close>.
\<close>

section \<open>Flattening\<close>

text \<open>\<^verbatim>\<open>NodeValue::MAX_CHILDREN\<close>.\<close>

definition MAX_CHILDREN :: nat where
  "MAX_CHILDREN = 2 ^ 26 - 1"

text \<open>
  The two loops of \<^verbatim>\<open>flattenNode\<close>: \<open>js\<close> are the children of the current node that are still to be
  looked at, \<open>toProcess\<close> the nodes after the current one. \<open>None\<close> is the return of the trivial node.
\<close>

function flatten_loop ::
  "kind \<Rightarrow> node \<Rightarrow> node list \<Rightarrow> node list \<Rightarrow> node list \<Rightarrow> node list \<Rightarrow> node list option" where
  "flatten_loop k trivialNode [] [] visited childList = Some childList"
| "flatten_loop k trivialNode [] (current # toProcess) visited childList =
     flatten_loop k trivialNode (children current) toProcess visited childList"
| "flatten_loop k trivialNode (c # js) toProcess visited childList =
     (if c \<in> set visited then flatten_loop k trivialNode js toProcess visited childList
      else if c = trivialNode then None
      else if isKind k c then flatten_loop k trivialNode js (toProcess @ [c]) (c # visited) childList
      else flatten_loop k trivialNode js toProcess (c # visited) (childList @ [c]))"
  by pat_completeness auto
termination
proof (relation "measures [\<lambda>(k, t, js, q, v, l). sum_list (map (Suc \<circ> size) (js @ q)), \<lambda>(k, t, js, q, v, l). length js]", goal_cases)
  case (2 k t current q v l)
  have "sum_list (map (Suc \<circ> size) ns) = size_list size ns" for ns :: "node list"
    by (induction ns) simp_all
  then have "sum_list (map (Suc \<circ> size) (children current)) \<le> size current"
    by (cases current) simp_all
  then show ?case by simp
qed auto

text \<open>The pieces of at most \<^verbatim>\<open>MAX_CHILDREN\<close> children each.\<close>

function chunks :: "nat \<Rightarrow> 'a list \<Rightarrow> 'a list list" where
  "chunks c xs = (if xs = [] \<or> c = 0 then [] else take c xs # chunks c (drop c xs))"
  by pat_completeness auto
termination
  by (relation "measure (\<lambda>(c, xs). length xs)") auto

declare chunks.simps [simp del]

fun flattenNode :: "node \<Rightarrow> node \<Rightarrow> node \<Rightarrow> RewriteResponse" where
  "flattenNode (mkNode k ns) trivialNode skipNode =
     (case flatten_loop k trivialNode [] [mkNode k ns] [skipNode] [] of
        None \<Rightarrow> (REWRITE_DONE, trivialNode)
      | Some childList \<Rightarrow>
          if length childList = 0 then (REWRITE_DONE, skipNode)
          else if length childList = 1 then (REWRITE_AGAIN, childList ! 0)
          else if length childList < MAX_CHILDREN then (REWRITE_DONE, mkNode k childList)
          else (REWRITE_DONE, mkNode k (map (mkNode k) (chunks MAX_CHILDREN childList))))"
| "flattenNode n trivialNode skipNode = (REWRITE_DONE, skipNode)"

section \<open>Helpers\<close>

definition equalityParity :: "node \<Rightarrow> node \<Rightarrow> nat" where
  "equalityParity a b =
     (if a = b then 1
      else if isKind K_NOT a \<and> child a 0 = b then 2
      else if isKind K_NOT b \<and> child b 0 = a then 3
      else 0)"

text \<open>The loop of \<^verbatim>\<open>makeNegation\<close> strips negations and counts their parity.\<close>

fun stripNegations :: "bool \<Rightarrow> node \<Rightarrow> bool \<times> node" where
  "stripNegations ev (mkNode K_NOT (a # ns)) = stripNegations (\<not> ev) a"
| "stripNegations ev n = (ev, n)"

fun getConst_bool :: "node \<Rightarrow> bool" where
  "getConst_bool (CONST_BOOLEAN b) = b"
| "getConst_bool n = False"

definition makeNegation :: "node \<Rightarrow> node" where
  "makeNegation n = (case stripNegations False n of (ev, n) \<Rightarrow>
     if ev then n
     else if isConst n then CONST_BOOLEAN (\<not> getConst_bool n) else notNode n)"

definition rewriteViaEqConstEq :: "node \<Rightarrow> node option" where
  "rewriteViaEqConstEq n =
     (if isKind K_EQUAL (child n 0) \<and> isKind K_EQUAL (child n 1) then
        let a = child n 0; b = child n 1;
            tc = (if isConst (child a 0) then Some (child a 1, child a 0)
                  else if isConst (child a 1) then Some (child a 0, child a 1) else None)
        in case tc of
             None \<Rightarrow> None
           | Some (t, c) \<Rightarrow>
               let constantsEqual =
                 (if child b 0 = t \<and> isConst (child b 1) then Some (child b 1 = c)
                  else if child b 1 = t \<and> isConst (child b 0) then Some (child b 0 = c)
                  else None)
               in case constantsEqual of
                    None \<Rightarrow> None
                  | Some True \<Rightarrow> Some (CONST_BOOLEAN True)
                  | Some False \<Rightarrow> Some (andNode (notNode a) (notNode b))
      else None)"

section \<open>One step of rewriting\<close>

definition preRewrite_NOT :: "node \<Rightarrow> RewriteResponse" where
  "preRewrite_NOT n =
     (if child n 0 = CONST_BOOLEAN True then (REWRITE_DONE, CONST_BOOLEAN False)
      else if child n 0 = CONST_BOOLEAN False then (REWRITE_DONE, CONST_BOOLEAN True)
      else if isKind K_NOT (child n 0) then (REWRITE_AGAIN, child (child n 0) 0)
      else (REWRITE_DONE, n))"

text \<open>The loop that compares neighbours: all children are the same node.\<close>

fun all_same :: "node list \<Rightarrow> bool" where
  "all_same (a # b # ns) = (a = b \<and> all_same (b # ns))"
| "all_same ns = True"

text \<open>The cases \<^verbatim>\<open>OR\<close> and \<^verbatim>\<open>AND\<close>, with the trivial constant \<open>b\<close>.\<close>

definition preRewrite_lattice :: "kind \<Rightarrow> bool \<Rightarrow> node \<Rightarrow> RewriteResponse" where
  "preRewrite_lattice k b n =
     (if CONST_BOOLEAN b \<in> set (children n) then (REWRITE_DONE, CONST_BOOLEAN b)
      else if CONST_BOOLEAN (\<not> b) \<in> set (children n) \<or> list_ex (isKind k) (children n)
      then flattenNode n (CONST_BOOLEAN b) (CONST_BOOLEAN (\<not> b))
      else if all_same (children n) then (REWRITE_AGAIN, child n 0)
      else (REWRITE_DONE, n))"

definition preRewrite_OR :: "node \<Rightarrow> RewriteResponse" where
  "preRewrite_OR n = preRewrite_lattice K_OR True n"

definition preRewrite_AND :: "node \<Rightarrow> RewriteResponse" where
  "preRewrite_AND n = preRewrite_lattice K_AND False n"

definition preRewrite_IMPLIES :: "node \<Rightarrow> RewriteResponse" where
  "preRewrite_IMPLIES n =
     (if child n 0 = CONST_BOOLEAN False \<or> child n 1 = CONST_BOOLEAN True then (REWRITE_DONE, CONST_BOOLEAN True)
      else if child n 0 = CONST_BOOLEAN True \<and> child n 1 = CONST_BOOLEAN False then (REWRITE_DONE, CONST_BOOLEAN False)
      else if child n 0 = CONST_BOOLEAN True then (REWRITE_AGAIN, child n 1)
      else if child n 1 = CONST_BOOLEAN False then (REWRITE_AGAIN, makeNegation (child n 0))
      else (REWRITE_DONE, n))"

definition preRewrite_EQUAL :: "(node \<Rightarrow> nat) \<Rightarrow> node \<Rightarrow> RewriteResponse" where
  "preRewrite_EQUAL getId n =
     (if child n 0 = CONST_BOOLEAN True then (REWRITE_AGAIN, child n 1)
      else if child n 1 = CONST_BOOLEAN True then (REWRITE_AGAIN, child n 0)
      else if child n 0 = CONST_BOOLEAN False then (REWRITE_AGAIN, makeNegation (child n 1))
      else if child n 1 = CONST_BOOLEAN False then (REWRITE_AGAIN, makeNegation (child n 0))
      else if child n 0 = child n 1 then (REWRITE_DONE, CONST_BOOLEAN True)
      else if isKind K_NOT (child n 0) \<and> child (child n 0) 0 = child n 1 then (REWRITE_DONE, CONST_BOOLEAN False)
      else if isKind K_NOT (child n 1) \<and> child (child n 1) 0 = child n 0 then (REWRITE_DONE, CONST_BOOLEAN False)
      else case rewriteViaEqConstEq n of
             Some ret \<Rightarrow> (if isConst ret then REWRITE_DONE else REWRITE_AGAIN, ret)
           | None \<Rightarrow>
               if getId (child n 0) > getId (child n 1)
               then (REWRITE_AGAIN, mkNode K_EQUAL [child n 1, child n 0])
               else (REWRITE_DONE, n))"

definition preRewrite_XOR :: "node \<Rightarrow> RewriteResponse" where
  "preRewrite_XOR n =
     (if child n 0 = CONST_BOOLEAN True then (REWRITE_AGAIN, makeNegation (child n 1))
      else if child n 1 = CONST_BOOLEAN True then (REWRITE_AGAIN, makeNegation (child n 0))
      else if child n 0 = CONST_BOOLEAN False then (REWRITE_AGAIN, child n 1)
      else if child n 1 = CONST_BOOLEAN False then (REWRITE_AGAIN, child n 0)
      else if child n 0 = child n 1 then (REWRITE_DONE, CONST_BOOLEAN False)
      else if isKind K_NOT (child n 0) \<and> child (child n 0) 0 = child n 1 then (REWRITE_DONE, CONST_BOOLEAN True)
      else if isKind K_NOT (child n 1) \<and> child (child n 1) 0 = child n 0 then (REWRITE_DONE, CONST_BOOLEAN True)
      else (REWRITE_DONE, n))"

text \<open>The cases for an \<^verbatim>\<open>ITE\<close> with a constant branch, which are tried last.\<close>

definition preRewrite_ITE_const :: "node \<Rightarrow> RewriteResponse" where
  "preRewrite_ITE_const n =
     (let c = child n 0; x = child n 1; y = child n 2
      in if x = CONST_BOOLEAN True then (REWRITE_AGAIN, orNode c y)
         else if x = CONST_BOOLEAN False then (REWRITE_AGAIN, andNode (negate c) y)
         else if y = CONST_BOOLEAN True then (REWRITE_AGAIN, orNode (negate c) x)
         else if y = CONST_BOOLEAN False then (REWRITE_AGAIN, andNode c x)
         else (REWRITE_DONE, n))"

text \<open>The cases that compare the condition with the branches and with their conditions.\<close>

definition preRewrite_ITE_parity :: "node \<Rightarrow> RewriteResponse" where
  "preRewrite_ITE_parity n =
     (let c = child n 0; x = child n 1; y = child n 2
      in if equalityParity x y \<noteq> 0
         then (REWRITE_AGAIN, if equalityParity x y = 1 then x else eqNode c x)
         else if \<not> isConst x \<and> equalityParity c x \<noteq> 0
         then (REWRITE_AGAIN, iteNode c (if equalityParity c x = 1 then CONST_BOOLEAN True else CONST_BOOLEAN False) y)
         else if \<not> isConst y \<and> equalityParity c y \<noteq> 0
         then (REWRITE_AGAIN, iteNode c x (if equalityParity c y = 1 then CONST_BOOLEAN False else CONST_BOOLEAN True))
         else if isKind K_ITE x \<and> equalityParity c (child x 0) \<noteq> 0
         then (REWRITE_AGAIN, iteNode c (if equalityParity c (child x 0) = 1 then child x 1 else child x 2) y)
         else if isKind K_ITE y \<and> equalityParity c (child y 0) \<noteq> 0
         then (REWRITE_AGAIN, iteNode c x (if equalityParity c (child y 0) = 1 then child y 2 else child y 1))
         else preRewrite_ITE_const n)"

definition preRewrite_ITE :: "node \<Rightarrow> RewriteResponse" where
  "preRewrite_ITE n =
     (let c = child n 0; x = child n 1; y = child n 2
      in if isConst c then (REWRITE_AGAIN, if c = CONST_BOOLEAN True then x else y)
         else if x = CONST_BOOLEAN True \<and> y = CONST_BOOLEAN False then (REWRITE_AGAIN, c)
         else if x = CONST_BOOLEAN False \<and> y = CONST_BOOLEAN True then (REWRITE_AGAIN, makeNegation c)
         else if isKind K_NOT c then (REWRITE_AGAIN, mkNode K_ITE [child c 0, y, x])
         else preRewrite_ITE_parity n)"

definition preRewrite :: "(node \<Rightarrow> nat) \<Rightarrow> node \<Rightarrow> RewriteResponse" where
  "preRewrite getId n =
     (if isKind K_NOT n then preRewrite_NOT n
      else if isKind K_OR n then preRewrite_OR n
      else if isKind K_AND n then preRewrite_AND n
      else if isKind K_IMPLIES n then preRewrite_IMPLIES n
      else if isKind K_EQUAL n then preRewrite_EQUAL getId n
      else if isKind K_XOR n then preRewrite_XOR n
      else if isKind K_ITE n then preRewrite_ITE n
      else (REWRITE_DONE, n))"

definition postRewrite :: "(node \<Rightarrow> nat) \<Rightarrow> node \<Rightarrow> RewriteResponse" where
  "postRewrite getId n = preRewrite getId n"

end
