(* ===== verification/Bv_Normalization.thy ===== *)
theory Bv_Normalization
  imports Bv_Signed_Rules Bool_Rewriter
begin

text \<open>
  Normal forms of sums, products and bitwise operators: the rules of
  \<^verbatim>\<open>theory/bv/theory_bv_rewrite_rules_normalization.h\<close> that the rewriter calls, with
  \<^verbatim>\<open>AndOrXorConcatPullUp\<close> of \<^verbatim>\<open>theory_bv_rewrite_rules_simplification.h\<close>.

  Nodes are compared by the identifiers of the node manager, the argument \<open>getId\<close>. A \<^verbatim>\<open>std::map\<close>
  keyed by nodes is the list of its entries in the order of the identifiers. A
  \<^verbatim>\<open>std::unordered_map\<close> is the list of its entries in the order of insertion: what is built from it
  is sorted, so the order of its traversal does not show.
\<close>

section \<open>Flattening\<close>

definition mkSortedNode :: "(node \<Rightarrow> nat) \<Rightarrow> kind \<Rightarrow> node list \<Rightarrow> node" where
  "mkSortedNode getId k cs = (if length cs = 1 then cs ! 0 else mkNode k (sort_key getId cs))"

definition FlattenAssocCommut_applies :: "node \<Rightarrow> bool" where
  "FlattenAssocCommut_applies n =
     (case n of mkNode k ns \<Rightarrow> k \<in> nary_kinds \<and> list_ex (isKind k) ns | _ \<Rightarrow> False)"

text \<open>The stack has its top first, where the last child pushed is. \<open>None\<close>: too many children.\<close>

function flatten_assoc :: "kind \<Rightarrow> node list \<Rightarrow> node list \<Rightarrow> node list option" where
  "flatten_assoc k [] cs = Some cs"
| "flatten_assoc k (current # processingStack) cs =
     (if isKind k current then flatten_assoc k (rev (children current) @ processingStack) cs
      else if length (cs @ [current]) > MAX_CHILDREN then None
      else flatten_assoc k processingStack (cs @ [current]))"
  by pat_completeness auto
termination
proof (relation "measure (\<lambda>(k, st, cs). sum_list (map (Suc \<circ> size) st))", goal_cases)
  case (2 k current st cs)
  have "sum_list (map (Suc \<circ> size) ns) = size_list size ns" for ns :: "node list"
    by (induction ns) simp_all
  then have "sum_list (map (Suc \<circ> size) (children current)) \<le> size current"
    by (cases current) simp_all
  then show ?case
    by (simp add: rev_map [symmetric])
qed auto

definition FlattenAssocCommut :: "(node \<Rightarrow> nat) \<Rightarrow> node \<Rightarrow> node" where
  "FlattenAssocCommut getId n =
     (case n of
        mkNode k ns \<Rightarrow>
          (case flatten_assoc k [n] [] of
             None \<Rightarrow> n
           | Some cs \<Rightarrow> if k = K_BITVECTOR_ADD \<or> k = K_BITVECTOR_MULT then mkNaryNode k cs else mkSortedNode getId k cs)
      | _ \<Rightarrow> n)"

section \<open>Sums\<close>

fun addToCoefMap :: "gmp \<Rightarrow> (node \<Rightarrow> nat) \<Rightarrow> (node \<times> bitvector) list \<Rightarrow> node \<Rightarrow> bitvector \<Rightarrow> (node \<times> bitvector) list" where
  "addToCoefMap G getId [] t coef = [(t, coef)]"
| "addToCoefMap G getId ((t', c) # coefs) t coef =
     (if t' = t then (t, bv_add G c coef) # coefs
      else if getId t < getId t' then (t, coef) # (t', c) # coefs
      else (t', c) # addToCoefMap G getId coefs t coef)"

text \<open>The factor and the coefficient of a product, when its last factor is a constant.\<close>

definition coefficient :: "gmp \<Rightarrow> nat \<Rightarrow> node \<Rightarrow> bitvector \<times> node" where
  "coefficient G sz current =
     (let cs = children current
      in if length cs = 2 \<and> isConst (cs ! 1) then (getConst (cs ! 1), cs ! 0)
         else if length cs \<noteq> 2 \<and> isConst (last cs) then (getConst (last cs), mkNode K_BITVECTOR_MULT (butlast cs))
         else (mk_bv G sz 1, current))"

definition updateCoefMap ::
  "gmp \<Rightarrow> (node \<Rightarrow> nat) \<Rightarrow> nat \<Rightarrow> (node \<times> bitvector) list \<times> bitvector \<Rightarrow> node \<Rightarrow> (node \<times> bitvector) list \<times> bitvector" where
  "updateCoefMap G getId sz s current =
     (case s of (coefs, constSum) \<Rightarrow>
        let one = mk_bv G sz 1
        in if isKind K_BITVECTOR_MULT current
           then (case coefficient G sz current of (coeff, t) \<Rightarrow>
                   if isKind K_BITVECTOR_SUB t
                   then (addToCoefMap G getId (addToCoefMap G getId coefs (child t 0) coeff) (child t 1) (bv_neg G coeff), constSum)
                   else if isKind K_BITVECTOR_NEG t
                   then (addToCoefMap G getId coefs (child t 0) (bv_neg G (bv_resize G sz coeff)), constSum)
                   else (addToCoefMap G getId coefs t coeff, constSum))
           else if isKind K_BITVECTOR_SUB current
           then (addToCoefMap G getId (addToCoefMap G getId coefs (child current 0) one) (child current 1) (bv_neg G one), constSum)
           else if isKind K_BITVECTOR_NEG current then (addToCoefMap G getId coefs (child current 0) (bv_neg G one), constSum)
           else if is_const_bv current then (coefs, bv_add G constSum (getConst current))
           else (addToCoefMap G getId coefs current one, constSum))"

definition addToChildren :: "gmp \<Rightarrow> nat \<Rightarrow> node \<times> bitvector \<Rightarrow> node list" where
  "addToChildren G sz e =
     (case e of (t, coeff) \<Rightarrow>
        if bv_eq coeff (mk_bv G sz 0) then []
        else if bv_eq coeff (mk_bv G sz 1) then [t]
        else if bv_eq coeff (bv_neg G (mk_bv G sz 1)) then [mkNode K_BITVECTOR_NEG [t]]
        else if isKind K_BITVECTOR_MULT t then [mkNode K_BITVECTOR_MULT (children t @ [CONST_BITVECTOR coeff])]
        else [mkNode K_BITVECTOR_MULT [t, CONST_BITVECTOR coeff]])"

definition AddCombineLikeTerms_applies :: "node \<Rightarrow> bool" where
  "AddCombineLikeTerms_applies n = isKind K_BITVECTOR_ADD n"

definition AddCombineLikeTerms :: "gmp \<Rightarrow> (node \<Rightarrow> nat) \<Rightarrow> node \<Rightarrow> node" where
  "AddCombineLikeTerms G getId n =
     (let sz = getSize n
      in case foldl (updateCoefMap G getId sz) ([], mk_bv G sz 0) (children n) of (coefs, constSum) \<Rightarrow>
        let cs = concat (map (addToChildren G sz) coefs) @ (if bv_eq constSum (mk_bv G sz 0) then [] else [CONST_BITVECTOR constSum])
        in if length cs = length (children n) then n
           else if cs = [] then utils_mkZero G sz
           else mkNaryNode K_BITVECTOR_ADD cs)"

section \<open>Products\<close>

definition MultSimplify_applies :: "node \<Rightarrow> bool" where
  "MultSimplify_applies n = isKind K_BITVECTOR_MULT n"

text \<open>\<open>None\<close> is the return of zero.\<close>

fun mult_simplify_loop :: "gmp \<Rightarrow> nat \<Rightarrow> node list \<Rightarrow> bitvector \<times> bool \<times> node list \<Rightarrow> (bitvector \<times> bool \<times> node list) option" where
  "mult_simplify_loop G sz [] s = Some s"
| "mult_simplify_loop G sz (current # rest) (constant, isNeg, cs) =
     (let isNeg = (if isKind K_BITVECTOR_NEG current then \<not> isNeg else isNeg);
          c = (if isKind K_BITVECTOR_NEG current then child current 0 else current)
      in if is_const_bv c
         then let constant = bv_mult G constant (getConst c)
              in if bv_eq constant (mk_bv G sz 0) then None else mult_simplify_loop G sz rest (constant, isNeg, cs)
         else mult_simplify_loop G sz rest (constant, isNeg, cs @ [c]))"

definition MultSimplify :: "gmp \<Rightarrow> (node \<Rightarrow> nat) \<Rightarrow> node \<Rightarrow> node" where
  "MultSimplify G getId n =
     (let sz = getSize n
      in case mult_simplify_loop G sz (children n) (mk_bv G sz 1, False, []) of
           None \<Rightarrow> mkConst G sz 0
         | Some (constant, isNeg, cs) \<Rightarrow>
             if cs = [] then CONST_BITVECTOR (if isNeg then bv_neg G constant else constant)
             else let cs = sort_key getId cs;
                      (isNeg, cs) =
                        (if bv_eq constant (bv_mkOnes G sz) then (\<not> isNeg, cs)
                         else if \<not> bv_eq constant (mk_bv G sz 1)
                         then (False, cs @ [CONST_BITVECTOR (if isNeg then bv_neg G constant else constant)])
                         else (isNeg, cs));
                      ret = mkNaryNode K_BITVECTOR_MULT cs
                  in if isNeg \<and> sz > 1 then mkNode K_BITVECTOR_NEG [ret] else ret)"

definition MultDistribConst_applies :: "node \<Rightarrow> bool" where
  "MultDistribConst_applies n =
     (isKind K_BITVECTOR_MULT n \<and> length (children n) = 2 \<and> isConst (child n 1) \<and>
      (isKind K_BITVECTOR_ADD (child n 0) \<or> isKind K_BITVECTOR_SUB (child n 0) \<or> isKind K_BITVECTOR_NEG (child n 0)))"

definition MultDistribConst :: "gmp \<Rightarrow> node \<Rightarrow> node" where
  "MultDistribConst G n =
     (let constant = child n 1
      in case child n 0 of
           mkNode k ns \<Rightarrow>
             if k = K_BITVECTOR_NEG then mkNode K_BITVECTOR_MULT [child (child n 0) 0, CONST_BITVECTOR (bv_neg G (getConst constant))]
             else mkNaryNode k (map (\<lambda>c. mkNode K_BITVECTOR_MULT [c, constant]) ns)
         | _ \<Rightarrow> n)"

abbreviation is_sum :: "node \<Rightarrow> bool" where
  "is_sum n \<equiv> isKind K_BITVECTOR_ADD n \<or> isKind K_BITVECTOR_SUB n"

definition MultDistrib_applies :: "node \<Rightarrow> bool" where
  "MultDistrib_applies n =
     (isKind K_BITVECTOR_MULT n \<and> length (children n) = 2 \<and>
      (if is_sum (child n 0) then \<not> is_sum (child n 1) else is_sum (child n 1)))"

definition MultDistrib :: "node \<Rightarrow> node" where
  "MultDistrib n =
     (let is_rhs_factor = is_sum (child n 0);
          factor = if \<not> is_rhs_factor then child n 0 else child n 1;
          sum = if is_rhs_factor then child n 0 else child n 1
      in case sum of
           mkNode k ns \<Rightarrow> mkNaryNode k (map (\<lambda>c. mkNode K_BITVECTOR_MULT [c, factor]) ns)
         | _ \<Rightarrow> n)"

section \<open>Negation\<close>

text \<open>
  \<^verbatim>\<open>NegMult::applies\<close> looks at the last child of the negation itself, not of the product
  below it.
\<close>

definition NegMult_applies :: "node \<Rightarrow> bool" where
  "NegMult_applies n =
     (isKind K_BITVECTOR_NEG n \<and> isKind K_BITVECTOR_MULT (child n 0) \<and> isConst (child n (length (children n) - 1)))"

definition NegMult :: "gmp \<Rightarrow> node \<Rightarrow> node" where
  "NegMult G n =
     (let cs = children (child n 0)
      in mkNode K_BITVECTOR_MULT (butlast cs @ [CONST_BITVECTOR (bv_neg G (getConst (last cs)))]))"

definition NegSub_applies :: "node \<Rightarrow> bool" where
  "NegSub_applies n = (isKind K_BITVECTOR_NEG n \<and> isKind K_BITVECTOR_SUB (child n 0))"

definition NegSub :: "node \<Rightarrow> node" where
  "NegSub n = mkNode K_BITVECTOR_SUB [child (child n 0) 1, child (child n 0) 0]"

definition NegAdd_applies :: "node \<Rightarrow> bool" where
  "NegAdd_applies n = (isKind K_BITVECTOR_NEG n \<and> isKind K_BITVECTOR_ADD (child n 0))"

definition NegAdd :: "node \<Rightarrow> node" where
  "NegAdd n = mkNaryNode K_BITVECTOR_ADD (map (\<lambda>c. mkNode K_BITVECTOR_NEG [c]) (children (child n 0)))"

section \<open>Bitwise operators\<close>

text \<open>The occurrences of a term and of its negation: the fields \<^verbatim>\<open>pos\<close> and \<^verbatim>\<open>neg\<close> of \<^verbatim>\<open>Count\<close>.\<close>

type_synonym counts = "(node \<times> nat \<times> nat) list"

fun insert_count :: "counts \<Rightarrow> node \<Rightarrow> bool \<Rightarrow> counts" where
  "insert_count [] n negated = [(n, if negated then (0, 1) else (1, 0))]"
| "insert_count ((t, p, q) # m) n negated =
     (if t = n then (t, if negated then (p, q + 1) else (p + 1, q)) # m else (t, p, q) # insert_count m n negated)"

definition collect_step :: "(bitvector \<Rightarrow> bitvector \<Rightarrow> bitvector) \<Rightarrow> bitvector \<times> counts \<Rightarrow> node \<Rightarrow> bitvector \<times> counts" where
  "collect_step f s current =
     (case s of (constant, subterms) \<Rightarrow>
        if is_const_bv current then (f constant (getConst current), subterms)
        else if isKind K_BITVECTOR_NOT current then (constant, insert_count subterms (child current 0) True)
        else (constant, insert_count subterms current False))"

text \<open>\<open>None\<close>: a term occurs with both signs.\<close>

fun push_counts :: "counts \<Rightarrow> node list option" where
  "push_counts [] = Some []"
| "push_counts ((t, p, q) # m) =
     (if p > 0 \<and> q > 0 then None
      else map_option (Cons (if q > 0 then mkNode K_BITVECTOR_NOT [t] else t)) (push_counts m))"

definition AndSimplify_applies :: "node \<Rightarrow> bool" where
  "AndSimplify_applies n = isKind K_BITVECTOR_AND n"

definition AndSimplify :: "gmp \<Rightarrow> (node \<Rightarrow> nat) \<Rightarrow> node \<Rightarrow> node" where
  "AndSimplify G getId n =
     (let sz = getSize n
      in case foldl (collect_step (bv_and G)) (bv_mkOnes G sz, []) (children n) of (constant, subterms) \<Rightarrow>
        if bv_eq constant (mk_bv G sz 0) then utils_mkZero G sz
        else case push_counts subterms of
               None \<Rightarrow> utils_mkZero G sz
             | Some ts \<Rightarrow>
                 let cs = (if bv_eq constant (bv_mkOnes G sz) then [] else [CONST_BITVECTOR constant]) @ ts
                 in if cs = [] then utils_mkOnes G sz else mkSortedNode getId K_BITVECTOR_AND cs)"

definition OrSimplify_applies :: "node \<Rightarrow> bool" where
  "OrSimplify_applies n = isKind K_BITVECTOR_OR n"

definition OrSimplify :: "gmp \<Rightarrow> (node \<Rightarrow> nat) \<Rightarrow> node \<Rightarrow> node" where
  "OrSimplify G getId n =
     (let sz = getSize n
      in case foldl (collect_step (bv_or G)) (mk_bv G sz 0, []) (children n) of (constant, subterms) \<Rightarrow>
        if bv_eq constant (bv_mkOnes G sz) then utils_mkOnes G sz
        else case push_counts subterms of
               None \<Rightarrow> utils_mkOnes G sz
             | Some ts \<Rightarrow>
                 let cs = (if bv_eq constant (mk_bv G sz 0) then [] else [CONST_BITVECTOR constant]) @ ts
                 in if cs = [] then utils_mkZero G sz else mkSortedNode getId K_BITVECTOR_OR cs)"

definition XorSimplify_applies :: "node \<Rightarrow> bool" where
  "XorSimplify_applies n = isKind K_BITVECTOR_XOR n"

text \<open>\<open>None\<close>: \<^verbatim>\<open>const_set\<close> is false.\<close>

definition xor_collect_step :: "gmp \<Rightarrow> bitvector option \<times> counts \<Rightarrow> node \<Rightarrow> bitvector option \<times> counts" where
  "xor_collect_step G s current =
     (case s of (constant, subterms) \<Rightarrow>
        if is_const_bv current
        then (Some (case constant of Some c \<Rightarrow> bv_xor G c (getConst current) | None \<Rightarrow> getConst current), subterms)
        else if isKind K_BITVECTOR_NOT current then (constant, insert_count subterms (child current 0) True)
        else (constant, insert_count subterms current False))"

definition xor_push :: "nat \<times> node list \<Rightarrow> node \<times> nat \<times> nat \<Rightarrow> nat \<times> node list" where
  "xor_push s e =
     (case (s, e) of ((true_count, cs), (t, p, q)) \<Rightarrow>
        if p mod 2 \<noteq> 0 \<and> q mod 2 \<noteq> 0 then (true_count + 1, cs)
        else if p mod 2 \<noteq> 0 then (true_count, cs @ [t])
        else if q mod 2 \<noteq> 0 then (true_count, cs @ [mkNode K_BITVECTOR_NOT [t]])
        else (true_count, cs))"

definition XorSimplify :: "gmp \<Rightarrow> (node \<Rightarrow> nat) \<Rightarrow> node \<Rightarrow> node" where
  "XorSimplify G getId n =
     (let sz = getSize n
      in case foldl (xor_collect_step G) (None, []) (children n) of (constant, subterms) \<Rightarrow>
         case foldl xor_push (0, []) subterms of (true_count, cs) \<Rightarrow>
           let xorConst = (if true_count \<noteq> 0 then [if true_count mod 2 \<noteq> 0 then bv_mkOnes G sz else mk_bv G sz 0] else []) @
                 (case constant of Some c \<Rightarrow> [c] | None \<Rightarrow> []);
               cs = cs @ (case xorConst of [] \<Rightarrow> [] | c # rest \<Rightarrow> [CONST_BITVECTOR (foldl (bv_xor G) c rest)])
           in if cs = [] then CONST_BITVECTOR (mk_bv G sz 0) else mkSortedNode getId K_BITVECTOR_XOR cs)"

abbreviation is_bitwise :: "node \<Rightarrow> bool" where
  "is_bitwise n \<equiv> isKind K_BITVECTOR_AND n \<or> isKind K_BITVECTOR_OR n \<or> isKind K_BITVECTOR_XOR n"

definition BitwiseSlicing_applies :: "gmp \<Rightarrow> node \<Rightarrow> bool" where
  "BitwiseSlicing_applies G n =
     (is_bitwise n \<and> getSize n \<noteq> 1 \<and>
      (case find is_const_bv (children n) of
         None \<Rightarrow> False
       | Some c \<Rightarrow> \<not> bv_eq (getConst c) (mk_bv G (getSize n) 0) \<and>
           list_ex (\<lambda>j. \<not> bv_isBitSet G (getConst c) j) [0..<d_size (getConst c)]))"

text \<open>One pass of the loop; the slice that is open reaches from \<^verbatim>\<open>end\<close> down to \<^verbatim>\<open>start\<close>.\<close>

definition slicing_step :: "gmp \<Rightarrow> kind \<Rightarrow> node \<Rightarrow> node \<Rightarrow> int \<times> int \<times> node list \<Rightarrow> nat \<Rightarrow> int \<times> int \<times> node list" where
  "slicing_step G k constant other s i =
     (case s of (start, last_bit, concat_children) \<Rightarrow>
        let slice = \<lambda>high low. mkNode k [mkExtract constant (nat high) (nat low), mkExtract other (nat high) (nat low)];
            b = getConst constant;
            (start, last_bit, concat_children) =
              (if bv_isBitSet G b (i + 1) \<noteq> bv_isBitSet G b i then (int i, int i, concat_children @ [slice last_bit start])
               else (start - 1, last_bit, concat_children))
        in (start, last_bit, if i = 0 then concat_children @ [slice last_bit 0] else concat_children))"

definition BitwiseSlicing :: "gmp \<Rightarrow> node \<Rightarrow> node" where
  "BitwiseSlicing G n =
     (case n of
        mkNode k ns \<Rightarrow>
          (case find is_const_bv ns of
             None \<Rightarrow> n
           | Some constant \<Rightarrow>
               let other = mkNaryNode k (remove1 constant ns);
                   start = s32 (u32_sub (d_size (getConst constant)) 1)
               in case foldl (slicing_step G k constant other) (start, start, []) (rev [0..<nat start]) of
                    (_, _, concat_children) \<Rightarrow> mkConcat_vector concat_children)
      | _ \<Rightarrow> n)"

abbreviation simple_const :: "gmp \<Rightarrow> node \<Rightarrow> bool" where
  "simple_const G n \<equiv> utils_isZero G n \<or> utils_isOne G n \<or> utils_isOnes G n"

definition AndOrXorConcatPullUp_applies :: "gmp \<Rightarrow> node \<Rightarrow> bool" where
  "AndOrXorConcatPullUp_applies G n =
     (is_bitwise n \<and>
      (case find (isKind K_BITVECTOR_CONCAT) (children n) of
         None \<Rightarrow> False
       | Some c \<Rightarrow> (case find isConst (children c) of None \<Rightarrow> False | Some cc \<Rightarrow> simple_const G cc)))"

definition AndOrXorConcatPullUp :: "gmp \<Rightarrow> node \<Rightarrow> node" where
  "AndOrXorConcatPullUp G n =
     (case n of
        mkNode k ns \<Rightarrow>
          (case find (isKind K_BITVECTOR_CONCAT) ns of
             None \<Rightarrow> n
           | Some concat_node \<Rightarrow>
               let xb = remove1 concat_node ns;
                   x = if length xb > 1 then mkNode k xb else xb ! 0;
                   yb = takeWhile (\<lambda>c. \<not> simple_const G c) (children concat_node);
                   rest = dropWhile (\<lambda>c. \<not> simple_const G c) (children concat_node);
                   c = hd rest; zb = tl rest;
                   y = mkConcat_vector yb; z = mkConcat_vector zb;
                   m = getSize x; my = (if yb = [] then 0 else getSize y); mz = (if zb = [] then 0 else getSize z)
               in mkNode K_BITVECTOR_CONCAT
                    ((if my \<noteq> 0 then [mkNode k [mkExtract x (m - 1) (m - my), y]] else []) @
                     [mkNode k [mkExtract x (m - my - 1) mz, c]] @
                     (if mz \<noteq> 0 then [mkNode k [mkExtract x (mz - 1) 0, z]] else [])))
      | _ \<Rightarrow> n)"

end
