(* ===== verification/Bv_Theory.thy ===== *)
theory Bv_Theory
  imports Bv_Normalization
begin

text \<open>
  The preprocessing of the bit-vector theory: the methods \<^verbatim>\<open>ppRewrite\<close>, \<^verbatim>\<open>ppStaticRewrite\<close> and
  \<^verbatim>\<open>ppStaticLearn\<close> of \<^verbatim>\<open>TheoryBV\<close> in \<^verbatim>\<open>theory/bv/theory_bv.cpp\<close>, with the rule \<^verbatim>\<open>SolveEq\<close>
  of \<^verbatim>\<open>theory_bv_rewrite_rules_normalization.h\<close>. A \<^verbatim>\<open>TrustNode\<close> that holds a rewrite is the
  rewritten term, the null one is \<open>None\<close>; \<^verbatim>\<open>learned\<close> is the list of the learned formulas.
\<close>

section \<open>Solving equations\<close>

text \<open>The traversal of \<^verbatim>\<open>expr::hasSubterm\<close> compares every subterm with the term it looks for.\<close>

fun hasSubterm :: "node \<Rightarrow> node \<Rightarrow> bool" where
  "hasSubterm (mkNode k ns) t = (mkNode k ns = t \<or> list_ex (\<lambda>c. hasSubterm c t) ns)"
| "hasSubterm n t = (n = t)"

definition SolveEq_applies :: "node \<Rightarrow> bool" where
  "SolveEq_applies n =
     (\<not> (\<not> isKind K_EQUAL n \<or>
         (isVar (child n 0) \<and> \<not> hasSubterm (child n 1) (child n 0)) \<or>
         (isVar (child n 1) \<and> \<not> hasSubterm (child n 0) (child n 1))))"

definition bv_greater :: "bitvector \<Rightarrow> bitvector \<Rightarrow> bool" where
  "bv_greater a b = (d_value b < d_value a)"

text \<open>The terms with their coefficients, and the constant, of one side.\<close>

definition collect_side :: "gmp \<Rightarrow> (node \<Rightarrow> nat) \<Rightarrow> nat \<Rightarrow> node \<Rightarrow> (node \<times> bitvector) list \<times> bitvector" where
  "collect_side G getId sz side =
     foldl (updateCoefMap G getId sz) ([], mk_bv G sz 0) (if isKind K_BITVECTOR_ADD side then children side else [side])"

text \<open>The loop over both tables, with the children of both sides and the flag \<^verbatim>\<open>changed\<close>.\<close>

fun solve_merge ::
  "gmp \<Rightarrow> (node \<Rightarrow> nat) \<Rightarrow> nat \<Rightarrow> (node \<times> bitvector) list \<Rightarrow> (node \<times> bitvector) list \<Rightarrow>
    node list \<times> node list \<times> bool \<Rightarrow> node list \<times> node list \<times> bool" where
  "solve_merge G getId sz [] [] s = s"
| "solve_merge G getId sz (l # ls) [] (childrenLeft, childrenRight, changed) =
     solve_merge G getId sz ls [] (childrenLeft @ addToChildren G sz l, childrenRight, changed)"
| "solve_merge G getId sz [] (r # rs) (childrenLeft, childrenRight, changed) =
     solve_merge G getId sz [] rs (childrenLeft, childrenRight @ addToChildren G sz r, changed)"
| "solve_merge G getId sz ((termLeft, coeffLeft) # ls) ((termRight, coeffRight) # rs) (childrenLeft, childrenRight, changed) =
     (if getId termLeft < getId termRight
      then solve_merge G getId sz ls ((termRight, coeffRight) # rs)
             (childrenLeft @ addToChildren G sz (termLeft, coeffLeft), childrenRight, changed)
      else if getId termRight < getId termLeft
      then solve_merge G getId sz ((termLeft, coeffLeft) # ls) rs
             (childrenLeft, childrenRight @ addToChildren G sz (termRight, coeffRight), changed)
      else if bv_greater coeffLeft coeffRight
      then solve_merge G getId sz ls rs
             (childrenLeft @ addToChildren G sz (termLeft, bv_sub G coeffLeft coeffRight), childrenRight, True)
      else if bv_greater coeffRight coeffLeft
      then solve_merge G getId sz ls rs
             (childrenLeft, childrenRight @ addToChildren G sz (termRight, bv_sub G coeffRight coeffLeft), True)
      else solve_merge G getId sz ls rs (childrenLeft, childrenRight, True))"

text \<open>The constants: both on the right when the right one is not zero.\<close>

definition place_constants ::
  "gmp \<Rightarrow> nat \<Rightarrow> node list \<times> node list \<times> bool \<Rightarrow> bitvector \<Rightarrow> bitvector \<Rightarrow>
    node list \<times> node list \<times> bool \<times> bitvector \<times> bitvector" where
  "place_constants G sz s leftConst rightConst =
     (case s of (childrenLeft, childrenRight, changed) \<Rightarrow>
        let zero = mk_bv G sz 0
        in if \<not> bv_eq rightConst zero
           then let rc = bv_sub G rightConst leftConst
                in (childrenLeft, if \<not> bv_eq rc zero then childrenRight @ [CONST_BITVECTOR rc] else childrenRight,
                    changed \<or> \<not> bv_eq leftConst zero, zero, rc)
           else if \<not> bv_eq leftConst zero
           then (childrenLeft @ [CONST_BITVECTOR leftConst], childrenRight, changed, leftConst, rightConst)
           else (childrenLeft, childrenRight, changed, leftConst, rightConst))"

text \<open>The two sides of the result; \<open>None\<close> is the return of false.\<close>

definition solve_sides ::
  "gmp \<Rightarrow> nat \<Rightarrow> node list \<times> node list \<times> bool \<times> bitvector \<times> bitvector \<Rightarrow> (node \<times> node \<times> bool) option" where
  "solve_sides G sz s =
     (case s of (childrenLeft, childrenRight, changed, leftConst, rightConst) \<Rightarrow>
        let zero = mk_bv G sz 0; moveLeft = (childrenRight = [] \<and> \<not> bv_eq leftConst zero)
        in if moveLeft \<and> length childrenLeft = 1 then None
           else let (childrenLeft, childrenRight, changed) =
                      (if moveLeft then (butlast childrenLeft, [CONST_BITVECTOR (bv_neg G leftConst)], True)
                       else (childrenLeft, childrenRight, changed));
                    moveRight = (childrenLeft = [] \<and> \<not> bv_eq rightConst zero)
                in if moveRight \<and> length childrenRight = 1 then None
                   else let (newLeft, childrenRight, changed) =
                              (if moveRight then (CONST_BITVECTOR (bv_neg G rightConst), butlast childrenRight, True)
                               else if childrenLeft = [] then (mkConst G sz 0, childrenRight, changed)
                               else (mkNaryNode K_BITVECTOR_ADD childrenLeft, childrenRight, changed))
                        in Some (newLeft, if childrenRight = [] then mkConst G sz 0 else mkNaryNode K_BITVECTOR_ADD childrenRight, changed))"

definition SolveEq :: "gmp \<Rightarrow> (node \<Rightarrow> nat) \<Rightarrow> node \<Rightarrow> node" where
  "SolveEq G getId n =
     (let left = child n 0; right = child n 1; sz = getSize left
      in if isKind K_BITVECTOR_NOT left \<and> child left 0 = right then mkFalse
         else if isKind K_BITVECTOR_NOT right \<and> child right 0 = left then mkFalse
         else case (collect_side G getId sz left, collect_side G getId sz right) of ((leftMap, leftConst), (rightMap, rightConst)) \<Rightarrow>
           (case solve_sides G sz (place_constants G sz (solve_merge G getId sz leftMap rightMap ([], [], False)) leftConst rightConst) of
              None \<Rightarrow> mkFalse
            | Some (newLeft, newRight, changed) \<Rightarrow>
                if \<not> changed then n
                else if newLeft = newRight then mkTrue
                else if getId newLeft < getId newRight then eqNode newRight newLeft
                else eqNode newLeft newRight))"

section \<open>Preprocessing\<close>

definition ppRewrite :: "gmp \<Rightarrow> node \<Rightarrow> node option" where
  "ppRewrite G t =
     (let res = (if UltAddOne_applies G t then UltAddOne G t else t);
          res = eliminateOverflows G res
      in if res \<noteq> t then Some res else None)"

definition ppStaticRewrite :: "gmp \<Rightarrow> (node \<Rightarrow> nat) \<Rightarrow> node \<Rightarrow> node option" where
  "ppStaticRewrite G getId atom =
     (if isKind K_EQUAL atom \<and> SolveEq_applies atom
      then let res = SolveEq G getId atom in if res \<noteq> atom then Some res else None
      else None)"

text \<open>The lemma on the sum of two powers of two.\<close>

definition pow2_sum_lemma :: "gmp \<Rightarrow> node \<Rightarrow> node \<Rightarrow> node \<Rightarrow> node" where
  "pow2_sum_lemma G inp p s =
     (let zero = utils_mkZero G (getSize s); b = child p 0; c = child p 1
      in mkNode K_IMPLIES [inp, mkNode K_OR [eqNode b zero, eqNode c zero, eqNode b c]])"

definition ppStaticLearn :: "gmp \<Rightarrow> node \<Rightarrow> node list \<Rightarrow> node list" where
  "ppStaticLearn G inp learned =
     (if isKind K_EQUAL inp \<and>
         (isKind K_BITVECTOR_ADD (child inp 0) \<and> isKind K_BITVECTOR_SHL (child inp 1) \<or>
          isKind K_BITVECTOR_ADD (child inp 1) \<and> isKind K_BITVECTOR_SHL (child inp 0))
      then let p = (if isKind K_BITVECTOR_ADD (child inp 0) then child inp 0 else child inp 1);
               s = (if isKind K_BITVECTOR_ADD (child inp 0) then child inp 1 else child inp 0)
           in if length (children p) = 2 \<and> isKind K_BITVECTOR_SHL (child p 0) \<and> isKind K_BITVECTOR_SHL (child p 1) \<and>
                 utils_isOne G (child s 0) \<and> utils_isOne G (child (child p 0) 0) \<and> utils_isOne G (child (child p 1) 0)
              then learned @ [pow2_sum_lemma G inp p s]
              else learned
      else learned)"

end
