(* ===== verification/Bv_Normal_Sound.thy ===== *)
theory Bv_Normal_Sound
  imports Bv_Normalization "HOL-Library.Multiset"
begin

text \<open>
  The n-ary bit-vector operators as commutative monoids on integers, modulo the width: what the
  rules that flatten, sort and collect operands rely on, stated once as a locale and interpreted for
  the five operators. Soundness of flattening and of the rules on sums and products.
\<close>

section \<open>Operators\<close>

locale nary_operator = gmp_documented G for G +
  fixes k :: kind and f :: "int \<Rightarrow> int \<Rightarrow> int" and z :: int
  assumes nary: "k \<in> nary_kinds"
    and assoc: "f (f a b) c = f a (f b c)"
    and commute: "f a b = f b a"
    and neutral: "f z a = a"
    and fold_value: "ns \<noteq> [] \<Longrightarrow> \<forall>a\<in>set ns. bv_term a \<and> getSize a = w \<Longrightarrow>
      val G m (mkNode k ns) = take_bit w (foldr f (map (val G m) ns) z)"
    and wrap: "take_bit w (f (take_bit w a) b) = take_bit w (f a b)"
begin

lemma op_append: "foldr f (xs @ ys) z = f (foldr f xs z) (foldr f ys z)"
  by (induction xs) (simp_all add: neutral assoc)

lemma op_permuted: "mset xs = mset ys \<Longrightarrow> foldr f xs z = foldr f ys z"
proof -
  have "f x \<circ> f y = f y \<circ> f x" for x y
  proof
    show "(f x \<circ> f y) a = (f y \<circ> f x) a" for a
      using assoc [of x y a] assoc [of y x a] commute [of x y] by simp
  qed
  then show "mset xs = mset ys \<Longrightarrow> foldr f xs z = foldr f ys z"
    unfolding foldr_conv_fold by (metis fold_multiset_equiv mset_rev)
qed

lemma op_left_commute: "f a (f b c) = f b (f a c)"
  using assoc [of a b c] assoc [of b a c] commute [of a b] by simp

lemma op_wrap: "take_bit w (f a (take_bit w b)) = take_bit w (f a b)" "take_bit w (f a (f (take_bit w b) c)) = take_bit w (f a (f b c))"
  using wrap [of w b a] wrap [of w b "f a c"] commute [of a] op_left_commute [of a] by simp_all

text \<open>A list of operands, of which there may be only one, as it is or sorted.\<close>

lemma operator_list:
  assumes "ns \<noteq> []" "\<forall>a\<in>set ns. bv_term a \<and> getSize a = w" "r = mkNaryNode k ns \<or> r = mkSortedNode getId k ns"
  shows "bv_term r" "getSize r = w" "val G m r = take_bit w (foldr f (map (val G m) ns) z)"
proof -
  have "bv_term r \<and> getSize r = w \<and> val G m r = take_bit w (foldr f (map (val G m) ns) z)"
  proof (cases "length ns = 1")
    case True
    then obtain a where "ns = [a]"
      by (auto simp: length_Suc_conv)
    then show ?thesis
      using assms val_bounds(3) [of a m] commute [of _ z] neutral by (auto simp: mkNaryNode_def mkSortedNode_def)
  next
    case False
    then have "2 \<le> length ns"
      using assms(1) by (cases ns) (auto simp: Suc_le_eq)
    moreover have "foldr f (map (val G m) (sort_key getId ns)) z = foldr f (map (val G m) ns) z"
      by (intro op_permuted) simp
    moreover have "sort_key getId ns \<noteq> []"
      using assms(1) by (metis set_empty set_sort)
    ultimately show ?thesis
      using False assms(1,3) nary_term [OF nary _ assms(2)] nary_term [OF nary, of "sort_key getId ns" w] assms(2)
        fold_value [OF assms(1,2), of m] fold_value [of "sort_key getId ns" w m]
      by (auto simp: mkNaryNode_def mkSortedNode_def)
  qed
  then show "bv_term r" "getSize r = w" "val G m r = take_bit w (foldr f (map (val G m) ns) z)"
    by auto
qed

lemma operator_children:
  assumes "bv_term (mkNode k ns)" "getSize (mkNode k ns) = w"
  shows "2 \<le> length ns" "\<forall>a\<in>set ns. bv_term a \<and> getSize a = w" "val G m (mkNode k ns) = take_bit w (foldr f (map (val G m) ns) z)"
proof -
  show c: "2 \<le> length ns" "\<forall>a\<in>set ns. bv_term a \<and> getSize a = w"
    using nary_children(1,2) [OF bv_termD(2,1) [OF assms(1)] nary] assms(2) by auto
  then show "val G m (mkNode k ns) = take_bit w (foldr f (map (val G m) ns) z)"
    by (intro fold_value) auto
qed

lemma rewrites_operator:
  assumes "isKind k n"
    "\<And>ns w. n = mkNode k ns \<Longrightarrow> 2 \<le> length ns \<Longrightarrow> getSize n = w \<Longrightarrow> \<forall>a\<in>set ns. bv_term a \<and> getSize a = w \<Longrightarrow> 0 < w \<Longrightarrow> w < 2 ^ 32 \<Longrightarrow>
      bv_term n' \<and> getSize n' = w \<and> (\<forall>m. val G m n' = take_bit w (foldr f (map (val G m) ns) z))"
  shows "rewrites_to G n n'"
  using assms(1) nary
proof (rule rewrites_nary)
  fix ns
  assume n: "n = mkNode k ns" and ns: "2 \<le> length ns" "\<forall>a\<in>set ns. bv_term a \<and> getSize a = getSize n" "bv_term n"
  then have "ns \<noteq> []"
    by auto
  from assms(2) [OF n ns(1) refl ns(2) bv_term_width [OF ns(3)]] fold_value [OF this ns(2)]
  show "bv_term n' \<and> getSize n' = getSize n \<and> (\<forall>m. val G m n' = val G m n)"
    by (simp add: n)
qed

lemma flatten_assoc_sound:
  assumes "flatten_assoc k' st cs = Some cs'" "k' = k" "\<forall>a\<in>set st \<union> set cs. bv_term a \<and> getSize a = w"
  shows "(\<forall>a\<in>set cs'. bv_term a \<and> getSize a = w) \<and> length cs + length st \<le> length cs' \<and>
    take_bit w (foldr f (map (val G m) cs') z) = take_bit w (f (foldr f (map (val G m) cs) z) (foldr f (map (val G m) st) z))"
  using assms
proof (induction k' st cs rule: flatten_assoc.induct)
  case (1 k' cs)
  then show ?case
    using commute [of z] neutral by auto
next
  case (2 k' current st cs)
  let ?F = "\<lambda>ns. foldr f (map (val G m) ns) z"
  show ?case
  proof (cases "isKind k current")
    case True
    then obtain ns where c: "current = mkNode k ns"
      by (rule isKind_cases)
    have bv: "bv_term (mkNode k ns)" "getSize (mkNode k ns) = w"
      using 2(5) by (auto simp: c)
    note o = operator_children [OF bv]
    have "?F (rev ns) = ?F ns"
      by (intro op_permuted) simp
    then have "take_bit w (f (?F cs) (?F (rev ns @ st))) = take_bit w (f (?F cs) (?F (current # st)))"
      using o(3) [of m] by (simp add: c op_append op_wrap del: foldr_append)
    moreover have "flatten_assoc k (rev ns @ st) cs = Some cs'" "\<forall>a\<in>set (rev ns @ st) \<union> set cs. bv_term a \<and> getSize a = w"
      using 2(3) [unfolded 2(4)] 2(5) o(2) by (auto simp: c)
    from 2(1) [unfolded 2(4) c children.simps, OF _ this(1) refl this(2)]
    have "(\<forall>a\<in>set cs'. bv_term a \<and> getSize a = w) \<and> length cs + length (rev ns @ st) \<le> length cs' \<and>
      take_bit w (?F cs') = take_bit w (f (?F cs) (?F (rev ns @ st)))"
      by simp
    ultimately show ?thesis
      using o(1) by auto
  next
    case False
    with 2(3) [unfolded 2(4)] have l: "\<not> length (cs @ [current]) > MAX_CHILDREN"
      by (auto split: if_splits)
    have "f (?F (cs @ [current])) (?F st) = f (?F cs) (?F (current # st))"
      using assoc commute neutral by (simp add: op_append del: foldr_append) (metis neutral)
    then show ?thesis
      using 2(2) [unfolded 2(4), OF False l _ refl] 2(3) [unfolded 2(4)] 2(5) False l by simp
  qed
qed

lemma flatten_operator:
  assumes "isKind k n"
  shows "rewrites_to G n (FlattenAssocCommut getId n)"
  using assms
proof (rule rewrites_operator)
  fix ns w
  assume n: "n = mkNode k ns" and ns: "2 \<le> length ns" "getSize n = w" "\<forall>a\<in>set ns. bv_term a \<and> getSize a = w"
  show "bv_term (FlattenAssocCommut getId n) \<and> getSize (FlattenAssocCommut getId n) = w \<and>
    (\<forall>m. val G m (FlattenAssocCommut getId n) = take_bit w (foldr f (map (val G m) ns) z))"
  proof (cases "flatten_assoc k [n] []")
    case None
    moreover have "ns \<noteq> []"
      using ns(1) by auto
    ultimately show ?thesis
      using ns nary_term [OF nary ns(1,3)] fold_value [OF _ ns(3)] by (simp add: FlattenAssocCommut_def n)
  next
    case (Some cs)
    then have fl: "flatten_assoc k (rev ns) [] = Some cs"
      by (simp add: n)
    have "foldr f (map (val G m) (rev ns)) z = foldr f (map (val G m) ns) z" for m
      by (intro op_permuted) simp
    with flatten_assoc_sound [OF fl refl, of w] ns
    have cs: "\<forall>a\<in>set cs. bv_term a \<and> getSize a = w" "cs \<noteq> []"
      "take_bit w (foldr f (map (val G m) cs) z) = take_bit w (foldr f (map (val G m) ns) z)" for m
      using neutral by auto
    define r where "r = FlattenAssocCommut getId n"
    have "r = mkNaryNode k cs \<or> r = mkSortedNode getId k cs"
      using Some by (auto simp: r_def FlattenAssocCommut_def n)
    from operator_list [OF cs(2,1) this] cs(3) show ?thesis
      unfolding r_def by simp
  qed
qed

end

section \<open>The five operators\<close>

context gmp_documented
begin

lemma value_bit_folds:
  assumes "bv_inv a" "\<forall>b\<in>set bs. bv_inv b \<and> d_size b = d_size a"
  shows "d_value (foldl (bv_and G) a bs) = take_bit (d_size a) (d_value a AND foldr (AND) (map d_value bs) (- 1))"
    "d_value (foldl (bv_or G) a bs) = take_bit (d_size a) (d_value a OR foldr (OR) (map d_value bs) 0)"
proof -
  show "d_value (foldl (bv_and G) a bs) = take_bit (d_size a) (d_value a AND foldr (AND) (map d_value bs) (- 1))"
    using assms
  proof (induction bs arbitrary: a)
    case (Cons b bs)
    have inner: "\<forall>c\<in>set bs. bv_inv c \<and> d_size c = d_size (bv_and G a b)"
      using Cons.prems(2) by simp
    show ?case
      by (simp only: foldl_Cons Cons.IH [OF inv_binary(3) [OF Cons.prems(1)] inner] value_and bv_size_simps list.map foldr_Cons comp_apply)
        (simp add: and.assoc)
  qed (simp add: bv_inv_take_bit)
  show "d_value (foldl (bv_or G) a bs) = take_bit (d_size a) (d_value a OR foldr (OR) (map d_value bs) 0)"
    using assms
  proof (induction bs arbitrary: a)
    case (Cons b bs)
    have inner: "\<forall>c\<in>set bs. bv_inv c \<and> d_size c = d_size (bv_or G a b)"
      using Cons.prems(2) by simp
    show ?case
      by (simp only: foldl_Cons Cons.IH [OF inv_binary(2) [OF Cons.prems(1)] inner] value_or bv_size_simps list.map foldr_Cons comp_apply)
        (simp add: or.assoc)
  qed (simp add: bv_inv_take_bit)
qed

lemma val_bit_lists:
  assumes "ns \<noteq> []" "\<forall>a\<in>set ns. bv_term a \<and> getSize a = w"
  shows "val G m (mkNode K_BITVECTOR_AND ns) = take_bit w (foldr (AND) (map (val G m) ns) (- 1))"
    "val G m (mkNode K_BITVECTOR_OR ns) = take_bit w (foldr (OR) (map (val G m) ns) 0)"
    "val G m (mkNode K_BITVECTOR_XOR ns) = take_bit w (xor_list (map (val G m) ns))"
proof -
  obtain a bs where ns: "ns = a # bs"
    using assms(1) by (cases ns) auto
  have "bv_inv (bvval G m a)" "\<forall>b\<in>set (map (bvval G m) bs). bv_inv b \<and> d_size b = d_size (bvval G m a)" "d_size (bvval G m a) = w"
    using assms(2) bv_term_value(1,2) unfolding ns by auto
  from value_bit_folds [OF this(1,2)] this(3)
  show "val G m (mkNode K_BITVECTOR_AND ns) = take_bit w (foldr (AND) (map (val G m) ns) (- 1))"
    "val G m (mkNode K_BITVECTOR_OR ns) = take_bit w (foldr (OR) (map (val G m) ns) 0)"
    by (simp_all add: ns val_def [abs_def] bvval_nary comp_def)
  have "\<forall>v\<in>set (map (val G m) ns). take_bit w v = v"
    using assms(2) val_bounds(3) by auto
  then show "val G m (mkNode K_BITVECTOR_XOR ns) = take_bit w (xor_list (map (val G m) ns))"
    by (simp only: val_lists(3) [OF assms] xor_list_bounds)
qed

end

sublocale gmp_documented < nary_add: nary_operator G K_BITVECTOR_ADD "(+)" 0
  using val_lists(2) by unfold_locales (auto simp: sum_list.eq_foldr take_bit_eq_mod mod_simps)

sublocale gmp_documented < nary_mult: nary_operator G K_BITVECTOR_MULT "(*)" 1
  using val_lists(1) by unfold_locales (auto simp: prod_list.eq_foldr take_bit_eq_mod mod_simps)

text \<open>The bitwise operators also distribute over the halves of a bit-vector.\<close>

locale bitwise_operator = nary_operator +
  assumes take_bit_op: "take_bit w (f a b) = f (take_bit w a) (take_bit w b)"
    and drop_bit_op: "drop_bit w (f a b) = f (drop_bit w a) (drop_bit w b)"

sublocale gmp_documented < nary_and: bitwise_operator G K_BITVECTOR_AND "(AND)" "- 1"
  using val_bit_lists(1) by unfold_locales (auto simp: ac_simps)

sublocale gmp_documented < nary_or: bitwise_operator G K_BITVECTOR_OR "(OR)" 0
  using val_bit_lists(2) by unfold_locales (auto simp: ac_simps)

sublocale gmp_documented < nary_xor: bitwise_operator G K_BITVECTOR_XOR "(XOR)" 0
  using val_bit_lists(3) by unfold_locales (auto simp: ac_simps)

end
