(* ===== verification/Bv_Sum_Rules.thy ===== *)
theory Bv_Sum_Rules
  imports Bv_Normal_Sound
begin

text \<open>
  Soundness of the rules on sums, differences, negations and products.
\<close>

section \<open>Sums modulo a power of two\<close>

lemma sum_list_mod: "sum_list (map (\<lambda>x. g x mod M) xs) mod M = sum_list (map g xs) mod (M :: int)"
proof (induction xs)
  case (Cons x xs)
  have "sum_list (map (\<lambda>x. g x mod M) (x # xs)) mod M = (g x + sum_list (map (\<lambda>x. g x mod M) xs) mod M) mod M"
    by (simp add: mod_simps)
  then show ?case
    unfolding Cons by (simp add: mod_simps)
qed simp

lemma sum_list_neg: "sum_list (map (\<lambda>x. - g x) xs) = - sum_list (map g xs :: int list)"
  by (induction xs) simp_all

context gmp_documented
begin

lemma sum_node:
  assumes "ns \<noteq> []" "\<forall>a\<in>set ns. bv_term a \<and> getSize a = w"
  shows "bv_term (mkNaryNode K_BITVECTOR_ADD ns)" "getSize (mkNaryNode K_BITVECTOR_ADD ns) = w"
    "val G m (mkNaryNode K_BITVECTOR_ADD ns) = sum_list (map (val G m) ns) mod 2 ^ w"
  using nary_add.operator_list [OF assms, where r = "mkNaryNode K_BITVECTOR_ADD ns"] by (simp_all add: sum_list.eq_foldr take_bit_eq_mod)

text \<open>The children of a sum, a difference or a negation.\<close>

lemma add_node:
  assumes "isKind K_BITVECTOR_ADD s" "bv_term s"
  obtains ns where "s = mkNode K_BITVECTOR_ADD ns" "2 \<le> length ns" "\<forall>a\<in>set ns. bv_term a \<and> getSize a = getSize s"
    "\<And>m. val G m s = sum_list (map (val G m) ns) mod 2 ^ getSize s"
proof -
  obtain ns where s: "s = mkNode K_BITVECTOR_ADD ns"
    using assms(1) by (rule isKind_cases)
  note c = nary_children(1,2) [OF bv_termD(2,1) [OF assms(2), unfolded s]]
  from c(1) have "ns \<noteq> []"
    by auto
  from val_lists(2) [OF this c(2)] that [OF s] c show thesis
    by (simp add: s take_bit_eq_mod)
qed

lemma sub_node:
  assumes "isKind K_BITVECTOR_SUB s" "bv_term s"
  obtains a b where "s = mkNode K_BITVECTOR_SUB [a, b]" "bv_term a" "bv_term b" "getSize a = getSize s" "getSize b = getSize s"
    "\<And>m. val G m s = (val G m a - val G m b) mod 2 ^ getSize s"
proof -
  obtain ns where s: "s = mkNode K_BITVECTOR_SUB ns"
    using assms(1) by (rule isKind_cases)
  obtain a b where ab: "ns = [a, b]" "bv_term a" "bv_term b" "getSize a = getSize b"
    by (rule binary_children [OF bv_termD(2,1) [OF assms(2), unfolded s]]) auto
  have sz: "getSize s = getSize b"
    using ab by (simp add: s term_simps)
  show thesis
  proof (rule that)
    show "s = mkNode K_BITVECTOR_SUB [a, b]"
      using s ab(1) by simp
    then show "val G m s = (val G m a - val G m b) mod 2 ^ getSize s" for m
      unfolding sz using val_binary(1) [OF ab(2-4), of m] by (simp add: take_bit_eq_mod)
  qed (use ab sz in simp_all)
qed

lemma neg_node:
  assumes "isKind K_BITVECTOR_NEG s" "bv_term s"
  obtains a where "s = mkNode K_BITVECTOR_NEG [a]" "bv_term a" "getSize a = getSize s" "\<And>m. val G m s = (- val G m a) mod 2 ^ getSize s"
proof -
  obtain ns where s: "s = mkNode K_BITVECTOR_NEG ns"
    using assms(1) by (rule isKind_cases)
  obtain a where a: "ns = [a]" "bv_term a"
    by (rule negation_children [OF bv_termD(2,1) [OF assms(2), unfolded s]]) auto
  have "getSize s = getSize a"
    using a by (simp add: s term_simps)
  then show thesis
    using that [of a] a s by (simp add: term_simps take_bit_eq_mod)
qed

lemma rewrites_neg:
  assumes "isKind K_BITVECTOR_NEG n"
    "\<And>a. n = mkNode K_BITVECTOR_NEG [a] \<Longrightarrow> bv_term a \<Longrightarrow>
      bv_term n' \<and> getSize n' = getSize a \<and> (\<forall>m. val G m n' = (- val G m a) mod 2 ^ getSize a)"
  shows "rewrites_to G n n'"
  using assms(1) by (rule rewrites_negation) (auto dest!: assms(2) simp: term_simps take_bit_eq_mod)

section \<open>Negation\<close>

lemma NegMult_sound: "NegMult_applies n \<Longrightarrow> rewrites_to G n (NegMult G n)"
  unfolding NegMult_applies_def by (elim conjE, erule rewrites_neg) (auto simp: child_def elim: isKindE)

lemma NegSub_sound: "NegSub_applies n \<Longrightarrow> rewrites_to G n (NegSub n)"
  unfolding NegSub_applies_def
proof (elim conjE, erule rewrites_neg)
  fix s
  assume n: "n = mkNode K_BITVECTOR_NEG [s]" and "isKind K_BITVECTOR_SUB (child n 0)" and s: "bv_term s"
  then have "isKind K_BITVECTOR_SUB s"
    by (simp add: child_Cons)
  then obtain a b where ab: "s = mkNode K_BITVECTOR_SUB [a, b]" "bv_term a" "bv_term b" "getSize a = getSize s" "getSize b = getSize s"
    "\<And>m. val G m s = (val G m a - val G m b) mod 2 ^ getSize s"
    using s by (rule sub_node) auto
  have r: "NegSub n = mkNode K_BITVECTOR_SUB [b, a]"
    by (simp add: NegSub_def n child_Cons ab(1)) (simp add: child_def)
  show "bv_term (NegSub n) \<and> getSize (NegSub n) = getSize s \<and> (\<forall>m. val G m (NegSub n) = (- val G m s) mod 2 ^ getSize s)"
    using ab(2-5) unfolding r ab(6) by (simp add: term_simps take_bit_eq_mod mod_simps)
qed

lemma NegAdd_sound: "NegAdd_applies n \<Longrightarrow> rewrites_to G n (NegAdd n)"
  unfolding NegAdd_applies_def
proof (elim conjE, erule rewrites_neg)
  fix s
  assume n: "n = mkNode K_BITVECTOR_NEG [s]" and "isKind K_BITVECTOR_ADD (child n 0)" and s: "bv_term s"
  then have "isKind K_BITVECTOR_ADD s"
    by (simp add: child_Cons)
  then obtain ns where ns: "s = mkNode K_BITVECTOR_ADD ns" "2 \<le> length ns" "\<forall>a\<in>set ns. bv_term a \<and> getSize a = getSize s"
    "\<And>m. val G m s = sum_list (map (val G m) ns) mod 2 ^ getSize s"
    using s by (rule add_node) auto
  let ?cs = "map (\<lambda>c. mkNode K_BITVECTOR_NEG [c]) ns"
  have r: "NegAdd n = mkNaryNode K_BITVECTOR_ADD ?cs"
    by (simp add: NegAdd_def n child_Cons ns(1))
  have c: "?cs \<noteq> []" "\<forall>a\<in>set ?cs. bv_term a \<and> getSize a = getSize s"
    using ns(2,3) by (auto simp: term_simps)
  have "map (val G m) ?cs = map (\<lambda>a. (- val G m a) mod 2 ^ getSize s) ns" for m
    using ns(3) by (simp add: term_simps take_bit_eq_mod)
  then have "val G m (NegAdd n) = (- val G m s) mod 2 ^ getSize s" for m
    unfolding r sum_node(3) [OF c] ns(4) by (simp only: sum_list_mod sum_list_neg mod_minus_eq)
  with sum_node(1,2) [OF c] show "bv_term (NegAdd n) \<and> getSize (NegAdd n) = getSize s \<and> (\<forall>m. val G m (NegAdd n) = (- val G m s) mod 2 ^ getSize s)"
    unfolding r by simp
qed

section \<open>Distribution\<close>

lemma distribute:
  assumes "is_sum s" "s = mkNode k ns" "bv_term s" "bv_term c" "getSize c = getSize s"
    "r = mkNaryNode k (map (\<lambda>x. mkNode K_BITVECTOR_MULT [x, c]) ns)"
  shows "bv_term r" "getSize r = getSize s" "val G m r = (val G m s * val G m c) mod 2 ^ getSize s"
proof -
  let ?cs = "map (\<lambda>x. mkNode K_BITVECTOR_MULT [x, c]) ns"
  have "bv_term r \<and> getSize r = getSize s \<and> val G m r = (val G m s * val G m c) mod 2 ^ getSize s"
  proof (cases "isKind K_BITVECTOR_ADD s")
    case True
    then obtain ns' where "s = mkNode K_BITVECTOR_ADD ns'" "2 \<le> length ns'" "\<forall>a\<in>set ns'. bv_term a \<and> getSize a = getSize s"
      "val G m s = sum_list (map (val G m) ns') mod 2 ^ getSize s"
      using assms(3) by (rule add_node) auto
    then have k: "k = K_BITVECTOR_ADD" and ns: "2 \<le> length ns" "\<forall>a\<in>set ns. bv_term a \<and> getSize a = getSize s"
      "val G m s = sum_list (map (val G m) ns) mod 2 ^ getSize s"
      using assms(2) by auto
    have c: "?cs \<noteq> []" "\<forall>a\<in>set ?cs. bv_term a \<and> getSize a = getSize s"
      using ns(1,2) assms(4,5) by (auto simp: term_simps)
    have "map (val G m) ?cs = map (\<lambda>a. (val G m a * val G m c) mod 2 ^ getSize s) ns"
      using ns(2) assms(4,5) by (simp add: term_simps take_bit_eq_mod)
    then have "val G m r = (sum_list (map (val G m) ns) * val G m c) mod 2 ^ getSize s"
      unfolding assms(6) k sum_node(3) [OF c] by (simp only: sum_list_mod sum_list_mult_const)
    then show ?thesis
      using sum_node(1,2) [OF c] unfolding ns(3) assms(6) k by (simp add: mod_simps)
  next
    case False
    then obtain a b where ab: "s = mkNode K_BITVECTOR_SUB [a, b]" "bv_term a" "bv_term b" "getSize a = getSize s" "getSize b = getSize s"
      "val G m s = (val G m a - val G m b) mod 2 ^ getSize s"
      using assms(1,3) sub_node by metis
    then have r: "r = mkNode K_BITVECTOR_SUB [mkNode K_BITVECTOR_MULT [a, c], mkNode K_BITVECTOR_MULT [b, c]]"
      using assms(2,6) by (simp add: mkNaryNode_def)
    have p: "bv_term (mkNode K_BITVECTOR_MULT [x, c])" "getSize (mkNode K_BITVECTOR_MULT [x, c]) = getSize s"
      "val G m (mkNode K_BITVECTOR_MULT [x, c]) = (val G m x * val G m c) mod 2 ^ getSize s" if "x \<in> {a, b}" for x
      using that ab(2-5) assms(4,5) by (auto simp: term_simps take_bit_eq_mod)
    show ?thesis
      unfolding r ab(6) using p [of a] p [of b] by (simp add: term_simps take_bit_eq_mod mod_simps left_diff_distrib)
  qed
  then show "bv_term r" "getSize r = getSize s" "val G m r = (val G m s * val G m c) mod 2 ^ getSize s"
    by auto
qed

text \<open>A product of two factors.\<close>

lemma rewrites_product:
  assumes "isKind K_BITVECTOR_MULT n" "length (children n) = 2"
    "\<And>a b w. n = mkNode K_BITVECTOR_MULT [a, b] \<Longrightarrow> bv_term a \<Longrightarrow> bv_term b \<Longrightarrow> getSize a = w \<Longrightarrow> getSize b = w \<Longrightarrow>
      bv_term n' \<and> getSize n' = w \<and> (\<forall>m. val G m n' = (val G m a * val G m b) mod 2 ^ w)"
  shows "rewrites_to G n n'"
  using assms(1)
proof (rule nary_mult.rewrites_operator)
  fix ns w
  assume n: "n = mkNode K_BITVECTOR_MULT ns" and ns: "\<forall>a\<in>set ns. bv_term a \<and> getSize a = w"
  then obtain a b where "ns = [a, b]"
    using assms(2) by (auto simp: length_Suc_conv numeral_2_eq_2)
  with assms(3) [of a b w] n ns
  show "bv_term n' \<and> getSize n' = w \<and> (\<forall>m. val G m n' = take_bit w (foldr (*) (map (val G m) ns) 1))"
    by (simp add: take_bit_eq_mod)
qed

lemma MultDistrib_sound: "MultDistrib_applies n \<Longrightarrow> rewrites_to G n (MultDistrib n)"
  unfolding MultDistrib_applies_def
proof (elim conjE, erule (1) rewrites_product)
  fix a b w
  assume n: "n = mkNode K_BITVECTOR_MULT [a, b]" and sums: "if is_sum (child n 0) then \<not> is_sum (child n 1) else is_sum (child n 1)"
    and ab: "bv_term a" "bv_term b" "getSize a = w" "getSize b = w"
  have ch: "child n 0 = a" "child n 1 = b"
    unfolding n by (rule child_Cons)+
  define s c where "s = (if is_sum a then a else b)" and "c = (if is_sum a then b else a)"
  have sc: "is_sum s" "bv_term s" "bv_term c" "getSize c = getSize s" "getSize s = w" "val G m s * val G m c = val G m a * val G m b" for m
    using sums ab unfolding ch s_def c_def by (auto split: if_splits)
  then obtain k ns where s: "s = mkNode k ns"
    by (auto elim: isKindE)
  have "MultDistrib n = mkNaryNode k (map (\<lambda>x. mkNode K_BITVECTOR_MULT [x, c]) ns)"
    unfolding MultDistrib_def ch Let_def using s by (auto simp: s_def c_def split: if_splits)
  from distribute [OF sc(1) s sc(2-4) this] sc(5,6)
  show "bv_term (MultDistrib n) \<and> getSize (MultDistrib n) = w \<and> (\<forall>m. val G m (MultDistrib n) = (val G m a * val G m b) mod 2 ^ w)"
    by simp
qed

lemma neg_const_node:
  assumes "bv_term c" "isConst c"
  shows "bv_term (CONST_BITVECTOR (bv_neg G (getConst c)))" "getSize (CONST_BITVECTOR (bv_neg G (getConst c))) = getSize c"
    "val G m (CONST_BITVECTOR (bv_neg G (getConst c))) = (- val G m c) mod 2 ^ getSize c"
proof -
  obtain b where c: "c = CONST_BITVECTOR b"
    using const_bv_term assms by blast
  have sz: "getSize c = d_size b" "val G m c = d_value b" "d_size b < 2 ^ 32" "0 < d_size b"
    using bv_termD(2) [OF assms(1)] bv_term_width [OF assms(1)]
    by (auto simp: c term_simps BitVectorConstantTypeRule_def split: if_splits)
  then have "bv_inv (bv_neg G b)"
    by (intro inv_take_bit [OF sz(3)]) (simp_all add: value_neg)
  with const_term [of "bv_neg G b"] sz(4)
  show "bv_term (CONST_BITVECTOR (bv_neg G (getConst c)))" "getSize (CONST_BITVECTOR (bv_neg G (getConst c))) = getSize c"
    using sz(1) by (simp_all add: c)
  show "val G m (CONST_BITVECTOR (bv_neg G (getConst c))) = (- val G m c) mod 2 ^ getSize c"
    using sz(1,2) by (simp add: c val_const value_neg take_bit_eq_mod)
qed

lemma MultDistribConst_sound: "MultDistribConst_applies n \<Longrightarrow> rewrites_to G n (MultDistribConst G n)"
  unfolding MultDistribConst_applies_def
proof (elim conjE, erule (1) rewrites_product)
  fix a b w
  assume n: "n = mkNode K_BITVECTOR_MULT [a, b]" and k: "isConst (child n 1)"
      "isKind K_BITVECTOR_ADD (child n 0) \<or> isKind K_BITVECTOR_SUB (child n 0) \<or> isKind K_BITVECTOR_NEG (child n 0)"
    and ab: "bv_term a" "bv_term b" "getSize a = w" "getSize b = w"
  have ch: "child n 0 = a" "child n 1 = b"
    unfolding n by (rule child_Cons)+
  show "bv_term (MultDistribConst G n) \<and> getSize (MultDistribConst G n) = w \<and>
    (\<forall>m. val G m (MultDistribConst G n) = (val G m a * val G m b) mod 2 ^ w)"
  proof (cases "isKind K_BITVECTOR_NEG a")
    case True
    then obtain x where x: "a = mkNode K_BITVECTOR_NEG [x]" "bv_term x" "getSize x = getSize a" "\<And>m. val G m a = (- val G m x) mod 2 ^ getSize a"
      using ab(1) by (rule neg_node) auto
    have b: "isConst b"
      using k(1) ch by simp
    define d where "d = CONST_BITVECTOR (bv_neg G (getConst b))"
    note c = neg_const_node [OF ab(2) b, folded d_def]
    have r: "MultDistribConst G n = mkNode K_BITVECTOR_MULT [x, d]"
      unfolding MultDistribConst_def ch Let_def by (simp add: x(1) child_Cons d_def)
    show ?thesis
      unfolding r using c x(2-4) ab(3,4) by (simp add: term_simps take_bit_eq_mod mod_simps)
  next
    case False
    then have sm: "is_sum a"
      using k(2) ch by simp
    then obtain k ns where s: "a = mkNode k ns"
      by (auto elim: isKindE)
    have "MultDistribConst G n = mkNaryNode k (map (\<lambda>x. mkNode K_BITVECTOR_MULT [x, b]) ns)"
      unfolding MultDistribConst_def ch Let_def using s False by simp
    from distribute [OF sm s ab(1,2) _ this] ab(3,4) show ?thesis
      by simp
  qed
qed

end

end
