(* ===== verification/Bv_Coefficients.thy ===== *)
theory Bv_Coefficients
  imports Bv_Sum_Rules
begin

text \<open>
  Soundness of the two rules that collect constants: the constant factor of a product
  (\<^verbatim>\<open>MultSimplify\<close>) and the coefficients of a sum (\<^verbatim>\<open>AddCombineLikeTerms\<close>).
\<close>

definition bv_at :: "nat \<Rightarrow> bitvector \<Rightarrow> bool" where
  "bv_at w b \<longleftrightarrow> bv_inv b \<and> d_size b = w \<and> 0 < w"

abbreviation terms_at :: "nat \<Rightarrow> node set \<Rightarrow> bool" where
  "terms_at w A \<equiv> \<forall>a\<in>A. bv_term a \<and> getSize a = w"

text \<open>The value of a table of coefficients.\<close>

definition coef_sum :: "gmp \<Rightarrow> model \<Rightarrow> (node \<times> bitvector) list \<Rightarrow> int" where
  "coef_sum G m coefs = sum_list (map (\<lambda>(t, c). d_value c * val G m t) coefs)"

definition coefs_at :: "nat \<Rightarrow> (node \<times> bitvector) list \<Rightarrow> bool" where
  "coefs_at w coefs \<longleftrightarrow> (\<forall>(t, c)\<in>set coefs. bv_term t \<and> getSize t = w \<and> bv_at w c)"

context gmp_documented
begin

lemma bv_at_const:
  assumes "bv_at w b"
  shows "bv_term (CONST_BITVECTOR b)" "getSize (CONST_BITVECTOR b) = w" "val G m (CONST_BITVECTOR b) = d_value b"
  using assms const_term [of b] by (auto simp: bv_at_def term_simps)

lemma const_bv_at:
  assumes "bv_term c" "getSize c = w" "isConst c \<or> is_const_bv c"
  shows "bv_at w (getConst c)" "d_value (getConst c) = val G m c"
proof -
  obtain b where c: "c = CONST_BITVECTOR b"
    using const_bv_term [OF assms(1)] assms(3) is_const_bv_eq by blast
  show "bv_at w (getConst c)" "d_value (getConst c) = val G m c"
    using assms(1,2) bv_term_value(1,2) [OF assms(1), of m] bv_term_width(1) [OF assms(1)]
    by (auto simp: c bv_at_def term_simps bvval_const)
qed

lemma bv_at_mk: "0 < w \<Longrightarrow> w < 2 ^ 32 \<Longrightarrow> bv_at w (mk_bv G w v)"
  by (simp add: bv_at_def)

lemma bv_at_ops:
  assumes "bv_at w a"
  shows "bv_at w (bv_add G a b)" "bv_at w (bv_mult G a b)" "bv_at w (bv_neg G a)" "bv_at w (bv_resize G w a)"
proof -
  have a: "bv_inv a" "d_size a = w" "0 < w" "w < 2 ^ 32"
    using assms bv_invD(3) [of a] by (auto simp: bv_at_def)
  show "bv_at w (bv_add G a b)" "bv_at w (bv_mult G a b)"
    using a inv_binary(5,8) [of a b] by (simp_all add: bv_at_def)
  show "bv_at w (bv_neg G a)" "bv_at w (bv_resize G w a)"
    using a inv_take_bit [OF a(4), of "bv_neg G a" "- d_value a"] inv_take_bit [OF a(4), of "bv_resize G w a" "d_value a"]
    by (simp_all add: bv_at_def value_neg bv_resize_def modByPow2_eq)
qed

lemma bv_at_values:
  assumes "bv_at w a"
  shows "d_value (bv_add G a b) = (d_value a + d_value b) mod 2 ^ w" "d_value (bv_mult G a b) = (d_value a * d_value b) mod 2 ^ w"
    "d_value (bv_neg G a) = (- d_value a) mod 2 ^ w" "d_value (bv_resize G w a) = d_value a" "d_value a mod 2 ^ w = d_value a"
proof -
  have a: "bv_inv a" "d_size a = w"
    using assms by (simp_all add: bv_at_def)
  show "d_value (bv_add G a b) = (d_value a + d_value b) mod 2 ^ w" "d_value (bv_mult G a b) = (d_value a * d_value b) mod 2 ^ w"
    "d_value (bv_neg G a) = (- d_value a) mod 2 ^ w"
    using a by (simp_all add: value_add value_mult value_neg take_bit_eq_mod)
  show v: "d_value a mod 2 ^ w = d_value a"
    using bv_inv_take_bit [OF a(1)] a(2) by (simp add: take_bit_eq_mod)
  then show "d_value (bv_resize G w a) = d_value a"
    by (simp add: bv_resize_def modByPow2_eq take_bit_eq_mod)
qed

lemma ones_at:
  assumes "0 < w" "w < 2 ^ 32"
  shows "bv_at w (bv_mkOnes G w)" "d_value (bv_mkOnes G w) = (- 1) mod 2 ^ w"
proof -
  note u = constant_nodes(1-3) [OF assms, unfolded utils_mkOnes_def]
  show "bv_at w (bv_mkOnes G w)"
    using const_bv_at(1) [OF u(1,2)] by simp
  have "(- 1) mod 2 ^ w = (2 ^ w - 1 :: int)"
    using zmod_minus1 [of "2 ^ w"] by simp
  then show "d_value (bv_mkOnes G w) = (- 1) mod 2 ^ w"
    using const_bv_at(2) [OF u(1,2)] u(3) by simp
qed

lemma bv_at_eq:
  assumes "bv_at w a"
  shows "bv_eq a (mk_bv G w v) \<longleftrightarrow> d_value a = v mod 2 ^ w" "bv_eq a (bv_mkOnes G w) \<longleftrightarrow> d_value a = (- 1) mod 2 ^ w"
    "bv_eq a (bv_neg G (mk_bv G w v)) \<longleftrightarrow> d_value a = (- v) mod 2 ^ w"
proof -
  have w: "d_size a = w" "0 < w" "w < 2 ^ 32"
    using assms bv_invD(3) [of a] by (auto simp: bv_at_def)
  show "bv_eq a (mk_bv G w v) \<longleftrightarrow> d_value a = v mod 2 ^ w"
    "bv_eq a (bv_neg G (mk_bv G w v)) \<longleftrightarrow> d_value a = (- v) mod 2 ^ w"
    using w(1) by (simp_all add: bv_eq_def value_neg take_bit_eq_mod mod_simps)
  show "bv_eq a (bv_mkOnes G w) \<longleftrightarrow> d_value a = (- 1) mod 2 ^ w"
    using ones_at [OF w(2,3)] w(1) by (simp add: bv_eq_def bv_at_def)
qed

section \<open>Products\<close>

lemma mult_mod_cong: "x mod M = y mod M \<Longrightarrow> (x * a) mod M = (y * a) mod (M :: int)"
  by (metis mod_mult_left_eq)

lemma simplify_factor:
  assumes "bv_term c" "getSize c = w"
    "x = (if isKind K_BITVECTOR_NEG c then child c 0 else c)" "neg' = (if isKind K_BITVECTOR_NEG c then \<not> neg else neg)"
  shows "bv_term x" "getSize x = w" "(sign neg * val G m c) mod 2 ^ w = (sign neg' * val G m x) mod 2 ^ w"
proof -
  have "bv_term x \<and> getSize x = w \<and> (sign neg * val G m c) mod 2 ^ w = (sign neg' * val G m x) mod 2 ^ w"
  proof (cases "isKind K_BITVECTOR_NEG c")
    case True
    then obtain a where "c = mkNode K_BITVECTOR_NEG [a]" "bv_term a" "getSize a = getSize c" "val G m c = (- val G m a) mod 2 ^ getSize c"
      using assms(1) by (rule neg_node) auto
    then show ?thesis
      using assms(2-4) True by (simp add: child_Cons mod_simps)
  qed (use assms in simp)
  then show "bv_term x" "getSize x = w" "(sign neg * val G m c) mod 2 ^ w = (sign neg' * val G m x) mod 2 ^ w"
    by auto
qed

lemma mult_simplify_loop:
  assumes "terms_at w (set ns \<union> set cs)" "bv_at w c"
  shows "case mult_simplify_loop G w ns (c, neg, cs) of
      None \<Rightarrow> (sign neg * d_value c * prod_list (map (val G m) cs) * prod_list (map (val G m) ns)) mod 2 ^ w = 0
    | Some (c', neg', cs') \<Rightarrow> terms_at w (set cs') \<and> bv_at w c' \<and>
        (sign neg * d_value c * prod_list (map (val G m) cs) * prod_list (map (val G m) ns)) mod 2 ^ w =
        (sign neg' * d_value c' * prod_list (map (val G m) cs')) mod 2 ^ w"
  using assms
proof (induction ns arbitrary: c neg cs)
  case (Cons a ns)
  define x where "x = (if isKind K_BITVECTOR_NEG a then child a 0 else a)"
  define n1 where "n1 = (if isKind K_BITVECTOR_NEG a then \<not> neg else neg)"
  let ?P = "prod_list (map (val G m) cs)" and ?R = "prod_list (map (val G m) ns)"
  have a: "bv_term a" "getSize a = w"
    using Cons.prems(1) by auto
  note x = simplify_factor [OF a x_def n1_def]
  have "(sign neg * val G m a) * (d_value c * ?P * ?R) mod 2 ^ w = (sign n1 * val G m x) * (d_value c * ?P * ?R) mod 2 ^ w"
    using x(3) [of m] by (rule mult_mod_cong)
  then have eq: "(sign neg * d_value c * ?P * prod_list (map (val G m) (a # ns))) mod 2 ^ w = (sign n1 * (d_value c * val G m x) * ?P * ?R) mod 2 ^ w"
    by (simp only: list.map prod_list.Cons ac_simps)
  show ?case
  proof (cases "is_const_bv x")
    case True
    define c1 where "c1 = bv_mult G c (getConst x)"
    have c1: "bv_at w c1" "d_value c1 = (d_value c * val G m x) mod 2 ^ w"
      using bv_at_ops(2) [OF Cons.prems(2)] bv_at_values(2) [OF Cons.prems(2)] const_bv_at(2) [OF x(1,2)] True by (simp_all add: c1_def)
    have "d_value c1 mod 2 ^ w = (d_value c * val G m x) mod 2 ^ w"
      using c1(2) by simp
    then have "d_value c1 * (sign n1 * ?P * ?R) mod 2 ^ w = (d_value c * val G m x) * (sign n1 * ?P * ?R) mod 2 ^ w"
      by (rule mult_mod_cong)
    then have eq1: "(sign neg * d_value c * ?P * prod_list (map (val G m) (a # ns))) mod 2 ^ w = (sign n1 * d_value c1 * ?P * ?R) mod 2 ^ w"
      unfolding eq by (simp only: ac_simps)
    show ?thesis
    proof (cases "bv_eq c1 (mk_bv G w 0)")
      case zero: True
      then have "d_value c1 = 0"
        using bv_at_eq(1) [OF c1(1), of 0] by simp
      then show ?thesis
        using True zero eq1 by (simp add: Let_def c1_def x_def n1_def)
    next
      case False
      then have "mult_simplify_loop G w (a # ns) (c, neg, cs) = mult_simplify_loop G w ns (c1, n1, cs)"
        using True by (simp add: Let_def c1_def x_def n1_def)
      with Cons.IH [of cs c1 n1] Cons.prems(1) c1(1) show ?thesis
        by (simp only: eq1) simp
    qed
  next
    case False
    then have step: "mult_simplify_loop G w (a # ns) (c, neg, cs) = mult_simplify_loop G w ns (c, n1, cs @ [x])"
      by (simp add: Let_def x_def n1_def)
    have "sign n1 * (d_value c * val G m x) * ?P * ?R = sign n1 * d_value c * prod_list (map (val G m) (cs @ [x])) * ?R"
      by simp
    with Cons.IH [of "cs @ [x]" c n1] Cons.prems x(1,2) show ?thesis
      unfolding step by (simp only: eq) auto
  qed
qed simp

lemma product_node:
  assumes "ns \<noteq> []" "terms_at w (set ns)"
  shows "bv_term (mkNaryNode K_BITVECTOR_MULT ns)" "getSize (mkNaryNode K_BITVECTOR_MULT ns) = w"
    "val G m (mkNaryNode K_BITVECTOR_MULT ns) = prod_list (map (val G m) ns) mod 2 ^ w"
  using nary_mult.operator_list [OF assms, where r = "mkNaryNode K_BITVECTOR_MULT ns"] by (simp_all add: prod_list.eq_foldr take_bit_eq_mod)

lemma prod_list_sort: "prod_list (map g (sort_key key xs)) = prod_list (map g xs :: int list)"
  by (simp flip: prod_mset_prod_list)

text \<open>Negation at width one does nothing, which the rule uses.\<close>

lemma negate_node:
  assumes "bv_term r" "getSize r = w" "q = (if neg \<and> w > 1 then mkNode K_BITVECTOR_NEG [r] else r)"
  shows "bv_term q" "getSize q = w" "val G m q = (sign neg * val G m r) mod 2 ^ w"
proof -
  have "(- v) mod 2 = v mod (2 :: int)" for v
    by (simp add: mod_2_eq_odd)
  moreover have "w = 1 \<or> 1 < w"
    using bv_term_width(1) [OF assms(1)] assms(2) by auto
  ultimately show "bv_term q" "getSize q = w" "val G m q = (sign neg * val G m r) mod 2 ^ w"
    using assms val_bounds(3) [OF assms(1), of m] by (auto simp: term_simps take_bit_eq_mod)
qed

lemma MultSimplify_sound: "MultSimplify_applies n \<Longrightarrow> rewrites_to G n (MultSimplify G getId n)"
  unfolding MultSimplify_applies_def
proof (erule nary_mult.rewrites_operator)
  fix ns w
  assume n: "n = mkNode K_BITVECTOR_MULT ns" and ns: "getSize n = w" "terms_at w (set ns)" "0 < w" "w < 2 ^ 32"
  define r where "r = MultSimplify G getId n"
  let ?loop = "mult_simplify_loop G w ns (mk_bv G w 1, False, [])"
  have start: "terms_at w (set ns \<union> set [])" "bv_at w (mk_bv G w 1)" "d_value (mk_bv G w 1) = 1"
    using ns bv_at_mk by (simp_all add: take_bit_eq_mod)
  note loop = mult_simplify_loop [OF start(1,2), where neg = False, unfolded start(3)]
  have "bv_term r \<and> getSize r = w \<and> val G m r = prod_list (map (val G m) ns) mod 2 ^ w" for m
  proof (cases ?loop)
    case None
    then have "r = mkConst G w 0"
      by (simp add: r_def MultSimplify_def n ns(1) [unfolded n])
    then show ?thesis
      using loop [of m] None ns(3,4) by (simp add: term_simps)
  next
    case (Some s)
    obtain c neg cs where s: "s = (c, neg, cs)"
      by (cases s)
    have inv: "terms_at w (set cs)" "bv_at w c"
      "prod_list (map (val G m) ns) mod 2 ^ w = (sign neg * d_value c * prod_list (map (val G m) cs)) mod 2 ^ w"
      using loop [of m] Some by (simp_all add: s)
    define c1 where "c1 = (if neg then bv_neg G c else c)"
    have c1: "bv_at w c1" "d_value c1 = (sign neg * d_value c) mod 2 ^ w"
      using inv(2) bv_at_ops(3) [OF inv(2)] bv_at_values(3,5) [OF inv(2)] by (simp_all add: c1_def)
    show ?thesis
    proof (cases "cs = []")
      case True
      then have "r = CONST_BITVECTOR c1"
        using Some by (simp add: r_def MultSimplify_def n ns(1) [unfolded n] s c1_def)
      then show ?thesis
        using bv_at_const [OF c1(1)] c1(2) inv(3) True by simp
    next
      case False
      define ss where "ss = sort_key getId cs"
      define neg1 where "neg1 = (if bv_eq c (bv_mkOnes G w) then \<not> neg else if \<not> bv_eq c (mk_bv G w 1) then False else neg)"
      define cs1 where "cs1 = ss @ (if bv_eq c (bv_mkOnes G w) \<or> bv_eq c (mk_bv G w 1) then [] else [CONST_BITVECTOR c1])"
      have "r = (if neg1 \<and> w > 1 then mkNode K_BITVECTOR_NEG [mkNaryNode K_BITVECTOR_MULT cs1] else mkNaryNode K_BITVECTOR_MULT cs1)"
        using Some False by (simp add: r_def MultSimplify_def n ns(1) [unfolded n] s c1_def ss_def neg1_def cs1_def Let_def)
      moreover have "cs1 \<noteq> []"
        using False by (simp add: cs1_def ss_def) (metis set_empty set_sort)
      moreover have "terms_at w (set cs1)"
        using inv(1) bv_at_const(1,2) [OF c1(1)] by (auto simp: cs1_def ss_def)
      moreover have "(sign neg1 * prod_list (map (val G m) cs1)) mod 2 ^ w = (sign neg * d_value c * prod_list (map (val G m) cs)) mod 2 ^ w"
      proof -
        have P: "prod_list (map (val G m) ss) = prod_list (map (val G m) cs)"
          by (simp add: ss_def prod_list_sort)
        consider "bv_eq c (bv_mkOnes G w)" | "\<not> bv_eq c (bv_mkOnes G w)" "bv_eq c (mk_bv G w 1)"
          | "\<not> bv_eq c (bv_mkOnes G w)" "\<not> bv_eq c (mk_bv G w 1)"
          by blast
        then show ?thesis
        proof cases
          case 1
          then have "d_value c mod 2 ^ w = (- 1) mod 2 ^ w"
            using bv_at_eq(2) [OF inv(2)] by simp
          from mult_mod_cong [OF this, of "sign neg * prod_list (map (val G m) cs)"] show ?thesis
            using 1 P by (simp add: neg1_def cs1_def ac_simps)
        next
          case 2
          then have "d_value c = 1 mod 2 ^ w"
            using bv_at_eq(1) [OF inv(2)] by simp
          then show ?thesis
            using 2 P by (simp add: neg1_def cs1_def mod_simps)
        next
          case 3
          then show ?thesis
            using P bv_at_const(3) [OF c1(1)] c1(2) by (simp add: neg1_def cs1_def mod_simps ac_simps)
        qed
      qed
      ultimately show ?thesis
        using negate_node [of "mkNaryNode K_BITVECTOR_MULT cs1" w r neg1] product_node [of cs1 w] inv(3)
        by (simp add: mod_simps)
    qed
  qed
  then show "bv_term (MultSimplify G getId n) \<and> getSize (MultSimplify G getId n) = w \<and>
    (\<forall>m. val G m (MultSimplify G getId n) = take_bit w (foldr (*) (map (val G m) ns) 1))"
    by (simp add: r_def prod_list.eq_foldr take_bit_eq_mod)
qed

section \<open>Sums\<close>

lemma add_mod_cong: "x mod M = y mod M \<Longrightarrow> (x + a) mod M = (y + a) mod (M :: int)"
  by (metis mod_add_left_eq)

lemma affine_mod: "(A + x mod M * v) mod M = (A + x * v) mod M" "(A + v * (x mod M)) mod M = (A + v * x) mod (M :: int)"
  by (metis mod_add_right_eq mod_mult_left_eq) (metis mod_add_right_eq mod_mult_right_eq)

lemma addToCoefMap:
  assumes "coefs_at w coefs" "bv_term t" "getSize t = w" "bv_at w c"
  shows "coefs_at w (addToCoefMap G getId coefs t c)"
    "coef_sum G m (addToCoefMap G getId coefs t c) mod 2 ^ w = (coef_sum G m coefs + d_value c * val G m t) mod 2 ^ w"
proof -
  have "coefs_at w (addToCoefMap G getId coefs t c) \<and>
    coef_sum G m (addToCoefMap G getId coefs t c) mod 2 ^ w = (coef_sum G m coefs + d_value c * val G m t) mod 2 ^ w"
    using assms(1)
  proof (induction coefs)
    case Nil
    then show ?case
      using assms by (simp add: coefs_at_def coef_sum_def)
  next
    case (Cons e coefs)
    obtain t' c' where e: "e = (t', c')"
      by (cases e)
    have c': "bv_at w c'" and rest: "coefs_at w coefs"
      using Cons.prems by (auto simp: coefs_at_def e)
    show ?case
    proof (cases "t' = t")
      case True
      have "((d_value c' + d_value c) mod 2 ^ w * val G m t + coef_sum G m coefs) mod 2 ^ w =
          (d_value c' * val G m t + coef_sum G m coefs + d_value c * val G m t) mod 2 ^ w"
        by (subst add_mod_cong [OF mod_mult_left_eq]) (simp add: algebra_simps)
      then show ?thesis
        using True Cons.prems bv_at_ops(1) [OF c'] bv_at_values(1) [OF c']
        by (simp add: e coefs_at_def coef_sum_def)
    next
      case False
      have "(d_value c' * val G m t' + coef_sum G m (addToCoefMap G getId coefs t c)) mod 2 ^ w =
          (d_value c' * val G m t' + (coef_sum G m coefs + d_value c * val G m t)) mod 2 ^ w"
        using Cons.IH [OF rest] by (metis mod_add_right_eq)
      then show ?thesis
        using False Cons.prems Cons.IH [OF rest] assms(2-4) by (auto simp: e coefs_at_def coef_sum_def algebra_simps)
    qed
  qed
  then show "coefs_at w (addToCoefMap G getId coefs t c)"
    "coef_sum G m (addToCoefMap G getId coefs t c) mod 2 ^ w = (coef_sum G m coefs + d_value c * val G m t) mod 2 ^ w"
    by auto
qed

lemma coefficient:
  assumes "bv_term p" "getSize p = w" "isKind K_BITVECTOR_MULT p" "coefficient G w p = (c, t)"
  shows "bv_at w c" "bv_term t" "getSize t = w" "val G m p = (d_value c * val G m t) mod 2 ^ w"
proof -
  obtain cs where p: "p = mkNode K_BITVECTOR_MULT cs"
    using assms(3) by (rule isKind_cases)
  note o = nary_mult.operator_children [OF assms(1) [unfolded p] assms(2) [unfolded p]]
  have v: "val G m p = prod_list (map (val G m) cs) mod 2 ^ w"
    using o(3) by (simp add: p prod_list.eq_foldr take_bit_eq_mod)
  have w: "0 < w" "w < 2 ^ 32"
    using bv_term_width [OF assms(1)] assms(2) by auto
  have "cs \<noteq> []"
    using o(1) by auto
  then have l: "bv_term (last cs)" "getSize (last cs) = w" and split: "cs = butlast cs @ [last cs]"
    using o(2) by simp_all
  have "bv_at w c \<and> bv_term t \<and> getSize t = w \<and> val G m p = (d_value c * val G m t) mod 2 ^ w"
  proof -
    consider a b where "cs = [a, b]" "isConst b" | "length cs \<noteq> 2" "isConst (last cs)"
      | "c = mk_bv G w 1" "t = p"
      using assms(4) by (auto simp: coefficient_def p Let_def length_Suc_conv numeral_2_eq_2 split: if_splits)
    then show ?thesis
    proof cases
      case (1 a b)
      then show ?thesis
        using assms(4) const_bv_at [of b w] o(2) v by (simp add: coefficient_def p Let_def mult.commute)
    next
      case 2
      then have ct: "c = getConst (last cs)" "t = mkNode K_BITVECTOR_MULT (butlast cs)"
        using assms(4) by (auto simp: coefficient_def p Let_def)
      have b: "2 \<le> length (butlast cs)" "terms_at w (set (butlast cs))" "butlast cs \<noteq> []"
        using 2(1) o(1,2) by (auto dest: in_set_butlastD simp flip: length_0_conv)
      have "prod_list (map (val G m) cs) = prod_list (map (val G m) (butlast cs)) * val G m (last cs)"
        by (subst split) simp
      then show ?thesis
        using v const_bv_at [OF l] 2(2) nary_term [OF _ b(1,2), of K_BITVECTOR_MULT] val_lists(1) [OF b(3,2), of m]
        by (simp add: ct take_bit_eq_mod mod_simps ac_simps)
    next
      case 3
      then show ?thesis
        using assms(1,2) bv_at_mk [OF w] val_bounds(3) [OF assms(1), of m] w by (simp add: take_bit_eq_mod)
    qed
  qed
  then show "bv_at w c" "bv_term t" "getSize t = w" "val G m p = (d_value c * val G m t) mod 2 ^ w"
    by auto
qed

text \<open>A term with its coefficient, when the term is a difference or a negation.\<close>

lemma add_difference:
  assumes "coefs_at w coefs" "bv_term t" "getSize t = w" "isKind K_BITVECTOR_SUB t" "bv_at w c"
    "r = addToCoefMap G getId (addToCoefMap G getId coefs (child t 0) c) (child t 1) (bv_neg G c)"
  shows "coefs_at w r" "coef_sum G m r mod 2 ^ w = (coef_sum G m coefs + d_value c * val G m t) mod 2 ^ w"
proof -
  obtain a b where ab: "t = mkNode K_BITVECTOR_SUB [a, b]" "bv_term a" "bv_term b" "getSize a = w" "getSize b = w"
    "val G m t = (val G m a - val G m b) mod 2 ^ w"
    using assms(3,4,2) sub_node by metis
  have ch: "child t 0 = a" "child t 1 = b"
    unfolding ab(1) by (rule child_Cons)+
  note one = addToCoefMap [OF assms(1) ab(2,4) assms(5), where getId = getId]
  note two = addToCoefMap [OF one(1) ab(3,5) bv_at_ops(3) [OF assms(5)], where getId = getId]
  show "coefs_at w r"
    unfolding assms(6) ch by (rule two(1))
  have "coef_sum G m r mod 2 ^ w = (coef_sum G m (addToCoefMap G getId coefs a c) + (- d_value c) mod 2 ^ w * val G m b) mod 2 ^ w"
    unfolding assms(6) ch two(2) bv_at_values(3) [OF assms(5)] ..
  also have "\<dots> = (coef_sum G m coefs + d_value c * val G m a + (- d_value c) mod 2 ^ w * val G m b) mod 2 ^ w"
    by (rule add_mod_cong) (rule one(2))
  also have "\<dots> = (coef_sum G m coefs + d_value c * val G m t) mod 2 ^ w"
    unfolding ab(6) affine_mod by (simp add: algebra_simps)
  finally show "coef_sum G m r mod 2 ^ w = (coef_sum G m coefs + d_value c * val G m t) mod 2 ^ w" .
qed

lemma add_negation:
  assumes "coefs_at w coefs" "bv_term t" "getSize t = w" "isKind K_BITVECTOR_NEG t" "bv_at w c" "r = addToCoefMap G getId coefs (child t 0) (bv_neg G c)"
  shows "coefs_at w r" "coef_sum G m r mod 2 ^ w = (coef_sum G m coefs + d_value c * val G m t) mod 2 ^ w"
proof -
  obtain a where a: "t = mkNode K_BITVECTOR_NEG [a]" "bv_term a" "getSize a = w" "val G m t = (- val G m a) mod 2 ^ w"
    using assms(3,4,2) neg_node by metis
  note one = addToCoefMap [OF assms(1) a(2,3) bv_at_ops(3) [OF assms(5)], where getId = getId]
  show "coefs_at w r" "coef_sum G m r mod 2 ^ w = (coef_sum G m coefs + d_value c * val G m t) mod 2 ^ w"
    using one(1) one(2) [of m] a(4) bv_at_values(3) [OF assms(5)] unfolding assms(6) by (simp_all add: a(1) child_Cons affine_mod)
qed

lemma updateCoefMap:
  assumes "coefs_at w coefs" "bv_at w s" "bv_term t" "getSize t = w" "updateCoefMap G getId w (coefs, s) t = (coefs', s')"
  shows "coefs_at w coefs'" "bv_at w s'"
    "(coef_sum G m coefs' + d_value s') mod 2 ^ w = (coef_sum G m coefs + d_value s + val G m t) mod 2 ^ w"
proof -
  have w: "0 < w" "w < 2 ^ 32"
    using bv_term_width [OF assms(3)] assms(4) by auto
  define one where "one = mk_bv G w 1"
  have one: "bv_at w one" "d_value one = 1"
    using bv_at_mk [OF w] w by (simp_all add: one_def take_bit_eq_mod)
  have "coefs_at w coefs' \<and> bv_at w s' \<and>
    (coef_sum G m coefs' + d_value s') mod 2 ^ w = (coef_sum G m coefs + d_value s + val G m t) mod 2 ^ w"
  proof (cases "\<not> isKind K_BITVECTOR_MULT t \<and> \<not> isKind K_BITVECTOR_SUB t \<and> \<not> isKind K_BITVECTOR_NEG t \<and> is_const_bv t")
    case True
    then have "coefs' = coefs" "s' = bv_add G s (getConst t)"
      using assms(5) by (auto simp: updateCoefMap_def)
    then show ?thesis
      using assms(1) bv_at_ops(1) [OF assms(2)] bv_at_values(1) [OF assms(2)] const_bv_at(2) [OF assms(3,4)] True
      by (simp add: mod_simps add.assoc)
  next
    case False
    have "coefs_at w coefs' \<and> s' = s \<and> coef_sum G m coefs' mod 2 ^ w = (coef_sum G m coefs + val G m t) mod 2 ^ w"
    proof (cases "isKind K_BITVECTOR_MULT t")
      case True
      obtain c u where cu: "coefficient G w t = (c, u)"
        by (cases "coefficient G w t")
      note co = coefficient [OF assms(3,4) True cu]
      have "bv_resize G w c = c"
        using co(1) bv_at_values(4,5) [OF co(1)] by (auto simp: bv_resize_def bv_at_def intro: bv_eqI)
      then have "coefs' = (if isKind K_BITVECTOR_SUB u
            then addToCoefMap G getId (addToCoefMap G getId coefs (child u 0) c) (child u 1) (bv_neg G c)
          else if isKind K_BITVECTOR_NEG u then addToCoefMap G getId coefs (child u 0) (bv_neg G c)
          else addToCoefMap G getId coefs u c)" "s' = s"
        using assms(5) True cu by (auto simp: updateCoefMap_def Let_def split: if_splits)
      moreover have "(coef_sum G m coefs + val G m t) mod 2 ^ w = (coef_sum G m coefs + d_value c * val G m u) mod 2 ^ w"
        unfolding co(4) by (simp add: mod_simps)
      ultimately show ?thesis
        using add_difference [OF assms(1) co(2,3) _ co(1) refl] add_negation [OF assms(1) co(2,3) _ co(1) refl] addToCoefMap [OF assms(1) co(2,3,1)]
        by simp
    next
      case nomult: False
      then have "coefs' = (if isKind K_BITVECTOR_SUB t
            then addToCoefMap G getId (addToCoefMap G getId coefs (child t 0) one) (child t 1) (bv_neg G one)
          else if isKind K_BITVECTOR_NEG t then addToCoefMap G getId coefs (child t 0) (bv_neg G one)
          else addToCoefMap G getId coefs t one)" "s' = s"
        using assms(5) False by (auto simp: updateCoefMap_def one_def Let_def split: if_splits)
      then show ?thesis
        using add_difference [OF assms(1,3,4) _ one(1) refl] add_negation [OF assms(1,3,4) _ one(1) refl] addToCoefMap [OF assms(1,3,4) one(1)]
        by (simp add: one(2))
    qed
    then show ?thesis
      using assms(2) add_mod_cong [of "coef_sum G m coefs'" "2 ^ w" "coef_sum G m coefs + val G m t" "d_value s"] by (simp add: ac_simps)
  qed
  then show "coefs_at w coefs'" "bv_at w s'"
    "(coef_sum G m coefs' + d_value s') mod 2 ^ w = (coef_sum G m coefs + d_value s + val G m t) mod 2 ^ w"
    by auto
qed

lemma updateCoefMap_fold:
  assumes "coefs_at w coefs" "bv_at w s" "terms_at w (set ns)" "foldl (updateCoefMap G getId w) (coefs, s) ns = (coefs', s')"
  shows "coefs_at w coefs' \<and> bv_at w s' \<and>
    (coef_sum G m coefs' + d_value s') mod 2 ^ w = (coef_sum G m coefs + d_value s + sum_list (map (val G m) ns)) mod 2 ^ w"
  using assms
proof (induction ns arbitrary: coefs s)
  case (Cons t ns)
  obtain c1 s1 where step: "updateCoefMap G getId w (coefs, s) t = (c1, s1)"
    by (cases "updateCoefMap G getId w (coefs, s) t")
  have t: "bv_term t" "getSize t = w"
    using Cons.prems(3) by auto
  note u = updateCoefMap [OF Cons.prems(1,2) t step]
  have "coefs_at w coefs' \<and> bv_at w s' \<and>
    (coef_sum G m coefs' + d_value s') mod 2 ^ w = (coef_sum G m c1 + d_value s1 + sum_list (map (val G m) ns)) mod 2 ^ w"
    using Cons.prems step by (intro Cons.IH u(1,2)) simp_all
  then show ?case
    using add_mod_cong [OF u(3), of m "sum_list (map (val G m) ns)"] by (simp add: ac_simps)
qed auto

lemma addToChildren:
  assumes "bv_term t" "getSize t = w" "bv_at w c"
  shows "terms_at w (set (addToChildren G w (t, c)))"
    "sum_list (map (val G m) (addToChildren G w (t, c))) mod 2 ^ w = (d_value c * val G m t) mod 2 ^ w"
proof -
  let ?c = "CONST_BITVECTOR c"
  note c = bv_at_const [OF assms(3)]
  note eqs = bv_at_eq(1) [OF assms(3), of 0] bv_at_eq(1) [OF assms(3), of 1] bv_at_eq(3) [OF assms(3), of 1]
  have product: "bv_term (mkNode K_BITVECTOR_MULT (ts @ [?c])) \<and> getSize (mkNode K_BITVECTOR_MULT (ts @ [?c])) = w \<and>
      val G m (mkNode K_BITVECTOR_MULT (ts @ [?c])) = (d_value c * val G m t) mod 2 ^ w"
    if "ts \<noteq> []" "terms_at w (set ts)" "val G m t mod 2 ^ w = prod_list (map (val G m) ts) mod 2 ^ w" for ts
  proof -
    have ts: "ts @ [?c] \<noteq> []" "2 \<le> length (ts @ [?c])" "terms_at w (set (ts @ [?c]))"
      using that(1,2) c by (auto simp: Suc_le_eq)
    have "(prod_list (map (val G m) ts) * d_value c) mod 2 ^ w = (val G m t * d_value c) mod 2 ^ w"
      using that(3) by (intro mult_mod_cong) simp
    then show ?thesis
      using nary_term [OF _ ts(2,3), of K_BITVECTOR_MULT] val_lists(1) [OF ts(1,3), of m] c(3) by (simp add: take_bit_eq_mod mult.commute)
  qed
  have v: "val G m t mod 2 ^ w = val G m t"
    using val_bounds(3) [OF assms(1), of m] assms(2) by (simp add: take_bit_eq_mod)
  have "terms_at w (set (addToChildren G w (t, c))) \<and>
    sum_list (map (val G m) (addToChildren G w (t, c))) mod 2 ^ w = (d_value c * val G m t) mod 2 ^ w"
  proof -
    consider "addToChildren G w (t, c) = []" "d_value c = 0 mod 2 ^ w" | "addToChildren G w (t, c) = [t]" "d_value c = 1 mod 2 ^ w"
      | "addToChildren G w (t, c) = [mkNode K_BITVECTOR_NEG [t]]" "d_value c = (- 1) mod 2 ^ w"
      | "addToChildren G w (t, c) = [mkNode K_BITVECTOR_MULT (children t @ [?c])]" "isKind K_BITVECTOR_MULT t"
      | "addToChildren G w (t, c) = [mkNode K_BITVECTOR_MULT ([t] @ [?c])]"
      unfolding eqs [symmetric]
      by (cases "bv_eq c (mk_bv G w 0)"; cases "bv_eq c (mk_bv G w 1)"; cases "bv_eq c (bv_neg G (mk_bv G w 1))"; cases "isKind K_BITVECTOR_MULT t")
        (simp_all add: addToChildren_def)
    then show ?thesis
    proof cases
      case 4
      then obtain ts where t: "t = mkNode K_BITVECTOR_MULT ts"
        using isKind_cases by blast
      note o = nary_mult.operator_children [OF assms(1,2) [unfolded t]]
      have "ts \<noteq> []"
        using o(1) by auto
      then show ?thesis
        using product [of ts] o(2) o(3) [of m] 4(1) by (simp add: t prod_list.eq_foldr take_bit_eq_mod)
    next
      case 5
      then show ?thesis
        using product [of "[t]"] assms(1,2) by simp
    qed (use assms v bv_term_width(1) [OF assms(1)] in \<open>simp_all add: term_simps take_bit_eq_mod mod_simps\<close>)
  qed
  then show "terms_at w (set (addToChildren G w (t, c)))"
    "sum_list (map (val G m) (addToChildren G w (t, c))) mod 2 ^ w = (d_value c * val G m t) mod 2 ^ w"
    by auto
qed

lemma addToChildren_all:
  assumes "coefs_at w coefs"
  shows "terms_at w (set (concat (map (addToChildren G w) coefs))) \<and>
    sum_list (map (val G m) (concat (map (addToChildren G w) coefs))) mod 2 ^ w = coef_sum G m coefs mod 2 ^ w"
  using assms
proof (induction coefs)
  case (Cons e coefs)
  obtain t c where e: "e = (t, c)"
    by (cases e)
  have t: "bv_term t" "getSize t = w" "bv_at w c" "coefs_at w coefs"
    using Cons.prems by (auto simp: coefs_at_def e)
  note a = addToChildren [OF t(1-3)]
  have "(sum_list (map (val G m) (addToChildren G w (t, c))) + sum_list (map (val G m) (concat (map (addToChildren G w) coefs)))) mod 2 ^ w =
      (d_value c * val G m t + coef_sum G m coefs) mod 2 ^ w"
    using a(2) [of m] Cons.IH [OF t(4)] by (metis mod_add_cong)
  then show ?case
    using a(1) Cons.IH [OF t(4)] by (auto simp: e coef_sum_def)
qed (simp add: coef_sum_def)

lemma AddCombineLikeTerms_sound: "AddCombineLikeTerms_applies n \<Longrightarrow> rewrites_to G n (AddCombineLikeTerms G getId n)"
  unfolding AddCombineLikeTerms_applies_def
proof (erule nary_add.rewrites_operator)
  fix ns w
  assume n: "n = mkNode K_BITVECTOR_ADD ns" and ns: "2 \<le> length ns" "getSize n = w" "terms_at w (set ns)" "0 < w" "w < 2 ^ 32"
  define r where "r = AddCombineLikeTerms G getId n"
  obtain coefs s where f: "foldl (updateCoefMap G getId w) ([], mk_bv G w 0) ns = (coefs, s)"
    by (cases "foldl (updateCoefMap G getId w) ([], mk_bv G w 0) ns")
  have inv: "coefs_at w coefs" "bv_at w s" "(coef_sum G m coefs + d_value s) mod 2 ^ w = sum_list (map (val G m) ns) mod 2 ^ w" for m
    using updateCoefMap_fold [OF _ bv_at_mk [OF ns(4,5)] ns(3) f] by (auto simp: coefs_at_def coef_sum_def)
  define cs where "cs = concat (map (addToChildren G w) coefs) @ (if bv_eq s (mk_bv G w 0) then [] else [CONST_BITVECTOR s])"
  have cs: "terms_at w (set cs)" "sum_list (map (val G m) cs) mod 2 ^ w = sum_list (map (val G m) ns) mod 2 ^ w" for m
  proof -
    have "terms_at w (set (if bv_eq s (mk_bv G w 0) then [] else [CONST_BITVECTOR s]))"
      "sum_list (map (val G m) (if bv_eq s (mk_bv G w 0) then [] else [CONST_BITVECTOR s])) = d_value s"
      using bv_at_const [OF inv(2)] bv_at_eq(1) [OF inv(2), of 0] by auto
    then show "terms_at w (set cs)" "sum_list (map (val G m) cs) mod 2 ^ w = sum_list (map (val G m) ns) mod 2 ^ w"
      using addToChildren_all [OF inv(1), of m] inv(3) [of m]
        add_mod_cong [of "sum_list (map (val G m) (concat (map (addToChildren G w) coefs)))" "2 ^ w" "coef_sum G m coefs" "d_value s"]
      by (auto simp: cs_def)
  qed
  have "r = (if length cs = length ns then n else if cs = [] then utils_mkZero G w else mkNaryNode K_BITVECTOR_ADD cs)"
    using f by (simp add: r_def AddCombineLikeTerms_def n ns(2) [unfolded n] cs_def Let_def)
  moreover have "ns \<noteq> []"
    using ns(1) by auto
  ultimately have "bv_term r \<and> getSize r = w \<and> val G m r = sum_list (map (val G m) ns) mod 2 ^ w" for m
    using nary_term [OF _ ns(1,3), of K_BITVECTOR_ADD] val_lists(2) [OF _ ns(3), of m] sum_node [OF _ cs(1)] cs(2) [of m] ns(4,5)
    by (auto simp: n take_bit_eq_mod utils_mkZero_def mkConst_term)
  then show "bv_term (AddCombineLikeTerms G getId n) \<and> getSize (AddCombineLikeTerms G getId n) = w \<and>
    (\<forall>m. val G m (AddCombineLikeTerms G getId n) = take_bit w (foldr (+) (map (val G m) ns) 0))"
    by (simp add: r_def sum_list.eq_foldr take_bit_eq_mod)
qed

end

end
