(* ===== verification/Bv_Bitwise_Rules.thy ===== *)
theory Bv_Bitwise_Rules
  imports Bv_Coefficients
begin

text \<open>
  Soundness of the rules on conjunctions, disjunctions and exclusive ors: repeated and complementary
  operands, constants, and the rules that cut the operands into slices.
\<close>

section \<open>Occurrences\<close>

definition counts_at :: "nat \<Rightarrow> counts \<Rightarrow> bool" where
  "counts_at w subs \<longleftrightarrow> (\<forall>(t, p, q)\<in>set subs. bv_term t \<and> getSize t = w \<and> (0 < p \<or> 0 < q))"

text \<open>Bit \<open>i\<close> of every counted term is \<open>b\<close>, and the opposite for a negated one.\<close>

definition counts_hold :: "gmp \<Rightarrow> model \<Rightarrow> bool \<Rightarrow> nat \<Rightarrow> counts \<Rightarrow> bool" where
  "counts_hold G m b i subs \<longleftrightarrow>
     (\<forall>(t, p, q)\<in>set subs. (0 < p \<longrightarrow> bit (val G m t) i = b) \<and> (0 < q \<longrightarrow> bit (val G m t) i = (\<not> b)))"

lemma insert_count_at: "counts_at w subs \<Longrightarrow> bv_term t \<Longrightarrow> getSize t = w \<Longrightarrow> counts_at w (insert_count subs t negated)"
  by (induction subs t negated rule: insert_count.induct) (auto simp: counts_at_def)

lemma insert_count_hold:
  "counts_hold G m b i (insert_count subs t negated) \<longleftrightarrow> counts_hold G m b i subs \<and> bit (val G m t) i = (if negated then \<not> b else b)"
  by (induction subs t negated rule: insert_count.induct) (auto simp: counts_hold_def)

context gmp_documented
begin

lemma val_not_bit:
  assumes "bv_term t" "i < getSize t"
  shows "bit (val G m (mkNode K_BITVECTOR_NOT [t])) i = (\<not> bit (val G m t) i)"
proof -
  have "val G m (mkNode K_BITVECTOR_NOT [t]) = val G m t XOR mask (getSize t)"
    using xor_with_mask [OF val_bounds(3) [OF assms(1), of m]] assms(1) by (simp add: term_simps)
  then show ?thesis
    using assms(2) by (simp add: bit_xor_iff bit_mask_iff)
qed

lemma not_node:
  assumes "isKind K_BITVECTOR_NOT s" "bv_term s"
  obtains t where "s = mkNode K_BITVECTOR_NOT [t]" "bv_term t" "getSize t = getSize s"
proof -
  obtain ns where s: "s = mkNode K_BITVECTOR_NOT ns"
    using assms(1) by (rule isKind_cases)
  obtain t where t: "ns = [t]" "bv_term t"
    by (rule negation_children [OF bv_termD(2,1) [OF assms(2), unfolded s]]) auto
  then show thesis
    using that [of t] by (simp add: s term_simps)
qed

lemma push_counts:
  assumes "counts_at w subs" "i < w"
  shows "case push_counts subs of
      None \<Rightarrow> \<not> counts_hold G m b i subs
    | Some ts \<Rightarrow> terms_at w (set ts) \<and> (counts_hold G m b i subs \<longleftrightarrow> (\<forall>a\<in>set ts. bit (val G m a) i = b))"
  using assms(1)
proof (induction subs rule: push_counts.induct)
  case (2 t p q subs)
  have t: "bv_term t" "getSize t = w" "0 < p \<or> 0 < q" "counts_at w subs"
    using "2.prems" by (auto simp: counts_at_def)
  have hold: "counts_hold G m b i ((t, p, q) # subs) \<longleftrightarrow>
      (0 < p \<longrightarrow> bit (val G m t) i = b) \<and> (0 < q \<longrightarrow> bit (val G m t) i = (\<not> b)) \<and> counts_hold G m b i subs"
    by (auto simp: counts_hold_def)
  show ?case
  proof (cases "0 < p \<and> 0 < q")
    case True
    then show ?thesis
      unfolding hold by auto
  next
    case False
    define a where "a = (if q > 0 then mkNode K_BITVECTOR_NOT [t] else t)"
    have a: "bv_term a" "getSize a = w" "bit (val G m a) i = b \<longleftrightarrow> (0 < p \<longrightarrow> bit (val G m t) i = b) \<and> (0 < q \<longrightarrow> bit (val G m t) i = (\<not> b))"
      using t False val_not_bit [OF t(1), of i m] assms(2) by (auto simp: a_def term_simps)
    have "push_counts ((t, p, q) # subs) = map_option (Cons a) (push_counts subs)"
      using False by (auto simp: a_def)
    with "2.IH" [OF False t(4)] a show ?thesis
      unfolding hold by (auto split: option.splits)
  qed
qed (simp add: counts_hold_def)

end

section \<open>Conjunction and disjunction\<close>

text \<open>
  The two operators share a contract: bit \<open>i\<close> of the result is \<open>b\<close> exactly when it is \<open>b\<close> in every
  operand.
\<close>

locale lattice_operator = bitwise_operator +
  fixes b :: bool and g :: "bitvector \<Rightarrow> bitvector \<Rightarrow> bitvector"
  assumes fold_bit: "bit (foldr f vs z) i = b \<longleftrightarrow> (\<forall>v\<in>set vs. bit v i = b)"
    and const_at: "bv_at w c \<Longrightarrow> bv_at w (g c d)"
    and const_bit: "bv_at w c \<Longrightarrow> i < w \<Longrightarrow> bit (d_value (g c d)) i = b \<longleftrightarrow> bit (d_value c) i = b \<and> bit (d_value d) i = b"
begin

lemma value_by_bits:
  assumes "bv_term r" "getSize r = w" "\<And>i. i < w \<Longrightarrow> bit (val G m r) i = b \<longleftrightarrow> (\<forall>a\<in>set ns. bit (val G m a) i = b)"
  shows "val G m r = take_bit w (foldr f (map (val G m) ns) z)"
proof (rule bit_eqI)
  fix i
  have "bit (foldr f (map (val G m) ns) z) i = b \<longleftrightarrow> (\<forall>a\<in>set ns. bit (val G m a) i = b)"
    unfolding fold_bit by simp
  moreover have "bit (val G m r) i \<Longrightarrow> i < w"
    using val_bounds(3) [OF assms(1), of m] assms(2) by (metis bit_take_bit_iff)
  ultimately show "bit (val G m r) i \<longleftrightarrow> bit (take_bit w (foldr f (map (val G m) ns) z)) i"
    using assms(3) [of i] by (auto simp: bit_take_bit_iff)
qed

lemma collect:
  assumes "terms_at w (set ns)" "bv_at w c" "counts_at w subs" "foldl (collect_step g) (c, subs) ns = (c', subs')"
  shows "bv_at w c' \<and> counts_at w subs' \<and>
    (i < w \<longrightarrow> (bit (d_value c') i = b \<and> counts_hold G m b i subs' \<longleftrightarrow>
      bit (d_value c) i = b \<and> counts_hold G m b i subs \<and> (\<forall>a\<in>set ns. bit (val G m a) i = b)))"
  using assms
proof (induction ns arbitrary: c subs)
  case (Cons a ns)
  obtain c1 s1 where step: "collect_step g (c, subs) a = (c1, s1)"
    by (cases "collect_step g (c, subs) a")
  have a: "bv_term a" "getSize a = w"
    using Cons.prems(1) by auto
  have "bv_at w c1 \<and> counts_at w s1 \<and> (i < w \<longrightarrow> (bit (d_value c1) i = b \<and> counts_hold G m b i s1 \<longleftrightarrow>
      bit (d_value c) i = b \<and> counts_hold G m b i subs \<and> bit (val G m a) i = b))"
  proof (cases "is_const_bv a")
    case True
    then show ?thesis
      using step const_at [OF Cons.prems(2)] const_bit [OF Cons.prems(2), of i] const_bv_at(2) [OF a, of m] Cons.prems(3)
      by (auto simp: collect_step_def)
  next
    case False
    show ?thesis
    proof (cases "isKind K_BITVECTOR_NOT a")
      case True
      then obtain t where t: "a = mkNode K_BITVECTOR_NOT [t]" "bv_term t" "getSize t = getSize a"
        using a(1) by (rule not_node)
      then have "c1 = c" "s1 = insert_count subs t True" "i < w \<Longrightarrow> bit (val G m a) i = (\<not> bit (val G m t) i)"
        using step a(2) val_not_bit [OF t(2), of i m] by (auto simp: collect_step_def child_Cons)
      then show ?thesis
        using Cons.prems(2,3) insert_count_at [OF _ t(2)] t(3) a(2) by (auto simp: insert_count_hold)
    next
      case nonot: False
      then show ?thesis
        using step False Cons.prems(2,3) insert_count_at [OF _ a] by (auto simp: collect_step_def insert_count_hold)
    qed
  qed
  with Cons.IH [of c1 s1] Cons.prems(1,4) step show ?case
    by auto
qed auto

lemma simplify_operator:
  assumes "terms_at w (set ns)" "foldl (collect_step g) (e, []) ns = (c, subs)"
    "bv_at w e" "\<And>i. i < w \<Longrightarrow> bit (d_value e) i = b" "bv_at w u" "\<And>i. i < w \<Longrightarrow> bit (d_value u) i = (\<not> b)"
    "r = (if bv_eq c u then CONST_BITVECTOR u
      else case push_counts subs of
        None \<Rightarrow> CONST_BITVECTOR u
      | Some ts \<Rightarrow> let cs = (if bv_eq c e then [] else [CONST_BITVECTOR c]) @ ts
          in if cs = [] then CONST_BITVECTOR e else mkSortedNode getId k cs)"
  shows "bv_term r \<and> getSize r = w \<and> val G m r = take_bit w (foldr f (map (val G m) ns) z)"
proof -
  have start: "counts_at w []" "counts_hold G m b i []" for i
    by (simp_all add: counts_at_def counts_hold_def)
  note col = collect [OF assms(1,3) start(1) assms(2)]
  have c: "bv_at w c" "counts_at w subs"
    and bits: "\<And>i. i < w \<Longrightarrow> (\<forall>a\<in>set ns. bit (val G m a) i = b) \<longleftrightarrow> bit (d_value c) i = b \<and> counts_hold G m b i subs"
    using col start(2) assms(4) by auto
  note const = bv_at_const [OF assms(3)] bv_at_const [OF assms(5)] bv_at_const [OF c(1)]
  have absorbing: ?thesis if "r = CONST_BITVECTOR u" "\<And>i. i < w \<Longrightarrow> \<not> (bit (d_value c) i = b \<and> counts_hold G m b i subs)"
    using that const(4-6) value_by_bits [of r w m ns] bits assms(6) by simp
  show ?thesis
  proof (cases "bv_eq c u")
    case True
    then have "d_value c = d_value u"
      by (simp add: bv_eq_def split: if_splits)
    then show ?thesis
      using True assms(6,7) by (intro absorbing) auto
  next
    case False
    show ?thesis
    proof (cases "push_counts subs")
      case None
      then show ?thesis
        using False assms(7) push_counts [OF c(2), of _ m b] by (intro absorbing) auto
    next
      case (Some ts)
      define cs where "cs = (if bv_eq c e then [] else [CONST_BITVECTOR c]) @ ts"
      have w: "0 < w"
        using c(1) by (simp add: bv_at_def)
      have ts: "terms_at w (set ts)" "\<And>i. i < w \<Longrightarrow> counts_hold G m b i subs \<longleftrightarrow> (\<forall>a\<in>set ts. bit (val G m a) i = b)"
        using push_counts [OF c(2), of _ m b] Some w by auto
      have ce: "d_value c = d_value e" if "bv_eq c e"
        using that by (simp add: bv_eq_def split: if_splits)
      have all: "(\<forall>a\<in>set ns. bit (val G m a) i = b) \<longleftrightarrow> (\<forall>a\<in>set cs. bit (val G m a) i = b)" if "i < w" for i
        using bits [OF that] ts(2) [OF that] assms(4) [OF that] const(9) ce by (auto simp: cs_def)
      have cs_at: "terms_at w (set cs)"
        using ts(1) const(7,8) by (auto simp: cs_def)
      have r: "r = (if cs = [] then CONST_BITVECTOR e else mkSortedNode getId k cs)"
        using assms(7) False Some by (simp add: cs_def Let_def)
      show ?thesis
      proof (cases "cs = []")
        case True
        then show ?thesis
          using r const(1-3) value_by_bits [of r w m ns] all assms(4) by simp
      next
        case False
        have "bit (take_bit w (foldr f (map (val G m) cs) z)) i = b \<longleftrightarrow> (\<forall>a\<in>set ns. bit (val G m a) i = b)" if "i < w" for i
          using fold_bit [of "map (val G m) cs" i] all [OF that] that by (simp add: bit_take_bit_iff)
        then show ?thesis
          using r False operator_list [OF False cs_at, of r getId] value_by_bits [of r w m ns] by simp
      qed
    qed
  qed
qed

end

lemma foldr_and_bit: "bit (foldr (AND) vs (- 1 :: int)) i \<longleftrightarrow> (\<forall>v\<in>set vs. bit v i)"
  by (induction vs) (simp_all add: bit_and_iff)

lemma foldr_or_bit: "bit (foldr (OR) vs (0 :: int)) i \<longleftrightarrow> (\<exists>v\<in>set vs. bit v i)"
  by (induction vs) (simp_all add: bit_or_iff)

sublocale gmp_documented < lattice_and: lattice_operator G K_BITVECTOR_AND "(AND)" "- 1" True "bv_and G"
  by unfold_locales (auto simp: foldr_and_bit bv_at_def value_and bit_take_bit_iff bit_and_iff intro: inv_binary(3))

sublocale gmp_documented < lattice_or: lattice_operator G K_BITVECTOR_OR "(OR)" 0 False "bv_or G"
  by unfold_locales (auto simp: foldr_or_bit bv_at_def value_or bit_take_bit_iff bit_or_iff intro: inv_binary(2))

context gmp_documented
begin

lemma ones_bit: "0 < w \<Longrightarrow> w < 2 ^ 32 \<Longrightarrow> i < w \<Longrightarrow> bit (d_value (bv_mkOnes G w)) i"
  by (simp add: ones_at(2) bit_mask_iff flip: take_bit_eq_mod)

lemma constant_node_eqs: "utils_mkZero G w = CONST_BITVECTOR (mk_bv G w 0)" "utils_mkOnes G w = CONST_BITVECTOR (bv_mkOnes G w)"
  by (simp_all add: utils_mkZero_def utils_mkOnes_def mkConst_def)

lemma AndSimplify_sound: "AndSimplify_applies n \<Longrightarrow> rewrites_to G n (AndSimplify G getId n)"
  unfolding AndSimplify_applies_def
proof (erule nary_and.rewrites_operator)
  fix ns w
  assume n: "n = mkNode K_BITVECTOR_AND ns" and ns: "getSize n = w" "terms_at w (set ns)" "0 < w" "w < 2 ^ 32"
  obtain c subs where f: "foldl (collect_step (bv_and G)) (bv_mkOnes G w, []) ns = (c, subs)"
    by (cases "foldl (collect_step (bv_and G)) (bv_mkOnes G w, []) ns")
  have r: "AndSimplify G getId n = (if bv_eq c (mk_bv G w 0) then CONST_BITVECTOR (mk_bv G w 0)
      else case push_counts subs of
        None \<Rightarrow> CONST_BITVECTOR (mk_bv G w 0)
      | Some ts \<Rightarrow> let cs = (if bv_eq c (bv_mkOnes G w) then [] else [CONST_BITVECTOR c]) @ ts
          in if cs = [] then CONST_BITVECTOR (bv_mkOnes G w) else mkSortedNode getId K_BITVECTOR_AND cs)"
    unfolding AndSimplify_def constant_node_eqs by (simp add: n ns(1) [unfolded n] f)
  show "bv_term (AndSimplify G getId n) \<and> getSize (AndSimplify G getId n) = w \<and>
    (\<forall>m. val G m (AndSimplify G getId n) = take_bit w (foldr (AND) (map (val G m) ns) (- 1)))"
    using lattice_and.simplify_operator [OF ns(2) f ones_at(1) [OF ns(3,4)] _ bv_at_mk [OF ns(3,4), of 0] _ r] ones_bit [OF ns(3,4)] by simp
qed

lemma OrSimplify_sound: "OrSimplify_applies n \<Longrightarrow> rewrites_to G n (OrSimplify G getId n)"
  unfolding OrSimplify_applies_def
proof (erule nary_or.rewrites_operator)
  fix ns w
  assume n: "n = mkNode K_BITVECTOR_OR ns" and ns: "getSize n = w" "terms_at w (set ns)" "0 < w" "w < 2 ^ 32"
  obtain c subs where f: "foldl (collect_step (bv_or G)) (mk_bv G w 0, []) ns = (c, subs)"
    by (cases "foldl (collect_step (bv_or G)) (mk_bv G w 0, []) ns")
  have r: "OrSimplify G getId n = (if bv_eq c (bv_mkOnes G w) then CONST_BITVECTOR (bv_mkOnes G w)
      else case push_counts subs of
        None \<Rightarrow> CONST_BITVECTOR (bv_mkOnes G w)
      | Some ts \<Rightarrow> let cs = (if bv_eq c (mk_bv G w 0) then [] else [CONST_BITVECTOR c]) @ ts
          in if cs = [] then CONST_BITVECTOR (mk_bv G w 0) else mkSortedNode getId K_BITVECTOR_OR cs)"
    unfolding OrSimplify_def constant_node_eqs by (simp add: n ns(1) [unfolded n] f)
  show "bv_term (OrSimplify G getId n) \<and> getSize (OrSimplify G getId n) = w \<and>
    (\<forall>m. val G m (OrSimplify G getId n) = take_bit w (foldr (OR) (map (val G m) ns) (0)))"
    using lattice_or.simplify_operator [OF ns(2) f bv_at_mk [OF ns(3,4), of 0] _ ones_at(1) [OF ns(3,4)] _ r] ones_bit [OF ns(3,4)] by simp
qed

end

section \<open>Exclusive or\<close>

text \<open>What a counted term contributes.\<close>

definition xor_part :: "gmp \<Rightarrow> model \<Rightarrow> nat \<Rightarrow> node \<times> nat \<times> nat \<Rightarrow> int" where
  "xor_part G m w e = (case e of (t, p, q) \<Rightarrow>
     (if odd p then val G m t else 0) XOR (if odd q then val G m t XOR mask w else 0))"

lemma xor_cancel: "x XOR (x XOR y) = (y :: int)" "x XOR (y XOR x) = y"
  by (simp_all add: ac_simps flip: xor.assoc)

lemma insert_count_xor:
  "xor_list (map (xor_part G m w) (insert_count subs t negated)) =
   xor_list (map (xor_part G m w) subs) XOR (if negated then val G m t XOR mask w else val G m t)"
  by (induction subs t negated rule: insert_count.induct) (auto simp: xor_part_def xor_cancel ac_simps)

context gmp_documented
begin

lemma val_not_xor: "bv_term t \<Longrightarrow> val G m (mkNode K_BITVECTOR_NOT [t]) = val G m t XOR mask (getSize t)"
  using xor_with_mask [OF val_bounds(3), of t m] by (simp add: term_simps)

lemma xor_const:
  assumes "bv_at w c" "bv_at w d"
  shows "bv_at w (bv_xor G c d)" "d_value (bv_xor G c d) = d_value c XOR d_value d"
proof -
  have v: "take_bit w (d_value c) = d_value c" "take_bit w (d_value d) = d_value d"
    using assms bv_inv_take_bit [of c] bv_inv_take_bit [of d] by (auto simp: bv_at_def)
  show "bv_at w (bv_xor G c d)"
    using assms inv_binary(1) [of c d] by (simp add: bv_at_def)
  show "d_value (bv_xor G c d) = d_value c XOR d_value d"
    using assms(1) take_bit_xor_eq [OF v] by (simp add: value_xor bv_at_def)
qed

abbreviation opt_value :: "bitvector option \<Rightarrow> int" where
  "opt_value c \<equiv> case c of None \<Rightarrow> 0 | Some c \<Rightarrow> d_value c"

abbreviation opt_at :: "nat \<Rightarrow> bitvector option \<Rightarrow> bool" where
  "opt_at w c \<equiv> case c of None \<Rightarrow> True | Some c \<Rightarrow> bv_at w c"

lemma xor_collect:
  assumes "terms_at w (set ns)" "opt_at w c" "counts_at w subs" "foldl (xor_collect_step G) (c, subs) ns = (c', subs')"
  shows "opt_at w c' \<and> counts_at w subs' \<and>
    opt_value c' XOR xor_list (map (xor_part G m w) subs') =
    opt_value c XOR (xor_list (map (xor_part G m w) subs) XOR xor_list (map (val G m) ns))"
  using assms
proof (induction ns arbitrary: c subs)
  case (Cons a ns)
  obtain c1 s1 where step: "xor_collect_step G (c, subs) a = (c1, s1)"
    by (cases "xor_collect_step G (c, subs) a")
  have a: "bv_term a" "getSize a = w"
    using Cons.prems(1) by auto
  have "opt_at w c1 \<and> counts_at w s1 \<and>
    opt_value c1 XOR xor_list (map (xor_part G m w) s1) = opt_value c XOR (xor_list (map (xor_part G m w) subs) XOR val G m a)"
  proof (cases "is_const_bv a")
    case True
    then show ?thesis
      using step Cons.prems(2,3) const_bv_at [OF a] xor_const [of w _ "getConst a"]
      by (auto simp: xor_collect_step_def ac_simps split: option.splits)
  next
    case False
    show ?thesis
    proof (cases "isKind K_BITVECTOR_NOT a")
      case True
      then obtain t where t: "a = mkNode K_BITVECTOR_NOT [t]" "bv_term t" "getSize t = getSize a"
        using a(1) by (rule not_node)
      then have "c1 = c" "s1 = insert_count subs t True" "val G m a = val G m t XOR mask w"
        using step a(2) val_not_xor [OF t(2), of m] by (auto simp: xor_collect_step_def child_Cons)
      then show ?thesis
        using Cons.prems(2,3) insert_count_at [OF _ t(2)] t(3) a(2) by (simp add: insert_count_xor)
    next
      case nonot: False
      then show ?thesis
        using step False Cons.prems(2,3) insert_count_at [OF _ a] by (auto simp: xor_collect_step_def insert_count_xor)
    qed
  qed
  moreover from this have "opt_at w c' \<and> counts_at w subs' \<and> opt_value c' XOR xor_list (map (xor_part G m w) subs') =
      opt_value c1 XOR (xor_list (map (xor_part G m w) s1) XOR xor_list (map (val G m) ns))"
    using Cons.prems(1,4) step by (intro Cons.IH) auto
  ultimately show ?case
    unfolding list.map foldr_Cons comp_apply xor.assoc [symmetric] by simp
qed auto

lemma xor_push_fold:
  assumes "counts_at w subs" "terms_at w (set cs)" "foldl xor_push (tc, cs) subs = (tc', cs')"
  shows "terms_at w (set cs') \<and>
    (if odd tc' then mask w else 0) XOR xor_list (map (val G m) cs') =
    (if odd tc then mask w else 0) XOR (xor_list (map (val G m) cs) XOR xor_list (map (xor_part G m w) subs))"
  using assms
proof (induction subs arbitrary: tc cs)
  case (Cons e subs)
  obtain t p q where e: "e = (t, p, q)"
    by (cases e) auto
  obtain t1 c1 where step: "xor_push (tc, cs) e = (t1, c1)"
    by (cases "xor_push (tc, cs) e")
  have t: "bv_term t" "getSize t = w" "counts_at w subs"
    using Cons.prems(1) by (auto simp: counts_at_def e)
  have app: "xor_list (map (val G m) (cs @ [a])) = xor_list (map (val G m) cs) XOR val G m a" for a
    by (induction cs) (simp_all add: ac_simps)
  have "terms_at w (set c1) \<and> (if odd t1 then mask w else 0) XOR xor_list (map (val G m) c1) =
    (if odd tc then mask w else 0) XOR (xor_list (map (val G m) cs) XOR xor_part G m w e)"
    using step t(1,2) Cons.prems(2) val_not_xor [OF t(1), of m] unary_term [OF t(1), of K_BITVECTOR_NOT]
    by (auto simp: xor_push_def e xor_part_def app odd_iff_mod_2_eq_one xor_cancel ac_simps simp del: map_append foldr_append split: if_splits)
  moreover have "terms_at w (set cs') \<and> (if odd tc' then mask w else 0) XOR xor_list (map (val G m) cs') =
      (if odd t1 then mask w else 0) XOR (xor_list (map (val G m) c1) XOR xor_list (map (xor_part G m w) subs))"
    using Cons.IH [OF t(3), of c1 t1] Cons.prems(3) step calculation by simp
  ultimately show ?case
    unfolding list.map foldr_Cons comp_apply xor.assoc [symmetric] by simp
qed auto

lemma xor_constants:
  assumes "opt_at w c" "0 < w" "w < 2 ^ 32"
    "cs = (case (if (tc :: nat) \<noteq> 0 then [if tc mod 2 \<noteq> 0 then bv_mkOnes G w else mk_bv G w 0] else []) @ (case c of Some c \<Rightarrow> [c] | None \<Rightarrow> []) of
      [] \<Rightarrow> [] | d # rest \<Rightarrow> [CONST_BITVECTOR (foldl (bv_xor G) d rest)])"
  shows "terms_at w (set cs)" "xor_list (map (val G m) cs) = (if odd tc then mask w else 0) XOR opt_value c"
proof -
  define d where "d = (if tc mod 2 \<noteq> 0 then bv_mkOnes G w else mk_bv G w 0)"
  have d: "bv_at w d" "d_value d = (if odd tc then mask w else 0)"
    using ones_at [OF assms(2,3)] bv_at_mk [OF assms(2,3), of 0] by (auto simp: d_def odd_iff_mod_2_eq_one simp flip: take_bit_eq_mod)
  note cs = assms(4) [folded d_def]
  have "terms_at w (set cs) \<and> xor_list (map (val G m) cs) = (if odd tc then mask w else 0) XOR opt_value c"
  proof (cases c)
    case None
    then show ?thesis
      using cs d(2) bv_at_const [OF d(1)] by (cases "tc = 0") simp_all
  next
    case (Some b)
    then show ?thesis
      using cs assms(1) d(2) bv_at_const [of w b] bv_at_const [OF xor_const(1) [OF d(1), of b]] xor_const(2) [OF d(1), of b]
      by (cases "tc = 0") simp_all
  qed
  then show "terms_at w (set cs)" "xor_list (map (val G m) cs) = (if odd tc then mask w else 0) XOR opt_value c"
    by auto
qed

lemma XorSimplify_sound: "XorSimplify_applies n \<Longrightarrow> rewrites_to G n (XorSimplify G getId n)"
  unfolding XorSimplify_applies_def
proof (erule nary_xor.rewrites_operator)
  fix ns w
  assume n: "n = mkNode K_BITVECTOR_XOR ns" and ns: "getSize n = w" "terms_at w (set ns)" "0 < w" "w < 2 ^ 32"
  obtain c subs where f: "foldl (xor_collect_step G) (None, []) ns = (c, subs)"
    by (cases "foldl (xor_collect_step G) (None, []) ns")
  obtain tc cs where p: "foldl xor_push (0, []) subs = (tc, cs)"
    by (cases "foldl xor_push (0, []) subs")
  define cl where "cl = (case (if tc \<noteq> 0 then [if tc mod 2 \<noteq> 0 then bv_mkOnes G w else mk_bv G w 0] else []) @
      (case c of Some c \<Rightarrow> [c] | None \<Rightarrow> []) of [] \<Rightarrow> [] | d # rest \<Rightarrow> [CONST_BITVECTOR (foldl (bv_xor G) d rest)])"
  have start: "counts_at w []" "terms_at w (set [])" "opt_at w None"
    by (simp_all add: counts_at_def)
  note col = xor_collect [OF ns(2) start(3,1) f]
  have push: "terms_at w (set cs) \<and> (if odd tc then mask w else 0) XOR xor_list (map (val G m) cs) = xor_list (map (xor_part G m w) subs)" for m
    using xor_push_fold [OF _ start(2) p, of m] col by simp
  note con = xor_constants [OF _ ns(3,4) cl_def]
  have all: "terms_at w (set (cs @ cl))" "xor_list (map (val G m) (cs @ cl)) = xor_list (map (val G m) ns)" for m
  proof -
    have "xor_list (map (val G m) (cs @ cl)) = xor_list (map (val G m) cs) XOR xor_list (map (val G m) cl)"
      by (induction cs) (simp_all add: ac_simps)
    also have "\<dots> = xor_list (map (val G m) cs) XOR ((if odd tc then mask w else 0) XOR opt_value c)"
      using con(2) [of m] col by simp
    also have "\<dots> = ((if odd tc then mask w else 0) XOR xor_list (map (val G m) cs)) XOR opt_value c"
      by (simp only: ac_simps)
    also have "\<dots> = opt_value c XOR xor_list (map (xor_part G m w) subs)"
      unfolding push [of m, THEN conjunct2] by (rule xor.commute)
    also have "\<dots> = xor_list (map (val G m) ns)"
      using col [of m] by simp
    finally show "xor_list (map (val G m) (cs @ cl)) = xor_list (map (val G m) ns)" .
    show "terms_at w (set (cs @ cl))"
      using push con(1) col by auto
  qed
  define r where "r = XorSimplify G getId n"
  have r: "r = (if cs @ cl = [] then CONST_BITVECTOR (mk_bv G w 0) else mkSortedNode getId K_BITVECTOR_XOR (cs @ cl))"
    unfolding r_def XorSimplify_def cl_def by (simp add: n ns(1) [unfolded n] f p Let_def)
  show "bv_term (XorSimplify G getId n) \<and> getSize (XorSimplify G getId n) = w \<and>
    (\<forall>m. val G m (XorSimplify G getId n) = take_bit w (xor_list (map (val G m) ns)))"
  proof (cases "cs @ cl = []")
    case True
    then have "xor_list (map (val G m) ns) = 0" for m
      using all(2) [of m] by simp
    then show ?thesis
      using True r bv_at_const [OF bv_at_mk [OF ns(3,4), of 0]] unfolding r_def [symmetric] by simp
  next
    case False
    then have "r = mkNaryNode K_BITVECTOR_XOR (cs @ cl) \<or> r = mkSortedNode getId K_BITVECTOR_XOR (cs @ cl)"
      using r by auto
    from nary_xor.operator_list [OF False all(1) this] show ?thesis
      unfolding r_def [symmetric] all(2) by blast
  qed
qed

text \<open>A node that the rule keeps has an operand that is no constant, which the next rule needs.\<close>

lemma XorSimplify_fixpoint:
  assumes "XorSimplify G getId n = n" "isKind K_BITVECTOR_XOR n"
  shows "\<exists>c\<in>set (children n). \<not> is_const_bv c"
proof (rule ccontr)
  assume "\<not> (\<exists>c\<in>set (children n). \<not> is_const_bv c)"
  moreover have "snd (foldl (xor_collect_step G) (c, subs) ns) = subs" if "\<forall>a\<in>set ns. is_const_bv a" for c subs ns
    using that by (induction ns arbitrary: c) (auto simp: xor_collect_step_def)
  ultimately obtain c where "foldl (xor_collect_step G) (None, []) (children n) = (c, [])"
    by (metis prod.collapse)
  then have "is_const_bv (XorSimplify G getId n)"
    by (simp add: XorSimplify_def mkSortedNode_def Let_def split: option.splits list.splits)
  then show False
    using assms by (auto elim: isKindE)
qed

section \<open>Slices\<close>

end

text \<open>Operands cut at the borders of a list of blocks.\<close>

fun slice_nodes :: "kind \<Rightarrow> node \<Rightarrow> node list \<Rightarrow> node list" where
  "slice_nodes k x [] = []"
| "slice_nodes k x (b # bs) = mkNode k [mkExtract x (getSize b + cat_size bs - 1) (cat_size bs), b] # slice_nodes k x bs"

context bitwise_operator
begin

lemma op_pair:
  assumes "bv_term a" "bv_term b" "getSize a = w" "getSize b = w"
  shows "bv_term (mkNode k [a, b])" "getSize (mkNode k [a, b]) = w" "val G m (mkNode k [a, b]) = f (val G m a) (val G m b)"
proof -
  have ab: "\<forall>c\<in>set [a, b]. bv_term c \<and> getSize c = w"
    using assms by simp
  show "bv_term (mkNode k [a, b])" "getSize (mkNode k [a, b]) = w"
    using nary_term [OF nary _ ab] by simp_all
  show "val G m (mkNode k [a, b]) = f (val G m a) (val G m b)"
    using fold_value [OF _ ab, of m] commute [of _ z] neutral val_bounds(3) [OF assms(1), of m] val_bounds(3) [OF assms(2), of m] assms(3,4)
    by (simp add: take_bit_op)
qed

lemma op_split: "f a b = f (drop_bit s a) (drop_bit s b) * 2 ^ s + f (take_bit s a) (take_bit s b)"
  using bits_ident [of s "f a b"] by (simp add: push_bit_eq_mult drop_bit_op take_bit_op)

lemma slice_nodes:
  assumes "bv_term x" "cat_size bs \<le> getSize x" "\<forall>b\<in>set bs. bv_term b"
  shows "(\<forall>a\<in>set (slice_nodes k x bs). bv_term a) \<and> cat_size (slice_nodes k x bs) = cat_size bs \<and>
    length (slice_nodes k x bs) = length bs \<and> cat_val G m (slice_nodes k x bs) = f (take_bit (cat_size bs) (val G m x)) (cat_val G m bs)"
  using assms(2,3)
proof (induction bs)
  case Nil
  then show ?case
    using take_bit_op [of 0] by simp
next
  case (Cons b bs)
  let ?s = "cat_size bs" and ?e = "mkExtract x (getSize b + cat_size bs - 1) (cat_size bs)"
  have b: "bv_term b" "0 < getSize b"
    using Cons.prems(2) bv_term_width(1) [of b] by auto
  have e: "bv_term ?e" "getSize ?e = getSize b" "val G m ?e = take_bit (getSize b) (drop_bit ?s (val G m x))"
    using extract_term_simps [OF assms(1), of ?s "getSize b + ?s - 1"] Cons.prems(1) b(2) by simp_all
  note p = op_pair [OF e(1) b(1) e(2) refl]
  have IH: "(\<forall>a\<in>set (slice_nodes k x bs). bv_term a) \<and> cat_size (slice_nodes k x bs) = cat_size bs \<and>
    length (slice_nodes k x bs) = length bs \<and> cat_val G m (slice_nodes k x bs) = f (take_bit (cat_size bs) (val G m x)) (cat_val G m bs)"
    using Cons by simp
  define B V where "B = cat_val G m bs" and "V = val G m b"
  have B: "drop_bit ?s (V * 2 ^ ?s + B) = V" "take_bit ?s (V * 2 ^ ?s + B) = B"
    using cat_val_bounds [of bs m] Cons.prems(2) by (simp_all add: B_def drop_bit_eq_div take_bit_eq_mod)
  have "drop_bit ?s (take_bit (getSize b + ?s) (val G m x)) = take_bit (getSize b) (drop_bit ?s (val G m x))"
    "take_bit ?s (take_bit (getSize b + ?s) (val G m x)) = take_bit ?s (val G m x)"
    by (simp_all add: drop_bit_take_bit)
  then have "f (take_bit (getSize b + ?s) (val G m x)) (V * 2 ^ ?s + B) =
      f (take_bit (getSize b) (drop_bit ?s (val G m x))) V * 2 ^ ?s + f (take_bit ?s (val G m x)) B"
    by (subst op_split [where s = ?s]) (simp only: B)
  then show ?case
    using IH p e(3) by (simp add: B_def V_def)
qed

end

end
