(* ===== verification/Bv_Slicing.thy ===== *)
theory Bv_Slicing
  imports Bv_Bitwise_Rules
begin

text \<open>
  Soundness of the two rules that cut a bitwise operation into a concatenation of operations on
  slices, at the border of a constant or of runs of equal bits of a constant.
\<close>

section \<open>Pulling a concatenation up\<close>

context gmp_documented
begin

text \<open>A list of blocks, joined into at most one node.\<close>

lemma joined_blocks:
  assumes "\<forall>a\<in>set bs. bv_term a" "cat_size bs < 2 ^ 32" "js = (if bs = [] then [] else [mkConcat_vector bs])"
  shows "\<forall>a\<in>set js. bv_term a" "cat_size js = cat_size bs" "cat_val G m js = cat_val G m bs"
  using mkConcat_list [OF _ assms(1,2)] assms(3) by (auto split: if_splits)

end

context bitwise_operator
begin

text \<open>One operand apart from the others.\<close>

lemma operand_apart:
  assumes "2 \<le> length ns" "\<forall>a\<in>set ns. bv_term a \<and> getSize a = w" "c \<in> set ns" "x = mkNaryNode k (remove1 c ns)"
  shows "bv_term x" "getSize x = w" "take_bit w (foldr f (map (val G m) ns) z) = f (val G m x) (val G m c)"
proof -
  have rest: "remove1 c ns \<noteq> []" "\<forall>a\<in>set (remove1 c ns). bv_term a \<and> getSize a = w"
    using assms(1-3) set_remove1_subset [of c ns] by (auto simp: length_remove1 simp flip: length_0_conv)
  have x: "bv_term x" "getSize x = w" "val G m x = take_bit w (foldr f (map (val G m) (remove1 c ns)) z)"
    using operator_list [OF rest, of x size] assms(4) by simp_all
  show "bv_term x" "getSize x = w"
    by (rule x)+
  have "mset ns = mset (c # remove1 c ns)"
    using assms(3) by simp
  then have "foldr f (map (val G m) ns) z = foldr f (map (val G m) (c # remove1 c ns)) z"
    by (intro op_permuted) (simp only: mset_map)
  then have "take_bit w (foldr f (map (val G m) ns) z) = f (take_bit w (val G m c)) (val G m x)"
    by (simp add: take_bit_op x(3))
  moreover have "take_bit w (val G m c) = val G m c"
    using assms(2,3) val_bounds(3) [of c m] by auto
  ultimately show "take_bit w (foldr f (map (val G m) ns) z) = f (val G m x) (val G m c)"
    by (simp add: commute)
qed

lemma pull_up_operator:
  assumes "isKind k n" "AndOrXorConcatPullUp_applies G n"
  shows "rewrites_to G n (AndOrXorConcatPullUp G n)"
  using assms(1)
proof (rule rewrites_operator)
  fix ns w
  assume n: "n = mkNode k ns" and ns: "2 \<le> length ns" "\<forall>a\<in>set ns. bv_term a \<and> getSize a = w"
  obtain C cc where C: "find (isKind K_BITVECTOR_CONCAT) ns = Some C" "find isConst (children C) = Some cc" "simple_const G cc"
    using assms(2) by (auto simp: AndOrXorConcatPullUp_applies_def n split: option.splits)
  then have "isKind K_BITVECTOR_CONCAT C" and C_in: "C \<in> set ns"
    by (auto simp: find_Some_iff)
  then obtain cs where cs: "C = mkNode K_BITVECTOR_CONCAT cs"
    using isKind_cases by blast
  have bv: "bv_term C" "getSize C = w"
    using ns(2) C_in by auto
  note con = concat_children [OF bv_termD(2,1) [OF bv(1), unfolded cs]]
  have sz: "cat_size cs = w"
    using concat_list_term(2) [OF con(1,2,4)] bv(2) by (simp add: cs)
  have "cs \<noteq> []"
    using con(1) by auto
  from val_concat_list [OF this con(2,4)] have cv: "val G m C = cat_val G m cs" for m
    by (simp add: cs)
  define yb rest where "yb = takeWhile (\<lambda>c. \<not> simple_const G c) cs" and "rest = dropWhile (\<lambda>c. \<not> simple_const G c) cs"
  have "cc \<in> set cs"
    using C(2) by (auto simp: cs find_Some_iff)
  then have "rest \<noteq> []"
    using C(3) by (auto simp: rest_def dropWhile_eq_Nil_conv)
  then obtain c zb where rest: "rest = c # zb"
    by (cases rest) auto
  have split: "cs = yb @ c # zb"
    unfolding rest [symmetric] yb_def rest_def by (rule takeWhile_dropWhile_id [symmetric])
  define ys zs where "ys = (if yb = [] then [] else [mkConcat_vector yb])" and "zs = (if zb = [] then [] else [mkConcat_vector zb])"
  have parts: "\<forall>a\<in>set yb. bv_term a" "\<forall>a\<in>set zb. bv_term a" "bv_term c" "cat_size yb < 2 ^ 32" "cat_size zb < 2 ^ 32"
    using con(2,4) by (auto simp: split)
  note Y = joined_blocks [OF parts(1,4) ys_def] and Z = joined_blocks [OF parts(2,5) zs_def]
  define bs where "bs = ys @ [c] @ zs"
  have bs: "\<forall>a\<in>set bs. bv_term a" "cat_size bs = w" "cat_val G m bs = cat_val G m cs" for m
    using Y(1,2) Y(3) [of m] Z(1,2) Z(3) [of m] parts(3) sz by (auto simp: bs_def split)
  have len: "2 \<le> length bs"
    using con(1) by (auto simp: bs_def ys_def zs_def split)
  define x where "x = mkNaryNode k (remove1 C ns)"
  note x = operand_apart [OF ns C_in x_def]
  have slices: "\<forall>a\<in>set (slice_nodes k x bs). bv_term a" "cat_size (slice_nodes k x bs) = w" "2 \<le> length (slice_nodes k x bs)"
    "cat_val G m (slice_nodes k x bs) = f (take_bit w (val G m x)) (cat_val G m bs)" for m
    using slice_nodes [OF x(1) _ bs(1), of m] x(2) bs(2) len by auto
  have xb: "(if 1 < length (remove1 C ns) then mkNode k (remove1 C ns) else remove1 C ns ! 0) = x"
    using ns(1) C_in by (auto simp: x_def mkNaryNode_def length_remove1)
  have my: "(if yb = [] then 0 else getSize (mkConcat_vector yb)) = cat_size yb" "(if zb = [] then 0 else getSize (mkConcat_vector zb)) = cat_size zb"
    using Y(2) Z(2) by (auto simp: ys_def zs_def split: if_splits)
  have pos: "cat_size yb \<noteq> 0 \<longleftrightarrow> yb \<noteq> []" "cat_size zb \<noteq> 0 \<longleftrightarrow> zb \<noteq> []"
    using parts(1,2) bv_term_width(1) by (cases yb; cases zb; force)+
  have chC: "children C = cs"
    by (simp add: cs)
  have "AndOrXorConcatPullUp G n = mkNode K_BITVECTOR_CONCAT
      ((if cat_size yb \<noteq> 0 then [mkNode k [mkExtract x (w - 1) (w - cat_size yb), mkConcat_vector yb]] else []) @
       [mkNode k [mkExtract x (w - cat_size yb - 1) (cat_size zb), c]] @
       (if cat_size zb \<noteq> 0 then [mkNode k [mkExtract x (cat_size zb - 1) 0, mkConcat_vector zb]] else []))"
    unfolding AndOrXorConcatPullUp_def n node.case C(1) option.case Let_def chC yb_def [symmetric] rest_def [symmetric] rest list.sel xb my x(2) ..
  moreover have "w = cat_size yb + getSize c + cat_size zb"
    using sz by (simp add: split)
  ultimately have r: "AndOrXorConcatPullUp G n = mkNode K_BITVECTOR_CONCAT (slice_nodes k x bs)"
    using my pos by (auto simp: bs_def ys_def zs_def add.assoc)
  have lim: "cat_size (slice_nodes k x bs) < 2 ^ 32"
    using slices(2) con(4) sz by simp
  have "slice_nodes k x bs \<noteq> []"
    using slices(3) by auto
  from val_concat_list [OF this slices(1) lim] show "bv_term (AndOrXorConcatPullUp G n) \<and> getSize (AndOrXorConcatPullUp G n) = w \<and>
    (\<forall>m. val G m (AndOrXorConcatPullUp G n) = take_bit w (foldr f (map (val G m) ns) z))"
    unfolding r using concat_list_term [OF slices(3,1) lim] slices(2-4) x(2,3) bs(3) cv val_bounds(3) [OF x(1)]
    by auto
qed

section \<open>Slicing along the bits of a constant\<close>

abbreviation slice_node :: "node \<Rightarrow> node \<Rightarrow> nat \<Rightarrow> nat \<Rightarrow> node" where
  "slice_node c x h l \<equiv> mkNode k [mkExtract c h l, mkExtract x h l]"

lemma append_slice:
  assumes "bv_term c" "bv_term x" "getSize c = w" "getSize x = w" "l \<le> h" "h < w"
    "\<forall>a\<in>set cs. bv_term a" "cat_size cs = w - (h + 1)" "cat_val G m cs = drop_bit (h + 1) (f (val G m c) (val G m x))"
  shows "\<forall>a\<in>set (cs @ [slice_node c x h l]). bv_term a" "cat_size (cs @ [slice_node c x h l]) = w - l"
    "cat_val G m (cs @ [slice_node c x h l]) = drop_bit l (f (val G m c) (val G m x))"
proof -
  let ?F = "f (val G m c) (val G m x)"
  have h: "h < getSize c" "h < getSize x"
    using assms(3,4,6) by simp_all
  note e = extract_term_simps [OF assms(1,5) h(1)] extract_term_simps [OF assms(2,5) h(2)]
  note p = op_pair [OF e(1,4,2,5)]
  show "\<forall>a\<in>set (cs @ [slice_node c x h l]). bv_term a" "cat_size (cs @ [slice_node c x h l]) = w - l"
    using p(1,2) assms(5-8) by auto
  have "val G m (slice_node c x h l) = take_bit (h - l + 1) (drop_bit l ?F)"
    using p(3) [of m] e(3) [of m] e(6) [of m] by (simp only: take_bit_op drop_bit_op)
  moreover have "drop_bit (h + 1) ?F = drop_bit (h - l + 1) (drop_bit l ?F)"
    using assms(5) by (simp add: drop_bit_drop_bit)
  ultimately show "cat_val G m (cs @ [slice_node c x h l]) = drop_bit l ?F"
    using bits_ident [of "h - l + 1" "drop_bit l ?F"] p(2) assms(9) by (simp add: push_bit_eq_mult)
qed

lemma slicing_fold:
  assumes "bv_term c" "bv_term x" "getSize c = w" "getSize x = w" "0 < j" "j \<le> h" "h < w"
    "\<forall>a\<in>set cs. bv_term a" "cat_size cs = w - (h + 1)" "cat_val G m cs = drop_bit (h + 1) (f (val G m c) (val G m x))"
    "foldl (slicing_step G k c x) (int j, int h, cs) (rev [0..<j]) = (s, e, cs')"
  shows "(\<forall>a\<in>set cs'. bv_term a) \<and> cat_size cs' = w \<and> cat_val G m cs' = f (val G m c) (val G m x)"
  using assms(5-)
proof (induction j arbitrary: h cs)
  case (Suc i)
  let ?F = "f (val G m c) (val G m x)" and ?b = "getConst c"
  define differ where "differ \<longleftrightarrow> bv_isBitSet G ?b (i + 1) \<noteq> bv_isBitSet G ?b i"
  define h1 where "h1 = (if differ then i else h)"
  define c1 where "c1 = (if differ then cs @ [slice_node c x h (Suc i)] else cs)"
  have inv: "i \<le> h1" "h1 < w" "\<forall>a\<in>set c1. bv_term a" "cat_size c1 = w - (h1 + 1)" "cat_val G m c1 = drop_bit (h1 + 1) ?F"
    using append_slice [OF assms(1-4) Suc.prems(2-6)] Suc.prems(2-6) by (auto simp: c1_def h1_def)
  have step: "slicing_step G k c x (int (Suc i), int h, cs) i = (int i, int h1, if i = 0 then c1 @ [slice_node c x h1 0] else c1)"
    by (simp add: slicing_step_def h1_def c1_def differ_def Let_def del: of_nat_Suc)
  show ?case
  proof (cases "i = 0")
    case True
    then have "cs' = c1 @ [slice_node c x h1 0]"
      using Suc.prems(7) step by simp
    then show ?thesis
      using append_slice [OF assms(1-4) _ inv(2-5), of 0] by simp
  next
    case False
    then show ?thesis
      using Suc.prems(7) step inv by (intro Suc.IH [of h1 c1]) simp_all
  qed
qed simp

lemma slicing_operator:
  assumes "isKind k n" "BitwiseSlicing_applies G n" "getSize n < 2 ^ 31"
  shows "rewrites_to G n (BitwiseSlicing G n)"
  using assms(1)
proof (rule rewrites_operator)
  fix ns w
  assume n: "n = mkNode k ns" and ns: "2 \<le> length ns" "getSize n = w" "\<forall>a\<in>set ns. bv_term a \<and> getSize a = w" "0 < w"
  obtain c where c: "find is_const_bv ns = Some c" and w: "w \<noteq> 1" "w < 2 ^ 31"
    using assms(2,3) ns(2) by (auto simp: BitwiseSlicing_applies_def n split: option.splits)
  then have c_in: "c \<in> set ns" "is_const_bv c"
    by (auto simp: find_Some_iff)
  then have bv: "bv_term c" "getSize c = w" "d_size (getConst c) = w"
    using ns(3) const_bv_at(1) [of c w] by (auto simp: bv_at_def)
  define x where "x = mkNaryNode k (remove1 c ns)"
  note x = operand_apart [OF ns(1,3) c_in(1) x_def]
  have s: "s32 (u32_sub w 1) = int (w - 1)"
    using ns(4) w(2) u32_sub_ge [of 1 w] s32_id [of "w - 1"] by simp
  obtain e1 e2 cs where f: "foldl (slicing_step G k c x) (int (w - 1), int (w - 1), []) (rev [0..<w - 1]) = (e1, e2, cs)"
    by (cases "foldl (slicing_step G k c x) (int (w - 1), int (w - 1), []) (rev [0..<w - 1])") auto
  have "take_bit w (f (val G m c) (val G m x)) = f (val G m c) (val G m x)" for m
    using val_bounds(3) [OF bv(1), of m] val_bounds(3) [OF x(1), of m] bv(2) x(2) by (simp add: take_bit_op)
  then have "drop_bit w (f (val G m c) (val G m x)) = 0" for m
    using drop_bit_take_bit [of w w "f (val G m c) (val G m x)"] by simp
  then have "(\<forall>a\<in>set cs. bv_term a) \<and> cat_size cs = w \<and> cat_val G m cs = f (val G m c) (val G m x)" for m
    using ns(4) w(1) by (intro slicing_fold [OF bv(1) x(1) bv(2) x(2) _ _ _ _ _ _ f]) auto
  then have cs: "\<forall>a\<in>set cs. bv_term a" "cat_size cs = w" "\<And>m. cat_val G m cs = f (val G m c) (val G m x)"
    by auto
  have "cs \<noteq> []" "cat_size cs < 2 ^ 32"
    using cs(2) ns(4) w(2) by auto
  moreover have "BitwiseSlicing G n = mkConcat_vector cs"
    using c f by (simp add: BitwiseSlicing_def n bv(3) s x_def Let_def del: One_nat_def)
  ultimately show "bv_term (BitwiseSlicing G n) \<and> getSize (BitwiseSlicing G n) = w \<and>
    (\<forall>m. val G m (BitwiseSlicing G n) = take_bit w (foldr f (map (val G m) ns) z))"
    using mkConcat_list [OF _ cs(1)] cs(2,3) x(3) commute by simp
qed

end

end
