(* ===== verification/Bv_Overflow.thy ===== *)
theory Bv_Overflow
  imports Bv_Elimination_Correct
begin

text \<open>
  The rules for multiplication overflow and for repetition, and the soundness of all elimination
  rules.  The multiplication rules detect an overflow from the leading bits of the factors and one
  extra bit of the product; the lemmas of the first section justify that on integers.
\<close>

section \<open>Overflow of a product\<close>

lemma bit_or_above:
  fixes a :: int
  assumes "0 \<le> a"
  shows "bit a j \<or> 2 ^ Suc j \<le> a \<longleftrightarrow> 2 ^ j \<le> a"
proof (cases "a < 2 ^ Suc j")
  case True
  then have "a div 2 ^ j = (if 2 ^ j \<le> a then 1 else 0)"
    using assms by (auto intro: int_div_pos_eq [of _ _ _ "a - 2 ^ j"] simp: div_pos_pos_trivial)
  with True show ?thesis
    by (auto simp: bit_iff_odd)
next
  case False
  then have "2 ^ Suc j \<le> a" "2 ^ j \<le> a"
    using zero_less_power [of "2 :: int" j] by (simp_all only: power_Suc not_less) linarith
  then show ?thesis
    by blast
qed

lemma leading_bit:
  fixes b :: int
  assumes "0 < b" "b < 2 ^ n"
  obtains i where "i < n" "bit b i" "2 ^ i \<le> b" "b < 2 ^ Suc i"
proof -
  define i where "i = (GREATEST i. 2 ^ i \<le> b)"
  have bound: "j < n" if "2 ^ j \<le> b" for j
    using that assms(2) by (meson le_less_trans power_less_imp_less_exp less_trans one_less_numeral_iff semiring_norm(76))
  have "2 ^ (0 :: nat) \<le> b"
    using assms(1) by simp
  then have i: "2 ^ i \<le> b" "\<And>j. 2 ^ j \<le> b \<Longrightarrow> j \<le> i"
    unfolding i_def using bound by (metis (mono_tags, lifting) GreatestI_nat less_imp_le) (metis (mono_tags, lifting) Greatest_le_nat bound less_imp_le)
  then have lt: "b < 2 ^ Suc i"
    by (meson not_less not_less_eq_eq order.refl)
  then have "bit b i"
    using i(1) bit_or_above [of b i] assms(1) by simp
  with i(1) lt bound [OF i(1)] that show ?thesis
    by blast
qed

lemma unsigned_mult_overflow:
  fixes a b :: int
  assumes "0 \<le> a" "a < 2 ^ n" "0 \<le> b" "b < 2 ^ n"
  shows "(\<exists>i\<in>{1..<n}. bit b i \<and> 2 ^ (n - i) \<le> a) \<or> bit (take_bit (Suc n) (a * b)) n \<longleftrightarrow> 2 ^ n \<le> a * b"
proof -
  have "2 ^ n \<le> a * b" if "i \<in> {1..<n}" "bit b i" "2 ^ (n - i) \<le> a" for i
  proof -
    have "2 ^ i \<le> b"
      using bit_or_above [OF assms(3)] that(2) by blast
    then have "2 ^ (n - i) * 2 ^ i \<le> a * b"
      using that(3) assms by (intro mult_mono) simp_all
    then show ?thesis
      using that(1) by (simp flip: power_add)
  qed
  moreover have "2 ^ n \<le> a * b" if "bit (take_bit (Suc n) (a * b)) n"
  proof -
    have "bit (a * b) n"
      using that by (simp add: bit_take_bit_iff)
    then show ?thesis
      using bit_or_above [of "a * b" n] assms by simp
  qed
  moreover have "(\<exists>i\<in>{1..<n}. bit b i \<and> 2 ^ (n - i) \<le> a) \<or> bit (take_bit (Suc n) (a * b)) n" if le: "2 ^ n \<le> a * b"
  proof (rule ccontr)
    assume none: "\<not> ((\<exists>i\<in>{1..<n}. bit b i \<and> 2 ^ (n - i) \<le> a) \<or> bit (take_bit (Suc n) (a * b)) n)"
    have "0 < b"
      using le assms(3) by (cases "b = 0") auto
    then obtain i where i: "i < n" "bit b i" "2 ^ i \<le> b" "b < 2 ^ Suc i"
      using assms(4) by (rule leading_bit)
    have "a * b < 2 ^ Suc n"
    proof (cases "i = 0")
      case True
      then have "b = 1"
        using i \<open>0 < b\<close> by simp
      then show ?thesis
        using less_trans [OF assms(2) power_strict_increasing [of n "Suc n" "2 :: int"]] by simp
    next
      case False
      then have "a < 2 ^ (n - i)"
        using none i by force
      then have "a * b < 2 ^ (n - i) * 2 ^ Suc i"
        using i assms by (intro mult_strict_mono) simp_all
      also have "\<dots> = 2 ^ Suc n"
        using i(1) by (simp flip: power_add)
      finally show ?thesis .
    qed
    moreover have "\<not> bit (a * b) n"
      using none by (simp add: bit_take_bit_iff)
    ultimately show False
      using bit_or_above [of "a * b" n] le assms by auto
  qed
  ultimately show ?thesis
    by blast
qed

lemma sign_bits_differ:
  fixes z :: int
  assumes "\<bar>z\<bar> \<le> 2 ^ Suc m"
  shows "bit z (Suc m) \<noteq> bit z m \<longleftrightarrow> \<not> fits_signed (Suc m) z"
proof -
  define p :: int where "p = 2 ^ m"
  define q where "q = z div p"
  have p: "0 < p"
    by (simp add: p_def)
  have z: "p * q \<le> z" "z < p * q + p"
    using mult_div_mod_eq [of p z] pos_mod_sign [OF p, of z] pos_mod_bound [OF p, of z] unfolding q_def by linarith+
  have bits: "bit z m \<longleftrightarrow> odd q" "bit z (Suc m) \<longleftrightarrow> odd (q div 2)"
    using zdiv_zmult2_eq [of 2 z "2 ^ m"] by (simp_all add: q_def p_def bit_iff_odd mult.commute)
  have "p * q \<le> p * 2" "p * (- 3) < p * q"
    using assms z p unfolding power_Suc p_def [symmetric] by linarith+
  then have "q \<le> 2" "- 3 < q"
    using p by (simp_all only: mult_le_cancel_left_pos mult_less_cancel_left_pos)
  then consider "q = - 2" | "q = - 1" | "q = 0" | "q = 1" | "q = 2"
    by linarith
  then show ?thesis
    unfolding bits fits_signed_def diff_Suc_1 p_def [symmetric] using z p by cases auto
qed

lemma signed_mult_overflow:
  fixes x y :: int
  defines "A \<equiv> (if x < 0 then - x - 1 else x)" and "B \<equiv> (if y < 0 then - y - 1 else y)"
  assumes "\<And>z. z \<in> {x, y} \<Longrightarrow> - (2 ^ m) \<le> z \<and> z < 2 ^ m" "0 < m"
  shows "(\<exists>j\<in>{1..<m}. bit B j \<and> 2 ^ (m - j) \<le> A) \<or> bit (x * y) (Suc m) \<noteq> bit (x * y) m \<longleftrightarrow> \<not> fits_signed (Suc m) (x * y)"
proof -
  have A: "0 \<le> A" "A < 2 ^ m" "A \<le> \<bar>x\<bar>" "\<bar>x\<bar> \<le> A + 1" and B: "0 \<le> B" "B < 2 ^ m" "B \<le> \<bar>y\<bar>" "\<bar>y\<bar> \<le> B + 1"
    using assms(3) [of x] assms(3) [of y] by (auto simp: A_def B_def)
  have "\<not> fits_signed (Suc m) (x * y)" if "j \<in> {1..<m}" "bit B j" "2 ^ (m - j) \<le> A" for j
  proof -
    have j: "2 ^ j \<le> B" "2 ^ (m - j) * 2 ^ j = (2 :: int) ^ m"
      using bit_or_above [OF B(1)] that by (auto simp flip: power_add)
    have "2 ^ (m - j) * 2 ^ j \<le> A * B"
      using that(3) j(1) A B by (intro mult_mono) simp_all
    then have "2 ^ m \<le> A * B"
      by (simp only: j(2))
    moreover have "1 \<le> A" "1 \<le> B"
      using that(3) j(1) one_le_power [of "2 :: int" j] one_le_power [of "2 :: int" "m - j"] by linarith+
    moreover have "x * y = (if x < 0 then if y < 0 then (A + 1) * (B + 1) else - ((A + 1) * B) else if y < 0 then - (A * (B + 1)) else A * B)"
      by (simp add: A_def B_def algebra_simps)
    ultimately show ?thesis
      by (auto simp: fits_signed_def distrib_left distrib_right split: if_splits)
  qed
  moreover have "\<bar>x * y\<bar> \<le> 2 ^ Suc m" if none: "\<not> (\<exists>j\<in>{1..<m}. bit B j \<and> 2 ^ (m - j) \<le> A)"
  proof -
    obtain i where i: "i < m" "B < 2 ^ Suc i" "i \<noteq> 0 \<Longrightarrow> bit B i"
    proof (cases "B = 0")
      case False
      then show ?thesis
        using B(1,2) leading_bit [of B m] that by (metis order_le_less)
    qed (use assms(4) that [of 0] in simp)
    have "A + 1 \<le> 2 ^ (m - i)"
      using none i A(2) by (cases "i = 0") force+
    then have "\<bar>x\<bar> * \<bar>y\<bar> \<le> 2 ^ (m - i) * 2 ^ Suc i"
      using A B i(2) by (intro mult_mono) linarith+
    also have "\<dots> = 2 ^ Suc m"
      using i(1) by (simp flip: power_add)
    finally show ?thesis
      by (simp add: abs_mult)
  qed
  ultimately show ?thesis
    using sign_bits_differ [of "x * y" m] by blast
qed

section \<open>The rules\<close>

lemma list_all2_ex: "list_all2 (\<lambda>x y. P y = Q x) xs ys \<Longrightarrow> (\<exists>y\<in>set ys. P y) \<longleftrightarrow> (\<exists>x\<in>set xs. Q x)"
  by (induction rule: list_all2_induct) auto

context gmp_documented
begin

lemma val_bit: "bv_term c \<Longrightarrow> getSize c = 1 \<Longrightarrow> val G m c \<in> {0, 1}"
  using val_bounds(1,2) [of c m] by auto

lemma foldl_or_bits:
  assumes "\<forall>b\<in>set bs. d_value b \<in> {0, 1}" "d_size x = 1" "d_value x \<in> {0, 1}"
  shows "d_value (foldl (bv_or G) x bs) = of_bool (d_value x \<noteq> 0 \<or> (\<exists>b\<in>set bs. d_value b \<noteq> 0))"
  using assms
proof (induction bs arbitrary: x)
  case (Cons b bs)
  have "d_value (bv_or G x b) = of_bool (d_value x \<noteq> 0 \<or> d_value b \<noteq> 0)" "d_size (bv_or G x b) = 1"
    using Cons.prems by (auto simp: value_or)
  with Cons show ?case
    by auto
qed auto

lemma val_or_bits:
  assumes "2 \<le> length cs" "\<forall>c\<in>set cs. bv_term c \<and> getSize c = 1"
  shows "val G m (mkNode K_BITVECTOR_OR cs) = of_bool (\<exists>c\<in>set cs. val G m c \<noteq> 0)"
proof -
  obtain c cs' where cs: "cs = c # cs'"
    using assms(1) by (cases cs) auto
  have "d_value (bvval G m c) \<in> {0, 1}" "d_size (bvval G m c) = 1" if "c \<in> set cs" for c
    using assms(2) that val_bit [of c m] bv_term_value(2) [of c m] by (auto simp: val_def)
  then show ?thesis
    using foldl_or_bits [of "map (bvval G m) cs'" "bvval G m c"] by (simp add: cs val_def bvval_nary)
qed

definition bit_node :: "(model \<Rightarrow> bool) \<Rightarrow> node \<Rightarrow> bool" where
  "bit_node f c \<longleftrightarrow> bv_term c \<and> getSize c = 1 \<and> (\<forall>m. val G m c = of_bool (f m))"

lemma bit_node_extract:
  "bv_term a \<Longrightarrow> i < getSize a \<Longrightarrow> bit_node (\<lambda>m. bit (val G m a) i) (mkExtract a i i)"
  by (simp add: bit_node_def mkExtract_def term_simps)

lemma bit_node_connectives:
  assumes "bit_node f c" "bit_node g d"
  shows "bit_node (\<lambda>m. f m \<and> g m) (mkNode K_BITVECTOR_AND [c, d])"
    "bit_node (\<lambda>m. f m \<or> g m) (mkNode K_BITVECTOR_OR [c, d])"
    "bit_node (\<lambda>m. f m \<noteq> g m) (mkNode K_BITVECTOR_XOR [c, d])"
  using assms by (auto simp: bit_node_def term_simps)

lemma bit_node_cong: "bit_node f c \<Longrightarrow> (\<And>m. f m = g m) \<Longrightarrow> bit_node g c"
  by (simp add: bit_node_def)

lemma bit_node_test:
  "bit_node f c \<Longrightarrow> sentence (mkNode K_EQUAL [c, utils_mkOne G 1]) \<and> truth G m (mkNode K_EQUAL [c, utils_mkOne G 1]) = f m"
  by (simp add: bit_node_def utils_mkOne_def term_simps)

text \<open>The loop of \<^verbatim>\<open>UmuloEliminate\<close>: what \<open>uppc\<close> and \<open>tmp\<close> hold before each iteration.\<close>

lemma umulo_loop:
  assumes ab: "bv_term a" "bv_term b" "getSize a = n" "getSize b = n" and "k < n"
  shows "\<exists>uppc tmp. fold (umulo_step a b n) [1..<Suc k] (mkExtract a (n - 1) (n - 1), []) = (uppc, tmp) \<and>
    bit_node (\<lambda>m. 2 ^ (n - Suc k) \<le> val G m a) uppc \<and>
    list_all2 (\<lambda>i. bit_node (\<lambda>m. bit (val G m b) i \<and> 2 ^ (n - i) \<le> val G m a)) [1..<Suc k] tmp"
  using \<open>k < n\<close>
proof (induction k)
  case 0
  then have "bit_node (\<lambda>m. 2 ^ (n - 1) \<le> val G m a) (mkExtract a (n - 1) (n - 1))"
    using bit_node_extract [OF ab(1), of "n - 1"] sval_val(2) [OF ab(1)] by (simp add: ab(3))
  then show ?case
    by simp
next
  case (Suc k)
  then obtain uppc tmp where IH: "fold (umulo_step a b n) [1..<Suc k] (mkExtract a (n - 1) (n - 1), []) = (uppc, tmp)"
    "bit_node (\<lambda>m. 2 ^ (n - Suc k) \<le> val G m a) uppc"
    "list_all2 (\<lambda>i. bit_node (\<lambda>m. bit (val G m b) i \<and> 2 ^ (n - i) \<le> val G m a)) [1..<Suc k] tmp"
    by auto
  have up: "[1..<Suc (Suc k)] = [1..<Suc k] @ [Suc k]"
    by simp
  have e: "n - 1 - Suc k = n - Suc (Suc k)" "n - Suc k = Suc (n - Suc (Suc k))"
    using Suc.prems by simp_all
  have bits: "bit_node (\<lambda>m. bit (val G m a) (n - 1 - Suc k)) (mkExtract a (n - 1 - Suc k) (n - 1 - Suc k))"
    "bit_node (\<lambda>m. bit (val G m b) (Suc k)) (mkExtract b (Suc k) (Suc k))"
    using Suc.prems bit_node_extract [OF ab(1), of "n - 1 - Suc k"] bit_node_extract [OF ab(2), of "Suc k"] by (simp_all add: ab)
  have "bit_node (\<lambda>m. 2 ^ (n - Suc (Suc k)) \<le> val G m a) (mkNode K_BITVECTOR_OR [mkExtract a (n - 1 - Suc k) (n - 1 - Suc k), uppc])"
    by (rule bit_node_cong [OF bit_node_connectives(2) [OF bits(1) IH(2)]])
      (simp only: e bit_or_above [OF val_bounds(1) [OF ab(1)]])
  moreover have "bit_node (\<lambda>m. bit (val G m b) (Suc k) \<and> 2 ^ (n - Suc k) \<le> val G m a) (mkNode K_BITVECTOR_AND [mkExtract b (Suc k) (Suc k), uppc])"
    by (rule bit_node_connectives(1) [OF bits(2) IH(2)])
  ultimately show ?case
    unfolding up fold_append comp_def IH(1) using IH(3) by (auto simp: umulo_step_def list_all2_appendI simp del: upt_Suc)
qed

lemma UmuloEliminate_sound:
  assumes "UmuloEliminate_applies n" "\<forall>c\<in>set (children n). getSize c + 1 < 2 ^ 32"
  shows "rewrites_to G n (UmuloEliminate G n)"
  using assms(1) unfolding UmuloEliminate_applies_def
proof (rule rewrites_predicate)
  fix a b
  assume n: "n = mkNode K_BITVECTOR_UMULO [a, b]" and ab: "bv_term a" "bv_term b" "getSize a = getSize b"
  let ?w = "getSize b"
  note va = val_bounds(1,2) [OF ab(1)] and vb = val_bounds(1,2) [OF ab(2)]
  have over: "(\<exists>i\<in>{1..<?w}. bit (val G m b) i \<and> 2 ^ (?w - i) \<le> val G m a) \<or>
      bit (take_bit (Suc ?w) (val G m a * val G m b)) ?w \<longleftrightarrow> truth G m (mkNode K_BITVECTOR_UMULO [a, b])" for m
    using unsigned_mult_overflow [of "val G m a" ?w "val G m b"] va vb ab by (simp add: term_simps)
  show "sentence (UmuloEliminate G n) \<and> (\<forall>m. truth G m (UmuloEliminate G n) = truth G m (mkNode K_BITVECTOR_UMULO [a, b]))"
  proof (cases "?w = 1")
    case True
    have "\<not> 2 ^ ?w \<le> val G m a * val G m b" for m
      using val_bit [OF ab(1), of m] val_bit [OF ab(2), of m] ab(3) True by auto
    with True ab show ?thesis
      by (simp add: n UmuloEliminate_def child_def term_simps)
  next
    case False
    then have w: "?w - 1 < ?w" "1 \<le> ?w - 1" "Suc (?w - 1) = ?w"
      using bv_term_width(1) [OF ab(2)] by simp_all
    obtain uppc tmp where loop: "fold (umulo_step a b ?w) [1..<?w] (mkExtract a (?w - 1) (?w - 1), []) = (uppc, tmp)"
      "list_all2 (\<lambda>i. bit_node (\<lambda>m. bit (val G m b) i \<and> 2 ^ (?w - i) \<le> val G m a)) [1..<?w] tmp"
      using umulo_loop [OF ab(1,2,3) refl w(1)] unfolding w(3) by blast
    define mul where "mul = mkNode K_BITVECTOR_MULT [mkConcat (utils_mkZero G 1) a, mkConcat (utils_mkZero G 1) b]"
    have "bv_term mul" "getSize mul = Suc ?w" "\<And>m. val G m mul = take_bit (Suc ?w) (val G m a * val G m b)"
      using ab assms(2) by (simp_all add: n mul_def mkConcat_def utils_mkZero_def term_simps)
    then have top: "bit_node (\<lambda>m. bit (take_bit (Suc ?w) (val G m a * val G m b)) ?w) (mkExtract mul ?w ?w)"
      using bit_node_extract [of mul ?w] by simp
    let ?tmp = "tmp @ [mkExtract mul ?w ?w]"
    have len: "length tmp = ?w - 1"
      using list_all2_lengthD [OF loop(2)] by simp
    have "bit_node (\<lambda>m. truth G m (mkNode K_BITVECTOR_UMULO [a, b])) (mkNode K_BITVECTOR_OR ?tmp)"
    proof -
      have terms: "\<forall>c\<in>set ?tmp. bv_term c \<and> getSize c = 1"
        using loop(2) top by (auto simp: list_all2_conv_all_nth bit_node_def in_set_conv_nth)
      have "(\<exists>c\<in>set tmp. val G m c \<noteq> 0) \<longleftrightarrow> (\<exists>i\<in>{1..<?w}. bit (val G m b) i \<and> 2 ^ (?w - i) \<le> val G m a)" for m
      proof -
        have "list_all2 (\<lambda>i c. (val G m c \<noteq> 0) = (bit (val G m b) i \<and> 2 ^ (?w - i) \<le> val G m a)) [1..<?w] tmp"
          using loop(2) by (rule list_all2_mono) (auto simp: bit_node_def)
        from list_all2_ex [OF this] show ?thesis
          by simp
      qed
      then have ex: "(\<exists>c\<in>set ?tmp. val G m c \<noteq> 0) \<longleftrightarrow> truth G m (mkNode K_BITVECTOR_UMULO [a, b])" for m
        using top unfolding over [symmetric] by (auto simp: bit_node_def)
      have two: "2 \<le> length ?tmp"
        using len w by simp
      have "bv_term (mkNode K_BITVECTOR_OR ?tmp) \<and> getSize (mkNode K_BITVECTOR_OR ?tmp) = 1"
        by (rule nary_term [OF _ two terms]) simp
      then show ?thesis
        unfolding bit_node_def val_or_bits [OF two terms] ex by blast
    qed
    then show ?thesis
      using False bit_node_test by (simp add: n UmuloEliminate_def child_def Let_def ab(3) loop(1) mul_def del: One_nat_def)
  qed
qed simp

text \<open>The loop of \<^verbatim>\<open>SmuloEliminate\<close>, on the factors with their sign removed.\<close>

lemma smulo_loop:
  assumes AB: "bv_term A" "bv_term B" "getSize A = n" "getSize B = n" "\<And>m. val G m A < 2 ^ (n - 1)" and "Suc k < n - 1" "3 \<le> n"
  shows "\<exists>ppc res. fold (smulo_step A B n) [1..<Suc k] (mkExtract A (n - 2) (n - 2),
      mkNode K_BITVECTOR_AND [mkExtract B 1 1, mkExtract A (n - 2) (n - 2)]) = (ppc, res) \<and>
    bit_node (\<lambda>m. 2 ^ (n - 2 - k) \<le> val G m A) ppc \<and>
    bit_node (\<lambda>m. \<exists>j\<in>{1..<Suc (Suc k)}. bit (val G m B) j \<and> 2 ^ (n - 1 - j) \<le> val G m A) res"
  using \<open>Suc k < n - 1\<close>
proof (induction k)
  case 0
  have "bit_node (\<lambda>m. 2 ^ (n - 2) \<le> val G m A) (mkExtract A (n - 2) (n - 2))"
  proof (rule bit_node_cong [OF bit_node_extract [OF AB(1)]])
    have "Suc (n - 2) = n - 1"
      using \<open>3 \<le> n\<close> by simp
    then show "bit (val G m A) (n - 2) = (2 ^ (n - 2) \<le> val G m A)" for m
      using bit_or_above [OF val_bounds(1) [OF AB(1)], of m "n - 2"] AB(5) [of m] by simp
  qed (use \<open>3 \<le> n\<close> AB(3) in simp)
  moreover have "bit_node (\<lambda>m. bit (val G m B) 1) (mkExtract B 1 1)"
    by (rule bit_node_extract [OF AB(2)]) (use \<open>3 \<le> n\<close> AB(4) in simp)
  moreover have "{1..<Suc (Suc 0)} = {1 :: nat}"
    by auto
  ultimately show ?case
    using bit_node_connectives(1) by (simp add: numeral_2_eq_2)
next
  case (Suc k)
  then obtain ppc res where IH: "fold (smulo_step A B n) [1..<Suc k] (mkExtract A (n - 2) (n - 2),
      mkNode K_BITVECTOR_AND [mkExtract B 1 1, mkExtract A (n - 2) (n - 2)]) = (ppc, res)"
    "bit_node (\<lambda>m. 2 ^ (n - 2 - k) \<le> val G m A) ppc"
    "bit_node (\<lambda>m. \<exists>j\<in>{1..<Suc (Suc k)}. bit (val G m B) j \<and> 2 ^ (n - 1 - j) \<le> val G m A) res"
    by auto
  have up: "[1..<Suc (Suc k)] = [1..<Suc k] @ [Suc k]" "{1..<Suc (Suc (Suc k))} = insert (Suc k + 1) {1..<Suc (Suc k)}"
    by auto
  have e: "n - 2 - k = Suc (n - 2 - Suc k)" "n - 1 - (Suc k + 1) = n - 2 - Suc k"
    using Suc.prems by simp_all
  have bits: "bit_node (\<lambda>m. bit (val G m A) (n - 2 - Suc k)) (mkExtract A (n - 2 - Suc k) (n - 2 - Suc k))"
    "bit_node (\<lambda>m. bit (val G m B) (Suc k + 1)) (mkExtract B (Suc k + 1) (Suc k + 1))"
    using Suc.prems bit_node_extract [OF AB(1), of "n - 2 - Suc k"] bit_node_extract [OF AB(2), of "Suc k + 1"] by (simp_all add: AB)
  let ?ppc = "mkNode K_BITVECTOR_OR [ppc, mkExtract A (n - 2 - Suc k) (n - 2 - Suc k)]"
  have ppc: "bit_node (\<lambda>m. 2 ^ (n - 2 - Suc k) \<le> val G m A) ?ppc"
    by (rule bit_node_cong [OF bit_node_connectives(2) [OF IH(2) bits(1)]])
      (simp only: e disj_commute bit_or_above [OF val_bounds(1) [OF AB(1)]])
  have "bit_node (\<lambda>m. \<exists>j\<in>{1..<Suc (Suc (Suc k))}. bit (val G m B) j \<and> 2 ^ (n - 1 - j) \<le> val G m A)
      (mkNode K_BITVECTOR_OR [res, mkNode K_BITVECTOR_AND [mkExtract B (Suc k + 1) (Suc k + 1), ?ppc]])"
    by (rule bit_node_cong [OF bit_node_connectives(2) [OF IH(3) bit_node_connectives(1) [OF bits(2) ppc]]])
      (unfold up(2) e(2) [symmetric], blast)
  with ppc show ?case
    unfolding up(1) fold_append comp_def IH(1) by (simp add: smulo_step_def Let_def del: upt_Suc)
qed

lemma xor_mask:
  assumes "bv_term a"
  shows "val G m a XOR (2 ^ getSize a - 1) = 2 ^ getSize a - 1 - val G m a"
proof -
  have "val G m a XOR mask (getSize a) = take_bit (getSize a) (NOT (val G m a))"
    using val_bounds(3) [OF assms, of m]
    by (intro bit_eqI) (metis bit_mask_iff bit_not_iff bit_take_bit_iff bit_xor_iff possible_bit_int)
  then show ?thesis
    using val_bounds(3) [OF assms, of m] by (simp add: mask_eq_exp_minus_1 take_bit_not_eq_mask_diff)
qed

text \<open>The exclusive or with the repeated sign bit removes the sign.\<close>

lemma remove_sign:
  assumes "bv_term a" "getSize a = w"
  defines "A \<equiv> mkNode K_BITVECTOR_XOR [a, mkSignExtend (mkExtract a (w - 1) (w - 1)) (w - 1)]"
  shows "bv_term A" "getSize A = w" "val G m A = (if sval G m a < 0 then - sval G m a - 1 else sval G m a)"
proof -
  define s where "s = mkExtract a (w - 1) (w - 1)"
  have w: "0 < w" "w < 2 ^ 32"
    using bv_term_width [OF assms(1)] assms(2) by simp_all
  have s: "bv_term s" "getSize s = 1" "val G m s = of_bool (sval G m a < 0)"
    using assms(1,2) w sval_bounds(3) [OF assms(1), of m] by (simp_all add: s_def mkExtract_def term_simps)
  have ss: "sval G m s = (if sval G m a < 0 then - 1 else 0)"
    using s by (simp add: sval_def)
  have e: "bv_term (mkSignExtend s (w - 1))" "getSize (mkSignExtend s (w - 1)) = w"
    "val G m (mkSignExtend s (w - 1)) = (if sval G m a < 0 then 2 ^ w - 1 else 0)"
    using s w ss by (simp_all add: mkSignExtend_def term_simps take_bit_minus_one_eq_mask mask_eq_exp_minus_1)
  show "bv_term A" "getSize A = w"
    unfolding A_def s_def [symmetric] using e assms(1,2) by (simp_all add: term_simps del: One_nat_def)
  have "val G m A = val G m a XOR (if sval G m a < 0 then 2 ^ w - 1 else 0)"
    unfolding A_def s_def [symmetric] using e assms(1,2) by (simp add: term_simps del: One_nat_def)
  then show "val G m A = (if sval G m a < 0 then - sval G m a - 1 else sval G m a)"
    using xor_mask [OF assms(1), of m] sval_val(1) [OF assms(1), of m] sval_bounds(3) [OF assms(1), of m] assms(2) by auto
qed

lemma smulo_top:
  assumes "bv_term a" "bv_term b" "getSize a = w" "getSize b = w" "w + 1 < 2 ^ 32"
  defines "mul \<equiv> mkNode K_BITVECTOR_MULT [mkSignExtend a 1, mkSignExtend b 1]"
  shows "bit_node (\<lambda>m. bit (sval G m a * sval G m b) w \<noteq> bit (sval G m a * sval G m b) (w - 1))
    (mkNode K_BITVECTOR_XOR [mkExtract mul w w, mkExtract mul (w - 1) (w - 1)])"
proof -
  have "take_bit (Suc w) (take_bit (Suc w) x * take_bit (Suc w) y) = take_bit (Suc w) (x * y)" for x y :: int
    by (simp add: take_bit_eq_mod mod_simps)
  then have mul: "bv_term mul" "getSize mul = Suc w" "\<And>m. val G m mul = take_bit (Suc w) (sval G m a * sval G m b)"
    using assms by (simp_all add: mul_def mkSignExtend_def term_simps)
  have "bit_node (\<lambda>m. bit (sval G m a * sval G m b) i) (mkExtract mul i i)" if "i < Suc w" for i
    using bit_node_extract [OF mul(1), of i] that mul(2,3) by (simp add: bit_take_bit_iff)
  then show ?thesis
    using bit_node_connectives(3) by simp
qed

lemma SmuloEliminate_sound:
  assumes "SmuloEliminate_applies n" "\<forall>c\<in>set (children n). getSize c + 1 < 2 ^ 32"
  shows "rewrites_to G n (SmuloEliminate G n)"
  using assms(1) unfolding SmuloEliminate_applies_def
proof (rule rewrites_predicate)
  fix a b
  assume n: "n = mkNode K_BITVECTOR_SMULO [a, b]" and ab: "bv_term a" "bv_term b" "getSize a = getSize b"
  let ?w = "getSize b"
  let ?A = "mkNode K_BITVECTOR_XOR [a, mkSignExtend (mkExtract a (?w - 1) (?w - 1)) (?w - 1)]"
  let ?B = "mkNode K_BITVECTOR_XOR [b, mkSignExtend (mkExtract b (?w - 1) (?w - 1)) (?w - 1)]"
  let ?mul = "mkNode K_BITVECTOR_MULT [mkSignExtend a 1, mkSignExtend b 1]"
  let ?top = "mkNode K_BITVECTOR_XOR [mkExtract ?mul ?w ?w, mkExtract ?mul (?w - 1) (?w - 1)]"
  let ?P = "\<lambda>m. sval G m a * sval G m b"
  have top: "bit_node (\<lambda>m. bit (?P m) ?w \<noteq> bit (?P m) (?w - 1)) ?top"
    by (rule smulo_top [OF ab(1,2,3) refl]) (use assms(2) n in simp)
  note A = remove_sign [OF ab(1,3)] and B = remove_sign [OF ab(2) refl]
  have range: "- (2 ^ (?w - 1)) \<le> z \<and> z < 2 ^ (?w - 1)" if "z \<in> {sval G m a, sval G m b}" for z m
    using that sval_bounds(1,2) [OF ab(1), of m] sval_bounds(1,2) [OF ab(2), of m] by (auto simp: ab(3))
  have over: "(\<exists>j\<in>{1..<?w - 1}. bit (val G m ?B) j \<and> 2 ^ (?w - 1 - j) \<le> val G m ?A) \<or> bit (?P m) ?w \<noteq> bit (?P m) (?w - 1) \<longleftrightarrow>
      truth G m (mkNode K_BITVECTOR_SMULO [a, b])" if "1 < ?w" for m
    using signed_mult_overflow [of "sval G m a" "sval G m b" "?w - 1", OF range] that unfolding A(3) B(3)
    by (simp add: truth_overflow [OF ab])
  show "sentence (SmuloEliminate G n) \<and> (\<forall>m. truth G m (SmuloEliminate G n) = truth G m (mkNode K_BITVECTOR_SMULO [a, b]))"
  proof -
    consider "?w = 1" | "?w = 2" | "3 \<le> ?w"
      using bv_term_width(1) [OF ab(2)] by linarith
    then show ?thesis
    proof cases
      case 1
      have "val G m a AND val G m b = 1 \<longleftrightarrow> \<not> fits_signed ?w (?P m)" for m
        using val_bit [OF ab(1), of m] val_bit [OF ab(2), of m] ab(3) 1 sval_val [OF ab(1), of m] sval_val [OF ab(2), of m]
        by (auto simp: fits_signed_def)
      with 1 ab show ?thesis
        by (simp add: n SmuloEliminate_def Let_def child_def utils_mkOne_def term_simps)
    next
      case 2
      have "bit_node (\<lambda>m. truth G m (mkNode K_BITVECTOR_SMULO [a, b])) ?top"
        by (rule bit_node_cong [OF top]) (use over 2 in simp)
      with 2 show ?thesis
        using bit_node_test by (simp add: n SmuloEliminate_def Let_def child_def ab(3) del: One_nat_def)
    next
      case 3
      have k: "Suc (?w - 3) < ?w - 1" "Suc (?w - 3) = ?w - 2" "Suc (?w - 2) = ?w - 1"
        using 3 by simp_all
      have "val G m ?A < 2 ^ (?w - 1)" for m
        using range [of "sval G m a" m] unfolding A(3) by auto
      then obtain ppc res where loop: "fold (smulo_step ?A ?B ?w) [1..<?w - 2] (mkExtract ?A (?w - 2) (?w - 2),
          mkNode K_BITVECTOR_AND [mkExtract ?B 1 1, mkExtract ?A (?w - 2) (?w - 2)]) = (ppc, res)"
        "bit_node (\<lambda>m. \<exists>j\<in>{1..<?w - 1}. bit (val G m ?B) j \<and> 2 ^ (?w - 1 - j) \<le> val G m ?A) res"
        using smulo_loop [OF A(1) B(1) A(2) B(2) _ k(1) 3] unfolding k(2,3) by blast
      have "bit_node (\<lambda>m. truth G m (mkNode K_BITVECTOR_SMULO [a, b])) (mkNode K_BITVECTOR_OR [res, ?top])"
        by (rule bit_node_cong [OF bit_node_connectives(2) [OF loop(2) top]]) (use over 3 in simp)
      with 3 show ?thesis
        using bit_node_test by (simp add: n SmuloEliminate_def Let_def child_def ab(3) loop(1) del: One_nat_def)
    qed
  qed
qed simp

section \<open>Repetition\<close>

lemma foldl_replicate: "foldl f x (replicate n y) = ((\<lambda>r. f r y) ^^ n) x"
proof (induction n arbitrary: x)
  case (Suc n)
  then show ?case
    using funpow_swap1 [of "\<lambda>r. f r y" n x] by simp
qed simp

lemma concatLoop_replicate:
  "sz + i * w < 2 ^ 32 \<Longrightarrow> concatLoop sz (replicate i (BITVECTOR_TYPE w)) = Some (BITVECTOR_TYPE (sz + i * w))"
  by (induction i arbitrary: sz) (simp_all add: checkBvResultSize_def Let_def algebra_simps)

lemma RepeatEliminate_sound:
  assumes "RepeatEliminate_applies n"
  shows "rewrites_to G n (RepeatEliminate n)"
proof (rule rewrites_typedI)
  fix T
  assume t: "firstClass n" "getType n = Some T"
  obtain i ns where n: "n = mkNode (K_BITVECTOR_REPEAT i) ns"
    using assms by (auto simp: RepeatEliminate_applies_def split: node.splits kind.splits)
  obtain a where a: "ns = [a]" "bv_term a"
    by (rule unary_children [OF t(2) [unfolded n] t(1) [unfolded n]]) auto
  note ty = bv_termD [OF a(2)]
  have T: "0 < i" "T = BITVECTOR_TYPE (i * getSize a)" "i * getSize a < 2 ^ 32"
    using t(2) ty(2) by (auto simp: n a kind_type_def BitVectorRepeatTypeRule_def checkBvResultSize_def Let_def split: if_splits)
  have ev: "eval G m n = BITVECTOR (((\<lambda>ret. bv_concat G ret (bvval G m a)) ^^ (i - 1)) (bvval G m a))" for m
    by (simp add: n a eval_kind_defs bvval_def)
  show "rewrites_to G n (RepeatEliminate n)"
  proof (cases "i = 1")
    case True
    then show ?thesis
      using t T ty ev bv_term_value(3) [OF a(2)]
      by (simp add: rewrites_to_def RepeatEliminate_def repeatAmount_def child_def n a)
  next
    case False
    then obtain j where j: "i = Suc (Suc j)"
      using T(1) by (cases i) (auto simp: gr0_conv_Suc)
    let ?n = "mkNode K_BITVECTOR_CONCAT (replicate i a)"
    have "those (map getType (replicate i a)) = Some (replicate i (BITVECTOR_TYPE (getSize a)))"
      using those_getType [of "replicate i a" "\<lambda>n. BITVECTOR_TYPE (getSize a)"] ty(2) by (simp add: map_replicate_const)
    then have "getType ?n = Some T"
      using concatLoop_replicate [of 0 i "getSize a"] T bv_term_width(1) [OF a(2)] j
      by (simp add: kind_type_def kind_arity_def BitVectorConcatTypeRule_def)
    moreover have "firstClass ?n"
      using ty(1) by (simp add: kind_range_def list_all_iff)
    moreover have "eval G m ?n = eval G m n" for m
      unfolding ev j by (simp add: eval_kind_defs foldl_replicate map_replicate_const bvval_def funpow_swap1 flip: replicate_Suc)
    moreover have "RepeatEliminate n = ?n"
      using False by (simp add: RepeatEliminate_def repeatAmount_def child_def n a)
    ultimately show ?thesis
      using t(2) by (simp add: rewrites_to_def)
  qed
qed

end

section \<open>All rules\<close>

text \<open>
  What the strategies rely on: every rule of a list replaces a term it applies to by an equal one.
\<close>

locale rewrite_rules =
  fixes G :: gmp and rules :: "rewrite_rule list"
  assumes rule_sound: "rule \<in> set rules \<Longrightarrow> fst rule n \<Longrightarrow> rewrites_to G n (snd rule n)"
begin

lemma run_rule_sound: "rule \<in> set rules \<Longrightarrow> rewrites_to G n (run_rule True rule n)"
  by (simp add: run_rule_def rule_sound rewrites_to_refl)

lemma LinearRewriteStrategy_sound:
  "set rs \<subseteq> set rules \<Longrightarrow> rewrites_to G n (LinearRewriteStrategy rs n)"
proof (induction rs arbitrary: n)
  case Nil
  then show ?case
    by (simp add: LinearRewriteStrategy_def rewrites_to_refl)
next
  case (Cons rule rs)
  let ?n = "if fst rule n then run_rule False rule n else n"
  have "rewrites_to G n ?n"
    using Cons.prems by (simp add: run_rule_def rule_sound rewrites_to_refl)
  moreover have "rewrites_to G ?n (LinearRewriteStrategy rs ?n)"
    using Cons by simp
  ultimately have "rewrites_to G n (LinearRewriteStrategy rs ?n)"
    by (rule rewrites_to_trans)
  then show ?case
    by (simp add: LinearRewriteStrategy_def)
qed

end

definition elimination_rules :: "gmp \<Rightarrow> rewrite_rule list" where
  "elimination_rules G =
     [(UgtEliminate_applies, UgtEliminate), (UgeEliminate_applies, UgeEliminate),
      (SgtEliminate_applies, SgtEliminate), (SgeEliminate_applies, SgeEliminate),
      (SleEliminate_applies, SleEliminate), (UleEliminate_applies, UleEliminate),
      (SubEliminate_applies, SubEliminate), (RepeatEliminate_applies, RepeatEliminate),
      (RotateLeftEliminate_applies, RotateLeftEliminate), (RotateRightEliminate_applies, RotateRightEliminate),
      (NandEliminate_applies, NandEliminate), (NorEliminate_applies, NorEliminate),
      (XnorEliminate_applies, XnorEliminate), (SdivEliminate_applies, SdivEliminate G),
      (SremEliminate_applies, SremEliminate G), (SmodEliminate_applies, SmodEliminate G),
      (ZeroExtendEliminate_applies, ZeroExtendEliminate G), (RedorEliminate_applies, RedorEliminate G),
      (RedandEliminate_applies, RedandEliminate G), (NegoEliminate_applies, NegoEliminate G),
      (SaddoEliminate_applies, SaddoEliminate G), (SsuboEliminate_applies, SsuboEliminate G),
      (SdivoEliminate_applies, SdivoEliminate G)]"

lemma elimination_rules_sound: "gmp_documented G \<Longrightarrow> rewrite_rules G (elimination_rules G)"
proof
  fix rule n
  assume G: "gmp_documented G" and r: "rule \<in> set (elimination_rules G)" "fst rule n"
  show "rewrites_to G n (snd rule n)"
    using r by (auto simp: elimination_rules_def gmp_documented.comparison_rules_sound [OF G] gmp_documented.bitwise_rules_sound [OF G]
        gmp_documented.RepeatEliminate_sound [OF G] gmp_documented.RotateLeftEliminate_sound [OF G]
        gmp_documented.RotateRightEliminate_sound [OF G] gmp_documented.SdivEliminate_sound [OF G]
        gmp_documented.SremEliminate_sound [OF G] gmp_documented.SmodEliminate_sound [OF G]
        gmp_documented.ZeroExtendEliminate_sound [OF G] gmp_documented.reduction_rules_sound [OF G]
        gmp_documented.NegoEliminate_sound [OF G] gmp_documented.signed_sum_rules_sound [OF G]
        gmp_documented.SdivoEliminate_sound [OF G])
qed

sublocale gmp_documented < elimination: rewrite_rules G "elimination_rules G"
  by (rule elimination_rules_sound) (rule gmp_documented_axioms)

lemma eliminateOverflows_rewrites:
  assumes "gmp_documented G" "\<forall>c\<in>set (children n). getSize c + 1 < 2 ^ 32"
  shows "rewrites_to G n (eliminateOverflows G n)"
  unfolding eliminateOverflows_def
  using gmp_documented.unsigned_sum_rules_sound [OF assms] gmp_documented.signed_sum_rules_sound [OF assms(1)]
    gmp_documented.UmuloEliminate_sound [OF assms(1) _ assms(2)] gmp_documented.SmuloEliminate_sound [OF assms(1) _ assms(2)]
  by (simp add: rewrites_to_refl)

lemma table_rewrites:
  assumes "gmp_documented G"
    "rw \<in> {RewriteSgt, RewriteUge, RewriteSge, RewriteXnor, RewriteNand, RewriteNor, RewriteSub, RewriteSmod, RewriteSdiv,
       RewriteSrem, RewriteRepeat, RewriteZeroExtend, RewriteRotateRight, RewriteRotateLeft, RewriteRedor, RewriteRedand,
       RewriteNego, RewriteSdivo}"
  shows "rewrites_to G n (snd (rw G n))"
proof -
  obtain rs where "snd (rw G n) = LinearRewriteStrategy rs n" "set rs \<subseteq> set (elimination_rules G)"
    using assms(2)
    by (auto simp: RewriteSgt_def RewriteUge_def RewriteSge_def RewriteXnor_def RewriteNand_def RewriteNor_def RewriteSub_def
        RewriteSmod_def RewriteSdiv_def RewriteSrem_def RewriteRepeat_def RewriteZeroExtend_def RewriteRotateRight_def
        RewriteRotateLeft_def RewriteRedor_def RewriteRedand_def RewriteNego_def RewriteSdivo_def elimination_rules_def)
  then show ?thesis
    using rewrite_rules.LinearRewriteStrategy_sound [OF elimination_rules_sound [OF assms(1)]] by simp
qed

section \<open>Properties\<close>

text \<open>
  C13.  Operator elimination is sound: each method of the rewriter that expresses a derived
  bit-vector operator by other ones (signed division and remainders, rotation, repetition,
  extension, reductions, negated bitwise operators, reversed comparisons, overflow of negation and
  division) returns a term of the same type that has the same value in every model.
\<close>

theorem operator_elimination_sound:
  assumes "gmp_documented G" "firstClass n" "getType n = Some T"
    "rw \<in> {RewriteSgt, RewriteUge, RewriteSge, RewriteXnor, RewriteNand, RewriteNor, RewriteSub, RewriteSmod, RewriteSdiv,
       RewriteSrem, RewriteRepeat, RewriteZeroExtend, RewriteRotateRight, RewriteRotateLeft, RewriteRedor, RewriteRedand,
       RewriteNego, RewriteSdivo}"
  shows "getType (snd (rw G n)) = Some T \<and> eval G m (snd (rw G n)) = eval G m n"
  using table_rewrites [OF assms(1,4), of n] assms(2,3) by (simp add: rewrites_to_def)

abbreviation example_bv :: "nat \<Rightarrow> node" where
  "example_bv i \<equiv> VARIABLE i (BITVECTOR_TYPE 8)"

theorem operator_elimination_sound_witness:
  "\<forall>m. eval gmp_reference m (snd (RewriteSmod gmp_reference (mkNode K_BITVECTOR_SMOD [example_bv 0, example_bv 1]))) =
     eval gmp_reference m (mkNode K_BITVECTOR_SMOD [example_bv 0, example_bv 1])"
  using operator_elimination_sound [OF gmp_ref.gmp_documented_axioms, of "mkNode K_BITVECTOR_SMOD [example_bv 0, example_bv 1]"
      "BITVECTOR_TYPE 8" RewriteSmod]
  by (simp add: kind_range_def kind_arity_def kind_type_def BitVectorFixedWidthTypeRule_def)

text \<open>
  C14.  The overflow predicates: for arguments at least one bit below the largest width, the circuits
  that replace unsigned and signed addition, subtraction and multiplication overflow are Boolean
  terms that are true exactly when the exact result does not fit.  The multiplication circuits
  look only at the leading bits of the factors and one more bit of the product.
\<close>

theorem overflow_elimination_sound:
  assumes "gmp_documented G" "firstClass n" "getType n = Some T" "\<forall>c\<in>set (children n). getSize c + 1 < 2 ^ 32"
  shows "getType (expandDefinition G n) = Some T \<and> eval G m (expandDefinition G n) = eval G m n \<and>
    eval G m (snd (RewriteOverflow G n)) = eval G m n"
  using eliminateOverflows_rewrites [OF assms(1,4)] assms(2,3)
  by (simp add: rewrites_to_def expandDefinition_def RewriteOverflow_def)

theorem overflow_elimination_sound_witness:
  "\<forall>m. truth gmp_reference m (expandDefinition gmp_reference (mkNode K_BITVECTOR_SMULO [example_bv 0, example_bv 1])) =
     (\<not> fits_signed 8 (bv_toSignedInteger gmp_reference (bvval gmp_reference m (example_bv 0)) *
        bv_toSignedInteger gmp_reference (bvval gmp_reference m (example_bv 1))))"
proof
  fix m
  let ?n = "mkNode K_BITVECTOR_SMULO [example_bv 0, example_bv 1]"
  have "eval gmp_reference m (expandDefinition gmp_reference ?n) = eval gmp_reference m ?n"
    using overflow_elimination_sound [OF gmp_ref.gmp_documented_axioms, of ?n BOOLEAN_TYPE m]
    by (simp add: kind_range_def kind_arity_def kind_type_def BitVectorPredicateTypeRule_def getSize_def)
  then show "truth gmp_reference m (expandDefinition gmp_reference ?n) =
     (\<not> fits_signed 8 (bv_toSignedInteger gmp_reference (bvval gmp_reference m (example_bv 0)) *
        bv_toSignedInteger gmp_reference (bvval gmp_reference m (example_bv 1))))"
    by (simp add: truth_def eval_kind_defs eval_smtlib_def bvval_def mk_bv_def)
qed

end
