(* ===== verification/Bv_Rewriter.thy ===== *)
theory Bv_Rewriter
  imports Bv_Slicing Bv_Overflow
begin

text \<open>
  The rewriter of the bit-vector theory, \<^verbatim>\<open>TheoryBVRewriter\<close> of
  \<^verbatim>\<open>theory/bv/theory_bv_rewriter.cpp\<close>: one definition per entry of its table, in the order of the
  code, and the table itself. The entries for the operators that are always eliminated are in
  \<open>Bv_Elimination\<close>.

  The result of \<^verbatim>\<open>IneqElimConversion::apply\<close> is an inequality of integers, which this term
  language does not have; it is the argument \<open>conversion\<close>.
\<close>

section \<open>Combinators\<close>

text \<open>\<^verbatim>\<open>TRY_REWRITE\<close>: a rule that changes the node ends the method.\<close>

definition TRY_REWRITE :: "rewrite_rule \<Rightarrow> node \<Rightarrow> RewriteResponse \<Rightarrow> RewriteResponse" where
  "TRY_REWRITE rule n continue =
     (if fst rule n
      then let nrew = run_rule False rule n in if nrew \<noteq> n then (REWRITE_AGAIN_FULL, nrew) else continue
      else continue)"

definition ApplyRuleToChildren_applies :: "kind \<Rightarrow> rewrite_rule \<Rightarrow> node \<Rightarrow> bool" where
  "ApplyRuleToChildren_applies k rule n = (isKind k n \<or> fst rule n)"

definition ApplyRuleToChildren :: "kind \<Rightarrow> rewrite_rule \<Rightarrow> node \<Rightarrow> node" where
  "ApplyRuleToChildren k rule n =
     (if \<not> isKind k n then run_rule True rule n else mkNode k (map (run_rule True rule) (children n)))"

text \<open>Every operand of an unsigned comparison is a constant or an integer converted to a bit-vector.\<close>

definition IneqElimConversion_applies :: "node \<Rightarrow> bool" where
  "IneqElimConversion_applies n =
     ((isKind K_BITVECTOR_ULT n \<or> isKind K_BITVECTOR_ULE n \<or> isKind K_BITVECTOR_UGT n \<or> isKind K_BITVECTOR_UGE n) \<and>
      list_all is_const_bv (children n))"

section \<open>The methods\<close>

definition RewriteBit :: "gmp \<Rightarrow> node \<Rightarrow> RewriteResponse" where
  "RewriteBit G n = (REWRITE_DONE, LinearRewriteStrategy [(BitConst_applies, BitConst G)] n)"

definition RewriteUlt :: "gmp \<Rightarrow> (node \<Rightarrow> node) \<Rightarrow> node \<Rightarrow> RewriteResponse" where
  "RewriteUlt G conversion n =
     (let resultNode = LinearRewriteStrategy
            [(EvalUlt_applies, EvalUlt_apply), (UltSelf_applies, UltSelf), (UltOne_applies G, UltOne G),
             (UltOnes_applies G, UltOnes G), (UltZero_applies G, UltZero G),
             (SignExtendUltConst_applies G, SignExtendUltConst G), (ZeroExtendUltConst_applies G, ZeroExtendUltConst G),
             (IneqElimConversion_applies, conversion)] n
      in (if resultNode = n then REWRITE_DONE else REWRITE_AGAIN_FULL, resultNode))"

definition RewriteUltBv :: "gmp \<Rightarrow> node \<Rightarrow> RewriteResponse" where
  "RewriteUltBv G n = (REWRITE_DONE, LinearRewriteStrategy [(EvalUltBv_applies, EvalUltBv_apply G)] n)"

definition RewriteSlt :: "gmp \<Rightarrow> node \<Rightarrow> RewriteResponse" where
  "RewriteSlt G n =
     (REWRITE_DONE, LinearRewriteStrategy
        [(EvalSlt_applies, EvalSlt_apply G), (SltSelf_applies, SltSelf), (MultSltMult_applies G, MultSltMult G)] n)"

definition RewriteSltBv :: "gmp \<Rightarrow> node \<Rightarrow> RewriteResponse" where
  "RewriteSltBv G n = (REWRITE_DONE, LinearRewriteStrategy [(EvalSltBv_applies, EvalSltBv_apply G)] n)"

definition RewriteUle :: "gmp \<Rightarrow> (node \<Rightarrow> node) \<Rightarrow> node \<Rightarrow> RewriteResponse" where
  "RewriteUle G conversion n =
     (let resultNode = LinearRewriteStrategy
            [(EvalUle_applies, EvalUle_apply), (UleMax_applies G, UleMax), (ZeroUle_applies G, ZeroUle),
             (IneqElimConversion_applies, conversion), (UleZero_applies G, UleZero), (UleSelf_applies, UleSelf),
             (UleEliminate_applies, UleEliminate)] n
      in (if resultNode = n then REWRITE_DONE else REWRITE_AGAIN, resultNode))"

definition RewriteSle :: "gmp \<Rightarrow> node \<Rightarrow> RewriteResponse" where
  "RewriteSle G n =
     (let resultNode = LinearRewriteStrategy [(EvalSle_applies, EvalSle_apply G), (SleEliminate_applies, SleEliminate)] n
      in (if resultNode = n then REWRITE_DONE else REWRITE_AGAIN, resultNode))"

definition RewriteUgt :: "gmp \<Rightarrow> node \<Rightarrow> RewriteResponse" where
  "RewriteUgt G n =
     (REWRITE_AGAIN, LinearRewriteStrategy [(UgtUrem_applies, UgtUrem G), (UgtEliminate_applies, UgtEliminate)] n)"

definition RewriteITEBv :: "gmp \<Rightarrow> node \<Rightarrow> RewriteResponse" where
  "RewriteITEBv G n =
     (let resultNode = LinearRewriteStrategy
            [(EvalITEBv_applies, EvalITEBv_apply G), (BvIteConstCond_applies, BvIteConstCond G),
             (BvIteEqualChildren_applies, BvIteEqualChildren)] n
      in if resultNode \<noteq> n then (REWRITE_AGAIN, resultNode)
         else let resultNode = LinearRewriteStrategy
                    [(BvIteConstChildren_applies, BvIteConstChildren G), (BvIteEqualCond_applies, BvIteEqualCond)] n
              in if resultNode \<noteq> n then (REWRITE_AGAIN, resultNode)
                 else let resultNode = LinearRewriteStrategy
                            [(BvIteMergeThenIf_applies, BvIteMergeThenIf), (BvIteMergeElseIf_applies, BvIteMergeElseIf),
                             (BvIteMergeThenElse_applies, BvIteMergeThenElse),
                             (BvIteMergeElseElse_applies, BvIteMergeElseElse)] n
                      in (if resultNode = n then REWRITE_DONE else REWRITE_AGAIN_FULL, resultNode))"

definition RewriteNot :: "gmp \<Rightarrow> node \<Rightarrow> RewriteResponse" where
  "RewriteNot G n =
     (REWRITE_DONE, LinearRewriteStrategy [(NotIdemp_applies, NotIdemp), (EvalNot_applies, EvalNot_apply G)] n)"

definition RewriteExtract :: "gmp \<Rightarrow> bool \<Rightarrow> node \<Rightarrow> RewriteResponse" where
  "RewriteExtract G prerewrite n =
     (if ExtractConcat_applies n then (REWRITE_AGAIN_FULL, ExtractConcat n)
      else if ExtractSignExtend_applies n then (REWRITE_AGAIN_FULL, ExtractSignExtend n)
      else if ExtractNot_applies n then (REWRITE_AGAIN_FULL, ExtractNot n)
      else let continue =
             (let resultNode = LinearRewriteStrategy
                    [(ExtractWhole_applies, ExtractWhole), (ExtractMultLeadingBit_applies G, ExtractMultLeadingBit G),
                     (ExtractConstant_applies, ExtractConstant G)] n
              in (if resultNode \<noteq> n then REWRITE_AGAIN else REWRITE_DONE, resultNode))
           in if \<not> prerewrite then TRY_REWRITE (ExtractExtract_applies, ExtractExtract) n continue else continue)"

definition RewriteConcat :: "gmp \<Rightarrow> node \<Rightarrow> RewriteResponse" where
  "RewriteConcat G n =
     TRY_REWRITE (ConcatFlatten_applies, ConcatFlatten) n
       (TRY_REWRITE (ConcatExtractMerge_applies, ConcatExtractMerge) n
         (let whole = (ExtractWhole_applies, ExtractWhole);
              resultNode = LinearRewriteStrategy
                [(ApplyRuleToChildren_applies K_BITVECTOR_CONCAT whole, ApplyRuleToChildren K_BITVECTOR_CONCAT whole),
                 (ConcatConstantMerge_applies, ConcatConstantMerge G)] n
          in (if resultNode \<noteq> n then REWRITE_AGAIN else REWRITE_DONE, resultNode)))"

definition RewriteAnd :: "gmp \<Rightarrow> (node \<Rightarrow> nat) \<Rightarrow> bool \<Rightarrow> node \<Rightarrow> RewriteResponse" where
  "RewriteAnd G getId prerewrite n =
     TRY_REWRITE (AndSimplify_applies, AndSimplify G getId) n
       (TRY_REWRITE (AndOrXorConcatPullUp_applies G, AndOrXorConcatPullUp G) n
         (if \<not> prerewrite then TRY_REWRITE (BitwiseSlicing_applies G, BitwiseSlicing G) n (REWRITE_DONE, n)
          else (REWRITE_DONE, n)))"

definition RewriteOr :: "gmp \<Rightarrow> (node \<Rightarrow> nat) \<Rightarrow> bool \<Rightarrow> node \<Rightarrow> RewriteResponse" where
  "RewriteOr G getId prerewrite n =
     TRY_REWRITE (OrSimplify_applies, OrSimplify G getId) n
       (TRY_REWRITE (AndOrXorConcatPullUp_applies G, AndOrXorConcatPullUp G) n
         (if \<not> prerewrite then TRY_REWRITE (BitwiseSlicing_applies G, BitwiseSlicing G) n (REWRITE_DONE, n)
          else (REWRITE_DONE, n)))"

definition RewriteXor :: "gmp \<Rightarrow> (node \<Rightarrow> nat) \<Rightarrow> bool \<Rightarrow> node \<Rightarrow> RewriteResponse" where
  "RewriteXor G getId prerewrite n =
     TRY_REWRITE (XorSimplify_applies, XorSimplify G getId) n
       (TRY_REWRITE (XorZero_applies G, XorZero G) n
         (TRY_REWRITE (AndOrXorConcatPullUp_applies G, AndOrXorConcatPullUp G) n
           (if \<not> prerewrite
            then TRY_REWRITE (XorOnes_applies G, XorOnes G) n
                   (TRY_REWRITE (BitwiseSlicing_applies G, BitwiseSlicing G) n (REWRITE_DONE, n))
            else (REWRITE_DONE, n))))"

definition RewriteComp :: "gmp \<Rightarrow> node \<Rightarrow> RewriteResponse" where
  "RewriteComp G n =
     (let resultNode = LinearRewriteStrategy [(EvalComp_applies, EvalComp_apply G)] n
      in if n = resultNode \<and> BvComp_applies n then (REWRITE_AGAIN, BvComp G n) else (REWRITE_DONE, resultNode))"

definition RewriteMult :: "gmp \<Rightarrow> (node \<Rightarrow> nat) \<Rightarrow> bool \<Rightarrow> node \<Rightarrow> RewriteResponse" where
  "RewriteMult G getId prerewrite n =
     TRY_REWRITE (FlattenAssocCommut_applies, FlattenAssocCommut getId) n
       (TRY_REWRITE (MultSimplify_applies, MultSimplify G getId) n
         (if \<not> prerewrite
          then TRY_REWRITE (MultPow2_applies G, MultPow2 G) n
                 (TRY_REWRITE (MultDistribConst_applies, MultDistribConst G) n
                   (TRY_REWRITE (MultDistrib_applies, MultDistrib) n (REWRITE_DONE, n)))
          else (REWRITE_DONE, n)))"

definition RewriteAdd :: "gmp \<Rightarrow> (node \<Rightarrow> nat) \<Rightarrow> bool \<Rightarrow> node \<Rightarrow> RewriteResponse" where
  "RewriteAdd G getId prerewrite n =
     (if prerewrite
      then (REWRITE_DONE, LinearRewriteStrategy [(FlattenAssocCommut_applies, FlattenAssocCommut getId)] n)
      else let resultNode = LinearRewriteStrategy
                 [(FlattenAssocCommut_applies, FlattenAssocCommut getId),
                  (AddCombineLikeTerms_applies, AddCombineLikeTerms G getId)] n
           in if n \<noteq> resultNode then (REWRITE_AGAIN_FULL, resultNode) else (REWRITE_DONE, resultNode))"

definition RewriteNeg :: "gmp \<Rightarrow> bool \<Rightarrow> node \<Rightarrow> RewriteResponse" where
  "RewriteNeg G prerewrite n =
     (let resultNode = LinearRewriteStrategy
            [(EvalNeg_applies, EvalNeg_apply G), (NegIdemp_applies, NegIdemp), (NegSub_applies, NegSub)] n
      in if NegAdd_applies n then (REWRITE_AGAIN_FULL, NegAdd n)
         else if \<not> prerewrite \<and> NegMult_applies n then (REWRITE_AGAIN_FULL, NegMult G n)
         else (if resultNode \<noteq> n then REWRITE_AGAIN else REWRITE_DONE, resultNode))"

definition RewriteUdiv :: "gmp \<Rightarrow> node \<Rightarrow> RewriteResponse" where
  "RewriteUdiv G n =
     (if UdivPow2_applies G n then (REWRITE_AGAIN_FULL, UdivPow2 G n)
      else (REWRITE_DONE, LinearRewriteStrategy
              [(EvalUdiv_applies, EvalUdiv_apply G), (UdivZero_applies G, UdivZero G), (UdivOne_applies G, UdivOne)] n))"

definition RewriteUrem :: "gmp \<Rightarrow> node \<Rightarrow> RewriteResponse" where
  "RewriteUrem G n =
     (if UremPow2_applies G n then (REWRITE_AGAIN_FULL, UremPow2 G n)
      else (REWRITE_DONE, LinearRewriteStrategy
              [(EvalUrem_applies, EvalUrem_apply G), (UremOne_applies G, UremOne G), (UremSelf_applies, UremSelf G)] n))"

definition RewriteShl :: "gmp \<Rightarrow> node \<Rightarrow> RewriteResponse" where
  "RewriteShl G n =
     (if ShlByConst_applies n then (REWRITE_AGAIN_FULL, ShlByConst G n)
      else (REWRITE_DONE, LinearRewriteStrategy [(EvalShl_applies, EvalShl_apply G), (ShiftZero_applies G, ShiftZero)] n))"

definition RewriteLshr :: "gmp \<Rightarrow> node \<Rightarrow> RewriteResponse" where
  "RewriteLshr G n =
     (if LshrByConst_applies n then (REWRITE_AGAIN_FULL, LshrByConst G n)
      else (REWRITE_DONE, LinearRewriteStrategy [(EvalLshr_applies, EvalLshr_apply G), (ShiftZero_applies G, ShiftZero)] n))"

definition RewriteAshr :: "gmp \<Rightarrow> node \<Rightarrow> RewriteResponse" where
  "RewriteAshr G n =
     (if AshrByConst_applies n then (REWRITE_AGAIN_FULL, AshrByConst n)
      else (REWRITE_DONE, LinearRewriteStrategy [(EvalAshr_applies, EvalAshr_apply G), (ShiftZero_applies G, ShiftZero)] n))"

definition RewriteSignExtend :: "gmp \<Rightarrow> node \<Rightarrow> RewriteResponse" where
  "RewriteSignExtend G n =
     (let resultNode = LinearRewriteStrategy
            [(MergeSignExtend_applies, MergeSignExtend), (EvalSignExtend_applies, EvalSignExtend_apply G)] n
      in if resultNode \<noteq> n then (REWRITE_AGAIN, resultNode) else (REWRITE_DONE, resultNode))"

definition RewriteEqual :: "(node \<Rightarrow> nat) \<Rightarrow> node \<Rightarrow> RewriteResponse" where
  "RewriteEqual getId n =
     (REWRITE_DONE, LinearRewriteStrategy
        [(FailEq_applies, FailEq), (SimplifyEq_applies, SimplifyEq), (ReflexivityEq_applies getId, ReflexivityEq)] n)"

definition IdentityRewrite :: "node \<Rightarrow> RewriteResponse" where
  "IdentityRewrite n = (REWRITE_DONE, n)"

text \<open>\<^verbatim>\<open>d_rewriteTable\<close>, as \<^verbatim>\<open>initializeRewrites\<close> fills it, applied to a node.\<close>

definition d_rewriteTable :: "gmp \<Rightarrow> (node \<Rightarrow> nat) \<Rightarrow> (node \<Rightarrow> node) \<Rightarrow> bool \<Rightarrow> node \<Rightarrow> RewriteResponse" where
  "d_rewriteTable G getId conversion prerewrite n =
     (case n of
        mkNode k ns \<Rightarrow>
          (case k of
             K_EQUAL \<Rightarrow> RewriteEqual getId n | K_BITVECTOR_BIT _ \<Rightarrow> RewriteBit G n
           | K_BITVECTOR_ULT \<Rightarrow> RewriteUlt G conversion n | K_BITVECTOR_SLT \<Rightarrow> RewriteSlt G n
           | K_BITVECTOR_ULE \<Rightarrow> RewriteUle G conversion n | K_BITVECTOR_SLE \<Rightarrow> RewriteSle G n
           | K_BITVECTOR_UGT \<Rightarrow> RewriteUgt G n | K_BITVECTOR_SGT \<Rightarrow> RewriteSgt G n
           | K_BITVECTOR_UGE \<Rightarrow> RewriteUge G n | K_BITVECTOR_SGE \<Rightarrow> RewriteSge G n
           | K_BITVECTOR_NOT \<Rightarrow> RewriteNot G n | K_BITVECTOR_CONCAT \<Rightarrow> RewriteConcat G n
           | K_BITVECTOR_AND \<Rightarrow> RewriteAnd G getId prerewrite n | K_BITVECTOR_OR \<Rightarrow> RewriteOr G getId prerewrite n
           | K_BITVECTOR_XOR \<Rightarrow> RewriteXor G getId prerewrite n | K_BITVECTOR_XNOR \<Rightarrow> RewriteXnor G n
           | K_BITVECTOR_NAND \<Rightarrow> RewriteNand G n | K_BITVECTOR_NOR \<Rightarrow> RewriteNor G n
           | K_BITVECTOR_COMP \<Rightarrow> RewriteComp G n | K_BITVECTOR_MULT \<Rightarrow> RewriteMult G getId prerewrite n
           | K_BITVECTOR_ADD \<Rightarrow> RewriteAdd G getId prerewrite n | K_BITVECTOR_SUB \<Rightarrow> RewriteSub G n
           | K_BITVECTOR_NEG \<Rightarrow> RewriteNeg G prerewrite n | K_BITVECTOR_UDIV \<Rightarrow> RewriteUdiv G n
           | K_BITVECTOR_UREM \<Rightarrow> RewriteUrem G n | K_BITVECTOR_SMOD \<Rightarrow> RewriteSmod G n
           | K_BITVECTOR_SDIV \<Rightarrow> RewriteSdiv G n | K_BITVECTOR_SREM \<Rightarrow> RewriteSrem G n
           | K_BITVECTOR_SHL \<Rightarrow> RewriteShl G n | K_BITVECTOR_LSHR \<Rightarrow> RewriteLshr G n
           | K_BITVECTOR_ASHR \<Rightarrow> RewriteAshr G n | K_BITVECTOR_EXTRACT _ _ \<Rightarrow> RewriteExtract G prerewrite n
           | K_BITVECTOR_REPEAT _ \<Rightarrow> RewriteRepeat G n | K_BITVECTOR_ZERO_EXTEND _ \<Rightarrow> RewriteZeroExtend G n
           | K_BITVECTOR_SIGN_EXTEND _ \<Rightarrow> RewriteSignExtend G n
           | K_BITVECTOR_ROTATE_RIGHT _ \<Rightarrow> RewriteRotateRight G n
           | K_BITVECTOR_ROTATE_LEFT _ \<Rightarrow> RewriteRotateLeft G n | K_BITVECTOR_REDOR \<Rightarrow> RewriteRedor G n
           | K_BITVECTOR_REDAND \<Rightarrow> RewriteRedand G n | K_BITVECTOR_ULTBV \<Rightarrow> RewriteUltBv G n
           | K_BITVECTOR_SLTBV \<Rightarrow> RewriteSltBv G n | K_BITVECTOR_ITE \<Rightarrow> RewriteITEBv G n
           | K_BITVECTOR_NEGO \<Rightarrow> RewriteNego G n | K_BITVECTOR_SDIVO \<Rightarrow> RewriteSdivo G n
           | K_BITVECTOR_SADDO \<Rightarrow> RewriteOverflow G n | K_BITVECTOR_UADDO \<Rightarrow> RewriteOverflow G n
           | K_BITVECTOR_SMULO \<Rightarrow> RewriteOverflow G n | K_BITVECTOR_UMULO \<Rightarrow> RewriteOverflow G n
           | K_BITVECTOR_SSUBO \<Rightarrow> RewriteOverflow G n | K_BITVECTOR_USUBO \<Rightarrow> RewriteOverflow G n
           | _ \<Rightarrow> IdentityRewrite n)
      | _ \<Rightarrow> IdentityRewrite n)"

definition bv_preRewrite :: "gmp \<Rightarrow> (node \<Rightarrow> nat) \<Rightarrow> (node \<Rightarrow> node) \<Rightarrow> node \<Rightarrow> RewriteResponse" where
  "bv_preRewrite G getId conversion n = d_rewriteTable G getId conversion True n"

definition bv_postRewrite :: "gmp \<Rightarrow> (node \<Rightarrow> nat) \<Rightarrow> (node \<Rightarrow> node) \<Rightarrow> node \<Rightarrow> RewriteResponse" where
  "bv_postRewrite G getId conversion n = d_rewriteTable G getId conversion False n"

section \<open>Rewriting by the name of a rule\<close>

text \<open>The rules of \<^verbatim>\<open>ProofRewriteRule\<close> that the constructor of \<^verbatim>\<open>TheoryBVRewriter\<close> registers.\<close>

datatype bv_proof_rewrite_rule =
    MACRO_BV_EQ_SOLVE | MACRO_BV_EXTRACT_CONCAT | MACRO_BV_OR_SIMPLIFY | MACRO_BV_AND_SIMPLIFY | MACRO_BV_XOR_SIMPLIFY
  | MACRO_BV_AND_OR_XOR_CONCAT_PULLUP | MACRO_BV_MULT_SLT_MULT | MACRO_BV_CONCAT_EXTRACT_MERGE
  | MACRO_BV_CONCAT_CONSTANT_MERGE | BV_UMULO_ELIM | BV_SMULO_ELIM | BV_BITWISE_SLICING | BV_REPEAT_ELIM

definition BV_PROOF_REWRITE_CASE :: "rewrite_rule \<Rightarrow> node \<Rightarrow> node option" where
  "BV_PROOF_REWRITE_CASE rule n = (if fst rule n then Some (LinearRewriteStrategy [rule] n) else None)"

text \<open>The normal form of a polynomial, a function of the arithmetic solver, is the argument \<open>getPolyNorm\<close>.\<close>

definition bv_rewriteViaRule :: "gmp \<Rightarrow> (node \<Rightarrow> nat) \<Rightarrow> (node \<Rightarrow> node) \<Rightarrow> bv_proof_rewrite_rule \<Rightarrow> node \<Rightarrow> node option" where
  "bv_rewriteViaRule G getId getPolyNorm rid n =
     (case rid of
        MACRO_BV_EQ_SOLVE \<Rightarrow>
          if isKind K_EQUAL n \<and> child n 0 \<noteq> child n 1
          then let nsn = getPolyNorm (mkNode K_BITVECTOR_SUB [child n 0, child n 1])
               in if isConst nsn then Some (mkBool (bv_toInteger (getConst nsn) = 0)) else None
          else None
      | MACRO_BV_EXTRACT_CONCAT \<Rightarrow> BV_PROOF_REWRITE_CASE (ExtractConcat_applies, ExtractConcat) n
      | MACRO_BV_OR_SIMPLIFY \<Rightarrow> BV_PROOF_REWRITE_CASE (OrSimplify_applies, OrSimplify G getId) n
      | MACRO_BV_AND_SIMPLIFY \<Rightarrow> BV_PROOF_REWRITE_CASE (AndSimplify_applies, AndSimplify G getId) n
      | MACRO_BV_XOR_SIMPLIFY \<Rightarrow> BV_PROOF_REWRITE_CASE (XorSimplify_applies, XorSimplify G getId) n
      | MACRO_BV_AND_OR_XOR_CONCAT_PULLUP \<Rightarrow>
          BV_PROOF_REWRITE_CASE (AndOrXorConcatPullUp_applies G, AndOrXorConcatPullUp G) n
      | MACRO_BV_MULT_SLT_MULT \<Rightarrow> BV_PROOF_REWRITE_CASE (MultSltMult_applies G, MultSltMult G) n
      | MACRO_BV_CONCAT_EXTRACT_MERGE \<Rightarrow> BV_PROOF_REWRITE_CASE (ConcatExtractMerge_applies, ConcatExtractMerge) n
      | MACRO_BV_CONCAT_CONSTANT_MERGE \<Rightarrow> BV_PROOF_REWRITE_CASE (ConcatConstantMerge_applies, ConcatConstantMerge G) n
      | BV_UMULO_ELIM \<Rightarrow> BV_PROOF_REWRITE_CASE (UmuloEliminate_applies, UmuloEliminate G) n
      | BV_SMULO_ELIM \<Rightarrow> BV_PROOF_REWRITE_CASE (SmuloEliminate_applies, SmuloEliminate G) n
      | BV_BITWISE_SLICING \<Rightarrow> BV_PROOF_REWRITE_CASE (BitwiseSlicing_applies G, BitwiseSlicing G) n
      | BV_REPEAT_ELIM \<Rightarrow> BV_PROOF_REWRITE_CASE (RepeatEliminate_applies, RepeatEliminate) n)"

end
