(* ===== verification/Bv_Rewriter_Sound.thy ===== *)
theory Bv_Rewriter_Sound
  imports Bv_Rewriter
begin

text \<open>
  The rewriter of the bit-vector theory replaces a well-typed term by a term of the same type with the
  same value in every model.
\<close>

section \<open>Combinators\<close>

text \<open>Every subterm is narrower than $2^{31}$ bits.\<close>

fun narrow :: "node \<Rightarrow> bool" where
  "narrow (mkNode k ns) = (getSize (mkNode k ns) < 2 ^ 31 \<and> list_all narrow ns)"
| "narrow n = (getSize n < 2 ^ 31)"

lemma narrow_width: "narrow n \<Longrightarrow> getSize n < 2 ^ 31"
  by (cases n) simp_all

lemma narrow_children: "narrow n \<Longrightarrow> c \<in> set (children n) \<Longrightarrow> narrow c"
  by (cases n) (simp_all add: list_all_iff)

lemma strategy_step:
  "LinearRewriteStrategy [] n = n"
  "LinearRewriteStrategy (r # rs) n = LinearRewriteStrategy rs (if fst r n then snd r n else n)"
  by (simp_all add: LinearRewriteStrategy_def run_rule_def)

lemma TRY_REWRITE_sound:
  assumes "fst rule n \<Longrightarrow> rewrites_to G n (snd rule n)"
    "fst rule n \<longrightarrow> snd rule n = n \<Longrightarrow> rewrites_to G n (snd continue)"
  shows "rewrites_to G n (snd (TRY_REWRITE rule n continue))"
  using assms by (auto simp: TRY_REWRITE_def run_rule_def Let_def)

lemma rewrites_if: "(c \<Longrightarrow> rewrites_to G n a) \<Longrightarrow> (\<not> c \<Longrightarrow> rewrites_to G n b) \<Longrightarrow> rewrites_to G n (if c then a else b)"
  by simp

context gmp_documented
begin

lemma rewrites_bvD:
  assumes "rewrites_to G a a'" "bv_term a"
  shows "bv_term a'" "getSize a' = getSize a" "val G m a' = val G m a"
proof -
  have t: "firstClass a'" "getType a' = Some (BITVECTOR_TYPE (getSize a))" "eval G m a' = eval G m a"
    using assms(1) bv_termD [OF assms(2)] by (auto simp: rewrites_to_def)
  then show "bv_term a'" "getSize a' = getSize a"
    using bv_termI by blast+
  show "val G m a' = val G m a"
    using t(3) by (simp add: val_def bvval_def)
qed

lemma ApplyRuleToChildren_sound:
  assumes "\<And>a. rewrites_to G a (run_rule True rule a)"
  shows "rewrites_to G n (ApplyRuleToChildren K_BITVECTOR_CONCAT rule n)"
proof (cases "isKind K_BITVECTOR_CONCAT n")
  case False
  then show ?thesis
    using assms by (simp add: ApplyRuleToChildren_def)
next
  case True
  then show ?thesis
  proof (rule rewrites_concat)
    fix ns
    assume n: "n = mkNode K_BITVECTOR_CONCAT ns" and ns: "2 \<le> length ns" "\<forall>a\<in>set ns. bv_term a" "cat_size ns < 2 ^ 32"
    let ?cs = "map (run_rule True rule) ns"
    have c: "\<forall>a\<in>set ?cs. bv_term a" "cat_size ?cs = cat_size ns" "cat_val G m ?cs = cat_val G m ns" for m
    proof -
      show "\<forall>a\<in>set ?cs. bv_term a"
        using ns(2) rewrites_bvD(1) [OF assms] by auto
      show "cat_size ?cs = cat_size ns" "cat_val G m ?cs = cat_val G m ns"
        using ns(2) rewrites_bvD(2) [OF assms] rewrites_bvD(3) [OF assms, of _ m] by (induction ns) auto
    qed
    have l: "2 \<le> length ?cs" "cat_size ?cs < 2 ^ 32" "?cs \<noteq> []"
      using ns(1,3) c(2) by auto
    show "bv_term (ApplyRuleToChildren K_BITVECTOR_CONCAT rule n) \<and> getSize (ApplyRuleToChildren K_BITVECTOR_CONCAT rule n) = cat_size ns \<and>
      (\<forall>m. val G m (ApplyRuleToChildren K_BITVECTOR_CONCAT rule n) = cat_val G m ns)"
      using concat_list_term [OF l(1) c(1) l(2)] val_concat_list [OF l(3) c(1) l(2)] c(2,3) by (simp add: ApplyRuleToChildren_def n)
  qed
qed

lemma EvalITEBv_sound: "EvalITEBv_applies n \<Longrightarrow> rewrites_to G n (EvalITEBv_apply G n)"
  unfolding EvalITEBv_applies_def
proof (elim conjE, erule rewrites_bvite)
  fix c a b T
  assume n: "n = mkNode K_BITVECTOR_ITE [c, a, b]" and k: "isBvConstTerm n" and c: "bv_term c" "getSize c = 1"
    and ab: "getType a = Some T" "getType b = Some T" "firstClass a" "firstClass b"
  have ch: "child n 0 = c" "child n 1 = a" "child n 2 = b"
    by (simp_all add: n child_def)
  have "isConst c"
    using k by (simp add: n isBvConstTerm_def)
  then have "c = mkConst G 1 1 \<longleftrightarrow> val G m c = 1" for m
    using const_test(4) [OF c(1), of 1 1 m] c(2) by simp
  then show "getType (EvalITEBv_apply G n) = Some T \<and> firstClass (EvalITEBv_apply G n) \<and>
      (\<forall>m. eval G m (EvalITEBv_apply G n) = (if val G m c = 1 then eval G m a else eval G m b))"
    unfolding EvalITEBv_apply_def ch using ab by auto
qed

lemma merge_ite_sound:
  "BvIteMergeThenIf_applies n \<Longrightarrow> rewrites_to G n (BvIteMergeThenIf n)"
  "BvIteMergeElseIf_applies n \<Longrightarrow> rewrites_to G n (BvIteMergeElseIf n)"
  "BvIteMergeThenElse_applies n \<Longrightarrow> rewrites_to G n (BvIteMergeThenElse n)"
  "BvIteMergeElseElse_applies n \<Longrightarrow> rewrites_to G n (BvIteMergeElseElse n)"
  by (simp_all add: BvIteMergeThenIf_applies_def BvIteMergeElseIf_applies_def BvIteMergeThenElse_applies_def
      BvIteMergeElseElse_applies_def then_nested_sound else_nested_sound)

lemma FlattenAssocCommut_sound: "FlattenAssocCommut_applies n \<Longrightarrow> rewrites_to G n (FlattenAssocCommut getId n)"
  using nary_add.flatten_operator [of n getId] nary_mult.flatten_operator [of n getId] nary_and.flatten_operator [of n getId]
    nary_or.flatten_operator [of n getId] nary_xor.flatten_operator [of n getId]
  by (auto simp: FlattenAssocCommut_applies_def split: node.splits)

lemma slicing_rules_sound:
  "AndOrXorConcatPullUp_applies G n \<Longrightarrow> rewrites_to G n (AndOrXorConcatPullUp G n)"
  "BitwiseSlicing_applies G n \<Longrightarrow> getSize n < 2 ^ 31 \<Longrightarrow> rewrites_to G n (BitwiseSlicing G n)"
  using nary_and.pull_up_operator nary_or.pull_up_operator nary_xor.pull_up_operator
    nary_and.slicing_operator nary_or.slicing_operator nary_xor.slicing_operator
  by (auto simp: AndOrXorConcatPullUp_applies_def BitwiseSlicing_applies_def)

lemmas rewriter_rules_sound =
  constant_rules_sound constant_predicates_sound constant_folds_sound BitConst_sound ult_rules_sound ule_rules_sound
  UgtUrem_sound EvalITEBv_sound BvIteConstCond_sound BvIteEqualChildren_sound BvIteEqualCond_sound merge_ite_sound
  NegIdemp_sound NotIdemp_sound BvComp_sound const_shift_sound AshrByConst_sound ShiftZero_sound division_identities_sound
  UdivPow2_sound UremPow2_sound
  SignExtendUltConst_sound ZeroExtendUltConst_sound MergeSignExtend_sound simple_extract_sound ExtractExtract_sound
  ExtractSignExtend_sound ConcatFlatten_sound ConcatExtractMerge_sound ConcatConstantMerge_sound equality_rules_sound
  FlattenAssocCommut_sound AddCombineLikeTerms_sound MultSimplify_sound MultDistribConst_sound MultDistrib_sound
  NegSub_sound NegAdd_sound NegMult_sound AndSimplify_sound OrSimplify_sound XorSimplify_sound slicing_rules_sound
  comparison_rules_sound

lemma strategyI:
  assumes "\<And>r n. r \<in> set rs \<Longrightarrow> fst r n \<Longrightarrow> rewrites_to G n (snd r n)"
  shows "rewrites_to G n (LinearRewriteStrategy rs n)"
  using rewrite_rules.LinearRewriteStrategy_sound [OF rewrite_rules.intro, of rs G rs n] assms by blast

section \<open>The methods\<close>

lemma linear_methods_sound:
  "rewrites_to G n (snd (RewriteBit G n))" "rewrites_to G n (snd (RewriteUltBv G n))" "rewrites_to G n (snd (RewriteSltBv G n))"
  "rewrites_to G n (snd (RewriteSle G n))" "rewrites_to G n (snd (RewriteUgt G n))" "rewrites_to G n (snd (RewriteNot G n))"
  "rewrites_to G n (snd (RewriteEqual getId n))" "rewrites_to G n (snd (RewriteAdd G getId prerewrite n))"
  by (simp_all add: RewriteBit_def RewriteUltBv_def RewriteSltBv_def RewriteSle_def RewriteUgt_def RewriteNot_def RewriteEqual_def RewriteAdd_def Let_def)
    (auto intro!: strategyI simp: rewriter_rules_sound rewrites_to_refl)

lemma guarded_methods_sound:
  "rewrites_to G n (snd (RewriteUdiv G n))" "rewrites_to G n (snd (RewriteUrem G n))" "rewrites_to G n (snd (RewriteShl G n))"
  "rewrites_to G n (snd (RewriteLshr G n))" "rewrites_to G n (snd (RewriteAshr G n))" "rewrites_to G n (snd (RewriteComp G n))"
  "rewrites_to G n (snd (RewriteNeg G prerewrite n))"
  by (simp_all add: RewriteUdiv_def RewriteUrem_def RewriteShl_def RewriteLshr_def RewriteAshr_def RewriteComp_def RewriteNeg_def Let_def rewriter_rules_sound)
    (auto intro!: strategyI simp: rewriter_rules_sound)

lemma comparison_methods_sound:
  assumes "\<And>n. IneqElimConversion_applies n \<Longrightarrow> rewrites_to G n (conversion n)"
  shows "rewrites_to G n (snd (RewriteUlt G conversion n))" "rewrites_to G n (snd (RewriteUle G conversion n))"
  by (simp_all add: RewriteUlt_def RewriteUle_def Let_def) (auto intro!: strategyI simp: rewriter_rules_sound assms)

lemma RewriteSignExtend_sound: "rewrites_to G n (snd (RewriteSignExtend G n))"
  using constant_sized_sound by (auto intro!: strategyI simp: RewriteSignExtend_def Let_def rewriter_rules_sound rewrites_to_refl)

lemma not_slt: "\<not> MultSltMult_applies G (CONST_BOOLEAN c)"
  by (simp add: MultSltMult_applies_def)

lemma RewriteSlt_sound:
  assumes "MultSltMult_applies G n \<Longrightarrow> MultSltMult_intended G n"
  shows "rewrites_to G n (snd (RewriteSlt G n))"
proof -
  consider "EvalSlt_applies n" | "\<not> EvalSlt_applies n" "SltSelf_applies n" | "\<not> EvalSlt_applies n" "\<not> SltSelf_applies n"
    by blast
  then show ?thesis
  proof cases
    case 1
    then have "snd (RewriteSlt G n) = EvalSlt_apply G n"
      by (simp add: RewriteSlt_def strategy_step EvalSlt_apply_def SltSelf_applies_def mkTrue_def mkFalse_def not_slt)
    then show ?thesis
      using 1 rewriter_rules_sound by simp
  next
    case 2
    then have "snd (RewriteSlt G n) = SltSelf n"
      by (simp add: RewriteSlt_def strategy_step SltSelf_def mkFalse_def not_slt)
    then show ?thesis
      using 2 rewriter_rules_sound by simp
  next
    case 3
    then show ?thesis
      using MultSltMult_sound assms by (simp add: RewriteSlt_def strategy_step rewrites_to_refl)
  qed
qed

lemma extract_narrow:
  assumes "narrow n" "is_extract n" "getType n = Some T"
  shows "narrow (child n 0)"
proof -
  obtain h l ns where n: "n = mkNode (K_BITVECTOR_EXTRACT h l) ns"
    using assms(2) by (rule is_extractE)
  have "length ns = 1"
    using getType_mkNode [OF assms(3) [unfolded n]] by (auto simp: kind_arity_def)
  then have "child n 0 \<in> set (children n)"
    by (simp add: n child_def)
  then show ?thesis
    by (rule narrow_children [OF assms(1)])
qed

lemma extract_strategy_sound:
  assumes "narrow n" "firstClass n" "getType n = Some T"
  shows "rewrites_to G n (LinearRewriteStrategy [(ExtractWhole_applies, ExtractWhole),
    (ExtractMultLeadingBit_applies G, ExtractMultLeadingBit G), (ExtractConstant_applies, ExtractConstant G)] n)"
proof -
  define n1 where "n1 = (if ExtractWhole_applies n then ExtractWhole n else n)"
  define n2 where "n2 = (if ExtractMultLeadingBit_applies G n1 then ExtractMultLeadingBit G n1 else n1)"
  have r1: "rewrites_to G n n1"
    by (simp add: n1_def rewriter_rules_sound rewrites_to_refl)
  then have t1: "getType n1 = Some T"
    using assms(2,3) by (simp add: rewrites_to_def)
  have "narrow n1"
    using assms extract_narrow by (auto simp: n1_def ExtractWhole_def ExtractWhole_applies_def)
  then have r2: "rewrites_to G n1 n2"
    using ExtractMultLeadingBit_sound [of n1] narrow_width [OF extract_narrow [OF _ _ t1]]
    by (auto simp: n2_def rewrites_to_refl ExtractMultLeadingBit_applies_def)
  have "rewrites_to G n2 (LinearRewriteStrategy [(ExtractConstant_applies, ExtractConstant G)] n2)"
    by (intro strategyI) (auto simp: rewriter_rules_sound)
  then have "rewrites_to G n (LinearRewriteStrategy [(ExtractConstant_applies, ExtractConstant G)] n2)"
    using r1 r2 rewrites_to_trans by blast
  then show ?thesis
    unfolding n2_def n1_def by (simp only: strategy_step fst_conv snd_conv)
qed

lemma RewriteExtract_sound:
  assumes "narrow n"
  shows "rewrites_to G n (snd (RewriteExtract G prerewrite n))"
proof (rule rewrites_typedI)
  fix T
  assume t: "firstClass n" "getType n = Some T"
  have "ExtractConcat_applies n \<Longrightarrow> rewrites_to G n (ExtractConcat n)"
    using ExtractConcat_sound [of n] narrow_width [OF extract_narrow [OF assms _ t(2)]] by (simp add: ExtractConcat_applies_def)
  then show "rewrites_to G n (snd (RewriteExtract G prerewrite n))"
    using extract_strategy_sound [OF assms t]
    by (auto intro!: TRY_REWRITE_sound simp: RewriteExtract_def Let_def rewriter_rules_sound)
qed

lemma RewriteConcat_sound: "rewrites_to G n (snd (RewriteConcat G n))"
  unfolding RewriteConcat_def Let_def
proof (intro TRY_REWRITE_sound)
  have "rewrites_to G a (run_rule True (ExtractWhole_applies, ExtractWhole) a)" for a
    by (simp add: run_rule_def rewriter_rules_sound rewrites_to_refl)
  from ApplyRuleToChildren_sound [OF this]
  show "rewrites_to G n (snd (if r \<noteq> n then REWRITE_AGAIN else REWRITE_DONE, LinearRewriteStrategy
      [(ApplyRuleToChildren_applies K_BITVECTOR_CONCAT (ExtractWhole_applies, ExtractWhole),
         ApplyRuleToChildren K_BITVECTOR_CONCAT (ExtractWhole_applies, ExtractWhole)),
       (ConcatConstantMerge_applies, ConcatConstantMerge G)] n))" for r
    unfolding snd_conv by (intro strategyI) (auto simp: rewriter_rules_sound)
qed (simp_all add: rewriter_rules_sound)

lemma lattice_methods_sound:
  assumes "getSize n < 2 ^ 31"
  shows "rewrites_to G n (snd (RewriteAnd G getId prerewrite n))" "rewrites_to G n (snd (RewriteOr G getId prerewrite n))"
  unfolding RewriteAnd_def RewriteOr_def
  by (intro TRY_REWRITE_sound; use assms in \<open>auto intro!: TRY_REWRITE_sound simp: rewriter_rules_sound rewrites_to_refl\<close>)+

lemma RewriteXor_sound:
  assumes "getSize n < 2 ^ 31"
  shows "rewrites_to G n (snd (RewriteXor G getId prerewrite n))"
proof -
  have ne: "\<exists>c\<in>set (children n). \<not> is_const_bv c" if "XorSimplify_applies n \<longrightarrow> XorSimplify G getId n = n" "isKind K_BITVECTOR_XOR n"
    using XorSimplify_fixpoint [of getId n] that by (simp add: XorSimplify_applies_def)
  have z: "rewrites_to G n (XorZero G n)" if "XorSimplify_applies n \<longrightarrow> XorSimplify G getId n = n" "XorZero_applies G n"
  proof (rule XorZero_sound)
    show "\<exists>c\<in>set (children n). c \<noteq> mkConst G (getSize n) 0"
      using ne that unfolding XorZero_applies_def mkConst_def by (metis is_const_bv.simps(1))
  qed (fact that)
  have o: "rewrites_to G n (XorOnes G n)" if "XorSimplify_applies n \<longrightarrow> XorSimplify G getId n = n" "XorOnes_applies G n"
  proof (rule XorOnes_sound)
    show "\<exists>c\<in>set (children n). c \<noteq> utils_mkOnes G (getSize n)"
      using ne that unfolding XorOnes_applies_def utils_mkOnes_def by (metis is_const_bv.simps(1))
  qed (fact that)
  show ?thesis
    unfolding RewriteXor_def
    by (intro TRY_REWRITE_sound) (use assms z o in \<open>auto intro!: TRY_REWRITE_sound simp: rewriter_rules_sound rewrites_to_refl\<close>)
qed

lemma RewriteMult_sound:
  assumes "isKind K_BITVECTOR_MULT n \<longrightarrow> length (children n) * getSize n < 2 ^ 32"
  shows "rewrites_to G n (snd (RewriteMult G getId prerewrite n))"
  unfolding RewriteMult_def
  by (intro TRY_REWRITE_sound; use assms MultPow2_sound [of n] in
      \<open>auto intro!: TRY_REWRITE_sound simp: rewriter_rules_sound rewrites_to_refl MultPow2_applies_def\<close>)

section \<open>If-then-else\<close>

text \<open>The first three rules return a branch, so a node they keep has different branches.\<close>

lemma branch_smaller:
  assumes "isKind K_BITVECTOR_ITE n" "getType n = Some T" "firstClass n" "r = child n 1 \<or> r = child n 2"
  shows "size r < size n"
proof -
  obtain ns where n: "n = mkNode K_BITVECTOR_ITE ns"
    using assms(1) by (rule isKind_cases)
  obtain c a b where "ns = [c, a, b]"
    by (rule bvite_children [OF assms(2) [unfolded n] assms(3) [unfolded n]])
  then show ?thesis
    using assms(4) by (auto simp: n child_def)
qed

lemma shrinking_strategy:
  assumes "\<And>r n. r \<in> set rs \<Longrightarrow> fst r n \<Longrightarrow> rewrites_to G n (snd r n)"
    "\<And>r n. r \<in> set rs \<Longrightarrow> fst r n \<Longrightarrow> getType n = Some T \<Longrightarrow> firstClass n \<Longrightarrow> size (snd r n) < size n"
    "getType n = Some T" "firstClass n"
  shows "size (LinearRewriteStrategy rs n) \<le> size n \<and> (LinearRewriteStrategy rs n = n \<longrightarrow> (\<forall>r\<in>set rs. \<not> fst r n))"
  using assms
proof (induction rs arbitrary: n)
  case (Cons r rs)
  have IH: "size (LinearRewriteStrategy rs n') \<le> size n' \<and> (LinearRewriteStrategy rs n' = n' \<longrightarrow> (\<forall>r\<in>set rs. \<not> fst r n'))"
    if "getType n' = Some T" "firstClass n'" for n'
    using Cons.prems(1,2) that by (intro Cons.IH) auto
  show ?case
  proof (cases "fst r n")
    case True
    have "getType (snd r n) = Some T" "firstClass (snd r n)" "size (snd r n) < size n"
      using Cons.prems(1) [of r n] Cons.prems(2) [of r n] Cons.prems(3,4) True by (auto simp: rewrites_to_def)
    from IH [OF this(1,2)] this(3) show ?thesis
      using True by (auto simp: strategy_step)
  next
    case False
    then show ?thesis
      using IH [OF Cons.prems(3,4)] by (simp add: strategy_step)
  qed
qed (simp add: strategy_step)

lemma RewriteITEBv_sound: "rewrites_to G n (snd (RewriteITEBv G n))"
proof (rule rewrites_typedI)
  fix T
  assume t: "firstClass n" "getType n = Some T"
  let ?rs = "[(EvalITEBv_applies, EvalITEBv_apply G), (BvIteConstCond_applies, BvIteConstCond G), (BvIteEqualChildren_applies, BvIteEqualChildren)]"
  let ?qs = "[(BvIteConstChildren_applies, BvIteConstChildren G), (BvIteEqualCond_applies, BvIteEqualCond)]"
  let ?ms = "[(BvIteMergeThenIf_applies, BvIteMergeThenIf), (BvIteMergeElseIf_applies, BvIteMergeElseIf),
    (BvIteMergeThenElse_applies, BvIteMergeThenElse), (BvIteMergeElseElse_applies, BvIteMergeElseElse)]"
  have sound: "r \<in> set ?rs \<Longrightarrow> fst r n \<Longrightarrow> rewrites_to G n (snd r n)" for r n
    by (auto simp: rewriter_rules_sound)
  have shrink: "size (snd r n) < size n" if "r \<in> set ?rs" "fst r n" "getType n = Some T" "firstClass n" for r n
    using that(1,2) by (intro branch_smaller [OF _ that(3,4)])
      (auto simp: EvalITEBv_applies_def EvalITEBv_apply_def BvIteConstCond_applies_def BvIteConstCond_def
        BvIteEqualChildren_applies_def BvIteEqualChildren_def)
  have "\<forall>r\<in>set ?rs. \<not> fst r n" if "LinearRewriteStrategy ?rs n = n"
    by (rule shrinking_strategy [THEN conjunct2, THEN mp, OF _ _ t(2,1) that]) (rule sound, assumption+, rule shrink, assumption+)
  then have first: "LinearRewriteStrategy ?rs n = n \<Longrightarrow> \<not> BvIteEqualChildren_applies n"
    by (metis fst_conv list.set_intros)
  have second: "rewrites_to G n (LinearRewriteStrategy ?qs n)" if "\<not> BvIteEqualChildren_applies n"
  proof -
    let ?n = "if BvIteConstChildren_applies n then BvIteConstChildren G n else n"
    have "rewrites_to G n ?n"
      using BvIteConstChildren_sound that by (simp add: rewrites_to_refl)
    moreover have "rewrites_to G ?n (LinearRewriteStrategy [(BvIteEqualCond_applies, BvIteEqualCond)] ?n)"
      by (intro strategyI) (auto simp: rewriter_rules_sound)
    ultimately show ?thesis
      using rewrites_to_trans by (simp only: strategy_step fst_conv snd_conv)
  qed
  have third: "rewrites_to G n (LinearRewriteStrategy ?ms n)"
    by (intro strategyI) (auto simp: rewriter_rules_sound)
  have "snd (RewriteITEBv G n) = (if LinearRewriteStrategy ?rs n \<noteq> n then LinearRewriteStrategy ?rs n
      else if LinearRewriteStrategy ?qs n \<noteq> n then LinearRewriteStrategy ?qs n else LinearRewriteStrategy ?ms n)"
    unfolding RewriteITEBv_def Let_def by (simp only: if_distrib [of snd] snd_conv)
  then show "rewrites_to G n (snd (RewriteITEBv G n))"
    by (simp only:) (intro rewrites_if strategyI [of ?rs n] sound second third first; simp only: not_not)
qed

section \<open>The table\<close>

end

definition rewrite_limits :: "gmp \<Rightarrow> node \<Rightarrow> bool" where
  "rewrite_limits G n \<longleftrightarrow> narrow n \<and> (isKind K_BITVECTOR_MULT n \<longrightarrow> length (children n) * getSize n < 2 ^ 32) \<and>
     (MultSltMult_applies G n \<longrightarrow> MultSltMult_intended G n)"

lemma table_sound:
  assumes "gmp_documented G" "rewrite_limits G n" "\<And>n. IneqElimConversion_applies n \<Longrightarrow> rewrites_to G n (conversion n)"
  shows "rewrites_to G n (snd (d_rewriteTable G getId conversion prerewrite n))"
proof (cases n)
  case n: (mkNode k ns)
  have lim: "narrow n" "getSize n < 2 ^ 31" "isKind K_BITVECTOR_MULT n \<longrightarrow> length (children n) * getSize n < 2 ^ 32"
    "MultSltMult_applies G n \<Longrightarrow> MultSltMult_intended G n" "\<forall>c\<in>set (children n). getSize c + 1 < 2 ^ 32"
    using assms(2) narrow_width narrow_children [of n] by (fastforce simp: rewrite_limits_def)+
  have over: "rewrites_to G n (snd (RewriteOverflow G n))"
    using eliminateOverflows_rewrites [OF assms(1) lim(5)] by (simp add: RewriteOverflow_def rewrites_to_refl)
  note methods = gmp_documented.linear_methods_sound [OF assms(1)] gmp_documented.guarded_methods_sound [OF assms(1)]
    gmp_documented.comparison_methods_sound [OF assms(1,3)] gmp_documented.RewriteSignExtend_sound [OF assms(1)]
    gmp_documented.RewriteSlt_sound [OF assms(1) lim(4)] gmp_documented.RewriteExtract_sound [OF assms(1) lim(1)]
    gmp_documented.RewriteConcat_sound [OF assms(1)] gmp_documented.lattice_methods_sound [OF assms(1) lim(2)]
    gmp_documented.RewriteXor_sound [OF assms(1) lim(2)] gmp_documented.RewriteMult_sound [OF assms(1) lim(3)]
    gmp_documented.RewriteITEBv_sound [OF assms(1)] table_rewrites [OF assms(1)] over
  show ?thesis
    using methods [unfolded n] by (cases k) (simp_all add: d_rewriteTable_def n IdentityRewrite_def rewrites_to_refl)
qed (simp_all add: d_rewriteTable_def IdentityRewrite_def rewrites_to_refl)

section \<open>Rewriting by the name of a rule\<close>

lemma proof_case_sound:
  assumes "fst rule n \<Longrightarrow> rewrites_to G n (snd rule n)" "BV_PROOF_REWRITE_CASE rule n = Some n'"
  shows "rewrites_to G n n'"
  using assms by (auto simp: BV_PROOF_REWRITE_CASE_def strategy_step split: if_splits)

context gmp_documented
begin

lemma eq_solve:
  assumes "bv_term a" "bv_term b" "getSize a = getSize b" "rewrites_to G (mkNode K_BITVECTOR_SUB [a, b]) d" "isConst d"
  shows "bv_toInteger (getConst d) = 0 \<longleftrightarrow> val G m a = val G m b"
proof -
  have s: "bv_term (mkNode K_BITVECTOR_SUB [a, b])" "getSize (mkNode K_BITVECTOR_SUB [a, b]) = getSize b"
    using assms(1-3) by (simp_all add: term_simps)
  note d = rewrites_bvD [OF assms(4) s(1)]
  have "bv_toInteger (getConst d) = (val G m a - val G m b) mod 2 ^ getSize b"
    using const_bv_at(2) [OF d(1,2)] assms(5) d(3) [of m] val_binary(1) [OF assms(1-3), of m] by (simp add: bv_toInteger_def take_bit_eq_mod)
  then have "bv_toInteger (getConst d) = 0 \<longleftrightarrow> val G m a mod 2 ^ getSize b = val G m b mod 2 ^ getSize b"
    by (simp add: mod_eq_dvd_iff mod_eq_0_iff_dvd)
  then show ?thesis
    using val_bounds(1,2) [OF assms(1), of m] val_bounds(1,2) [OF assms(2), of m] assms(3) by simp
qed

lemma via_rule_sound:
  assumes "bv_rewriteViaRule G getId getPolyNorm rid n = Some n'" "narrow n" "rid = MACRO_BV_MULT_SLT_MULT \<longrightarrow> MultSltMult_intended G n"
    "\<And>a. rewrites_to G a (getPolyNorm a)" "rid = MACRO_BV_EQ_SOLVE \<longrightarrow> bv_term (child n 0)"
  shows "rewrites_to G n n'"
proof (rule rewrites_typedI)
  fix T
  assume t: "firstClass n" "getType n = Some T"
  have w: "getSize n < 2 ^ 31" "\<forall>c\<in>set (children n). getSize c + 1 < 2 ^ 32"
    using assms(2) narrow_width narrow_children [of n] by fastforce+
  have ext: "ExtractConcat_applies n \<Longrightarrow> rewrites_to G n (ExtractConcat n)"
    using ExtractConcat_sound [of n] narrow_width [OF extract_narrow [OF assms(2) _ t(2)]] by (simp add: ExtractConcat_applies_def)
  show "rewrites_to G n n'"
  proof (cases "rid = MACRO_BV_EQ_SOLVE")
    case True
    let ?d = "getPolyNorm (mkNode K_BITVECTOR_SUB [child n 0, child n 1])"
    have k: "isKind K_EQUAL n" "isConst ?d" "n' = mkBool (bv_toInteger (getConst ?d) = 0)"
      using assms(1) True by (auto simp: bv_rewriteViaRule_def Let_def split: if_splits)
    show ?thesis
    proof (rule rewrites_equal [OF k(1)])
      fix a b T
      assume n: "n = mkNode K_EQUAL [a, b]" and ab: "typed a T" "typed b T"
      have ch: "child n 0 = a" "child n 1 = b"
        unfolding n by (rule child_Cons)+
      then have bv: "bv_term a" "bv_term b" "getSize a = getSize b"
        using assms(5) True ab by (auto simp: typed_def bv_term_def getSize_def)
      show "sentence n' \<and> (\<forall>m. truth G m n' \<longleftrightarrow> eval G m a = eval G m b)"
        using eq_solve [OF bv assms(4) k(2) [unfolded ch]] eval_eq_val [OF bv] unfolding k(3) ch
        by (simp add: term_simps truth_def mkTrue_def mkFalse_def)
    qed
  next
    case False
    then show ?thesis
      using assms(1,3) ext w MultSltMult_sound [of n] UmuloEliminate_sound [of n] SmuloEliminate_sound [of n] RepeatEliminate_sound [of n]
      by (cases rid) (auto simp: bv_rewriteViaRule_def rewriter_rules_sound elim!: proof_case_sound [rotated])
  qed
qed

end

section \<open>Constant folding\<close>

text \<open>The rules that evaluate an operator on constants, as pairs of \<^verbatim>\<open>applies\<close> and \<^verbatim>\<open>apply\<close>.\<close>

definition evaluation_rules :: "gmp \<Rightarrow> rewrite_rule list" where
  "evaluation_rules G =
     [(EvalNot_applies, EvalNot_apply G), (EvalNeg_applies, EvalNeg_apply G), (EvalUdiv_applies, EvalUdiv_apply G),
      (EvalUrem_applies, EvalUrem_apply G), (EvalShl_applies, EvalShl_apply G), (EvalLshr_applies, EvalLshr_apply G),
      (EvalAshr_applies, EvalAshr_apply G), (EvalUlt_applies, EvalUlt_apply), (EvalUltBv_applies, EvalUltBv_apply G),
      (EvalSlt_applies, EvalSlt_apply G), (EvalSltBv_applies, EvalSltBv_apply G), (EvalUle_applies, EvalUle_apply),
      (EvalSle_applies, EvalSle_apply G), (EvalComp_applies, EvalComp_apply G), (EvalMult_applies, EvalMult_apply G),
      (EvalAdd_applies, EvalAdd_apply G), (EvalConcat_applies, EvalConcat_apply G), (EvalExtract_applies, EvalExtract_apply G),
      (EvalSignExtend_applies, EvalSignExtend_apply G), (EvalITEBv_applies, EvalITEBv_apply G)]"

context gmp_documented
begin

lemma evaluation_rules_sound: "rule \<in> set (evaluation_rules G) \<Longrightarrow> fst rule n \<Longrightarrow> rewrites_to G n (snd rule n)"
  using constant_rules_sound [of n] constant_predicates_sound [of n] constant_folds_sound [of n] constant_sized_sound [of n] EvalITEBv_sound [of n]
  by (auto simp: evaluation_rules_def)

lemma bvite_folds_const:
  assumes "EvalITEBv_applies n" "firstClass n" "getType n = Some T"
  shows "isConst (EvalITEBv_apply G n)"
proof -
  obtain ns where n: "n = mkNode K_BITVECTOR_ITE ns"
    using assms(1) by (auto simp: EvalITEBv_applies_def elim: isKindE)
  obtain c a b where "ns = [c, a, b]"
    by (rule bvite_children [OF assms(3) [unfolded n] assms(2) [unfolded n]])
  then show ?thesis
    using assms(1) by (simp add: n EvalITEBv_applies_def EvalITEBv_apply_def isBvConstTerm_def child_def)
qed

lemma evaluation_rules_const:
  "rule \<in> set (evaluation_rules G) \<Longrightarrow> fst rule n \<Longrightarrow> firstClass n \<Longrightarrow> getType n = Some T \<Longrightarrow> isConst (snd rule n)"
  using bvite_folds_const [of n T]
  by (auto simp: evaluation_rules_def constant_rule_apply mkConst_def mkTrue_def mkFalse_def)

end

section \<open>A rule that never fires\<close>

text \<open>
  \<^verbatim>\<open>NegMult::applies\<close> asks of the only child of the negation to be a product and a constant, so the
  rule applies to no well-typed term.
\<close>

lemma NegMult_never_applies: "getType n = Some T \<Longrightarrow> \<not> NegMult_applies n"
proof
  assume "getType n = Some T" "NegMult_applies n"
  then obtain ns where n: "n = mkNode K_BITVECTOR_NEG ns" "isKind K_BITVECTOR_MULT (child n 0)" "isConst (child n (length ns - 1))"
    by (auto simp: NegMult_applies_def elim: isKindE)
  moreover have "length ns = 1"
    using getType_mkNode [OF \<open>getType n = Some T\<close> [unfolded n(1)]] by (auto simp: kind_arity_def)
  ultimately show False
    by (auto simp: child_def elim!: isKindE)
qed

section \<open>Properties\<close>


text \<open>A conversion that evaluates the comparison of constants.\<close>

definition evaluated :: "node \<Rightarrow> node" where
  "evaluated n =
     (if children n = [] then n else if isKind K_BITVECTOR_ULT n then EvalUlt_apply n else if isKind K_BITVECTOR_ULE n then EvalUle_apply n
      else if isKind K_BITVECTOR_UGT n then UgtEliminate n else UgeEliminate n)"

lemma evaluated_sound:
  assumes "gmp_documented G" "IneqElimConversion_applies n"
  shows "rewrites_to G n (evaluated n)"
proof -
  have "list_all isConst (children n)"
    using assms(2) by (auto simp: IneqElimConversion_applies_def list_all_iff elim!: is_const_bv.elims)
  then show ?thesis
    using assms(2) gmp_documented.constant_predicates_sound(1,5) [OF assms(1), of n] gmp_documented.comparison_rules_sound(1,2) [OF assms(1), of n]
    by (auto simp: evaluated_def IneqElimConversion_applies_def EvalUlt_applies_def EvalUle_applies_def isBvConstTerm_def
        UgtEliminate_applies_def UgeEliminate_applies_def rewrites_to_refl elim!: isKindE)
qed




text \<open>
  C30.  Constant folding evaluates: each rule that evaluates an operator on constants returns a constant
  of the type of the term, with its value.
\<close>

theorem constant_evaluation:
  assumes "gmp_documented G" "(applies, evaluate) \<in> set (evaluation_rules G)" "applies n" "firstClass n" "getType n = Some T"
  shows "isConst (evaluate n) \<and> getType (evaluate n) = Some T \<and> eval G m (evaluate n) = eval G m n"
  using gmp_documented.evaluation_rules_sound [OF assms(1,2), of n] gmp_documented.evaluation_rules_const [OF assms(1,2), of n T] assms(3-5)
  by (simp add: rewrites_to_def)

theorem constant_evaluation_witness:
  "isConst (EvalUdiv_apply gmp_reference (mkNode K_BITVECTOR_UDIV [CONST_BITVECTOR \<lparr>d_size = 8, d_value = 200\<rparr>, CONST_BITVECTOR \<lparr>d_size = 8, d_value = 0\<rparr>])) \<and>
   getType (EvalUdiv_apply gmp_reference (mkNode K_BITVECTOR_UDIV [CONST_BITVECTOR \<lparr>d_size = 8, d_value = 200\<rparr>, CONST_BITVECTOR \<lparr>d_size = 8, d_value = 0\<rparr>])) =
     Some (BITVECTOR_TYPE 8)"
  using constant_evaluation [OF gmp_ref.gmp_documented_axioms, of EvalUdiv_applies "EvalUdiv_apply gmp_reference"
      "mkNode K_BITVECTOR_UDIV [CONST_BITVECTOR \<lparr>d_size = 8, d_value = 200\<rparr>, CONST_BITVECTOR \<lparr>d_size = 8, d_value = 0\<rparr>]" "BITVECTOR_TYPE 8"]
  by (simp add: evaluation_rules_def EvalUdiv_applies_def isBvConstTerm_def kind_range_def kind_arity_def kind_type_def
      BitVectorFixedWidthTypeRule_def BitVectorConstantTypeRule_def bv_inv_def)

end
