(* ===== verification/Bv_Theory_Sound.thy ===== *)
theory Bv_Theory_Sound
  imports Bv_Theory Bv_Rewriter_Sound "HOL-Library.Countable"
begin

text \<open>
  The preprocessing of the bit-vector theory is sound: rewritten terms have the type and the value of the
  original in every model, and learned formulas are true in every model.
\<close>

abbreviation sum_vals :: "gmp \<Rightarrow> model \<Rightarrow> node list \<Rightarrow> int" where
  "sum_vals G m ns \<equiv> sum_list (map (val G m) ns)"

text \<open>The difference of the two sides, as the loop of \<^verbatim>\<open>SolveEq\<close> has it.\<close>

abbreviation balance ::
  "gmp \<Rightarrow> model \<Rightarrow> (node \<times> bitvector) list \<Rightarrow> (node \<times> bitvector) list \<Rightarrow> node list \<Rightarrow> node list \<Rightarrow> int" where
  "balance G m ls rs cl cr \<equiv> sum_vals G m cl + coef_sum G m ls - (sum_vals G m cr + coef_sum G m rs)"

context gmp_documented
begin

section \<open>Solving equations\<close>

lemma collect_side:
  assumes "bv_term side" "getSize side = w" "collect_side G getId w side = (coefs, s)"
  shows "coefs_at w coefs" "bv_at w s" "(coef_sum G m coefs + d_value s) mod 2 ^ w = val G m side"
proof -
  define ns where "ns = (if isKind K_BITVECTOR_ADD side then children side else [side])"
  have w: "0 < w" "w < 2 ^ 32"
    using bv_term_width [OF assms(1)] assms(2) by auto
  have ns: "terms_at w (set ns)" "sum_vals G m ns mod 2 ^ w = val G m side" for m
  proof -
    have "terms_at w (set ns) \<and> sum_vals G m ns mod 2 ^ w = val G m side"
    proof (cases "isKind K_BITVECTOR_ADD side")
      case True
      then obtain cs where side: "side = mkNode K_BITVECTOR_ADD cs"
        by (rule isKind_cases)
      note o = nary_add.operator_children [OF assms(1) [unfolded side] assms(2) [unfolded side]]
      show ?thesis
        using o val_lists(2) [of cs w m] side by (auto simp: ns_def sum_list.eq_foldr take_bit_eq_mod)
    next
      case False
      then show ?thesis
        using assms(1,2) val_bounds(1,2) [OF assms(1), of m] by (simp add: ns_def)
    qed
    then show "terms_at w (set ns)" "sum_vals G m ns mod 2 ^ w = val G m side"
      by blast+
  qed
  show "coefs_at w coefs" "bv_at w s" "(coef_sum G m coefs + d_value s) mod 2 ^ w = val G m side"
    using updateCoefMap_fold [OF _ bv_at_mk [OF w] ns(1), of "[]" getId 0 coefs s] assms(3) ns(2)
    by (auto simp: collect_side_def ns_def coefs_at_def coef_sum_def)
qed

lemma addToChildren_dvd:
  assumes "bv_term t" "getSize t = w" "bv_at w c"
  shows "2 ^ w dvd sum_vals G m (addToChildren G w (t, c)) - d_value c * val G m t"
  using addToChildren(2) [OF assms, of m] by (simp add: mod_eq_dvd_iff)

lemma coefs_at_simps [simp]:
  "coefs_at w []" "coefs_at w ((t, c) # coefs) \<longleftrightarrow> bv_term t \<and> getSize t = w \<and> bv_at w c \<and> coefs_at w coefs"
  "coef_sum G m [] = 0" "coef_sum G m ((t, c) # coefs) = d_value c * val G m t + coef_sum G m coefs"
  by (auto simp: coefs_at_def coef_sum_def)

lemma coef_difference:
  assumes "bv_at w a" "bv_at w b" "bv_greater a b"
  shows "bv_at w (bv_sub G a b)" "d_value (bv_sub G a b) = d_value a - d_value b"
proof -
  have ab: "bv_inv a" "d_size a = w" "0 < w" "bv_inv b" "d_size b = w"
    using assms(1,2) by (auto simp: bv_at_def)
  then show "bv_at w (bv_sub G a b)"
    using inv_binary(6) [of a b] by (simp add: bv_at_def)
  have "0 \<le> d_value a - d_value b" "d_value a - d_value b < 2 ^ w"
    using bv_invD [OF ab(1)] bv_invD [OF ab(4)] assms(3) ab(2,5) by (auto simp: bv_greater_def)
  then show "d_value (bv_sub G a b) = d_value a - d_value b"
    using ab value_sub [of a b] by (simp add: take_bit_int_eq_self)
qed

lemma solve_merge_step:
  assumes "inj getId" "coefs_at w ls" "coefs_at w rs" "terms_at w (set cl \<union> set cr)" "ls \<noteq> [] \<or> rs \<noteq> []"
  shows "\<exists>ls' rs' cl' cr' ch'. solve_merge G getId w ls rs (cl, cr, ch) = solve_merge G getId w ls' rs' (cl', cr', ch') \<and>
    length ls' + length rs' < length ls + length rs \<and> coefs_at w ls' \<and> coefs_at w rs' \<and> terms_at w (set cl' \<union> set cr') \<and>
    (\<forall>m. 2 ^ w dvd balance G m ls' rs' cl' cr' - balance G m ls rs cl cr)"
proof -
  have left: ?thesis if "ls = (t, c) # ls'" "bv_at w d" "terms_at w {t}" "coefs_at w ls'" "coefs_at w rs'" "length rs' \<le> length rs"
    "solve_merge G getId w ls rs (cl, cr, ch) = solve_merge G getId w ls' rs' (cl @ addToChildren G w (t, d), cr, ch')"
    "\<And>m. d_value d * val G m t = d_value c * val G m t + coef_sum G m rs' - coef_sum G m rs" for t c d ls' rs' ch'
  proof (intro exI conjI allI)
    note a = addToChildren(1) [of t w d] addToChildren_dvd [of t w d]
    show "terms_at w (set (cl @ addToChildren G w (t, d)) \<union> set cr)"
      using a(1) assms(4) that(2,3) by auto
    show "2 ^ w dvd balance G m ls' rs' (cl @ addToChildren G w (t, d)) cr - balance G m ls rs cl cr" for m
      using a(2) [of m] that(1-3) that(8) [of m] by (simp add: algebra_simps)
  qed (use that in auto)
  have right: ?thesis if "rs = (t, c) # rs'" "bv_at w d" "terms_at w {t}" "coefs_at w ls'" "coefs_at w rs'" "length ls' \<le> length ls"
    "solve_merge G getId w ls rs (cl, cr, ch) = solve_merge G getId w ls' rs' (cl, cr @ addToChildren G w (t, d), ch')"
    "\<And>m. d_value d * val G m t = d_value c * val G m t + coef_sum G m ls' - coef_sum G m ls" for t c d ls' rs' ch'
  proof (intro exI conjI allI)
    note a = addToChildren(1) [of t w d] addToChildren_dvd [of t w d]
    show "terms_at w (set cl \<union> set (cr @ addToChildren G w (t, d)))"
      using a(1) assms(4) that(2,3) by auto
    have "2 ^ w dvd - (sum_vals G m (addToChildren G w (t, d)) - d_value d * val G m t)" for m
      unfolding dvd_minus_iff using a(2) that(2,3) by simp
    moreover have "balance G m ls' rs' cl (cr @ addToChildren G w (t, d)) - balance G m ls rs cl cr =
      - (sum_vals G m (addToChildren G w (t, d)) - d_value d * val G m t)" for m
      using that(1) that(8) [of m] by (simp add: algebra_simps)
    ultimately show "2 ^ w dvd balance G m ls' rs' cl (cr @ addToChildren G w (t, d)) - balance G m ls rs cl cr" for m
      by (simp only:)
  qed (use that in auto)
  show ?thesis
  proof (cases ls)
    case Nil
    then obtain t c rs' where "rs = (t, c) # rs'"
      using assms(5) by (cases rs) auto
    then show ?thesis
      using assms(3) Nil by (intro right [of t c rs' c "[]" ch]) auto
  next
    case l: (Cons e ls')
    obtain t c where e: "e = (t, c)"
      by force
    show ?thesis
    proof (cases rs)
      case Nil
      then show ?thesis
        using assms(2) l e by (intro left [of t c ls' c "[]" ch]) auto
    next
      case r: (Cons f rs')
      obtain t' c' where f: "f = (t', c')"
        by force
      have at: "bv_at w c" "bv_at w c'" "terms_at w {t}" "terms_at w {t'}" "coefs_at w ls'" "coefs_at w rs'"
        using assms(2,3) l r e f by auto
      consider "getId t < getId t'" | "getId t' < getId t" | "t = t'" "bv_greater c c'" | "t = t'" "bv_greater c' c"
        | "t = t'" "\<not> bv_greater c c'" "\<not> bv_greater c' c"
        using injD [OF assms(1)] by (metis linorder_neqE_nat)
      then show ?thesis
      proof cases
        case 1
        then show ?thesis
          using assms(3) l r e f at by (intro left [of t c ls' c rs ch]) auto
      next
        case 2
        then show ?thesis
          using assms(2) l r e f at by (intro right [of t' c' rs' c' ls ch]) auto
      next
        case 3
        then show ?thesis
          using l r e f at coef_difference [OF at(1,2)]
          by (intro left [of t c ls' "bv_sub G c c'" rs' True]) (auto simp: left_diff_distrib)
      next
        case 4
        then show ?thesis
          using l r e f at coef_difference [OF at(2,1)] 4(2) [unfolded bv_greater_def]
          by (intro right [of t' c' rs' "bv_sub G c' c" ls' True]) (auto simp: left_diff_distrib bv_greater_def [of c c'])
      next
        case 5
        then have "d_value c = d_value c'"
          by (simp add: bv_greater_def)
        then show ?thesis
          using assms(4) l r e f at 5
          by (intro exI [of _ ls'] exI [of _ rs'] exI [of _ cl] exI [of _ cr] exI [of _ True]) simp
      qed
    qed
  qed
qed

lemma solve_merge_sound:
  assumes "inj getId" "coefs_at w ls" "coefs_at w rs" "terms_at w (set cl \<union> set cr)" "solve_merge G getId w ls rs (cl, cr, ch) = (cl', cr', ch')"
  shows "terms_at w (set cl' \<union> set cr') \<and> (\<forall>m. 2 ^ w dvd sum_vals G m cl' - sum_vals G m cr' - balance G m ls rs cl cr)"
  using assms(2-)
proof (induction "length ls + length rs" arbitrary: ls rs cl cr ch rule: less_induct)
  case less
  show ?case
  proof (cases "ls = [] \<and> rs = []")
    case True
    then show ?thesis
      using less.prems by auto
  next
    case False
    then obtain ls' rs' cl1 cr1 ch1 where s: "solve_merge G getId w ls rs (cl, cr, ch) = solve_merge G getId w ls' rs' (cl1, cr1, ch1)"
      "length ls' + length rs' < length ls + length rs" "coefs_at w ls'" "coefs_at w rs'" "terms_at w (set cl1 \<union> set cr1)"
      "\<And>m. 2 ^ w dvd balance G m ls' rs' cl1 cr1 - balance G m ls rs cl cr"
      using solve_merge_step [OF assms(1) less.prems(1-3)] by blast
    have IH: "terms_at w (set cl' \<union> set cr') \<and> (\<forall>m. 2 ^ w dvd sum_vals G m cl' - sum_vals G m cr' - balance G m ls' rs' cl1 cr1)"
      using less.hyps [OF s(2-5)] less.prems(4) s(1) by simp
    have "2 ^ w dvd sum_vals G m cl' - sum_vals G m cr' - balance G m ls rs cl cr" for m
      using dvd_add [OF IH [THEN conjunct2, THEN spec, of m] s(6) [of m]] by (simp add: algebra_simps)
    then show ?thesis
      using IH by blast
  qed
qed

text \<open>A constant that is not zero is the last child of its side.\<close>

definition ends_with :: "nat \<Rightarrow> node list \<Rightarrow> bitvector \<Rightarrow> bool" where
  "ends_with w ns c \<longleftrightarrow> bv_at w c \<and> (d_value c \<noteq> 0 \<longrightarrow> (\<exists>xs. ns = xs @ [CONST_BITVECTOR c]))"

lemma bv_at_zero: "bv_at w c \<Longrightarrow> bv_eq c (mk_bv G w 0) \<longleftrightarrow> d_value c = 0"
  by (simp add: bv_at_eq(1))

lemma place_constants_sound:
  assumes "terms_at w (set cl \<union> set cr)" "bv_at w lc" "bv_at w rc"
    "place_constants G w (cl, cr, ch) lc rc = (cl', cr', ch', lc', rc')"
  shows "terms_at w (set cl' \<union> set cr') \<and> ends_with w cl' lc' \<and> ends_with w cr' rc' \<and>
    2 ^ w dvd sum_vals G m cl' - sum_vals G m cr' - (sum_vals G m cl + d_value lc - (sum_vals G m cr + d_value rc))"
proof -
  have w: "0 < w" "w < 2 ^ 32" "d_size lc = w" "d_size rc = w" "bv_inv rc" "bv_inv lc"
    using assms(2,3) bv_invD(3) [of lc] by (auto simp: bv_at_def)
  have sub: "bv_at w (bv_sub G rc lc)" "2 ^ w dvd (d_value rc - d_value lc) - d_value (bv_sub G rc lc)"
    using w inv_binary(6) [of rc lc] value_sub [of rc lc] by (auto simp: bv_at_def take_bit_eq_mod minus_mod_eq_mult_div)
  note at = bv_at_const(1,2) [OF assms(2)] bv_at_const(3) [OF assms(2), of m] bv_at_const(1,2) [OF sub(1)] bv_at_const(3) [OF sub(1), of m]
  show ?thesis
  proof (cases "d_value rc = 0")
    case True
    then show ?thesis
      using assms at(1-3) bv_at_zero [OF assms(2)] bv_at_zero [OF assms(3)]
      by (auto simp: place_constants_def Let_def ends_with_def split: if_splits)
  next
    case False
    have r: "cl' = cl" "cr' = (if d_value (bv_sub G rc lc) \<noteq> 0 then cr @ [CONST_BITVECTOR (bv_sub G rc lc)] else cr)"
      "lc' = mk_bv G w 0" "rc' = bv_sub G rc lc"
      using False assms(4) bv_at_zero [OF assms(3)] bv_at_zero [OF sub(1)] by (auto simp: place_constants_def Let_def)
    then have "sum_vals G m cr' = sum_vals G m cr + d_value (bv_sub G rc lc)"
      using at(6) by auto
    then have "2 ^ w dvd sum_vals G m cl' - sum_vals G m cr' - (sum_vals G m cl + d_value lc - (sum_vals G m cr + d_value rc))"
      using sub(2) r(1) by (simp add: algebra_simps)
    then show ?thesis
      using r at assms(1) sub(1) bv_at_mk [OF w(1,2), of 0] w(1,2) by (auto simp: ends_with_def)
  qed
qed

lemma side_node:
  assumes "terms_at w (set ns)" "0 < w" "w < 2 ^ 32" "r = (if ns = [] then mkConst G w 0 else mkNaryNode K_BITVECTOR_ADD ns)"
  shows "bv_term r" "getSize r = w" "2 ^ w dvd val G m r - sum_vals G m ns"
proof -
  have "bv_term r \<and> getSize r = w \<and> val G m r mod 2 ^ w = sum_vals G m ns mod 2 ^ w"
    using assms sum_node [OF _ assms(1)] by (cases "ns = []") (auto simp: term_simps)
  then show "bv_term r" "getSize r = w" "2 ^ w dvd val G m r - sum_vals G m ns"
    by (simp_all add: mod_eq_dvd_iff)
qed

lemma negated_constant:
  assumes "bv_at w c"
  shows "bv_term (CONST_BITVECTOR (bv_neg G c))" "getSize (CONST_BITVECTOR (bv_neg G c)) = w"
    "2 ^ w dvd val G m (CONST_BITVECTOR (bv_neg G c)) + d_value c"
proof -
  note n = bv_at_ops(3) [OF assms]
  show "bv_term (CONST_BITVECTOR (bv_neg G c))" "getSize (CONST_BITVECTOR (bv_neg G c)) = w"
    by (rule bv_at_const [OF n])+
  show "2 ^ w dvd val G m (CONST_BITVECTOR (bv_neg G c)) + d_value c"
    using bv_at_values(3) [OF assms] by (simp add: term_simps mod_eq_0_iff_dvd [symmetric] mod_add_left_eq)
qed

lemma nonzero_not_dvd: "bv_at w c \<Longrightarrow> d_value c \<noteq> 0 \<Longrightarrow> \<not> 2 ^ w dvd d_value c"
  using bv_at_values(5) [of w c] by (auto simp: mod_eq_0_iff_dvd [symmetric])

lemma solve_sides_sound:
  assumes "terms_at w (set cl \<union> set cr)" "ends_with w cl lc" "ends_with w cr rc"
  shows "case solve_sides G w (cl, cr, ch, lc, rc) of
      None \<Rightarrow> \<not> 2 ^ w dvd sum_vals G m cl - sum_vals G m cr
    | Some (l, r, ch') \<Rightarrow> bv_term l \<and> getSize l = w \<and> bv_term r \<and> getSize r = w \<and>
        2 ^ w dvd (val G m l - val G m r) - (sum_vals G m cl - sum_vals G m cr)"
proof -
  have at: "bv_at w lc" "bv_at w rc" and w: "0 < w" "w < 2 ^ 32"
    using assms(2,3) bv_invD(3) [of lc] by (auto simp: ends_with_def bv_at_def)
  note z = bv_at_zero [OF at(1)] bv_at_zero [OF at(2)]
  define l where "l = (if cl = [] then mkConst G w 0 else mkNaryNode K_BITVECTOR_ADD cl)"
  define r where "r = (if cr = [] then mkConst G w 0 else mkNaryNode K_BITVECTOR_ADD cr)"
  consider (left) "cr = []" "d_value lc \<noteq> 0" | (right) "cl = []" "d_value rc \<noteq> 0" | (stay) "cr = [] \<longrightarrow> d_value lc = 0" "cl = [] \<longrightarrow> d_value rc = 0"
    by blast
  then show ?thesis
  proof cases
    case left
    then obtain xs where xs: "cl = xs @ [CONST_BITVECTOR lc]"
      using assms(2) by (auto simp: ends_with_def)
    have x: "terms_at w (set xs)"
      using assms(1) xs by auto
    note n = side_node(1,2) [OF x w refl] side_node(3) [OF x w refl, of m] negated_constant(1,2) [OF at(1)] negated_constant(3) [OF at(1), of m]
    show ?thesis
    proof (cases "xs = []")
      case True
      then show ?thesis
        using left xs z nonzero_not_dvd [OF at(1)] by (simp add: solve_sides_def Let_def term_simps)
    next
      case False
      then have s: "solve_sides G w (cl, cr, ch, lc, rc) = Some (mkNaryNode K_BITVECTOR_ADD xs, CONST_BITVECTOR (bv_neg G lc), True)"
        using left xs z by (simp add: solve_sides_def Let_def mkNaryNode_def)
      have "2 ^ w dvd (val G m (mkNaryNode K_BITVECTOR_ADD xs) - val G m (CONST_BITVECTOR (bv_neg G lc))) - (sum_vals G m cl - sum_vals G m cr)"
        using dvd_diff [OF n(3) n(6)] False left xs by (simp add: algebra_simps term_simps)
      then show ?thesis
        using n s False by simp
    qed
  next
    case right
    then obtain ys where ys: "cr = ys @ [CONST_BITVECTOR rc]"
      using assms(3) by (auto simp: ends_with_def)
    have y: "terms_at w (set ys)"
      using assms(1) ys by auto
    note n = side_node(1,2) [OF y w refl] side_node(3) [OF y w refl, of m] negated_constant(1,2) [OF at(2)] negated_constant(3) [OF at(2), of m]
    show ?thesis
    proof (cases "ys = []")
      case True
      then show ?thesis
        using right ys z nonzero_not_dvd [OF at(2)] by (simp add: solve_sides_def Let_def term_simps)
    next
      case False
      then have s: "solve_sides G w (cl, cr, ch, lc, rc) = Some (CONST_BITVECTOR (bv_neg G rc), mkNaryNode K_BITVECTOR_ADD ys, True)"
        using right ys z by (simp add: solve_sides_def Let_def)
      have "2 ^ w dvd (val G m (CONST_BITVECTOR (bv_neg G rc)) - val G m (mkNaryNode K_BITVECTOR_ADD ys)) - (sum_vals G m cl - sum_vals G m cr)"
        using dvd_diff [OF n(6) n(3)] False right ys by (simp add: algebra_simps term_simps)
      then show ?thesis
        using n s False by simp
    qed
  next
    case stay
    have s: "solve_sides G w (cl, cr, ch, lc, rc) = Some (l, r, ch)"
      using stay z by (auto simp: solve_sides_def Let_def l_def r_def)
    note nl = side_node(1,2) [OF _ w l_def] side_node(3) [OF _ w l_def, of m] and nr = side_node(1,2) [OF _ w r_def] side_node(3) [OF _ w r_def, of m]
    have "2 ^ w dvd (val G m l - val G m r) - (sum_vals G m cl - sum_vals G m cr)"
      using dvd_diff [OF nl(3) nr(3)] assms(1) by (simp add: algebra_simps)
    then show ?thesis
      using nl(1,2) nr(1,2) assms(1) s by simp
  qed
qed

lemma bool_constants: "sentence mkTrue" "sentence mkFalse" "truth G m mkTrue" "\<not> truth G m mkFalse"
  by (simp_all add: mkTrue_def mkFalse_def truth_def term_simps)

lemma complement_differs: "bv_term x \<Longrightarrow> val G m (mkNode K_BITVECTOR_NOT [x]) \<noteq> val G m x"
proof
  assume x: "bv_term x" and "val G m (mkNode K_BITVECTOR_NOT [x]) = val G m x"
  then have "2 ^ getSize x - 1 = 2 * val G m x"
    by (simp add: term_simps)
  moreover have "odd (2 ^ getSize x - 1 :: int)"
    using bv_term_width(1) [OF x] by simp
  ultimately show False
    by simp
qed

lemma dvd_shift: "(M :: int) dvd x - y \<Longrightarrow> M dvd x \<longleftrightarrow> M dvd y"
  by (metis diff_add_cancel dvd_add_right_iff)

lemma solve_equation:
  assumes "inj getId" "bv_term a" "bv_term b" "getSize a = w" "getSize b = w"
    "collect_side G getId w a = (leftMap, leftConst)" "collect_side G getId w b = (rightMap, rightConst)"
    "r = solve_sides G w (place_constants G w (solve_merge G getId w leftMap rightMap ([], [], False)) leftConst rightConst)"
  shows "case r of None \<Rightarrow> val G m a \<noteq> val G m b
    | Some (l, r, ch) \<Rightarrow> bv_term l \<and> getSize l = w \<and> bv_term r \<and> getSize r = w \<and> (val G m l = val G m r \<longleftrightarrow> val G m a = val G m b)"
proof -
  note ca = collect_side [OF assms(2,4,6)] and cb = collect_side [OF assms(3,5,7)]
  obtain cl cr ch where mg: "solve_merge G getId w leftMap rightMap ([], [], False) = (cl, cr, ch)"
    by (rule prod_cases3)
  obtain cl' cr' ch' lc rc where pl: "place_constants G w (cl, cr, ch) leftConst rightConst = (cl', cr', ch', lc, rc)"
    by (rule prod_cases5)
  have s1: "terms_at w (set cl \<union> set cr)" "2 ^ w dvd sum_vals G m cl - sum_vals G m cr - balance G m leftMap rightMap [] []"
    using solve_merge_sound [OF assms(1) ca(1) cb(1) _ mg] by auto
  note s2 = place_constants_sound [OF s1(1) ca(2) cb(2) pl, of m]
  have "2 ^ w dvd val G m a - (coef_sum G m leftMap + d_value leftConst)" "2 ^ w dvd val G m b - (coef_sum G m rightMap + d_value rightConst)"
    unfolding ca(3) [of m, symmetric] cb(3) [of m, symmetric] by (simp_all add: mod_eq_dvd_iff [symmetric])
  then have d: "2 ^ w dvd (sum_vals G m cl' - sum_vals G m cr') - (val G m a - val G m b)"
    using dvd_add [OF dvd_add [OF s1(2) s2 [THEN conjunct2, THEN conjunct2, THEN conjunct2]] dvd_diff [of "2 ^ w" "val G m b - (coef_sum G m rightMap + d_value rightConst)" "val G m a - (coef_sum G m leftMap + d_value leftConst)"]]
    by (simp add: algebra_simps)
  have eq: "2 ^ w dvd val G m x - val G m y \<longleftrightarrow> val G m x = val G m y" if "bv_term x" "bv_term y" "getSize x = w" "getSize y = w" for x y
    using val_bounds(1,2) [OF that(1), of m] val_bounds(1,2) [OF that(2), of m] that(3,4) by (simp add: mod_eq_dvd_iff [symmetric])
  have "r = solve_sides G w (cl', cr', ch', lc, rc)"
    using assms(8) mg pl by simp
  with solve_sides_sound [where w = w and cl = cl' and cr = cr' and lc = lc and rc = rc and ch = ch' and m = m] s2
  have side: "case r of None \<Rightarrow> \<not> 2 ^ w dvd sum_vals G m cl' - sum_vals G m cr'
    | Some (l, r, ch) \<Rightarrow> bv_term l \<and> getSize l = w \<and> bv_term r \<and> getSize r = w \<and> 2 ^ w dvd (val G m l - val G m r) - (sum_vals G m cl' - sum_vals G m cr')"
    by simp
  show ?thesis
  proof (cases r)
    case None
    then show ?thesis
      using side dvd_shift [OF d] eq [OF assms(2,3,4,5)] by simp
  next
    case (Some q)
    obtain l r' ch where q: "q = (l, r', ch)"
      by (rule prod_cases3)
    have t: "bv_term l" "bv_term r'" "getSize l = w" "getSize r' = w" "2 ^ w dvd (val G m l - val G m r') - (sum_vals G m cl' - sum_vals G m cr')"
      using side Some q by simp_all
    show ?thesis
      using t(1-4) dvd_shift [OF t(5)] dvd_shift [OF d] eq [OF assms(2,3,4,5)] eq [OF t(1-4)] unfolding Some q by simp
  qed
qed

lemma SolveEq_sound:
  assumes "inj getId" "SolveEq_applies n" "bv_term (child n 0)"
  shows "rewrites_to G n (SolveEq G getId n)"
proof -
  have k: "isKind K_EQUAL n"
    using assms(2) by (simp add: SolveEq_applies_def)
  show ?thesis
  proof (rule rewrites_equal [OF k])
    fix a b T
    assume n: "n = mkNode K_EQUAL [a, b]" and ab: "typed a T" "typed b T"
    have ch: "child n 0 = a" "child n 1 = b"
      unfolding n by (rule child_Cons)+
    then have bv: "bv_term a" "bv_term b" "getSize a = getSize b"
      using assms(3) ab by (auto simp: typed_def bv_term_def getSize_def)
    have val: "eval G m a = eval G m b \<longleftrightarrow> val G m a = val G m b" for m
      by (rule eval_eq_val [OF bv])
    define l where "l = collect_side G getId (getSize a) a"
    define r where "r = collect_side G getId (getSize a) b"
    define s where "s = solve_sides G (getSize a) (place_constants G (getSize a) (solve_merge G getId (getSize a) (fst l) (fst r) ([], [], False)) (snd l) (snd r))"
    have eqn: "case s of None \<Rightarrow> val G m a \<noteq> val G m b
      | Some (l, r, ch) \<Rightarrow> bv_term l \<and> getSize l = getSize a \<and> bv_term r \<and> getSize r = getSize a \<and> (val G m l = val G m r \<longleftrightarrow> val G m a = val G m b)" for m
      by (rule solve_equation [OF assms(1) bv(1,2) refl bv(3) [symmetric] _ _ s_def]) (simp_all add: l_def r_def)
    have res: "SolveEq G getId n =
      (if isKind K_BITVECTOR_NOT a \<and> child a 0 = b \<or> isKind K_BITVECTOR_NOT b \<and> child b 0 = a then mkFalse
       else case s of None \<Rightarrow> mkFalse
         | Some (l, r, ch) \<Rightarrow> if \<not> ch then n else if l = r then mkTrue else if getId l < getId r then eqNode r l else eqNode l r)"
      unfolding SolveEq_def ch by (simp add: Let_def s_def l_def r_def split: prod.splits)
    have compl: "val G m a \<noteq> val G m b" if "isKind K_BITVECTOR_NOT a \<and> child a 0 = b \<or> isKind K_BITVECTOR_NOT b \<and> child b 0 = a" for m
      using that complement_differs [OF bv(1), of m] complement_differs [OF bv(2), of m] not_node [OF _ bv(1)] not_node [OF _ bv(2)]
      by (metis child_Cons(1))
    show "sentence (SolveEq G getId n) \<and> (\<forall>m. truth G m (SolveEq G getId n) \<longleftrightarrow> eval G m a = eval G m b)"
    proof (cases "isKind K_BITVECTOR_NOT a \<and> child a 0 = b \<or> isKind K_BITVECTOR_NOT b \<and> child b 0 = a")
      case True
      then show ?thesis
        unfolding res val using compl by (simp add: bool_constants)
    next
      case False
      show ?thesis
      proof (cases s)
        case None
        then show ?thesis
          unfolding res val using eqn False by (simp add: bool_constants)
      next
        case (Some q)
        obtain l' r' ch' where q: "q = (l', r', ch')"
          by (rule prod_cases3)
        have t: "bv_term l'" "bv_term r'" "getSize l' = getSize r'" "val G m l' = val G m r' \<longleftrightarrow> val G m a = val G m b" for m
          using eqn [of m] Some q by simp_all
        have equations: "sentence n" "truth G m n \<longleftrightarrow> val G m a = val G m b" "sentence (eqNode l' r')" "sentence (eqNode r' l')"
          "truth G m (eqNode l' r') \<longleftrightarrow> val G m a = val G m b" "truth G m (eqNode r' l') \<longleftrightarrow> val G m a = val G m b" for m
          using bv t(1-3) t(4) [of m] by (auto simp: n eqNode_def term_simps)
        have "SolveEq G getId n = (if \<not> ch' then n else if l' = r' then mkTrue else if getId l' < getId r' then eqNode r' l' else eqNode l' r')"
          using res Some q False by simp
        then show ?thesis
          unfolding val using equations t(4) bool_constants by (simp split: if_split) blast
      qed
    qed
  qed
qed

section \<open>Comparison with a successor\<close>

lemma UltAddOne_sound:
  assumes "UltAddOne_applies G n"
  shows "rewrites_to G n (UltAddOne G n)"
proof -
  have "isKind K_BITVECTOR_ULT n"
    using assms by (simp add: UltAddOne_applies_def)
  then show ?thesis
  proof (rule rewrites_predicate)
    fix x z
    assume n: "n = mkNode K_BITVECTOR_ULT [x, z]" and xz: "bv_term x" "bv_term z" "getSize x = getSize z"
    have ch: "child n 0 = x" "child n 1 = z"
      unfolding n by (rule child_Cons)+
    note applies = assms [unfolded UltAddOne_applies_def Let_def ch]
    have k: "isKind K_BITVECTOR_ADD z" "length (children z) = 2"
      using applies by simp_all
    then obtain p q where z: "z = mkNode K_BITVECTOR_ADD [p, q]"
      by (auto simp: numeral_2_eq_2 length_Suc_conv elim!: isKindE)
    note pq = nary_add.operator_children(2) [OF xz(2) [unfolded z] refl]
    have pq': "bv_term p" "bv_term q" "getSize p = getSize q" "getSize q = getSize z"
      using pq z by simp_all
    have zc: "child z 0 = p" "child z 1 = q"
      unfolding z by (rule child_Cons)+
    define y where "y = (if is_const_bv p then q else p)"
    define e where "e = (if is_const_bv p then p else q)"
    have at: "bv_term y" "bv_term e" "getSize y = getSize z" "getSize e = getSize z"
      using pq' by (simp_all add: y_def e_def)
    have e: "e = mkConst G (getSize e) 1" "is_const_bv e"
      using applies [unfolded zc] by (auto simp: e_def split: if_splits)
    note w = bv_term_width [OF xz(2)]
    have "e = mkConst G (getSize z) 1"
      using e(1) at(4) by metis
    then have "val G m e = 1" for m
      using w by (simp add: term_simps take_bit_eq_mod)
    moreover have "val G m z = (val G m y + val G m e) mod 2 ^ getSize z" for m
      using val_nary(1) [OF pq'(1-3), of m] pq'(4) unfolding z [symmetric] by (simp add: y_def e_def take_bit_eq_mod add.commute)
    ultimately have v: "val G m z = (if val G m y = 2 ^ getSize z - 1 then 0 else val G m y + 1)" for m
      using val_bounds(1,2) [OF at(1), of m] at(3) by simp
    have r: "UltAddOne G n = mkNode K_AND [mkNode K_NOT [mkNode K_EQUAL [y, utils_mkOnes G (getSize z)]], mkNode K_NOT [mkNode K_BITVECTOR_ULT [y, x]]]"
      unfolding UltAddOne_def Let_def ch zc using xz(3) by (simp add: y_def)
    show "sentence (UltAddOne G n) \<and> (\<forall>m. truth G m (UltAddOne G n) = truth G m (mkNode K_BITVECTOR_ULT [x, z]))"
      using xz at w v val_bounds(1) [OF xz(1), THEN leD] unfolding r by (auto simp: term_simps)
  qed simp
qed

section \<open>Sums of powers of two\<close>

lemma pow2_sum:
  assumes "s = 0 \<or> s = 2 ^ k" "b = 0 \<or> (\<exists>i<w. b = 2 ^ i)" "c = 0 \<or> (\<exists>i<w. c = 2 ^ i)" "s = (b + c) mod (2 ^ w :: int)"
  shows "b = 0 \<or> c = 0 \<or> b = c"
proof -
  have False if "i < j" "j < w" "s = (2 ^ i + 2 ^ j) mod 2 ^ w" for i j
  proof -
    have "(2 :: int) ^ i < 2 ^ j"
      using that(1) by simp
    moreover have "(2 :: int) ^ Suc j \<le> 2 ^ w"
      using that(2) by (intro power_increasing) auto
    moreover have "(2 :: int) ^ i + 2 ^ j < 2 ^ Suc j"
      using that(1) by simp
    ultimately have b: "2 ^ i + 2 ^ j < (2 ^ w :: int)" "2 ^ i + 2 ^ j < (2 ^ Suc j :: int)"
      by linarith+
    have "s = 2 ^ i + 2 ^ j"
      unfolding that(3) by (rule mod_pos_pos_trivial [OF _ b(1)]) simp
    then have "2 ^ j < s" "s < 2 ^ Suc j"
      using b(2) by simp_all
    then have "2 ^ j < (2 ^ k :: int)" "(2 ^ k :: int) < 2 ^ Suc j"
      using assms(1) zero_less_power [of "2 :: int" j] by auto
    then have "j < k" "k < Suc j"
      by (simp_all only: power_strict_increasing_iff one_less_numeral_iff semiring_norm)
    then show False
      by simp
  qed
  then show ?thesis
    using assms(2-4) by (metis add.commute linorder_neqE_nat)
qed

lemma one_shifted:
  assumes "isKind K_BITVECTOR_SHL t" "utils_isOne G (child t 0)" "bv_term t"
  shows "val G m t = 0 \<or> (\<exists>i<getSize t. val G m t = 2 ^ i)"
proof -
  obtain ns where t: "t = mkNode K_BITVECTOR_SHL ns"
    using assms(1) by (rule isKind_cases)
  obtain a b where ab: "ns = [a, b]" "bv_term a" "bv_term b" "getSize a = getSize b"
    using binary_children [OF bv_termD(2,1) [OF assms(3) [unfolded t]]] by blast
  have sz: "getSize t = getSize a"
    using ab by (simp add: t term_simps)
  have "child t 0 = a"
    unfolding t ab(1) by (rule child_Cons)
  then have "val G m a = take_bit (getSize a) 1"
    using const_test(2) [OF ab(2) isConst_of_tests(2)] assms(2) by simp
  then have "val G m a = 1"
    using bv_term_width(1) [OF ab(2)] by simp
  then have "val G m t = take_bit (getSize a) (2 ^ nat (val G m b))"
    using val_shift(1) [OF ab(2,3), of m] by (simp add: t ab(1) push_bit_eq_mult)
  then show ?thesis
    unfolding sz by (auto simp: take_bit_eq_mod exp_mod_exp split: if_splits)
qed

lemma equal_children:
  assumes "firstClass n" "getType n = Some T" "isKind K_EQUAL n"
  obtains x y S where "n = mkNode K_EQUAL [x, y]" "typed x S" "typed y S" "sentence n"
proof -
  obtain ns where n: "n = mkNode K_EQUAL ns"
    using assms(3) by (rule isKind_cases)
  have "T = BOOLEAN_TYPE"
    using assms(2) unfolding n by (auto simp: kind_type_def EqualityTypeRule_def split: if_splits option.splits)
  then have "sentence n"
    using assms(1,2) by (simp add: sentence_def isBoolean_def)
  then show thesis
    using that typed_EQUAL [of ns] unfolding n by blast
qed

lemma typed_bv: "typed a T \<Longrightarrow> typed b T \<Longrightarrow> bv_term a \<Longrightarrow> bv_term b \<and> getSize b = getSize a"
  by (auto simp: typed_def bv_term_def getSize_def)

lemma shl_bv:
  assumes "isKind K_BITVECTOR_SHL t" "typed t T"
  shows "bv_term t"
proof -
  obtain ns where t: "t = mkNode K_BITVECTOR_SHL ns"
    using assms(1) by (rule isKind_cases)
  obtain a b where "ns = [a, b]" "bv_term a" "bv_term b" "getSize a = getSize b"
    using binary_children [of K_BITVECTOR_SHL ns T] assms(2) unfolding t typed_def by blast
  then show ?thesis
    by (simp add: t term_simps)
qed

lemma pow2_lemma_true:
  assumes inp: "inp = mkNode K_EQUAL [x, y]" "typed x S" "typed y S" "{x, y} = {p, s}"
    and p: "isKind K_BITVECTOR_ADD p" "length (children p) = 2" "isKind K_BITVECTOR_SHL (child p 0)" "isKind K_BITVECTOR_SHL (child p 1)"
      "utils_isOne G (child (child p 0) 0)" "utils_isOne G (child (child p 1) 0)"
    and s: "isKind K_BITVECTOR_SHL s" "utils_isOne G (child s 0)"
  shows "truth G m (pow2_sum_lemma G inp p s)"
proof -
  have ps: "typed p S" "typed s S"
    using inp(2-4) by (auto simp: doubleton_eq_iff)
  then have bv: "bv_term s" "bv_term p" "getSize p = getSize s"
    using shl_bv [OF s(1)] typed_bv by blast+
  obtain b c where bc: "p = mkNode K_BITVECTOR_ADD [b, c]"
    using p(1,2) by (auto simp: numeral_2_eq_2 length_Suc_conv elim!: isKindE)
  have ch: "child p 0 = b" "child p 1 = c"
    unfolding bc by (rule child_Cons)+
  have t: "bv_term b" "bv_term c" "getSize b = getSize s" "getSize c = getSize s"
    using nary_add.operator_children(2) [OF bv(2) [unfolded bc] bv(3) [unfolded bc]] by auto
  note w = bv_term_width [OF bv(1)]
  have sum: "val G m p = (val G m b + val G m c) mod 2 ^ getSize s"
    using val_nary(1) [OF t(1,2), of m] t(3,4) by (simp add: bc take_bit_eq_mod)
  have "truth G m inp \<longleftrightarrow> val G m s = val G m p"
    using inp(1,4) bv by (auto simp: doubleton_eq_iff term_simps)
  moreover have "val G m s = val G m p \<Longrightarrow> val G m b = 0 \<or> val G m c = 0 \<or> val G m b = val G m c"
    using pow2_sum [of "val G m s" _ "val G m b" "getSize s" "val G m c"] one_shifted [OF s bv(1), of m]
      one_shifted [OF p(3,5) [unfolded ch] t(1), of m] one_shifted [OF p(4,6) [unfolded ch] t(2), of m] sum t(3,4) by metis
  moreover have "truth G m (eqNode b (utils_mkZero G (getSize s))) \<longleftrightarrow> val G m b = 0" "truth G m (eqNode c (utils_mkZero G (getSize s))) \<longleftrightarrow> val G m c = 0"
    "truth G m (eqNode b c) \<longleftrightarrow> val G m b = val G m c"
    using t w by (simp_all add: eqNode_def utils_mkZero_def term_simps)
  ultimately show ?thesis
    unfolding pow2_sum_lemma_def Let_def ch by (auto simp: truth_OR)
qed

lemma ppStaticLearn_sound:
  assumes "firstClass inp" "getType inp = Some T" "l \<in> set (ppStaticLearn G inp learned)"
  shows "l \<in> set learned \<or> truth G m l"
proof (rule disjCI)
  assume new: "\<not> truth G m l"
  show "l \<in> set learned"
  proof (cases "isKind K_EQUAL inp")
    case True
    obtain x y S where i: "inp = mkNode K_EQUAL [x, y]" "typed x S" "typed y S"
      by (rule equal_children [OF assms(1,2) True])
    have ch: "child inp 0 = x" "child inp 1 = y"
      unfolding i(1) by (rule child_Cons)+
    have "{y, x} = {x, y}" "\<not> (isKind K_BITVECTOR_ADD a \<and> isKind K_BITVECTOR_SHL a)" for a
      by (blast, cases a) simp_all
    then show ?thesis
      using assms(3) new pow2_lemma_true [OF i] unfolding ppStaticLearn_def Let_def ch
      by (auto split: if_splits)
  qed (use assms(3) in \<open>simp add: ppStaticLearn_def\<close>)
qed

lemma successor_kept: "eliminateOverflows G (UltAddOne G t) = UltAddOne G t"
  by (simp add: UltAddOne_def Let_def eliminateOverflows_def UaddoEliminate_applies_def SaddoEliminate_applies_def UmuloEliminate_applies_def
      SmuloEliminate_applies_def UsuboEliminate_applies_def SsuboEliminate_applies_def)

lemma ppRewrite_sound:
  assumes "ppRewrite G t = Some r" "\<forall>c\<in>set (children t). getSize c + 1 < 2 ^ 32"
  shows "rewrites_to G t r"
proof (cases "UltAddOne_applies G t")
  case True
  then show ?thesis
    using assms(1) UltAddOne_sound by (auto simp: successor_kept ppRewrite_def Let_def split: if_splits)
next
  case False
  then show ?thesis
    using assms(1) eliminateOverflows_rewrites [OF gmp_documented_axioms assms(2)] by (auto simp: ppRewrite_def Let_def split: if_splits)
qed

lemma ppStaticRewrite_sound:
  "inj getId \<Longrightarrow> ppStaticRewrite G getId t = Some r \<Longrightarrow> bv_term (child t 0) \<Longrightarrow> rewrites_to G t r"
  using SolveEq_sound by (auto simp: ppStaticRewrite_def Let_def split: if_splits)

end

section \<open>Identifiers\<close>

instance type_node :: countable
  by countable_datatype

instance bitvector_ext :: (countable) countable
proof
  show "\<exists>to_nat :: 'a bitvector_ext \<Rightarrow> nat. inj to_nat"
    by (rule exI [of _ "\<lambda>b. to_nat (d_size b, d_value b, bitvector.more b)"]) (auto intro: injI bitvector.equality)
qed

instance kind :: countable
  by countable_datatype

instance node :: countable
  by countable_datatype

lemma node_ids: "inj (to_nat :: node \<Rightarrow> nat)"
  by simp

section \<open>Properties\<close>

text \<open>
  C12.  The preprocessing of the bit-vector theory is sound: a term that \<^verbatim>\<open>ppRewrite\<close> or
  \<^verbatim>\<open>ppStaticRewrite\<close> returns has the type and the value of the original in every model, and a formula
  that \<^verbatim>\<open>ppStaticLearn\<close> adds is true in every model. Different terms have different identifiers, and
  an equation reaches the theory only between bit-vectors.
\<close>

theorem bv_preprocessing_sound:
  assumes "gmp_documented G" "inj getId" "firstClass t" "getType t = Some T" "\<forall>c\<in>set (children t). getSize c + 1 < 2 ^ 32"
    "isKind K_EQUAL t \<longrightarrow> bv_term (child t 0)"
  shows "(\<forall>r\<in>set_option (ppRewrite G t) \<union> set_option (ppStaticRewrite G getId t). getType r = Some T \<and> eval G m r = eval G m t) \<and>
    (\<forall>l\<in>set (ppStaticLearn G t learned) - set learned. truth G m l)"
proof -
  have "rewrites_to G t r" if "ppRewrite G t = Some r \<or> ppStaticRewrite G getId t = Some r" for r
    using that gmp_documented.ppRewrite_sound [OF assms(1) _ assms(5)] gmp_documented.ppStaticRewrite_sound [OF assms(1,2)] assms(6)
    by (auto simp: ppStaticRewrite_def split: if_splits)
  then show ?thesis
    using assms(3,4) gmp_documented.ppStaticLearn_sound [OF assms(1,3,4)] by (fastforce simp: rewrites_to_def elem_set)
qed

text \<open>The comparison \<open>x < y + 1\<close> over bytes.\<close>

definition example_less :: node where
  "example_less = mkNode K_BITVECTOR_ULT [example_bv 0, mkNode K_BITVECTOR_ADD [example_bv 1, mkConst gmp_reference 8 1]]"

lemma example_less:
  "firstClass example_less" "getType example_less = Some BOOLEAN_TYPE" "\<forall>c\<in>set (children example_less). getSize c + 1 < 2 ^ 32"
  "\<not> isKind K_EQUAL example_less"
proof -
  have one: "bv_term (mkConst gmp_reference 8 1)" "getSize (mkConst gmp_reference 8 1) = 8"
    by (simp_all add: gmp_ref.mkConst_term)
  have vars: "bv_term (example_bv i)" "getSize (example_bv i) = 8" for i
    by (simp_all add: bv_term_def getSize_def)
  have sum: "bv_term (mkNode K_BITVECTOR_ADD [example_bv 1, mkConst gmp_reference 8 1])"
    "getSize (mkNode K_BITVECTOR_ADD [example_bv 1, mkConst gmp_reference 8 1]) = 8"
    using one vars by (simp_all add: term_simps)
  have "sentence example_less"
    using vars sum by (simp add: example_less_def term_simps)
  then show "firstClass example_less" "getType example_less = Some BOOLEAN_TYPE"
    by (simp_all add: sentence_def isBoolean_def)
  show "\<forall>c\<in>set (children example_less). getSize c + 1 < 2 ^ 32" "\<not> isKind K_EQUAL example_less"
    using vars sum by (simp_all add: example_less_def)
qed

theorem bv_preprocessing_sound_witness:
  "\<exists>r. ppRewrite gmp_reference example_less = Some r \<and> (\<forall>m. eval gmp_reference m r = eval gmp_reference m example_less)"
proof -
  have "getSize (mkConst gmp_reference 8 1) = 8"
    by (simp add: gmp_ref.mkConst_term)
  then have "UltAddOne_applies gmp_reference example_less"
    by (simp add: UltAddOne_applies_def example_less_def child_def Let_def mkConst_def)
  moreover have "eliminateOverflows gmp_reference (UltAddOne gmp_reference example_less) \<noteq> example_less"
    by (simp add: gmp_ref.successor_kept) (simp add: UltAddOne_def example_less_def Let_def)
  ultimately obtain r where r: "ppRewrite gmp_reference example_less = Some r"
    by (simp add: ppRewrite_def Let_def)
  have "eval gmp_reference m r = eval gmp_reference m example_less" for m
    using bv_preprocessing_sound [OF gmp_ref.gmp_documented_axioms node_ids example_less(1-3), of m "[]"] r example_less(4) by simp
  with r show ?thesis
    by blast
qed

end
