(* ===== verification/Bv_Solver.thy ===== *)
theory Bv_Solver
  imports Bitblaster_Atoms Bv_Constant_Rules
begin

text \<open>
  The solver of the bit-vector theory: \<^verbatim>\<open>BVSolverBitblastInternal\<close> of
  \<^verbatim>\<open>theory/bv/bv_solver_bitblast_internal.cpp\<close>, which sends a lemma that defines each bit-vector atom
  by its bit-blasted form, and the reading of values, \<^verbatim>\<open>getValue\<close> and \<^verbatim>\<open>getEqualityStatus\<close> of
  \<^verbatim>\<open>TheoryBV\<close> in \<^verbatim>\<open>theory/bv/theory_bv.cpp\<close>.

  The state of the solver is the bit-blaster with the lemmas sent so far. The rewriter, and the values
  that the SAT solver assigns to formulas, \<^verbatim>\<open>Valuation::hasSatValue\<close>, are arguments. The kind of eager
  atoms is not modelled, so the branch of \<^verbatim>\<open>preNotifyFact\<close> for them is left out, and proofs are not
  recorded. The flag \<^verbatim>\<open>d_invalidateModelCache\<close> is a context-dependent object in the code; between two
  changes of the context, which is what the definitions cover, it is a plain variable.
\<close>

section \<open>Lemmas for facts\<close>

definition isBVAtom :: "node \<Rightarrow> bool" where
  "isBVAtom n =
     ((isKind K_EQUAL n \<and> (case getType (child n 0) of Some t \<Rightarrow> isBitVector t | None \<Rightarrow> False)) \<or>
      isKind K_BITVECTOR_ULT n \<or> isKind K_BITVECTOR_ULE n \<or> isKind K_BITVECTOR_SLT n \<or> isKind K_BITVECTOR_SLE n)"

record bv_solver =
  d_bitblaster :: bitblaster
  sent_lemmas :: "node list"

definition BVSolverBitblastInternal :: bv_solver where
  "BVSolverBitblastInternal = \<lparr>d_bitblaster = init_bitblaster, sent_lemmas = []\<rparr>"

definition addBBLemma :: "gmp \<Rightarrow> (node \<Rightarrow> node) \<Rightarrow> nat \<Rightarrow> node \<Rightarrow> bv_solver \<Rightarrow> bv_solver option" where
  "addBBLemma G rw d lit st =
     do { s \<leftarrow> (if \<not> hasBBAtom lit (d_bitblaster st) then bbAtom G rw d lit (d_bitblaster st) else Some (d_bitblaster st));
          let atom_bb = getStoredBBAtom lit s;
          Some (st\<lparr>d_bitblaster := s, sent_lemmas := sent_lemmas st @ [mkNode K_EQUAL [lit, atom_bb]]\<rparr>) }"

text \<open>The result says whether the equality engine is bypassed.\<close>

definition preNotifyFact :: "gmp \<Rightarrow> (node \<Rightarrow> node) \<Rightarrow> nat \<Rightarrow> bool \<Rightarrow> node \<Rightarrow> bv_solver \<Rightarrow> (bool \<times> bv_solver) option" where
  "preNotifyFact G rw d eager lit st =
     (let lit = (if isKind K_NOT lit then child lit 0 else lit)
      in do { st \<leftarrow> (if isBVAtom lit then addBBLemma G rw d lit st else Some st);
              Some (eager, st) })"

fun notifyFacts :: "gmp \<Rightarrow> (node \<Rightarrow> node) \<Rightarrow> nat \<Rightarrow> bool \<Rightarrow> node list \<Rightarrow> bv_solver \<Rightarrow> bv_solver option" where
  "notifyFacts G rw d eager [] st = Some st"
| "notifyFacts G rw d eager (lit # lits) st =
     do { (bypass, st) \<leftarrow> preNotifyFact G rw d eager lit st; notifyFacts G rw d eager lits st }"

section \<open>Values\<close>

text \<open>The loop over the bits, the most significant one first; \<open>None\<close> is the return of the null node.\<close>

fun bits_value :: "(node \<Rightarrow> bool option) \<Rightarrow> bool \<Rightarrow> node list \<Rightarrow> int \<Rightarrow> int option" where
  "bits_value hasSatValue initialize [] value = Some value"
| "bits_value hasSatValue initialize (b # bits) value =
     (case hasSatValue b of
        Some satValue \<Rightarrow> bits_value hasSatValue initialize bits (value * 2 + (if satValue then 1 else 0))
      | None \<Rightarrow> if \<not> initialize then None else bits_value hasSatValue initialize bits (value * 2 + 0))"

definition solver_getValue :: "gmp \<Rightarrow> (node \<Rightarrow> bool option) \<Rightarrow> bitblaster \<Rightarrow> node \<Rightarrow> bool \<Rightarrow> node option" where
  "solver_getValue G hasSatValue s n initialize =
     (if isConst n then Some n
      else if \<not> hasBBTerm n s then (if initialize then Some (mkConst G (getSize n) 0) else None)
      else let bits = getBBTerm n s
           in map_option (mkConst G (length bits)) (bits_value hasSatValue initialize (rev bits) 0))"

text \<open>
  \<^verbatim>\<open>Theory::isLeafOf\<close> for the bit-vector theory: the owner of a term with children is that of its kind, or
  of the type of its sides for an equation.
\<close>

definition kind_of_bv :: "kind \<Rightarrow> bool" where
  "kind_of_bv k = (case k of
     K_NOT \<Rightarrow> False | K_AND \<Rightarrow> False | K_OR \<Rightarrow> False | K_XOR \<Rightarrow> False | K_IMPLIES \<Rightarrow> False | K_ITE \<Rightarrow> False
   | K_EQUAL \<Rightarrow> False | K_DISTINCT \<Rightarrow> False | K_SEXPR \<Rightarrow> False | K_APPLY_UF f ts t \<Rightarrow> False
   | _ \<Rightarrow> True)"

definition theoryOf_BV :: "node \<Rightarrow> bool" where
  "theoryOf_BV n =
     (case n of
        mkNode k ns \<Rightarrow>
          if k = K_EQUAL then (case getType (child n 0) of Some t \<Rightarrow> isBitVector t | None \<Rightarrow> False) else kind_of_bv k
      | _ \<Rightarrow> (case getType n of Some t \<Rightarrow> isBitVector t | None \<Rightarrow> False))"

definition isLeafOf :: "node \<Rightarrow> bool" where
  "isLeafOf n = (children n = [] \<or> \<not> theoryOf_BV n)"

text \<open>
  The loop of \<^verbatim>\<open>TheoryBV::getValue\<close>. The cache maps a node to a value or, while its children are visited,
  to the null node. The stack has its top first. \<open>None\<close>: the fuel is used up, or a child has no value,
  which the code takes not to happen.
\<close>

type_synonym model_cache = "node \<Rightarrow> node option option"

definition with_children :: "node \<Rightarrow> node list \<Rightarrow> node" where
  "with_children n cs = (case n of mkNode k ns \<Rightarrow> mkNode k cs | _ \<Rightarrow> n)"

fun getValue_loop ::
  "gmp \<Rightarrow> (node \<Rightarrow> bool option) \<Rightarrow> (node \<Rightarrow> node) \<Rightarrow> bitblaster \<Rightarrow> nat \<Rightarrow> node list \<Rightarrow> model_cache \<Rightarrow> model_cache option" where
  "getValue_loop G sat rw s f [] cache = Some cache"
| "getValue_loop G sat rw s 0 (cur # visit) cache = None"
| "getValue_loop G sat rw s (Suc f) (cur # visit) cache =
     (if Option.bind (cache cur) id \<noteq> None then getValue_loop G sat rw s f visit cache
      else if isConst cur then getValue_loop G sat rw s f visit (cache(cur \<mapsto> Some cur))
      else if (case solver_getValue G sat s cur False of Some v \<Rightarrow> isConst v | None \<Rightarrow> False)
      then getValue_loop G sat rw s f visit (cache(cur \<mapsto> solver_getValue G sat s cur False))
      else if isLeafOf cur then getValue_loop G sat rw s f visit (cache(cur \<mapsto> solver_getValue G sat s cur True))
      else if cache cur = None
      then getValue_loop G sat rw s f (rev (children cur) @ cur # visit) (cache(cur \<mapsto> None))
      else (case those (map (\<lambda>c. Option.bind (cache c) id) (children cur)) of
              None \<Rightarrow> None
            | Some vs \<Rightarrow> getValue_loop G sat rw s f visit (cache(cur \<mapsto> Some (rw (with_children cur vs))))))"

record theory_bv =
  d_invalidateModelCache :: bool
  d_modelCache :: model_cache

fun value_fuel :: "node \<Rightarrow> nat" where
  "value_fuel (mkNode k ns) = 2 + sum_list (map value_fuel ns)"
| "value_fuel n = 1"

definition getValue ::
  "gmp \<Rightarrow> (node \<Rightarrow> bool option) \<Rightarrow> (node \<Rightarrow> node) \<Rightarrow> bitblaster \<Rightarrow> node \<Rightarrow> theory_bv \<Rightarrow> (node option \<times> theory_bv) option" where
  "getValue G sat rw s n T =
     (let cache = (if d_invalidateModelCache T then (\<lambda>_. None) else d_modelCache T)
      in do { cache \<leftarrow> getValue_loop G sat rw s (value_fuel n) [n] cache;
              Some (Option.bind (cache n) id, \<lparr>d_invalidateModelCache = False, d_modelCache = cache\<rparr>) })"

definition postCheck :: "theory_bv \<Rightarrow> theory_bv" where
  "postCheck T = T\<lparr>d_invalidateModelCache := True\<rparr>"

datatype EqualityStatus =
    EQUALITY_TRUE_AND_PROPAGATED | EQUALITY_FALSE_AND_PROPAGATED | EQUALITY_TRUE | EQUALITY_FALSE
  | EQUALITY_TRUE_IN_MODEL | EQUALITY_FALSE_IN_MODEL | EQUALITY_UNKNOWN

definition getEqualityStatus ::
  "gmp \<Rightarrow> (node \<Rightarrow> bool option) \<Rightarrow> (node \<Rightarrow> node) \<Rightarrow> bitblaster \<Rightarrow> node \<Rightarrow> node \<Rightarrow> theory_bv \<Rightarrow> (EqualityStatus \<times> theory_bv) option" where
  "getEqualityStatus G sat rw s a b T =
     do { (value_a, T) \<leftarrow> getValue G sat rw s a T;
          (value_b, T) \<leftarrow> getValue G sat rw s b T;
          Some (if value_a = None \<or> value_b = None then EQUALITY_UNKNOWN
                else if value_a = value_b then EQUALITY_TRUE_IN_MODEL else EQUALITY_FALSE_IN_MODEL, T) }"

end
