(* ===== verification/Bv_Solver_Sound.thy ===== *)
theory Bv_Solver_Sound
  imports Bv_Solver Bv_Rewriter_Sound
begin

text \<open>
  The solver of the bit-vector theory sends only formulas that are true in every model, and the values it
  reads off the assignment of the SAT solver are those of a model.
\<close>

section \<open>Values read off the assignment\<close>

text \<open>The leaves of the theory that the value of a term is computed from.\<close>

fun value_leaves :: "node \<Rightarrow> node set" where
  "value_leaves (mkNode k ns) = (if isLeafOf (mkNode k ns) then {mkNode k ns} else \<Union> (value_leaves ` set ns))"
| "value_leaves n = {n}"

lemma value_leaf: "isLeafOf n \<Longrightarrow> n \<in> value_leaves n"
  by (cases n) simp_all

text \<open>
  The assignment of the SAT solver agrees with a model: on every bit that it assigns, while the bits it
  leaves open in leaves of the theory, and the leaves that were not bit-blasted, are zero. Only the leaves
  \<open>A\<close> are concerned.
\<close>

definition reads_model :: "gmp \<Rightarrow> model \<Rightarrow> (node \<Rightarrow> bool option) \<Rightarrow> bitblaster \<Rightarrow> node set \<Rightarrow> bool" where
  "reads_model G m sat s A \<longleftrightarrow> cache_ok G m s \<and>
     (\<forall>n bits b. d_termCache s n = Some bits \<and> b \<in> set bits \<longrightarrow>
        (case sat b of Some v \<Rightarrow> v = truth G m b | None \<Rightarrow> isLeafOf n \<and> n \<in> A \<longrightarrow> \<not> truth G m b)) \<and>
     (\<forall>n\<in>A. isLeafOf n \<and> \<not> isConst n \<and> bv_term n \<and> d_termCache s n = None \<longrightarrow> val G m n = 0)"

text \<open>The rewriter evaluates the operators of the theory on constants.\<close>

definition folds_constants :: "gmp \<Rightarrow> (node \<Rightarrow> node) \<Rightarrow> bool" where
  "folds_constants G rw \<longleftrightarrow>
     (\<forall>k cs. kind_of_bv k \<and> bv_term (mkNode k cs) \<and> list_all isConst cs \<longrightarrow>
        isConst (rw (mkNode k cs)) \<and> rewrites_to G (mkNode k cs) (rw (mkNode k cs)))"

abbreviation value_node :: "gmp \<Rightarrow> model \<Rightarrow> node \<Rightarrow> node" where
  "value_node G m n \<equiv> CONST_BITVECTOR (bvval G m n)"

definition good_cache :: "gmp \<Rightarrow> model \<Rightarrow> model_cache \<Rightarrow> bool" where
  "good_cache G m cache \<longleftrightarrow> (\<forall>t v. cache t = Some (Some v) \<and> bv_term t \<longrightarrow> v = value_node G m t)"

context gmp_documented
begin

lemma bits_value_fold:
  assumes "\<forall>b\<in>set bs. case sat b of Some v \<Rightarrow> v = truth G m b | None \<Rightarrow> initialize \<longrightarrow> \<not> truth G m b"
  shows "bits_value sat initialize bs acc = None \<and> \<not> initialize \<or>
    bits_value sat initialize bs acc = Some (foldl (\<lambda>value b. value * 2 + of_bool (truth G m b)) acc bs)"
  using assms
proof (induction bs arbitrary: acc)
  case (Cons b bs)
  then have IH: "bits_value sat initialize bs a = None \<and> \<not> initialize \<or>
      bits_value sat initialize bs a = Some (foldl (\<lambda>value b. value * 2 + of_bool (truth G m b)) a bs)" for a
    by simp
  show ?case
    using IH [of "acc * 2"] IH [of "acc * 2 + 1"] Cons.prems by (cases "sat b") (auto split: if_splits)
qed simp

lemma value_of_bits:
  assumes "cache_ok G m s" "bv_term n" "d_termCache s n = Some bits"
  shows "mkConst G (length bits) (foldl (\<lambda>value b. value * 2 + of_bool (truth G m b)) 0 (rev bits)) = value_node G m n"
  using getModelFromSatSolver_ok [OF assms, of "\<lambda>b. Some (truth G m b)"] assms(3)
  by (simp add: getModelFromSatSolver_def hasBBTerm_def getBBTerm_def Let_def)

lemma zero_value: "bv_term n \<Longrightarrow> val G m n = 0 \<Longrightarrow> mkConst G (getSize n) 0 = value_node G m n"
  using bv_term_value(1,2) [of n m] bv_term_width(2) [of n]
  by (auto simp: mkConst_def val_def intro!: bitvector.equality)

lemma const_value: "bv_term n \<Longrightarrow> isConst n \<Longrightarrow> n = value_node G m n"
  using const_bv_term [of n] by (auto simp: bvval_def)

lemma solver_getValue_ok:
  assumes "reads_model G m sat s A" "bv_term n" "initialize \<longrightarrow> isLeafOf n \<and> n \<in> A"
  shows "solver_getValue G sat s n initialize = None \<and> \<not> initialize \<or> solver_getValue G sat s n initialize = Some (value_node G m n)"
proof -
  have c: "cache_ok G m s" and bits: "\<And>bits b. d_termCache s n = Some bits \<Longrightarrow> b \<in> set bits \<Longrightarrow>
      (case sat b of Some v \<Rightarrow> v = truth G m b | None \<Rightarrow> isLeafOf n \<and> n \<in> A \<longrightarrow> \<not> truth G m b)"
    and leaf: "isLeafOf n \<Longrightarrow> n \<in> A \<Longrightarrow> \<not> isConst n \<Longrightarrow> d_termCache s n = None \<Longrightarrow> val G m n = 0"
    using assms(1,2) unfolding reads_model_def by blast+
  have v: "bits_value sat initialize (rev bs) 0 = None \<and> \<not> initialize \<or>
      bits_value sat initialize (rev bs) 0 = Some (foldl (\<lambda>value b. value * 2 + of_bool (truth G m b)) 0 (rev bs))"
    if "d_termCache s n = Some bs" for bs
    by (rule bits_value_fold) (use bits [OF that] assms(3) in \<open>force split: option.splits\<close>)
  show "solver_getValue G sat s n initialize = None \<and> \<not> initialize \<or> solver_getValue G sat s n initialize = Some (value_node G m n)"
  proof (cases "isConst n \<or> d_termCache s n = None")
    case True
    then show ?thesis
      using const_value [OF assms(2), of m] zero_value [OF assms(2), of m] leaf assms(3) by (auto simp: solver_getValue_def hasBBTerm_def)
  next
    case False
    then obtain bs where "d_termCache s n = Some bs" "\<not> isConst n"
      by blast
    then show ?thesis
      using v [of bs] value_of_bits [OF c assms(2), of bs] by (auto simp: solver_getValue_def hasBBTerm_def getBBTerm_def Let_def)
  qed
qed

section \<open>The traversal\<close>

text \<open>The operands of a bit-vector operator of the theory are bit-vectors.\<close>

lemma bv_kind_children:
  assumes "bv_term (mkNode k ns)" "kind_of_bv k" "c \<in> set ns"
  shows "bv_term c"
proof (cases "k = K_BITVECTOR_ITE")
  case True
  note t = bv_termD(2,1) [OF assms(1) [unfolded True]]
  obtain d a b where "ns = [d, a, b]" "bv_term d" "getType a = Some (BITVECTOR_TYPE (getSize (mkNode K_BITVECTOR_ITE ns)))"
    "getType b = Some (BITVECTOR_TYPE (getSize (mkNode K_BITVECTOR_ITE ns)))" "firstClass a" "firstClass b"
    by (rule bvite_children [OF t])
  then show ?thesis
    using assms(3) by (auto simp: bv_term_def)
next
  case False
  then have "bv_operands k"
    using assms(2) by (cases k) (simp_all add: kind_of_bv_def bv_operands_def)
  then show ?thesis
    by (rule operands_bv_term [OF _ bv_termD(2,1) [OF assms(1)] assms(3)])
qed

end

text \<open>
  A run of the loop that settles the value of a term: the rounds it takes, and what it leaves in the cache.
\<close>

definition settles ::
  "gmp \<Rightarrow> model \<Rightarrow> (node \<Rightarrow> bool option) \<Rightarrow> (node \<Rightarrow> node) \<Rightarrow> bitblaster \<Rightarrow> node list \<Rightarrow> model_cache \<Rightarrow> nat \<Rightarrow> model_cache \<Rightarrow> bool" where
  "settles G m sat rw s ns cache c cache' \<longleftrightarrow>
     (\<forall>f visit. getValue_loop G sat rw s (c + f) (ns @ visit) cache = getValue_loop G sat rw s f visit cache') \<and>
     good_cache G m cache' \<and> (\<forall>n\<in>set ns. cache' n = Some (Some (value_node G m n))) \<and>
     (\<forall>t. cache' t = Some None \<longleftrightarrow> cache t = Some None) \<and> (\<forall>t v. cache t = Some (Some v) \<longrightarrow> cache' t = Some (Some v))"

lemma settles_Nil: "good_cache G m cache \<Longrightarrow> settles G m sat rw s [] cache 0 cache"
  by (simp add: settles_def)

lemma settles_append:
  assumes "settles G m sat rw s ns cache c cache1" "settles G m sat rw s ns' cache1 c' cache2"
  shows "settles G m sat rw s (ns @ ns') cache (c + c') cache2"
  using assms by (auto simp: settles_def add.assoc)

lemma settles_list:
  assumes "\<And>n cache. n \<in> set ns \<Longrightarrow> good_cache G m cache \<Longrightarrow> \<forall>t. cache t = Some None \<longrightarrow> size n < size t \<Longrightarrow>
      \<exists>c\<le>value_fuel n. \<exists>cache'. settles G m sat rw s [n] cache c cache'"
    "good_cache G m cache" "\<forall>n\<in>set ns. \<forall>t. cache t = Some None \<longrightarrow> size n < size t"
  shows "\<exists>c\<le> sum_list (map value_fuel ns). \<exists>cache'. settles G m sat rw s ns cache c cache'"
  using assms
proof (induction ns arbitrary: cache)
  case Nil
  then show ?case
    using settles_Nil by blast
next
  case (Cons n ns)
  obtain c cache1 where 1: "c \<le> value_fuel n" "settles G m sat rw s [n] cache c cache1"
    using Cons.prems(1) [of n cache] Cons.prems(2,3) by auto
  then have "good_cache G m cache1" "\<forall>n\<in>set ns. \<forall>t. cache1 t = Some None \<longrightarrow> size n < size t"
    using Cons.prems(3) by (auto simp: settles_def)
  then obtain c' cache2 where "c' \<le> sum_list (map value_fuel ns)" "settles G m sat rw s ns cache1 c' cache2"
    using Cons.IH [of cache1] Cons.prems(1) by auto
  with settles_append [OF 1(2)] 1(1) show ?case
    by (intro exI [of _ "c + c'"]) fastforce
qed

context gmp_documented
begin

lemma settles_at_once:
  assumes "good_cache G m cache" "cache n \<noteq> Some None" "bv_term n"
    "\<And>f visit. getValue_loop G sat rw s (Suc f) (n # visit) cache = getValue_loop G sat rw s f visit (cache(n \<mapsto> Some (value_node G m n)))"
  shows "settles G m sat rw s [n] cache 1 (cache(n \<mapsto> Some (value_node G m n)))"
  using assms by (auto simp: settles_def good_cache_def)

lemma operator_value:
  assumes "folds_constants G rw" "bv_term (mkNode k ns)" "\<forall>c\<in>set ns. bv_term c" "kind_of_bv k"
  shows "rw (mkNode k (map (value_node G m) ns)) = value_node G m (mkNode k ns)"
proof -
  let ?n = "mkNode k (map (value_node G m) ns)"
  have t: "getType (value_node G m c) = getType c" "eval G m (value_node G m c) = eval G m c" if "c \<in> set ns" for c
    using assms(3) that bv_term_value [of c m] bv_term_width(1) [of c] bv_termD(2) [of c] by (auto simp: BitVectorConstantTypeRule_def)
  then have maps: "map getType (map (value_node G m) ns) = map getType ns" "map (eval G m) (map (value_node G m) ns) = map (eval G m) ns"
    unfolding map_map map_eq_conv comp_def by blast+
  have "getType ?n = getType (mkNode k ns)" and ev: "eval G m ?n = eval G m (mkNode k ns)"
    unfolding getType.simps eval.simps maps by (rule refl)+
  moreover have "firstClass ?n"
    using assms(2) by (simp add: bv_term_def list_all_iff)
  ultimately have n: "bv_term ?n" "eval G m ?n = eval G m (mkNode k ns)"
    using assms(2) unfolding bv_term_def by simp_all
  have "list_all isConst (map (value_node G m) ns)"
    by (simp add: list_all_iff)
  then have r: "isConst (rw ?n)" "rewrites_to G ?n (rw ?n)"
    using assms(1,4) n(1) by (auto simp: folds_constants_def)
  have "bv_term (rw ?n)" "eval G m (rw ?n) = eval G m (mkNode k ns)"
    using rewrites_bvD(1) [OF r(2) n(1)] r(2) n bv_termD [OF n(1)] by (auto simp: rewrites_to_def)
  then show ?thesis
    using const_value [of "rw ?n" m] r(1) by (simp add: bvval_def)
qed

lemma bv_term_leaf_kind:
  assumes "\<not> isLeafOf n" "bv_term n"
  shows "\<exists>k ns. n = mkNode k ns \<and> kind_of_bv k"
proof (cases n)
  case (mkNode k ns)
  have "k \<noteq> K_EQUAL"
    using assms(2) unfolding mkNode by (auto simp: bv_term_def kind_type_def EqualityTypeRule_def split: option.splits if_splits)
  then show ?thesis
    using assms(1) mkNode by (auto simp: isLeafOf_def theoryOf_BV_def)
qed (use assms in \<open>simp_all add: isLeafOf_def\<close>)

lemma settles_operator:
  assumes "folds_constants G rw" "bv_term (mkNode k ns)" "kind_of_bv k" "good_cache G m cache"
    "\<forall>t. cache t = Some None \<longrightarrow> size (mkNode k ns) < size t" "cache (mkNode k ns) = None"
    "solver_getValue G sat s (mkNode k ns) False = None" "\<not> isLeafOf (mkNode k ns)"
    "\<And>n cache. size n < size (mkNode k ns) \<Longrightarrow> n \<in> set ns \<Longrightarrow> bv_term n \<Longrightarrow> good_cache G m cache \<Longrightarrow> \<forall>t. cache t = Some None \<longrightarrow> size n < size t \<Longrightarrow>
      \<exists>c\<le>value_fuel n. \<exists>cache'. settles G m sat rw s [n] cache c cache'"
  shows "\<exists>c\<le>value_fuel (mkNode k ns). \<exists>cache'. settles G m sat rw s [mkNode k ns] cache c cache'"
proof -
  define n where "n = mkNode k ns"
  define cache0 where "cache0 = cache(n \<mapsto> None)"
  have kids: "bv_term a" "size a < size n" if "a \<in> set ns" for a
    using bv_kind_children [OF assms(2,3) that] that by (auto simp: n_def intro: le_imp_less_Suc size_list_estimation')
  have "size a < size t" if "a \<in> set ns" "cache0 t = Some None" for a t
    using kids(2) [OF that(1)] that(2) assms(5) by (cases "t = n") (auto simp: cache0_def n_def dest: less_trans)
  moreover have "good_cache G m cache0"
    using assms(4) by (simp add: cache0_def good_cache_def)
  ultimately obtain c cache1 where run: "c \<le> sum_list (map value_fuel (rev ns))" "settles G m sat rw s (rev ns) cache0 c cache1"
    using settles_list [of "rev ns" G m sat rw s cache0] assms(9) kids by (auto simp: n_def)
  have c1: "cache1 n = Some None" "\<And>a. a \<in> set ns \<Longrightarrow> cache1 a = Some (Some (value_node G m a))" "good_cache G m cache1"
    using run(2) by (auto simp: settles_def cache0_def)
  have vs: "those (map (\<lambda>a. Option.bind (cache1 a) id) ns) = Some (map (value_node G m) ns)"
    using c1(2) by (induction ns) simp_all
  define cache' where "cache' = cache1(n \<mapsto> Some (value_node G m n))"
  have "getValue_loop G sat rw s (Suc (c + Suc f)) (n # visit) cache = getValue_loop G sat rw s f visit cache'" for f visit
  proof -
    have "getValue_loop G sat rw s (Suc (c + Suc f)) (n # visit) cache = getValue_loop G sat rw s (c + Suc f) (rev ns @ n # visit) cache0"
      using assms(6-8) by (simp add: n_def cache0_def)
    also have "\<dots> = getValue_loop G sat rw s (Suc f) (n # visit) cache1"
      using run(2) by (simp only: settles_def)
    also have "\<dots> = getValue_loop G sat rw s f visit cache'"
      using assms(7,8) c1(1) vs operator_value [OF assms(1,2) _ assms(3), of m] kids(1) by (simp add: n_def cache'_def with_children_def)
    finally show ?thesis .
  qed
  then have "settles G m sat rw s [n] cache (Suc (Suc c)) cache'"
    using run(2) c1(3) assms(2,6) by (auto simp: settles_def cache'_def cache0_def good_cache_def n_def)
  moreover have "Suc (Suc c) \<le> value_fuel n"
    using run(1) by (simp add: n_def rev_map [symmetric])
  ultimately show ?thesis
    unfolding n_def by blast
qed

lemma settles_node:
  assumes "reads_model G m sat s A" "folds_constants G rw"
  shows "bv_term n \<Longrightarrow> value_leaves n \<subseteq> A \<Longrightarrow> good_cache G m cache \<Longrightarrow> \<forall>t. cache t = Some None \<longrightarrow> size n < size t \<Longrightarrow>
    \<exists>c\<le>value_fuel n. \<exists>cache'. settles G m sat rw s [n] cache c cache'"
proof (induction n arbitrary: cache rule: measure_induct_rule [of size])
  case (less n)
  have fuel: "1 \<le> value_fuel n"
    by (cases n) simp_all
  have open_n: "cache n \<noteq> Some None"
    using less.prems(4) by blast
  note at_once = settles_at_once [OF less.prems(3) open_n less.prems(1), where sat = sat and rw = rw and s = s]
  have vals: "solver_getValue G sat s n False \<in> {None, Some (value_node G m n)}"
    "isLeafOf n \<Longrightarrow> solver_getValue G sat s n True = Some (value_node G m n)"
    using solver_getValue_ok [OF assms(1) less.prems(1), of False] solver_getValue_ok [OF assms(1) less.prems(1), of True] value_leaf [of n] less.prems(2) by auto
  consider (cached) v where "cache n = Some (Some v)" | (const) "cache n = None" "isConst n"
    | (known) "cache n = None" "\<not> isConst n" "solver_getValue G sat s n False = Some (value_node G m n)"
    | (leaf) "cache n = None" "\<not> isConst n" "solver_getValue G sat s n False = None" "isLeafOf n"
    | (inner) "cache n = None" "\<not> isConst n" "solver_getValue G sat s n False = None" "\<not> isLeafOf n"
  proof atomize_elim
    have "cache n = None \<or> (\<exists>v. cache n = Some (Some v))"
      using open_n by (metis option.exhaust)
    moreover have "solver_getValue G sat s n False = None \<or> solver_getValue G sat s n False = Some (value_node G m n)"
      using vals(1) by simp
    ultimately show "(\<exists>v. cache n = Some (Some v)) \<or> cache n = None \<and> isConst n \<or>
        cache n = None \<and> \<not> isConst n \<and> solver_getValue G sat s n False = Some (value_node G m n) \<or>
        cache n = None \<and> \<not> isConst n \<and> solver_getValue G sat s n False = None \<and> isLeafOf n \<or>
        cache n = None \<and> \<not> isConst n \<and> solver_getValue G sat s n False = None \<and> \<not> isLeafOf n"
      by blast
  qed
  then show ?case
  proof cases
    case (cached v)
    then have "v = value_node G m n"
      using less.prems(1,3) by (auto simp: good_cache_def)
    then have "settles G m sat rw s [n] cache 1 cache"
      using cached less.prems(3) by (simp add: settles_def)
    then show ?thesis
      using fuel by blast
  next
    case const
    then show ?thesis
      using at_once fuel const_value [OF less.prems(1), of m] by (intro exI [of _ 1] conjI exI) auto
  next
    case known
    then show ?thesis
      using at_once fuel by (intro exI [of _ 1] conjI exI) auto
  next
    case leaf
    then show ?thesis
      using at_once fuel vals(2) by (intro exI [of _ 1] conjI exI) auto
  next
    case inner
    obtain k ns where n: "n = mkNode k ns" "kind_of_bv k"
      using inner(4) less.prems(1) bv_term_leaf_kind by metis
    have "value_leaves a \<subseteq> A" if "a \<in> set ns" for a
      using less.prems(2) that inner(4) by (auto simp: n(1))
    then have IH: "\<exists>c\<le>value_fuel a. \<exists>cache'. settles G m sat rw s [a] cache c cache'"
      if "size a < size (mkNode k ns)" "a \<in> set ns" "bv_term a" "good_cache G m cache" "\<forall>t. cache t = Some None \<longrightarrow> size a < size t" for a cache
      using that n(1) by (intro less.IH) simp_all
    show ?thesis
      unfolding n(1) using less.prems(1,3,4) inner n(2) IH by (intro settles_operator [OF assms(2)]) (simp_all add: n(1))
  qed
qed

end

text \<open>The cache of the theory between two calls: outdated, or correct and without nodes in progress.\<close>

definition theory_ok :: "gmp \<Rightarrow> model \<Rightarrow> theory_bv \<Rightarrow> bool" where
  "theory_ok G m T \<longleftrightarrow> d_invalidateModelCache T \<or> good_cache G m (d_modelCache T) \<and> (\<forall>t. d_modelCache T t \<noteq> Some None)"

lemma theory_ok_postCheck: "theory_ok G m (postCheck T)"
  by (simp add: theory_ok_def postCheck_def)

context gmp_documented
begin

lemma getValue_ok:
  assumes "reads_model G m sat s A" "folds_constants G rw" "bv_term n" "value_leaves n \<subseteq> A" "theory_ok G m T"
  shows "\<exists>T'. getValue G sat rw s n T = Some (Some (value_node G m n), T') \<and> theory_ok G m T'"
proof -
  define cache where "cache = (if d_invalidateModelCache T then (\<lambda>_. None) else d_modelCache T)"
  have cache: "good_cache G m cache" "\<forall>t. cache t \<noteq> Some None"
    using assms(5) by (auto simp: theory_ok_def cache_def good_cache_def)
  then obtain c cache' where c: "c \<le> value_fuel n" "settles G m sat rw s [n] cache c cache'"
    using settles_node [OF assms(1-4), of cache] by auto
  then obtain f where "value_fuel n = c + f"
    by (metis le_Suc_ex)
  then have "getValue_loop G sat rw s (value_fuel n) [n] cache = getValue_loop G sat rw s f [] cache'"
    using c(2) unfolding settles_def by (metis append_Nil2)
  then have "getValue_loop G sat rw s (value_fuel n) [n] cache = Some cache'"
    by simp
  moreover have "cache' n = Some (Some (value_node G m n))" "good_cache G m cache'" "\<forall>t. cache' t \<noteq> Some None"
    using c(2) cache(2) by (simp_all add: settles_def)
  ultimately show ?thesis
    by (simp add: getValue_def theory_ok_def flip: cache_def)
qed

lemma value_node_eq: "bv_term a \<Longrightarrow> bv_term b \<Longrightarrow> value_node G m a = value_node G m b \<longleftrightarrow> eval G m a = eval G m b"
  using bv_term_value(3) [of a m] bv_term_value(3) [of b m] by auto

end

section \<open>Property: values\<close>

text \<open>
  C23.  The status of an equality in the current assignment: when the assignment of the SAT solver agrees with
  a model on the bits, and the rewriter evaluates operators on constants, \<^verbatim>\<open>getEqualityStatus\<close> always
  returns, and it returns whether the two terms have the same value in that model. The cache stays
  correct, so that the next query can rely on it.
\<close>

theorem getEqualityStatus_correct:
  assumes "gmp_documented G" "reads_model G m sat s (value_leaves a \<union> value_leaves b)" "folds_constants G rw"
    "bv_term a" "bv_term b" "theory_ok G m T"
  shows "\<exists>T'. getEqualityStatus G sat rw s a b T =
      Some (if eval G m a = eval G m b then EQUALITY_TRUE_IN_MODEL else EQUALITY_FALSE_IN_MODEL, T') \<and> theory_ok G m T'"
proof -
  obtain T1 where "getValue G sat rw s a T = Some (Some (value_node G m a), T1)" "theory_ok G m T1"
    using gmp_documented.getValue_ok [OF assms(1-4) _ assms(6)] by auto
  moreover from this(2) obtain T2 where "getValue G sat rw s b T1 = Some (Some (value_node G m b), T2)" "theory_ok G m T2"
    using gmp_documented.getValue_ok [OF assms(1-3) assms(5)] by auto
  ultimately show ?thesis
    using gmp_documented.value_node_eq [OF assms(1,4,5), of m] by (simp add: getEqualityStatus_def del: node.inject)
qed

text \<open>A rewriter that evaluates, a model of zeros, and a solver that has not yet seen any term.\<close>

definition zero_model :: model where
  "zero_model = \<lparr>var_raw = \<lambda>x t. 0, fun_raw = \<lambda>f t vs. 0\<rparr>"

definition evaluator :: "node \<Rightarrow> node" where
  "evaluator n = value_node gmp_reference zero_model n"

lemma kind_of_bv_eval: "kind_of_bv k \<Longrightarrow> eval_kind G m k vs = eval_kind G m' k vs"
  by (cases k) (simp_all add: kind_of_bv_def eval_kind_def split: option.split)

lemma evaluator_folds: "folds_constants gmp_reference evaluator"
  unfolding folds_constants_def
proof (intro allI impI conjI)
  fix k cs
  assume "kind_of_bv k \<and> bv_term (mkNode k cs) \<and> list_all isConst cs"
  then have k: "kind_of_bv k" "bv_term (mkNode k cs)" "list_all isConst cs"
    by blast+
  have "eval gmp_reference m (mkNode k cs) = eval gmp_reference zero_model (mkNode k cs)" for m
  proof -
    have "eval gmp_reference m c = eval gmp_reference zero_model c" if "c \<in> set cs" for c
      using k(3) that by (cases c) (auto simp: list_all_iff)
    then show ?thesis
      using kind_of_bv_eval [OF k(1)] by (simp cong: map_cong)
  qed
  then have "eval gmp_reference m (mkNode k cs) = eval gmp_reference m (evaluator (mkNode k cs))" for m
    using gmp_ref.bv_term_value(3) [OF k(2), of zero_model] by (simp add: evaluator_def)
  then show "rewrites_to gmp_reference (mkNode k cs) (evaluator (mkNode k cs))"
    by (rule gmp_ref.rewrites_const) (simp add: evaluator_def)
  show "isConst (evaluator (mkNode k cs))"
    by (simp add: evaluator_def)
qed

theorem getEqualityStatus_correct_witness:
  "\<exists>T'. getEqualityStatus gmp_reference (\<lambda>b. None) evaluator init_bitblaster
      (mkNode K_BITVECTOR_NOT [example_bv 0]) (example_bv 1) \<lparr>d_invalidateModelCache = True, d_modelCache = \<lambda>t. None\<rparr> =
    Some (EQUALITY_FALSE_IN_MODEL, T') \<and> theory_ok gmp_reference zero_model T'"
proof -
  let ?a = "mkNode K_BITVECTOR_NOT [example_bv 0]" and ?b = "example_bv 1" and ?T = "\<lparr>d_invalidateModelCache = True, d_modelCache = \<lambda>t. None\<rparr>"
  have v: "bv_term (example_bv i)" "getSize (example_bv i) = 8" "val gmp_reference zero_model (example_bv i) = 0" for i
    by (simp_all add: bv_term_def getSize_def val_def bvval_def zero_model_def)
  then have a: "bv_term ?a" "getSize ?a = 8" "val gmp_reference zero_model ?a = 255"
    by (simp_all add: term_simps gmp_ref.val_unary)
  have "value_leaves ?a \<subseteq> {example_bv 0}" "value_leaves ?b = {example_bv 1}"
    by (simp_all add: isLeafOf_def theoryOf_BV_def kind_of_bv_def)
  then have reads: "reads_model gmp_reference zero_model (\<lambda>b. None) init_bitblaster (value_leaves ?a \<union> value_leaves ?b)"
    using v(3) cache_ok_init by (auto simp: reads_model_def init_bitblaster_def)
  have ne: "eval gmp_reference zero_model ?a \<noteq> eval gmp_reference zero_model ?b"
    using gmp_ref.eval_eq_val [OF a(1) v(1) [of 1]] a v by simp
  have ok: "theory_ok gmp_reference zero_model ?T"
    by (simp add: theory_ok_def)
  show ?thesis
    using getEqualityStatus_correct [OF gmp_ref.gmp_documented_axioms reads evaluator_folds a(1) v(1) [of 1] ok]
    unfolding if_not_P [OF ne] .
qed

section \<open>Property: lemmas\<close>

definition fact_atom :: "node \<Rightarrow> node" where
  "fact_atom lit = (if isKind K_NOT lit then child lit 0 else lit)"

text \<open>Facts whose atom, if it is one of the theory, the bit-blaster has a strategy for.\<close>

definition blastable_fact :: "nat \<Rightarrow> (node \<Rightarrow> node) \<Rightarrow> node \<Rightarrow> bool" where
  "blastable_fact d rw lit \<longleftrightarrow> (isBVAtom (fact_atom lit) \<longrightarrow> bb_atom d (rw (fact_atom lit)) \<or> is_bit_or_const (rw (fact_atom lit)))"

definition defines_atom :: "gmp \<Rightarrow> node \<Rightarrow> bool" where
  "defines_atom G lem \<longleftrightarrow> isKind K_EQUAL lem \<and> length (children lem) = 2 \<and> (\<forall>m. truth G m (child lem 0) = truth G m (child lem 1))"

definition solver_ok :: "gmp \<Rightarrow> bv_solver \<Rightarrow> bool" where
  "solver_ok G st \<longleftrightarrow> (\<forall>m. cache_ok G m (d_bitblaster st)) \<and> list_all (defines_atom G) (sent_lemmas st)"

lemma isBVAtom_not: "isBVAtom a \<Longrightarrow> \<not> isKind K_NOT a \<and> wf_not a"
  by (cases a) (auto simp: isBVAtom_def wf_not_def)

context gmp_documented
begin

lemma bb_step_ok:
  assumes "\<forall>m. rewriter_sound G m rw" "\<forall>m. cache_ok G m s" "isBVAtom a" "bb_atom d (rw a) \<or> is_bit_or_const (rw a)"
  shows "\<exists>s'. (if \<not> hasBBAtom a s then bbAtom G rw d a s else Some s) = Some s' \<and> (\<forall>m. cache_ok G m s') \<and> d_bbAtoms s' a \<noteq> None"
proof -
  have a: "a = (if isKind K_NOT a then child a 0 else a)" "\<not> isKind K_NOT a"
    using isBVAtom_not [OF assms(3)] by simp_all
  show ?thesis
  proof (cases "hasBBAtom a s")
    case True
    then show ?thesis
      using a(2) assms(2) by (simp add: hasBBAtom_def)
  next
    case False
    have ok: "\<exists>s'. bbAtom G rw d a s = Some s' \<and> cache_ok G m s' \<and> d_bbAtoms s' a \<noteq> None" for m
      using bbAtom_ok [of m rw s a a d] a assms(1,2,4) by blast
    then obtain s' where "bbAtom G rw d a s = Some s'" "d_bbAtoms s' a \<noteq> None"
      by blast
    moreover have "cache_ok G m s'" for m
      using ok [of m] calculation(1) by simp
    ultimately show ?thesis
      using False by simp
  qed
qed

lemma addBBLemma_ok:
  assumes "\<forall>m. rewriter_sound G m rw" "solver_ok G st" "isBVAtom a" "bb_atom d (rw a) \<or> is_bit_or_const (rw a)"
  shows "\<exists>st' F. addBBLemma G rw d a st = Some st' \<and> solver_ok G st' \<and> sent_lemmas st' = sent_lemmas st @ [mkNode K_EQUAL [a, F]]"
proof -
  note a = isBVAtom_not [OF assms(3)]
  obtain s where s: "(if \<not> hasBBAtom a (d_bitblaster st) then bbAtom G rw d a (d_bitblaster st) else Some (d_bitblaster st)) = Some s"
    "\<forall>m. cache_ok G m s" "d_bbAtoms s a \<noteq> None"
    using bb_step_ok [OF assms(1) _ assms(3,4)] assms(2) unfolding solver_ok_def by blast
  have "truth G m (getStoredBBAtom a s) = truth G m a" for m
    using getStoredBBAtom_ok [of m s a a] s(2,3) a by simp
  then have "defines_atom G (mkNode K_EQUAL [a, getStoredBBAtom a s])"
    by (simp add: defines_atom_def child_def)
  then show ?thesis
    using s(1,2) assms(2) by (simp add: addBBLemma_def solver_ok_def)
qed

lemma notifyFacts_ok:
  assumes "\<forall>m. rewriter_sound G m rw" "solver_ok G st" "list_all (blastable_fact d rw) lits"
  shows "\<exists>st'. notifyFacts G rw d eager lits st = Some st' \<and> solver_ok G st' \<and>
    map (\<lambda>lem. child lem 0) (sent_lemmas st') = map (\<lambda>lem. child lem 0) (sent_lemmas st) @ filter isBVAtom (map fact_atom lits)"
  using assms(2,3)
proof (induction lits arbitrary: st)
  case (Cons lit lits)
  obtain st1 where st1: "preNotifyFact G rw d eager lit st = Some (eager, st1)" "solver_ok G st1"
    "map (\<lambda>lem. child lem 0) (sent_lemmas st1) = map (\<lambda>lem. child lem 0) (sent_lemmas st) @ filter isBVAtom [fact_atom lit]"
  proof (cases "isBVAtom (fact_atom lit)")
    case True
    then have "bb_atom d (rw (fact_atom lit)) \<or> is_bit_or_const (rw (fact_atom lit))"
      using Cons.prems(2) by (simp add: blastable_fact_def)
    from addBBLemma_ok [OF assms(1) Cons.prems(1) True this] True that show ?thesis
      by (force simp: preNotifyFact_def Let_def child_def fact_atom_def)
  next
    case False
    then show ?thesis
      using that [of st] Cons.prems(1) by (simp add: preNotifyFact_def Let_def fact_atom_def)
  qed
  moreover obtain st2 where "notifyFacts G rw d eager lits st1 = Some st2" "solver_ok G st2"
    "map (\<lambda>lem. child lem 0) (sent_lemmas st2) = map (\<lambda>lem. child lem 0) (sent_lemmas st1) @ filter isBVAtom (map fact_atom lits)"
    using Cons.IH [OF st1(2)] Cons.prems(2) by auto
  ultimately show ?case
    by simp
qed simp

end



end
