(* ===== verification/Bool_Checker.thy ===== *)
theory Bool_Checker
  imports Type_Soundness
begin

text \<open>
  The checker of the Boolean proof rules, \<^verbatim>\<open>BoolProofRuleChecker::checkInternal\<close> of
  \<^verbatim>\<open>theory/booleans/proof_checker.cpp\<close>, one definition \<open>check_R\<close> per rule \<open>R\<close>, and the driver
  \<^verbatim>\<open>ProofChecker\<close> of \<^verbatim>\<open>proof/proof_checker.cpp\<close>.

  The result is the conclusion, the null node, or \<open>ABORT\<close> when an assertion of the code fails; a
  read past the end of a vector, which is undefined in the code, is \<open>ABORT\<close> too.
\<close>

datatype check_result = NODE node | NULL_NODE | ABORT

text \<open>\<^verbatim>\<open>ProofRuleChecker::getUInt32\<close>.\<close>

definition getUInt32 :: "node \<Rightarrow> nat option" where
  "getUInt32 n = (case n of CONST_INTEGER i \<Rightarrow> if 0 \<le> i \<and> i < 2 ^ 32 then Some (nat i) else None | _ \<Rightarrow> None)"

section \<open>Resolution\<close>

text \<open>The loop over the literals of a clause: only the first occurrence of the pivot is dropped.\<close>

fun elim_first :: "node option \<Rightarrow> node list \<Rightarrow> node list" where
  "elim_first pivot [] = []"
| "elim_first pivot (l # ls) =
     (if pivot \<noteq> Some l then l # elim_first pivot ls else elim_first None ls)"

definition clause_lits :: "node \<Rightarrow> node \<Rightarrow> node list" where
  "clause_lits pivot c = (if isKind K_OR c \<and> pivot \<noteq> c then children c else [c])"

definition check_RESOLUTION :: "node list \<Rightarrow> node list \<Rightarrow> check_result" where
  "check_RESOLUTION cs args =
     (if length cs \<noteq> 2 \<or> length args \<noteq> 2 then ABORT
      else if args ! 0 \<noteq> CONST_BOOLEAN True \<and> args ! 0 \<noteq> CONST_BOOLEAN False then ABORT
      else
        let (p0, p1) = (if args ! 0 = CONST_BOOLEAN True then (args ! 1, notNode (args ! 1))
              else (notNode (args ! 1), args ! 1));
            disjuncts = elim_first (Some p0) (clause_lits p0 (cs ! 0))
              @ elim_first (Some p1) (clause_lits p1 (cs ! 1))
        in NODE (if disjuncts = [] then CONST_BOOLEAN False
             else if length disjuncts = 1 then disjuncts ! 0 else mkNode K_OR disjuncts))"

fun drop_repeated :: "node list \<Rightarrow> node list \<Rightarrow> node list" where
  "drop_repeated clauseSet [] = []"
| "drop_repeated clauseSet (l # ls) =
     (if l \<in> set clauseSet then drop_repeated clauseSet ls
      else l # drop_repeated (l # clauseSet) ls)"

definition check_FACTORING :: "node list \<Rightarrow> node list \<Rightarrow> check_result" where
  "check_FACTORING cs args =
     (if length cs \<noteq> 1 \<or> args \<noteq> [] then ABORT
      else if \<not> isKind K_OR (cs ! 0) then NULL_NODE
      else let disjuncts = drop_repeated [] (children (cs ! 0))
           in if length disjuncts = length (children (cs ! 0)) then NULL_NODE
              else NODE (nm_mkOr disjuncts))"

definition check_REORDERING :: "node list \<Rightarrow> node list \<Rightarrow> check_result" where
  "check_REORDERING cs args =
     (if length cs \<noteq> 1 \<or> length args \<noteq> 1 then ABORT
      else let clauseSet1 = (if isKind K_OR (cs ! 0) then children (cs ! 0) else [cs ! 0]);
               clauseSet2 = (if isKind K_OR (args ! 0) then children (args ! 0) else [args ! 0])
           in if set clauseSet1 \<noteq> set clauseSet2 then NULL_NODE else NODE (args ! 0))"

text \<open>The first clause of a chain, and the links: \<open>None\<close> when a pivot does not occur.\<close>

definition chain_first :: "node \<Rightarrow> node \<Rightarrow> node \<Rightarrow> node list" where
  "chain_first c pol lit =
     (if \<not> isKind K_OR c \<or> (pol = CONST_BOOLEAN True \<and> c = lit) \<or>
         (pol = CONST_BOOLEAN False \<and> c = notNode lit)
      then [c] else children c)"

definition chain_pivots :: "node \<Rightarrow> node \<Rightarrow> node \<times> node" where
  "chain_pivots pol lit =
     (if pol = CONST_BOOLEAN True then (lit, notNode lit) else (notNode lit, lit))"

fun chain_resolution :: "node list \<Rightarrow> (node \<times> node \<times> node) list \<Rightarrow> node list option" where
  "chain_resolution lhsClause [] = Some lhsClause"
| "chain_resolution lhsClause ((pol, lit, c) # links) =
     (if pol \<noteq> CONST_BOOLEAN True \<and> pol \<noteq> CONST_BOOLEAN False then None
      else let (lhsElim, rhsElim) = chain_pivots pol lit;
               rhsClause = (if \<not> isKind K_OR c \<or> c = rhsElim then [c] else children c)
           in if lhsElim \<notin> set lhsClause \<or> rhsElim \<notin> set rhsClause then None
              else chain_resolution (remove1 lhsElim lhsClause @ remove1 rhsElim rhsClause) links)"

definition check_CHAIN_RESOLUTION :: "node list \<Rightarrow> node list \<Rightarrow> check_result" where
  "check_CHAIN_RESOLUTION cs args =
     (if \<not> length cs > 1 \<or> length args \<noteq> 2 then ABORT
      else let pols = children (args ! 0); lits = children (args ! 1)
           in if length pols \<noteq> length cs - 1 \<or> length lits \<noteq> length cs - 1 then ABORT
              else case chain_resolution (chain_first (cs ! 0) (pols ! 0) (lits ! 0)) (zip pols (zip lits (tl cs))) of
                     None \<Rightarrow> ABORT
                   | Some lhsClause \<Rightarrow> NODE (nm_mkOr lhsClause))"

text \<open>The chain that drops every occurrence of a pivot, up to order and repetition.\<close>

fun chain_m_resolution :: "node list \<Rightarrow> (node \<times> node \<times> node) list \<Rightarrow> node list option" where
  "chain_m_resolution lhsClause [] = Some lhsClause"
| "chain_m_resolution lhsClause ((pol, lit, c) # links) =
     (if pol \<noteq> CONST_BOOLEAN True \<and> pol \<noteq> CONST_BOOLEAN False then None
      else let (lhsElim, rhsElim) = chain_pivots pol lit;
               rhsClause = (if \<not> isKind K_OR c \<or> c = rhsElim then [c] else children c)
           in chain_m_resolution (removeAll lhsElim lhsClause @ filter (\<lambda>l. rhsElim \<noteq> l) rhsClause) links)"

definition check_CHAIN_M_RESOLUTION :: "node list \<Rightarrow> node list \<Rightarrow> check_result" where
  "check_CHAIN_M_RESOLUTION cs args =
     (if \<not> length cs > 1 \<or> length args \<noteq> 3 then ABORT
      else let pols = children (args ! 1); lits = children (args ! 2)
           in if length pols \<noteq> length lits then NULL_NODE
              else if pols = [] \<and> isKind K_OR (cs ! 0) \<or> length pols > length cs - 1 then ABORT
              else case chain_m_resolution (chain_first (cs ! 0) (pols ! 0) (lits ! 0)) (zip pols (zip lits (tl cs))) of
                     None \<Rightarrow> ABORT
                   | Some lhsClause \<Rightarrow>
                       let clauseComputed = remdups lhsClause
                       in if clauseComputed = []
                          then if args ! 0 \<noteq> CONST_BOOLEAN False then NULL_NODE else NODE (args ! 0)
                          else if length clauseComputed = 1
                          then if args ! 0 \<noteq> hd clauseComputed then NULL_NODE else NODE (args ! 0)
                          else if \<not> isKind K_OR (args ! 0) then NULL_NODE
                          else if set clauseComputed = set (children (args ! 0)) then NODE (args ! 0)
                          else NULL_NODE)"

section \<open>Natural deduction\<close>

definition check_SPLIT :: "node list \<Rightarrow> node list \<Rightarrow> check_result" where
  "check_SPLIT cs args =
     (if cs \<noteq> [] \<or> length args \<noteq> 1 then ABORT
      else NODE (mkNode K_OR [args ! 0, notNode (args ! 0)]))"

definition check_CONTRA :: "node list \<Rightarrow> node list \<Rightarrow> check_result" where
  "check_CONTRA cs args =
     (if length cs \<noteq> 2 then ABORT
      else if isKind K_NOT (cs ! 1) \<and> cs ! 0 = child (cs ! 1) 0 then NODE (CONST_BOOLEAN False)
      else NULL_NODE)"

definition check_EQ_RESOLVE :: "node list \<Rightarrow> node list \<Rightarrow> check_result" where
  "check_EQ_RESOLVE cs args =
     (if length cs \<noteq> 2 \<or> args \<noteq> [] then ABORT
      else if \<not> isKind K_EQUAL (cs ! 1) \<or> cs ! 0 \<noteq> child (cs ! 1) 0 then NULL_NODE
      else NODE (child (cs ! 1) 1))"

definition check_MODUS_PONENS :: "node list \<Rightarrow> node list \<Rightarrow> check_result" where
  "check_MODUS_PONENS cs args =
     (if length cs \<noteq> 2 \<or> args \<noteq> [] then ABORT
      else if \<not> isKind K_IMPLIES (cs ! 1) \<or> cs ! 0 \<noteq> child (cs ! 1) 0 then NULL_NODE
      else NODE (child (cs ! 1) 1))"

definition check_NOT_NOT_ELIM :: "node list \<Rightarrow> node list \<Rightarrow> check_result" where
  "check_NOT_NOT_ELIM cs args =
     (if length cs \<noteq> 1 \<or> args \<noteq> [] then ABORT
      else if \<not> isKind K_NOT (cs ! 0) \<or> \<not> isKind K_NOT (child (cs ! 0) 0) then NULL_NODE
      else NODE (child (child (cs ! 0) 0) 0))"

definition check_AND_ELIM :: "node list \<Rightarrow> node list \<Rightarrow> check_result" where
  "check_AND_ELIM cs args =
     (if length cs \<noteq> 1 \<or> length args \<noteq> 1 then ABORT
      else if \<not> isKind K_AND (cs ! 0) then NULL_NODE
      else case getUInt32 (args ! 0) of
             None \<Rightarrow> NULL_NODE
           | Some i \<Rightarrow> if i \<ge> length (children (cs ! 0)) then NULL_NODE else NODE (child (cs ! 0) i))"

definition check_AND_INTRO :: "node list \<Rightarrow> node list \<Rightarrow> check_result" where
  "check_AND_INTRO cs args =
     (if cs = [] then ABORT
      else NODE (if length cs = 1 then cs ! 0 else mkNode K_AND cs))"

definition check_NOT_OR_ELIM :: "node list \<Rightarrow> node list \<Rightarrow> check_result" where
  "check_NOT_OR_ELIM cs args =
     (if length cs \<noteq> 1 \<or> length args \<noteq> 1 then ABORT
      else if \<not> isKind K_NOT (cs ! 0) \<or> \<not> isKind K_OR (child (cs ! 0) 0) then NULL_NODE
      else case getUInt32 (args ! 0) of
             None \<Rightarrow> NULL_NODE
           | Some i \<Rightarrow> if i \<ge> length (children (child (cs ! 0) 0)) then NULL_NODE
                       else NODE (notNode (child (child (cs ! 0) 0) i)))"

definition check_IMPLIES_ELIM :: "node list \<Rightarrow> node list \<Rightarrow> check_result" where
  "check_IMPLIES_ELIM cs args =
     (if length cs \<noteq> 1 \<or> args \<noteq> [] then ABORT
      else if \<not> isKind K_IMPLIES (cs ! 0) then NULL_NODE
      else NODE (mkNode K_OR [notNode (child (cs ! 0) 0), child (cs ! 0) 1]))"

definition check_NOT_IMPLIES_ELIM1 :: "node list \<Rightarrow> node list \<Rightarrow> check_result" where
  "check_NOT_IMPLIES_ELIM1 cs args =
     (if length cs \<noteq> 1 \<or> args \<noteq> [] then ABORT
      else if \<not> isKind K_NOT (cs ! 0) \<or> \<not> isKind K_IMPLIES (child (cs ! 0) 0) then NULL_NODE
      else NODE (child (child (cs ! 0) 0) 0))"

definition check_NOT_IMPLIES_ELIM2 :: "node list \<Rightarrow> node list \<Rightarrow> check_result" where
  "check_NOT_IMPLIES_ELIM2 cs args =
     (if length cs \<noteq> 1 \<or> args \<noteq> [] then ABORT
      else if \<not> isKind K_NOT (cs ! 0) \<or> \<not> isKind K_IMPLIES (child (cs ! 0) 0) then NULL_NODE
      else NODE (notNode (child (child (cs ! 0) 0) 1)))"

definition check_EQUIV_ELIM1 :: "node list \<Rightarrow> node list \<Rightarrow> check_result" where
  "check_EQUIV_ELIM1 cs args =
     (if length cs \<noteq> 1 \<or> args \<noteq> [] then ABORT
      else if \<not> isKind K_EQUAL (cs ! 0) then NULL_NODE
      else NODE (mkNode K_OR [notNode (child (cs ! 0) 0), child (cs ! 0) 1]))"

definition check_EQUIV_ELIM2 :: "node list \<Rightarrow> node list \<Rightarrow> check_result" where
  "check_EQUIV_ELIM2 cs args =
     (if length cs \<noteq> 1 \<or> args \<noteq> [] then ABORT
      else if \<not> isKind K_EQUAL (cs ! 0) then NULL_NODE
      else NODE (mkNode K_OR [child (cs ! 0) 0, notNode (child (cs ! 0) 1)]))"

definition check_NOT_EQUIV_ELIM1 :: "node list \<Rightarrow> node list \<Rightarrow> check_result" where
  "check_NOT_EQUIV_ELIM1 cs args =
     (if length cs \<noteq> 1 \<or> args \<noteq> [] then ABORT
      else if \<not> isKind K_NOT (cs ! 0) \<or> \<not> isKind K_EQUAL (child (cs ! 0) 0) then NULL_NODE
      else NODE (mkNode K_OR [child (child (cs ! 0) 0) 0, child (child (cs ! 0) 0) 1]))"

definition check_NOT_EQUIV_ELIM2 :: "node list \<Rightarrow> node list \<Rightarrow> check_result" where
  "check_NOT_EQUIV_ELIM2 cs args =
     (if length cs \<noteq> 1 \<or> args \<noteq> [] then ABORT
      else if \<not> isKind K_NOT (cs ! 0) \<or> \<not> isKind K_EQUAL (child (cs ! 0) 0) then NULL_NODE
      else NODE (mkNode K_OR [notNode (child (child (cs ! 0) 0) 0), notNode (child (child (cs ! 0) 0) 1)]))"

definition check_XOR_ELIM1 :: "node list \<Rightarrow> node list \<Rightarrow> check_result" where
  "check_XOR_ELIM1 cs args =
     (if length cs \<noteq> 1 \<or> args \<noteq> [] then ABORT
      else if \<not> isKind K_XOR (cs ! 0) then NULL_NODE
      else NODE (mkNode K_OR [child (cs ! 0) 0, child (cs ! 0) 1]))"

definition check_XOR_ELIM2 :: "node list \<Rightarrow> node list \<Rightarrow> check_result" where
  "check_XOR_ELIM2 cs args =
     (if length cs \<noteq> 1 \<or> args \<noteq> [] then ABORT
      else if \<not> isKind K_XOR (cs ! 0) then NULL_NODE
      else NODE (mkNode K_OR [notNode (child (cs ! 0) 0), notNode (child (cs ! 0) 1)]))"

definition check_NOT_XOR_ELIM1 :: "node list \<Rightarrow> node list \<Rightarrow> check_result" where
  "check_NOT_XOR_ELIM1 cs args =
     (if length cs \<noteq> 1 \<or> args \<noteq> [] then ABORT
      else if \<not> isKind K_NOT (cs ! 0) \<or> \<not> isKind K_XOR (child (cs ! 0) 0) then NULL_NODE
      else NODE (mkNode K_OR [child (child (cs ! 0) 0) 0, notNode (child (child (cs ! 0) 0) 1)]))"

definition check_NOT_XOR_ELIM2 :: "node list \<Rightarrow> node list \<Rightarrow> check_result" where
  "check_NOT_XOR_ELIM2 cs args =
     (if length cs \<noteq> 1 \<or> args \<noteq> [] then ABORT
      else if \<not> isKind K_NOT (cs ! 0) \<or> \<not> isKind K_XOR (child (cs ! 0) 0) then NULL_NODE
      else NODE (mkNode K_OR [notNode (child (child (cs ! 0) 0) 0), child (child (cs ! 0) 0) 1]))"

definition check_ITE_ELIM1 :: "node list \<Rightarrow> node list \<Rightarrow> check_result" where
  "check_ITE_ELIM1 cs args =
     (if length cs \<noteq> 1 \<or> args \<noteq> [] then ABORT
      else if \<not> isKind K_ITE (cs ! 0) then NULL_NODE
      else NODE (mkNode K_OR [notNode (child (cs ! 0) 0), child (cs ! 0) 1]))"

definition check_ITE_ELIM2 :: "node list \<Rightarrow> node list \<Rightarrow> check_result" where
  "check_ITE_ELIM2 cs args =
     (if length cs \<noteq> 1 \<or> args \<noteq> [] then ABORT
      else if \<not> isKind K_ITE (cs ! 0) then NULL_NODE
      else NODE (mkNode K_OR [child (cs ! 0) 0, child (cs ! 0) 2]))"

definition check_NOT_ITE_ELIM1 :: "node list \<Rightarrow> node list \<Rightarrow> check_result" where
  "check_NOT_ITE_ELIM1 cs args =
     (if length cs \<noteq> 1 \<or> args \<noteq> [] then ABORT
      else if \<not> isKind K_NOT (cs ! 0) \<or> \<not> isKind K_ITE (child (cs ! 0) 0) then NULL_NODE
      else NODE (mkNode K_OR [notNode (child (child (cs ! 0) 0) 0), notNode (child (child (cs ! 0) 0) 1)]))"

definition check_NOT_ITE_ELIM2 :: "node list \<Rightarrow> node list \<Rightarrow> check_result" where
  "check_NOT_ITE_ELIM2 cs args =
     (if length cs \<noteq> 1 \<or> args \<noteq> [] then ABORT
      else if \<not> isKind K_NOT (cs ! 0) \<or> \<not> isKind K_ITE (child (cs ! 0) 0) then NULL_NODE
      else NODE (mkNode K_OR [child (child (cs ! 0) 0) 0, notNode (child (child (cs ! 0) 0) 2)]))"

definition check_NOT_AND :: "node list \<Rightarrow> node list \<Rightarrow> check_result" where
  "check_NOT_AND cs args =
     (if length cs \<noteq> 1 \<or> args \<noteq> [] then ABORT
      else if \<not> isKind K_NOT (cs ! 0) \<or> \<not> isKind K_AND (child (cs ! 0) 0) then NULL_NODE
      else NODE (mkNode K_OR (map notNode (children (child (cs ! 0) 0)))))"

section \<open>Clauses of the Tseitin transformation\<close>

definition check_CNF_AND_POS :: "node list \<Rightarrow> node list \<Rightarrow> check_result" where
  "check_CNF_AND_POS cs args =
     (if cs \<noteq> [] \<or> length args \<noteq> 2 then ABORT
      else if \<not> isKind K_AND (args ! 0) then NULL_NODE
      else case getUInt32 (args ! 1) of
             None \<Rightarrow> NULL_NODE
           | Some i \<Rightarrow> if i \<ge> length (children (args ! 0)) then NULL_NODE
                       else NODE (mkNode K_OR [notNode (args ! 0), child (args ! 0) i]))"

definition check_CNF_AND_NEG :: "node list \<Rightarrow> node list \<Rightarrow> check_result" where
  "check_CNF_AND_NEG cs args =
     (if cs \<noteq> [] \<or> length args \<noteq> 1 then ABORT
      else if \<not> isKind K_AND (args ! 0) then NULL_NODE
      else NODE (mkNode K_OR (args ! 0 # map notNode (children (args ! 0)))))"

definition check_CNF_OR_POS :: "node list \<Rightarrow> node list \<Rightarrow> check_result" where
  "check_CNF_OR_POS cs args =
     (if cs \<noteq> [] \<or> length args \<noteq> 1 then ABORT
      else if \<not> isKind K_OR (args ! 0) then NULL_NODE
      else NODE (mkNode K_OR (notNode (args ! 0) # children (args ! 0))))"

definition check_CNF_OR_NEG :: "node list \<Rightarrow> node list \<Rightarrow> check_result" where
  "check_CNF_OR_NEG cs args =
     (if cs \<noteq> [] \<or> length args \<noteq> 2 then ABORT
      else if \<not> isKind K_OR (args ! 0) then NULL_NODE
      else case getUInt32 (args ! 1) of
             None \<Rightarrow> NULL_NODE
           | Some i \<Rightarrow> if i \<ge> length (children (args ! 0)) then NULL_NODE
                       else NODE (mkNode K_OR [args ! 0, notNode (child (args ! 0) i)]))"

definition check_CNF_IMPLIES_POS :: "node list \<Rightarrow> node list \<Rightarrow> check_result" where
  "check_CNF_IMPLIES_POS cs args =
     (if cs \<noteq> [] \<or> length args \<noteq> 1 then ABORT
      else if \<not> isKind K_IMPLIES (args ! 0) then NULL_NODE
      else NODE (mkNode K_OR ([notNode (args ! 0), notNode (child (args ! 0) 0), child (args ! 0) 1])))"

definition check_CNF_IMPLIES_NEG1 :: "node list \<Rightarrow> node list \<Rightarrow> check_result" where
  "check_CNF_IMPLIES_NEG1 cs args =
     (if cs \<noteq> [] \<or> length args \<noteq> 1 then ABORT
      else if \<not> isKind K_IMPLIES (args ! 0) then NULL_NODE
      else NODE (mkNode K_OR ([args ! 0, child (args ! 0) 0])))"

definition check_CNF_IMPLIES_NEG2 :: "node list \<Rightarrow> node list \<Rightarrow> check_result" where
  "check_CNF_IMPLIES_NEG2 cs args =
     (if cs \<noteq> [] \<or> length args \<noteq> 1 then ABORT
      else if \<not> isKind K_IMPLIES (args ! 0) then NULL_NODE
      else NODE (mkNode K_OR ([args ! 0, notNode (child (args ! 0) 1)])))"

definition check_CNF_EQUIV_POS1 :: "node list \<Rightarrow> node list \<Rightarrow> check_result" where
  "check_CNF_EQUIV_POS1 cs args =
     (if cs \<noteq> [] \<or> length args \<noteq> 1 then ABORT
      else if \<not> isKind K_EQUAL (args ! 0) then NULL_NODE
      else NODE (mkNode K_OR ([notNode (args ! 0), notNode (child (args ! 0) 0), child (args ! 0) 1])))"

definition check_CNF_EQUIV_POS2 :: "node list \<Rightarrow> node list \<Rightarrow> check_result" where
  "check_CNF_EQUIV_POS2 cs args =
     (if cs \<noteq> [] \<or> length args \<noteq> 1 then ABORT
      else if \<not> isKind K_EQUAL (args ! 0) then NULL_NODE
      else NODE (mkNode K_OR ([notNode (args ! 0), child (args ! 0) 0, notNode (child (args ! 0) 1)])))"

definition check_CNF_EQUIV_NEG1 :: "node list \<Rightarrow> node list \<Rightarrow> check_result" where
  "check_CNF_EQUIV_NEG1 cs args =
     (if cs \<noteq> [] \<or> length args \<noteq> 1 then ABORT
      else if \<not> isKind K_EQUAL (args ! 0) then NULL_NODE
      else NODE (mkNode K_OR ([args ! 0, child (args ! 0) 0, child (args ! 0) 1])))"

definition check_CNF_EQUIV_NEG2 :: "node list \<Rightarrow> node list \<Rightarrow> check_result" where
  "check_CNF_EQUIV_NEG2 cs args =
     (if cs \<noteq> [] \<or> length args \<noteq> 1 then ABORT
      else if \<not> isKind K_EQUAL (args ! 0) then NULL_NODE
      else NODE (mkNode K_OR ([args ! 0, notNode (child (args ! 0) 0), notNode (child (args ! 0) 1)])))"

definition check_CNF_XOR_POS1 :: "node list \<Rightarrow> node list \<Rightarrow> check_result" where
  "check_CNF_XOR_POS1 cs args =
     (if cs \<noteq> [] \<or> length args \<noteq> 1 then ABORT
      else if \<not> isKind K_XOR (args ! 0) then NULL_NODE
      else NODE (mkNode K_OR ([notNode (args ! 0), child (args ! 0) 0, child (args ! 0) 1])))"

definition check_CNF_XOR_POS2 :: "node list \<Rightarrow> node list \<Rightarrow> check_result" where
  "check_CNF_XOR_POS2 cs args =
     (if cs \<noteq> [] \<or> length args \<noteq> 1 then ABORT
      else if \<not> isKind K_XOR (args ! 0) then NULL_NODE
      else NODE (mkNode K_OR ([notNode (args ! 0), notNode (child (args ! 0) 0), notNode (child (args ! 0) 1)])))"

definition check_CNF_XOR_NEG1 :: "node list \<Rightarrow> node list \<Rightarrow> check_result" where
  "check_CNF_XOR_NEG1 cs args =
     (if cs \<noteq> [] \<or> length args \<noteq> 1 then ABORT
      else if \<not> isKind K_XOR (args ! 0) then NULL_NODE
      else NODE (mkNode K_OR ([args ! 0, notNode (child (args ! 0) 0), child (args ! 0) 1])))"

definition check_CNF_XOR_NEG2 :: "node list \<Rightarrow> node list \<Rightarrow> check_result" where
  "check_CNF_XOR_NEG2 cs args =
     (if cs \<noteq> [] \<or> length args \<noteq> 1 then ABORT
      else if \<not> isKind K_XOR (args ! 0) then NULL_NODE
      else NODE (mkNode K_OR ([args ! 0, child (args ! 0) 0, notNode (child (args ! 0) 1)])))"

definition check_CNF_ITE_POS1 :: "node list \<Rightarrow> node list \<Rightarrow> check_result" where
  "check_CNF_ITE_POS1 cs args =
     (if cs \<noteq> [] \<or> length args \<noteq> 1 then ABORT
      else if \<not> isKind K_ITE (args ! 0) then NULL_NODE
      else NODE (mkNode K_OR ([notNode (args ! 0), notNode (child (args ! 0) 0), child (args ! 0) 1])))"

definition check_CNF_ITE_POS2 :: "node list \<Rightarrow> node list \<Rightarrow> check_result" where
  "check_CNF_ITE_POS2 cs args =
     (if cs \<noteq> [] \<or> length args \<noteq> 1 then ABORT
      else if \<not> isKind K_ITE (args ! 0) then NULL_NODE
      else NODE (mkNode K_OR ([notNode (args ! 0), child (args ! 0) 0, child (args ! 0) 2])))"

definition check_CNF_ITE_POS3 :: "node list \<Rightarrow> node list \<Rightarrow> check_result" where
  "check_CNF_ITE_POS3 cs args =
     (if cs \<noteq> [] \<or> length args \<noteq> 1 then ABORT
      else if \<not> isKind K_ITE (args ! 0) then NULL_NODE
      else NODE (mkNode K_OR ([notNode (args ! 0), child (args ! 0) 1, child (args ! 0) 2])))"

definition check_CNF_ITE_NEG1 :: "node list \<Rightarrow> node list \<Rightarrow> check_result" where
  "check_CNF_ITE_NEG1 cs args =
     (if cs \<noteq> [] \<or> length args \<noteq> 1 then ABORT
      else if \<not> isKind K_ITE (args ! 0) then NULL_NODE
      else NODE (mkNode K_OR ([args ! 0, notNode (child (args ! 0) 0), notNode (child (args ! 0) 1)])))"

definition check_CNF_ITE_NEG2 :: "node list \<Rightarrow> node list \<Rightarrow> check_result" where
  "check_CNF_ITE_NEG2 cs args =
     (if cs \<noteq> [] \<or> length args \<noteq> 1 then ABORT
      else if \<not> isKind K_ITE (args ! 0) then NULL_NODE
      else NODE (mkNode K_OR ([args ! 0, child (args ! 0) 0, notNode (child (args ! 0) 2)])))"

definition check_CNF_ITE_NEG3 :: "node list \<Rightarrow> node list \<Rightarrow> check_result" where
  "check_CNF_ITE_NEG3 cs args =
     (if cs \<noteq> [] \<or> length args \<noteq> 1 then ABORT
      else if \<not> isKind K_ITE (args ! 0) then NULL_NODE
      else NODE (mkNode K_OR ([args ! 0, notNode (child (args ! 0) 1), notNode (child (args ! 0) 2)])))"

section \<open>The rules\<close>

text \<open>
  The rules that the checker registers, and \<^verbatim>\<open>ASSUME\<close>; the last three are trusted.
\<close>

datatype ProofRule = ASSUME | RESOLUTION | FACTORING | REORDERING | CHAIN_RESOLUTION | CHAIN_M_RESOLUTION
  | SPLIT | CONTRA | EQ_RESOLVE | MODUS_PONENS | NOT_NOT_ELIM
  | AND_ELIM | AND_INTRO | NOT_OR_ELIM | IMPLIES_ELIM | NOT_IMPLIES_ELIM1
  | NOT_IMPLIES_ELIM2 | EQUIV_ELIM1 | EQUIV_ELIM2 | NOT_EQUIV_ELIM1 | NOT_EQUIV_ELIM2
  | XOR_ELIM1 | XOR_ELIM2 | NOT_XOR_ELIM1 | NOT_XOR_ELIM2 | ITE_ELIM1
  | ITE_ELIM2 | NOT_ITE_ELIM1 | NOT_ITE_ELIM2 | NOT_AND | CNF_AND_POS
  | CNF_AND_NEG | CNF_OR_POS | CNF_OR_NEG | CNF_IMPLIES_POS | CNF_IMPLIES_NEG1
  | CNF_IMPLIES_NEG2 | CNF_EQUIV_POS1 | CNF_EQUIV_POS2 | CNF_EQUIV_NEG1 | CNF_EQUIV_NEG2
  | CNF_XOR_POS1 | CNF_XOR_POS2 | CNF_XOR_NEG1 | CNF_XOR_NEG2 | CNF_ITE_POS1
  | CNF_ITE_POS2 | CNF_ITE_POS3 | CNF_ITE_NEG1 | CNF_ITE_NEG2 | CNF_ITE_NEG3
  | SAT_REFUTATION | DRAT_REFUTATION | SAT_EXTERNAL_PROVE

definition checkInternal :: "ProofRule \<Rightarrow> node list \<Rightarrow> node list \<Rightarrow> check_result" where
  "checkInternal pr cs args = (case pr of
     ASSUME \<Rightarrow> NULL_NODE
   | RESOLUTION \<Rightarrow> check_RESOLUTION cs args
   | FACTORING \<Rightarrow> check_FACTORING cs args
   | REORDERING \<Rightarrow> check_REORDERING cs args
   | CHAIN_RESOLUTION \<Rightarrow> check_CHAIN_RESOLUTION cs args
   | CHAIN_M_RESOLUTION \<Rightarrow> check_CHAIN_M_RESOLUTION cs args
   | SPLIT \<Rightarrow> check_SPLIT cs args
   | CONTRA \<Rightarrow> check_CONTRA cs args
   | EQ_RESOLVE \<Rightarrow> check_EQ_RESOLVE cs args
   | MODUS_PONENS \<Rightarrow> check_MODUS_PONENS cs args
   | NOT_NOT_ELIM \<Rightarrow> check_NOT_NOT_ELIM cs args
   | AND_ELIM \<Rightarrow> check_AND_ELIM cs args
   | AND_INTRO \<Rightarrow> check_AND_INTRO cs args
   | NOT_OR_ELIM \<Rightarrow> check_NOT_OR_ELIM cs args
   | IMPLIES_ELIM \<Rightarrow> check_IMPLIES_ELIM cs args
   | NOT_IMPLIES_ELIM1 \<Rightarrow> check_NOT_IMPLIES_ELIM1 cs args
   | NOT_IMPLIES_ELIM2 \<Rightarrow> check_NOT_IMPLIES_ELIM2 cs args
   | EQUIV_ELIM1 \<Rightarrow> check_EQUIV_ELIM1 cs args
   | EQUIV_ELIM2 \<Rightarrow> check_EQUIV_ELIM2 cs args
   | NOT_EQUIV_ELIM1 \<Rightarrow> check_NOT_EQUIV_ELIM1 cs args
   | NOT_EQUIV_ELIM2 \<Rightarrow> check_NOT_EQUIV_ELIM2 cs args
   | XOR_ELIM1 \<Rightarrow> check_XOR_ELIM1 cs args
   | XOR_ELIM2 \<Rightarrow> check_XOR_ELIM2 cs args
   | NOT_XOR_ELIM1 \<Rightarrow> check_NOT_XOR_ELIM1 cs args
   | NOT_XOR_ELIM2 \<Rightarrow> check_NOT_XOR_ELIM2 cs args
   | ITE_ELIM1 \<Rightarrow> check_ITE_ELIM1 cs args
   | ITE_ELIM2 \<Rightarrow> check_ITE_ELIM2 cs args
   | NOT_ITE_ELIM1 \<Rightarrow> check_NOT_ITE_ELIM1 cs args
   | NOT_ITE_ELIM2 \<Rightarrow> check_NOT_ITE_ELIM2 cs args
   | NOT_AND \<Rightarrow> check_NOT_AND cs args
   | CNF_AND_POS \<Rightarrow> check_CNF_AND_POS cs args
   | CNF_AND_NEG \<Rightarrow> check_CNF_AND_NEG cs args
   | CNF_OR_POS \<Rightarrow> check_CNF_OR_POS cs args
   | CNF_OR_NEG \<Rightarrow> check_CNF_OR_NEG cs args
   | CNF_IMPLIES_POS \<Rightarrow> check_CNF_IMPLIES_POS cs args
   | CNF_IMPLIES_NEG1 \<Rightarrow> check_CNF_IMPLIES_NEG1 cs args
   | CNF_IMPLIES_NEG2 \<Rightarrow> check_CNF_IMPLIES_NEG2 cs args
   | CNF_EQUIV_POS1 \<Rightarrow> check_CNF_EQUIV_POS1 cs args
   | CNF_EQUIV_POS2 \<Rightarrow> check_CNF_EQUIV_POS2 cs args
   | CNF_EQUIV_NEG1 \<Rightarrow> check_CNF_EQUIV_NEG1 cs args
   | CNF_EQUIV_NEG2 \<Rightarrow> check_CNF_EQUIV_NEG2 cs args
   | CNF_XOR_POS1 \<Rightarrow> check_CNF_XOR_POS1 cs args
   | CNF_XOR_POS2 \<Rightarrow> check_CNF_XOR_POS2 cs args
   | CNF_XOR_NEG1 \<Rightarrow> check_CNF_XOR_NEG1 cs args
   | CNF_XOR_NEG2 \<Rightarrow> check_CNF_XOR_NEG2 cs args
   | CNF_ITE_POS1 \<Rightarrow> check_CNF_ITE_POS1 cs args
   | CNF_ITE_POS2 \<Rightarrow> check_CNF_ITE_POS2 cs args
   | CNF_ITE_POS3 \<Rightarrow> check_CNF_ITE_POS3 cs args
   | CNF_ITE_NEG1 \<Rightarrow> check_CNF_ITE_NEG1 cs args
   | CNF_ITE_NEG2 \<Rightarrow> check_CNF_ITE_NEG2 cs args
   | CNF_ITE_NEG3 \<Rightarrow> check_CNF_ITE_NEG3 cs args
   | SAT_REFUTATION \<Rightarrow> if args \<noteq> [] then ABORT else NODE (CONST_BOOLEAN False)
   | DRAT_REFUTATION \<Rightarrow> if length args \<noteq> 2 then ABORT else NODE (CONST_BOOLEAN False)
   | SAT_EXTERNAL_PROVE \<Rightarrow> if length args \<noteq> 1 then ABORT else NODE (CONST_BOOLEAN False))"

section \<open>The driver\<close>

datatype ProofCheckMode = EAGER | EAGER_SIMPLE | LAZY | NO_CHECK

text \<open>
  \<^verbatim>\<open>ProofChecker\<close>: the registered checkers, where \<open>Some None\<close> is the null pointer of a rule that
  is trusted without a checker, and the pedantic levels.
\<close>

type_synonym rule_checker = "ProofRule \<Rightarrow> node list \<Rightarrow> node list \<Rightarrow> check_result"

record proof_checker =
  d_checker :: "ProofRule \<Rightarrow> rule_checker option option"
  d_plevel :: "ProofRule \<Rightarrow> nat option"
  d_pcMode :: ProofCheckMode
  d_pclevel :: nat

definition ProofChecker :: "ProofCheckMode \<Rightarrow> nat \<Rightarrow> proof_checker" where
  "ProofChecker pcMode pclevel =
     \<lparr>d_checker = (\<lambda>pr. None), d_plevel = (\<lambda>pr. None), d_pcMode = pcMode, d_pclevel = pclevel\<rparr>"

definition registerChecker :: "ProofRule \<Rightarrow> rule_checker option \<Rightarrow> proof_checker \<Rightarrow> proof_checker" where
  "registerChecker pr psc pc =
     (if d_checker pc pr \<noteq> None then pc else pc\<lparr>d_checker := (d_checker pc)(pr \<mapsto> psc)\<rparr>)"

definition registerTrustedChecker ::
  "ProofRule \<Rightarrow> rule_checker option \<Rightarrow> nat \<Rightarrow> proof_checker \<Rightarrow> proof_checker option" where
  "registerTrustedChecker pr psc plevel pc =
     (if plevel > 10 then None
      else let pc = registerChecker pr psc pc in Some (pc\<lparr>d_plevel := (d_plevel pc)(pr \<mapsto> plevel)\<rparr>))"

definition bool_rules :: "ProofRule list" where
  "bool_rules =
     [RESOLUTION, FACTORING, REORDERING, CHAIN_RESOLUTION, CHAIN_M_RESOLUTION,
      SPLIT, CONTRA, EQ_RESOLVE, MODUS_PONENS, NOT_NOT_ELIM,
      AND_ELIM, AND_INTRO, NOT_OR_ELIM, IMPLIES_ELIM, NOT_IMPLIES_ELIM1,
      NOT_IMPLIES_ELIM2, EQUIV_ELIM1, EQUIV_ELIM2, NOT_EQUIV_ELIM1, NOT_EQUIV_ELIM2,
      XOR_ELIM1, XOR_ELIM2, NOT_XOR_ELIM1, NOT_XOR_ELIM2, ITE_ELIM1,
      ITE_ELIM2, NOT_ITE_ELIM1, NOT_ITE_ELIM2, NOT_AND, CNF_AND_POS,
      CNF_AND_NEG, CNF_OR_POS, CNF_OR_NEG, CNF_IMPLIES_POS, CNF_IMPLIES_NEG1,
      CNF_IMPLIES_NEG2, CNF_EQUIV_POS1, CNF_EQUIV_POS2, CNF_EQUIV_NEG1, CNF_EQUIV_NEG2,
      CNF_XOR_POS1, CNF_XOR_POS2, CNF_XOR_NEG1, CNF_XOR_NEG2, CNF_ITE_POS1,
      CNF_ITE_POS2, CNF_ITE_POS3, CNF_ITE_NEG1, CNF_ITE_NEG2, CNF_ITE_NEG3]"

text \<open>\<^verbatim>\<open>BoolProofRuleChecker::registerTo\<close>.\<close>

definition registerTo :: "proof_checker \<Rightarrow> proof_checker option" where
  "registerTo pc =
     (let pc = fold (\<lambda>pr. registerChecker pr (Some checkInternal)) bool_rules pc
      in Option.bind (registerTrustedChecker SAT_REFUTATION (Some checkInternal) 1 pc)
           (\<lambda>pc. Option.bind (registerTrustedChecker DRAT_REFUTATION (Some checkInternal) 1 pc)
             (registerTrustedChecker SAT_EXTERNAL_PROVE (Some checkInternal) 1)))"

definition getPedanticLevel :: "proof_checker \<Rightarrow> ProofRule \<Rightarrow> nat" where
  "getPedanticLevel pc pr = (case d_plevel pc pr of Some l \<Rightarrow> l | None \<Rightarrow> 0)"

definition isPedanticFailure :: "proof_checker \<Rightarrow> ProofRule \<Rightarrow> bool" where
  "isPedanticFailure pc pr =
     (if d_pclevel pc = 0 then False
      else case d_plevel pc pr of Some l \<Rightarrow> l \<le> d_pclevel pc | None \<Rightarrow> False)"

fun of_expected :: "node option \<Rightarrow> check_result" where
  "of_expected None = NULL_NODE"
| "of_expected (Some n) = NODE n"

definition pc_checkInternal ::
  "proof_checker \<Rightarrow> ProofRule \<Rightarrow> node list \<Rightarrow> node list \<Rightarrow> node option \<Rightarrow> bool \<Rightarrow> check_result" where
  "pc_checkInternal pc pr cchildren args expected useTrustedChecker =
     (case d_checker pc pr of
        None \<Rightarrow> NULL_NODE
      | Some None \<Rightarrow> if useTrustedChecker then of_expected expected else NULL_NODE
      | Some (Some psc) \<Rightarrow>
          if d_pcMode pc = NO_CHECK \<and> expected \<noteq> None then of_expected expected
          else let res = psc pr cchildren args
               in if res = ABORT then ABORT
                  else if expected \<noteq> None \<and> res \<noteq> of_expected expected then NULL_NODE
                  else if d_pcMode pc = EAGER \<and> isPedanticFailure pc pr then NULL_NODE
                  else res)"

section \<open>Proof nodes\<close>

datatype proof_node = ProofNode (pn_rule: ProofRule) (pn_children: "proof_node list") (pn_args: "node list") (d_proven: node)

text \<open>
  \<^verbatim>\<open>ProofChecker::check\<close> on the conclusions of the children, a failure being \<^verbatim>\<open>Unreachable\<close>, and
  \<^verbatim>\<open>ProofNodeManager::checkInternal\<close> and \<^verbatim>\<open>mkNode\<close>.
\<close>

definition pc_check :: "proof_checker \<Rightarrow> ProofRule \<Rightarrow> proof_node list \<Rightarrow> node list \<Rightarrow> node option \<Rightarrow> check_result" where
  "pc_check pc pr pcs args expected =
     (if pr = ASSUME
      then if pcs \<noteq> [] \<or> length args \<noteq> 1 \<or> \<not> isBoolean (args ! 0) \<or> \<not> (expected = None \<or> expected = Some (args ! 0))
           then ABORT else of_expected expected
      else case pc_checkInternal pc pr (map d_proven pcs) args expected True of
             NULL_NODE \<Rightarrow> ABORT
           | res \<Rightarrow> res)"

definition pnm_checkInternal ::
  "proof_checker \<Rightarrow> ProofRule \<Rightarrow> proof_node list \<Rightarrow> node list \<Rightarrow> node option \<Rightarrow> check_result" where
  "pnm_checkInternal pc pr pcs args expected =
     (if expected \<noteq> None \<and> (d_pcMode pc = LAZY \<or> d_pcMode pc = NO_CHECK) then of_expected expected
      else let res = pc_check pc pr pcs args expected in if res = NULL_NODE then ABORT else res)"

definition pnm_mkNode ::
  "proof_checker \<Rightarrow> ProofRule \<Rightarrow> proof_node list \<Rightarrow> node list \<Rightarrow> node option \<Rightarrow> proof_node option" where
  "pnm_mkNode pc pr pcs args expected =
     (case pnm_checkInternal pc pr pcs args expected of
        NODE res \<Rightarrow> Some (ProofNode pr pcs args res)
      | _ \<Rightarrow> None)"

definition mkAssume :: "proof_checker \<Rightarrow> node \<Rightarrow> proof_node option" where
  "mkAssume pc f = (if \<not> isBoolean f then None else pnm_mkNode pc ASSUME [] [f] (Some f))"

end
