(* ===== verification/Bool_Checker_Sound.thy ===== *)
theory Bool_Checker_Sound
  imports Bool_Checker Sentences
begin

text \<open>
  Soundness of the Boolean proof rules: every rule that is not trusted derives, from premises
  that are true in a model, a conclusion that is true in it, and a proof tree that the node
  manager has built proves its conclusion from its assumptions.
\<close>

section \<open>Clauses\<close>

text \<open>The truth of a clause, given as its list of literals.\<close>

definition holds :: "gmp \<Rightarrow> model \<Rightarrow> node list \<Rightarrow> bool" where
  "holds G m ls \<longleftrightarrow> (\<exists>l\<in>set ls. truth G m l)"

lemma holds_append [simp]: "holds G m (xs @ ys) \<longleftrightarrow> holds G m xs \<or> holds G m ys"
  by (auto simp: holds_def)

lemma holds_singleton [simp]: "holds G m [c] \<longleftrightarrow> truth G m c"
  by (simp add: holds_def)

lemma holds_children: "sentence c \<Longrightarrow> isKind K_OR c \<Longrightarrow> holds G m (children c) \<longleftrightarrow> truth G m c"
  by (auto simp: holds_def sentence_simps truth_n_ary elim!: isKindE)

lemma holds_remove:
  assumes "holds G m ls" "\<not> truth G m p" "\<And>l. l \<in> set ls \<Longrightarrow> l \<noteq> p \<Longrightarrow> l \<in> set ls'"
  shows "holds G m ls'"
  using assms by (auto simp: holds_def)

lemma elim_first_None [simp]: "elim_first None ls = ls"
  by (induction ls) auto

lemma set_elim_first: "l \<in> set ls \<Longrightarrow> l \<noteq> p \<Longrightarrow> l \<in> set (elim_first (Some p) ls)"
  by (induction ls) auto

lemma set_drop_repeated: "set (drop_repeated S ls) = set ls - set S"
  by (induction S ls rule: drop_repeated.induct) auto

lemma holds_clause_lits: "sentence c \<Longrightarrow> holds G m (clause_lits p c) \<longleftrightarrow> truth G m c"
  by (simp add: clause_lits_def holds_children)

lemma holds_chain_first: "sentence c \<Longrightarrow> holds G m (chain_first c pol lit) \<longleftrightarrow> truth G m c"
  by (auto simp: chain_first_def holds_children)

lemma chain_pivots_opposite: "chain_pivots pol lit = (p, q) \<Longrightarrow> truth G m q \<longleftrightarrow> \<not> truth G m p"
  by (auto simp: chain_pivots_def split: if_splits)

lemma holds_resolvent:
  assumes "holds G m ls" "holds G m rs" "truth G m q \<longleftrightarrow> \<not> truth G m p"
    "\<And>l. l \<in> set ls \<Longrightarrow> l \<noteq> p \<Longrightarrow> l \<in> set ls'" "\<And>l. l \<in> set rs \<Longrightarrow> l \<noteq> q \<Longrightarrow> l \<in> set rs'"
  shows "holds G m (ls' @ rs')"
  using holds_remove [OF assms(1) _ assms(4)] holds_remove [OF assms(2) _ assms(5)] assms(3) by auto

lemma chain_resolution_sound:
  "chain_resolution lhs links = Some r \<Longrightarrow> holds G m lhs \<Longrightarrow>
   (\<And>pol lit c. (pol, lit, c) \<in> set links \<Longrightarrow> sentence c \<and> truth G m c) \<Longrightarrow> holds G m r"
proof (induction lhs links rule: chain_resolution.induct)
  case (2 lhs pol lit c links)
  obtain p q where pq: "chain_pivots pol lit = (p, q)" by fastforce
  define rhs where "rhs = (if \<not> isKind K_OR c \<or> c = q then [c] else children c)"
  have "sentence c" "truth G m c"
    using "2.prems"(3) by auto
  then have "holds G m rhs"
    by (simp add: rhs_def holds_children)
  then have "holds G m (remove1 p lhs @ remove1 q rhs)"
    by (intro holds_resolvent [OF "2.prems"(2) _ chain_pivots_opposite [OF pq]]) (auto simp: in_set_remove1)
  then show ?case
    using "2.IH" [of "(p, q)" p q rhs] "2.prems" pq
    by (auto simp: rhs_def Let_def split: if_splits)
qed simp

lemma chain_m_resolution_sound:
  "chain_m_resolution lhs links = Some r \<Longrightarrow> holds G m lhs \<Longrightarrow>
   (\<And>pol lit c. (pol, lit, c) \<in> set links \<Longrightarrow> sentence c \<and> truth G m c) \<Longrightarrow> holds G m r"
proof (induction lhs links rule: chain_m_resolution.induct)
  case (2 lhs pol lit c links)
  obtain p q where pq: "chain_pivots pol lit = (p, q)" by fastforce
  define rhs where "rhs = (if \<not> isKind K_OR c \<or> c = q then [c] else children c)"
  have "sentence c" "truth G m c"
    using "2.prems"(3) by auto
  then have "holds G m rhs"
    by (simp add: rhs_def holds_children)
  then have "holds G m (removeAll p lhs @ filter (\<lambda>l. q \<noteq> l) rhs)"
    by (intro holds_resolvent [OF "2.prems"(2) _ chain_pivots_opposite [OF pq]]) auto
  then show ?case
    using "2.IH" [of "(p, q)" p q rhs] "2.prems" pq
    by (auto simp: rhs_def Let_def split: if_splits)
qed simp

lemma in_links: "(pol, lit, c) \<in> set (zip pols (zip lits (tl cs))) \<Longrightarrow> c \<in> set cs"
  by (auto dest!: set_zip_rightD intro: list.set_sel)

section \<open>The rules\<close>

definition rule_sound :: "gmp \<Rightarrow> (node list \<Rightarrow> node list \<Rightarrow> check_result) \<Rightarrow> bool" where
  "rule_sound G check \<longleftrightarrow> (\<forall>cs args c m. check cs args = NODE c \<longrightarrow>
     (\<forall>p\<in>set cs. sentence p \<and> truth G m p) \<longrightarrow> sentence c \<longrightarrow> truth G m c)"

lemma rule_soundI:
  "(\<And>cs args c m. check cs args = NODE c \<Longrightarrow> \<forall>p\<in>set cs. sentence p \<and> truth G m p \<Longrightarrow> sentence c \<Longrightarrow> truth G m c)
    \<Longrightarrow> rule_sound G check"
  by (auto simp: rule_sound_def)

lemmas arity = numeral_2_eq_2 numeral_3_eq_3 length_Suc_conv

definition trusted_rule :: "ProofRule \<Rightarrow> bool" where
  "trusted_rule pr \<longleftrightarrow> pr \<in> {SAT_REFUTATION, DRAT_REFUTATION, SAT_EXTERNAL_PROVE}"

lemma RESOLUTION_sound: "rule_sound G check_RESOLUTION"
proof (rule rule_soundI)
  fix cs args c m
  assume check: "check_RESOLUTION cs args = NODE c" and prems: "\<forall>p\<in>set cs. sentence p \<and> truth G m p"
  then obtain c0 c1 pol lit where cs: "cs = [c0, c1]" "args = [pol, lit]"
    by (auto simp: check_RESOLUTION_def arity split: if_splits)
  define p where "p = (if pol = CONST_BOOLEAN True then lit else notNode lit)"
  define q where "q = (if pol = CONST_BOOLEAN True then notNode lit else lit)"
  define ds where "ds = elim_first (Some p) (clause_lits p c0) @ elim_first (Some q) (clause_lits q c1)"
  have "holds G m ds"
    unfolding ds_def using prems
    by (intro holds_resolvent [of G m "clause_lits p c0" "clause_lits q c1" q p])
      (auto simp: cs holds_clause_lits p_def q_def set_elim_first)
  moreover have "c = nm_mkOr ds"
    using check by (auto simp: check_RESOLUTION_def cs Let_def ds_def p_def q_def nm_mkOr_def hd_conv_nth split: if_splits)
  ultimately show "truth G m c"
    by (simp add: truth_mkOr holds_def)
qed

lemma FACTORING_sound: "rule_sound G check_FACTORING"
  by (auto simp: rule_sound_def check_FACTORING_def arity Let_def truth_mkOr set_drop_repeated sentence_simps
      truth_n_ary elim!: isKindE split: if_splits)

lemma holds_as_clause:
  "sentence c \<Longrightarrow> holds G m (if isKind K_OR c then children c else [c]) \<longleftrightarrow> truth G m c"
  by (simp add: holds_children)

lemma holds_set_cong: "set xs = set ys \<Longrightarrow> holds G m xs \<longleftrightarrow> holds G m ys"
  by (simp add: holds_def)

lemma REORDERING_sound: "rule_sound G check_REORDERING"
proof (rule rule_soundI)
  fix cs args c m
  assume check: "check_REORDERING cs args = NODE c" and prems: "\<forall>p\<in>set cs. sentence p \<and> truth G m p"
    and c: "sentence c"
  then obtain p where cs: "cs = [p]" "args = [c]"
    by (auto simp: check_REORDERING_def arity Let_def split: if_splits)
  have "holds G m (if isKind K_OR c then children c else [c]) \<longleftrightarrow> holds G m (if isKind K_OR p then children p else [p])"
    using check by (intro holds_set_cong) (auto simp: check_REORDERING_def cs Let_def split: if_splits)
  with prems c show "truth G m c"
    by (simp add: holds_as_clause cs del: if_split)
qed

lemma CHAIN_RESOLUTION_sound: "rule_sound G check_CHAIN_RESOLUTION"
proof (rule rule_soundI)
  fix cs args c m
  assume check: "check_CHAIN_RESOLUTION cs args = NODE c" and prems: "\<forall>p\<in>set cs. sentence p \<and> truth G m p"
  define pols where "pols = children (args ! 0)"
  define lits where "lits = children (args ! 1)"
  obtain r where r: "chain_resolution (chain_first (cs ! 0) (pols ! 0) (lits ! 0)) (zip pols (zip lits (tl cs))) = Some r"
      "c = nm_mkOr r" "1 < length cs"
    using check by (auto simp: check_CHAIN_RESOLUTION_def Let_def pols_def lits_def split: if_splits option.splits)
  from \<open>1 < length cs\<close> have "cs ! 0 \<in> set cs"
    by (cases cs) auto
  with prems have "holds G m r"
    by (intro chain_resolution_sound [OF r(1)]) (auto simp: holds_chain_first dest: in_links)
  then show "truth G m c"
    by (simp add: r(2) truth_mkOr holds_def)
qed

lemma CHAIN_M_RESOLUTION_sound: "rule_sound G check_CHAIN_M_RESOLUTION"
proof (rule rule_soundI)
  fix cs args c m
  assume check: "check_CHAIN_M_RESOLUTION cs args = NODE c" and prems: "\<forall>p\<in>set cs. sentence p \<and> truth G m p"
    and c: "sentence c"
  define pols where "pols = children (args ! 1)"
  define lits where "lits = children (args ! 2)"
  obtain r where r: "chain_m_resolution (chain_first (cs ! 0) (pols ! 0) (lits ! 0)) (zip pols (zip lits (tl cs))) = Some r"
      "1 < length cs" "remdups r = [] \<or> remdups r = [c] \<or> isKind K_OR c \<and> set (remdups r) = set (children c)"
    using check by (auto simp: check_CHAIN_M_RESOLUTION_def Let_def pols_def lits_def length_Suc_conv
        split: if_splits option.splits)
  from \<open>1 < length cs\<close> have "cs ! 0 \<in> set cs"
    by (cases cs) auto
  with prems have "holds G m r"
    by (intro chain_m_resolution_sound [OF r(1)]) (auto simp: holds_chain_first dest: in_links)
  then have "holds G m (remdups r)"
    by (simp add: holds_def)
  with r(3) c show "truth G m c"
    using holds_set_cong [of "remdups r" "children c" G m] by (auto simp: holds_children) (simp_all add: holds_def)
qed

text \<open>Rules whose premise or argument is a connective of fixed arity.\<close>

lemma natural_deduction_sound:
  "rule_sound G check_SPLIT"
  "rule_sound G check_CONTRA"
  "rule_sound G check_MODUS_PONENS"
  "rule_sound G check_NOT_NOT_ELIM"
  "rule_sound G check_IMPLIES_ELIM"
  "rule_sound G check_NOT_IMPLIES_ELIM1"
  "rule_sound G check_NOT_IMPLIES_ELIM2"
  "rule_sound G check_XOR_ELIM1"
  "rule_sound G check_XOR_ELIM2"
  "rule_sound G check_NOT_XOR_ELIM1"
  "rule_sound G check_NOT_XOR_ELIM2"
  "rule_sound G check_ITE_ELIM1"
  "rule_sound G check_ITE_ELIM2"
  "rule_sound G check_NOT_ITE_ELIM1"
  "rule_sound G check_NOT_ITE_ELIM2"
  by (auto simp: rule_sound_def child_def arity sentence_simps check_SPLIT_def check_CONTRA_def check_MODUS_PONENS_def check_NOT_NOT_ELIM_def check_IMPLIES_ELIM_def check_NOT_IMPLIES_ELIM1_def check_NOT_IMPLIES_ELIM2_def check_XOR_ELIM1_def check_XOR_ELIM2_def check_NOT_XOR_ELIM1_def check_NOT_XOR_ELIM2_def check_ITE_ELIM1_def check_ITE_ELIM2_def check_NOT_ITE_ELIM1_def check_NOT_ITE_ELIM2_def
      elim!: isKindE split: if_splits)

lemma tseitin_clauses_sound:
  "rule_sound G check_CNF_IMPLIES_POS"
  "rule_sound G check_CNF_IMPLIES_NEG1"
  "rule_sound G check_CNF_IMPLIES_NEG2"
  "rule_sound G check_CNF_XOR_POS1"
  "rule_sound G check_CNF_XOR_POS2"
  "rule_sound G check_CNF_XOR_NEG1"
  "rule_sound G check_CNF_XOR_NEG2"
  "rule_sound G check_CNF_ITE_POS1"
  "rule_sound G check_CNF_ITE_POS2"
  "rule_sound G check_CNF_ITE_POS3"
  "rule_sound G check_CNF_ITE_NEG1"
  "rule_sound G check_CNF_ITE_NEG2"
  "rule_sound G check_CNF_ITE_NEG3"
  by (auto simp: rule_sound_def child_def arity sentence_simps check_CNF_IMPLIES_POS_def check_CNF_IMPLIES_NEG1_def check_CNF_IMPLIES_NEG2_def check_CNF_XOR_POS1_def check_CNF_XOR_POS2_def check_CNF_XOR_NEG1_def check_CNF_XOR_NEG2_def check_CNF_ITE_POS1_def check_CNF_ITE_POS2_def check_CNF_ITE_POS3_def check_CNF_ITE_NEG1_def check_CNF_ITE_NEG2_def check_CNF_ITE_NEG3_def
      elim!: isKindE split: if_splits)

text \<open>Conjunctions and disjunctions of any length, and the rules that pick a child.\<close>

lemma n_ary_rules_sound:
  "rule_sound G check_AND_INTRO"
  "rule_sound G check_NOT_AND"
  "rule_sound G check_CNF_AND_NEG"
  "rule_sound G check_CNF_OR_POS"
  by (auto simp: rule_sound_def child_def arity sentence_simps truth_n_ary check_AND_INTRO_def check_NOT_AND_def check_CNF_AND_NEG_def check_CNF_OR_POS_def
      elim!: isKindE split: if_splits)

lemma index_rules_sound:
  "rule_sound G check_AND_ELIM"
  "rule_sound G check_NOT_OR_ELIM"
  "rule_sound G check_CNF_AND_POS"
  "rule_sound G check_CNF_OR_NEG"
  by (auto simp: rule_sound_def child_def arity sentence_simps truth_n_ary check_AND_ELIM_def check_NOT_OR_ELIM_def check_CNF_AND_POS_def check_CNF_OR_NEG_def
      elim!: isKindE split: if_splits option.splits)

lemma checkInternal_rules:
  "checkInternal RESOLUTION = check_RESOLUTION"
  "checkInternal FACTORING = check_FACTORING"
  "checkInternal REORDERING = check_REORDERING"
  "checkInternal CHAIN_RESOLUTION = check_CHAIN_RESOLUTION"
  "checkInternal CHAIN_M_RESOLUTION = check_CHAIN_M_RESOLUTION"
  "checkInternal SPLIT = check_SPLIT"
  "checkInternal CONTRA = check_CONTRA"
  "checkInternal EQ_RESOLVE = check_EQ_RESOLVE"
  "checkInternal MODUS_PONENS = check_MODUS_PONENS"
  "checkInternal NOT_NOT_ELIM = check_NOT_NOT_ELIM"
  "checkInternal AND_ELIM = check_AND_ELIM"
  "checkInternal AND_INTRO = check_AND_INTRO"
  "checkInternal NOT_OR_ELIM = check_NOT_OR_ELIM"
  "checkInternal IMPLIES_ELIM = check_IMPLIES_ELIM"
  "checkInternal NOT_IMPLIES_ELIM1 = check_NOT_IMPLIES_ELIM1"
  "checkInternal NOT_IMPLIES_ELIM2 = check_NOT_IMPLIES_ELIM2"
  "checkInternal EQUIV_ELIM1 = check_EQUIV_ELIM1"
  "checkInternal EQUIV_ELIM2 = check_EQUIV_ELIM2"
  "checkInternal NOT_EQUIV_ELIM1 = check_NOT_EQUIV_ELIM1"
  "checkInternal NOT_EQUIV_ELIM2 = check_NOT_EQUIV_ELIM2"
  "checkInternal XOR_ELIM1 = check_XOR_ELIM1"
  "checkInternal XOR_ELIM2 = check_XOR_ELIM2"
  "checkInternal NOT_XOR_ELIM1 = check_NOT_XOR_ELIM1"
  "checkInternal NOT_XOR_ELIM2 = check_NOT_XOR_ELIM2"
  "checkInternal ITE_ELIM1 = check_ITE_ELIM1"
  "checkInternal ITE_ELIM2 = check_ITE_ELIM2"
  "checkInternal NOT_ITE_ELIM1 = check_NOT_ITE_ELIM1"
  "checkInternal NOT_ITE_ELIM2 = check_NOT_ITE_ELIM2"
  "checkInternal NOT_AND = check_NOT_AND"
  "checkInternal CNF_AND_POS = check_CNF_AND_POS"
  "checkInternal CNF_AND_NEG = check_CNF_AND_NEG"
  "checkInternal CNF_OR_POS = check_CNF_OR_POS"
  "checkInternal CNF_OR_NEG = check_CNF_OR_NEG"
  "checkInternal CNF_IMPLIES_POS = check_CNF_IMPLIES_POS"
  "checkInternal CNF_IMPLIES_NEG1 = check_CNF_IMPLIES_NEG1"
  "checkInternal CNF_IMPLIES_NEG2 = check_CNF_IMPLIES_NEG2"
  "checkInternal CNF_EQUIV_POS1 = check_CNF_EQUIV_POS1"
  "checkInternal CNF_EQUIV_POS2 = check_CNF_EQUIV_POS2"
  "checkInternal CNF_EQUIV_NEG1 = check_CNF_EQUIV_NEG1"
  "checkInternal CNF_EQUIV_NEG2 = check_CNF_EQUIV_NEG2"
  "checkInternal CNF_XOR_POS1 = check_CNF_XOR_POS1"
  "checkInternal CNF_XOR_POS2 = check_CNF_XOR_POS2"
  "checkInternal CNF_XOR_NEG1 = check_CNF_XOR_NEG1"
  "checkInternal CNF_XOR_NEG2 = check_CNF_XOR_NEG2"
  "checkInternal CNF_ITE_POS1 = check_CNF_ITE_POS1"
  "checkInternal CNF_ITE_POS2 = check_CNF_ITE_POS2"
  "checkInternal CNF_ITE_POS3 = check_CNF_ITE_POS3"
  "checkInternal CNF_ITE_NEG1 = check_CNF_ITE_NEG1"
  "checkInternal CNF_ITE_NEG2 = check_CNF_ITE_NEG2"
  "checkInternal CNF_ITE_NEG3 = check_CNF_ITE_NEG3"
  "rule_sound G (checkInternal ASSUME)"
  by (simp_all add: checkInternal_def fun_eq_iff rule_sound_def)

text \<open>
  Equality between Boolean terms: the type of the conclusion makes the sides Boolean, so that
  the value of the equality is the equivalence of the truth of its sides.
\<close>

context gmp_documented
begin

lemma equivalence_rules_sound:
  "rule_sound G check_EQ_RESOLVE"
  "rule_sound G check_EQUIV_ELIM1"
  "rule_sound G check_EQUIV_ELIM2"
  "rule_sound G check_NOT_EQUIV_ELIM1"
  "rule_sound G check_NOT_EQUIV_ELIM2"
  "rule_sound G check_CNF_EQUIV_POS1"
  "rule_sound G check_CNF_EQUIV_POS2"
  "rule_sound G check_CNF_EQUIV_NEG1"
  "rule_sound G check_CNF_EQUIV_NEG2"
  by (auto simp: rule_sound_def child_def arity sentence_simps truth_EQUAL_sentence check_EQ_RESOLVE_def check_EQUIV_ELIM1_def check_EQUIV_ELIM2_def check_NOT_EQUIV_ELIM1_def check_NOT_EQUIV_ELIM2_def check_CNF_EQUIV_POS1_def check_CNF_EQUIV_POS2_def check_CNF_EQUIV_NEG1_def check_CNF_EQUIV_NEG2_def
      elim!: isKindE split: if_splits)

lemmas boolean_rules_sound =
  RESOLUTION_sound FACTORING_sound REORDERING_sound CHAIN_RESOLUTION_sound CHAIN_M_RESOLUTION_sound
  natural_deduction_sound tseitin_clauses_sound n_ary_rules_sound index_rules_sound equivalence_rules_sound

lemma checkInternal_cases_sound:
  assumes "\<not> trusted_rule pr"
  shows "rule_sound G (checkInternal pr)"
  using assms by (cases pr) (simp_all only: checkInternal_rules boolean_rules_sound trusted_rule_def insert_iff simp_thms)

end

section \<open>The registered checker\<close>

lemma d_checker_fold:
  "d_checker (fold (\<lambda>pr. registerChecker pr (Some f)) rs pc) pr =
     (if d_checker pc pr = None \<and> pr \<in> set rs then Some (Some f) else d_checker pc pr)"
  by (induction rs arbitrary: pc) (auto simp: registerChecker_def)

lemma fold_registerChecker [simp]:
  "d_plevel (fold (\<lambda>pr. registerChecker pr (Some f)) rs pc) = d_plevel pc"
  "d_pcMode (fold (\<lambda>pr. registerChecker pr (Some f)) rs pc) = d_pcMode pc"
  "d_pclevel (fold (\<lambda>pr. registerChecker pr (Some f)) rs pc) = d_pclevel pc"
  by (induction rs arbitrary: pc) (auto simp: registerChecker_def)

lemma bool_rules_all: "pr \<in> set bool_rules \<longleftrightarrow> pr \<noteq> ASSUME \<and> \<not> trusted_rule pr"
  by (cases pr) (simp_all add: bool_rules_def trusted_rule_def)

lemma registered:
  assumes "registerTo (ProofChecker mode lvl) = Some pc"
  shows "pr \<noteq> ASSUME \<Longrightarrow> d_checker pc pr = Some (Some checkInternal)"
    and "d_plevel pc pr = (if trusted_rule pr then Some 1 else None)"
    and "d_pcMode pc = mode" "d_pclevel pc = lvl"
  using assms by (auto simp: registerTo_def registerTrustedChecker_def registerChecker_def ProofChecker_def Let_def
      d_checker_fold bool_rules_all trusted_rule_def)

section \<open>Proof trees\<close>

text \<open>
  The proof nodes that \<^verbatim>\<open>mkNode\<close> builds with a checker, the conclusions in a tree and its
  assumptions.
\<close>

inductive built :: "proof_checker \<Rightarrow> proof_node \<Rightarrow> bool" for pc where
  built_mkNode: "(\<And>p. p \<in> set pcs \<Longrightarrow> built pc p) \<Longrightarrow> pnm_mkNode pc pr pcs args expected = Some pn \<Longrightarrow> built pc pn"

fun conclusions :: "proof_node \<Rightarrow> node list" where
  "conclusions (ProofNode pr pcs args res) = res # concat (map conclusions pcs)"

fun assumptions :: "proof_node \<Rightarrow> node list" where
  "assumptions (ProofNode pr pcs args res) = (if pr = ASSUME then args else concat (map assumptions pcs))"

lemma pnm_mkNode_fields:
  "pnm_mkNode pc pr pcs args expected = Some pn \<Longrightarrow> \<exists>res. pn = ProofNode pr pcs args res"
  by (auto simp: pnm_mkNode_def split: check_result.splits)

lemma pc_check_expected: "pc_check pc pr pcs args (Some e) = NODE res \<Longrightarrow> res = e"
  by (auto simp: pc_check_def pc_checkInternal_def Let_def split: check_result.splits if_splits option.splits)

lemma pnm_mkNode_expected: "pnm_mkNode pc pr pcs args (Some e) = Some pn \<Longrightarrow> d_proven pn = e"
  by (auto simp: pnm_mkNode_def pnm_checkInternal_def Let_def pc_check_expected split: check_result.splits if_splits)

lemma d_proven_in_conclusions: "d_proven pn \<in> set (conclusions pn)"
  by (cases pn) simp

text \<open>A node that the eager mode lets through was checked by its rule.\<close>

lemma pnm_mkNode_checked:
  assumes "registerTo (ProofChecker mode lvl) = Some pc" "mode = EAGER \<or> mode = EAGER_SIMPLE" "pr \<noteq> ASSUME"
    and "pnm_mkNode pc pr pcs args expected = Some (ProofNode pr pcs args res)"
  shows "checkInternal pr (map d_proven pcs) args = NODE res"
    and "mode = EAGER \<Longrightarrow> 1 \<le> lvl \<Longrightarrow> \<not> trusted_rule pr"
  using assms(2-) registered(1,2) [OF assms(1), of pr] registered(3,4) [OF assms(1)]
  by (auto simp: pnm_mkNode_def pnm_checkInternal_def pc_check_def pc_checkInternal_def isPedanticFailure_def Let_def
      split: check_result.splits if_splits option.splits)

lemma pnm_mkNode_assume:
  assumes "registerTo (ProofChecker mode lvl) = Some pc" "mode = EAGER \<or> mode = EAGER_SIMPLE"
    and "pnm_mkNode pc ASSUME pcs args expected = Some (ProofNode ASSUME pcs args res)"
  shows "args = [res]"
  using assms(2-) registered [OF assms(1)]
  by (auto simp: pnm_mkNode_def pnm_checkInternal_def pc_check_def Let_def length_Suc_conv
      split: check_result.splits if_splits option.splits)

lemma built_sound:
  assumes "gmp_documented G" "registerTo (ProofChecker EAGER lvl) = Some pc" "1 \<le> lvl"
  shows "built pc pn \<Longrightarrow> \<forall>c\<in>set (conclusions pn). sentence c \<Longrightarrow>
    \<forall>a\<in>set (assumptions pn). truth G m a \<Longrightarrow> truth G m (d_proven pn)"
proof (induction pn rule: built.induct)
  case (built_mkNode pcs pr args expected pn)
  obtain res where pn: "pn = ProofNode pr pcs args res"
    using pnm_mkNode_fields [OF built_mkNode.hyps(2)] by blast
  note mk = built_mkNode.hyps(2) [unfolded pn]
  show ?case
  proof (cases "pr = ASSUME")
    case True
    then show ?thesis
      using pnm_mkNode_assume [OF assms(2) _ mk [unfolded True]] built_mkNode.prems(2) by (simp add: pn)
  next
    case False
    have kids: "sentence (d_proven p) \<and> truth G m (d_proven p)" if "p \<in> set pcs" for p
      using that False built_mkNode.prems d_proven_in_conclusions [of p]
      by (auto simp: pn intro!: built_mkNode.IH)
    have "rule_sound G (checkInternal pr)"
      using gmp_documented.checkInternal_cases_sound [OF assms(1)] pnm_mkNode_checked(2) [OF assms(2) _ False mk]
        assms(3) by blast
    moreover have "checkInternal pr (map d_proven pcs) args = NODE res"
      by (rule pnm_mkNode_checked(1) [OF assms(2) _ False mk]) simp
    ultimately have "(\<forall>p\<in>set (map d_proven pcs). sentence p \<and> truth G m p) \<longrightarrow> sentence res \<longrightarrow> truth G m res"
      unfolding rule_sound_def by blast
    with kids built_mkNode.prems(1) show ?thesis
      by (simp add: pn)
  qed
qed

section \<open>Properties\<close>

text \<open>C5. The Boolean proof rules are sound: when the checker accepts a step of a rule that is not
  one of the three trusted ones, the premises are Boolean terms that are true in a model and the
  conclusion is a Boolean term, the conclusion is true in that model. This covers resolution and
  its two chained forms, factoring and reordering, the elimination and introduction rules and
  the clauses of the Tseitin transformation.\<close>

theorem checkInternal_sound:
  assumes "gmp_documented G" "checkInternal pr cs args = NODE c" "\<not> trusted_rule pr"
    and "\<forall>p\<in>set cs. sentence p \<and> truth G m p" "sentence c"
  shows "truth G m c"
  using gmp_documented.checkInternal_cases_sound [OF assms(1,3)] assms(2,4,5) unfolding rule_sound_def by blast

abbreviation resolved_clauses :: "node list" where
  "resolved_clauses \<equiv> [mkNode K_OR [prop_var 0, prop_var 1], mkNode K_OR [notNode (prop_var 0), prop_var 2]]"

theorem checkInternal_sound_witness:
  "truth gmp_reference (prop_model (\<lambda>i. if i = 1 then 0 else 1)) (mkNode K_OR [prop_var 1, prop_var 2])"
proof (rule checkInternal_sound [where pr = RESOLUTION and cs = resolved_clauses and
      args = "[CONST_BOOLEAN True, prop_var 0]", OF gmp_ref.gmp_documented_axioms])
  show "checkInternal RESOLUTION resolved_clauses [CONST_BOOLEAN True, prop_var 0] = NODE (mkNode K_OR [prop_var 1, prop_var 2])"
    by (simp add: checkInternal_rules check_RESOLUTION_def clause_lits_def notNode_def)
  show "\<not> trusted_rule RESOLUTION"
    by (simp add: trusted_rule_def)
  show "\<forall>p\<in>set resolved_clauses. sentence p \<and> truth gmp_reference (prop_model (\<lambda>i. if i = 1 then 0 else 1)) p"
    by (simp add: sentence_simps) (simp add: sentence_def isBoolean_def truth_def)
  show "sentence (mkNode K_OR [prop_var 1, prop_var 2])"
    by (simp add: sentence_simps) (simp add: sentence_def isBoolean_def)
qed


abbreviation resolution_tree :: proof_node where
  "resolution_tree \<equiv> ProofNode RESOLUTION (map (\<lambda>c. ProofNode ASSUME [] [c] c) resolved_clauses)
     [CONST_BOOLEAN True, prop_var 0] (mkNode K_OR [prop_var 1, prop_var 2])"

lemma registerTo_total: "\<exists>pc. registerTo (ProofChecker mode lvl) = Some pc"
  by (simp add: registerTo_def registerTrustedChecker_def Let_def)

lemma resolution_tree_sentences: "\<forall>c\<in>set (conclusions resolution_tree). sentence c"
  by (simp add: sentence_simps) (simp add: sentence_def isBoolean_def)

lemma resolution_tree_built:
  assumes "registerTo (ProofChecker EAGER 1) = Some pc"
  shows "built pc resolution_tree"
proof (rule built_mkNode)
  note reg = registered(1,2) [OF assms, of RESOLUTION] registered(3,4) [OF assms]
  show "pnm_mkNode pc RESOLUTION (map (\<lambda>c. ProofNode ASSUME [] [c] c) resolved_clauses) [CONST_BOOLEAN True, prop_var 0] None
      = Some resolution_tree"
    by (simp add: reg pnm_mkNode_def pnm_checkInternal_def pc_check_def pc_checkInternal_def checkInternal_rules
        check_RESOLUTION_def clause_lits_def notNode_def isPedanticFailure_def trusted_rule_def)
  fix p
  assume "p \<in> set (map (\<lambda>c. ProofNode ASSUME [] [c] c) resolved_clauses)"
  then obtain c where c: "p = ProofNode ASSUME [] [c] c" "isBoolean c"
    using resolution_tree_sentences by (auto simp: sentence_def)
  then have "pnm_mkNode pc ASSUME [] [c] (Some c) = Some p"
    by (simp add: reg pnm_mkNode_def pnm_checkInternal_def pc_check_def)
  then show "built pc p"
    using built_mkNode [of "[]" pc ASSUME "[c]" "Some c" p] by simp
qed


text \<open>C36. What the modes guarantee of the checker that \<^verbatim>\<open>registerTo\<close> sets up. A node is only ever
  built with the conclusion that was expected, in every mode; the two eager modes build it only
  if the rule's own check gave that conclusion; the eager mode with a pedantic level of at least
  one never builds a node of a trusted rule; and the lazy modes take every expected conclusion
  without running the rule.\<close>

theorem mkNode_modes:
  assumes "registerTo (ProofChecker mode lvl) = Some pc" "pr \<noteq> ASSUME"
  shows "(\<forall>pn. pnm_mkNode pc pr pcs args (Some e) = Some pn \<longrightarrow> d_proven pn = e) \<and>
    (mode \<in> {EAGER, EAGER_SIMPLE} \<longrightarrow> checkInternal pr (map d_proven pcs) args \<noteq> NODE e \<longrightarrow>
       pnm_mkNode pc pr pcs args (Some e) = None) \<and>
    (mode = EAGER \<longrightarrow> 1 \<le> lvl \<longrightarrow> trusted_rule pr \<longrightarrow> pnm_mkNode pc pr pcs args (Some e) = None) \<and>
    (mode \<in> {LAZY, NO_CHECK} \<longrightarrow> pnm_mkNode pc pr pcs args (Some e) = Some (ProofNode pr pcs args e))"
proof (intro conjI impI allI)
  show "d_proven pn = e" if "pnm_mkNode pc pr pcs args (Some e) = Some pn" for pn
    using pnm_mkNode_expected [OF that] .
  show "pnm_mkNode pc pr pcs args (Some e) = None"
    if mode: "mode \<in> {EAGER, EAGER_SIMPLE}" and other: "checkInternal pr (map d_proven pcs) args \<noteq> NODE e"
  proof (rule ccontr)
    assume "pnm_mkNode pc pr pcs args (Some e) \<noteq> None"
    then obtain res where mk: "pnm_mkNode pc pr pcs args (Some e) = Some (ProofNode pr pcs args res)"
      using pnm_mkNode_fields by blast
    then have "res = e"
      by (auto dest: pnm_mkNode_expected)
    with pnm_mkNode_checked(1) [OF assms(1) _ assms(2) mk] mode other show False
      by auto
  qed
  show "pnm_mkNode pc pr pcs args (Some e) = None" if "mode = EAGER" "1 \<le> lvl" "trusted_rule pr"
  proof (rule ccontr)
    assume "pnm_mkNode pc pr pcs args (Some e) \<noteq> None"
    then obtain res where "pnm_mkNode pc pr pcs args (Some e) = Some (ProofNode pr pcs args res)"
      using pnm_mkNode_fields by blast
    from pnm_mkNode_checked(2) [OF assms(1) _ assms(2) this] that show False
      by auto
  qed
  show "pnm_mkNode pc pr pcs args (Some e) = Some (ProofNode pr pcs args e)" if "mode \<in> {LAZY, NO_CHECK}"
    using that registered(3) [OF assms(1)] by (auto simp: pnm_mkNode_def pnm_checkInternal_def)
qed

theorem mkNode_modes_witness:
  "\<exists>pc. registerTo (ProofChecker EAGER 1) = Some pc \<and> pnm_mkNode pc SAT_REFUTATION [] [] (Some (CONST_BOOLEAN False)) = None"
proof -
  obtain pc where pc: "registerTo (ProofChecker EAGER 1) = Some pc"
    using registerTo_total by blast
  from mkNode_modes [OF pc, of SAT_REFUTATION "[]" "[]" "CONST_BOOLEAN False"] pc show ?thesis
    by (auto simp: trusted_rule_def)
qed

end
