(* ===== verification/Bool_Nnf.thy ===== *)
theory Bool_Nnf
  imports Bool_Rewriter
begin

text \<open>
  The negation normal form \<^verbatim>\<open>TheoryBoolRewriter::computeNnfNorm\<close>, without the proof generator: an
  iterative traversal that visits a node before and after its children, memoises results in
  \<^verbatim>\<open>visited\<close> and, across calls, in the attribute \<^verbatim>\<open>NnfAttribute\<close> of the nodes.
\<close>

section \<open>The loop\<close>

text \<open>
  The state of the traversal. In \<open>visited\<close> the value \<open>Some None\<close> is the null node of a node whose
  children are being visited; in \<open>preKind\<close> the value \<open>None\<close> is \<^verbatim>\<open>UNDEFINED_KIND\<close>.
\<close>

record nnf_state =
  preKind :: "node \<Rightarrow> kind option option"
  preChildren :: "node \<Rightarrow> node list"
  visited :: "node \<Rightarrow> node option option"
  nnfAttribute :: "node \<Rightarrow> node option"

text \<open>What the visit before the children finds: a literal, a double negation, or a connective.\<close>

datatype nnf_pre = NnfLiteral | NnfCancel node | NnfConnective kind "node list"

definition nnf_children :: "bool \<Rightarrow> bool \<Rightarrow> node \<Rightarrow> node list" where
  "nnf_children negAllCh negCh1 ncur =
     map (\<lambda>i. if (i = 0 \<and> negCh1) \<noteq> negAllCh then negate (child ncur i) else child ncur i)
       [0..<length (children ncur)]"

definition is_bool_equal :: "node \<Rightarrow> bool" where
  "is_bool_equal n \<longleftrightarrow> isKind K_EQUAL n \<and> isBoolean (child n 0)"

definition nnf_preVisit :: "node \<Rightarrow> nnf_pre" where
  "nnf_preVisit cur =
     (if isKind K_IMPLIES cur then NnfConnective K_OR (nnf_children False True cur)
      else if isKind K_XOR cur then NnfConnective K_EQUAL (nnf_children False True cur)
      else if isKind K_NOT cur then
        (let ncur = child cur 0
         in if isKind K_NOT ncur then NnfCancel (child ncur 0)
            else if isKind K_OR ncur \<or> isKind K_IMPLIES ncur
            then NnfConnective K_AND (nnf_children True (isKind K_IMPLIES ncur) ncur)
            else if isKind K_AND ncur then NnfConnective K_OR (nnf_children True False ncur)
            else if isKind K_XOR ncur \<or> is_bool_equal ncur
            then NnfConnective K_EQUAL (nnf_children False (isKind K_EQUAL ncur) ncur)
            else if isKind K_ITE ncur then NnfConnective K_ITE (nnf_children True True ncur)
            else NnfLiteral)
      else if \<not> is_bool_equal cur \<and> \<not> isKind K_ITE cur \<and> \<not> isKind K_AND cur \<and> \<not> isKind K_OR cur
      then NnfLiteral
      else if isKind K_ITE cur then NnfConnective K_ITE (nnf_children False False cur)
      else if isKind K_AND cur then NnfConnective K_AND (nnf_children False False cur)
      else if isKind K_OR cur then NnfConnective K_OR (nnf_children False False cur)
      else NnfConnective K_EQUAL (nnf_children False False cur))"

text \<open>\<^verbatim>\<open>addNnfNormChild\<close>: the children, the polarities and the flag are updated; \<open>None\<close> is \<^verbatim>\<open>false\<close>.\<close>

definition nnf_atom :: "node \<Rightarrow> node" where
  "nnf_atom c = (if isKind K_NOT c then child c 0 else c)"

type_synonym nnf_acc = "node list \<times> (node \<Rightarrow> bool option) \<times> bool"

definition addNnfNormChild :: "kind \<Rightarrow> node \<Rightarrow> nnf_acc \<Rightarrow> nnf_acc option" where
  "addNnfNormChild k c acc =
     (case acc of (cs, lit_pol, childrenChanged) \<Rightarrow>
        if k = K_OR \<or> k = K_AND then
          (let lit = nnf_atom c; pol = (\<not> isKind K_NOT c)
           in case lit_pol lit of
                None \<Rightarrow> Some (cs @ [c], lit_pol(lit \<mapsto> pol), childrenChanged)
              | Some pol' \<Rightarrow> if pol' \<noteq> pol then None else Some (cs, lit_pol, True))
        else Some (cs @ [c], lit_pol, childrenChanged))"

fun addNnfNormChildren :: "kind \<Rightarrow> node list \<Rightarrow> nnf_acc \<Rightarrow> nnf_acc option" where
  "addNnfNormChildren k [] acc = Some acc"
| "addNnfNormChildren k (c # cs) acc =
     (case addNnfNormChild k c acc of None \<Rightarrow> None | Some acc \<Rightarrow> addNnfNormChildren k cs acc)"

text \<open>The loop over the children after their visit: the flag is set when a child has changed.\<close>

fun nnf_collect :: "kind option \<Rightarrow> (node \<times> node) list \<Rightarrow> nnf_acc \<Rightarrow> nnf_acc option" where
  "nnf_collect k [] acc = Some acc"
| "nnf_collect k ((cn, c) # cs) (chs, lit_pol, childChanged) =
     (case (case k of
              Some k' \<Rightarrow> if isKind k' c \<and> (k' = K_OR \<or> k' = K_AND)
                then addNnfNormChildren k' (children c) (chs, lit_pol, True)
                else addNnfNormChild k' c (chs, lit_pol, childChanged)
            | None \<Rightarrow> Some (chs @ [c], lit_pol, childChanged)) of
        None \<Rightarrow> None
      | Some (chs, lit_pol, childChanged) \<Rightarrow>
          nnf_collect k cs (chs, lit_pol, childChanged \<or> c \<noteq> cn))"

text \<open>The node that is built after the visit of the children.\<close>

definition nnf_postVisit :: "node \<Rightarrow> kind option \<Rightarrow> (node \<times> node) list \<Rightarrow> node" where
  "nnf_postVisit cur k cs =
     (case nnf_collect k cs ([], (\<lambda>l. None), False) of
        None \<Rightarrow> CONST_BOOLEAN (k = Some K_OR)
      | Some (chs, lit_pol, childChanged) \<Rightarrow>
          (case k of
             None \<Rightarrow> hd chs
           | Some k' \<Rightarrow>
               if childChanged \<or> \<not> isKind k' cur
               then if length chs = 1 \<and> k' \<noteq> K_NOT then hd chs else mkNode k' chs
               else cur))"

text \<open>
  One iteration of the loop, with the last element of \<^verbatim>\<open>visit\<close> at the head of the list. An
  assertion that fails, a child that has not been visited, is \<open>None\<close>.
\<close>

definition nnf_enter :: "node \<Rightarrow> kind option \<Rightarrow> node list \<Rightarrow> nnf_state \<Rightarrow> nnf_state" where
  "nnf_enter cur k pc st =
     st\<lparr>preKind := (preKind st)(cur \<mapsto> k), preChildren := (preChildren st)(cur := pc),
        visited := (visited st)(cur \<mapsto> None)\<rparr>"

definition nnf_leave :: "node \<Rightarrow> node \<Rightarrow> nnf_state \<Rightarrow> nnf_state" where
  "nnf_leave cur ret st =
     st\<lparr>visited := (visited st)(cur \<mapsto> Some ret), nnfAttribute := (nnfAttribute st)(cur \<mapsto> ret)\<rparr>"

definition nnf_step :: "node \<Rightarrow> node list \<Rightarrow> nnf_state \<Rightarrow> (node list \<times> nnf_state) option" where
  "nnf_step cur visit st =
     (case visited st cur of
        None \<Rightarrow>
          (case nnfAttribute st cur of
             Some r \<Rightarrow> Some (visit, st\<lparr>visited := (visited st)(cur \<mapsto> Some r)\<rparr>)
           | None \<Rightarrow>
               (case nnf_preVisit cur of
                  NnfLiteral \<Rightarrow> Some (visit, st\<lparr>visited := (visited st)(cur \<mapsto> Some cur)\<rparr>)
                | NnfCancel preCur \<Rightarrow> Some (preCur # cur # visit, nnf_enter cur None [preCur] st)
                | NnfConnective k pc \<Rightarrow> Some (rev pc @ cur # visit, nnf_enter cur (Some k) pc st)))
      | Some None \<Rightarrow>
          (case preKind st cur of
             None \<Rightarrow> None
           | Some k \<Rightarrow>
               (case those (map (\<lambda>cn. case visited st cn of Some (Some c) \<Rightarrow> Some (cn, c) | _ \<Rightarrow> None) (preChildren st cur)) of
                  None \<Rightarrow> None
                | Some cs \<Rightarrow> Some (visit, nnf_leave cur (nnf_postVisit cur k cs) st)))
      | Some (Some r) \<Rightarrow> Some (visit, st))"

fun nnf_loop :: "nat \<Rightarrow> node list \<Rightarrow> nnf_state \<Rightarrow> nnf_state option" where
  "nnf_loop fuel [] st = Some st"
| "nnf_loop 0 (cur # visit) st = None"
| "nnf_loop (Suc fuel) (cur # visit) st =
     (case nnf_step cur visit st of None \<Rightarrow> None | Some (visit, st) \<Rightarrow> nnf_loop fuel visit st)"

text \<open>
  A bound on the number of iterations: a negation costs nothing unless it is doubled, since it is
  pushed to the children in the visit of the node below it.
\<close>

fun nnf_fuel :: "node \<Rightarrow> nat" where
  "nnf_fuel (mkNode k ns) =
     (if k = K_NOT then sum_list (map nnf_fuel ns) + (if list_ex (isKind K_NOT) ns then 2 else 0)
      else 2 + sum_list (map nnf_fuel ns))"
| "nnf_fuel n = 1"

definition computeNnfNorm :: "(node \<Rightarrow> node option) \<Rightarrow> node \<Rightarrow> (node \<times> (node \<Rightarrow> node option)) option" where
  "computeNnfNorm attr n =
     (case nnf_loop (nnf_fuel n) [n]
             \<lparr>preKind = (\<lambda>n. None), preChildren = (\<lambda>n. []), visited = (\<lambda>n. None), nnfAttribute = attr\<rparr> of
        None \<Rightarrow> None
      | Some st \<Rightarrow> (case visited st n of Some (Some r) \<Rightarrow> Some (r, nnfAttribute st) | _ \<Rightarrow> None))"

end
