(* ===== verification/Bool_Rewriter_Sound.thy ===== *)
theory Bool_Rewriter_Sound
  imports Bool_Rewriter
begin

text \<open>
  The Boolean rewriter is sound: the node it returns has the type of the rewritten node and its
  value in every model.
\<close>

section \<open>Flattening\<close>

text \<open>
  Disjunction and conjunction at once: a node of kind \<open>k\<close> has the value \<open>b\<close>, \<open>True\<close> for \<^verbatim>\<open>OR\<close> and
  \<open>False\<close> for \<^verbatim>\<open>AND\<close>, exactly when one of its children has.
\<close>

definition lattice :: "kind \<Rightarrow> bool \<Rightarrow> bool" where
  "lattice k b \<longleftrightarrow> k = K_OR \<and> b \<or> k = K_AND \<and> \<not> b"

definition some_value :: "gmp \<Rightarrow> model \<Rightarrow> bool \<Rightarrow> node set \<Rightarrow> bool" where
  "some_value G m b S \<longleftrightarrow> (\<exists>n\<in>S. truth G m n = b)"

lemma some_value_simps [simp]:
  "\<not> some_value G m b {}"
  "some_value G m b (insert n S) \<longleftrightarrow> truth G m n = b \<or> some_value G m b S"
  "some_value G m b (S \<union> T) \<longleftrightarrow> some_value G m b S \<or> some_value G m b T"
  by (auto simp: some_value_def)

lemma some_value_mono: "n \<in> S \<Longrightarrow> truth G m n = b \<Longrightarrow> some_value G m b S"
  by (auto simp: some_value_def)

lemma lattice_sentence:
  "lattice k b \<Longrightarrow> sentence (mkNode k ns) \<longleftrightarrow> 2 \<le> length ns \<and> (\<forall>n\<in>set ns. sentence n)"
  by (auto simp: lattice_def sentence_simps)

lemma lattice_truth:
  "lattice k b \<Longrightarrow> 2 \<le> length ns \<Longrightarrow> truth G m (mkNode k ns) = b \<longleftrightarrow> some_value G m b (set ns)"
  by (cases b) (auto simp: lattice_def truth_n_ary some_value_def)

lemma lattice_isKind:
  assumes "lattice k b" "isKind k c" "sentence c"
  shows "\<forall>n\<in>set (children c). sentence n" "truth G m c = b \<longleftrightarrow> some_value G m b (set (children c))"
proof -
  obtain ns where c: "c = mkNode k ns"
    using assms(2) by (rule isKindE)
  show "\<forall>n\<in>set (children c). sentence n" "truth G m c = b \<longleftrightarrow> some_value G m b (set (children c))"
    using assms(1,3) lattice_truth [OF assms(1)] by (simp_all add: c lattice_sentence)
qed

text \<open>The children that are still to be looked at.\<close>

definition pending :: "node list \<Rightarrow> node list \<Rightarrow> node set" where
  "pending js toProcess = set js \<union> (\<Union>q\<in>set toProcess. set (children q))"

lemma pending_simps [simp]:
  "pending [] [] = {}" "pending (c # js) toProcess = insert c (pending js toProcess)"
  "pending js (toProcess @ [c]) = pending js toProcess \<union> set (children c)"
  "pending [] (c # toProcess) = pending (children c) toProcess"
  by (auto simp: pending_def)

text \<open>
  A visited node that has the value \<open>b\<close> is accounted for: by a collected child, or by a smaller
  node that is still to come.
\<close>

definition accounted :: "gmp \<Rightarrow> model \<Rightarrow> bool \<Rightarrow> node set \<Rightarrow> node set \<Rightarrow> node \<Rightarrow> bool" where
  "accounted G m b L S v \<longleftrightarrow> truth G m v = b \<longrightarrow>
     some_value G m b L \<or> some_value G m b {w \<in> S. size w < size v}"

lemma accounted_seen:
  assumes "accounted G m b L (insert c S) v" "accounted G m b L (insert c S) c"
  shows "accounted G m b L S v"
proof (cases "some_value G m b {w \<in> S. size w < size v}")
  case False
  then show ?thesis
    using assms less_trans unfolding accounted_def some_value_def by blast
qed (simp add: accounted_def)

lemma accounted_mono: "accounted G m b L S v \<Longrightarrow> L \<subseteq> L' \<Longrightarrow> S \<subseteq> S' \<Longrightarrow> accounted G m b L' S' v"
  unfolding accounted_def some_value_def by blast

definition flattened :: "gmp \<Rightarrow> model \<Rightarrow> bool \<Rightarrow> node set \<Rightarrow> node list option \<Rightarrow> bool" where
  "flattened G m b S r = (case r of
     None \<Rightarrow> some_value G m b S
   | Some ns \<Rightarrow> (\<forall>n\<in>set ns. sentence n) \<and> (some_value G m b (set ns) \<longleftrightarrow> some_value G m b S))"

lemma flattened_cong: "flattened G m b S r \<Longrightarrow> some_value G m b S \<longleftrightarrow> some_value G m b S' \<Longrightarrow> flattened G m b S' r"
  by (auto simp: flattened_def split: option.splits)

lemma accounted_nested:
  assumes "v = c \<or> accounted G m b L (insert c S) v" "lattice k b" "isKind k c" "sentence c"
  shows "accounted G m b L (S \<union> set (children c)) v"
proof -
  have "size n < size c" if "n \<in> set (children c)" for n
    using that by (cases c) (auto simp: less_Suc_eq_le dest: size_list_estimation' [OF _ order_refl])
  moreover have "truth G m c = b \<longleftrightarrow> some_value G m b (set (children c))"
    using lattice_isKind(2) [OF assms(2-4)] .
  ultimately show ?thesis
    using assms(1) less_trans unfolding accounted_def some_value_def by blast
qed

lemma accounted_collected: "accounted G m b L (insert c S) v \<Longrightarrow> accounted G m b (insert c L) S v"
  unfolding accounted_def some_value_def by blast

lemma flatten_loop_sound:
  assumes "lattice k b"
  shows "\<lbrakk>\<forall>n\<in>set js. sentence n; \<forall>q\<in>set toProcess. isKind k q \<and> sentence q; \<forall>n\<in>set childList. sentence n;
     \<forall>v\<in>set visited. accounted G m b (set childList) (pending js toProcess) v\<rbrakk> \<Longrightarrow>
   flattened G m b (set childList \<union> pending js toProcess)
     (flatten_loop k (CONST_BOOLEAN b) js toProcess visited childList)"
  using assms
proof (induction k "CONST_BOOLEAN b" js toProcess visited childList rule: flatten_loop.induct)
  case (1 k visited childList)
  then show ?case by (simp add: flattened_def)
next
  case (2 k current toProcess visited childList)
  moreover have "\<forall>n\<in>set (children current). sentence n"
    using "2.prems"(2) by (intro lattice_isKind(1) [OF "2.prems"(5)]) auto
  ultimately show ?case by simp
next
  case (3 k c js toProcess visited childList)
  let ?P = "pending js toProcess" and ?L = "set childList"
  consider (seen) "c \<in> set visited" | (trivial) "c \<notin> set visited" "c = CONST_BOOLEAN b"
    | (nested) "c \<notin> set visited" "c \<noteq> CONST_BOOLEAN b" "isKind k c"
    | (child) "c \<notin> set visited" "c \<noteq> CONST_BOOLEAN b" "\<not> isKind k c"
    by blast
  then show ?case
  proof cases
    case seen
    have acc: "accounted G m b ?L ?P v" if "v \<in> set visited" for v
      using "3.prems"(4) seen that by (auto intro!: accounted_seen [of G m b ?L c ?P v])
    then have "flattened G m b (?L \<union> ?P) (flatten_loop k (CONST_BOOLEAN b) js toProcess visited childList)"
      using seen "3.prems" by (intro "3.hyps"(1)) auto
    moreover have "truth G m c = b \<longrightarrow> some_value G m b ?L \<or> some_value G m b ?P"
      using acc [OF seen] unfolding accounted_def some_value_def by blast
    ultimately show ?thesis
      using seen by (auto elim!: flattened_cong)
  next
    case trivial
    then show ?thesis by (simp add: flattened_def)
  next
    case nested
    have acc: "accounted G m b ?L (?P \<union> set (children c)) v" if "v \<in> set (c # visited)" for v
      using that "3.prems" nested by (intro accounted_nested) auto
    then have "flattened G m b (?L \<union> pending js (toProcess @ [c]))
        (flatten_loop k (CONST_BOOLEAN b) js (toProcess @ [c]) (c # visited) childList)"
      using nested "3.prems" by (intro "3.hyps"(2)) auto
    then show ?thesis
      using nested lattice_isKind(2) [OF "3.prems"(5) nested(3), of G m] "3.prems"(1)
      by (auto elim!: flattened_cong)
  next
    case child
    have acc: "accounted G m b (set (childList @ [c])) ?P v" if "v \<in> set (c # visited)" for v
      using that "3.prems"(4) accounted_collected [of G m b ?L c ?P v] by (auto simp: accounted_def)
    then have "flattened G m b (set (childList @ [c]) \<union> ?P)
        (flatten_loop k (CONST_BOOLEAN b) js toProcess (c # visited) (childList @ [c]))"
      using child "3.prems" by (intro "3.hyps"(3)) auto
    then show ?thesis
      using child by (auto elim!: flattened_cong)
  qed
qed

lemma flatten_loop_length:
  "flatten_loop k t js toProcess visited childList = Some ns \<Longrightarrow>
     length ns \<le> length childList + sum_list (map (Suc \<circ> size) (js @ toProcess))"
proof (induction k t js toProcess visited childList rule: flatten_loop.induct)
  case (2 k t current toProcess visited childList)
  moreover have "sum_list (map (Suc \<circ> size) (children current)) \<le> size current"
  proof -
    have "sum_list (map (Suc \<circ> size) ns) = size_list size ns" for ns :: "node list"
      by (induction ns) simp_all
    then show ?thesis
      by (cases current) simp_all
  qed
  ultimately show ?case by (simp add: comp_def)
next
  case (3 k t c js toProcess visited childList)
  then show ?case
    by (simp split: if_splits)
qed simp

section \<open>Typed terms\<close>

context gmp_documented
begin

lemma flattenNode_sound:
  assumes "lattice k b" "sentence (mkNode k ns)" "size (mkNode k ns) + 1 < MAX_CHILDREN"
  shows "rewrites_to G (mkNode k ns) (snd (flattenNode (mkNode k ns) (CONST_BOOLEAN b) (CONST_BOOLEAN (\<not> b))))"
proof -
  let ?r = "flatten_loop k (CONST_BOOLEAN b) [] [mkNode k ns] [CONST_BOOLEAN (\<not> b)] []"
  have ns: "2 \<le> length ns" "\<forall>n\<in>set ns. sentence n"
    using assms(1,2) by (auto simp: lattice_sentence)
  have sound: "flattened G m b (set ns) ?r" for m
  proof -
    have "flattened G m b (set [] \<union> pending [] [mkNode k ns]) ?r"
      using assms(1,2) by (intro flatten_loop_sound) (auto simp: accounted_def)
    then show ?thesis
      by (simp add: pending_def)
  qed
  show ?thesis
  proof (cases ?r)
    case None
    then have "truth G m (mkNode k ns) = b" for m
      using sound [of m] lattice_truth [OF assms(1) ns(1)] by (simp add: flattened_def)
    with None assms(2) show ?thesis
      by (auto intro!: rewrites_bool)
  next
    case (Some cl)
    have cl: "\<forall>n\<in>set cl. sentence n" "\<And>m. some_value G m b (set cl) \<longleftrightarrow> truth G m (mkNode k ns) = b"
      using sound Some lattice_truth [OF assms(1) ns(1)] by (auto simp: flattened_def)
    have len: "length cl < MAX_CHILDREN"
      using flatten_loop_length [OF Some] assms(3) by simp
    consider "cl = []" | n where "cl = [n]" | "2 \<le> length cl"
      by (cases cl rule: list.exhaust [case_product list.exhaust [of "tl cl"]]) (auto simp: Suc_le_eq)
    then show ?thesis
    proof cases
      case 1
      with Some assms(2) cl(2) show ?thesis
        by (intro rewrites_bool) auto
    next
      case 2
      then have "truth G m n = truth G m (mkNode k ns)" for m
        using cl(2) [of m] by auto
      with 2 Some assms(2) cl(1) show ?thesis
        by (intro rewrites_bool) auto
    next
      case 3
      have "truth G m (mkNode k cl) = truth G m (mkNode k ns)" for m
        using cl(2) [of m] lattice_truth [OF assms(1) 3, of G m] by auto
      with 3 Some assms(1,2) cl len show ?thesis
        by (intro rewrites_bool) (auto simp: lattice_sentence)
    qed
  qed
qed

section \<open>The helpers\<close>

lemma stripNegations_sound:
  "sentence n \<Longrightarrow> stripNegations ev n = (ev', n') \<Longrightarrow>
     sentence n' \<and> (truth G m n' = truth G m n \<longleftrightarrow> ev' = ev)"
proof (induction ev n rule: stripNegations.induct)
  case (1 ev a ns)
  then show ?case
    by (auto simp: sentence_NOT)
qed auto

lemma makeNegation_sound:
  assumes "sentence n"
  shows "sentence (makeNegation n)" "truth G m (makeNegation n) \<longleftrightarrow> \<not> truth G m n"
proof -
  obtain ev n' where strip: "stripNegations False n = (ev, n')"
    by fastforce
  have n': "sentence n'" "\<And>m. truth G m n' = truth G m n \<longleftrightarrow> \<not> ev"
    using stripNegations_sound [OF assms strip] by auto
  have "\<exists>b. n' = CONST_BOOLEAN b" if "isConst n'"
    using that n'(1) by (cases n') (auto simp: sentence_def isBoolean_def BitVectorConstantTypeRule_def split: if_splits)
  then show "sentence (makeNegation n)" "truth G m (makeNegation n) \<longleftrightarrow> \<not> truth G m n"
    using n' (1) n'(2) [of m] by (auto simp: makeNegation_def strip)
qed

lemma equalityParity_1 [simp]: "equalityParity a b = Suc 0 \<longleftrightarrow> a = b"
  by (auto simp: equalityParity_def)

lemma typed_NOT:
  assumes "isKind K_NOT x" "typed x T"
  obtains "x = notNode (child x 0)" "sentence (child x 0)" "sentence x"
proof -
  have "sentence x"
    using assms by (auto simp: typed_def sentence_def isBoolean_def kind_type_def BooleanTypeRule_def
        split: option.splits if_splits elim!: isKindE)
  with assms(1) that show ?thesis
    by (auto simp: sentence_NOT child_def notNode_def elim!: isKindE)
qed

lemma equalityParity_other:
  assumes "equalityParity a b \<noteq> 0" "a \<noteq> b" "typed a T" "typed b T'"
  shows "sentence a" "sentence b" "truth G m a \<longleftrightarrow> \<not> truth G m b"
proof -
  consider "isKind K_NOT a" "child a 0 = b" | "isKind K_NOT b" "child b 0 = a"
    using assms(1,2) by (auto simp: equalityParity_def split: if_splits)
  then have "sentence a \<and> sentence b \<and> (truth G m a \<longleftrightarrow> \<not> truth G m b)"
  proof cases
    case 1
    from typed_NOT [OF 1(1) assms(3)] have "a = notNode b" "sentence b"
      unfolding 1(2) by blast+
    then show ?thesis by simp
  next
    case 2
    from typed_NOT [OF 2(1) assms(4)] have "b = notNode a" "sentence a"
      unfolding 2(2) by blast+
    then show ?thesis by simp
  qed
  then show "sentence a" "sentence b" "truth G m a \<longleftrightarrow> \<not> truth G m b"
    by auto
qed

lemma sentence_EQUAL_side: "sentence (mkNode K_EQUAL [a, b]) \<Longrightarrow> sentence a \<longleftrightarrow> sentence b"
  by (drule sentence_EQUAL [THEN iffD1]) (auto simp: sentence_def isBoolean_def)

lemma negate_sound: "sentence n \<Longrightarrow> sentence (negate n) \<and> (truth G m (negate n) \<longleftrightarrow> \<not> truth G m n)"
  by (auto simp: negate_def sentence_NOT elim!: isKindE)

lemma rewriteViaEqConstEq_sound:
  assumes "sentence (mkNode K_EQUAL [a, b])" "rewriteViaEqConstEq (mkNode K_EQUAL [a, b]) = Some r" "sentence a"
  shows "rewrites_to G (mkNode K_EQUAL [a, b]) r"
proof -
  have b: "sentence b"
    using assms(1,3) sentence_EQUAL_side by blast
  obtain a0 a1 b0 b1 where ab: "a = mkNode K_EQUAL [a0, a1]" "b = mkNode K_EQUAL [b0, b1]"
    using assms b by (auto simp: rewriteViaEqConstEq_def child_def typed_EQUAL split: if_splits elim!: isKindE)
  obtain S T where types: "typed a0 S" "typed a1 S" "typed b0 T" "typed b1 T"
    using assms(3) b by (auto simp: ab typed_EQUAL)
  let ?rest = "\<lambda>t c. case (if b0 = t \<and> isConst b1 then Some (b1 = c) else if b1 = t \<and> isConst b0 then Some (b0 = c) else None) of
      None \<Rightarrow> None | Some e \<Rightarrow> Some (if e then CONST_BOOLEAN True else andNode (notNode a) (notNode b))"
  have "\<exists>t c. isConst c \<and> (a0 = t \<and> a1 = c \<or> a0 = c \<and> a1 = t) \<and> ?rest t c = Some r"
  proof (cases "isConst a0")
    case True
    with assms(2) show ?thesis
      by (intro exI [of _ a1] exI [of _ a0])
        (auto simp: rewriteViaEqConstEq_def child_def ab Let_def split: if_splits option.splits bool.splits)
  next
    case False
    with assms(2) show ?thesis
      by (intro exI [of _ a0] exI [of _ a1])
        (auto simp: rewriteViaEqConstEq_def child_def ab Let_def split: if_splits option.splits bool.splits)
  qed
  then obtain t c where tc: "isConst c" "a0 = t \<and> a1 = c \<or> a0 = c \<and> a1 = t" "?rest t c = Some r"
    by blast
  obtain d where d: "isConst d" "b0 = t \<and> b1 = d \<or> b0 = d \<and> b1 = t"
      "r = (if d = c then CONST_BOOLEAN True else andNode (notNode a) (notNode b))"
    using tc(3) by (auto split: if_splits)
  have truths: "truth G m a \<longleftrightarrow> eval G m t = eval G m c" "truth G m b \<longleftrightarrow> eval G m t = eval G m d" for m
    using types tc(2) d(2) by (auto simp: ab truth_EQUAL_eval)
  have distinct: "c = d" if "truth G m a" "truth G m b" for m
    using that const_eval [OF tc(1) d(1)] by (simp add: truths)
  have "truth G m r \<longleftrightarrow> truth G m a = truth G m b" for m
    using distinct [of m] by (auto simp: d(3) truths andNode_def)
  moreover have "sentence r"
    using assms(3) b by (simp add: d(3) andNode_def sentence_AND_OR)
  ultimately show ?thesis
    using assms(1,3) by (intro rewrites_bool) (simp_all add: truth_EQUAL_sentence)
qed

section \<open>The cases\<close>

lemma preRewrite_NOT_sound: "sentence (mkNode K_NOT ns) \<Longrightarrow> rewrites_to G (mkNode K_NOT ns) (snd (preRewrite_NOT (mkNode K_NOT ns)))"
  by (intro rewrites_bool) (auto simp: preRewrite_NOT_def child_def sentence_NOT elim!: isKindE)

lemma all_same_eq: "all_same ns \<Longrightarrow> n \<in> set ns \<Longrightarrow> n = ns ! 0"
  by (induction ns rule: all_same.induct) auto

lemma preRewrite_lattice_sound:
  assumes "lattice k b" "sentence (mkNode k ns)" "size (mkNode k ns) + 1 < MAX_CHILDREN"
  shows "rewrites_to G (mkNode k ns) (snd (preRewrite_lattice k b (mkNode k ns)))"
proof -
  have ns: "2 \<le> length ns" "\<forall>n\<in>set ns. sentence n"
    using assms(1,2) by (auto simp: lattice_sentence)
  note val = lattice_truth [OF assms(1) ns(1)]
  consider (trivial) "CONST_BOOLEAN b \<in> set ns"
    | (flatten) "CONST_BOOLEAN b \<notin> set ns" "CONST_BOOLEAN (\<not> b) \<in> set ns \<or> list_ex (isKind k) ns"
    | (same) "CONST_BOOLEAN b \<notin> set ns" "\<not> (CONST_BOOLEAN (\<not> b) \<in> set ns \<or> list_ex (isKind k) ns)" "all_same ns"
    | (rest) "CONST_BOOLEAN b \<notin> set ns" "\<not> (CONST_BOOLEAN (\<not> b) \<in> set ns \<or> list_ex (isKind k) ns)" "\<not> all_same ns"
    by blast
  then show ?thesis
  proof cases
    case trivial
    then have "truth G m (mkNode k ns) = b" for m
      using val some_value_mono by fastforce
    with trivial assms(2) show ?thesis
      by (auto simp: preRewrite_lattice_def intro!: rewrites_bool)
  next
    case flatten
    with flattenNode_sound [OF assms] show ?thesis
      by (simp add: preRewrite_lattice_def)
  next
    case same
    have "ns \<noteq> []"
      using ns(1) by auto
    then have "some_value G m b (set ns) \<longleftrightarrow> truth G m (ns ! 0) = b" for m
      using all_same_eq [OF same(3)] by (auto simp: some_value_def intro: nth_mem)
    then have "truth G m (ns ! 0) = truth G m (mkNode k ns)" for m
      using val [of G m] by auto
    with same assms(2) ns \<open>ns \<noteq> []\<close> show ?thesis
      by (intro rewrites_bool) (auto simp: preRewrite_lattice_def child_def)
  next
    case rest
    then show ?thesis
      by (simp add: preRewrite_lattice_def rewrites_to_refl)
  qed
qed

lemma preRewrite_IMPLIES_sound:
  "sentence (mkNode K_IMPLIES ns) \<Longrightarrow> rewrites_to G (mkNode K_IMPLIES ns) (snd (preRewrite_IMPLIES (mkNode K_IMPLIES ns)))"
  by (intro rewrites_bool) (auto simp: preRewrite_IMPLIES_def child_def sentence_binary makeNegation_sound)

lemma complement_truth:
  assumes "sentence a" "isKind K_NOT a \<and> child a 0 = b \<or> isKind K_NOT b \<and> child b 0 = a" "sentence b"
  shows "truth G m a \<longleftrightarrow> \<not> truth G m b"
  using assms by (auto simp: sentence_NOT child_def elim!: isKindE)

lemma preRewrite_XOR_sound:
  assumes "sentence (mkNode K_XOR ns)"
  shows "rewrites_to G (mkNode K_XOR ns) (snd (preRewrite_XOR (mkNode K_XOR ns)))"
proof -
  obtain a b where ns: "ns = [a, b]" "sentence a" "sentence b"
    using assms by (auto simp: sentence_binary)
  have "truth G m a \<noteq> truth G m b" if "isKind K_NOT a \<and> children a ! 0 = b \<or> isKind K_NOT b \<and> children b ! 0 = a" for m
    using complement_truth [OF ns(2) _ ns(3)] that by (simp add: child_def)
  then show ?thesis
    using ns assms by (intro rewrites_bool) (simp_all add: preRewrite_XOR_def child_def makeNegation_sound)
qed

lemma preRewrite_EQUAL_sound:
  assumes "sentence (mkNode K_EQUAL ns)"
  shows "rewrites_to G (mkNode K_EQUAL ns) (snd (preRewrite_EQUAL getId (mkNode K_EQUAL ns)))"
proof -
  obtain a b T where ns: "ns = [a, b]" "typed a T" "typed b T"
    using assms by (auto simp: typed_EQUAL)
  note n = assms [unfolded ns(1)]
  let ?r = "snd (preRewrite_EQUAL getId (mkNode K_EQUAL [a, b]))"
  have "rewrites_to G (mkNode K_EQUAL [a, b]) ?r"
  proof (cases "sentence a")
    case True
    then have b: "sentence b" and eq: "\<And>m. truth G m (mkNode K_EQUAL [a, b]) \<longleftrightarrow> truth G m a = truth G m b"
        "\<And>m. truth G m (mkNode K_EQUAL [b, a]) \<longleftrightarrow> truth G m a = truth G m b" "sentence (mkNode K_EQUAL [b, a])"
      using n sentence_EQUAL_side [OF n] ns by (auto simp: truth_EQUAL_sentence typed_EQUAL)
    have compl: "truth G m a \<noteq> truth G m b" if "isKind K_NOT a \<and> children a ! 0 = b \<or> isKind K_NOT b \<and> children b ! 0 = a" for m
      using complement_truth [OF True _ b] that by (simp add: child_def)
    show ?thesis
    proof (cases "rewriteViaEqConstEq (mkNode K_EQUAL [a, b])")
      case None
      with True b eq n compl show ?thesis
        by (intro rewrites_bool) (simp_all add: preRewrite_EQUAL_def child_def makeNegation_sound)
    next
      case (Some r)
      note eqconst = rewriteViaEqConstEq_sound [OF n Some True]
      have "?r = r \<or> rewriteViaEqConstEq (mkNode K_EQUAL [a, b]) = Some r \<and> sentence ?r \<and>
          (\<forall>m. truth G m ?r \<longleftrightarrow> truth G m a = truth G m b)"
        using True b Some compl by (simp add: preRewrite_EQUAL_def child_def makeNegation_sound)
      with eqconst n eq(1) show ?thesis
        by (auto intro: rewrites_bool)
    qed
  next
    case False
    then have b: "\<not> sentence b"
      using n sentence_EQUAL_side by blast
    have "\<not> isKind K_NOT x \<and> \<not> isKind K_EQUAL x" if "typed x T" "\<not> sentence x" for x
      using that typed_NOT [of x T] by (auto simp: typed_def sentence_def isBoolean_def kind_type_def EqualityTypeRule_def
          split: option.splits if_splits elim!: isKindE)
    then have "\<not> isKind K_NOT a" "\<not> isKind K_NOT b" "rewriteViaEqConstEq (mkNode K_EQUAL [a, b]) = None"
      using False b ns(2,3) by (auto simp: rewriteViaEqConstEq_def child_def)
    moreover have "a \<noteq> CONST_BOOLEAN v" "b \<noteq> CONST_BOOLEAN v" for v
      using False b by auto
    ultimately have "?r \<in> {mkNode K_EQUAL [a, b], mkNode K_EQUAL [b, a]} \<or> a = b \<and> ?r = CONST_BOOLEAN True"
      by (auto simp: preRewrite_EQUAL_def child_def)
    then show ?thesis
      using n ns by (auto simp: typed_EQUAL truth_EQUAL_eval intro!: rewrites_bool)
  qed
  then show ?thesis
    by (simp add: ns(1))
qed

text \<open>An \<^verbatim>\<open>ITE\<close> may have any type; its branches are Boolean when one of them is.\<close>

lemma rewrites_ITE:
  assumes "sentence c" "typed x T" "typed y T" "typed r T" "\<And>m. eval G m r = (if truth G m c then eval G m x else eval G m y)"
  shows "rewrites_to G (mkNode K_ITE [c, x, y]) r"
  using assms typed_ITE [of "[c, x, y]"] by (intro rewrites_toI) (auto simp: truth_def dest: typed_unique)

lemma rewrites_ITE_bool:
  assumes "sentence c" "sentence x" "sentence y" "sentence r" "\<And>m. truth G m r = (if truth G m c then truth G m x else truth G m y)"
  shows "rewrites_to G (mkNode K_ITE [c, x, y]) r"
  using assms by (intro rewrites_bool) (auto simp: sentence_ITE)

lemma typed_Boolean: "typed x T \<Longrightarrow> typed y T \<Longrightarrow> sentence x \<Longrightarrow> sentence y"
  using typed_unique by (auto simp flip: typed_sentence)

lemma preRewrite_ITE_const_sound:
  assumes "sentence c" "typed x T" "typed y T"
  shows "rewrites_to G (mkNode K_ITE [c, x, y]) (snd (preRewrite_ITE_const (mkNode K_ITE [c, x, y])))"
proof (cases "sentence x \<and> sentence y")
  case True
  have "sentence (negate c)" "\<And>m. truth G m (negate c) \<longleftrightarrow> \<not> truth G m c"
    using negate_sound [OF assms(1)] by auto
  with True assms(1) show ?thesis
    by (intro rewrites_ITE_bool)
      (auto simp: preRewrite_ITE_const_def child_def orNode_def andNode_def Let_def sentence_simps)
next
  case False
  then have "x \<noteq> CONST_BOOLEAN b" "y \<noteq> CONST_BOOLEAN b" for b
    using typed_Boolean [OF assms(2,3)] typed_Boolean [OF assms(3,2)] by auto
  then show ?thesis
    by (simp add: preRewrite_ITE_const_def child_def Let_def rewrites_to_refl)
qed

lemma equalityParity_cases:
  assumes "equalityParity a b \<noteq> 0" "typed a T" "typed b T'"
  shows "if equalityParity a b = 1 then a = b
    else sentence a \<and> sentence b \<and> (\<forall>m. truth G m a \<longleftrightarrow> \<not> truth G m b)"
  using equalityParity_other [OF assms(1) _ assms(2,3)] by simp

lemma preRewrite_ITE_parity_sound:
  assumes c: "sentence c" and x: "typed x T" and y: "typed y T"
  shows "rewrites_to G (mkNode K_ITE [c, x, y]) (snd (preRewrite_ITE_parity (mkNode K_ITE [c, x, y])))"
proof -
  have tc: "typed c BOOLEAN_TYPE"
    using c by (simp add: typed_sentence)
  have inner: "\<exists>d u v. z = mkNode K_ITE [d, u, v] \<and> sentence d \<and> typed u T \<and> typed v T" if "isKind K_ITE z" "typed z T" for z
    using that by (auto simp: typed_ITE elim!: isKindE)
  consider (xy) "equalityParity x y \<noteq> 0"
    | (cx) "equalityParity x y = 0" "\<not> isConst x" "equalityParity c x \<noteq> 0"
    | (cy) "equalityParity x y = 0" "\<not> (\<not> isConst x \<and> equalityParity c x \<noteq> 0)" "\<not> isConst y" "equalityParity c y \<noteq> 0"
    | (x) "equalityParity x y = 0" "\<not> (\<not> isConst x \<and> equalityParity c x \<noteq> 0)" "\<not> (\<not> isConst y \<and> equalityParity c y \<noteq> 0)"
        "isKind K_ITE x" "equalityParity c (child x 0) \<noteq> 0"
    | (y) "equalityParity x y = 0" "\<not> (\<not> isConst x \<and> equalityParity c x \<noteq> 0)" "\<not> (\<not> isConst y \<and> equalityParity c y \<noteq> 0)"
        "\<not> (isKind K_ITE x \<and> equalityParity c (child x 0) \<noteq> 0)" "isKind K_ITE y" "equalityParity c (child y 0) \<noteq> 0"
    | (const) "equalityParity x y = 0" "\<not> (\<not> isConst x \<and> equalityParity c x \<noteq> 0)" "\<not> (\<not> isConst y \<and> equalityParity c y \<noteq> 0)"
        "\<not> (isKind K_ITE x \<and> equalityParity c (child x 0) \<noteq> 0)" "\<not> (isKind K_ITE y \<and> equalityParity c (child y 0) \<noteq> 0)"
    by blast
  then show ?thesis
  proof cases
    case xy
    note par = equalityParity_cases [OF xy x y]
    show ?thesis
    proof (cases "x = y")
      case True
      with xy c x y show ?thesis
        by (intro rewrites_ITE [where T = T]) (simp_all add: preRewrite_ITE_parity_def child_def Let_def)
    next
      case False
      with par have bools: "sentence x" "sentence y" "\<And>m. truth G m x \<longleftrightarrow> \<not> truth G m y"
        by auto
      moreover have "sentence (mkNode K_EQUAL [c, x])"
        using c bools(1) unfolding typed_EQUAL by (auto simp flip: typed_sentence)
      ultimately show ?thesis
        using xy False c by (intro rewrites_ITE_bool)
          (auto simp: preRewrite_ITE_parity_def child_def Let_def eqNode_def truth_EQUAL_sentence)
    qed
  next
    case cx
    have bools: "sentence x" "sentence y" "\<And>m. truth G m c = truth G m x \<longleftrightarrow> c = x"
      using equalityParity_cases [OF cx(3) tc x] c typed_Boolean [OF x y] by (auto split: if_splits)
    with cx c show ?thesis
      by (intro rewrites_ITE_bool) (auto simp: preRewrite_ITE_parity_def child_def Let_def iteNode_def sentence_ITE)
  next
    case cy
    have bools: "sentence y" "sentence x" "\<And>m. truth G m c = truth G m y \<longleftrightarrow> c = y"
      using equalityParity_cases [OF cy(4) tc y] c typed_Boolean [OF y x] by (auto split: if_splits)
    with cy c show ?thesis
      by (intro rewrites_ITE_bool) (auto simp: preRewrite_ITE_parity_def child_def Let_def iteNode_def sentence_ITE)
  next
    case x
    obtain d u v where z: "x = mkNode K_ITE [d, u, v]" "sentence d" "typed u T" "typed v T"
      using inner [OF x(4) assms(2)] by blast
    have "truth G m c = truth G m d \<longleftrightarrow> c = d" for m
      using equalityParity_cases [OF _ tc, of d BOOLEAN_TYPE] x(5) z(1,2)
      by (auto simp: child_def typed_sentence split: if_splits)
    moreover have "snd (preRewrite_ITE_parity (mkNode K_ITE [c, x, y])) = mkNode K_ITE [c, if c = d then u else v, y]"
      using x z(1) by (auto simp: preRewrite_ITE_parity_def child_def Let_def iteNode_def)
    ultimately show ?thesis
      using c z assms(2,3) by (intro rewrites_ITE [where T = T]) (auto simp: typed_ITE truth_def)
  next
    case y
    obtain d u v where z: "y = mkNode K_ITE [d, u, v]" "sentence d" "typed u T" "typed v T"
      using inner [OF y(5) assms(3)] by blast
    have "truth G m c = truth G m d \<longleftrightarrow> c = d" for m
      using equalityParity_cases [OF _ tc, of d BOOLEAN_TYPE] y(6) z(1,2)
      by (auto simp: child_def typed_sentence split: if_splits)
    moreover have "snd (preRewrite_ITE_parity (mkNode K_ITE [c, x, y])) = mkNode K_ITE [c, x, if c = d then v else u]"
      using y z(1) by (auto simp: preRewrite_ITE_parity_def child_def Let_def iteNode_def)
    ultimately show ?thesis
      using c z assms(2,3) by (intro rewrites_ITE [where T = T]) (auto simp: typed_ITE truth_def)
  next
    case const
    then have "preRewrite_ITE_parity (mkNode K_ITE [c, x, y]) = preRewrite_ITE_const (mkNode K_ITE [c, x, y])"
      by (auto simp: preRewrite_ITE_parity_def child_def Let_def)
    then show ?thesis
      using preRewrite_ITE_const_sound [OF assms] by simp
  qed
qed

lemma preRewrite_ITE_sound:
  assumes "typed (mkNode K_ITE ns) T"
  shows "rewrites_to G (mkNode K_ITE ns) (snd (preRewrite_ITE (mkNode K_ITE ns)))"
proof -
  obtain c x y where ns: "ns = [c, x, y]" "sentence c" "typed x T" "typed y T"
    using assms by (auto simp: typed_ITE)
  have const: "\<exists>b. c = CONST_BOOLEAN b" if "isConst c"
    using that ns(2) by (cases c) (auto simp: sentence_def isBoolean_def BitVectorConstantTypeRule_def split: if_splits)
  consider (const) "isConst c" | (direct) "\<not> isConst c" "x = CONST_BOOLEAN True" "y = CONST_BOOLEAN False"
    | (inverted) "\<not> isConst c" "x = CONST_BOOLEAN False" "y = CONST_BOOLEAN True"
    | (swap) "\<not> isConst c" "\<not> (x = CONST_BOOLEAN True \<and> y = CONST_BOOLEAN False)"
        "\<not> (x = CONST_BOOLEAN False \<and> y = CONST_BOOLEAN True)" "isKind K_NOT c"
    | (parity) "\<not> isConst c" "\<not> (x = CONST_BOOLEAN True \<and> y = CONST_BOOLEAN False)"
        "\<not> (x = CONST_BOOLEAN False \<and> y = CONST_BOOLEAN True)" "\<not> isKind K_NOT c"
    by blast
  then have "rewrites_to G (mkNode K_ITE [c, x, y]) (snd (preRewrite_ITE (mkNode K_ITE [c, x, y])))"
  proof cases
    case const
    then show ?thesis
      using ns \<open>isConst c \<Longrightarrow> \<exists>b. c = CONST_BOOLEAN b\<close>
      by (intro rewrites_ITE [where T = T]) (auto simp: preRewrite_ITE_def child_def Let_def)
  next
    case direct
    then show ?thesis
      using ns(2) by (intro rewrites_ITE_bool) (auto simp: preRewrite_ITE_def child_def Let_def)
  next
    case inverted
    then show ?thesis
      using ns(2) by (intro rewrites_ITE_bool) (auto simp: preRewrite_ITE_def child_def Let_def makeNegation_sound)
  next
    case swap
    obtain d where "c = mkNode K_NOT [d]" "sentence d"
      using swap(4) ns(2) by (auto simp: sentence_NOT elim!: isKindE)
    then show ?thesis
      using swap ns by (intro rewrites_ITE [where T = T])
        (auto simp: preRewrite_ITE_def child_def Let_def typed_ITE eval_ITE_node simp del: eval.simps)
  next
    case parity
    then have "preRewrite_ITE (mkNode K_ITE [c, x, y]) = preRewrite_ITE_parity (mkNode K_ITE [c, x, y])"
      by (auto simp: preRewrite_ITE_def child_def Let_def)
    then show ?thesis
      using preRewrite_ITE_parity_sound [OF ns(2-4)] by simp
  qed
  then show ?thesis
    by (simp add: ns(1))
qed

lemma sentence_kind:
  assumes "typed (mkNode k ns) T" "k \<in> {K_NOT, K_OR, K_AND, K_IMPLIES, K_EQUAL, K_XOR}"
  shows "sentence (mkNode k ns)"
  using assms by (auto simp: typed_def sentence_def isBoolean_def kind_type_def BooleanTypeRule_def EqualityTypeRule_def
      split: option.splits if_splits)

lemma preRewrite_rewrites_to:
  assumes "typed n T" "size n + 1 < MAX_CHILDREN"
  shows "rewrites_to G n (snd (preRewrite getId n))"
proof (cases n)
  case (mkNode k ns)
  have lattice: "lattice K_OR True" "lattice K_AND False"
    by (simp_all add: lattice_def)
  show ?thesis
  proof (cases "k \<in> {K_NOT, K_OR, K_AND, K_IMPLIES, K_EQUAL, K_XOR}")
    case True
    then have n: "sentence (mkNode k ns)"
      using sentence_kind assms(1) mkNode by blast
    from True consider "k = K_NOT" | "k = K_OR" | "k = K_AND" | "k = K_IMPLIES" | "k = K_EQUAL" | "k = K_XOR"
      by auto
    then show ?thesis
      using n assms(2) preRewrite_NOT_sound preRewrite_lattice_sound [OF lattice(1)] preRewrite_lattice_sound [OF lattice(2)]
        preRewrite_IMPLIES_sound preRewrite_EQUAL_sound preRewrite_XOR_sound
      by cases (simp_all add: mkNode preRewrite_def preRewrite_OR_def preRewrite_AND_def)
  next
    case False
    then show ?thesis
      using preRewrite_ITE_sound [of ns T] assms(1) by (auto simp: mkNode preRewrite_def rewrites_to_refl)
  qed
qed (simp_all add: preRewrite_def rewrites_to_refl)

end

section \<open>Property\<close>

text \<open>C16. The Boolean rewriter is sound: for a first-class term that has a type and fewer nodes than
  a node can have children, \<^verbatim>\<open>preRewrite\<close> (and so \<^verbatim>\<open>postRewrite\<close>) returns a term of the same type
  that has the same value in every model, whatever identifiers the node manager gave.\<close>

theorem bool_rewrite_sound:
  assumes "gmp_documented G" "getType n = Some T" "firstClass n" "size n + 1 < MAX_CHILDREN"
    and "postRewrite getId n = (status, r)"
  shows "getType r = Some T \<and> firstClass r \<and> (\<forall>m. eval G m r = eval G m n)"
  using gmp_documented.preRewrite_rewrites_to [OF assms(1) _ assms(4), of T getId] assms(2,3,5)
  by (simp add: typed_def rewrites_to_def postRewrite_def)

abbreviation nested_disjunction :: node where
  "nested_disjunction \<equiv> mkNode K_OR [prop_var 0, mkNode K_OR [prop_var 1, CONST_BOOLEAN False], prop_var 0]"

theorem bool_rewrite_sound_witness:
  "postRewrite (\<lambda>n. 0) nested_disjunction = (REWRITE_DONE, mkNode K_OR [prop_var 0, prop_var 1]) \<and>
   (\<forall>m. eval gmp_reference m (mkNode K_OR [prop_var 0, prop_var 1]) = eval gmp_reference m nested_disjunction)"
proof
  show rewrite: "postRewrite (\<lambda>n. 0) nested_disjunction = (REWRITE_DONE, mkNode K_OR [prop_var 0, prop_var 1])"
    by (simp add: postRewrite_def preRewrite_def preRewrite_OR_def preRewrite_lattice_def MAX_CHILDREN_def)
  have "getType nested_disjunction = Some BOOLEAN_TYPE" "firstClass nested_disjunction"
    by (simp_all add: kind_arity_def kind_type_def BooleanTypeRule_def kind_range_def)
  from bool_rewrite_sound [OF gmp_ref.gmp_documented_axioms this _ rewrite]
  show "\<forall>m. eval gmp_reference m (mkNode K_OR [prop_var 0, prop_var 1]) = eval gmp_reference m nested_disjunction"
    by (simp add: MAX_CHILDREN_def)
qed

end
