(* ===== verification/Bool_Nnf_Sound.thy ===== *)
theory Bool_Nnf_Sound
  imports Bool_Nnf Bool_Rewriter_Sound
begin

text \<open>
  The traversal of \<^verbatim>\<open>computeNnfNorm\<close> ends within its bound and returns a formula in negation normal
  form with the truth value of the input.
\<close>

section \<open>Normal forms\<close>

definition nnf_connective :: "node \<Rightarrow> bool" where
  "nnf_connective n \<longleftrightarrow> isKind K_NOT n \<or> isKind K_OR n \<or> isKind K_AND n \<or> isKind K_IMPLIES n \<or>
     isKind K_XOR n \<or> isKind K_ITE n \<or> is_bool_equal n"

text \<open>
  Negations stand on literals only, implications and exclusive disjunctions are gone, and a
  conjunction or disjunction has no child of its own kind and no atom twice.
\<close>

fun nnf :: "node \<Rightarrow> bool" where
  "nnf (mkNode k ns) =
     (if k = K_NOT then \<not> list_ex nnf_connective ns
      else if k = K_AND \<or> k = K_OR then list_all nnf ns \<and> \<not> list_ex (isKind k) ns \<and> distinct (map nnf_atom ns)
      else if k = K_ITE \<or> is_bool_equal (mkNode k ns) then list_all nnf ns
      else k \<noteq> K_IMPLIES \<and> k \<noteq> K_XOR)"
| "nnf n = True"

definition normal_of :: "gmp \<Rightarrow> node \<Rightarrow> node \<Rightarrow> bool" where
  "normal_of G x r \<longleftrightarrow> (sentence x \<longrightarrow> sentence r \<and> nnf r \<and> (\<forall>m. truth G m r = truth G m x))"

section \<open>The visit before the children\<close>

lemma nnf_fuel_pos: "sentence n \<Longrightarrow> 0 < nnf_fuel n"
  by (induction n) (auto simp: sentence_NOT)

lemma nnf_fuel_negate: "sentence n \<Longrightarrow> nnf_fuel (negate n) \<le> nnf_fuel n"
  by (auto simp: negate_def notNode_def sentence_NOT elim!: isKindE)

lemma nnf_children_simps:
  "nnf_children na n1 (mkNode k [a, b]) = [if n1 \<noteq> na then negate a else a, if na then negate b else b]"
  "nnf_children na n1 (mkNode k [a, b, c]) = [if n1 \<noteq> na then negate a else a, if na then negate b else b, if na then negate c else c]"
  by (simp_all add: nnf_children_def child_def upt_rec)

lemma nnf_children_list:
  "nnf_children False False (mkNode k ns) = ns" "nnf_children True False (mkNode k ns) = map negate ns"
  by (auto simp: nnf_children_def child_def intro!: nth_equalityI)

text \<open>What the first visit promises: the formula to build, with smaller children.\<close>

definition expands :: "gmp \<Rightarrow> node \<Rightarrow> kind \<Rightarrow> node list \<Rightarrow> bool" where
  "expands G cur k pc \<longleftrightarrow> k \<in> {K_AND, K_OR, K_EQUAL, K_ITE} \<and> (\<forall>c\<in>set pc. sentence c) \<and> sentence (mkNode k pc) \<and>
     (\<forall>m. truth G m (mkNode k pc) = truth G m cur) \<and> 2 + sum_list (map nnf_fuel pc) \<le> nnf_fuel cur \<and>
     (isKind k cur \<longrightarrow> cur = mkNode k pc)"

lemma sum_negate: "\<forall>n\<in>set ns. sentence n \<Longrightarrow> sum_list (map nnf_fuel (map negate ns)) \<le> sum_list (map nnf_fuel ns)"
  using nnf_fuel_negate by (induction ns) (auto intro: add_mono)

context gmp_documented
begin

lemma sentence_EQUAL_pair: "sentence a \<Longrightarrow> sentence b \<Longrightarrow> sentence (mkNode K_EQUAL [a, b])"
  unfolding typed_EQUAL by (auto simp flip: typed_sentence)

lemma bool_equal_cases:
  assumes "is_bool_equal n" "sentence n"
  obtains a b where "n = mkNode K_EQUAL [a, b]" "sentence a" "sentence b"
proof -
  obtain a b T where n: "n = mkNode K_EQUAL [a, b]" "typed a T" "typed b T"
    using assms by (auto simp: is_bool_equal_def typed_EQUAL elim!: isKindE)
  then have "sentence a"
    using assms(1) by (auto simp: is_bool_equal_def child_def typed_def sentence_def)
  with n that typed_Boolean show ?thesis
    by blast
qed

lemmas negated = negate_sound [THEN conjunct1] negate_sound [THEN conjunct2] nnf_fuel_negate

lemma expands_positive:
  assumes "sentence cur" "nnf_preVisit cur = NnfConnective k pc" "\<not> isKind K_NOT cur"
  shows "expands G cur k pc"
proof -
  consider (IMPLIES) a b where "cur = mkNode K_IMPLIES [a, b]" "sentence a" "sentence b" "k = K_OR" "pc = [negate a, b]"
    | (XOR) a b where "cur = mkNode K_XOR [a, b]" "sentence a" "sentence b" "k = K_EQUAL" "pc = [negate a, b]"
    | (ITE) c a b where "cur = mkNode K_ITE [c, a, b]" "sentence c" "sentence a" "sentence b" "k = K_ITE" "pc = [c, a, b]"
    | (nary) ns where "cur = mkNode k ns" "k = K_AND \<or> k = K_OR" "pc = ns"
    | (EQUAL) a b where "cur = mkNode K_EQUAL [a, b]" "sentence a" "sentence b" "k = K_EQUAL" "pc = [a, b]"
  proof (cases "is_bool_equal cur")
    case True
    obtain a b where ab: "cur = mkNode K_EQUAL [a, b]" "sentence a" "sentence b"
      using bool_equal_cases [OF True assms(1)] by blast
    with True assms(2) show thesis
      by (intro that(5) [of a b]) (auto simp: nnf_preVisit_def nnf_children_list)
  next
    case False
    with assms that show thesis
      by (auto simp: nnf_preVisit_def Let_def sentence_simps nnf_children_simps nnf_children_list split: if_splits elim!: isKindE)
  qed
  then show ?thesis
  proof cases
    case IMPLIES
    with negated(1,2) nnf_fuel_negate [OF IMPLIES(2)] show ?thesis
      by (auto simp: expands_def sentence_simps)
  next
    case XOR
    with negated(1,2) nnf_fuel_negate [OF XOR(2)] show ?thesis
      by (auto simp: expands_def sentence_EQUAL_pair truth_EQUAL_sentence)
  next
    case EQUAL
    then show ?thesis
      by (auto simp: expands_def sentence_EQUAL_pair)
  qed (use assms(1) in \<open>auto simp: expands_def sentence_simps\<close>)
qed

lemma expands_negative:
  assumes "sentence cur" "nnf_preVisit cur = NnfConnective k pc" "isKind K_NOT cur"
  shows "expands G cur k pc"
proof -
  obtain x where cur: "cur = mkNode K_NOT [x]" "sentence x"
    using assms(1,3) by (auto simp: sentence_NOT elim!: isKindE)
  consider (OR) ns where "x = mkNode K_OR ns" "k = K_AND" "pc = map negate ns"
    | (AND) ns where "x = mkNode K_AND ns" "k = K_OR" "pc = map negate ns"
    | (IMPLIES) a b where "x = mkNode K_IMPLIES [a, b]" "sentence a" "sentence b" "k = K_AND" "pc = [a, negate b]"
    | (XOR) a b where "x = mkNode K_XOR [a, b]" "sentence a" "sentence b" "k = K_EQUAL" "pc = [a, b]"
    | (EQUAL) a b where "x = mkNode K_EQUAL [a, b]" "sentence a" "sentence b" "k = K_EQUAL" "pc = [negate a, b]"
    | (ITE) c a b where "x = mkNode K_ITE [c, a, b]" "sentence c" "sentence a" "sentence b" "k = K_ITE" "pc = [c, negate a, negate b]"
  proof (cases "is_bool_equal x")
    case True
    obtain a b where ab: "x = mkNode K_EQUAL [a, b]" "sentence a" "sentence b"
      using bool_equal_cases [OF True cur(2)] by blast
    with True assms(2) show thesis
      by (intro that(5) [of a b]) (auto simp: nnf_preVisit_def cur(1) child_def Let_def nnf_children_simps)
  next
    case False
    with assms(2) cur that show thesis
      by (auto simp: nnf_preVisit_def child_def Let_def sentence_simps nnf_children_simps nnf_children_list split: if_splits elim!: isKindE)
  qed
  then show ?thesis
  proof cases
    case OR
    with cur have "\<forall>n\<in>set ns. sentence n" "2 \<le> length ns"
      by (auto simp: sentence_simps)
    with OR cur negated(1,2) sum_negate [of ns] show ?thesis
      by (auto simp: expands_def sentence_simps truth_n_ary)
  next
    case AND
    with cur have "\<forall>n\<in>set ns. sentence n" "2 \<le> length ns"
      by (auto simp: sentence_simps)
    with AND cur negated(1,2) sum_negate [of ns] show ?thesis
      by (auto simp: expands_def sentence_simps truth_n_ary)
  next
    case IMPLIES
    with cur negated(1,2) nnf_fuel_negate [OF IMPLIES(3)] show ?thesis
      by (auto simp: expands_def sentence_simps)
  next
    case XOR
    with cur show ?thesis
      by (auto simp: expands_def sentence_EQUAL_pair truth_EQUAL_sentence)
  next
    case EQUAL
    with cur negated(1,2) nnf_fuel_negate [OF EQUAL(2)] show ?thesis
      by (auto simp: expands_def sentence_EQUAL_pair truth_EQUAL_sentence)
  next
    case ITE
    with cur negated(1,2) nnf_fuel_negate [OF ITE(3)] nnf_fuel_negate [OF ITE(4)] show ?thesis
      by (auto simp: expands_def sentence_simps)
  qed
qed

lemma preVisit_connective: "sentence cur \<Longrightarrow> nnf_preVisit cur = NnfConnective k pc \<Longrightarrow> expands G cur k pc"
  using expands_positive expands_negative by blast

lemma preVisit_literal:
  assumes "sentence cur" "nnf_preVisit cur = NnfLiteral"
  shows "nnf cur"
proof (cases "isKind K_NOT cur")
  case True
  then obtain x where "cur = mkNode K_NOT [x]"
    using assms(1) by (auto simp: sentence_NOT elim!: isKindE)
  with assms(2) show ?thesis
    by (auto simp: nnf_preVisit_def nnf_connective_def child_def Let_def split: if_splits)
next
  case False
  with assms(2) show ?thesis
    by (cases cur) (auto simp: nnf_preVisit_def Let_def split: if_splits)
qed

lemma preVisit_cancel:
  assumes "sentence cur" "nnf_preVisit cur = NnfCancel p"
  shows "sentence p" "truth G m p = truth G m cur" "2 + nnf_fuel p \<le> nnf_fuel cur"
  using assms by (auto simp: nnf_preVisit_def Let_def child_def sentence_NOT split: if_splits elim!: isKindE)

end

section \<open>The visit after the children\<close>

text \<open>The literal of a child, by its atom and its polarity.\<close>

lemma truth_atom: "sentence c \<Longrightarrow> truth G m c \<longleftrightarrow> (truth G m (nnf_atom c) \<longleftrightarrow> \<not> isKind K_NOT c)"
  by (auto simp: nnf_atom_def child_def sentence_NOT elim!: isKindE)

definition collected :: "kind \<Rightarrow> nnf_acc \<Rightarrow> bool" where
  "collected k acc = (case acc of (cs, lit_pol, changed) \<Rightarrow>
     (\<forall>c\<in>set cs. sentence c \<and> nnf c \<and> \<not> isKind k c) \<and> distinct (map nnf_atom cs) \<and>
     (\<forall>l p. lit_pol l = Some p \<longleftrightarrow> (\<exists>c\<in>set cs. nnf_atom c = l \<and> p = (\<not> isKind K_NOT c))))"

definition adds :: "gmp \<Rightarrow> kind \<Rightarrow> bool \<Rightarrow> node list \<Rightarrow> nnf_acc \<Rightarrow> nnf_acc option \<Rightarrow> bool" where
  "adds G k b xs acc r = (case r of
     None \<Rightarrow> \<forall>m. some_value G m b (set (fst acc) \<union> set xs)
   | Some acc' \<Rightarrow> collected k acc' \<and> (\<forall>m. some_value G m b (set (fst acc')) \<longleftrightarrow> some_value G m b (set (fst acc) \<union> set xs)) \<and>
       (xs \<noteq> [] \<or> fst acc \<noteq> [] \<longrightarrow> fst acc' \<noteq> []) \<and>
       (\<not> snd (snd acc') \<longrightarrow> \<not> snd (snd acc) \<and> fst acc' = fst acc @ xs))"

lemma adds_trans:
  assumes "adds G k b xs acc (Some acc')" "adds G k b ys acc' r"
  shows "adds G k b (xs @ ys) acc r"
  using assms by (auto simp: adds_def split: option.splits)

lemma addNnfNormChild_adds:
  assumes "lattice k b" "collected k acc" "sentence c" "nnf c" "\<not> isKind k c"
  shows "adds G k b [c] acc (addNnfNormChild k c acc)"
proof -
  obtain cs lp ch where acc: "acc = (cs, lp, ch)"
    by (cases acc)
  have k: "k = K_OR \<or> k = K_AND"
    using assms(1) by (auto simp: lattice_def)
  have cs: "\<forall>d\<in>set cs. sentence d \<and> nnf d \<and> \<not> isKind k d" "distinct (map nnf_atom cs)"
      "\<And>l p. lp l = Some p \<longleftrightarrow> (\<exists>d\<in>set cs. nnf_atom d = l \<and> p = (\<not> isKind K_NOT d))"
    using assms(2) by (simp_all add: collected_def acc)
  show ?thesis
  proof (cases "lp (nnf_atom c)")
    case None
    then have new: "nnf_atom c \<notin> nnf_atom ` set cs"
      using cs(3) [of "nnf_atom c" True] cs(3) [of "nnf_atom c" False] by auto
    have "addNnfNormChild k c acc = Some (cs @ [c], lp(nnf_atom c \<mapsto> \<not> isKind K_NOT c), ch)"
      using None k by (auto simp: addNnfNormChild_def acc)
    moreover have "collected k (cs @ [c], lp(nnf_atom c \<mapsto> \<not> isKind K_NOT c), ch)"
      unfolding collected_def prod.case
    proof (intro conjI allI)
      show "\<forall>d\<in>set (cs @ [c]). sentence d \<and> nnf d \<and> \<not> isKind k d" "distinct (map nnf_atom (cs @ [c]))"
        using assms(3-5) cs(1,2) new by simp_all
      show "(lp(nnf_atom c \<mapsto> \<not> isKind K_NOT c)) l = Some p \<longleftrightarrow>
          (\<exists>d\<in>set (cs @ [c]). nnf_atom d = l \<and> p = (\<not> isKind K_NOT d))" for l p
      proof (cases "l = nnf_atom c")
        case True
        have "\<forall>d\<in>set cs. nnf_atom d \<noteq> nnf_atom c"
          using new by (metis imageI)
        with True show ?thesis
          by auto
      next
        case False
        then show ?thesis
          using cs(3) [of l p] by auto
      qed
    qed
    ultimately show ?thesis
      by (simp add: adds_def acc)
  next
    case (Some p)
    then obtain d where d: "d \<in> set cs" "nnf_atom d = nnf_atom c" "p = (\<not> isKind K_NOT d)"
      using cs(3) by blast
    then have td: "truth G m d \<longleftrightarrow> (truth G m (nnf_atom c) \<longleftrightarrow> p)" for m
      using cs(1) truth_atom [of d G m] by auto
    note tc = truth_atom [OF assms(3)]
    show ?thesis
    proof (cases "p = (\<not> isKind K_NOT c)")
      case True
      then have "some_value G m b (set cs) \<longleftrightarrow> some_value G m b (set cs \<union> {c})" for m
        using d(1) td [of m] tc [of G m] by (auto simp: some_value_def)
      moreover have "addNnfNormChild k c acc = Some (cs, lp, True)"
        using Some True k by (auto simp: addNnfNormChild_def acc)
      ultimately show ?thesis
        using assms(2) d(1) by (auto simp: adds_def acc collected_def)
    next
      case False
      then have "some_value G m b (set cs \<union> {c})" for m
        using d(1) td [of m] tc [of G m] by (auto simp: some_value_def)
      moreover have "addNnfNormChild k c acc = None"
        using Some False k by (auto simp: addNnfNormChild_def acc)
      ultimately show ?thesis
        by (simp add: adds_def acc)
    qed
  qed
qed

lemma addNnfNormChildren_adds:
  assumes "lattice k b"
  shows "collected k acc \<Longrightarrow> \<forall>c\<in>set xs. sentence c \<and> nnf c \<and> \<not> isKind k c \<Longrightarrow>
    adds G k b xs acc (addNnfNormChildren k xs acc)"
proof (induction xs arbitrary: acc)
  case Nil
  then show ?case by (simp add: adds_def)
next
  case (Cons c xs)
  have add: "adds G k b [c] acc (addNnfNormChild k c acc)"
    using Cons.prems by (intro addNnfNormChild_adds [OF assms]) auto
  show ?case
  proof (cases "addNnfNormChild k c acc")
    case None
    with add show ?thesis
      by (auto simp: adds_def)
  next
    case (Some acc')
    with add have "collected k acc'"
      by (simp add: adds_def)
    with Cons have "adds G k b xs acc' (addNnfNormChildren k xs acc')"
      by simp
    with adds_trans [OF add [unfolded Some]] Some show ?thesis
      by fastforce
  qed
qed

text \<open>The loop over the children, for the two flattened kinds and for the others.\<close>

lemma nnf_collect_adds:
  assumes "lattice k b"
  shows "collected k acc \<Longrightarrow> \<forall>(cn, c)\<in>set cs. sentence c \<and> nnf c \<Longrightarrow>
    (case nnf_collect (Some k) cs acc of
       None \<Rightarrow> \<forall>m. some_value G m b (set (fst acc) \<union> snd ` set cs)
     | Some acc' \<Rightarrow> collected k acc' \<and> (\<forall>m. some_value G m b (set (fst acc')) \<longleftrightarrow> some_value G m b (set (fst acc) \<union> snd ` set cs)) \<and>
         (cs \<noteq> [] \<or> fst acc \<noteq> [] \<longrightarrow> fst acc' \<noteq> []) \<and>
         (\<not> snd (snd acc') \<longrightarrow> \<not> snd (snd acc) \<and> fst acc' = fst acc @ map fst cs))"
proof (induction cs arbitrary: acc)
  case Nil
  then show ?case by simp
next
  case (Cons p cs)
  obtain cn c where p: "p = (cn, c)" by fastforce
  obtain chs lp ch where acc: "acc = (chs, lp, ch)" by (cases acc)
  have c: "sentence c" "nnf c"
    using Cons.prems(2) by (auto simp: p)
  define xs where "xs = (if isKind k c then children c else [c])"
  define r where "r = (if isKind k c then addNnfNormChildren k xs (chs, lp, True) else addNnfNormChild k c acc)"
  have k: "k = K_OR \<or> k = K_AND"
    using assms by (auto simp: lattice_def)
  have start: "collected k (chs, lp, x)" for x
    using Cons.prems(1) by (simp add: acc collected_def)
  have xs: "\<forall>x\<in>set xs. sentence x \<and> nnf x \<and> \<not> isKind k x" "xs \<noteq> []" "\<And>m. some_value G m b (set xs) \<longleftrightarrow> truth G m c = b"
  proof -
    show "\<forall>x\<in>set xs. sentence x \<and> nnf x \<and> \<not> isKind k x" "xs \<noteq> []"
    proof (atomize (full), cases "isKind k c")
      case True
      then obtain ns where "c = mkNode k ns"
        by (rule isKindE)
      with c k show "(\<forall>x\<in>set xs. sentence x \<and> nnf x \<and> \<not> isKind k x) \<and> xs \<noteq> []"
        by (auto simp: xs_def sentence_simps list_all_iff list_ex_iff)
    qed (use c in \<open>simp add: xs_def\<close>)
    show "some_value G m b (set xs) \<longleftrightarrow> truth G m c = b" for m
      using lattice_isKind(2) [OF assms _ c(1), of G m] by (auto simp: xs_def)
  qed
  have add: "adds G k b xs (chs, lp, isKind k c \<or> ch) r"
    using addNnfNormChildren_adds [OF assms start [of True] xs(1)] addNnfNormChild_adds [OF assms Cons.prems(1) c]
    by (auto simp: r_def xs_def acc)
  have step: "nnf_collect (Some k) (p # cs) acc =
      (case r of None \<Rightarrow> None | Some (chs, lp, ch) \<Rightarrow> nnf_collect (Some k) cs (chs, lp, ch \<or> c \<noteq> cn))"
    using k by (simp add: p acc r_def xs_def)
  show ?case
  proof (cases r)
    case None
    with add xs(3) show ?thesis
      unfolding step by (auto simp: p acc adds_def)
  next
    case (Some acc')
    obtain chs' lp' ch' where acc': "acc' = (chs', lp', ch')" by (cases acc')
    have new: "collected k (chs', lp', x)" for x
      using add by (simp add: Some acc' adds_def collected_def)
    have facts: "\<And>m. some_value G m b (set chs') \<longleftrightarrow> some_value G m b (set chs \<union> {c})" "chs' \<noteq> []"
        "\<not> ch' \<Longrightarrow> \<not> ch \<and> \<not> isKind k c \<and> chs' = chs @ [c]"
      using add xs(2,3) by (auto simp: Some acc' adds_def xs_def)
    show ?thesis
      using Cons.IH [OF new [of "ch' \<or> c \<noteq> cn"]] Cons.prems(2) facts
      unfolding step by (auto simp: Some acc' p acc split: option.splits)
  qed
qed

lemma nnf_collect_plain:
  assumes "k \<noteq> Some K_OR" "k \<noteq> Some K_AND"
  shows "nnf_collect k cs (chs, lp, ch) = Some (chs @ map snd cs, lp, ch \<or> (\<exists>(cn, c)\<in>set cs. c \<noteq> cn))"
  using assms by (induction cs arbitrary: chs ch) (auto simp: addNnfNormChild_def split: option.splits)

context gmp_documented
begin

lemma postVisit_lattice:
  assumes "lattice k b" "expands G cur k pc" "map fst cs = pc" "\<forall>(cn, c)\<in>set cs. normal_of G cn c"
  shows "normal_of G cur (nnf_postVisit cur (Some k) cs)"
proof -
  have pc: "\<forall>c\<in>set pc. sentence c" "sentence (mkNode k pc)" "\<And>m. truth G m (mkNode k pc) = truth G m cur"
      "isKind k cur \<Longrightarrow> cur = mkNode k pc" "2 \<le> length pc"
    using assms(1,2) by (auto simp: expands_def lattice_sentence)
  have kids: "\<forall>(cn, c)\<in>set cs. sentence c \<and> nnf c \<and> (\<forall>m. truth G m c = truth G m cn)"
    using assms(3,4) pc(1) by (force simp: normal_of_def)
  have "some_value G m b (snd ` set cs) \<longleftrightarrow> some_value G m b (fst ` set cs)" for m
    using kids by (fastforce simp: some_value_def)
  then have val: "some_value G m b (snd ` set cs) \<longleftrightarrow> truth G m cur = b" for m
    using lattice_truth [OF assms(1) pc(5), of G m] pc(3) [of m] assms(3) [symmetric] by simp
  have "collected k ([], (\<lambda>l. None), False)"
    by (simp add: collected_def)
  moreover have "\<forall>(cn, c)\<in>set cs. sentence c \<and> nnf c"
    using kids by auto
  ultimately have "case nnf_collect (Some k) cs ([], (\<lambda>l. None), False) of
       None \<Rightarrow> \<forall>m. some_value G m b (snd ` set cs)
     | Some acc' \<Rightarrow> collected k acc' \<and> (\<forall>m. some_value G m b (set (fst acc')) \<longleftrightarrow> some_value G m b (snd ` set cs)) \<and>
         (cs \<noteq> [] \<longrightarrow> fst acc' \<noteq> []) \<and> (\<not> snd (snd acc') \<longrightarrow> fst acc' = map fst cs)"
    using nnf_collect_adds [OF assms(1), of "([], (\<lambda>l. None), False)" cs G] by (cases "nnf_collect (Some k) cs ([], (\<lambda>l. None), False)") auto
  moreover have "cs \<noteq> []"
    using assms(3) pc(5) by auto
  ultimately have collect: "case nnf_collect (Some k) cs ([], (\<lambda>l. None), False) of None \<Rightarrow> \<forall>m. truth G m cur = b
      | Some acc \<Rightarrow> collected k acc \<and> (\<forall>m. some_value G m b (set (fst acc)) \<longleftrightarrow> truth G m cur = b) \<and> fst acc \<noteq> [] \<and>
          (\<not> snd (snd acc) \<longrightarrow> fst acc = pc)"
    unfolding val assms(3) by (cases "nnf_collect (Some k) cs ([], (\<lambda>l. None), False)") auto
  have k: "k = K_OR \<and> b \<or> k = K_AND \<and> \<not> b"
    using assms(1) by (simp add: lattice_def)
  show ?thesis
  proof (cases "nnf_collect (Some k) cs ([], (\<lambda>l. None), False)")
    case None
    with collect k show ?thesis
      by (auto simp: nnf_postVisit_def normal_of_def)
  next
    case (Some acc)
    obtain chs lp ch where acc: "acc = (chs, lp, ch)" by (cases acc)
    have chs: "\<forall>c\<in>set chs. sentence c \<and> nnf c \<and> \<not> isKind k c" "distinct (map nnf_atom chs)" "chs \<noteq> []" "\<not> ch \<Longrightarrow> chs = pc"
        "\<And>m. some_value G m b (set chs) \<longleftrightarrow> truth G m cur = b"
      using collect by (auto simp: Some acc collected_def)
    have normal: "nnf (mkNode k chs)"
      using chs(1,2) k by (auto simp: list_all_iff list_ex_iff)
    consider (one) c where "chs = [c]" | (many) "2 \<le> length chs"
      using chs(3) by (cases chs rule: list.exhaust [case_product list.exhaust [of "tl chs"]]) (auto simp: Suc_le_eq)
    then show ?thesis
    proof cases
      case one
      then have "ch"
        using chs(4) pc(5) by (cases ch) auto
      moreover have "truth G m c = truth G m cur" for m
        using one chs(5) [of m] by auto
      ultimately show ?thesis
        using one chs(1) k Some by (auto simp: nnf_postVisit_def normal_of_def acc)
    next
      case many
      have "truth G m (mkNode k chs) = truth G m cur" for m
        using chs(5) [of m] lattice_truth [OF assms(1) many, of G m] by auto
      moreover have "nnf_postVisit cur (Some k) cs = mkNode k chs"
        using many Some chs(4) pc(4) by (auto simp: nnf_postVisit_def acc)
      ultimately show ?thesis
        using normal chs(1) many lattice_sentence [OF assms(1)] by (auto simp: normal_of_def)
    qed
  qed
qed

lemma postVisit_plain:
  assumes "k = K_EQUAL \<or> k = K_ITE" "expands G cur k pc" "map fst cs = pc" "\<forall>(cn, c)\<in>set cs. normal_of G cn c"
  shows "normal_of G cur (nnf_postVisit cur (Some k) cs)"
proof -
  have pc: "\<forall>c\<in>set pc. sentence c" "sentence (mkNode k pc)" "\<And>m. truth G m (mkNode k pc) = truth G m cur"
      "isKind k cur \<Longrightarrow> cur = mkNode k pc"
    using assms(2) by (auto simp: expands_def)
  have kids: "\<forall>(cn, c)\<in>set cs. sentence cn \<and> sentence c \<and> nnf c \<and> (\<forall>m. truth G m c = truth G m cn)"
    using assms(3,4) pc(1) by (force simp: normal_of_def)
  define rs where "rs = map snd cs"
  have "sentence (mkNode k rs) \<and> (\<forall>m. truth G m (mkNode k rs) = truth G m (mkNode k pc)) \<and> nnf (mkNode k rs) \<and> length rs \<noteq> 1"
  proof (cases "k = K_EQUAL")
    case True
    with pc(2) obtain a b where "pc = [a, b]"
      by (auto simp: typed_EQUAL)
    with assms(3) obtain a' b' where "cs = [(a, a'), (b, b')]"
      by (auto simp: map_eq_Cons_conv)
    with True kids \<open>pc = [a, b]\<close> show ?thesis
      by (simp add: rs_def sentence_EQUAL_pair truth_EQUAL_sentence is_bool_equal_def)
  next
    case False
    with assms(1) have k: "k = K_ITE"
      by simp
    with pc(2) obtain a b c where "pc = [a, b, c]"
      by (auto simp: sentence_ITE)
    with assms(3) obtain a' b' c' where "cs = [(a, a'), (b, b'), (c, c')]"
      by (auto simp: map_eq_Cons_conv)
    with k kids \<open>pc = [a, b, c]\<close> show ?thesis
      by (simp add: rs_def sentence_ITE)
  qed
  then have rs: "sentence (mkNode k rs)" "\<And>m. truth G m (mkNode k rs) = truth G m (mkNode k pc)" "nnf (mkNode k rs)" "length rs \<noteq> 1"
    by simp_all
  have "rs = pc" if "\<not> (\<exists>(cn, c)\<in>set cs. c \<noteq> cn)"
    using that assms(3) by (auto simp: rs_def intro!: map_cong)
  moreover have "nnf_collect (Some k) cs ([], (\<lambda>l. None), False) = Some (rs, (\<lambda>l. None), \<exists>(cn, c)\<in>set cs. c \<noteq> cn)"
    using nnf_collect_plain [of "Some k" cs "[]"] assms(1) by (auto simp: rs_def)
  ultimately have "nnf_postVisit cur (Some k) cs = mkNode k rs"
    using rs(4) pc(4) by (auto simp: nnf_postVisit_def)
  with rs pc(3) show ?thesis
    by (simp add: normal_of_def)
qed

lemma postVisit_connective:
  assumes "expands G cur k pc" "map fst cs = pc" "\<forall>(cn, c)\<in>set cs. normal_of G cn c"
  shows "normal_of G cur (nnf_postVisit cur (Some k) cs)"
proof -
  consider "lattice k True" | "lattice k False" | "k = K_EQUAL \<or> k = K_ITE"
    using assms(1) by (auto simp: expands_def lattice_def)
  then show ?thesis
    using postVisit_lattice postVisit_plain assms by cases blast+
qed

lemma postVisit_cancel:
  assumes "nnf_preVisit cur = NnfCancel p" "normal_of G p c"
  shows "normal_of G cur (nnf_postVisit cur None [(p, c)])"
  using assms preVisit_cancel [OF _ assms(1)] by (simp add: nnf_postVisit_def normal_of_def)

end

section \<open>The traversal\<close>

definition nnf_inv :: "gmp \<Rightarrow> nnf_state \<Rightarrow> bool" where
  "nnf_inv G st \<longleftrightarrow> (\<forall>x r. visited st x = Some (Some r) \<or> nnfAttribute st x = Some r \<longrightarrow> normal_of G x r)"

text \<open>Entries stay, and no node is left in progress.\<close>

definition nnf_grown :: "nnf_state \<Rightarrow> nnf_state \<Rightarrow> bool" where
  "nnf_grown st st' \<longleftrightarrow>
     (\<forall>x. visited st x \<noteq> None \<longrightarrow> visited st' x = visited st x \<and> preKind st' x = preKind st x \<and> preChildren st' x = preChildren st x) \<and>
     (\<forall>x. visited st' x = Some None \<longrightarrow> visited st x = Some None)"

lemma nnf_grownD:
  assumes "nnf_grown st st'"
  shows "visited st x = Some v \<Longrightarrow> visited st' x = Some v \<and> preKind st' x = preKind st x \<and> preChildren st' x = preChildren st x"
    and "visited st' x = Some None \<Longrightarrow> visited st x = Some None"
  using assms by (auto simp: nnf_grown_def)

lemma nnf_grown_refl: "nnf_grown st st"
  by (simp add: nnf_grown_def)

lemma nnf_grown_trans: "nnf_grown st st' \<Longrightarrow> nnf_grown st' st'' \<Longrightarrow> nnf_grown st st''"
  unfolding nnf_grown_def by metis

definition in_progress_above :: "nat \<Rightarrow> nnf_state \<Rightarrow> bool" where
  "in_progress_above n st \<longleftrightarrow> (\<forall>x. visited st x = Some None \<longrightarrow> n < nnf_fuel x)"

text \<open>
  The loop takes the top of the stack off: within the bound of the node it is visited, and the
  state is a grown one.
\<close>

definition visits :: "gmp \<Rightarrow> node list \<Rightarrow> nnf_state \<Rightarrow> nnf_state \<Rightarrow> bool" where
  "visits G cs st st' \<longleftrightarrow>
     (\<exists>j \<le> sum_list (map nnf_fuel cs). \<forall>fuel visit. nnf_loop (j + fuel) (cs @ visit) st = nnf_loop fuel visit st') \<and>
     nnf_inv G st' \<and> nnf_grown st st' \<and> (\<forall>c\<in>set cs. \<exists>r. visited st' c = Some (Some r))"

lemma visits_Nil: "nnf_inv G st \<Longrightarrow> visits G [] st st"
  by (simp add: visits_def nnf_grown_refl)

lemma visits_Cons:
  assumes "visits G [c] st st'" "visits G cs st' st''"
  shows "visits G (c # cs) st st''"
proof -
  obtain j where j: "j \<le> nnf_fuel c" "\<And>fuel visit. nnf_loop (j + fuel) (c # visit) st = nnf_loop fuel visit st'"
    using assms(1) by (auto simp: visits_def)
  obtain j' where j': "j' \<le> sum_list (map nnf_fuel cs)" "\<And>fuel visit. nnf_loop (j' + fuel) (cs @ visit) st' = nnf_loop fuel visit st''"
    using assms(2) by (auto simp: visits_def)
  have "nnf_loop (j + j' + fuel) (c # cs @ visit) st = nnf_loop fuel visit st''" for fuel visit
    using j(2) [of "j' + fuel"] j'(2) by (simp add: add.assoc)
  moreover have "\<exists>r. visited st'' c = Some (Some r)"
    using assms nnf_grownD(1) [of st' st'' c] by (auto simp: visits_def)
  moreover have "nnf_grown st st''"
    using assms nnf_grown_trans by (auto simp: visits_def)
  ultimately show ?thesis
    using assms(2) j(1) j'(1) by (auto simp: visits_def intro!: exI [of _ "j + j'"])
qed

lemma visits_list:
  assumes "\<And>c st. c \<in> set cs \<Longrightarrow> nnf_inv G st \<Longrightarrow> in_progress_above (nnf_fuel c) st \<Longrightarrow> \<exists>st'. visits G [c] st st'"
    and "nnf_inv G st" "\<And>c. c \<in> set cs \<Longrightarrow> in_progress_above (nnf_fuel c) st"
  shows "\<exists>st'. visits G cs st st'"
  using assms
proof (induction cs arbitrary: st)
  case Nil
  then show ?case
    using visits_Nil by blast
next
  case (Cons c cs)
  obtain st1 where st1: "visits G [c] st st1"
    using Cons.prems by fastforce
  then have "nnf_inv G st1" "\<And>d. d \<in> set cs \<Longrightarrow> in_progress_above (nnf_fuel d) st1"
    using Cons.prems(3) by (auto simp: visits_def nnf_grown_def in_progress_above_def)
  then obtain st2 where "visits G cs st1 st2"
    using Cons.IH [of st1] Cons.prems(1) by auto
  with st1 visits_Cons show ?case
    by blast
qed

lemma those_visited:
  assumes "\<forall>c\<in>set pc. \<exists>r. visited st c = Some (Some r)"
  shows "\<exists>cs. those (map (\<lambda>cn. case visited st cn of Some (Some c) \<Rightarrow> Some (cn, c) | _ \<Rightarrow> None) pc) = Some cs \<and>
     map fst cs = pc \<and> (\<forall>(cn, c)\<in>set cs. visited st cn = Some (Some c))"
  using assms by (induction pc) auto

lemma visits_single:
  assumes "\<And>visit. nnf_step cur visit st = Some (visit, st')" "0 < nnf_fuel cur"
    and "nnf_inv G st'" "nnf_grown st st'" "visited st' cur = Some (Some r)"
  shows "visits G [cur] st st'"
  using assms by (auto simp: visits_def intro!: exI [of _ 1])

lemma visits_enter:
  assumes "visited st cur = None" "\<And>visit. nnf_step cur visit st = Some (rev pc @ cur # visit, nnf_enter cur k pc st)"
    and kids: "visits G (rev pc) (nnf_enter cur k pc st) st1" and fuel: "2 + sum_list (map nnf_fuel pc) \<le> nnf_fuel cur"
    and post: "\<And>cs. map fst cs = pc \<Longrightarrow> \<forall>(cn, c)\<in>set cs. normal_of G cn c \<Longrightarrow> normal_of G cur (nnf_postVisit cur k cs)"
  shows "\<exists>st'. visits G [cur] st st'"
proof -
  have grown: "nnf_grown (nnf_enter cur k pc st) st1" and inv: "nnf_inv G st1"
    using kids by (auto simp: visits_def)
  have here: "visited st1 cur = Some None" "preKind st1 cur = Some k" "preChildren st1 cur = pc"
    using grown by (auto simp: nnf_grown_def nnf_enter_def)
  obtain cs where cs: "those (map (\<lambda>cn. case visited st1 cn of Some (Some c) \<Rightarrow> Some (cn, c) | _ \<Rightarrow> None) pc) = Some cs"
      "map fst cs = pc" "\<forall>(cn, c)\<in>set cs. visited st1 cn = Some (Some c)"
    using kids those_visited [of pc st1] by (auto simp: visits_def)
  define ret where "ret = nnf_postVisit cur k cs"
  have ret: "normal_of G cur ret"
    unfolding ret_def using post [OF cs(2)] cs(3) inv by (fastforce simp: nnf_inv_def)
  obtain j where j: "j \<le> sum_list (map nnf_fuel pc)"
      "\<And>fuel visit. nnf_loop (j + fuel) (rev pc @ visit) (nnf_enter cur k pc st) = nnf_loop fuel visit st1"
    using kids by (auto simp: visits_def rev_map [symmetric] sum_list_rev)
  have "nnf_step cur visit st1 = Some (visit, nnf_leave cur ret st1)" for visit
    using here cs(1) by (simp add: nnf_step_def ret_def)
  then have loop: "nnf_loop (Suc j + 1 + fuel) (cur # visit) st = nnf_loop fuel visit (nnf_leave cur ret st1)" for fuel visit
    using j(2) [of "Suc fuel" "cur # visit"] assms(2) by simp
  have "nnf_inv G (nnf_leave cur ret st1)"
    using inv ret by (auto simp: nnf_inv_def nnf_leave_def)
  moreover have "nnf_grown st (nnf_leave cur ret st1)"
    unfolding nnf_grown_def
  proof (intro conjI allI impI)
    fix x
    assume "visited st x \<noteq> None"
    then obtain v where v: "visited st x = Some v"
      by auto
    moreover have "x \<noteq> cur"
      using v assms(1) by auto
    ultimately show "visited (nnf_leave cur ret st1) x = visited st x" "preKind (nnf_leave cur ret st1) x = preKind st x"
        "preChildren (nnf_leave cur ret st1) x = preChildren st x"
      using nnf_grownD(1) [OF grown, of x v] by (simp_all add: nnf_enter_def nnf_leave_def)
  next
    fix x
    assume "visited (nnf_leave cur ret st1) x = Some None"
    then show "visited st x = Some None"
      using nnf_grownD(2) [OF grown, of x] by (auto simp: nnf_enter_def nnf_leave_def split: if_splits)
  qed
  moreover have "visited (nnf_leave cur ret st1) cur = Some (Some ret)"
    by (simp add: nnf_leave_def)
  ultimately show ?thesis
    using loop fuel j(1) by (intro exI [of _ "nnf_leave cur ret st1"]) (auto simp: visits_def intro!: exI [of _ "Suc j + 1"])
qed

lemma enter_inv:
  assumes "nnf_inv G st" "visited st cur = None" "in_progress_above (nnf_fuel cur) st"
  shows "nnf_inv G (nnf_enter cur k pc st)" "n < nnf_fuel cur \<Longrightarrow> in_progress_above n (nnf_enter cur k pc st)"
  using assms by (auto simp: nnf_inv_def nnf_enter_def in_progress_above_def split: if_splits)

lemma member_fuel: "c \<in> set pc \<Longrightarrow> nnf_fuel c \<le> sum_list (map nnf_fuel pc)"
  by (auto intro: member_le_sum_list)

context gmp_documented
begin

lemma visits_node:
  "sentence cur \<Longrightarrow> nnf_inv G st \<Longrightarrow> in_progress_above (nnf_fuel cur) st \<Longrightarrow> \<exists>st'. visits G [cur] st st'"
proof (induction "nnf_fuel cur" arbitrary: cur st rule: less_induct)
  case less
  note pos = nnf_fuel_pos [OF less.prems(1)]
  consider (seen) r where "visited st cur = Some (Some r)" | (attr) r where "visited st cur = None" "nnfAttribute st cur = Some r"
    | (literal) "visited st cur = None" "nnfAttribute st cur = None" "nnf_preVisit cur = NnfLiteral"
    | (cancel) p where "visited st cur = None" "nnfAttribute st cur = None" "nnf_preVisit cur = NnfCancel p"
    | (connective) k pc where "visited st cur = None" "nnfAttribute st cur = None" "nnf_preVisit cur = NnfConnective k pc"
  proof (cases "visited st cur")
    case None
    with that show thesis
      by (cases "nnfAttribute st cur"; cases "nnf_preVisit cur") auto
  next
    case (Some v)
    with that less.prems(3) show thesis
      by (cases v) (auto simp: in_progress_above_def)
  qed
  then show ?case
  proof cases
    case seen
    with less.prems(2) pos show ?thesis
      by (intro exI [of _ st] visits_single) (auto simp: nnf_step_def nnf_grown_refl)
  next
    case attr
    with less.prems(2) pos show ?thesis
      by (intro exI [of _ "st\<lparr>visited := (visited st)(cur \<mapsto> Some r)\<rparr>"] visits_single)
        (auto simp: nnf_step_def nnf_inv_def nnf_grown_def)
  next
    case literal
    have "normal_of G cur cur"
      using preVisit_literal [OF less.prems(1) literal(3)] by (simp add: normal_of_def)
    with literal less.prems(2) pos show ?thesis
      by (intro exI [of _ "st\<lparr>visited := (visited st)(cur \<mapsto> Some cur)\<rparr>"] visits_single)
        (auto simp: nnf_step_def nnf_inv_def nnf_grown_def)
  next
    case cancel
    note p = preVisit_cancel [OF less.prems(1) cancel(3)]
    have "\<exists>st1. visits G (rev [p]) (nnf_enter cur None [p] st) st1"
      using less.hyps [of p] p(1,3) enter_inv [OF less.prems(2) cancel(1) less.prems(3)] by simp
    then show ?thesis
      using postVisit_cancel [OF cancel(3)] p(3) cancel
      by (elim exE, intro visits_enter [where pc = "[p]" and k = None]) (auto simp: nnf_step_def map_eq_Cons_conv)
  next
    case connective
    note ex = preVisit_connective [OF less.prems(1) connective(3)]
    have smaller: "nnf_fuel c < nnf_fuel cur \<and> sentence c" if "c \<in> set pc" for c
      using ex member_fuel [OF that] that by (auto simp: expands_def)
    have "\<exists>st1. visits G (rev pc) (nnf_enter cur (Some k) pc st) st1"
    proof (rule visits_list)
      show "\<exists>st'. visits G [c] st0 st'" if "c \<in> set (rev pc)" "nnf_inv G st0" "in_progress_above (nnf_fuel c) st0" for c st0
        using less.hyps [of c st0] smaller [of c] that by simp
    qed (use smaller enter_inv [OF less.prems(2) connective(1) less.prems(3)] in auto)
    then show ?thesis
      using postVisit_connective [OF ex] ex connective
      by (elim exE, intro visits_enter [where pc = pc and k = "Some k"]) (auto simp: nnf_step_def expands_def)
  qed
qed

end

definition nnf_cache_ok :: "gmp \<Rightarrow> (node \<Rightarrow> node option) \<Rightarrow> bool" where
  "nnf_cache_ok G attr \<longleftrightarrow> (\<forall>x r. attr x = Some r \<longrightarrow> normal_of G x r)"

section \<open>Property\<close>

text \<open>C15. \<^verbatim>\<open>computeNnfNorm\<close> returns: for a Boolean term, and attributes that earlier calls have set, the
  loop ends within its bound, the result is a Boolean term in negation normal form (negations on
  literals only, no implication or exclusive disjunction, conjunctions and disjunctions
  flattened without a repeated or complementary child) that has the truth value of the input in
  every model, and the attributes it leaves are right for the next call.\<close>

theorem computeNnfNorm_correct:
  assumes "gmp_documented G" "isBoolean n" "firstClass n" "nnf_cache_ok G attr"
  shows "\<exists>r attr'. computeNnfNorm attr n = Some (r, attr') \<and> isBoolean r \<and> firstClass r \<and> nnf r \<and>
    (\<forall>m. truth G m r = truth G m n) \<and> nnf_cache_ok G attr'"
proof -
  let ?st = "\<lparr>preKind = (\<lambda>n. None), preChildren = (\<lambda>n. []), visited = (\<lambda>n. None), nnfAttribute = attr\<rparr>"
  have n: "sentence n"
    using assms(2,3) by (simp add: sentence_def)
  obtain st' where st': "visits G [n] ?st st'"
    using gmp_documented.visits_node [OF assms(1) n, of ?st] assms(4)
    by (auto simp: nnf_inv_def nnf_cache_ok_def in_progress_above_def)
  then obtain j r where j: "j \<le> nnf_fuel n" "\<And>fuel visit. nnf_loop (j + fuel) (n # visit) ?st = nnf_loop fuel visit st'"
      "nnf_inv G st'" "visited st' n = Some (Some r)"
    by (auto simp: visits_def)
  have "nnf_loop (nnf_fuel n) [n] ?st = Some st'"
    using j(2) [of "nnf_fuel n - j" "[]"] j(1) by simp
  then have "computeNnfNorm attr n = Some (r, nnfAttribute st')"
    using j(4) by (simp add: computeNnfNorm_def)
  moreover have "normal_of G n r" "nnf_cache_ok G (nnfAttribute st')"
    using j(3,4) by (auto simp: nnf_inv_def nnf_cache_ok_def)
  ultimately show ?thesis
    using n by (auto simp: normal_of_def sentence_def)
qed

theorem computeNnfNorm_correct_witness:
  "map_option fst (computeNnfNorm (\<lambda>n. None) (mkNode K_NOT [mkNode K_IMPLIES [prop_var 0, mkNode K_XOR [prop_var 1, prop_var 2]]])) =
     Some (mkNode K_AND [prop_var 0, mkNode K_EQUAL [prop_var 1, prop_var 2]]) \<and>
   nnf (mkNode K_AND [prop_var 0, mkNode K_EQUAL [prop_var 1, prop_var 2]])"
proof -
  let ?n = "mkNode K_NOT [mkNode K_IMPLIES [prop_var 0, mkNode K_XOR [prop_var 1, prop_var 2]]]"
  let ?r = "mkNode K_AND [prop_var 0, mkNode K_EQUAL [prop_var 1, prop_var 2]]"
  have run: "map_option fst (computeNnfNorm (\<lambda>n. None) ?n) = Some ?r"
    by (simp add: computeNnfNorm_def nnf_step_def nnf_preVisit_def nnf_children_def is_bool_equal_def child_def
        nnf_enter_def nnf_leave_def nnf_postVisit_def addNnfNormChild_def nnf_atom_def negate_def notNode_def
        isBoolean_def numeral_nat Let_def)
  have "isBoolean ?n" "firstClass ?n" "nnf_cache_ok gmp_reference (\<lambda>n. None)"
    by (simp_all add: isBoolean_def kind_arity_def kind_type_def BooleanTypeRule_def kind_range_def nnf_cache_ok_def)
  from computeNnfNorm_correct [OF gmp_ref.gmp_documented_axioms this] run show ?thesis
    by auto
qed

end
