(* ===== verification/Context.thy ===== *)
theory Context
  imports Prelude
begin

text \<open>
  Backtrackable state: \<^verbatim>\<open>Context\<close>, \<^verbatim>\<open>Scope\<close> and \<^verbatim>\<open>ContextObj\<close> of \<^verbatim>\<open>context/context.h\<close> and
  \<^verbatim>\<open>context.cpp\<close>.

  Objects live in a heap from addresses to cells. A cell holds the scope and the restore pointer
  of the base class and the data \<open>'d\<close> of the derived class; the virtual methods \<^verbatim>\<open>save\<close> and
  \<^verbatim>\<open>restore\<close> are arguments of the operations. The doubly linked list of the objects of a scope
  is a list of addresses, front first. A saved copy is allocated in the memory region of the top
  scope (\<^verbatim>\<open>ContextMemoryManager\<close>), which the pop of that scope frees. \<open>None\<close> is a failed
  assertion or the use of a null or freed pointer.
\<close>

section \<open>State\<close>

record 'd ctx_obj =
  d_pScope :: "nat option"
  d_pContextObjRestore :: "nat option"
  d_region :: "nat option"
  d_obj :: 'd

record 'd ctx =
  heap :: "nat \<Rightarrow> 'd ctx_obj option"
  fresh :: nat
  d_scopeList :: "nat list list"
  d_pCNOpre :: "nat list"
  d_pCNOpost :: "nat list"
  notified :: "nat list"

type_synonym 'd save = "'d \<Rightarrow> 'd \<times> 'd"
type_synonym 'd restore = "'d \<Rightarrow> 'd \<Rightarrow> 'd"

definition Context :: "'d ctx" where
  "Context = \<lparr>heap = (\<lambda>a. None), fresh = 0, d_scopeList = [[]], d_pCNOpre = [], d_pCNOpost = [], notified = []\<rparr>"

definition getLevel :: "'d ctx \<Rightarrow> nat" where
  "getLevel st = length (d_scopeList st) - 1"

section \<open>Scopes\<close>

definition ctx_push :: "'d ctx \<Rightarrow> 'd ctx" where
  "ctx_push st = st\<lparr>d_scopeList := d_scopeList st @ [[]]\<rparr>"

definition addNotifyObjPre :: "nat \<Rightarrow> 'd ctx \<Rightarrow> 'd ctx" where
  "addNotifyObjPre n st = st\<lparr>d_pCNOpre := n # d_pCNOpre st\<rparr>"

definition addNotifyObjPost :: "nat \<Rightarrow> 'd ctx \<Rightarrow> 'd ctx" where
  "addNotifyObjPost n st = st\<lparr>d_pCNOpost := n # d_pCNOpost st\<rparr>"

definition addToChain :: "nat \<Rightarrow> nat \<Rightarrow> 'd ctx \<Rightarrow> 'd ctx" where
  "addToChain l a st = st\<lparr>d_scopeList := (d_scopeList st)[l := a # d_scopeList st ! l]\<rparr>"

text \<open>The address \<open>b\<close> takes the place of \<open>a\<close> in the list of scope \<open>l\<close>.\<close>

definition relink :: "nat \<Rightarrow> nat \<Rightarrow> nat \<Rightarrow> 'd ctx \<Rightarrow> 'd ctx" where
  "relink l a b st = st\<lparr>d_scopeList := (d_scopeList st)[l := map (\<lambda>x. if x = a then b else x) (d_scopeList st ! l)]\<rparr>"

section \<open>Objects\<close>

text \<open>The constructor: a new object belongs to the bottom scope, whatever the level.\<close>

definition ContextObj :: "'d \<Rightarrow> 'd ctx \<Rightarrow> nat \<times> 'd ctx" where
  "ContextObj d st =
     (let a = fresh st
      in (a, addToChain 0 a
            (st\<lparr>heap := (heap st)(a \<mapsto> \<lparr>d_pScope = Some 0, d_pContextObjRestore = None, d_region = None, d_obj = d\<rparr>),
                fresh := a + 1\<rparr>)))"

definition update :: "'d save \<Rightarrow> nat \<Rightarrow> 'd ctx \<Rightarrow> 'd ctx option" where
  "update save a st =
     (case heap st a of
        None \<Rightarrow> None
      | Some c \<Rightarrow>
          (case d_pScope c of
             None \<Rightarrow> None
           | Some l \<Rightarrow>
               let (saved, live) = save (d_obj c); b = fresh st; top = getLevel st;
                   st = st\<lparr>heap := (heap st)(b \<mapsto> c\<lparr>d_region := Some top, d_obj := saved\<rparr>), fresh := b + 1\<rparr>;
                   st = relink l a b st;
                   st = st\<lparr>heap := (heap st)(a \<mapsto>
                     c\<lparr>d_pScope := Some top, d_pContextObjRestore := Some b, d_obj := live\<rparr>)\<rparr>
               in Some (addToChain top a st)))"

definition makeCurrent :: "'d save \<Rightarrow> nat \<Rightarrow> 'd ctx \<Rightarrow> 'd ctx option" where
  "makeCurrent save a st =
     (case heap st a of
        None \<Rightarrow> None
      | Some c \<Rightarrow> if d_pScope c = Some (getLevel st) then Some st else update save a st)"

text \<open>
  Every operation of a derived class that changes its data makes the object current first; \<open>f\<close>
  is the change, undefined where an assertion of the class fails.
\<close>

definition modify :: "'d save \<Rightarrow> ('d \<Rightarrow> 'd option) \<Rightarrow> nat \<Rightarrow> 'd ctx \<Rightarrow> 'd ctx option" where
  "modify save f a st =
     (case makeCurrent save a st of
        None \<Rightarrow> None
      | Some st \<Rightarrow>
          (case heap st a of
             None \<Rightarrow> None
           | Some c \<Rightarrow>
               (case f (d_obj c) of
                  None \<Rightarrow> None
                | Some d \<Rightarrow> Some (st\<lparr>heap := (heap st)(a \<mapsto> c\<lparr>d_obj := d\<rparr>)\<rparr>))))"

definition restoreAndContinue :: "'d restore \<Rightarrow> nat \<Rightarrow> 'd ctx \<Rightarrow> 'd ctx option" where
  "restoreAndContinue restore a st =
     (case heap st a of
        None \<Rightarrow> None
      | Some c \<Rightarrow>
          (case d_pContextObjRestore c of
             None \<Rightarrow> Some (st\<lparr>heap := (heap st)(a \<mapsto> c\<lparr>d_pScope := None\<rparr>)\<rparr>)
           | Some b \<Rightarrow>
               (case heap st b of
                  None \<Rightarrow> None
                | Some s \<Rightarrow>
                    (case d_pScope s of
                       None \<Rightarrow> None
                     | Some l \<Rightarrow>
                         Some (relink l b a
                           (st\<lparr>heap := (heap st)(a \<mapsto>
                             c\<lparr>d_pScope := Some l, d_pContextObjRestore := d_pContextObjRestore s,
                               d_obj := restore (d_obj c) (d_obj s)\<rparr>)\<rparr>))))))"

text \<open>The destructor of a scope walks its list.\<close>

fun restore_all :: "'d restore \<Rightarrow> nat list \<Rightarrow> 'd ctx \<Rightarrow> 'd ctx option" where
  "restore_all restore [] st = Some st"
| "restore_all restore (a # as) st =
     (case restoreAndContinue restore a st of None \<Rightarrow> None | Some st \<Rightarrow> restore_all restore as st)"

definition free_region :: "nat \<Rightarrow> 'd ctx \<Rightarrow> 'd ctx" where
  "free_region r st =
     st\<lparr>heap := (\<lambda>a. case heap st a of None \<Rightarrow> None | Some c \<Rightarrow> if d_region c = Some r then None else Some c)\<rparr>"

definition ctx_pop :: "'d restore \<Rightarrow> 'd ctx \<Rightarrow> 'd ctx option" where
  "ctx_pop restore st =
     (if getLevel st = 0 then None
      else let top = getLevel st; chain = last (d_scopeList st);
               st = st\<lparr>notified := notified st @ d_pCNOpre st\<rparr>;
               st = st\<lparr>d_scopeList := butlast (d_scopeList st)\<rparr>
           in case restore_all restore chain st of
                None \<Rightarrow> None
              | Some st \<Rightarrow> let st = free_region top st in Some (st\<lparr>notified := notified st @ d_pCNOpost st\<rparr>))"

lemma restoreAndContinue_length:
  "restoreAndContinue restore a st = Some st' \<Longrightarrow> length (d_scopeList st') = length (d_scopeList st)"
  by (auto simp: restoreAndContinue_def relink_def split: option.splits)

lemma restore_all_length: "restore_all restore as st = Some st' \<Longrightarrow> length (d_scopeList st') = length (d_scopeList st)"
  by (induction as arbitrary: st) (auto dest: restoreAndContinue_length split: option.splits)

lemma ctx_pop_level: "ctx_pop restore st = Some st' \<Longrightarrow> getLevel st' = getLevel st - 1"
  by (auto simp: ctx_pop_def getLevel_def Let_def free_region_def dest!: restore_all_length split: if_splits option.splits)

lemma ctx_pop_positive: "ctx_pop restore st = Some st' \<Longrightarrow> 0 < getLevel st"
  by (auto simp: ctx_pop_def split: if_splits)

function popto :: "'d restore \<Rightarrow> nat \<Rightarrow> 'd ctx \<Rightarrow> 'd ctx option" where
  "popto restore toLevel st =
     (if toLevel < getLevel st
      then case ctx_pop restore st of None \<Rightarrow> None | Some st \<Rightarrow> popto restore toLevel st
      else Some st)"
  by pat_completeness auto
termination
  by (relation "measure (\<lambda>(restore, toLevel, st). getLevel st)") (auto dest: ctx_pop_level)

declare popto.simps [simp del]

end
