(* ===== verification/Context_Correct.thy ===== *)
theory Context_Correct
  imports Context
begin

text \<open>
  Contexts implement a stack of snapshots: the structure of the heap that the operations keep, the
  value an object has at each level, and the effect of each operation on these values.
\<close>

section \<open>Structure\<close>

text \<open>
  Every cell belongs to a scope and is in its list; a cell above the bottom has a saved copy; the
  copy belongs to a lower scope and lies in the region of the scope of its owner; copies are not
  shared, and every cell in a region is a copy.
\<close>

definition linked :: "'d ctx \<Rightarrow> bool" where
  "linked st \<longleftrightarrow> d_scopeList st \<noteq> [] \<and>
     (\<forall>a c. heap st a = Some c \<longrightarrow> a < fresh st \<and> (\<exists>l. l < length (d_scopeList st) \<and> d_pScope c = Some l)) \<and>
     (\<forall>l < length (d_scopeList st). distinct (d_scopeList st ! l) \<and>
        (\<forall>a. a \<in> set (d_scopeList st ! l) \<longleftrightarrow> (\<exists>c. heap st a = Some c \<and> d_pScope c = Some l))) \<and>
     (\<forall>a c l. heap st a = Some c \<and> d_pScope c = Some l \<and> 0 < l \<longrightarrow> d_pContextObjRestore c \<noteq> None) \<and>
     (\<forall>a c b l. heap st a = Some c \<and> d_pContextObjRestore c = Some b \<and> d_pScope c = Some l \<longrightarrow>
        (\<exists>s l'. heap st b = Some s \<and> d_pScope s = Some l' \<and> l' < l \<and> d_region s = Some l)) \<and>
     (\<forall>a a' c c' b. heap st a = Some c \<and> heap st a' = Some c' \<and> d_pContextObjRestore c = Some b \<and>
        d_pContextObjRestore c' = Some b \<longrightarrow> a = a') \<and>
     (\<forall>b s r. heap st b = Some s \<and> d_region s = Some r \<longrightarrow> (\<exists>a c. heap st a = Some c \<and> d_pContextObjRestore c = Some b))"

lemma linkedD:
  assumes "linked st"
  shows linked_nonempty: "d_scopeList st \<noteq> []"
    and linked_fresh: "\<And>a c. heap st a = Some c \<Longrightarrow> a < fresh st"
    and linked_scope: "\<And>a c. heap st a = Some c \<Longrightarrow> \<exists>l. l < length (d_scopeList st) \<and> d_pScope c = Some l"
    and linked_distinct: "\<And>l. l < length (d_scopeList st) \<Longrightarrow> distinct (d_scopeList st ! l)"
    and linked_chain: "\<And>l a. l < length (d_scopeList st) \<Longrightarrow>
      a \<in> set (d_scopeList st ! l) \<longleftrightarrow> (\<exists>c. heap st a = Some c \<and> d_pScope c = Some l)"
    and linked_restore: "\<And>a c l. heap st a = Some c \<Longrightarrow> d_pScope c = Some l \<Longrightarrow> 0 < l \<Longrightarrow> \<exists>b. d_pContextObjRestore c = Some b"
    and linked_saved: "\<And>a c b l. heap st a = Some c \<Longrightarrow> d_pContextObjRestore c = Some b \<Longrightarrow> d_pScope c = Some l \<Longrightarrow>
      \<exists>s l'. heap st b = Some s \<and> d_pScope s = Some l' \<and> l' < l \<and> d_region s = Some l"
    and linked_inj: "\<And>a a' c c' b. heap st a = Some c \<Longrightarrow> heap st a' = Some c' \<Longrightarrow> d_pContextObjRestore c = Some b \<Longrightarrow>
      d_pContextObjRestore c' = Some b \<Longrightarrow> a = a'"
    and linked_region: "\<And>b s r. heap st b = Some s \<Longrightarrow> d_region s = Some r \<Longrightarrow> \<exists>a c. heap st a = Some c \<and> d_pContextObjRestore c = Some b"
  using assms unfolding linked_def by (blast+)

lemma linkedI:
  assumes "d_scopeList st \<noteq> []"
    and "\<And>a c. heap st a = Some c \<Longrightarrow> a < fresh st"
    and "\<And>a c. heap st a = Some c \<Longrightarrow> \<exists>l. l < length (d_scopeList st) \<and> d_pScope c = Some l"
    and "\<And>l. l < length (d_scopeList st) \<Longrightarrow> distinct (d_scopeList st ! l)"
    and "\<And>l a. l < length (d_scopeList st) \<Longrightarrow>
      a \<in> set (d_scopeList st ! l) \<longleftrightarrow> (\<exists>c. heap st a = Some c \<and> d_pScope c = Some l)"
    and "\<And>a c l. heap st a = Some c \<Longrightarrow> d_pScope c = Some l \<Longrightarrow> 0 < l \<Longrightarrow> \<exists>b. d_pContextObjRestore c = Some b"
    and "\<And>a c b l. heap st a = Some c \<Longrightarrow> d_pContextObjRestore c = Some b \<Longrightarrow> d_pScope c = Some l \<Longrightarrow>
      \<exists>s l'. heap st b = Some s \<and> d_pScope s = Some l' \<and> l' < l \<and> d_region s = Some l"
    and "\<And>a a' c c' b. heap st a = Some c \<Longrightarrow> heap st a' = Some c' \<Longrightarrow> d_pContextObjRestore c = Some b \<Longrightarrow>
      d_pContextObjRestore c' = Some b \<Longrightarrow> a = a'"
    and "\<And>b s r. heap st b = Some s \<Longrightarrow> d_region s = Some r \<Longrightarrow> \<exists>a c. heap st a = Some c \<and> d_pContextObjRestore c = Some b"
  shows "linked st"
  unfolding linked_def using assms by (intro conjI allI impI; (elim conjE)?; simp; fastforce?)

lemma linked_Context: "linked Context"
  by (rule linkedI) (auto simp: Context_def)

lemma linked_push: "linked st \<Longrightarrow> linked (ctx_push st)"
proof (rule linkedI)
  assume st: "linked st"
  let ?N = "length (d_scopeList st)"
  show "distinct (d_scopeList (ctx_push st) ! l)" if "l < length (d_scopeList (ctx_push st))" for l
    using that linked_distinct [OF st, of l] by (cases "l = ?N") (auto simp: ctx_push_def nth_append)
  show "a \<in> set (d_scopeList (ctx_push st) ! l) \<longleftrightarrow> (\<exists>c. heap (ctx_push st) a = Some c \<and> d_pScope c = Some l)"
    if "l < length (d_scopeList (ctx_push st))" for l a
    using that linked_chain [OF st, of l a] linked_scope [OF st] by (cases "l = ?N") (fastforce simp: ctx_push_def nth_append)+
  show "\<exists>l. l < length (d_scopeList (ctx_push st)) \<and> d_pScope c = Some l" if "heap (ctx_push st) a = Some c" for a c
    using that linked_scope [OF st] by (fastforce simp: ctx_push_def)
qed (use linkedD in \<open>auto simp: ctx_push_def\<close>)

lemma linked_ContextObj:
  assumes st: "linked st" and new: "ContextObj d st = (a, st')"
  shows "linked st'"
proof -
  have a: "a = fresh st" and heap: "heap st' = (heap st)(a \<mapsto> \<lparr>d_pScope = Some 0, d_pContextObjRestore = None, d_region = None, d_obj = d\<rparr>)"
    and rest: "fresh st' = a + 1" "d_scopeList st' = (d_scopeList st)[0 := a # d_scopeList st ! 0]"
    using new by (auto simp: ContextObj_def addToChain_def Let_def)
  have unused: "heap st a = None"
    using linked_fresh [OF st, of a] a by (cases "heap st a") auto
  have ne: "0 < length (d_scopeList st)"
    using linked_nonempty [OF st] by simp
  have absent: "a \<notin> set (d_scopeList st ! l)" if "l < length (d_scopeList st)" for l
    using linked_chain [OF st that] unused by simp
  show ?thesis
  proof (rule linkedI)
    show "distinct (d_scopeList st' ! l)" if "l < length (d_scopeList st')" for l
      using that linked_distinct [OF st, of l] absent [of l] by (cases "l = 0") (auto simp: rest)
    show "x \<in> set (d_scopeList st' ! l) \<longleftrightarrow> (\<exists>c. heap st' x = Some c \<and> d_pScope c = Some l)"
      if "l < length (d_scopeList st')" for l x
      using that linked_chain [OF st, of l x] unused by (cases "l = 0") (auto simp: rest heap)
    show "x < fresh st'" if "heap st' x = Some c" for x c
      using that linked_fresh [OF st, of x] a by (auto simp: rest heap split: if_splits)
    show "\<exists>l. l < length (d_scopeList st') \<and> d_pScope c = Some l" if "heap st' x = Some c" for x c
      using that linked_scope [OF st, of x] ne by (auto simp: rest heap split: if_splits)
    show "\<exists>s l'. heap st' b = Some s \<and> d_pScope s = Some l' \<and> l' < l \<and> d_region s = Some l"
      if "heap st' x = Some c" "d_pContextObjRestore c = Some b" "d_pScope c = Some l" for x c b l
      using that linked_saved [OF st, of x c b l] unused by (auto simp: heap split: if_splits)
    show "\<exists>x c. heap st' x = Some c \<and> d_pContextObjRestore c = Some b" if "heap st' b = Some s" "d_region s = Some r" for b s r
    proof -
      have "heap st b = Some s"
        using that by (auto simp: heap split: if_splits)
      from linked_region [OF st this that(2)] obtain x c where x: "heap st x = Some c" "d_pContextObjRestore c = Some b"
        by blast
      then show ?thesis
        using unused by (intro exI [of _ x]) (auto simp: heap)
    qed
  qed (use linked_restore [OF st] linked_inj [OF st] ne in \<open>auto simp: heap rest split: if_splits\<close>)
qed

lemma update_eq:
  assumes "heap st a = Some c" "d_pScope c = Some l" "save (d_obj c) = (sv, d)" "update save a st = Some st'"
  shows "heap st' = (heap st)(fresh st \<mapsto> c\<lparr>d_region := Some (getLevel st), d_obj := sv\<rparr>,
       a \<mapsto> c\<lparr>d_pScope := Some (getLevel st), d_pContextObjRestore := Some (fresh st), d_obj := d\<rparr>)"
    "fresh st' = fresh st + 1"
    "d_scopeList st' = (let sc = (d_scopeList st)[l := map (\<lambda>x. if x = a then fresh st else x) (d_scopeList st ! l)]
       in sc[getLevel st := a # sc ! getLevel st])"
  using assms by (auto simp: update_def addToChain_def relink_def getLevel_def Let_def)

lemma linked_update:
  assumes st: "linked st" and a: "heap st a = Some c" "d_pScope c = Some l" "l < getLevel st" "d_region c = None"
    and up: "update save a st = Some st'"
  shows "linked st'"
proof -
  obtain sv d where sv: "save (d_obj c) = (sv, d)" by fastforce
  note eq = update_eq [OF a(1,2) sv up]
  let ?b = "fresh st" and ?top = "getLevel st" and ?N = "length (d_scopeList st)"
  have top: "?top < ?N" "l < ?N" "l \<noteq> ?top" "length (d_scopeList st') = ?N"
    using linked_nonempty [OF st] a(3) by (auto simp: getLevel_def eq(3) Let_def)
  have unused: "heap st ?b = None"
    using linked_fresh [OF st, of ?b] by (cases "heap st ?b") auto
  then have ab: "a \<noteq> ?b"
    using a(1) by auto
  have absent: "?b \<notin> set (d_scopeList st ! k)" if "k < ?N" for k
    using linked_chain [OF st that] unused by simp
  have chain: "d_scopeList st' ! k = (if k = ?top then a # d_scopeList st ! ?top
      else if k = l then map (\<lambda>x. if x = a then ?b else x) (d_scopeList st ! l) else d_scopeList st ! k)" if "k < ?N" for k
    using that top by (auto simp: eq(3) Let_def)
  have at: "a \<in> set (d_scopeList st ! l)" "a \<notin> set (d_scopeList st ! ?top)"
    using linked_chain [OF st top(2), of a] linked_chain [OF st top(1), of a] a top(3) by auto
  show ?thesis
  proof (rule linkedI)
    show "distinct (d_scopeList st' ! k)" if "k < length (d_scopeList st')" for k
    proof -
      have "inj_on (\<lambda>x. if x = a then ?b else x) (set (d_scopeList st ! l))"
        using absent [OF top(2)] by (auto simp: inj_on_def)
      with that linked_distinct [OF st] top at(2) show ?thesis
        by (simp add: chain distinct_map)
    qed
    show "x \<in> set (d_scopeList st' ! k) \<longleftrightarrow> (\<exists>c. heap st' x = Some c \<and> d_pScope c = Some k)"
      if "k < length (d_scopeList st')" for k x
      using that linked_chain [OF st, of k x] a(1,2) at ab unused top by (auto simp: chain eq(1))
    show "x < fresh st'" if "heap st' x = Some c'" for x c'
      using that linked_fresh [OF st, of x] linked_fresh [OF st a(1)] by (auto simp: eq(1,2) split: if_splits)
    show "\<exists>k. k < length (d_scopeList st') \<and> d_pScope c' = Some k" if "heap st' x = Some c'" for x c'
      using that linked_scope [OF st, of x] a(2) top by (auto simp: eq(1) split: if_splits)
    show "\<exists>b. d_pContextObjRestore c' = Some b" if "heap st' x = Some c'" "d_pScope c' = Some k" "0 < k" for x c' k
      using that linked_restore [OF st, of x c'] linked_restore [OF st a(1,2)] a(2) by (auto simp: eq(1) split: if_splits)
    show "\<exists>s l'. heap st' b = Some s \<and> d_pScope s = Some l' \<and> l' < k \<and> d_region s = Some k"
      if "heap st' x = Some c'" "d_pContextObjRestore c' = Some b" "d_pScope c' = Some k" for x c' b k
    proof -
      consider "x = a" | "x = ?b" | "x \<noteq> a" "x \<noteq> ?b" by blast
      then show ?thesis
      proof cases
        case 1
        then show ?thesis
          using that a ab by (auto simp: eq(1))
      next
        case 2
        then have "d_pContextObjRestore c = Some b" "k = l"
          using that a(2) ab by (auto simp: eq(1))
        then obtain s l' where "heap st b = Some s" "d_pScope s = Some l'" "l' < k" "d_region s = Some k"
          using linked_saved [OF st a(1) _ a(2), of b] by blast
        moreover from this have "b \<noteq> a" "b \<noteq> ?b"
          using a(1,4) unused by auto
        ultimately show ?thesis
          by (auto simp: eq(1))
      next
        case 3
        then have "heap st x = Some c'"
          using that(1) by (simp add: eq(1))
        from linked_saved [OF st this that(2,3)]
        obtain s l' where "heap st b = Some s" "d_pScope s = Some l'" "l' < k" "d_region s = Some k"
          by blast
        moreover from this have "b \<noteq> a" "b \<noteq> ?b"
          using a(1,4) unused by auto
        ultimately show ?thesis
          by (auto simp: eq(1))
      qed
    qed
    show "x = x'" if "heap st' x = Some c1" "heap st' x' = Some c2" "d_pContextObjRestore c1 = Some b"
        "d_pContextObjRestore c2 = Some b" for x x' c1 c2 b
    proof -
      have old: "\<exists>y cy. heap st y = Some cy \<and> d_pContextObjRestore cy = Some b \<and> z = (if y = a then ?b else y)"
        if "heap st' z = Some cz" "d_pContextObjRestore cz = Some b" "z \<noteq> a" for z cz
        using that a(1) ab by (auto simp: eq(1) split: if_splits)
      have "b \<noteq> ?b" if "heap st' z = Some cz" "d_pContextObjRestore cz = Some b" "z \<noteq> a" for z cz
        using old [OF that] linked_scope [OF st] linked_saved [OF st] unused by fastforce
      moreover have "b = ?b" if "heap st' a = Some cz" "d_pContextObjRestore cz = Some b" for cz
        using that by (auto simp: eq(1))
      ultimately show ?thesis
        using that old linked_inj [OF st] by (cases "x = a"; cases "x' = a") metis+
    qed
    show "\<exists>x c'. heap st' x = Some c' \<and> d_pContextObjRestore c' = Some b" if "heap st' b = Some s" "d_region s = Some r" for b s r
    proof (cases "b = ?b")
      case True
      then show ?thesis
        using ab by (intro exI [of _ a]) (auto simp: eq(1))
    next
      case False
      then have "heap st b = Some s"
        using that a(4) by (auto simp: eq(1) split: if_splits)
      from linked_region [OF st this that(2)] obtain x cx where x: "heap st x = Some cx" "d_pContextObjRestore cx = Some b"
        by blast
      then show ?thesis
        using a(1) ab unused by (intro exI [of _ "if x = a then ?b else x"]) (auto simp: eq(1))
    qed
  qed (use top linked_nonempty [OF st] in auto)
qed


section \<open>Restoring a scope\<close>

text \<open>
  While the destructor of the top scope runs, the list of this scope holds the objects that are
  still to be restored, and the copies already used, \<open>G\<close>, are garbage of its region.
\<close>

definition unwind :: "nat set \<Rightarrow> nat list \<Rightarrow> 'd ctx \<Rightarrow> 'd ctx" where
  "unwind G as st = st\<lparr>heap := heap st |` (- G), d_scopeList := d_scopeList st @ [as]\<rparr>"

lemma unwind_simps [simp]:
  "heap (unwind G as st) = heap st |` (- G)" "fresh (unwind G as st) = fresh st"
  "d_scopeList (unwind G as st) = d_scopeList st @ [as]"
  by (simp_all add: unwind_def)

lemma unwind_cell:
  assumes st: "linked (unwind G (a # as) st)" and ne: "d_scopeList st \<noteq> []"
  obtains c b s l where "heap st a = Some c" "d_pScope c = Some (length (d_scopeList st))"
    "d_pContextObjRestore c = Some b" "heap st b = Some s" "d_pScope s = Some l" "l < length (d_scopeList st)"
    "d_region s = Some (length (d_scopeList st))" "a \<notin> G" "b \<notin> G" "a \<noteq> b"
proof -
  let ?N = "length (d_scopeList st)"
  have "a \<in> set (d_scopeList (unwind G (a # as) st) ! ?N)"
    by simp
  then obtain c where c: "heap (unwind G (a # as) st) a = Some c" "d_pScope c = Some ?N"
    using linked_chain [OF st, of ?N a] by auto
  obtain b where b: "d_pContextObjRestore c = Some b"
    using linked_restore [OF st c] ne by auto
  obtain s l where s: "heap (unwind G (a # as) st) b = Some s" "d_pScope s = Some l" "l < ?N" "d_region s = Some ?N"
    using linked_saved [OF st c(1) b c(2)] by auto
  have "a \<noteq> b"
    using c s by auto
  with that c b s show thesis
    by (auto simp: restrict_map_def split: if_splits)
qed

lemma unwind_step:
  assumes st: "linked (unwind G (a # as) st)" and ne: "d_scopeList st \<noteq> []"
  obtains c b s l st' where "heap st a = Some c" "d_pScope c = Some (length (d_scopeList st))"
    "d_pContextObjRestore c = Some b" "heap st b = Some s" "d_pScope s = Some l" "a \<notin> G" "b \<notin> G" "a \<noteq> b"
    "d_region s = Some (length (d_scopeList st))"
    "restoreAndContinue restore a st = Some st'"
    "heap st' = (heap st)(a \<mapsto> c\<lparr>d_pScope := Some l, d_pContextObjRestore := d_pContextObjRestore s,
       d_obj := restore (d_obj c) (d_obj s)\<rparr>)"
    "linked (unwind (insert b G) as st')"
    "length (d_scopeList st') = length (d_scopeList st)"
proof -
  obtain c b s l where c: "heap st a = Some c" "d_pScope c = Some (length (d_scopeList st))"
    "d_pContextObjRestore c = Some b" "heap st b = Some s" "d_pScope s = Some l" "l < length (d_scopeList st)"
    "d_region s = Some (length (d_scopeList st))" and G: "a \<notin> G" "b \<notin> G" "a \<noteq> b"
    by (rule unwind_cell [OF assms])
  let ?N = "length (d_scopeList st)" and ?u = "unwind G (a # as) st"
  define ca where "ca = c\<lparr>d_pScope := Some l, d_pContextObjRestore := d_pContextObjRestore s, d_obj := restore (d_obj c) (d_obj s)\<rparr>"
  define st' where "st' = relink l b a (st\<lparr>heap := (heap st)(a \<mapsto> ca)\<rparr>)"
  have step: "restoreAndContinue restore a st = Some st'"
    using c by (simp add: restoreAndContinue_def st'_def ca_def)
  have heap': "heap st' = (heap st)(a \<mapsto> ca)" and len: "length (d_scopeList st') = ?N" and fr: "fresh st' = fresh st"
    and sc: "d_scopeList st' = (d_scopeList st)[l := map (\<lambda>x. if x = b then a else x) (d_scopeList st ! l)]"
    by (simp_all add: st'_def relink_def)
  have ua: "heap ?u a = Some c" and ub: "heap ?u b = Some s"
    using c G by simp_all
  have old: "heap ?u x = Some cx" if "x \<noteq> a" "(heap st' |` (- insert b G)) x = Some cx" for x cx
    using that by (auto simp: heap' restrict_map_def split: if_splits)
  have kept: "heap (unwind (insert b G) as st') x = heap ?u x" if "x \<noteq> a" "x \<noteq> b" for x
    using that by (auto simp: heap' restrict_map_def)
  have now_a: "heap (unwind (insert b G) as st') a = Some ca" and now_b: "heap (unwind (insert b G) as st') b = None"
    using G by (simp_all add: heap')
  have ra: "x = a" if "heap ?u x = Some cx" "d_pContextObjRestore cx = Some b" for x cx
    using linked_inj [OF st that(1) ua that(2) c(3)] .
  have a_top: "a \<notin> set as" "b \<notin> set as"
    using linked_distinct [OF st, of ?N] linked_chain [OF st, of ?N b] ub c(5,6) by (auto simp: nth_append)
  have nota: "a \<notin> set (d_scopeList st ! l)"
    using linked_chain [OF st, of l a] c(1,2,6) ua by (auto simp: nth_append)
  have "linked (unwind (insert b G) as st')"
  proof (rule linkedI)
    show "distinct (d_scopeList (unwind (insert b G) as st') ! k)" if "k < length (d_scopeList (unwind (insert b G) as st'))" for k
    proof -
      have inj: "inj_on (\<lambda>x. if x = b then a else x) (set (d_scopeList st ! l))"
        using nota by (auto simp: inj_on_def)
      have "distinct (d_scopeList ?u ! k)"
        using linked_distinct [OF st, of k] that by (simp add: sc)
      with inj that c(6) show ?thesis
        by (cases "k = ?N"; cases "k = l") (auto simp: sc nth_append distinct_map)
    qed
    show "x \<in> set (d_scopeList (unwind (insert b G) as st') ! k) \<longleftrightarrow>
        (\<exists>c. heap (unwind (insert b G) as st') x = Some c \<and> d_pScope c = Some k)"
      if "k < length (d_scopeList (unwind (insert b G) as st'))" for k x
    proof -
      have k: "k < length (d_scopeList ?u)"
        using that by (simp add: sc)
      have mem: "x \<in> set (d_scopeList ?u ! k) \<longleftrightarrow> (\<exists>c. heap ?u x = Some c \<and> d_pScope c = Some k)" for x
        by (rule linked_chain [OF st k])
      consider "x = a" | "x = b" | "x \<noteq> a" "x \<noteq> b" by blast
      then show ?thesis
      proof cases
        case 1
        have "a \<in> set (d_scopeList st' ! l)"
          using linked_chain [OF st, of l b] ub c(5,6) by (auto simp: sc nth_append)
        with 1 k now_a a_top c(6) mem [of a] ua c(2) show ?thesis
          by (cases "k = ?N"; cases "k = l") (auto simp: nth_append ca_def sc simp del: unwind_simps(1))
      next
        case 2
        with k now_b a_top mem [of b] ub c(5,6) G(3) show ?thesis
          by (cases "k = ?N"; cases "k = l") (auto simp: nth_append sc simp del: unwind_simps(1))
      next
        case 3
        with k kept mem [of x] c(6) show ?thesis
          by (cases "k = ?N"; cases "k = l") (auto simp: nth_append sc simp del: unwind_simps(1))
      qed
    qed
    show "x < fresh (unwind (insert b G) as st')" if "heap (unwind (insert b G) as st') x = Some cx" for x cx
      using that linked_fresh [OF st ua] linked_fresh [OF st old [of x cx]] by (cases "x = a") (auto simp: fr)
    show "\<exists>k. k < length (d_scopeList (unwind (insert b G) as st')) \<and> d_pScope cx = Some k"
      if "heap (unwind (insert b G) as st') x = Some cx" for x cx
      using that linked_scope [OF st old [of x cx]] c(6) now_a by (cases "x = a") (auto simp: len ca_def)
    show "\<exists>y. d_pContextObjRestore cx = Some y" if "heap (unwind (insert b G) as st') x = Some cx" "d_pScope cx = Some k" "0 < k" for x cx k
      using that linked_restore [OF st ub c(5)] linked_restore [OF st old [of x cx]] now_a by (cases "x = a") (auto simp: ca_def)
    show "\<exists>sy l'. heap (unwind (insert b G) as st') y = Some sy \<and> d_pScope sy = Some l' \<and> l' < k \<and> d_region sy = Some k"
      if x: "heap (unwind (insert b G) as st') x = Some cx" "d_pContextObjRestore cx = Some y" "d_pScope cx = Some k" for x cx y k
    proof -
      obtain x' cx' where x': "heap ?u x' = Some cx'" "d_pContextObjRestore cx' = Some y" "d_pScope cx' = Some k" "x' \<noteq> a"
        using x now_a ub c(5) old [of x cx] G(3) by (cases "x = a") (force simp: ca_def)+
      obtain sy l' where sy: "heap ?u y = Some sy" "d_pScope sy = Some l'" "l' < k" "d_region sy = Some k"
        using linked_saved [OF st x'(1-3)] by blast
      have "k < length (d_scopeList ?u)"
        using linked_scope [OF st x'(1)] x'(3) by auto
      then have "y \<noteq> a" "y \<noteq> b"
        using sy c(2) ua ra [OF x'(1)] x'(2,4) by auto
      with sy kept show ?thesis
        by auto
    qed
    show "x = x'" if "heap (unwind (insert b G) as st') x = Some c1" "heap (unwind (insert b G) as st') x' = Some c2"
        "d_pContextObjRestore c1 = Some y" "d_pContextObjRestore c2 = Some y" for x x' c1 c2 y
    proof -
      have src: "\<exists>z cz. heap ?u z = Some cz \<and> d_pContextObjRestore cz = Some y \<and> z \<noteq> a \<and> w = (if z = b then a else z)"
        if "heap (unwind (insert b G) as st') w = Some cw" "d_pContextObjRestore cw = Some y" for w cw
      proof (cases "w = a")
        case True
        then show ?thesis
          using that now_a ub G(3) by (intro exI [of _ b]) (auto simp: ca_def)
      next
        case False
        then show ?thesis
          using that old [of w cw] now_b by (intro exI [of _ w]) auto
      qed
      show ?thesis
        using src [OF that(1,3)] src [OF that(2,4)] linked_inj [OF st] by metis
    qed
    show "\<exists>x cx. heap (unwind (insert b G) as st') x = Some cx \<and> d_pContextObjRestore cx = Some y"
      if y: "heap (unwind (insert b G) as st') y = Some cy" "d_region cy = Some r" for y cy r
    proof -
      have "\<exists>cy. heap ?u y = Some cy \<and> d_region cy = Some r"
        using y now_a ua old [of y cy] by (cases "y = a") (auto simp: ca_def)
      then obtain x cx where x: "heap ?u x = Some cx" "d_pContextObjRestore cx = Some y"
        using linked_region [OF st] by blast
      then have "x \<noteq> a"
        using ua c(3) y(1) now_b by auto
      with x now_a kept ub show ?thesis
        by (intro exI [of _ "if x = b then a else x"]) (auto simp: ca_def simp del: unwind_simps(1))
    qed
  qed simp
  with that c G step heap' len show thesis
    by (auto simp: ca_def)
qed


lemma unwind_all:
  assumes "linked (unwind G as st)" "d_scopeList st \<noteq> []"
    and "\<And>x c. x \<in> G \<Longrightarrow> heap st x = Some c \<Longrightarrow> d_region c = Some (length (d_scopeList st))"
  shows "\<exists>st' G'. restore_all restore as st = Some st' \<and> linked (unwind G' [] st') \<and>
    length (d_scopeList st') = length (d_scopeList st) \<and>
    (\<forall>x c. x \<in> G' \<longrightarrow> heap st' x = Some c \<longrightarrow> d_region c = Some (length (d_scopeList st)))"
  using assms
proof (induction as arbitrary: G st)
  case Nil
  then show ?case
    by auto
next
  case (Cons a as)
  obtain c b s l st1 where step: "heap st a = Some c" "heap st b = Some s" "a \<notin> G" "a \<noteq> b"
    "d_region s = Some (length (d_scopeList st))" "restoreAndContinue restore a st = Some st1"
    "heap st1 = (heap st)(a \<mapsto> c\<lparr>d_pScope := Some l, d_pContextObjRestore := d_pContextObjRestore s,
       d_obj := restore (d_obj c) (d_obj s)\<rparr>)"
    "linked (unwind (insert b G) as st1)" "length (d_scopeList st1) = length (d_scopeList st)"
    by (rule unwind_step [OF Cons.prems(1,2)])
  have "d_scopeList st1 \<noteq> []"
    using step(9) Cons.prems(2) by auto
  moreover have "d_region cx = Some (length (d_scopeList st1))" if "x \<in> insert b G" "heap st1 x = Some cx" for x cx
    using that step(2,3,4,5,9) Cons.prems(3) by (auto simp: step(7) split: if_splits)
  ultimately show ?case
    using Cons.IH [OF step(8)] step(6,9) by simp
qed

text \<open>When the list is empty, freeing the region of the scope removes exactly the garbage.\<close>

lemma linked_free:
  assumes st: "linked (unwind G [] st)" and ne: "d_scopeList st \<noteq> []"
    and G: "\<And>x c. x \<in> G \<Longrightarrow> heap st x = Some c \<Longrightarrow> d_region c = Some (length (d_scopeList st))"
  shows "heap (free_region (length (d_scopeList st)) st) = heap st |` (- G)" "linked (free_region (length (d_scopeList st)) st)"
proof -
  let ?N = "length (d_scopeList st)" and ?u = "unwind G [] st"
  have low: "l < ?N" if x: "heap ?u x = Some c" "d_pScope c = Some l" for x c l
    using linked_scope [OF st x(1)] linked_chain [OF st, of ?N x] x by (auto simp: less_Suc_eq)
  have top: "d_region c \<noteq> Some ?N" if x: "heap ?u x = Some c" for x c
  proof
    assume "d_region c = Some ?N"
    from linked_region [OF st x this] obtain y cy where y: "heap ?u y = Some cy" "d_pContextObjRestore cy = Some x"
      by blast
    obtain k where k: "d_pScope cy = Some k"
      using linked_scope [OF st y(1)] by blast
    have "k = ?N"
      using linked_saved [OF st y k] x \<open>d_region c = Some ?N\<close> by auto
    with low [OF y(1) k] show False
      by simp
  qed
  show heap: "heap (free_region ?N st) = heap st |` (- G)"
  proof
    fix x
    show "heap (free_region ?N st) x = (heap st |` (- G)) x"
      using top [of x] G [of x] by (cases "heap st x") (auto simp: free_region_def restrict_map_def)
  qed
  have sc: "d_scopeList (free_region ?N st) = d_scopeList st" "fresh (free_region ?N st) = fresh st"
    by (simp_all add: free_region_def)
  have h: "heap (free_region ?N st) = heap ?u"
    by (simp add: heap)
  show "linked (free_region ?N st)"
  proof (rule linkedI)
    show "\<exists>l. l < length (d_scopeList (free_region ?N st)) \<and> d_pScope c = Some l" if "heap (free_region ?N st) a = Some c" for a c
      using that low [of a c] linked_scope [OF st, of a c] by (fastforce simp: h sc simp del: unwind_simps(1))
    show "distinct (d_scopeList (free_region ?N st) ! l)" if "l < length (d_scopeList (free_region ?N st))" for l
      using that linked_distinct [OF st, of l] by (simp add: sc nth_append)
    show "a \<in> set (d_scopeList (free_region ?N st) ! l) \<longleftrightarrow> (\<exists>c. heap (free_region ?N st) a = Some c \<and> d_pScope c = Some l)"
      if "l < length (d_scopeList (free_region ?N st))" for l a
      using that linked_chain [OF st, of l a] by (simp add: h sc nth_append del: unwind_simps(1))
    show "d_scopeList (free_region ?N st) \<noteq> []"
      using ne by (simp add: sc)
    show "a < fresh (free_region ?N st)" if "heap (free_region ?N st) a = Some c" for a c
      using linked_fresh [OF st] that unfolding h by (simp add: sc)
  qed (use linked_restore [OF st] linked_saved [OF st] linked_inj [OF st] linked_region [OF st] in \<open>unfold h, blast+\<close>)
qed

lemma linked_notified [simp]: "linked (st\<lparr>notified := n\<rparr>) = linked st"
  unfolding linked_def by simp

lemma unwind_start:
  assumes "linked st" "0 < getLevel st"
  shows "linked (unwind {} (last (d_scopeList st)) (st\<lparr>notified := n, d_scopeList := butlast (d_scopeList st)\<rparr>))"
proof -
  have "unwind {} (last (d_scopeList st)) (st\<lparr>notified := n, d_scopeList := butlast (d_scopeList st)\<rparr>) = st\<lparr>notified := n\<rparr>"
    using linked_nonempty [OF assms(1)] by (cases st) (simp add: unwind_def restrict_map_def)
  then show ?thesis
    using assms(1) by simp
qed

lemma getLevel_Suc: "linked st \<Longrightarrow> length (d_scopeList st) = Suc (getLevel st)"
  by (frule linked_nonempty) (simp add: getLevel_def)

lemma linked_pop:
  assumes st: "linked st" "0 < getLevel st"
  obtains st' where "ctx_pop restore st = Some st'" "linked st'" "getLevel st' = getLevel st - 1"
proof -
  let ?st = "st\<lparr>notified := notified st @ d_pCNOpre st, d_scopeList := butlast (d_scopeList st)\<rparr>"
  have len: "length (d_scopeList ?st) = getLevel st"
    by (simp add: getLevel_def)
  with st(2) have ne: "d_scopeList ?st \<noteq> []"
    by (metis length_0_conv less_irrefl)
  obtain st1 G where all: "restore_all restore (last (d_scopeList st)) ?st = Some st1" "linked (unwind G [] st1)"
    "length (d_scopeList st1) = getLevel st" "\<And>x c. x \<in> G \<Longrightarrow> heap st1 x = Some c \<Longrightarrow> d_region c = Some (getLevel st)"
    using unwind_all [OF unwind_start [OF st] ne, of restore] unfolding len by auto
  have "d_scopeList st1 \<noteq> []"
    using all(3) st(2) by auto
  then have "linked (free_region (getLevel st) st1)"
    using linked_free [OF all(2)] all(3,4) by simp
  moreover have pop: "ctx_pop restore st = Some (free_region (getLevel st) st1\<lparr>notified := notified st1 @ d_pCNOpost st1\<rparr>)"
    using st(2) all(1) by (simp add: ctx_pop_def Let_def free_region_def)
  ultimately show thesis
    by (intro that [OF pop _ ctx_pop_level [OF pop]]) simp
qed

end
