(* ===== verification/Context_Snapshots.thy ===== *)
theory Context_Snapshots
  imports Context_Correct
begin

text \<open>
  The contract of a context: clients see a stack of snapshots. A scope is a snapshot of the values
  of all objects; push copies the top snapshot, pop drops it, and a change of an object changes the
  top snapshot only. The contract between a context and the classes of its objects is a locale; the
  simulation of the snapshots by the heap of scopes and saved copies is proved once inside it.
\<close>

section \<open>Versions of an object\<close>

inductive versions :: "(nat \<Rightarrow> 'd ctx_obj option) \<Rightarrow> nat \<Rightarrow> (nat \<times> 'd) list \<Rightarrow> bool" for h where
  oldest: "\<lbrakk>h a = Some c; d_pScope c = Some l; d_pContextObjRestore c = None\<rbrakk> \<Longrightarrow> versions h a [(l, d_obj c)]"
| saved: "\<lbrakk>h a = Some c; d_pScope c = Some l; d_pContextObjRestore c = Some b; versions h b vs\<rbrakk>
    \<Longrightarrow> versions h a ((l, d_obj c) # vs)"

inductive_cases versions_NilE: "versions h a []"
inductive_cases versions_ConsE: "versions h a (v # vs)"

lemma versions_head:
  assumes "versions h a vs" "h a = Some c" "d_pScope c = Some l"
  obtains vs' where "vs = (l, d_obj c) # vs'"
    "case d_pContextObjRestore c of None \<Rightarrow> vs' = [] | Some b \<Rightarrow> versions h b vs' \<and> vs' \<noteq> []"
  using assms by (cases rule: versions.cases) (force elim: versions_NilE)+

lemma versions_frame:
  assumes "versions h a vs" "P a"
    and "\<And>y c b. \<lbrakk>P y; h y = Some c; d_pContextObjRestore c = Some b\<rbrakk> \<Longrightarrow> P b" "\<And>y. P y \<Longrightarrow> h' y = h y"
  shows "versions h' a vs"
  using assms(1,2)
proof (induction rule: versions.induct)
  case (oldest a c l)
  then show ?case
    using assms(4) by (auto intro: versions.oldest)
next
  case (saved a c l b vs)
  then show ?case
    using assms(3,4) by (auto intro: versions.saved)
qed

text \<open>The data an object has once all scopes above a level are popped.\<close>

fun data_at :: "'d restore \<Rightarrow> (nat \<times> 'd) list \<Rightarrow> nat \<Rightarrow> 'd" where
  "data_at restore [] L = undefined"
| "data_at restore [(l, d)] L = d"
| "data_at restore ((l, d) # (l', s) # vs) L = (if l \<le> L then d else data_at restore ((l', restore d s) # vs) L)"

lemma data_at_top: "l \<le> L \<Longrightarrow> data_at restore ((l, d) # vs) L = d"
  by (cases vs) auto

section \<open>The contract of the object classes\<close>

text \<open>
  \<open>save\<close> and \<open>restore\<close> are the virtual methods, \<open>exec\<close> the operations of the class on an object
  that is current, \<open>spec\<close> their meaning on the value a client sees. A saved copy \<open>s\<close> stays \<open>ok\<close>
  for the live data until it is used, and no operation changes what it restores.
\<close>

locale context_obj =
  fixes save :: "'d save" and restore :: "'d restore"
    and exec :: "'o \<Rightarrow> 'd \<Rightarrow> 'd option" and spec :: "'o \<Rightarrow> 'v \<Rightarrow> 'v option"
    and view :: "'d \<Rightarrow> 'v" and wf :: "'d \<Rightarrow> bool" and ok :: "'d \<Rightarrow> 'd \<Rightarrow> bool"
  assumes save_law: "\<lbrakk>wf d; save d = (s, d')\<rbrakk> \<Longrightarrow> wf d' \<and> ok s d' \<and> restore d' s = d \<and> view d' = view d"
    and exec_view: "wf d \<Longrightarrow> map_option view (exec f d) = spec f (view d)"
    and exec_wf: "\<lbrakk>wf d; exec f d = Some d'\<rbrakk> \<Longrightarrow> wf d'"
    and exec_ok: "\<lbrakk>wf d; ok s d; exec f d = Some d'\<rbrakk> \<Longrightarrow> ok s d' \<and> restore d' s = restore d s"
begin

fun good :: "(nat \<times> 'd) list \<Rightarrow> bool" where
  "good [] = False"
| "good [(l, d)] = wf d"
| "good ((l, d) # (l', s) # vs) = (wf d \<and> ok s d \<and> good ((l', restore d s) # vs))"

lemma good_wf: "good ((l, d) # vs) \<Longrightarrow> wf d"
  by (cases vs) auto

text \<open>The values a client sees at the levels up to \<open>n\<close>.\<close>

definition tracks :: "nat \<Rightarrow> (nat \<Rightarrow> 'd ctx_obj option) \<Rightarrow> nat \<Rightarrow> (nat \<Rightarrow> 'v) \<Rightarrow> bool" where
  "tracks n h a F \<longleftrightarrow> (\<exists>c vs. h a = Some c \<and> d_region c = None \<and> versions h a vs \<and> good vs \<and>
     (\<forall>L \<le> n. view (data_at restore vs L) = F L))"

lemma tracksI:
  "\<lbrakk>h a = Some c; d_region c = None; versions h a vs; good vs; \<And>L. L \<le> n \<Longrightarrow> view (data_at restore vs L) = F L\<rbrakk>
   \<Longrightarrow> tracks n h a F"
  unfolding tracks_def by blast

lemma tracksE:
  assumes "linked st" "tracks n (heap st) a F"
  obtains c l vs where "heap st a = Some c" "d_region c = None" "d_pScope c = Some l" "l \<le> getLevel st"
    "versions (heap st) a ((l, d_obj c) # vs)" "good ((l, d_obj c) # vs)"
    "\<And>L. L \<le> n \<Longrightarrow> view (data_at restore ((l, d_obj c) # vs) L) = F L"
    "d_pContextObjRestore c = None \<Longrightarrow> vs = [] \<and> l = 0" "\<And>b. d_pContextObjRestore c = Some b \<Longrightarrow> versions (heap st) b vs \<and> vs \<noteq> []"
proof -
  obtain c vs where c: "heap st a = Some c" "d_region c = None" and v: "versions (heap st) a vs" "good vs"
    "\<And>L. L \<le> n \<Longrightarrow> view (data_at restore vs L) = F L"
    using assms(2) unfolding tracks_def by blast
  obtain l where l: "d_pScope c = Some l" "l < length (d_scopeList st)"
    using linked_scope [OF assms(1) c(1)] by blast
  obtain vs' where vs': "vs = (l, d_obj c) # vs'"
      "case d_pContextObjRestore c of None \<Rightarrow> vs' = [] | Some b \<Rightarrow> versions (heap st) b vs' \<and> vs' \<noteq> []"
    by (rule versions_head [OF v(1) c(1) l(1)])
  have "d_pContextObjRestore c = None \<Longrightarrow> l = 0"
    using linked_restore [OF assms(1) c(1) l(1)] by auto
  then show thesis
    using that [OF c l(1) _ v(1,2) [unfolded vs'(1)] v(3) [unfolded vs'(1)]] l(2) getLevel_Suc [OF assms(1)] vs'(2)
    by (cases "d_pContextObjRestore c") simp_all
qed

lemma tracks_current:
  assumes "linked st" "tracks (getLevel st) (heap st) a F" "heap st a = Some c"
  shows "view (d_obj c) = F (getLevel st)"
proof (rule tracksE [OF assms(1,2)])
  fix c' l vs
  assume c': "heap st a = Some c'" "l \<le> getLevel st"
    "\<And>L. L \<le> getLevel st \<Longrightarrow> view (data_at restore ((l, d_obj c') # vs) L) = F L"
  then show ?thesis
    using c'(3) [of "getLevel st"] assms(3) by (simp add: data_at_top)
qed

lemma tracks_le: "\<lbrakk>tracks n h a F; m \<le> n\<rbrakk> \<Longrightarrow> tracks m h a F"
  unfolding tracks_def by (meson order_trans)

text \<open>The versions of an object do not depend on the cells that neither it nor its copies reach.\<close>

lemma tracks_frame:
  assumes a: "tracks n h a F" and P: "P a"
    "\<And>y c b. \<lbrakk>P y; h y = Some c; d_pContextObjRestore c = Some b\<rbrakk> \<Longrightarrow> P b" "\<And>y. P y \<Longrightarrow> h' y = h y"
  shows "tracks n h' a F"
proof -
  obtain c vs where c: "h a = Some c" "d_region c = None" "versions h a vs" "good vs"
    "\<forall>L \<le> n. view (data_at restore vs L) = F L"
    using a unfolding tracks_def by blast
  have "versions h' a vs"
    by (rule versions_frame [where P = P, OF c(3) P])
  then show ?thesis
    unfolding tracks_def using c P(1,3) by auto
qed

lemma linked_closed:
  assumes "linked st" "heap st y = Some c" "d_pContextObjRestore c = Some b"
  shows "heap st b \<noteq> None" "heap st b = Some s \<Longrightarrow> d_region s \<noteq> None" "b \<noteq> fresh st"
  using linked_scope [OF assms(1,2)] linked_saved [OF assms] linked_fresh [OF assms(1), of b] by fastforce+

section \<open>Each operation\<close>

lemma tracks_push:
  assumes st: "linked st" and a: "tracks (getLevel st) (heap st) a F"
  shows "tracks (Suc (getLevel st)) (heap st) a (F(Suc (getLevel st) := F (getLevel st)))"
proof -
  obtain c l vs where c: "heap st a = Some c" "d_region c = None" "l \<le> getLevel st"
    "versions (heap st) a ((l, d_obj c) # vs)" "good ((l, d_obj c) # vs)"
    "\<And>L. L \<le> getLevel st \<Longrightarrow> view (data_at restore ((l, d_obj c) # vs) L) = F L"
    by (rule tracksE [OF assms]) blast
  have "view (data_at restore ((l, d_obj c) # vs) (Suc (getLevel st))) = F (getLevel st)"
    using c(3) c(6) [of "getLevel st"] by (simp add: data_at_top)
  with c show ?thesis
    by (intro tracksI [OF c(1,2,4,5)]) (auto simp: le_Suc_eq)
qed

lemma ContextObj_heap:
  assumes "linked st" "ContextObj d st = (a, st')"
  shows "heap st' = (heap st)(a \<mapsto> \<lparr>d_pScope = Some 0, d_pContextObjRestore = None, d_region = None, d_obj = d\<rparr>)"
    "heap st a = None" "a = fresh st" "getLevel st' = getLevel st"
  using assms(2) linked_fresh [OF assms(1), of a]
  by (cases "heap st a"; auto simp: ContextObj_def addToChain_def Let_def getLevel_def)+

lemma tracks_new:
  assumes "linked st" "ContextObj d st = (a, st')" "wf d"
  shows "tracks n (heap st') a (\<lambda>L. view d)"
proof -
  let ?c = "\<lparr>d_pScope = Some 0, d_pContextObjRestore = None, d_region = None, d_obj = d\<rparr>"
  have a: "heap st' a = Some ?c"
    by (simp add: ContextObj_heap [OF assms(1,2)])
  show ?thesis
    using versions.oldest [where h = "heap st'" and a = a, OF a] assms(3) by (intro tracksI [where h = "heap st'" and a = a, OF a, of "[(0, d)]"]) auto
qed

lemma tracks_other_new:
  assumes st: "linked st" "ContextObj d st = (b, st')" and a: "tracks n (heap st) a F"
  shows "tracks n (heap st') a F"
proof (rule tracks_frame [OF a, where P = "\<lambda>y. heap st y \<noteq> None"])
  show "heap st y' \<noteq> None" if "heap st y = Some c" "d_pContextObjRestore c = Some y'" for y c y'
    using linked_closed [OF st(1) that] by blast
qed (use a tracks_def ContextObj_heap [OF st] in auto)

lemma tracks_update:
  assumes st: "linked st" and a: "tracks n (heap st) a F" "n = getLevel st"
    and c: "heap st a = Some c" "d_pScope c \<noteq> Some n" and up: "update save a st = Some st'"
  shows "linked st'" "getLevel st' = n" "tracks n (heap st') a F" "\<exists>c. heap st' a = Some c \<and> d_pScope c = Some n"
proof -
  obtain l vs where v: "d_region c = None" "d_pScope c = Some l" "l \<le> n"
    "versions (heap st) a ((l, d_obj c) # vs)" "good ((l, d_obj c) # vs)"
    "\<And>L. L \<le> n \<Longrightarrow> view (data_at restore ((l, d_obj c) # vs) L) = F L"
    "d_pContextObjRestore c = None \<Longrightarrow> vs = []" "\<And>b. d_pContextObjRestore c = Some b \<Longrightarrow> versions (heap st) b vs"
    by (rule tracksE [OF st a(1)]) (simp add: c(1) a(2))
  obtain s d where s: "save (d_obj c) = (s, d)" by fastforce
  note eq = update_eq [OF c(1) v(2) s up]
  have l: "l < n"
    using v(2,3) c(2) by auto
  show linked': "linked st'"
    using linked_update [OF st c(1) v(2) _ v(1) up] l a(2) by simp
  show "getLevel st' = n"
    using eq(3) by (simp add: getLevel_def a(2) Let_def)
  let ?b = "fresh st"
  have ab: "a \<noteq> ?b"
    using linked_fresh [OF st c(1)] by simp
  have law: "wf d" "ok s d" "restore d s = d_obj c" "view d = view (d_obj c)"
    using save_law [OF good_wf [OF v(5)] s] by auto
  have old: "versions (heap st') y vs'" if "versions (heap st) y vs'" "d_pContextObjRestore c = Some y" for y vs'
  proof (rule versions_frame [OF that(1), where P = "\<lambda>y. y \<noteq> a \<and> y \<noteq> ?b"])
    show "y \<noteq> a \<and> y \<noteq> ?b"
      using linked_closed [OF st c(1) that(2)] c(1) v(1) by auto
    show "z \<noteq> a \<and> z \<noteq> ?b" if "heap st y = Some cy" "d_pContextObjRestore cy = Some z" for y cy z
      using linked_closed [OF st that] c(1) v(1) by auto
  qed (simp add: eq(1))
  let ?cb = "c\<lparr>d_region := Some (getLevel st), d_obj := s\<rparr>"
  have b: "heap st' ?b = Some ?cb" and a': "heap st' a = Some (c\<lparr>d_pScope := Some n, d_pContextObjRestore := Some ?b, d_obj := d\<rparr>)"
    using ab by (simp_all add: eq(1) a(2))
  have "versions (heap st') ?b ((l, s) # vs)"
    using versions.oldest [where h = "heap st'" and a = ?b, OF b] versions.saved [where h = "heap st'" and a = ?b, OF b] old v(2,7,8)
    by (cases "d_pContextObjRestore c") simp_all
  then have new: "versions (heap st') a ((n, d) # (l, s) # vs)"
    using versions.saved [where h = "heap st'" and a = a, OF a'] by simp
  have "view (data_at restore ((n, d) # (l, s) # vs) L) = F L" if "L \<le> n" for L
    using that v(6) [of L] l law by (cases "L = n") (auto simp: data_at_top)
  then show "tracks n (heap st') a F"
    by (intro tracksI [where h = "heap st'" and a = a, OF a' _ new]) (use v(1,5) law in auto)
  show "\<exists>c. heap st' a = Some c \<and> d_pScope c = Some n"
    by (simp add: a')
qed

lemma tracks_other_update:
  assumes st: "linked st" and a: "heap st a = Some c" "d_region c = None" "update save a st = Some st'"
    and x: "tracks n (heap st) x F" "x \<noteq> a"
  shows "tracks n (heap st') x F"
proof -
  obtain l where l: "d_pScope c = Some l"
    using linked_scope [OF st a(1)] by blast
  obtain s d where s: "save (d_obj c) = (s, d)" by fastforce
  note eq = update_eq [OF a(1) l s a(3)]
  show ?thesis
  proof (rule tracks_frame [OF x(1), where P = "\<lambda>y. y \<noteq> a \<and> y \<noteq> fresh st"])
    show "z \<noteq> a \<and> z \<noteq> fresh st" if "heap st y = Some cy" "d_pContextObjRestore cy = Some z" for y cy z
      using linked_closed [OF st that] a by auto
    show "x \<noteq> a \<and> x \<noteq> fresh st"
      using x linked_fresh [OF st, of x] unfolding tracks_def by auto
  qed (simp add: eq(1))
qed

lemma tracks_makeCurrent:
  assumes st: "linked st" and a: "tracks (getLevel st) (heap st) a F"
  obtains st' c where "makeCurrent save a st = Some st'" "linked st'" "getLevel st' = getLevel st"
    "tracks (getLevel st) (heap st') a F" "heap st' a = Some c" "d_pScope c = Some (getLevel st)"
    "\<And>x G. tracks (getLevel st) (heap st) x G \<Longrightarrow> x \<noteq> a \<Longrightarrow> tracks (getLevel st) (heap st') x G"
proof -
  obtain c l where c: "heap st a = Some c" "d_region c = None" "d_pScope c = Some l"
    by (rule tracksE [OF assms]) blast
  show thesis
  proof (cases "l = getLevel st")
    case True
    with that [of st c] assms c show ?thesis
      by (simp add: makeCurrent_def)
  next
    case False
    obtain st' where up: "update save a st = Some st'"
      using c by (cases "save (d_obj c)") (simp add: update_def Let_def)
    have "d_pScope c \<noteq> Some (getLevel st)"
      using c(3) False by simp
    note upd = tracks_update [OF st a refl c(1) this up]
    obtain c' where c': "heap st' a = Some c'" "d_pScope c' = Some (getLevel st)"
      using upd(4) by blast
    have "makeCurrent save a st = Some st'"
      using c False up by (simp add: makeCurrent_def)
    from that [OF this upd(1-3) c'] tracks_other_update [OF st c(1,2) up] show ?thesis
      by blast
  qed
qed

lemma linked_set_obj:
  assumes st: "linked st" and c: "heap st a = Some c"
  shows "linked (st\<lparr>heap := (heap st)(a \<mapsto> c\<lparr>d_obj := d\<rparr>)\<rparr>)" (is "linked ?st")
proof (rule linkedI)
  have same: "\<exists>cx. heap st x = Some cx \<and> d_pScope cx = d_pScope c' \<and> d_region cx = d_region c' \<and>
      d_pContextObjRestore cx = d_pContextObjRestore c'" if "heap ?st x = Some c'" for x c'
    using that c by (auto split: if_splits)
  have now: "\<exists>c'. heap ?st x = Some c' \<and> d_pScope cx = d_pScope c' \<and> d_region cx = d_region c' \<and>
      d_pContextObjRestore cx = d_pContextObjRestore c'" if "heap st x = Some cx" for x cx
    using that c by auto
  show "x \<in> set (d_scopeList ?st ! l) \<longleftrightarrow> (\<exists>c. heap ?st x = Some c \<and> d_pScope c = Some l)"
    if "l < length (d_scopeList ?st)" for l x
    using linked_chain [OF st, of l x] that c by auto
  show "\<exists>s l'. heap ?st b = Some s \<and> d_pScope s = Some l' \<and> l' < l \<and> d_region s = Some l"
    if "heap ?st x = Some c'" "d_pContextObjRestore c' = Some b" "d_pScope c' = Some l" for x c' b l
    using same [OF that(1)] that(2,3) linked_saved [OF st] now by metis
  show "\<exists>x c'. heap ?st x = Some c' \<and> d_pContextObjRestore c' = Some b" if "heap ?st b = Some s" "d_region s = Some r" for b s r
    using same [OF that(1)] that(2) linked_region [OF st] now by metis
  show "x = x'" if "heap ?st x = Some c1" "heap ?st x' = Some c2" "d_pContextObjRestore c1 = Some b" "d_pContextObjRestore c2 = Some b"
    for x x' c1 c2 b
    using same [OF that(1)] same [OF that(2)] that(3,4) linked_inj [OF st] by metis
  show "\<exists>b. d_pContextObjRestore c' = Some b" if "heap ?st x = Some c'" "d_pScope c' = Some l" "0 < l" for x c' l
    using same [OF that(1)] that(2,3) linked_restore [OF st] by metis
  show "\<exists>l. l < length (d_scopeList ?st) \<and> d_pScope c' = Some l" if "heap ?st x = Some c'" for x c'
    using same [OF that] linked_scope [OF st, of x] by auto
  show "x < fresh ?st" if "heap ?st x = Some c'" for x c'
    using same [OF that] linked_fresh [OF st, of x] by auto
qed (use linked_nonempty [OF st] linked_distinct [OF st] in auto)

lemma tracks_exec:
  assumes st: "linked st" and a: "tracks n (heap st) a F" "n = getLevel st"
    and c: "heap st a = Some c" "d_pScope c = Some n" and f: "exec f (d_obj c) = Some d"
  shows "tracks n ((heap st)(a \<mapsto> c\<lparr>d_obj := d\<rparr>)) a (F(n := view d))" (is "tracks n ?h a _")
proof -
  obtain vs where v: "d_region c = None" "good ((n, d_obj c) # vs)"
    "\<And>L. L \<le> n \<Longrightarrow> view (data_at restore ((n, d_obj c) # vs) L) = F L"
    "d_pContextObjRestore c = None \<Longrightarrow> vs = [] \<and> n = 0" "\<And>b. d_pContextObjRestore c = Some b \<Longrightarrow> versions (heap st) b vs \<and> vs \<noteq> []"
  proof (rule tracksE [OF st a(1)])
    fix c' l vs
    assume c': "heap st a = Some c'" "d_region c' = None" "d_pScope c' = Some l" "good ((l, d_obj c') # vs)"
      "\<And>L. L \<le> n \<Longrightarrow> view (data_at restore ((l, d_obj c') # vs) L) = F L"
      "d_pContextObjRestore c' = None \<Longrightarrow> vs = [] \<and> l = 0" "\<And>b. d_pContextObjRestore c' = Some b \<Longrightarrow> versions (heap st) b vs \<and> vs \<noteq> []"
    have "c' = c" "l = n"
      using c c'(1,3) by auto
    with c'(2,4-7) that [of vs] show thesis
      by simp
  qed
  have a': "?h a = Some (c\<lparr>d_obj := d\<rparr>)"
    by simp
  have old: "versions ?h b vs" if "d_pContextObjRestore c = Some b" for b
  proof (rule versions_frame [where h = "heap st" and P = "\<lambda>y. y \<noteq> a"])
    show "versions (heap st) b vs" "b \<noteq> a"
      using v(5) that linked_closed [OF st c(1) that] c(1) v(1) by auto
    show "z \<noteq> a" if "heap st y = Some cy" "d_pContextObjRestore cy = Some z" for y cy z
      using linked_closed [OF st that] c(1) v(1) by auto
  qed simp
  have new: "versions ?h a ((n, d) # vs)"
    using versions.oldest [where h = ?h and a = a, OF a'] versions.saved [where h = ?h and a = a, OF a'] old c(2) v(4)
    by (cases "d_pContextObjRestore c") simp_all
  have wfd: "wf d" "wf (d_obj c)"
    using good_wf [OF v(2)] exec_wf f by auto
  show ?thesis
  proof (cases vs)
    case Nil
    then have "n = 0"
      using v(4,5) by (cases "d_pContextObjRestore c") auto
    with Nil show ?thesis
      using wfd v(1) by (intro tracksI [where h = ?h and a = a, OF a' _ new]) auto
  next
    case (Cons w ws)
    obtain l s where w: "w = (l, s)" by fastforce
    have "ok s d \<and> restore d s = restore (d_obj c) s"
      using exec_ok [OF wfd(2) _ f] v(2) Cons w by simp
    note s = conjunct1 [OF this] conjunct2 [OF this]
    have "view (data_at restore ((n, d) # vs) L) = (F(n := view d)) L" if "L \<le> n" for L
      using v(3) [OF that] that s(2) Cons w by (cases "L = n") auto
    with wfd v(1,2) Cons w s show ?thesis
      by (intro tracksI [where h = ?h and a = a, OF a' _ new]) auto
  qed
qed

lemma tracks_modify:
  assumes st: "linked st" and a: "tracks (getLevel st) (heap st) a F"
  shows "case modify save (exec f) a st of
       None \<Rightarrow> spec f (F (getLevel st)) = None
     | Some st' \<Rightarrow> \<exists>v. spec f (F (getLevel st)) = Some v \<and> linked st' \<and> getLevel st' = getLevel st \<and>
         tracks (getLevel st) (heap st') a (F(getLevel st := v)) \<and>
         (\<forall>x G. tracks (getLevel st) (heap st) x G \<longrightarrow> x \<noteq> a \<longrightarrow> tracks (getLevel st) (heap st') x G)"
proof -
  obtain st1 c where cur: "makeCurrent save a st = Some st1" "linked st1" "getLevel st1 = getLevel st"
    "tracks (getLevel st) (heap st1) a F" "heap st1 a = Some c" "d_pScope c = Some (getLevel st)"
    and other: "\<And>x G. tracks (getLevel st) (heap st) x G \<Longrightarrow> x \<noteq> a \<Longrightarrow> tracks (getLevel st) (heap st1) x G"
    by (rule tracks_makeCurrent [OF assms]) blast
  have reg: "d_region c = None"
    using cur(4,5) unfolding tracks_def by auto
  have wfc: "wf (d_obj c)"
    by (rule tracksE [OF cur(2,4)]) (use cur(5) good_wf in auto)
  have "view (d_obj c) = F (getLevel st)"
    using tracks_current [OF cur(2) _ cur(5)] cur(3,4) by simp
  then have sp: "spec f (F (getLevel st)) = map_option view (exec f (d_obj c))"
    using exec_view [OF wfc] by simp
  show ?thesis
  proof (cases "exec f (d_obj c)")
    case None
    then show ?thesis
      using cur(1,5) sp by (simp add: modify_def)
  next
    case (Some d)
    let ?h = "(heap st1)(a \<mapsto> c\<lparr>d_obj := d\<rparr>)"
    have "tracks (getLevel st) ?h x G" if "tracks (getLevel st) (heap st) x G" "x \<noteq> a" for x G
    proof (rule tracks_frame [OF other [OF that], where P = "\<lambda>y. y \<noteq> a"])
      show "z \<noteq> a" if "heap st1 y = Some cy" "d_pContextObjRestore cy = Some z" for y cy z
        using linked_closed [OF cur(2) that] cur(5) reg by auto
    qed (use that in auto)
    moreover have "modify save (exec f) a st = Some (st1\<lparr>heap := ?h\<rparr>)"
      using cur(1,5) Some by (simp add: modify_def)
    ultimately show ?thesis
      using tracks_exec [OF cur(2,4) _ cur(5,6) Some] linked_set_obj [OF cur(2,5)] sp Some cur(3) by (simp add: getLevel_def)
  qed
qed

text \<open>Restoring an object drops its newest version and keeps the values of the levels below.\<close>

lemma tracks_unwind_step:
  assumes st: "linked (unwind G (a # as) st)" "d_scopeList st \<noteq> []" and x: "tracks n (heap st |` (- G)) x F" "n < length (d_scopeList st)"
  obtains st' b where "restoreAndContinue restore a st = Some st'" "linked (unwind (insert b G) as st')"
    "length (d_scopeList st') = length (d_scopeList st)" "tracks n (heap st' |` (- insert b G)) x F"
    "\<And>y cy. heap st' y = Some cy \<Longrightarrow> y \<in> insert b G \<Longrightarrow> y \<in> G \<and> heap st y = Some cy \<or> d_region cy = Some (length (d_scopeList st))"
proof -
  obtain c b s l st1 where step: "heap st a = Some c" "d_pScope c = Some (length (d_scopeList st))"
    "d_pContextObjRestore c = Some b" "heap st b = Some s" "d_pScope s = Some l" "a \<notin> G" "b \<notin> G" "a \<noteq> b"
    "d_region s = Some (length (d_scopeList st))" "restoreAndContinue restore a st = Some st1"
    "heap st1 = (heap st)(a \<mapsto> c\<lparr>d_pScope := Some l, d_pContextObjRestore := d_pContextObjRestore s,
       d_obj := restore (d_obj c) (d_obj s)\<rparr>)"
    "linked (unwind (insert b G) as st1)" "length (d_scopeList st1) = length (d_scopeList st)"
    by (rule unwind_step [OF st])
  let ?u = "unwind G (a # as) st" and ?h = "heap st1 |` (- insert b G)"
  have ua: "heap ?u a = Some c" and ub: "heap ?u b = Some s"
    using step by simp_all
  have tu: "tracks n (heap ?u) x F"
    using x(1) by simp
  have only: "y = a" if "heap ?u y = Some cy" "d_pContextObjRestore cy = Some b" for y cy
    using linked_inj [OF st(1) that(1) ua that(2) step(3)] .
  have same: "?h y = heap ?u y" if "y \<noteq> a" "y \<noteq> b" for y
    using that by (auto simp: step(11) restrict_map_def)
  obtain cx where cx: "heap ?u x = Some cx" "d_region cx = None"
    using tu unfolding tracks_def by blast
  have "tracks n ?h x F"
  proof (cases "x = a")
    case False
    show ?thesis
    proof (cases "d_region c")
      case None
      show ?thesis
      proof (rule tracks_frame [OF tu, where P = "\<lambda>y. y \<noteq> a \<and> y \<noteq> b"])
        show "z \<noteq> a \<and> z \<noteq> b" if "y \<noteq> a \<and> y \<noteq> b" "heap ?u y = Some cy" "d_pContextObjRestore cy = Some z" for y cy z
          using that only linked_closed(2) [OF st(1) that(2,3)] ua None by auto
      qed (use False cx ub step(9) same in auto)
    next
      case (Some r)
      from linked_region [OF st(1) ua this] obtain y cy where y: "heap ?u y = Some cy" "d_pContextObjRestore cy = Some a"
        by blast
      then obtain k where "d_pScope cy = Some k" "k < length (d_scopeList ?u)"
        using linked_scope [OF st(1)] by blast
      then show ?thesis
        using linked_saved [OF st(1) y, of k] ua step(2) by auto
    qed
  next
    case True
    have lev: "getLevel ?u = length (d_scopeList st)"
      by (simp add: getLevel_def)
    obtain vs where vs: "versions (heap ?u) b vs" "good ((length (d_scopeList st), d_obj c) # vs)" "d_region c = None"
      "\<And>L. L \<le> n \<Longrightarrow> view (data_at restore ((length (d_scopeList st), d_obj c) # vs) L) = F L"
      by (rule tracksE [OF st(1) tu]) (use True ua step(2,3) in auto)
    obtain ws where ws: "vs = (l, d_obj s) # ws"
        "case d_pContextObjRestore s of None \<Rightarrow> ws = [] | Some b \<Rightarrow> versions (heap ?u) b ws \<and> ws \<noteq> []"
      by (rule versions_head [OF vs(1) ub step(5)])
    have a': "?h a = Some (c\<lparr>d_pScope := Some l, d_pContextObjRestore := d_pContextObjRestore s, d_obj := restore (d_obj c) (d_obj s)\<rparr>)"
      using step by simp
    have old: "versions ?h y ws" if y: "d_pContextObjRestore s = Some y" "versions (heap ?u) y ws" for y
    proof (rule versions_frame [OF y(2), where P = "\<lambda>y. y \<noteq> a \<and> y \<noteq> b"])
      show "y \<noteq> a \<and> y \<noteq> b"
        using only [OF ub] y(1) linked_closed(2) [OF st(1) ub y(1)] ua vs(3) step(8) by auto
      show "z \<noteq> a \<and> z \<noteq> b" if "y \<noteq> a \<and> y \<noteq> b" "heap ?u y = Some cy" "d_pContextObjRestore cy = Some z" for y cy z
        using that only linked_closed(2) [OF st(1) that(2,3)] ua vs(3) by auto
    qed (use same in simp)
    have new: "versions ?h a ((l, restore (d_obj c) (d_obj s)) # ws)"
      using versions.oldest [where h = ?h and a = a, OF a'] versions.saved [where h = ?h and a = a, OF a'] old ws(2)
      by (cases "d_pContextObjRestore s") simp_all
    show ?thesis
      unfolding True using vs(2,3) vs(4) x(2) ws(1)
      by (intro tracksI [where h = ?h and a = a, OF a' _ new]) auto
  qed
  moreover have "y \<in> G \<and> heap st y = Some cy \<or> d_region cy = Some (length (d_scopeList st))"
    if "heap st1 y = Some cy" "y \<in> insert b G" for y cy
    using that step(4,6,8,9) by (auto simp: step(11) split: if_splits)
  ultimately show thesis
    by (rule that [OF step(10,12,13)])
qed

lemma tracks_unwind_all:
  assumes "linked (unwind G as st)" "d_scopeList st \<noteq> []" "tracks n (heap st |` (- G)) x F" "n < length (d_scopeList st)"
    and "\<And>y cy. heap st y = Some cy \<Longrightarrow> y \<in> G \<Longrightarrow> d_region cy = Some (length (d_scopeList st))"
  shows "\<exists>st'. restore_all restore as st = Some st' \<and> tracks n (heap (free_region (length (d_scopeList st)) st')) x F"
  using assms
proof (induction as arbitrary: G st)
  case Nil
  then show ?case
    using linked_free(1) [OF Nil.prems(1,2)] by simp
next
  case (Cons a as)
  obtain st1 b where step: "restoreAndContinue restore a st = Some st1" "linked (unwind (insert b G) as st1)"
    "length (d_scopeList st1) = length (d_scopeList st)" "tracks n (heap st1 |` (- insert b G)) x F"
    "\<And>y cy. heap st1 y = Some cy \<Longrightarrow> y \<in> insert b G \<Longrightarrow> y \<in> G \<and> heap st y = Some cy \<or> d_region cy = Some (length (d_scopeList st))"
    by (rule tracks_unwind_step [OF Cons.prems(1-4)]) blast
  have "d_scopeList st1 \<noteq> []"
    using step(3) Cons.prems(2) by auto
  moreover have "d_region cy = Some (length (d_scopeList st1))" if "heap st1 y = Some cy" "y \<in> insert b G" for y cy
    using step(5) [OF that] Cons.prems(5) step(3) by auto
  ultimately have "\<exists>st'. restore_all restore as st1 = Some st' \<and> tracks n (heap (free_region (length (d_scopeList st1)) st')) x F"
    using Cons.IH [OF step(2) _ step(4)] step(3) Cons.prems(4) by simp
  then show ?case
    using step(1,3) by simp
qed

lemma tracks_pop:
  assumes st: "linked st" "ctx_pop restore st = Some st'" and x: "tracks (getLevel st) (heap st) x F"
  shows "tracks (getLevel st') (heap st') x F"
proof -
  have pos: "0 < getLevel st"
    using ctx_pop_positive [OF st(2)] .
  let ?st = "st\<lparr>notified := notified st @ d_pCNOpre st, d_scopeList := butlast (d_scopeList st)\<rparr>"
  have len: "length (d_scopeList ?st) = getLevel st"
    by (simp add: getLevel_def)
  with pos have ne: "d_scopeList ?st \<noteq> []"
    by (metis length_0_conv less_irrefl)
  have "tracks (getLevel st') (heap ?st |` (- {})) x F"
    using tracks_le [OF x] ctx_pop_level [OF st(2)] by (simp add: restrict_map_def)
  from tracks_unwind_all [OF unwind_start [OF st(1) pos] ne this] ctx_pop_level [OF st(2)] pos
  obtain st1 where "restore_all restore (last (d_scopeList st)) ?st = Some st1" "tracks (getLevel st') (heap (free_region (getLevel st) st1)) x F"
    unfolding len by auto
  then show ?thesis
    using st(2) pos by (simp add: ctx_pop_def Let_def split: if_splits) auto
qed

end

section \<open>Clients\<close>

text \<open>
  A client creates and changes objects and pushes and pops scopes; \<open>hs\<close> are its objects in the
  order of creation. The specification keeps one list of values per scope.
\<close>

datatype ('d, 'o) ctx_op = Push | Pop | New 'd | Do nat 'o

fun ctx_step :: "'d save \<Rightarrow> 'd restore \<Rightarrow> ('o \<Rightarrow> 'd \<Rightarrow> 'd option) \<Rightarrow> ('d, 'o) ctx_op \<Rightarrow> 'd ctx \<times> nat list \<Rightarrow> ('d ctx \<times> nat list) option" where
  "ctx_step save restore exec Push (st, hs) = Some (ctx_push st, hs)"
| "ctx_step save restore exec Pop (st, hs) = (case ctx_pop restore st of None \<Rightarrow> None | Some st' \<Rightarrow> Some (st', hs))"
| "ctx_step save restore exec (New d) (st, hs) = (let (a, st') = ContextObj d st in Some (st', hs @ [a]))"
| "ctx_step save restore exec (Do i f) (st, hs) =
     (if i < length hs then case modify save (exec f) (hs ! i) st of None \<Rightarrow> None | Some st' \<Rightarrow> Some (st', hs) else None)"

fun ctx_run :: "'d save \<Rightarrow> 'd restore \<Rightarrow> ('o \<Rightarrow> 'd \<Rightarrow> 'd option) \<Rightarrow> ('d, 'o) ctx_op list \<Rightarrow> 'd ctx \<times> nat list \<Rightarrow> ('d ctx \<times> nat list) option" where
  "ctx_run save restore exec [] s = Some s"
| "ctx_run save restore exec (p # ps) s =
     (case ctx_step save restore exec p s of None \<Rightarrow> None | Some s' \<Rightarrow> ctx_run save restore exec ps s')"

fun snap_step :: "('d \<Rightarrow> 'v) \<Rightarrow> ('o \<Rightarrow> 'v \<Rightarrow> 'v option) \<Rightarrow> ('d, 'o) ctx_op \<Rightarrow> 'v list list \<Rightarrow> 'v list list option" where
  "snap_step view spec Push fs = Some (fs @ [last fs])"
| "snap_step view spec Pop fs = (if length fs \<le> 1 then None else Some (butlast fs))"
| "snap_step view spec (New d) fs = Some (map (\<lambda>vs. vs @ [view d]) fs)"
| "snap_step view spec (Do i f) fs =
     (if i < length (last fs) then case spec f (last fs ! i) of None \<Rightarrow> None | Some v \<Rightarrow> Some (butlast fs @ [(last fs)[i := v]]) else None)"

fun snap_run :: "('d \<Rightarrow> 'v) \<Rightarrow> ('o \<Rightarrow> 'v \<Rightarrow> 'v option) \<Rightarrow> ('d, 'o) ctx_op list \<Rightarrow> 'v list list \<Rightarrow> 'v list list option" where
  "snap_run view spec [] fs = Some fs"
| "snap_run view spec (p # ps) fs = (case snap_step view spec p fs of None \<Rightarrow> None | Some fs' \<Rightarrow> snap_run view spec ps fs')"

text \<open>What the client reads from its objects.\<close>

definition observe :: "('d \<Rightarrow> 'v) \<Rightarrow> 'd ctx \<times> nat list \<Rightarrow> 'v option list" where
  "observe view s = map (\<lambda>a. map_option (\<lambda>c. view (d_obj c)) (heap (fst s) a)) (snd s)"

context context_obj
begin

definition simulates :: "'d ctx \<times> nat list \<Rightarrow> 'v list list \<Rightarrow> bool" where
  "simulates s fs \<longleftrightarrow> (case s of (st, hs) \<Rightarrow> linked st \<and> distinct hs \<and> length fs = Suc (getLevel st) \<and>
     (\<forall>vs \<in> set fs. length vs = length hs) \<and> (\<forall>i < length hs. tracks (getLevel st) (heap st) (hs ! i) (\<lambda>L. fs ! L ! i)))"

definition initial_ok :: "('d, 'o) ctx_op \<Rightarrow> bool" where
  "initial_ok p = (case p of New d \<Rightarrow> wf d | _ \<Rightarrow> True)"

lemma tracks_cong: "\<lbrakk>tracks n h a F; \<And>L. L \<le> n \<Longrightarrow> F L = G L\<rbrakk> \<Longrightarrow> tracks n h a G"
  unfolding tracks_def by auto

lemma simulatesD:
  assumes "simulates (st, hs) fs"
  shows sim_linked: "linked st" and sim_distinct: "distinct hs" and sim_length: "length fs = Suc (getLevel st)"
    and sim_width: "\<And>L. L \<le> getLevel st \<Longrightarrow> length (fs ! L) = length hs"
    and sim_tracks: "\<And>i. i < length hs \<Longrightarrow> tracks (getLevel st) (heap st) (hs ! i) (\<lambda>L. fs ! L ! i)"
    and sim_nonempty: "fs \<noteq> []" and sim_last: "last fs = fs ! getLevel st"
proof -
  show len: "length fs = Suc (getLevel st)"
    using assms by (simp add: simulates_def)
  then show ne: "fs \<noteq> []"
    by auto
  show "last fs = fs ! getLevel st"
    using len last_conv_nth [OF ne] by simp
qed (use assms in \<open>auto simp: simulates_def\<close>)

lemma simulatesI:
  assumes "linked st" "distinct hs" "length fs = Suc (getLevel st)" "\<And>L. L \<le> getLevel st \<Longrightarrow> length (fs ! L) = length hs"
    and "\<And>i. i < length hs \<Longrightarrow> tracks (getLevel st) (heap st) (hs ! i) (\<lambda>L. fs ! L ! i)"
  shows "simulates (st, hs) fs"
  using assms by (auto simp: simulates_def in_set_conv_nth less_Suc_eq_le)

lemma simulates_observe:
  assumes sim: "simulates (st, hs) fs"
  shows "observe view (st, hs) = map Some (last fs)"
proof -
  have "map_option (\<lambda>c. view (d_obj c)) (heap st (hs ! i)) = Some (last fs ! i)" if i: "i < length hs" for i
  proof -
    obtain c where c: "heap st (hs ! i) = Some c"
      using sim_tracks [OF sim i] unfolding tracks_def by blast
    show ?thesis
      using tracks_current [OF sim_linked [OF sim] sim_tracks [OF sim i] c] c by (simp add: sim_last [OF sim])
  qed
  then show ?thesis
    using sim_width [OF sim, of "getLevel st"] by (auto simp: observe_def sim_last [OF sim] intro!: nth_equalityI)
qed

lemma simulates_push: "simulates (st, hs) fs \<Longrightarrow> simulates (ctx_push st, hs) (fs @ [last fs])"
proof -
  assume sim: "simulates (st, hs) fs"
  note st = sim_linked [OF sim]
  have lev: "getLevel (ctx_push st) = Suc (getLevel st)" and heap: "heap (ctx_push st) = heap st"
    using getLevel_Suc [OF st] by (simp_all add: getLevel_def ctx_push_def)
  have nth: "(fs @ [last fs]) ! L = (if L = Suc (getLevel st) then fs ! getLevel st else fs ! L)" if "L \<le> Suc (getLevel st)" for L
    using that sim_length [OF sim] by (auto simp: nth_append sim_last [OF sim])
  show ?thesis
  proof (rule simulatesI)
    show "tracks (getLevel (ctx_push st)) (heap (ctx_push st)) (hs ! i) (\<lambda>L. (fs @ [last fs]) ! L ! i)" if "i < length hs" for i
      unfolding lev heap by (rule tracks_cong [OF tracks_push [OF st sim_tracks [OF sim that]]]) (simp add: nth)
    show "length ((fs @ [last fs]) ! L) = length hs" if "L \<le> getLevel (ctx_push st)" for L
      using that sim_width [OF sim] by (simp add: nth lev)
  qed (use simulatesD [OF sim] linked_push [OF st] lev in auto)
qed

lemma simulates_pop:
  assumes sim: "simulates (st, hs) fs" and pop: "ctx_pop restore st = Some st'"
  shows "simulates (st', hs) (butlast fs)"
proof -
  note st = sim_linked [OF sim] and lev = ctx_pop_level [OF pop] and pos = ctx_pop_positive [OF pop]
  have nth: "butlast fs ! L = fs ! L" if "L \<le> getLevel st'" for L
    using that lev pos sim_length [OF sim] by (auto simp: nth_butlast)
  show ?thesis
  proof (rule simulatesI)
    show "linked st'"
      using linked_pop [OF st pos, where restore = restore] pop by (metis option.inject)
    show "tracks (getLevel st') (heap st') (hs ! i) (\<lambda>L. butlast fs ! L ! i)" if "i < length hs" for i
      by (rule tracks_cong [OF tracks_pop [OF st pop sim_tracks [OF sim that]]]) (simp add: nth)
  qed (use simulatesD [OF sim] lev pos nth in auto)
qed

lemma simulates_new:
  assumes sim: "simulates (st, hs) fs" and new: "ContextObj d st = (a, st')" and d: "wf d"
  shows "simulates (st', hs @ [a]) (map (\<lambda>vs. vs @ [view d]) fs)"
proof -
  note st = sim_linked [OF sim]
  note lev = ContextObj_heap(4) [OF st new]
  have fresh: "a \<noteq> hs ! i" if "i < length hs" for i
    using sim_tracks [OF sim that] ContextObj_heap(2) [OF st new] unfolding tracks_def by auto
  have nth: "map (\<lambda>vs. vs @ [view d]) fs ! L = fs ! L @ [view d]" if "L \<le> getLevel st" for L
    using that sim_length [OF sim] by simp
  show ?thesis
  proof (rule simulatesI)
    fix i assume "i < length (hs @ [a])"
    then consider "i = length hs" | "i < length hs" by (auto simp: less_Suc_eq)
    then show "tracks (getLevel st') (heap st') ((hs @ [a]) ! i) (\<lambda>L. map (\<lambda>vs. vs @ [view d]) fs ! L ! i)"
    proof cases
      case 1
      have "tracks (getLevel st') (heap st') a (\<lambda>L. map (\<lambda>vs. vs @ [view d]) fs ! L ! i)"
        by (rule tracks_cong [OF tracks_new [OF st new d]]) (use 1 sim_width [OF sim] lev nth in \<open>auto simp: nth_append\<close>)
      with 1 show ?thesis by simp
    next
      case 2
      have "tracks (getLevel st') (heap st') (hs ! i) (\<lambda>L. map (\<lambda>vs. vs @ [view d]) fs ! L ! i)"
        unfolding lev by (rule tracks_cong [OF tracks_other_new [OF st new sim_tracks [OF sim 2]]])
          (use 2 sim_width [OF sim] nth in \<open>auto simp: nth_append\<close>)
      with 2 show ?thesis by (simp add: nth_append)
    qed
  qed (use simulatesD [OF sim] linked_ContextObj [OF st new] lev nth fresh in \<open>auto simp: in_set_conv_nth\<close>)
qed

lemma simulates_do:
  assumes sim: "simulates (st, hs) fs" and i: "i < length hs" and m: "modify save (exec f) (hs ! i) st = Some st'"
  shows "\<exists>v. spec f (last fs ! i) = Some v \<and> simulates (st', hs) (butlast fs @ [(last fs)[i := v]])"
proof -
  note st = sim_linked [OF sim]
  obtain v where v: "spec f (last fs ! i) = Some v" "linked st'" and lev: "getLevel st' = getLevel st"
    and tr: "tracks (getLevel st) (heap st') (hs ! i) ((\<lambda>L. fs ! L ! i)(getLevel st := v))"
      "\<And>x G. tracks (getLevel st) (heap st) x G \<Longrightarrow> x \<noteq> hs ! i \<Longrightarrow> tracks (getLevel st) (heap st') x G"
    using tracks_modify [OF st sim_tracks [OF sim i], of f] m by (auto simp: sim_last [OF sim])
  let ?fs = "butlast fs @ [(last fs)[i := v]]"
  have nth: "?fs ! L = (if L = getLevel st then (fs ! getLevel st)[i := v] else fs ! L)" if "L \<le> getLevel st" for L
    using that sim_length [OF sim] by (auto simp: nth_append nth_butlast sim_last [OF sim])
  have "simulates (st', hs) ?fs"
  proof (rule simulatesI)
    fix j assume j: "j < length hs"
    show "tracks (getLevel st') (heap st') (hs ! j) (\<lambda>L. ?fs ! L ! j)"
    proof (cases "j = i")
      case True
      show ?thesis
        unfolding lev True by (rule tracks_cong [OF tr(1)]) (use i sim_width [OF sim] in \<open>auto simp: nth\<close>)
    next
      case False
      then have "hs ! j \<noteq> hs ! i"
        using sim_distinct [OF sim] i j by (simp add: nth_eq_iff_index_eq)
      from tr(2) [OF sim_tracks [OF sim j] this] show ?thesis
        unfolding lev by (rule tracks_cong) (use False sim_width [OF sim] in \<open>auto simp: nth\<close>)
    qed
  next
    show "length (?fs ! L) = length hs" if "L \<le> getLevel st'" for L
      using that sim_width [OF sim] by (simp add: nth lev)
  qed (use simulatesD [OF sim] v(2) lev in auto)
  with v(1) show ?thesis
    by blast
qed

lemma simulates_step:
  assumes sim: "simulates (st, hs) fs" and p: "initial_ok p"
  shows "rel_option simulates (ctx_step save restore exec p (st, hs)) (snap_step view spec p fs)"
proof (cases p)
  case Push
  then show ?thesis
    using simulates_push [OF sim] by simp
next
  case Pop
  have "ctx_pop restore st = None \<longleftrightarrow> getLevel st = 0"
  proof (cases "getLevel st = 0")
    case False
    then obtain st' where "ctx_pop restore st = Some st'"
      using linked_pop [OF sim_linked [OF sim], where restore = restore] by blast
    with False show ?thesis by simp
  qed (simp add: ctx_pop_def)
  with Pop show ?thesis
    using simulates_pop [OF sim] sim_length [OF sim] by (auto split: option.splits)
next
  case (New d)
  then show ?thesis
    using simulates_new [OF sim] p by (auto simp: initial_ok_def split: prod.splits)
next
  case (Do i f)
  show ?thesis
  proof (cases "modify save (exec f) (hs ! i) st")
    case None
    then show ?thesis
      using tracks_modify [OF sim_linked [OF sim] sim_tracks [OF sim, of i], where f = f] Do sim_width [OF sim, of "getLevel st"]
      by (auto simp: sim_last [OF sim])
  next
    case (Some st')
    then show ?thesis
      using simulates_do [OF sim _ Some] Do sim_width [OF sim, of "getLevel st"] by (auto simp: sim_last [OF sim])
  qed
qed

lemma simulates_run:
  assumes "simulates s fs" "list_all initial_ok ps"
  shows "rel_option simulates (ctx_run save restore exec ps s) (snap_run view spec ps fs)"
  using assms
proof (induction ps arbitrary: s fs)
  case (Cons p ps)
  obtain st hs where s: "s = (st, hs)" by fastforce
  from simulates_step [OF Cons.prems(1) [unfolded s], of p] Cons.prems(2) Cons.IH show ?case
    unfolding s by (cases "ctx_step save restore exec p (st, hs)"; cases "snap_step view spec p fs") auto
qed simp

lemma simulates_Context: "simulates (Context, []) [[]]"
  using linked_Context by (simp add: simulates_def getLevel_def Context_def)

theorem snapshots:
  assumes "list_all initial_ok ps"
  shows "map_option (observe view) (ctx_run save restore exec ps (Context, [])) =
    map_option (\<lambda>fs. map Some (last fs)) (snap_run view spec ps [[]])"
  using simulates_run [OF simulates_Context assms] simulates_observe by (cases rule: option.rel_cases) auto

end

end
