(* ===== verification/Context_Objects.thy ===== *)
theory Context_Objects
  imports Context_Snapshots
begin

text \<open>
  The classes of context-dependent objects: \<^verbatim>\<open>CDO\<close> (\<^verbatim>\<open>cdo.h\<close>), \<^verbatim>\<open>CDList\<close> (\<^verbatim>\<open>cdlist.h\<close>), \<^verbatim>\<open>CDQueue\<close>
  (\<^verbatim>\<open>cdqueue.h\<close>) and \<^verbatim>\<open>CDInsertHashMap\<close> (\<^verbatim>\<open>cdinsert_hashmap.h\<close>). Each class saves only what its
  \<^verbatim>\<open>restore\<close> needs (a list its size, a queue its size and indices), so that saving is cheap; the
  interpretation of the contract shows that this is enough.
\<close>

section \<open>Lists\<close>

record 'a cdlist =
  d_list :: "'a list"
  d_size :: nat

definition CDList :: "'a cdlist" where
  "CDList = \<lparr>d_list = [], d_size = 0\<rparr>"

definition push_back :: "'a \<Rightarrow> ('a, 'x) cdlist_scheme \<Rightarrow> ('a, 'x) cdlist_scheme" where
  "push_back data l = l\<lparr>d_list := d_list l @ [data], d_size := d_size l + 1\<rparr>"

text \<open>The caller ensures that the new size is not larger.\<close>

definition truncateList :: "nat \<Rightarrow> ('a, 'x) cdlist_scheme \<Rightarrow> ('a, 'x) cdlist_scheme" where
  "truncateList n l = l\<lparr>d_size := n, d_list := take n (d_list l)\<rparr>"

definition CDList_copy :: "('a, 'x) cdlist_scheme \<Rightarrow> ('a, 'x) cdlist_scheme" where
  "CDList_copy l = l\<lparr>d_list := []\<rparr>"

definition CDList_restore :: "('a, 'x) cdlist_scheme \<Rightarrow> ('a, 'x) cdlist_scheme \<Rightarrow> ('a, 'x) cdlist_scheme" where
  "CDList_restore l data = truncateList (d_size data) l"

section \<open>Queues\<close>

record 'a cdqueue = "'a cdlist" +
  d_iter :: nat
  d_lastsave :: nat

definition CDQueue :: "'a cdqueue" where
  "CDQueue = \<lparr>d_list = [], d_size = 0, d_iter = 0, d_lastsave = 0\<rparr>"

definition CDQueue_save :: "'a cdqueue \<Rightarrow> 'a cdqueue \<times> 'a cdqueue" where
  "CDQueue_save q = (CDList_copy q, q\<lparr>d_lastsave := d_size q\<rparr>)"

definition CDQueue_restore :: "'a cdqueue \<Rightarrow> 'a cdqueue \<Rightarrow> 'a cdqueue" where
  "CDQueue_restore q data = CDList_restore (q\<lparr>d_iter := d_iter data, d_lastsave := d_lastsave data\<rparr>) data"

definition CDQueue_empty :: "'a cdqueue \<Rightarrow> bool" where
  "CDQueue_empty q = (d_iter q = d_size q)"

definition CDQueue_pop :: "'a cdqueue \<Rightarrow> 'a cdqueue option" where
  "CDQueue_pop q =
     (if CDQueue_empty q then None
      else let q = q\<lparr>d_iter := d_iter q + 1\<rparr>
           in Some (if CDQueue_empty q \<and> d_lastsave q \<noteq> d_size q
                    then (truncateList (d_lastsave q) q)\<lparr>d_iter := d_lastsave q\<rparr> else q))"

definition CDQueue_front :: "'a cdqueue \<Rightarrow> 'a option" where
  "CDQueue_front q = (if CDQueue_empty q then None else Some (d_list q ! d_iter q))"

section \<open>Insert-only hash maps\<close>

record ('k, 'v) insertHashMap =
  d_keys :: "'k list"
  d_hashMap :: "'k \<Rightarrow> 'v option"

definition ihm_contains :: "'k \<Rightarrow> ('k, 'v) insertHashMap \<Rightarrow> bool" where
  "ihm_contains k m = (d_hashMap m k \<noteq> None)"

definition ihm_push_back :: "'k \<Rightarrow> 'v \<Rightarrow> ('k, 'v) insertHashMap \<Rightarrow> ('k, 'v) insertHashMap option" where
  "ihm_push_back k d m =
     (if ihm_contains k m then None else Some (m\<lparr>d_hashMap := (d_hashMap m)(k \<mapsto> d), d_keys := d_keys m @ [k]\<rparr>))"

definition ihm_pop_back :: "('k, 'v) insertHashMap \<Rightarrow> ('k, 'v) insertHashMap" where
  "ihm_pop_back m = m\<lparr>d_hashMap := (d_hashMap m)(last (d_keys m) := None), d_keys := butlast (d_keys m)\<rparr>"

function pop_to_size :: "nat \<Rightarrow> ('k, 'v) insertHashMap \<Rightarrow> ('k, 'v) insertHashMap" where
  "pop_to_size s m = (if s < length (d_keys m) then pop_to_size s (ihm_pop_back m) else m)"
  by pat_completeness auto
termination
  by (relation "measure (\<lambda>(s, m). length (d_keys m))") (auto simp: ihm_pop_back_def)

declare pop_to_size.simps [simp del]

record ('k, 'v) cdInsertHashMap =
  d_insertMap :: "('k, 'v) insertHashMap option"
  d_mapSize :: nat

definition CDInsertHashMap :: "('k, 'v) cdInsertHashMap" where
  "CDInsertHashMap = \<lparr>d_insertMap = Some \<lparr>d_keys = [], d_hashMap = (\<lambda>k. None)\<rparr>, d_mapSize = 0\<rparr>"

definition CDInsertHashMap_copy :: "('k, 'v) cdInsertHashMap \<Rightarrow> ('k, 'v) cdInsertHashMap" where
  "CDInsertHashMap_copy m = \<lparr>d_insertMap = None, d_mapSize = d_mapSize m\<rparr>"

definition CDInsertHashMap_restore :: "('k, 'v) cdInsertHashMap \<Rightarrow> ('k, 'v) cdInsertHashMap \<Rightarrow> ('k, 'v) cdInsertHashMap" where
  "CDInsertHashMap_restore m data =
     m\<lparr>d_insertMap := map_option (pop_to_size (d_mapSize data)) (d_insertMap m), d_mapSize := d_mapSize data\<rparr>"

definition CDInsertHashMap_insert :: "'k \<Rightarrow> 'v \<Rightarrow> ('k, 'v) cdInsertHashMap \<Rightarrow> ('k, 'v) cdInsertHashMap option" where
  "CDInsertHashMap_insert k d m =
     (case d_insertMap m of
        None \<Rightarrow> None
      | Some i \<Rightarrow> map_option (\<lambda>i. m\<lparr>d_mapSize := d_mapSize m + 1, d_insertMap := Some i\<rparr>) (ihm_push_back k d i))"

section \<open>Objects of a context\<close>

datatype ('a, 'k) cd_obj = Is_CDO 'a | Is_CDList "'a cdlist" | Is_CDQueue "'a cdqueue" | Is_CDInsertHashMap "('k, 'a) cdInsertHashMap"

datatype ('a, 'k) cd_op = Set 'a | Push_back 'a | Enqueue 'a | Dequeue | Insert 'k 'a

fun cd_save :: "('a, 'k) cd_obj save" where
  "cd_save (Is_CDO d) = (Is_CDO d, Is_CDO d)"
| "cd_save (Is_CDList l) = (Is_CDList (CDList_copy l), Is_CDList l)"
| "cd_save (Is_CDQueue q) = (case CDQueue_save q of (s, q') \<Rightarrow> (Is_CDQueue s, Is_CDQueue q'))"
| "cd_save (Is_CDInsertHashMap m) = (Is_CDInsertHashMap (CDInsertHashMap_copy m), Is_CDInsertHashMap m)"

fun cd_restore :: "('a, 'k) cd_obj restore" where
  "cd_restore (Is_CDO d) (Is_CDO s) = Is_CDO s"
| "cd_restore (Is_CDList l) (Is_CDList s) = Is_CDList (CDList_restore l s)"
| "cd_restore (Is_CDQueue q) (Is_CDQueue s) = Is_CDQueue (CDQueue_restore q s)"
| "cd_restore (Is_CDInsertHashMap m) (Is_CDInsertHashMap s) = Is_CDInsertHashMap (CDInsertHashMap_restore m s)"
| "cd_restore d s = d"

fun cd_exec :: "('a, 'k) cd_op \<Rightarrow> ('a, 'k) cd_obj \<Rightarrow> ('a, 'k) cd_obj option" where
  "cd_exec (Set data) (Is_CDO d) = Some (Is_CDO data)"
| "cd_exec (Push_back data) (Is_CDList l) = Some (Is_CDList (push_back data l))"
| "cd_exec (Enqueue data) (Is_CDQueue q) = Some (Is_CDQueue (push_back data q))"
| "cd_exec Dequeue (Is_CDQueue q) = map_option Is_CDQueue (CDQueue_pop q)"
| "cd_exec (Insert k data) (Is_CDInsertHashMap m) = map_option Is_CDInsertHashMap (CDInsertHashMap_insert k data m)"
| "cd_exec f d = None"

section \<open>What clients see\<close>

text \<open>A cell, a sequence, a first-in first-out queue, a map in the order of insertion.\<close>

datatype ('a, 'k) cd_val = Cell 'a | Seq "'a list" | Fifo "'a list" | Table "('k \<times> 'a) list"

fun cd_view :: "('a, 'k) cd_obj \<Rightarrow> ('a, 'k) cd_val" where
  "cd_view (Is_CDO d) = Cell d"
| "cd_view (Is_CDList l) = Seq (d_list l)"
| "cd_view (Is_CDQueue q) = Fifo (drop (d_iter q) (d_list q))"
| "cd_view (Is_CDInsertHashMap m) =
     Table (case d_insertMap m of None \<Rightarrow> [] | Some i \<Rightarrow> map (\<lambda>k. (k, the (d_hashMap i k))) (d_keys i))"

fun cd_spec :: "('a, 'k) cd_op \<Rightarrow> ('a, 'k) cd_val \<Rightarrow> ('a, 'k) cd_val option" where
  "cd_spec (Set data) (Cell d) = Some (Cell data)"
| "cd_spec (Push_back data) (Seq xs) = Some (Seq (xs @ [data]))"
| "cd_spec (Enqueue data) (Fifo xs) = Some (Fifo (xs @ [data]))"
| "cd_spec Dequeue (Fifo xs) = (case xs of [] \<Rightarrow> None | x # xs \<Rightarrow> Some (Fifo xs))"
| "cd_spec (Insert k data) (Table t) = (if k \<in> fst ` set t then None else Some (Table (t @ [(k, data)])))"
| "cd_spec f v = None"

section \<open>The contract holds\<close>

definition ihm_ok :: "('k, 'v) insertHashMap \<Rightarrow> bool" where
  "ihm_ok i \<longleftrightarrow> distinct (d_keys i) \<and> dom (d_hashMap i) = set (d_keys i)"

fun cd_wf :: "('a, 'k) cd_obj \<Rightarrow> bool" where
  "cd_wf (Is_CDO d) = True"
| "cd_wf (Is_CDList l) = (d_size l = length (d_list l))"
| "cd_wf (Is_CDQueue q) = (d_size q = length (d_list q) \<and> d_iter q \<le> d_size q \<and> d_lastsave q \<le> d_size q)"
| "cd_wf (Is_CDInsertHashMap m) = (case d_insertMap m of None \<Rightarrow> False | Some i \<Rightarrow> ihm_ok i \<and> d_mapSize m = length (d_keys i))"

fun cd_ok :: "('a, 'k) cd_obj \<Rightarrow> ('a, 'k) cd_obj \<Rightarrow> bool" where
  "cd_ok (Is_CDO s) (Is_CDO d) = True"
| "cd_ok (Is_CDList s) (Is_CDList l) = (d_size s \<le> d_size l)"
| "cd_ok (Is_CDQueue s) (Is_CDQueue q) = (d_size s \<le> d_lastsave q)"
| "cd_ok (Is_CDInsertHashMap s) (Is_CDInsertHashMap m) = (d_mapSize s \<le> d_mapSize m)"
| "cd_ok s d = False"

lemma ihm_pop_back_snoc:
  assumes "ihm_ok (m\<lparr>d_hashMap := (d_hashMap m)(k \<mapsto> d), d_keys := d_keys m @ [k]\<rparr>)" "ihm_ok m"
  shows "ihm_pop_back (m\<lparr>d_hashMap := (d_hashMap m)(k \<mapsto> d), d_keys := d_keys m @ [k]\<rparr>) = m"
proof -
  have "d_hashMap m k = None"
    using assms by (auto simp: ihm_ok_def)
  then show ?thesis
    by (cases m) (auto simp: ihm_pop_back_def fun_eq_iff)
qed

lemma ihm_push_backD:
  assumes "ihm_ok m" "ihm_push_back k d m = Some m'"
  shows "ihm_ok m'" "d_keys m' = d_keys m @ [k]" "k \<notin> set (d_keys m)" "d_hashMap m' = (d_hashMap m)(k \<mapsto> d)" "ihm_pop_back m' = m"
proof -
  have m': "m' = m\<lparr>d_hashMap := (d_hashMap m)(k \<mapsto> d), d_keys := d_keys m @ [k]\<rparr>" and k: "d_hashMap m k = None"
    using assms(2) by (auto simp: ihm_push_back_def ihm_contains_def split: if_splits)
  then show ok: "ihm_ok m'" "k \<notin> set (d_keys m)"
    using assms(1) by (auto simp: ihm_ok_def)
  then show "ihm_pop_back m' = m"
    using ihm_pop_back_snoc [of m k d] assms(1) m' by simp
qed (use assms(2) in \<open>auto simp: ihm_push_back_def split: if_splits\<close>)

lemma pop_to_size_push_back:
  assumes "ihm_ok m" "ihm_push_back k d m = Some m'" "s \<le> length (d_keys m)"
  shows "pop_to_size s m' = pop_to_size s m"
  using ihm_push_backD [OF assms(1,2)] assms(3) by (simp add: pop_to_size.simps [of s m'])

lemma cd_save_law:
  assumes "cd_wf d" "cd_save d = (s, d')"
  shows "cd_wf d' \<and> cd_ok s d' \<and> cd_restore d' s = d \<and> cd_view d' = cd_view d"
  using assms
  by (cases d) (auto simp: CDList_copy_def CDList_restore_def CDQueue_save_def CDQueue_restore_def truncateList_def
    CDInsertHashMap_copy_def CDInsertHashMap_restore_def pop_to_size.simps split: option.splits)

lemma ihm_table: "ihm_ok i \<Longrightarrow> fst ` set (map (\<lambda>k. (k, the (d_hashMap i k))) (d_keys i)) = dom (d_hashMap i)"
  by (force simp: ihm_ok_def)

lemma cd_exec_Insert:
  assumes "d_insertMap m = Some i" "ihm_ok i"
  shows "map_option cd_view (cd_exec (Insert k data) (Is_CDInsertHashMap m)) = cd_spec (Insert k data) (cd_view (Is_CDInsertHashMap m))"
proof (cases "ihm_push_back k data i")
  case None
  then show ?thesis
    using assms ihm_table [OF assms(2)] by (auto simp: CDInsertHashMap_insert_def ihm_push_back_def ihm_contains_def split: if_splits)
next
  case (Some i')
  note p = ihm_push_backD [OF assms(2) Some]
  have "map (\<lambda>k'. (k', the (d_hashMap i' k'))) (d_keys i) = map (\<lambda>k'. (k', the (d_hashMap i k'))) (d_keys i)"
    using p(3,4) by auto
  with Some show ?thesis
    using assms p(2-4) by (auto simp: CDInsertHashMap_insert_def)
qed

lemma CDQueue_popE:
  assumes "CDQueue_pop q = Some q'" "cd_wf (Is_CDQueue q)"
  obtains "d_iter q < d_size q" "q' = q\<lparr>d_iter := d_iter q + 1\<rparr>"
  | "d_size q = d_iter q + 1" "d_lastsave q \<le> d_iter q" "q' = q\<lparr>d_size := d_lastsave q, d_list := take (d_lastsave q) (d_list q), d_iter := d_lastsave q\<rparr>"
  using assms by (cases "d_iter q + 1 = d_size q")
    (auto simp: CDQueue_pop_def CDQueue_empty_def truncateList_def Let_def split: if_splits)

lemma cd_exec_Dequeue:
  assumes "cd_wf (Is_CDQueue q)"
  shows "map_option cd_view (cd_exec Dequeue (Is_CDQueue q)) = cd_spec Dequeue (cd_view (Is_CDQueue q))"
proof (cases "CDQueue_pop q")
  case None
  then show ?thesis
    using assms by (auto simp: CDQueue_pop_def CDQueue_empty_def Let_def split: if_splits)
next
  case (Some q')
  from Some assms show ?thesis
  proof (cases rule: CDQueue_popE)
    case 1
    then show ?thesis
      using Some assms by (simp flip: Cons_nth_drop_Suc)
  next
    case 2
    then show ?thesis
      using Some assms by (simp flip: Cons_nth_drop_Suc)
  qed
qed

lemma cd_exec_view:
  assumes "cd_wf d"
  shows "map_option cd_view (cd_exec f d) = cd_spec f (cd_view d)"
proof (cases d)
  case (Is_CDQueue q)
  then show ?thesis
    using cd_exec_Dequeue assms by (cases f) (simp_all add: push_back_def)
next
  case (Is_CDInsertHashMap m)
  then obtain i where "d_insertMap m = Some i" "ihm_ok i"
    using assms by (auto split: option.splits)
  from cd_exec_Insert [OF this] show ?thesis
    unfolding Is_CDInsertHashMap by (cases f) simp_all
qed (cases f; simp add: push_back_def)+

lemma cd_exec_laws:
  assumes "cd_wf d" "cd_exec f d = Some d'"
  shows "cd_wf d'" "cd_ok s d \<Longrightarrow> cd_ok s d' \<and> cd_restore d' s = cd_restore d s"
proof -
  have "cd_wf d' \<and> (cd_ok s d \<longrightarrow> cd_ok s d' \<and> cd_restore d' s = cd_restore d s)"
  proof (cases d)
    case (Is_CDO v)
    then show ?thesis
      using assms by (cases f; cases s) auto
  next
    case (Is_CDList l)
    then show ?thesis
      using assms by (cases f; cases s) (auto simp: push_back_def CDList_restore_def truncateList_def)
  next
    case (Is_CDQueue q)
    show ?thesis
    proof (cases "f = Dequeue")
      case True
      then obtain q' where q': "CDQueue_pop q = Some q'" "d' = Is_CDQueue q'"
        using assms Is_CDQueue by auto
      from q'(1) assms(1) [unfolded Is_CDQueue] show ?thesis
        by (cases rule: CDQueue_popE; cases s)
          (use assms(1) Is_CDQueue q'(2) in \<open>auto simp: CDQueue_restore_def CDList_restore_def truncateList_def min_def\<close>)
    next
      case False
      then show ?thesis
        using assms Is_CDQueue
        by (cases f; cases s) (auto simp: push_back_def CDQueue_restore_def CDList_restore_def truncateList_def)
    qed
  next
    case (Is_CDInsertHashMap m)
    then obtain i where i: "d_insertMap m = Some i" "ihm_ok i" "d_mapSize m = length (d_keys i)"
      using assms by (auto split: option.splits)
    from assms(2) Is_CDInsertHashMap i(1) obtain k v i' where f: "f = Insert k v" "ihm_push_back k v i = Some i'"
      "d' = Is_CDInsertHashMap (m\<lparr>d_mapSize := d_mapSize m + 1, d_insertMap := Some i'\<rparr>)"
      by (cases f) (auto simp: CDInsertHashMap_insert_def)
    note p = ihm_push_backD [OF i(2) f(2)]
    show ?thesis
      using p(1,2) i Is_CDInsertHashMap f(3) pop_to_size_push_back [OF i(2) f(2)]
      by (cases s) (auto simp: CDInsertHashMap_restore_def)
  qed
  then show "cd_wf d'" "cd_ok s d \<Longrightarrow> cd_ok s d' \<and> cd_restore d' s = cd_restore d s"
    by auto
qed

interpretation cd: context_obj cd_save cd_restore cd_exec cd_spec cd_view cd_wf cd_ok
  by unfold_locales (rule cd_save_law cd_exec_view cd_exec_laws(1) cd_exec_laws(2); assumption)+

text \<open>A client builds its objects with the constructors of the classes.\<close>

fun cd_new :: "('a, 'k) cd_obj \<Rightarrow> bool" where
  "cd_new (Is_CDO d) = True"
| "cd_new (Is_CDList l) = (l = CDList)"
| "cd_new (Is_CDQueue q) = (q = CDQueue)"
| "cd_new (Is_CDInsertHashMap m) = (m = CDInsertHashMap)"

definition cd_client :: "(('a, 'k) cd_obj, ('a, 'k) cd_op) ctx_op \<Rightarrow> bool" where
  "cd_client p = (case p of New d \<Rightarrow> cd_new d | _ \<Rightarrow> True)"

lemma cd_client_initial: "cd_client p \<Longrightarrow> cd.initial_ok p"
  by (cases p) (auto simp: cd_client_def cd.initial_ok_def CDList_def CDQueue_def CDInsertHashMap_def ihm_ok_def elim!: cd_new.elims)

text \<open>The states a client reaches.\<close>

lemma cd_reachable:
  assumes "list_all cd_client ps" "ctx_run cd_save cd_restore cd_exec ps (Context, []) = Some (st, hs)"
  obtains fs where "cd.simulates (st, hs) fs"
proof -
  have "list_all cd.initial_ok ps"
    using assms(1) cd_client_initial by (auto simp: list_all_iff)
  from cd.simulates_run [OF cd.simulates_Context this] assms(2) that show thesis
    by (auto elim: option.rel_cases)
qed

lemma popto_returns:
  assumes "linked st"
  shows "\<exists>st'. popto restore n st = Some st' \<and> linked st' \<and> getLevel st' = min n (getLevel st)"
  using assms
proof (induction restore n st rule: popto.induct)
  case (1 restore n st)
  show ?case
  proof (cases "n < getLevel st")
    case True
    then obtain st1 where st1: "ctx_pop restore st = Some st1" "linked st1" "getLevel st1 = getLevel st - 1"
      using linked_pop [OF "1.prems"] by (metis less_nat_zero_code neq0_conv)
    from "1.IH" [OF True st1(1,2)] show ?thesis
      using True st1 by (auto simp: popto.simps [of restore n st])
  next
    case False
    then show ?thesis
      using "1.prems" by (simp add: popto.simps)
  qed
qed

section \<open>Properties\<close>

text \<open>
  C4: a client that creates values, lists, queues and maps, changes them and pushes and pops scopes
  reads, at every moment, the values of the top snapshot of a stack of snapshots, where push copies
  the top snapshot, pop drops it and a change replaces one value of it; an operation fails exactly
  when it fails on the snapshots.
\<close>

theorem context_refines_snapshots:
  assumes "list_all cd_client ps"
  shows "map_option (observe cd_view) (ctx_run cd_save cd_restore cd_exec ps (Context, [])) =
    map_option (\<lambda>fs. map Some (last fs)) (snap_run cd_view cd_spec ps [[]])"
  using assms cd_client_initial by (intro cd.snapshots) (auto simp: list_all_iff)

text \<open>
  C21: no pointer dangles: in every state a client reaches, the restore pointer of an allocated
  object refers to an allocated copy, the lists of the scopes hold allocated objects only, each one
  in the list of its own scope and once, and the objects of the client are never freed by a pop.
\<close>

theorem context_no_dangling:
  assumes "list_all cd_client ps" "ctx_run cd_save cd_restore cd_exec ps (Context, []) = Some (st, hs)"
  shows "(\<forall>a c b. heap st a = Some c \<and> d_pContextObjRestore c = Some b \<longrightarrow> heap st b \<noteq> None) \<and>
    (\<forall>l < length (d_scopeList st). distinct (d_scopeList st ! l) \<and>
       (\<forall>a \<in> set (d_scopeList st ! l). \<exists>c. heap st a = Some c \<and> d_pScope c = Some l)) \<and>
    (\<forall>a \<in> set hs. heap st a \<noteq> None)"
proof -
  obtain fs where sim: "cd.simulates (st, hs) fs"
    by (rule cd_reachable [OF assms])
  note st = cd.sim_linked [OF sim]
  have "heap st b \<noteq> None" if "heap st a = Some c" "d_pContextObjRestore c = Some b" for a b c
    using cd.linked_closed(1) [OF st that] .
  moreover have "heap st a \<noteq> None" if "a \<in> set hs" for a
    using cd.sim_tracks [OF sim] that unfolding cd.tracks_def in_set_conv_nth by blast
  ultimately show ?thesis
    using linked_distinct [OF st] linked_chain [OF st] by blast
qed

text \<open>
  C35: popping to a level always returns, at that level, from every state a client reaches.
\<close>

theorem popto_reaches_level:
  assumes "list_all cd_client ps" "ctx_run cd_save cd_restore cd_exec ps (Context, []) = Some (st, hs)"
  shows "\<exists>st'. popto cd_restore n st = Some st' \<and> getLevel st' = min n (getLevel st)"
proof -
  obtain fs where "cd.simulates (st, hs) fs"
    by (rule cd_reachable [OF assms])
  from popto_returns [OF cd.sim_linked [OF this]] show ?thesis
    by blast
qed

section \<open>Witnesses\<close>

text \<open>
  A queue and a list are filled at level 0; at level 1 the queue is drained and refilled; after the
  pop the elements are back.
\<close>

definition demo_ops :: "((nat, nat) cd_obj, (nat, nat) cd_op) ctx_op list" where
  "demo_ops = [New (Is_CDQueue CDQueue), New (Is_CDList CDList), Do 0 (Enqueue 1), Do 0 (Enqueue 2), Do 1 (Push_back 7),
     Push, Do 0 Dequeue, Do 0 (Enqueue 3), Do 0 Dequeue, Do 0 Dequeue, Do 1 (Push_back 8)]"

lemmas demo_simps = demo_ops_def cd_client_def CDQueue_def CDList_def snap_run.simps snap_step.simps Context_def ctx_push_def
  ContextObj_def addToChain_def modify_def makeCurrent_def update_def relink_def getLevel_def push_back_def CDQueue_pop_def
  CDQueue_empty_def CDQueue_save_def CDList_copy_def truncateList_def observe_def Let_def

lemma demo_run: "\<exists>st hs. ctx_run cd_save cd_restore cd_exec demo_ops (Context, []) = Some (st, hs) \<and> getLevel st = 1"
  by (simp add: demo_simps)

theorem context_refines_snapshots_witness:
  "list_all cd_client (demo_ops @ [Pop]) \<and>
   map_option (observe cd_view) (ctx_run cd_save cd_restore cd_exec (demo_ops @ [Pop]) (Context, [])) =
     Some [Some (Fifo [1, 2]), Some (Seq [7])]"
proof -
  have c: "list_all cd_client (demo_ops @ [Pop])"
    by (simp add: demo_ops_def cd_client_def)
  show ?thesis
    using context_refines_snapshots [OF c] c by (simp add: demo_ops_def CDQueue_def CDList_def)
qed

theorem context_no_dangling_witness:
  "\<exists>st hs. ctx_run cd_save cd_restore cd_exec demo_ops (Context, []) = Some (st, hs) \<and> (\<forall>a \<in> set hs. heap st a \<noteq> None)"
proof -
  obtain st hs where r: "ctx_run cd_save cd_restore cd_exec demo_ops (Context, []) = Some (st, hs)"
    using demo_run by blast
  have c: "list_all cd_client demo_ops"
    by (simp add: demo_ops_def cd_client_def)
  show ?thesis
    using context_no_dangling [OF c r] r by blast
qed

theorem popto_reaches_level_witness:
  "\<exists>st hs st'. ctx_run cd_save cd_restore cd_exec demo_ops (Context, []) = Some (st, hs) \<and> popto cd_restore 0 st = Some st' \<and> getLevel st' = 0"
proof -
  obtain st hs where r: "ctx_run cd_save cd_restore cd_exec demo_ops (Context, []) = Some (st, hs)" "getLevel st = 1"
    using demo_run by blast
  have c: "list_all cd_client demo_ops"
    by (simp add: demo_ops_def cd_client_def)
  show ?thesis
    using popto_reaches_level [OF c r(1), of 0] r by auto
qed

end
