(* ===== verification/Spec2Isabelle.thy ===== *)
theory Spec2Isabelle
  imports Bitblaster_Atoms Cnf_Solver Cadical_Trail Bv_Theory_Sound Bv_Solver_Sound Bool_Checker_Sound Bool_Nnf_Sound Context_Objects
begin

text \<open>
  Verification of the propositional and bit-vector core of the SMT solver of this repository. Source
  paths are relative to \<^verbatim>\<open>src/src\<close>.

  \<^bold>\<open>The program and its parts.\<close> The solver decides formulas over several theories. Assertions are
  rewritten, the theories see the atoms, and the Boolean structure goes to a SAT solver as clauses. The
  development follows a bit-vector problem on this path. Constants are values of \<^verbatim>\<open>BitVector\<close>
  (\<^verbatim>\<open>util/bitvector.cpp\<close>) over \<^verbatim>\<open>Integer\<close> (\<^verbatim>\<open>util/integer_gmp_imp.cpp\<close>). Terms are nodes with a kind and
  children (\<^verbatim>\<open>expr\<close>), typed by type rules and evaluated by \<^verbatim>\<open>theory/evaluator.cpp\<close>. The theory of
  bit-vectors preprocesses and rewrites terms (\<^verbatim>\<open>theory/bv/theory_bv.cpp\<close>,
  \<^verbatim>\<open>theory/bv/theory_bv_rewriter.cpp\<close> and the rules it includes), and its bit-blaster
  (\<^verbatim>\<open>theory/bv/bitblast\<close>) turns atoms into Boolean formulas over the bits of variables. The Boolean
  rewriter (\<^verbatim>\<open>theory/booleans/theory_bool_rewriter.cpp\<close>) simplifies the formulas, \<^verbatim>\<open>CnfStream\<close>
  (\<^verbatim>\<open>prop/cnf_stream.cpp\<close>) makes clauses of them and hands these through the interface
  \<^verbatim>\<open>SatClauseSink\<close> to \<^verbatim>\<open>CadicalSolver\<close> and \<^verbatim>\<open>CadicalPropagator\<close> (\<^verbatim>\<open>prop/cadical\<close>). Proof steps are checked by
  \<^verbatim>\<open>ProofChecker\<close> (\<^verbatim>\<open>proof/proof_checker.cpp\<close>) with the rules of
  \<^verbatim>\<open>theory/booleans/proof_checker.cpp\<close>. State that has to be undone on backtracking lives in a
  \<^verbatim>\<open>Context\<close> (\<^verbatim>\<open>context\<close>).

  \<^bold>\<open>Theories.\<close>
  \<^item> \<open>Prelude\<close>: wrap-around of unsigned integers, values of bit lists, shared lemma collections.
  \<^item> \<open>Ava_Integer\<close>, \<open>BitVectors\<close>: the two number classes, one definition per method. The GMP library is
    the record \<open>gmp\<close> of its functions, and the locale \<open>gmp_documented\<close> states their documented results;
    \<open>gmp_reference\<close> is an interpretation. Every operator of \<^verbatim>\<open>BitVector\<close> keeps the class invariant and
    refines the operation on words of its width.
  \<^item> \<open>Nodes\<close>, \<open>Type_Soundness\<close>, \<open>Sentences\<close>: the kinds of the Boolean, bit-vector and uninterpreted
    theories as the datatype \<open>kind\<close>, nodes, the type rules, evaluation in a model, and that evaluation
    respects the types. \<open>rewrites_to\<close> is what all rewrite rules are shown to satisfy: the type and the
    value in every model stay the same.
  \<^item> \<open>Bitblast_Utils\<close>, \<open>Bitblast_Division\<close>, \<open>Bitblaster\<close>, \<open>Bitblaster_Correct\<close>, \<open>Bitblaster_Sound\<close>,
    \<open>Bitblaster_Atoms\<close>: circuits, strategies, strategy tables and caches of the bit-blaster. The strategies
    rely on \<^verbatim>\<open>bbTerm\<close> through the locale \<open>bb_provider\<close>, which \<open>bbTerm\<close> is shown to satisfy. The bits of
    a term denote its value in every model, stored atoms are equivalent to the literals, and values read
    back from the SAT solver are right.
  \<^item> \<open>Bv_Terms\<close>, \<open>Bv_Elimination\<close>, \<open>Bv_Elimination_Correct\<close>, \<open>Bv_Overflow\<close>: the rules that eliminate derived
    operators and overflow predicates; the collection \<open>term_simps\<close> computes type, width and value of the
    terms that rules build.
  \<^item> \<open>Bv_Constant_Rules\<close>, \<open>Bv_Simplification\<close>, \<open>Bv_Core_Rules\<close>, \<open>Bv_Normalization\<close>: the other rewrite rules;
    \<^verbatim>\<open>RewriteRule<X>::applies\<close> is \<open>X_applies\<close> and \<^verbatim>\<open>RewriteRule<X>::apply\<close> is \<open>X\<close>, or \<open>X_apply\<close>. Their
    soundness is in \<open>Bv_Simplification_Correct\<close>, \<open>Bv_Shift_Rules\<close>, \<open>Bv_Nary_Rules\<close>, \<open>Bv_Extract_Rules\<close>,
    \<open>Bv_Extend_Rules\<close>, \<open>Bv_Signed_Rules\<close>, \<open>Bv_Normal_Sound\<close>, \<open>Bv_Sum_Rules\<close>, \<open>Bv_Coefficients\<close>,
    \<open>Bv_Bitwise_Rules\<close> and \<open>Bv_Slicing\<close>. The n-ary operators share the locale \<open>nary_operator\<close>, the bitwise
    ones \<open>bitwise_operator\<close> and \<open>lattice_operator\<close>.
  \<^item> \<open>Bv_Rewriter\<close>, \<open>Bv_Rewriter_Sound\<close>: the methods of the rewrite table, the table, and the rewrites that
    proofs name. \<open>rewrite_limits\<close> are the limits inside which the code is right.
  \<^item> \<open>Bv_Theory\<close>, \<open>Bv_Theory_Sound\<close>: the preprocessing of the theory, with the solving of linear equations.
  \<^item> \<open>Bv_Solver\<close>, \<open>Bv_Solver_Sound\<close>: the solver of the theory (\<^verbatim>\<open>theory/bv/bv_solver_bitblast_internal.cpp\<close>),
    which sends a lemma that defines each atom by its bit-blasted form, and the values of terms in the current
    assignment (\<^verbatim>\<open>TheoryBV::getValue\<close>, \<^verbatim>\<open>getEqualityStatus\<close>). The lemmas are true in every model, and the
    values are those of a model that agrees with the assignment.
  \<^item> \<open>Bool_Rewriter\<close>, \<open>Bool_Rewriter_Sound\<close>, \<open>Bool_Nnf\<close>, \<open>Bool_Nnf_Sound\<close>: the Boolean rewriter and the
    negation normal form, an iterative traversal with two caches.
  \<^item> \<open>Bool_Checker\<close>, \<open>Bool_Checker_Sound\<close>: one definition \<open>check_R\<close> per proof rule, the driver with its
    modes and pedantic levels, and the creation of proof nodes; every rule that is not trusted is sound, and
    so is every proof tree that is built.
  \<^item> \<open>Sat_Literals\<close>, \<open>Cadical\<close>, \<open>Cadical_Correct\<close>, \<open>Cadical_Levels\<close>, \<open>Cadical_Trail\<close>: literals as 64-bit
    words, the clause sink, and the wrapper of the SAT solver. The locale \<open>clause_sink\<close> is the contract of
    \<^verbatim>\<open>SatClauseSink\<close>, which the wrapper satisfies. Popping a user level gives back the models of the
    level below; the trail and the variable records stay in step under all notifications.
  \<^item> \<open>Cnf_Stream\<close>, \<open>Cnf_Correct\<close>, \<open>Cnf_Traversal\<close>, \<open>Cnf_Assert\<close>, \<open>Cnf_Back\<close>, \<open>Cnf_Solver\<close>: the conversion
    to clauses, for every solver that keeps the contract: it terminates, keeps exactly the valuations of the
    atoms that satisfy the asserted formulas, and an unsatisfiable clause set means that no model of the
    terms satisfies the formulas.
  \<^item> \<open>Context\<close>, \<open>Context_Correct\<close>, \<open>Context_Snapshots\<close>, \<open>Context_Objects\<close>: the heap of scopes and saved
    copies. The locales of \<open>Context_Snapshots\<close> are the contract of context-dependent classes; \<^verbatim>\<open>CDO\<close>,
    \<^verbatim>\<open>CDList\<close>, \<^verbatim>\<open>CDQueue\<close> and \<^verbatim>\<open>CDInsertHashMap\<close> satisfy it, and a context implements a stack of
    snapshots without dangling pointers.

  \<^bold>\<open>State and errors.\<close> An object is a record with the members of its class, and a method returns the
  updated record. Nodes are values, so pointer equality is equality of terms; comparisons of nodes use the
  identifiers of the node manager, the argument \<open>getId\<close>. A \<^verbatim>\<open>std::map\<close> keyed by nodes is a list in the order
  of the identifiers. \<^verbatim>\<open>Unreachable\<close>, \<^verbatim>\<open>Unimplemented\<close> and failed lookups are \<open>None\<close>; \<^verbatim>\<open>Assert\<close> is active in
  debug builds only and is not part of the model. Where it matters, theorems show that \<open>None\<close> does not
  occur.

  \<^bold>\<open>Fuel.\<close> \<^verbatim>\<open>bbTerm\<close> takes the depth of the recursion; \<open>depth n\<close> is enough. The loop of \<^verbatim>\<open>toCNF\<close> has two
  rounds for each node of the tree, before and after its children, since the cache of a node is filled when
  it is left. The loop of \<^verbatim>\<open>computeNnfNorm\<close> has the bound \<open>nnf_fuel\<close>: two rounds for each node that
  is not a negation, and two for a double negation. The loop of \<^verbatim>\<open>TheoryBV::getValue\<close> has the bound
  \<open>value_fuel\<close>: two rounds for an inner node and one for a leaf. The theorems on these functions state that they return. All
  other loops are structural or have a measure.

  \<^bold>\<open>Parameters.\<close> Code that is not part of the repository is an argument: the functions of GMP and the SAT
  library, which is the list of the clauses it holds and whose notifications are arbitrary. Inside the
  repository the identifiers of nodes, the assignment of the SAT solver, the full rewriter where the
  bit-blaster calls it, the conversion of integer comparisons and the normal form of polynomials are
  arguments as well, with their soundness as hypotheses.

  \<^bold>\<open>Limits found.\<close> The rewriter is sound for widths below $2^{31}$ and for products whose exponents of two do not
  overflow an unsigned sum. The rule \<^verbatim>\<open>MultSltMult\<close> is sound on the patterns it documents, and
  \<open>MultSltMult_unsound\<close> shows a term outside them that it also rewrites, wrongly. \<open>NegMult_never_applies\<close>
  shows that \<^verbatim>\<open>NegMult\<close> is dead. Literals are faithful for variables below $2^{62}$, and those passed to
  the library below $2^{31}$. Conversion to clauses needs formulas without double negation, which rewritten
  formulas are.

  \<^bold>\<open>Not modelled.\<close> The other theories and their combination, quantifiers, the equality engine, preprocessing
  passes, the fixpoint loop of the rewriter, the search of the SAT solver and the callbacks that reach the
  theory engine, the recording and printing of proofs, hash-consing and memory management of nodes, parsing,
  printing, options and the API. Of the modelled classes: strings, hashing and random numbers of the number
  classes, \<^verbatim>\<open>CDHashMap\<close> and the chunks of the context memory, the kinds for symbolic constants, sizes and
  eager atoms, the substitutions of \<^verbatim>\<open>ppAssert\<close>, and statistics and tracing throughout.
\<close>

end
